(* ===== verification/Prelude.thy ===== *)
theory Prelude
  imports Complex_Main "HOL-Library.Word"
begin

text \<open>
  Shared vocabulary of the development: fallible results with an early-return
  bind, positional digit lists (the numeral library under every
  hexadecimal, Base58 and RLP-length routine), and the two string operations of
  JavaScript that the sources use everywhere, \<open>substring\<close> and \<open>slice\<close>.
\<close>

named_theorems result_simps \<open>rewrite rules for fallible results\<close>

section \<open>Fallible results\<close>

type_synonym byte = "8 word"

text \<open>
  A function that may throw returns a sum: \<open>Inl e\<close> for a thrown \<open>e\<close>, \<open>Inr x\<close> for
  a returned \<open>x\<close>. \<open>bindE\<close> is the sequencing of JavaScript statements: a throw in
  the first one is the result of the whole.
\<close>

definition bindE :: "'e + 'a \<Rightarrow> ('a \<Rightarrow> 'e + 'b) \<Rightarrow> 'e + 'b" where
  "bindE m f = (case m of Inl e \<Rightarrow> Inl e | Inr x \<Rightarrow> f x)"

lemma bindE_simps [simp, result_simps]:
  "bindE (Inl e) f = Inl e"
  "bindE (Inr x) f = f x"
  by (simp_all add: bindE_def)

lemma bindE_cong [fundef_cong]:
  "m = m' \<Longrightarrow> (\<And>x. m' = Inr x \<Longrightarrow> f x = f' x) \<Longrightarrow> bindE m f = bindE m' f'"
  by (simp add: bindE_def split: sum.splits)

lemma bindE_eq_Inr [simp]: "bindE m f = Inr y \<longleftrightarrow> (\<exists>x. m = Inr x \<and> f x = Inr y)"
  by (cases m) auto

lemma bindE_eq_Inl: "bindE m f = Inl e \<longleftrightarrow> m = Inl e \<or> (\<exists>x. m = Inr x \<and> f x = Inl e)"
  by (cases m) auto

lemma bindE_assoc: "bindE (bindE m f) g = bindE m (\<lambda>x. bindE (f x) g)"
  by (cases m) auto

definition mapE :: "('a \<Rightarrow> 'b) \<Rightarrow> 'e + 'a \<Rightarrow> 'e + 'b" where
  "mapE f m = bindE m (\<lambda>x. Inr (f x))"

lemma mapE_simps [simp, result_simps]: "mapE f (Inl e) = Inl e" "mapE f (Inr x) = Inr (f x)"
  by (simp_all add: mapE_def)

lemma mapE_eq_Inr [simp]: "mapE f m = Inr y \<longleftrightarrow> (\<exists>x. m = Inr x \<and> y = f x)"
  by (cases m) auto

text \<open>The loop \<open>items.map(f)\<close>, left to right, stopping at the first throw.\<close>

primrec mapM :: "('a \<Rightarrow> 'e + 'b) \<Rightarrow> 'a list \<Rightarrow> 'e + 'b list" where
  "mapM f [] = Inr []"
| "mapM f (x # xs) = bindE (f x) (\<lambda>y. bindE (mapM f xs) (\<lambda>ys. Inr (y # ys)))"

lemma mapM_cong [fundef_cong]:
  "xs = ys \<Longrightarrow> (\<And>x. x \<in> set ys \<Longrightarrow> f x = g x) \<Longrightarrow> mapM f xs = mapM g ys"
  by (induction xs arbitrary: ys) auto

lemma mapM_Inr: "(\<And>x. x \<in> set xs \<Longrightarrow> f x = Inr (g x)) \<Longrightarrow> mapM f xs = Inr (map g xs)"
  by (induction xs) auto

lemma mapM_eq_Inr: "mapM f xs = Inr ys \<longleftrightarrow> list_all2 (\<lambda>x y. f x = Inr y) xs ys"
  by (induction xs arbitrary: ys) (auto simp: list_all2_Cons1)

lemma length_mapM: "mapM f xs = Inr ys \<Longrightarrow> length ys = length xs"
  by (auto simp: mapM_eq_Inr dest: list_all2_lengthD)

section \<open>Positional digits\<close>

text \<open>
  \<open>to_digits b n\<close> is the big-endian digit list of \<open>n\<close> in base \<open>b\<close>, empty for zero;
  \<open>of_digits b\<close> is Horner's rule, the loop \<open>result = result * b + d\<close> of every
  decoder.
\<close>

fun to_digits :: "nat \<Rightarrow> nat \<Rightarrow> nat list" where
  "to_digits b n = (if b < 2 \<or> n = 0 then [] else to_digits b (n div b) @ [n mod b])"

declare to_digits.simps [simp del]

definition of_digits :: "nat \<Rightarrow> nat list \<Rightarrow> nat" where
  "of_digits b ds = foldl (\<lambda>a d. a * b + d) 0 ds"

lemma to_digits_0 [simp]: "to_digits b 0 = []"
  by (subst to_digits.simps) simp

lemma to_digits_pos: "2 \<le> b \<Longrightarrow> 0 < n \<Longrightarrow> to_digits b n = to_digits b (n div b) @ [n mod b]"
  by (subst to_digits.simps) simp

lemma of_digits_Nil [simp]: "of_digits b [] = 0"
  by (simp add: of_digits_def)

lemma of_digits_snoc [simp]: "of_digits b (ds @ [d]) = of_digits b ds * b + d"
  by (simp add: of_digits_def)

lemma of_digits_append:
  "of_digits b (xs @ ys) = of_digits b xs * b ^ length ys + of_digits b ys"
  by (induction ys rule: rev_induct) (simp_all flip: append_assoc add: algebra_simps)

lemma of_digits_Cons: "of_digits b (d # ds) = d * b ^ length ds + of_digits b ds"
  using of_digits_append [of b "[d]" ds] by (simp add: of_digits_def)

lemma of_digits_single [simp]: "of_digits b [d] = d"
  by (simp add: of_digits_def)

lemma of_digits_0_Cons [simp]: "of_digits b (0 # ds) = of_digits b ds"
  by (simp add: of_digits_Cons)

lemma of_digits_replicate_0 [simp]: "of_digits b (replicate k 0 @ ds) = of_digits b ds"
  by (induction k) simp_all

lemma of_digits_to_digits [simp]: "2 \<le> b \<Longrightarrow> of_digits b (to_digits b n) = n"
proof (induction b n rule: to_digits.induct)
  case (1 b n)
  then show ?case by (cases "n = 0") (simp_all add: to_digits_pos)
qed

lemma to_digits_less: "d \<in> set (to_digits b n) \<Longrightarrow> d < b"
proof (induction b n rule: to_digits.induct)
  case (1 b n)
  show ?case
  proof (cases "b < 2 \<or> n = 0")
    case True
    then show ?thesis using "1.prems" by (simp add: to_digits.simps [of b n])
  next
    case False
    then have "d \<in> set (to_digits b (n div b)) \<or> d = n mod b"
      using "1.prems" by (auto simp add: to_digits.simps [of b n])
    then show ?thesis using False "1.IH" by auto
  qed
qed

lemma of_digits_bound: "\<forall>d \<in> set ds. d < b \<Longrightarrow> of_digits b ds < b ^ length ds"
proof (induction ds rule: rev_induct)
  case (snoc d ds)
  then have "of_digits b ds + 1 \<le> b ^ length ds" and "d < b" by auto
  then have "(of_digits b ds + 1) * b \<le> b ^ length ds * b" by (intro mult_right_mono) auto
  with \<open>d < b\<close> show ?case by (simp add: algebra_simps)
qed simp

lemma to_digits_eq_Nil_iff [simp]: "2 \<le> b \<Longrightarrow> to_digits b n = [] \<longleftrightarrow> n = 0"
  by (cases "n = 0") (simp_all add: to_digits_pos)

lemma to_digits_of_digits:
  "2 \<le> b \<Longrightarrow> \<forall>d \<in> set ds. d < b \<Longrightarrow> to_digits b (of_digits b ds) = dropWhile (\<lambda>d. d = 0) ds"
proof (induction ds rule: rev_induct)
  case (snoc d ds)
  then have IH: "to_digits b (of_digits b ds) = dropWhile (\<lambda>d. d = 0) ds" and d: "d < b" by auto
  show ?case
  proof (cases "of_digits b ds = 0")
    case True
    with IH have "dropWhile (\<lambda>d. d = 0) ds = []" by simp
    then have z: "\<forall>x \<in> set ds. x = 0" by (simp only: dropWhile_eq_Nil_conv)
    have "to_digits b d = (if d = 0 then [] else [d])"
      using snoc.prems(1) d by (simp add: to_digits_pos)
    with True z show ?thesis by (simp add: dropWhile_append)
  next
    case False
    with snoc.prems(1) have "dropWhile (\<lambda>d. d = 0) ds \<noteq> []" by (simp flip: IH)
    then have nz: "\<not> (\<forall>x \<in> set ds. x = 0)" by (simp only: dropWhile_eq_Nil_conv) simp
    have "to_digits b (of_digits b (ds @ [d])) = to_digits b (of_digits b ds) @ [d]"
      using False snoc.prems(1) d by (simp add: to_digits_pos)
    then show ?thesis using nz IH by (simp add: dropWhile_append)
  qed
qed simp

lemma hd_to_digits: "2 \<le> b \<Longrightarrow> 0 < n \<Longrightarrow> hd (to_digits b n) \<noteq> 0"
proof (induction b n rule: to_digits.induct)
  case (1 b n)
  show ?case
  proof (cases "n < b")
    case True
    with "1.prems" show ?thesis by (simp add: to_digits_pos [of b n])
  next
    case False
    with "1.prems" have p: "0 < n div b" by (simp add: div_greater_zero_iff)
    with "1.IH" "1.prems" have "hd (to_digits b (n div b)) \<noteq> 0" by simp
    with p "1.prems" show ?thesis by (simp add: to_digits_pos [of b n] hd_append)
  qed
qed

lemma length_to_digits_le: "2 \<le> b \<Longrightarrow> length (to_digits b n) \<le> k \<longleftrightarrow> n < b ^ k"
proof (induction k arbitrary: n)
  case (Suc k)
  show ?case
  proof (cases "n = 0")
    case False
    with Suc have "length (to_digits b n) \<le> Suc k \<longleftrightarrow> n div b < b ^ k"
      by (simp add: to_digits_pos)
    also have "\<dots> \<longleftrightarrow> n < b ^ Suc k"
      using Suc.prems by (simp add: less_mult_imp_div_less div_less_iff_less_mult mult.commute)
    finally show ?thesis .
  qed (use Suc.prems in simp)
qed auto

lemma to_digits_single: "2 \<le> b \<Longrightarrow> 0 < d \<Longrightarrow> d < b \<Longrightarrow> to_digits b d = [d]"
  by (simp add: to_digits_pos)

text \<open>
  A digit list without a leading zero is determined by its value; this is the
  uniqueness fact behind every canonical-form theorem.
\<close>

lemma to_digits_unique:
  "2 \<le> b \<Longrightarrow> \<forall>d \<in> set ds. d < b \<Longrightarrow> ds \<noteq> [] \<Longrightarrow> hd ds \<noteq> 0 \<Longrightarrow> to_digits b (of_digits b ds) = ds"
  by (cases ds) (simp_all add: to_digits_of_digits)

section \<open>JavaScript string and array slices\<close>

text \<open>
  \<open>s.substring(i, j)\<close> clamps both indices into the string and swaps them when they
  are out of order; \<open>a.slice(i, j)\<close> counts negative indices from the end and is
  empty when they are out of order.
\<close>

definition clamp :: "int \<Rightarrow> int \<Rightarrow> nat" where
  "clamp len i = nat (max 0 (min len i))"

definition js_substring :: "'a list \<Rightarrow> int \<Rightarrow> int \<Rightarrow> 'a list" where
  "js_substring s i j =
     (let a = clamp (int (length s)) i; b = clamp (int (length s)) j
      in take (max a b - min a b) (drop (min a b) s))"

definition js_slice :: "'a list \<Rightarrow> int \<Rightarrow> int \<Rightarrow> 'a list" where
  "js_slice s i j =
     (let len = int (length s);
          rel = (\<lambda>k. clamp len (if k < 0 then len + k else k))
      in take (rel j - rel i) (drop (rel i) s))"

lemma js_slice_nat: "i \<le> j \<Longrightarrow> js_slice s (int i) (int j) = take (j - i) (drop i s)"
proof -
  assume "i \<le> j"
  have "clamp (int (length s)) (int k) = min (length s) k" for k
    by (simp add: clamp_def min_def)
  then show ?thesis
    using \<open>i \<le> j\<close> by (cases "i \<le> length s") (auto simp: js_slice_def Let_def min_def)
qed

lemma js_substring_nat: "i \<le> j \<Longrightarrow> js_substring s (int i) (int j) = take (j - i) (drop i s)"
proof -
  assume "i \<le> j"
  have "clamp (int (length s)) (int k) = min (length s) k" for k
    by (simp add: clamp_def min_def)
  then show ?thesis
    using \<open>i \<le> j\<close> by (cases "i \<le> length s") (auto simp: js_substring_def Let_def min_def)
qed

lemma length_js_slice: "length (js_slice s i j) \<le> length s"
  by (simp add: js_slice_def Let_def)

text \<open>\<open>s.startsWith(p)\<close> at position 0.\<close>

definition starts_with :: "'a list \<Rightarrow> 'a list \<Rightarrow> bool" where
  "starts_with s p \<longleftrightarrow> take (length p) s = p"

lemma starts_with_iff: "starts_with s p \<longleftrightarrow> (\<exists>r. s = p @ r)"
  by (metis append_eq_conv_conj append_take_drop_id starts_with_def)

text \<open>\<open>a.indexOf(x)\<close>.\<close>

fun indexOf :: "'a \<Rightarrow> 'a list \<Rightarrow> int" where
  "indexOf x [] = -1"
| "indexOf x (y # ys) = (if x = y then 0 else let i = indexOf x ys in if i < 0 then -1 else i + 1)"

lemma indexOf_range: "-1 \<le> indexOf x xs \<and> indexOf x xs < int (length xs)"
  by (induction xs) (auto simp: Let_def)

lemma indexOf_notin [simp]: "indexOf x xs = -1 \<longleftrightarrow> x \<notin> set xs"
proof (induction xs)
  case (Cons y xs)
  then show ?case using indexOf_range [of x xs] by (auto simp: Let_def)
qed simp

lemma indexOf_nth: "distinct xs \<Longrightarrow> i < length xs \<Longrightarrow> indexOf (xs ! i) xs = int i"
proof (induction xs arbitrary: i)
  case (Cons x xs)
  then show ?case by (cases i) (auto simp: Let_def)
qed simp

lemma nth_indexOf: "indexOf x xs = int i \<Longrightarrow> i < length xs \<and> xs ! i = x"
proof (induction xs arbitrary: i)
  case (Cons y xs)
  show ?case
  proof (cases "x = y")
    case False
    with Cons.prems have "0 \<le> indexOf x xs" "int i = indexOf x xs + 1" by (auto simp: Let_def split: if_splits)
    then show ?thesis using Cons.IH [of "i - 1"] False by (cases i) auto
  qed (use Cons.prems in simp)
qed simp

text \<open>\<open>xs.join(sep)\<close>.\<close>

definition join_with :: "string \<Rightarrow> string list \<Rightarrow> string" where
  "join_with sep xs = (case xs of [] \<Rightarrow> [] | y # ys \<Rightarrow> y @ concat (map (\<lambda>z. sep @ z) ys))"

lemma join_with_simps [simp]:
  "join_with sep [] = []" "join_with sep [x] = x"
  "join_with sep (x # y # ys) = x @ sep @ join_with sep (y # ys)"
  by (simp_all add: join_with_def)

end
