(* ===== verification/Js.thy ===== *)
theory Js
  imports Prelude "HOL-Library.Sublist"
begin

text \<open>
  The part of JavaScript's standard library that the sources use on numbers and
  strings: the \<open>number\<close> type as a rational with the three non-finite values, the
  conversions \<open>Number(s)\<close>, \<open>BigInt(s)\<close>, \<open>parseInt(s, 16)\<close>, \<open>ToUint8\<close>, and
  \<open>toString(radix)\<close>. A JavaScript string is a HOL \<open>string\<close>, so its code units are
  below 256; the UTF-8 component, whose subject is the full 16-bit range, has its
  own code-unit lists.
\<close>

section \<open>Numbers\<close>

datatype jnum = NaN | PosInf | NegInf | Fin rat

definition rat_is_int :: "rat \<Rightarrow> bool" where
  "rat_is_int q \<longleftrightarrow> snd (quotient_of q) = 1"

lemma rat_is_int_of_int [simp]: "rat_is_int (of_int n)"
  by (simp add: rat_is_int_def)

lemma rat_is_int_iff: "rat_is_int q \<longleftrightarrow> q = of_int \<lfloor>q\<rfloor>"
proof
  assume "rat_is_int q"
  then obtain a where "quotient_of q = (a, 1)"
    unfolding rat_is_int_def by (metis prod.collapse)
  then have "q = of_int a" using quotient_of_div by fastforce
  then show "q = of_int \<lfloor>q\<rfloor>" by simp
next
  assume "q = of_int \<lfloor>q\<rfloor>"
  then show "rat_is_int q" by (metis rat_is_int_of_int)
qed

text \<open>\<open>Number.isInteger\<close>, and the integer a finite number truncates to.\<close>

fun number_isInteger :: "jnum \<Rightarrow> bool" where
  "number_isInteger (Fin q) = rat_is_int q"
| "number_isInteger _ = False"

definition rat_trunc :: "rat \<Rightarrow> int" where
  "rat_trunc q = (if q < 0 then - \<lfloor>- q\<rfloor> else \<lfloor>q\<rfloor>)"

lemma rat_trunc_of_int [simp]: "rat_trunc (of_int n) = n"
  by (simp add: rat_trunc_def flip: of_int_minus)

text \<open>The element conversion of a \<open>Uint8Array\<close>: truncate, then reduce modulo 256.\<close>

fun toUint8 :: "jnum \<Rightarrow> byte" where
  "toUint8 (Fin q) = word_of_int (rat_trunc q)"
| "toUint8 _ = 0"

abbreviation num_of_int :: "int \<Rightarrow> jnum" where
  "num_of_int n \<equiv> Fin (of_int n)"

section \<open>Digits and radix strings\<close>

definition digit_char :: "nat \<Rightarrow> char" where
  "digit_char d = ''0123456789abcdefghijklmnopqrstuvwxyz'' ! d"

definition digit_val :: "char \<Rightarrow> nat option" where
  "digit_val c =
     (let n = of_char c :: nat
      in if 48 \<le> n \<and> n \<le> 57 then Some (n - 48)
         else if 97 \<le> n \<and> n \<le> 122 then Some (n - 87)
         else if 65 \<le> n \<and> n \<le> 90 then Some (n - 55) else None)"

definition digit_in :: "nat \<Rightarrow> char \<Rightarrow> nat option" where
  "digit_in b c = (case digit_val c of None \<Rightarrow> None | Some d \<Rightarrow> if d < b then Some d else None)"

text \<open>
  An alphabet is a base, its characters and the value of a character. Strings
  over it encode a number by its digits; the round trips are proved once, from
  the three laws, and used for hexadecimal, decimal and Base58.
\<close>

definition encode_with :: "(nat \<Rightarrow> char) \<Rightarrow> nat \<Rightarrow> nat \<Rightarrow> string" where
  "encode_with chr b n = map chr (to_digits b n)"

definition decode_with :: "(char \<Rightarrow> nat option) \<Rightarrow> nat \<Rightarrow> string \<Rightarrow> nat option" where
  "decode_with val b s = map_option (of_digits b) (those (map val s))"

lemma those_map_Some [simp]: "those (map (\<lambda>x. Some (f x)) xs) = Some (map f xs)"
  by (induction xs) simp_all

lemma those_eq_Some: "those xs = Some ys \<longleftrightarrow> xs = map Some ys"
  by (induction xs arbitrary: ys) (auto split: option.splits)

lemma those_cong_Some: "(\<And>x. x \<in> set xs \<Longrightarrow> f x = Some (g x)) \<Longrightarrow> those (map f xs) = Some (map g xs)"
  by (induction xs) simp_all

locale alphabet =
  fixes base :: nat and chr :: "nat \<Rightarrow> char" and val :: "char \<Rightarrow> nat option"
  assumes base_ge_2: "2 \<le> base"
    and val_chr: "d < base \<Longrightarrow> val (chr d) = Some d"
    and val_less: "val c = Some d \<Longrightarrow> d < base"
begin

lemma those_val_chr: "\<forall>d \<in> set ds. d < base \<Longrightarrow> those (map val (map chr ds)) = Some ds"
  using those_cong_Some [of ds "val \<circ> chr" id] by (simp add: val_chr o_def)

lemma decode_chars: "\<forall>d \<in> set ds. d < base \<Longrightarrow> decode_with val base (map chr ds) = Some (of_digits base ds)"
  using those_val_chr by (simp add: decode_with_def)

lemma decode_encode: "decode_with val base (encode_with chr base n) = Some n"
  using base_ge_2 by (simp add: encode_with_def decode_chars to_digits_less)

lemma encode_inj: "encode_with chr base m = encode_with chr base n \<Longrightarrow> m = n"
  by (metis decode_encode option.inject)

lemma decode_digits:
  assumes "those (map val s) = Some ds"
  shows "\<forall>d \<in> set ds. d < base" and "length ds = length s"
proof -
  from assms have eq: "map val s = map Some ds" by (simp add: those_eq_Some)
  then show "length ds = length s" by (metis length_map)
  show "\<forall>d \<in> set ds. d < base"
  proof
    fix d assume "d \<in> set ds"
    then have "Some d \<in> set (map val s)" by (simp add: eq)
    then show "d < base" using val_less by auto
  qed
qed

lemma decode_bound: "decode_with val base s = Some n \<Longrightarrow> n < base ^ length s"
  using decode_digits of_digits_bound by (fastforce simp: decode_with_def)

end

locale strict_alphabet = alphabet +
  assumes chr_val: "val c = Some d \<Longrightarrow> chr d = c"
begin

lemma chars_of_vals: "those (map val s) = Some ds \<Longrightarrow> map chr ds = s"
proof (induction s arbitrary: ds)
  case (Cons c s)
  then show ?case by (auto split: option.splits dest: chr_val)
qed simp

text \<open>Encoding after decoding drops exactly the leading zero characters.\<close>

lemma encode_decode:
  assumes "decode_with val base s = Some n"
  shows "encode_with chr base n = dropWhile (\<lambda>c. c = chr 0) s"
proof -
  from assms obtain ds where ds: "those (map val s) = Some ds" and n: "n = of_digits base ds"
    by (auto simp: decode_with_def)
  have "encode_with chr base n = map chr (dropWhile (\<lambda>d. d = 0) ds)"
    using decode_digits(1) [OF ds] base_ge_2 by (simp add: encode_with_def n to_digits_of_digits)
  also have "\<dots> = dropWhile (\<lambda>c. c = chr 0) (map chr ds)"
  proof -
    have inj: "chr d = chr 0 \<longleftrightarrow> d = 0" if "d \<in> set ds" for d
      using that decode_digits(1) [OF ds] base_ge_2 val_chr by (metis less_le_trans option.inject pos2)
    have "dropWhile (\<lambda>d. d = 0) ds = dropWhile (\<lambda>d. chr d = chr 0) ds"
      by (rule dropWhile_cong) (simp_all add: inj)
    then show ?thesis by (simp add: dropWhile_map o_def)
  qed
  also have "\<dots> = dropWhile (\<lambda>c. c = chr 0) s" by (simp add: chars_of_vals [OF ds])
  finally show ?thesis .
qed

end

lemma nth_two_ranges:
  "a \<le> b \<Longrightarrow> d < (b - a) + (e - c) \<Longrightarrow>
   map f ([a..<b] @ [c..<e]) ! d = f (if d < b - a then a + d else c + (d - (b - a)))"
  by (simp add: nth_append)

lemma digit_chars_code:
  "''0123456789abcdefghijklmnopqrstuvwxyz'' = map char_of ([48::nat..<58] @ [97..<123])"
  by (simp add: upt_conv_Cons char_of_def bit_simps)

lemma digit_char_code: "d < 36 \<Longrightarrow> digit_char d = char_of (if d < 10 then 48 + d else 87 + d)"
  unfolding digit_char_def digit_chars_code
  by (subst nth_two_ranges) simp_all

lemma digit_val_char: "d < 36 \<Longrightarrow> digit_val (digit_char d) = Some d"
  by (simp add: digit_char_code digit_val_def Let_def)

lemma digit_in_char: "d < b \<Longrightarrow> b \<le> 36 \<Longrightarrow> digit_in b (digit_char d) = Some d"
  by (simp add: digit_in_def digit_val_char)

lemma digit_in_less: "digit_in b c = Some d \<Longrightarrow> d < b"
  by (simp add: digit_in_def split: option.splits if_splits)

interpretation hex: alphabet 16 digit_char "digit_in 16"
  by unfold_locales (simp_all add: digit_in_char digit_in_less)

interpretation dec: alphabet 10 digit_char "digit_in 10"
  by unfold_locales (simp_all add: digit_in_char digit_in_less)

text \<open>\<open>n.toString(b)\<close> of a \<open>bigint\<close> or an integral \<open>number\<close>.\<close>

definition nat_toString :: "nat \<Rightarrow> nat \<Rightarrow> string" where
  "nat_toString b n = (if n = 0 then ''0'' else encode_with digit_char b n)"

definition int_toString :: "nat \<Rightarrow> int \<Rightarrow> string" where
  "int_toString b n = (if n < 0 then ''-'' @ nat_toString b (nat (- n)) else nat_toString b (nat n))"

text \<open>
  A string of digits of one radix; empty is not a number. \<open>BigInt(s)\<close> of the
  standard: surrounding white space is dropped, the empty string is zero, a
  radix prefix admits no sign, a decimal admits one.
\<close>

definition parse_radix :: "nat \<Rightarrow> string \<Rightarrow> nat option" where
  "parse_radix b s = (if s = [] then None else decode_with (digit_in b) b s)"

definition is_js_space :: "char \<Rightarrow> bool" where
  "is_js_space c \<longleftrightarrow> (of_char c :: nat) \<in> {9, 10, 11, 12, 13, 32, 160}"

text \<open>What \<open>.\<close> of a regular expression does not match; the others are no 8-bit characters.\<close>

definition is_line_terminator :: "char \<Rightarrow> bool" where
  "is_line_terminator c \<longleftrightarrow> (of_char c :: nat) \<in> {10, 13}"

definition js_trim :: "string \<Rightarrow> string" where
  "js_trim s = rev (dropWhile is_js_space (rev (dropWhile is_js_space s)))"

fun radix_prefix :: "string \<Rightarrow> (nat \<times> string) option" where
  "radix_prefix (c # d # r) =
     (if c \<noteq> CHR ''0'' then None
      else if d = CHR ''x'' \<or> d = CHR ''X'' then Some (16, r)
      else if d = CHR ''o'' \<or> d = CHR ''O'' then Some (8, r)
      else if d = CHR ''b'' \<or> d = CHR ''B'' then Some (2, r) else None)"
| "radix_prefix _ = None"

fun signed_decimal :: "string \<Rightarrow> int option" where
  "signed_decimal [] = None"
| "signed_decimal (c # r) =
     (if c = CHR ''-'' then map_option (\<lambda>n. - int n) (parse_radix 10 r)
      else if c = CHR ''+'' then map_option int (parse_radix 10 r)
      else map_option int (parse_radix 10 (c # r)))"

definition js_BigInt :: "string \<Rightarrow> int option" where
  "js_BigInt s =
     (let t = js_trim s
      in if t = [] then Some 0
         else case radix_prefix t of
                Some (b, r) \<Rightarrow> map_option int (parse_radix b r)
              | None \<Rightarrow> signed_decimal t)"

lemma nat_toString_nonempty [simp]: "2 \<le> b \<Longrightarrow> nat_toString b n \<noteq> []"
  by (simp add: nat_toString_def encode_with_def)

lemma digit_char_0 [simp]: "digit_char 0 = CHR ''0''"
  by (simp add: digit_char_def)

lemma nat_toString_alt: "nat_toString b n = map digit_char (if n = 0 then [0] else to_digits b n)"
  by (simp add: nat_toString_def encode_with_def)

lemma parse_nat_toString_16: "parse_radix 16 (nat_toString 16 n) = Some n"
  using hex.decode_chars [of "if n = 0 then [0] else to_digits 16 n"]
  by (simp add: parse_radix_def nat_toString_alt to_digits_less)

lemma parse_nat_toString_10: "parse_radix 10 (nat_toString 10 n) = Some n"
  using dec.decode_chars [of "if n = 0 then [0] else to_digits 10 n"]
  by (simp add: parse_radix_def nat_toString_alt to_digits_less)

section \<open>Number(s) and parseInt\<close>

text \<open>
  Rounding a rational to the nearest double, ties to even, with gradual underflow
  and overflow to infinity.
\<close>

definition round_half_even :: "rat \<Rightarrow> int" where
  "round_half_even q =
     (let f = \<lfloor>q\<rfloor>; r = q - of_int f
      in if r < 1 / 2 then f else if r > 1 / 2 then f + 1 else if even f then f else f + 1)"

definition pow2 :: "int \<Rightarrow> rat" where
  "pow2 e = (if 0 \<le> e then 2 ^ nat e else 1 / 2 ^ nat (- e))"

definition rat_log2 :: "rat \<Rightarrow> int" where
  "rat_log2 q =
     (let (n, d) = quotient_of q;
          e = int (length (to_digits 2 (nat n))) - int (length (to_digits 2 (nat d)))
      in if pow2 e \<le> q then e else e - 1)"

definition to_double :: "rat \<Rightarrow> jnum" where
  "to_double q =
     (if q = 0 then Fin 0
      else let a = \<bar>q\<bar>; sh = max (rat_log2 a - 52) (- 1074);
               m = round_half_even (a / pow2 sh); v = of_int m * pow2 sh
           in if pow2 1024 \<le> v then (if q < 0 then NegInf else PosInf)
              else Fin (if q < 0 then - v else v))"

definition is_digit10 :: "char \<Rightarrow> bool" where
  "is_digit10 c \<longleftrightarrow> digit_in 10 c \<noteq> None"

definition dec_value :: "string \<Rightarrow> nat" where
  "dec_value s = (case decode_with (digit_in 10) 10 s of None \<Rightarrow> 0 | Some n \<Rightarrow> n)"

text \<open>\<open>digits [. digits] [e [sign] digits]\<close>, with a digit on at least one side of the point.\<close>

definition parse_exponent :: "string \<Rightarrow> int option" where
  "parse_exponent s =
     (case s of
        [] \<Rightarrow> Some 0
      | c # r \<Rightarrow> if c = CHR ''e'' \<or> c = CHR ''E'' then signed_decimal r else None)"

definition parse_unsigned_decimal :: "string \<Rightarrow> rat option" where
  "parse_unsigned_decimal s =
     (let whole = takeWhile is_digit10 s; r = dropWhile is_digit10 s;
          has_dot = (case r of c # _ \<Rightarrow> c = CHR ''.'' | [] \<Rightarrow> False);
          r1 = (if has_dot then tl r else r);
          frac = (if has_dot then takeWhile is_digit10 r1 else []);
          r2 = (if has_dot then dropWhile is_digit10 r1 else r1)
      in if whole = [] \<and> frac = [] then None
         else case parse_exponent r2 of
                None \<Rightarrow> None
              | Some e \<Rightarrow> Some (of_nat (dec_value (whole @ frac)) / 10 ^ length frac
                               * (if 0 \<le> e then 10 ^ nat e else 1 / 10 ^ nat (- e))))"

definition js_Number_unsigned :: "string \<Rightarrow> bool \<Rightarrow> jnum" where
  "js_Number_unsigned s neg =
     (if s = ''Infinity'' then (if neg then NegInf else PosInf)
      else case parse_unsigned_decimal s of
             None \<Rightarrow> NaN | Some q \<Rightarrow> to_double (if neg then - q else q))"

definition js_Number :: "string \<Rightarrow> jnum" where
  "js_Number s =
     (let t = js_trim s
      in case t of
           [] \<Rightarrow> Fin 0
         | c # r \<Rightarrow>
             (case radix_prefix t of
                Some (b, r') \<Rightarrow> (case parse_radix b r' of None \<Rightarrow> NaN | Some n \<Rightarrow> to_double (of_nat n))
              | None \<Rightarrow> if c = CHR ''-'' then js_Number_unsigned r True
                        else if c = CHR ''+'' then js_Number_unsigned r False
                        else js_Number_unsigned t False))"

text \<open>
  \<open>parseInt(s, 16)\<close>: leading white space, a sign, an optional \<open>0x\<close>, then the longest
  prefix of hexadecimal digits, \<open>NaN\<close> if it is empty.
\<close>

definition is_hex_char :: "char \<Rightarrow> bool" where
  "is_hex_char c \<longleftrightarrow> digit_in 16 c \<noteq> None"

definition parseInt16 :: "string \<Rightarrow> jnum" where
  "parseInt16 s =
     (let t = dropWhile is_js_space s;
          neg = (case t of c # _ \<Rightarrow> c = CHR ''-'' | [] \<Rightarrow> False);
          t1 = (case t of c # r \<Rightarrow> if c = CHR ''-'' \<or> c = CHR ''+'' then r else t | [] \<Rightarrow> []);
          t2 = (if take 2 t1 = ''0x'' \<or> take 2 t1 = ''0X'' then drop 2 t1 else t1)
      in case parse_radix 16 (takeWhile is_hex_char t2) of
           None \<Rightarrow> NaN
         | Some n \<Rightarrow> to_double (if neg then - of_nat n else of_nat n))"

end
