(* ===== verification/Errors.thy ===== *)
theory Errors
  imports Js
begin

text \<open>
  The errors of the library (\<open>src.ts/utils/errors.ts\<close>) and the older \<open>Logger\<close>
  (\<open>src.ts/logger/logger.ts\<close>): the error codes, the native class each code is
  thrown as, the assertion helpers, and the logger's censorship switch.
  The details that only decorate the message (the argument name, the value, the
  version) are left out: an error is its code and its reason.
\<close>

datatype error_code =
    UNKNOWN_ERROR | NOT_IMPLEMENTED | UNSUPPORTED_OPERATION | NETWORK_ERROR | SERVER_ERROR
  | TIMEOUT | BAD_DATA | CANCELLED
  | BUFFER_OVERRUN | NUMERIC_FAULT
  | INVALID_ARGUMENT | MISSING_ARGUMENT | UNEXPECTED_ARGUMENT | VALUE_MISMATCH
  | CALL_EXCEPTION | INSUFFICIENT_FUNDS | NONCE_EXPIRED | REPLACEMENT_UNDERPRICED
  | TRANSACTION_REPLACED | UNCONFIGURED_NAME | OFFCHAIN_FAULT
  | ACTION_REJECTED

datatype native_class = NativeError | NativeTypeError | NativeRangeError | NativeSyntaxError

text \<open>
  What a function can throw: an error the library made, or one the JavaScript
  engine raises by itself. \<open>NoReturn\<close> is not thrown: it is the result of a loop
  of the source that never ends.
\<close>

datatype error = CoreError error_code string | JsError native_class string | NoReturn

type_synonym 'a result = "error + 'a"

fun error_message :: "error \<Rightarrow> string" where
  "error_message (CoreError _ m) = m"
| "error_message (JsError _ m) = m"
| "error_message NoReturn = []"

text \<open>The switch of \<open>makeError\<close> that picks the class of the thrown object.\<close>

fun makeError_class :: "error_code \<Rightarrow> native_class" where
  "makeError_class INVALID_ARGUMENT = NativeTypeError"
| "makeError_class NUMERIC_FAULT = NativeRangeError"
| "makeError_class BUFFER_OVERRUN = NativeRangeError"
| "makeError_class _ = NativeError"

fun error_class :: "error \<Rightarrow> native_class option" where
  "error_class (CoreError c _) = Some (makeError_class c)"
| "error_class (JsError k _) = Some k"
| "error_class NoReturn = None"

definition isError :: "error \<Rightarrow> error_code \<Rightarrow> bool" where
  "isError e code \<longleftrightarrow> (case e of CoreError c _ \<Rightarrow> c = code | _ \<Rightarrow> False)"

definition isCallException :: "error \<Rightarrow> bool" where
  "isCallException e = isError e CALL_EXCEPTION"

section \<open>Assertions\<close>

definition assert :: "bool \<Rightarrow> string \<Rightarrow> error_code \<Rightarrow> unit result" where
  "assert check message code = (if \<not> check then Inl (CoreError code message) else Inr ())"

definition assertArgument :: "bool \<Rightarrow> string \<Rightarrow> unit result" where
  "assertArgument check message = assert check message INVALID_ARGUMENT"

lemma assert_simps [simp, result_simps]:
  "assert True m c = Inr ()" "assert False m c = Inl (CoreError c m)"
  "assertArgument True m = Inr ()" "assertArgument False m = Inl (CoreError INVALID_ARGUMENT m)"
  by (simp_all add: assert_def assertArgument_def)

lemma assert_eq_Inr [simp]: "assert b m c = Inr u \<longleftrightarrow> b"
  by (cases b) simp_all

lemma assertArgument_eq_Inr [simp]: "assertArgument b m = Inr u \<longleftrightarrow> b"
  by (cases b) simp_all

definition assertArgumentCount :: "nat \<Rightarrow> nat \<Rightarrow> string \<Rightarrow> unit result" where
  "assertArgumentCount count expected message =
     (let m = (if message = [] then [] else '': '' @ message)
      in bindE (assert (count \<ge> expected) (''missing arguemnt'' @ m) MISSING_ARGUMENT)
           (\<lambda>_. assert (count \<le> expected) (''too many arguemnts'' @ m) UNEXPECTED_ARGUMENT))"

text \<open>A constructor guard is an object compared by identity; here a value compared by equality.\<close>

definition assertPrivate :: "'g \<Rightarrow> 'g \<Rightarrow> string \<Rightarrow> unit result" where
  "assertPrivate givenGuard guard className =
     (if givenGuard \<noteq> guard
      then let method = (if className \<noteq> [] then className @ ''.'' else className)
           in assert False (''private constructor; use '' @ method @ ''from* methods'')
                UNSUPPORTED_OPERATION
      else Inr ())"

lemma assertArgumentCount_ok: "assertArgumentCount n k m = Inr () \<longleftrightarrow> n = k"
  by (auto simp: assertArgumentCount_def Let_def)

section \<open>The logger\<close>

record logger_state =
  permanentCensorErrors :: bool
  censorErrors :: bool
  logLevel :: nat

definition logger_init :: logger_state where
  "logger_init = \<lparr>permanentCensorErrors = False, censorErrors = False, logLevel = 2\<rparr>"

datatype log_level = DEBUG | INFO | WARNING | ERROR | OFF

fun LogLevels :: "log_level \<Rightarrow> nat" where
  "LogLevels DEBUG = 1"
| "LogLevels INFO = 2"
| "LogLevels WARNING = 3"
| "LogLevels ERROR = 4"
| "LogLevels OFF = 5"

text \<open>The lines \<open>console.log\<close> receives from \<open>_log\<close>.\<close>

definition logger_log :: "logger_state \<Rightarrow> log_level \<Rightarrow> string list \<Rightarrow> string list list" where
  "logger_log st level args = (if logLevel st > LogLevels level then [] else [args])"

definition setLogLevel :: "logger_state \<Rightarrow> log_level \<Rightarrow> logger_state" where
  "setLogLevel st level = st\<lparr>logLevel := LogLevels level\<rparr>"

text \<open>
  \<open>makeError\<close> calls itself when errors are censored, with the switch still on.
  \<open>None\<close> is a recursion that never returns.
\<close>

partial_function (option) logger_makeError ::
    "logger_state \<Rightarrow> string \<Rightarrow> error_code \<Rightarrow> error option" where
  "logger_makeError st message code =
     (if censorErrors st then logger_makeError st ''censored error'' code
      else Some (CoreError code message))"

text \<open>
  A recursion without end exhausts the engine's stack, which raises a
  \<open>RangeError\<close> of its own.
\<close>

definition stack_overflow :: error where
  "stack_overflow = JsError NativeRangeError ''Maximum call stack size exceeded''"

definition logger_throwError :: "logger_state \<Rightarrow> string \<Rightarrow> error_code \<Rightarrow> 'a result" where
  "logger_throwError st message code =
     Inl (case logger_makeError st message code of Some e \<Rightarrow> e | None \<Rightarrow> stack_overflow)"

definition logger_throwArgumentError :: "logger_state \<Rightarrow> string \<Rightarrow> 'a result" where
  "logger_throwArgumentError st message = logger_throwError st message INVALID_ARGUMENT"

definition logger_assert :: "logger_state \<Rightarrow> bool \<Rightarrow> string \<Rightarrow> error_code \<Rightarrow> unit result" where
  "logger_assert st condition message code =
     (if condition then Inr () else logger_throwError st message code)"

definition logger_assertArgument :: "logger_state \<Rightarrow> bool \<Rightarrow> string \<Rightarrow> unit result" where
  "logger_assertArgument st condition message =
     (if condition then Inr () else logger_throwArgumentError st message)"

text \<open>
  \<open>checkSafeUint53\<close>. \<open>NaN\<close> passes: it is neither negative nor too large, and
  \<open>NaN % 1\<close> is falsy.
\<close>

definition checkSafeUint53 :: "logger_state \<Rightarrow> jnum \<Rightarrow> string \<Rightarrow> unit result" where
  "checkSafeUint53 st value message =
     (case value of
        NaN \<Rightarrow> Inr ()
      | PosInf \<Rightarrow> logger_throwError st message NUMERIC_FAULT
      | NegInf \<Rightarrow> logger_throwError st message NUMERIC_FAULT
      | Fin q \<Rightarrow>
          if q < 0 \<or> q \<ge> 0x1fffffffffffff then logger_throwError st message NUMERIC_FAULT
          else if \<not> rat_is_int q then logger_throwError st message NUMERIC_FAULT
          else Inr ())"

definition checkArgumentCount :: "logger_state \<Rightarrow> nat \<Rightarrow> nat \<Rightarrow> string \<Rightarrow> unit result" where
  "checkArgumentCount st count expected message =
     (let m = (if message \<noteq> [] then '': '' @ message else [])
      in if count < expected
         then logger_throwError st (''missing argument'' @ m) MISSING_ARGUMENT
         else if count > expected
         then logger_throwError st (''too many arguments'' @ m) UNEXPECTED_ARGUMENT
         else Inr ())"

text \<open>\<open>setCensorship\<close>: the new state, or a throw that leaves the state as it was.\<close>

definition setCensorship :: "logger_state \<Rightarrow> bool \<Rightarrow> bool \<Rightarrow> logger_state result" where
  "setCensorship st censorship permanent =
     (if \<not> censorship \<and> permanent
      then logger_throwError st ''cannot permanently disable censorship'' UNSUPPORTED_OPERATION
      else if permanentCensorErrors st
      then (if \<not> censorship then Inr st
            else logger_throwError st ''error censorship permanent'' UNSUPPORTED_OPERATION)
      else Inr (st\<lparr>censorErrors := censorship, permanentCensorErrors := permanent\<rparr>))"

declare logger_makeError.simps [code]

lemma logger_makeError_plain:
  "\<not> censorErrors st \<Longrightarrow> logger_makeError st m c = Some (CoreError c m)"
  by (subst logger_makeError.simps) simp

lemma logger_makeError_None:
  assumes "censorErrors st"
  shows "logger_makeError st m c = None"
proof (rule ccontr)
  assume "logger_makeError st m c \<noteq> None"
  then obtain e where ret: "logger_makeError st m c = Some e" by blast
  have "\<not> censorErrors st"
  proof (rule logger_makeError.raw_induct [where P = "\<lambda>st _ _ _. \<not> censorErrors st", OF _ ret])
    fix f st m c e
    assume IH: "\<And>st m c e. f st m c = Some e \<Longrightarrow> \<not> censorErrors st"
      and eq: "(if censorErrors st then f st ''censored error'' c else Some (CoreError c m)) = Some e"
    then show "\<not> censorErrors st" by (auto split: if_splits)
  qed
  with assms show False by simp
qed

lemma logger_throwError_plain [simp]:
  "\<not> censorErrors st \<Longrightarrow> logger_throwError st m c = Inl (CoreError c m)"
  by (simp add: logger_throwError_def logger_makeError_plain)

lemma logger_throwError_not_Inr [simp]: "logger_throwError st m c \<noteq> Inr x"
  by (simp add: logger_throwError_def)

lemma logger_throwArgumentError_plain [simp]:
  "\<not> censorErrors st \<Longrightarrow> logger_throwArgumentError st m = Inl (CoreError INVALID_ARGUMENT m)"
  by (simp add: logger_throwArgumentError_def)

lemma logger_throwArgumentError_not_Inr [simp]: "logger_throwArgumentError st m \<noteq> Inr x"
  by (simp add: logger_throwArgumentError_def)

lemma checkSafeUint53_int:
  "checkSafeUint53 st (num_of_int n) m = Inr () \<longleftrightarrow> 0 \<le> n \<and> n < 0x1fffffffffffff"
proof -
  have "(of_int n :: rat) < 0 \<longleftrightarrow> n < 0" by simp
  moreover have "(0x1fffffffffffff :: rat) \<le> of_int n \<longleftrightarrow> 0x1fffffffffffff \<le> n"
    by (metis of_int_le_iff of_int_numeral)
  ultimately show ?thesis by (auto simp: checkSafeUint53_def)
qed

text \<open>Once permanent, the censorship state never changes again.\<close>

lemma setCensorship_permanent:
  "permanentCensorErrors st \<Longrightarrow> setCensorship st c p = Inr st' \<Longrightarrow> st' = st"
  by (auto simp: setCensorship_def split: if_splits)

lemma setCensorship_inv:
  "permanentCensorErrors st \<longrightarrow> censorErrors st \<Longrightarrow> setCensorship st c p = Inr st' \<Longrightarrow>
   permanentCensorErrors st' \<longrightarrow> censorErrors st'"
  by (auto simp: setCensorship_def split: if_splits)

end
