(* ===== verification/Hex_Data.thy ===== *)
theory Hex_Data
  imports Errors
begin

unbundle bit_operations_syntax

text \<open>
  \<open>src.ts/utils/data.ts\<close>: hexadecimal data strings and byte arrays. A value that
  a caller may pass is a \<open>js_data\<close>, one constructor per JavaScript type the
  functions distinguish; a \<open>Uint8Array\<close> is a list of bytes. Copying
  (\<open>getBytesCopy\<close>) is the identity, since the model's arrays are values.
  The module's logger is a parameter only through its censorship switch, which is
  fixed off here (\<open>logger_init\<close>).
\<close>

datatype js_data =
    DStr string
  | DNum jnum
  | DBig int
  | DU8 "byte list"
  | DArr "jnum list"
  | DHexable string

datatype hex_pad = PadLeft | PadRight

record data_options =
  allowMissingPrefix :: bool
  hexPad :: "hex_pad option"

definition no_options :: data_options where
  "no_options = \<lparr>allowMissingPrefix = False, hexPad = None\<rparr>"

section \<open>Recognisers\<close>

definition isHexable :: "js_data \<Rightarrow> bool" where
  "isHexable v = (case v of DHexable _ \<Rightarrow> True | _ \<Rightarrow> False)"

definition isByteValue :: "jnum \<Rightarrow> bool" where
  "isByteValue v = (case v of Fin q \<Rightarrow> rat_is_int q \<and> \<not> q < 0 \<and> \<not> q \<ge> 256 | _ \<Rightarrow> False)"

fun isBytes :: "js_data \<Rightarrow> bool" where
  "isBytes (DU8 _) = True"
| "isBytes (DArr vs) = list_all isByteValue vs"
| "isBytes _ = False"

text \<open>\<open>/^0x[0-9A-Fa-f]*$/\<close> and, case-insensitively, \<open>/^0x([0-9a-f][0-9a-f])*$/i\<close>.\<close>

definition matches_hex :: "string \<Rightarrow> bool" where
  "matches_hex s \<longleftrightarrow> take 2 s = ''0x'' \<and> list_all is_hex_char (drop 2 s)"

definition matches_data_i :: "string \<Rightarrow> bool" where
  "matches_data_i s \<longleftrightarrow>
     (take 2 s = ''0x'' \<or> take 2 s = ''0X'') \<and> list_all is_hex_char (drop 2 s)
     \<and> even (length (drop 2 s))"

datatype hex_length = AnyLength | EvenLength | ExactLength nat

fun isHexString :: "js_data \<Rightarrow> hex_length \<Rightarrow> bool" where
  "isHexString (DStr s) len =
     (if \<not> matches_hex s then False
      else case len of
             ExactLength n \<Rightarrow> length s = 2 + 2 * n
           | EvenLength \<Rightarrow> even (length s)
           | AnyLength \<Rightarrow> True)"
| "isHexString _ _ = False"

definition isBytesLike :: "js_data \<Rightarrow> bool" where
  "isBytesLike v \<longleftrightarrow> isHexString v EvenLength \<or> (case v of DU8 _ \<Rightarrow> True | _ \<Rightarrow> False)"

section \<open>Bytes from hexadecimal\<close>

text \<open>\<open>result[i] = parseInt(value.substring(offset, offset + 2), 16)\<close>, for each pair.\<close>

fun parse_pairs :: "string \<Rightarrow> byte list" where
  "parse_pairs [] = []"
| "parse_pairs [c] = [toUint8 (parseInt16 [c])]"
| "parse_pairs (c # d # r) = toUint8 (parseInt16 [c, d]) # parse_pairs r"

definition getBytes :: "js_data \<Rightarrow> byte list result" where
  "getBytes v =
     (case v of
        DU8 bs \<Rightarrow> Inr bs
      | DStr s \<Rightarrow> if matches_data_i s then Inr (parse_pairs (drop 2 s))
                  else Inl (CoreError INVALID_ARGUMENT ''invalid BytesLike value'')
      | _ \<Rightarrow> Inl (CoreError INVALID_ARGUMENT ''invalid BytesLike value''))"

section \<open>Hexadecimal from values\<close>

definition HexCharacters :: string where
  "HexCharacters = ''0123456789abcdef''"

definition hex_of_byte :: "byte \<Rightarrow> string" where
  "hex_of_byte v = [HexCharacters ! unat (drop_bit 4 (v AND 0xf0)), HexCharacters ! unat (v AND 0x0f)]"

definition hex_of_bytes :: "byte list \<Rightarrow> string" where
  "hex_of_bytes bs = concat (map hex_of_byte bs)"

definition to_lower :: "char \<Rightarrow> char" where
  "to_lower c = (let n = of_char c :: nat in if 65 \<le> n \<and> n \<le> 90 then char_of (n + 32) else c)"

text \<open>The loop over a number: the low nibble in front, then \<open>Math.floor(value / 16)\<close>.\<close>

function hexlify_number_loop :: "nat \<Rightarrow> string \<Rightarrow> string" where
  "hexlify_number_loop value hex =
     (if value = 0 then hex
      else hexlify_number_loop (value div 16) (HexCharacters ! (value mod 16) # hex))"
  by pat_completeness auto
termination by (relation "measure fst") auto

declare hexlify_number_loop.simps [simp del]

definition hexlify_number :: "jnum \<Rightarrow> string result" where
  "hexlify_number v =
     bindE (checkSafeUint53 logger_init v ''invalid hexlify value'') (\<lambda>_.
       let hex = (case v of Fin q \<Rightarrow> hexlify_number_loop (nat \<lfloor>q\<rfloor>) [] | _ \<Rightarrow> [])
       in if length hex \<noteq> 0
          then Inr (''0x'' @ (if odd (length hex) then ''0'' @ hex else hex))
          else Inr ''0x00'')"

definition hexlify_bigint :: "int \<Rightarrow> string" where
  "hexlify_bigint n =
     (let s = int_toString 16 n in if odd (length s) then ''0x0'' @ s else ''0x'' @ s)"

fun split_on :: "char \<Rightarrow> string \<Rightarrow> string list" where
  "split_on x [] = [[]]"
| "split_on x (c # r) =
     (if c = x then [] # split_on x r
      else case split_on x r of [] \<Rightarrow> [[c]] | w # ws \<Rightarrow> (c # w) # ws)"

lemma split_on_none: "x \<notin> set s \<Longrightarrow> split_on x s = [s]"
  by (induction s) auto

lemma split_on_once: "x \<notin> set a \<Longrightarrow> split_on x (a @ x # b) = a # split_on x b"
  by (induction a) auto

text \<open>The first branch: a string \<open>0x1,2,3\<close> is the byte array of its comma-separated numbers.\<close>

definition hexlify_commas :: "js_data \<Rightarrow> js_data" where
  "hexlify_commas v =
     (case v of
        DStr s \<Rightarrow> if CHR '','' \<in> set s \<and> starts_with s ''0x''
                  then DU8 (map (\<lambda>item. toUint8 (js_Number item)) (split_on CHR '','' (drop 2 s)))
                  else v
      | _ \<Rightarrow> v)"

definition hexlify_string :: "string \<Rightarrow> data_options \<Rightarrow> string result" where
  "hexlify_string s opts =
     (if matches_hex s
      then bindE (if odd (length s)
                  then case hexPad opts of
                         Some PadLeft \<Rightarrow> Inr (''0x0'' @ drop 2 s)
                       | Some PadRight \<Rightarrow> Inr (s @ ''0'')
                       | None \<Rightarrow> logger_throwArgumentError logger_init ''hex data is odd-length''
                  else Inr s)
             (\<lambda>s'. Inr (map to_lower s'))
      else logger_throwArgumentError logger_init ''invalid hexlify value'')"

definition bytes_of_jnums :: "jnum list \<Rightarrow> byte list" where
  "bytes_of_jnums vs = map toUint8 vs"

definition hexlify :: "js_data \<Rightarrow> data_options \<Rightarrow> string result" where
  "hexlify value opts =
     (case hexlify_commas value of
        DNum v \<Rightarrow> hexlify_number v
      | DBig n \<Rightarrow> Inr (hexlify_bigint n)
      | DHexable h \<Rightarrow> Inr h
      | DStr s \<Rightarrow> hexlify_string (if allowMissingPrefix opts \<and> take 2 s \<noteq> ''0x'' then ''0x'' @ s else s) opts
      | DU8 bs \<Rightarrow> Inr (''0x'' @ hex_of_bytes bs)
      | DArr vs \<Rightarrow> if isBytes (DArr vs) then Inr (''0x'' @ hex_of_bytes (bytes_of_jnums vs))
                    else logger_throwArgumentError logger_init ''invalid hexlify value'')"

definition concat_data :: "js_data list \<Rightarrow> string result" where
  "concat_data items =
     bindE (mapM (\<lambda>d. mapE (drop 2) (hexlify d no_options)) items)
       (\<lambda>hs. Inr (''0x'' @ concat hs))"

text \<open>\<open>hexConcat\<close> builds the same string with an accumulator.\<close>

fun hexConcat_loop :: "js_data list \<Rightarrow> string \<Rightarrow> string result" where
  "hexConcat_loop [] result = Inr result"
| "hexConcat_loop (item # items) result =
     bindE (hexlify item no_options) (\<lambda>h. hexConcat_loop items (result @ drop 2 h))"

definition hexConcat :: "js_data list \<Rightarrow> string result" where
  "hexConcat items = hexConcat_loop items ''0x''"

section \<open>Lengths and slices\<close>

definition hexDataSlice :: "js_data \<Rightarrow> int \<Rightarrow> int option \<Rightarrow> string result" where
  "hexDataSlice data offset endOffset =
     bindE (case data of
              DStr s \<Rightarrow> if \<not> matches_hex s \<or> odd (length s)
                        then logger_throwArgumentError logger_init ''invalid hexData'' else Inr s
            | _ \<Rightarrow> hexlify data no_options)
       (\<lambda>s. let off = 2 + 2 * offset
             in case endOffset of
                  Some e \<Rightarrow> Inr (''0x'' @ js_substring s off (2 + 2 * e))
                | None \<Rightarrow> Inr (''0x'' @ js_substring s off (int (length s))))"

definition hexDataLength :: "js_data \<Rightarrow> rat option result" where
  "hexDataLength data =
     bindE (case data of
              DStr s \<Rightarrow> if \<not> matches_hex s \<or> odd (length s) then Inr None else Inr (Some s)
            | _ \<Rightarrow> mapE Some (hexlify data no_options))
       (\<lambda>r. Inr (map_option (\<lambda>s. (of_nat (length s) - 2) / 2) r))"

definition dataLength :: "js_data \<Rightarrow> nat result" where
  "dataLength data =
     (case data of
        DStr s \<Rightarrow> if isHexString data EvenLength then Inr ((length s - 2) div 2)
                  else mapE length (getBytes data)
      | _ \<Rightarrow> mapE length (getBytes data))"

definition dataSlice :: "js_data \<Rightarrow> int option \<Rightarrow> int option \<Rightarrow> string result" where
  "dataSlice data start endd =
     bindE (getBytes data) (\<lambda>bytes.
       let len = int (length bytes)
       in bindE (assert (case endd of None \<Rightarrow> True | Some e \<Rightarrow> \<not> e > len)
                   ''cannot slice beyond data bounds'' BUFFER_OVERRUN)
            (\<lambda>_. hexlify (DU8 (js_slice bytes (case start of None \<Rightarrow> 0 | Some i \<Rightarrow> i)
                                              (case endd of None \<Rightarrow> len | Some e \<Rightarrow> e))) no_options))"

section \<open>Zeros\<close>

function strip_00 :: "string \<Rightarrow> string" where
  "strip_00 s = (if starts_with s ''00'' then strip_00 (drop 2 s) else s)"
  by pat_completeness auto
termination
  by (relation "measure length") (auto simp: starts_with_iff)

declare strip_00.simps [simp del]

definition stripZerosLeft :: "js_data \<Rightarrow> string result" where
  "stripZerosLeft data = bindE (hexlify data no_options) (\<lambda>h. Inr (''0x'' @ strip_00 (drop 2 h)))"

definition zeroPad :: "js_data \<Rightarrow> int \<Rightarrow> bool \<Rightarrow> string result" where
  "zeroPad data len left =
     bindE (getBytes data) (\<lambda>bytes.
       bindE (assert (len \<ge> int (length bytes)) ''padding exceeds data length'' BUFFER_OVERRUN) (\<lambda>_.
         let zeros = replicate (nat (len - int (length bytes))) 0
         in hexlify (DU8 (if left then zeros @ bytes else bytes @ zeros)) no_options))"

definition zeroPadValue :: "js_data \<Rightarrow> int \<Rightarrow> string result" where
  "zeroPadValue data len = zeroPad data len True"

definition zeroPadBytes :: "js_data \<Rightarrow> int \<Rightarrow> string result" where
  "zeroPadBytes data len = zeroPad data len False"

section \<open>Byte arrays from values\<close>

text \<open>\<open>arrayify\<close> of a number: \<open>value & 0xff\<close> in front, then \<open>parseInt(String(value / 256))\<close>.\<close>

function arrayify_number_loop :: "nat \<Rightarrow> byte list \<Rightarrow> byte list" where
  "arrayify_number_loop value result =
     (if value = 0 then result
      else arrayify_number_loop (value div 256) (of_nat (value mod 256) # result))"
  by pat_completeness auto
termination by (relation "measure fst") auto

declare arrayify_number_loop.simps [simp del]

definition arrayify_string :: "string \<Rightarrow> data_options \<Rightarrow> byte list result" where
  "arrayify_string value opts =
     (let hex = drop 2 value
      in bindE (if odd (length hex)
                then case hexPad opts of
                       Some PadLeft \<Rightarrow> Inr (''0x0'' @ drop 2 hex)
                     | Some PadRight \<Rightarrow> Inr (hex @ ''0'')
                     | None \<Rightarrow> logger_throwArgumentError logger_init ''hex data is odd-length''
                else Inr hex)
           (\<lambda>hex'. Inr (parse_pairs hex')))"

definition arrayify :: "js_data \<Rightarrow> data_options \<Rightarrow> byte list result" where
  "arrayify value opts =
     (case value of
        DNum v \<Rightarrow>
          bindE (checkSafeUint53 logger_init v ''invalid arrayify value'') (\<lambda>_.
            let r = (case v of Fin q \<Rightarrow> arrayify_number_loop (nat \<lfloor>q\<rfloor>) [] | _ \<Rightarrow> [])
            in Inr (if length r = 0 then [0] else r))
      | DU8 bs \<Rightarrow> Inr bs
      | DArr vs \<Rightarrow> if isBytes value then Inr (bytes_of_jnums vs)
                    else logger_throwArgumentError logger_init ''invalid arrayify value''
      | DBig _ \<Rightarrow> logger_throwArgumentError logger_init ''invalid arrayify value''
      | DStr s0 \<Rightarrow>
          let s = (if allowMissingPrefix opts \<and> take 2 s0 \<noteq> ''0x'' then ''0x'' @ s0 else s0)
          in if matches_hex s then arrayify_string s opts
             else logger_throwArgumentError logger_init ''invalid arrayify value''
      | DHexable h \<Rightarrow>
          if matches_hex h then arrayify_string h opts
          else logger_throwArgumentError logger_init ''invalid arrayify value'')"

definition stripZeros :: "js_data \<Rightarrow> byte list result" where
  "stripZeros value =
     bindE (arrayify value no_options) (\<lambda>result.
       if length result = 0 then Inr result else Inr (dropWhile (\<lambda>b. b = 0) result))"


section \<open>Hexadecimal pairs are bytes\<close>

lemma unat_byte_less [simp]: "unat (v :: byte) < 256"
  using unsigned_less [of v] by simp

lemma unat_byte_of_nat: "n < 256 \<Longrightarrow> unat (of_nat n :: byte) = n"
  by (simp only: unat_of_nat) (simp add: take_bit_eq_mod)

lemma high_nibble: "unat (drop_bit 4 (v AND 0xf0 :: byte)) = unat v div 16"
proof -
  have "drop_bit 4 (v AND 0xf0) = drop_bit 4 v AND drop_bit 4 0xf0" by (simp only: drop_bit_and)
  also have "drop_bit 4 (0xf0 :: byte) = mask 4" by (simp add: mask_eq_exp_minus_1)
  also have "drop_bit 4 v AND mask 4 = drop_bit 4 v"
    by (simp add: take_bit_drop_bit take_bit_word_eq_self flip: take_bit_eq_mask)
  finally have "drop_bit 4 (v AND 0xf0) = v div 16" by (simp add: drop_bit_eq_div)
  then show ?thesis by (simp add: unat_div)
qed

lemma low_nibble: "unat (v AND 0x0f :: byte) = unat v mod 16"
proof -
  have "(0x0f :: byte) = mask 4" by (simp add: mask_eq_exp_minus_1)
  then have "v AND 0x0f = v mod 2 ^ 4" by (simp only: take_bit_eq_mod flip: take_bit_eq_mask)
  then show ?thesis by (simp add: unat_mod)
qed

lemmas byte_nibbles = high_nibble low_nibble

lemma HexCharacters_digit: "d < 16 \<Longrightarrow> HexCharacters ! d = digit_char d"
proof -
  have "HexCharacters = take 16 ''0123456789abcdefghijklmnopqrstuvwxyz''" by (simp add: HexCharacters_def)
  then show "d < 16 \<Longrightarrow> HexCharacters ! d = digit_char d" by (metis digit_char_def nth_take)
qed

lemma hex_of_byte_digits: "hex_of_byte v = [digit_char (unat v div 16), digit_char (unat v mod 16)]"
proof -
  have "unat v div 16 < 16" using unat_byte_less [of v] by linarith
  then show ?thesis unfolding hex_of_byte_def byte_nibbles by (simp add: HexCharacters_digit)
qed

text \<open>\<open>to_double\<close> is exact on the integers below \<open>2 ^ 53\<close>.\<close>

lemma quotient_of_of_nat: "quotient_of (of_nat n) = (int n, 1)"
proof -
  have "quotient_of (of_int (int n)) = (int n, 1)" by simp
  then show ?thesis by simp
qed

lemma round_half_even_int [simp]: "round_half_even (of_int k) = k"
  by (simp add: round_half_even_def)

lemma to_double_exact: "n < 2 ^ 53 \<Longrightarrow> to_double (of_nat n) = Fin (of_nat n)"
proof (cases "n = 0")
  case True
  then show ?thesis by (simp add: to_double_def)
next
  case False
  assume n: "n < 2 ^ 53"
  from n have "length (to_digits 2 n) \<le> 53" by (simp add: length_to_digits_le)
  moreover have "quotient_of (of_nat n) = (int n, 1)" by (rule quotient_of_of_nat)
  moreover have "to_digits 2 1 = [1]" by (rule to_digits_single) simp_all
  ultimately have log: "rat_log2 (of_nat n) \<le> 52" by (auto simp: rat_log2_def Let_def)
  define sh where "sh = max (rat_log2 (of_nat n) - 52) (- 1074)"
  have sh: "sh \<le> 0" using log by (simp add: sh_def)
  define k where "k = nat (- sh)"
  have p: "pow2 sh = 1 / 2 ^ k" using sh by (cases "sh = 0") (simp_all add: pow2_def k_def)
  have r: "round_half_even (of_nat n / pow2 sh) = int n * 2 ^ k"
  proof -
    have "(of_nat n :: rat) / pow2 sh = of_int (int n * 2 ^ k)" by (simp add: p)
    then show ?thesis by (simp only: round_half_even_int)
  qed
  have v: "of_nat n * 2 ^ k * pow2 sh = (of_nat n :: rat)" by (simp add: p)
  have big: "\<not> pow2 1024 \<le> (of_nat n :: rat)"
  proof -
    have "(of_nat n :: rat) < of_nat (2 ^ 53)" using n by (simp only: of_nat_less_iff)
    also have "of_nat (2 ^ 53) \<le> (2 ^ 1024 :: rat)" by simp
    finally show ?thesis by (simp add: pow2_def)
  qed
  show ?thesis
    using False big by (simp add: to_double_def Let_def r v flip: sh_def)
qed

definition hexval :: "char \<Rightarrow> nat" where
  "hexval c = the (digit_in 16 c)"

lemma hexval_less: "is_hex_char c \<Longrightarrow> hexval c < 16"
  by (auto simp: is_hex_char_def hexval_def dest: digit_in_less)

lemma digit_in_hexval: "is_hex_char c \<Longrightarrow> digit_in 16 c = Some (hexval c)"
  by (auto simp: is_hex_char_def hexval_def)

lemma is_hex_digit_char [simp]: "d < 16 \<Longrightarrow> is_hex_char (digit_char d)"
  by (simp add: is_hex_char_def digit_in_char)

lemma hexval_digit_char [simp]: "d < 16 \<Longrightarrow> hexval (digit_char d) = d"
  by (simp add: hexval_def digit_in_char)

lemma hex_0 [simp]: "is_hex_char CHR ''0''" "hexval CHR ''0'' = 0"
  using is_hex_digit_char [of 0] hexval_digit_char [of 0] by simp_all

lemma is_hex_char_not:
  "\<not> is_hex_char CHR ''x''" "\<not> is_hex_char CHR ''X''" "\<not> is_hex_char CHR ''-''" "\<not> is_hex_char CHR ''+''"
  "\<not> is_hex_char CHR '',''"
  by (simp_all add: is_hex_char_def digit_in_def digit_val_def)

lemma is_hex_char_cases:
  "is_hex_char c \<longleftrightarrow> (of_char c :: nat) \<in> {48..57} \<or> (of_char c :: nat) \<in> {97..102} \<or> (of_char c :: nat) \<in> {65..70}"
  by (auto simp: is_hex_char_def digit_in_def digit_val_def Let_def)

lemma is_hex_not_space: "is_hex_char c \<Longrightarrow> \<not> is_js_space c"
  by (auto simp: is_hex_char_cases is_js_space_def)

lemma parseInt16_hex:
  assumes "list_all is_hex_char s" and "s \<noteq> []" and "length s \<le> 13"
  shows "parseInt16 s = Fin (of_nat (of_digits 16 (map hexval s)))"
proof -
  obtain c r where s: "s = c # r" using assms(2) by (cases s) auto
  have c: "is_hex_char c" using assms(1) s by simp
  have sp: "dropWhile is_js_space s = s" using is_hex_not_space [OF c] by (simp add: s)
  have np: "take 2 s \<noteq> ''0x'' \<and> take 2 s \<noteq> ''0X''"
  proof (cases r)
    case (Cons d r')
    then have "is_hex_char d" using assms(1) s by simp
    then have "d \<noteq> CHR ''x'' \<and> d \<noteq> CHR ''X''" using is_hex_char_not by metis
    then show ?thesis using Cons s by simp
  qed (simp add: s)
  have sg: "c \<noteq> CHR ''-'' \<and> c \<noteq> CHR ''+''" using c is_hex_char_not by metis
  have tw: "takeWhile is_hex_char s = s"
    using assms(1) by (simp only: takeWhile_eq_all_conv list_all_iff)
  have ds: "those (map (digit_in 16) s) = Some (map hexval s)"
    using assms(1) by (intro those_cong_Some) (simp add: list_all_iff digit_in_hexval)
  have "of_digits 16 (map hexval s) < 16 ^ length s"
    using of_digits_bound [of "map hexval s" 16] assms(1) by (auto simp: list_all_iff hexval_less)
  also have "\<dots> \<le> 16 ^ 13" using assms(3) by (intro power_increasing) simp_all
  finally have "of_digits 16 (map hexval s) < 2 ^ 53" by simp
  then have dbl: "to_double (of_nat (of_digits 16 (map hexval s))) = Fin (of_nat (of_digits 16 (map hexval s)))"
    by (rule to_double_exact)
  have neg: "(case s of c # _ \<Rightarrow> c = CHR ''-'' | [] \<Rightarrow> False) = False"
    and t1: "(case s of c # r \<Rightarrow> if c = CHR ''-'' \<or> c = CHR ''+'' then r else s | [] \<Rightarrow> []) = s"
    using sg by (simp_all add: s)
  have t2: "(if take 2 s = ''0x'' \<or> take 2 s = ''0X'' then drop 2 s else s) = s"
    using np by simp
  have pr: "parse_radix 16 s = Some (of_digits 16 (map hexval s))"
    using assms(2) ds by (simp add: parse_radix_def decode_with_def)
  show ?thesis
    unfolding parseInt16_def Let_def sp neg t1 t2 tw pr by (simp add: dbl)
qed

lemma toUint8_nat [simp]: "toUint8 (Fin (of_nat n)) = of_nat n"
  using rat_trunc_of_int [of "int n"] by simp

lemma toUint8_pair:
  "is_hex_char c \<Longrightarrow> is_hex_char d \<Longrightarrow> toUint8 (parseInt16 [c, d]) = of_nat (16 * hexval c + hexval d)"
proof -
  assume "is_hex_char c" "is_hex_char d"
  then have "parseInt16 [c, d] = Fin (of_nat (of_digits 16 [hexval c, hexval d]))"
    using parseInt16_hex [of "[c, d]"] by simp
  also have "of_digits 16 [hexval c, hexval d] = 16 * hexval c + hexval d"
    by (simp add: of_digits_Cons [of 16 "hexval c" "[hexval d]"])
  finally have "parseInt16 [c, d] = Fin (of_nat (16 * hexval c + hexval d))" .
  then show ?thesis by (simp only: toUint8_nat)
qed

lemma parse_pairs_append_byte:
  "parse_pairs (hex_of_byte b @ r) = b # parse_pairs r"
proof -
  have "unat b div 16 < 16" using unat_byte_less [of b] by linarith
  then show ?thesis by (simp add: hex_of_byte_digits toUint8_pair mult.commute)
qed

lemma parse_pairs_hex [simp]: "parse_pairs (hex_of_bytes bs) = bs"
  by (induction bs) (simp_all add: hex_of_bytes_def parse_pairs_append_byte)

lemma hex_of_bytes_simps [simp]:
  "hex_of_bytes [] = []" "hex_of_bytes (b # bs) = hex_of_byte b @ hex_of_bytes bs"
  "hex_of_bytes (xs @ ys) = hex_of_bytes xs @ hex_of_bytes ys"
  by (simp_all add: hex_of_bytes_def)

lemma length_hex_of_byte [simp]: "length (hex_of_byte b) = 2"
  by (simp add: hex_of_byte_def)

lemma length_hex_of_bytes [simp]: "length (hex_of_bytes bs) = 2 * length bs"
  by (induction bs) simp_all

lemma is_hex_hex_of_byte: "list_all is_hex_char (hex_of_byte b)"
proof -
  have "unat b div 16 < 16" using unat_byte_less [of b] by linarith
  then show ?thesis by (simp add: hex_of_byte_digits)
qed

lemma is_hex_hex_of_bytes [simp]: "list_all is_hex_char (hex_of_bytes bs)"
  by (induction bs) (simp_all add: is_hex_hex_of_byte)

lemma matches_hex_bytes [simp]: "matches_hex (CHR ''0'' # CHR ''x'' # hex_of_bytes bs)"
  by (simp add: matches_hex_def)

lemma matches_data_i_bytes [simp]: "matches_data_i (CHR ''0'' # CHR ''x'' # hex_of_bytes bs)"
  by (simp add: matches_data_i_def)

section \<open>Round trips\<close>

lemma to_lower_hex: "is_hex_char c \<Longrightarrow> to_lower c = digit_char (hexval c)"
proof -
  assume c: "is_hex_char c"
  have hv: "hexval c = (let n = of_char c :: nat in if n \<le> 57 then n - 48 else if 97 \<le> n then n - 87 else n - 55)"
    using c by (auto simp: hexval_def is_hex_char_cases digit_in_def digit_val_def Let_def)
  have "of_char c < (256 :: nat)" by simp
  then show ?thesis
    using c hexval_less [OF c]
    by (auto simp: to_lower_def hv is_hex_char_cases Let_def digit_char_code)
qed

lemma hex_of_parse_pairs:
  "list_all is_hex_char r \<Longrightarrow> even (length r) \<Longrightarrow> hex_of_bytes (parse_pairs r) = map to_lower r"
proof (induction r rule: parse_pairs.induct)
  case (3 c d r)
  have lt: "16 * hexval c + hexval d < 256"
    using "3.prems" hexval_less [of c] hexval_less [of d] by simp
  have "unat (of_nat (16 * hexval c + hexval d) :: byte) = 16 * hexval c + hexval d"
    using lt by (rule unat_byte_of_nat)
  then have "hex_of_byte (toUint8 (parseInt16 [c, d])) = [to_lower c, to_lower d]"
    using "3.prems" hexval_less [of d] by (simp add: hex_of_byte_digits toUint8_pair to_lower_hex)
  with 3 show ?case by simp
qed simp_all

lemma getBytes_Str:
  "getBytes (DStr s) = Inr bs \<longleftrightarrow> matches_data_i s \<and> map to_lower (drop 2 s) = hex_of_bytes bs"
proof
  assume "getBytes (DStr s) = Inr bs"
  then have m: "matches_data_i s" and bs: "bs = parse_pairs (drop 2 s)"
    by (simp_all add: getBytes_def split: if_splits)
  with m show "matches_data_i s \<and> map to_lower (drop 2 s) = hex_of_bytes bs"
    by (simp add: matches_data_i_def hex_of_parse_pairs)
next
  assume a: "matches_data_i s \<and> map to_lower (drop 2 s) = hex_of_bytes bs"
  then have "hex_of_bytes (parse_pairs (drop 2 s)) = hex_of_bytes bs"
    by (simp add: matches_data_i_def hex_of_parse_pairs)
  then have "parse_pairs (drop 2 s) = bs" by (metis parse_pairs_hex)
  with a show "getBytes (DStr s) = Inr bs" by (simp add: getBytes_def)
qed

lemma getBytes_bytes [simp]: "getBytes (DU8 bs) = Inr bs"
  by (simp add: getBytes_def)

lemma getBytes_hex [simp]: "getBytes (DStr (CHR ''0'' # CHR ''x'' # hex_of_bytes bs)) = Inr bs"
  by (simp add: getBytes_def)

lemma hexlify_bytes [simp]: "hexlify (DU8 bs) opts = Inr (''0x'' @ hex_of_bytes bs)"
  by (simp add: hexlify_def hexlify_commas_def)

lemma hex_of_bytes_inj [simp]: "hex_of_bytes xs = hex_of_bytes ys \<longleftrightarrow> xs = ys"
  by (metis parse_pairs_hex)

lemma matches_hex_iff: "matches_hex s \<longleftrightarrow> (\<exists>r. s = CHR ''0'' # CHR ''x'' # r \<and> list_all is_hex_char r)"
proof
  assume "matches_hex s"
  then have "s = ''0x'' @ drop 2 s" by (metis append_take_drop_id matches_hex_def)
  moreover have "list_all is_hex_char (drop 2 s)" using \<open>matches_hex s\<close> by (simp add: matches_hex_def)
  ultimately show "\<exists>r. s = CHR ''0'' # CHR ''x'' # r \<and> list_all is_hex_char r" by auto
qed (auto simp: matches_hex_def)

lemma no_comma: "matches_hex s \<Longrightarrow> CHR '','' \<notin> set s"
  using is_hex_char_not(5) by (auto simp: matches_hex_iff list_all_iff)

lemma hexlify_Str: "matches_hex s \<Longrightarrow> even (length s) \<Longrightarrow> hexlify (DStr s) opts = Inr (map to_lower s)"
  by (simp add: hexlify_def hexlify_commas_def no_comma hexlify_string_def) (simp add: matches_hex_def)

lemma to_lower_digit [simp]: "d < 16 \<Longrightarrow> to_lower (digit_char d) = digit_char d"
  by (simp add: to_lower_hex)

lemma to_lower_hex_of_byte: "map to_lower (hex_of_byte b) = hex_of_byte b"
proof -
  have "unat b div 16 < 16" using unat_byte_less [of b] by linarith
  then show ?thesis by (simp add: hex_of_byte_digits)
qed

lemma to_lower_hex_of_bytes [simp]: "map to_lower (hex_of_bytes bs) = hex_of_bytes bs"
  by (induction bs) (simp_all add: to_lower_hex_of_byte)

lemma hexlify_hex [simp]:
  "hexlify (DStr (CHR ''0'' # CHR ''x'' # hex_of_bytes bs)) opts = Inr (''0x'' @ hex_of_bytes bs)"
  by (subst hexlify_Str) (simp_all add: to_lower_def)

text \<open>
  Every operation on data below reads its argument through \<open>getBytes\<close> or
  \<open>hexlify\<close>; on a valid data string the two agree on the bytes.
\<close>

lemma hexlify_of_getBytes:
  assumes "getBytes v = Inr bs" and "matches_hex s \<or> v \<noteq> DStr s"
    and "v = DStr s \<or> v = DU8 bs"
  shows "hexlify v opts = Inr (''0x'' @ hex_of_bytes bs)"
proof (cases v)
  case (DStr t)
  with assms have t: "v = DStr s" "matches_hex s" by auto
  with assms(1) have m: "matches_data_i s" "map to_lower (drop 2 s) = hex_of_bytes bs"
    by (simp_all add: getBytes_Str)
  obtain r where s: "s = CHR ''0'' # CHR ''x'' # r" using t(2) by (auto simp: matches_hex_iff)
  then have "even (length s)" using m(1) by (simp add: matches_data_i_def)
  then have "hexlify v opts = Inr (map to_lower s)" using t by (simp add: hexlify_Str)
  also have "map to_lower s = ''0x'' @ hex_of_bytes bs" using m(2) by (simp add: s to_lower_def)
  finally show ?thesis .
qed (use assms in auto)

section \<open>Concatenation\<close>

lemma hexConcat_loop_eq:
  "hexConcat_loop items acc = bindE (mapM (\<lambda>d. mapE (drop 2) (hexlify d no_options)) items)
     (\<lambda>hs. Inr (acc @ concat hs))"
proof (induction items arbitrary: acc)
  case (Cons d items)
  then show ?case by (cases "hexlify d no_options") (simp_all add: bindE_assoc)
qed simp

lemma hexConcat_eq_concat: "hexConcat items = concat_data items"
  by (simp add: hexConcat_def concat_data_def hexConcat_loop_eq)

lemma concat_data_bytes: "concat_data (map DU8 bss) = Inr (''0x'' @ hex_of_bytes (concat bss))"
proof -
  have "mapM (\<lambda>d. mapE (drop 2) (hexlify d no_options)) (map DU8 bss) = Inr (map hex_of_bytes bss)"
    by (induction bss) simp_all
  moreover have "concat (map hex_of_bytes bss) = hex_of_bytes (concat bss)"
    by (induction bss) simp_all
  ultimately show ?thesis by (simp add: concat_data_def)
qed

section \<open>Slices and padding\<close>

lemma dataSlice_bytes:
  assumes "i \<le> j" and "j \<le> length bs"
  shows "dataSlice (DU8 bs) (Some (int i)) (Some (int j)) = Inr (''0x'' @ hex_of_bytes (take (j - i) (drop i bs)))"
  using assms by (simp add: dataSlice_def Let_def js_slice_nat)

lemma dataSlice_overrun:
  "getBytes v = Inr bs \<Longrightarrow> j > int (length bs) \<Longrightarrow>
   dataSlice v i (Some j) = Inl (CoreError BUFFER_OVERRUN ''cannot slice beyond data bounds'')"
  by (simp add: dataSlice_def Let_def)

lemma zeroPad_bytes:
  "zeroPad (DU8 bs) len left =
     (if len < int (length bs) then Inl (CoreError BUFFER_OVERRUN ''padding exceeds data length'')
      else Inr (''0x'' @ hex_of_bytes
             (if left then replicate (nat len - length bs) 0 @ bs else bs @ replicate (nat len - length bs) 0)))"
  by (auto simp: zeroPad_def Let_def nat_diff_distrib')

text \<open>The value of a byte array, most significant byte first.\<close>

definition bytes_value :: "byte list \<Rightarrow> nat" where
  "bytes_value bs = of_digits 256 (map unat bs)"

lemma bytes_value_append: "bytes_value (xs @ ys) = bytes_value xs * 256 ^ length ys + bytes_value ys"
  by (simp add: bytes_value_def of_digits_append)

lemma bytes_value_zeros [simp]: "bytes_value (replicate k 0 @ bs) = bytes_value bs"
  by (simp add: bytes_value_def)

lemma bytes_value_bound: "bytes_value bs < 256 ^ length bs"
  using of_digits_bound [of "map unat bs" 256] by (simp add: bytes_value_def)

lemma strip_00_hex: "strip_00 (hex_of_bytes bs) = hex_of_bytes (dropWhile (\<lambda>b. b = 0) bs)"
proof (induction bs)
  case Nil
  then show ?case by (subst strip_00.simps) (simp add: starts_with_def)
next
  case (Cons b bs)
  have "hex_of_byte b = ''00'' \<longleftrightarrow> b = 0"
  proof
    assume "hex_of_byte b = ''00''"
    then have "hex_of_bytes [b] = hex_of_bytes [0]"
      by (simp add: hex_of_byte_def HexCharacters_def)
    then show "b = 0" by (simp only: hex_of_bytes_inj) simp
  qed (simp add: hex_of_byte_def HexCharacters_def)
  then have "starts_with (hex_of_bytes (b # bs)) ''00'' \<longleftrightarrow> b = 0"
    by (simp add: starts_with_def)
  then show ?case using Cons by (subst strip_00.simps) simp
qed

lemma stripZerosLeft_bytes: "stripZerosLeft (DU8 bs) = Inr (''0x'' @ hex_of_bytes (dropWhile (\<lambda>b. b = 0) bs))"
  by (simp add: stripZerosLeft_def strip_00_hex)

lemma stripZeros_bytes: "stripZeros (DU8 bs) = Inr (dropWhile (\<lambda>b. b = 0) bs)"
  by (simp add: stripZeros_def arrayify_def)

lemma bytes_value_dropWhile [simp]: "bytes_value (dropWhile (\<lambda>b. b = 0) bs) = bytes_value bs"
  by (induction bs) (simp_all add: bytes_value_def of_digits_Cons)

end
