(* ===== verification/Maths.thy ===== *)
theory Maths
  imports Hex_Data
begin

text \<open>
  \<open>src.ts/utils/maths.ts\<close>: numeric values of any accepted form read as an integer
  (\<open>getBigInt\<close>, \<open>getUint\<close>, \<open>getNumber\<close>, \<open>toBigInt\<close>), two's complement, and the
  big-endian forms. A \<open>bigint\<close> is an \<open>int\<close>; its shifts and bitwise operations are
  those of HOL's integers. The message of the engine's own \<open>SyntaxError\<close>, which
  the source appends to its message, is left out.
\<close>

section \<open>Reading numbers\<close>

definition maxValue :: int where
  "maxValue = 0x1fffffffffffff"

definition safe_range :: "int \<Rightarrow> bool" where
  "safe_range n \<longleftrightarrow> n \<ge> - maxValue \<and> n \<le> maxValue"

text \<open>
  The \<open>number\<close> case of \<open>getBigInt\<close> and of \<open>getNumber\<close>: an integer inside the safe
  range. The infinities are not integers, so the range is only compared on finite
  values.
\<close>

definition checked_number :: "jnum \<Rightarrow> int result" where
  "checked_number v =
     bindE (assertArgument (number_isInteger v) ''underflow'') (\<lambda>_.
       case v of
         Fin q \<Rightarrow> bindE (assertArgument (safe_range \<lfloor>q\<rfloor>) ''overflow'') (\<lambda>_. Inr \<lfloor>q\<rfloor>)
       | _ \<Rightarrow> Inl (CoreError INVALID_ARGUMENT ''overflow''))"

definition bigint_of_string :: "string \<Rightarrow> int option" where
  "bigint_of_string s =
     (if s = [] then None
      else if hd s = CHR ''-'' \<and> take 1 (tl s) \<noteq> ''-'' then map_option uminus (js_BigInt (tl s))
      else js_BigInt s)"

fun getBigInt :: "js_data \<Rightarrow> int result" where
  "getBigInt (DBig n) = Inr n"
| "getBigInt (DNum v) = checked_number v"
| "getBigInt (DStr s) =
     (case bigint_of_string s of
        Some n \<Rightarrow> Inr n
      | None \<Rightarrow> Inl (CoreError INVALID_ARGUMENT ''invalid BigNumberish string''))"
| "getBigInt _ = Inl (CoreError INVALID_ARGUMENT ''invalid BigNumberish value'')"

definition getUint :: "js_data \<Rightarrow> int result" where
  "getUint v =
     bindE (getBigInt v) (\<lambda>result.
       bindE (assert (result \<ge> 0) ''unsigned value cannot be negative'' NUMERIC_FAULT) (\<lambda>_. Inr result))"

definition getNumber_bigint :: "int \<Rightarrow> int result" where
  "getNumber_bigint n = bindE (assertArgument (safe_range n) ''overflow'') (\<lambda>_. Inr n)"

fun getNumber :: "js_data \<Rightarrow> int result" where
  "getNumber (DBig n) = getNumber_bigint n"
| "getNumber (DNum v) = checked_number v"
| "getNumber (DStr s) =
     (case (if s = [] then None else js_BigInt s) of
        None \<Rightarrow> Inl (CoreError INVALID_ARGUMENT ''invalid numeric string'')
      | Some n \<Rightarrow> (case getNumber_bigint n of
                    Inr m \<Rightarrow> Inr m
                  | Inl _ \<Rightarrow> Inl (CoreError INVALID_ARGUMENT ''invalid numeric string'')))"
| "getNumber _ = Inl (CoreError INVALID_ARGUMENT ''invalid numeric value'')"

definition Nibbles :: string where
  "Nibbles = ''0123456789abcdef''"

definition nibble_chars :: "byte \<Rightarrow> string" where
  "nibble_chars v = [Nibbles ! unat (drop_bit 4 v), Nibbles ! unat (v AND 0x0f)]"

definition toBigInt :: "js_data \<Rightarrow> int result" where
  "toBigInt v =
     (case v of
        DU8 bs \<Rightarrow> (case js_BigInt (foldl (\<lambda>result b. result @ nibble_chars b) ''0x0'' bs) of
                     Some n \<Rightarrow> Inr n
                   | None \<Rightarrow> Inl (JsError NativeSyntaxError ''Cannot convert to a BigInt''))
      | _ \<Rightarrow> getBigInt v)"

definition toNumber :: "js_data \<Rightarrow> int result" where
  "toNumber v = bindE (toBigInt v) (\<lambda>n. getNumber (DBig n))"

section \<open>Two's complement\<close>

text \<open>The shifts of \<open>bigint\<close>: a negative count shifts the other way.\<close>

definition shl :: "int \<Rightarrow> int \<Rightarrow> int" where
  "shl v n = (if n \<ge> 0 then push_bit (nat n) v else drop_bit (nat (- n)) v)"

definition shr :: "int \<Rightarrow> int \<Rightarrow> int" where
  "shr v n = shl v (- n)"

definition fromTwos :: "js_data \<Rightarrow> js_data \<Rightarrow> int result" where
  "fromTwos v0 w0 =
     bindE (getUint v0) (\<lambda>value.
     bindE (getNumber w0) (\<lambda>width.
     bindE (assert (shr value width = 0) ''overflow'' NUMERIC_FAULT) (\<lambda>_.
       if shr value (width - 1) \<noteq> 0
       then let m = shl 1 width - 1 in Inr (- ((NOT value AND m) + 1))
       else Inr value)))"

definition toTwos :: "js_data \<Rightarrow> js_data \<Rightarrow> int result" where
  "toTwos v0 w0 =
     bindE (getBigInt v0) (\<lambda>value.
     bindE (getNumber w0) (\<lambda>width.
       let limit = shl 1 (width - 1)
       in if value < 0
          then bindE (assert (- value \<le> limit) ''too low'' NUMERIC_FAULT) (\<lambda>_.
                 let m = shl 1 width - 1 in Inr ((NOT (- value) AND m) + 1))
          else bindE (assert (value < limit) ''too high'' NUMERIC_FAULT) (\<lambda>_. Inr value)))"

definition mask_bits :: "js_data \<Rightarrow> js_data \<Rightarrow> int result" where
  "mask_bits v0 b0 =
     bindE (getUint v0) (\<lambda>value.
     bindE (getNumber b0) (\<lambda>bits. Inr (value AND (shl 1 bits - 1))))"

section \<open>Big-endian forms\<close>

function pad_to :: "int \<Rightarrow> string \<Rightarrow> string" where
  "pad_to n s = (if int (length s) < n then pad_to n (CHR ''0'' # s) else s)"
  by pat_completeness auto
termination by (relation "measure (\<lambda>(n, s). nat (n - int (length s)))") auto

declare pad_to.simps [simp del]

definition toBeHex :: "js_data \<Rightarrow> js_data option \<Rightarrow> string result" where
  "toBeHex v0 w0 =
     bindE (getUint v0) (\<lambda>value.
       let result = int_toString 16 value
       in case w0 of
            None \<Rightarrow> Inr (''0x'' @ (if odd (length result) then ''0'' @ result else result))
          | Some w \<Rightarrow>
              bindE (getNumber w) (\<lambda>width.
              bindE (assert (width * 2 \<ge> int (length result)) ''value exceeds width'' NUMERIC_FAULT) (\<lambda>_.
                Inr (''0x'' @ pad_to (width * 2) result))))"

definition toBeArray :: "js_data \<Rightarrow> byte list result" where
  "toBeArray v0 =
     bindE (getUint v0) (\<lambda>value.
       if value = 0 then Inr []
       else let s = int_toString 16 value; hex = (if odd (length s) then ''0'' @ s else s)
            in Inr (parse_pairs hex))"

function strip_0 :: "string \<Rightarrow> string" where
  "strip_0 s = (if starts_with s ''0'' then strip_0 (drop 1 s) else s)"
  by pat_completeness auto
termination by (relation "measure length") (auto simp: starts_with_iff)

declare strip_0.simps [simp del]

definition toQuantity :: "js_data \<Rightarrow> string result" where
  "toQuantity v =
     bindE (if isBytesLike v then Inr v else mapE DU8 (toBeArray v)) (\<lambda>d.
     bindE (hexlify d no_options) (\<lambda>h.
       let r = strip_0 (drop 2 h)
       in Inr (''0x'' @ (if r = [] then ''0'' else r))))"

section \<open>Reading laws\<close>

lemma getUint_Big [simp]:
  "getUint (DBig n) = (if 0 \<le> n then Inr n else Inl (CoreError NUMERIC_FAULT ''unsigned value cannot be negative''))"
  by (simp add: getUint_def)

lemma getNumber_bigint_safe [simp]: "safe_range n \<Longrightarrow> getNumber_bigint n = Inr n"
  by (simp add: getNumber_bigint_def)

lemma checked_number_int: "checked_number (num_of_int n) = getNumber (DBig n)"
  by (simp add: checked_number_def getNumber_bigint_def)

lemma getNumber_getBigInt: "getNumber v = Inr n \<Longrightarrow> (\<forall>s. v \<noteq> DStr s) \<Longrightarrow> getBigInt v = Inr n"
  by (cases v) (auto simp: getNumber_bigint_def)

lemma nibble_chars_hex: "nibble_chars b = hex_of_byte b"
proof -
  have "Nibbles = HexCharacters" by (simp add: Nibbles_def HexCharacters_def)
  moreover have "unat (drop_bit 4 b) = unat b div 16" by (simp add: drop_bit_eq_div unat_div)
  ultimately show ?thesis by (simp only: nibble_chars_def hex_of_byte_def high_nibble)
qed

lemma hexvals_hex_of_bytes: "of_digits 16 (map hexval (hex_of_bytes bs)) = bytes_value bs"
proof (induction bs rule: rev_induct)
  case (snoc b bs)
  have b: "unat b div 16 < 16" using unat_byte_less [of b] by linarith
  have "map hexval (hex_of_byte b) = [unat b div 16, unat b mod 16]"
    using b by (simp add: hex_of_byte_digits)
  then show ?case
    using snoc by (simp add: of_digits_append of_digits_Cons bytes_value_append bytes_value_def)
qed (simp add: bytes_value_def)

lemma parse_radix_hex:
  "s \<noteq> [] \<Longrightarrow> list_all is_hex_char s \<Longrightarrow> parse_radix 16 s = Some (of_digits 16 (map hexval s))"
proof -
  assume "s \<noteq> []" and h: "list_all is_hex_char s"
  have "those (map (digit_in 16) s) = Some (map hexval s)"
    using h by (intro those_cong_Some) (simp add: list_all_iff digit_in_hexval)
  then show ?thesis using \<open>s \<noteq> []\<close> by (simp add: parse_radix_def decode_with_def)
qed

lemma dropWhile_not_hd: "\<not> P c \<Longrightarrow> dropWhile P (c # r) = c # r"
  by simp

lemma js_trim_hex: "list_all is_hex_char r \<Longrightarrow> r \<noteq> [] \<Longrightarrow> js_trim (CHR ''0'' # CHR ''x'' # r) = CHR ''0'' # CHR ''x'' # r"
proof -
  assume h: "list_all is_hex_char r" and "r \<noteq> []"
  have 0: "\<not> is_js_space CHR ''0''" by (simp add: is_js_space_def)
  obtain c r' where r: "r = r' @ [c]" using \<open>r \<noteq> []\<close> by (metis rev_exhaust)
  then have "\<not> is_js_space c" using h by (simp add: is_hex_not_space)
  then show ?thesis by (simp add: js_trim_def 0 r)
qed

lemma js_BigInt_hex:
  "list_all is_hex_char r \<Longrightarrow> r \<noteq> [] \<Longrightarrow>
   js_BigInt (CHR ''0'' # CHR ''x'' # r) = Some (int (of_digits 16 (map hexval r)))"
  by (simp add: js_BigInt_def Let_def js_trim_hex parse_radix_hex)

lemma toBigInt_bytes: "toBigInt (DU8 bs) = Inr (int (bytes_value bs))"
proof -
  have fold: "foldl (\<lambda>result b. result @ nibble_chars b) acc bs = acc @ hex_of_bytes bs" for acc
    by (induction bs arbitrary: acc) (simp_all add: nibble_chars_hex)
  have "is_hex_char CHR ''0''" by (simp add: is_hex_char_def digit_in_def digit_val_def)
  moreover have "hexval CHR ''0'' = 0" by (simp add: hexval_def digit_in_def digit_val_def)
  ultimately show ?thesis
    by (simp add: toBigInt_def fold js_BigInt_hex hexvals_hex_of_bytes)
qed

section \<open>Two's complement is arithmetic modulo a power of two\<close>

lemma shl_nat [simp]: "shl v (int w) = v * 2 ^ w"
  by (simp add: shl_def push_bit_eq_mult)

lemma shr_nat [simp]: "shr v (int w) = v div 2 ^ w"
  by (cases "w = 0") (simp_all add: shr_def shl_def drop_bit_eq_div)

lemma not_and_mask:
  assumes "0 < v" and "v < 2 ^ w"
  shows "(NOT v AND (2 ^ w - 1)) + 1 = 2 ^ w - (v :: int)"
proof -
  have "NOT v AND (2 ^ w - 1) = take_bit w (NOT v)"
    by (simp add: take_bit_eq_mask mask_eq_exp_minus_1)
  also have "\<dots> = (- v - 1) mod 2 ^ w" by (simp add: take_bit_eq_mod not_int_def)
  also have "\<dots> = (2 ^ w - v - 1) mod 2 ^ w"
    using mod_add_self2 [of "- v - 1" "2 ^ w :: int"] by (simp add: algebra_simps)
  also have "\<dots> = 2 ^ w - v - 1" using assms by (simp add: mod_pos_pos_trivial)
  finally show ?thesis by simp
qed

definition fits_signed :: "nat \<Rightarrow> int \<Rightarrow> bool" where
  "fits_signed w v \<longleftrightarrow> - (2 ^ (w - 1)) \<le> v \<and> v < 2 ^ (w - 1)"

lemma toTwos_Big:
  assumes "0 < w" and "safe_range (int w)"
  shows "toTwos (DBig v) (DBig (int w)) =
    (if v < - (2 ^ (w - 1)) then Inl (CoreError NUMERIC_FAULT ''too low'')
     else if v \<ge> 2 ^ (w - 1) then Inl (CoreError NUMERIC_FAULT ''too high'')
     else Inr (v mod 2 ^ w))"
proof -
  have w1: "int w - 1 = int (w - 1)" using assms(1) by simp
  have half: "(2 :: int) ^ w = 2 * 2 ^ (w - 1)" using assms(1) by (cases w) simp_all
  have neg: "(NOT (- v) AND (2 ^ w - 1)) + 1 = v mod 2 ^ w" if "v < 0" "- v \<le> 2 ^ (w - 1)"
  proof -
    have "v mod 2 ^ w = (v + 2 ^ w) mod 2 ^ w" by simp
    also have "\<dots> = v + 2 ^ w" using that half by (intro mod_pos_pos_trivial) auto
    finally have "v mod 2 ^ w = v + 2 ^ w" .
    moreover have "(NOT (- v) AND (2 ^ w - 1)) + 1 = 2 ^ w - (- v)"
      using that half by (intro not_and_mask) auto
    ultimately show ?thesis by simp
  qed
  have pos: "v mod 2 ^ w = v" if "0 \<le> v" "v < 2 ^ (w - 1)"
    using that half by (intro mod_pos_pos_trivial) auto
  have p: "0 < (2 :: int) ^ (w - 1)" by simp
  show ?thesis
  proof (cases "v < 0")
    case True
    with assms(2) neg p show ?thesis by (simp add: toTwos_def Let_def w1)
  next
    case False
    with p have "\<not> v < - (2 ^ (w - 1))" by linarith
    with False assms(2) pos show ?thesis by (simp add: toTwos_def Let_def w1)
  qed
qed

lemma fromTwos_Big:
  assumes "0 < w" and "safe_range (int w)"
  shows "fromTwos (DBig u) (DBig (int w)) =
    (if u < 0 then Inl (CoreError NUMERIC_FAULT ''unsigned value cannot be negative'')
     else if u \<ge> 2 ^ w then Inl (CoreError NUMERIC_FAULT ''overflow'')
     else Inr (if u \<ge> 2 ^ (w - 1) then u - 2 ^ w else u))"
proof -
  have w1: "int w - 1 = int (w - 1)" using assms(1) by simp
  have z: "u div 2 ^ k = 0 \<longleftrightarrow> u < 2 ^ k" if "0 \<le> u" for k
    using that zero_less_power [of "2 :: int" k] by (auto simp add: zdiv_eq_0_iff)
  have neg: "- ((NOT u AND (2 ^ w - 1)) + 1) = u - 2 ^ w" if "2 ^ (w - 1) \<le> u" "u < 2 ^ w"
  proof -
    have "0 < u" using that(1) zero_less_power [of "2 :: int" "w - 1"] by linarith
    then show ?thesis using that(2) by (subst not_and_mask) auto
  qed
  show ?thesis
  proof (cases "u < 0")
    case False
    with assms(2) neg z show ?thesis by (simp add: fromTwos_def Let_def w1)
  qed (simp add: fromTwos_def)
qed

section \<open>Canonical big-endian bytes\<close>

definition bytes_of_nat :: "nat \<Rightarrow> byte list" where
  "bytes_of_nat n = map of_nat (to_digits 256 n)"

lemma map_unat_bytes_of_nat: "map unat (bytes_of_nat n) = to_digits 256 n"
proof -
  have "unat (of_nat d :: byte) = d" if "d \<in> set (to_digits 256 n)" for d
    using to_digits_less [OF that] by (rule unat_byte_of_nat)
  then show ?thesis by (simp add: bytes_of_nat_def map_idI)
qed

lemma bytes_value_bytes_of_nat [simp]: "bytes_value (bytes_of_nat n) = n"
  by (simp add: bytes_value_def map_unat_bytes_of_nat)

definition minimal :: "byte list \<Rightarrow> bool" where
  "minimal bs \<longleftrightarrow> bs = [] \<or> hd bs \<noteq> 0"

lemma bytes_of_nat_minimal: "minimal (bytes_of_nat n)"
proof (cases "n = 0")
  case False
  then have "hd (map unat (bytes_of_nat n)) \<noteq> 0"
    by (simp only: map_unat_bytes_of_nat) (simp add: hd_to_digits)
  moreover have "bytes_of_nat n \<noteq> []" using False by (simp add: bytes_of_nat_def)
  ultimately show ?thesis by (auto simp: minimal_def hd_map)
qed (simp add: bytes_of_nat_def minimal_def)

lemma minimal_unique: "minimal bs \<Longrightarrow> bs = bytes_of_nat (bytes_value bs)"
proof -
  assume m: "minimal bs"
  have "map unat bs = to_digits 256 (bytes_value bs)"
  proof (cases "bs = []")
    case False
    then have "hd (map unat bs) \<noteq> 0" using m by (simp add: minimal_def hd_map unsigned_eq_0_iff)
    then show ?thesis
      using False by (simp add: bytes_value_def to_digits_unique)
  qed (simp add: bytes_value_def)
  then have "map unat bs = map unat (bytes_of_nat (bytes_value bs))"
    by (simp add: map_unat_bytes_of_nat)
  then show ?thesis by (metis (no_types) injI inj_map_eq_map unsigned_word_eqI)
qed

lemma bytes_value_parse_pairs:
  assumes "list_all is_hex_char r" and "even (length r)"
  shows "bytes_value (parse_pairs r) = of_digits 16 (map hexval r)"
proof -
  have "map hexval (hex_of_bytes (parse_pairs r)) = map hexval r"
    using assms by (auto simp: hex_of_parse_pairs to_lower_hex hexval_less list_all_iff)
  then show ?thesis by (metis hexvals_hex_of_bytes)
qed

lemma of_digits_eq_iff:
  "length xs = length ys \<Longrightarrow> \<forall>d \<in> set xs. d < b \<Longrightarrow> \<forall>d \<in> set ys. d < b \<Longrightarrow>
   of_digits b xs = of_digits b ys \<Longrightarrow> xs = ys"
proof (induction xs arbitrary: ys rule: rev_induct)
  case (snoc x xs)
  then obtain y ys' where ys: "ys = ys' @ [y]" by (cases ys rule: rev_exhaust) auto
  with snoc.prems have eq: "of_digits b xs * b + x = of_digits b ys' * b + y" and lt: "x < b" "y < b" by auto
  have "x = (of_digits b xs * b + x) mod b" using lt by simp
  also have "\<dots> = y" using lt by (simp add: eq)
  finally have "x = y" .
  moreover have "of_digits b xs = (of_digits b xs * b + x) div b" using lt by simp
  then have "of_digits b xs = of_digits b ys'" using lt by (simp add: eq)
  ultimately show ?case using snoc ys by auto
qed simp

text \<open>A lower-case hex string is the hex of the byte list of its length and value.\<close>

lemma hex_string_unique:
  assumes "\<forall>d \<in> set ds. d < 16" and "length ds = 2 * length bs" and "of_digits 16 ds = bytes_value bs"
  shows "map digit_char ds = hex_of_bytes bs"
proof -
  have low: "map digit_char (map hexval (hex_of_bytes bs)) = hex_of_bytes bs"
  proof -
    have "map digit_char (map hexval (hex_of_bytes bs)) = map to_lower (hex_of_bytes bs)"
      using is_hex_hex_of_bytes [of bs] by (simp add: list_all_iff to_lower_hex del: to_lower_hex_of_bytes)
    then show ?thesis by simp
  qed
  have "ds = map hexval (hex_of_bytes bs)"
    using assms is_hex_hex_of_bytes [of bs]
    by (intro of_digits_eq_iff [of _ _ 16]) (auto simp: hexvals_hex_of_bytes list_all_iff hexval_less)
  with low show ?thesis by simp
qed

lemma int_toString_nat [simp]: "int_toString b (int n) = nat_toString b n"
  by (simp add: int_toString_def)

definition even_hex :: "nat \<Rightarrow> string" where
  "even_hex n = (let s = nat_toString 16 n in if odd (length s) then ''0'' @ s else s)"

lemma even_hex_digits:
  "\<exists>ds. even_hex n = map digit_char ds \<and> (\<forall>d \<in> set ds. d < 16) \<and> even (length ds) \<and> of_digits 16 ds = n
     \<and> (0 < n \<longrightarrow> hd (parse_pairs (even_hex n)) \<noteq> 0 \<and> parse_pairs (even_hex n) \<noteq> [])"
proof -
  define s where "s = (if n = 0 then [0] else to_digits 16 n)"
  define ds where "ds = (if odd (length s) then 0 # s else s)"
  have eq: "even_hex n = map digit_char ds"
    by (simp add: even_hex_def nat_toString_alt s_def ds_def Let_def)
  have lt: "\<forall>d \<in> set ds. d < 16" by (auto simp: ds_def s_def dest: to_digits_less)
  have ev: "even (length ds)" by (simp add: ds_def)
  have val: "of_digits 16 ds = n" by (simp add: ds_def s_def)
  have "hd (parse_pairs (map digit_char ds)) \<noteq> 0 \<and> parse_pairs (map digit_char ds) \<noteq> []" if "0 < n"
  proof -
    have "hd s \<noteq> 0" and "s \<noteq> []" using that by (simp_all add: s_def hd_to_digits)
    then obtain x y r where ds: "ds = x # y # r" and nz: "16 * x + y \<noteq> 0"
      using ev by (cases s; cases "tl s") (auto simp: ds_def split: if_splits)
    have xy: "x < 16" "y < 16" using lt ds by auto
    then have "unat (toUint8 (parseInt16 [digit_char x, digit_char y])) = 16 * x + y"
      by (subst toUint8_pair) (simp_all add: unat_byte_of_nat del: of_nat_add of_nat_mult)
    then show ?thesis using nz ds by auto
  qed
  then show ?thesis using eq lt ev val by auto
qed

lemma parse_even_hex: "0 < n \<Longrightarrow> parse_pairs (even_hex n) = bytes_of_nat n"
proof -
  assume "0 < n"
  obtain ds where ds: "even_hex n = map digit_char ds" "\<forall>d \<in> set ds. d < 16" "even (length ds)" "of_digits 16 ds = n"
    and hd: "hd (parse_pairs (even_hex n)) \<noteq> 0" using even_hex_digits [of n] \<open>0 < n\<close> by auto
  have "bytes_value (parse_pairs (even_hex n)) = of_digits 16 (map hexval (even_hex n))"
    using ds by (intro bytes_value_parse_pairs) (auto simp: list_all_iff)
  also have "map hexval (even_hex n) = ds" using ds by (simp add: map_idI)
  finally have "bytes_value (parse_pairs (even_hex n)) = n" using ds by simp
  then show ?thesis using minimal_unique [of "parse_pairs (even_hex n)"] hd by (simp add: minimal_def)
qed

lemma toBeArray_nat: "toBeArray (DBig (int n)) = Inr (bytes_of_nat n)"
proof (cases "n = 0")
  case False
  then show ?thesis using parse_even_hex [of n] by (simp add: toBeArray_def Let_def even_hex_def)
qed (simp add: toBeArray_def bytes_of_nat_def)

lemma toBeArray_Big:
  "toBeArray (DBig n) = (if 0 \<le> n then Inr (bytes_of_nat (nat n))
                         else Inl (CoreError NUMERIC_FAULT ''unsigned value cannot be negative''))"
proof (cases "0 \<le> n")
  case True
  then show ?thesis using toBeArray_nat [of "nat n"] by simp
qed (simp add: toBeArray_def)

lemma strip_0_eq: "strip_0 s = dropWhile (\<lambda>c. c = CHR ''0'') s"
  by (induction s) (subst strip_0.simps, simp add: starts_with_def)+

lemma strip_hex_of_bytes:
  "(let r = strip_0 (hex_of_bytes bs) in if r = [] then ''0'' else r) = nat_toString 16 (bytes_value bs)"
proof -
  define ds where "ds = map hexval (hex_of_bytes bs)"
  have lt: "\<forall>d \<in> set ds. d < 16"
    using is_hex_hex_of_bytes [of bs] by (auto simp: ds_def list_all_iff hexval_less)
  have h: "hex_of_bytes bs = map digit_char ds"
    using hex_string_unique [of ds bs] lt by (simp add: ds_def hexvals_hex_of_bytes)
  have z: "digit_char d = CHR ''0'' \<longleftrightarrow> d = 0" if "d < 16" for d
    using that hexval_digit_char digit_char_0 by (metis pos2 zero_less_numeral)
  have "dropWhile (\<lambda>c. c = CHR ''0'') (map digit_char ds) = map digit_char (dropWhile (\<lambda>d. d = 0) ds)"
  proof -
    have "dropWhile ((\<lambda>c. c = CHR ''0'') \<circ> digit_char) ds = dropWhile (\<lambda>d. d = 0) ds"
      by (rule dropWhile_cong) (use lt z in auto)
    then show ?thesis by (simp add: dropWhile_map)
  qed
  also have "dropWhile (\<lambda>d. d = 0) ds = to_digits 16 (bytes_value bs)"
    using lt by (simp add: to_digits_of_digits flip: hexvals_hex_of_bytes ds_def)
  finally show ?thesis by (simp add: h strip_0_eq nat_toString_alt Let_def)
qed

lemma toQuantity_bytes: "toQuantity (DU8 bs) = Inr (''0x'' @ nat_toString 16 (bytes_value bs))"
  using strip_hex_of_bytes [of bs] by (simp add: toQuantity_def isBytesLike_def Let_def split: if_splits)

lemma toQuantity_Big:
  "toQuantity (DBig n) = (if 0 \<le> n then Inr (''0x'' @ nat_toString 16 (nat n))
                          else Inl (CoreError NUMERIC_FAULT ''unsigned value cannot be negative''))"
  using strip_hex_of_bytes [of "bytes_of_nat (nat n)"]
  by (simp add: toQuantity_def isBytesLike_def toBeArray_Big Let_def split: if_splits)

section \<open>Properties\<close>

text \<open>
  C3. \<open>toTwos\<close> and \<open>fromTwos\<close> are inverse to each other, and each succeeds exactly on
  the signed \<open>w\<close>-bit range, respectively on its two's complement codes: either
  holds of \<open>v\<close> and \<open>u\<close> if and only if \<open>v\<close> fits and \<open>u\<close> is \<open>v\<close> modulo \<open>2 ^ w\<close>.
\<close>

theorem twos_inverse:
  assumes "0 < w" and "safe_range (int w)"
  shows "(toTwos (DBig v) (DBig (int w)) = Inr u \<longleftrightarrow> fits_signed w v \<and> u = v mod 2 ^ w) \<and>
    (fromTwos (DBig u) (DBig (int w)) = Inr v \<longleftrightarrow> fits_signed w v \<and> u = v mod 2 ^ w)"
proof (rule conjI)
  have half: "(2 :: int) ^ w = 2 * 2 ^ (w - 1)" using assms(1) by (cases w) simp_all
  have p: "0 < (2 :: int) ^ (w - 1)" by simp
  show "toTwos (DBig v) (DBig (int w)) = Inr u \<longleftrightarrow> fits_signed w v \<and> u = v mod 2 ^ w"
    using assms by (auto simp: toTwos_Big fits_signed_def)
  have m: "v mod 2 ^ w = (if v < 0 then v + 2 ^ w else v)" if "fits_signed w v"
  proof (cases "v < 0")
    case True
    have "v mod 2 ^ w = (v + 2 ^ w) mod 2 ^ w" by simp
    also have "\<dots> = v + 2 ^ w"
      using that True half p by (intro mod_pos_pos_trivial) (auto simp: fits_signed_def)
    finally show ?thesis using True by simp
  next
    case False
    then show ?thesis
      using that half p by (simp add: fits_signed_def mod_pos_pos_trivial)
  qed
  show "fromTwos (DBig u) (DBig (int w)) = Inr v \<longleftrightarrow> fits_signed w v \<and> u = v mod 2 ^ w"
  proof
    assume "fromTwos (DBig u) (DBig (int w)) = Inr v"
    then have u: "0 \<le> u" "u < 2 ^ w" and v: "v = (if u \<ge> 2 ^ (w - 1) then u - 2 ^ w else u)"
      using assms by (auto simp: fromTwos_Big split: if_splits)
    then have "fits_signed w v" using half by (auto simp: fits_signed_def)
    then show "fits_signed w v \<and> u = v mod 2 ^ w" using m v u half by (auto split: if_splits)
  next
    assume f: "fits_signed w v \<and> u = v mod 2 ^ w"
    then have "u = (if v < 0 then v + 2 ^ w else v)" using m by simp
    then show "fromTwos (DBig u) (DBig (int w)) = Inr v"
      using f half p assms by (auto simp: fromTwos_Big fits_signed_def)
  qed
qed

theorem twos_inverse_witness:
  "toTwos (DBig (-3)) (DBig 8) = Inr 253 \<and> fromTwos (DBig 253) (DBig 8) = Inr (-3)"
  using twos_inverse [of 8 "-3" 253]
  by (simp add: safe_range_def maxValue_def fits_signed_def)

text \<open>
  \<open>toBeArray\<close> returns the unique big-endian array without a leading zero byte
  whose value, as \<open>toBigInt\<close> reads it, is the given number; it throws exactly for
  negative numbers.
\<close>

theorem toBeArray_minimal:
  "toBeArray (DBig n) = Inr bs \<longleftrightarrow> 0 \<le> n \<and> minimal bs \<and> toBigInt (DU8 bs) = Inr n"
proof
  assume "toBeArray (DBig n) = Inr bs"
  then have "0 \<le> n" and "bs = bytes_of_nat (nat n)" by (auto simp: toBeArray_Big split: if_splits)
  then show "0 \<le> n \<and> minimal bs \<and> toBigInt (DU8 bs) = Inr n"
    by (simp add: bytes_of_nat_minimal toBigInt_bytes)
next
  assume a: "0 \<le> n \<and> minimal bs \<and> toBigInt (DU8 bs) = Inr n"
  then have "bs = bytes_of_nat (bytes_value bs)" and "n = int (bytes_value bs)"
    using minimal_unique by (simp_all add: toBigInt_bytes)
  then show "toBeArray (DBig n) = Inr bs" by (metis toBeArray_nat)
qed

text \<open>
  \<open>toQuantity\<close> is the canonical JSON-RPC quantity: \<open>0x\<close> and the hexadecimal
  digits of the value without leading zeros (\<open>0x0\<close> for zero), the same for a number
  and for every byte array of that value, and reading it back gives the value.
\<close>

theorem toQuantity_canonical:
  "toQuantity (DU8 bs) = toQuantity (DBig (int (bytes_value bs))) \<and>
   (\<exists>s. toQuantity (DBig (int n)) = Inr (''0x'' @ s) \<and> (hd s = CHR ''0'' \<longleftrightarrow> n = 0) \<and>
        getBigInt (DStr (''0x'' @ s)) = Inr (int n))"
proof (rule conjI)
  show "toQuantity (DU8 bs) = toQuantity (DBig (int (bytes_value bs)))"
    by (simp add: toQuantity_bytes toQuantity_Big)
  define s where "s = nat_toString 16 n"
  have hex: "list_all is_hex_char s"
    using is_hex_digit_char [of 0] by (auto simp: s_def nat_toString_alt list_all_iff dest: to_digits_less)
  have val: "of_digits 16 (map hexval s) = n"
    using to_digits_less [of _ 16 n] hexval_digit_char [of 0]
    by (auto simp: s_def nat_toString_alt o_def map_idI)
  have "getBigInt (DStr (''0x'' @ s)) = Inr (int n)"
    using js_BigInt_hex [OF hex] val by (simp add: bigint_of_string_def s_def)
  moreover have "hd s = CHR ''0'' \<longleftrightarrow> n = 0"
  proof (cases "n = 0")
    case False
    then have "hd (to_digits 16 n) \<noteq> 0" and "to_digits 16 n \<noteq> []" by (simp_all add: hd_to_digits)
    moreover have "hd (to_digits 16 n) < 16"
      using \<open>to_digits 16 n \<noteq> []\<close> to_digits_less hd_in_set by blast
    ultimately have "hexval (digit_char (hd (to_digits 16 n))) \<noteq> hexval (digit_char 0)" by simp
    then show ?thesis
      using False \<open>to_digits 16 n \<noteq> []\<close> by (auto simp: s_def nat_toString_alt hd_map)
  qed (simp add: s_def nat_toString_def)
  ultimately show "\<exists>s. toQuantity (DBig (int n)) = Inr (''0x'' @ s) \<and> (hd s = CHR ''0'' \<longleftrightarrow> n = 0) \<and>
       getBigInt (DStr (''0x'' @ s)) = Inr (int n)"
    by (intro exI [of _ s]) (simp add: toQuantity_Big s_def)
qed

text \<open>
  Zero padding keeps the value and fixes the length: \<open>zeroPadValue\<close> succeeds
  exactly when the data is not longer than the width, and then returns the one
  array of that width with the same big-endian value.
\<close>

theorem zeroPadValue_spec:
  "zeroPadValue (DU8 bs) n = Inr h \<longleftrightarrow>
   (\<exists>cs. h = ''0x'' @ hex_of_bytes cs \<and> int (length cs) = n \<and> length bs \<le> length cs
         \<and> bytes_value cs = bytes_value bs)"
proof (cases "int (length bs) \<le> n")
  case True
  define k where "k = nat n - length bs"
  define cs where "cs = replicate k 0 @ bs"
  have len: "int (length cs) = n" using True by (simp add: cs_def k_def)
  have "zeroPadValue (DU8 bs) n = Inr (''0x'' @ hex_of_bytes cs)"
    using True by (simp add: zeroPadValue_def zeroPad_bytes cs_def k_def)
  moreover have "ds = cs" if "int (length ds) = n" "bytes_value ds = bytes_value bs" for ds
  proof -
    have "map unat ds = map unat cs"
      using that len by (intro of_digits_eq_iff [of _ _ 256]) (auto simp: bytes_value_def cs_def)
    then show ?thesis by (metis injI inj_map_eq_map unsigned_word_eqI)
  qed
  moreover have "length bs \<le> length cs" and "bytes_value cs = bytes_value bs" by (simp_all add: cs_def)
  ultimately show ?thesis using len by (metis sum.inject(2))
qed (auto simp: zeroPadValue_def zeroPad_bytes)

end
