(* ===== verification/Rlp.thy ===== *)
theory Rlp
  imports Maths
begin

text \<open>
  Recursive-Length Prefix: the encoder and decoder of \<open>src.ts/utils/rlp-encode.ts\<close>
  and \<open>rlp-decode.ts\<close>, and the second copy in \<open>src.ts/crypto/rlp.ts\<close>. An item is
  anything \<open>getBytes\<close> reads; a decoded item is its hexadecimal string. The decoder's
  recursion takes fuel, one unit per call and per child; \<open>Inl NoReturn\<close> is running
  out, and \<open>rlp_decode_terminates\<close> shows that the fuel given by \<open>decodeRlp\<close> never does.
\<close>

datatype rlp = RItem js_data | RArr "rlp list"

section \<open>Encoding\<close>

text \<open>
  \<open>value & 0xff\<close> and \<open>value >>= 8\<close> work on the signed 32-bit value of a number. A
  length from \<open>2 ^ 31\<close> on shifts to \<open>-1\<close> and the loop does not end (\<open>None\<close>).
\<close>

definition to_int32 :: "int \<Rightarrow> int" where
  "to_int32 v = (v + 2 ^ 31) mod 2 ^ 32 - 2 ^ 31"

partial_function (option) arrayifyInteger :: "int \<Rightarrow> byte list \<Rightarrow> byte list option" where
  "arrayifyInteger value result =
     (if value = 0 then Some result
      else arrayifyInteger (to_int32 value div 2 ^ 8) (word_of_int (to_int32 value mod 2 ^ 8) # result))"

declare arrayifyInteger.simps [code]

text \<open>The header of a payload: \<open>short + length\<close>, or \<open>long + length of the length\<close> and the length.\<close>

definition rlp_header :: "nat \<Rightarrow> nat \<Rightarrow> byte list \<Rightarrow> byte list result" where
  "rlp_header short long payload =
     (if length payload \<le> 55 then Inr (of_nat (short + length payload) # payload)
      else case arrayifyInteger (int (length payload)) [] of
             None \<Rightarrow> Inl NoReturn
           | Some len \<Rightarrow> Inr ((of_nat (long + length len) # len) @ payload))"

fun rlp_encode :: "rlp \<Rightarrow> byte list result"
  and rlp_encode_children :: "rlp list \<Rightarrow> byte list \<Rightarrow> byte list result" where
  "rlp_encode (RArr xs) = bindE (rlp_encode_children xs []) (rlp_header 0xc0 0xf7)"
| "rlp_encode (RItem object) =
     bindE (getBytes object) (\<lambda>data.
       if length data = 1 \<and> data ! 0 \<le> 0x7f then Inr data
       else rlp_header 0x80 0xb7 data)"
| "rlp_encode_children [] payload = Inr payload"
| "rlp_encode_children (child # cs) payload =
     bindE (rlp_encode child) (\<lambda>e. rlp_encode_children cs (payload @ e))"

definition encodeRlp :: "rlp \<Rightarrow> string result" where
  "encodeRlp object =
     bindE (rlp_encode object) (\<lambda>bs. Inr (foldl (\<lambda>result v. result @ nibble_chars v) ''0x'' bs))"

section \<open>Decoding\<close>

definition hexlifyByte :: "byte \<Rightarrow> string" where
  "hexlifyByte value = ''0x'' @ pad_to 2 (nat_toString 16 (unat value))"

text \<open>
  The length bytes are inside the data when this is read. Numbers from \<open>2 ^ 53\<close> on
  are rounded in JavaScript; such a length is beyond any array either way.
\<close>

definition unarrayifyInteger :: "byte list \<Rightarrow> nat \<Rightarrow> nat \<Rightarrow> nat" where
  "unarrayifyInteger data offset len = foldl (\<lambda>result v. result * 256 + unat v) 0 (take len (drop offset data))"

definition checkOffset :: "byte list \<Rightarrow> nat \<Rightarrow> unit result" where
  "checkOffset data offset = assert (offset \<le> length data) ''data short segment too short'' BUFFER_OVERRUN"

definition undefined_read :: error where
  "undefined_read = JsError NativeTypeError ''Cannot read properties of undefined''"

text \<open>
  What the first bytes of an encoding say: an item of so many consumed bytes, or a
  list whose children start at an offset and fill so many bytes.
\<close>

datatype rlp_head = HItem nat string | HList nat nat

definition rlp_decode_head :: "byte list \<Rightarrow> nat \<Rightarrow> rlp_head result" where
  "rlp_decode_head data offset =
     bindE (assert (length data \<noteq> 0) ''data too short'' BUFFER_OVERRUN) (\<lambda>_.
       if offset \<ge> length data then Inl undefined_read
       else let b = unat (data ! offset)
       in if b \<ge> 0xf8 then
            let lengthLength = b - 0xf7
            in bindE (checkOffset data (offset + 1 + lengthLength)) (\<lambda>_.
                 let len = unarrayifyInteger data (offset + 1) lengthLength
                 in bindE (checkOffset data (offset + 1 + lengthLength + len)) (\<lambda>_.
                      Inr (HList (offset + 1 + lengthLength) (lengthLength + len))))
          else if b \<ge> 0xc0 then
            let len = b - 0xc0
            in bindE (checkOffset data (offset + 1 + len)) (\<lambda>_. Inr (HList (offset + 1) len))
          else if b \<ge> 0xb8 then
            let lengthLength = b - 0xb7
            in bindE (checkOffset data (offset + 1 + lengthLength)) (\<lambda>_.
                 let len = unarrayifyInteger data (offset + 1) lengthLength
                 in bindE (checkOffset data (offset + 1 + lengthLength + len)) (\<lambda>_.
                    bindE (hexlify (DU8 (js_slice data (int (offset + 1 + lengthLength))
                                           (int (offset + 1 + lengthLength + len)))) no_options) (\<lambda>result.
                      Inr (HItem (1 + lengthLength + len) result))))
          else if b \<ge> 0x80 then
            let len = b - 0x80
            in bindE (checkOffset data (offset + 1 + len)) (\<lambda>_.
               bindE (hexlify (DU8 (js_slice data (int (offset + 1)) (int (offset + 1 + len)))) no_options) (\<lambda>result.
                 Inr (HItem (1 + len) result)))
          else Inr (HItem 1 (hexlifyByte (data ! offset))))"

fun rlp_decode :: "nat \<Rightarrow> byte list \<Rightarrow> nat \<Rightarrow> (nat \<times> rlp) result"
  and rlp_decode_children ::
    "nat \<Rightarrow> byte list \<Rightarrow> nat \<Rightarrow> nat \<Rightarrow> nat \<Rightarrow> rlp list \<Rightarrow> (nat \<times> rlp) result" where
  "rlp_decode 0 data offset = Inl NoReturn"
| "rlp_decode (Suc fuel) data offset =
     bindE (rlp_decode_head data offset) (\<lambda>h.
       case h of
         HItem consumed result \<Rightarrow> Inr (consumed, RItem (DStr result))
       | HList childOffset len \<Rightarrow> rlp_decode_children fuel data offset childOffset len [])"
| "rlp_decode_children 0 data offset childOffset len result = Inl NoReturn"
| "rlp_decode_children (Suc fuel) data offset childOffset len result =
     (if childOffset < offset + 1 + len then
        bindE (rlp_decode fuel data childOffset) (\<lambda>(consumed, r).
          let childOffset' = childOffset + consumed
          in bindE (assert (childOffset' \<le> offset + 1 + len) ''child data too short'' BUFFER_OVERRUN) (\<lambda>_.
               rlp_decode_children fuel data offset childOffset' len (result @ [r])))
      else Inr (1 + len, RArr result))"

definition decodeRlp :: "js_data \<Rightarrow> rlp result" where
  "decodeRlp d =
     bindE (getBytes d) (\<lambda>data.
     bindE (rlp_decode (2 * length data + 1) data 0) (\<lambda>(consumed, result).
     bindE (assertArgument (consumed = length data) ''unexpected junk after rlp payload'') (\<lambda>_.
       Inr result)))"

section \<open>The copy in \<open>crypto/rlp.ts\<close>\<close>

fun crypto_rlp_encode :: "rlp \<Rightarrow> byte list result"
  and crypto_rlp_encode_children :: "rlp list \<Rightarrow> byte list \<Rightarrow> byte list result" where
  "crypto_rlp_encode (RArr xs) = bindE (crypto_rlp_encode_children xs []) (rlp_header 0xc0 0xf7)"
| "crypto_rlp_encode (RItem object) =
     (if \<not> isBytesLike object then logger_throwArgumentError logger_init ''RLP object must be BytesLike''
      else bindE (arrayify object no_options) (\<lambda>data.
             if length data = 1 \<and> data ! 0 \<le> 0x7f then Inr data
             else rlp_header 0x80 0xb7 data))"
| "crypto_rlp_encode_children [] payload = Inr payload"
| "crypto_rlp_encode_children (child # cs) payload =
     bindE (crypto_rlp_encode child) (\<lambda>e. crypto_rlp_encode_children cs (payload @ e))"

text \<open>\<open>hexlify\<close> is given the plain array of numbers, not a \<open>Uint8Array\<close>.\<close>

definition crypto_encode :: "rlp \<Rightarrow> string result" where
  "crypto_encode object =
     bindE (crypto_rlp_encode object) (\<lambda>bs. hexlify (DArr (map (\<lambda>b. num_of_int (uint b)) bs)) no_options)"

definition crypto_check :: "byte list \<Rightarrow> nat \<Rightarrow> string \<Rightarrow> unit result" where
  "crypto_check data n message =
     (if n > length data then logger_throwError logger_init message BUFFER_OVERRUN else Inr ())"

definition crypto_rlp_head :: "byte list \<Rightarrow> nat \<Rightarrow> rlp_head result" where
  "crypto_rlp_head data offset =
     (if length data = 0 then logger_throwError logger_init ''data too short'' BUFFER_OVERRUN
      else if offset \<ge> length data then Inl undefined_read
      else let b = unat (data ! offset)
       in if b \<ge> 0xf8 then
            let lengthLength = b - 0xf7
            in bindE (crypto_check data (offset + 1 + lengthLength) ''data short segment too short'') (\<lambda>_.
                 let len = unarrayifyInteger data (offset + 1) lengthLength
                 in bindE (crypto_check data (offset + 1 + lengthLength + len) ''data long segment too short'') (\<lambda>_.
                      Inr (HList (offset + 1 + lengthLength) (lengthLength + len))))
          else if b \<ge> 0xc0 then
            let len = b - 0xc0
            in bindE (crypto_check data (offset + 1 + len) ''data array too short'') (\<lambda>_.
                 Inr (HList (offset + 1) len))
          else if b \<ge> 0xb8 then
            let lengthLength = b - 0xb7
            in bindE (crypto_check data (offset + 1 + lengthLength) ''data array too short'') (\<lambda>_.
                 let len = unarrayifyInteger data (offset + 1) lengthLength
                 in bindE (crypto_check data (offset + 1 + lengthLength + len) ''data array too short'') (\<lambda>_.
                    bindE (hexlify (DU8 (js_slice data (int (offset + 1 + lengthLength))
                                           (int (offset + 1 + lengthLength + len)))) no_options) (\<lambda>result.
                      Inr (HItem (1 + lengthLength + len) result))))
          else if b \<ge> 0x80 then
            let len = b - 0x80
            in bindE (crypto_check data (offset + 1 + len) ''data too short'') (\<lambda>_.
               bindE (hexlify (DU8 (js_slice data (int (offset + 1)) (int (offset + 1 + len)))) no_options) (\<lambda>result.
                 Inr (HItem (1 + len) result)))
          else bindE (hexlify (DNum (num_of_int (uint (data ! offset)))) no_options) (\<lambda>result.
                 Inr (HItem 1 result)))"

fun crypto_rlp_decode :: "nat \<Rightarrow> byte list \<Rightarrow> nat \<Rightarrow> (nat \<times> rlp) result"
  and crypto_rlp_decode_children ::
    "nat \<Rightarrow> byte list \<Rightarrow> nat \<Rightarrow> nat \<Rightarrow> nat \<Rightarrow> rlp list \<Rightarrow> (nat \<times> rlp) result" where
  "crypto_rlp_decode 0 data offset = Inl NoReturn"
| "crypto_rlp_decode (Suc fuel) data offset =
     bindE (crypto_rlp_head data offset) (\<lambda>h.
       case h of
         HItem consumed result \<Rightarrow> Inr (consumed, RItem (DStr result))
       | HList childOffset len \<Rightarrow> crypto_rlp_decode_children fuel data offset childOffset len [])"
| "crypto_rlp_decode_children 0 data offset childOffset len result = Inl NoReturn"
| "crypto_rlp_decode_children (Suc fuel) data offset childOffset len result =
     (if childOffset < offset + 1 + len then
        bindE (crypto_rlp_decode fuel data childOffset) (\<lambda>(consumed, r).
          let childOffset' = childOffset + consumed
          in if childOffset' > offset + 1 + len
             then logger_throwError logger_init ''child data too short'' BUFFER_OVERRUN
             else crypto_rlp_decode_children fuel data offset childOffset' len (result @ [r]))
      else Inr (1 + len, RArr result))"

definition crypto_decode :: "js_data \<Rightarrow> rlp result" where
  "crypto_decode d =
     bindE (arrayify d no_options) (\<lambda>bytes.
     bindE (crypto_rlp_decode (2 * length bytes + 1) bytes 0) (\<lambda>(consumed, result).
       if consumed \<noteq> length bytes then logger_throwArgumentError logger_init ''invalid rlp data''
       else Inr result))"

section \<open>The length prefix\<close>

lemma to_int32_small [simp]: "0 \<le> v \<Longrightarrow> v < 2 ^ 31 \<Longrightarrow> to_int32 v = v"
  by (simp add: to_int32_def)

lemma arrayifyInteger_small:
  "n < 2 ^ 31 \<Longrightarrow> arrayifyInteger (int n) acc = Some (bytes_of_nat n @ acc)"
proof (induction n arbitrary: acc rule: less_induct)
  case (less n)
  show ?case
  proof (cases "n = 0")
    case True
    then show ?thesis by (subst arrayifyInteger.simps) (simp add: bytes_of_nat_def)
  next
    case False
    have "int n div 2 ^ 8 = int (n div 256)" by (simp add: zdiv_int)
    moreover have "int n mod 2 ^ 8 = int (n mod 256)" by (simp add: zmod_int)
    ultimately have "arrayifyInteger (int n) acc = arrayifyInteger (int (n div 256)) (of_nat (n mod 256) # acc)"
      using less.prems False by (subst arrayifyInteger.simps) simp
    also have "\<dots> = Some (bytes_of_nat (n div 256) @ of_nat (n mod 256) # acc)"
      using less False by simp
    also have "bytes_of_nat (n div 256) @ of_nat (n mod 256) # acc = bytes_of_nat n @ acc"
      using False by (simp add: bytes_of_nat_def to_digits_pos [of 256 n])
    finally show ?thesis .
  qed
qed

lemma length_bytes_of_nat_le: "length (bytes_of_nat n) \<le> k \<longleftrightarrow> n < 256 ^ k"
  by (simp add: bytes_of_nat_def length_to_digits_le)

lemma unarrayifyInteger_value: "unarrayifyInteger data off len = bytes_value (take len (drop off data))"
  by (simp add: unarrayifyInteger_def bytes_value_def of_digits_def foldl_map)

definition rlp_prefix :: "nat \<Rightarrow> nat \<Rightarrow> nat \<Rightarrow> byte list" where
  "rlp_prefix short long n =
     (if n \<le> 55 then [of_nat (short + n)]
      else of_nat (long + length (bytes_of_nat n)) # bytes_of_nat n)"

lemma rlp_header_small:
  "length p < 2 ^ 31 \<Longrightarrow> rlp_header short long p = Inr (rlp_prefix short long (length p) @ p)"
  by (simp add: rlp_header_def rlp_prefix_def arrayifyInteger_small)

lemma rlp_header_length: "rlp_header short long p = Inr e \<Longrightarrow> length p < length e"
  by (auto simp: rlp_header_def split: if_splits option.splits)

lemma hexlifyByte_eq: "hexlifyByte b = ''0x'' @ hex_of_byte b"
proof -
  define n where "n = unat b"
  have n: "n < 256" by (simp add: n_def)
  have "pad_to 2 (nat_toString 16 n) = [digit_char (n div 16), digit_char (n mod 16)]"
  proof (cases "n < 16")
    case True
    have "nat_toString 16 n = [digit_char n]"
      using True by (simp add: nat_toString_alt to_digits_single)
    then show ?thesis using True by (simp add: pad_to.simps)
  next
    case False
    then have "to_digits 16 n = [n div 16, n mod 16]"
      using n by (simp add: to_digits_pos [of 16 n] to_digits_single)
    then show ?thesis using False by (simp add: nat_toString_alt pad_to.simps)
  qed
  then show ?thesis by (simp add: hexlifyByte_def hex_of_byte_digits n_def)
qed

section \<open>Decoding what was encoded\<close>

lemma length_bytes_of_nat_31: "n < 2 ^ 31 \<Longrightarrow> length (bytes_of_nat n) \<le> 4"
  by (simp add: length_bytes_of_nat_le)

lemma bytes_of_nat_nonempty: "0 < n \<Longrightarrow> 1 \<le> length (bytes_of_nat n)"
  by (cases "bytes_of_nat n") (simp_all add: bytes_of_nat_def)

lemma slice_at: "js_slice (pre @ p @ post) (int (length pre)) (int (length pre + length p)) = p"
  by (subst js_slice_nat) simp_all

text \<open>The prefix of an item of \<open>n\<close> bytes, read back at its offset.\<close>

lemma head_item:
  assumes n: "length p < 2 ^ 31"
    and data: "data = pre @ rlp_prefix 0x80 0xb7 (length p) @ p @ post"
  shows "rlp_decode_head data (length pre) =
    Inr (HItem (length (rlp_prefix 0x80 0xb7 (length p)) + length p) (''0x'' @ hex_of_bytes p))"
proof (cases "length p \<le> 55")
  case True
  then have b: "unat (of_nat (0x80 + length p) :: byte) = 0x80 + length p"
    by (intro unat_byte_of_nat) simp
  have "data = (pre @ [of_nat (0x80 + length p)]) @ p @ post" using True data by (simp add: rlp_prefix_def)
  then have sl: "js_slice data (1 + int (length pre)) (1 + int (length pre + length p)) = p"
    using js_slice_nat [of "length pre + 1" "length pre + 1 + length p" data] by simp
  have at: "data ! length pre = of_nat (0x80 + length p)" and len: "length data = length pre + 1 + length p + length post"
    using True data by (simp_all add: rlp_prefix_def nth_append)
  show ?thesis
    using True by (simp add: rlp_decode_head_def Let_def at b len checkOffset_def sl rlp_prefix_def
        del: of_nat_add)
next
  case False
  define l where "l = bytes_of_nat (length p)"
  have l: "1 \<le> length l" "length l \<le> 4"
    using length_bytes_of_nat_31 [OF n] bytes_of_nat_nonempty [of "length p"] False unfolding l_def by linarith+
  have b: "unat (of_nat (0xb7 + length l) :: byte) = 0xb7 + length l"
    using l by (intro unat_byte_of_nat) simp
  have d: "data = (pre @ of_nat (0xb7 + length l) # l) @ p @ post"
    using False data by (simp add: rlp_prefix_def l_def)
  have sl: "js_slice data (1 + int (length pre + length l)) (1 + int (length pre + length l + length p)) = p"
    using js_slice_nat [of "length pre + length l + 1" "length pre + length l + 1 + length p" data]
    by (simp add: d)
  have at: "data ! length pre = of_nat (0xb7 + length l)"
    and len: "length data = length pre + 1 + length l + length p + length post"
    by (simp_all add: d nth_append)
  have un: "unarrayifyInteger data (Suc (length pre)) (length l) = length p"
    by (simp add: unarrayifyInteger_value d) (simp add: l_def)
  show ?thesis
    using False l by (simp add: rlp_decode_head_def Let_def at b len checkOffset_def sl un rlp_prefix_def
        del: of_nat_add flip: l_def)
qed

lemma head_list:
  assumes n: "length p < 2 ^ 31"
    and data: "data = pre @ rlp_prefix 0xc0 0xf7 (length p) @ p @ post"
  shows "rlp_decode_head data (length pre) =
    Inr (HList (length pre + length (rlp_prefix 0xc0 0xf7 (length p)))
               (length (rlp_prefix 0xc0 0xf7 (length p)) - 1 + length p))"
proof (cases "length p \<le> 55")
  case True
  then have b: "unat (of_nat (0xc0 + length p) :: byte) = 0xc0 + length p"
    by (intro unat_byte_of_nat) simp
  have at: "data ! length pre = of_nat (0xc0 + length p)" and len: "length data = length pre + 1 + length p + length post"
    using True data by (simp_all add: rlp_prefix_def nth_append)
  show ?thesis
    using True by (simp add: rlp_decode_head_def Let_def at b len checkOffset_def rlp_prefix_def del: of_nat_add)
next
  case False
  define l where "l = bytes_of_nat (length p)"
  have l: "1 \<le> length l" "length l \<le> 4"
    using length_bytes_of_nat_31 [OF n] bytes_of_nat_nonempty [of "length p"] False unfolding l_def by linarith+
  have b: "unat (of_nat (0xf7 + length l) :: byte) = 0xf7 + length l"
    using l by (intro unat_byte_of_nat) simp
  have d: "data = (pre @ of_nat (0xf7 + length l) # l) @ p @ post"
    using False data by (simp add: rlp_prefix_def l_def)
  have at: "data ! length pre = of_nat (0xf7 + length l)"
    and len: "length data = length pre + 1 + length l + length p + length post"
    by (simp_all add: d nth_append)
  have un: "unarrayifyInteger data (Suc (length pre)) (length l) = length p"
    by (simp add: unarrayifyInteger_value d) (simp add: l_def)
  show ?thesis
    using False l by (simp add: rlp_decode_head_def Let_def at b len checkOffset_def un rlp_prefix_def
        del: of_nat_add flip: l_def)
qed

lemma head_byte:
  assumes "b \<le> 0x7f" and "data = pre @ b # post"
  shows "rlp_decode_head data (length pre) = Inr (HItem 1 (''0x'' @ hex_of_byte b))"
proof -
  have "unat b \<le> 0x7f" using assms(1) by (simp add: word_le_nat_alt)
  then show ?thesis
    using assms(2) by (simp add: rlp_decode_head_def Let_def hexlifyByte_eq)
qed

text \<open>The decoded form of a structure: every item as its lower-case hexadecimal string.\<close>

fun rlp_canon :: "rlp \<Rightarrow> rlp" where
  "rlp_canon (RArr xs) = RArr (map rlp_canon xs)"
| "rlp_canon (RItem d) =
     RItem (DStr (''0x'' @ hex_of_bytes (case getBytes d of Inr bs \<Rightarrow> bs | Inl _ \<Rightarrow> [])))"

lemma rlp_encode_nonempty:
  "rlp_encode x = Inr e \<Longrightarrow> e \<noteq> []"
  by (cases x) (auto simp: rlp_header_def split: if_splits option.splits)

lemma rlp_encode_children_acc:
  "rlp_encode_children xs acc = Inr p \<Longrightarrow> \<exists>q. p = acc @ q \<and> rlp_encode_children xs [] = Inr q"
proof (induction xs arbitrary: acc p)
  case (Cons x xs)
  then obtain e where e: "rlp_encode x = Inr e" and r: "rlp_encode_children xs (acc @ e) = Inr p" by auto
  from Cons.IH [OF r] obtain q where q: "p = (acc @ e) @ q" "rlp_encode_children xs [] = Inr q" by blast
  have "rlp_encode_children xs e = Inr (e @ q)"
    using q(2)
  proof (induction xs arbitrary: e q)
    case (Cons y ys)
    then obtain f where f: "rlp_encode y = Inr f" "rlp_encode_children ys f = Inr q" by auto
    have gen: "rlp_encode_children zs a = Inr b \<Longrightarrow> rlp_encode_children zs (c @ a) = Inr (c @ b)" for zs a b c
      by (induction zs arbitrary: a b) auto
    from gen [OF f(2), of e] f(1) show ?case by simp
  qed simp
  with e q(1) show ?case by auto
qed simp

lemma rlp_encode_children_Cons:
  assumes "rlp_encode_children (x # xs) [] = Inr p"
  shows "\<exists>e q. rlp_encode x = Inr e \<and> rlp_encode_children xs [] = Inr q \<and> p = e @ q"
  using assms rlp_encode_children_acc [of xs] by fastforce

lemma rlp_prefix_nonempty: "1 \<le> length (rlp_prefix s l n)"
  by (simp add: rlp_prefix_def)

text \<open>
  The decoder reads an encoding wherever it stands, with two units of fuel per
  byte; the children loop reads the encodings of its children in order.
\<close>

definition decodes :: "rlp \<Rightarrow> bool" where
  "decodes x \<longleftrightarrow> (\<forall>e pre post fuel. rlp_encode x = Inr e \<longrightarrow> length e < 2 ^ 31 \<longrightarrow> 2 * length e \<le> fuel \<longrightarrow>
     rlp_decode fuel (pre @ e @ post) (length pre) = Inr (length e, rlp_canon x))"

lemma rlp_decode_children_gen:
  assumes "\<forall>x \<in> set xs. decodes x"
  shows "rlp_encode_children xs [] = Inr p \<Longrightarrow> length p < 2 ^ 31 \<Longrightarrow>
    offset + 1 + len = length pre + length p \<Longrightarrow> 2 * length p + 1 \<le> fuel \<Longrightarrow>
    rlp_decode_children fuel (pre @ p @ post) offset (length pre) len acc =
      Inr (1 + len, RArr (acc @ map rlp_canon xs))"
  using assms
proof (induction xs arbitrary: p pre fuel acc)
  case Nil
  then show ?case by (cases fuel) auto
next
  case (Cons x xs)
  then obtain e q where e: "rlp_encode x = Inr e" and q: "rlp_encode_children xs [] = Inr q" and p: "p = e @ q"
    using rlp_encode_children_Cons by blast
  have ne: "0 < length e" using rlp_encode_nonempty [OF e] by simp
  obtain f where f: "fuel = Suc f" using Cons.prems(4) by (cases fuel) auto
  have d: "rlp_decode f (pre @ e @ q @ post) (length pre) = Inr (length e, rlp_canon x)"
    using Cons.prems e p f unfolding decodes_def by (auto simp: decodes_def)
  have r: "rlp_decode_children f ((pre @ e) @ q @ post) offset (length (pre @ e)) len (acc @ [rlp_canon x]) =
      Inr (1 + len, RArr ((acc @ [rlp_canon x]) @ map rlp_canon xs))"
  proof (intro Cons.IH q)
    show "2 * length q + 1 \<le> f" using Cons.prems(4) ne unfolding p f length_append by presburger
  qed (use Cons.prems p in auto)
  show ?case using d r ne Cons.prems(3) p by (simp add: f)
qed

lemma rlp_decodes: "decodes x"
proof (induction x)
  case (RItem d)
  show ?case
    unfolding decodes_def
  proof (intro allI impI)
    fix e pre post fuel
    assume e: "rlp_encode (RItem d) = Inr e" and len: "length e < 2 ^ 31" and fu: "2 * length e \<le> fuel"
    then obtain f where f: "fuel = Suc f" using rlp_encode_nonempty [OF e] by (cases fuel) auto
    from e obtain bs where bs: "getBytes d = Inr bs"
      and r: "(if length bs = 1 \<and> bs ! 0 \<le> 0x7f then Inr bs else rlp_header 0x80 0xb7 bs) = Inr e" by auto
    show "rlp_decode fuel (pre @ e @ post) (length pre) = Inr (length e, rlp_canon (RItem d))"
    proof (cases "length bs = 1 \<and> bs ! 0 \<le> 0x7f")
      case True
      then obtain b where b: "bs = [b]" "b \<le> 0x7f" by (cases bs) auto
      then have "e = [b]" using r by simp
      then show ?thesis
        using head_byte [OF b(2), of "pre @ e @ post" pre post] bs b by (simp add: f)
    next
      case False
      then have h: "rlp_header 0x80 0xb7 bs = Inr e" using r by (auto split: if_splits)
      then have n: "length bs < 2 ^ 31" using rlp_header_length len by fastforce
      then have "e = rlp_prefix 0x80 0xb7 (length bs) @ bs" using h by (simp add: rlp_header_small)
      then show ?thesis
        using head_item [OF n, of "pre @ e @ post" pre post] bs by (simp add: f)
    qed
  qed
next
  case (RArr xs)
  show ?case
    unfolding decodes_def
  proof (intro allI impI)
    fix e pre post fuel
    assume e: "rlp_encode (RArr xs) = Inr e" and len: "length e < 2 ^ 31" and fu: "2 * length e \<le> fuel"
    then obtain f where f: "fuel = Suc f" using rlp_encode_nonempty [OF e] by (cases fuel) auto
    from e obtain p where p: "rlp_encode_children xs [] = Inr p" and h: "rlp_header 0xc0 0xf7 p = Inr e" by auto
    have n: "length p < 2 ^ 31" using rlp_header_length [OF h] len by simp
    then have eq: "e = rlp_prefix 0xc0 0xf7 (length p) @ p" using h by (simp add: rlp_header_small)
    define pf where "pf = rlp_prefix 0xc0 0xf7 (length p)"
    have pf: "1 \<le> length pf" unfolding pf_def by (rule rlp_prefix_nonempty)
    have hd: "rlp_decode_head (pre @ e @ post) (length pre) =
        Inr (HList (length (pre @ pf)) (length pf - 1 + length p))"
      using head_list [OF n, of "pre @ e @ post" pre post] eq by (simp add: pf_def)
    have "rlp_decode_children f ((pre @ pf) @ p @ post) (length pre) (length (pre @ pf)) (length pf - 1 + length p) [] =
        Inr (1 + (length pf - 1 + length p), RArr ([] @ map rlp_canon xs))"
      using RArr pf fu f eq by (intro rlp_decode_children_gen p n) (auto simp: pf_def)
    then show "rlp_decode fuel (pre @ e @ post) (length pre) = Inr (length e, rlp_canon (RArr xs))"
      using hd eq pf by (simp add: f pf_def)
  qed
qed

lemma decodeRlp_bytes:
  assumes "rlp_encode x = Inr e" and "length e < 2 ^ 31"
  shows "decodeRlp (DU8 e) = Inr (rlp_canon x)"
proof -
  have "rlp_decode (2 * length e + 1) e 0 = Inr (length e, rlp_canon x)"
    using rlp_decodes [of x, unfolded decodes_def, rule_format, OF assms, of "2 * length e + 1" "[]" "[]"]
    by (simp del: rlp_decode.simps)
  then show ?thesis by (simp add: decodeRlp_def del: rlp_decode.simps)
qed

lemma encodeRlp_eq: "encodeRlp x = mapE (\<lambda>bs. ''0x'' @ hex_of_bytes bs) (rlp_encode x)"
proof -
  have "foldl (\<lambda>result v. result @ nibble_chars v) acc bs = acc @ hex_of_bytes bs" for acc bs
    by (induction bs arbitrary: acc) (simp_all add: nibble_chars_hex)
  then show ?thesis by (cases "rlp_encode x") (simp_all add: encodeRlp_def)
qed

lemma decodeRlp_Str: "decodeRlp (DStr (CHR ''0'' # CHR ''x'' # hex_of_bytes bs)) = decodeRlp (DU8 bs)"
  by (simp add: decodeRlp_def)

section \<open>Termination\<close>

lemma head_not_NoReturn: "rlp_decode_head data off \<noteq> Inl NoReturn"
  by (auto simp: rlp_decode_head_def Let_def checkOffset_def assert_def undefined_read_def bindE_eq_Inl split: if_splits)

lemma head_HItem: "rlp_decode_head data off = Inr (HItem c r) \<Longrightarrow> 1 \<le> c"
  by (auto simp: rlp_decode_head_def Let_def checkOffset_def split: if_splits)

lemma head_HList:
  "rlp_decode_head data off = Inr (HList co len) \<Longrightarrow> off < co \<and> off + 1 + len \<le> length data \<and> off < length data"
  by (auto simp: rlp_decode_head_def Let_def checkOffset_def split: if_splits)

lemma rlp_decode_consumed:
  "rlp_decode fuel data off = Inr (c, r) \<Longrightarrow> 1 \<le> c"
  "rlp_decode_children fuel data off co len acc = Inr (c, r) \<Longrightarrow> c = 1 + len"
proof (induction fuel data off and fuel data off co len acc arbitrary: c r and c r
    rule: rlp_decode_rlp_decode_children.induct)
  case (2 fuel data offset)
  then obtain h where h: "rlp_decode_head data offset = Inr h" by auto
  show ?case
  proof (cases h)
    case (HItem x1 x2)
    then show ?thesis using 2 h by (auto dest: head_HItem)
  next
    case (HList x1 x2)
    then show ?thesis using 2 h by auto
  qed
qed (auto simp: Let_def split: if_splits)

lemma rlp_decode_fuel_both:
  "(\<forall>off. 2 * (length data - off) \<le> fuel \<longrightarrow> 1 \<le> fuel \<longrightarrow> rlp_decode fuel data off \<noteq> Inl NoReturn) \<and>
   (\<forall>co off len acc. 2 * (length data - co) + 1 \<le> fuel \<longrightarrow> off + 1 + len \<le> length data \<longrightarrow>
     rlp_decode_children fuel data off co len acc \<noteq> Inl NoReturn)"
proof (induction fuel)
  case (Suc fuel)
  then have dec: "rlp_decode fuel data off \<noteq> Inl NoReturn"
      if "2 * (length data - off) \<le> fuel" "1 \<le> fuel" for off using that by blast
  from Suc have chi: "rlp_decode_children fuel data off co len acc \<noteq> Inl NoReturn"
      if "2 * (length data - co) + 1 \<le> fuel" "off + 1 + len \<le> length data" for co off len acc using that by blast
  have "rlp_decode (Suc fuel) data off \<noteq> Inl NoReturn" if f: "2 * (length data - off) \<le> Suc fuel" for off
  proof (cases "rlp_decode_head data off")
    case (Inr h)
    show ?thesis
    proof (cases h)
      case (HList co len)
      then have "off < co" "off + 1 + len \<le> length data" "off < length data"
        using Inr head_HList by blast+
      then have "rlp_decode_children fuel data off co len [] \<noteq> Inl NoReturn"
        using f by (intro chi) simp_all
      then show ?thesis using Inr HList by simp
    qed (use Inr in simp)
  qed (use head_not_NoReturn [of data off] in simp)
  moreover have "rlp_decode_children (Suc fuel) data off co len acc \<noteq> Inl NoReturn"
    if f: "2 * (length data - co) + 1 \<le> Suc fuel" and b: "off + 1 + len \<le> length data" for co off len acc
  proof (cases "co < off + 1 + len")
    case True
    with f b have f': "2 * (length data - co) \<le> fuel" "1 \<le> fuel" by auto
    show ?thesis
    proof (cases "rlp_decode fuel data co")
      case (Inl e)
      then show ?thesis using dec [OF f'] True by simp
    next
      case (Inr cr)
      obtain c r where cr: "cr = (c, r)" by (cases cr)
      then have "1 \<le> c" using Inr rlp_decode_consumed(1) by blast
      then have "2 * (length data - (co + c)) + 1 \<le> fuel" using f b True by simp
      then have "rlp_decode_children fuel data off (co + c) len (acc @ [r]) \<noteq> Inl NoReturn"
        using b by (intro chi)
      then show ?thesis using Inr cr True by (simp add: Let_def assert_def)
    qed
  qed simp
  ultimately show ?case by blast
qed simp

lemma rlp_decode_enough_fuel: "rlp_decode (2 * length data + 1) data 0 \<noteq> Inl NoReturn"
  using rlp_decode_fuel_both [of data "2 * length data + 1"] by simp

lemma getBytes_not_NoReturn: "getBytes d \<noteq> Inl NoReturn"
  by (simp add: getBytes_def split: js_data.splits)

section \<open>The two decoders agree\<close>

lemma crypto_check_iff: "crypto_check data n m = Inr u \<longleftrightarrow> checkOffset data n = Inr u"
  by (auto simp: crypto_check_def checkOffset_def logger_init_def)

lemma hexlify_number_loop_eq: "hexlify_number_loop n acc = map digit_char (to_digits 16 n) @ acc"
proof (induction n acc rule: hexlify_number_loop.induct)
  case (1 n acc)
  show ?case
  proof (cases "n = 0")
    case False
    then show ?thesis
      using 1 HexCharacters_digit [of "n mod 16"]
      by (simp add: hexlify_number_loop.simps [of n] to_digits_pos [of 16 n])
  qed (simp add: hexlify_number_loop.simps)
qed

lemma hexlify_number_int:
  assumes "0 \<le> n" and "n < 0x1fffffffffffff"
  shows "hexlify_number (num_of_int n) = Inr (''0x'' @ even_hex (nat n))"
  using assms
  by (simp add: hexlify_number_def checkSafeUint53_int [THEN iffD2] hexlify_number_loop_eq even_hex_def
      nat_toString_alt Let_def)

lemma even_hex_byte: "even_hex (unat (b :: byte)) = hex_of_byte b"
proof -
  obtain ds where ds: "even_hex (unat b) = map digit_char ds" "\<forall>d \<in> set ds. d < 16"
      "even (length ds)" "of_digits 16 ds = unat b" using even_hex_digits [of "unat b"] by auto
  have len: "length (nat_toString 16 (unat b)) \<le> 2"
  proof (cases "unat b = 0")
    case False
    have "length (to_digits 16 (unat b)) \<le> 2" by (simp add: length_to_digits_le)
    then show ?thesis using False by (simp add: nat_toString_alt)
  qed (simp add: nat_toString_def)
  then have "length (even_hex (unat b)) = 2"
    using nat_toString_nonempty [of 16 "unat b"]
    by (cases "nat_toString 16 (unat b)"; cases "tl (nat_toString 16 (unat b))")
       (auto simp: even_hex_def Let_def)
  then have "map digit_char ds = hex_of_bytes [b]"
    using ds by (intro hex_string_unique) (auto simp: bytes_value_def)
  then show ?thesis using ds by simp
qed

lemma hexlify_number_byte: "hexlify_number (num_of_int (uint (b :: byte))) = Inr (''0x'' @ hex_of_byte b)"
proof -
  have u: "uint b = int (unat b)" by simp
  have "uint b < 256" using unat_byte_less [of b] unfolding u by linarith
  then show ?thesis by (subst hexlify_number_int) (simp_all add: even_hex_byte)
qed

lemma crypto_head_iff: "crypto_rlp_head data off = Inr h \<longleftrightarrow> rlp_decode_head data off = Inr h"
proof -
  have num: "hexlify (DNum (num_of_int (uint b))) no_options = Inr (hexlifyByte b)" for b :: byte
    using hexlify_number_byte [of b] by (simp add: hexlify_def hexlify_commas_def hexlifyByte_eq del: of_int_uint)
  then have num: "hexlify (DNum (Fin (unsigned b))) no_options = Inr (hexlifyByte b)" for b :: byte
    by (metis of_int_uint)
  show ?thesis
    by (cases "data = []")
       (simp_all add: crypto_rlp_head_def rlp_decode_head_def Let_def crypto_check_iff num)
qed

lemma crypto_decode_iff:
  "crypto_rlp_decode fuel data off = Inr r \<longleftrightarrow> rlp_decode fuel data off = Inr r"
  "crypto_rlp_decode_children fuel data off co len acc = Inr r \<longleftrightarrow>
   rlp_decode_children fuel data off co len acc = Inr r"
proof (induction fuel data off and fuel data off co len acc arbitrary: r and r
    rule: rlp_decode_rlp_decode_children.induct)
  case (2 fuel data offset)
  show ?case
  proof (cases "rlp_decode_head data offset")
    case (Inl e)
    then obtain e' where "crypto_rlp_head data offset = Inl e'"
      using crypto_head_iff [of data offset] by (cases "crypto_rlp_head data offset") auto
    then show ?thesis using Inl by simp
  next
    case (Inr h)
    then have "crypto_rlp_head data offset = Inr h" by (simp add: crypto_head_iff)
    then show ?thesis using Inr 2 by (cases h) simp_all
  qed
next
  case (4 fuel data offset co len acc)
  show ?case
  proof (cases "co < offset + 1 + len")
    case True
    show ?thesis
    proof (cases "rlp_decode fuel data co")
      case (Inl e)
      then obtain e' where "crypto_rlp_decode fuel data co = Inl e'"
        using 4(1) [OF True] by (cases "crypto_rlp_decode fuel data co") auto
      then show ?thesis using Inl True by simp
    next
      case (Inr x)
      then have c: "crypto_rlp_decode fuel data co = Inr x" using 4(1) [OF True] by simp
      show ?thesis using True Inr c 4(2) [OF True Inr] by (cases x) (auto simp: Let_def split: if_splits)
    qed
  qed simp
qed simp_all

text \<open>On the leaves the second encoder admits, the two read the same bytes.\<close>

lemma arrayify_getBytes: "isBytesLike d \<Longrightarrow> arrayify d no_options = getBytes d"
proof (cases d)
  case (DStr s)
  assume "isBytesLike d"
  then have m: "matches_hex s" and ev: "even (length s)" by (simp_all add: DStr isBytesLike_def split: if_splits)
  from m obtain r where s: "s = CHR ''0'' # CHR ''x'' # r" "list_all is_hex_char r" by (auto simp: matches_hex_iff)
  then show ?thesis
    using m ev by (simp add: DStr arrayify_def no_options_def arrayify_string_def getBytes_def matches_data_i_def)
qed (simp_all add: isBytesLike_def arrayify_def)

fun bytesLike_leaves :: "rlp \<Rightarrow> bool" where
  "bytesLike_leaves (RItem d) = isBytesLike d"
| "bytesLike_leaves (RArr xs) = list_all bytesLike_leaves xs"

lemma crypto_rlp_encode_eq:
  "bytesLike_leaves x \<Longrightarrow> crypto_rlp_encode x = rlp_encode x"
  "list_all bytesLike_leaves xs \<Longrightarrow> crypto_rlp_encode_children xs acc = rlp_encode_children xs acc"
proof (induction x and xs acc rule: rlp_encode_rlp_encode_children.induct)
  case (4 child cs payload)
  then show ?case by (cases "rlp_encode child") simp_all
qed (simp_all add: arrayify_getBytes)

lemma hexlify_DArr_bytes: "hexlify (DArr (map (\<lambda>b. num_of_int (uint b)) bs)) opts = Inr (''0x'' @ hex_of_bytes bs)"
proof -
  have "isByteValue (num_of_int (uint b))" for b :: byte
  proof -
    have "uint b < 256" using uint_lt2p [of b] by simp
    then have "(of_int (uint b) :: rat) < of_int 256" by (simp only: of_int_less_iff)
    then show ?thesis by (simp add: isByteValue_def del: of_int_uint)
  qed
  then have "list_all isByteValue (map (\<lambda>b. num_of_int (uint (b :: byte))) bs)" by (simp add: list_all_iff del: of_int_uint)
  moreover have "bytes_of_jnums (map (\<lambda>b. num_of_int (uint b)) bs) = bs"
    by (simp add: bytes_of_jnums_def o_def map_idI word_of_int_uint del: of_int_uint)
  ultimately show ?thesis by (simp add: hexlify_def hexlify_commas_def del: of_int_uint)
qed

section \<open>Properties\<close>

text \<open>
  C1. Round trip of RLP. Whatever \<open>encodeRlp\<close> produces from a structure of data
  items (shorter than \<open>2 ^ 31\<close> bytes), \<open>decodeRlp\<close> reads back as the same
  structure with every item in canonical hexadecimal.
\<close>

theorem rlp_roundtrip:
  assumes "rlp_encode x = Inr e" and "length e < 2 ^ 31"
  shows "\<exists>s. encodeRlp x = Inr s \<and> decodeRlp (DStr s) = Inr (rlp_canon x)"
  using assms decodeRlp_bytes [OF assms] decodeRlp_Str [of e] by (auto simp: encodeRlp_eq)

theorem rlp_roundtrip_witness:
  "\<exists>s. encodeRlp (RArr [RItem (DStr ''0x0102''), RArr []]) = Inr s \<and>
       decodeRlp (DStr s) = Inr (rlp_canon (RArr [RItem (DStr ''0x0102''), RArr []]))"
proof -
  have "getBytes (DStr ''0x0102'') = Inr [1, 2]"
    by (subst getBytes_Str) (simp add: matches_data_i_def is_hex_char_def digit_in_def digit_val_def
        to_lower_def hex_of_byte_def HexCharacters_def)
  then have "rlp_encode (RArr [RItem (DStr ''0x0102''), RArr []]) = Inr [0xc4, 0x82, 1, 2, 0xc0]"
    by (simp add: rlp_header_def)
  then show ?thesis by (rule rlp_roundtrip) simp
qed

text \<open>
  C2. \<open>decodeRlp\<close> always returns or throws: the recursion over nested lists ends
  on every input, because each call consumes at least one byte.
\<close>

theorem rlp_decode_terminates: "decodeRlp d \<noteq> Inl NoReturn"
  using rlp_decode_enough_fuel getBytes_not_NoReturn [of d]
  by (auto simp: decodeRlp_def bindE_eq_Inl assertArgument_def assert_def split: prod.splits)

text \<open>
  The two RLP implementations of the library agree: \<open>crypto/rlp.ts\<close> returns a
  decoded structure for exactly the byte strings \<open>utils/rlp-decode.ts\<close> does, with
  the same result, and encodes to the same string wherever it accepts the items.
\<close>

theorem crypto_rlp_agrees:
  assumes "bytesLike_leaves x"
  shows "crypto_encode x = encodeRlp x \<and>
    (crypto_decode (DU8 bs) = Inr r \<longleftrightarrow> decodeRlp (DU8 bs) = Inr r)"
proof
  show "crypto_decode (DU8 bs) = Inr r \<longleftrightarrow> decodeRlp (DU8 bs) = Inr r"
    by (auto simp: crypto_decode_def decodeRlp_def arrayify_def crypto_decode_iff
        split: prod.splits if_splits simp del: rlp_decode.simps crypto_rlp_decode.simps)
  show "crypto_encode x = encodeRlp x"
    using assms by (cases "rlp_encode x")
       (simp_all add: crypto_encode_def encodeRlp_eq crypto_rlp_encode_eq hexlify_DArr_bytes del: of_int_uint)
qed

theorem crypto_rlp_agrees_witness:
  "crypto_encode (RArr [RItem (DU8 [1, 2])]) = encodeRlp (RArr [RItem (DU8 [1, 2])]) \<and>
   (\<forall>r. crypto_decode (DU8 [0xc1, 5]) = Inr r \<longleftrightarrow> decodeRlp (DU8 [0xc1, 5]) = Inr r)"
proof -
  have "bytesLike_leaves (RArr [RItem (DU8 [1, 2])])" by (simp add: isBytesLike_def)
  then show ?thesis using crypto_rlp_agrees by blast
qed

end
