(* ===== verification/Big_Number.thy ===== *)
theory Big_Number
  imports Maths
begin

text \<open>
  \<open>src.ts/bigNumber/bigNumber.ts\<close>. A \<open>BigNumber\<close> is its hexadecimal string \<open>_hex\<close>. The
  arithmetic is done by the package bn.js, which is the parameter \<open>bn_lib\<close>: one
  field per constructor or method the file calls. \<open>bn_ok\<close> states the documented
  behaviour of that package through the integer a \<open>BN\<close> stands for.
\<close>

record 'bn bn_lib =
  bn_new :: "string \<Rightarrow> nat \<Rightarrow> 'bn"
  bn_str :: "'bn \<Rightarrow> nat \<Rightarrow> string"
  bn_add :: "'bn \<Rightarrow> 'bn \<Rightarrow> 'bn"
  bn_sub :: "'bn \<Rightarrow> 'bn \<Rightarrow> 'bn"
  bn_mul :: "'bn \<Rightarrow> 'bn \<Rightarrow> 'bn"
  bn_div :: "'bn \<Rightarrow> 'bn \<Rightarrow> 'bn"
  bn_umod :: "'bn \<Rightarrow> 'bn \<Rightarrow> 'bn"
  bn_pow :: "'bn \<Rightarrow> 'bn \<Rightarrow> 'bn"
  bn_and :: "'bn \<Rightarrow> 'bn \<Rightarrow> 'bn"
  bn_or :: "'bn \<Rightarrow> 'bn \<Rightarrow> 'bn"
  bn_xor :: "'bn \<Rightarrow> 'bn \<Rightarrow> 'bn"
  bn_maskn :: "'bn \<Rightarrow> int \<Rightarrow> 'bn"
  bn_shln :: "'bn \<Rightarrow> int \<Rightarrow> 'bn"
  bn_shrn :: "'bn \<Rightarrow> int \<Rightarrow> 'bn"
  bn_fromTwos :: "'bn \<Rightarrow> int \<Rightarrow> 'bn"
  bn_toTwos :: "'bn \<Rightarrow> int \<Rightarrow> 'bn"
  bn_cmp :: "'bn \<Rightarrow> 'bn \<Rightarrow> int"
  bn_isNeg :: "'bn \<Rightarrow> bool"
  bn_isZero :: "'bn \<Rightarrow> bool"
  bn_toNumber :: "'bn \<Rightarrow> int option"

text \<open>The values \<open>BigNumber.from\<close> may be given, beside the byte-like ones.\<close>

datatype bn_value =
    BNum string \<comment> \<open>a \<open>BigNumber\<close>, by its \<open>_hex\<close>\<close>
  | BData js_data
  | BLegacy string \<comment> \<open>an object with \<open>_hex\<close>, or \<open>{ type: "BigNumber", hex }\<close>\<close>
  | BOther

section \<open>Hexadecimal normal form\<close>

function strip_0x00 :: "string \<Rightarrow> string" where
  "strip_0x00 value =
     (if length value > 4 \<and> take 4 value = ''0x00'' then strip_0x00 (''0x'' @ drop 4 value) else value)"
  by pat_completeness auto
termination by (relation "measure length") auto

declare strip_0x00.simps [simp del]

definition toHex_unsigned :: "string \<Rightarrow> string" where
  "toHex_unsigned value0 =
     (let value = (if take 2 value0 \<noteq> ''0x'' then ''0x'' @ value0 else value0)
      in if value = ''0x'' then ''0x00''
         else strip_0x00 (if odd (length value) then ''0x0'' @ drop 2 value else value))"

definition bn_toHex :: "string \<Rightarrow> string result" where
  "bn_toHex value =
     (if take 1 value = ''-''
      then let v = drop 1 value
           in if take 1 v = ''-'' then logger_throwArgumentError logger_init ''invalid hex''
              else let h = toHex_unsigned v in Inr (if h = ''0x00'' then h else ''-'' @ h)
      else Inr (toHex_unsigned value))"

section \<open>BigNumber.from\<close>

text \<open>The two patterns, \<open>/^-?0x[0-9a-f]+$/i\<close> and \<open>/^-?[0-9]+$/\<close>.\<close>

definition unsign :: "string \<Rightarrow> string" where
  "unsign s = (if take 1 s = ''-'' then drop 1 s else s)"

definition matches_bn_hex :: "string \<Rightarrow> bool" where
  "matches_bn_hex s \<longleftrightarrow>
     (let u = unsign s
      in map to_lower (take 2 u) = ''0x'' \<and> drop 2 u \<noteq> [] \<and> list_all is_hex_char (drop 2 u))"

definition matches_bn_dec :: "string \<Rightarrow> bool" where
  "matches_bn_dec s \<longleftrightarrow> (let u = unsign s in u \<noteq> [] \<and> list_all is_digit10 u)"

definition throwFault :: "string \<Rightarrow> 'a result" where
  "throwFault fault = logger_throwError logger_init fault NUMERIC_FAULT"

definition BigNumber_from_string :: "'bn bn_lib \<Rightarrow> string \<Rightarrow> string result" where
  "BigNumber_from_string lib s =
     (if matches_bn_hex s then bn_toHex s
      else if matches_bn_dec s then bn_toHex (bn_str lib (bn_new lib s 10) 16)
      else logger_throwArgumentError logger_init ''invalid BigNumber string'')"

definition MAX_SAFE :: int where
  "MAX_SAFE = 0x1fffffffffffff"

definition BigNumber_from_number :: "'bn bn_lib \<Rightarrow> jnum \<Rightarrow> string result" where
  "BigNumber_from_number lib v =
     (case v of
        NaN \<Rightarrow> logger_throwArgumentError logger_init ''invalid BigNumber string''
      | PosInf \<Rightarrow> throwFault ''overflow''
      | NegInf \<Rightarrow> throwFault ''overflow''
      | Fin q \<Rightarrow>
          if \<not> rat_is_int q then throwFault ''underflow''
          else if \<lfloor>q\<rfloor> \<ge> MAX_SAFE \<or> \<lfloor>q\<rfloor> \<le> - MAX_SAFE then throwFault ''overflow''
          else BigNumber_from_string lib (int_toString 10 \<lfloor>q\<rfloor>))"

definition BigNumber_from :: "'bn bn_lib \<Rightarrow> bn_value \<Rightarrow> string result" where
  "BigNumber_from lib value =
     (case value of
        BNum h \<Rightarrow> Inr h
      | BData (DStr s) \<Rightarrow> BigNumber_from_string lib s
      | BData (DNum v) \<Rightarrow> BigNumber_from_number lib v
      | BData (DBig n) \<Rightarrow> BigNumber_from_string lib (int_toString 10 n)
      | BData (DHexable h) \<Rightarrow> BigNumber_from_string lib h
      | BData d \<Rightarrow>
          if isBytes d then bindE (hexlify d no_options) (BigNumber_from_string lib)
          else logger_throwArgumentError logger_init ''invalid BigNumber value''
      | BLegacy h \<Rightarrow>
          if matches_hex h \<or> (take 1 h = ''-'' \<and> matches_hex (drop 1 h)) then BigNumber_from_string lib h
          else logger_throwArgumentError logger_init ''invalid BigNumber value''
      | BOther \<Rightarrow> logger_throwArgumentError logger_init ''invalid BigNumber value'')"

definition toBN :: "'bn bn_lib \<Rightarrow> bn_value \<Rightarrow> 'bn result" where
  "toBN lib value =
     bindE (BigNumber_from lib value) (\<lambda>hex.
       Inr (if take 1 hex = ''-'' then bn_new lib (''-'' @ drop 3 hex) 16 else bn_new lib (drop 2 hex) 16))"

definition toBigNumber :: "'bn bn_lib \<Rightarrow> 'bn \<Rightarrow> string result" where
  "toBigNumber lib b = bindE (bn_toHex (bn_str lib b 16)) (BigNumber_from_string lib)"

definition isBigNumberish :: "bn_value \<Rightarrow> bool" where
  "isBigNumberish value =
     (case value of
        BNum _ \<Rightarrow> True
      | BData (DNum v) \<Rightarrow> (case v of Fin q \<Rightarrow> rat_is_int q | _ \<Rightarrow> False)
      | BData (DStr s) \<Rightarrow> matches_bn_dec s \<or> matches_hex s
      | BData (DBig _) \<Rightarrow> True
      | BData d \<Rightarrow> isBytes d
      | _ \<Rightarrow> False)"

section \<open>Methods\<close>

definition BigNumber_abs :: "'bn bn_lib \<Rightarrow> string \<Rightarrow> string result" where
  "BigNumber_abs lib this = (if take 1 this = ''-'' then BigNumber_from_string lib (drop 1 this) else Inr this)"

definition bn_binary :: "'bn bn_lib \<Rightarrow> ('bn \<Rightarrow> 'bn \<Rightarrow> 'bn) \<Rightarrow> string \<Rightarrow> bn_value \<Rightarrow> string result" where
  "bn_binary lib f this other =
     bindE (toBN lib (BNum this)) (\<lambda>a. bindE (toBN lib other) (\<lambda>b. toBigNumber lib (f a b)))"

definition BigNumber_add :: "'bn bn_lib \<Rightarrow> string \<Rightarrow> bn_value \<Rightarrow> string result" where
  "BigNumber_add lib = bn_binary lib (bn_add lib)"

definition BigNumber_sub :: "'bn bn_lib \<Rightarrow> string \<Rightarrow> bn_value \<Rightarrow> string result" where
  "BigNumber_sub lib = bn_binary lib (bn_sub lib)"

definition BigNumber_mul :: "'bn bn_lib \<Rightarrow> string \<Rightarrow> bn_value \<Rightarrow> string result" where
  "BigNumber_mul lib = bn_binary lib (bn_mul lib)"

definition BigNumber_div :: "'bn bn_lib \<Rightarrow> string \<Rightarrow> bn_value \<Rightarrow> string result" where
  "BigNumber_div lib this other =
     bindE (BigNumber_from lib other) (\<lambda>o'.
     bindE (toBN lib (BNum o')) (\<lambda>z.
       if bn_isZero lib z then throwFault ''division by zero''
       else bn_binary lib (bn_div lib) this other))"

text \<open>
  \<open>mod\<close>, \<open>pow\<close>, \<open>and\<close>, \<open>or\<close>, \<open>xor\<close> read the argument, reject a negative one (the
  last three a negative receiver, too), then compute.
\<close>

definition bn_guarded ::
    "'bn bn_lib \<Rightarrow> string \<Rightarrow> bool \<Rightarrow> ('bn \<Rightarrow> 'bn \<Rightarrow> 'bn) \<Rightarrow> string \<Rightarrow> bn_value \<Rightarrow> string result" where
  "bn_guarded lib fault both f this other =
     bindE (toBN lib other) (\<lambda>value.
       if (both \<and> take 1 this = ''-'') \<or> bn_isNeg lib value then throwFault fault
       else bindE (toBN lib (BNum this)) (\<lambda>a. toBigNumber lib (f a value)))"

definition BigNumber_mod :: "'bn bn_lib \<Rightarrow> string \<Rightarrow> bn_value \<Rightarrow> string result" where
  "BigNumber_mod lib = bn_guarded lib ''cannot modulo negative values'' False (bn_umod lib)"

definition BigNumber_pow :: "'bn bn_lib \<Rightarrow> string \<Rightarrow> bn_value \<Rightarrow> string result" where
  "BigNumber_pow lib = bn_guarded lib ''cannot raise to negative values'' False (bn_pow lib)"

definition BigNumber_and :: "'bn bn_lib \<Rightarrow> string \<Rightarrow> bn_value \<Rightarrow> string result" where
  "BigNumber_and lib = bn_guarded lib ''cannot 'and' negative values'' True (bn_and lib)"

definition BigNumber_or :: "'bn bn_lib \<Rightarrow> string \<Rightarrow> bn_value \<Rightarrow> string result" where
  "BigNumber_or lib = bn_guarded lib ''cannot 'or' negative values'' True (bn_or lib)"

definition BigNumber_xor :: "'bn bn_lib \<Rightarrow> string \<Rightarrow> bn_value \<Rightarrow> string result" where
  "BigNumber_xor lib = bn_guarded lib ''cannot 'xor' negative values'' True (bn_xor lib)"

definition bn_by_count ::
    "'bn bn_lib \<Rightarrow> string \<Rightarrow> ('bn \<Rightarrow> int \<Rightarrow> 'bn) \<Rightarrow> string \<Rightarrow> int \<Rightarrow> string result" where
  "bn_by_count lib fault f this value =
     (if take 1 this = ''-'' \<or> value < 0 then throwFault fault
      else bindE (toBN lib (BNum this)) (\<lambda>a. toBigNumber lib (f a value)))"

definition BigNumber_mask :: "'bn bn_lib \<Rightarrow> string \<Rightarrow> int \<Rightarrow> string result" where
  "BigNumber_mask lib = bn_by_count lib ''cannot mask negative values'' (bn_maskn lib)"

definition BigNumber_shl :: "'bn bn_lib \<Rightarrow> string \<Rightarrow> int \<Rightarrow> string result" where
  "BigNumber_shl lib = bn_by_count lib ''cannot shift negative values'' (bn_shln lib)"

definition BigNumber_shr :: "'bn bn_lib \<Rightarrow> string \<Rightarrow> int \<Rightarrow> string result" where
  "BigNumber_shr lib = bn_by_count lib ''cannot shift negative values'' (bn_shrn lib)"

definition BigNumber_fromTwos :: "'bn bn_lib \<Rightarrow> string \<Rightarrow> int \<Rightarrow> string result" where
  "BigNumber_fromTwos lib this value = bindE (toBN lib (BNum this)) (\<lambda>a. toBigNumber lib (bn_fromTwos lib a value))"

definition BigNumber_toTwos :: "'bn bn_lib \<Rightarrow> string \<Rightarrow> int \<Rightarrow> string result" where
  "BigNumber_toTwos lib this value = bindE (toBN lib (BNum this)) (\<lambda>a. toBigNumber lib (bn_toTwos lib a value))"

definition bn_compare :: "'bn bn_lib \<Rightarrow> (int \<Rightarrow> bool) \<Rightarrow> string \<Rightarrow> bn_value \<Rightarrow> bool result" where
  "bn_compare lib p this other =
     bindE (toBN lib (BNum this)) (\<lambda>a. bindE (toBN lib other) (\<lambda>b. Inr (p (bn_cmp lib a b))))"

definition BigNumber_eq :: "'bn bn_lib \<Rightarrow> string \<Rightarrow> bn_value \<Rightarrow> bool result" where
  "BigNumber_eq lib = bn_compare lib (\<lambda>c. c = 0)"

definition BigNumber_lt :: "'bn bn_lib \<Rightarrow> string \<Rightarrow> bn_value \<Rightarrow> bool result" where
  "BigNumber_lt lib = bn_compare lib (\<lambda>c. c < 0)"

definition BigNumber_lte :: "'bn bn_lib \<Rightarrow> string \<Rightarrow> bn_value \<Rightarrow> bool result" where
  "BigNumber_lte lib = bn_compare lib (\<lambda>c. c \<le> 0)"

definition BigNumber_gt :: "'bn bn_lib \<Rightarrow> string \<Rightarrow> bn_value \<Rightarrow> bool result" where
  "BigNumber_gt lib = bn_compare lib (\<lambda>c. c > 0)"

definition BigNumber_gte :: "'bn bn_lib \<Rightarrow> string \<Rightarrow> bn_value \<Rightarrow> bool result" where
  "BigNumber_gte lib = bn_compare lib (\<lambda>c. c \<ge> 0)"

definition BigNumber_isNegative :: "string \<Rightarrow> bool" where
  "BigNumber_isNegative this \<longleftrightarrow> take 1 this = ''-''"

definition BigNumber_isZero :: "'bn bn_lib \<Rightarrow> string \<Rightarrow> bool result" where
  "BigNumber_isZero lib this = bindE (toBN lib (BNum this)) (\<lambda>a. Inr (bn_isZero lib a))"

definition BigNumber_toString :: "'bn bn_lib \<Rightarrow> string \<Rightarrow> string result" where
  "BigNumber_toString lib this = bindE (toBN lib (BNum this)) (\<lambda>a. Inr (bn_str lib a 10))"

definition BigNumber_toNumber :: "'bn bn_lib \<Rightarrow> string \<Rightarrow> int result" where
  "BigNumber_toNumber lib this =
     bindE (toBN lib (BNum this)) (\<lambda>a.
       case bn_toNumber lib a of Some n \<Rightarrow> Inr n | None \<Rightarrow> throwFault ''overflow'')"

definition BigNumber_toBigInt :: "'bn bn_lib \<Rightarrow> string \<Rightarrow> int result" where
  "BigNumber_toBigInt lib this =
     (case bindE (BigNumber_toString lib this)
             (\<lambda>s. case js_BigInt s of Some n \<Rightarrow> Inr n | None \<Rightarrow> Inl (JsError NativeSyntaxError ''BigInt'')) of
        Inr n \<Rightarrow> Inr n
      | Inl _ \<Rightarrow> logger_throwError logger_init ''this platform does not support BigInt'' UNSUPPORTED_OPERATION)"


section \<open>What a value denotes\<close>

definition hex_nat :: "string \<Rightarrow> nat" where
  "hex_nat r = of_digits 16 (map hexval r)"

definition signed :: "string \<Rightarrow> nat \<Rightarrow> int" where
  "signed s n = (if take 1 s = ''-'' then - int n else int n)"

definition hex_int :: "string \<Rightarrow> int option" where
  "hex_int h =
     (let u = unsign h
      in if matches_hex u \<and> drop 2 u \<noteq> [] then Some (signed h (hex_nat (drop 2 u))) else None)"

text \<open>
  The integer of a readable value: strings in decimal and hexadecimal, numbers that are
  integers below \<open>MAX_SAFE\<close> in magnitude, bytes and arrays of byte values big-endian,
  legacy objects by their hexadecimal. An upper-case prefix \<open>0X\<close> denotes nothing here.
\<close>

definition denotes_string :: "string \<Rightarrow> int option" where
  "denotes_string s =
     (case hex_int s of Some n \<Rightarrow> Some n
      | None \<Rightarrow> if matches_bn_dec s \<and> \<not> matches_bn_hex s then Some (signed s (dec_value (unsign s))) else None)"

fun denotes :: "bn_value \<Rightarrow> int option" where
  "denotes (BNum h) = hex_int h"
| "denotes (BData (DStr s)) = denotes_string s"
| "denotes (BData (DHexable s)) = denotes_string s"
| "denotes (BData (DBig n)) = Some n"
| "denotes (BData (DU8 bs)) = (if bs = [] then None else Some (int (bytes_value bs)))"
| "denotes (BData (DArr vs)) =
     (if vs \<noteq> [] \<and> list_all isByteValue vs then Some (int (bytes_value (bytes_of_jnums vs))) else None)"
| "denotes (BData (DNum (Fin q))) = (if rat_is_int q \<and> \<bar>\<lfloor>q\<rfloor>\<bar> < MAX_SAFE then Some \<lfloor>q\<rfloor> else None)"
| "denotes (BLegacy h) = hex_int h"
| "denotes _ = None"

text \<open>The canonical \<open>_hex\<close> of an integer.\<close>

definition hex_of_int :: "int \<Rightarrow> string" where
  "hex_of_int n = (if n < 0 then ''-0x'' else ''0x'') @ even_hex (nat \<bar>n\<bar>)"

text \<open>The documented behaviour of bn.js, through the integer \<open>val b\<close> of a \<open>BN\<close>.\<close>

definition tdiv :: "int \<Rightarrow> int \<Rightarrow> int" where
  "tdiv a b = sgn a * sgn b * (\<bar>a\<bar> div \<bar>b\<bar>)"

definition bn_strings_ok :: "'bn bn_lib \<Rightarrow> ('bn \<Rightarrow> int) \<Rightarrow> bool" where
  "bn_strings_ok lib val \<longleftrightarrow>
     (\<forall>r. r \<noteq> [] \<longrightarrow> list_all is_hex_char r \<longrightarrow>
        val (bn_new lib r 16) = int (hex_nat r) \<and> val (bn_new lib (''-'' @ r) 16) = - int (hex_nat r)) \<and>
     (\<forall>r. r \<noteq> [] \<longrightarrow> list_all is_digit10 r \<longrightarrow>
        val (bn_new lib r 10) = int (dec_value r) \<and> val (bn_new lib (''-'' @ r) 10) = - int (dec_value r)) \<and>
     (\<forall>b. bn_str lib b 16 = int_toString 16 (val b) \<and> bn_str lib b 10 = int_toString 10 (val b))"

definition bn_arith_ok :: "'bn bn_lib \<Rightarrow> ('bn \<Rightarrow> int) \<Rightarrow> bool" where
  "bn_arith_ok lib val \<longleftrightarrow>
     (\<forall>a b. val (bn_add lib a b) = val a + val b \<and> val (bn_sub lib a b) = val a - val b \<and>
            val (bn_mul lib a b) = val a * val b \<and>
            (val b \<noteq> 0 \<longrightarrow> val (bn_div lib a b) = tdiv (val a) (val b)) \<and>
            (val b > 0 \<longrightarrow> val (bn_umod lib a b) = val a mod val b)) \<and>
     (\<forall>b. bn_isZero lib b = (val b = 0) \<and> bn_isNeg lib b = (val b < 0))"

section \<open>Normal form lemmas\<close>

lemma is_hex_char_to_lower_x: "is_hex_char c \<Longrightarrow> c \<noteq> CHR ''x'' \<and> c \<noteq> CHR ''-''"
  using is_hex_char_not by blast

lemma hex_nat_00: "hex_nat (CHR ''0'' # r) = hex_nat r"
  by (simp add: hex_nat_def)

lemma strip_0x00_hex:
  "list_all is_hex_char r \<Longrightarrow> r \<noteq> [] \<Longrightarrow> even (length r) \<Longrightarrow>
   \<exists>r'. strip_0x00 (''0x'' @ r) = ''0x'' @ r' \<and> list_all is_hex_char r' \<and> r' \<noteq> [] \<and> hex_nat r' = hex_nat r"
proof (induction r rule: length_induct)
  case (1 r)
  show ?case
  proof (cases "length r > 2 \<and> take 2 r = ''00''")
    case True
    then obtain q where q: "r = CHR ''0'' # CHR ''0'' # q" by (cases r rule: remdups_adj.cases) auto
    with True 1 have "list_all is_hex_char q" "q \<noteq> []" "even (length q)" "length q < length r" by auto
    with 1(1) obtain r' where "strip_0x00 (''0x'' @ q) = ''0x'' @ r'" "list_all is_hex_char r'" "r' \<noteq> []"
      "hex_nat r' = hex_nat q" by blast
    with q True show ?thesis
      by (subst strip_0x00.simps) (simp add: hex_nat_00)
  next
    case False
    then have "strip_0x00 (''0x'' @ r) = ''0x'' @ r"
      by (subst strip_0x00.simps) auto
    with 1 show ?thesis by blast
  qed
qed

lemma toHex_unsigned_hex:
  assumes "list_all is_hex_char r" and "r \<noteq> []"
  shows "\<exists>r'. toHex_unsigned (''0x'' @ r) = ''0x'' @ r' \<and> list_all is_hex_char r' \<and> r' \<noteq> [] \<and> hex_nat r' = hex_nat r"
proof (cases "even (length r)")
  case True
  then show ?thesis using strip_0x00_hex [OF assms] assms(2) by (simp add: toHex_unsigned_def)
next
  case False
  then show ?thesis using strip_0x00_hex [of "CHR ''0'' # r"] assms by (simp add: toHex_unsigned_def hex_nat_00)
qed

lemma take1_hex: "matches_hex u \<Longrightarrow> take 1 u \<noteq> ''-''"
  by (auto simp: matches_hex_iff)

lemma bn_toHex_reads: "hex_int s = Some n \<Longrightarrow> \<exists>h. bn_toHex s = Inr h \<and> hex_int h = Some n"
proof -
  assume s: "hex_int s = Some n"
  define u where "u = unsign s"
  from s have u: "matches_hex u" "drop 2 u \<noteq> []" and n: "n = signed s (hex_nat (drop 2 u))"
    unfolding hex_int_def Let_def u_def [symmetric] by (metis option.distinct(1) option.inject)+
  from u(1) obtain r where "u = CHR ''0'' # CHR ''x'' # r" "list_all is_hex_char r"
    unfolding matches_hex_iff by blast
  with u(2) have r: "u = ''0x'' @ r" "list_all is_hex_char r" "r \<noteq> []" by simp_all
  from toHex_unsigned_hex [OF r(2,3), folded r(1)]
  obtain r' where r': "toHex_unsigned u = ''0x'' @ r'" "list_all is_hex_char r'" "r' \<noteq> []" "hex_nat r' = hex_nat r"
    by (elim exE conjE)
  have m: "matches_hex (''0x'' @ r')" using r' by (simp add: matches_hex_def)
  show ?thesis
  proof (cases "take 1 s = ''-''")
    case False
    then have su: "s = u" by (simp add: u_def unsign_def)
    from False have "bn_toHex s = Inr (''0x'' @ r')" unfolding bn_toHex_def su using r' by simp
    moreover have "hex_int (''0x'' @ r') = Some n"
      using m n r r' False by (simp add: hex_int_def unsign_def signed_def)
    ultimately show ?thesis by blast
  next
    case True
    then have du: "drop 1 s = u" by (simp add: u_def unsign_def)
    define h where "h = (if ''0x'' @ r' = ''0x00'' then ''0x'' @ r' else ''-'' @ ''0x'' @ r')"
    have "bn_toHex s = Inr h"
      using True take1_hex [OF u(1)] r' unfolding bn_toHex_def du h_def by (simp add: Let_def)
    moreover have "hex_nat ''00'' = 0" by (simp add: hex_nat_def)
    then have "hex_int h = Some n"
      using m n r r' True by (auto simp: h_def hex_int_def unsign_def signed_def)
    ultimately show ?thesis by blast
  qed
qed


lemma digit_char_not_x: "d < 16 \<Longrightarrow> digit_char d \<noteq> CHR ''x'' \<and> digit_char d \<noteq> CHR ''-''"
  using is_hex_char_not is_hex_digit_char by metis

lemma even_hex_props:
  "list_all is_hex_char (even_hex n)" "even_hex n \<noteq> []" "even (length (even_hex n))" "hex_nat (even_hex n) = n"
proof -
  obtain ds where ds: "even_hex n = map digit_char ds" "\<forall>d \<in> set ds. d < 16" "even (length ds)" "of_digits 16 ds = n"
    using even_hex_digits by blast
  from ds show "list_all is_hex_char (even_hex n)" "even (length (even_hex n))" by (simp_all add: list_all_iff)
  show "even_hex n \<noteq> []" by (simp add: even_hex_def Let_def)
  have "map hexval (map digit_char ds) = ds" using ds(2) by (simp add: map_idI)
  then show "hex_nat (even_hex n) = n" using ds by (simp add: hex_nat_def)
qed

lemma nat_toString_hd: "0 < n \<Longrightarrow> \<exists>d r. nat_toString 16 n = digit_char d # map digit_char r \<and> 0 < d \<and> d < 16 \<and> (\<forall>x \<in> set r. x < 16)"
proof -
  assume n: "0 < n"
  then have "to_digits 16 n \<noteq> []" by simp
  then obtain d r where dr: "to_digits 16 n = d # r" by (meson neq_Nil_conv)
  moreover have "0 < d" using hd_to_digits [of 16 n] n dr by simp
  ultimately show ?thesis using n to_digits_less [of _ 16 n] by (auto simp: nat_toString_alt)
qed

lemma strip_even_hex: "strip_0x00 (''0x'' @ even_hex n) = ''0x'' @ even_hex n"
proof (cases "n = 0")
  case True
  then show ?thesis by (subst strip_0x00.simps) (simp add: even_hex_def nat_toString_def)
next
  case False
  then obtain d r where s: "nat_toString 16 n = digit_char d # map digit_char r" and d: "0 < d" "d < 16"
    using nat_toString_hd by blast
  have "digit_char d \<noteq> CHR ''0''"
    using hexval_digit_char [OF d(2)] d(1) by (metis hex_0(2) less_numeral_extra(3))
  then have "take 2 (even_hex n) \<noteq> ''00''" by (simp add: even_hex_def s Let_def numeral_2_eq_2)
  then show ?thesis by (subst strip_0x00.simps) (auto simp: numeral_eq_Suc)
qed

lemma toHex_unsigned_even: "toHex_unsigned (''0x'' @ even_hex n) = ''0x'' @ even_hex n"
  using even_hex_props(2,3) [of n] strip_even_hex [of n] by (simp add: toHex_unsigned_def)

lemma toHex_unsigned_nat: "toHex_unsigned (nat_toString 16 n) = ''0x'' @ even_hex n"
proof -
  define s where "s = nat_toString 16 n"
  obtain ds where ds: "s = map digit_char ds" "\<forall>d \<in> set ds. d < 16" "ds \<noteq> []"
    using to_digits_less [of _ 16 n] by (auto simp: s_def nat_toString_alt)
  have "take 2 s \<noteq> ''0x''"
    using ds digit_char_not_x by (cases ds rule: remdups_adj.cases) auto
  moreover have e: "even_hex n = (if odd (length s) then ''0'' @ s else s)"
    by (simp add: even_hex_def s_def Let_def)
  moreover have "s \<noteq> []" using ds by simp
  ultimately show ?thesis unfolding toHex_unsigned_def s_def [symmetric]
    using strip_even_hex [of n] by (cases "odd (length s)") (simp_all add: Let_def)
qed

lemma even_hex_zero: "''0x'' @ even_hex n = ''0x00'' \<longleftrightarrow> n = 0"
proof
  assume "''0x'' @ even_hex n = ''0x00''"
  then have "even_hex n = ''00''" by simp
  then show "n = 0" using even_hex_props(4) [of n] by (simp add: hex_nat_def)
qed (simp add: even_hex_def nat_toString_def)

lemma take1_even_hex [simp]: "take 1 (''0x'' @ even_hex n) \<noteq> ''-''" "take (Suc 0) (even_hex n) \<noteq> ''-''"
proof -
  obtain ds where ds: "even_hex n = map digit_char ds" "\<forall>d \<in> set ds. d < 16"
    using even_hex_digits by blast
  then show "take (Suc 0) (even_hex n) \<noteq> ''-''" using digit_char_not_x by (cases ds) auto
qed simp

lemma take1_nat_toString: "take 1 (nat_toString 16 n) \<noteq> ''-''"
proof -
  obtain ds where "nat_toString 16 n = map digit_char ds" "\<forall>d \<in> set ds. d < 16"
    using to_digits_less [of _ 16 n] by (auto simp: nat_toString_alt)
  then show ?thesis using digit_char_not_x by (cases ds) auto
qed

lemma bn_toHex_int: "bn_toHex (int_toString 16 n) = Inr (hex_of_int n)"
proof (cases "n < 0")
  case True
  then have "0 < nat (- n)" by simp
  then have "toHex_unsigned (nat_toString 16 (nat (- n))) \<noteq> ''0x00''"
    using even_hex_zero [of "nat (- n)"] by (simp add: toHex_unsigned_nat)
  then show ?thesis
    using True take1_nat_toString [of "nat (- n)"]
    by (simp add: bn_toHex_def int_toString_def hex_of_int_def toHex_unsigned_nat Let_def)
next
  case False
  then show ?thesis using take1_nat_toString [of "nat n"]
    by (simp add: bn_toHex_def int_toString_def hex_of_int_def toHex_unsigned_nat)
qed

lemma bn_toHex_canonical: "bn_toHex (hex_of_int n) = Inr (hex_of_int n)"
  using even_hex_zero [of "nat \<bar>n\<bar>"]
  by (cases "n < 0") (simp_all add: bn_toHex_def hex_of_int_def toHex_unsigned_even Let_def
      del: append_Cons append_Nil add: append_Cons [symmetric])


lemma hex_int_canonical: "hex_int (hex_of_int n) = Some n"
  using even_hex_props [of "nat \<bar>n\<bar>"]
  by (cases "n < 0") (simp_all add: hex_int_def hex_of_int_def unsign_def matches_hex_def signed_def)

lemma matches_bn_hex_int: "hex_int s = Some n \<Longrightarrow> matches_bn_hex s"
  by (auto simp: hex_int_def matches_bn_hex_def Let_def matches_hex_def to_lower_hex to_lower_def split: if_splits)

lemma from_string_hex: "hex_int s = Some n \<Longrightarrow> \<exists>h. BigNumber_from_string lib s = Inr h \<and> hex_int h = Some n"
  using bn_toHex_reads [of s n] matches_bn_hex_int [of s n] by (simp add: BigNumber_from_string_def)

lemma toBigNumber_eq:
  assumes "bn_strings_ok lib val"
  shows "toBigNumber lib b = Inr (hex_of_int (val b))"
proof -
  have "bn_str lib b 16 = int_toString 16 (val b)" using assms by (simp add: bn_strings_ok_def)
  then show ?thesis
    using matches_bn_hex_int [OF hex_int_canonical]
    by (simp add: toBigNumber_def bn_toHex_int BigNumber_from_string_def bn_toHex_canonical)
qed

lemma from_string_dec:
  assumes "bn_strings_ok lib val" and "matches_bn_dec s" and "\<not> matches_bn_hex s"
  shows "BigNumber_from_string lib s = Inr (hex_of_int (signed s (dec_value (unsign s))))"
proof -
  define u where "u = unsign s"
  have u: "u \<noteq> []" "list_all is_digit10 u" using assms(2) by (simp_all add: matches_bn_dec_def u_def Let_def)
  have "val (bn_new lib u 10) = int (dec_value u) \<and> val (bn_new lib (''-'' @ u) 10) = - int (dec_value u)"
    using assms(1) u unfolding bn_strings_ok_def by blast
  moreover have "s = (if take 1 s = ''-'' then ''-'' @ u else u)"
    by (auto simp: u_def unsign_def) (metis append_Cons append_Nil append_take_drop_id)
  ultimately have "val (bn_new lib s 10) = signed s (dec_value u)"
    by (cases "take 1 s = ''-''") (simp_all add: signed_def)
  moreover have "bn_str lib (bn_new lib s 10) 16 = int_toString 16 (val (bn_new lib s 10))"
    using assms(1) by (simp add: bn_strings_ok_def)
  ultimately show ?thesis
    using assms(2,3) by (simp add: BigNumber_from_string_def bn_toHex_int u_def)
qed

lemma from_string_denotes:
  assumes "bn_strings_ok lib val" and "denotes_string s = Some n"
  shows "\<exists>h. BigNumber_from_string lib s = Inr h \<and> hex_int h = Some n"
proof (cases "hex_int s")
  case None
  with assms(2) have "matches_bn_dec s" "\<not> matches_bn_hex s" "n = signed s (dec_value (unsign s))"
    by (auto simp: denotes_string_def split: if_splits)
  with from_string_dec [OF assms(1)] show ?thesis by (simp add: hex_int_canonical)
next
  case (Some m)
  with assms(2) from_string_hex show ?thesis by (simp add: denotes_string_def)
qed

lemma dec_value_toString: "dec_value (nat_toString 10 n) = n"
  using parse_nat_toString_10 [of n] by (simp add: dec_value_def parse_radix_def)

lemma digit10_code: "is_digit10 c \<longleftrightarrow> 48 \<le> (of_char c :: nat) \<and> (of_char c :: nat) \<le> 57"
  by (auto simp: is_digit10_def digit_in_def digit_val_def Let_def split: option.splits)

lemma not_digit10:
  "\<not> is_digit10 CHR ''x''" "\<not> is_digit10 CHR ''X''" "\<not> is_digit10 CHR ''o''" "\<not> is_digit10 CHR ''O''"
  "\<not> is_digit10 CHR ''b''" "\<not> is_digit10 CHR ''B''" "\<not> is_digit10 CHR ''-''" "\<not> is_digit10 CHR ''+''"
  by (simp_all add: digit10_code)

lemma digit10_char: "d < 10 \<Longrightarrow> is_digit10 (digit_char d)"
  by (simp add: is_digit10_def digit_in_char)

lemma js_trim_id: "s \<noteq> [] \<Longrightarrow> \<not> is_js_space (hd s) \<Longrightarrow> \<not> is_js_space (last s) \<Longrightarrow> js_trim s = s"
proof -
  assume s: "s \<noteq> []" "\<not> is_js_space (hd s)" "\<not> is_js_space (last s)"
  then have "dropWhile is_js_space s = s" "dropWhile is_js_space (rev s) = rev s"
    by (simp_all add: dropWhile_eq_self_iff hd_rev)
  then show ?thesis by (simp add: js_trim_def)
qed

lemma digit10_not_space: "is_digit10 c \<Longrightarrow> \<not> is_js_space c"
  by (auto simp: digit10_code is_js_space_def)

lemma parse_dec: "list_all is_digit10 r \<Longrightarrow> r \<noteq> [] \<Longrightarrow> parse_radix 10 r = Some (dec_value r)"
proof -
  assume r: "list_all is_digit10 r" "r \<noteq> []"
  have "those (map (digit_in 10) r) = Some (map (\<lambda>c. the (digit_in 10 c)) r)"
    using r(1) by (intro those_cong_Some) (auto simp: list_all_iff is_digit10_def)
  then show ?thesis using r by (simp add: parse_radix_def dec_value_def decode_with_def)
qed

lemma js_BigInt_dec:
  assumes "list_all is_digit10 r" and "r \<noteq> []"
  shows "js_BigInt r = Some (int (dec_value r))" "js_BigInt (CHR ''-'' # r) = Some (- int (dec_value r))"
proof -
  obtain c q where r: "r = c # q" using assms(2) by (cases r) auto
  have "last r \<in> set r" using assms(2) by simp
  then have t: "\<not> is_js_space (last r)" "\<not> is_js_space (hd r)"
    using assms r digit10_not_space by (auto simp: list_all_iff)
  have "radix_prefix r = None"
    using assms(1) not_digit10 by (cases r rule: radix_prefix.cases) (auto simp: list_all_iff)
  moreover have "c \<noteq> CHR ''-''" "c \<noteq> CHR ''+''" using assms(1) r not_digit10 by auto
  ultimately show "js_BigInt r = Some (int (dec_value r))"
    using js_trim_id [OF assms(2) t(2,1)] parse_dec [OF assms] r by (simp add: js_BigInt_def Let_def)
  have "js_trim (CHR ''-'' # r) = CHR ''-'' # r"
    using t assms(2) by (intro js_trim_id) (auto simp: is_js_space_def)
  then show "js_BigInt (CHR ''-'' # r) = Some (- int (dec_value r))"
    using parse_dec [OF assms] r by (simp add: js_BigInt_def Let_def)
qed

lemma int_toString_10:
  "matches_bn_dec (int_toString 10 n)" "\<not> matches_bn_hex (int_toString 10 n)"
  "signed (int_toString 10 n) (dec_value (unsign (int_toString 10 n))) = n"
proof -
  have digits: "\<exists>ds. nat_toString 10 k = map digit_char ds \<and> (\<forall>d \<in> set ds. d < 10) \<and> ds \<noteq> []" for k
    using to_digits_less [of _ 10 k]
    by (intro exI [of _ "if k = 0 then [0] else to_digits 10 k"]) (auto simp: nat_toString_alt)
  have nx: "digit_char d \<noteq> CHR ''x'' \<and> digit_char d \<noteq> CHR ''X'' \<and> digit_char d \<noteq> CHR ''-'' \<and> is_digit10 (digit_char d)" if "d < 10" for d
    using digit10_char [OF that] not_digit10 by metis
  have t1: "take 1 (nat_toString 10 k) \<noteq> ''-''" for k
    using digits [of k] nx by (auto simp: take_map neq_Nil_conv)
  have un: "unsign (int_toString 10 n) = nat_toString 10 (nat \<bar>n\<bar>)" and sg: "take 1 (int_toString 10 n) = ''-'' \<longleftrightarrow> n < 0"
    using t1 [of "nat n"] by (auto simp: int_toString_def unsign_def)
  show "matches_bn_dec (int_toString 10 n)"
    using digits [of "nat \<bar>n\<bar>"] nx by (auto simp: matches_bn_dec_def un list_all_iff)
  show "\<not> matches_bn_hex (int_toString 10 n)"
  proof -
    obtain ds where ds: "nat_toString 10 (nat \<bar>n\<bar>) = map digit_char ds" "\<forall>d \<in> set ds. d < 10" using digits by blast
    have "to_lower (digit_char d) \<noteq> CHR ''x''" if "d < 10" for d
      using that digit_char_not_x [of d] by simp
    then show ?thesis using ds by (cases ds rule: remdups_adj.cases) (auto simp: matches_bn_hex_def un)
  qed
  show "signed (int_toString 10 n) (dec_value (unsign (int_toString 10 n))) = n"
    using sg by (simp add: signed_def un dec_value_toString)
qed


lemma js_BigInt_int: "js_BigInt (int_toString 10 n) = Some n"
proof -
  define r where "r = nat_toString 10 (nat \<bar>n\<bar>)"
  have "list_all is_digit10 r"
    using digit10_char to_digits_less [of _ 10 "nat \<bar>n\<bar>"]
    by (auto simp: r_def nat_toString_alt list_all_iff digit10_code [of "CHR ''0''"])
  moreover have "r \<noteq> []" by (simp add: r_def)
  moreover have "dec_value r = nat \<bar>n\<bar>" by (simp add: r_def dec_value_toString)
  moreover have "int_toString 10 n = (if n < 0 then CHR ''-'' # r else r)" by (simp add: int_toString_def r_def)
  ultimately show ?thesis by (simp add: js_BigInt_dec)
qed

lemma from_bytes_denotes:
  assumes "bs \<noteq> []"
  shows "\<exists>h. bindE (Inr (''0x'' @ hex_of_bytes bs)) (BigNumber_from_string lib) = Inr h \<and> hex_int h = Some (int (bytes_value bs))"
proof -
  have "hex_int (''0x'' @ hex_of_bytes bs) = Some (int (bytes_value bs))"
    using assms by (simp add: hex_int_def unsign_def signed_def hex_nat_def hexvals_hex_of_bytes)
  from from_string_hex [OF this] show ?thesis by simp
qed

lemma from_int_denotes:
  "bn_strings_ok lib val \<Longrightarrow> \<exists>h. BigNumber_from_string lib (int_toString 10 k) = Inr h \<and> hex_int h = Some k"
  using from_string_dec [of lib val "int_toString 10 k"] int_toString_10 [of k] by (simp add: hex_int_canonical)

lemma from_legacy_denotes:
  assumes "hex_int h = Some n"
  shows "\<exists>h'. BigNumber_from lib (BLegacy h) = Inr h' \<and> hex_int h' = Some n"
proof -
  have "matches_hex h \<or> take 1 h = ''-'' \<and> matches_hex (drop 1 h)"
    using assms by (auto simp: hex_int_def unsign_def Let_def split: if_splits)
  then show ?thesis using from_string_hex [OF assms] by (simp add: BigNumber_from_def)
qed

lemma from_denotes:
  assumes "bn_strings_ok lib val" and "denotes v = Some n"
  shows "\<exists>h. BigNumber_from lib v = Inr h \<and> hex_int h = Some n"
proof (cases v)
  case (BData d)
  show ?thesis
  proof (cases d)
    case (DBig k)
    with assms(2) BData from_int_denotes [OF assms(1), of k] show ?thesis by (simp add: BigNumber_from_def)
  next
    case (DU8 bs)
    then have "bs \<noteq> []" "n = int (bytes_value bs)" using assms(2) BData by (auto split: if_splits)
    with from_bytes_denotes show ?thesis by (simp add: BigNumber_from_def BData DU8)
  next
    case (DArr vs)
    then have vs: "bytes_of_jnums vs \<noteq> []" "list_all isByteValue vs" "n = int (bytes_value (bytes_of_jnums vs))"
      using assms(2) BData by (auto simp: bytes_of_jnums_def split: if_splits)
    with from_bytes_denotes [OF vs(1)] show ?thesis
      by (simp add: BigNumber_from_def BData DArr hexlify_def hexlify_commas_def)
  next
    case (DNum x)
    then obtain q where x: "x = Fin q" using assms(2) BData by (cases x) auto
    with DNum have q: "rat_is_int q" "\<bar>\<lfloor>q\<rfloor>\<bar> < MAX_SAFE" "n = \<lfloor>q\<rfloor>"
      using assms(2) BData by (simp_all split: if_splits)
    then have "\<not> (\<lfloor>q\<rfloor> \<ge> MAX_SAFE \<or> \<lfloor>q\<rfloor> \<le> - MAX_SAFE)" by linarith
    with q x DNum BData from_int_denotes [OF assms(1), of n] show ?thesis
      by (simp add: BigNumber_from_def BigNumber_from_number_def)
  qed (use assms(2) BData from_string_denotes [OF assms(1)] in \<open>auto simp: BigNumber_from_def\<close>)
next
  case (BLegacy h)
  then show ?thesis using assms(2) from_legacy_denotes by simp
qed (use assms in \<open>auto simp: BigNumber_from_def\<close>)

text \<open>What denotes no integer is refused, but for the prefix \<open>0X\<close>; a \<open>BigNumber\<close> is taken as it is.\<close>

definition upper_0X :: "string \<Rightarrow> bool" where
  "upper_0X s \<longleftrightarrow> take 2 (unsign s) = ''0X'' \<and> matches_bn_hex s"

fun well_made :: "bn_value \<Rightarrow> bool" where
  "well_made (BNum h) \<longleftrightarrow> hex_int h \<noteq> None"
| "well_made (BData (DStr s)) \<longleftrightarrow> \<not> upper_0X s"
| "well_made (BData (DHexable s)) \<longleftrightarrow> \<not> upper_0X s"
| "well_made _ \<longleftrightarrow> True"

fun from_fault :: "bn_value \<Rightarrow> error_code \<times> string" where
  "from_fault (BData (DNum (Fin q))) = (NUMERIC_FAULT, if rat_is_int q then ''overflow'' else ''underflow'')"
| "from_fault (BData (DNum PosInf)) = (NUMERIC_FAULT, ''overflow'')"
| "from_fault (BData (DNum NegInf)) = (NUMERIC_FAULT, ''overflow'')"
| "from_fault (BData (DArr vs)) =
     (INVALID_ARGUMENT, if vs = [] then ''invalid BigNumber string'' else ''invalid BigNumber value'')"
| "from_fault (BData _) = (INVALID_ARGUMENT, ''invalid BigNumber string'')"
| "from_fault (BLegacy h) =
     (INVALID_ARGUMENT, if drop 2 (unsign h) = [] \<and> matches_hex (unsign h) then ''invalid BigNumber string'' else ''invalid BigNumber value'')"
| "from_fault _ = (INVALID_ARGUMENT, ''invalid BigNumber value'')"

lemma lower_0x: "map to_lower t = ''0x'' \<longleftrightarrow> t = ''0x'' \<or> t = ''0X''"
proof -
  have eq: "c = d \<longleftrightarrow> (of_char c :: nat) = of_char d" for c d :: char by simp
  have code: "(of_char (to_lower c) :: nat) = (let n = of_char c in if 65 \<le> n \<and> n \<le> 90 then n + 32 else n)" for c
    by (simp add: to_lower_def Let_def)
  have c0: "to_lower c = CHR ''0'' \<longleftrightarrow> c = CHR ''0''" and cx: "to_lower c = CHR ''x'' \<longleftrightarrow> c = CHR ''x'' \<or> c = CHR ''X''" for c
    unfolding eq code by (auto simp: Let_def)
  show ?thesis by (auto simp: c0 cx map_eq_Cons_conv)
qed

lemma from_string_refuses:
  assumes "denotes_string s = None" and "\<not> upper_0X s"
  shows "BigNumber_from_string lib s = Inl (CoreError INVALID_ARGUMENT ''invalid BigNumber string'')"
proof -
  have none: "hex_int s = None" and dec: "\<not> matches_bn_dec s \<or> matches_bn_hex s"
    using assms(1) by (auto simp: denotes_string_def split: option.splits if_splits)
  have "\<not> matches_bn_hex s"
  proof
    assume m: "matches_bn_hex s"
    then have "take 2 (unsign s) = ''0x''" using assms(2) by (simp add: matches_bn_hex_def Let_def upper_0X_def lower_0x)
    then have "hex_int s \<noteq> None" using m by (simp add: hex_int_def matches_bn_hex_def Let_def matches_hex_def)
    with none show False by simp
  qed
  with dec show ?thesis by (simp add: BigNumber_from_string_def logger_init_def)
qed

lemma toBN_denotes:
  assumes "bn_strings_ok lib val" and "denotes v = Some n"
  shows "\<exists>b. toBN lib v = Inr b \<and> val b = n"
proof -
  obtain h where h: "BigNumber_from lib v = Inr h" "hex_int h = Some n" using from_denotes [OF assms] by blast
  define r where "r = drop 2 (unsign h)"
  from h(2) have r: "list_all is_hex_char r" "r \<noteq> []" "n = signed h (hex_nat r)"
    by (auto simp: hex_int_def r_def matches_hex_def Let_def split: if_splits)
  have "val (bn_new lib r 16) = int (hex_nat r) \<and> val (bn_new lib (''-'' @ r) 16) = - int (hex_nat r)"
    using assms(1) r unfolding bn_strings_ok_def by blast
  then show ?thesis using h(1) r(3)
    by (cases "take 1 h = ''-''") (simp_all add: toBN_def signed_def r_def unsign_def numeral_3_eq_3)
qed

lemma BigNumber_reads:
  assumes "bn_strings_ok lib val" and "denotes v = Some n"
  shows "\<exists>h. BigNumber_from lib v = Inr h \<and> hex_int h = Some n \<and>
    BigNumber_toBigInt lib h = Inr n \<and> BigNumber_toString lib h = Inr (int_toString 10 n)"
proof -
  obtain h where h: "BigNumber_from lib v = Inr h" "hex_int h = Some n" using from_denotes [OF assms] by blast
  obtain b where b: "toBN lib (BNum h) = Inr b" "val b = n" using toBN_denotes [OF assms(1), of "BNum h"] h by auto
  have "bn_str lib b 10 = int_toString 10 n" using assms(1) b by (simp add: bn_strings_ok_def)
  moreover have "js_BigInt (int_toString 10 n) = Some n" by (rule js_BigInt_int)
  ultimately show ?thesis using h b by (simp add: BigNumber_toBigInt_def BigNumber_toString_def)
qed

lemma bare_0x_refused: "denotes_string h = None \<and> \<not> upper_0X h" if "unsign h = ''0x''"
proof -
  have "\<not> is_digit10 CHR ''x''" by (simp add: is_digit10_def digit_in_def digit_val_def)
  with that show ?thesis by (simp add: denotes_string_def hex_int_def matches_bn_dec_def upper_0X_def)
qed

lemma from_refuses:
  assumes "well_made v" and "denotes v = None"
  shows "BigNumber_from lib v = Inl (CoreError (fst (from_fault v)) (snd (from_fault v)))"
proof (cases v)
  case (BData d)
  show ?thesis
  proof (cases d)
    case (DNum x)
    show ?thesis
    proof (cases x)
      case (Fin q)
      then have "\<not> rat_is_int q \<or> \<not> \<bar>\<lfloor>q\<rfloor>\<bar> < MAX_SAFE" using assms(2) BData DNum by (auto split: if_splits)
      then have "\<not> rat_is_int q \<or> \<lfloor>q\<rfloor> \<ge> MAX_SAFE \<or> \<lfloor>q\<rfloor> \<le> - MAX_SAFE" by linarith
      then show ?thesis
        using BData DNum Fin by (auto simp: BigNumber_from_def BigNumber_from_number_def throwFault_def logger_init_def)
    qed (simp_all add: BData DNum BigNumber_from_def BigNumber_from_number_def throwFault_def logger_init_def)
  next
    case (DU8 bs)
    then have "bs = []" using assms(2) BData by (auto split: if_splits)
    then show ?thesis using from_string_refuses [of "''0x''"] bare_0x_refused [of "''0x''"] BData DU8
      by (simp add: BigNumber_from_def hexlify_def hexlify_commas_def unsign_def)
  next
    case (DArr vs)
    show ?thesis
    proof (cases "vs = []")
      case True
      then show ?thesis using from_string_refuses [of "''0x''"] bare_0x_refused [of "''0x''"] BData DArr
        by (simp add: BigNumber_from_def hexlify_def hexlify_commas_def bytes_of_jnums_def unsign_def)
    next
      case False
      then have "\<not> list_all isByteValue vs" using assms(2) BData DArr by (auto split: if_splits)
      then show ?thesis using False by (simp add: BData DArr BigNumber_from_def logger_init_def)
    qed
  qed (use assms BData from_string_refuses in \<open>simp_all add: BigNumber_from_def\<close>)
next
  case (BLegacy h)
  have u: "matches_hex h \<or> take 1 h = ''-'' \<and> matches_hex (drop 1 h) \<longleftrightarrow> matches_hex (unsign h)"
    by (auto simp: unsign_def matches_hex_def take_Cons' split: if_splits) (cases h; auto)+
  have none: "hex_int h = None" using assms(2) BLegacy by simp
  show ?thesis
  proof (cases "matches_hex (unsign h)")
    case True
    then have d: "drop 2 (unsign h) = []" "take 2 (unsign h) = ''0x''"
      using none by (auto simp: hex_int_def matches_hex_def Let_def split: if_splits)
    then have "unsign h = ''0x''" by (metis append_take_drop_id append_Nil2)
    then have "denotes_string h = None" "\<not> upper_0X h" using bare_0x_refused by blast+
    from from_string_refuses [OF this] show ?thesis using True d u by (simp add: BLegacy BigNumber_from_def)
  next
    case False
    then show ?thesis unfolding BLegacy BigNumber_from_def bn_value.case u by (simp add: logger_init_def)
  qed
qed (use assms in \<open>simp_all add: BigNumber_from_def logger_init_def\<close>)

text \<open>
  C6. \<open>BigNumber.from\<close> on every value it may be given. A value that denotes an integer (a
  decimal or hexadecimal string, an integral number below \<open>MAX_SAFE\<close> in magnitude, a bigint,
  bytes or an array of byte values, a legacy object, another \<open>BigNumber\<close>) becomes a hexadecimal
  string of that integer, and \<open>toBigInt\<close> and \<open>toString\<close> give the integer back. Any other value
  is refused: a number with a numeric fault, underflow for a fraction and overflow for one
  that is too large, the rest as an invalid argument. Left out are strings with the prefix
  \<open>0X\<close>, which are accepted although they denote nothing, and a \<open>BigNumber\<close> made of such a string.
\<close>

theorem BigNumber_from_reads:
  assumes "bn_strings_ok lib val" and "well_made v"
  shows "case denotes v of
      Some n \<Rightarrow> \<exists>h. BigNumber_from lib v = Inr h \<and> hex_int h = Some n \<and>
        BigNumber_toBigInt lib h = Inr n \<and> BigNumber_toString lib h = Inr (int_toString 10 n)
    | None \<Rightarrow> BigNumber_from lib v = Inl (CoreError (fst (from_fault v)) (snd (from_fault v)))"
proof (cases "denotes v")
  case None
  with from_refuses [OF assms(2)] show ?thesis by simp
next
  case (Some n)
  with BigNumber_reads [OF assms(1)] show ?thesis by simp
qed

text \<open>An instance of the package, on the integers.\<close>

definition int_bn :: "int bn_lib" where
  "int_bn = \<lparr>
     bn_new = (\<lambda>s b. signed s (if b = 16 then hex_nat (unsign s) else dec_value (unsign s))),
     bn_str = (\<lambda>n b. int_toString b n),
     bn_add = (+), bn_sub = (-), bn_mul = (*), bn_div = tdiv, bn_umod = (mod),
     bn_pow = (\<lambda>a b. a ^ nat b), bn_and = (AND), bn_or = (OR), bn_xor = (XOR),
     bn_maskn = (\<lambda>a k. a mod 2 ^ nat k), bn_shln = (\<lambda>a k. a * 2 ^ nat k), bn_shrn = (\<lambda>a k. a div 2 ^ nat k),
     bn_fromTwos = (\<lambda>a k. if 2 ^ nat (k - 1) \<le> a then a - 2 ^ nat k else a),
     bn_toTwos = (\<lambda>a k. if a < 0 then a + 2 ^ nat k else a),
     bn_cmp = (\<lambda>a b. sgn (a - b)), bn_isNeg = (\<lambda>a. a < 0), bn_isZero = (\<lambda>a. a = 0),
     bn_toNumber = (\<lambda>a. if \<bar>a\<bar> \<le> 0x1fffffffffffff then Some a else None) \<rparr>"

lemma int_bn_ok: "bn_strings_ok int_bn id" "bn_arith_ok int_bn id"
proof -
  have "take (Suc 0) r \<noteq> ''-''" if "list_all is_hex_char r \<or> list_all is_digit10 r" for r
    using that is_hex_char_not not_digit10 by (cases r) auto
  then show "bn_strings_ok int_bn id"
    by (auto simp: bn_strings_ok_def int_bn_def signed_def unsign_def)
  show "bn_arith_ok int_bn id" by (simp add: bn_arith_ok_def int_bn_def)
qed

lemma BigNumber_from_reads_witness:
  "(\<exists>h. BigNumber_from int_bn (BData (DNum (Fin (-15)))) = Inr h \<and> hex_int h = Some (-15) \<and>
     BigNumber_toBigInt int_bn h = Inr (-15) \<and> BigNumber_toString int_bn h = Inr ''-15'') \<and>
   BigNumber_from int_bn (BData (DNum (Fin (1 / 2)))) = Inl (CoreError NUMERIC_FAULT ''underflow'')"
proof -
  have i: "rat_is_int (-15)" "\<lfloor>-15 :: rat\<rfloor> = -15" "\<not> rat_is_int (1 / 2)" by code_simp+
  then have "denotes (BData (DNum (Fin (-15)))) = Some (-15)" by (simp add: MAX_SAFE_def)
  moreover have "denotes (BData (DNum (Fin (1 / 2)))) = None" using i(3) by simp
  moreover have "int_toString 10 (-15) = ''-15''" by (simp add: int_toString_def nat_toString_alt to_digits_pos digit_char_def)
  ultimately show ?thesis
    using BigNumber_from_reads [OF int_bn_ok(1), of "BData (DNum (Fin (-15)))"]
      BigNumber_from_reads [OF int_bn_ok(1), of "BData (DNum (Fin (1 / 2)))"] i(3) by simp
qed

text \<open>
  C5. The arithmetic methods of \<open>BigNumber\<close> compute on the integers that receiver
  and argument denote and return the canonical hexadecimal string of the result:
  sum, difference and product always, the truncated quotient and the Euclidean
  remainder for a nonzero and a positive divisor; division by zero and a negative
  modulus throw a numeric fault.
\<close>

theorem BigNumber_arithmetic:
  assumes "bn_strings_ok lib val" and "bn_arith_ok lib val" and "hex_int this = Some a" and "denotes other = Some b"
  shows "BigNumber_add lib this other = Inr (hex_of_int (a + b)) \<and>
    BigNumber_sub lib this other = Inr (hex_of_int (a - b)) \<and>
    BigNumber_mul lib this other = Inr (hex_of_int (a * b)) \<and>
    BigNumber_div lib this other =
      (if b = 0 then Inl (CoreError NUMERIC_FAULT ''division by zero'') else Inr (hex_of_int (tdiv a b))) \<and>
    (if b > 0 then BigNumber_mod lib this other = Inr (hex_of_int (a mod b))
     else b = 0 \<or> BigNumber_mod lib this other = Inl (CoreError NUMERIC_FAULT ''cannot modulo negative values''))"
proof -
  obtain x where x: "toBN lib (BNum this) = Inr x" "val x = a"
    using toBN_denotes [OF assms(1), of "BNum this"] assms(3) by auto
  obtain y where y: "toBN lib other = Inr y" "val y = b" using toBN_denotes [OF assms(1,4)] by blast
  obtain h where h: "BigNumber_from lib other = Inr h" "hex_int h = Some b" using from_denotes [OF assms(1,4)] by blast
  then obtain z where z: "toBN lib (BNum h) = Inr z" "val z = b"
    using toBN_denotes [OF assms(1), of "BNum h"] by auto
  note lib = assms(2) [unfolded bn_arith_ok_def] and out = toBigNumber_eq [OF assms(1)]
  show ?thesis
    using x y z h lib
    by (simp add: BigNumber_add_def BigNumber_sub_def BigNumber_mul_def BigNumber_div_def BigNumber_mod_def
        bn_binary_def bn_guarded_def out throwFault_def logger_init_def)
qed

lemma BigNumber_arithmetic_witness:
  "BigNumber_sub int_bn ''0x02'' (BData (DBig 5)) = Inr ''-0x03''"
proof -
  have "hex_int ''0x02'' = Some 2"
    by (simp add: hex_int_def unsign_def matches_hex_def is_hex_char_def signed_def hex_nat_def
        hexval_def digit_in_def digit_val_def of_digits_def)
  from BigNumber_arithmetic [OF int_bn_ok this, of "BData (DBig 5)" 5] show ?thesis
    by (simp add: hex_of_int_def even_hex_def nat_toString_alt to_digits_pos digit_char_def)
qed

text \<open>
  The pattern of \<open>BigNumber.from\<close> ignores case, but the normal form only looks
  for a lower-case \<open>0x\<close>: a string with the prefix \<open>0X\<close> is accepted and becomes a
  \<open>BigNumber\<close> whose \<open>_hex\<close> is no hexadecimal string.
\<close>

theorem BigNumber_from_0X:
  "BigNumber_from lib (BData (DStr ''0X12'')) = Inr ''0x0X12'' \<and> hex_int ''0x0X12'' = None"
proof -
  have "matches_bn_hex ''0X12''" "bn_toHex ''0X12'' = Inr ''0x0X12''" by code_simp+
  then show ?thesis
    by (simp add: BigNumber_from_def BigNumber_from_string_def hex_int_def unsign_def matches_hex_def is_hex_char_not)
qed

end
