(* ===== verification/Address.thy ===== *)
theory Address
  imports Big_Number Rlp
begin

text \<open>
  \<open>src.ts/address/index.ts\<close>, \<open>checks.ts\<close>, \<open>contract-address.ts\<close>,
  \<open>src.ts/transaction/address.ts\<close> and \<open>accesslist.ts\<close>: network prefixes, the mod-97
  checksum of Core addresses, ICAP strings, derived addresses and access lists.
  SHA3-256 is the parameter \<open>H\<close>, from bytes to bytes.
\<close>

section \<open>Checksums\<close>

definition removeHexPrefix :: "string \<Rightarrow> string" where
  "removeHexPrefix val = (if take 2 val = ''0x'' then drop 2 val else val)"

text \<open>\<open>s.replace("0x", "")\<close>: the first occurrence, wherever it is.\<close>

fun replace_0x :: "string \<Rightarrow> string" where
  "replace_0x (c # d # r) = (if c = CHR ''0'' \<and> d = CHR ''x'' then r else c # replace_0x (d # r))"
| "replace_0x s = s"

definition to_upper :: "char \<Rightarrow> char" where
  "to_upper c = (let n = of_char c :: nat in if 97 \<le> n \<and> n \<le> 122 then char_of (n - 32) else c)"

text \<open>A letter counts from ten, any other character by its distance from \<open>0\<close>.\<close>

definition checksum_char :: "char \<Rightarrow> string" where
  "checksum_char c =
     (let charCode = of_char c :: nat
      in if charCode > 64 \<and> charCode < 91 then int_toString 10 (int charCode - 55)
         else int_toString 10 (int charCode - 48))"

definition calculateCheckSum :: "string \<Rightarrow> string \<Rightarrow> string result" where
  "calculateCheckSum address0 pre0 =
     bindE (getBytes (DStr (''0x'' @ replace_0x address0))) (\<lambda>address.
     bindE (getBytes (DStr (''0x'' @ replace_0x pre0))) (\<lambda>pre.
     bindE (hexlify (DU8 (address @ pre)) no_options) (\<lambda>h.
       let hexedConcat = replace_0x h @ ''00'';
           mods = concat (map (\<lambda>c. checksum_char (to_upper c)) hexedConcat)
       in case js_BigInt mods of
            None \<Rightarrow> Inl (JsError NativeSyntaxError ''Cannot convert to a BigInt'')
          | Some bigVal \<Rightarrow>
              let checkSum = 98 - bigVal mod 97
              in Inr (if checkSum > 9 then int_toString 10 checkSum else ''0'' @ int_toString 10 checkSum))))"

definition precompiledAddresses :: "string list" where
  "precompiledAddresses = map (\<lambda>d. replicate 63 CHR ''0'' @ [d]) ''0123456789''"

text \<open>The pattern \<open>/^(0x)?[0-9a-fA-F]{44}$/\<close>.\<close>

definition matches_address :: "string \<Rightarrow> bool" where
  "matches_address s \<longleftrightarrow>
     (length s = 44 \<and> list_all is_hex_char s) \<or>
     (take 2 s = ''0x'' \<and> length s = 46 \<and> list_all is_hex_char (drop 2 s))"

definition getAddress :: "string \<Rightarrow> string result" where
  "getAddress address =
     (if \<not> matches_address address then logger_throwArgumentError logger_init ''invalid address''
      else let raw = removeHexPrefix address
           in if raw \<in> set precompiledAddresses then Inr (''0x'' @ raw)
              else let pre = js_substring raw 0 2; val = drop 4 raw
                   in bindE (calculateCheckSum val pre) (\<lambda>checksum.
                        if checksum \<noteq> js_substring raw 2 4
                        then logger_throwArgumentError logger_init ''bad address checksum''
                        else Inr (''0x'' @ pre @ checksum @ val)))"

section \<open>ICAP\<close>

text \<open>\<open>ibanLookup\<close>; an absent key is \<open>undefined\<close>, which \<open>join\<close> renders as nothing.\<close>

definition ibanLookup :: "char \<Rightarrow> string" where
  "ibanLookup c =
     (let n = of_char c :: nat
      in if 48 \<le> n \<and> n \<le> 57 then nat_toString 10 (n - 48)
         else if 65 \<le> n \<and> n \<le> 90 then nat_toString 10 (10 + (n - 65)) else [])"

definition safeDigits :: nat where
  "safeDigits = 15"

text \<open>\<open>parseInt(block, 10)\<close> of at most fifteen decimal digits is exact.\<close>

function iban_reduce :: "string \<Rightarrow> string" where
  "iban_reduce expanded =
     (if length expanded \<ge> safeDigits
      then iban_reduce (nat_toString 10 (dec_value (take safeDigits expanded) mod 97) @ drop safeDigits expanded)
      else expanded)"
  by pat_completeness auto

definition pad_0 :: "nat \<Rightarrow> string \<Rightarrow> string" where
  "pad_0 n s = replicate (n - length s) CHR ''0'' @ s"

lemma length_mod_97: "length (nat_toString 10 (k mod 97)) \<le> 2"
proof -
  have "k mod 97 < 97" by simp
  also have "(97 :: nat) < 10 ^ 2" by simp
  finally have "k mod 97 < 10 ^ 2" .
  then have "length (to_digits 10 (k mod 97)) \<le> 2" using length_to_digits_le [of 10 "k mod 97" 2] by simp
  then show ?thesis by (simp add: nat_toString_alt)
qed

termination iban_reduce
proof (relation "measure length")
  fix expanded :: string assume "safeDigits \<le> length expanded"
  then show "(nat_toString 10 (dec_value (take safeDigits expanded) mod 97) @ drop safeDigits expanded, expanded)
      \<in> measure length"
    using length_mod_97 [of "dec_value (take safeDigits expanded)"] by (simp add: safeDigits_def)
qed simp

declare iban_reduce.simps [simp del]

definition ibanChecksum :: "string \<Rightarrow> string" where
  "ibanChecksum address0 =
     (let upper = map to_upper address0;
          address = drop 4 upper @ take 2 upper @ ''00'';
          expanded = iban_reduce (concat (map ibanLookup address))
      in pad_0 2 (int_toString 10 (98 - int (dec_value expanded mod 97))))"

definition getIcapAddress :: "string \<Rightarrow> string result" where
  "getIcapAddress address =
     bindE (getAddress address) (\<lambda>a.
       case js_BigInt a of
         None \<Rightarrow> Inl (JsError NativeSyntaxError ''Cannot convert to a BigInt'')
       | Some n \<Rightarrow>
           let base36 = pad_0 30 (map to_upper (int_toString 36 n))
           in Inr (''XE'' @ ibanChecksum (''XE00'' @ base36) @ base36))"

section \<open>Networks and derived addresses\<close>

fun networkIdToPrefix :: "jnum \<Rightarrow> string result" where
  "networkIdToPrefix (Fin q) =
     (if q = 1 then Inr ''cb''
      else if q = 3 \<or> q = 4 then Inr ''ab''
      else if q > 10 \<or> q = 0 then Inr ''ce''
      else logger_throwArgumentError logger_init ''bad networkId'')"
| "networkIdToPrefix PosInf = Inr ''ce''"
| "networkIdToPrefix _ = logger_throwArgumentError logger_init ''bad networkId''"

definition sha256 :: "(byte list \<Rightarrow> byte list) \<Rightarrow> js_data \<Rightarrow> string result" where
  "sha256 H data = bindE (getBytes data) (\<lambda>bytes. hexlify (DU8 (H bytes)) no_options)"

text \<open>Prefix, checksum and the last twenty bytes of a hash.\<close>

definition address_of_hash :: "string \<Rightarrow> string \<Rightarrow> string result" where
  "address_of_hash hash pre =
     bindE (hexDataSlice (DStr hash) 12 None) (\<lambda>val.
     bindE (calculateCheckSum val pre) (\<lambda>checksum.
       Inr (''0x'' @ pre @ checksum @ removeHexPrefix val)))"

definition getContractAddress ::
    "'bn bn_lib \<Rightarrow> (byte list \<Rightarrow> byte list) \<Rightarrow> string \<Rightarrow> bn_value \<Rightarrow> string result" where
  "getContractAddress lib H from0 nonce0 =
     bindE (case getAddress from0 of
              Inr a \<Rightarrow> Inr a | Inl _ \<Rightarrow> logger_throwArgumentError logger_init ''missing from address'') (\<lambda>sender.
     bindE (BigNumber_from lib nonce0) (\<lambda>h.
     bindE (arrayify (DStr h) no_options) (\<lambda>bytes.
     bindE (stripZeros (DU8 bytes)) (\<lambda>nonce.
     bindE (crypto_encode (RArr [RItem (DStr sender), RItem (DU8 nonce)])) (\<lambda>enc.
     bindE (sha256 H (DStr enc)) (\<lambda>hash.
       address_of_hash hash (js_substring sender 2 4)))))))"

definition getCreateAddress :: "string \<Rightarrow> js_data \<Rightarrow> string result" where
  "getCreateAddress from0 nonce0 =
     bindE (getAddress from0) (\<lambda>a.
     bindE (getBigInt nonce0) (\<lambda>nonce. getAddress a))"

definition getCreate2Address ::
    "(byte list \<Rightarrow> byte list) \<Rightarrow> string \<Rightarrow> js_data \<Rightarrow> js_data \<Rightarrow> string result" where
  "getCreate2Address H from0 salt initCodeHash =
     bindE (hexDataLength salt) (\<lambda>n.
     if n \<noteq> Some 32 then logger_throwArgumentError logger_init ''salt must be 32 bytes''
     else bindE (hexDataLength initCodeHash) (\<lambda>m.
     if m \<noteq> Some 32 then logger_throwArgumentError logger_init ''initCodeHash must be 32 bytes''
     else bindE (getAddress from0) (\<lambda>a.
     bindE (concat_data [DStr ''0xff'', DStr a, salt, initCodeHash]) (\<lambda>c.
     bindE (sha256 H (DStr c)) (\<lambda>hash. address_of_hash hash (js_substring from0 2 4))))))"

definition publicToAddress :: "(byte list \<Rightarrow> byte list) \<Rightarrow> js_data \<Rightarrow> string \<Rightarrow> string result" where
  "publicToAddress H key pre = bindE (sha256 H key) (\<lambda>hash. address_of_hash hash pre)"

definition extractPrefix :: "string \<Rightarrow> string result" where
  "extractPrefix address = bindE (getAddress address) (\<lambda>a. Inr (js_substring a 2 4))"

section \<open>Address checks\<close>

definition isAddress :: "string \<Rightarrow> bool" where
  "isAddress value \<longleftrightarrow> (case getAddress value of Inr _ \<Rightarrow> True | Inl _ \<Rightarrow> False)"

text \<open>
  An argument that may stand for an address: a string, an object with
  \<open>getAddress\<close>, a promise, anything else. The two asynchronous ones carry what
  they resolve to; a rejection is an error.
\<close>

datatype address_like =
    AStr string | AAddressable "string option result" | APromise "string option result" | AOther

definition isAddressable :: "address_like \<Rightarrow> bool" where
  "isAddressable v \<longleftrightarrow> (case v of AAddressable _ \<Rightarrow> True | _ \<Rightarrow> False)"

definition checkAddress :: "address_like \<Rightarrow> string option result \<Rightarrow> string result" where
  "checkAddress target promise =
     bindE promise (\<lambda>result.
       case result of
         Some a \<Rightarrow>
           if a = ''0x'' @ replicate 40 CHR ''0''
           then bindE (assert (case target of AStr _ \<Rightarrow> False | _ \<Rightarrow> True) ''unconfigured name'' UNCONFIGURED_NAME)
                  (\<lambda>_. Inl (CoreError INVALID_ARGUMENT
                          ''invalid AddressLike value; did not resolve to a value address''))
           else getAddress a
       | None \<Rightarrow>
           bindE (assert (case target of AStr _ \<Rightarrow> False | _ \<Rightarrow> True) ''unconfigured name'' UNCONFIGURED_NAME)
             (\<lambda>_. Inl (CoreError INVALID_ARGUMENT
                     ''invalid AddressLike value; did not resolve to a value address'')))"

definition resolveAddress :: "address_like \<Rightarrow> string result" where
  "resolveAddress target =
     (case target of
        AStr s \<Rightarrow> getAddress s
      | AAddressable p \<Rightarrow> checkAddress target p
      | APromise p \<Rightarrow> checkAddress target p
      | AOther \<Rightarrow> Inl (CoreError INVALID_ARGUMENT ''unsupported addressable value''))"


section \<open>The checksum as a remainder\<close>

text \<open>
  The decimal expansion of a digit string in which digits from ten on take two
  places, as a number.
\<close>

definition iban_step :: "nat \<Rightarrow> nat \<Rightarrow> nat" where
  "iban_step a v = (if v < 10 then a * 10 + v else a * 100 + v)"

definition iban_num :: "nat list \<Rightarrow> nat" where
  "iban_num vs = foldl iban_step 0 vs"

definition iban_weight :: "nat list \<Rightarrow> nat" where
  "iban_weight vs = prod_list (map (\<lambda>v. if v < 10 then 10 else 100) vs)"

lemma iban_fold: "foldl iban_step a vs = a * iban_weight vs + iban_num vs"
proof (induction vs arbitrary: a)
  case (Cons v vs)
  show ?case
    using Cons [of "iban_step a v"] Cons [of "iban_step 0 v"]
    by (simp add: iban_num_def iban_weight_def iban_step_def [of a] iban_step_def [of 0] algebra_simps)
qed (simp add: iban_num_def iban_weight_def)

lemma iban_num_append: "iban_num (xs @ ys) = iban_num xs * iban_weight ys + iban_num ys"
  using iban_fold [of "iban_num xs" ys] by (simp add: iban_num_def)

lemma iban_num_single [simp]: "iban_num [v] = v"
  by (simp add: iban_num_def iban_step_def)

lemma iban_num_Nil [simp]: "iban_num [] = 0"
  by (simp add: iban_num_def)

lemma iban_weight_simps [simp]:
  "iban_weight [] = 1" "iban_weight (v # vs) = (if v < 10 then 10 else 100) * iban_weight vs"
  by (simp_all add: iban_weight_def)

lemma coprime_iban_weight: "coprime 97 (iban_weight vs)"
proof (induction vs)
  case (Cons v vs)
  have "coprime 97 (10 :: nat)" "coprime 97 (100 :: nat)" by (simp_all add: coprime_iff_gcd_eq_1 gcd_non_0_nat)
  with Cons show ?case by simp
qed simp

text \<open>Decimal strings that are concatenated values.\<close>

definition dec_of_vals :: "nat list \<Rightarrow> string" where
  "dec_of_vals vs = concat (map (nat_toString 10) vs)"

lemma dec_value_map: "\<forall>d \<in> set ds. d < 10 \<Longrightarrow> dec_value (map digit_char ds) = of_digits 10 ds"
  using dec.decode_chars [of ds] by (simp add: dec_value_def)

lemma nat_toString_digits:
  "\<exists>ds. nat_toString 10 k = map digit_char ds \<and> (\<forall>d \<in> set ds. d < 10) \<and> ds \<noteq> [] \<and> of_digits 10 ds = k"
  using to_digits_less [of _ 10 k]
  by (intro exI [of _ "if k = 0 then [0] else to_digits 10 k"]) (auto simp: nat_toString_alt)

lemma dec_of_vals_digits:
  "\<exists>ds. dec_of_vals vs = map digit_char ds \<and> (\<forall>d \<in> set ds. d < 10)"
proof (induction vs)
  case (Cons v vs)
  then obtain ds where "dec_of_vals vs = map digit_char ds" "\<forall>d \<in> set ds. d < 10" by blast
  moreover obtain es where "nat_toString 10 v = map digit_char es" "\<forall>d \<in> set es. d < 10" using nat_toString_digits by blast
  ultimately show ?case by (intro exI [of _ "es @ ds"]) (auto simp: dec_of_vals_def)
qed (simp add: dec_of_vals_def)

lemma dec_value_append:
  "list_all is_digit10 s \<Longrightarrow> list_all is_digit10 t \<Longrightarrow> dec_value (s @ t) = dec_value s * 10 ^ length t + dec_value t"
proof -
  have *: "list_all is_digit10 s \<Longrightarrow> dec_value s = of_digits 10 (map (\<lambda>c. the (digit_in 10 c)) s)" for s
  proof -
    assume s: "list_all is_digit10 s"
    have "those (map (digit_in 10) s) = Some (map (\<lambda>c. the (digit_in 10 c)) s)"
      using s by (intro those_cong_Some) (auto simp: list_all_iff is_digit10_def)
    then show ?thesis by (simp add: dec_value_def decode_with_def)
  qed
  show "list_all is_digit10 s \<Longrightarrow> list_all is_digit10 t \<Longrightarrow> ?thesis"
    by (simp add: * of_digits_append)
qed

lemma is_digit10_toString: "list_all is_digit10 (nat_toString 10 k)"
  using nat_toString_digits [of k] digit10_char by (auto simp: list_all_iff)

lemma is_digit10_dec_of_vals: "list_all is_digit10 (dec_of_vals vs)"
  using dec_of_vals_digits [of vs] digit10_char by (auto simp: list_all_iff)

lemma length_toString_100: "v < 100 \<Longrightarrow> length (nat_toString 10 v) = (if v < 10 then 1 else 2)"
proof -
  assume "v < 100"
  then have "length (to_digits 10 v) \<le> 2" using length_to_digits_le [of 10 v 2] by simp
  moreover have "length (to_digits 10 v) \<le> 1 \<longleftrightarrow> v < 10" using length_to_digits_le [of 10 v 1] by simp
  moreover have "0 < v \<Longrightarrow> to_digits 10 v \<noteq> []" by simp
  moreover have "length (to_digits 10 v) = 0 \<longleftrightarrow> v = 0" by simp
  ultimately have "0 < v \<Longrightarrow> length (to_digits 10 v) = (if v < 10 then 1 else 2)"
    by (cases "length (to_digits 10 v)") auto
  then show ?thesis by (simp add: nat_toString_alt)
qed

lemma dec_of_vals_value: "\<forall>v \<in> set vs. v < 100 \<Longrightarrow> dec_value (dec_of_vals vs) = iban_num vs"
proof (induction vs rule: rev_induct)
  case Nil
  show ?case by (simp add: dec_of_vals_def dec_value_def decode_with_def)
next
  case (snoc v vs)
  have "dec_of_vals (vs @ [v]) = dec_of_vals vs @ nat_toString 10 v" by (simp add: dec_of_vals_def)
  then show ?case
    using snoc length_toString_100 [of v]
    by (auto simp: dec_value_append is_digit10_dec_of_vals is_digit10_toString dec_value_toString iban_num_append)
qed

lemma dec_of_vals_Nil [simp]: "dec_of_vals vs = [] \<longleftrightarrow> vs = []"
  by (cases vs) (simp_all add: dec_of_vals_def)


lemma no_0x: "list_all is_hex_char s \<Longrightarrow> replace_0x s = s"
  using is_hex_char_not(1) by (induction s rule: replace_0x.induct) auto

lemma checksum_char_hex: "is_hex_char c \<Longrightarrow> checksum_char (to_upper (to_lower c)) = nat_toString 10 (hexval c)"
proof -
  assume c: "is_hex_char c"
  define d where "d = hexval c"
  have d: "d < 16" using hexval_less [OF c] by (simp add: d_def)
  have "to_lower c = digit_char d" using to_lower_hex [OF c] by (simp add: d_def)
  moreover have "digit_char d = char_of (if d < 10 then 48 + d else 87 + d)" using d by (simp add: digit_char_code)
  ultimately show ?thesis
    using d by (cases "d < 10") (simp_all add: to_upper_def checksum_char_def d_def [symmetric] int_toString_def)
qed

definition two_digits :: "int \<Rightarrow> string" where
  "two_digits k = (if k > 9 then int_toString 10 k else ''0'' @ int_toString 10 k)"

lemma checksum_digits:
  assumes "list_all is_hex_char s"
  shows "js_BigInt (concat (map (\<lambda>c. checksum_char (to_upper c)) (map to_lower s @ ''00''))) =
    Some (int (iban_num (map hexval (s @ ''00''))))"
proof -
  define vs where "vs = map hexval (s @ ''00'')"
  have "checksum_char (to_upper (to_lower c)) = nat_toString 10 (hexval c)" if "c \<in> set s" for c
    using that assms by (simp add: list_all_iff checksum_char_hex)
  moreover have "checksum_char (to_upper CHR ''0'') = nat_toString 10 0" by code_simp
  ultimately have "concat (map (\<lambda>c. checksum_char (to_upper c)) (map to_lower s @ ''00'')) = dec_of_vals vs"
    by (simp add: dec_of_vals_def vs_def comp_def cong: map_cong)
  moreover have "\<forall>v \<in> set vs. v < 100"
    using assms hexval_less by (fastforce simp: vs_def list_all_iff)
  ultimately show ?thesis
    using js_BigInt_dec(1) [of "dec_of_vals vs"] is_digit10_dec_of_vals [of vs] dec_of_vals_value [of vs]
    by (simp add: vs_def)
qed

lemma getBytes_0x: "list_all is_hex_char s \<Longrightarrow> even (length s) \<Longrightarrow> getBytes (DStr (''0x'' @ s)) = Inr (parse_pairs s)"
  by (simp add: getBytes_def matches_data_i_def)

lemma calculateCheckSum_hex:
  assumes "list_all is_hex_char v" "even (length v)" "list_all is_hex_char p" "even (length p)"
  shows "calculateCheckSum v p = Inr (two_digits (98 - int (iban_num (map hexval (v @ p @ ''00'')) mod 97)))"
proof -
  have "replace_0x (''0x'' @ hex_of_bytes (parse_pairs v @ parse_pairs p)) = map to_lower (v @ p)"
    using assms by (simp add: hex_of_parse_pairs)
  moreover have "list_all is_hex_char (v @ p)" using assms by simp
  from checksum_digits [OF this] have
    "js_BigInt (concat (map (\<lambda>c. checksum_char (to_upper c)) (map to_lower (v @ p) @ ''00''))) =
     Some (int (iban_num (map hexval (v @ p @ ''00''))))" by simp
  ultimately show ?thesis
    using assms by (simp only: calculateCheckSum_def no_0x getBytes_0x bindE_simps hexlify_bytes Let_def option.simps
        two_digits_def zmod_int of_nat_numeral)
qed


lemma two_digits_chars:
  assumes "2 \<le> k" and "k \<le> 98"
  shows "two_digits (int k) = [digit_char (k div 10), digit_char (k mod 10)]"
proof (cases "k > 9")
  case True
  then have "to_digits 10 k = to_digits 10 (k div 10) @ [k mod 10]" by (simp add: to_digits_pos)
  moreover have "to_digits 10 (k div 10) = [k div 10]" using True assms by (intro to_digits_single) auto
  ultimately show ?thesis using True by (simp add: two_digits_def nat_toString_alt)
next
  case False
  then show ?thesis using assms by (simp add: two_digits_def nat_toString_alt to_digits_single)
qed

lemma digit10_hexval: "is_digit10 c \<Longrightarrow> is_hex_char c \<and> hexval c < 10 \<and> digit_char (hexval c) = c"
proof -
  assume c: "is_digit10 c"
  then have n: "48 \<le> (of_char c :: nat)" "(of_char c :: nat) \<le> 57" by (simp_all add: digit10_code)
  then have "(of_char c :: nat) - 48 < 16" by linarith
  then have v: "hexval c = of_char c - 48" using n by (simp add: hexval_def digit_in_def digit_val_def)
  then have "hexval c < 10" using n by simp
  moreover have "is_hex_char c" using n by (simp add: is_hex_char_cases)
  moreover have "(of_char c :: nat) - 48 < 10" "48 + ((of_char c :: nat) - 48) = of_char c" using n by linarith+
  then have "digit_char (hexval c) = c" unfolding v by (simp add: digit_char_code)
  ultimately show ?thesis by simp
qed

lemma hexval_digit10: "d < 10 \<Longrightarrow> is_digit10 (digit_char d) \<and> hexval (digit_char d) = d"
  by (simp add: digit10_char)

lemma dec_value_two: "is_digit10 c \<Longrightarrow> is_digit10 d \<Longrightarrow> dec_value [c, d] = 10 * hexval c + hexval d"
proof -
  assume cd: "is_digit10 c" "is_digit10 d"
  then have "dec_value (map digit_char [hexval c, hexval d]) = of_digits 10 [hexval c, hexval d]"
    using digit10_hexval by (intro dec_value_map) auto
  then show ?thesis using cd digit10_hexval by (simp add: of_digits_def)
qed

lemma mod_97_unique: "2 \<le> k \<Longrightarrow> k \<le> 98 \<Longrightarrow> k = 98 - m mod 97 \<longleftrightarrow> (m + k) mod 97 = (1 :: nat)"
proof -
  assume k: "2 \<le> k" "k \<le> 98"
  define r where "r = m mod 97"
  have r: "r < 97" "(m + k) mod 97 = (r + k) mod 97" by (simp_all add: r_def mod_add_left_eq)
  have "(r + k) mod 97 = 1 \<longleftrightarrow> r + k = 98"
  proof (cases "r + k < 97")
    case False
    then have "(r + k) mod 97 = (r + k - 97) mod 97" by (simp add: mod_if)
    moreover have "r + k - 97 < 98" using r k by simp
    ultimately show ?thesis using False by (cases "r + k - 97 = 97") auto
  qed (use k r in auto)
  then show ?thesis using r k by (auto simp: r_def [symmetric])
qed

text \<open>The digits as the checksum weighs them: body, network prefix, checksum.\<close>

definition rearranged :: "string \<Rightarrow> string" where
  "rearranged raw = drop 4 raw @ take 2 raw @ take 2 (drop 2 raw)"

definition valid_raw :: "string \<Rightarrow> bool" where
  "valid_raw raw \<longleftrightarrow>
     (let check = take 2 (drop 2 raw)
      in length raw = 44 \<and> list_all is_hex_char raw \<and> list_all is_digit10 check \<and>
         2 \<le> dec_value check \<and> dec_value check \<le> 98 \<and> iban_num (map hexval (rearranged raw)) mod 97 = 1)"

lemma checksum_matches:
  assumes "length check = 2"
  shows "two_digits (98 - int (iban_num (vs @ [0, 0]) mod 97)) = check \<longleftrightarrow>
    list_all is_digit10 check \<and> 2 \<le> dec_value check \<and> dec_value check \<le> 98 \<and>
    iban_num (vs @ map hexval check) mod 97 = 1"
proof -
  obtain c d where cd: "check = [c, d]" using assms by (auto simp: numeral_2_eq_2 length_Suc_conv)
  define m where "m = iban_num vs * 100"
  define k where "k = 98 - m mod 97"
  have "m mod 97 < 97" by simp
  then have k: "2 \<le> k" "k \<le> 98" "98 - int (m mod 97) = int k" unfolding k_def by linarith+
  have m0: "iban_num (vs @ [0, 0]) = m" by (simp add: iban_num_append m_def iban_num_def [of "[0, 0]"] iban_step_def)
  have lhs: "two_digits (98 - int (iban_num (vs @ [0, 0]) mod 97)) = [digit_char (k div 10), digit_char (k mod 10)]"
    unfolding m0 k(3) by (rule two_digits_chars [OF k(1,2)])
  have kd: "k div 10 < 10" using k(2) by simp
  show ?thesis
  proof (cases "is_digit10 c \<and> is_digit10 d")
    case False
    then show ?thesis unfolding lhs cd using hexval_digit10 kd by auto
  next
    case True
    then have hx: "hexval c < 10" "hexval d < 10" and dv: "dec_value [c, d] = 10 * hexval c + hexval d"
      using digit10_hexval dec_value_two by auto
    have num: "iban_num (vs @ map hexval [c, d]) = m + dec_value [c, d]"
      using hx by (simp add: iban_num_append m_def dv iban_num_def [of "[hexval c, hexval d]"] iban_step_def)
    have "[digit_char (k div 10), digit_char (k mod 10)] = [c, d] \<longleftrightarrow> k div 10 = hexval c \<and> k mod 10 = hexval d"
      using True digit10_hexval hexval_digit10 kd by (metis list.inject mod_less_divisor zero_less_numeral)
    also have "\<dots> \<longleftrightarrow> k = 10 * hexval c + hexval d"
    proof
      show "k div 10 = hexval c \<and> k mod 10 = hexval d \<Longrightarrow> k = 10 * hexval c + hexval d"
        using div_mult_mod_eq [of k 10] by linarith
      show "k = 10 * hexval c + hexval d \<Longrightarrow> k div 10 = hexval c \<and> k mod 10 = hexval d"
        using hx by simp
    qed
    also have "\<dots> \<longleftrightarrow> dec_value [c, d] = k" by (auto simp: dv)
    also have "dec_value [c, d] = k \<longleftrightarrow>
        2 \<le> dec_value [c, d] \<and> dec_value [c, d] \<le> 98 \<and> (m + dec_value [c, d]) mod 97 = 1"
      using mod_97_unique [of "dec_value [c, d]" m, folded k_def] k(1,2) by blast
    finally show ?thesis unfolding lhs cd num using True by simp
  qed
qed

lemma matches_address_0x: "matches_address (''0x'' @ raw) \<longleftrightarrow> length raw = 44 \<and> list_all is_hex_char raw"
  by (auto simp: matches_address_def is_hex_char_not)

lemma not_precompiled: "length raw = 44 \<Longrightarrow> raw \<notin> set precompiledAddresses"
  by (auto simp: precompiledAddresses_def)

lemma getAddress_raw:
  assumes "length raw = 44" and "list_all is_hex_char raw" and "address = ''0x'' @ raw \<or> address = raw"
  shows "getAddress address =
    (if valid_raw raw then Inr (''0x'' @ raw) else Inl (CoreError INVALID_ARGUMENT ''bad address checksum''))"
proof -
  define v p c where vpc: "v = drop 4 raw" "p = take 2 raw" "c = take 2 (drop 2 raw)"
  have raw: "raw = p @ c @ v"
  proof -
    have "take 2 raw @ take 2 (drop 2 raw) @ drop 2 (drop 2 raw) = raw" by (simp only: append_take_drop_id)
    then show ?thesis by (simp add: vpc)
  qed
  then have hx: "list_all is_hex_char p" "list_all is_hex_char v" "list_all is_hex_char c" using assms(2) by auto
  have len: "length p = 2" "length c = 2" "length v = 40" using assms(1) by (simp_all add: vpc)
  have sub: "js_substring raw 0 2 = p" "js_substring raw 2 4 = c"
    using js_substring_nat [of 0 2 raw] js_substring_nat [of 2 4 raw] by (simp_all add: vpc)
  have "take 2 raw \<noteq> ''0x''" using hx(1) is_hex_char_not(1) by (auto simp: vpc [symmetric])
  then have rm: "removeHexPrefix address = raw" using assms(3) by (auto simp: removeHexPrefix_def)
  have ma: "matches_address address" using assms by (auto simp: matches_address_0x [simplified] matches_address_def)
  define cs where "cs = two_digits (98 - int (iban_num (map hexval (v @ p) @ [0, 0]) mod 97))"
  have calc: "calculateCheckSum v p = Inr cs"
    using calculateCheckSum_hex [OF hx(2) _ hx(1)] len by (simp add: cs_def)
  have "cs = c \<longleftrightarrow> valid_raw raw"
    using checksum_matches [OF len(2), of "map hexval (v @ p)"] assms(1,2)
    unfolding cs_def valid_raw_def rearranged_def Let_def vpc [symmetric] by simp
  moreover have "p @ c @ v = raw" using raw by simp
  ultimately show ?thesis
    using ma calc rm sub not_precompiled [OF assms(1)]
    by (cases "cs = c") (simp_all add: getAddress_def Let_def vpc(1) [symmetric] logger_init_def)
qed

lemma getAddress_iff:
  "getAddress (''0x'' @ raw) = Inr a \<longleftrightarrow> valid_raw raw \<and> a = ''0x'' @ raw"
proof (cases "length raw = 44 \<and> list_all is_hex_char raw")
  case True
  then show ?thesis using getAddress_raw [of raw "''0x'' @ raw"] by auto
next
  case False
  then have "\<not> matches_address (''0x'' @ raw)" using matches_address_0x by blast
  moreover have "\<not> valid_raw raw" using False by (auto simp: valid_raw_def Let_def)
  ultimately show ?thesis by (simp add: getAddress_def)
qed

lemma matches_address_form:
  assumes "matches_address address"
  obtains raw where "length raw = 44" "list_all is_hex_char raw" "address = ''0x'' @ raw \<or> address = raw"
proof (cases "length address = 44 \<and> list_all is_hex_char address")
  case False
  with assms have m: "take 2 address = ''0x''" "length address = 46" "list_all is_hex_char (drop 2 address)"
    by (simp_all add: matches_address_def)
  then have "address = ''0x'' @ drop 2 address" using append_take_drop_id [of 2 address] by simp
  with m show ?thesis by (intro that [of "drop 2 address"]) simp_all
qed (use that [of address] in simp)

lemma getAddress_inputs:
  "getAddress address = Inr a \<longleftrightarrow> (\<exists>raw. (address = raw \<or> address = ''0x'' @ raw) \<and> valid_raw raw \<and> a = ''0x'' @ raw)"
proof
  assume ok: "getAddress address = Inr a"
  then have m: "matches_address address" by (auto simp: getAddress_def logger_init_def split: if_splits)
  obtain raw where r: "length raw = 44" "list_all is_hex_char raw" "address = ''0x'' @ raw \<or> address = raw"
    using m by (rule matches_address_form)
  from getAddress_raw [OF r] ok r(3) show "\<exists>raw. (address = raw \<or> address = ''0x'' @ raw) \<and> valid_raw raw \<and> a = ''0x'' @ raw"
    by (auto split: if_splits)
next
  assume "\<exists>raw. (address = raw \<or> address = ''0x'' @ raw) \<and> valid_raw raw \<and> a = ''0x'' @ raw"
  then obtain raw where r: "address = ''0x'' @ raw \<or> address = raw" "valid_raw raw" "a = ''0x'' @ raw" by blast
  then have "length raw = 44" "list_all is_hex_char raw" by (simp_all add: valid_raw_def Let_def)
  from getAddress_raw [OF this r(1)] r show "getAddress address = Inr a" by simp
qed

lemma getAddress_total:
  "(\<exists>a. getAddress address = Inr a) \<or>
   getAddress address = Inl (CoreError INVALID_ARGUMENT
     (if matches_address address then ''bad address checksum'' else ''invalid address''))"
proof (cases "matches_address address")
  case True
  obtain raw where "length raw = 44" "list_all is_hex_char raw" "address = ''0x'' @ raw \<or> address = raw"
    using True by (rule matches_address_form)
  from getAddress_raw [OF this] True show ?thesis by auto
qed (simp add: getAddress_def logger_init_def)

text \<open>
  C7. \<open>getAddress\<close> on every string. It accepts exactly 44 hexadecimal digits, with or without
  \<open>0x\<close> in front, whose checksum (the third and fourth digit) is a decimal number from 02 to
  98 that makes the ISO 7064 expansion of body, network prefix and checksum congruent to 1
  modulo 97. It returns the digits unchanged behind \<open>0x\<close>: their case is neither checked nor
  normalised. Everything else is an invalid argument: a bad checksum for 44 digits, an
  invalid address otherwise.
\<close>

theorem getAddress_accepts:
  "(getAddress address = Inr a \<longleftrightarrow>
      (\<exists>raw. (address = raw \<or> address = ''0x'' @ raw) \<and> valid_raw raw \<and> a = ''0x'' @ raw)) \<and>
   ((\<exists>b. getAddress address = Inr b) \<or>
    getAddress address = Inl (CoreError INVALID_ARGUMENT
      (if matches_address address then ''bad address checksum'' else ''invalid address'')))"
  using getAddress_inputs getAddress_total by blast


section \<open>Valid addresses up to case\<close>

lemma digit_is_lower: "is_digit10 c \<Longrightarrow> to_lower c = c"
  using digit10_hexval [of c] to_lower_hex [of c] by simp

lemma valid_raw_lower: "valid_raw raw \<Longrightarrow> valid_raw (map to_lower raw)"
proof -
  assume v: "valid_raw raw"
  define check where "check = take 2 (drop 2 raw)"
  have hx: "list_all is_hex_char raw" and dc: "list_all is_digit10 check"
    using v by (simp_all add: valid_raw_def Let_def check_def)
  have low: "is_hex_char c \<Longrightarrow> is_hex_char (to_lower c) \<and> hexval (to_lower c) = hexval c" for c
    using hexval_less [of c] by (simp add: to_lower_hex)
  have "map to_lower check = check" using dc digit_is_lower by (intro map_idI) (auto simp: list_all_iff)
  moreover have "iban_num (map hexval (rearranged (map to_lower raw))) = iban_num (map hexval (rearranged raw))"
  proof -
    have "map hexval (map to_lower (rearranged raw)) = map hexval (rearranged raw)"
      using hx low by (auto simp: rearranged_def list_all_iff dest: in_set_takeD in_set_dropD)
    then show ?thesis by (simp only: rearranged_def drop_map take_map map_append)
  qed
  moreover have "list_all is_hex_char (map to_lower raw)" using hx low by (auto simp: list_all_iff)
  ultimately show ?thesis
    using v by (simp add: valid_raw_def Let_def check_def drop_map take_map)
qed

lemma getAddress_valid:
  assumes "getAddress s = Inr a"
  obtains raw where "valid_raw raw" "a = ''0x'' @ raw"
  using assms getAddress_inputs by blast


section \<open>What the checksum detects\<close>

definition same_class :: "char \<Rightarrow> char \<Rightarrow> bool" where
  "same_class c d \<longleftrightarrow> (is_digit10 c \<longleftrightarrow> is_digit10 d)"

lemma hexval_letter: "is_hex_char c \<Longrightarrow> \<not> is_digit10 c \<Longrightarrow> 10 \<le> hexval c"
  by (auto simp: is_hex_char_def is_digit10_def hexval_def digit_in_def split: option.splits if_splits)

lemma iban_one_digit:
  assumes "iban_num (xs @ a # ys) mod 97 = iban_num (xs @ b # ys) mod 97"
    and "a < 16" "b < 16" "a < 10 \<longleftrightarrow> b < 10"
  shows "a = b"
proof -
  define w where "w = iban_weight ys"
  have *: "iban_num (xs @ v # ys) = (iban_num xs * (if v < 10 then 10 else 100) + v) * w + iban_num ys" for v
    using iban_num_append [of "xs @ [v]" ys] iban_num_append [of xs "[v]"] by (simp add: w_def)
  define A B where "A = iban_num (xs @ a # ys)" and "B = iban_num (xs @ b # ys)"
  have "int A mod 97 = int B mod 97" using assms(1) unfolding A_def B_def by (metis of_nat_mod of_nat_numeral)
  then have "97 dvd int A - int B" by (simp add: mod_eq_dvd_iff)
  also have "int A - int B = (int a - int b) * int w"
    using assms(4) unfolding A_def B_def * by (simp add: algebra_simps)
  finally have "97 dvd (int a - int b) * int w" .
  moreover have "coprime 97 (int w)" using coprime_iban_weight [of ys] by (simp add: w_def flip: coprime_int_iff)
  ultimately have "97 dvd int a - int b" by (simp add: coprime_dvd_mult_left_iff)
  moreover have "\<bar>int a - int b\<bar> < 97" using assms(2,3) by linarith
  ultimately show ?thesis using dvd_imp_le_int [of "int a - int b" 97] by auto
qed

lemma rearranged_update:
  assumes "length raw = 44" and "i < 44"
  shows "rearranged (raw[i := c]) = (rearranged raw)[(if i < 4 then i + 40 else i - 4) := c]"
proof (rule nth_equalityI)
  have ix: "rearranged s ! j = (if j < 40 then s ! (j + 4) else s ! (j - 40))" if "length s = 44" "j < 44" for s j
  proof -
    have "42 \<le> j \<Longrightarrow> Suc (Suc (j - 42)) = j - 40" by linarith
    then show ?thesis using that by (auto simp: rearranged_def nth_append min_def add.commute)
  qed
  fix j assume "j < length (rearranged (raw[i := c]))"
  then have j: "j < 44" using assms by (simp add: rearranged_def)
  have l: "length (rearranged raw) = 44" using assms by (simp add: rearranged_def)
  show "rearranged (raw[i := c]) ! j = (rearranged raw)[(if i < 4 then i + 40 else i - 4) := c] ! j"
    using assms j l by (auto simp: ix nth_list_update)
qed (simp add: rearranged_def)

lemma single_error_raw:
  assumes "getAddress (''0x'' @ raw) = Inr a" and "getAddress (''0x'' @ raw[i := c]) = Inr b"
    and "i < length raw" and "same_class (raw ! i) c"
  shows "to_lower (raw ! i) = to_lower c"
proof -
  define j where "j = (if i < 4 then i + 40 else i - 4 :: nat)"
  have v: "valid_raw raw" "valid_raw (raw[i := c])" using assms(1,2) unfolding getAddress_iff by blast+
  then have len: "length raw = 44" and hx: "list_all is_hex_char raw" "list_all is_hex_char (raw[i := c])"
    by (simp_all add: valid_raw_def Let_def)
  have i: "i < 44" using assms(3) len by simp
  have hc: "is_hex_char (raw ! i)" "is_hex_char c"
    using hx assms(3) by (auto simp: list_all_length)
  define vs where "vs = map hexval (rearranged raw)"
  have j: "j < length vs" "vs ! j = hexval (raw ! i)"
  proof -
    have "2 \<le> i \<Longrightarrow> Suc (Suc (i - 2)) = i" by linarith
    then show "j < length vs" "vs ! j = hexval (raw ! i)"
      using len i by (auto simp: vs_def j_def rearranged_def nth_append min_def)
  qed
  have "map hexval (rearranged (raw[i := c])) = vs[j := hexval c]"
    by (simp add: rearranged_update [OF len i] j_def [symmetric] vs_def map_update)
  then have "iban_num vs mod 97 = iban_num (vs[j := hexval c]) mod 97"
    using v by (simp add: valid_raw_def Let_def vs_def)
  moreover have "vs = take j vs @ hexval (raw ! i) # drop (Suc j) vs"
    using j by (metis id_take_nth_drop)
  ultimately have eq: "iban_num (take j vs @ hexval (raw ! i) # drop (Suc j) vs) mod 97 =
      iban_num (take j vs @ hexval c # drop (Suc j) vs) mod 97"
    using j(1) by (simp add: upd_conv_take_nth_drop)
  have cls: "hexval d < 10 \<longleftrightarrow> is_digit10 d" if "is_hex_char d" for d
    using hexval_letter [OF that] digit10_hexval [of d] by (cases "is_digit10 d") auto
  have "hexval (raw ! i) < 10 \<longleftrightarrow> hexval c < 10"
    using assms(4) cls [OF hc(1)] cls [OF hc(2)] by (simp add: same_class_def)
  from iban_one_digit [OF eq hexval_less [OF hc(1)] hexval_less [OF hc(2)] this]
  have "hexval (raw ! i) = hexval c" .
  then show ?thesis using hc by (simp add: to_lower_hex)
qed


text \<open>
  C8. The checksum detects every single mistyped character of the same kind. If an accepted
  address is changed in one place, a decimal digit there to another one or a character that
  is no digit to another one that is more than its upper or lower case form, the result is
  refused as an invalid argument. (A letter for a digit shifts the weights of what stands
  before it, so it is not covered.)
\<close>

theorem single_error_detected:
  assumes "getAddress s = Inr a" and "i < length s" and "same_class (s ! i) c" and "to_lower (s ! i) \<noteq> to_lower c"
  shows "\<exists>m. getAddress (s[i := c]) = Inl (CoreError INVALID_ARGUMENT m)"
proof (rule ccontr)
  assume "\<nexists>m. getAddress (s[i := c]) = Inl (CoreError INVALID_ARGUMENT m)"
  then obtain b where b: "getAddress (s[i := c]) = Inr b" using getAddress_total [of "s[i := c]"] by blast
  obtain raw where raw: "s = raw \<or> s = ''0x'' @ raw" "valid_raw raw" using assms(1) unfolding getAddress_inputs by blast
  obtain raw' where raw': "s[i := c] = raw' \<or> s[i := c] = ''0x'' @ raw'" "valid_raw raw'"
    using b unfolding getAddress_inputs by blast
  have len: "length raw = 44" "length raw' = 44" using raw(2) raw'(2) by (simp_all add: valid_raw_def Let_def)
  obtain j where j: "j < length raw" "raw ! j = s ! i" "raw' = raw[j := c]"
  proof (cases "s = raw")
    case True
    have "length (s[i := c]) \<noteq> length (''0x'' @ raw')" using True len by simp
    then have "s[i := c] \<noteq> ''0x'' @ raw'" by metis
    then have "raw' = raw[i := c]" using raw'(1) True by simp
    then show ?thesis using that [of i] True assms(2) by simp
  next
    case False
    then have s: "s = ''0x'' @ raw" using raw(1) by blast
    have "length (s[i := c]) \<noteq> length raw'" unfolding length_list_update using s len by simp
    then have "s[i := c] \<noteq> raw'" by metis
    then have t: "(''0x'' @ raw)[i := c] = ''0x'' @ raw'" using raw'(1) s by simp
    have "\<not> i < 2"
    proof
      assume i: "i < 2"
      have "c = s[i := c] ! i" using nth_list_update_eq [OF assms(2)] by (rule sym)
      also have "\<dots> = (''0x'' @ raw') ! i" unfolding s t ..
      also have "\<dots> = s ! i" using i by (auto simp: s less_2_cases_iff)
      finally show False using assms(4) by simp
    qed
    then obtain k where k: "i = Suc (Suc k)" by (metis add_2_eq_Suc le_Suc_ex not_less)
    then show ?thesis using that [of k] t assms(2) by (simp add: s)
  qed
  have "getAddress (''0x'' @ raw) = Inr (''0x'' @ raw)" "getAddress (''0x'' @ raw[j := c]) = Inr (''0x'' @ raw')"
    using raw(2) raw'(2) j(3) by (auto simp: getAddress_iff [unfolded append.simps])
  from single_error_raw [OF this j(1)] assms(3,4) j(2) show False by simp
qed

lemma single_error_detected_witness:
  "\<exists>m. getAddress ''ab43f5e89ba978317da861b7ad06ba3103d41c876098'' = Inl (CoreError INVALID_ARGUMENT m)"
proof -
  have "valid_raw ''ab41f5e89ba978317da861b7ad06ba3103d41c876098''"
    by (simp add: valid_raw_def rearranged_def is_hex_char_def digit10_code dec_value_two hexval_def digit_in_def
        digit_val_def iban_num_def iban_step_def)
  then have "getAddress ''ab41f5e89ba978317da861b7ad06ba3103d41c876098'' = Inr ''0xab41f5e89ba978317da861b7ad06ba3103d41c876098''"
    unfolding getAddress_inputs by simp
  from single_error_detected [OF this, of 3 "CHR ''3''"] show ?thesis
    by (simp add: same_class_def digit10_code to_lower_def)
qed

text \<open>
  The precompiled contracts cannot be addressed: the list \<open>getAddress\<close> exempts
  from the checksum holds 64-digit strings, which the pattern before it never
  lets through, and every 44-digit address with a value below ten is rejected
  (the zero address among them, and the 40-digit default of the address coder).
\<close>

theorem precompiled_rejected:
  "(raw \<in> set precompiledAddresses \<longrightarrow>
      getAddress (''0x'' @ raw) = Inl (CoreError INVALID_ARGUMENT ''invalid address'')) \<and>
   getAddress (''0x'' @ replicate 43 CHR ''0'' @ [digit_char (k mod 10)]) =
      Inl (CoreError INVALID_ARGUMENT ''bad address checksum'') \<and>
   getAddress (''0x'' @ replicate 40 CHR ''0'') = Inl (CoreError INVALID_ARGUMENT ''invalid address'')"
proof (intro conjI impI)
  assume "raw \<in> set precompiledAddresses"
  then have "length raw = 64" by (auto simp: precompiledAddresses_def)
  then have "\<not> matches_address (''0x'' @ raw)" by (simp only: matches_address_0x) simp
  then show "getAddress (''0x'' @ raw) = Inl (CoreError INVALID_ARGUMENT ''invalid address'')"
    by (simp add: getAddress_def logger_init_def)
next
  define raw where "raw = replicate 43 CHR ''0'' @ [digit_char (k mod 10)]"
  have "length raw = 44" "list_all is_hex_char raw" by (simp_all add: raw_def list_all_iff)
  moreover have "\<not> valid_raw raw"
  proof -
    have "take 2 (drop 2 raw) = replicate 2 CHR ''0''" by (simp add: raw_def)
    then have "take 2 (drop 2 raw) = ''00''" by (simp add: numeral_2_eq_2)
    moreover have "dec_value ''00'' = 0" by code_simp
    ultimately show ?thesis by (simp add: valid_raw_def)
  qed
  ultimately show "getAddress (''0x'' @ replicate 43 CHR ''0'' @ [digit_char (k mod 10)]) =
      Inl (CoreError INVALID_ARGUMENT ''bad address checksum'')"
    using getAddress_raw [of raw "''0x'' @ raw"] by (simp add: raw_def)
next
  have "\<not> matches_address (''0x'' @ replicate 40 CHR ''0'')" by (simp only: matches_address_0x) simp
  then show "getAddress (''0x'' @ replicate 40 CHR ''0'') = Inl (CoreError INVALID_ARGUMENT ''invalid address'')"
    by (simp add: getAddress_def logger_init_def)
qed

lemma precompiled_rejected_witness:
  "getAddress (''0x'' @ replicate 63 CHR ''0'' @ ''1'') = Inl (CoreError INVALID_ARGUMENT ''invalid address'')"
  using precompiled_rejected [of "replicate 63 CHR ''0'' @ ''1''" 1] by (auto simp: precompiledAddresses_def)

lemma address_of_hash_eq:
  assumes "length hb = 32" and "list_all is_hex_char pre" and "length pre = 2"
  defines "v \<equiv> hex_of_bytes (drop 12 hb)"
  shows "address_of_hash (''0x'' @ hex_of_bytes hb) pre =
     Inr (''0x'' @ pre @ two_digits (98 - int (iban_num (map hexval (v @ pre @ ''00'')) mod 97)) @ v)"
proof -
  have "hex_of_bytes hb = hex_of_bytes (take 12 hb) @ v"
    unfolding v_def by (metis append_take_drop_id hex_of_bytes_simps(3))
  moreover have "js_substring (''0x'' @ hex_of_bytes hb) 26 66 = take 40 (drop 26 (''0x'' @ hex_of_bytes hb))"
    using js_substring_nat [of 26 66 "''0x'' @ hex_of_bytes hb"] by simp
  moreover have "length v = 40" using assms(1) by (simp add: v_def)
  ultimately have "hexDataSlice (DStr (''0x'' @ hex_of_bytes hb)) 12 None = Inr (''0x'' @ v)"
    using assms(1) matches_hex_bytes [of hb] by (simp add: hexDataSlice_def Let_def)
  moreover have "calculateCheckSum (''0x'' @ v) pre = calculateCheckSum v pre"
    using no_0x [of v] by (simp add: calculateCheckSum_def v_def)
  moreover have "removeHexPrefix (''0x'' @ v) = v" by (simp add: removeHexPrefix_def)
  ultimately show ?thesis
    using calculateCheckSum_hex [of v pre] assms(2,3) \<open>length v = 40\<close> by (simp add: address_of_hash_def v_def)
qed

text \<open>
  A derived address is a valid one: whatever key, network prefix of two
  hexadecimal digits and 32-byte hash function, \<open>publicToAddress\<close> returns
  \<open>0x\<close>, the prefix, a checksum and the last twenty bytes of the hash, and
  \<open>getAddress\<close> accepts it.
\<close>

theorem publicToAddress_valid:
  assumes "getBytes key = Inr kb" and "\<And>bs. length (H bs) = 32"
    and "length pre = 2" and "list_all is_hex_char pre"
  shows "\<exists>check. publicToAddress H key pre = Inr (''0x'' @ pre @ check @ hex_of_bytes (drop 12 (H kb))) \<and>
    length check = 2 \<and>
    getAddress (''0x'' @ pre @ check @ hex_of_bytes (drop 12 (H kb))) =
      Inr (''0x'' @ pre @ check @ hex_of_bytes (drop 12 (H kb)))"
proof -
  define v where "v = hex_of_bytes (drop 12 (H kb))"
  define check where "check = two_digits (98 - int (iban_num (map hexval (v @ pre @ ''00'')) mod 97))"
  have v: "length v = 40" "list_all is_hex_char v" using assms(2) by (simp_all add: v_def)
  define m where "m = iban_num (map hexval (v @ pre @ ''00'')) mod 97"
  have "m < 97" by (simp add: m_def)
  then have k: "2 \<le> 98 - m" "98 - m \<le> 98" "98 - int m = int (98 - m)" by linarith+
  then have c2: "length check = 2"
    unfolding check_def m_def [symmetric] k(3) two_digits_chars [OF k(1,2)] by simp
  have pub: "publicToAddress H key pre = Inr (''0x'' @ pre @ check @ v)"
    using address_of_hash_eq [OF assms(2,4,3), of kb] assms(1)
    by (simp add: publicToAddress_def sha256_def check_def v_def)
  have cm: "list_all is_digit10 check \<and> 2 \<le> dec_value check \<and> dec_value check \<le> 98 \<and>
      iban_num (map hexval (v @ pre) @ map hexval check) mod 97 = 1"
    using checksum_matches [OF c2, of "map hexval (v @ pre)"] by (simp add: check_def)
  then have "list_all is_hex_char check" using digit10_hexval by (auto simp: list_all_iff)
  then have "valid_raw (pre @ check @ v)"
    using cm v assms(3,4) c2 by (simp add: valid_raw_def rearranged_def Let_def)
  then have "getAddress (''0x'' @ pre @ check @ v) = Inr (''0x'' @ pre @ check @ v)"
    unfolding getAddress_iff by simp
  with pub c2 show ?thesis unfolding v_def by blast
qed

lemma publicToAddress_valid_witness:
  "\<exists>check. publicToAddress (\<lambda>_. replicate 32 7) (DStr ''0x'') ''cb'' =
     Inr (''0xcb'' @ check @ hex_of_bytes (replicate 20 7)) \<and> length check = 2"
proof -
  have "getBytes (DStr ''0x'') = Inr []" by (simp add: getBytes_def matches_data_i_def)
  from publicToAddress_valid [OF this, of "\<lambda>_. replicate 32 7" "''cb''"] show ?thesis
    by (auto simp: is_hex_char_cases)
qed


section \<open>ICAP strings\<close>

lemma is_digit10_append [simp]: "list_all is_digit10 (s @ t) \<longleftrightarrow> list_all is_digit10 s \<and> list_all is_digit10 t"
  by simp

lemma iban_reduce_mod:
  "list_all is_digit10 s \<Longrightarrow> list_all is_digit10 (iban_reduce s) \<and> dec_value (iban_reduce s) mod 97 = dec_value s mod 97"
proof (induction s rule: iban_reduce.induct)
  case (1 s)
  show ?case
  proof (cases "safeDigits \<le> length s")
    case False
    then show ?thesis using "1.prems" by (simp add: iban_reduce.simps [of s])
  next
    case True
    define h t where "h = take safeDigits s" and "t = drop safeDigits s"
    have d: "list_all is_digit10 h" "list_all is_digit10 t"
      using "1.prems" unfolding h_def t_def by (metis append_take_drop_id list_all_append)+
    have "dec_value (nat_toString 10 (dec_value h mod 97) @ t) mod 97 = dec_value (h @ t) mod 97"
      using d mod_add_left_eq [of "dec_value h mod 97 * 10 ^ length t" 97 "dec_value t"]
        mod_add_left_eq [of "dec_value h * 10 ^ length t" 97 "dec_value t"]
      by (simp add: dec_value_append is_digit10_toString dec_value_toString mod_mult_left_eq)
    moreover have "h @ t = s" by (simp add: h_def t_def)
    ultimately show ?thesis
      using "1.IH" [OF True] True d by (simp add: iban_reduce.simps [of s] h_def [symmetric] t_def [symmetric] is_digit10_toString)
  qed
qed

definition digit36 :: "nat \<Rightarrow> char" where
  "digit36 d = to_upper (digit_char d)"

lemma ibanLookup_digit36: "d < 36 \<Longrightarrow> ibanLookup (to_upper (digit36 d)) = nat_toString 10 d"
  by (cases "d < 10") (simp_all add: digit36_def digit_char_code to_upper_def ibanLookup_def)

lemma ibanChecksum_digits:
  assumes "\<forall>d \<in> set ds. d < 36"
  shows "ibanChecksum (''XE00'' @ map digit36 ds) =
    two_digits (98 - int (iban_num (ds @ [33, 14] @ [0, 0]) mod 97))"
proof -
  define vs where "vs = ds @ [33, 14, 0, 0]"
  have "map ibanLookup (map to_upper (map digit36 ds)) = map (nat_toString 10) ds"
    using assms by (simp add: ibanLookup_digit36)
  moreover have "map (\<lambda>c. ibanLookup (to_upper c)) ''XE'' @ map ibanLookup ''00'' = map (nat_toString 10) [33, 14, 0, 0]"
    by (simp add: to_upper_def ibanLookup_def)
  ultimately have "concat (map ibanLookup (drop 4 (map to_upper (''XE00'' @ map digit36 ds)) @
      take 2 (map to_upper (''XE00'' @ map digit36 ds)) @ ''00'')) = dec_of_vals vs"
    by (simp add: dec_of_vals_def vs_def comp_def cong: map_cong)
  moreover have "\<forall>v \<in> set vs. v < 100" using assms by (auto simp: vs_def)
  then have "dec_value (dec_of_vals vs) = iban_num vs" by (rule dec_of_vals_value)
  moreover define m where "m = iban_num vs mod 97"
  ultimately have eq: "ibanChecksum (''XE00'' @ map digit36 ds) = pad_0 2 (int_toString 10 (98 - int m))"
    using iban_reduce_mod [OF is_digit10_dec_of_vals, of vs] unfolding ibanChecksum_def Let_def by simp
  have "m < 97" by (simp add: m_def)
  moreover define n where "n = 98 - m"
  ultimately have k: "98 - int m = int n" "0 < n" "n < 100" unfolding n_def by linarith+
  have "length (nat_toString 10 n) = (if n < 10 then 1 else 2)" by (rule length_toString_100 [OF k(3)])
  then have "pad_0 2 (int_toString 10 (98 - int m)) = two_digits (98 - int m)"
    unfolding k(1) by (simp add: pad_0_def two_digits_def)
  then show ?thesis unfolding eq by (simp add: m_def vs_def)
qed

text \<open>
  The ICAP form of an accepted address is a valid IBAN of it: \<open>XE\<close>, two check
  digits and at least thirty base-36 digits that spell the address as a number,
  with the rearranged expansion congruent to 1 modulo 97; the block-wise
  reduction in chunks of fifteen digits computes that remainder.
\<close>

theorem getIcapAddress_valid:
  assumes "getAddress (''0x'' @ raw) = Inr a"
  shows "\<exists>check ds. getIcapAddress (''0x'' @ raw) = Inr (''XE'' @ check @ map digit36 ds) \<and>
    length check = 2 \<and> list_all is_digit10 check \<and> 30 \<le> length ds \<and> (\<forall>d \<in> set ds. d < 36) \<and>
    of_digits 36 ds = hex_nat raw \<and> iban_num (ds @ [33, 14] @ map hexval check) mod 97 = 1"
proof -
  have v: "valid_raw raw" and a: "a = ''0x'' @ raw" using assms unfolding getAddress_iff by blast+
  then have raw: "list_all is_hex_char raw" "raw \<noteq> []" by (auto simp: valid_raw_def Let_def)
  define es where "es = (if hex_nat raw = 0 then [0] else to_digits 36 (hex_nat raw))"
  define ds where "ds = replicate (30 - length es) 0 @ es"
  have ds: "\<forall>d \<in> set ds. d < 36" "30 \<le> length ds" "of_digits 36 ds = hex_nat raw"
    using to_digits_less [of _ 36] by (auto simp: ds_def es_def)
  have base36: "pad_0 30 (map to_upper (int_toString 36 (int (hex_nat raw)))) = map digit36 ds"
    by (simp add: pad_0_def nat_toString_alt es_def [symmetric] ds_def digit36_def comp_def to_upper_def)
  define m where "m = iban_num (ds @ [33, 14] @ [0, 0]) mod 97"
  define check where "check = two_digits (98 - int m)"
  have "m < 97" by (simp add: m_def)
  then have k: "2 \<le> 98 - m" "98 - m \<le> 98" "98 - int m = int (98 - m)" by linarith+
  have c2: "length check = 2" unfolding check_def k(3) two_digits_chars [OF k(1,2)] by simp
  have "getIcapAddress (''0x'' @ raw) = Inr (''XE'' @ check @ map digit36 ds)"
    using assms a js_BigInt_hex [OF raw] base36 ibanChecksum_digits [OF ds(1)]
    by (simp add: getIcapAddress_def hex_nat_def check_def m_def Let_def)
  moreover have "list_all is_digit10 check \<and> iban_num (ds @ [33, 14] @ map hexval check) mod 97 = 1"
    using checksum_matches [OF c2, of "ds @ [33, 14]"] by (simp add: check_def m_def)
  ultimately show ?thesis using c2 ds by blast
qed

lemma getIcapAddress_valid_witness:
  "\<exists>check ds. getIcapAddress ''0xab41f5e89ba978317da861b7ad06ba3103d41c876098'' = Inr (''XE'' @ check @ map digit36 ds) \<and>
     length check = 2 \<and> iban_num (ds @ [33, 14] @ map hexval check) mod 97 = 1"
proof -
  have "valid_raw ''ab41f5e89ba978317da861b7ad06ba3103d41c876098''"
    by (simp_all add: valid_raw_def rearranged_def is_hex_char_def digit10_code dec_value_two hexval_def digit_in_def
        digit_val_def iban_num_def iban_step_def)
  then have "getAddress (''0x'' @ ''ab41f5e89ba978317da861b7ad06ba3103d41c876098'') =
      Inr ''0xab41f5e89ba978317da861b7ad06ba3103d41c876098''"
    unfolding getAddress_iff by simp
  from getIcapAddress_valid [OF this] show ?thesis by auto
qed

end
