(* ===== verification/Utf8.thy ===== *)
theory Utf8
  imports Hex_Data
begin

text \<open>
  \<open>src.ts/utils/utf8.ts\<close>. A JavaScript string is here its list of 16-bit code units,
  a code point a number. The decoder is the source's loop over the bytes, one
  \<open>utf8_step\<close> per iteration, with the error callback as a parameter that may append
  code points and says how many further bytes to skip; the three built-in
  callbacks are \<open>errorFunc\<close>, \<open>ignoreFunc\<close> and \<open>replaceFunc\<close>. Unicode normalisation
  (\<open>String.prototype.normalize\<close>) is a parameter.
\<close>

type_synonym js_units = "nat list"

datatype utf8_reason =
    UNEXPECTED_CONTINUE | BAD_PREFIX | OVERRUN | MISSING_CONTINUE | OUT_OF_RANGE
  | UTF16_SURROGATE | OVERLONG

type_synonym utf8_error_func =
  "utf8_reason \<Rightarrow> nat \<Rightarrow> byte list \<Rightarrow> nat list \<Rightarrow> nat option \<Rightarrow> (nat \<times> nat list) result"

section \<open>Error callbacks\<close>

definition errorFunc :: utf8_error_func where
  "errorFunc reason offset bytes output badCodepoint =
     Inl (CoreError INVALID_ARGUMENT ''invalid codepoint'')"

definition is_continuation :: "byte \<Rightarrow> bool" where
  "is_continuation b \<longleftrightarrow> drop_bit 6 (unat b) = 0x02"

definition ignoreFunc :: utf8_error_func where
  "ignoreFunc reason offset bytes output badCodepoint =
     (if reason = BAD_PREFIX \<or> reason = UNEXPECTED_CONTINUE
      then Inr (length (takeWhile is_continuation (drop (offset + 1) bytes)), output)
      else if reason = OVERRUN then Inr (length bytes - offset - 1, output)
      else Inr (0, output))"

definition replaceFunc :: utf8_error_func where
  "replaceFunc reason offset bytes output badCodepoint =
     (if reason = OVERLONG
      then (case badCodepoint of
              Some cp \<Rightarrow> Inr (0, output @ [cp])
            | None \<Rightarrow> Inl (CoreError INVALID_ARGUMENT ''invalid bad code point for replacement''))
      else ignoreFunc reason offset bytes (output @ [0xfffd]) badCodepoint)"

section \<open>Decoding\<close>

text \<open>The number of continuation bytes and the largest overlong value, from the first byte.\<close>

definition utf8_lead :: "nat \<Rightarrow> (nat \<times> nat) option" where
  "utf8_lead c =
     (if c AND 0xe0 = 0xc0 then Some (1, 0x7f)
      else if c AND 0xf0 = 0xe0 then Some (2, 0x7ff)
      else if c AND 0xf8 = 0xf0 then Some (3, 0xffff)
      else None)"

text \<open>The inner loop: where it stops, and the value unless a continuation byte is missing.\<close>

fun utf8_continue :: "byte list \<Rightarrow> nat \<Rightarrow> nat \<Rightarrow> nat \<Rightarrow> nat \<times> nat option" where
  "utf8_continue bytes i 0 res = (i, Some res)"
| "utf8_continue bytes i (Suc j) res =
     (let nextChar = unat (bytes ! i)
      in if nextChar AND 0xc0 \<noteq> 0x80 then (i, None)
         else utf8_continue bytes (Suc i) j (push_bit 6 res OR (nextChar AND 0x3f)))"

text \<open>
  One iteration at offset \<open>i\<close>: how far \<open>i\<close> moves beyond the first byte, and the
  output. \<open>report\<close> is a call of the callback.
\<close>

definition utf8_step :: "utf8_error_func \<Rightarrow> byte list \<Rightarrow> nat \<Rightarrow> nat list \<Rightarrow> (nat \<times> nat list) result" where
  "utf8_step onError bytes i result =
     (let c = unat (bytes ! i);
          report = (\<lambda>reason offset moved bad.
            bindE (onError reason offset bytes result bad) (\<lambda>(skip, out). Inr (moved + skip, out)))
      in if drop_bit 7 c = 0 then Inr (0, result @ [c])
         else case utf8_lead c of
           None \<Rightarrow> report (if c AND 0xc0 = 0x80 then UNEXPECTED_CONTINUE else BAD_PREFIX) i 0 None
         | Some (extraLength, overlongMask) \<Rightarrow>
             if i + extraLength \<ge> length bytes then report OVERRUN i 0 None
             else case utf8_continue bytes (Suc i) extraLength
                         (c AND (push_bit (8 - extraLength - 1) 1 - 1)) of
                 (i2, None) \<Rightarrow> report MISSING_CONTINUE i2 (i2 - Suc i) None
               | (i2, Some res) \<Rightarrow>
                   if res > 0x10ffff then report OUT_OF_RANGE (i2 - 1 - extraLength) extraLength (Some res)
                   else if res \<ge> 0xd800 \<and> res \<le> 0xdfff
                   then report UTF16_SURROGATE (i2 - 1 - extraLength) extraLength (Some res)
                   else if res \<le> overlongMask
                   then report OVERLONG (i2 - 1 - extraLength) extraLength (Some res)
                   else Inr (extraLength, result @ [res]))"

function utf8_loop :: "utf8_error_func \<Rightarrow> byte list \<Rightarrow> nat \<Rightarrow> nat list \<Rightarrow> nat list result" where
  "utf8_loop onError bytes i result =
     (if i < length bytes
      then bindE (utf8_step onError bytes i result) (\<lambda>(adv, out). utf8_loop onError bytes (Suc (i + adv)) out)
      else Inr result)"
  by pat_completeness auto
termination
  by (relation "measure (\<lambda>(_, bytes, i, _). length bytes - i)") auto

declare utf8_loop.simps [simp del]

definition getUtf8CodePoints :: "js_data \<Rightarrow> utf8_error_func option \<Rightarrow> nat list result" where
  "getUtf8CodePoints d onError =
     bindE (getBytes d) (\<lambda>bytes.
       utf8_loop (case onError of None \<Rightarrow> errorFunc | Some f \<Rightarrow> f) bytes 0 [])"

section \<open>Encoding\<close>

datatype norm_form = NFC | NFD | NFKC | NFKD

definition assertNormalize :: "norm_form list \<Rightarrow> norm_form \<Rightarrow> unit result" where
  "assertNormalize supported form =
     assert (form \<in> set supported) ''platform missing String.prototype.normalize'' UNSUPPORTED_OPERATION"

fun utf8_bytes_loop :: "js_units \<Rightarrow> nat list \<Rightarrow> nat list result" where
  "utf8_bytes_loop [] result = Inr result"
| "utf8_bytes_loop (c # r) result =
     (if c < 0x80 then utf8_bytes_loop r (result @ [c])
      else if c < 0x800
      then utf8_bytes_loop r (result @ [drop_bit 6 c OR 0xc0, (c AND 0x3f) OR 0x80])
      else if c AND 0xfc00 = 0xd800
      then (case r of
              [] \<Rightarrow> Inl (CoreError INVALID_ARGUMENT ''invalid surrogate pair'')
            | c2 # r' \<Rightarrow>
                if c2 AND 0xfc00 = 0xdc00
                then let pair = 0x10000 + push_bit 10 (c AND 0x03ff) + (c2 AND 0x03ff)
                     in utf8_bytes_loop r' (result @
                          [drop_bit 18 pair OR 0xf0, (drop_bit 12 pair AND 0x3f) OR 0x80,
                           (drop_bit 6 pair AND 0x3f) OR 0x80, (pair AND 0x3f) OR 0x80])
                else Inl (CoreError INVALID_ARGUMENT ''invalid surrogate pair''))
      else utf8_bytes_loop r (result @
             [drop_bit 12 c OR 0xe0, (drop_bit 6 c AND 0x3f) OR 0x80, (c AND 0x3f) OR 0x80]))"

definition toUtf8Bytes ::
    "norm_form list \<Rightarrow> (norm_form \<Rightarrow> js_units \<Rightarrow> js_units) \<Rightarrow> js_units \<Rightarrow> norm_form option \<Rightarrow> byte list result" where
  "toUtf8Bytes supported nfun str form =
     bindE (case form of
              None \<Rightarrow> Inr str
            | Some f \<Rightarrow> bindE (assertNormalize supported f) (\<lambda>_. Inr (nfun f str))) (\<lambda>s.
     bindE (utf8_bytes_loop s []) (\<lambda>ns. Inr (map of_nat ns)))"

definition units_of_code_point :: "nat \<Rightarrow> js_units" where
  "units_of_code_point codePoint =
     (if codePoint \<le> 0xffff then [codePoint]
      else let cp = codePoint - 0x10000
           in [(drop_bit 10 cp AND 0x3ff) + 0xd800, (cp AND 0x3ff) + 0xdc00])"

definition toUtf8String_points :: "nat list \<Rightarrow> js_units" where
  "toUtf8String_points codePoints = concat (map units_of_code_point codePoints)"

definition toUtf8String :: "js_data \<Rightarrow> utf8_error_func option \<Rightarrow> js_units result" where
  "toUtf8String d onError = bindE (getUtf8CodePoints d onError) (\<lambda>cps. Inr (toUtf8String_points cps))"

definition toUtf8CodePoints ::
    "norm_form list \<Rightarrow> (norm_form \<Rightarrow> js_units \<Rightarrow> js_units) \<Rightarrow> js_units \<Rightarrow> norm_form option \<Rightarrow> nat list result" where
  "toUtf8CodePoints supported nfun str form =
     bindE (toUtf8Bytes supported nfun str form) (\<lambda>bs. getUtf8CodePoints (DU8 bs) None)"

section \<open>Masks as arithmetic\<close>

lemma nat_and_low: "(c :: nat) AND (2 ^ k - 1) = c mod 2 ^ k"
  by (simp only: take_bit_eq_mod flip: take_bit_eq_mask mask_eq_exp_minus_1)

lemma nat_bit_less: "(c :: nat) < 2 ^ m \<Longrightarrow> bit c n \<Longrightarrow> n < m"
  by (metis bit_take_bit_iff take_bit_nat_eq_self)

lemma nat_and_high:
  assumes "(c :: nat) < 2 ^ m" and "k \<le> m"
  shows "c AND (2 ^ m - 2 ^ k) = c div 2 ^ k * 2 ^ k"
proof -
  have "(2 ^ m - 2 ^ k :: nat) = push_bit k (mask (m - k))"
    using assms(2) by (simp add: push_bit_eq_mult mask_eq_exp_minus_1 diff_mult_distrib flip: power_add)
  moreover have "c div 2 ^ k * 2 ^ k = push_bit k (drop_bit k c)"
    by (simp add: push_bit_eq_mult drop_bit_eq_div)
  ultimately show ?thesis
    using nat_bit_less [OF assms(1)]
    by (auto simp: bit_eq_iff bit_simps intro: diff_less_mono)
qed

lemma nat_or_high: "(x :: nat) < 2 ^ k \<Longrightarrow> x OR (y * 2 ^ k) = x + y * 2 ^ k"
proof -
  assume "x < 2 ^ k"
  then have "x AND push_bit k y = 0"
    by (auto simp: bit_eq_iff bit_simps not_less [symmetric] dest: nat_bit_less)
  then show ?thesis by (simp add: push_bit_eq_mult disjunctive_add_eq_or)
qed

lemma nat_and_masks:
  "(c :: nat) AND 0x3f = c mod 64" "c AND 0x1f = c mod 32" "c AND 0x0f = c mod 16" "c AND 0x3ff = c mod 1024"
  using nat_and_low [of c 6] nat_and_low [of c 5] nat_and_low [of c 4] nat_and_low [of c 10] by simp_all

lemma nat_div_range: "0 < k \<Longrightarrow> (c :: nat) div k * k = q * k \<longleftrightarrow> q * k \<le> c \<and> c < Suc q * k"
  by (metis div_less_iff_less_mult le_antisym less_Suc_eq_le less_eq_div_iff_mult_less_eq less_le_not_le
        mult_cancel2 not_less order_refl)

lemma nat_and_leads:
  assumes "(c :: nat) < 256"
  shows "c AND 0xe0 = 0xc0 \<longleftrightarrow> 192 \<le> c \<and> c < 224"
    and "c AND 0xf0 = 0xe0 \<longleftrightarrow> 224 \<le> c \<and> c < 240"
    and "c AND 0xf8 = 0xf0 \<longleftrightarrow> 240 \<le> c \<and> c < 248"
    and "c AND 0xc0 = 0x80 \<longleftrightarrow> 128 \<le> c \<and> c < 192"
proof -
  have *: "c AND 0xe0 = c div 32 * 32" "c AND 0xf0 = c div 16 * 16" "c AND 0xf8 = c div 8 * 8" "c AND 0xc0 = c div 64 * 64"
    using nat_and_high [of c 8 5] nat_and_high [of c 8 4] nat_and_high [of c 8 3] nat_and_high [of c 8 6] assms
    by simp_all
  show "c AND 0xe0 = 0xc0 \<longleftrightarrow> 192 \<le> c \<and> c < 224" using nat_div_range [of 32 c 6] unfolding * by simp
  show "c AND 0xf0 = 0xe0 \<longleftrightarrow> 224 \<le> c \<and> c < 240" using nat_div_range [of 16 c 14] unfolding * by simp
  show "c AND 0xf8 = 0xf0 \<longleftrightarrow> 240 \<le> c \<and> c < 248" using nat_div_range [of 8 c 30] unfolding * by simp
  show "c AND 0xc0 = 0x80 \<longleftrightarrow> 128 \<le> c \<and> c < 192" using nat_div_range [of 64 c 2] unfolding * by simp
qed

lemma nat_or_marks:
  "(x :: nat) < 64 \<Longrightarrow> x OR 0x80 = x + 128" "x < 64 \<Longrightarrow> x OR 0xc0 = x + 192"
  "x < 32 \<Longrightarrow> x OR 0xe0 = x + 224" "x < 16 \<Longrightarrow> x OR 0xf0 = x + 240"
  using nat_or_high [of x 6 2] nat_or_high [of x 6 3] nat_or_high [of x 5 7] nat_or_high [of x 4 15] by simp_all

lemma nat_shift_or: "push_bit 6 (r :: nat) OR (n AND 0x3f) = r * 64 + n mod 64"
proof -
  have "(n mod 64) OR (r * 2 ^ 6) = n mod 64 + r * 2 ^ 6" by (rule nat_or_high) simp
  then show ?thesis by (simp add: nat_and_masks push_bit_eq_mult or.commute add.commute)
qed

section \<open>The strict decoder, byte by byte\<close>

definition is_cont :: "nat \<Rightarrow> bool" where
  "is_cont n \<longleftrightarrow> 128 \<le> n \<and> n < 192"

lemma utf8_continue_Suc:
  "utf8_continue bytes i (Suc j) res =
     (if is_cont (unat (bytes ! i)) then utf8_continue bytes (Suc i) j (res * 64 + unat (bytes ! i) mod 64)
      else (i, None))"
  by (simp add: Let_def nat_shift_or is_cont_def nat_and_leads)

declare utf8_continue.simps(2) [simp del]

lemma utf8_continue_snd:
  "snd (utf8_continue bytes j 1 r) =
     (if is_cont (unat (bytes ! j)) then Some (r * 64 + unat (bytes ! j) mod 64) else None)"
  "snd (utf8_continue bytes j 2 r) =
     (if is_cont (unat (bytes ! j)) \<and> is_cont (unat (bytes ! Suc j))
      then Some ((r * 64 + unat (bytes ! j) mod 64) * 64 + unat (bytes ! Suc j) mod 64) else None)"
  "snd (utf8_continue bytes j 3 r) =
     (if is_cont (unat (bytes ! j)) \<and> is_cont (unat (bytes ! Suc j)) \<and> is_cont (unat (bytes ! Suc (Suc j)))
      then Some (((r * 64 + unat (bytes ! j) mod 64) * 64 + unat (bytes ! Suc j) mod 64) * 64
                 + unat (bytes ! Suc (Suc j)) mod 64) else None)"
  by (simp_all add: utf8_continue_Suc numeral_2_eq_2 numeral_3_eq_3 del: mult_Suc mult_Suc_right)

lemma utf8_lead_cases:
  "c < 256 \<Longrightarrow> utf8_lead c =
     (if 192 \<le> c \<and> c < 224 then Some (1, 0x7f) else if 224 \<le> c \<and> c < 240 then Some (2, 0x7ff)
      else if 240 \<le> c \<and> c < 248 then Some (3, 0xffff) else None)"
  by (simp add: utf8_lead_def nat_and_leads)

definition scalar :: "nat \<Rightarrow> bool" where
  "scalar cp \<longleftrightarrow> cp \<le> 0x10ffff \<and> \<not> (0xd800 \<le> cp \<and> cp \<le> 0xdfff)"

text \<open>The UTF-8 form of a code point, by arithmetic.\<close>

definition utf8_encode :: "nat \<Rightarrow> nat list" where
  "utf8_encode cp =
     (if cp < 0x80 then [cp]
      else if cp < 0x800 then [cp div 64 + 192, cp mod 64 + 128]
      else if cp < 0x10000 then [cp div 4096 + 224, cp div 64 mod 64 + 128, cp mod 64 + 128]
      else [cp div 262144 + 240, cp div 4096 mod 64 + 128, cp div 64 mod 64 + 128, cp mod 64 + 128])"

lemma drop_bit_7: "drop_bit 7 (c :: nat) = 0 \<longleftrightarrow> c < 128"
  by (simp add: drop_bit_eq_div div_eq_0_iff)

lemma strict_step_eq:
  "utf8_step errorFunc bytes i out =
     (let c = unat (bytes ! i);
          fail = Inl (CoreError INVALID_ARGUMENT ''invalid codepoint'')
      in if c < 128 then Inr (0, out @ [c])
         else case utf8_lead c of
           None \<Rightarrow> fail
         | Some (e, m) \<Rightarrow>
             if i + e \<ge> length bytes then fail
             else case snd (utf8_continue bytes (Suc i) e (c mod 2 ^ (7 - e))) of
                 None \<Rightarrow> fail
               | Some res \<Rightarrow> if scalar res \<and> m < res then Inr (e, out @ [res]) else fail)"
proof -
  have mask: "(c :: nat) AND (push_bit (8 - e - 1) 1 - 1) = c mod 2 ^ (7 - e)" for c e
    using nat_and_low [of c "7 - e"] by (simp add: push_bit_eq_mult)
  show ?thesis
    unfolding utf8_step_def Let_def drop_bit_7 mask
    by (auto simp: errorFunc_def scalar_def not_less not_le split: option.splits prod.splits)
qed


lemma utf8_encode_not_Nil [simp]: "utf8_encode cp \<noteq> []"
  by (simp add: utf8_encode_def)

lemma horner_64: "a < 64 \<Longrightarrow> (q * 64 + a) div 64 = q \<and> (q * 64 + a) mod 64 = (a :: nat)"
  by simp

lemma cont_mod: "(x mod 64 + 128) mod 64 = (x :: nat) mod 64"
  using mod_mult_self1 [of "x mod 64" 2 64] by simp

lemma mod_offset: "k * m \<le> c \<Longrightarrow> c < Suc k * m \<Longrightarrow> c = c mod m + k * (m :: nat)"
  by (metis div_mod_decomp add.commute div_nat_eqI mult.commute)

lemma is_cont_mod: "is_cont c \<Longrightarrow> c = c mod 64 + 128"
  using mod_offset [of 2 64 c] by (simp add: is_cont_def)

lemma div_64s: "cp div 4096 = cp div 64 div 64" "cp div 262144 = (cp :: nat) div 64 div 64 div 64"
  by (simp_all add: div_mult2_eq [symmetric])

lemma utf8_encode_1: "utf8_encode cp = [c] \<longleftrightarrow> c < 128 \<and> cp = c"
  by (auto simp: utf8_encode_def)

lemma utf8_encode_2:
  "utf8_encode cp = [c, d] \<longleftrightarrow>
     192 \<le> c \<and> c < 224 \<and> is_cont d \<and> cp = c mod 32 * 64 + d mod 64 \<and> 0x7f < cp"
proof
  assume "utf8_encode cp = [c, d]"
  then have cp: "0x80 \<le> cp" "cp < 0x800" and c: "c = cp div 64 + 192" and d: "d = cp mod 64 + 128"
    by (auto simp: utf8_encode_def split: if_splits)
  from cp(2) have q: "cp div 64 < 32" by (simp add: less_mult_imp_div_less)
  have "c mod 32 = cp div 64" using q c by (simp add: mod_add_eq [of _ 32 192, symmetric])
  moreover have "d mod 64 = cp mod 64" using d by (simp add: cont_mod)
  ultimately show "192 \<le> c \<and> c < 224 \<and> is_cont d \<and> cp = c mod 32 * 64 + d mod 64 \<and> 0x7f < cp"
    using cp c d q by (simp add: is_cont_def)
next
  assume r: "192 \<le> c \<and> c < 224 \<and> is_cont d \<and> cp = c mod 32 * 64 + d mod 64 \<and> 0x7f < cp"
  then have "c = c mod 32 + 192" "d = d mod 64 + 128"
    using mod_offset [of 6 32 c] is_cont_mod by simp_all
  then show "utf8_encode cp = [c, d]" using r by (auto simp: utf8_encode_def)
qed

lemma utf8_encode_3:
  "utf8_encode cp = [c, d, e] \<longleftrightarrow>
     224 \<le> c \<and> c < 240 \<and> is_cont d \<and> is_cont e \<and> cp = (c mod 16 * 64 + d mod 64) * 64 + e mod 64 \<and> 0x7ff < cp"
proof
  assume "utf8_encode cp = [c, d, e]"
  then have cp: "0x800 \<le> cp" "cp < 0x10000" and c: "c = cp div 64 div 64 + 224"
    and d: "d = cp div 64 mod 64 + 128" and e: "e = cp mod 64 + 128"
    by (auto simp: utf8_encode_def div_64s split: if_splits)
  define x y z where v: "x = cp div 64 div 64" "y = cp div 64 mod 64" "z = cp mod 64"
  have cpe: "cp = (x * 64 + y) * 64 + z" by (simp add: v)
  have b: "x < 16" "y < 64" "z < 64" using cp(2) by (simp_all add: v less_mult_imp_div_less)
  have e3: "c = x + 224" "d = y + 128" "e = z + 128" using c d e by (simp_all add: v)
  have m: "c mod 16 = x" "d mod 64 = y" "e mod 64 = z"
    using b e3 mod_mult_self1 [of x 14 16] mod_mult_self1 [of y 2 64] mod_mult_self1 [of z 2 64] by simp_all
  show "224 \<le> c \<and> c < 240 \<and> is_cont d \<and> is_cont e \<and>
      cp = (c mod 16 * 64 + d mod 64) * 64 + e mod 64 \<and> 0x7ff < cp"
    unfolding m using cp(1) b cpe by (simp add: is_cont_def e3)
next
  assume r: "224 \<le> c \<and> c < 240 \<and> is_cont d \<and> is_cont e \<and>
      cp = (c mod 16 * 64 + d mod 64) * 64 + e mod 64 \<and> 0x7ff < cp"
  then have m: "c = c mod 16 + 224" "d = d mod 64 + 128" "e = e mod 64 + 128"
    using mod_offset [of 14 16 c] is_cont_mod by simp_all
  define x y z where v: "x = c mod 16" "y = d mod 64" "z = e mod 64"
  have b: "x < 16" "y < 64" "z < 64" by (simp_all add: v)
  have cp: "cp = (x * 64 + y) * 64 + z" "0x7ff < cp" using r by (simp_all add: v)
  have q1: "cp div 64 = x * 64 + y \<and> cp mod 64 = z" unfolding cp(1) by (rule horner_64 [OF b(3)])
  with horner_64 [OF b(2), of x] have "cp div 64 = x * 64 + y" "cp mod 64 = z" "cp div 64 div 64 = x" "cp div 64 mod 64 = y"
    by metis+
  moreover have "cp < 0x10000" using b unfolding cp(1) by simp
  ultimately show "utf8_encode cp = [c, d, e]" using cp(2) m by (simp add: utf8_encode_def div_64s v)
qed

lemma utf8_encode_4:
  "scalar cp \<and> utf8_encode cp = [c, d, e, f] \<longleftrightarrow>
     240 \<le> c \<and> c < 248 \<and> is_cont d \<and> is_cont e \<and> is_cont f \<and>
     cp = ((c mod 8 * 64 + d mod 64) * 64 + e mod 64) * 64 + f mod 64 \<and> 0xffff < cp \<and> scalar cp"
proof
  assume *: "scalar cp \<and> utf8_encode cp = [c, d, e, f]"
  then have cp: "0x10000 \<le> cp" "cp < 0x110000" and c: "c = cp div 64 div 64 div 64 + 240"
    and d: "d = cp div 64 div 64 mod 64 + 128" and e: "e = cp div 64 mod 64 + 128" and f: "f = cp mod 64 + 128"
    by (auto simp: utf8_encode_def div_64s scalar_def split: if_splits)
  define x y z u where v: "x = cp div 64 div 64 div 64" "y = cp div 64 div 64 mod 64" "z = cp div 64 mod 64" "u = cp mod 64"
  have cpe: "cp = ((x * 64 + y) * 64 + z) * 64 + u" by (simp add: v)
  have b: "x < 8" "y < 64" "z < 64" "u < 64" using cp(2) by (simp_all add: v less_mult_imp_div_less)
  have e4: "c = x + 240" "d = y + 128" "e = z + 128" "f = u + 128" using c d e f by (simp_all add: v)
  have m: "c mod 8 = x" "d mod 64 = y" "e mod 64 = z" "f mod 64 = u"
    using b e4 mod_mult_self1 [of x 30 8] mod_mult_self1 [of y 2 64] mod_mult_self1 [of z 2 64]
      mod_mult_self1 [of u 2 64] by simp_all
  show "240 \<le> c \<and> c < 248 \<and> is_cont d \<and> is_cont e \<and> is_cont f \<and>
      cp = ((c mod 8 * 64 + d mod 64) * 64 + e mod 64) * 64 + f mod 64 \<and> 0xffff < cp \<and> scalar cp"
    unfolding m using cp(1) b cpe * by (simp add: is_cont_def e4)
next
  assume r: "240 \<le> c \<and> c < 248 \<and> is_cont d \<and> is_cont e \<and> is_cont f \<and>
     cp = ((c mod 8 * 64 + d mod 64) * 64 + e mod 64) * 64 + f mod 64 \<and> 0xffff < cp \<and> scalar cp"
  then have m: "c = c mod 8 + 240" "d = d mod 64 + 128" "e = e mod 64 + 128" "f = f mod 64 + 128"
    using mod_offset [of 30 8 c] is_cont_mod by simp_all
  define x y z u where v: "x = c mod 8" "y = d mod 64" "z = e mod 64" "u = f mod 64"
  have b: "x < 8" "y < 64" "z < 64" "u < 64" by (simp_all add: v)
  have cp: "cp = ((x * 64 + y) * 64 + z) * 64 + u" "0xffff < cp" "scalar cp" using r unfolding v by blast+
  have q1: "cp div 64 = (x * 64 + y) * 64 + z \<and> cp mod 64 = u" unfolding cp(1) by (rule horner_64 [OF b(4)])
  with horner_64 [OF b(3), of "x * 64 + y"] horner_64 [OF b(2), of x]
  have "cp div 64 = (x * 64 + y) * 64 + z" "cp mod 64 = u" "cp div 64 div 64 = x * 64 + y"
    "cp div 64 mod 64 = z" "cp div 64 div 64 div 64 = x" "cp div 64 div 64 mod 64 = y"
    by metis+
  then show "scalar cp \<and> utf8_encode cp = [c, d, e, f]" using cp(2,3) m by (simp add: utf8_encode_def div_64s v)
qed


lemma length_utf8_encode:
  "length (utf8_encode cp) = (if cp < 0x80 then 1 else if cp < 0x800 then 2 else if cp < 0x10000 then 3 else 4)"
  by (simp add: utf8_encode_def)

text \<open>The bytes at an offset, as numbers.\<close>

definition utf8_at :: "byte list \<Rightarrow> nat \<Rightarrow> nat \<Rightarrow> nat list" where
  "utf8_at bytes i k = take k (drop i (map unat bytes))"

lemma utf8_at_unroll:
  "utf8_at bytes i 0 = []"
  "i < length bytes \<Longrightarrow> utf8_at bytes i (Suc k) = unat (bytes ! i) # utf8_at bytes (Suc i) k"
  by (simp_all add: utf8_at_def Cons_nth_drop_Suc [symmetric])

lemma utf8_at_length: "length (utf8_at bytes i k) = min k (length bytes - i)"
  by (simp add: utf8_at_def)

lemma utf8_encode_head:
  assumes "scalar cp" and "utf8_encode cp = c # r"
  shows "c < 128 \<and> length r = 0 \<or> 192 \<le> c \<and> c < 224 \<and> length r = 1 \<or>
         224 \<le> c \<and> c < 240 \<and> length r = 2 \<or> 240 \<le> c \<and> c < 248 \<and> length r = 3"
proof -
  have "length (utf8_encode cp) \<le> 4" by (simp add: length_utf8_encode)
  with assms(2) consider "r = []" | d where "r = [d]" | d e where "r = [d, e]" | d e f where "r = [d, e, f]"
    by (cases r rule: remdups_adj.cases) (auto simp: Suc_le_eq numeral_eq_Suc less_Suc_eq length_Suc_conv)
  then show ?thesis
  proof cases
    case 1 with assms show ?thesis by (simp add: utf8_encode_1)
  next
    case 2 with assms show ?thesis by (simp add: utf8_encode_2)
  next
    case 3 with assms show ?thesis by (simp add: utf8_encode_3)
  next
    case 4 with assms show ?thesis using utf8_encode_4 by (metis length_Cons list.size(3) numeral_3_eq_3)
  qed
qed

lemma utf8_at_encode:
  assumes i: "i < length bytes"
    and e: "\<And>cp r. scalar cp \<Longrightarrow> utf8_encode cp = unat (bytes ! i) # r \<Longrightarrow> length r = e"
  shows "(\<exists>cp. scalar cp \<and> P cp \<and> length (utf8_encode cp) = Suc adv \<and> utf8_at bytes i (Suc adv) = utf8_encode cp)
     \<longleftrightarrow> adv = e \<and> i + e < length bytes \<and> (\<exists>cp. scalar cp \<and> P cp \<and> utf8_encode cp = utf8_at bytes i (Suc e))"
    (is "?L = ?R")
proof
  assume ?L
  then obtain cp where cp: "scalar cp" "P cp" "length (utf8_encode cp) = Suc adv"
    "utf8_at bytes i (Suc adv) = utf8_encode cp" by blast
  from cp(4) i have "utf8_encode cp = unat (bytes ! i) # utf8_at bytes (Suc i) adv"
    by (simp add: utf8_at_unroll)
  from e [OF cp(1) this] cp(3) this have "adv = e" by simp
  moreover from cp(3,4) have "Suc adv \<le> length bytes - i" by (metis utf8_at_length min.cobounded2)
  ultimately show ?R using cp by auto
next
  assume ?R
  then obtain cp where cp: "adv = e" "i + e < length bytes" "scalar cp" "P cp" "utf8_encode cp = utf8_at bytes i (Suc e)"
    by blast
  then have "length (utf8_encode cp) = Suc adv" by (simp add: utf8_at_length)
  with cp show ?L by metis
qed

lemma ex_determined:
  "(\<And>x. A x \<and> B x \<longleftrightarrow> K \<and> x = v \<and> Q x \<and> A x) \<Longrightarrow> (\<exists>x. A x \<and> C x \<and> B x) \<longleftrightarrow> K \<and> A v \<and> Q v \<and> C v"
  by (intro iffI, metis, metis)

lemma utf8_step_strict:
  assumes i: "i < length bytes"
  shows "utf8_step errorFunc bytes i out = Inr (adv, out') \<longleftrightarrow>
    (\<exists>cp. scalar cp \<and> out' = out @ [cp] \<and> length (utf8_encode cp) = Suc adv \<and>
          utf8_at bytes i (Suc adv) = utf8_encode cp)"
    (is "_ = ?R")
proof -
  define c where "c = unat (bytes ! i)"
  have c: "c < 256" using unat_byte_less [of "bytes ! i"] by (simp add: c_def)
  note step = strict_step_eq [of bytes i out, unfolded Let_def, folded c_def]
  have red: "?R \<longleftrightarrow> adv = e \<and> i + e < length bytes \<and>
      (\<exists>cp. scalar cp \<and> out' = out @ [cp] \<and> utf8_encode cp = utf8_at bytes i (Suc e))"
    if "\<And>cp r. scalar cp \<Longrightarrow> utf8_encode cp = c # r \<Longrightarrow> length r = e" for e
    by (rule utf8_at_encode [OF i]) (use that in \<open>simp add: c_def\<close>)
  have unroll: "utf8_at bytes i (Suc k) = c # utf8_at bytes (Suc i) k" for k
    using i by (simp add: utf8_at_unroll c_def)
  have byte: "utf8_at bytes j (Suc k) = unat (bytes ! j) # utf8_at bytes (Suc j) k" if "j < length bytes" for j k
    using that by (simp add: utf8_at_unroll)
  consider "c < 128" | "192 \<le> c" "c < 224" | "224 \<le> c" "c < 240" | "240 \<le> c" "c < 248"
    | "128 \<le> c" "c < 192 \<or> 248 \<le> c" by linarith
  then show ?thesis
  proof cases
    case 1
    have R: "?R \<longleftrightarrow> adv = 0 \<and> i + 0 < length bytes \<and>
      (\<exists>cp. scalar cp \<and> out' = out @ [cp] \<and> utf8_encode cp = utf8_at bytes i (Suc 0))"
      by (rule red) (use 1 utf8_encode_head in fastforce)
    have "scalar c" using 1 by (simp add: scalar_def)
    then show ?thesis unfolding R step using 1 i by (auto simp: unroll utf8_at_unroll utf8_encode_1)
  next
    case 2
    have R: "?R \<longleftrightarrow> adv = 1 \<and> i + 1 < length bytes \<and>
      (\<exists>cp. scalar cp \<and> out' = out @ [cp] \<and> utf8_encode cp = utf8_at bytes i (Suc 1))"
      by (rule red) (use 2 utf8_encode_head in fastforce)
    have "utf8_lead c = Some (1, 0x7f)" using 2 c by (simp add: utf8_lead_cases)
    moreover have "c mod 64 = c mod 32" using 2 mod_offset [of 6 32 c] mod_offset [of 3 64 c] by simp
    ultimately show ?thesis unfolding R unfolding step unroll
      using 2 by (cases "i + 1 < length bytes")
        (auto simp: byte utf8_at_unroll(1) utf8_encode_2 utf8_continue_snd(1) [simplified])
  next
    case 3
    have R: "?R \<longleftrightarrow> adv = 2 \<and> i + 2 < length bytes \<and>
      (\<exists>cp. scalar cp \<and> out' = out @ [cp] \<and> utf8_encode cp = utf8_at bytes i (Suc 2))"
      by (rule red) (use 3 utf8_encode_head in fastforce)
    have "utf8_lead c = Some (2, 0x7ff)" using 3 c by (simp add: utf8_lead_cases)
    moreover have "c mod 32 = c mod 16" using 3 mod_offset [of 14 16 c] mod_offset [of 7 32 c] by simp
    moreover have "i + 2 < length bytes \<Longrightarrow> utf8_at bytes (Suc i) 2 = [unat (bytes ! Suc i), unat (bytes ! Suc (Suc i))]"
      by (simp add: numeral_2_eq_2 byte utf8_at_unroll(1))
    ultimately show ?thesis unfolding R unfolding step unroll
      using 3 by (cases "i + 2 < length bytes") (auto simp: utf8_encode_3 utf8_continue_snd)
  next
    case 4
    have R: "?R \<longleftrightarrow> adv = 3 \<and> i + 3 < length bytes \<and>
      (\<exists>cp. scalar cp \<and> out' = out @ [cp] \<and> utf8_encode cp = utf8_at bytes i (Suc 3))"
      by (rule red) (use 4 utf8_encode_head in fastforce)
    have lead: "utf8_lead c = Some (3, 0xffff)" using 4 c by (simp add: utf8_lead_cases)
    have mask: "c mod 16 = c mod 8" using 4 mod_offset [of 30 8 c] mod_offset [of 15 16 c] by simp
    have ex4: "(\<exists>cp. scalar cp \<and> out' = out @ [cp] \<and> utf8_encode cp = [c, d, e, f]) \<longleftrightarrow>
        (240 \<le> c \<and> c < 248 \<and> is_cont d \<and> is_cont e \<and> is_cont f) \<and>
        scalar (((c mod 8 * 64 + d mod 64) * 64 + e mod 64) * 64 + f mod 64) \<and>
        0xffff < ((c mod 8 * 64 + d mod 64) * 64 + e mod 64) * 64 + f mod 64 \<and>
        out' = out @ [((c mod 8 * 64 + d mod 64) * 64 + e mod 64) * 64 + f mod 64]" for d e f
      by (rule ex_determined) (simp only: utf8_encode_4 conj_assoc)
    show ?thesis
    proof (cases "i + 3 < length bytes")
      case True
      then have at3: "utf8_at bytes i (Suc 3) =
          [c, unat (bytes ! Suc i), unat (bytes ! Suc (Suc i)), unat (bytes ! Suc (Suc (Suc i)))]"
        unfolding unroll by (simp add: numeral_3_eq_3 byte utf8_at_unroll(1))
      define V where "V = ((c mod 8 * 64 + unat (bytes ! Suc i) mod 64) * 64 + unat (bytes ! Suc (Suc i)) mod 64) * 64
        + unat (bytes ! Suc (Suc (Suc i))) mod 64"
      have "snd (utf8_continue bytes (Suc i) 3 (c mod 2 ^ (7 - 3))) =
          (if is_cont (unat (bytes ! Suc i)) \<and> is_cont (unat (bytes ! Suc (Suc i))) \<and>
              is_cont (unat (bytes ! Suc (Suc (Suc i)))) then Some V else None)"
        unfolding utf8_continue_snd V_def using mask by simp
      then show ?thesis unfolding R at3 ex4 V_def [symmetric] unfolding step lead using 4 True
        by (auto simp del: utf8_continue.simps)
    next
      case False
      then show ?thesis unfolding R step lead using 4 by simp
    qed
  next
    case 5
    have "utf8_lead c = None" using 5 c by (auto simp: utf8_lead_cases)
    moreover have "\<not> ?R"
    proof
      assume ?R
      then obtain cp where "scalar cp" "utf8_encode cp = c # utf8_at bytes (Suc i) adv" by (metis unroll)
      from utf8_encode_head [OF this] 5 show False by linarith
    qed
    ultimately show ?thesis unfolding step using 5 by simp
  qed
qed


lemma utf8_at_drop:
  "i < length bytes \<Longrightarrow> utf8_at bytes i (Suc k) = xs \<Longrightarrow> length xs = Suc k \<Longrightarrow>
   drop i (map unat bytes) = xs @ drop (Suc (i + k)) (map unat bytes)"
  unfolding utf8_at_def by (metis add.commute append_take_drop_id drop_drop add_Suc_right)

lemma utf8_loop_strict:
  "i \<le> length bytes \<Longrightarrow> utf8_loop errorFunc bytes i out = Inr res \<longleftrightarrow>
   (\<exists>cps. list_all scalar cps \<and> res = out @ cps \<and> drop i (map unat bytes) = concat (map utf8_encode cps))"
proof (induction "length bytes - i" arbitrary: i out rule: less_induct)
  case less
  show ?case
  proof (cases "i < length bytes")
    case False
    with less.prems show ?thesis by (subst utf8_loop.simps) (auto simp: eq_commute [of "[]"])
  next
    case True
    have IH: "utf8_loop errorFunc bytes (Suc (i + adv)) out' = Inr res \<longleftrightarrow>
        (\<exists>cps. list_all scalar cps \<and> res = out' @ cps \<and>
               drop (Suc (i + adv)) (map unat bytes) = concat (map utf8_encode cps))"
      if "Suc (i + adv) \<le> length bytes" for adv out'
      using that True by (intro less.hyps) auto
    have "utf8_loop errorFunc bytes i out = Inr res \<longleftrightarrow> (\<exists>adv cp.
        scalar cp \<and> length (utf8_encode cp) = Suc adv \<and> utf8_at bytes i (Suc adv) = utf8_encode cp \<and>
        utf8_loop errorFunc bytes (Suc (i + adv)) (out @ [cp]) = Inr res)"
      using True by (subst utf8_loop.simps) (auto simp: utf8_step_strict)
    also have "\<dots> \<longleftrightarrow> (\<exists>adv cp cps. scalar cp \<and> length (utf8_encode cp) = Suc adv \<and>
        utf8_at bytes i (Suc adv) = utf8_encode cp \<and> list_all scalar cps \<and> res = out @ cp # cps \<and>
        drop (Suc (i + adv)) (map unat bytes) = concat (map utf8_encode cps))"
    proof -
      have "Suc (i + adv) \<le> length bytes"
        if "length (utf8_encode cp) = Suc adv" "utf8_at bytes i (Suc adv) = utf8_encode cp" for adv cp
        using that True utf8_at_length [of bytes i "Suc adv"] by simp
      then show ?thesis using IH by (metis append.assoc append_Cons append_Nil)
    qed
    also have "\<dots> \<longleftrightarrow> (\<exists>cps. list_all scalar cps \<and> res = out @ cps \<and>
        drop i (map unat bytes) = concat (map utf8_encode cps))" (is "?A \<longleftrightarrow> ?B")
    proof
      assume ?A
      then obtain adv cp cps where *: "scalar cp" "length (utf8_encode cp) = Suc adv"
        "utf8_at bytes i (Suc adv) = utf8_encode cp" "list_all scalar cps" "res = out @ cp # cps"
        "drop (Suc (i + adv)) (map unat bytes) = concat (map utf8_encode cps)" by blast
      with utf8_at_drop [OF True *(3,2)] show ?B by (intro exI [of _ "cp # cps"]) simp
    next
      assume ?B
      then obtain cps where *: "list_all scalar cps" "res = out @ cps"
        "drop i (map unat bytes) = concat (map utf8_encode cps)" by blast
      with True obtain cp cps' where cps: "cps = cp # cps'" by (cases cps) auto
      obtain adv where adv: "length (utf8_encode cp) = Suc adv"
        by (metis length_0_conv not0_implies_Suc utf8_encode_not_Nil)
      have "drop (Suc adv) (drop i (map unat bytes)) = concat (map utf8_encode cps')"
        "take (Suc adv) (drop i (map unat bytes)) = utf8_encode cp"
        using * cps adv by simp_all
      then have "scalar cp \<and> length (utf8_encode cp) = Suc adv \<and>
        utf8_at bytes i (Suc adv) = utf8_encode cp \<and> list_all scalar cps' \<and> res = out @ cp # cps' \<and>
        drop (Suc (i + adv)) (map unat bytes) = concat (map utf8_encode cps')"
        using * cps adv drop_drop [of "Suc adv" i "map unat bytes"] by (simp add: utf8_at_def add.commute)
      then show ?A by blast
    qed
    finally show ?thesis .
  qed
qed


section \<open>UTF-16 strings\<close>

definition high_surrogate :: "nat \<Rightarrow> bool" where
  "high_surrogate c \<longleftrightarrow> 0xd800 \<le> c \<and> c < 0xdc00"

definition low_surrogate :: "nat \<Rightarrow> bool" where
  "low_surrogate c \<longleftrightarrow> 0xdc00 \<le> c \<and> c < 0xe000"

text \<open>Well-formed UTF-16: 16-bit units, surrogates exactly in high-low pairs.\<close>

fun wf_utf16 :: "js_units \<Rightarrow> bool" where
  "wf_utf16 [] = True"
| "wf_utf16 (c # r) =
     (if high_surrogate c then (case r of [] \<Rightarrow> False | c2 # r' \<Rightarrow> low_surrogate c2 \<and> wf_utf16 r')
      else c < 0x10000 \<and> \<not> low_surrogate c \<and> wf_utf16 r)"

lemma surrogate_masks:
  assumes "c < 0x10000"
  shows "c AND 0xfc00 = 0xd800 \<longleftrightarrow> high_surrogate c" "c AND 0xfc00 = 0xdc00 \<longleftrightarrow> low_surrogate c"
proof -
  have "c AND 0xfc00 = c div 1024 * 1024" using nat_and_high [of c 16 10] assms by simp
  then show "c AND 0xfc00 = 0xd800 \<longleftrightarrow> high_surrogate c" "c AND 0xfc00 = 0xdc00 \<longleftrightarrow> low_surrogate c"
    using nat_div_range [of 1024 c 54] nat_div_range [of 1024 c 55]
    by (simp_all add: high_surrogate_def low_surrogate_def)
qed

lemma drop_bits: "drop_bit 6 c = c div 64" "drop_bit 10 c = c div 1024" "drop_bit 12 c = c div 64 div 64"
    "drop_bit 18 (c :: nat) = c div 64 div 64 div 64"
  by (simp_all add: drop_bit_eq_div div_mult2_eq [symmetric])

lemma utf8_loop_unit:
  assumes "c < 0x10000" and "\<not> high_surrogate c"
  shows "utf8_bytes_loop (c # r) acc = utf8_bytes_loop r (acc @ utf8_encode c)"
proof -
  have "c div 64 < 32" if "c < 0x800" using that by (simp add: less_mult_imp_div_less)
  moreover have "c div 64 div 64 < 16" using assms by (simp add: less_mult_imp_div_less)
  ultimately show ?thesis
    using assms by (simp add: surrogate_masks utf8_encode_def nat_and_masks drop_bits div_64s nat_or_marks)
qed

lemma utf8_loop_pair:
  assumes "high_surrogate c" and "low_surrogate d"
  defines "cp \<equiv> 0x10000 + (c - 0xd800) * 1024 + (d - 0xdc00)"
  shows "utf8_bytes_loop (c # d # r) acc = utf8_bytes_loop r (acc @ utf8_encode cp)"
    and "0x10000 \<le> cp" "cp < 0x110000" "units_of_code_point cp = [c, d]"
proof -
  have cd: "c < 0x10000" "d < 0x10000" "0x800 \<le> c" using assms(1,2) by (auto simp: high_surrogate_def low_surrogate_def)
  show b: "0x10000 \<le> cp" "cp < 0x110000" 
    using assms(1,2) by (auto simp: high_surrogate_def low_surrogate_def cp_def)
  have m: "c mod 1024 = c - 0xd800" "d mod 1024 = d - 0xdc00"
    using assms(1,2) mod_offset [of 54 1024 c] mod_offset [of 55 1024 d]
    by (auto simp: high_surrogate_def low_surrogate_def)
  have "0x10000 + push_bit 10 (c AND 0x03ff) + (d AND 0x03ff) = cp"
    by (simp add: cp_def nat_and_masks m push_bit_eq_mult)
  moreover have "cp div 64 div 64 div 64 < 16" using b by (simp add: less_mult_imp_div_less)
  ultimately show "utf8_bytes_loop (c # d # r) acc = utf8_bytes_loop r (acc @ utf8_encode cp)"
    using assms(1,2) cd b
    by (simp add: surrogate_masks utf8_encode_def nat_and_masks drop_bits div_64s nat_or_marks Let_def)
  have "cp - 0x10000 = (c - 0xd800) * 1024 + (d - 0xdc00)" by (simp add: cp_def)
  moreover have "c - 0xd800 < 1024" "d - 0xdc00 < 1024"
    using assms(1,2) by (auto simp: high_surrogate_def low_surrogate_def)
  ultimately have "(cp - 0x10000) div 1024 = c - 0xd800" "(cp - 0x10000) mod 1024 = d - 0xdc00" by simp_all
  moreover note \<open>c - 0xd800 < 1024\<close>
  ultimately show "units_of_code_point cp = [c, d]"
    using assms(1,2) b
    by (simp add: units_of_code_point_def Let_def nat_and_masks drop_bits high_surrogate_def low_surrogate_def)
qed

lemma units_of_scalar:
  assumes "scalar cp"
  shows "cp < 0x10000 \<and> units_of_code_point cp = [cp] \<and> \<not> high_surrogate cp \<and> \<not> low_surrogate cp \<or>
    (\<exists>c d. units_of_code_point cp = [c, d] \<and> high_surrogate c \<and> low_surrogate d \<and>
           cp = 0x10000 + (c - 0xd800) * 1024 + (d - 0xdc00))"
proof (cases "cp < 0x10000")
  case True
  with assms show ?thesis
    by (auto simp: units_of_code_point_def scalar_def high_surrogate_def low_surrogate_def)
next
  case False
  define x where "x = cp - 0x10000"
  have x: "x div 1024 < 1024" "x mod 1024 < 1024" "cp = 0x10000 + x"
    using False assms by (simp_all add: x_def scalar_def less_mult_imp_div_less)
  have "units_of_code_point cp = [x div 1024 + 0xd800, x mod 1024 + 0xdc00]"
    using False x by (simp add: units_of_code_point_def Let_def nat_and_masks drop_bits)
  moreover have "cp = 0x10000 + (x div 1024 + 0xd800 - 0xd800) * 1024 + (x mod 1024 + 0xdc00 - 0xdc00)"
    using x(3) by simp
  ultimately show ?thesis using x(1,2) by (auto simp: high_surrogate_def low_surrogate_def)
qed

lemma wf_utf16_iff: "wf_utf16 s \<longleftrightarrow> (\<exists>cps. list_all scalar cps \<and> s = concat (map units_of_code_point cps))"
proof
  show "wf_utf16 s \<Longrightarrow> \<exists>cps. list_all scalar cps \<and> s = concat (map units_of_code_point cps)"
  proof (induction s rule: wf_utf16.induct)
    case 1
    show ?case by (intro exI [of _ "[]"]) simp
  next
    case (2 c r)
    show ?case
    proof (cases "high_surrogate c")
      case True
      with "2.prems" obtain d r' where r: "r = d # r'" "low_surrogate d" "wf_utf16 r'"
        by (auto split: list.splits)
      with "2.IH"(1) True obtain cps where "list_all scalar cps" "r' = concat (map units_of_code_point cps)" by blast
      moreover have "scalar (0x10000 + (c - 0xd800) * 1024 + (d - 0xdc00))"
        using utf8_loop_pair(2,3) [OF True r(2)] by (simp add: scalar_def)
      ultimately show ?thesis using utf8_loop_pair(4) [OF True r(2)] r
        by (intro exI [of _ "(0x10000 + (c - 0xd800) * 1024 + (d - 0xdc00)) # cps"]) simp
    next
      case False
      with "2.prems" "2.IH"(2) obtain cps where "list_all scalar cps" "r = concat (map units_of_code_point cps)"
        by auto
      moreover have "scalar c" "units_of_code_point c = [c]"
        using False "2.prems" by (auto simp: scalar_def units_of_code_point_def high_surrogate_def low_surrogate_def)
      ultimately show ?thesis by (intro exI [of _ "c # cps"]) simp
    qed
  qed
next
  assume "\<exists>cps. list_all scalar cps \<and> s = concat (map units_of_code_point cps)"
  then obtain cps where "list_all scalar cps" "s = concat (map units_of_code_point cps)" by blast
  then show "wf_utf16 s"
  proof (induction cps arbitrary: s)
    case (Cons cp cps)
    then show ?case using units_of_scalar [of cp] by auto
  qed simp
qed

lemma utf8_bytes_loop_units:
  "list_all scalar cps \<Longrightarrow>
   utf8_bytes_loop (concat (map units_of_code_point cps)) acc = Inr (acc @ concat (map utf8_encode cps))"
proof (induction cps arbitrary: acc)
  case (Cons cp cps)
  from Cons.prems have "scalar cp" by simp
  from units_of_scalar [OF this] Cons show ?case
    by (auto simp: utf8_loop_unit utf8_loop_pair(1) simp del: utf8_bytes_loop.simps)
qed simp


lemma getBytes_DU8: "getBytes (DU8 bs) = Inr bs"
  by (simp add: getBytes_def)

lemma strict_points:
  "getUtf8CodePoints (DU8 bs) None = Inr cps \<longleftrightarrow>
     list_all scalar cps \<and> map unat bs = concat (map utf8_encode cps)"
  by (simp add: getUtf8CodePoints_def getBytes_DU8 utf8_loop_strict [of 0, simplified])

text \<open>
  Strict decoding (the default error callback) accepts exactly well-formed
  UTF-8: it returns the code points \<open>cps\<close> just in case they are Unicode scalar
  values whose shortest encodings, concatenated, are the bytes. Overlong forms,
  surrogates, values beyond U+10FFFF, stray and missing continuation bytes and
  truncated sequences are all rejected.
\<close>

theorem getUtf8CodePoints_strict:
  "getUtf8CodePoints (DU8 bs) None = Inr cps \<longleftrightarrow>
     list_all scalar cps \<and> map unat bs = concat (map utf8_encode cps)"
  by (rule strict_points)

lemma utf8_encode_less: "scalar cp \<Longrightarrow> b \<in> set (utf8_encode cp) \<Longrightarrow> b < 256"
proof -
  assume *: "scalar cp" "b \<in> set (utf8_encode cp)"
  then have "cp < 0x110000" by (simp add: scalar_def)
  then have "cp div 262144 < 8" by (simp add: less_mult_imp_div_less)
  moreover have "cp < 0x800 \<Longrightarrow> cp div 64 < 32" "cp < 0x10000 \<Longrightarrow> cp div 4096 < 16"
    by (simp_all add: less_mult_imp_div_less)
  moreover have "cp div 4096 mod 64 < 64" "cp div 64 mod 64 < 64" "cp mod 64 < 64" by simp_all
  ultimately show ?thesis
    using * unfolding utf8_encode_def by (auto split: if_splits)
qed

lemma toUtf8Bytes_scalars:
  assumes "list_all scalar cps"
  shows "toUtf8Bytes plat nfun (toUtf8String_points cps) None = Inr bs \<longleftrightarrow> map unat bs = concat (map utf8_encode cps)"
proof -
  have "\<forall>n \<in> set (concat (map utf8_encode cps)). n < 256"
    using assms utf8_encode_less by (auto simp: list_all_iff)
  then have *: "map (unat \<circ> (of_nat :: nat \<Rightarrow> byte)) (concat (map utf8_encode cps)) = concat (map utf8_encode cps)"
    by (intro map_idI) (auto simp: unat_byte_of_nat)
  have "map of_nat (concat (map utf8_encode cps)) = bs \<longleftrightarrow> map unat bs = concat (map utf8_encode cps)"
  proof
    assume "map of_nat (concat (map utf8_encode cps)) = bs"
    then have "map unat bs = map (unat \<circ> (of_nat :: nat \<Rightarrow> byte)) (concat (map utf8_encode cps))" by auto
    then show "map unat bs = concat (map utf8_encode cps)" unfolding * .
  next
    assume "map unat bs = concat (map utf8_encode cps)"
    then have "map of_nat (concat (map utf8_encode cps)) = map (of_nat \<circ> unat) bs" by (metis map_map)
    also have "\<dots> = bs" by (rule map_idI) simp
    finally show "map of_nat (concat (map utf8_encode cps)) = bs" .
  qed
  then show ?thesis
    using utf8_bytes_loop_units [OF assms, of "[]"] by (simp add: toUtf8Bytes_def toUtf8String_points_def)
qed

lemma toUtf8String_points_inj:
  "list_all scalar cps \<Longrightarrow> list_all scalar cps' \<Longrightarrow> toUtf8String_points cps = toUtf8String_points cps' \<Longrightarrow>
   concat (map utf8_encode cps) = concat (map utf8_encode cps')"
  by (metis utf8_bytes_loop_units toUtf8String_points_def append_Nil sum.inject(2))

text \<open>
  C4. \<open>toUtf8String\<close> and \<open>toUtf8Bytes\<close> are inverse: bytes decode strictly to a string
  exactly when the string is well-formed UTF-16 and encodes to those bytes.
\<close>

theorem utf8_string_roundtrip:
  "toUtf8String (DU8 bs) None = Inr s \<longleftrightarrow> wf_utf16 s \<and> toUtf8Bytes plat nfun s None = Inr bs"
proof
  assume "toUtf8String (DU8 bs) None = Inr s"
  then obtain cps where "list_all scalar cps" "map unat bs = concat (map utf8_encode cps)" "s = toUtf8String_points cps"
    by (auto simp: toUtf8String_def strict_points)
  then show "wf_utf16 s \<and> toUtf8Bytes plat nfun s None = Inr bs"
    by (auto simp: wf_utf16_iff toUtf8Bytes_scalars simp flip: toUtf8String_points_def)
next
  assume "wf_utf16 s \<and> toUtf8Bytes plat nfun s None = Inr bs"
  then obtain cps where "list_all scalar cps" "s = toUtf8String_points cps" "map unat bs = concat (map utf8_encode cps)"
    by (auto simp: wf_utf16_iff toUtf8Bytes_scalars simp flip: toUtf8String_points_def)
  then show "toUtf8String (DU8 bs) None = Inr s"
    by (auto simp: toUtf8String_def strict_points)
qed


text \<open>Which strings \<open>toUtf8Bytes\<close> accepts: every high surrogate is followed by a low one.\<close>

fun highs_paired :: "js_units \<Rightarrow> bool" where
  "highs_paired [] = True"
| "highs_paired (c # r) =
     (if high_surrogate c then (case r of [] \<Rightarrow> False | c2 # r' \<Rightarrow> low_surrogate c2 \<and> highs_paired r')
      else highs_paired r)"

lemma utf8_bytes_loop_accepts:
  "list_all (\<lambda>c. c < 0x10000) s \<Longrightarrow> (\<exists>r. utf8_bytes_loop s acc = Inr r) \<longleftrightarrow> highs_paired s"
proof (induction s arbitrary: acc rule: highs_paired.induct)
  case (2 c r)
  show ?case
  proof (cases "high_surrogate c")
    case False
    with 2 show ?thesis by (simp add: utf8_loop_unit del: utf8_bytes_loop.simps)
  next
    case True
    then have c: "\<not> c < 0x80" "\<not> c < 0x800" "c AND 0xfc00 = 0xd800"
      using surrogate_masks [of c] by (auto simp: high_surrogate_def)
    show ?thesis
    proof (cases "\<exists>d r'. r = d # r' \<and> low_surrogate d")
      case True
      then obtain d r' where r: "r = d # r'" "low_surrogate d" by blast
      with "2.prems" "2.IH"(1) [OF \<open>high_surrogate c\<close>, of d r'] have
        "(\<exists>x. utf8_bytes_loop r' acc' = Inr x) \<longleftrightarrow> highs_paired r'" for acc' by simp
      with r \<open>high_surrogate c\<close> show ?thesis by (simp add: utf8_loop_pair(1) del: utf8_bytes_loop.simps)
    next
      case False
      with \<open>high_surrogate c\<close> c "2.prems" show ?thesis
        by (auto simp: surrogate_masks split: list.splits)
    qed
  qed
qed simp

text \<open>
  \<open>toUtf8Bytes\<close> throws exactly on an unpaired high surrogate, so it does not
  reject every ill-formed string: the lone low surrogate U+DC00 is encoded, and its
  encoding is one that the strict decoder rejects.
\<close>

theorem toUtf8Bytes_accepts:
  "list_all (\<lambda>c. c < 0x10000) s \<Longrightarrow>
     ((\<exists>bs. toUtf8Bytes plat nfun s None = Inr bs) \<longleftrightarrow> highs_paired s) \<and>
     toUtf8Bytes plat nfun [0xdc00] None = Inr [0xed, 0xb0, 0x80] \<and>
     toUtf8String (DU8 [0xed, 0xb0, 0x80]) None = Inl (CoreError INVALID_ARGUMENT ''invalid codepoint'')"
proof (intro conjI)
  show "list_all (\<lambda>c. c < 0x10000) s \<Longrightarrow> (\<exists>bs. toUtf8Bytes plat nfun s None = Inr bs) \<longleftrightarrow> highs_paired s"
    using utf8_bytes_loop_accepts [of s "[]"] by (simp add: toUtf8Bytes_def)
  show "toUtf8Bytes plat nfun [0xdc00] None = Inr [0xed, 0xb0, 0x80]"
    by (simp add: toUtf8Bytes_def utf8_loop_unit high_surrogate_def utf8_encode_def del: utf8_bytes_loop.simps(2))
  show "toUtf8String (DU8 [0xed, 0xb0, 0x80]) None = Inl (CoreError INVALID_ARGUMENT ''invalid codepoint'')"
    by (simp add: toUtf8String_def getUtf8CodePoints_def getBytes_DU8 utf8_loop.simps [of errorFunc _ 0]
        strict_step_eq utf8_lead_cases utf8_continue_snd is_cont_def scalar_def)
qed

lemma toUtf8Bytes_accepts_witness:
  "highs_paired [0x41, 0xd83d, 0xde00, 0xdc01] \<and>
   (\<forall>plat nfun. \<exists>bs. toUtf8Bytes plat nfun [0x41, 0xd83d, 0xde00, 0xdc01] None = Inr bs)"
  using toUtf8Bytes_accepts [of "[0x41, 0xd83d, 0xde00, 0xdc01]"]
  by (simp add: high_surrogate_def low_surrogate_def del: utf8_bytes_loop.simps)

section \<open>Lenient decoding\<close>

lemma utf8_loop_total:
  assumes "\<And>i out. i < length bytes \<Longrightarrow> \<exists>r. utf8_step f bytes i out = Inr r"
  shows "\<exists>r. utf8_loop f bytes i out = Inr r"
proof (induction "length bytes - i" arbitrary: i out rule: less_induct)
  case less
  show ?case
  proof (cases "i < length bytes")
    case True
    with assms obtain adv out' where "utf8_step f bytes i out = Inr (adv, out')" by (metis surj_pair)
    moreover have "length bytes - Suc (i + adv) < length bytes - i" using True by linarith
    then obtain r where "utf8_loop f bytes (Suc (i + adv)) out' = Inr r" using less by blast
    ultimately show ?thesis using True by (subst utf8_loop.simps) simp
  qed (subst utf8_loop.simps, simp)
qed

text \<open>
  With \<open>ignoreFunc\<close> or \<open>replaceFunc\<close> decoding never throws and always ends, on
  any bytes: the callbacks' own error (an overlong report without a code point)
  is unreachable.
\<close>

theorem utf8_lenient_total:
  "(\<exists>cps. getUtf8CodePoints (DU8 bs) (Some ignoreFunc) = Inr cps) \<and>
   (\<exists>cps. getUtf8CodePoints (DU8 bs) (Some replaceFunc) = Inr cps)"
proof -
  have step: "\<exists>r. utf8_step f bytes i out = Inr r"
    if f: "\<And>r off b z bad. r \<noteq> OVERLONG \<or> bad \<noteq> None \<Longrightarrow> \<exists>x. f r off b z bad = Inr x" for f bytes i out
  proof -
    have rep: "\<exists>a b. bindE (f r off bytes out bad) (\<lambda>(skip, z). Inr (g skip, z)) = Inr (a, b)"
        "\<exists>a b. bindE (f r off bytes out bad) Inr = Inr (a, b)"
      if "r \<noteq> OVERLONG \<or> bad \<noteq> None" for r off bad g
      using f [OF that, of off bytes out] by (auto simp: split_def)
    show ?thesis unfolding utf8_step_def Let_def
      by (simp add: rep del: bindE_eq_Inr split: option.split prod.split)
  qed
  have ign: "\<exists>x. ignoreFunc r off b out bad = Inr x" for r off b out bad
    by (simp add: ignoreFunc_def)
  have rep: "\<exists>x. replaceFunc r off b out bad = Inr x" if "r \<noteq> OVERLONG \<or> bad \<noteq> None" for r off b out bad
    using that ign by (auto simp: replaceFunc_def)
  from utf8_loop_total [OF step [of ignoreFunc, OF ign]] utf8_loop_total [OF step [of replaceFunc, OF rep]]
  show ?thesis unfolding getUtf8CodePoints_def getBytes_DU8 by simp
qed

end
