(* ===== verification/Abi_Coder.thy ===== *)
theory Abi_Coder
  imports Address Utf8
begin

text \<open>
  \<open>src.ts/abi/coders/*.ts\<close>: the ABI coders over a \<open>Writer\<close> and a \<open>Reader\<close>. A coder
  class is a constructor of \<open>coder\<close>; \<open>encode\<close> and \<open>decode\<close> are the methods of all of
  them. The writer is passed as a state; decoding catches errors and goes on, so
  a decoder returns its reader whether it throws or not.
\<close>

section \<open>Values\<close>

text \<open>
  JavaScript values as encoding sees them. Text is \<open>VText\<close> by code units or, for
  hexadecimal and numeric strings, \<open>VData (DStr s)\<close>; \<open>VResult\<close> is a decoded
  \<open>Result\<close> with its unique names, \<open>VErr\<close> an error object, as a deferred decoding
  error is one.
\<close>

datatype abi_value =
    VUndef | VNull | VBool bool | VText js_units | VData js_data
  | VArr "abi_value list" | VObj "(string \<times> abi_value) list"
  | VResult "abi_value list" "string option list"
  | VTyped string abi_value | VErr error

definition as_units :: "abi_value \<Rightarrow> js_units option" where
  "as_units v = (case v of VText u \<Rightarrow> Some u | VData (DStr s) \<Rightarrow> Some (map of_char s) | _ \<Rightarrow> None)"

text \<open>Text with a unit above 255 is no number, no address and no hexadecimal string.\<close>

definition as_data :: "abi_value \<Rightarrow> js_data option" where
  "as_data v =
     (case v of
        VData d \<Rightarrow> Some d
      | VText u \<Rightarrow> if list_all (\<lambda>c. c < 256) u then Some (DStr (map char_of u)) else None
      | _ \<Rightarrow> None)"

definition invalid_value :: "'a result" where
  "invalid_value = Inl (CoreError INVALID_ARGUMENT ''invalid value'')"

definition data_of :: "abi_value \<Rightarrow> js_data result" where
  "data_of v = (case as_data v of Some d \<Rightarrow> Inr d | None \<Rightarrow> invalid_value)"

fun truthy :: "abi_value \<Rightarrow> bool" where
  "truthy VUndef = False"
| "truthy VNull = False"
| "truthy (VBool b) = b"
| "truthy (VText u) = (u \<noteq> [])"
| "truthy (VData (DStr s)) = (s \<noteq> [])"
| "truthy (VData (DNum x)) = (x \<noteq> NaN \<and> x \<noteq> Fin 0)"
| "truthy (VData (DBig n)) = (n \<noteq> 0)"
| "truthy _ = True"

definition dereference :: "abi_value \<Rightarrow> string \<Rightarrow> abi_value result" where
  "dereference value type =
     (case value of
        VTyped t v \<Rightarrow> if t \<noteq> type then Inl (JsError NativeError ''invalid type'') else Inr v
      | v \<Rightarrow> Inr v)"

section \<open>Result\<close>

text \<open>A name is kept where it is given and occurs once.\<close>

definition unique_names :: "nat \<Rightarrow> string option list \<Rightarrow> string option list" where
  "unique_names n names =
     map (\<lambda>i. if i < length names then
                 (case names ! i of
                    Some s \<Rightarrow> if count_list names (Some s) = 1 then Some s else None
                  | None \<Rightarrow> None)
              else None) [0..<n]"

definition fromItems :: "abi_value list \<Rightarrow> string option list \<Rightarrow> abi_value" where
  "fromItems items keys = VResult items (unique_names (length items) keys)"

definition deferred_error :: "string \<Rightarrow> error" where
  "deferred_error name =
     JsError NativeError (''deferred error during ABI decoding triggered accessing '' @ name)"

text \<open>Reading an element through the proxy: out of range and deferred errors throw.\<close>

definition result_index :: "abi_value list \<Rightarrow> nat \<Rightarrow> abi_value result" where
  "result_index items i =
     (if i \<ge> length items then Inl (JsError NativeRangeError ''out of result range'')
      else case items ! i of
             VErr e \<Rightarrow> Inl (deferred_error (''index '' @ nat_toString 10 i))
           | v \<Rightarrow> Inr v)"

definition result_toArray :: "abi_value list \<Rightarrow> abi_value list result" where
  "result_toArray items = mapM (result_index items) [0..<length items]"

fun find_index :: "'a \<Rightarrow> 'a list \<Rightarrow> nat option" where
  "find_index x [] = None"
| "find_index x (y # ys) = (if x = y then Some 0 else map_option Suc (find_index x ys))"

text \<open>On the target itself, so an element is read without the proxy.\<close>

definition result_getValue :: "abi_value list \<Rightarrow> string option list \<Rightarrow> string \<Rightarrow> abi_value result" where
  "result_getValue items names name =
     (case find_index (Some name) names of
        None \<Rightarrow> Inr VUndef
      | Some i \<Rightarrow> (case items ! i of
                    VErr e \<Rightarrow> Inl (deferred_error (''property '' @ name))
                  | v \<Rightarrow> Inr v))"

text \<open>The names an object literal inherits, as lookups in \<open>{}\<close> see them.\<close>

definition object_prototype :: "string list" where
  "object_prototype =
     [''constructor'', ''__defineGetter__'', ''__defineSetter__'', ''hasOwnProperty'',
      ''__lookupGetter__'', ''__lookupSetter__'', ''isPrototypeOf'', ''propertyIsEnumerable'',
      ''toString'', ''valueOf'', ''__proto__'', ''toLocaleString'']"

text \<open>The names are unique, so \<open>name in accum\<close> can only see an inherited one.\<close>

definition result_toObject ::
    "abi_value list \<Rightarrow> string option list \<Rightarrow> (string \<times> abi_value) list result" where
  "result_toObject items names =
     mapE concat (mapM (\<lambda>name.
       bindE (assert (name \<noteq> None) ''value at index ${ index } unnamed'' UNSUPPORTED_OPERATION) (\<lambda>_.
         if the name \<in> set object_prototype then Inr []
         else bindE (result_getValue items names (the name)) (\<lambda>v. Inr [(the name, v)]))) names)"

definition result_slice ::
    "abi_value list \<Rightarrow> string option list \<Rightarrow> int option \<Rightarrow> int option \<Rightarrow> abi_value" where
  "result_slice items names start endd =
     (let n = int (length items);
          fix = (\<lambda>i. if i < 0 then max 0 (i + n) else i);
          s = fix (case start of None \<Rightarrow> 0 | Some i \<Rightarrow> i);
          e = min n (fix (case endd of None \<Rightarrow> n | Some i \<Rightarrow> i));
          ix = map nat [s..e - 1]
      in fromItems (map (\<lambda>i. items ! i) ix) (map (\<lambda>i. names ! i) ix))"

definition result_filter ::
    "abi_value list \<Rightarrow> string option list \<Rightarrow> (abi_value \<Rightarrow> nat \<Rightarrow> bool) \<Rightarrow> abi_value result" where
  "result_filter items names callback =
     bindE (mapM (\<lambda>i. case items ! i of
                   VErr e \<Rightarrow> Inl (deferred_error (''index '' @ nat_toString 10 i))
                 | v \<Rightarrow> Inr (if callback v i then [(v, names ! i)] else [])) [0..<length items]) (\<lambda>kept.
       Inr (fromItems (map fst (concat kept)) (map snd (concat kept))))"

text \<open>
  \<open>checkResultErrors\<close>: the paths of indices to elements whose access throws, and what
  it throws. Deferred errors throw only where a \<open>Result\<close> holds them.
\<close>

definition is_error :: "abi_value \<Rightarrow> bool" where
  "is_error v = (case v of VErr _ \<Rightarrow> True | _ \<Rightarrow> False)"

fun checkErrors :: "nat list \<Rightarrow> abi_value \<Rightarrow> (nat list \<times> error) list"
and checkErrors_keys :: "bool \<Rightarrow> nat list \<Rightarrow> nat \<Rightarrow> abi_value list \<Rightarrow> (nat list \<times> error) list" where
  "checkErrors path (VResult items names) = checkErrors_keys True path 0 items"
| "checkErrors path (VArr items) = checkErrors_keys False path 0 items"
| "checkErrors path _ = []"
| "checkErrors_keys proxied path i [] = []"
| "checkErrors_keys proxied path i (v # vs) =
     (if proxied \<and> is_error v then [(path @ [i], deferred_error (''index '' @ nat_toString 10 i))]
      else checkErrors (path @ [i]) v) @ checkErrors_keys proxied path (Suc i) vs"

definition checkResultErrors :: "abi_value \<Rightarrow> (nat list \<times> error) list" where
  "checkResultErrors result = checkErrors [] result"

section \<open>Coders\<close>

text \<open>A dynamic array is one without a length (\<open>-1\<close> in the source).\<close>

datatype coder =
    AddressCoder string | BooleanCoder string | NumberCoder nat bool string
  | FixedBytesCoder nat string | BytesCoder string | StringCoder string | NullCoder string
  | ArrayCoder coder "nat option" string | TupleCoder "coder list" string | AnonymousCoder coder

fun coder_localName :: "coder \<Rightarrow> string" where
  "coder_localName (AddressCoder n) = n"
| "coder_localName (BooleanCoder n) = n"
| "coder_localName (NumberCoder _ _ n) = n"
| "coder_localName (FixedBytesCoder _ n) = n"
| "coder_localName (BytesCoder n) = n"
| "coder_localName (StringCoder n) = n"
| "coder_localName (NullCoder n) = n"
| "coder_localName (ArrayCoder _ _ n) = n"
| "coder_localName (TupleCoder _ n) = n"
| "coder_localName (AnonymousCoder _) = ''_''"

fun coder_dynamic :: "coder \<Rightarrow> bool" where
  "coder_dynamic (BytesCoder _) = True"
| "coder_dynamic (StringCoder _) = True"
| "coder_dynamic (ArrayCoder c len _) = (len = None \<or> coder_dynamic c)"
| "coder_dynamic (TupleCoder cs _) = list_ex coder_dynamic cs"
| "coder_dynamic (AnonymousCoder c) = coder_dynamic c"
| "coder_dynamic _ = False"

definition number_type :: "nat \<Rightarrow> bool \<Rightarrow> string" where
  "number_type sz signd = (if signd then ''int'' else ''uint'') @ nat_toString 10 (sz * 8)"

definition fixed_type :: "nat \<Rightarrow> string" where
  "fixed_type sz = ''bytes'' @ nat_toString 10 sz"

fun join_commas :: "string list \<Rightarrow> string" where
  "join_commas [] = []"
| "join_commas [s] = s"
| "join_commas (s # ss) = s @ CHR '','' # join_commas ss"

fun coder_type :: "coder \<Rightarrow> string" where
  "coder_type (AddressCoder _) = ''address''"
| "coder_type (BooleanCoder _) = ''bool''"
| "coder_type (NumberCoder sz signd _) = number_type sz signd"
| "coder_type (FixedBytesCoder sz _) = fixed_type sz"
| "coder_type (BytesCoder _) = ''bytes''"
| "coder_type (StringCoder _) = ''string''"
| "coder_type (NullCoder _) = []"
| "coder_type (ArrayCoder c len _) =
     coder_type c @ ''['' @ (case len of Some n \<Rightarrow> nat_toString 10 n | None \<Rightarrow> []) @ '']''"
| "coder_type (TupleCoder cs _) = ''tuple('' @ join_commas (map coder_type cs) @ '')''"
| "coder_type (AnonymousCoder c) = coder_type c"

section \<open>Default values\<close>

text \<open>
  The elements of a default value; the named properties of a tuple's one are
  \<open>tuple_properties\<close>, a name and the index of the element. A dynamic array has
  length -1 and so no element.
\<close>

fun defaultValue :: "coder \<Rightarrow> abi_value" where
  "defaultValue (AddressCoder _) = VData (DStr (''0x'' @ replicate 40 CHR ''0''))"
| "defaultValue (BooleanCoder _) = VBool False"
| "defaultValue (NumberCoder _ _ _) = VData (DNum (Fin 0))"
| "defaultValue (FixedBytesCoder sz _) = VData (DStr (take (2 + sz * 2) (''0x'' @ replicate 64 CHR ''0'')))"
| "defaultValue (BytesCoder _) = VData (DStr ''0x'')"
| "defaultValue (StringCoder _) = VText []"
| "defaultValue (NullCoder _) = VNull"
| "defaultValue (ArrayCoder c len _) = VArr (replicate (case len of Some n \<Rightarrow> n | None \<Rightarrow> 0) (defaultValue c))"
| "defaultValue (TupleCoder cs _) = VArr (map defaultValue cs)"
| "defaultValue (AnonymousCoder c) = defaultValue c"

text \<open>The properties every array has, which a coder's name does not replace.\<close>

definition array_prototype :: "string list" where
  "array_prototype =
     [''length'', ''at'', ''concat'', ''copyWithin'', ''fill'', ''find'', ''findIndex'', ''findLast'', ''findLastIndex'',
      ''lastIndexOf'', ''pop'', ''push'', ''reverse'', ''shift'', ''unshift'', ''slice'', ''sort'', ''splice'',
      ''includes'', ''indexOf'', ''join'', ''keys'', ''entries'', ''values'', ''forEach'', ''filter'', ''flat'',
      ''flatMap'', ''map'', ''every'', ''some'', ''reduce'', ''reduceRight'', ''toReversed'', ''toSorted'',
      ''toSpliced'', ''with''] @ object_prototype"

text \<open>A property keeps its first value that is not \<open>null\<close>; names are no array indices.\<close>

definition tuple_properties :: "coder list \<Rightarrow> (string \<times> nat) list" where
  "tuple_properties cs =
     (let names = map coder_localName cs
      in foldl (\<lambda>props (i, name0).
           if name0 = [] \<or> name0 \<in> set object_prototype \<or> count_list names name0 \<noteq> 1 then props
           else let name = (if name0 = ''length'' then ''_length'' else name0)
                in if name \<in> set array_prototype \<or>
                      (case map_of props name of None \<Rightarrow> False | Some k \<Rightarrow> defaultValue (cs ! k) \<noteq> VNull) then props
                   else (name, i) # props) [] (enumerate 0 names))"

section \<open>Writer\<close>

definition WordSize :: nat where
  "WordSize = 32"

definition Padding :: "byte list" where
  "Padding = replicate WordSize 0"

definition getValue_word :: "js_data \<Rightarrow> byte list result" where
  "getValue_word value =
     bindE (toBeArray value) (\<lambda>bytes.
     bindE (assert (length bytes \<le> WordSize) ''value out-of-bounds'' BUFFER_OVERRUN) (\<lambda>_.
       if length bytes \<noteq> WordSize
       then bindE (concat_data [DU8 (drop (length bytes mod WordSize) Padding), DU8 bytes]) (\<lambda>h. getBytes (DStr h))
       else Inr bytes))"

record writer =
  wdata :: "byte list list"
  wlength :: nat

definition empty_writer :: writer where
  "empty_writer = \<lparr>wdata = [], wlength = 0\<rparr>"

definition writer_data :: "writer \<Rightarrow> string result" where
  "writer_data w = concat_data (map DU8 (wdata w))"

definition writeData :: "writer \<Rightarrow> byte list \<Rightarrow> writer" where
  "writeData w d = \<lparr>wdata = wdata w @ [d], wlength = wlength w + length d\<rparr>"

definition appendWriter :: "writer \<Rightarrow> writer \<Rightarrow> writer result" where
  "appendWriter w other =
     bindE (writer_data other) (\<lambda>h. bindE (getBytes (DStr h)) (\<lambda>bs. Inr (writeData w bs)))"

definition writeBytes :: "writer \<Rightarrow> js_data \<Rightarrow> writer result" where
  "writeBytes w value =
     bindE (getBytes value) (\<lambda>bytes.
       let paddingOffset = length bytes mod WordSize
       in bindE (if paddingOffset \<noteq> 0
                 then bindE (concat_data [DU8 bytes, DU8 (drop paddingOffset Padding)]) (\<lambda>h. getBytes (DStr h))
                 else Inr bytes)
            (\<lambda>bs. Inr (writeData w bs)))"

definition writeValue :: "writer \<Rightarrow> js_data \<Rightarrow> writer result" where
  "writeValue w value = bindE (getValue_word value) (\<lambda>bs. Inr (writeData w bs))"

text \<open>A placeholder, and the callback that fills it in: the index in the data.\<close>

definition writeUpdatableValue :: "writer \<Rightarrow> nat \<times> writer" where
  "writeUpdatableValue w =
     (length (wdata w), \<lparr>wdata = wdata w @ [Padding], wlength = wlength w + WordSize\<rparr>)"

definition updateValue :: "writer \<Rightarrow> nat \<Rightarrow> js_data \<Rightarrow> writer result" where
  "updateValue w offset value = bindE (getValue_word value) (\<lambda>bs. Inr (w\<lparr>wdata := (wdata w)[offset := bs]\<rparr>))"

section \<open>pack\<close>

text \<open>\<open>unique\<close> starts as \<open>{}\<close>, so its lookups see the inherited names.\<close>

fun object_values :: "(string \<times> abi_value) list \<Rightarrow> string list \<Rightarrow> string list \<Rightarrow> abi_value list result" where
  "object_values values unique [] = Inr []"
| "object_values values unique (name # names) =
     bindE (assert (name \<noteq> []) ''cannot encode object for signature with missing names'' INVALID_ARGUMENT) (\<lambda>_.
     bindE (assert (name \<notin> set unique) ''cannot encode object for signature with duplicate names'' INVALID_ARGUMENT) (\<lambda>_.
     bindE (object_values values (name # unique) names) (\<lambda>vs.
       Inr ((case map_of values name of Some v \<Rightarrow> v | None \<Rightarrow> VUndef) # vs))))"

text \<open>
  The array of values \<open>pack\<close> reads from: each is read later, when its coder runs,
  which throws for a deferred error in a \<open>Result\<close>. An object that is no array is
  read by name; one without the names gives \<open>undefined\<close>.
\<close>

definition arrayValues :: "string list \<Rightarrow> abi_value \<Rightarrow> abi_value result list result" where
  "arrayValues names values =
     (case values of
        VArr vs \<Rightarrow> Inr (map Inr vs)
      | VData (DArr ns) \<Rightarrow> Inr (map (\<lambda>n. Inr (VData (DNum n))) ns)
      | VResult vs _ \<Rightarrow> Inr (map (result_index vs) [0..<length vs])
      | VObj kvs \<Rightarrow> mapE (map Inr) (object_values kvs object_prototype names)
      | VData (DU8 _) \<Rightarrow> mapE (map Inr) (object_values [] object_prototype names)
      | VData (DHexable _) \<Rightarrow> mapE (map Inr) (object_values [] object_prototype names)
      | VTyped _ _ \<Rightarrow> mapE (map Inr) (object_values [] object_prototype names)
      | VErr _ \<Rightarrow> mapE (map Inr) (object_values [] object_prototype names)
      | _ \<Rightarrow> Inl (CoreError INVALID_ARGUMENT ''invalid tuple value''))"

text \<open>What \<open>pack\<close> uses of a coder: its flag, its name and its \<open>encode\<close>.\<close>

type_synonym packer = "bool \<times> string \<times> (writer \<Rightarrow> abi_value \<Rightarrow> writer result)"

fun pack_loop ::
    "packer list \<Rightarrow> abi_value result list \<Rightarrow> writer \<Rightarrow> writer \<Rightarrow> (nat \<times> nat) list
     \<Rightarrow> (writer \<times> writer \<times> (nat \<times> nat) list) result" where
  "pack_loop ((dyn, _, enc) # cs) (value # vs) staticW dynamicW updates =
     bindE value (\<lambda>v.
       if dyn
       then let dynamicOffset = wlength dynamicW
            in bindE (enc dynamicW v) (\<lambda>dynamicW'.
                 let (slot, staticW') = writeUpdatableValue staticW
                 in pack_loop cs vs staticW' dynamicW' (updates @ [(slot, dynamicOffset)]))
       else bindE (enc staticW v) (\<lambda>staticW'. pack_loop cs vs staticW' dynamicW updates))"
| "pack_loop _ _ staticW dynamicW updates = Inr (staticW, dynamicW, updates)"

fun backfill :: "nat \<Rightarrow> (nat \<times> nat) list \<Rightarrow> writer \<Rightarrow> writer result" where
  "backfill base [] w = Inr w"
| "backfill base ((slot, off) # us) w =
     bindE (updateValue w slot (DNum (num_of_int (int (base + off))))) (backfill base us)"

definition pack :: "writer \<Rightarrow> packer list \<Rightarrow> abi_value \<Rightarrow> writer result" where
  "pack w coders values =
     bindE (arrayValues (map (\<lambda>(_, name, _). name) coders) values) (\<lambda>vals.
     bindE (assertArgument (length coders = length vals) ''types/value length mismatch'') (\<lambda>_.
     bindE (pack_loop coders vals empty_writer empty_writer []) (\<lambda>(staticW, dynamicW, updates).
     bindE (backfill (wlength staticW) updates staticW) (\<lambda>staticW'.
     bindE (appendWriter w staticW') (\<lambda>w'. appendWriter w' dynamicW)))))"

section \<open>encode\<close>

definition MAX_UINT256 :: js_data where
  "MAX_UINT256 = DBig (2 ^ 256 - 1)"

definition num_of_size :: "nat \<Rightarrow> js_data" where
  "num_of_size n = DNum (num_of_int (int n))"

definition out_of_bounds :: "'a result" where
  "out_of_bounds = Inl (CoreError INVALID_ARGUMENT ''value out-of-bounds'')"

definition encode_number :: "nat \<Rightarrow> bool \<Rightarrow> writer \<Rightarrow> abi_value \<Rightarrow> writer result" where
  "encode_number sz signd w v0 =
     bindE (dereference v0 (number_type sz signd)) (\<lambda>v.
     bindE (data_of v) (\<lambda>d.
     bindE (getBigInt d) (\<lambda>value.
     bindE (mask_bits MAX_UINT256 (num_of_size (WordSize * 8))) (\<lambda>maxUintValue.
       if signd
       then bindE (mask_bits (DBig maxUintValue) (DNum (num_of_int (int (sz * 8) - 1)))) (\<lambda>bounds.
              if value > bounds \<or> value < - (bounds + 1) then out_of_bounds
              else bindE (toTwos (DBig value) (num_of_size (8 * WordSize))) (\<lambda>t. writeValue w (DBig t)))
       else bindE (mask_bits (DBig maxUintValue) (num_of_size (sz * 8))) (\<lambda>bounds.
              if value < 0 \<or> value > bounds then out_of_bounds
              else writeValue w (DBig value))))))"

definition encode_address :: "writer \<Rightarrow> abi_value \<Rightarrow> writer result" where
  "encode_address w v0 =
     bindE (dereference v0 ''string'') (\<lambda>v.
       case (case as_data v of Some (DStr s) \<Rightarrow> getAddress s | _ \<Rightarrow> invalid_value) of
         Inr a \<Rightarrow> writeValue w (DStr a)
       | Inl e \<Rightarrow> Inl (CoreError INVALID_ARGUMENT (error_message e)))"

definition encode_fixed :: "nat \<Rightarrow> writer \<Rightarrow> abi_value \<Rightarrow> writer result" where
  "encode_fixed sz w v0 =
     bindE (dereference v0 (fixed_type sz)) (\<lambda>v.
     bindE (data_of v) (\<lambda>d.
     bindE (getBytes d) (\<lambda>bs.
       if length bs \<noteq> sz then Inl (CoreError INVALID_ARGUMENT ''incorrect data length'')
       else writeBytes w (DU8 bs))))"

text \<open>\<open>DynamicBytesCoder.encode\<close>, given the bytes.\<close>

definition encode_dynamic_bytes :: "writer \<Rightarrow> byte list \<Rightarrow> writer result" where
  "encode_dynamic_bytes w bs =
     bindE (writeValue w (num_of_size (length bs))) (\<lambda>w'. writeBytes w' (DU8 bs))"

definition encode_string :: "writer \<Rightarrow> abi_value \<Rightarrow> writer result" where
  "encode_string w v0 =
     bindE (dereference v0 ''string'') (\<lambda>v.
       case as_units v of
         None \<Rightarrow> invalid_value
       | Some u \<Rightarrow> bindE (toUtf8Bytes [] (\<lambda>_. id) u None) (encode_dynamic_bytes w))"

text \<open>The elements an array coder counts; \<open>None\<close> where \<open>Array.isArray\<close> fails.\<close>

definition array_length :: "abi_value \<Rightarrow> nat option" where
  "array_length v =
     (case v of VArr vs \<Rightarrow> Some (length vs) | VResult vs _ \<Rightarrow> Some (length vs)
      | VData (DArr ns) \<Rightarrow> Some (length ns) | _ \<Rightarrow> None)"

definition encode_array ::
    "nat option \<Rightarrow> string \<Rightarrow> packer \<Rightarrow> writer \<Rightarrow> abi_value \<Rightarrow> writer result" where
  "encode_array len localName child w v0 =
     bindE (dereference v0 ''array'') (\<lambda>v.
       case array_length v of
         None \<Rightarrow> Inl (CoreError INVALID_ARGUMENT ''expected array value'')
       | Some n \<Rightarrow>
           bindE (case len of None \<Rightarrow> writeValue w (num_of_size n) | Some _ \<Rightarrow> Inr w) (\<lambda>w'.
           bindE (assertArgumentCount n (case len of None \<Rightarrow> n | Some c \<Rightarrow> c)
                    (''coder array'' @ (if localName \<noteq> [] then '' '' @ localName else []))) (\<lambda>_.
             pack w' (replicate n child) v)))"

fun encode :: "coder \<Rightarrow> writer \<Rightarrow> abi_value \<Rightarrow> writer result" where
  "encode (AddressCoder _) w v = encode_address w v"
| "encode (BooleanCoder _) w v =
     bindE (dereference v ''bool'') (\<lambda>b. writeValue w (num_of_size (if truthy b then 1 else 0)))"
| "encode (NumberCoder sz signd _) w v = encode_number sz signd w v"
| "encode (FixedBytesCoder sz _) w v = encode_fixed sz w v"
| "encode (BytesCoder _) w v = bindE (data_of v) (\<lambda>d. bindE (getBytes d) (encode_dynamic_bytes w))"
| "encode (StringCoder _) w v = encode_string w v"
| "encode (NullCoder _) w v =
     (if v \<noteq> VNull \<and> v \<noteq> VUndef then Inl (CoreError INVALID_ARGUMENT ''not null'') else writeBytes w (DU8 []))"
| "encode (ArrayCoder c len nm) w v =
     encode_array len nm (coder_dynamic c, coder_localName c, \<lambda>w' v'. encode c w' v') w v"
| "encode (TupleCoder cs _) w v =
     bindE (dereference v ''tuple'') (\<lambda>v'.
       pack w (map (\<lambda>c. (coder_dynamic c, coder_localName c, \<lambda>w' x. encode c w' x)) cs) v')"
| "encode (AnonymousCoder c) w v = encode c w v"

section \<open>Reader\<close>

record reader =
  rdata :: "byte list"
  roffset :: nat
  rloose :: bool

definition new_reader :: "js_data \<Rightarrow> bool \<Rightarrow> reader result" where
  "new_reader d loose = bindE (getBytes d) (\<lambda>bs. Inr \<lparr>rdata = bs, roffset = 0, rloose = loose\<rparr>)"

definition peekBytes :: "reader \<Rightarrow> nat \<Rightarrow> bool \<Rightarrow> byte list result" where
  "peekBytes r len loose =
     (let alignedLength = (len + (WordSize - 1)) div WordSize * WordSize
      in if roffset r + alignedLength > length (rdata r)
         then if rloose r \<and> loose \<and> roffset r + len \<le> length (rdata r)
              then Inr (take len (drop (roffset r) (rdata r)))
              else Inl (CoreError BUFFER_OVERRUN ''data out-of-bounds'')
         else Inr (take alignedLength (drop (roffset r) (rdata r))))"

definition subReader :: "reader \<Rightarrow> nat \<Rightarrow> reader" where
  "subReader r offset = \<lparr>rdata = drop (roffset r + offset) (rdata r), roffset = 0, rloose = rloose r\<rparr>"

text \<open>A reading step: the outcome, and the reader after it.\<close>

type_synonym 'a reading = "reader \<Rightarrow> 'a result \<times> reader"

definition rbind :: "'a reading \<Rightarrow> ('a \<Rightarrow> 'b reading) \<Rightarrow> 'b reading" where
  "rbind m f r = (case m r of (Inl e, r') \<Rightarrow> (Inl e, r') | (Inr x, r') \<Rightarrow> f x r')"

definition rlift :: "'a result \<Rightarrow> 'a reading" where
  "rlift x r = (x, r)"

definition readBytes :: "nat \<Rightarrow> bool \<Rightarrow> byte list reading" where
  "readBytes len loose r =
     (case peekBytes r len loose of
        Inl e \<Rightarrow> (Inl e, r)
      | Inr bytes \<Rightarrow> (Inr (take len bytes), r\<lparr>roffset := roffset r + length bytes\<rparr>))"

definition readValue :: "int reading" where
  "readValue = rbind (readBytes WordSize False) (\<lambda>bs. rlift (toBigInt (DU8 bs)))"

definition readIndex :: "nat reading" where
  "readIndex = rbind (readBytes WordSize False) (\<lambda>bs. rlift (mapE nat (toNumber (DU8 bs))))"

section \<open>unpack\<close>

type_synonym unpacker = "bool \<times> string \<times> abi_value reading"

text \<open>The two \<open>try\<close> blocks: an overrun is thrown on, any other error is the value.\<close>

definition deferred :: "abi_value result \<Rightarrow> abi_value result" where
  "deferred x =
     (case x of Inr v \<Rightarrow> Inr v
      | Inl e \<Rightarrow> if isError e BUFFER_OVERRUN then Inl e else Inr (VErr e))"

definition unpack_value :: "reader \<Rightarrow> bool \<Rightarrow> abi_value reading \<Rightarrow> abi_value reading" where
  "unpack_value baseReader dyn dec =
     (if dyn
      then rbind readIndex (\<lambda>offset. rlift (deferred (fst (dec (subReader baseReader offset)))))
      else (\<lambda>r. let (x, r') = dec r in (deferred x, r')))"

fun unpack_loop ::
    "reader \<Rightarrow> unpacker list \<Rightarrow> abi_value list \<Rightarrow> string option list
     \<Rightarrow> (abi_value list \<times> string option list) reading" where
  "unpack_loop baseReader [] values keys = rlift (Inr (values, keys))"
| "unpack_loop baseReader ((dyn, name, dec) # cs) values keys =
     rbind (unpack_value baseReader dyn dec) (\<lambda>value.
       if value = VNull \<or> value = VUndef then rlift (Inl (JsError NativeError ''investigate''))
       else unpack_loop baseReader cs (values @ [value]) (keys @ [if name = [] then None else Some name]))"

definition unpack :: "unpacker list \<Rightarrow> abi_value reading" where
  "unpack coders r =
     rbind (unpack_loop (subReader r 0) coders [] []) (\<lambda>(values, keys). rlift (Inr (fromItems values keys))) r"

section \<open>decode\<close>

definition decode_address :: "abi_value reading" where
  "decode_address =
     rbind readValue (\<lambda>n. rlift (
       bindE (toBeHex (DBig n) (Some (num_of_size 22))) (\<lambda>h. bindE (getAddress h) (\<lambda>a. Inr (VData (DStr a))))))"

definition decode_number :: "nat \<Rightarrow> bool \<Rightarrow> abi_value reading" where
  "decode_number sz signd =
     rbind readValue (\<lambda>n. rlift (
       bindE (mask_bits (DBig n) (num_of_size (sz * 8))) (\<lambda>value.
         if signd then mapE (\<lambda>x. VData (DBig x)) (fromTwos (DBig value) (num_of_size (sz * 8)))
         else Inr (VData (DBig value)))))"

definition hex_value :: "byte list \<Rightarrow> abi_value result" where
  "hex_value bs = mapE (\<lambda>h. VData (DStr h)) (hexlify (DU8 bs) no_options)"

definition decode_dynamic_bytes :: "byte list reading" where
  "decode_dynamic_bytes = rbind readIndex (\<lambda>len. readBytes len True)"

definition decode_count :: "nat option \<Rightarrow> nat reading" where
  "decode_count len =
     (case len of
        Some n \<Rightarrow> rlift (Inr n)
      | None \<Rightarrow> rbind readIndex (\<lambda>count r.
          (bindE (assert (count * WordSize \<le> length (rdata r)) ''insufficient data length'' BUFFER_OVERRUN)
             (\<lambda>_. Inr count), r)))"

fun decode :: "coder \<Rightarrow> abi_value reading" where
  "decode (AddressCoder _) r = decode_address r"
| "decode (BooleanCoder _) r = rbind readValue (\<lambda>n. rlift (Inr (VBool (n \<noteq> 0)))) r"
| "decode (NumberCoder sz signd _) r = decode_number sz signd r"
| "decode (FixedBytesCoder sz _) r = rbind (readBytes sz False) (\<lambda>bs. rlift (hex_value bs)) r"
| "decode (BytesCoder _) r = rbind decode_dynamic_bytes (\<lambda>bs. rlift (hex_value bs)) r"
| "decode (StringCoder _) r = rbind decode_dynamic_bytes (\<lambda>bs. rlift (mapE VText (toUtf8String (DU8 bs) None))) r"
| "decode (NullCoder _) r = rbind (readBytes 0 False) (\<lambda>_. rlift (Inr VNull)) r"
| "decode (ArrayCoder c len _) r =
     rbind (decode_count len) (\<lambda>count.
       unpack (replicate count (coder_dynamic c, ''_'', \<lambda>r'. decode c r'))) r"
| "decode (TupleCoder cs _) r =
     unpack (map (\<lambda>c. (coder_dynamic c, coder_localName c, \<lambda>r'. decode c r')) cs) r"
| "decode (AnonymousCoder c) r = decode c r"

end
