(* ===== verification/Abi_Roundtrip.thy ===== *)
theory Abi_Roundtrip
  imports Abi_Coder
begin

text \<open>
  What the coders of \<open>Abi_Coder\<close> promise. First the writer: every \<open>encode\<close> only
  appends (\<open>frame\<close>), and \<open>pack\<close> with its placeholders and back-filling lays out the
  heads and tails of the ABI specification (\<open>tuple_bytes\<close>). Then the reader: what
  was laid out so is read back, for every type by induction on the coder.
\<close>

section \<open>Words\<close>

definition abi_word :: "nat \<Rightarrow> byte list" where
  "abi_word n = replicate (32 - length (bytes_of_nat n)) 0 @ bytes_of_nat n"

lemma toBeArray_getUint: "toBeArray d = mapE (\<lambda>n. bytes_of_nat (nat n)) (getUint d)"
proof (cases "getUint d")
  case (Inr n)
  then have "0 \<le> n" by (auto simp: getUint_def)
  moreover have "toBeArray d = toBeArray (DBig n)"
    using Inr \<open>0 \<le> n\<close> by (simp add: toBeArray_def)
  ultimately show ?thesis using Inr by (simp add: toBeArray_Big)
qed (simp add: toBeArray_def)

lemma length_bytes_of_nat: "length (bytes_of_nat n) \<le> k \<longleftrightarrow> n < 256 ^ k"
  using length_to_digits_le [of 256 n k] by (simp add: bytes_of_nat_def)

lemma length_abi_word: "n < 2 ^ 256 \<Longrightarrow> length (abi_word n) = 32"
  using length_bytes_of_nat [of n 32] by (simp add: abi_word_def)

lemma bytes_value_abi_word [simp]: "bytes_value (abi_word n) = n"
  by (simp add: abi_word_def)

lemma drop_Padding: "k \<le> 32 \<Longrightarrow> drop k Padding = replicate (32 - k) 0"
  by (simp add: Padding_def WordSize_def)

lemma concat_two: "concat_data [DU8 a, DU8 b] = Inr (''0x'' @ hex_of_bytes (a @ b))"
  using concat_data_bytes [of "[a, b]"] by simp

lemma getValue_word_eq:
  "getValue_word d = bindE (getUint d) (\<lambda>n.
     if nat n < 2 ^ 256 then Inr (abi_word (nat n)) else Inl (CoreError BUFFER_OVERRUN ''value out-of-bounds''))"
proof (cases "getUint d")
  case (Inr n)
  define bs where "bs = bytes_of_nat (nat n)"
  have b: "toBeArray d = Inr bs" by (simp add: toBeArray_getUint Inr bs_def)
  have l: "length bs \<le> 32 \<longleftrightarrow> nat n < 2 ^ 256" using length_bytes_of_nat [of "nat n" 32] by (simp add: bs_def)
  show ?thesis
  proof (cases "nat n < 2 ^ 256")
    case True
    with l have le: "length bs \<le> 32" by simp
    show ?thesis
    proof (cases "length bs = 32")
      case False
      then have "length bs mod 32 = length bs" using le by simp
      then show ?thesis
        using Inr b le False True
        by (simp add: getValue_word_def WordSize_def [symmetric] drop_Padding [folded WordSize_def] concat_two abi_word_def bs_def)
           (simp add: WordSize_def drop_Padding concat_two abi_word_def bs_def flip: hex_of_bytes_simps(3))
    qed (use Inr b True in \<open>simp add: getValue_word_def WordSize_def abi_word_def bs_def\<close>)
  qed (use Inr b l in \<open>simp add: getValue_word_def WordSize_def\<close>)
qed (simp add: getValue_word_def toBeArray_getUint)

section \<open>Writers only append\<close>

definition wbytes :: "writer \<Rightarrow> byte list" where
  "wbytes w = concat (wdata w)"

definition wappend :: "writer \<Rightarrow> writer \<Rightarrow> writer" where
  "wappend w x = \<lparr>wdata = wdata w @ wdata x, wlength = wlength w + wlength x\<rparr>"

lemma wappend_simps [simp]:
  "wdata (wappend w x) = wdata w @ wdata x" "wlength (wappend w x) = wlength w + wlength x"
  "wbytes (wappend w x) = wbytes w @ wbytes x"
  "wappend (wappend w x) y = wappend w (wappend x y)" "wappend empty_writer x = x" "wappend w empty_writer = w"
  by (simp_all add: wappend_def wbytes_def empty_writer_def)

lemma empty_writer_simps [simp]: "wdata empty_writer = []" "wlength empty_writer = 0" "wbytes empty_writer = []"
  by (simp_all add: empty_writer_def wbytes_def)

definition frame :: "(writer \<Rightarrow> writer result) \<Rightarrow> bool" where
  "frame f \<longleftrightarrow> (\<forall>w. f w = mapE (wappend w) (f empty_writer))"

named_theorems frame_rules \<open>steps that only append\<close>

lemma frameD: "frame f \<Longrightarrow> f w = mapE (wappend w) (f empty_writer)"
  unfolding frame_def by (rule spec)

lemma frame_Inl [frame_rules]: "frame (\<lambda>w. Inl e)"
  by (simp add: frame_def)

lemma frame_Inr [frame_rules]: "frame Inr"
  by (simp add: frame_def)

lemma frame_writeData [frame_rules]: "frame (\<lambda>w. Inr (writeData w bs))"
  by (simp add: frame_def writeData_def wappend_def)

lemma frame_pure [frame_rules]: "(\<And>x. m = Inr x \<Longrightarrow> frame (f x)) \<Longrightarrow> frame (\<lambda>w. bindE m (\<lambda>x. f x w))"
  by (cases m) (simp_all add: frame_Inl)

lemma frame_seq [frame_rules]:
  assumes "frame f" and "frame g"
  shows "frame (\<lambda>w. bindE (f w) g)"
  unfolding frame_def
proof
  fix w
  have f: "f w = mapE (wappend w) (f empty_writer)" using assms(1) by (rule frameD)
  show "bindE (f w) g = mapE (wappend w) (bindE (f empty_writer) g)"
  proof (cases "f empty_writer")
    case (Inr x)
    have "g (wappend w x) = mapE (wappend w) (g x)"
      using frameD [OF assms(2), of "wappend w x"] frameD [OF assms(2), of x] by (cases "g empty_writer") auto
    then show ?thesis using f Inr by simp
  qed (use f in simp)
qed

lemma frame_if [frame_rules]: "frame f \<Longrightarrow> frame g \<Longrightarrow> frame (\<lambda>w. if b then f w else g w)"
  by (cases b) simp_all

lemma frame_option [frame_rules]:
  "frame f \<Longrightarrow> (\<And>x. frame (g x)) \<Longrightarrow> frame (\<lambda>w. case m of None \<Rightarrow> f w | Some x \<Rightarrow> g x w)"
  by (cases m) simp_all

lemma frame_sum [frame_rules]:
  "(\<And>x. frame (f x)) \<Longrightarrow> (\<And>x. frame (g x)) \<Longrightarrow> frame (\<lambda>w. case m of Inl x \<Rightarrow> f x w | Inr x \<Rightarrow> g x w)"
  by (cases m) simp_all

lemma frame_errors [frame_rules]: "frame (\<lambda>w. invalid_value)" "frame (\<lambda>w. out_of_bounds)"
  by (simp_all add: frame_def invalid_value_def out_of_bounds_def)

lemma frame_writeValue [frame_rules]: "frame (\<lambda>w. writeValue w d)"
  unfolding writeValue_def by (intro frame_rules)

lemma frame_writeBytes [frame_rules]: "frame (\<lambda>w. writeBytes w d)"
  unfolding writeBytes_def Let_def by (intro frame_rules)

lemma frame_appendWriter [frame_rules]: "frame (\<lambda>w. appendWriter w x)"
  unfolding appendWriter_def by (intro frame_rules)

lemma frame_pack [frame_rules]: "frame (\<lambda>w. pack w coders values)"
  unfolding pack_def split_def by (intro frame_rules)

lemma frame_dynamic_bytes [frame_rules]: "frame (\<lambda>w. encode_dynamic_bytes w bs)"
  unfolding encode_dynamic_bytes_def by (intro frame_rules)

lemma frame_encode_array [frame_rules]: "frame (\<lambda>w. encode_array len nm child w v)"
  unfolding encode_array_def by (intro frame_rules)

lemma frame_encode: "frame (\<lambda>w. encode c w v)"
proof (induction c arbitrary: v)
  case (AddressCoder nm)
  show ?case unfolding encode.simps encode_address_def by (intro frame_rules)
next
  case (BooleanCoder nm)
  show ?case unfolding encode.simps by (intro frame_rules)
next
  case (NumberCoder sz signd nm)
  show ?case unfolding encode.simps encode_number_def by (intro frame_rules)
next
  case (FixedBytesCoder sz nm)
  show ?case unfolding encode.simps encode_fixed_def by (intro frame_rules)
next
  case (BytesCoder nm)
  show ?case unfolding encode.simps by (intro frame_rules)
next
  case (StringCoder nm)
  show ?case unfolding encode.simps encode_string_def by (intro frame_rules)
next
  case (NullCoder nm)
  show ?case unfolding encode.simps by (intro frame_rules)
next
  case (ArrayCoder c len nm)
  show ?case unfolding encode.simps by (intro frame_rules)
next
  case (TupleCoder cs nm)
  show ?case unfolding encode.simps by (intro frame_rules)
next
  case (AnonymousCoder c)
  then show ?case by simp
qed


section \<open>Heads and tails\<close>

text \<open>
  The layout of the ABI specification. A component is a flag (dynamic?) and its
  encoding; a dynamic one has in the head a word, the offset of its encoding from
  the start of the head, and the encoding itself in the tail.
\<close>

fun heads :: "nat \<Rightarrow> (bool \<times> byte list) list \<Rightarrow> byte list" where
  "heads off [] = []"
| "heads off ((dyn, bs) # ps) =
     (if dyn then abi_word off @ heads (off + length bs) ps else bs @ heads off ps)"

definition tails :: "(bool \<times> byte list) list \<Rightarrow> byte list" where
  "tails ps = concat (map (\<lambda>(dyn, bs). if dyn then bs else []) ps)"

definition head_len :: "(bool \<times> byte list) list \<Rightarrow> nat" where
  "head_len ps = sum_list (map (\<lambda>(dyn, bs). if dyn then 32 else length bs) ps)"

definition tuple_bytes :: "(bool \<times> byte list) list \<Rightarrow> byte list" where
  "tuple_bytes ps = heads (head_len ps) ps @ tails ps"

text \<open>The offsets of the dynamic components are below \<open>m\<close>.\<close>

fun offsets_below :: "nat \<Rightarrow> nat \<Rightarrow> (bool \<times> byte list) list \<Rightarrow> bool" where
  "offsets_below m off [] = True"
| "offsets_below m off ((dyn, bs) # ps) =
     (if dyn then off < m \<and> offsets_below m (off + length bs) ps else offsets_below m off ps)"

lemma length_heads: "offsets_below (2 ^ 256) off ps \<Longrightarrow> length (heads off ps) = head_len ps"
  by (induction "2 ^ 256 :: nat" off ps rule: offsets_below.induct)
     (auto simp: head_len_def length_abi_word)

lemma tails_simps [simp]: "tails [] = []" "tails ((dyn, bs) # ps) = (if dyn then bs else []) @ tails ps"
  by (simp_all add: tails_def)

lemma head_len_simps [simp]:
  "head_len [] = 0" "head_len ((dyn, bs) # ps) = (if dyn then 32 else length bs) + head_len ps"
  by (simp_all add: head_len_def)

section \<open>pack lays out heads and tails\<close>

text \<open>What a component writes, with its flag; and the slots to fill in later.\<close>

fun sdata :: "(bool \<times> writer) list \<Rightarrow> byte list list" where
  "sdata [] = []"
| "sdata ((dyn, x) # zs) = (if dyn then [Padding] else wdata x) @ sdata zs"

fun slots :: "nat \<Rightarrow> nat \<Rightarrow> (bool \<times> writer) list \<Rightarrow> (nat \<times> nat) list" where
  "slots k d [] = []"
| "slots k d ((dyn, x) # zs) =
     (if dyn then (k, d) # slots (Suc k) (d + wlength x) zs else slots (k + length (wdata x)) d zs)"

definition pieces :: "(bool \<times> writer) list \<Rightarrow> (bool \<times> byte list) list" where
  "pieces zs = map (\<lambda>(dyn, x). (dyn, wbytes x)) zs"

definition wf_writer :: "writer \<Rightarrow> bool" where
  "wf_writer w \<longleftrightarrow> wlength w = length (wbytes w)"

lemma pieces_simps [simp]: "pieces [] = []" "pieces ((dyn, x) # zs) = (dyn, wbytes x) # pieces zs"
  by (simp_all add: pieces_def)

text \<open>How a coder, its value and what it wrote belong together.\<close>

definition packed :: "packer \<Rightarrow> abi_value result \<Rightarrow> bool \<times> writer \<Rightarrow> bool" where
  "packed c val z \<longleftrightarrow>
     (case c of (dyn, nm, enc) \<Rightarrow> case z of (dyn', x) \<Rightarrow>
        dyn' = dyn \<and> wf_writer x \<and> (\<exists>v. val = Inr v \<and> enc empty_writer v = Inr x))"

fun all_packed :: "packer list \<Rightarrow> abi_value result list \<Rightarrow> (bool \<times> writer) list \<Rightarrow> bool" where
  "all_packed (c # cs) (val # vals) (z # zs) = (packed c val z \<and> all_packed cs vals zs)"
| "all_packed [] [] [] = True"
| "all_packed _ _ _ = False"

definition good_packer :: "packer \<Rightarrow> bool" where
  "good_packer c \<longleftrightarrow>
     (case c of (dyn, nm, enc) \<Rightarrow> \<forall>v. frame (\<lambda>w. enc w v) \<and> (\<forall>x. enc empty_writer v = Inr x \<longrightarrow> wf_writer x))"

text \<open>The loop of \<open>pack\<close>, given that every component only appends.\<close>

lemma pack_loop_spec:
  assumes "pack_loop cs vals S D U = Inr (S', D', U')" and "length cs = length vals" and "list_all good_packer cs"
  shows "\<exists>zs. all_packed cs vals zs \<and>
              S' = \<lparr>wdata = wdata S @ sdata zs, wlength = wlength S + head_len (pieces zs)\<rparr> \<and>
              wbytes D' = wbytes D @ tails (pieces zs) \<and> U' = U @ slots (length (wdata S)) (wlength D) zs"
  using assms
proof (induction cs arbitrary: vals S D U)
  case Nil
  then show ?case by (intro exI [of _ "[]"]) simp
next
  case (Cons c cs)
  obtain dyn nm enc where c: "c = (dyn, nm, enc)" by (cases c)
  obtain val vs where vals: "vals = val # vs" using Cons.prems(2) by (cases vals) auto
  from Cons.prems(1) obtain v where v: "val = Inr v" unfolding c vals by (cases val) auto
  have good: "frame (\<lambda>w. enc w v)" "\<And>x. enc empty_writer v = Inr x \<Longrightarrow> wf_writer x"
    using Cons.prems(3) by (auto simp: good_packer_def c)
  have fr: "enc w v = mapE (wappend w) (enc empty_writer v)" for w by (rule frameD [OF good(1)])
  obtain x where x: "enc empty_writer v = Inr x"
    using Cons.prems(1) unfolding c vals v
    by (cases "enc empty_writer v") (auto simp: fr [of D] fr [of S] split: if_splits)
  define S1 D1 U1 where "S1 = (if dyn then \<lparr>wdata = wdata S @ [Padding], wlength = wlength S + WordSize\<rparr> else wappend S x)"
    and "D1 = (if dyn then wappend D x else D)" and "U1 = (if dyn then U @ [(length (wdata S), wlength D)] else U)"
  have "pack_loop cs vs S1 D1 U1 = Inr (S', D', U')"
    using Cons.prems(1) unfolding c vals v
    by (cases dyn) (simp_all add: fr [of D] fr [of S] x writeUpdatableValue_def S1_def D1_def U1_def)
  then obtain zs where zs: "all_packed cs vs zs"
      "S' = \<lparr>wdata = wdata S1 @ sdata zs, wlength = wlength S1 + head_len (pieces zs)\<rparr>"
      "wbytes D' = wbytes D1 @ tails (pieces zs)" "U' = U1 @ slots (length (wdata S1)) (wlength D1) zs"
    using Cons.IH [of vs S1 D1 U1] Cons.prems(2,3) vals by auto
  have "packed c val (dyn, x)" using x v good(2) by (simp add: packed_def c)
  with zs good(2) [OF x] show ?case
    unfolding vals
    by (intro exI [of _ "(dyn, x) # zs"]) (simp add: S1_def D1_def U1_def WordSize_def wf_writer_def)
qed

lemma getValue_index:
  "getValue_word (DNum (num_of_int (int n))) = Inr b \<Longrightarrow> b = abi_word n \<and> n < 2 ^ 53"
  by (auto simp: getValue_word_eq getUint_def checked_number_int [of "int n", simplified] getNumber_bigint_def
      safe_range_def maxValue_def split: if_splits)

lemma backfill_spec:
  assumes "backfill base (slots (length P) d zs) \<lparr>wdata = P @ sdata zs, wlength = L\<rparr> = Inr w"
    and "list_all (\<lambda>(_, x). wf_writer x) zs"
  shows "\<exists>Q. w = \<lparr>wdata = P @ Q, wlength = L\<rparr> \<and> concat Q = heads (base + d) (pieces zs) \<and>
    offsets_below (2 ^ 53) (base + d) (pieces zs)"
  using assms
proof (induction zs arbitrary: P d)
  case (Cons z zs)
  obtain dyn x where z: "z = (dyn, x)" by (cases z)
  show ?case
  proof (cases dyn)
    case True
    with Cons.prems(1) obtain b where b: "getValue_word (DNum (num_of_int (int (base + d)))) = Inr b"
      "backfill base (slots (length (P @ [b])) (d + wlength x) zs) \<lparr>wdata = (P @ [b]) @ sdata zs, wlength = L\<rparr> = Inr w"
      by (auto simp: z updateValue_def list_update_append)
    from Cons.IH [OF b(2)] Cons.prems(2) obtain Q where
      "w = \<lparr>wdata = (P @ [b]) @ Q, wlength = L\<rparr>" "concat Q = heads (base + (d + wlength x)) (pieces zs)"
      "offsets_below (2 ^ 53) (base + (d + wlength x)) (pieces zs)" by auto
    then show ?thesis using getValue_index [OF b(1)] True Cons.prems(2)
      by (intro exI [of _ "b # Q"]) (simp add: z wf_writer_def add.assoc)
  next
    case False
    with Cons.prems(1) have "backfill base (slots (length (P @ wdata x)) d zs) \<lparr>wdata = (P @ wdata x) @ sdata zs, wlength = L\<rparr> = Inr w"
      by (simp add: z)
    from Cons.IH [OF this] Cons.prems(2) obtain Q where
      "w = \<lparr>wdata = (P @ wdata x) @ Q, wlength = L\<rparr>" "concat Q = heads (base + d) (pieces zs)"
      "offsets_below (2 ^ 53) (base + d) (pieces zs)" by auto
    then show ?thesis using False
      by (intro exI [of _ "wdata x @ Q"]) (simp add: z wbytes_def)
  qed
qed auto

lemma appendWriter_eq: "appendWriter w x = Inr (writeData w (wbytes x))"
  using concat_data_bytes [of "wdata x"] by (simp add: appendWriter_def writer_data_def wbytes_def)

lemma all_packed_wf: "all_packed cs vals zs \<Longrightarrow> list_all (\<lambda>(_, x). wf_writer x) zs"
  by (induction cs vals zs rule: all_packed.induct) (auto simp: packed_def)

lemma offsets_below_mono: "m \<le> m' \<Longrightarrow> offsets_below m off ps \<Longrightarrow> offsets_below m' off ps"
  by (induction m off ps rule: offsets_below.induct) (auto split: if_splits)

lemma pack_layout:
  assumes "pack empty_writer cs values = Inr w" and "list_all good_packer cs"
  shows "\<exists>vals zs. arrayValues (map (\<lambda>(_, nm, _). nm) cs) values = Inr vals \<and> all_packed cs vals zs \<and>
    wf_writer w \<and> wbytes w = tuple_bytes (pieces zs) \<and> offsets_below (2 ^ 53) (head_len (pieces zs)) (pieces zs)"
proof -
  from assms(1) obtain vals S D U S' where vals: "arrayValues (map (\<lambda>(_, nm, _). nm) cs) values = Inr vals"
    "length cs = length vals" and loop: "pack_loop cs vals empty_writer empty_writer [] = Inr (S, D, U)"
    and bk: "backfill (wlength S) U S = Inr S'"
    and w: "bindE (appendWriter empty_writer S') (\<lambda>w'. appendWriter w' D) = Inr w"
    by (auto simp: pack_def split: prod.splits)
  obtain zs where zs: "all_packed cs vals zs" "S = \<lparr>wdata = sdata zs, wlength = head_len (pieces zs)\<rparr>"
    "wbytes D = tails (pieces zs)" "U = slots 0 0 zs"
    using pack_loop_spec [OF loop vals(2) assms(2)] by auto
  obtain Q where "S' = \<lparr>wdata = Q, wlength = head_len (pieces zs)\<rparr>" "concat Q = heads (head_len (pieces zs)) (pieces zs)"
    "offsets_below (2 ^ 53) (head_len (pieces zs)) (pieces zs)"
    using backfill_spec [of "head_len (pieces zs)" "[]" 0 zs "head_len (pieces zs)" S'] bk all_packed_wf [OF zs(1)]
    unfolding zs(2,4) by auto
  with w vals(1) zs(1,3) show ?thesis
    by (auto simp: appendWriter_eq writeData_def wbytes_def wf_writer_def tuple_bytes_def)
qed


section \<open>Reading at an offset\<close>

definition stands :: "reader \<Rightarrow> byte list \<Rightarrow> bool" where
  "stands rd bs \<longleftrightarrow> roffset rd \<le> length (rdata rd) \<and> (\<exists>rest. drop (roffset rd) (rdata rd) = bs @ rest)"

definition adv :: "reader \<Rightarrow> nat \<Rightarrow> reader" where
  "adv rd k = rd\<lparr>roffset := roffset rd + k\<rparr>"

lemma adv_simps [simp]:
  "rdata (adv rd k) = rdata rd" "adv (adv rd k) m = adv rd (k + m)" "adv rd 0 = rd"
  "roffset (adv rd k) = roffset rd + k"
  by (simp_all add: adv_def)

lemma stands_append: "stands rd (xs @ ys) \<Longrightarrow> stands rd xs \<and> stands (adv rd (length xs)) ys"
proof -
  assume "stands rd (xs @ ys)"
  then obtain rest where r: "roffset rd \<le> length (rdata rd)" "drop (roffset rd) (rdata rd) = xs @ ys @ rest"
    by (auto simp: stands_def)
  then have "length (rdata rd) - roffset rd = length xs + length (ys @ rest)" by (metis length_append length_drop)
  moreover have "drop (length xs) (drop (roffset rd) (rdata rd)) = ys @ rest" unfolding r(2) by simp
  then have "drop (roffset rd + length xs) (rdata rd) = ys @ rest" by (simp add: add.commute)
  ultimately show ?thesis using r by (auto simp: stands_def)
qed

lemma stands_length: "stands rd bs \<Longrightarrow> roffset rd + length bs \<le> length (rdata rd)"
proof -
  assume "stands rd bs"
  then obtain rest where r: "roffset rd \<le> length (rdata rd)" "drop (roffset rd) (rdata rd) = bs @ rest" by (auto simp: stands_def)
  then have "length (rdata rd) - roffset rd = length bs + length rest" by (metis length_append length_drop)
  with r(1) show ?thesis by simp
qed

definition aligned :: "nat \<Rightarrow> nat" where
  "aligned n = (n + 31) div 32 * 32"

lemma readBytes_at:
  assumes "stands rd bs" and "aligned len = length bs"
  shows "readBytes len loose rd = (Inr (take len bs), adv rd (length bs))"
proof -
  obtain rest where r: "drop (roffset rd) (rdata rd) = bs @ rest" using assms(1) by (auto simp: stands_def)
  then have "peekBytes rd len loose = Inr bs"
    using stands_length [OF assms(1)] assms(2) by (simp add: peekBytes_def WordSize_def aligned_def)
  then show ?thesis by (simp add: readBytes_def adv_def)
qed

lemma readValue_at: "stands rd bs \<Longrightarrow> length bs = 32 \<Longrightarrow> readValue rd = (Inr (int (bytes_value bs)), adv rd 32)"
  using readBytes_at [of rd bs 32 False]
  by (simp add: readValue_def rbind_def rlift_def WordSize_def aligned_def toBigInt_bytes)

lemma readIndex_at: "stands rd (abi_word n) \<Longrightarrow> n < 2 ^ 53 \<Longrightarrow> readIndex rd = (Inr n, adv rd 32)"
proof -
  assume a: "stands rd (abi_word n)" and n: "n < 2 ^ 53"
  then have l: "length (abi_word n) = 32" by (intro length_abi_word) simp
  have "safe_range (int n)" using n by (simp add: safe_range_def maxValue_def)
  then have "toNumber (DU8 (abi_word n)) = Inr (int n)"
    by (simp add: toNumber_def toBigInt_bytes)
  then show ?thesis
    using readBytes_at [OF a, of 32 False] l by (simp add: readIndex_def rbind_def rlift_def WordSize_def aligned_def)
qed

section \<open>unpack reads heads and tails\<close>

text \<open>A decoder reads \<open>bs\<close> as \<open>r\<close>, wherever they stand; a static one moves past them.\<close>

definition reads :: "bool \<Rightarrow> abi_value reading \<Rightarrow> byte list \<Rightarrow> abi_value \<Rightarrow> bool" where
  "reads dyn dec bs r \<longleftrightarrow>
     (\<forall>rd. stands rd bs \<longrightarrow> length (rdata rd) < 2 ^ 53 \<longrightarrow>
        (\<exists>rd'. dec rd = (Inr r, rd') \<and> (\<not> dyn \<longrightarrow> rd' = adv rd (length bs))))"

fun all_read :: "unpacker list \<Rightarrow> (bool \<times> byte list) list \<Rightarrow> abi_value list \<Rightarrow> bool" where
  "all_read ((dyn, nm, dec) # us) ((dyn', bs) # ps) (r # rs) =
     (dyn' = dyn \<and> reads dyn dec bs r \<and> r \<noteq> VNull \<and> r \<noteq> VUndef \<and> all_read us ps rs)"
| "all_read [] [] [] = True"
| "all_read _ _ _ = False"

definition key_of :: "string \<Rightarrow> string option" where
  "key_of nm = (if nm = [] then None else Some nm)"

lemma unpack_loop_spec:
  assumes "all_read us ps rs" and "stands rd (heads off ps)" and "offsets_below (2 ^ 53) off ps"
    and "length (rdata rd) < 2 ^ 53" and "length (rdata base) < 2 ^ 53" and "roffset base = 0"
    and "off \<le> length (rdata base)" and "drop off (rdata base) = tails ps @ rest"
  shows "unpack_loop base us vs ks rd =
    (Inr (vs @ rs, ks @ map (\<lambda>(_, nm, _). key_of nm) us), adv rd (head_len ps))"
  using assms
proof (induction us ps rs arbitrary: rd off vs ks rule: all_read.induct)
  case (1 dyn nm dec us dyn' bs ps r rs)
  from "1.prems"(1) have h: "dyn' = dyn" "reads dyn dec bs r" "r \<noteq> VNull" "r \<noteq> VUndef" "all_read us ps rs" by auto
  define hd1 off1 where "hd1 = (if dyn then abi_word off else bs)" and "off1 = (if dyn then off + length bs else off)"
  have at1: "stands rd hd1" "stands (adv rd (length hd1)) (heads off1 ps)"
    using stands_append [of rd hd1 "heads off1 ps"] "1.prems"(2) h(1) by (auto simp: hd1_def off1_def)
  have len1: "length hd1 = (if dyn then 32 else length bs)"
    using "1.prems"(3) h(1) by (auto simp: hd1_def intro!: length_abi_word)
  have val: "unpack_value base dyn dec rd = (Inr r, adv rd (length hd1))"
  proof (cases dyn)
    case True
    have "stands (subReader base off) bs" "length (rdata (subReader base off)) < 2 ^ 53"
      using "1.prems"(6,8) True h(1) less_imp_diff_less [OF "1.prems"(5), of off]
      by (auto simp: stands_def subReader_def simp del: length_append simp flip: length_drop)
    with h(2) have "fst (dec (subReader base off)) = Inr r" by (auto simp: reads_def)
    moreover have "readIndex rd = (Inr off, adv rd 32)"
      using readIndex_at [of rd off] at1(1) "1.prems"(3) True h(1) by (simp add: hd1_def)
    ultimately show ?thesis using True len1 by (simp add: unpack_value_def rbind_def rlift_def deferred_def)
  next
    case False
    with h(2) at1(1) "1.prems"(4) have "dec rd = (Inr r, adv rd (length bs))" by (auto simp: reads_def hd1_def)
    then show ?thesis using False len1 by (simp add: unpack_value_def deferred_def)
  qed
  have "off1 \<le> length (rdata base)" "drop off1 (rdata base) = tails ps @ rest"
  proof -
    have "drop off1 (rdata base) = drop (off1 - off) (drop off (rdata base))" by (simp add: off1_def)
    then show "drop off1 (rdata base) = tails ps @ rest" using "1.prems"(8) h(1) by (simp add: off1_def)
    have "length (rdata base) - off = length (tails ((dyn', bs) # ps) @ rest)" using "1.prems"(8) by (metis length_drop)
    then show "off1 \<le> length (rdata base)" using "1.prems"(7) h(1) by (auto simp: off1_def)
  qed
  then have "unpack_loop base us (vs @ [r]) (ks @ [key_of nm]) (adv rd (length hd1)) =
      (Inr ((vs @ [r]) @ rs, (ks @ [key_of nm]) @ map (\<lambda>(_, nm, _). key_of nm) us), adv (adv rd (length hd1)) (head_len ps))"
    using "1.IH" [OF h(5) at1(2)] "1.prems"(3,4,5,6) h(1) by (simp add: off1_def split: if_splits)
  then show ?case
    using val h(1,3,4) len1 by (simp add: rbind_def key_of_def [symmetric])
qed (auto simp: rlift_def)

lemma unpack_spec:
  assumes "all_read us ps rs" and "stands rd (tuple_bytes ps)" and "offsets_below (2 ^ 53) (head_len ps) ps"
    and "length (rdata rd) < 2 ^ 53"
  shows "unpack us rd = (Inr (fromItems rs (map (\<lambda>(_, nm, _). key_of nm) us)), adv rd (head_len ps))"
proof -
  have lh: "length (heads (head_len ps) ps) = head_len ps"
    using offsets_below_mono [OF _ assms(3), of "2 ^ 256"] by (intro length_heads) simp
  obtain rest where r: "drop (roffset rd) (rdata rd) = heads (head_len ps) ps @ tails ps @ rest"
    using assms(2) by (auto simp: stands_def tuple_bytes_def)
  have "stands rd (heads (head_len ps) ps)" using assms(2) stands_append unfolding tuple_bytes_def by blast
  moreover have "drop (head_len ps) (rdata (subReader rd 0)) = tails ps @ rest" "head_len ps \<le> length (rdata (subReader rd 0))"
    using r lh by (simp_all add: subReader_def)
  ultimately have "unpack_loop (subReader rd 0) us [] [] rd =
      (Inr (rs, map (\<lambda>(_, nm, _). key_of nm) us), adv rd (head_len ps))"
    using unpack_loop_spec [OF assms(1), of rd "head_len ps" "subReader rd 0" rest "[]" "[]"] assms(3,4)
    by (simp add: subReader_def)
  then show ?thesis by (simp add: unpack_def rbind_def rlift_def)
qed


section \<open>Every coder writes whole bytes it counts\<close>

lemma wf_empty [simp]: "wf_writer empty_writer"
  by (simp add: wf_writer_def)

lemma wf_writeData: "wf_writer w \<Longrightarrow> wf_writer (writeData w bs)"
  by (simp add: wf_writer_def writeData_def wbytes_def)

lemma wbytes_writeData [simp]: "wbytes (writeData w bs) = wbytes w @ bs"
  by (simp add: writeData_def wbytes_def)

lemma writeValue_eq: "writeValue w d = mapE (writeData w) (getValue_word d)"
  by (simp add: writeValue_def mapE_def)

definition padded :: "byte list \<Rightarrow> byte list" where
  "padded bs = bs @ replicate (aligned (length bs) - length bs) 0"

lemma aligned_eq: "aligned n = (if n mod 32 = 0 then n else n + (32 - n mod 32))"
proof -
  have n: "n = 32 * (n div 32) + n mod 32" by simp
  show ?thesis
  proof (cases "n mod 32 = 0")
    case True
    then have "(n + 31) div 32 = n div 32" using n by (intro div_nat_eqI) simp_all
    then show ?thesis using n True by (simp add: aligned_def)
  next
    case False
    define q r where "q = n div 32" and "r = n mod 32"
    then have r: "0 < r" "r < 32" "n = 32 * q + r" using False n by simp_all
    then have "(n + 31) div 32 = q + 1" by (intro div_nat_eqI) simp_all
    then show ?thesis using False r by (simp add: aligned_def r_def [symmetric])
  qed
qed

lemma writeBytes_eq: "writeBytes w d = mapE (\<lambda>bs. writeData w (padded bs)) (getBytes d)"
proof (cases "getBytes d")
  case (Inr bs)
  have "length bs mod 32 \<le> 32" by (simp add: order_less_imp_le)
  then show ?thesis
    using Inr by (auto simp: writeBytes_def Let_def concat_two padded_def aligned_eq WordSize_def drop_Padding
        simp flip: hex_of_bytes_simps(3))
qed (simp add: writeBytes_def)

lemma length_padded: "length (padded bs) = aligned (length bs)"
  by (auto simp: padded_def aligned_eq)

lemma encode_dynamic_bytes_eq:
  "encode_dynamic_bytes empty_writer bs =
     bindE (getValue_word (num_of_size (length bs))) (\<lambda>b. Inr (writeData (writeData empty_writer b) (padded bs)))"
  by (cases "getValue_word (num_of_size (length bs))")
     (simp_all add: encode_dynamic_bytes_def writeValue_eq writeBytes_eq)

lemma good_packer_child:
  "(\<And>v x. encode c empty_writer v = Inr x \<Longrightarrow> wf_writer x) \<Longrightarrow>
   good_packer (dyn, nm, \<lambda>w' v'. encode c w' v')"
  using frame_encode [of c] by (simp add: good_packer_def)

lemma encode_array_cases:
  assumes "encode_array len nm child empty_writer v = Inr x"
  obtains u n hd y where "dereference v ''array'' = Inr u" "array_length u = Some n"
    "case len of None \<Rightarrow> hd = abi_word n \<and> n < 2 ^ 53 | Some k \<Rightarrow> hd = [] \<and> n = k"
    "pack empty_writer (replicate n child) u = Inr y"
    "x = wappend \<lparr>wdata = (if len = None then [hd] else []), wlength = length hd\<rparr> y"
proof -
  obtain u where u1: "dereference v ''array'' = Inr u"
    using assms by (cases "dereference v ''array''") (simp_all add: encode_array_def)
  obtain n where u2: "array_length u = Some n"
    using assms u1 by (cases "array_length u") (simp_all add: encode_array_def)
  note u = u1 u2
  have e: "bindE (case len of None \<Rightarrow> writeValue empty_writer (num_of_size n) | Some _ \<Rightarrow> Inr empty_writer) (\<lambda>w'.
           bindE (assertArgumentCount n (case len of None \<Rightarrow> n | Some c \<Rightarrow> c)
                    (''coder array'' @ (if nm \<noteq> [] then '' '' @ nm else []))) (\<lambda>_.
             pack w' (replicate n child) u)) = Inr x"
    using assms by (simp only: encode_array_def u bindE_simps option.case)
  show thesis
  proof (cases len)
    case None
    with e obtain b where b: "getValue_word (num_of_size n) = Inr b"
      "pack (writeData empty_writer b) (replicate n child) u = Inr x" by (auto simp: writeValue_eq)
    from b(1) have "b = abi_word n \<and> n < 2 ^ 53" unfolding num_of_size_def by (rule getValue_index)
    moreover obtain y where "pack empty_writer (replicate n child) u = Inr y" "x = wappend (writeData empty_writer b) y"
      using b(2) frameD [OF frame_pack, of "writeData empty_writer b" "replicate n child" u] by auto
    ultimately show thesis using that [OF u, of b] None by (simp add: writeData_def empty_writer_def)
  next
    case (Some k)
    with e have "n = k" "pack empty_writer (replicate n child) u = Inr x"
      by (auto simp: assertArgumentCount_def Let_def)
    then show thesis using that [OF u, of "[]" x] Some by (simp add: wappend_def)
  qed
qed

lemma encode_address_cases:
  assumes "encode_address w v = Inr x"
  obtains u s a where "dereference v ''string'' = Inr u" "as_data u = Some (DStr s)" "getAddress s = Inr a"
    "writeValue w (DStr a) = Inr x"
proof -
  obtain u where u: "dereference v ''string'' = Inr u"
    using assms by (cases "dereference v ''string''") (simp_all add: encode_address_def)
  obtain s where s: "as_data u = Some (DStr s)"
    using assms u by (auto simp: encode_address_def invalid_value_def split: option.splits js_data.splits)
  obtain a where "getAddress s = Inr a"
    using assms u s by (cases "getAddress s") (simp_all add: encode_address_def invalid_value_def)
  with assms u s show thesis by (intro that [of u s a]) (simp_all add: encode_address_def)
qed

lemma encode_wf: "encode c empty_writer v = Inr x \<Longrightarrow> wf_writer x"
proof (induction c arbitrary: v x)
  case (AddressCoder nm)
  then have "encode_address empty_writer v = Inr x" by simp
  then obtain a where "writeValue empty_writer (DStr a) = Inr x" by (rule encode_address_cases) blast
  then show ?case by (auto simp: writeValue_eq wf_writeData)
next
  case (BooleanCoder nm)
  then show ?case by (auto simp: writeValue_eq wf_writeData)
next
  case (NumberCoder sz signd nm)
  then show ?case by (auto simp: encode_number_def out_of_bounds_def writeValue_eq wf_writeData split: if_splits)
next
  case (FixedBytesCoder sz nm)
  then show ?case by (auto simp: encode_fixed_def writeBytes_eq wf_writeData split: if_splits)
next
  case (BytesCoder nm)
  then show ?case by (auto simp: encode_dynamic_bytes_eq wf_writeData)
next
  case (StringCoder nm)
  then show ?case by (auto simp: encode_string_def invalid_value_def encode_dynamic_bytes_eq wf_writeData split: option.splits)
next
  case (NullCoder nm)
  then show ?case by (auto simp: writeBytes_eq wf_writeData split: if_splits)
next
  case (ArrayCoder c len nm)
  from ArrayCoder.prems have "encode_array len nm (coder_dynamic c, coder_localName c, \<lambda>w' v'. encode c w' v') empty_writer v = Inr x"
    by simp
  then obtain u n hd y where "pack empty_writer (replicate n (coder_dynamic c, coder_localName c, \<lambda>w' v'. encode c w' v')) u = Inr y"
    "x = wappend \<lparr>wdata = (if len = None then [hd] else []), wlength = length hd\<rparr> y"
    "len \<noteq> None \<Longrightarrow> hd = []" by (rule encode_array_cases) (auto split: option.splits)
  moreover have "good_packer (coder_dynamic c, coder_localName c, \<lambda>w' v'. encode c w' v')"
    using ArrayCoder.IH by (intro good_packer_child)
  then have "list_all good_packer (replicate n (coder_dynamic c, coder_localName c, \<lambda>w' v'. encode c w' v'))"
    by (simp add: list_all_iff)
  ultimately have "wf_writer y" using pack_layout by blast
  with \<open>x = _\<close> \<open>len \<noteq> None \<Longrightarrow> hd = []\<close> show ?case by (auto simp: wf_writer_def wbytes_def)
next
  case (TupleCoder cs nm)
  from TupleCoder.prems obtain u where
    "pack empty_writer (map (\<lambda>c. (coder_dynamic c, coder_localName c, \<lambda>w' x. encode c w' x)) cs) u = Inr x" by auto
  moreover have "list_all good_packer (map (\<lambda>c. (coder_dynamic c, coder_localName c, \<lambda>w' x. encode c w' x)) cs)"
    using TupleCoder.IH by (auto simp: list_all_iff intro!: good_packer_child)
  ultimately show ?case using pack_layout by blast
next
  case (AnonymousCoder c)
  then show ?case by simp
qed

lemma good_packer_coder: "good_packer (coder_dynamic c, coder_localName c, \<lambda>w' v'. encode c w' v')"
  by (rule good_packer_child) (rule encode_wf)


section \<open>The canonical value\<close>

text \<open>
  What decoding gives back for a value of a type: lower-case addresses, \<open>bigint\<close>
  numbers, hexadecimal bytes, text of well-formed UTF-16, \<open>Result\<close>s for arrays and
  tuples. Text with a lone low surrogate and \<open>null\<close> have none.
\<close>

fun apply_each :: "('a \<Rightarrow> 'b result) list \<Rightarrow> 'a result list \<Rightarrow> 'b list result" where
  "apply_each (f # fs) (x # xs) = bindE x (\<lambda>v. bindE (f v) (\<lambda>y. bindE (apply_each fs xs) (\<lambda>ys. Inr (y # ys))))"
| "apply_each _ _ = Inr []"

definition canon_bytes :: "byte list \<Rightarrow> abi_value" where
  "canon_bytes bs = VData (DStr (''0x'' @ hex_of_bytes bs))"

definition canon_text :: "js_units \<Rightarrow> abi_value result" where
  "canon_text u = (if wf_utf16 u then Inr (VText u) else invalid_value)"

definition canon_address :: "js_data \<Rightarrow> abi_value result" where
  "canon_address d =
     (case d of DStr s \<Rightarrow> mapE (\<lambda>a. VData (DStr (map to_lower a))) (getAddress s) | _ \<Rightarrow> invalid_value)"

definition units_of :: "abi_value \<Rightarrow> js_units result" where
  "units_of v = (case as_units v of Some u \<Rightarrow> Inr u | None \<Rightarrow> invalid_value)"

definition canon_items ::
    "(abi_value \<Rightarrow> abi_value result) list \<Rightarrow> string list \<Rightarrow> string list \<Rightarrow> abi_value \<Rightarrow> abi_value result" where
  "canon_items fs names keys v =
     bindE (arrayValues names v) (\<lambda>vals.
     bindE (apply_each fs vals) (\<lambda>rs. Inr (fromItems rs (map key_of keys))))"

fun canon :: "coder \<Rightarrow> abi_value \<Rightarrow> abi_value result" where
  "canon (AddressCoder _) v = bindE (dereference v ''string'') (\<lambda>u. bindE (data_of u) canon_address)"
| "canon (BooleanCoder _) v = mapE (\<lambda>b. VBool (truthy b)) (dereference v ''bool'')"
| "canon (NumberCoder sz signd _) v =
     bindE (dereference v (number_type sz signd)) (\<lambda>u. bindE (data_of u) (\<lambda>d. mapE (\<lambda>n. VData (DBig n)) (getBigInt d)))"
| "canon (FixedBytesCoder sz _) v =
     bindE (dereference v (fixed_type sz)) (\<lambda>u. bindE (data_of u) (\<lambda>d. mapE canon_bytes (getBytes d)))"
| "canon (BytesCoder _) v = bindE (data_of v) (\<lambda>d. mapE canon_bytes (getBytes d))"
| "canon (StringCoder _) v = bindE (dereference v ''string'') (\<lambda>u. bindE (units_of u) canon_text)"
| "canon (NullCoder _) v = invalid_value"
| "canon (ArrayCoder c _ _) v =
     bindE (dereference v ''array'') (\<lambda>u.
       case array_length u of
         None \<Rightarrow> invalid_value
       | Some n \<Rightarrow> canon_items (replicate n (\<lambda>y. canon c y)) (replicate n (coder_localName c)) (replicate n ''_'') u)"
| "canon (TupleCoder cs _) v =
     bindE (dereference v ''tuple'') (\<lambda>u.
       canon_items (map (\<lambda>c y. canon c y) cs) (map coder_localName cs) (map coder_localName cs) u)"
| "canon (AnonymousCoder c) v = canon c v"

text \<open>A coder whose encodings have at least one word; and the coders of real types.\<close>

fun spacious :: "coder \<Rightarrow> bool" where
  "spacious (ArrayCoder c len _) = (case len of None \<Rightarrow> True | Some n \<Rightarrow> n > 0 \<and> (coder_dynamic c \<or> spacious c))"
| "spacious (TupleCoder cs _) = list_ex (\<lambda>c. coder_dynamic c \<or> spacious c) cs"
| "spacious (AnonymousCoder c) = spacious c"
| "spacious (NullCoder _) = False"
| "spacious _ = True"

fun wf_coder :: "coder \<Rightarrow> bool" where
  "wf_coder (NumberCoder sz _ _) = (1 \<le> sz \<and> sz \<le> 32)"
| "wf_coder (FixedBytesCoder sz _) = (1 \<le> sz \<and> sz \<le> 32)"
| "wf_coder (NullCoder _) = False"
| "wf_coder (ArrayCoder c len _) = (wf_coder c \<and> (len = None \<longrightarrow> coder_dynamic c \<or> spacious c))"
| "wf_coder (TupleCoder cs _) = list_all wf_coder cs"
| "wf_coder (AnonymousCoder c) = wf_coder c"
| "wf_coder _ = True"

text \<open>What is shown of a coder: its encodings of a value are read back as the canonical value.\<close>

definition sound_at :: "coder \<Rightarrow> abi_value \<Rightarrow> bool" where
  "sound_at c v \<longleftrightarrow>
     (\<forall>x r. encode c empty_writer v = Inr x \<longrightarrow> canon c v = Inr r \<longrightarrow>
        reads (coder_dynamic c) (decode c) (wbytes x) r \<and> r \<noteq> VNull \<and> r \<noteq> VUndef \<and>
        (spacious c \<longrightarrow> 32 \<le> length (wbytes x)))"

section \<open>Values of one word\<close>

lemma reads_word:
  assumes "\<And>rd. dec rd = rbind readValue (\<lambda>n. rlift (f n)) rd" and "n < 2 ^ 256" and "f (int n) = Inr r"
  shows "reads dyn dec (abi_word n) r"
  unfolding reads_def using assms length_abi_word [OF assms(2)]
  by (auto simp: readValue_at rbind_def rlift_def)

lemma writeValue_word:
  "writeValue empty_writer d = Inr x \<Longrightarrow>
   \<exists>n. getUint d = Inr (int n) \<and> n < 2 ^ 256 \<and> wbytes x = abi_word n"
  by (auto simp: writeValue_eq getValue_word_eq getUint_def split: if_splits) (metis nat_0_le)

lemma getUint_DStr_hex:
  "list_all is_hex_char raw \<Longrightarrow> raw \<noteq> [] \<Longrightarrow> getUint (DStr (''0x'' @ raw)) = Inr (int (hex_nat raw))"
  using js_BigInt_hex [of raw] by (simp add: getUint_def bigint_of_string_def hex_nat_def)

lemma pad_to_eq: "pad_to (int n) s = replicate (n - length s) CHR ''0'' @ s"
proof (induction "n - length s" arbitrary: s)
  case 0
  then show ?case by (subst pad_to.simps) simp
next
  case (Suc k)
  then have "length s < n" "k = n - length (CHR ''0'' # s)" by simp_all
  with Suc(1) [of "CHR ''0'' # s"] have "pad_to (int n) s = replicate k CHR ''0'' @ CHR ''0'' # s"
    by (subst pad_to.simps) simp
  then show ?case by (simp add: replicate_append_same Suc(2) [symmetric])
qed

lemma hex_nat_lower:
  assumes "list_all is_hex_char raw" and "length raw = k" and "raw \<noteq> []"
  shows "pad_to (int k) (nat_toString 16 (hex_nat raw)) = map to_lower raw"
proof -
  define n ds es where "n = hex_nat raw" and "ds = map hexval raw" and "es = (if n = 0 then [0] else to_digits 16 n)"
  have ds: "\<forall>d \<in> set ds. d < 16" "length ds = k" "of_digits 16 ds = n"
    using assms hexval_less by (auto simp: ds_def n_def hex_nat_def list_all_iff)
  have "n < 16 ^ k" using of_digits_bound [OF ds(1)] ds by simp
  moreover have "1 \<le> k" using assms(2,3) by (cases raw) auto
  ultimately have le: "length es \<le> k" using length_to_digits_le [of 16 n k] by (simp add: es_def)
  have es: "\<forall>d \<in> set es. d < 16" "of_digits 16 es = n" using to_digits_less [of _ 16 n] by (auto simp: es_def)
  have "replicate (k - length es) 0 @ es = ds"
    using le ds es by (intro of_digits_eq_iff [of _ _ 16]) auto
  moreover have "map to_lower raw = map digit_char ds"
    using assms(1) to_lower_hex by (auto simp: ds_def list_all_iff)
  ultimately show ?thesis
    by (auto simp: pad_to_eq nat_toString_alt n_def [symmetric] es_def [symmetric] map_replicate digit_char_0)
qed

end
