(* ===== verification/Abi_Sound.thy ===== *)
theory Abi_Sound
  imports Abi_Roundtrip
begin

text \<open>
  Decoding after encoding, type by type: \<open>sound_at c v\<close> for the coders of one word,
  for byte strings and text, then for arrays and tuples by induction on the coder.
\<close>

section \<open>Masks and numbers of one word\<close>

lemma bindE_ext: "(\<And>x. f x = g x) \<Longrightarrow> bindE m f = bindE m g"
  by (cases m) simp_all

lemma getNumber_size: "n < 2 ^ 53 \<Longrightarrow> getNumber (num_of_size n) = Inr (int n)"
  by (simp add: num_of_size_def checked_number_int [of "int n", simplified] getNumber_bigint_def safe_range_def maxValue_def)

lemma mask_bits_size:
  assumes "0 \<le> v" and "k < 2 ^ 53"
  shows "mask_bits (DBig v) (num_of_size k) = Inr (v mod 2 ^ k)"
  using assms getNumber_size [of k]
  by (simp add: mask_bits_def getUint_def shl_def push_bit_eq_mult take_bit_eq_mask [symmetric]
      mask_eq_exp_minus_1 [symmetric] take_bit_eq_mod)

lemma twos_size:
  assumes "0 < w" and "w < 2 ^ 53"
  shows "toTwos (DBig v) (num_of_size w) = toTwos (DBig v) (DBig (int w))"
    and "fromTwos (DBig v) (num_of_size w) = fromTwos (DBig v) (DBig (int w))"
proof -
  have "getNumber (num_of_size w) = getNumber (DBig (int w))"
    by (simp add: num_of_size_def checked_number_int [of "int w", simplified])
  then show "toTwos (DBig v) (num_of_size w) = toTwos (DBig v) (DBig (int w))"
    and "fromTwos (DBig v) (num_of_size w) = fromTwos (DBig v) (DBig (int w))"
    by (simp_all add: toTwos_def fromTwos_def)
qed

text \<open>The bounds of \<open>NumberCoder.encode\<close> are those of the type.\<close>

lemma encode_number_eq:
  assumes "1 \<le> sz" and "sz \<le> 32"
  shows "encode_number sz signd w v0 =
     bindE (dereference v0 (number_type sz signd)) (\<lambda>v.
     bindE (data_of v) (\<lambda>d.
     bindE (getBigInt d) (\<lambda>n.
       if (if signd then fits_signed (8 * sz) n else 0 \<le> n \<and> n < 2 ^ (8 * sz))
       then writeValue w (DBig (n mod 2 ^ 256)) else out_of_bounds)))"
proof -
  have big: "(2 :: int) ^ (8 * sz) \<le> 2 ^ 256" "(2 :: int) ^ (8 * sz - 1) \<le> 2 ^ 255"
    using assms power_increasing [of "8 * sz" 256 "2 :: int"] power_increasing [of "8 * sz - 1" 255 "2 :: int"] by simp_all
  have red: "(2 ^ 256 - 1 :: int) mod 2 ^ m = 2 ^ m - 1" if "m \<le> 256" for m :: nat
  proof -
    have "(2 ^ 256 - 1 :: int) mod 2 ^ m = take_bit m (mask 256)" by (simp add: mask_eq_exp_minus_1 take_bit_eq_mod)
    also have "\<dots> = mask m" using that by (simp only: take_bit_of_mask min.absorb1)
    finally show ?thesis by (simp add: mask_eq_exp_minus_1)
  qed
  have bounds: "mask_bits (DBig (2 ^ 256 - 1)) (num_of_size k) = Inr (2 ^ k - 1)" if "k \<le> 256" for k
    using that red [OF that] by (subst mask_bits_size) simp_all
  have full: "mask_bits MAX_UINT256 (num_of_size (WordSize * 8)) = Inr (2 ^ 256 - 1)"
    using bounds [of 256] by (simp only: MAX_UINT256_def WordSize_def) simp
  have dec: "DNum (num_of_int (int (sz * 8) - 1)) = num_of_size (8 * sz - 1)"
    using assms by (simp add: num_of_size_def mult.commute of_nat_diff)
  have two: "toTwos (DBig n) (num_of_size (8 * WordSize)) = Inr (n mod 2 ^ 256)" if "fits_signed (8 * sz) n" for n
  proof -
    have "- (2 ^ 255) \<le> n \<and> n < 2 ^ 255" using that big unfolding fits_signed_def by linarith
    then show ?thesis
      using twos_size(1) [of 256 n] toTwos_Big [of 256 n] by (simp add: WordSize_def safe_range_def maxValue_def)
  qed
  have small: "n mod 2 ^ 256 = n" if "0 \<le> n" "n < 2 ^ (8 * sz)" for n :: int
    using that big by (intro mod_pos_pos_trivial) linarith+
  show ?thesis
  proof (cases signd)
    case True
    have "mask_bits (DBig (2 ^ 256 - 1)) (num_of_size (8 * sz - 1)) = Inr (2 ^ (8 * sz - 1) - 1)"
      using assms by (intro bounds) simp
    then have "encode_number sz signd w v0 =
        bindE (dereference v0 (number_type sz signd)) (\<lambda>v. bindE (data_of v) (\<lambda>d. bindE (getBigInt d) (\<lambda>n.
          if n > 2 ^ (8 * sz - 1) - 1 \<or> n < - (2 ^ (8 * sz - 1) - 1 + 1) then out_of_bounds
          else bindE (toTwos (DBig n) (num_of_size (8 * WordSize))) (\<lambda>t. writeValue w (DBig t)))))"
      using True by (simp only: encode_number_def full dec bindE_simps if_True)
    also have "\<dots> = bindE (dereference v0 (number_type sz signd)) (\<lambda>v. bindE (data_of v) (\<lambda>d. bindE (getBigInt d) (\<lambda>n.
          if fits_signed (8 * sz) n then writeValue w (DBig (n mod 2 ^ 256)) else out_of_bounds)))"
      using two by (intro bindE_ext) (auto simp add: fits_signed_def)
    finally show ?thesis using True by simp
  next
    case False
    have "mask_bits (DBig (2 ^ 256 - 1)) (num_of_size (sz * 8)) = Inr (2 ^ (8 * sz) - 1)"
      using assms bounds [of "8 * sz"] by (simp add: mult.commute)
    then have "encode_number sz signd w v0 =
        bindE (dereference v0 (number_type sz signd)) (\<lambda>v. bindE (data_of v) (\<lambda>d. bindE (getBigInt d) (\<lambda>n.
          if n < 0 \<or> n > 2 ^ (8 * sz) - 1 then out_of_bounds else writeValue w (DBig n))))"
      using False by (simp only: encode_number_def full bindE_simps if_False)
    also have "\<dots> = bindE (dereference v0 (number_type sz signd)) (\<lambda>v. bindE (data_of v) (\<lambda>d. bindE (getBigInt d) (\<lambda>n.
          if 0 \<le> n \<and> n < 2 ^ (8 * sz) then writeValue w (DBig (n mod 2 ^ 256)) else out_of_bounds)))"
      using small by (intro bindE_ext) auto
    finally show ?thesis using False by simp
  qed
qed

lemma fromTwos_mod:
  assumes "0 < w" and "safe_range (int w)" and "fits_signed w v"
  shows "fromTwos (DBig (v mod 2 ^ w)) (DBig (int w)) = Inr v"
proof -
  have half: "(2 :: int) ^ w = 2 * 2 ^ (w - 1)" using assms(1) by (cases w) simp_all
  have p: "0 < (2 :: int) ^ (w - 1)" by simp
  have "v mod 2 ^ w = (if v < 0 then v + 2 ^ w else v)"
  proof (cases "v < 0")
    case True
    have "v mod 2 ^ w = (v + 2 ^ w) mod 2 ^ w" by simp
    also have "\<dots> = v + 2 ^ w" using True assms(3) half by (intro mod_pos_pos_trivial) (auto simp: fits_signed_def)
    finally show ?thesis using True by simp
  next
    case False
    then show ?thesis using assms(3) half p by (simp add: fits_signed_def)
  qed
  with assms half p show ?thesis by (auto simp: fromTwos_Big fits_signed_def)
qed

section \<open>Values of one word\<close>

lemma decode_address_lower:
  assumes "valid_raw raw"
  shows "bindE (toBeHex (DBig (int (hex_nat raw))) (Some (num_of_size 22))) (\<lambda>h. bindE (getAddress h) (\<lambda>a. Inr (VData (DStr a)))) =
    Inr (VData (DStr (''0x'' @ map to_lower raw)))"
proof -
  have raw: "length raw = 44" "list_all is_hex_char raw" using assms by (simp_all add: valid_raw_def Let_def)
  then have p: "pad_to 44 (nat_toString 16 (hex_nat raw)) = map to_lower raw"
    using hex_nat_lower [of raw 44] by (cases "raw = []") simp_all
  then have "length (nat_toString 16 (hex_nat raw)) \<le> 44" using raw(1) pad_to_eq [of 44] by (metis length_append length_map le_add2 of_nat_numeral)
  with p have "toBeHex (DBig (int (hex_nat raw))) (Some (num_of_size 22)) = Inr (''0x'' @ map to_lower raw)"
    using getNumber_size [of 22] by (simp add: toBeHex_def getUint_def int_toString_def)
  then show ?thesis using valid_raw_lower [OF assms] getAddress_iff [of "map to_lower raw"] by simp
qed

lemma sound_address: "sound_at (AddressCoder nm) v"
  unfolding sound_at_def
proof (intro allI impI)
  fix x r assume e: "encode (AddressCoder nm) empty_writer v = Inr x" and c: "canon (AddressCoder nm) v = Inr r"
  from e have "encode_address empty_writer v = Inr x" by simp
  then obtain u s a where u: "dereference v ''string'' = Inr u" "as_data u = Some (DStr s)" "getAddress s = Inr a"
    "writeValue empty_writer (DStr a) = Inr x" by (rule encode_address_cases)
  obtain raw where raw: "valid_raw raw" "a = ''0x'' @ raw" using u(3) by (rule getAddress_valid)
  have r: "r = VData (DStr (''0x'' @ map to_lower raw))"
    using c u(1-3) raw(2) by (auto simp: data_of_def canon_address_def to_lower_def)
  obtain n where n: "getUint (DStr a) = Inr (int n)" "n < 2 ^ 256" "wbytes x = abi_word n"
    using writeValue_word [OF u(4)] by blast
  have "getUint (DStr a) = Inr (int (hex_nat raw))"
    using raw unfolding raw(2) by (intro getUint_DStr_hex) (auto simp: valid_raw_def Let_def)
  with n(1) have "n = hex_nat raw" by simp
  then have "reads False (decode (AddressCoder nm)) (abi_word n) r"
    using r decode_address_lower [OF raw(1)] n(2)
    by (intro reads_word [where f = "\<lambda>n. bindE (toBeHex (DBig n) (Some (num_of_size 22))) (\<lambda>h. bindE (getAddress h) (\<lambda>a. Inr (VData (DStr a))))"])
       (simp_all add: decode_address_def)
  then show "reads (coder_dynamic (AddressCoder nm)) (decode (AddressCoder nm)) (wbytes x) r \<and> r \<noteq> VNull \<and> r \<noteq> VUndef \<and>
      (spacious (AddressCoder nm) \<longrightarrow> 32 \<le> length (wbytes x))"
    using n length_abi_word [OF n(2)] r by simp
qed

lemma sound_bool: "sound_at (BooleanCoder nm) v"
  unfolding sound_at_def
proof (intro allI impI)
  fix x r assume e: "encode (BooleanCoder nm) empty_writer v = Inr x" and c: "canon (BooleanCoder nm) v = Inr r"
  from e c obtain u where u: "dereference v ''bool'' = Inr u" "r = VBool (truthy u)"
    and w: "writeValue empty_writer (num_of_size (if truthy u then 1 else 0)) = Inr x"
    by (cases "dereference v ''bool''") auto
  obtain n where n: "getUint (num_of_size (if truthy u then 1 else 0)) = Inr (int n)" "n < 2 ^ 256" "wbytes x = abi_word n"
    using writeValue_word [OF w] by blast
  have "getUint (num_of_size k) = Inr (int k)" if "k \<le> 1" for k
    using that getNumber_getBigInt [OF getNumber_size [of k]]
    by (auto simp: getUint_def num_of_size_def)
  from n(1) this [of "if truthy u then 1 else 0"] have "n = (if truthy u then 1 else 0)" by (simp split: if_splits)
  then have "reads False (decode (BooleanCoder nm)) (abi_word n) r"
    using u(2) n(2) by (intro reads_word [where f = "\<lambda>n. Inr (VBool (n \<noteq> 0))"]) auto
  then show "reads (coder_dynamic (BooleanCoder nm)) (decode (BooleanCoder nm)) (wbytes x) r \<and> r \<noteq> VNull \<and> r \<noteq> VUndef \<and>
      (spacious (BooleanCoder nm) \<longrightarrow> 32 \<le> length (wbytes x))"
    using n length_abi_word [OF n(2)] u(2) by simp
qed

lemma decode_number_eq:
  assumes "1 \<le> sz" "sz \<le> 32" and "if signd then fits_signed (8 * sz) n else 0 \<le> n \<and> n < 2 ^ (8 * sz)"
  shows "bindE (mask_bits (DBig (n mod 2 ^ 256)) (num_of_size (sz * 8))) (\<lambda>value.
     if signd then mapE (\<lambda>x. VData (DBig x)) (fromTwos (DBig value) (num_of_size (sz * 8))) else Inr (VData (DBig value))) =
    Inr (VData (DBig n))"
proof -
  have m: "mask_bits (DBig (n mod 2 ^ 256)) (num_of_size (sz * 8)) = Inr (n mod 2 ^ (8 * sz))"
  proof -
    have "n mod 2 ^ 256 mod 2 ^ (8 * sz) = n mod 2 ^ (8 * sz)"
      using assms by (intro mod_mod_cancel le_imp_power_dvd) simp
    then show ?thesis using assms mask_bits_size [of "n mod 2 ^ 256" "8 * sz"] by (simp add: mult.commute)
  qed
  show ?thesis
  proof (cases signd)
    case True
    have "fromTwos (DBig (n mod 2 ^ (8 * sz))) (num_of_size (sz * 8)) = Inr n"
      using twos_size(2) [of "8 * sz"] fromTwos_mod [of "8 * sz" n] assms True
      by (simp add: mult.commute safe_range_def maxValue_def)
    then show ?thesis using True m by (simp only: bindE_simps if_True) simp
  qed (use m assms(3) in \<open>simp only: bindE_simps if_False, simp\<close>)
qed

lemma sound_number:
  assumes "1 \<le> sz" "sz \<le> 32"
  shows "sound_at (NumberCoder sz signd nm) v"
  unfolding sound_at_def
proof (intro allI impI)
  fix x r assume e: "encode (NumberCoder sz signd nm) empty_writer v = Inr x" and c: "canon (NumberCoder sz signd nm) v = Inr r"
  define ok where "ok n \<longleftrightarrow> (if signd then fits_signed (8 * sz) n else 0 \<le> n \<and> n < 2 ^ (8 * sz))" for n
  from c obtain u d n where u: "dereference v (number_type sz signd) = Inr u" "data_of u = Inr d" "getBigInt d = Inr n"
    "r = VData (DBig n)" by auto
  then have ok: "ok n" and w: "writeValue empty_writer (DBig (n mod 2 ^ 256)) = Inr x"
    using e unfolding encode.simps encode_number_eq [OF assms] ok_def [symmetric]
    by (simp_all add: out_of_bounds_def split: if_splits)
  obtain k where k: "getUint (DBig (n mod 2 ^ 256)) = Inr (int k)" "k < 2 ^ 256" "wbytes x = abi_word k"
    using writeValue_word [OF w] by blast
  from k(1) have ik: "int k = n mod 2 ^ 256" by (simp add: getUint_def)
  have "reads False (decode (NumberCoder sz signd nm)) (abi_word k) r"
    using k(2) decode_number_eq [OF assms ok [unfolded ok_def]] unfolding u(4) ik [symmetric]
    by (intro reads_word [where f = "\<lambda>n. bindE (mask_bits (DBig n) (num_of_size (sz * 8))) (\<lambda>value.
         if signd then mapE (\<lambda>x. VData (DBig x)) (fromTwos (DBig value) (num_of_size (sz * 8)))
         else Inr (VData (DBig value)))"]) (simp_all only: decode_number_def decode.simps)
  then show "reads (coder_dynamic (NumberCoder sz signd nm)) (decode (NumberCoder sz signd nm)) (wbytes x) r \<and> r \<noteq> VNull \<and> r \<noteq> VUndef \<and>
      (spacious (NumberCoder sz signd nm) \<longrightarrow> 32 \<le> length (wbytes x))"
    using k length_abi_word [OF k(2)] u(4) by simp
qed

section \<open>Byte strings and text\<close>

lemma utf8_string_back:
  assumes "wf_utf16 s" and "toUtf8Bytes plat nfun s None = Inr bs"
  shows "toUtf8String (DU8 bs) None = Inr s"
proof -
  obtain cps where "list_all scalar cps" "s = toUtf8String_points cps" "map unat bs = concat (map utf8_encode cps)"
    using assms by (auto simp: wf_utf16_iff toUtf8Bytes_scalars simp flip: toUtf8String_points_def)
  then show ?thesis by (auto simp: toUtf8String_def strict_points)
qed

lemma take_padded [simp]: "take (length bs) (padded bs) = bs"
  by (simp add: padded_def)

lemma readBytes_padded:
  "stands rd (padded bs) \<Longrightarrow> readBytes (length bs) loose rd = (Inr bs, adv rd (aligned (length bs)))"
  using readBytes_at [of rd "padded bs" "length bs" loose] by (simp add: length_padded)

lemma hex_value_bytes: "hex_value bs = Inr (canon_bytes bs)"
  by (simp add: hex_value_def canon_bytes_def)

lemma sound_fixed:
  assumes "1 \<le> sz"
  shows "sound_at (FixedBytesCoder sz nm) v"
  unfolding sound_at_def
proof (intro allI impI)
  fix x r assume e: "encode (FixedBytesCoder sz nm) empty_writer v = Inr x" and c: "canon (FixedBytesCoder sz nm) v = Inr r"
  from c obtain u d bs where u: "dereference v (fixed_type sz) = Inr u" "data_of u = Inr d" "getBytes d = Inr bs"
    "r = canon_bytes bs" by auto
  with e have l: "length bs = sz" "wbytes x = padded bs"
    by (auto simp: encode_fixed_def writeBytes_eq split: if_splits)
  have "reads False (decode (FixedBytesCoder sz nm)) (padded bs) r"
    using l(1) u(4) by (auto simp: reads_def readBytes_padded rbind_def rlift_def hex_value_bytes length_padded)
  moreover have "32 \<le> length (padded bs)" using assms l(1) by (auto simp: length_padded aligned_def)
  ultimately show "reads (coder_dynamic (FixedBytesCoder sz nm)) (decode (FixedBytesCoder sz nm)) (wbytes x) r \<and> r \<noteq> VNull \<and>
      r \<noteq> VUndef \<and> (spacious (FixedBytesCoder sz nm) \<longrightarrow> 32 \<le> length (wbytes x))"
    using l(2) u(4) by (simp add: canon_bytes_def)
qed

lemma decode_dynamic_at:
  assumes "stands rd (abi_word (length bs) @ padded bs)" and "length bs < 2 ^ 53"
  shows "\<exists>rd'. decode_dynamic_bytes rd = (Inr bs, rd')"
proof -
  have "length (abi_word (length bs)) = 32" using assms(2) by (intro length_abi_word) simp
  then have "stands rd (abi_word (length bs))" "stands (adv rd 32) (padded bs)"
    using stands_append [OF assms(1)] by auto
  then show ?thesis
    using readIndex_at [of rd "length bs"] assms(2) by (simp add: decode_dynamic_bytes_def rbind_def readBytes_padded)
qed

lemma dynamic_bytes_written:
  "encode_dynamic_bytes empty_writer bs = Inr x \<Longrightarrow>
   wbytes x = abi_word (length bs) @ padded bs \<and> length bs < 2 ^ 53 \<and> 32 \<le> length (wbytes x)"
proof -
  assume "encode_dynamic_bytes empty_writer bs = Inr x"
  then obtain b where b: "getValue_word (DNum (num_of_int (int (length bs)))) = Inr b"
    "x = writeData (writeData empty_writer b) (padded bs)"
    by (auto simp: encode_dynamic_bytes_eq num_of_size_def)
  from getValue_index [OF b(1)] have n: "b = abi_word (length bs)" "length bs < 2 ^ 53" by auto
  then have "length (abi_word (length bs)) = 32" by (intro length_abi_word) simp
  then show ?thesis using n b(2) by simp
qed

lemma sound_dynamic:
  assumes "encode_dynamic_bytes empty_writer bs = Inr x" and "f bs = Inr r"
  shows "reads True (rbind decode_dynamic_bytes (\<lambda>bs. rlift (f bs))) (wbytes x) r \<and> 32 \<le> length (wbytes x)"
proof -
  have w: "wbytes x = abi_word (length bs) @ padded bs" "length bs < 2 ^ 53" "32 \<le> length (wbytes x)"
    using dynamic_bytes_written [OF assms(1)] by auto
  have "\<exists>rd'. rbind decode_dynamic_bytes (\<lambda>bs. rlift (f bs)) rd = (Inr r, rd')" if "stands rd (wbytes x)" for rd
    using decode_dynamic_at [of rd bs] that w assms(2) by (auto simp: rbind_def rlift_def)
  with w(3) show ?thesis by (simp add: reads_def)
qed

lemma reads_cong: "reads dyn f bs r \<Longrightarrow> (\<And>rd. g rd = f rd) \<Longrightarrow> reads dyn g bs r"
  by (simp add: reads_def)

lemma sound_bytes: "sound_at (BytesCoder nm) v"
  unfolding sound_at_def
proof (intro allI impI)
  fix x r assume e: "encode (BytesCoder nm) empty_writer v = Inr x" and c: "canon (BytesCoder nm) v = Inr r"
  from c obtain d bs where u: "data_of v = Inr d" "getBytes d = Inr bs" "r = canon_bytes bs" by auto
  with e have "encode_dynamic_bytes empty_writer bs = Inr x" by simp
  from sound_dynamic [OF this, of hex_value r] u(3)
  show "reads (coder_dynamic (BytesCoder nm)) (decode (BytesCoder nm)) (wbytes x) r \<and> r \<noteq> VNull \<and> r \<noteq> VUndef \<and>
      (spacious (BytesCoder nm) \<longrightarrow> 32 \<le> length (wbytes x))"
    by (auto simp: hex_value_bytes canon_bytes_def elim: reads_cong)
qed

lemma sound_string: "sound_at (StringCoder nm) v"
  unfolding sound_at_def
proof (intro allI impI)
  fix x r assume e: "encode (StringCoder nm) empty_writer v = Inr x" and c: "canon (StringCoder nm) v = Inr r"
  from c obtain u t where u: "dereference v ''string'' = Inr u" "as_units u = Some t" "wf_utf16 t" "r = VText t"
    by (auto simp: units_of_def canon_text_def invalid_value_def split: option.splits if_splits)
  with e obtain bs where bs: "toUtf8Bytes [] (\<lambda>_. id) t None = Inr bs" "encode_dynamic_bytes empty_writer bs = Inr x"
    by (auto simp: encode_string_def)
  have "toUtf8String (DU8 bs) None = Inr t" using bs(1) u(3) utf8_string_back by blast
  from sound_dynamic [OF bs(2), of "\<lambda>bs. mapE VText (toUtf8String (DU8 bs) None)" r] this u(4)
  show "reads (coder_dynamic (StringCoder nm)) (decode (StringCoder nm)) (wbytes x) r \<and> r \<noteq> VNull \<and> r \<noteq> VUndef \<and>
      (spacious (StringCoder nm) \<longrightarrow> 32 \<le> length (wbytes x))"
    by (auto elim: reads_cong)
qed

section \<open>Arrays and tuples\<close>

text \<open>What \<open>pack\<close> and \<open>unpack\<close> get for a list of coders.\<close>

definition packers :: "coder list \<Rightarrow> packer list" where
  "packers cs = map (\<lambda>c. (coder_dynamic c, coder_localName c, \<lambda>w x. encode c w x)) cs"

definition unpackers :: "(coder \<Rightarrow> string) \<Rightarrow> coder list \<Rightarrow> unpacker list" where
  "unpackers key cs = map (\<lambda>c. (coder_dynamic c, key c, \<lambda>r. decode c r)) cs"

definition roomy :: "bool \<times> byte list \<Rightarrow> bool" where
  "roomy p \<longleftrightarrow> fst p \<or> 32 \<le> length (snd p)"

lemma roomy_all: "list_all roomy ps \<Longrightarrow> 32 * length ps \<le> head_len ps"
  by (induction ps) (auto simp: roomy_def)

lemma roomy_ex: "list_ex roomy ps \<Longrightarrow> 32 \<le> head_len ps"
  by (induction ps) (auto simp: roomy_def)

lemma static_tails: "\<not> list_ex fst ps \<Longrightarrow> tails ps = []"
  by (induction ps) auto

lemma items_sound:
  assumes "all_packed (packers cs) vals zs" and "apply_each (map (\<lambda>c y. canon c y) cs) vals = Inr rs"
    and "\<And>c v. c \<in> set cs \<Longrightarrow> sound_at c v"
  shows "all_read (unpackers key cs) (pieces zs) rs \<and> map fst (pieces zs) = map coder_dynamic cs \<and>
    list_all2 (\<lambda>c p. coder_dynamic c \<or> spacious c \<longrightarrow> roomy p) cs (pieces zs)"
  using assms
proof (induction cs arbitrary: vals zs rs)
  case Nil
  then show ?case by (cases vals; cases zs; simp add: packers_def unpackers_def)
next
  case (Cons c cs)
  obtain val vs z zs' where e: "vals = val # vs" "zs = z # zs'"
    using Cons.prems(1) by (cases vals; cases zs; simp add: packers_def)
  obtain x where z: "z = (coder_dynamic c, x)"
    using Cons.prems(1) by (cases z) (auto simp: e packers_def packed_def)
  obtain v where v: "val = Inr v" "encode c empty_writer v = Inr x" "all_packed (packers cs) vs zs'"
    using Cons.prems(1) by (auto simp: e z packers_def packed_def)
  obtain y ys where y: "canon c v = Inr y" "apply_each (map (\<lambda>c y. canon c y) cs) vs = Inr ys" "rs = y # ys"
    using Cons.prems(2) by (auto simp: e v)
  have "sound_at c v" using Cons.prems(3) by simp
  with v y have "reads (coder_dynamic c) (decode c) (wbytes x) y" "y \<noteq> VNull" "y \<noteq> VUndef"
    "spacious c \<Longrightarrow> 32 \<le> length (wbytes x)" by (auto simp: sound_at_def)
  moreover have "all_read (unpackers key cs) (pieces zs') ys \<and> map fst (pieces zs') = map coder_dynamic cs \<and>
    list_all2 (\<lambda>c p. coder_dynamic c \<or> spacious c \<longrightarrow> roomy p) cs (pieces zs')"
    using Cons.prems(3) by (intro Cons.IH [OF v(3) y(2)]) simp
  ultimately show ?case by (auto simp: e z y(3) unpackers_def roomy_def)
qed

text \<open>A packed list of components is read back, from where its heads start.\<close>

lemma pack_sound:
  assumes "pack empty_writer (packers cs) u = Inr x"
    and "canon_items (map (\<lambda>c y. canon c y) cs) (map coder_localName cs) (map key cs) u = Inr r"
    and "\<And>c v. c \<in> set cs \<Longrightarrow> sound_at c v"
  obtains ps where "wbytes x = tuple_bytes ps" "map fst ps = map coder_dynamic cs"
    "list_all2 (\<lambda>c p. coder_dynamic c \<or> spacious c \<longrightarrow> roomy p) cs ps" "length (wbytes x) = head_len ps + length (tails ps)"
    "\<And>rd. stands rd (wbytes x) \<Longrightarrow> length (rdata rd) < 2 ^ 53 \<Longrightarrow> unpack (unpackers key cs) rd = (Inr r, adv rd (head_len ps))"
    "r \<noteq> VNull" "r \<noteq> VUndef"
proof -
  have "list_all good_packer (packers cs)"
    using good_packer_coder by (auto simp: packers_def list_all_iff)
  from pack_layout [OF assms(1) this] obtain vals zs where
    vals: "arrayValues (map coder_localName cs) u = Inr vals" "all_packed (packers cs) vals zs"
    and x: "wbytes x = tuple_bytes (pieces zs)" "offsets_below (2 ^ 53) (head_len (pieces zs)) (pieces zs)"
    by (auto simp: packers_def comp_def)
  from assms(2) vals(1) obtain rs where rs: "apply_each (map (\<lambda>c y. canon c y) cs) vals = Inr rs"
    "r = fromItems rs (map key_of (map key cs))" by (auto simp: canon_items_def)
  note * = items_sound [OF vals(2) rs(1), where key = key]
  have all: "all_read (unpackers key cs) (pieces zs) rs" "map fst (pieces zs) = map coder_dynamic cs"
    "list_all2 (\<lambda>c p. coder_dynamic c \<or> spacious c \<longrightarrow> roomy p) cs (pieces zs)" using * assms(3) by auto
  have "length (heads (head_len (pieces zs)) (pieces zs)) = head_len (pieces zs)"
    using offsets_below_mono [OF _ x(2), of "2 ^ 256"] by (intro length_heads) simp
  then have "length (wbytes x) = head_len (pieces zs) + length (tails (pieces zs))" using x(1) by (simp add: tuple_bytes_def)
  moreover have "unpack (unpackers key cs) rd = (Inr r, adv rd (head_len (pieces zs)))"
    if "stands rd (wbytes x)" "length (rdata rd) < 2 ^ 53" for rd
    using unpack_spec [OF all(1) _ x(2) that(2)] that(1) x(1) by (simp add: rs(2) unpackers_def comp_def)
  ultimately show thesis using that [OF x(1) all(2,3)] rs(2) by (simp add: fromItems_def)
qed

lemma list_ex_roomy:
  "list_all2 (\<lambda>c p. coder_dynamic c \<or> spacious c \<longrightarrow> roomy p) cs ps \<Longrightarrow>
   list_ex (\<lambda>c. coder_dynamic c \<or> spacious c) cs \<Longrightarrow> list_ex roomy ps"
  by (induction cs ps rule: list_all2_induct) auto

lemma list_all_roomy:
  "list_all2 (\<lambda>c p. coder_dynamic c \<or> spacious c \<longrightarrow> roomy p) cs ps \<Longrightarrow>
   list_all (\<lambda>c. coder_dynamic c \<or> spacious c) cs \<Longrightarrow> list_all roomy ps"
  by (induction cs ps rule: list_all2_induct) auto

lemma list_ex_dynamic: "map fst ps = map coder_dynamic cs \<Longrightarrow> list_ex fst ps = list_ex coder_dynamic cs"
  by (simp add: list_ex_iff) (metis (mono_tags, lifting) image_iff set_map)

lemma sound_tuple:
  assumes "\<And>c v. c \<in> set cs \<Longrightarrow> sound_at c v"
  shows "sound_at (TupleCoder cs nm) v"
  unfolding sound_at_def
proof (intro allI impI)
  fix x r assume e: "encode (TupleCoder cs nm) empty_writer v = Inr x" and c: "canon (TupleCoder cs nm) v = Inr r"
  obtain u where u: "dereference v ''tuple'' = Inr u" "pack empty_writer (packers cs) u = Inr x"
    using e by (auto simp: packers_def)
  with c have cu: "canon_items (map (\<lambda>c y. canon c y) cs) (map coder_localName cs) (map coder_localName cs) u = Inr r"
    by simp
  from pack_sound [OF u(2) cu assms] obtain ps where ps: "wbytes x = tuple_bytes ps" "map fst ps = map coder_dynamic cs"
    "list_all2 (\<lambda>c p. coder_dynamic c \<or> spacious c \<longrightarrow> roomy p) cs ps" "length (wbytes x) = head_len ps + length (tails ps)"
    "\<And>rd. stands rd (wbytes x) \<Longrightarrow> length (rdata rd) < 2 ^ 53 \<Longrightarrow>
       unpack (unpackers coder_localName cs) rd = (Inr r, adv rd (head_len ps))"
    "r \<noteq> VNull" "r \<noteq> VUndef" by blast
  have "length (wbytes x) = head_len ps" if "\<not> coder_dynamic (TupleCoder cs nm)"
    using that ps(4) static_tails [of ps] list_ex_dynamic [OF ps(2)] by simp
  then have "reads (coder_dynamic (TupleCoder cs nm)) (decode (TupleCoder cs nm)) (wbytes x) r"
    using ps(5) by (auto simp: reads_def unpackers_def)
  moreover have "32 \<le> length (wbytes x)" if "spacious (TupleCoder cs nm)"
    using that roomy_ex [of ps] list_ex_roomy [OF ps(3)] ps(4) by simp
  ultimately show "reads (coder_dynamic (TupleCoder cs nm)) (decode (TupleCoder cs nm)) (wbytes x) r \<and> r \<noteq> VNull \<and>
      r \<noteq> VUndef \<and> (spacious (TupleCoder cs nm) \<longrightarrow> 32 \<le> length (wbytes x))"
    using ps(6,7) by blast
qed

lemma sound_array:
  assumes "\<And>v. sound_at c v" and "len = None \<longrightarrow> coder_dynamic c \<or> spacious c"
  shows "sound_at (ArrayCoder c len nm) v"
  unfolding sound_at_def
proof (intro allI impI)
  fix x r assume e: "encode (ArrayCoder c len nm) empty_writer v = Inr x" and ca: "canon (ArrayCoder c len nm) v = Inr r"
  from e have "encode_array len nm (coder_dynamic c, coder_localName c, \<lambda>w' v'. encode c w' v') empty_writer v = Inr x" by simp
  then obtain u n hd y where u: "dereference v ''array'' = Inr u" "array_length u = Some n"
    "case len of None \<Rightarrow> hd = abi_word n \<and> n < 2 ^ 53 | Some k \<Rightarrow> hd = [] \<and> n = k"
    "pack empty_writer (replicate n (coder_dynamic c, coder_localName c, \<lambda>w' v'. encode c w' v')) u = Inr y"
    "x = wappend \<lparr>wdata = (if len = None then [hd] else []), wlength = length hd\<rparr> y" by (rule encode_array_cases)
  define cs where "cs = replicate n c"
  have p: "pack empty_writer (packers cs) u = Inr y" using u(4) by (simp add: packers_def cs_def map_replicate)
  have cu: "canon_items (map (\<lambda>c y. canon c y) cs) (map coder_localName cs) (map (\<lambda>_. ''_'') cs) u = Inr r"
    using ca u(1,2) by (simp add: cs_def map_replicate)
  have "\<And>c' v. c' \<in> set cs \<Longrightarrow> sound_at c' v" using assms(1) by (simp add: cs_def)
  from pack_sound [OF p cu this] obtain ps where ps: "wbytes y = tuple_bytes ps" "map fst ps = map coder_dynamic cs"
    "list_all2 (\<lambda>c p. coder_dynamic c \<or> spacious c \<longrightarrow> roomy p) cs ps" "length (wbytes y) = head_len ps + length (tails ps)"
    "\<And>rd. stands rd (wbytes y) \<Longrightarrow> length (rdata rd) < 2 ^ 53 \<Longrightarrow>
       unpack (unpackers (\<lambda>_. ''_'') cs) rd = (Inr r, adv rd (head_len ps))"
    "r \<noteq> VNull" "r \<noteq> VUndef" by blast
  have us: "replicate n (coder_dynamic c, ''_'', \<lambda>r'. decode c r') = unpackers (\<lambda>_. ''_'') cs"
    by (simp add: unpackers_def cs_def map_replicate)
  have lps: "length ps = n" using ps(3) by (simp add: cs_def list_all2_lengthD [symmetric])
  show "reads (coder_dynamic (ArrayCoder c len nm)) (decode (ArrayCoder c len nm)) (wbytes x) r \<and> r \<noteq> VNull \<and> r \<noteq> VUndef \<and>
      (spacious (ArrayCoder c len nm) \<longrightarrow> 32 \<le> length (wbytes x))"
  proof (cases len)
    case None
    then have n: "hd = abi_word n" "n < 2 ^ 53" and x: "wbytes x = abi_word n @ wbytes y" using u(3,5) by (auto simp: wbytes_def)
    have lw: "length (abi_word n) = 32" using n(2) by (intro length_abi_word) simp
    have room: "32 * n \<le> length (wbytes y)"
      using roomy_all [OF list_all_roomy [OF ps(3)]] assms(2) None ps(4) lps by (simp add: cs_def list_all_iff)
    have "\<exists>rd'. decode (ArrayCoder c len nm) rd = (Inr r, rd')" if st: "stands rd (wbytes x)" and l: "length (rdata rd) < 2 ^ 53" for rd
    proof -
      have at1: "stands rd (abi_word n)" "stands (adv rd 32) (wbytes y)" using stands_append st lw unfolding x by fastforce+
      have "n * 32 \<le> length (rdata rd)" using stands_length [OF st] room x by simp
      then have "decode_count len rd = (Inr n, adv rd 32)"
        using None readIndex_at [OF at1(1) n(2)] by (simp add: decode_count_def rbind_def WordSize_def)
      then show ?thesis using ps(5) [OF at1(2)] l by (simp add: us rbind_def)
    qed
    then show ?thesis using None ps(6,7) x lw by (simp add: reads_def)
  next
    case (Some k)
    then have x: "wbytes x = wbytes y" "n = k" using u(3,5) by (auto simp: wbytes_def)
    have "length (wbytes x) = head_len ps" if "\<not> coder_dynamic c"
      using that ps(4) x static_tails [of ps] list_ex_dynamic [OF ps(2)] by (simp add: cs_def list_ex_iff)
    then have "reads (coder_dynamic (ArrayCoder c len nm)) (decode (ArrayCoder c len nm)) (wbytes x) r"
      using ps(5) x Some by (auto simp: reads_def us rbind_def rlift_def decode_count_def simp flip: x(2))
    moreover have "32 \<le> length (wbytes x)" if "spacious (ArrayCoder c len nm)"
    proof -
      have "0 < n" "coder_dynamic c \<or> spacious c" using that Some x(2) by auto
      then show ?thesis
        using roomy_all [OF list_all_roomy [OF ps(3)]] ps(4) lps x(1) by (simp add: cs_def list_all_iff)
    qed
    ultimately show ?thesis using ps(6,7) by blast
  qed
qed

text \<open>Every coder of a real type reads back what it wrote.\<close>

lemma sound: "wf_coder c \<Longrightarrow> sound_at c v"
proof (induction c arbitrary: v)
  case (TupleCoder cs nm)
  then show ?case by (intro sound_tuple) (auto simp: list_all_iff)
next
  case (AnonymousCoder c)
  then have "sound_at c v" for v by simp
  then show ?case by (fastforce simp: sound_at_def elim: reads_cong)
qed (auto intro: sound_address sound_bool sound_number sound_fixed sound_bytes sound_string sound_array)

end
