(* ===== verification/Abi.thy ===== *)
theory Abi
  imports Abi_Sound
begin

text \<open>
  \<open>src.ts/abi/abi-coder.ts\<close>: the coder of a parameter type, and \<open>AbiCoder\<close>'s
  \<open>encode\<close>, \<open>decode\<close> and \<open>getDefaultValue\<close> over lists of types, with what they
  promise.
\<close>

section \<open>Parameter types\<close>

text \<open>
  \<open>ParamType\<close> of \<open>fragments.ts\<close>: its name, type, base type, whether it is indexed,
  the components of a tuple, the length (-1 if dynamic) and element type of an array.
\<close>

datatype param_type =
  ParamType (pt_name: string) (pt_type: string) (pt_baseType: string) (pt_indexed: "bool option")
    (pt_components: "param_type list option") (pt_arrayLength: "int option") (pt_arrayChildren: "param_type option")

fun digits_of :: "string \<Rightarrow> string option" where
  "digits_of s = (if list_all is_digit10 s then Some s else None)"

text \<open>\<open>/^(u?int)([0-9]*)$/\<close>: signed, and the digits.\<close>

definition paramTypeNumber :: "string \<Rightarrow> (bool \<times> string) option" where
  "paramTypeNumber t =
     (if take 3 t = ''int'' then map_option (Pair True) (digits_of (drop 3 t))
      else if take 4 t = ''uint'' then map_option (Pair False) (digits_of (drop 4 t)) else None)"

definition paramTypeBytes :: "string \<Rightarrow> string option" where
  "paramTypeBytes t = (if take 5 t = ''bytes'' then digits_of (drop 5 t) else None)"

text \<open>The coder of a type that is neither array nor tuple.\<close>

definition getCoder_simple :: "string \<Rightarrow> string \<Rightarrow> string \<Rightarrow> coder result" where
  "getCoder_simple name type baseType =
     (if baseType = ''address'' then Inr (AddressCoder name)
      else if baseType = ''bool'' then Inr (BooleanCoder name)
      else if baseType = ''string'' then Inr (StringCoder name)
      else if baseType = ''bytes'' then Inr (BytesCoder name)
      else if baseType = [] then Inr (NullCoder name)
      else case paramTypeNumber type of
             Some (signd, digits) \<Rightarrow>
               (let sz = dec_value (if digits = [] then ''256'' else digits)
                in bindE (assertArgument (sz \<noteq> 0 \<and> sz \<le> 256 \<and> sz mod 8 = 0)
                     (''invalid '' @ (if signd then ''int'' else ''uint'') @ '' bit length''))
                   (\<lambda>_. Inr (NumberCoder (sz div 8) signd name)))
           | None \<Rightarrow>
               (case paramTypeBytes type of
                  Some digits \<Rightarrow>
                    bindE (assertArgument (digits \<noteq> [] \<and> dec_value digits \<noteq> 0 \<and> dec_value digits \<le> 32) ''invalid bytes length'')
                      (\<lambda>_. Inr (FixedBytesCoder (dec_value digits) name))
                | None \<Rightarrow> Inl (CoreError INVALID_ARGUMENT ''invalid type'')))"

text \<open>
  \<open>isArray\<close> and \<open>isTuple\<close> test the base type; an array without an element type and a
  tuple without components do not arise from \<open>ParamType\<close>'s constructor.
\<close>

fun getCoder :: "param_type \<Rightarrow> coder result" where
  "getCoder (ParamType name type baseType indexed components arrayLength arrayChildren) =
     (if baseType = ''array''
      then (case (arrayLength, arrayChildren) of
              (Some len, Some child) \<Rightarrow>
                bindE (getCoder child) (\<lambda>c. Inr (ArrayCoder c (if len = -1 then None else Some (nat len)) name))
            | _ \<Rightarrow> Inl (JsError NativeTypeError ''Cannot read properties of null''))
      else if baseType = ''tuple''
      then (case components of
              Some cs \<Rightarrow> bindE (mapM getCoder cs) (\<lambda>coders. Inr (TupleCoder coders name))
            | None \<Rightarrow> Inl (JsError NativeTypeError ''Cannot read properties of null''))
      else getCoder_simple name type baseType)"

section \<open>AbiCoder\<close>

definition abi_coder :: "param_type list \<Rightarrow> coder result" where
  "abi_coder types = bindE (mapM getCoder types) (\<lambda>coders. Inr (TupleCoder coders ''_''))"

definition AbiCoder_getDefaultValue :: "param_type list \<Rightarrow> abi_value result" where
  "AbiCoder_getDefaultValue types = mapE defaultValue (abi_coder types)"

text \<open>The values are an array or a \<open>Result\<close>, as the parameter's type says.\<close>

definition AbiCoder_encode :: "param_type list \<Rightarrow> abi_value \<Rightarrow> string result" where
  "AbiCoder_encode types values =
     (case array_length values of
        None \<Rightarrow> Inl (CoreError MISSING_ARGUMENT ''missing arguemnt: types/values length mismatch'')
      | Some n \<Rightarrow>
          bindE (assertArgumentCount n (length types) ''types/values length mismatch'') (\<lambda>_.
          bindE (abi_coder types) (\<lambda>coder.
          bindE (encode coder empty_writer values) writer_data)))"

definition AbiCoder_decode :: "param_type list \<Rightarrow> js_data \<Rightarrow> bool \<Rightarrow> abi_value result" where
  "AbiCoder_decode types d loose =
     bindE (abi_coder types) (\<lambda>coder.
     bindE (new_reader d loose) (\<lambda>reader. fst (decode coder reader)))"

section \<open>Properties\<close>

lemma encoded_decodes:
  assumes "abi_coder types = Inr coder" and "wf_coder coder" and "AbiCoder_encode types vals = Inr d"
    and "canon coder vals = Inr r" and "length d < 2 ^ 53"
  shows "\<exists>bs. d = ''0x'' @ hex_of_bytes bs \<and> (\<forall>x loose. getBytes x = Inr bs \<longrightarrow> AbiCoder_decode types x loose = Inr r)"
proof -
  obtain x where x: "encode coder empty_writer vals = Inr x" "writer_data x = Inr d"
    using assms(1,3) by (auto simp: AbiCoder_encode_def split: option.splits)
  have d: "d = ''0x'' @ hex_of_bytes (wbytes x)"
    using x(2) concat_data_bytes [of "wdata x"] by (simp add: writer_data_def wbytes_def)
  then have l: "length (wbytes x) < 2 ^ 53" using assms(5) by simp
  have "AbiCoder_decode types y loose = Inr r" if y: "getBytes y = Inr (wbytes x)" for y loose
  proof -
    define rd where "rd = \<lparr>rdata = wbytes x, roffset = 0, rloose = loose\<rparr>"
    have "reads (coder_dynamic coder) (decode coder) (wbytes x) r"
      using sound [OF assms(2), of vals] x(1) assms(4) by (simp add: sound_at_def)
    moreover have "stands rd (wbytes x)" "length (rdata rd) < 2 ^ 53" using l by (simp_all add: rd_def stands_def)
    ultimately obtain rd' where "decode coder rd = (Inr r, rd')" by (auto simp: reads_def)
    moreover have "new_reader y loose = Inr rd" by (simp add: new_reader_def y rd_def)
    ultimately show ?thesis using assms(1) by (simp add: AbiCoder_decode_def)
  qed
  with d show ?thesis by blast
qed

text \<open>
  C9. Decoding inverts encoding. For types without a null and without dynamic
  arrays of empty elements, if the values encode and have a canonical form (no text
  with a lone low surrogate), then decoding the data gives the canonical values:
  addresses in lower case, numbers as \<open>bigint\<close>, bytes in hexadecimal, arrays and
  tuples as \<open>Result\<close>s under their unique names.
\<close>

theorem abi_roundtrip:
  assumes "abi_coder types = Inr coder" and "wf_coder coder" and "AbiCoder_encode types vals = Inr d"
    and "canon coder vals = Inr r" and "length d < 2 ^ 53"
  shows "AbiCoder_decode types (DStr d) loose = Inr r"
  using encoded_decodes [OF assms] by auto

text \<open>The types and values of the example: \<open>(uint8 a, bytes b)\<close>.\<close>

definition example_types :: "param_type list" where
  "example_types =
     [ParamType ''a'' ''uint8'' ''uint8'' None None None None, ParamType ''b'' ''bytes'' ''bytes'' None None None None]"

definition example_values :: abi_value where
  "example_values = VArr [VData (DBig 5), VData (DStr ''0xC0ffee'')]"

lemma example_coder: "abi_coder example_types = Inr (TupleCoder [NumberCoder 1 False ''a'', BytesCoder ''b''] ''_'')"
  by code_simp

lemma example_bytes: "getBytes (DStr ''0xC0ffee'') = Inr [0xc0, 0xff, 0xee]"
  by code_simp

lemma example_written:
  "encode (TupleCoder [NumberCoder 1 False ''a'', BytesCoder ''b''] ''_'') empty_writer example_values =
     Inr \<lparr>wdata = [concat [abi_word 5, abi_word 64], concat [abi_word 3, padded [0xc0, 0xff, 0xee]]],
          wlength = 128\<rparr>"
proof -
  have n: "encode (NumberCoder 1 False ''a'') w (VData (DBig 5)) = Inr (writeData w (abi_word 5))" for w
    by (simp add: encode_number_eq dereference_def data_of_def as_data_def writeValue_eq getValue_word_eq getUint_def)
  have k: "getValue_word (num_of_size m) = Inr (abi_word m)" if "m < 2 ^ 53" for m
    using that getNumber_getBigInt [OF getNumber_size [OF that]] by (simp add: getValue_word_eq getUint_def num_of_size_def)
  have b: "encode (BytesCoder ''b'') w (VData (DStr ''0xC0ffee'')) =
      Inr (writeData (writeData w (abi_word 3)) (padded [0xc0, 0xff, 0xee]))" for w
    using k [of 3] by (simp add: data_of_def as_data_def example_bytes encode_dynamic_bytes_def writeValue_eq writeBytes_eq numeral_3_eq_3)
  have l: "length (abi_word 5) = 32" "length (abi_word 3) = 32" "length (abi_word 64) = 32" by (simp_all add: length_abi_word)
  have p: "length (padded [0xc0, 0xff, 0xee]) = 32" by (simp add: length_padded aligned_def)
  show ?thesis
    unfolding encode.simps(9) list.map
    using k [of 64]
    by (simp add: example_values_def dereference_def pack_def arrayValues_def assertArgument_def n b
        writeData_def empty_writer_def writeUpdatableValue_def updateValue_def WordSize_def l p appendWriter_eq wbytes_def
        num_of_size_def del: encode.simps One_nat_def)
qed

definition example_data :: "byte list" where
  "example_data = abi_word 5 @ abi_word 64 @ abi_word 3 @ padded [0xc0, 0xff, 0xee]"

lemma length_example_data: "length example_data = 128"
  by (simp add: example_data_def length_abi_word length_padded aligned_def)

lemma example_encoded: "AbiCoder_encode example_types example_values = Inr (''0x'' @ hex_of_bytes example_data)"
proof -
  have "array_length example_values = Some 2" "length example_types = 2"
    by (simp_all add: example_values_def array_length_def example_types_def)
  then show ?thesis
    using concat_data_bytes [of "[abi_word 5 @ abi_word 64, abi_word 3 @ padded [0xc0, 0xff, 0xee]]"]
    by (simp add: AbiCoder_encode_def assertArgumentCount_def example_coder example_written writer_data_def example_data_def
        del: encode.simps One_nat_def)
qed

lemma example_canon:
  "canon (TupleCoder [NumberCoder 1 False ''a'', BytesCoder ''b''] ''_'') example_values =
     Inr (VResult [VData (DBig 5), VData (DStr ''0xc0ffee'')] [Some ''a'', Some ''b''])"
proof -
  have "hex_of_bytes [0xc0, 0xff, 0xee] = ''c0ffee''" by code_simp
  then show ?thesis
    by (simp add: example_values_def dereference_def canon_items_def arrayValues_def data_of_def as_data_def example_bytes
        canon_bytes_def fromItems_def unique_names_def key_of_def upt_rec)
qed

theorem abi_roundtrip_witness:
  "AbiCoder_decode example_types (DStr (''0x'' @ hex_of_bytes example_data)) False =
   Inr (VResult [VData (DBig 5), VData (DStr ''0xc0ffee'')] [Some ''a'', Some ''b''])"
  by (rule abi_roundtrip [OF example_coder _ example_encoded example_canon]) (simp_all add: length_example_data)

lemma tuple_written:
  assumes "encode (TupleCoder cs nm) empty_writer v = Inr w"
  shows "\<exists>u vs xs. dereference v ''tuple'' = Inr u \<and> arrayValues (map coder_localName cs) u = Inr (map Inr vs) \<and>
    length vs = length cs \<and> mapM (\<lambda>(c, x). encode c empty_writer x) (zip cs vs) = Inr xs \<and>
    wbytes w = tuple_bytes (zip (map coder_dynamic cs) (map wbytes xs)) \<and>
    offsets_below (2 ^ 53) (head_len (zip (map coder_dynamic cs) (map wbytes xs))) (zip (map coder_dynamic cs) (map wbytes xs))"
proof -
  have pk: "all_packed (packers cs) vals zs \<Longrightarrow> \<exists>vs xs. vals = map Inr vs \<and> length vs = length cs \<and>
      mapM (\<lambda>(c, x). encode c empty_writer x) (zip cs vs) = Inr xs \<and>
      pieces zs = zip (map coder_dynamic cs) (map wbytes xs)" for vals zs
  proof (induction cs arbitrary: vals zs)
    case Nil
    then show ?case by (cases vals; cases zs; simp add: packers_def)
  next
    case (Cons c cs)
    then obtain val vs d x zs' where e: "vals = val # vs" "zs = (d, x) # zs'" by (cases vals; cases zs; auto simp: packers_def)
    obtain vi where vi: "val = Inr vi" "d = coder_dynamic c" "encode c empty_writer vi = Inr x" "all_packed (packers cs) vs zs'"
      using Cons.prems by (auto simp: e packers_def packed_def)
    obtain us xs where xs: "vs = map Inr us" "length us = length cs"
      "mapM (\<lambda>(c, x). encode c empty_writer x) (zip cs us) = Inr xs"
      "pieces zs' = zip (map coder_dynamic cs) (map wbytes xs)" using Cons.IH [OF vi(4)] by blast
    then show ?case using vi(1-3)
      by (intro exI [of _ "vi # us"] exI [of _ "x # xs"]) (simp add: e)
  qed
  obtain u where u: "dereference v ''tuple'' = Inr u" "pack empty_writer (packers cs) u = Inr w"
    using assms by (auto simp: packers_def)
  have "list_all good_packer (packers cs)" using good_packer_coder by (auto simp: packers_def list_all_iff)
  from pack_layout [OF u(2) this] obtain vals zs where
    zs: "arrayValues (map coder_localName cs) u = Inr vals" "all_packed (packers cs) vals zs"
    "wbytes w = tuple_bytes (pieces zs)" "offsets_below (2 ^ 53) (head_len (pieces zs)) (pieces zs)"
    by (auto simp: packers_def comp_def)
  obtain vs xs where "vals = map Inr vs" "length vs = length cs"
    "mapM (\<lambda>(c, x). encode c empty_writer x) (zip cs vs) = Inr xs"
    "pieces zs = zip (map coder_dynamic cs) (map wbytes xs)" using pk [OF zs(2)] by blast
  with u(1) zs show ?thesis by auto
qed

text \<open>
  C10. The data of a tuple is laid out as the ABI specification says: each component
  is encoded alone, a static one stands in the head, a dynamic one in the tail with
  its offset from the start of the tuple as a word in the head; offsets are safe
  integers. (\<open>pack\<close> does this with placeholders it fills in at the end.)
\<close>

theorem tuple_layout:
  assumes "encode (TupleCoder cs nm) empty_writer v = Inr w"
  shows "\<exists>u vs xs. dereference v ''tuple'' = Inr u \<and> arrayValues (map coder_localName cs) u = Inr (map Inr vs) \<and>
    length vs = length cs \<and> mapM (\<lambda>(c, x). encode c empty_writer x) (zip cs vs) = Inr xs \<and>
    wbytes w = tuple_bytes (zip (map coder_dynamic cs) (map wbytes xs)) \<and>
    offsets_below (2 ^ 53) (head_len (zip (map coder_dynamic cs) (map wbytes xs))) (zip (map coder_dynamic cs) (map wbytes xs))"
  by (rule tuple_written [OF assms])

theorem tuple_layout_witness:
  "\<exists>w xs. encode (TupleCoder [NumberCoder 1 False ''a'', BytesCoder ''b''] ''_'') empty_writer example_values = Inr w \<and>
     length xs = 2 \<and> wbytes w = tuple_bytes (zip [False, True] (map wbytes xs))"
proof -
  obtain vs xs where x: "length vs = Suc (Suc 0)"
    "mapM (\<lambda>(c, x). encode c empty_writer x) (zip [NumberCoder 1 False ''a'', BytesCoder ''b''] vs) = Inr xs"
    "wbytes \<lparr>wdata = [concat [abi_word 5, abi_word 64], concat [abi_word 3, padded [0xc0, 0xff, 0xee]]], wlength = 128\<rparr> =
      tuple_bytes (zip [False, True] (map wbytes xs))"
    using tuple_layout [OF example_written] by (simp del: One_nat_def) blast
  have "length xs = 2" using length_mapM [OF x(2)] x(1) by simp
  with x(3) example_written show ?thesis by blast
qed

text \<open>
  Encoding only appends: what a coder writes does not depend on what the writer
  holds, nothing written before changes, and the count of bytes stays true.
\<close>

theorem encode_appends:
  "encode c w v = (case encode c empty_writer v of
     Inl e \<Rightarrow> Inl e
   | Inr x \<Rightarrow> Inr \<lparr>wdata = wdata w @ wdata x, wlength = wlength w + length (concat (wdata x))\<rparr>)"
proof -
  have f: "encode c w v = mapE (wappend w) (encode c empty_writer v)"
    using frame_encode [where c = c and v = v] unfolding frame_def by blast
  show ?thesis
  proof (cases "encode c empty_writer v")
    case (Inr x)
    then have "wlength x = length (concat (wdata x))" using encode_wf [OF Inr] by (simp add: wf_writer_def wbytes_def)
    then show ?thesis using f Inr by (simp add: wappend_def)
  qed (use f in simp)
qed

text \<open>
  A tuple with a null component never decodes, whatever the data, although its
  values encode: \<open>unpack\<close> takes the decoded \<open>null\<close> for a missing value.
\<close>

theorem null_never_decodes:
  "fst (decode (TupleCoder (cs @ NullCoder nm # ds) tn) rd) \<noteq> Inr r"
proof -
  have "fst (unpack_loop base (unpackers coder_localName (cs @ NullCoder nm # ds)) vs ks rd) \<noteq> Inr q" for base vs ks rd q
  proof (induction cs arbitrary: vs ks rd)
    case Nil
    then show ?case
      by (auto simp: unpackers_def rbind_def unpack_value_def readBytes_def deferred_def rlift_def peekBytes_def WordSize_def isError_def
          split: sum.splits if_splits)
  next
    case (Cons c cs)
    then show ?case by (auto simp: unpackers_def rbind_def rlift_def split: sum.splits prod.splits) 
  qed
  from this [of "subReader rd 0" "[]" "[]" rd] show ?thesis
    by (cases "unpack_loop (subReader rd 0) (unpackers coder_localName (cs @ NullCoder nm # ds)) [] [] rd")
       (auto simp: unpack_def rbind_def rlift_def unpackers_def split: sum.splits)
qed

section \<open>Corner cases\<close>

text \<open>
  A \<open>Typed\<close> address and \<open>Typed\<close> bytes are rejected by the coders of their types (the
  one dereferences with the type \<open>string\<close>, the other does not dereference), and the
  default value of an address, too short, does not encode.
\<close>

lemma typed_address_rejected: "encode (AddressCoder nm) w (VTyped ''address'' v) = Inl (JsError NativeError ''invalid type'')"
  by (simp add: encode_address_def dereference_def)

lemma typed_bytes_rejected: "encode (BytesCoder nm) w (VTyped ''bytes'' v) = invalid_value"
  by (simp add: data_of_def as_data_def invalid_value_def)

lemma default_address_rejected:
  "encode (AddressCoder nm) w (defaultValue (AddressCoder nm)) = Inl (CoreError INVALID_ARGUMENT ''invalid address'')"
proof -
  have "\<not> matches_address (''0x'' @ replicate 40 CHR ''0'')" by (simp only: matches_address_0x) simp
  then show ?thesis
    by (simp add: encode_address_def dereference_def as_data_def getAddress_def logger_init_def)
qed

end
