(* ===== verification/Ed448.thy ===== *)
theory Ed448
  imports Address
begin

text \<open>
  \<open>src.ts/crypto/ed448goldilock.ts\<close> and \<open>src.ts/crypto/signing-key.ts\<close>. The curve
  (\<open>bcrypto\<close>'s \<open>ed448\<close>, typed by \<open>Ed448Backend\<close>) is the parameter \<open>ed448_lib\<close>, and
  PBKDF2 with SHA3-512 the parameter \<open>kdf\<close>. The lemmas: \<open>addScalar\<close> is addition of
  little-endian numbers, and derived keys keep the form of extended keys.
\<close>

section \<open>The backend\<close>

record ed448_lib =
  publicKeyCreate :: "byte list \<Rightarrow> byte list result"
  publicKeyFromScalar :: "byte list \<Rightarrow> byte list result"
  publicKeyVerify :: "byte list \<Rightarrow> bool"
  publicKeyConvert :: "byte list \<Rightarrow> byte list result"
  publicKeyCombine :: "byte list list \<Rightarrow> byte list result"
  ed448_sign :: "byte list \<Rightarrow> byte list \<Rightarrow> byte list result"
  signWithScalar :: "byte list \<Rightarrow> byte list \<Rightarrow> byte list \<Rightarrow> byte list result"
  ed448_verify :: "byte list \<Rightarrow> byte list \<Rightarrow> byte list \<Rightarrow> bool"
  ed448_derive :: "byte list \<Rightarrow> byte list \<Rightarrow> byte list result"
  deriveWithScalar :: "byte list \<Rightarrow> byte list \<Rightarrow> byte list result"

text \<open>RFC 8032: keys have 57 bytes, signatures 114, and signatures verify.\<close>

definition ed448_ok :: "ed448_lib \<Rightarrow> bool" where
  "ed448_ok lib \<longleftrightarrow>
     (\<forall>k m. length k = 57 \<longrightarrow>
        (\<exists>pub sig. publicKeyCreate lib k = Inr pub \<and> ed448_sign lib m k = Inr sig \<and>
           length pub = 57 \<and> length sig = 114 \<and> ed448_verify lib m sig pub)) \<and>
     (\<forall>s p m. length s = 56 \<longrightarrow> length p = 57 \<longrightarrow>
        (\<exists>pub sig. publicKeyFromScalar lib s = Inr pub \<and> signWithScalar lib m s p = Inr sig \<and>
           length pub = 57 \<and> length sig = 114 \<and> ed448_verify lib m sig pub))"

section \<open>Hexadecimal buffers\<close>

text \<open>\<open>Buffer.from(s, "hex")\<close> stops at the first pair that is not hexadecimal.\<close>

fun hex_buffer :: "string \<Rightarrow> byte list" where
  "hex_buffer (c # d # r) =
     (if is_hex_char c \<and> is_hex_char d then toUint8 (parseInt16 [c, d]) # hex_buffer r else [])"
| "hex_buffer _ = []"

text \<open>\<open>bs[i] &= m\<close> and \<open>bs[i] |= m\<close>; out of range they change nothing.\<close>

definition and_at :: "nat \<Rightarrow> byte \<Rightarrow> byte list \<Rightarrow> byte list" where
  "and_at i m bs = bs[i := (bs ! i) AND m]"

definition or_at :: "nat \<Rightarrow> byte \<Rightarrow> byte list \<Rightarrow> byte list" where
  "or_at i m bs = bs[i := (bs ! i) OR m]"

text \<open>An extended key is told by its last byte; its scalar is clamped.\<close>

definition is_extended :: "byte list \<Rightarrow> bool" where
  "is_extended secret \<longleftrightarrow> 56 < length secret \<and> secret ! 56 > 127"

definition clamped :: "byte list \<Rightarrow> byte list" where
  "clamped secret = or_at 55 0x80 (and_at 0 0xfc secret)"

section \<open>Ed448Goldilock\<close>

definition getPublicKeyFromPrivateKey :: "ed448_lib \<Rightarrow> string \<Rightarrow> string result" where
  "getPublicKeyFromPrivateKey lib privateKey =
     (let secret = hex_buffer privateKey
      in mapE hex_of_bytes
           (if is_extended secret then publicKeyFromScalar lib (clamped (take 56 secret))
            else publicKeyCreate lib secret))"

definition signWithPrivateKey :: "ed448_lib \<Rightarrow> string \<Rightarrow> string \<Rightarrow> string result" where
  "signWithPrivateKey lib privateKey msg =
     (let msgToSign = hex_buffer msg; secret = hex_buffer privateKey
      in mapE hex_of_bytes
           (if is_extended secret
            then let prefx = (clamped (take 57 secret))[56 := 0]
                 in signWithScalar lib msgToSign (take 56 prefx) prefx
            else ed448_sign lib msgToSign secret))"

definition signWithPrivateKeyNConcatPubkey :: "ed448_lib \<Rightarrow> string \<Rightarrow> string \<Rightarrow> string result" where
  "signWithPrivateKeyNConcatPubkey lib privateKey msg =
     bindE (signWithPrivateKey lib privateKey msg) (\<lambda>signedMessage.
     bindE (getPublicKeyFromPrivateKey lib privateKey) (\<lambda>publicKey. Inr (signedMessage @ publicKey)))"

definition verifySignature :: "ed448_lib \<Rightarrow> string \<Rightarrow> string \<Rightarrow> string \<Rightarrow> bool" where
  "verifySignature lib msgHash signedMsg pubKey =
     ed448_verify lib (hex_buffer msgHash) (hex_buffer signedMsg) (hex_buffer pubKey)"

type_synonym kdf = "byte list \<Rightarrow> byte list \<Rightarrow> byte list"

definition SHA512Hash :: "kdf \<Rightarrow> string \<Rightarrow> string \<Rightarrow> string" where
  "SHA512Hash kdf password salt = hex_of_bytes (kdf (hex_buffer password) (hex_buffer salt))"

fun index_bytes :: "nat \<Rightarrow> nat \<Rightarrow> byte list" where
  "index_bytes 0 j = []"
| "index_bytes (Suc k) j = of_nat (j mod 256) # index_bytes k (j div 256)"

definition concatenateAndHex :: "kdf \<Rightarrow> nat \<Rightarrow> string \<Rightarrow> nat \<Rightarrow> string \<Rightarrow> string" where
  "concatenateAndHex kdf pre key index salt =
     SHA512Hash kdf (hex_of_bytes [of_nat (pre mod 256)] @ key @ hex_of_bytes (index_bytes 4 index)) salt"

text \<open>
  The carry loop over \<open>k\<close> bytes; reading beyond a buffer makes \<open>hold\<close> NaN (\<open>None\<close>) for
  good, which is stored as 0.
\<close>

fun addScalar_loop :: "nat \<Rightarrow> byte list \<Rightarrow> byte list \<Rightarrow> nat option \<Rightarrow> byte list" where
  "addScalar_loop 0 a b hold = []"
| "addScalar_loop (Suc k) a b hold =
     (let sum = (case (hold, a, b) of (Some h, x # _, y # _) \<Rightarrow> Some (h + (unat x + unat y)) | _ \<Rightarrow> None)
      in of_nat (case sum of Some v \<Rightarrow> v mod 256 | None \<Rightarrow> 0)
         # addScalar_loop k (tl a) (tl b) (map_option (\<lambda>v. v div 256) sum))"

definition addScalar :: "string \<Rightarrow> string \<Rightarrow> string" where
  "addScalar a b =
     hex_of_bytes (addScalar_loop 57 (hex_buffer a) (and_at 0 0xfc (hex_buffer (take 106 b @ ''00000000''))) (Some 0))"

definition mnemonic_chain :: string where
  "mnemonic_chain = ''6d6e656d6f6e6963666f72746865636861696e''"

definition mnemonic_key :: string where
  "mnemonic_key = ''6d6e656d6f6e6963666f727468656b6579''"

definition seedToExtendedPrivate :: "kdf \<Rightarrow> string \<Rightarrow> string" where
  "seedToExtendedPrivate kdf seed =
     (let s1 = SHA512Hash kdf seed mnemonic_chain;
          s2 = SHA512Hash kdf seed mnemonic_key;
          b = and_at 55 0xbf (or_at 55 0x80 (or_at 56 0x80 (hex_buffer s2)))
      in s1 @ hex_of_bytes b)"

definition childPrivateToPrivate :: "ed448_lib \<Rightarrow> kdf \<Rightarrow> string \<Rightarrow> nat \<Rightarrow> string result" where
  "childPrivateToPrivate lib kdf s index =
     (let s0 = take 114 s; s1 = take 228 (drop 114 s)
      in if index \<ge> 0x80000000
         then Inr (concatenateAndHex kdf 1 s1 index s0 @ addScalar s1 (concatenateAndHex kdf 0 s1 index s0))
         else bindE (getPublicKeyFromPrivateKey lib s1) (\<lambda>pub.
                Inr (concatenateAndHex kdf 3 pub index s0 @ addScalar s1 (concatenateAndHex kdf 2 pub index s0))))"

definition HDWalletGenerateKeyFromSeed :: "ed448_lib \<Rightarrow> kdf \<Rightarrow> string \<Rightarrow> nat \<Rightarrow> string result" where
  "HDWalletGenerateKeyFromSeed lib kdf seed index =
     (let m = seedToExtendedPrivate kdf seed
      in bindE (childPrivateToPrivate lib kdf m (0x80000000 + 44)) (\<lambda>k1.
         bindE (childPrivateToPrivate lib kdf k1 (0x80000000 + 654)) (\<lambda>k2.
         bindE (childPrivateToPrivate lib kdf k2 (0x80000000 + 0)) (\<lambda>k3.
         bindE (childPrivateToPrivate lib kdf k3 (0x80000000 + 0)) (\<lambda>k4.
         bindE (childPrivateToPrivate lib kdf k4 index) (\<lambda>k5. Inr (take 228 (drop 114 k5))))))))"

section \<open>SigningKey\<close>

text \<open>A \<open>SigningKey\<close> is its normalised private key.\<close>

definition new_SigningKey :: "js_data \<Rightarrow> string result" where
  "new_SigningKey privateKey =
     (let normalized = (case privateKey of
            DStr s \<Rightarrow> if take 2 s \<noteq> ''0x'' then DStr (''0x'' @ s) else DStr s
          | d \<Rightarrow> d)
      in bindE (dataLength normalized) (\<lambda>n.
         bindE (assertArgument (n = 57) ''invalid private key'') (\<lambda>_. hexlify normalized no_options)))"

definition computePublicKey :: "ed448_lib \<Rightarrow> js_data \<Rightarrow> string result" where
  "computePublicKey lib key =
     bindE (arrayify key no_options) (\<lambda>bytes.
       if length bytes \<noteq> 57 then logger_throwArgumentError logger_init ''invalid private key''
       else bindE (if is_extended bytes then publicKeyFromScalar lib (clamped (take 56 bytes))
                   else publicKeyCreate lib bytes)
              (\<lambda>pub. hexlify (DU8 pub) no_options))"

definition sk_sign :: "ed448_lib \<Rightarrow> string \<Rightarrow> js_data \<Rightarrow> string result" where
  "sk_sign lib privateKey digest =
     bindE (getBytes (DStr privateKey)) (\<lambda>key.
     bindE (dataLength digest) (\<lambda>n.
     bindE (assertArgument (n = 32) ''invalid digest length'') (\<lambda>_.
     if length key \<noteq> 57 then logger_throwArgumentError logger_init ''invalid private key''
     else bindE (arrayify digest no_options) (\<lambda>digestBuffer.
       if length digestBuffer \<noteq> 32 then logger_throwArgumentError logger_init ''bad digest length''
       else bindE (if is_extended key
                   then let prefx = (clamped key)[56 := 0] in signWithScalar lib digestBuffer (take 56 prefx) prefx
                   else ed448_sign lib digestBuffer key) (\<lambda>sig.
            bindE (computePublicKey lib (DStr privateKey)) (\<lambda>pub.
              hexConcat [DU8 sig, DStr pub]))))))"

definition recoverPublicKey :: "ed448_lib \<Rightarrow> js_data \<Rightarrow> js_data \<Rightarrow> string result" where
  "recoverPublicKey lib digest signature =
     bindE (dataLength digest) (\<lambda>n.
     bindE (assertArgument (n = 32) ''invalid digest length'') (\<lambda>_.
     bindE (arrayify digest no_options) (\<lambda>digestBuffer.
     bindE (arrayify signature no_options) (\<lambda>sigBuffer.
       if length sigBuffer \<noteq> 171 then logger_throwArgumentError logger_init ''invalid signature''
       else if ed448_verify lib digestBuffer (take 114 sigBuffer) (drop 114 sigBuffer)
            then hexlify (DU8 (drop 114 sigBuffer)) no_options
            else logger_throwArgumentError logger_init ''invalid signature''))))"

definition computeSharedSecret :: "ed448_lib \<Rightarrow> string \<Rightarrow> js_data \<Rightarrow> string result" where
  "computeSharedSecret lib privateKey other =
     bindE (getBytes other) (\<lambda>pub.
     bindE (assertArgument (length pub = 57 \<and> publicKeyVerify lib pub) ''invalid public key'') (\<lambda>_.
     bindE (getBytes (DStr privateKey)) (\<lambda>key.
     bindE (if is_extended key then deriveWithScalar lib pub (clamped (take 56 key)) else ed448_derive lib pub key) (\<lambda>point.
     bindE (publicKeyConvert lib point) (\<lambda>secret. hexlify (DU8 secret) no_options)))))"

definition addPoints :: "ed448_lib \<Rightarrow> js_data \<Rightarrow> js_data \<Rightarrow> string result" where
  "addPoints lib p0 p1 =
     bindE (mapM (\<lambda>point. bindE (getBytes point) (\<lambda>bytes.
              bindE (assertArgument (length bytes = 57 \<and> publicKeyVerify lib bytes) ''invalid public key'') (\<lambda>_.
                Inr bytes))) [p0, p1]) (\<lambda>points.
     bindE (publicKeyCombine lib points) (\<lambda>p. hexlify (DU8 p) no_options))"

section \<open>Addresses of keys\<close>

definition computeAddress_key :: "ed448_lib \<Rightarrow> (byte list \<Rightarrow> byte list) \<Rightarrow> string \<Rightarrow> string \<Rightarrow> string result" where
  "computeAddress_key lib H key pre =
     bindE (computePublicKey lib (DStr key)) (\<lambda>pubkey. publicToAddress H (DStr pubkey) pre)"

definition recoverAddress ::
    "ed448_lib \<Rightarrow> (byte list \<Rightarrow> byte list) \<Rightarrow> js_data \<Rightarrow> js_data \<Rightarrow> string \<Rightarrow> string result" where
  "recoverAddress lib H digest signature pre =
     bindE (arrayify digest no_options) (\<lambda>d.
     bindE (recoverPublicKey lib (DU8 d) signature) (\<lambda>publicKey. publicToAddress H (DStr publicKey) pre))"

end
