(* ===== verification/Hd_Keys.thy ===== *)
theory Hd_Keys
  imports Ed448
begin

text \<open>
  What \<open>Ed448Goldilock\<close> and \<open>SigningKey\<close> promise: scalars are added as little-endian
  numbers, derived keys keep the extended form, and signatures are recovered.
\<close>

section \<open>Little-endian numbers\<close>

lemma hex_buffer_byte: "hex_buffer (hex_of_byte b @ r) = b # hex_buffer r"
proof -
  have "list_all is_hex_char (hex_of_byte b)" using is_hex_hex_of_byte by auto
  moreover have "length (hex_of_byte b) = 2" by simp
  ultimately obtain c d where cd: "hex_of_byte b = [c, d]" "is_hex_char c" "is_hex_char d"
    by (cases "hex_of_byte b"; cases "tl (hex_of_byte b)"; simp)
  moreover have "toUint8 (parseInt16 [c, d]) = b" using parse_pairs_append_byte [of b "[]"] cd(1) by simp
  ultimately show ?thesis by simp
qed

lemma hex_buffer_append [simp]: "hex_buffer (hex_of_bytes bs @ r) = bs @ hex_buffer r"
  by (induction bs) (simp_all add: hex_of_bytes_def hex_buffer_byte)

lemma hex_buffer_hex [simp]: "hex_buffer (hex_of_bytes bs) = bs"
  using hex_buffer_append [of bs "[]"] by simp

definition le_val :: "byte list \<Rightarrow> nat" where
  "le_val bs = foldr (\<lambda>b v. unat b + 256 * v) bs 0"

lemma le_val_simps [simp]: "le_val [] = 0" "le_val (b # bs) = unat b + 256 * le_val bs"
  by (simp_all add: le_val_def)

lemma le_val_bound: "le_val bs < 256 ^ length bs"
proof (induction bs)
  case (Cons b bs)
  have "u + 256 * x < 256 * y" if "x < y" "u < 256" for u x y :: nat using that by simp
  from this [OF Cons unat_byte_less] show ?case by simp
qed simp

lemma le_val_drop: "le_val bs div 256 ^ k = le_val (drop k bs)"
proof (induction k arbitrary: bs)
  case (Suc k)
  show ?case
  proof (cases bs)
    case (Cons b bs')
    have "unat b < 256" by simp
    then have "le_val bs div 256 ^ Suc k = le_val bs' div 256 ^ k"
      by (simp add: Cons div_mult2_eq)
    then show ?thesis using Suc by (simp add: Cons)
  qed simp
qed simp

text \<open>The carry loop adds; what does not fit in \<open>k\<close> bytes is lost.\<close>

lemma addScalar_loop_val:
  "length a = k \<Longrightarrow> length b = k \<Longrightarrow>
   length (addScalar_loop k a b (Some h)) = k \<and>
   le_val (addScalar_loop k a b (Some h)) = (h + le_val a + le_val b) mod 256 ^ k"
proof (induction k arbitrary: a b h)
  case (Suc k)
  then obtain x a' y b' where e: "a = x # a'" "b = y # b'" "length a' = k" "length b' = k"
    by (cases a; cases b; simp)
  define s where "s = h + (unat x + unat y)"
  have IH: "length (addScalar_loop k a' b' (Some (s div 256))) = k"
    "le_val (addScalar_loop k a' b' (Some (s div 256))) = (s div 256 + le_val a' + le_val b') mod 256 ^ k"
    using Suc.IH [OF e(3,4)] by auto
  define t where "t = s div 256 + le_val a' + le_val b'"
  have "(h + le_val a + le_val b) mod 256 ^ Suc k = (s mod 256 + 256 * t) mod (256 * 256 ^ k)"
    by (simp add: e(1,2) s_def t_def algebra_simps)
  also have "\<dots> = s mod 256 + 256 * (t mod 256 ^ k)"
    by (simp add: mod_mult2_eq)
  finally show ?case
    using IH by (simp add: e(1,2) s_def [symmetric] t_def unat_byte_of_nat)
qed simp

section \<open>Extended keys stay extended\<close>

text \<open>
  A key as \<open>seedToExtendedPrivate\<close> makes it has the top bit set in its last two
  bytes and the next one clear; each derivation may carry one into that gap.
\<close>

definition extended_key :: "nat \<Rightarrow> nat \<Rightarrow> byte list \<Rightarrow> bool" where
  "extended_key msb n bs \<longleftrightarrow>
     length bs = 57 \<and> 128 \<le> msb \<and>
     (\<exists>t. le_val (drop 53 bs) = (2 * msb + 1) * 2 ^ 23 + t \<and> t < 2 ^ 22 + n)"

lemma drop_53:
  assumes "length bs = 57"
  shows "drop 53 bs = [bs ! 53, bs ! 54, bs ! 55, bs ! 56]"
  using assms by (intro nth_equalityI) (auto simp: nth_Cons numeral_eq_Suc split: nat.splits)

lemma extended_key_top:
  assumes "extended_key msb n bs" and "n \<le> 2 ^ 22"
  shows "unat (bs ! 56) = msb" and "128 \<le> unat (bs ! 55)" and "is_extended bs" and "length bs = 57"
proof -
  from assms obtain t where t: "length bs = 57" "128 \<le> msb" "le_val (drop 53 bs) = (2 * msb + 1) * 2 ^ 23 + t" "t < 2 ^ 23"
    by (auto simp: extended_key_def)
  define b3 b4 b5 b6 where b: "b3 = unat (bs ! 53)" "b4 = unat (bs ! 54)" "b5 = unat (bs ! 55)" "b6 = unat (bs ! 56)"
  have lt: "b3 < 256" "b4 < 256" "b5 < 256" "b6 < 256" by (simp_all add: b)
  have eq: "b3 + 256 * b4 + 65536 * b5 + 16777216 * b6 = 16777216 * msb + 8388608 + t"
    using t(3) by (simp add: drop_53 [OF t(1)] b)
  have "b6 = msb" using eq lt t(4) by simp
  moreover from this have "128 \<le> b5" using eq lt t(4) by simp
  ultimately show "unat (bs ! 56) = msb" "128 \<le> unat (bs ! 55)" "is_extended bs" "length bs = 57"
    using t(1,2) by (simp_all add: b is_extended_def word_less_nat_alt)
qed

lemma extended_key_add:
  assumes "extended_key msb n a" and "n < 2 ^ 22" and "length b = 57" and "le_val b < 256 ^ 53"
  shows "extended_key msb (Suc n) (addScalar_loop 57 a b (Some 0))"
proof -
  from assms(1) obtain t where t: "length a = 57" "128 \<le> msb" "le_val (drop 53 a) = (2 * msb + 1) * 2 ^ 23 + t" "t < 2 ^ 22 + n"
    by (auto simp: extended_key_def)
  define c where "c = addScalar_loop 57 a b (Some 0)"
  have c: "length c = 57" "le_val c = (le_val a + le_val b) mod 256 ^ 57"
    using addScalar_loop_val [OF t(1) assms(3), of 0] by (simp_all add: c_def)
  define T where "T = le_val a div 256 ^ 53"
  have T: "T = (2 * msb + 1) * 2 ^ 23 + t" using t(3) by (simp only: T_def le_val_drop)
  have msb: "msb < 256" using unat_byte_less [of "a ! 56"] extended_key_top(1) [OF assms(1)] assms(2) by (simp only: less_imp_le)
  have T32: "T + 1 < 2 ^ 32" using T msb t(4) assms(2) by simp
  define r where "r = le_val a mod 256 ^ 53"
  have a: "le_val a = T * 256 ^ 53 + r" "r < 256 ^ 53" by (simp_all add: T_def r_def)
  define e where "e = (r + le_val b) div 256 ^ 53"
  have e: "e \<le> 1" using a(2) assms(4) by (simp add: e_def less_Suc_eq_le [symmetric] less_mult_imp_div_less)
  have sum: "(le_val a + le_val b) div 256 ^ 53 = T + e"
    unfolding a(1) e_def by (simp add: add.assoc div_mult_self1_is_m)
  have "le_val a + le_val b < 256 ^ 57"
  proof -
    have "(le_val a + le_val b) div 256 ^ 53 < 256 ^ 4" using sum e T32 by simp
    then have "le_val a + le_val b < 256 ^ 4 * 256 ^ 53" by (simp add: div_less_iff_less_mult)
    then show ?thesis by (simp flip: power_add)
  qed
  then have "le_val (drop 53 c) = T + e" using sum c(2) by (simp add: le_val_drop [symmetric])
  with T e t(4) show ?thesis
    using c(1) t(2) unfolding extended_key_def c_def [symmetric]
    by (intro conjI exI [of _ "t + e"]) simp_all
qed

text \<open>The second summand of \<open>addScalar\<close>: the first 53 bytes, the lowest two bits cleared.\<close>

lemma le_val_append: "le_val (xs @ ys) = le_val xs + 256 ^ length xs * le_val ys"
  by (induction xs) (simp_all add: algebra_simps)

lemma take_hex_of_bytes: "take (2 * k) (hex_of_bytes bs) = hex_of_bytes (take k bs)"
proof (induction k arbitrary: bs)
  case (Suc k)
  show ?case
  proof (cases bs)
    case (Cons b r)
    have "hex_of_byte b = [hex_of_byte b ! 0, hex_of_byte b ! 1]"
      by (intro nth_equalityI) (auto simp: less_2_cases_iff nth_Cons split: nat.splits)
    then obtain c d where cd: "hex_of_byte b = [c, d]" by blast
    then show ?thesis using Suc [of r] by (simp add: Cons hex_of_bytes_def)
  qed simp
qed simp

lemma summand:
  assumes "length bs = 57"
  defines "b1 \<equiv> and_at 0 0xfc (hex_buffer (take 106 (hex_of_bytes bs) @ ''00000000''))"
  shows "length b1 = 57 \<and> le_val b1 < 256 ^ 53"
proof -
  have z: "''00000000'' = hex_of_bytes [0, 0, 0, 0]" by code_simp
  have "take 106 (hex_of_bytes bs) = hex_of_bytes (take 53 bs)" using take_hex_of_bytes [of 53 bs] by simp
  then have "hex_buffer (take 106 (hex_of_bytes bs) @ ''00000000'') = take 53 bs @ [0, 0, 0, 0]"
    by (simp only: z hex_buffer_append hex_buffer_hex)
  then have b1: "b1 = (take 53 bs)[0 := bs ! 0 AND 0xfc] @ [0, 0, 0, 0]"
    using assms(1) by (simp add: b1_def and_at_def list_update_append nth_append)
  then have "le_val b1 = le_val ((take 53 bs)[0 := bs ! 0 AND 0xfc])" by (simp add: le_val_append)
  also have "\<dots> < 256 ^ 53" using le_val_bound [of "(take 53 bs)[0 := bs ! 0 AND 0xfc]"] assms(1) by simp
  finally show ?thesis using assms(1) by (simp add: b1)
qed

lemma addScalar_hex:
  assumes "extended_key msb n k" and "n < 2 ^ 22" and "length bs = 57"
  shows "\<exists>k'. addScalar (hex_of_bytes k) (hex_of_bytes bs) = hex_of_bytes k' \<and> extended_key msb (Suc n) k'"
  using extended_key_add [OF assms(1,2)] summand [OF assms(3)] by (simp add: addScalar_def)

text \<open>Deriving along a path of indices.\<close>

definition derive_path :: "ed448_lib \<Rightarrow> kdf \<Rightarrow> string \<Rightarrow> nat list \<Rightarrow> string result" where
  "derive_path lib kdf s path = foldl (\<lambda>r i. bindE r (\<lambda>s. childPrivateToPrivate lib kdf s i)) (Inr s) path"

lemma high_bits:
  fixes v :: nat
  assumes "v < 256"
  shows "bit v 7 \<Longrightarrow> 128 \<le> v" and "bit v 7 \<Longrightarrow> \<not> bit v 6 \<Longrightarrow> v < 192"
proof -
  have d: "v div 128 < 2" "v div 64 < 4" using assms by (simp_all add: less_mult_imp_div_less)
  show g: "128 \<le> v" if "bit v 7"
  proof -
    have "odd (v div 128)" using that by (simp add: bit_iff_odd)
    then have "v div 128 \<noteq> 0" by (intro notI) simp
    then show ?thesis by (simp add: div_eq_0_iff)
  qed
  show "v < 192" if "bit v 7" "\<not> bit v 6"
  proof -
    have "even (v div 64)" using that(2) by (simp add: bit_iff_odd)
    moreover have "v div 64 \<noteq> 0" using g [OF that(1)] by (simp add: div_eq_0_iff)
    ultimately have "v div 64 < 3" using d(2) by (auto elim!: evenE)
    then show ?thesis by (simp add: div_less_iff_less_mult)
  qed
qed

lemma extended_root:
  assumes "length k = 57"
  defines "b \<equiv> and_at 55 0xbf (or_at 55 0x80 (or_at 56 0x80 k))"
  shows "extended_key (unat (k ! 56 OR 0x80)) 0 b"
proof -
  have b: "length b = 57" "b ! 56 = k ! 56 OR 0x80" "b ! 55 = (k ! 55 OR 0x80) AND 0xbf"
    using assms(1) by (simp_all add: b_def and_at_def or_at_def)
  have "bit (b ! 56) 7" "bit (b ! 55) 7" "\<not> bit (b ! 55) 6"
    by (simp_all add: b(2,3) bit_simps)
  then have "128 \<le> unat (b ! 56)" "128 \<le> unat (b ! 55)" "unat (b ! 55) < 192"
    using high_bits [of "unat (b ! 56)"] high_bits [of "unat (b ! 55)"] by (simp_all add: bit_unsigned_iff)
  moreover define b3 b4 b5 b6 where "b3 = unat (b ! 53)" and "b4 = unat (b ! 54)" and "b5 = unat (b ! 55)" and "b6 = unat (b ! 56)"
  ultimately have r: "128 \<le> b6" "128 \<le> b5" "b5 < 192" "b3 < 256" "b4 < 256" by simp_all
  have "le_val (drop 53 b) = b3 + 256 * (b4 + 256 * (b5 + 256 * b6))"
    using b(1) by (simp add: drop_53 b3_def b4_def b5_def b6_def)
  also have "\<dots> = (2 * b6 + 1) * 2 ^ 23 + (b3 + 256 * b4 + 65536 * (b5 - 128))" using r(2) by simp
  finally have "le_val (drop 53 b) = (2 * b6 + 1) * 2 ^ 23 + (b3 + 256 * b4 + 65536 * (b5 - 128))" .
  moreover have "b3 + 256 * b4 + 65536 * (b5 - 128) < 2 ^ 22 + 0" using r by simp
  ultimately show ?thesis using b(1,2) r(1) unfolding extended_key_def b6_def by auto
qed

lemma derive_step:
  assumes "ed448_ok lib" and "\<And>p s. length (kdf p s) = 57" and "length c = 57" and "extended_key msb n k" and "n < 2 ^ 22"
  shows "\<exists>c' k'. childPrivateToPrivate lib kdf (hex_of_bytes (c @ k)) i = Inr (hex_of_bytes (c' @ k')) \<and>
    length c' = 57 \<and> extended_key msb (Suc n) k'"
proof -
  have k: "is_extended k" "length k = 57" using extended_key_top [OF assms(4)] assms(5) by auto
  have "length (clamped (take 56 k)) = 56" using k(2) by (simp add: clamped_def and_at_def or_at_def)
  then obtain pub where pub: "publicKeyFromScalar lib (clamped (take 56 k)) = Inr pub"
    using assms(1) length_replicate [of 57 "0 :: byte"] unfolding ed448_ok_def by blast
  have s: "take 114 (hex_of_bytes (c @ k)) = hex_of_bytes c" "drop 114 (hex_of_bytes (c @ k)) = hex_of_bytes k"
    "take 228 (hex_of_bytes k) = hex_of_bytes k"
    using assms(3) k(2) by simp_all
  have h: "hex_buffer (hex_of_bytes c) = c" "hex_buffer (hex_of_bytes k) = k" by simp_all
  define child where "child pre key =
    hex_of_bytes (kdf (hex_buffer (hex_of_bytes [of_nat ((pre + 1) mod 256)] @ key @ hex_of_bytes (index_bytes 4 i))) c) @
    addScalar (hex_of_bytes k) (hex_of_bytes (kdf (hex_buffer (hex_of_bytes [of_nat (pre mod 256)] @ key @ hex_of_bytes (index_bytes 4 i))) c))"
    for pre key
  have "childPrivateToPrivate lib kdf (hex_of_bytes (c @ k)) i =
      (if 0x80000000 \<le> i then Inr (child 0 (hex_of_bytes k)) else Inr (child 2 (hex_of_bytes pub)))"
    by (simp only: childPrivateToPrivate_def s Let_def concatenateAndHex_def SHA512Hash_def getPublicKeyFromPrivateKey_def
        h k(1) pub if_True mapE_simps bindE_simps child_def) simp
  moreover have "\<exists>c' k'. child pre key = hex_of_bytes (c' @ k') \<and> length c' = 57 \<and> extended_key msb (Suc n) k'" for pre key
    using addScalar_hex [OF assms(4,5) assms(2)] assms(2) unfolding child_def hex_of_bytes_simps(3) by (metis append.assoc)
  ultimately show ?thesis by (auto split: if_splits)
qed

lemma derive_extended:
  assumes "ed448_ok lib" and "\<And>p s. length (kdf p s) = 57" and "length path \<le> 2 ^ 22"
  shows "\<exists>c k. derive_path lib kdf (seedToExtendedPrivate kdf seed) path = Inr (hex_of_bytes (c @ k)) \<and> length c = 57 \<and>
    extended_key (unat (kdf (hex_buffer seed) (hex_buffer mnemonic_key) ! 56 OR 0x80)) (length path) k"
  using assms(3)
proof (induction path rule: rev_induct)
  case Nil
  then show ?case
    using extended_root [OF assms(2)] assms(2)
    by (intro exI [of _ "kdf (hex_buffer seed) (hex_buffer mnemonic_chain)"]
        exI [of _ "and_at 55 0xbf (or_at 55 0x80 (or_at 56 0x80 (kdf (hex_buffer seed) (hex_buffer mnemonic_key))))"])
       (simp add: derive_path_def seedToExtendedPrivate_def SHA512Hash_def Let_def)
next
  case (snoc i path)
  then obtain c k where "derive_path lib kdf (seedToExtendedPrivate kdf seed) path = Inr (hex_of_bytes (c @ k))" "length c = 57"
    "extended_key (unat (kdf (hex_buffer seed) (hex_buffer mnemonic_key) ! 56 OR 0x80)) (length path) k" by auto
  then show ?case
    using derive_step [where kdf = kdf and i = i, OF assms(1,2)] snoc.prems by (simp add: derive_path_def)
qed

section \<open>Keys are 57 bytes\<close>

lemma dataLength_bytes:
  assumes "isBytesLike v" and "getBytes v = Inr bs"
  shows "dataLength v = Inr (length bs)" and "arrayify v no_options = Inr bs"
proof -
  show "arrayify v no_options = Inr bs" using assms arrayify_getBytes by simp
  show "dataLength v = Inr (length bs)"
  proof (cases v)
    case (DStr s)
    with assms have "matches_hex s" "even (length s)" "map to_lower (drop 2 s) = hex_of_bytes bs"
      by (auto simp: isBytesLike_def getBytes_Str split: if_splits)
    moreover from this(3) have "length s - 2 = 2 * length bs" by (metis length_drop length_hex_of_bytes length_map)
    ultimately show ?thesis by (simp add: DStr dataLength_def)
  qed (use assms in \<open>auto simp: isBytesLike_def dataLength_def\<close>)
qed

lemma new_SigningKey_bytes:
  assumes "new_SigningKey pk = Inr key"
  obtains k where "length k = 57" "key = ''0x'' @ hex_of_bytes k"
proof -
  obtain nm n where nm: "nm = (case pk of DStr s \<Rightarrow> if take 2 s \<noteq> ''0x'' then DStr (''0x'' @ s) else DStr s | d \<Rightarrow> d)"
    "dataLength nm = Inr 57" "hexlify nm no_options = Inr key"
    using assms by (auto simp: new_SigningKey_def assertArgument_def Let_def)
  show thesis
  proof (cases nm)
    case (DStr s)
    then have p: "take 2 s = ''0x''" using nm(1) by (auto split: js_data.splits if_splits)
    have m: "matches_hex s \<and> even (length s) \<and> length s = 116"
    proof (cases "isHexString (DStr s) EvenLength")
      case True
      then have "matches_hex s" "even (length s)" by (simp_all split: if_splits)
      moreover from this have "(length s - 2) div 2 = 57" using nm(2) by (simp add: DStr dataLength_def)
      ultimately show ?thesis by (auto elim!: evenE)
    next
      case False
      with nm(2) obtain bs where "getBytes (DStr s) = Inr bs" "length bs = 57"
        by (auto simp: DStr dataLength_def simp del: isHexString.simps)
      then have "matches_data_i s" "length (drop 2 s) = 114"
        by (auto simp: getBytes_Str dest: arg_cong [of _ _ length])
      moreover from this(2) have "length s = 116" by simp
      ultimately have "matches_hex s \<and> even (length s)" using p by (simp add: matches_data_i_def matches_hex_def)
      then show ?thesis using False by simp
    qed
    then obtain r where r: "s = ''0x'' @ r" "list_all is_hex_char r" "even (length r)" "length r = 114"
      by (auto simp: matches_hex_iff)
    have "key = ''0x'' @ hex_of_bytes (parse_pairs r)"
      using nm(3) m r by (simp add: DStr hexlify_Str hex_of_parse_pairs to_lower_def)
    moreover have "length (parse_pairs r) = 57"
      using arg_cong [OF hex_of_parse_pairs [OF r(2,3)], of length] r(4) by simp
    ultimately show thesis using that by blast
  next
    case (DU8 bs)
    with nm(2,3) that [of bs] show thesis by (simp add: dataLength_def)
  qed (use nm(2) in \<open>auto simp: dataLength_def getBytes_def\<close>)
qed

lemma sk_sign_spec:
  assumes "ed448_ok lib" and "length k = 57" and "length d = 32" and "isBytesLike digest" and "getBytes digest = Inr d"
  shows "\<exists>sig pub. sk_sign lib (''0x'' @ hex_of_bytes k) digest = Inr (''0x'' @ hex_of_bytes (sig @ pub)) \<and>
    length sig = 114 \<and> length pub = 57 \<and> ed448_verify lib d sig pub \<and>
    computePublicKey lib (DStr (''0x'' @ hex_of_bytes k)) = Inr (''0x'' @ hex_of_bytes pub)"
proof -
  note dl = dataLength_bytes [OF assms(4,5)]
  have ak: "arrayify (DStr (''0x'' @ hex_of_bytes k)) no_options = Inr k"
    using arrayify_getBytes [of "DStr (''0x'' @ hex_of_bytes k)"] by (simp add: isBytesLike_def)
  define sgn where "sgn = (if is_extended k
      then let prefx = (clamped k)[56 := 0] in signWithScalar lib d (take 56 prefx) prefx else ed448_sign lib d k)"
  define pk where "pk = (if is_extended k then publicKeyFromScalar lib (clamped (take 56 k)) else publicKeyCreate lib k)"
  have "\<exists>pub sig. pk = Inr pub \<and> sgn = Inr sig \<and> length pub = 57 \<and> length sig = 114 \<and> ed448_verify lib d sig pub"
  proof (cases "is_extended k")
    case True
    have "take 56 ((clamped k)[56 := 0]) = clamped (take 56 k)"
      using assms(2) by (simp add: clamped_def and_at_def or_at_def take_update_swap nth_list_update list_update_beyond)
    moreover have "length (clamped (take 56 k)) = 56" "length ((clamped k)[56 := 0]) = 57"
      using assms(2) by (simp_all add: clamped_def and_at_def or_at_def)
    ultimately show ?thesis using assms(1) True unfolding ed448_ok_def pk_def sgn_def Let_def by (simp only: if_True)
  next
    case False
    then show ?thesis using assms(1,2) unfolding ed448_ok_def pk_def sgn_def by simp
  qed
  then obtain pub sig where ps: "pk = Inr pub" "sgn = Inr sig" "length pub = 57" "length sig = 114" "ed448_verify lib d sig pub" by blast
  have cp: "computePublicKey lib (DStr (''0x'' @ hex_of_bytes k)) = Inr (''0x'' @ hex_of_bytes pub)"
    using ps(1) assms(2) unfolding computePublicKey_def ak pk_def by simp
  moreover have "sk_sign lib (''0x'' @ hex_of_bytes k) digest = Inr (''0x'' @ hex_of_bytes (sig @ pub))"
    using ps(2) assms(2,3) unfolding sk_sign_def sgn_def [symmetric] cp dl
    by (simp add: dl cp [simplified] hexConcat_eq_concat assertArgument_def sgn_def [symmetric] concat_data_def)
  ultimately show ?thesis using ps by blast
qed

section \<open>Properties\<close>

text \<open>
  C13. Keys derived from a seed, along any path of up to \<open>2 ^ 22\<close> indices, exist and
  are extended keys that need no clamping of the high bits: derivation adds
  scalars with carries, but never reaches the top bits, so the last byte is the
  root's.
\<close>

theorem hd_keys_extended:
  assumes "ed448_ok lib" and "\<And>p s. length (kdf p s) = 57" and "length path \<le> 2 ^ 22"
  shows "\<exists>c k. derive_path lib kdf (seedToExtendedPrivate kdf seed) path = Inr (hex_of_bytes (c @ k)) \<and>
    length c = 57 \<and> length k = 57 \<and> is_extended k \<and> 128 \<le> unat (k ! 55) \<and>
    k ! 56 = kdf (hex_buffer seed) (hex_buffer mnemonic_key) ! 56 OR 0x80"
proof -
  obtain c k where ck: "derive_path lib kdf (seedToExtendedPrivate kdf seed) path = Inr (hex_of_bytes (c @ k))" "length c = 57"
    "extended_key (unat (kdf (hex_buffer seed) (hex_buffer mnemonic_key) ! 56 OR 0x80)) (length path) k"
    using derive_extended [where kdf = kdf, OF assms] by blast
  from extended_key_top [OF ck(3) assms(3)] ck(1,2) show ?thesis
    by (intro exI [of _ c] exI [of _ k]) (simp add: word_unat_eq_iff)
qed

text \<open>A backend with the documented laws: keys as their own public keys, messages cut to length.\<close>

definition toy_message :: "byte list \<Rightarrow> byte list" where
  "toy_message m = take 57 (m @ replicate 57 0)"

definition toy_ed448 :: ed448_lib where
  "toy_ed448 = \<lparr>publicKeyCreate = (\<lambda>k. Inr k), publicKeyFromScalar = (\<lambda>s. Inr (s @ [0])),
     publicKeyVerify = (\<lambda>k. length k = 57), publicKeyConvert = (\<lambda>k. Inr (take 56 k)), publicKeyCombine = (\<lambda>ks. Inr (hd ks)),
     ed448_sign = (\<lambda>m k. Inr (k @ toy_message m)), signWithScalar = (\<lambda>m s p. Inr (s @ [0] @ toy_message m)),
     ed448_verify = (\<lambda>m sig pub. sig = pub @ toy_message m), ed448_derive = (\<lambda>p k. Inr p), deriveWithScalar = (\<lambda>p s. Inr p)\<rparr>"

lemma toy_ed448_ok: "ed448_ok toy_ed448"
  by (simp add: ed448_ok_def toy_ed448_def toy_message_def min_def)

theorem hd_keys_extended_witness:
  "\<exists>c k. derive_path toy_ed448 (\<lambda>p s. replicate 57 0xff)
      (seedToExtendedPrivate (\<lambda>p s. replicate 57 0xff) ''00'') [0x8000002c, 0, 7] = Inr (hex_of_bytes (c @ k)) \<and>
    length k = 57 \<and> is_extended k \<and> k ! 56 = 0xff"
proof -
  have "replicate 57 (0xff :: byte) ! 56 OR 0x80 = 0xff" by simp
  then show ?thesis
    using hd_keys_extended [OF toy_ed448_ok, of "\<lambda>p s. replicate 57 0xff" "[0x8000002c, 0, 7]" "''00''"] by auto
qed

text \<open>
  \<open>addScalar\<close> adds as the curve's scalars do: on 57-byte keys the result is the
  sum of the little-endian values, modulo \<open>2 ^ 456\<close>, of the first argument and of
  the first 53 bytes of the second with its two lowest bits cleared.
\<close>

theorem addScalar_adds:
  assumes "length a = 57" and "length b = 57"
  shows "\<exists>c. addScalar (hex_of_bytes a) (hex_of_bytes b) = hex_of_bytes c \<and> length c = 57 \<and>
    le_val c = (le_val a + (le_val (take 53 b) - unat (b ! 0 AND 3))) mod 2 ^ 456"
proof -
  define b1 where "b1 = and_at 0 0xfc (hex_buffer (take 106 (hex_of_bytes b) @ ''00000000''))"
  have z: "''00000000'' = hex_of_bytes [0, 0, 0, 0]" by code_simp
  have "take 106 (hex_of_bytes b) = hex_of_bytes (take 53 b)" using take_hex_of_bytes [of 53 b] by simp
  then have buf: "hex_buffer (take 106 (hex_of_bytes b) @ ''00000000'') = take 53 b @ [0, 0, 0, 0]"
    by (simp only: z hex_buffer_append hex_buffer_hex)
  obtain x r where b: "b = x # r" using assms(2) by (cases b) auto
  have "unat (x AND 0xfc) + unat (x AND 3) = unat x"
  proof -
    have "x = (x AND 0xfc) OR (x AND 3)" by (rule bit_word_eqI) (auto simp: bit_simps numeral_eq_Suc less_Suc_eq)
    moreover have "(x AND 0xfc) AND (x AND 3) = 0" by (rule bit_word_eqI) (auto simp: bit_simps numeral_eq_Suc less_Suc_eq)
    ultimately show ?thesis by (metis unat_plus_simple word_plus_and_or add.right_neutral add.commute le_word_or2 word_and_le2)
  qed
  moreover have "b1 = (take 53 b @ [0, 0, 0, 0])[0 := (take 53 b @ [0, 0, 0, 0]) ! 0 AND 0xfc]"
    by (simp only: b1_def buf and_at_def)
  ultimately have "le_val b1 = le_val (take 53 b) - unat (b ! 0 AND 3)"
    by (simp add: b le_val_append)
  moreover have "length b1 = 57" using summand [OF assms(2)] by (simp add: b1_def)
  ultimately show ?thesis
    using addScalar_loop_val [OF assms(1), of b1 0] unfolding addScalar_def hex_buffer_hex b1_def [symmetric]
    by (intro exI [of _ "addScalar_loop 57 a b1 (Some 0)"]) simp
qed

theorem addScalar_adds_witness:
  "\<exists>c. addScalar (hex_of_bytes (0xff # replicate 56 0)) (hex_of_bytes (7 # replicate 56 0)) = hex_of_bytes c \<and>
    le_val c = 259"
proof -
  have "le_val (replicate n 0) = 0" for n by (induction n) simp_all
  moreover have "unat ((7 # replicate 56 0) ! 0 AND 3 :: byte) = 3" by simp
  ultimately show ?thesis using addScalar_adds [of "0xff # replicate 56 0" "7 # replicate 56 0"] by auto
qed

text \<open>
  Signing and recovery fit together: with any 32-byte digest a \<open>SigningKey\<close>
  produces a signature of 171 bytes, from which \<open>recoverPublicKey\<close> gives back the
  key's own public key, whether the key is a seed or an extended key, and
  \<open>recoverAddress\<close> the address \<open>computeAddress\<close> derives for the key.
\<close>

theorem sign_recover:
  assumes "ed448_ok lib" and "new_SigningKey pk = Inr key" and "isBytesLike digest" and "getBytes digest = Inr d" and "length d = 32"
  shows "\<exists>bs pub. sk_sign lib key digest = Inr (''0x'' @ hex_of_bytes bs) \<and> length bs = 171 \<and>
    computePublicKey lib (DStr key) = Inr pub \<and> recoverPublicKey lib digest (DStr (''0x'' @ hex_of_bytes bs)) = Inr pub \<and>
    recoverAddress lib H digest (DStr (''0x'' @ hex_of_bytes bs)) pre = computeAddress_key lib H key pre"
proof -
  obtain k where k: "length k = 57" "key = ''0x'' @ hex_of_bytes k" using assms(2) by (rule new_SigningKey_bytes)
  obtain sig pub where ps: "sk_sign lib key digest = Inr (''0x'' @ hex_of_bytes (sig @ pub))"
    "length sig = 114" "length pub = 57" "ed448_verify lib d sig pub" "computePublicKey lib (DStr key) = Inr (''0x'' @ hex_of_bytes pub)"
    using sk_sign_spec [OF assms(1) k(1) assms(5,3,4)] unfolding k(2) by blast
  have sigb: "arrayify (DStr (''0x'' @ hex_of_bytes (sig @ pub))) no_options = Inr (sig @ pub)"
    using arrayify_getBytes [of "DStr (''0x'' @ hex_of_bytes (sig @ pub))"] by (simp add: isBytesLike_def flip: hex_of_bytes_simps(3))
  have rec: "recoverPublicKey lib e (DStr (''0x'' @ hex_of_bytes (sig @ pub))) = Inr (''0x'' @ hex_of_bytes pub)"
    if "isBytesLike e" "getBytes e = Inr d" for e
    using ps(2-4) assms(5) unfolding recoverPublicKey_def sigb dataLength_bytes [OF that]
    by (simp add: assertArgument_def dataLength_bytes [OF that])
  have "recoverPublicKey lib (DU8 d) (DStr (''0x'' @ hex_of_bytes (sig @ pub))) = Inr (''0x'' @ hex_of_bytes pub)"
    by (rule rec) (simp_all add: isBytesLike_def)
  then have "recoverAddress lib H digest (DStr (''0x'' @ hex_of_bytes (sig @ pub))) pre = computeAddress_key lib H key pre"
    using ps(5) dataLength_bytes(2) [OF assms(3,4)] by (simp add: recoverAddress_def computeAddress_key_def)
  then show ?thesis using ps rec [OF assms(3,4)]
    by (intro exI [of _ "sig @ pub"] exI [of _ "''0x'' @ hex_of_bytes pub"]) simp
qed

theorem sign_recover_witness:
  "\<exists>bs pub. sk_sign toy_ed448 (''0x'' @ hex_of_bytes (replicate 57 0x81)) (DU8 (replicate 32 1)) = Inr (''0x'' @ hex_of_bytes bs) \<and>
     recoverPublicKey toy_ed448 (DU8 (replicate 32 1)) (DStr (''0x'' @ hex_of_bytes bs)) = Inr pub"
proof -
  have "new_SigningKey (DU8 (replicate 57 0x81)) = Inr (''0x'' @ hex_of_bytes (replicate 57 0x81))"
    by (simp add: new_SigningKey_def dataLength_def assertArgument_def)
  then show ?thesis
    using sign_recover [OF toy_ed448_ok, of "DU8 (replicate 57 0x81)" _ "DU8 (replicate 32 1)" "replicate 32 1" "\<lambda>_. []" "''cb''"]
    by (auto simp: isBytesLike_def)
qed

end
