(* ===== verification/Transaction.thy ===== *)
theory Transaction
  imports Rlp Big_Number Hd_Keys
begin

text \<open>
  \<open>src.ts/transaction/transaction.ts\<close>: serialising and parsing transactions, and the
  class \<open>Transaction\<close> with its setters, getters and \<open>from\<close>. Parameters: \<open>bn.js\<close>
  (\<open>lib\<close>), the curve (\<open>ed\<close>) and the hash function (\<open>H\<close>).
\<close>

section \<open>Transaction-like objects\<close>

text \<open>
  The properties of a \<open>TransactionLike\<close>, \<open>None\<close> for \<open>undefined\<close> and \<open>null\<close>, and the
  keys the object has of its own.
\<close>

record tx_like =
  l_keys :: "string list"
  l_to :: "string option"
  l_from :: "string option"
  l_nonce :: "js_data option"
  l_energyLimit :: "js_data option"
  l_energyPrice :: "js_data option"
  l_data :: "js_data option"
  l_value :: "js_data option"
  l_networkId :: "js_data option"
  l_hash :: "string option"
  l_signature :: "js_data option"

definition tx_property :: "tx_like \<Rightarrow> string \<Rightarrow> js_data option" where
  "tx_property tx name =
     (if name = ''to'' then map_option DStr (l_to tx)
      else if name = ''nonce'' then l_nonce tx
      else if name = ''energyLimit'' then l_energyLimit tx
      else if name = ''energyPrice'' then l_energyPrice tx
      else if name = ''data'' then l_data tx
      else if name = ''value'' then l_value tx
      else if name = ''networkId'' then l_networkId tx
      else None)"

fun data_truthy :: "js_data \<Rightarrow> bool" where
  "data_truthy (DStr s) = (s \<noteq> [])"
| "data_truthy (DNum x) = (x \<noteq> NaN \<and> x \<noteq> Fin 0)"
| "data_truthy (DBig n) = (n \<noteq> 0)"
| "data_truthy _ = True"

section \<open>serialize\<close>

record tx_field =
  fld_name :: string
  fld_maxLength :: "nat option"
  fld_length :: "nat option"
  fld_numeric :: bool

definition numeric_field :: "string \<Rightarrow> tx_field" where
  "numeric_field name = \<lparr>fld_name = name, fld_maxLength = Some 32, fld_length = None, fld_numeric = True\<rparr>"

definition to_field :: tx_field where
  "to_field = \<lparr>fld_name = ''to'', fld_maxLength = None, fld_length = Some 22, fld_numeric = False\<rparr>"

definition data_field :: tx_field where
  "data_field = \<lparr>fld_name = ''data'', fld_maxLength = None, fld_length = None, fld_numeric = False\<rparr>"

definition unsignedTransactionFields :: "tx_field list" where
  "unsignedTransactionFields =
     [numeric_field ''nonce'', numeric_field ''energyPrice'', numeric_field ''energyLimit'', to_field,
      numeric_field ''value'', data_field, numeric_field ''networkId'']"

definition transactionFields :: "tx_field list" where
  "transactionFields =
     [numeric_field ''nonce'', numeric_field ''energyPrice'', numeric_field ''energyLimit'', numeric_field ''networkId'',
      to_field, numeric_field ''value'', data_field]"

definition allowedTransactionKeys :: "string list" where
  "allowedTransactionKeys = [''networkId'', ''data'', ''energyLimit'', ''energyPrice'', ''nonce'', ''to'', ''value'']"

fun checkProperties :: "string list \<Rightarrow> string list \<Rightarrow> unit result" where
  "checkProperties [] properties = Inr ()"
| "checkProperties (key # keys) properties =
     (if key \<notin> set properties then logger_throwArgumentError logger_init (''invalid object key - '' @ key)
      else checkProperties keys properties)"

definition serialize_field :: "tx_like \<Rightarrow> tx_field \<Rightarrow> string result" where
  "serialize_field tx f =
     (let value = (case tx_property tx (fld_name f) of Some d \<Rightarrow> if data_truthy d then d else DArr [] | None \<Rightarrow> DArr []);
          options = (if fld_numeric f then no_options\<lparr>hexPad := Some PadLeft\<rparr> else no_options)
      in bindE (hexlify value options) (\<lambda>tmpHexlified.
         bindE (arrayify (DStr tmpHexlified) no_options) (\<lambda>bytes.
           if (case fld_length f of Some n \<Rightarrow> n \<noteq> 0 \<and> length bytes \<noteq> n \<and> length bytes > 0 | None \<Rightarrow> False)
           then logger_throwArgumentError logger_init (''invalid length for '' @ fld_name f)
           else bindE (case fld_maxLength f of
                         None \<Rightarrow> Inr bytes
                       | Some m \<Rightarrow>
                           bindE (stripZeros (DU8 bytes)) (\<lambda>stripped.
                             if length stripped > m
                             then logger_throwArgumentError logger_init (''invalid length for '' @ fld_name f)
                             else Inr stripped))
                      (\<lambda>bs. hexlify (DU8 bs) no_options))))"

text \<open>\<open>!!signature\<close> chooses the list of fields.\<close>

definition serialize :: "tx_like \<Rightarrow> js_data option \<Rightarrow> string result" where
  "serialize tx signature =
     (let signed = (case signature of Some d \<Rightarrow> data_truthy d | None \<Rightarrow> False)
      in bindE (checkProperties (l_keys tx) allowedTransactionKeys) (\<lambda>_.
         bindE (mapM (serialize_field tx) (if signed then transactionFields else unsignedTransactionFields)) (\<lambda>raw.
         bindE (if signed then mapE (\<lambda>h. [h]) (hexlify (the signature) no_options) else Inr []) (\<lambda>sig.
           crypto_encode (RArr (map (\<lambda>h. RItem (DStr h)) (raw @ sig)))))))"

section \<open>parse\<close>

text \<open>
  What \<open>RLP.decode\<close> returns is indexed whether it is a list or a string. An array of
  strings that is not empty is for \<open>hexlify\<close> and \<open>isBytes\<close> like one of NaN.
\<close>

definition tr_length :: "rlp \<Rightarrow> nat" where
  "tr_length tr = (case tr of RArr xs \<Rightarrow> length xs | RItem (DStr s) \<Rightarrow> length s | RItem _ \<Rightarrow> 0)"

definition tr_index :: "rlp \<Rightarrow> nat \<Rightarrow> rlp" where
  "tr_index tr i = (case tr of RArr xs \<Rightarrow> xs ! i | RItem (DStr s) \<Rightarrow> RItem (DStr [s ! i]) | RItem d \<Rightarrow> RItem d)"

definition data_of_rlp :: "rlp \<Rightarrow> js_data" where
  "data_of_rlp r = (case r of RItem d \<Rightarrow> d | RArr xs \<Rightarrow> DArr (replicate (length xs) NaN))"

definition handleAddress :: "rlp \<Rightarrow> string option result" where
  "handleAddress value =
     (case value of
        RItem (DStr s) \<Rightarrow> if s = ''0x'' then Inr None else mapE Some (getAddress s)
      | _ \<Rightarrow> Inl (JsError NativeTypeError ''address.match is not a function''))"

definition handleNumber :: "'bn bn_lib \<Rightarrow> rlp \<Rightarrow> string result" where
  "handleNumber lib value =
     (case value of
        RItem (DStr s) \<Rightarrow> if s = ''0x'' then BigNumber_from lib (BData (DNum (Fin 0))) else BigNumber_from lib (BData (DStr s))
      | RItem d \<Rightarrow> BigNumber_from lib (BData d)
      | RArr xs \<Rightarrow> BigNumber_from lib (BData (data_of_rlp (RArr xs))))"

definition handle_bigint :: "'bn bn_lib \<Rightarrow> rlp \<Rightarrow> int result" where
  "handle_bigint lib value = bindE (handleNumber lib value) (BigNumber_toBigInt lib)"

definition parse ::
    "'bn bn_lib \<Rightarrow> ed448_lib \<Rightarrow> (byte list \<Rightarrow> byte list) \<Rightarrow> js_data \<Rightarrow> tx_like result" where
  "parse lib ed H d =
     bindE (crypto_decode d) (\<lambda>transaction.
       if tr_length transaction \<noteq> 7 \<and> tr_length transaction \<noteq> 8
       then logger_throwArgumentError logger_init ''invalid raw transaction''
       else let isSigned = (tr_length transaction = 8); fld = tr_index transaction
       in bindE (bindE (handleNumber lib (fld 0)) (BigNumber_toString lib)) (\<lambda>nonce.
          bindE (handle_bigint lib (fld 1)) (\<lambda>energyPrice.
          bindE (handle_bigint lib (fld 2)) (\<lambda>energyLimit.
          bindE (handle_bigint lib (fld (if isSigned then 3 else 6))) (\<lambda>networkId.
          bindE (handleAddress (fld (if isSigned then 4 else 3))) (\<lambda>to.
          bindE (handle_bigint lib (fld (if isSigned then 5 else 4))) (\<lambda>val.
          let tx = \<lparr>l_keys = [''nonce'', ''energyPrice'', ''energyLimit'', ''networkId'', ''to'', ''value'', ''data''],
                    l_to = to, l_from = None, l_nonce = Some (DNum (js_Number nonce)),
                    l_energyLimit = Some (DBig energyLimit), l_energyPrice = Some (DBig energyPrice),
                    l_data = Some (data_of_rlp (fld (if isSigned then 6 else 5))), l_value = Some (DBig val),
                    l_networkId = Some (DBig networkId), l_hash = None, l_signature = None\<rparr>
          in if \<not> isSigned then Inr tx
             else let sig = data_of_rlp (fld 7)
             in bindE (networkIdToPrefix (to_double (of_int networkId))) (\<lambda>pre.
                bindE (bindE (serialize tx None) (\<lambda>s. sha256 H (DStr s))) (\<lambda>digest.
                bindE (bindE (serialize tx (Some sig)) (\<lambda>s. sha256 H (DStr s))) (\<lambda>hash.
                bindE (recoverAddress ed H (DStr digest) sig pre) (\<lambda>from.
                  Inr (tx\<lparr>l_keys := l_keys tx @ [''hash'', ''from'', ''signature''], l_hash := Some hash, l_from := Some from, l_signature := Some sig\<rparr>)))))))))))) "

section \<open>The class Transaction\<close>

record transaction =
  tx_to :: "string option"
  tx_data :: string
  tx_nonce :: int
  tx_energyLimit :: int
  tx_energyPrice :: "int option"
  tx_value :: int
  tx_networkId :: int
  tx_sig :: "js_data option"

definition new_transaction :: transaction where
  "new_transaction =
     \<lparr>tx_to = None, tx_data = ''0x'', tx_nonce = 0, tx_energyLimit = 0, tx_energyPrice = None, tx_value = 0,
      tx_networkId = 0, tx_sig = None\<rparr>"

definition set_to :: "string option \<Rightarrow> transaction \<Rightarrow> transaction result" where
  "set_to value tx =
     (case value of None \<Rightarrow> Inr (tx\<lparr>tx_to := None\<rparr>)
      | Some s \<Rightarrow> bindE (getAddress s) (\<lambda>a. Inr (tx\<lparr>tx_to := Some a\<rparr>)))"

definition set_nonce :: "js_data \<Rightarrow> transaction \<Rightarrow> transaction result" where
  "set_nonce value tx = bindE (getNumber value) (\<lambda>n. Inr (tx\<lparr>tx_nonce := n\<rparr>))"

definition set_energyLimit :: "js_data \<Rightarrow> transaction \<Rightarrow> transaction result" where
  "set_energyLimit value tx = bindE (getBigInt value) (\<lambda>n. Inr (tx\<lparr>tx_energyLimit := n\<rparr>))"

definition get_energyPrice :: "transaction \<Rightarrow> int" where
  "get_energyPrice tx = (case tx_energyPrice tx of None \<Rightarrow> 0 | Some v \<Rightarrow> v)"

definition set_energyPrice :: "js_data option \<Rightarrow> transaction \<Rightarrow> transaction result" where
  "set_energyPrice value tx =
     (case value of None \<Rightarrow> Inr (tx\<lparr>tx_energyPrice := None\<rparr>)
      | Some d \<Rightarrow> bindE (getBigInt d) (\<lambda>n. Inr (tx\<lparr>tx_energyPrice := Some n\<rparr>)))"

definition set_data :: "js_data \<Rightarrow> transaction \<Rightarrow> transaction result" where
  "set_data value tx = bindE (hexlify value no_options) (\<lambda>h. Inr (tx\<lparr>tx_data := h\<rparr>))"

definition set_value :: "js_data \<Rightarrow> transaction \<Rightarrow> transaction result" where
  "set_value value tx = bindE (getBigInt value) (\<lambda>n. Inr (tx\<lparr>tx_value := n\<rparr>))"

definition set_networkId :: "js_data \<Rightarrow> transaction \<Rightarrow> transaction result" where
  "set_networkId value tx = bindE (getBigInt value) (\<lambda>n. Inr (tx\<lparr>tx_networkId := n\<rparr>))"

text \<open>The getter gives \<open>null\<close> for a falsy signature.\<close>

definition get_signature :: "transaction \<Rightarrow> js_data option" where
  "get_signature tx = (case tx_sig tx of Some d \<Rightarrow> if data_truthy d then Some d else None | None \<Rightarrow> None)"

definition set_signature :: "js_data option \<Rightarrow> transaction \<Rightarrow> transaction result" where
  "set_signature value tx = Inr (tx\<lparr>tx_sig := value\<rparr>)"

definition isSigned :: "transaction \<Rightarrow> bool" where
  "isSigned tx \<longleftrightarrow> get_signature tx \<noteq> None"

text \<open>A \<open>Transaction\<close> as \<open>serialize\<close> reads it: through its getters; it has no keys of its own.\<close>

definition tx_as_like :: "transaction \<Rightarrow> tx_like" where
  "tx_as_like tx =
     \<lparr>l_keys = [], l_to = tx_to tx, l_from = None, l_nonce = Some (DNum (num_of_int (tx_nonce tx))),
      l_energyLimit = Some (DBig (tx_energyLimit tx)), l_energyPrice = Some (DBig (get_energyPrice tx)),
      l_data = Some (DStr (tx_data tx)), l_value = Some (DBig (tx_value tx)), l_networkId = Some (DBig (tx_networkId tx)),
      l_hash = None, l_signature = get_signature tx\<rparr>"

definition serialized :: "transaction \<Rightarrow> string result" where
  "serialized tx =
     bindE (assert (get_signature tx \<noteq> None)
              ''cannot serialize unsigned transaction; maybe you meant .unsignedSerialized'' UNSUPPORTED_OPERATION)
       (\<lambda>_. serialize (tx_as_like tx) (get_signature tx))"

definition unsignedSerialized :: "transaction \<Rightarrow> string result" where
  "unsignedSerialized tx = serialize (tx_as_like tx) None"

definition tx_hash :: "(byte list \<Rightarrow> byte list) \<Rightarrow> transaction \<Rightarrow> string option result" where
  "tx_hash H tx =
     (if get_signature tx = None then Inr None
      else bindE (serialized tx) (\<lambda>s. mapE Some (sha256 H (DStr s))))"

definition unsignedHash :: "(byte list \<Rightarrow> byte list) \<Rightarrow> transaction \<Rightarrow> string result" where
  "unsignedHash H tx = bindE (unsignedSerialized tx) (\<lambda>s. sha256 H (DStr s))"

definition tx_from :: "ed448_lib \<Rightarrow> (byte list \<Rightarrow> byte list) \<Rightarrow> transaction \<Rightarrow> string option result" where
  "tx_from ed H tx =
     (case get_signature tx of
        None \<Rightarrow> Inr None
      | Some sig \<Rightarrow>
          bindE (networkIdToPrefix (to_double (of_int (tx_networkId tx)))) (\<lambda>pre.
          bindE (unsignedHash H tx) (\<lambda>digest. mapE Some (recoverAddress ed H (DStr digest) sig pre))))"

definition fromPublicKey :: "ed448_lib \<Rightarrow> (byte list \<Rightarrow> byte list) \<Rightarrow> transaction \<Rightarrow> string option result" where
  "fromPublicKey ed H tx =
     (case get_signature tx of
        None \<Rightarrow> Inr None
      | Some sig \<Rightarrow> bindE (unsignedHash H tx) (\<lambda>digest. mapE Some (recoverPublicKey ed (DStr digest) sig)))"

text \<open>\<open>if (x != null) { ... }\<close>\<close>

definition when_some :: "'a option \<Rightarrow> ('a \<Rightarrow> 's \<Rightarrow> 's result) \<Rightarrow> 's \<Rightarrow> 's result" where
  "when_some m f s = (case m of None \<Rightarrow> Inr s | Some x \<Rightarrow> f x s)"

definition from_like ::
    "ed448_lib \<Rightarrow> (byte list \<Rightarrow> byte list) \<Rightarrow> tx_like \<Rightarrow> transaction result" where
  "from_like ed H tx =
     bindE (when_some (l_to tx) (\<lambda>a. set_to (Some a)) new_transaction) (\<lambda>r.
     bindE (when_some (l_nonce tx) set_nonce r) (\<lambda>r.
     bindE (when_some (l_energyLimit tx) set_energyLimit r) (\<lambda>r.
     bindE (when_some (l_energyPrice tx) (\<lambda>v. set_energyPrice (Some v)) r) (\<lambda>r.
     bindE (when_some (l_data tx) set_data r) (\<lambda>r.
     bindE (when_some (l_value tx) set_value r) (\<lambda>r.
     bindE (when_some (l_networkId tx) set_networkId r) (\<lambda>r.
     bindE (when_some (l_signature tx) (\<lambda>v. set_signature (Some v)) r) (\<lambda>r.
     bindE (when_some (l_hash tx) (\<lambda>h r.
              bindE (assertArgument (isSigned r) ''unsigned transaction cannot define hash'') (\<lambda>_.
              bindE (tx_hash H r) (\<lambda>rh. bindE (assertArgument (rh = Some h) ''hash mismatch'') (\<lambda>_. Inr r)))) r) (\<lambda>r.
     when_some (l_from tx) (\<lambda>f r.
              bindE (assertArgument (isSigned r) ''unsigned transaction cannot define from'') (\<lambda>_.
              bindE (tx_from ed H r) (\<lambda>rf.
              bindE (assertArgument (map to_lower (the rf) = map to_lower f) ''from mismatch'') (\<lambda>_. Inr r)))) r)))))))))"

definition from_string ::
    "'bn bn_lib \<Rightarrow> ed448_lib \<Rightarrow> (byte list \<Rightarrow> byte list) \<Rightarrow> string \<Rightarrow> transaction result" where
  "from_string lib ed H s =
     bindE (getBytes (DStr s)) (\<lambda>payload. bindE (parse lib ed H (DU8 payload)) (from_like ed H))"

definition clone :: "ed448_lib \<Rightarrow> (byte list \<Rightarrow> byte list) \<Rightarrow> transaction \<Rightarrow> transaction result" where
  "clone ed H tx =
     bindE (tx_hash H tx) (\<lambda>h. bindE (tx_from ed H tx) (\<lambda>f.
       from_like ed H ((tx_as_like tx)\<lparr>l_hash := h, l_from := f\<rparr>)))"

text \<open>The entries that are strings or numbers, and the entry \<open>sig\<close>.\<close>

definition toJSON :: "transaction \<Rightarrow> (string \<times> string option) list \<times> js_data option" where
  "toJSON tx =
     ([(''to'', tx_to tx), (''data'', Some (tx_data tx)), (''nonce'', Some (int_toString 10 (tx_nonce tx))),
      (''energyLimit'', Some (int_toString 10 (tx_energyLimit tx))),
      (''energyPrice'', Some (int_toString 10 (get_energyPrice tx))),
      (''value'', Some (int_toString 10 (tx_value tx))), (''networkId'', Some (int_toString 10 (tx_networkId tx)))], get_signature tx)"

end
