(* ===== verification/Typed_Data.thy ===== *)
theory Typed_Data
  imports Abi_Coder Hd_Keys "HOL-Library.Char_ord" "HOL-Library.List_Lexorder"
begin

text \<open>
  \<open>src.ts/hash/typed-data.ts\<close>: structured data hashed by type. A table of types is an
  object from names to lists of fields, so an association list with distinct keys; the
  hash is a parameter. A value for an array type is an array; type and field names are
  strings of code units below 256.
\<close>

section \<open>Base types\<close>

datatype base_encoder = EncInt bool nat | EncBytes nat | EncAddress | EncBool | EncDynBytes | EncString

definition id_hash :: "(byte list \<Rightarrow> byte list) \<Rightarrow> js_units \<Rightarrow> string result" where
  "id_hash H u = bindE (toUtf8Bytes [] (\<lambda>_. id) u None) (\<lambda>bs. sha256 H (DU8 bs))"

definition hexPadRight :: "js_data \<Rightarrow> string result" where
  "hexPadRight d =
     bindE (getBytes d) (\<lambda>bytes.
       let padOffset = length bytes mod 32
       in if padOffset \<noteq> 0 then concat_data [DU8 bytes, DU8 (replicate (32 - padOffset) 0)]
          else hexlify (DU8 bytes) no_options)"

text \<open>\<open>/^(u?)int(\d*)$/\<close> and \<open>/^bytes(\d+)$/\<close>.\<close>

definition int_match :: "string \<Rightarrow> (bool \<times> string) option" where
  "int_match type =
     (let u = starts_with type ''u''; r = (if u then drop 1 type else type)
      in if starts_with r ''int'' \<and> list_all is_digit10 (drop 3 r) then Some (\<not> u, drop 3 r) else None)"

definition bytes_match :: "string \<Rightarrow> string option" where
  "bytes_match type =
     (if starts_with type ''bytes'' \<and> drop 5 type \<noteq> [] \<and> list_all is_digit10 (drop 5 type) then Some (drop 5 type) else None)"

definition getBaseEncoder :: "string \<Rightarrow> base_encoder option result" where
  "getBaseEncoder type =
     (case int_match type of
        Some (sg, digits) \<Rightarrow>
          let width = dec_value (if digits = [] then ''256'' else digits)
          in bindE (assertArgument (width mod 8 = 0 \<and> width \<noteq> 0 \<and> width \<le> 256 \<and> digits = nat_toString 10 width)
                      ''invalid numeric width'') (\<lambda>_. Inr (Some (EncInt sg width)))
      | None \<Rightarrow>
          (case bytes_match type of
             Some digits \<Rightarrow>
               let width = dec_value digits
               in bindE (assertArgument (width \<noteq> 0 \<and> width \<le> 32 \<and> digits = nat_toString 10 width) ''invalid bytes width'')
                    (\<lambda>_. Inr (Some (EncBytes width)))
           | None \<Rightarrow>
               if type = ''address'' then Inr (Some EncAddress)
               else if type = ''bool'' then Inr (Some EncBool)
               else if type = ''bytes'' then Inr (Some EncDynBytes)
               else if type = ''string'' then Inr (Some EncString)
               else Inr None))"

definition BN_MAX_UINT256 :: js_data where
  "BN_MAX_UINT256 = DStr (''0x'' @ replicate 64 CHR ''f'')"

fun base_encode :: "(byte list \<Rightarrow> byte list) \<Rightarrow> base_encoder \<Rightarrow> abi_value \<Rightarrow> string result" where
  "base_encode H (EncInt sg width) v =
     bindE (mask_bits BN_MAX_UINT256 (num_of_size (if sg then width - 1 else width))) (\<lambda>boundsUpper.
       let boundsLower = (if sg then - (boundsUpper + 1) else 0)
       in bindE (bindE (data_of v) getBigInt) (\<lambda>value.
          bindE (assertArgument (value \<ge> boundsLower \<and> value \<le> boundsUpper) ''value out-of-bounds'') (\<lambda>_.
          bindE (if sg then toTwos (DBig value) (num_of_size 256) else Inr value) (\<lambda>n.
            toBeHex (DBig n) (Some (num_of_size 32))))))"
| "base_encode H (EncBytes width) v =
     bindE (data_of v) (\<lambda>d.
     bindE (getBytes d) (\<lambda>bytes.
     bindE (assertArgument (length bytes = width) ''invalid length'') (\<lambda>_. hexPadRight d)))"
| "base_encode H EncAddress v =
     (case as_data v of
        Some (DStr s) \<Rightarrow> bindE (getAddress s) (\<lambda>a. zeroPadValue (DStr a) 32)
      | _ \<Rightarrow> invalid_value)"
| "base_encode H EncBool v = toBeHex (DBig (if truthy v then 1 else 0)) (Some (num_of_size 32))"
| "base_encode H EncDynBytes v = bindE (data_of v) (sha256 H)"
| "base_encode H EncString v = (case as_units v of Some u \<Rightarrow> id_hash H u | None \<Rightarrow> invalid_value)"

section \<open>Types\<close>

type_synonym fields = "(string \<times> string) list"
type_synonym type_table = "(string \<times> fields) list"

definition encodeType_one :: "string \<Rightarrow> fields \<Rightarrow> string" where
  "encodeType_one name fs = name @ ''('' @ join_commas (map (\<lambda>(n, t). t @ '' '' @ n) fs) @ '')''"

text \<open>The base type of a field: \<open>null\<close> when it is empty.\<close>

definition base_type :: "string \<Rightarrow> string option" where
  "base_type type = (let b = takeWhile (\<lambda>c. c \<noteq> CHR ''['') type in if b = [] then None else Some b)"

record linkage =
  lk_parents :: "string \<Rightarrow> string list"
  lk_links :: "string \<Rightarrow> string list"

definition set_add :: "'a \<Rightarrow> 'a list \<Rightarrow> 'a list" where
  "set_add x xs = (if x \<in> set xs then xs else xs @ [x])"

definition link_field :: "string list \<Rightarrow> string \<Rightarrow> string \<times> string \<Rightarrow> string list \<times> linkage \<Rightarrow> (string list \<times> linkage) result" where
  "link_field names name field st =
     (let (fname, ftype) = field; (uniqueNames, lk) = st
      in bindE (assertArgument (fname \<notin> set uniqueNames) ''duplicate variable name'') (\<lambda>_.
         bindE (assertArgument (base_type ftype \<noteq> Some name) ''circular type reference'') (\<lambda>_.
           case base_type ftype of
             None \<Rightarrow> Inl (JsError NativeTypeError ''Cannot read properties of null'')
           | Some baseType \<Rightarrow>
               bindE (getBaseEncoder baseType) (\<lambda>encoder.
                 if encoder \<noteq> None then Inr (fname # uniqueNames, lk)
                 else bindE (assertArgument (baseType \<in> set names) ''unknown type'') (\<lambda>_.
                        Inr (fname # uniqueNames,
                             lk\<lparr>lk_parents := (lk_parents lk)(baseType := lk_parents lk baseType @ [name]),
                                lk_links := (lk_links lk)(name := set_add baseType (lk_links lk name))\<rparr>))))))"

fun foldE :: "('a \<Rightarrow> 's \<Rightarrow> 's result) \<Rightarrow> 'a list \<Rightarrow> 's \<Rightarrow> 's result" where
  "foldE f [] s = Inr s"
| "foldE f (x # xs) s = bindE (f x s) (foldE f xs)"

definition link_type :: "string list \<Rightarrow> string \<times> fields \<Rightarrow> linkage \<Rightarrow> linkage result" where
  "link_type names entry lk = mapE snd (foldE (link_field names (fst entry)) (snd entry) ([], lk))"

definition link_types :: "type_table \<Rightarrow> linkage result" where
  "link_types types =
     foldE (link_type (map fst types)) types \<lparr>lk_parents = (\<lambda>_. []), lk_links = (\<lambda>_. [])\<rparr>"

section \<open>Circular references\<close>

text \<open>
  \<open>checkCircular\<close> and its loop over the children. \<open>found\<close> is the path from the primary
  type, unchanged when a call returns; \<open>subs\<close> are the sets of subtypes.
\<close>

definition mark_subtype :: "string \<Rightarrow> string list \<Rightarrow> (string \<Rightarrow> string list) \<Rightarrow> string \<Rightarrow> string list" where
  "mark_subtype child found subs = (\<lambda>t. if t \<in> set found then set_add child (subs t) else subs t)"

function (sequential) checkCircular ::
    "string list \<Rightarrow> (string \<Rightarrow> string list) \<Rightarrow> string \<Rightarrow> string list \<Rightarrow> (string \<Rightarrow> string list) \<Rightarrow> (string \<Rightarrow> string list) result"
  and checkChildren ::
    "string list \<Rightarrow> (string \<Rightarrow> string list) \<Rightarrow> string list \<Rightarrow> string list \<Rightarrow> (string \<Rightarrow> string list) \<Rightarrow> (string \<Rightarrow> string list) result" where
  "checkCircular names links type found subs =
     (if type \<in> set found then Inl (CoreError INVALID_ARGUMENT ''circular type reference'')
      else if type \<notin> set names then Inl (JsError NativeTypeError ''undefined is not iterable'')
      else checkChildren names links (links type) (found @ [type]) subs)"
| "checkChildren names links [] found subs = Inr subs"
| "checkChildren names links (child # cs) found subs =
     (if child \<notin> set names then checkChildren names links cs found subs
      else bindE (checkCircular names links child found subs) (\<lambda>subs'.
             checkChildren names links cs found (mark_subtype child found subs')))"
  by pat_completeness auto
termination
proof (relation "(\<lambda>x. case x of Inl (names, _, _, found, _) \<Rightarrow> card (set names - set found)
      | Inr (names, _, _, found, _) \<Rightarrow> card (set names - set found)) <*mlex*>
    measure (\<lambda>x. case x of Inl _ \<Rightarrow> 0 | Inr (_, _, cs, _, _) \<Rightarrow> length cs)", goal_cases)
  case 1
  then show ?case by (intro wf_mlex) simp
next
  case (2 names links type found subs)
  then have "set names - set (found @ [type]) \<subset> set names - set found" by auto
  then have "card (set names - set (found @ [type])) < card (set names - set found)" by (intro psubset_card_mono) auto
  then show ?case by (auto simp: mlex_prod_def)
qed (auto simp: mlex_prod_def)

section \<open>The encoder\<close>

record typed_encoder =
  te_types :: type_table
  te_primaryType :: string
  te_fullTypes :: "(string \<times> string) list"

definition full_type :: "type_table \<Rightarrow> (string \<Rightarrow> string list) \<Rightarrow> string \<Rightarrow> string" where
  "full_type types subs name =
     encodeType_one name (the (map_of types name)) @
     concat (map (\<lambda>t. encodeType_one t (the (map_of types t))) (sort (subs name)))"

definition new_TypedDataEncoder :: "type_table \<Rightarrow> typed_encoder result" where
  "new_TypedDataEncoder types =
     bindE (link_types types) (\<lambda>lk.
       let names = map fst types; primaryTypes = filter (\<lambda>n. lk_parents lk n = []) names
       in bindE (assertArgument (length primaryTypes \<noteq> 0) ''missing primary type'') (\<lambda>_.
          bindE (assertArgument (length primaryTypes = 1) ''ambiguous primary types or unused types'') (\<lambda>_.
          bindE (checkCircular names (lk_links lk) (hd primaryTypes) [] (\<lambda>_. [])) (\<lambda>subs.
            Inr \<lparr>te_types = types, te_primaryType = hd primaryTypes,
                 te_fullTypes = map (\<lambda>n. (n, full_type types subs n)) names\<rparr>))))"

text \<open>\<open>/^(.*)(\[(\d*)\])$/\<close>: the type of the elements and the digits of the length.\<close>

definition array_match :: "string \<Rightarrow> (string \<times> string) option" where
  "array_match type =
     (let r = rev type; digits = takeWhile is_digit10 (drop 1 r); t = dropWhile is_digit10 (drop 1 r)
      in if starts_with r '']'' \<and> starts_with t ''['' then Some (rev (drop 1 t), rev digits) else None)"

lemma array_match_shorter: "array_match type = Some (sub, d) \<Longrightarrow> length sub < length type"
proof -
  assume "array_match type = Some (sub, d)"
  then have sub: "sub = rev (drop 1 (dropWhile is_digit10 (drop 1 (rev type))))" and "type \<noteq> []"
    by (auto simp: array_match_def Let_def starts_with_def split: if_splits)
  have "length (dropWhile is_digit10 (drop 1 (rev type))) \<le> length type - 1"
    using length_dropWhile_le [of is_digit10 "drop 1 (rev type)"] by simp
  then show "length sub < length type" using \<open>type \<noteq> []\<close> by (cases type) (auto simp: sub)
qed

text \<open>What \<open>getEncoder\<close> checks before there is a value.\<close>

function check_encoder :: "typed_encoder \<Rightarrow> string \<Rightarrow> unit result" where
  "check_encoder te type =
     bindE (getBaseEncoder type) (\<lambda>encoder.
       if encoder \<noteq> None then Inr ()
       else case array_match type of
              Some (subtype, _) \<Rightarrow> check_encoder te subtype
            | None \<Rightarrow> assertArgument (map_of (te_types te) type \<noteq> None) ''unknown type'')"
  by pat_completeness auto
termination by (relation "measure (length \<circ> snd)") (auto dest: array_match_shorter)

declare check_encoder.simps [simp del]

text \<open>\<open>value[name]\<close>, \<open>value.length\<close> and the elements \<open>value.map\<close> visits.\<close>

definition get_property :: "abi_value \<Rightarrow> string \<Rightarrow> abi_value result" where
  "get_property value name =
     (case value of
        VUndef \<Rightarrow> Inl (JsError NativeTypeError ''Cannot read properties of undefined'')
      | VNull \<Rightarrow> Inl (JsError NativeTypeError ''Cannot read properties of null'')
      | VObj kvs \<Rightarrow> Inr (case map_of kvs name of Some v \<Rightarrow> v | None \<Rightarrow> VUndef)
      | _ \<Rightarrow> Inr VUndef)"

definition get_length :: "abi_value \<Rightarrow> nat option result" where
  "get_length value =
     (case value of
        VUndef \<Rightarrow> Inl (JsError NativeTypeError ''Cannot read properties of undefined'')
      | VNull \<Rightarrow> Inl (JsError NativeTypeError ''Cannot read properties of null'')
      | VArr vs \<Rightarrow> Inr (Some (length vs))
      | VText u \<Rightarrow> Inr (Some (length u))
      | VData (DStr s) \<Rightarrow> Inr (Some (length s))
      | VData (DU8 bs) \<Rightarrow> Inr (Some (length bs))
      | VData (DArr ns) \<Rightarrow> Inr (Some (length ns))
      | _ \<Rightarrow> Inr None)"

definition get_elements :: "abi_value \<Rightarrow> abi_value list result" where
  "get_elements value =
     (case value of
        VArr vs \<Rightarrow> Inr vs
      | VData (DArr ns) \<Rightarrow> Inr (map (\<lambda>n. VData (DNum n)) ns)
      | _ \<Rightarrow> Inl (JsError NativeTypeError ''value.map is not a function''))"

definition check_length :: "string \<Rightarrow> abi_value \<Rightarrow> unit result" where
  "check_length digits value =
     (if digits = [] then Inr ()
      else bindE (get_length value) (\<lambda>n. assertArgument (n = Some (dec_value digits)) ''array length mismatch''))"

definition value_rank :: "abi_value \<Rightarrow> nat" where
  "value_rank v = (if v = VUndef then 0 else Suc (size v))"

lemma get_property_rank: "get_property value name = Inr v \<Longrightarrow> value_rank v < value_rank value"
proof (cases "value")
  case (VObj kvs)
  assume "get_property value name = Inr v"
  then consider "v = VUndef" | "(name, v) \<in> set kvs"
    using VObj by (auto simp: get_property_def split: option.splits dest: map_of_SomeD)
  then show ?thesis
  proof cases
    case 2
    then have "size v < size_list (size_prod (\<lambda>_. 0) size) kvs"
      by (induction kvs) auto
    then show ?thesis by (simp add: value_rank_def VObj)
  qed (simp add: value_rank_def VObj)
qed (auto simp: get_property_def value_rank_def)

lemma get_elements_rank:
  assumes "get_elements value = Inr vs" and "v \<in> set vs"
  shows "value_rank v \<le> value_rank value"
proof (cases "value")
  case (VArr ws)
  then have "size v \<le> size_list size ws"
    using assms size_list_estimation' [of v ws "size v" size] by (simp add: get_elements_def)
  then show ?thesis by (simp add: value_rank_def VArr)
next
  case (VData d)
  with assms show ?thesis by (cases d) (auto simp: get_elements_def value_rank_def)
qed (use assms in \<open>auto simp: get_elements_def\<close>)

function encode_value :: "(byte list \<Rightarrow> byte list) \<Rightarrow> typed_encoder \<Rightarrow> string \<Rightarrow> abi_value \<Rightarrow> string result" where
  "encode_value H te type value =
     bindE (getBaseEncoder type) (\<lambda>encoder.
       case encoder of
         Some be \<Rightarrow> base_encode H be value
       | None \<Rightarrow>
           (case array_match type of
              Some (subtype, digits) \<Rightarrow>
                bindE (check_encoder te subtype) (\<lambda>_.
                bindE (check_length digits value) (\<lambda>_.
                bindE (get_elements value) (\<lambda>vs.
                bindE (mapM (\<lambda>v. encode_value H te subtype v) vs) (\<lambda>result.
                bindE (if map_of (te_fullTypes te) subtype \<noteq> None then mapM (\<lambda>h. sha256 H (DStr h)) result else Inr result) (\<lambda>result'.
                bindE (concat_data (map DStr result')) (\<lambda>h. sha256 H (DStr h)))))))
            | None \<Rightarrow>
                (case map_of (te_types te) type of
                   None \<Rightarrow> Inl (CoreError INVALID_ARGUMENT ''unknown type'')
                 | Some fs \<Rightarrow>
                     bindE (id_hash H (map of_char (the (map_of (te_fullTypes te) type)))) (\<lambda>encodedType.
                     bindE (mapM (\<lambda>(n, t).
                              bindE (check_encoder te t) (\<lambda>_.
                              bindE (get_property value n) (\<lambda>v.
                              bindE (encode_value H te t v) (\<lambda>result.
                                if map_of (te_fullTypes te) t \<noteq> None then sha256 H (DStr result) else Inr result)))) fs) (\<lambda>values.
                       concat_data (map DStr (encodedType # values)))))))"
  by pat_completeness auto
termination
  by (relation "(\<lambda>(_, _, _, v). value_rank v) <*mlex*> measure (\<lambda>(_, _, t, _). length t)")
     (auto simp: mlex_prod_def wf_mlex dest: array_match_shorter get_property_rank get_elements_rank simp: le_less)

declare encode_value.simps [simp del]

section \<open>Hashes\<close>

definition te_encodeType :: "typed_encoder \<Rightarrow> string \<Rightarrow> string result" where
  "te_encodeType te name =
     (case map_of (te_fullTypes te) name of
        Some t \<Rightarrow> if t = [] then Inl (CoreError INVALID_ARGUMENT ''unknown type'') else Inr t
      | None \<Rightarrow> Inl (CoreError INVALID_ARGUMENT ''unknown type''))"

definition encodeData :: "(byte list \<Rightarrow> byte list) \<Rightarrow> typed_encoder \<Rightarrow> string \<Rightarrow> abi_value \<Rightarrow> string result" where
  "encodeData H te type v = encode_value H te type v"

definition hashStruct :: "(byte list \<Rightarrow> byte list) \<Rightarrow> typed_encoder \<Rightarrow> string \<Rightarrow> abi_value \<Rightarrow> string result" where
  "hashStruct H te name v = bindE (encodeData H te name v) (\<lambda>h. sha256 H (DStr h))"

definition te_encode :: "(byte list \<Rightarrow> byte list) \<Rightarrow> typed_encoder \<Rightarrow> abi_value \<Rightarrow> string result" where
  "te_encode H te v = encodeData H te (te_primaryType te) v"

definition te_hash :: "(byte list \<Rightarrow> byte list) \<Rightarrow> typed_encoder \<Rightarrow> abi_value \<Rightarrow> string result" where
  "te_hash H te v = hashStruct H te (te_primaryType te) v"

definition getPrimaryType :: "type_table \<Rightarrow> string result" where
  "getPrimaryType types = mapE te_primaryType (new_TypedDataEncoder types)"

definition hashStruct_types :: "(byte list \<Rightarrow> byte list) \<Rightarrow> string \<Rightarrow> type_table \<Rightarrow> abi_value \<Rightarrow> string result" where
  "hashStruct_types H name types v = bindE (new_TypedDataEncoder types) (\<lambda>te. hashStruct H te name v)"

text \<open>A domain is an object, so an association list in the order of its keys.\<close>

definition domainFieldTypes :: "(string \<times> string) list" where
  "domainFieldTypes =
     [(''name'', ''string''), (''version'', ''string''), (''networkId'', ''uint256''), (''verifyingContract'', ''address''),
      (''salt'', ''bytes32'')]"

definition domainFieldNames :: "string list" where
  "domainFieldNames = [''name'', ''version'', ''networkId'', ''verifyingContract'', ''salt'']"

definition is_nullish :: "abi_value \<Rightarrow> bool" where
  "is_nullish v \<longleftrightarrow> v = VNull \<or> v = VUndef"

definition domain_fields :: "(string \<times> abi_value) list \<Rightarrow> fields result" where
  "domain_fields domain =
     mapE (sort_key (\<lambda>f. indexOf (fst f) domainFieldNames))
       (mapM (\<lambda>(name, _). case map_of domainFieldTypes name of
          Some type \<Rightarrow> Inr (name, type)
        | None \<Rightarrow> Inl (CoreError INVALID_ARGUMENT ''invalid typed-data domain key''))
       (filter (\<lambda>(_, v). \<not> is_nullish v) domain))"

definition hashDomain :: "(byte list \<Rightarrow> byte list) \<Rightarrow> (string \<times> abi_value) list \<Rightarrow> string result" where
  "hashDomain H domain =
     bindE (domain_fields domain) (\<lambda>fs. hashStruct_types H ''EIP712Domain'' [(''EIP712Domain'', fs)] (VObj domain))"

definition td_encode ::
    "(byte list \<Rightarrow> byte list) \<Rightarrow> (string \<times> abi_value) list \<Rightarrow> type_table \<Rightarrow> abi_value \<Rightarrow> string result" where
  "td_encode H domain types v =
     bindE (hashDomain H domain) (\<lambda>d.
     bindE (new_TypedDataEncoder types) (\<lambda>te.
     bindE (te_hash H te v) (\<lambda>h. concat_data [DStr ''0x1901'', DStr d, DStr h])))"

definition td_hash ::
    "(byte list \<Rightarrow> byte list) \<Rightarrow> (string \<times> abi_value) list \<Rightarrow> type_table \<Rightarrow> abi_value \<Rightarrow> string result" where
  "td_hash H domain types v = bindE (td_encode H domain types v) (\<lambda>h. sha256 H (DStr h))"

definition verifyTypedData ::
    "ed448_lib \<Rightarrow> (byte list \<Rightarrow> byte list) \<Rightarrow> (string \<times> abi_value) list \<Rightarrow> type_table \<Rightarrow> abi_value \<Rightarrow> js_data \<Rightarrow> string
     \<Rightarrow> string result" where
  "verifyTypedData lib H domain types v signature pre =
     bindE (td_hash H domain types v) (\<lambda>h. recoverAddress lib H (DStr h) signature pre)"

section \<open>Visiting\<close>

function td_visit :: "typed_encoder \<Rightarrow> (string \<Rightarrow> abi_value \<Rightarrow> abi_value result) \<Rightarrow> string \<Rightarrow> abi_value \<Rightarrow> abi_value result" where
  "td_visit te callback type value =
     bindE (getBaseEncoder type) (\<lambda>encoder.
       if encoder \<noteq> None then callback type value
       else case array_match type of
              Some (subtype, digits) \<Rightarrow>
                bindE (check_length digits value) (\<lambda>_.
                bindE (get_elements value) (\<lambda>vs.
                  mapE VArr (mapM (\<lambda>v. td_visit te callback subtype v) vs)))
            | None \<Rightarrow>
                (case map_of (te_types te) type of
                   None \<Rightarrow> Inl (CoreError INVALID_ARGUMENT ''unknown type'')
                 | Some fs \<Rightarrow>
                     mapE VObj (mapM (\<lambda>(n, t).
                       bindE (get_property value n) (\<lambda>v. mapE (\<lambda>r. (n, r)) (td_visit te callback t v))) fs)))"
  by pat_completeness auto
termination
  by (relation "(\<lambda>(_, _, _, v). value_rank v) <*mlex*> measure (\<lambda>(_, _, t, _). length t)")
     (auto simp: mlex_prod_def wf_mlex dest: array_match_shorter get_property_rank get_elements_rank simp: le_less)

declare td_visit.simps [simp del]

definition te_visit :: "typed_encoder \<Rightarrow> abi_value \<Rightarrow> (string \<Rightarrow> abi_value \<Rightarrow> abi_value result) \<Rightarrow> abi_value result" where
  "te_visit te v callback = td_visit te callback (te_primaryType te) v"

section \<open>Payloads\<close>

text \<open>\<open>Number.isSafeInteger\<close> of a \<open>bigint\<close> is false, so the network is always a quantity.\<close>

definition text_check :: "abi_value \<Rightarrow> abi_value result" where
  "text_check v = (if as_units v = None then Inl (CoreError INVALID_ARGUMENT ''invalid domain value'') else Inr v)"

definition domain_check :: "string \<Rightarrow> abi_value \<Rightarrow> abi_value result" where
  "domain_check key v =
     (if key = ''name'' \<or> key = ''version'' then text_check v
      else if key = ''networkId''
      then bindE (bindE (data_of v) getBigInt) (\<lambda>n.
           bindE (assertArgument (n \<ge> 0) ''invalid chain ID'') (\<lambda>_. mapE (\<lambda>s. VData (DStr s)) (toQuantity (DBig n))))
      else if key = ''verifyingContract''
      then (case as_data v of
              Some (DStr s) \<Rightarrow>
                (case getAddress s of
                   Inr a \<Rightarrow> Inr (VData (DStr (map to_lower a)))
                 | Inl _ \<Rightarrow> Inl (CoreError INVALID_ARGUMENT ''invalid domain value''))
            | _ \<Rightarrow> Inl (CoreError INVALID_ARGUMENT ''invalid domain value''))
      else bindE (bindE (data_of v) getBytes) (\<lambda>bytes.
           bindE (assertArgument (length bytes = 32) ''invalid domain value'') (\<lambda>_.
             mapE (\<lambda>s. VData (DStr s)) (hexlify (DU8 bytes) no_options))))"

definition payload_value :: "string \<Rightarrow> abi_value \<Rightarrow> abi_value result" where
  "payload_value type v =
     (if starts_with type ''bytes''
      then bindE (data_of v) (\<lambda>d. bindE (getBytes d) (\<lambda>bs. mapE (\<lambda>s. VData (DStr s)) (hexlify (DU8 bs) no_options)))
      else if starts_with type ''int'' \<or> starts_with type ''uint''
      then bindE (bindE (data_of v) getBigInt) (\<lambda>n. Inr (VData (DStr (int_toString 10 n))))
      else if type = ''address''
      then (case as_data v of
              Some (DStr s) \<Rightarrow> Inr (VData (DStr (map to_lower s)))
            | _ \<Rightarrow> Inl (JsError NativeTypeError ''value.toLowerCase is not a function''))
      else if type = ''bool'' then Inr (VBool (truthy v))
      else if type = ''string''
      then (if as_units v = None then Inl (CoreError INVALID_ARGUMENT ''invalid string'') else Inr v)
      else Inl (CoreError INVALID_ARGUMENT ''unsupported type''))"

record payload =
  pl_types :: type_table
  pl_domain :: "(string \<times> abi_value) list"
  pl_primaryType :: string
  pl_message :: abi_value

definition domain_entries :: "(string \<times> abi_value) list \<Rightarrow> (string \<times> abi_value) list" where
  "domain_entries domain =
     concat (map (\<lambda>n. case map_of domain n of Some v \<Rightarrow> if is_nullish v then [] else [(n, v)] | None \<Rightarrow> []) domainFieldNames)"

definition getPayload ::
    "(byte list \<Rightarrow> byte list) \<Rightarrow> (string \<times> abi_value) list \<Rightarrow> type_table \<Rightarrow> abi_value \<Rightarrow> payload result" where
  "getPayload H domain types v =
     bindE (hashDomain H domain) (\<lambda>_.
     bindE (mapM (\<lambda>(n, x). mapE (\<lambda>y. (n, y)) (domain_check n x)) (domain_entries domain)) (\<lambda>domainValues.
     bindE (new_TypedDataEncoder types) (\<lambda>te.
     bindE (assertArgument (map_of types ''EIP712Domain'' = None) ''types must not contain EIP712Domain type'') (\<lambda>_.
     bindE (te_encode H te v) (\<lambda>_.
     bindE (te_visit te v payload_value) (\<lambda>message.
       Inr \<lparr>pl_types = types @ [(''EIP712Domain'', map (\<lambda>(n, _). (n, the (map_of domainFieldTypes n))) domainValues)],
            pl_domain = domainValues, pl_primaryType = te_primaryType te, pl_message = message\<rparr>))))))"

end
