(* ===== verification/Packed.thy ===== *)
theory Packed
  imports Typed_Data
begin

text \<open>
  The remaining hashes of \<open>src.ts/hash/\<close> (\<open>solidity.ts\<close>, \<open>message.ts\<close>) and the bytes32
  strings of \<open>src.ts/abi/bytes32.ts\<close>.
\<close>

section \<open>Tight packing\<close>

definition pack_number :: "bool \<Rightarrow> string \<Rightarrow> bool \<Rightarrow> abi_value \<Rightarrow> byte list result" where
  "pack_number sg digits isArray v =
     (let size = dec_value (if digits = [] then ''256'' else digits)
      in bindE (assertArgument ((digits = [] \<or> digits = nat_toString 10 size) \<and> size mod 8 = 0 \<and> size \<noteq> 0 \<and> size \<le> 256)
                  ''invalid number type'') (\<lambda>_.
         let size = (if isArray then 256 else size)
         in bindE (data_of v) (\<lambda>d.
            bindE (if sg then mapE DBig (toTwos d (num_of_size size)) else Inr d) (\<lambda>d'.
            bindE (toBeArray d') (\<lambda>bs.
            bindE (zeroPadValue (DU8 bs) (int size div 8)) (\<lambda>h. getBytes (DStr h)))))))"

definition pack_fixed_bytes :: "string \<Rightarrow> bool \<Rightarrow> abi_value \<Rightarrow> byte list result" where
  "pack_fixed_bytes digits isArray v =
     (let size = dec_value digits
      in bindE (assertArgument (nat_toString 10 size = digits \<and> size \<noteq> 0 \<and> size \<le> 32) ''invalid bytes type'') (\<lambda>_.
         bindE (data_of v) (\<lambda>d.
         bindE (dataLength d) (\<lambda>n.
         bindE (assertArgument (n = size) ''invalid value'') (\<lambda>_.
           if isArray then bindE (zeroPadBytes d 32) (\<lambda>h. getBytes (DStr h)) else getBytes d)))))"

text \<open>
  \<open>_pack\<close>; elements of arrays are padded to words. The elements of an array are read
  when it is a plain array.
\<close>

function pack_value :: "string \<Rightarrow> bool \<Rightarrow> abi_value \<Rightarrow> byte list result" where
  "pack_value type isArray v =
     (if type = ''address''
      then (case as_data v of
              Some d \<Rightarrow>
                if isArray then bindE (zeroPadValue d 32) (\<lambda>h. getBytes (DStr h))
                else (case d of DStr s \<Rightarrow> bindE (getAddress s) (\<lambda>a. getBytes (DStr a)) | _ \<Rightarrow> invalid_value)
            | None \<Rightarrow> invalid_value)
      else if type = ''string''
      then (case as_units v of Some u \<Rightarrow> toUtf8Bytes [] (\<lambda>_. id) u None | None \<Rightarrow> invalid_value)
      else if type = ''bytes'' then bindE (data_of v) getBytes
      else if type = ''bool''
      then (let h = (if truthy v then ''0x01'' else ''0x00'')
            in if isArray then bindE (zeroPadValue (DStr h) 32) (\<lambda>h. getBytes (DStr h)) else getBytes (DStr h))
      else case int_match type of
             Some (sg, digits) \<Rightarrow> pack_number sg digits isArray v
           | None \<Rightarrow>
               (case bytes_match type of
                  Some digits \<Rightarrow> pack_fixed_bytes digits isArray v
                | None \<Rightarrow>
                    (case (array_match type, v) of
                       (Some (baseType, digits), VArr vs) \<Rightarrow>
                         bindE (assertArgument ((if digits = [] then length vs else dec_value digits) = length vs)
                                  ''invalid array length'') (\<lambda>_.
                           mapE concat (mapM (pack_value baseType True) vs))
                     | _ \<Rightarrow> Inl (CoreError INVALID_ARGUMENT ''invalid type''))))"
  by pat_completeness auto
termination by (relation "measure (\<lambda>(t, _, _). length t)") (auto dest: array_match_shorter [OF sym])

declare pack_value.simps [simp del]

definition solidityPacked :: "string list \<Rightarrow> abi_value list \<Rightarrow> string result" where
  "solidityPacked types values =
     bindE (assertArgument (length types = length values) ''wrong number of values'') (\<lambda>_.
     bindE (mapM (\<lambda>(t, v). pack_value t False v) (zip types values)) (\<lambda>tight. concat_data (map DU8 tight)))"

definition solidityPackedSha256 :: "(byte list \<Rightarrow> byte list) \<Rightarrow> string list \<Rightarrow> abi_value list \<Rightarrow> string result" where
  "solidityPackedSha256 H types values = bindE (solidityPacked types values) (\<lambda>h. sha256 H (DStr h))"


section \<open>Messages\<close>

definition MessagePrefix :: string where
  "MessagePrefix = [CHR 0x19] @ ''Core Signed Message:'' @ [CHR 0x0A]"

datatype message = MsgText js_units | MsgBytes "byte list"

definition hashMessage :: "(byte list \<Rightarrow> byte list) \<Rightarrow> message \<Rightarrow> string result" where
  "hashMessage H m =
     bindE (case m of MsgText u \<Rightarrow> toUtf8Bytes [] (\<lambda>_. id) u None | MsgBytes bs \<Rightarrow> Inr bs) (\<lambda>bytes.
     bindE (toUtf8Bytes [] (\<lambda>_. id) (map of_char MessagePrefix) None) (\<lambda>p.
     bindE (toUtf8Bytes [] (\<lambda>_. id) (map of_char (nat_toString 10 (length bytes))) None) (\<lambda>n.
     bindE (concat_data [DU8 p, DU8 n, DU8 bytes]) (\<lambda>h. sha256 H (DStr h)))))"

definition verifyMessage ::
    "ed448_lib \<Rightarrow> (byte list \<Rightarrow> byte list) \<Rightarrow> message \<Rightarrow> js_data \<Rightarrow> string \<Rightarrow> string result" where
  "verifyMessage lib H m sig pre = bindE (hashMessage H m) (\<lambda>digest. recoverAddress lib H (DStr digest) sig pre)"

section \<open>Strings of 32 bytes\<close>

definition encodeBytes32String :: "js_units \<Rightarrow> string result" where
  "encodeBytes32String text =
     bindE (toUtf8Bytes [] (\<lambda>_. id) text None) (\<lambda>bytes.
       if length bytes > 31 then Inl (JsError NativeError ''bytes32 string must be less than 32 bytes'')
       else zeroPadBytes (DU8 bytes) 32)"

fun null_length :: "byte list \<Rightarrow> nat \<Rightarrow> nat" where
  "null_length data 0 = 0"
| "null_length data (Suc n) = (if data ! n = 0 then null_length data n else Suc n)"

definition decodeBytes32String :: "js_data \<Rightarrow> js_units result" where
  "decodeBytes32String b0 =
     bindE (getBytes b0) (\<lambda>data.
       if length data \<noteq> 32 then Inl (JsError NativeError ''invalid bytes32 - not 32 bytes long'')
       else if data ! 31 \<noteq> 0 then Inl (JsError NativeError ''invalid bytes32 string - no null terminator'')
       else toUtf8String (DU8 (take (null_length data 31) data)) None)"

lemma null_length_pad:
  assumes "bs = [] \<or> last bs \<noteq> 0" and "k \<le> m"
  shows "null_length (bs @ replicate m 0) (length bs + k) = length bs"
  using assms(2)
proof (induction k)
  case 0
  then show ?case using assms(1) by (cases bs rule: rev_cases) (auto simp: nth_append)
next
  case (Suc k)
  then show ?case by (simp add: nth_append)
qed

text \<open>A text that does not end with a null character is read back.\<close>

lemma bytes32_decode_encode:
  assumes "toUtf8Bytes [] (\<lambda>_. id) text None = Inr bs" and "length bs \<le> 31" and "bs = [] \<or> last bs \<noteq> 0"
  shows "bindE (encodeBytes32String text) (\<lambda>h. decodeBytes32String (DStr h)) = toUtf8String (DU8 bs) None"
proof -
  define data where "data = bs @ replicate (32 - length bs) 0"
  have pad: "zeroPadBytes (DU8 bs) 32 = Inr (''0x'' @ hex_of_bytes data)"
    using assms(2) by (simp add: zeroPadBytes_def zeroPad_bytes data_def)
  have "null_length data 31 = length bs"
    using null_length_pad [OF assms(3), of "31 - length bs" "32 - length bs"] assms(2) by (simp add: data_def)
  moreover have "data ! 31 = 0" "length data = 32" "take (length bs) data = bs" using assms(2) by (simp_all add: data_def nth_append)
  ultimately show ?thesis using assms(1,2) pad
    by (simp add: encodeBytes32String_def decodeBytes32String_def)
qed

end
