(* ===== verification/Requests.thy ===== *)
theory Requests
  imports Maths
begin

text \<open>
  \<open>PerformActionRequest\<close> of \<open>src.ts/providers/abstract-provider.ts\<close>: what an
  \<open>AbstractProvider\<close> asks its backend to perform. Addresses and block tags are already
  resolved to strings; a transaction is its properties in the order of the object.
\<close>

datatype one_or_many = One string | Many "string list"

record perform_filter =
  pf_address :: "one_or_many option"
  pf_topics :: "one_or_many option list option"
  pf_fromBlock :: "string option"
  pf_toBlock :: "string option"
  pf_blockHash :: "string option"

datatype perform_request =
    R_broadcastTransaction string
  | R_call "(string \<times> js_data) list" string
  | R_networkId
  | R_estimateEnergy "(string \<times> js_data) list"
  | R_getBalance string string
  | R_getBlock_tag string bool
  | R_getBlock_hash string bool
  | R_getBlockNumber
  | R_getCode string string
  | R_getEnergyPrice
  | R_getLogs perform_filter
  | R_getStorage string int string
  | R_getTransaction string
  | R_getTransactionCount string string
  | R_getTransactionReceipt string
  | R_getTransactionResult string

end
