(* ===== verification/Provider_Requests.thy ===== *)
theory Provider_Requests
  imports Requests Abi_Coder "HOL-Library.Char_ord" "HOL-Library.List_Lexorder"
begin

text \<open>
  What an \<open>AbstractProvider\<close> (\<open>src.ts/providers/abstract-provider.ts\<close>) makes of its
  arguments before it asks its backend: block tags, filters, transactions, events to
  subscribe to, and the tag that identical requests share. A promise is what it
  resolves to; where several parts of an argument are rejected, the first part in the
  order of the code decides the error.
\<close>

section \<open>Block tags\<close>

text \<open>\<open>last + tag\<close>, where the tag may be no finite number.\<close>

definition add_number :: "int \<Rightarrow> jnum \<Rightarrow> jnum" where
  "add_number n v = (case v of Fin q \<Rightarrow> Fin (of_int n + q) | _ \<Rightarrow> v)"

text \<open>
  A number from zero on is a height; below zero it counts from the last block known, or
  from the number that \<open>getBlockNumber\<close> fetches.
\<close>

definition number_tag :: "int \<Rightarrow> int result \<Rightarrow> jnum \<Rightarrow> string result" where
  "number_tag lastBlockNumber fetched v =
     (if (case v of Fin q \<Rightarrow> q \<ge> 0 | PosInf \<Rightarrow> True | _ \<Rightarrow> False) then toQuantity (DNum v)
      else if lastBlockNumber \<ge> 0 then toQuantity (DNum (add_number lastBlockNumber v))
      else bindE fetched (\<lambda>b. toQuantity (DNum (add_number b v))))"

definition getBlockTag :: "int \<Rightarrow> int result \<Rightarrow> js_data option \<Rightarrow> string result" where
  "getBlockTag lastBlockNumber fetched blockTag =
     (case blockTag of
        None \<Rightarrow> Inr ''latest''
      | Some tag \<Rightarrow>
          if tag = DStr ''earliest'' then Inr ''0x0''
          else if tag \<in> {DStr ''latest'', DStr ''pending'', DStr ''safe'', DStr ''finalized''}
          then (case tag of DStr s \<Rightarrow> Inr s | _ \<Rightarrow> Inr [])
          else if isHexString tag AnyLength
          then (case tag of
                  DStr s \<Rightarrow> if isHexString tag (ExactLength 32) then Inr s else toQuantity tag
                | _ \<Rightarrow> toQuantity tag)
          else (case tag of
                  DBig n \<Rightarrow> bindE (getNumber (DBig n)) (\<lambda>k. number_tag lastBlockNumber fetched (Fin (of_int k)))
                | DNum v \<Rightarrow> number_tag lastBlockNumber fetched v
                | _ \<Rightarrow> Inl (CoreError INVALID_ARGUMENT ''invalid blockTag'')))"

section \<open>Filters\<close>

definition concisify :: "string list \<Rightarrow> string list" where
  "concisify items = sort (remdups items)"

definition lower_topic :: "one_or_many option \<Rightarrow> one_or_many option" where
  "lower_topic t =
     (case t of
        None \<Rightarrow> None
      | Some (Many ts) \<Rightarrow> Some (Many (concisify (map (map to_lower) ts)))
      | Some (One t) \<Rightarrow> Some (One (map to_lower t)))"

datatype address_filter = NoAddress | OneAddress address_like | ManyAddresses "address_like list"

text \<open>A block that is given but \<open>null\<close> is \<open>Some None\<close>.\<close>

record filter_request =
  fr_address :: address_filter
  fr_topics :: "one_or_many option list option"
  fr_fromBlock :: "js_data option option"
  fr_toBlock :: "js_data option option"
  fr_blockHash :: "string option"

text \<open>\<open>if (filter.address)\<close>: the empty text is no address.\<close>

definition has_address :: "address_filter \<Rightarrow> bool" where
  "has_address a = (case a of NoAddress \<Rightarrow> False | OneAddress (AStr []) \<Rightarrow> False | _ \<Rightarrow> True)"

definition filter_addresses :: "address_filter \<Rightarrow> address_like list" where
  "filter_addresses a = (if \<not> has_address a then [] else case a of NoAddress \<Rightarrow> [] | OneAddress x \<Rightarrow> [x] | ManyAddresses xs \<Rightarrow> xs)"

definition resolve_filter ::
  "one_or_many option list \<Rightarrow> string option \<Rightarrow> string list \<Rightarrow> string option \<Rightarrow> string option \<Rightarrow> perform_filter result" where
  "resolve_filter topics blockHash address fromBlock toBlock =
     (let hash = (case blockHash of Some (c # cs) \<Rightarrow> Some (c # cs) | _ \<Rightarrow> None)
      in if hash \<noteq> None \<and> (fromBlock \<noteq> None \<or> toBlock \<noteq> None) then Inl (JsError NativeError ''invalid filter'')
         else Inr \<lparr>pf_address = (case address of [] \<Rightarrow> None | [a] \<Rightarrow> Some (One a) | _ \<Rightarrow> Some (Many (sort address))),
                   pf_topics = (if topics = [] then None else Some topics),
                   pf_fromBlock = fromBlock, pf_toBlock = toBlock, pf_blockHash = hash\<rparr>)"

definition optional_tag :: "int \<Rightarrow> int result \<Rightarrow> js_data option option \<Rightarrow> string option result" where
  "optional_tag lastBlockNumber fetched t =
     (case t of None \<Rightarrow> Inr None | Some tag \<Rightarrow> mapE Some (getBlockTag lastBlockNumber fetched tag))"

definition getFilter :: "int \<Rightarrow> int result \<Rightarrow> filter_request \<Rightarrow> perform_filter result" where
  "getFilter lastBlockNumber fetched f =
     (let topics = map lower_topic (case fr_topics f of None \<Rightarrow> [] | Some ts \<Rightarrow> ts)
      in bindE (mapM resolveAddress (filter_addresses (fr_address f))) (\<lambda>address.
         bindE (optional_tag lastBlockNumber fetched (fr_fromBlock f)) (\<lambda>fromBlock.
         bindE (optional_tag lastBlockNumber fetched (fr_toBlock f)) (\<lambda>toBlock.
           resolve_filter topics (fr_blockHash f) address fromBlock toBlock))))"

section \<open>Transactions\<close>

text \<open>A request; custom data are opaque. The access list of a request is not among what is copied.\<close>

record transaction_request =
  tr_to :: "address_like option"
  tr_from :: "address_like option"
  tr_data :: "js_data option"
  tr_networkId :: "js_data option"
  tr_energyLimit :: "js_data option"
  tr_energyPrice :: "js_data option"
  tr_value :: "js_data option"
  tr_type :: "js_data option"
  tr_nonce :: "js_data option"
  tr_blockTag :: "js_data option"
  tr_enableCcipRead :: bool
  tr_customData :: "nat option"

definition given_address :: "address_like option \<Rightarrow> address_like option" where
  "given_address a = (case a of Some (AStr []) \<Rightarrow> None | _ \<Rightarrow> a)"

definition copy_data :: "js_data option \<Rightarrow> js_data option result" where
  "copy_data d =
     (case d of None \<Rightarrow> Inr None
      | Some x \<Rightarrow> if truthy (VData x) then mapE (\<lambda>h. Some (DStr h)) (hexlify x no_options) else Inr None)"

definition copy_big :: "js_data option \<Rightarrow> js_data option result" where
  "copy_big d = (case d of None \<Rightarrow> Inr None | Some x \<Rightarrow> mapE (\<lambda>n. Some (DBig n)) (getBigInt x))"

definition copy_number :: "js_data option \<Rightarrow> js_data option result" where
  "copy_number d = (case d of None \<Rightarrow> Inr None | Some x \<Rightarrow> mapE (\<lambda>n. Some (DNum (Fin (of_int n)))) (getNumber x))"

text \<open>
  \<open>copyRequest\<close> of \<open>provider.ts\<close>. It writes \<open>enableCcipReadEnabled\<close>, a name that nothing
  reads, so that the copy has no \<open>enableCcipRead\<close>.
\<close>

definition copyRequest :: "transaction_request \<Rightarrow> transaction_request result" where
  "copyRequest req =
     bindE (copy_data (tr_data req)) (\<lambda>data.
     bindE (copy_big (tr_networkId req)) (\<lambda>networkId.
     bindE (copy_big (tr_energyLimit req)) (\<lambda>energyLimit.
     bindE (copy_big (tr_energyPrice req)) (\<lambda>energyPrice.
     bindE (copy_big (tr_value req)) (\<lambda>val.
     bindE (copy_number (tr_type req)) (\<lambda>type.
     bindE (copy_number (tr_nonce req)) (\<lambda>nonce.
       Inr \<lparr>tr_to = given_address (tr_to req), tr_from = given_address (tr_from req), tr_data = data,
            tr_networkId = networkId, tr_energyLimit = energyLimit, tr_energyPrice = energyPrice, tr_value = val,
            tr_type = type, tr_nonce = nonce, tr_blockTag = tr_blockTag req, tr_enableCcipRead = False,
            tr_customData = tr_customData req\<rparr>)))))))"

definition resolve_optional :: "address_like option \<Rightarrow> address_like option result" where
  "resolve_optional a = (case a of None \<Rightarrow> Inr None | Some x \<Rightarrow> mapE (\<lambda>s. Some (AStr s)) (resolveAddress x))"

definition getTransactionRequest :: "int \<Rightarrow> int result \<Rightarrow> transaction_request \<Rightarrow> transaction_request result" where
  "getTransactionRequest lastBlockNumber fetched req0 =
     bindE (copyRequest req0) (\<lambda>request.
     bindE (resolve_optional (tr_to request)) (\<lambda>to.
     bindE (resolve_optional (tr_from request)) (\<lambda>from.
     bindE (case tr_blockTag request of
              None \<Rightarrow> Inr None
            | Some t \<Rightarrow> mapE (\<lambda>s. Some (DStr s)) (getBlockTag lastBlockNumber fetched (Some t))) (\<lambda>tag.
       Inr (request\<lparr>tr_to := to, tr_from := from, tr_blockTag := tag\<rparr>)))))"

section \<open>Tags\<close>

text \<open>The values a tag is made of.\<close>

datatype tag_value =
  TagNull | TagText string | TagBig int | TagNumber int | TagBool bool | TagList "tag_value list" | TagObj "(string \<times> tag_value) list"

definition json_escape :: "char \<Rightarrow> string" where
  "json_escape c =
     (let n = of_char c :: nat
      in if n = 0x22 then [CHR 0x5c, c]
         else if n = 0x5c then [c, c]
         else if n = 8 then CHR 0x5c # ''b''
         else if n = 9 then CHR 0x5c # ''t''
         else if n = 10 then CHR 0x5c # ''n''
         else if n = 12 then CHR 0x5c # ''f''
         else if n = 13 then CHR 0x5c # ''r''
         else if n < 32 then CHR 0x5c # ''u00'' @ (if n < 16 then ''0'' else ''1'') @ nat_toString 16 (n mod 16)
         else [c])"

definition json_quote :: "string \<Rightarrow> string" where
  "json_quote s = CHR 0x22 # concat (map json_escape s) @ [CHR 0x22]"

text \<open>\<open>JSON.stringify\<close> with the replacer: no nulls, decimal big integers, lower case, sorted keys.\<close>

fun json_tag :: "tag_value \<Rightarrow> string" where
  "json_tag TagNull = json_quote ''null''"
| "json_tag (TagText s) = json_quote (map to_lower s)"
| "json_tag (TagBig n) = json_quote (''bigint:'' @ int_toString 10 n)"
| "json_tag (TagNumber n) = int_toString 10 n"
| "json_tag (TagBool b) = (if b then ''true'' else ''false'')"
| "json_tag (TagList vs) = ''['' @ join_with '','' (map json_tag vs) @ '']''"
| "json_tag (TagObj fs) =
     ''{'' @ join_with '','' (map snd (sort_key fst (map (\<lambda>(k, v). (k, json_quote k @ '':'' @ json_tag v)) fs))) @ ''}''"

definition getTag :: "string \<Rightarrow> tag_value \<Rightarrow> string" where
  "getTag pre v = pre @ '':'' @ json_tag v"

text \<open>
  An event to subscribe to, with its addresses resolved; the argument of an orphan
  event is opaque but for its tag.
\<close>

datatype provider_event =
    NamedEvent string | OrphanEvent tag_value | FilterEvent address_filter "one_or_many option list option"

datatype subscription =
    PlainSub string | TransactionSub string | OrphanSub tag_value | EventSub "string list option" "one_or_many option list"

definition topic_tag :: "one_or_many option \<Rightarrow> tag_value" where
  "topic_tag t =
     (case t of None \<Rightarrow> TagNull | Some (One s) \<Rightarrow> TagText s | Some (Many ss) \<Rightarrow> TagList (map TagText ss))"

definition event_address :: "address_like \<Rightarrow> string result" where
  "event_address a =
     (case a of AStr s \<Rightarrow> if isHexString (DStr s) AnyLength then Inr s else resolveAddress a | _ \<Rightarrow> resolveAddress a)"

definition getSubscription :: "provider_event \<Rightarrow> (subscription \<times> string) result" where
  "getSubscription event =
     (case event of
        NamedEvent s \<Rightarrow>
          if s \<in> {''block'', ''pending'', ''debug'', ''error'', ''network''} then Inr (PlainSub s, s)
          else if isHexString (DStr s) (ExactLength 32)
          then let hash = map to_lower s in Inr (TransactionSub hash, getTag ''tx'' (TagObj [(''hash'', TagText hash)]))
          else Inl (CoreError INVALID_ARGUMENT ''unknown ProviderEvent'')
      | OrphanEvent v \<Rightarrow> Inr (OrphanSub v, getTag ''orphan'' v)
      | FilterEvent address topics \<Rightarrow>
          if \<not> has_address address \<and> topics = None then Inl (CoreError INVALID_ARGUMENT ''unknown ProviderEvent'')
          else
            let ts = map lower_topic (case topics of None \<Rightarrow> [] | Some x \<Rightarrow> x)
            in bindE (if has_address address
                      then mapE (\<lambda>as. Some (concisify (map (map to_lower) as))) (mapM event_address (filter_addresses address))
                      else Inr None) (\<lambda>addresses.
                 Inr (EventSub addresses ts,
                      getTag ''event'' (TagObj ([(''topics'', TagList (map topic_tag ts))] @
                        (case addresses of None \<Rightarrow> [] | Some as \<Rightarrow> [(''address'', TagList (map TagText as))]))))))"

end
