(* ===== verification/Signers.thy ===== *)
theory Signers
  imports Transaction Packed Provider_Requests
begin

text \<open>
  Signers: \<open>src.ts/providers/abstract-signer.ts\<close>, \<open>src.ts/wallet/base-wallet.ts\<close> and the
  part of \<open>src.ts/wallet/wallet.ts\<close> that needs no JSON. A signer's provider is what the
  signer asks of it; no provider is \<open>None\<close>. The hash function is \<open>H\<close> and the curve \<open>ed\<close>.
\<close>

section \<open>Wallets\<close>

record base_wallet =
  bw_key :: string
  bw_prefix :: string
  bw_address :: string

definition new_BaseWallet :: "ed448_lib \<Rightarrow> (byte list \<Rightarrow> byte list) \<Rightarrow> string \<Rightarrow> string \<Rightarrow> base_wallet result" where
  "new_BaseWallet ed H key pre =
     mapE (\<lambda>a. \<lparr>bw_key = key, bw_prefix = pre, bw_address = a\<rparr>) (computeAddress_key ed H key pre)"

text \<open>The constructor of \<open>Wallet\<close> takes a private key with or without \<open>0x\<close>.\<close>

definition new_Wallet :: "ed448_lib \<Rightarrow> (byte list \<Rightarrow> byte list) \<Rightarrow> string \<Rightarrow> string \<Rightarrow> base_wallet result" where
  "new_Wallet ed H key pre =
     bindE (new_SigningKey (DStr (if starts_with key ''0x'' then key else ''0x'' @ key))) (\<lambda>k. new_BaseWallet ed H k pre)"

section \<open>Signing\<close>

text \<open>The object a transaction is made from; a recipient that is no text has no \<open>match\<close>.\<close>

definition like_of_request :: "transaction_request \<Rightarrow> tx_like result" where
  "like_of_request tx =
     bindE (case tr_to tx of
              None \<Rightarrow> Inr None
            | Some (AStr s) \<Rightarrow> Inr (Some s)
            | Some _ \<Rightarrow> Inl (JsError NativeTypeError ''address.match is not a function'')) (\<lambda>to.
       Inr \<lparr>l_keys = [], l_to = to, l_from = None, l_nonce = tr_nonce tx, l_energyLimit = tr_energyLimit tx,
            l_energyPrice = tr_energyPrice tx, l_data = tr_data tx, l_value = tr_value tx,
            l_networkId = tr_networkId tx, l_hash = None, l_signature = None\<rparr>)"

text \<open>A promise is awaited; what it gives replaces it unless it is \<open>null\<close>.\<close>

definition awaited :: "address_like option \<Rightarrow> address_like option result" where
  "awaited a =
     (case a of
        Some (APromise p) \<Rightarrow> mapE (\<lambda>v. case v of Some s \<Rightarrow> Some (AStr s) | None \<Rightarrow> a) p
      | _ \<Rightarrow> Inr a)"

definition check_sender :: "base_wallet \<Rightarrow> address_like option \<Rightarrow> unit result" where
  "check_sender w from =
     (case from of
        None \<Rightarrow> Inr ()
      | Some (AStr s) \<Rightarrow>
          bindE (getAddress s) (\<lambda>a. assertArgument (a = bw_address w) ''transaction from address mismatch'')
      | Some _ \<Rightarrow> Inl (JsError NativeTypeError ''address.match is not a function''))"

text \<open>What is signed is a \<open>Transaction\<close> made of the object.\<close>

definition sign_like :: "ed448_lib \<Rightarrow> (byte list \<Rightarrow> byte list) \<Rightarrow> base_wallet \<Rightarrow> tx_like \<Rightarrow> string result" where
  "sign_like ed H w tx =
     bindE (from_like ed H tx) (\<lambda>btx.
     bindE (unsignedSerialized btx) (\<lambda>u.
     bindE (sha256 H (DStr u)) (\<lambda>h.
     bindE (sk_sign ed (bw_key w) (DStr h)) (\<lambda>s.
     bindE (set_signature (Some (DStr s)) btx) serialized))))"

definition signTransaction :: "ed448_lib \<Rightarrow> (byte list \<Rightarrow> byte list) \<Rightarrow> base_wallet \<Rightarrow> transaction_request \<Rightarrow> string result" where
  "signTransaction ed H w tx =
     bindE (awaited (tr_to tx)) (\<lambda>to.
     bindE (awaited (tr_from tx)) (\<lambda>from.
     bindE (check_sender w from) (\<lambda>_.
     bindE (like_of_request (tx\<lparr>tr_to := to, tr_from := None\<rparr>)) (sign_like ed H w))))"

definition signMessage :: "ed448_lib \<Rightarrow> (byte list \<Rightarrow> byte list) \<Rightarrow> base_wallet \<Rightarrow> message \<Rightarrow> string result" where
  "signMessage ed H w m = bindE (hashMessage H m) (\<lambda>h. sk_sign ed (bw_key w) (DStr h))"

section \<open>AbstractSigner\<close>

text \<open>
  The provider of a signer: the count of transactions of an address, the estimate of a
  request, the network and the price of energy, each as they are answered.
\<close>

record signer_provider =
  sp_transactionCount :: "string \<Rightarrow> string \<Rightarrow> int result"
  sp_estimateEnergy :: "transaction_request \<Rightarrow> int result"
  sp_networkId :: "int result"
  sp_energyPrice :: "int option result"

definition checkProvider :: "signer_provider option \<Rightarrow> signer_provider result" where
  "checkProvider p = (case p of None \<Rightarrow> Inl (CoreError UNSUPPORTED_OPERATION ''missing provider'') | Some n \<Rightarrow> Inr n)"

text \<open>\<open>populate\<close>: the sender is the signer, whoever the request names must be that.\<close>

definition populate :: "string \<Rightarrow> transaction_request \<Rightarrow> transaction_request result" where
  "populate address tx =
     bindE (copyRequest tx) (\<lambda>pop.
     bindE (resolve_optional (tr_to pop)) (\<lambda>to.
     bindE (case tr_from pop of
              None \<Rightarrow> Inr ()
            | Some f \<Rightarrow> bindE (resolveAddress f) (\<lambda>from.
                assertArgument (map to_lower address = map to_lower from) ''transaction from mismatch'')) (\<lambda>_.
       Inr (pop\<lparr>tr_to := to, tr_from := Some (AStr address)\<rparr>))))"

definition populateCall :: "string \<Rightarrow> transaction_request \<Rightarrow> transaction_request result" where
  "populateCall address tx = populate address tx"

definition signer_getNonce :: "signer_provider option \<Rightarrow> string \<Rightarrow> string \<Rightarrow> int result" where
  "signer_getNonce p address tag = bindE (checkProvider p) (\<lambda>n. sp_transactionCount n address tag)"

definition signer_estimateEnergy :: "signer_provider option \<Rightarrow> string \<Rightarrow> transaction_request \<Rightarrow> int result" where
  "signer_estimateEnergy p address tx =
     bindE (checkProvider p) (\<lambda>n. bindE (populateCall address tx) (sp_estimateEnergy n))"

definition network_checked :: "int \<Rightarrow> js_data option \<Rightarrow> js_data option result" where
  "network_checked network given =
     (case given of
        None \<Rightarrow> Inr (Some (DBig network))
      | Some d \<Rightarrow> bindE (getBigInt d) (\<lambda>k.
          bindE (assertArgument (k = network) ''transaction networkId mismatch'') (\<lambda>_. Inr (Some d))))"

definition price_checked :: "int option \<Rightarrow> js_data option \<Rightarrow> js_data option result" where
  "price_checked fee given =
     (case fee of
        None \<Rightarrow> Inl (CoreError UNSUPPORTED_OPERATION ''failed to get consistent fee data'')
      | Some n \<Rightarrow> Inr (case given of None \<Rightarrow> Some (DBig n) | Some d \<Rightarrow> Some d))"

definition populateTransaction :: "signer_provider option \<Rightarrow> string \<Rightarrow> transaction_request \<Rightarrow> transaction_request result" where
  "populateTransaction p address tx =
     bindE (checkProvider p) (\<lambda>provider.
     bindE (populate address tx) (\<lambda>pop.
     bindE (case tr_nonce pop of
              Some d \<Rightarrow> Inr (Some d)
            | None \<Rightarrow> mapE (\<lambda>n. Some (DNum (num_of_int n))) (signer_getNonce p address ''pending'')) (\<lambda>nonce.
     let pop = pop\<lparr>tr_nonce := nonce\<rparr>
     in bindE (case tr_energyLimit pop of
                 Some d \<Rightarrow> Inr (Some d)
               | None \<Rightarrow> mapE (\<lambda>n. Some (DBig n)) (signer_estimateEnergy p address pop)) (\<lambda>limit.
        bindE (sp_networkId provider) (\<lambda>network.
        bindE (network_checked network (tr_networkId pop)) (\<lambda>networkId.
        bindE (sp_energyPrice provider) (\<lambda>fee.
        bindE (price_checked fee (tr_energyPrice pop)) (\<lambda>price.
          Inr (pop\<lparr>tr_energyLimit := limit, tr_networkId := networkId, tr_energyPrice := price\<rparr>)))))))))"

text \<open>
  \<open>sendTransaction\<close> of a wallet, up to the text it broadcasts. The \<open>Transaction\<close> made of
  the populated request is what \<open>signTransaction\<close> is given; its sender is unknown.
\<close>

definition signer_send ::
  "ed448_lib \<Rightarrow> (byte list \<Rightarrow> byte list) \<Rightarrow> signer_provider option \<Rightarrow> base_wallet \<Rightarrow> transaction_request \<Rightarrow> string result" where
  "signer_send ed H p w tx =
     bindE (checkProvider p) (\<lambda>_.
     bindE (populateTransaction p (bw_address w) tx) (\<lambda>pop.
     bindE (like_of_request (pop\<lparr>tr_from := None\<rparr>)) (\<lambda>l.
     bindE (from_like ed H l) (\<lambda>txObj. sign_like ed H w (tx_as_like txObj)))))"

section \<open>VoidSigner\<close>

definition void_sign :: "string \<Rightarrow> 'a result" where
  "void_sign what = Inl (CoreError UNSUPPORTED_OPERATION (''VoidSigner cannot sign '' @ what))"

end
