(* ===== verification/Transaction_Props.thy ===== *)
theory Transaction_Props
  imports Transaction
begin

text \<open>
  What transactions promise: fields serialise to canonical items, parsing reads
  them back, and \<open>Transaction.from\<close> of a serialised transaction is the transaction.
\<close>

section \<open>Items of the fields\<close>

definition item :: "byte list \<Rightarrow> string" where
  "item bs = ''0x'' @ hex_of_bytes bs"

lemma hexlify_empty [simp]: "hexlify (DArr []) opts = Inr (item [])"
  by (simp add: hexlify_def hexlify_commas_def bytes_of_jnums_def item_def)

lemma arrayify_item [simp]: "arrayify (DStr (item bs)) no_options = Inr bs"
  using arrayify_getBytes [of "DStr (item bs)"] by (simp add: isBytesLike_def item_def)

lemma hexlify_U8_item: "hexlify (DU8 bs) opts = Inr (item bs)"
  by (simp add: item_def)

lemma stripZeros_U8: "stripZeros (DU8 bs) = Inr (dropWhile (\<lambda>b. b = 0) bs)"
  by (simp add: stripZeros_def arrayify_def)

lemma minimal_strip: "minimal bs \<Longrightarrow> dropWhile (\<lambda>b. b = 0) bs = bs"
  by (cases bs) (simp_all add: minimal_def)

lemma length_bytes_32: "length (bytes_of_nat n) \<le> 32 \<longleftrightarrow> n < 2 ^ 256"
  using length_to_digits_le [of 256 n 32] by (simp add: bytes_of_nat_def)

lemma arrayify_even_hex:
  assumes "0 < n"
  shows "arrayify (DStr (''0x'' @ even_hex n)) no_options = Inr (bytes_of_nat n)"
  using arrayify_getBytes [of "DStr (''0x'' @ even_hex n)"] even_hex_props [of n] parse_even_hex [OF assms]
  by (simp add: isBytesLike_def matches_hex_def getBytes_def matches_data_i_def)

text \<open>A numeric field whose value hexlifies to its digits becomes the minimal big-endian item.\<close>

lemma numeric_field_pos:
  assumes "tx_property tx nm = Some d" and "data_truthy d" and "0 < n"
    and "\<And>opts. hexlify d opts = Inr (''0x'' @ even_hex n)"
  shows "serialize_field tx (numeric_field nm) = Inr h \<longleftrightarrow> n < 2 ^ 256 \<and> h = item (bytes_of_nat n)"
proof -
  define t where "t = ''0x'' @ even_hex n"
  have "arrayify (DStr t) no_options = Inr (bytes_of_nat n)" unfolding t_def by (rule arrayify_even_hex [OF assms(3)])
  moreover have "hexlify d opts = Inr t" for opts using assms(4) by (simp add: t_def)
  ultimately show ?thesis
    using assms(1,2) length_bytes_32 [of n] minimal_strip [OF bytes_of_nat_minimal [of n]]
    by (auto simp: serialize_field_def numeric_field_def stripZeros_U8 hexlify_U8_item logger_init_def simp del: hexlify_bytes)
qed

lemma numeric_field_zero:
  assumes "tx_property tx nm = Some d" and "\<not> data_truthy d"
  shows "serialize_field tx (numeric_field nm) = Inr (item [])"
  using assms by (simp add: serialize_field_def numeric_field_def stripZeros_U8 hexlify_U8_item del: hexlify_bytes)

lemma hexlify_Big: "0 < n \<Longrightarrow> hexlify (DBig n) opts = Inr (''0x'' @ even_hex (nat n))"
  by (simp add: hexlify_def hexlify_commas_def hexlify_bigint_def even_hex_def int_toString_def Let_def)

lemma hexlify_Big_neg: "n < 0 \<Longrightarrow> \<exists>r. hexlify (DBig n) opts = Inr r \<and> \<not> matches_hex r"
  by (auto simp: hexlify_def hexlify_commas_def hexlify_bigint_def int_toString_def Let_def matches_hex_def is_hex_char_not)

lemma throw_not_Inr [simp]: "logger_throwArgumentError logger_init m \<noteq> Inr x"
  by (simp add: logger_init_def)

lemma field_bigint:
  assumes "tx_property tx nm = Some (DBig n)" and "serialize_field tx (numeric_field nm) = Inr h"
  shows "0 \<le> n \<and> n < 2 ^ 256 \<and> h = item (bytes_of_nat (nat n))"
proof -
  consider "n < 0" | "n = 0" | "0 < n" by linarith
  then show ?thesis
  proof cases
    case 1
    obtain r where r: "hexlify (DBig n) (no_options\<lparr>hexPad := Some PadLeft\<rparr>) = Inr r" "\<not> matches_hex r"
      using hexlify_Big_neg [OF 1] by blast
    then have "arrayify (DStr r) no_options = logger_throwArgumentError logger_init ''invalid arrayify value''"
      by (simp add: arrayify_def no_options_def)
    with assms 1 r show ?thesis by (auto simp: serialize_field_def numeric_field_def)
  next
    case 2
    then show ?thesis using numeric_field_zero [OF assms(1)] assms(2) by (simp add: bytes_of_nat_def)
  next
    case 3
    then show ?thesis
      using numeric_field_pos [OF assms(1) _ _ hexlify_Big [OF 3]] assms(2) by (auto simp: nat_less_iff split: if_splits)
  qed
qed

lemma field_bigint_iff:
  assumes "tx_property tx nm = Some (DBig n)"
  shows "serialize_field tx (numeric_field nm) = Inr h \<longleftrightarrow> 0 \<le> n \<and> n < 2 ^ 256 \<and> h = item (bytes_of_nat (nat n))"
proof
  assume r: "0 \<le> n \<and> n < 2 ^ 256 \<and> h = item (bytes_of_nat (nat n))"
  show "serialize_field tx (numeric_field nm) = Inr h"
  proof (cases "n = 0")
    case True
    then show ?thesis using numeric_field_zero [OF assms] r by (simp add: bytes_of_nat_def)
  next
    case False
    with r have "0 < n" by simp
    then show ?thesis using numeric_field_pos [OF assms _ _ hexlify_Big] r by (auto simp: nat_less_iff)
  qed
qed (use field_bigint [OF assms] in blast)

lemma field_nonce_iff:
  assumes "tx_property tx nm = Some (DNum (num_of_int n))"
  shows "serialize_field tx (numeric_field nm) = Inr h \<longleftrightarrow> 0 \<le> n \<and> n < 0x1fffffffffffff \<and> h = item (bytes_of_nat (nat n))"
proof (cases "n = 0")
  case True
  then show ?thesis using numeric_field_zero [OF assms] by (auto simp: bytes_of_nat_def)
next
  case False
  then have t: "data_truthy (DNum (num_of_int n))" by simp
  have hx: "hexlify (DNum (num_of_int n)) opts = hexlify_number (num_of_int n)" for opts
    by (simp add: hexlify_def hexlify_commas_def)
  show ?thesis
  proof (cases "0 \<le> n \<and> n < 0x1fffffffffffff")
    case True
    then have "hexlify (DNum (num_of_int n)) opts = Inr (''0x'' @ even_hex (nat n))" for opts
      unfolding hx by (intro hexlify_number_int) auto
    from numeric_field_pos [OF assms t _ this] show ?thesis using True False by (auto simp: nat_less_iff)
  next
    case out: False
    then have "\<exists>e. hexlify_number (num_of_int n) = Inl e"
      using checkSafeUint53_int [of logger_init n "''invalid hexlify value''"]
      by (cases "checkSafeUint53 logger_init (num_of_int n) ''invalid hexlify value''") (auto simp: hexlify_number_def)
    then show ?thesis using assms t out by (auto simp: serialize_field_def numeric_field_def hx)
  qed
qed

definition valid_to :: "string option \<Rightarrow> bool" where
  "valid_to a \<longleftrightarrow> (case a of None \<Rightarrow> True | Some s \<Rightarrow> \<exists>raw. valid_raw raw \<and> s = ''0x'' @ raw)"

definition to_bytes :: "string option \<Rightarrow> byte list" where
  "to_bytes a = (case a of None \<Rightarrow> [] | Some s \<Rightarrow> parse_pairs (drop 2 s))"

lemma field_to:
  assumes "tx_property tx ''to'' = map_option DStr a" and "valid_to a"
  shows "serialize_field tx to_field = Inr (item (to_bytes a))"
proof (cases a)
  case None
  then show ?thesis using assms(1)
    by (simp add: serialize_field_def to_field_def to_bytes_def hexlify_U8_item del: hexlify_bytes)
next
  case (Some s)
  then obtain raw where raw: "valid_raw raw" "s = ''0x'' @ raw" using assms(2) by (auto simp: valid_to_def)
  then have hx: "list_all is_hex_char raw" "length raw = 44" by (simp_all add: valid_raw_def Let_def)
  then have "hexlify (DStr s) opts = Inr (item (parse_pairs raw))" for opts
    by (simp add: raw(2) hexlify_Str matches_hex_def item_def hex_of_parse_pairs to_lower_def)
  moreover have "length (parse_pairs raw) = 22"
    using arg_cong [OF hex_of_parse_pairs [OF hx(1)], of length] hx(2) by simp
  ultimately show ?thesis
    using assms(1) Some raw(2)
    by (simp add: serialize_field_def to_field_def to_bytes_def hexlify_U8_item del: hexlify_bytes)
qed

lemma field_data:
  assumes "tx_property tx ''data'' = Some (DStr (item d))"
  shows "serialize_field tx data_field = Inr (item d)"
proof -
  have "hexlify (DStr (item d)) opts = Inr (item d)" for opts by (simp add: item_def)
  moreover have "data_truthy (DStr (item d))" by (simp add: item_def)
  ultimately show ?thesis
    using assms by (simp add: serialize_field_def data_field_def hexlify_U8_item del: hexlify_bytes)
qed

section \<open>serialize as a list of items\<close>

definition number_bytes :: "int \<Rightarrow> byte list" where
  "number_bytes n = bytes_of_nat (nat n)"

definition tx_items :: "int \<Rightarrow> int \<Rightarrow> int \<Rightarrow> int \<Rightarrow> string option \<Rightarrow> int \<Rightarrow> byte list \<Rightarrow> byte list option \<Rightarrow> byte list list" where
  "tx_items n p l i a v d sg =
     (case sg of
        None \<Rightarrow> [number_bytes n, number_bytes p, number_bytes l, to_bytes a, number_bytes v, d, number_bytes i]
      | Some s \<Rightarrow> [number_bytes n, number_bytes p, number_bytes l, number_bytes i, to_bytes a, number_bytes v, d, s])"

definition tx_bounds :: "int \<Rightarrow> int \<Rightarrow> int \<Rightarrow> int \<Rightarrow> int \<Rightarrow> bool" where
  "tx_bounds n p l i v \<longleftrightarrow> 0 \<le> n \<and> n < 0x1fffffffffffff \<and> 0 \<le> p \<and> p < 2 ^ 256 \<and> 0 \<le> l \<and> l < 2 ^ 256 \<and>
     0 \<le> i \<and> i < 2 ^ 256 \<and> 0 \<le> v \<and> v < 2 ^ 256"

text \<open>An object whose properties are such numbers, a valid address or none, and data.\<close>

definition tx_fields :: "tx_like \<Rightarrow> int \<Rightarrow> int \<Rightarrow> int \<Rightarrow> int \<Rightarrow> string option \<Rightarrow> int \<Rightarrow> byte list \<Rightarrow> bool" where
  "tx_fields tx n p l i a v d \<longleftrightarrow>
     set (l_keys tx) \<subseteq> set allowedTransactionKeys \<and> l_nonce tx = Some (DNum (num_of_int n)) \<and>
     l_energyPrice tx = Some (DBig p) \<and> l_energyLimit tx = Some (DBig l) \<and> l_networkId tx = Some (DBig i) \<and>
     l_to tx = a \<and> valid_to a \<and> l_value tx = Some (DBig v) \<and> l_data tx = Some (DStr (item d))"

lemma checkProperties_ok: "checkProperties ks ps = Inr () \<longleftrightarrow> set ks \<subseteq> set ps"
  by (induction ks) (auto simp: logger_init_def)

lemma serialize_iff:
  assumes "tx_fields tx n p l i a v d"
  shows "serialize tx (map_option (\<lambda>s. DStr (item s)) sg) = Inr raw \<longleftrightarrow>
    tx_bounds n p l i v \<and> crypto_encode (RArr (map (\<lambda>bs. RItem (DStr (item bs))) (tx_items n p l i a v d sg))) = Inr raw"
proof -
  have props: "tx_property tx ''nonce'' = Some (DNum (num_of_int n))" "tx_property tx ''energyPrice'' = Some (DBig p)"
    "tx_property tx ''energyLimit'' = Some (DBig l)" "tx_property tx ''networkId'' = Some (DBig i)"
    "tx_property tx ''to'' = map_option DStr a" "tx_property tx ''value'' = Some (DBig v)"
    "tx_property tx ''data'' = Some (DStr (item d))"
    using assms by (simp_all add: tx_fields_def tx_property_def)
  note fields = field_nonce_iff [OF props(1)] field_bigint_iff [OF props(2)] field_bigint_iff [OF props(3)]
    field_bigint_iff [OF props(4)] field_bigint_iff [OF props(6)] field_data [OF props(7)]
  have to: "serialize_field tx to_field = Inr (item (to_bytes a))"
    using field_to [OF props(5)] assms by (simp add: tx_fields_def)
  have keys: "checkProperties (l_keys tx) allowedTransactionKeys = Inr ()"
    using assms by (simp add: checkProperties_ok tx_fields_def)
  show ?thesis
  proof (cases sg)
    case None
    have "mapM (serialize_field tx) unsignedTransactionFields = Inr hs \<longleftrightarrow>
        tx_bounds n p l i v \<and> hs = map item (tx_items n p l i a v d None)" for hs
      by (auto simp: unsignedTransactionFields_def fields to tx_bounds_def tx_items_def number_bytes_def)
    then show ?thesis using keys None by (auto simp: serialize_def comp_def)
  next
    case (Some s)
    have h: "hexlify (DStr (item s)) no_options = Inr (item s)" "data_truthy (DStr (item s))" by (simp_all add: item_def)
    have "mapM (serialize_field tx) transactionFields = Inr hs \<longleftrightarrow>
        tx_bounds n p l i v \<and> hs = map item (butlast (tx_items n p l i a v d (Some s)))" for hs
      by (auto simp: transactionFields_def fields to tx_bounds_def tx_items_def number_bytes_def)
    moreover have "tx_items n p l i a v d (Some s) = butlast (tx_items n p l i a v d (Some s)) @ [s]"
      by (simp add: tx_items_def)
    then have "map (\<lambda>bs. RItem (DStr (item bs))) (tx_items n p l i a v d (Some s)) =
        map (\<lambda>h. RItem (DStr h)) (map item (butlast (tx_items n p l i a v d (Some s))) @ [item s])"
      by (metis (no_types, lifting) comp_apply list.map(1,2) map_append map_eq_conv map_map)
    ultimately show ?thesis using keys Some h by (auto simp: serialize_def comp_def)
  qed
qed

section \<open>Reading the items back\<close>

lemma decode_items:
  assumes "crypto_encode (RArr (map (\<lambda>bs. RItem (DStr (item bs))) its)) = Inr raw" and "length raw < 2 ^ 31"
  shows "\<exists>e. raw = item e \<and> crypto_decode (DU8 e) = Inr (RArr (map (\<lambda>bs. RItem (DStr (item bs))) its))"
proof -
  define x where "x = RArr (map (\<lambda>bs. RItem (DStr (item bs))) its)"
  have leaves: "bytesLike_leaves x" by (simp add: x_def list_all_iff isBytesLike_def item_def)
  obtain e where e: "rlp_encode x = Inr e" "raw = item e"
    using assms(1) unfolding x_def [symmetric] crypto_encode_def crypto_rlp_encode_eq(1) [OF leaves]
    by (auto simp: hexlify_DArr_bytes item_def simp del: of_int_uint)
  have "rlp_canon x = x" by (simp add: x_def item_def)
  moreover have "length e < 2 ^ 31" using assms(2) e(2) by (simp add: item_def)
  ultimately have "decodeRlp (DU8 e) = Inr x" using decodeRlp_bytes [OF e(1)] by simp
  then have "crypto_decode (DU8 e) = Inr x"
    by (auto simp: crypto_decode_def decodeRlp_def arrayify_def crypto_decode_iff
        split: prod.splits if_splits simp del: rlp_decode.simps crypto_rlp_decode.simps)
  with e(2) show ?thesis unfolding x_def by blast
qed

lemma number_back:
  assumes "bn_strings_ok lib val" and "0 \<le> n"
  shows "\<exists>h. handleNumber lib (RItem (DStr (item (number_bytes n)))) = Inr h \<and>
    BigNumber_toBigInt lib h = Inr n \<and> BigNumber_toString lib h = Inr (int_toString 10 n)"
proof (cases "n = 0")
  case True
  have "denotes (BData (DBig 0)) = Some 0" by simp
  moreover have "BigNumber_from lib (BData (DNum (Fin 0))) = BigNumber_from lib (BData (DBig 0))"
    by (simp add: BigNumber_from_def BigNumber_from_number_def MAX_SAFE_def rat_is_int_def)
  ultimately show ?thesis
    using BigNumber_reads [OF assms(1), of "BData (DBig 0)" 0] True
    by (auto simp: handleNumber_def item_def number_bytes_def bytes_of_nat_def)
next
  case False
  then have "bytes_value (bytes_of_nat (nat n)) \<noteq> 0" using assms(2) bytes_value_bytes_of_nat [of "nat n"] by simp
  then have nb: "bytes_of_nat (nat n) \<noteq> []" by (auto simp: bytes_value_def)
  then have ne: "hex_of_bytes (number_bytes n) \<noteq> []"
    using length_hex_of_bytes [of "bytes_of_nat (nat n)"] by (auto simp: number_bytes_def simp del: length_hex_of_bytes)
  have "hex_int (item (number_bytes n)) = Some n"
    using nb assms(2) by (simp add: hex_int_def Let_def unsign_def signed_def hex_nat_def item_def
        hexvals_hex_of_bytes number_bytes_def)
  then have "denotes (BData (DStr (item (number_bytes n)))) = Some n" by (simp add: denotes_string_def)
  from BigNumber_reads [OF assms(1) this] ne show ?thesis by (auto simp: handleNumber_def item_def)
qed

lemma js_Number_nat:
  assumes "0 \<le> n" and "n < 2 ^ 53"
  shows "js_Number (int_toString 10 n) = num_of_int n"
proof -
  define r where "r = nat_toString 10 (nat n)"
  have dg: "list_all is_digit10 r"
    using digit10_char to_digits_less [of _ 10 "nat n"]
    by (auto simp: r_def nat_toString_alt list_all_iff digit10_code [of "CHR ''0''"])
  have ne: "r \<noteq> []" by (simp add: r_def)
  obtain c q where r: "r = c # q" using ne by (cases r) auto
  have "last r \<in> set r" using ne by simp
  then have t: "\<not> is_js_space (last r)" "\<not> is_js_space (hd r)"
    using dg r digit10_not_space by (auto simp: list_all_iff)
  have "radix_prefix r = None"
    using dg not_digit10 by (cases r rule: radix_prefix.cases) (auto simp: list_all_iff)
  moreover have "c \<noteq> CHR ''-''" "c \<noteq> CHR ''+''" "c \<noteq> CHR ''I''" using dg r not_digit10 by (auto simp: digit10_code)
  moreover have tw: "takeWhile is_digit10 r = r" "dropWhile is_digit10 r = []"
    using dg by (simp_all add: list_all_iff takeWhile_eq_all_conv dropWhile_eq_Nil_conv)
  then have "parse_unsigned_decimal r = Some (of_nat (nat n))"
    using ne dec_value_toString [of "nat n", folded r_def]
    by (simp add: parse_unsigned_decimal_def parse_exponent_def Let_def tw)
  moreover have "to_double (of_nat (nat n)) = num_of_int n"
    using assms to_double_exact [of "nat n"] by (simp add: nat_less_iff)
  ultimately have "js_Number r = num_of_int n"
    using js_trim_id [OF ne t(2,1)] r by (auto simp: js_Number_def js_Number_unsigned_def Let_def)
  then show ?thesis using assms(1) by (simp add: int_toString_def r_def)
qed

section \<open>Addresses read back\<close>

definition lower_to :: "string option \<Rightarrow> string option" where
  "lower_to a = map_option (map to_lower) a"

lemma parse_pairs_lower: "list_all is_hex_char r \<Longrightarrow> even (length r) \<Longrightarrow> parse_pairs (map to_lower r) = parse_pairs r"
  using parse_pairs_hex [of "parse_pairs r"] by (simp add: hex_of_parse_pairs)

lemma to_cases:
  assumes "valid_to a"
  obtains "a = None" | raw where "valid_raw raw" "a = Some (''0x'' @ raw)" "lower_to a = Some (''0x'' @ map to_lower raw)"
    "valid_raw (map to_lower raw)" "list_all is_hex_char raw" "length raw = 44"
proof (cases a)
  case (Some s)
  then obtain raw where raw: "valid_raw raw" "s = ''0x'' @ raw" using assms by (auto simp: valid_to_def)
  then have "list_all is_hex_char raw" "length raw = 44" by (simp_all add: valid_raw_def Let_def)
  then show thesis using that(2) raw Some valid_raw_lower [OF raw(1)] by (simp add: lower_to_def to_lower_def)
qed (use that in simp)

lemma valid_to_lower: "valid_to a \<Longrightarrow> valid_to (lower_to a)"
  by (erule to_cases) (auto simp: valid_to_def lower_to_def)

lemma to_bytes_lower: "valid_to a \<Longrightarrow> to_bytes (lower_to a) = to_bytes a"
  by (erule to_cases) (simp_all add: to_bytes_def lower_to_def parse_pairs_lower)

lemma address_back: "valid_to a \<Longrightarrow> handleAddress (RItem (DStr (item (to_bytes a)))) = Inr (lower_to a)"
proof (erule to_cases)
  fix raw assume raw: "a = Some (''0x'' @ raw)" "lower_to a = Some (''0x'' @ map to_lower raw)"
    "valid_raw (map to_lower raw)" "list_all is_hex_char raw" "length raw = 44"
  then have "item (to_bytes a) = ''0x'' @ map to_lower raw" by (simp add: item_def to_bytes_def hex_of_parse_pairs)
  moreover have "map to_lower raw \<noteq> []" using raw(5) by auto
  ultimately show ?thesis using raw(2,3) getAddress_iff [of "map to_lower raw"] by (simp add: handleAddress_def)
qed (simp add: handleAddress_def item_def to_bytes_def lower_to_def)

section \<open>Parsing what was serialised\<close>

definition parsed_like :: "int \<Rightarrow> int \<Rightarrow> int \<Rightarrow> int \<Rightarrow> string option \<Rightarrow> int \<Rightarrow> byte list \<Rightarrow> tx_like" where
  "parsed_like n p l i a v d =
     \<lparr>l_keys = [''nonce'', ''energyPrice'', ''energyLimit'', ''networkId'', ''to'', ''value'', ''data''],
      l_to = lower_to a, l_from = None, l_nonce = Some (DNum (num_of_int n)),
      l_energyLimit = Some (DBig l), l_energyPrice = Some (DBig p),
      l_data = Some (DStr (item d)), l_value = Some (DBig v),
      l_networkId = Some (DBig i), l_hash = None, l_signature = None\<rparr>"

lemma parsed_fields: "valid_to a \<Longrightarrow> tx_fields (parsed_like n p l i a v d) n p l i (lower_to a) v d"
  using valid_to_lower by (simp add: tx_fields_def parsed_like_def allowedTransactionKeys_def)

lemma items_lower: "valid_to a \<Longrightarrow> tx_items n p l i (lower_to a) v d sg = tx_items n p l i a v d sg"
  by (simp add: tx_items_def to_bytes_lower split: option.split)

lemma bigint_back:
  "bn_strings_ok lib val \<Longrightarrow> 0 \<le> n \<Longrightarrow> handle_bigint lib (RItem (DStr (item (number_bytes n)))) = Inr n"
  using number_back [of lib val n] by (auto simp: handle_bigint_def)

lemma nonce_back:
  assumes "bn_strings_ok lib val" "0 \<le> n" "n < 2 ^ 53"
  obtains s where "bindE (handleNumber lib (RItem (DStr (item (number_bytes n))))) (BigNumber_toString lib) = Inr s"
    "js_Number s = num_of_int n"
  using number_back [OF assms(1,2)] js_Number_nat [OF assms(2,3)] by auto

lemma parse_unsigned:
  assumes "bn_strings_ok lib val" and "tx_bounds n p l i v" and "valid_to a"
    and "crypto_decode (DU8 e) = Inr (RArr (map (\<lambda>bs. RItem (DStr (item bs))) (tx_items n p l i a v d None)))"
  shows "parse lib ed H (DU8 e) = Inr (parsed_like n p l i a v d)"
proof -
  have b: "0 \<le> n" "n < 2 ^ 53" "0 \<le> p" "0 \<le> l" "0 \<le> i" "0 \<le> v" using assms(2) by (auto simp: tx_bounds_def)
  obtain s where s: "bindE (handleNumber lib (RItem (DStr (item (number_bytes n))))) (BigNumber_toString lib) = Inr s"
    "js_Number s = num_of_int n" using nonce_back [OF assms(1) b(1,2)] by blast
  note rback = bigint_back [OF assms(1) b(3)] bigint_back [OF assms(1) b(4)] bigint_back [OF assms(1) b(5)]
    bigint_back [OF assms(1) b(6)] address_back [OF assms(3)]
  show ?thesis
    by (simp add: parse_def assms(4) tr_length_def tr_index_def tx_items_def s rback parsed_like_def data_of_rlp_def
        del: bindE_eq_Inr)
qed

lemma parse_signed:
  assumes "bn_strings_ok lib val" and "tx_bounds n p l i v" and "valid_to a"
    and "crypto_decode (DU8 e) = Inr (RArr (map (\<lambda>bs. RItem (DStr (item bs))) (tx_items n p l i a v d (Some sg))))"
    and "crypto_encode (RArr (map (\<lambda>bs. RItem (DStr (item bs))) (tx_items n p l i a v d (Some sg)))) = Inr (item e)"
    and "crypto_encode (RArr (map (\<lambda>bs. RItem (DStr (item bs))) (tx_items n p l i a v d None))) = Inr (item eu)"
    and "networkIdToPrefix (to_double (of_int i)) = Inr pre"
    and "recoverAddress ed H (DStr (item (H eu))) (DStr (item sg)) pre = Inr f"
  shows "parse lib ed H (DU8 e) = Inr ((parsed_like n p l i a v d)\<lparr>
      l_keys := l_keys (parsed_like n p l i a v d) @ [''hash'', ''from'', ''signature''],
      l_hash := Some (item (H e)), l_from := Some f, l_signature := Some (DStr (item sg))\<rparr>)"
proof -
  have b: "0 \<le> n" "n < 2 ^ 53" "0 \<le> p" "0 \<le> l" "0 \<le> i" "0 \<le> v" using assms(2) by (auto simp: tx_bounds_def)
  obtain s where s: "bindE (handleNumber lib (RItem (DStr (item (number_bytes n))))) (BigNumber_toString lib) = Inr s"
    "js_Number s = num_of_int n" using nonce_back [OF assms(1) b(1,2)] by blast
  note rback = bigint_back [OF assms(1) b(3)] bigint_back [OF assms(1) b(4)] bigint_back [OF assms(1) b(5)]
    bigint_back [OF assms(1) b(6)] address_back [OF assms(3)]
  define P where "P = parsed_like n p l i a v d"
  have "tx_fields P n p l i (lower_to a) v d" using parsed_fields [OF assms(3)] by (simp add: P_def)
  note ser = serialize_iff [OF this, unfolded items_lower [OF assms(3)]]
  have ser_u: "serialize P None = Inr (item eu)" using ser [where sg = None] assms(2,6) by simp
  have ser_s: "serialize P (Some (DStr (item sg))) = Inr (item e)" using ser [where sg = "Some sg"] assms(2,5) by simp
  have sha: "sha256 H (DStr (item x)) = Inr (item (H x))" for x by (simp add: sha256_def item_def)
  show ?thesis
    by (simp add: parse_def assms(4) tr_length_def tr_index_def tx_items_def s rback data_of_rlp_def assms(7)
        parsed_like_def [symmetric] P_def [symmetric] ser_u ser_s sha assms(8) del: bindE_eq_Inr)
       (simp add: P_def parsed_like_def)
qed

section \<open>What setters keep\<close>

text \<open>A transaction whose address is valid, whose data are bytes, whose nonce is a safe integer.\<close>

definition tx_typed :: "transaction \<Rightarrow> bool" where
  "tx_typed t \<longleftrightarrow> valid_to (tx_to t) \<and> (\<exists>d. tx_data t = item d) \<and> safe_range (tx_nonce t)"

text \<open>What \<open>data\<close> may be set to: a string or bytes, as its type says, or an array.\<close>

definition bytes_like_type :: "js_data \<Rightarrow> bool" where
  "bytes_like_type d \<longleftrightarrow> (case d of DStr _ \<Rightarrow> True | DU8 _ \<Rightarrow> True | DArr _ \<Rightarrow> True | _ \<Rightarrow> False)"

inductive tx_made :: "ed448_lib \<Rightarrow> (byte list \<Rightarrow> byte list) \<Rightarrow> transaction \<Rightarrow> bool" for ed H where
  made_new: "tx_made ed H new_transaction"
| made_from: "pred_option bytes_like_type (l_data l) \<Longrightarrow> from_like ed H l = Inr t \<Longrightarrow> tx_made ed H t"
| made_to: "tx_made ed H t \<Longrightarrow> set_to v t = Inr t' \<Longrightarrow> tx_made ed H t'"
| made_nonce: "tx_made ed H t \<Longrightarrow> set_nonce d t = Inr t' \<Longrightarrow> tx_made ed H t'"
| made_energyLimit: "tx_made ed H t \<Longrightarrow> set_energyLimit d t = Inr t' \<Longrightarrow> tx_made ed H t'"
| made_energyPrice: "tx_made ed H t \<Longrightarrow> set_energyPrice w t = Inr t' \<Longrightarrow> tx_made ed H t'"
| made_data: "tx_made ed H t \<Longrightarrow> bytes_like_type d \<Longrightarrow> set_data d t = Inr t' \<Longrightarrow> tx_made ed H t'"
| made_value: "tx_made ed H t \<Longrightarrow> set_value d t = Inr t' \<Longrightarrow> tx_made ed H t'"
| made_networkId: "tx_made ed H t \<Longrightarrow> set_networkId d t = Inr t' \<Longrightarrow> tx_made ed H t'"
| made_signature: "tx_made ed H t \<Longrightarrow> set_signature w t = Inr t' \<Longrightarrow> tx_made ed H t'"

named_theorems setter_types

lemma typed_new [setter_types]: "tx_typed new_transaction"
  by (simp add: tx_typed_def new_transaction_def valid_to_def item_def safe_range_def maxValue_def)
     (rule exI [of _ "[]"], simp)

lemma typed_to [setter_types]: "tx_typed t \<Longrightarrow> set_to v t = Inr t' \<Longrightarrow> tx_typed t'"
  by (auto simp: tx_typed_def set_to_def valid_to_def split: option.splits elim!: getAddress_valid)

lemma getNumber_safe: "getNumber d = Inr n \<Longrightarrow> safe_range n"
  by (cases d) (auto simp: getNumber_bigint_def checked_number_def split: jnum.splits option.splits if_splits sum.splits)

lemma typed_nonce [setter_types]: "tx_typed t \<Longrightarrow> set_nonce d t = Inr t' \<Longrightarrow> tx_typed t'"
  by (auto simp: tx_typed_def set_nonce_def intro: getNumber_safe)

lemma typed_numbers [setter_types]:
  "tx_typed t \<Longrightarrow> set_energyLimit d t = Inr t' \<Longrightarrow> tx_typed t'"
  "tx_typed t \<Longrightarrow> set_energyPrice w t = Inr t' \<Longrightarrow> tx_typed t'"
  "tx_typed t \<Longrightarrow> set_value d t = Inr t' \<Longrightarrow> tx_typed t'"
  "tx_typed t \<Longrightarrow> set_networkId d t = Inr t' \<Longrightarrow> tx_typed t'"
  "tx_typed t \<Longrightarrow> set_signature w t = Inr t' \<Longrightarrow> tx_typed t'"
  by (auto simp: tx_typed_def set_energyLimit_def set_energyPrice_def set_value_def set_networkId_def set_signature_def
      split: option.splits)

lemma hexlify_typed:
  assumes "bytes_like_type d" and "hexlify d no_options = Inr h"
  shows "\<exists>bs. h = item bs"
proof (cases "\<exists>bs. hexlify_commas d = DU8 bs")
  case True
  then show ?thesis using assms(2) by (auto simp: hexlify_def item_def)
next
  case False
  show ?thesis
  proof (cases d)
    case (DStr s)
    then have "hexlify_string s no_options = Inr h"
      using False assms(2) by (auto simp: hexlify_def hexlify_commas_def no_options_def split: if_splits)
    then have m: "matches_hex s" "even (length s)" "h = map to_lower s"
      by (auto simp: hexlify_string_def no_options_def logger_init_def split: if_splits)
    then obtain r where r: "s = CHR ''0'' # CHR ''x'' # r" "list_all is_hex_char r" by (auto simp: matches_hex_iff)
    then have "h = item (parse_pairs r)" using m(2,3) by (simp add: item_def hex_of_parse_pairs to_lower_def)
    then show ?thesis by blast
  next
    case (DArr vs)
    then show ?thesis using assms(2) by (auto simp: hexlify_def hexlify_commas_def item_def logger_init_def split: if_splits)
  qed (use assms False in \<open>auto simp: bytes_like_type_def hexlify_commas_def\<close>)
qed

lemma typed_data [setter_types]: "tx_typed t \<Longrightarrow> bytes_like_type d \<Longrightarrow> set_data d t = Inr t' \<Longrightarrow> tx_typed t'"
  by (auto simp: tx_typed_def set_data_def dest!: hexlify_typed)

lemma when_some_keeps:
  "tx_typed s \<Longrightarrow> when_some m f s = Inr s' \<Longrightarrow> (\<And>x. tx_typed s \<Longrightarrow> m = Some x \<Longrightarrow> f x s = Inr s' \<Longrightarrow> tx_typed s') \<Longrightarrow> tx_typed s'"
  by (auto simp: when_some_def split: option.splits)

lemma typed_from:
  assumes "pred_option bytes_like_type (l_data l)" and "from_like ed H l = Inr t"
  shows "tx_typed t"
proof -
  define check_hash where "check_hash = (\<lambda>h r.
              bindE (assertArgument (isSigned r) ''unsigned transaction cannot define hash'') (\<lambda>_.
              bindE (tx_hash H r) (\<lambda>rh. bindE (assertArgument (rh = Some h) ''hash mismatch'') (\<lambda>_. Inr r))))"
  define check_from where "check_from = (\<lambda>f r.
              bindE (assertArgument (isSigned r) ''unsigned transaction cannot define from'') (\<lambda>_.
              bindE (tx_from ed H r) (\<lambda>rf.
              bindE (assertArgument (map to_lower (the rf) = map to_lower f) ''from mismatch'') (\<lambda>_. Inr r))))"
  have ch: "check_hash h r = Inr r' \<Longrightarrow> r' = r" and cf: "check_from f r = Inr r' \<Longrightarrow> r' = r" for h f r r'
    by (auto simp: check_hash_def check_from_def)
  obtain t1 t2 t3 t4 t5 t6 t7 t8 t9 where t:
    "when_some (l_to l) (\<lambda>a. set_to (Some a)) new_transaction = Inr t1"
    "when_some (l_nonce l) set_nonce t1 = Inr t2" "when_some (l_energyLimit l) set_energyLimit t2 = Inr t3"
    "when_some (l_energyPrice l) (\<lambda>v. set_energyPrice (Some v)) t3 = Inr t4" "when_some (l_data l) set_data t4 = Inr t5"
    "when_some (l_value l) set_value t5 = Inr t6" "when_some (l_networkId l) set_networkId t6 = Inr t7"
    "when_some (l_signature l) (\<lambda>v. set_signature (Some v)) t7 = Inr t8"
    "when_some (l_hash l) check_hash t8 = Inr t9" "when_some (l_from l) check_from t9 = Inr t"
    using assms(2) unfolding from_like_def check_hash_def [symmetric] check_from_def [symmetric] by auto
  have "tx_typed t1" by (rule when_some_keeps [OF typed_new t(1)]) (rule typed_to)
  then have "tx_typed t2" by (rule when_some_keeps [OF _ t(2)]) (rule typed_nonce)
  then have "tx_typed t3" by (rule when_some_keeps [OF _ t(3)]) (rule typed_numbers)
  then have "tx_typed t4" by (rule when_some_keeps [OF _ t(4)]) (rule typed_numbers)
  then have "tx_typed t5"
    by (rule when_some_keeps [OF _ t(5)]) (rule typed_data, use assms(1) in simp_all)
  then have "tx_typed t6" by (rule when_some_keeps [OF _ t(6)]) (rule typed_numbers)
  then have "tx_typed t7" by (rule when_some_keeps [OF _ t(7)]) (rule typed_numbers)
  then have "tx_typed t8" by (rule when_some_keeps [OF _ t(8)]) (rule typed_numbers)
  then have "tx_typed t9" by (rule when_some_keeps [OF _ t(9)]) (drule ch, simp)
  then show ?thesis by (rule when_some_keeps [OF _ t(10)]) (drule cf, simp)
qed

section \<open>Properties\<close>

lemma made_typed: "tx_made ed H t \<Longrightarrow> tx_typed t"
  by (induction rule: tx_made.induct) (auto intro: setter_types typed_from)

text \<open>
  C12. Types of a transaction's fields are kept by construction: every \<open>Transaction\<close>
  made by the constructor, \<open>from\<close> and the setters has a valid address or none, whole
  bytes in lower-case hexadecimal as data and a safe integer as nonce.
\<close>

theorem transaction_typed:
  assumes "tx_made ed H t"
  shows "(case tx_to t of None \<Rightarrow> True | Some a \<Rightarrow> getAddress a = Inr a) \<and>
    (\<exists>d. tx_data t = ''0x'' @ hex_of_bytes d) \<and> safe_range (tx_nonce t)"
proof -
  have "tx_typed t" by (rule made_typed [OF assms])
  then show ?thesis
    by (auto simp: tx_typed_def valid_to_def item_def getAddress_iff [simplified] split: option.splits)
qed

text \<open>A made transaction as \<open>serialize\<close> sees it, and as it comes back.\<close>

lemma made_fields:
  assumes "tx_typed t"
  obtains d where "tx_data t = item d"
    "tx_fields (tx_as_like t) (tx_nonce t) (get_energyPrice t) (tx_energyLimit t) (tx_networkId t) (tx_to t) (tx_value t) d"
  using assms by (auto simp: tx_typed_def tx_fields_def tx_as_like_def)

definition canonical_tx :: "transaction \<Rightarrow> transaction" where
  "canonical_tx t = t\<lparr>tx_to := lower_to (tx_to t), tx_energyPrice := Some (get_energyPrice t)\<rparr>"

lemma typed_canonical: "tx_typed t \<Longrightarrow> tx_typed (canonical_tx t)"
  using valid_to_lower by (simp add: tx_typed_def canonical_tx_def)

lemma from_fields:
  assumes "valid_to a" and "tx_bounds n p l i v"
  shows "from_like ed H ((parsed_like n p l i a v d)\<lparr>l_keys := ks, l_hash := h, l_from := f, l_signature := sg\<rparr>) =
    (let r = \<lparr>tx_to = lower_to a, tx_data = item d, tx_nonce = n, tx_energyLimit = l, tx_energyPrice = Some p, tx_value = v,
              tx_networkId = i, tx_sig = sg\<rparr>
     in bindE (when_some h (\<lambda>h r.
              bindE (assertArgument (isSigned r) ''unsigned transaction cannot define hash'') (\<lambda>_.
              bindE (tx_hash H r) (\<lambda>rh. bindE (assertArgument (rh = Some h) ''hash mismatch'') (\<lambda>_. Inr r)))) r) (\<lambda>r.
        when_some f (\<lambda>f r.
              bindE (assertArgument (isSigned r) ''unsigned transaction cannot define from'') (\<lambda>_.
              bindE (tx_from ed H r) (\<lambda>rf.
              bindE (assertArgument (map to_lower (the rf) = map to_lower f) ''from mismatch'') (\<lambda>_. Inr r)))) r))"
proof -
  have n: "checked_number (num_of_int n) = Inr n"
    using assms(2) checked_number_int [of n]
    by (simp add: getNumber_bigint_def tx_bounds_def safe_range_def maxValue_def)
  have d: "hexlify (DStr (item d)) no_options = Inr (item d)" by (simp add: item_def)
  have to: "when_some (lower_to a) (\<lambda>a. set_to (Some a)) new_transaction = Inr (new_transaction\<lparr>tx_to := lower_to a\<rparr>)"
    using assms(1)
  proof (rule to_cases)
    fix raw assume "lower_to a = Some (''0x'' @ map to_lower raw)" "valid_raw (map to_lower raw)"
    then show ?thesis using getAddress_iff [of "map to_lower raw"] by (simp add: when_some_def set_to_def)
  qed (simp add: when_some_def lower_to_def new_transaction_def)
  have sg: "when_some sg (\<lambda>v. set_signature (Some v)) r = Inr (case sg of None \<Rightarrow> r | Some w \<Rightarrow> r\<lparr>tx_sig := Some w\<rparr>)" for r
    by (simp add: when_some_def set_signature_def split: option.split)
  show ?thesis
    by (simp add: from_like_def parsed_like_def to when_some_def [of "Some x" for x] set_nonce_def n set_energyLimit_def
        set_energyPrice_def set_data_def d set_value_def set_networkId_def sg)
       (simp add: new_transaction_def split: option.split)
qed

lemma sha_item: "sha256 H (DStr (item x)) = Inr (item (H x))"
  by (simp add: sha256_def item_def)

lemma canonical_fields:
  assumes "tx_typed t" and "tx_data t = item d"
  shows "tx_fields (tx_as_like (canonical_tx t)) (tx_nonce t) (get_energyPrice t) (tx_energyLimit t) (tx_networkId t)
    (lower_to (tx_to t)) (tx_value t) d"
  using assms valid_to_lower [of "tx_to t"]
  by (simp add: tx_typed_def tx_fields_def tx_as_like_def canonical_tx_def get_energyPrice_def)

lemma sign_spec_item:
  assumes "ed448_ok ed" and "new_SigningKey pk = Inr key" and "length d = 32"
  obtains sg pub where "sk_sign ed key (DStr (item d)) = Inr (item sg)" "length sg = 171"
    "computePublicKey ed (DStr key) = Inr (item pub)"
    "\<And>H pre. recoverAddress ed H (DStr (item d)) (DStr (item sg)) pre = publicToAddress H (DStr (item pub)) pre"
proof -
  obtain k where k: "length k = 57" "key = ''0x'' @ hex_of_bytes k" using assms(2) by (rule new_SigningKey_bytes)
  have dg: "isBytesLike (DStr (item d))" "getBytes (DStr (item d)) = Inr d" by (simp_all add: isBytesLike_def item_def)
  obtain sig pub where ps: "sk_sign ed key (DStr (item d)) = Inr (item (sig @ pub))" "length sig = 114" "length pub = 57"
    "ed448_verify ed d sig pub" "computePublicKey ed (DStr key) = Inr (item pub)"
    using sk_sign_spec [OF assms(1) k(1) assms(3) dg] unfolding k(2) item_def by blast
  have "dataLength (DU8 d) = Inr 32" "arrayify (DU8 d) no_options = Inr d"
    using assms(3) by (simp_all add: dataLength_def arrayify_def)
  then have "recoverPublicKey ed (DU8 d) (DStr (item (sig @ pub))) = Inr (item pub)"
    using ps(2-4) assms(3) by (simp add: recoverPublicKey_def assertArgument_def hexlify_U8_item del: hexlify_bytes)
  then have "recoverAddress ed H (DStr (item d)) (DStr (item (sig @ pub))) pre = publicToAddress H (DStr (item pub)) pre" for H pre
    by (simp add: recoverAddress_def)
  with ps show thesis by (intro that [of "sig @ pub" pub]) simp_all
qed

lemma unsigned_sig [simp]: "unsignedHash H (t\<lparr>tx_sig := s\<rparr>) = unsignedHash H t"
proof -
  have "tx_property (tx_as_like (t\<lparr>tx_sig := s\<rparr>)) nm = tx_property (tx_as_like t) nm" for nm
    by (simp add: tx_property_def tx_as_like_def get_energyPrice_def)
  then have "serialize_field (tx_as_like (t\<lparr>tx_sig := s\<rparr>)) = serialize_field (tx_as_like t)"
    by (intro ext) (simp add: serialize_field_def)
  moreover have "l_keys (tx_as_like (t\<lparr>tx_sig := s\<rparr>)) = l_keys (tx_as_like t)" by (simp add: tx_as_like_def)
  ultimately show ?thesis by (simp add: unsignedHash_def unsignedSerialized_def serialize_def)
qed

lemma signed_by_key:
  assumes "ed448_ok ed" and "\<And>x. length (H x) = 32" and "new_SigningKey pk = Inr key"
    and "unsignedHash H t = Inr h" and "networkIdToPrefix (to_double (of_int (tx_networkId t))) = Inr pre"
  shows "\<exists>s. sk_sign ed key (DStr h) = Inr s \<and>
    tx_from ed H (t\<lparr>tx_sig := Some (DStr s)\<rparr>) = mapE Some (computeAddress_key ed H key pre)"
proof -
  obtain u where "sha256 H (DStr u) = Inr h" using assms(4) by (auto simp: unsignedHash_def)
  then obtain x where h: "h = item (H x)" by (auto simp: sha256_def item_def)
  obtain sg pub where sp: "sk_sign ed key (DStr h) = Inr (item sg)" "computePublicKey ed (DStr key) = Inr (item pub)"
    "\<And>H pre. recoverAddress ed H (DStr h) (DStr (item sg)) pre = publicToAddress H (DStr (item pub)) pre"
    using sign_spec_item [OF assms(1,3) assms(2)] unfolding h by metis
  have "tx_from ed H (t\<lparr>tx_sig := Some (DStr (item sg))\<rparr>) = mapE Some (publicToAddress H (DStr (item pub)) pre)"
    using assms(4,5) sp(3) by (simp add: tx_from_def get_signature_def item_def)
  with sp show ?thesis by (auto simp: computeAddress_key_def)
qed

text \<open>
  A transaction signed with a key is from that key's address: setting as
  signature what \<open>SigningKey.sign\<close> returns for the transaction's \<open>unsignedHash\<close>
  (which the signature does not change), the transaction's \<open>from\<close> is
  \<open>computeAddress\<close> of the key under the network's prefix.
\<close>

theorem signed_from_key:
  assumes "ed448_ok ed" and "\<And>x. length (H x) = 32" and "new_SigningKey pk = Inr key"
    and "unsignedHash H t = Inr h" and "networkIdToPrefix (to_double (of_int (tx_networkId t))) = Inr pre"
  shows "\<exists>s. sk_sign ed key (DStr h) = Inr s \<and>
    tx_from ed H (t\<lparr>tx_sig := Some (DStr s)\<rparr>) = mapE Some (computeAddress_key ed H key pre)"
  by (rule signed_by_key [OF assms])

definition example_tx :: transaction where
  "example_tx = new_transaction\<lparr>tx_networkId := 1, tx_value := 5\<rparr>"

lemma example_made: "tx_made ed H example_tx"
proof -
  have "set_networkId (DBig 1) new_transaction = Inr (new_transaction\<lparr>tx_networkId := 1\<rparr>)"
    "set_value (DBig 5) (new_transaction\<lparr>tx_networkId := 1\<rparr>) = Inr example_tx"
    by (simp_all add: set_networkId_def set_value_def example_tx_def)
  then show ?thesis using made_new made_networkId made_value by blast
qed

lemma example_fields: "tx_fields (tx_as_like (example_tx\<lparr>tx_sig := s\<rparr>)) 0 0 0 1 None 5 []"
  by (simp add: tx_fields_def tx_as_like_def example_tx_def new_transaction_def get_energyPrice_def valid_to_def item_def)

lemma example_prefix: "networkIdToPrefix (to_double 1) = Inr ''cb''"
  using to_double_exact [of 1] by simp

lemma prefix_length: "n < 2 ^ 31 \<Longrightarrow> length (rlp_prefix short long n) \<le> 5"
  using length_bytes_of_nat_le [of n 4] by (simp add: rlp_prefix_def)

lemma encode_items:
  "crypto_encode (RArr (map (\<lambda>bs. RItem (DStr (item bs))) its)) =
   mapE item (rlp_encode (RArr (map (\<lambda>bs. RItem (DStr (item bs))) its)))"
proof -
  have "bytesLike_leaves (RArr (map (\<lambda>bs. RItem (DStr (item bs))) its))" by (simp add: list_all_iff isBytesLike_def item_def)
  then show ?thesis
    unfolding crypto_encode_def by (simp only: crypto_rlp_encode_eq(1)) (simp add: mapE_def hexlify_DArr_bytes item_def del: of_int_uint)
qed

lemma getBytes_item [simp]: "getBytes (DStr (item bs)) = Inr bs"
  by (simp add: item_def)

lemma example_encodes:
  "crypto_encode (RArr (map (\<lambda>bs. RItem (DStr (item bs))) (tx_items 0 0 0 1 None 5 [] None))) =
     Inr (item [0xc7, 0x80, 0x80, 0x80, 0x80, 5, 0x80, 1])"
  "length sg = 171 \<Longrightarrow> \<exists>raw.
     crypto_encode (RArr (map (\<lambda>bs. RItem (DStr (item bs))) (tx_items 0 0 0 1 None 5 [] (Some sg)))) = Inr raw \<and> length raw < 2 ^ 31"
proof -
  have nb: "number_bytes 0 = []" "number_bytes 1 = [1]" "number_bytes 5 = [5]"
    by (simp_all add: number_bytes_def bytes_of_nat_def to_digits_single)
  show "crypto_encode (RArr (map (\<lambda>bs. RItem (DStr (item bs))) (tx_items 0 0 0 1 None 5 [] None))) =
      Inr (item [0xc7, 0x80, 0x80, 0x80, 0x80, 5, 0x80, 1])"
    unfolding encode_items by (simp add: tx_items_def nb to_bytes_def rlp_header_def)
  assume sg: "length sg = 171"
  define pay where "pay = [0x80, 0x80, 0x80, 1, 0x80, 5, 0x80] @ rlp_prefix 0x80 0xb7 171 @ sg"
  have len: "length pay \<le> 183" using prefix_length [of 171 "0x80" "0xb7"] sg by (simp add: pay_def)
  have "rlp_encode (RArr (map (\<lambda>bs. RItem (DStr (item bs))) (tx_items 0 0 0 1 None 5 [] (Some sg)))) =
      rlp_header 0xc0 0xf7 pay"
    using rlp_header_small [of sg "0x80" "0xb7"] sg by (simp add: tx_items_def nb to_bytes_def pay_def rlp_header_def [of _ _ "[]"])
  also have "\<dots> = Inr (rlp_prefix 0xc0 0xf7 (length pay) @ pay)" using len by (intro rlp_header_small) simp
  finally have "crypto_encode (RArr (map (\<lambda>bs. RItem (DStr (item bs))) (tx_items 0 0 0 1 None 5 [] (Some sg)))) =
      Inr (item (rlp_prefix 0xc0 0xf7 (length pay) @ pay))" unfolding encode_items by (simp only: mapE_simps)
  moreover have "length (item (rlp_prefix 0xc0 0xf7 (length pay) @ pay)) < 2 ^ 31"
    using len prefix_length [of "length pay" "0xc0" "0xf7"] by (simp add: item_def)
  ultimately show "\<exists>raw. crypto_encode (RArr (map (\<lambda>bs. RItem (DStr (item bs))) (tx_items 0 0 0 1 None 5 [] (Some sg)))) = Inr raw \<and>
      length raw < 2 ^ 31" by blast
qed

theorem transaction_typed_witness:
  "(\<exists>d. tx_data example_tx = ''0x'' @ hex_of_bytes d) \<and> safe_range (tx_nonce example_tx)"
  using transaction_typed [OF example_made] by simp

definition example_hash :: "byte list \<Rightarrow> byte list" where
  "example_hash x = take 32 (x @ replicate 32 0)"

definition example_key :: string where
  "example_key = item (replicate 57 1)"

lemma example_key: "new_SigningKey (DU8 (replicate 57 1)) = Inr example_key"
  by (simp add: new_SigningKey_def dataLength_def assertArgument_def example_key_def item_def)

lemma example_unsignedHash: "unsignedHash example_hash example_tx = Inr (item (example_hash [0xc7, 0x80, 0x80, 0x80, 0x80, 5, 0x80, 1]))"
  using serialize_iff [OF example_fields [of "tx_sig example_tx"], of None] example_encodes(1)
  by (simp add: unsignedHash_def unsignedSerialized_def tx_bounds_def sha_item del: of_int_uint)

theorem signed_from_key_witness:
  "\<exists>s. sk_sign toy_ed448 example_key (DStr (item (example_hash [0xc7, 0x80, 0x80, 0x80, 0x80, 5, 0x80, 1]))) = Inr s \<and>
    tx_from toy_ed448 example_hash (example_tx\<lparr>tx_sig := Some (DStr s)\<rparr>) =
      mapE Some (computeAddress_key toy_ed448 example_hash example_key ''cb'')"
proof (rule signed_from_key [OF toy_ed448_ok _ example_key example_unsignedHash])
  show "networkIdToPrefix (to_double (of_int (tx_networkId example_tx))) = Inr ''cb''"
    using example_prefix by (simp add: example_tx_def)
qed (simp add: example_hash_def)

lemma signed_roundtrip:
  assumes "bn_strings_ok lib val" and "tx_made ed H t" and "tx_sig t = Some (DStr (''0x'' @ hex_of_bytes sg))"
    and "serialized t = Inr raw" and "length raw < 2 ^ 31" and "tx_from ed H t = Inr (Some f)"
  shows "from_string lib ed H raw = Inr (canonical_tx t) \<and> tx_from ed H (canonical_tx t) = Inr (Some f) \<and>
    (\<exists>e. raw = item e \<and> tx_hash H (canonical_tx t) = Inr (Some (item (H e))))"
proof -
  have ty: "tx_typed t" using made_typed [OF assms(2)] .
  then have vt: "valid_to (tx_to t)" by (simp add: tx_typed_def)
  obtain d where d: "tx_data t = item d"
    "tx_fields (tx_as_like t) (tx_nonce t) (get_energyPrice t) (tx_energyLimit t) (tx_networkId t) (tx_to t) (tx_value t) d"
    using made_fields [OF ty] .
  define its where "its = tx_items (tx_nonce t) (get_energyPrice t) (tx_energyLimit t) (tx_networkId t) (tx_to t) (tx_value t) d"
  have sig: "get_signature t = Some (DStr (item sg))" using assms(3) by (simp add: get_signature_def item_def)
  have "serialize (tx_as_like t) (Some (DStr (item sg))) = Inr raw" using assms(4) sig by (simp add: serialized_def)
  then have enc: "tx_bounds (tx_nonce t) (get_energyPrice t) (tx_energyLimit t) (tx_networkId t) (tx_value t)"
    "crypto_encode (RArr (map (\<lambda>bs. RItem (DStr (item bs))) (its (Some sg)))) = Inr raw"
    using serialize_iff [OF d(2), of "Some sg" raw] by (simp_all add: its_def)
  obtain e where e: "raw = item e" "crypto_decode (DU8 e) = Inr (RArr (map (\<lambda>bs. RItem (DStr (item bs))) (its (Some sg))))"
    using decode_items [OF enc(2) assms(5)] by blast
  obtain pre rawu where pre: "networkIdToPrefix (to_double (of_int (tx_networkId t))) = Inr pre"
    and un: "unsignedSerialized t = Inr rawu" and rec: "bindE (sha256 H (DStr rawu)) (\<lambda>digest. recoverAddress ed H (DStr digest) (DStr (item sg)) pre) = Inr f"
    using assms(6) sig by (auto simp: tx_from_def unsignedHash_def)
  then have encu: "crypto_encode (RArr (map (\<lambda>bs. RItem (DStr (item bs))) (its None))) = Inr rawu"
    using serialize_iff [OF d(2), of None rawu] by (simp add: unsignedSerialized_def its_def)
  then obtain eu where eu: "rawu = item eu"
    by (auto simp: crypto_encode_def hexlify_DArr_bytes item_def simp del: of_int_uint)
  have f: "recoverAddress ed H (DStr (item (H eu))) (DStr (item sg)) pre = Inr f" using rec by (simp add: eu sha_item)
  have p: "parse lib ed H (DU8 e) = Inr ((parsed_like (tx_nonce t) (get_energyPrice t) (tx_energyLimit t) (tx_networkId t) (tx_to t) (tx_value t) d)\<lparr>
      l_keys := l_keys (parsed_like (tx_nonce t) (get_energyPrice t) (tx_energyLimit t) (tx_networkId t) (tx_to t) (tx_value t) d)
        @ [''hash'', ''from'', ''signature''],
      l_hash := Some (item (H e)), l_from := Some f, l_signature := Some (DStr (item sg))\<rparr>)"
    using parse_signed [OF assms(1) enc(1) vt e(2) [unfolded its_def] _ _ pre f] enc(2) encu by (simp add: its_def e(1) eu)
  have c: "\<lparr>tx_to = lower_to (tx_to t), tx_data = item d, tx_nonce = tx_nonce t, tx_energyLimit = tx_energyLimit t,
      tx_energyPrice = Some (get_energyPrice t), tx_value = tx_value t, tx_networkId = tx_networkId t,
      tx_sig = Some (DStr (item sg))\<rparr> = canonical_tx t"
    using assms(3) d(1) by (simp add: canonical_tx_def item_def)
  note ser = serialize_iff [OF canonical_fields [OF ty d(1)], unfolded items_lower [OF vt], folded its_def]
  have gs: "get_signature (canonical_tx t) = Some (DStr (item sg))" using sig by (simp add: get_signature_def canonical_tx_def)
  have "serialized (canonical_tx t) = Inr (item e)"
    using ser [of "Some sg" raw] enc gs by (simp add: serialized_def e(1))
  moreover have "unsignedSerialized (canonical_tx t) = Inr (item eu)"
    using ser [of None rawu] enc(1) encu by (simp add: unsignedSerialized_def eu)
  ultimately have c2: "tx_hash H (canonical_tx t) = Inr (Some (item (H e)))" "tx_from ed H (canonical_tx t) = Inr (Some f)"
    using gs pre f by (simp_all add: tx_hash_def tx_from_def unsignedHash_def sha_item) (simp add: canonical_tx_def)
  then have "from_like ed H ((parsed_like (tx_nonce t) (get_energyPrice t) (tx_energyLimit t) (tx_networkId t) (tx_to t) (tx_value t) d)\<lparr>
      l_keys := ks, l_hash := Some (item (H e)), l_from := Some f, l_signature := Some (DStr (item sg))\<rparr>) = Inr (canonical_tx t)" for ks
    using gs unfolding from_fields [OF vt enc(1)] c Let_def
    by (simp add: when_some_def isSigned_def assertArgument_def)
  then show ?thesis using p e(1) c2 by (simp add: from_string_def item_def)
qed

text \<open>
  C11. Round trip of signed transactions. If a transaction made by the library is
  signed (a signature as \<open>SigningKey\<close> returns it), its sender can be recovered and
  it serialises to fewer than \<open>2 ^ 31\<close> characters, then \<open>Transaction.from\<close> of the
  serialised string is the same transaction, the address in lower case and a
  missing energy price read as zero: the hash and sender that parsing computes
  pass the checks of \<open>from\<close>.
\<close>

theorem signed_transaction_roundtrip:
  assumes "bn_strings_ok lib val" and "tx_made ed H t" and "tx_sig t = Some (DStr (''0x'' @ hex_of_bytes sg))"
    and "serialized t = Inr raw" and "length raw < 2 ^ 31" and "tx_from ed H t = Inr (Some f)"
  shows "from_string lib ed H raw = Inr (canonical_tx t)"
  using signed_roundtrip [OF assms] by (rule conjunct1)

theorem signed_transaction_roundtrip_witness:
  "\<exists>sg raw. serialized (example_tx\<lparr>tx_sig := Some (DStr (''0x'' @ hex_of_bytes sg))\<rparr>) = Inr raw \<and>
    from_string int_bn toy_ed448 example_hash raw =
      Inr (canonical_tx (example_tx\<lparr>tx_sig := Some (DStr (''0x'' @ hex_of_bytes sg))\<rparr>))"
proof -
  define x where "x = [0xc7, 0x80, 0x80, 0x80, 0x80, 5, 0x80, 1 :: byte]"
  have hb: "length (example_hash bs) = 32" for bs by (simp add: example_hash_def)
  obtain sg pub where sp: "length sg = 171"
    "\<And>H pre. recoverAddress toy_ed448 H (DStr (item (example_hash x))) (DStr (item sg)) pre = publicToAddress H (DStr (item pub)) pre"
    using sign_spec_item [OF toy_ed448_ok example_key hb [of x]] by metis
  define t where "t = example_tx\<lparr>tx_sig := Some (DStr (item sg))\<rparr>"
  have gs: "get_signature t = Some (DStr (item sg))" by (simp add: t_def get_signature_def item_def)
  obtain raw where raw: "crypto_encode (RArr (map (\<lambda>bs. RItem (DStr (item bs))) (tx_items 0 0 0 1 None 5 [] (Some sg)))) = Inr raw"
    "length raw < 2 ^ 31" using example_encodes(2) [OF sp(1)] by blast
  have ser: "serialized t = Inr raw"
    using serialize_iff [OF example_fields, of "Some (DStr (item sg))" "Some sg" raw] raw(1) gs
    by (simp add: serialized_def t_def tx_bounds_def)
  have "set_signature (Some (DStr (item sg))) example_tx = Inr t" by (simp add: set_signature_def t_def)
  then have made: "tx_made toy_ed448 example_hash t" using made_signature example_made by blast
  have "\<exists>f. publicToAddress example_hash (DStr (item pub)) ''cb'' = Inr f"
    using address_of_hash_eq [OF hb, of "''cb''" pub] sha_item [of example_hash pub]
    by (simp add: publicToAddress_def item_def is_hex_char_def digit_in_def digit_val_def)
  then obtain f where "publicToAddress example_hash (DStr (item pub)) ''cb'' = Inr f" by blast
  then have "tx_from toy_ed448 example_hash t = Inr (Some f)"
    using gs sp(2) example_unsignedHash example_prefix
    by (simp add: tx_from_def) (simp add: t_def x_def example_tx_def)
  from signed_transaction_roundtrip [OF int_bn_ok(1) made _ ser raw(2) this, of sg] ser
  show ?thesis by (auto simp: t_def item_def)
qed

end
