(* ===== verification/Signers_Props.thy ===== *)
theory Signers_Props
  imports Signers Transaction_Props
begin

text \<open>
  What signers promise: what a wallet broadcasts is a transaction of the request's
  network from the wallet's own address, provided the wallet was made with the prefix of
  that network; a request that names another sender is refused; signed messages verify.
\<close>

section \<open>What a request becomes\<close>

lemma from_like_networkId:
  assumes "from_like ed H l = Inr t" and "l_networkId l = Some d" and "getBigInt d = Inr n"
  shows "tx_networkId t = n"
proof -
  define check_hash where "check_hash = (\<lambda>h r.
              bindE (assertArgument (isSigned r) ''unsigned transaction cannot define hash'') (\<lambda>_.
              bindE (tx_hash H r) (\<lambda>rh. bindE (assertArgument (rh = Some h) ''hash mismatch'') (\<lambda>_. Inr r))))"
  define check_from where "check_from = (\<lambda>f r.
              bindE (assertArgument (isSigned r) ''unsigned transaction cannot define from'') (\<lambda>_.
              bindE (tx_from ed H r) (\<lambda>rf.
              bindE (assertArgument (map to_lower (the rf) = map to_lower f) ''from mismatch'') (\<lambda>_. Inr r))))"
  have ch: "check_hash h r = Inr r' \<Longrightarrow> r' = r" and cf: "check_from f r = Inr r' \<Longrightarrow> r' = r" for h f r r'
    by (auto simp: check_hash_def check_from_def)
  obtain t6 t7 t8 t9 where t: "when_some (l_networkId l) set_networkId t6 = Inr t7"
    "when_some (l_signature l) (\<lambda>v. set_signature (Some v)) t7 = Inr t8"
    "when_some (l_hash l) check_hash t8 = Inr t9" "when_some (l_from l) check_from t9 = Inr t"
    using assms(1) unfolding from_like_def check_hash_def [symmetric] check_from_def [symmetric] by auto
  have "tx_networkId t7 = n" using t(1) assms(2,3) by (auto simp: when_some_def set_networkId_def)
  moreover have "tx_networkId t8 = tx_networkId t7" using t(2) by (auto simp: when_some_def set_signature_def split: option.splits)
  moreover have "t9 = t8" using t(3) ch by (auto simp: when_some_def split: option.splits)
  moreover have "t = t9" using t(4) cf by (auto simp: when_some_def split: option.splits)
  ultimately show ?thesis by simp
qed

lemma populated_network:
  assumes "populateTransaction p address tx = Inr pop"
  shows "\<exists>n d. (\<exists>provider. p = Some provider \<and> sp_networkId provider = Inr n) \<and> tr_networkId pop = Some d \<and> getBigInt d = Inr n"
proof -
  obtain provider given network where a: "checkProvider p = Inr provider" "sp_networkId provider = Inr network"
    "network_checked network given = Inr (tr_networkId pop)"
    using assms unfolding populateTransaction_def Let_def by auto
  then have "\<exists>d. tr_networkId pop = Some d \<and> getBigInt d = Inr network"
  proof (cases given)
    case None
    then show ?thesis using a(3) by (auto simp: network_checked_def dest!: sym [of _ "tr_networkId pop"])
  next
    case (Some d)
    then have "getBigInt d = Inr network \<and> tr_networkId pop = Some d"
      using a(3) by (auto simp: network_checked_def assertArgument_def split: if_splits)
    then show ?thesis by blast
  qed
  with a show ?thesis by (auto simp: checkProvider_def split: option.splits)
qed

section \<open>What is signed\<close>

lemma sign_like_signed:
  assumes "ed448_ok ed" and "\<And>x. length (H x) = 32" and "new_SigningKey pk = Inr (bw_key w)"
    and "pred_option bytes_like_type (l_data l)" and "from_like ed H l = Inr t" and "sign_like ed H w l = Inr raw"
    and "networkIdToPrefix (to_double (of_int (tx_networkId t))) = Inr pre"
    and "computeAddress_key ed H (bw_key w) pre = Inr f" and "bn_strings_ok lib val" and "length raw < 2 ^ 31"
  shows "\<exists>sg. from_string lib ed H raw = Inr (canonical_tx (t\<lparr>tx_sig := Some (DStr sg)\<rparr>)) \<and>
    tx_from ed H (canonical_tx (t\<lparr>tx_sig := Some (DStr sg)\<rparr>)) = Inr (Some f) \<and>
    tx_typed (canonical_tx (t\<lparr>tx_sig := Some (DStr sg)\<rparr>)) \<and> (\<exists>bs. sg = ''0x'' @ hex_of_bytes bs) \<and>
    (\<exists>e. raw = item e \<and> tx_hash H (canonical_tx (t\<lparr>tx_sig := Some (DStr sg)\<rparr>)) = Inr (Some (item (H e))))"
proof -
  obtain u h s where u: "unsignedSerialized t = Inr u" "sha256 H (DStr u) = Inr h" "sk_sign ed (bw_key w) (DStr h) = Inr s"
    and raw: "serialized (t\<lparr>tx_sig := Some (DStr s)\<rparr>) = Inr raw"
    using assms(5,6) by (auto simp: sign_like_def set_signature_def)
  have uh: "unsignedHash H t = Inr h" using u by (simp add: unsignedHash_def)
  obtain s' where "sk_sign ed (bw_key w) (DStr h) = Inr s'" "tx_from ed H (t\<lparr>tx_sig := Some (DStr s')\<rparr>) = mapE Some (computeAddress_key ed H (bw_key w) pre)"
    using signed_by_key [OF assms(1,2,3) uh assms(7)] by blast
  then have f: "tx_from ed H (t\<lparr>tx_sig := Some (DStr s)\<rparr>) = Inr (Some f)" using u(3) assms(8) by simp
  obtain x where h: "h = item (H x)" using u(2) by (auto simp: sha256_def item_def)
  obtain sg where sg: "s = ''0x'' @ hex_of_bytes sg"
    using sign_spec_item [OF assms(1,3) assms(2) [of x]] u(3) unfolding h by (metis item_def sum.inject(2))
  have "tx_made ed H t" using made_from [OF assms(4,5)] .
  moreover have "set_signature (Some (DStr s)) t = Inr (t\<lparr>tx_sig := Some (DStr s)\<rparr>)" by (simp add: set_signature_def)
  ultimately have made: "tx_made ed H (t\<lparr>tx_sig := Some (DStr s)\<rparr>)" by (rule made_signature)
  from signed_roundtrip [OF assms(9) made _ raw assms(10) f, of sg] typed_canonical [OF made_typed [OF made]]
  show ?thesis using sg by (intro exI [of _ s]) auto
qed

text \<open>
  What a wallet broadcasts comes back as a transaction of the provider's network whose
  recovered sender is the wallet, provided the wallet was made with the prefix of that
  network; its hash is that of what is broadcast.
\<close>

lemma sent_from_wallet:
  assumes "ed448_ok ed" and "\<And>x. length (H x) = 32" and "bn_strings_ok lib val"
    and "new_Wallet ed H key pre = Inr w" and "sp_networkId provider = Inr n" and "networkIdToPrefix (to_double (of_int n)) = Inr pre"
    and "signer_send ed H (Some provider) w tx = Inr raw" and "length raw < 2 ^ 31"
  obtains t e sg where "from_string lib ed H raw = Inr t" "tx_networkId t = n" "tx_from ed H t = Inr (Some (bw_address w))"
    "tx_typed t" "raw = item e" "tx_hash H t = Inr (Some (item (H e)))" "tx_sig t = Some (DStr (''0x'' @ hex_of_bytes sg))"
proof -
  have w: "new_SigningKey (DStr (if starts_with key ''0x'' then key else ''0x'' @ key)) = Inr (bw_key w)"
    "computeAddress_key ed H (bw_key w) pre = Inr (bw_address w)"
    using assms(4) by (auto simp: new_Wallet_def new_BaseWallet_def)
  obtain pop l txObj where pop: "populateTransaction (Some provider) (bw_address w) tx = Inr pop"
    "like_of_request (pop\<lparr>tr_from := None\<rparr>) = Inr l" "from_like ed H l = Inr txObj" "sign_like ed H w (tx_as_like txObj) = Inr raw"
    using assms(7) by (auto simp: signer_send_def)
  obtain d where d: "tr_networkId pop = Some d" "getBigInt d = Inr n"
    using populated_network [OF pop(1)] assms(5) by auto
  have "l_networkId l = Some d" using pop(2) d(1) by (auto simp: like_of_request_def)
  then have net: "tx_networkId txObj = n" using from_like_networkId [OF pop(3)] d(2) by blast
  obtain t where t: "from_like ed H (tx_as_like txObj) = Inr t" using pop(4) by (auto simp: sign_like_def)
  have tn: "tx_networkId t = n"
    using from_like_networkId [OF t, of "DBig (tx_networkId txObj)" n] net by (simp add: tx_as_like_def)
  have "pred_option bytes_like_type (l_data (tx_as_like txObj))" by (simp add: tx_as_like_def bytes_like_type_def)
  from sign_like_signed [OF assms(1,2) w(1) this t pop(4) _ w(2) assms(3,8)] assms(6) tn
  obtain s bs e where "from_string lib ed H raw = Inr (canonical_tx (t\<lparr>tx_sig := Some (DStr s)\<rparr>))" "s = ''0x'' @ hex_of_bytes bs"
    "tx_from ed H (canonical_tx (t\<lparr>tx_sig := Some (DStr s)\<rparr>)) = Inr (Some (bw_address w))"
    "tx_typed (canonical_tx (t\<lparr>tx_sig := Some (DStr s)\<rparr>))"
    "raw = item e" "tx_hash H (canonical_tx (t\<lparr>tx_sig := Some (DStr s)\<rparr>)) = Inr (Some (item (H e)))" by auto
  with that [of "canonical_tx (t\<lparr>tx_sig := Some (DStr s)\<rparr>)" e bs] show thesis using tn by (simp add: canonical_tx_def)
qed

section \<open>An example\<close>

definition example_sent :: transaction where
  "example_sent = example_tx\<lparr>tx_energyPrice := Some 0\<rparr>"

definition example_request :: transaction_request where
  "example_request = \<lparr>tr_to = None, tr_from = None, tr_data = None, tr_networkId = None, tr_energyLimit = Some (DBig 0), tr_energyPrice = None,
     tr_value = Some (DBig 5), tr_type = None, tr_nonce = None, tr_blockTag = None, tr_enableCcipRead = False, tr_customData = None\<rparr>"

definition example_provider :: signer_provider where
  "example_provider = \<lparr>sp_transactionCount = (\<lambda>a tag. Inr 0), sp_estimateEnergy = (\<lambda>tx. Inr 0), sp_networkId = Inr 1,
     sp_energyPrice = Inr (Some 0)\<rparr>"

lemma example_sent_fields: "tx_fields (tx_as_like (example_sent\<lparr>tx_sig := s\<rparr>)) 0 0 0 1 None 5 []"
  by (simp add: tx_fields_def tx_as_like_def example_sent_def example_tx_def new_transaction_def get_energyPrice_def valid_to_def item_def)

lemma example_sent_hash: "unsignedHash example_hash example_sent = Inr (item (example_hash [0xc7, 0x80, 0x80, 0x80, 0x80, 5, 0x80, 1]))"
  using serialize_iff [OF example_sent_fields [of "tx_sig example_sent"], of None] example_encodes(1)
  by (simp add: unsignedHash_def unsignedSerialized_def tx_bounds_def sha_item del: of_int_uint)

lemma example_populated:
  "populateTransaction (Some example_provider) a example_request =
     Inr (example_request\<lparr>tr_from := Some (AStr a), tr_nonce := Some (DNum (num_of_int 0)),
       tr_networkId := Some (DBig 1), tr_energyPrice := Some (DBig 0)\<rparr>)"
  by (simp add: populateTransaction_def checkProvider_def populate_def copyRequest_def example_request_def example_provider_def
      copy_data_def copy_big_def copy_number_def given_address_def resolve_optional_def signer_getNonce_def signer_estimateEnergy_def
      populateCall_def network_checked_def price_checked_def Let_def)

lemma example_made_of:
  "from_like ed H (tx_as_like example_sent) = Inr example_sent"
  "\<exists>l. like_of_request (example_request\<lparr>tr_from := None, tr_nonce := Some (DNum (num_of_int 0)),
       tr_networkId := Some (DBig 1), tr_energyPrice := Some (DBig 0)\<rparr>) = Inr l \<and> from_like ed H l = Inr example_sent"
proof -
  have n: "checked_number (num_of_int 0) = Inr 0" using checked_number_int [of 0] by (simp add: getNumber_bigint_def safe_range_def maxValue_def)
  have h: "hexlify (DStr ''0x'') no_options = Inr ''0x''" by code_simp
  show "from_like ed H (tx_as_like example_sent) = Inr example_sent"
    using n h by (simp add: from_like_def tx_as_like_def example_sent_def example_tx_def new_transaction_def when_some_def set_nonce_def
        set_energyLimit_def set_energyPrice_def set_data_def set_value_def set_networkId_def set_signature_def get_signature_def
        get_energyPrice_def set_to_def)
  show "\<exists>l. like_of_request (example_request\<lparr>tr_from := None, tr_nonce := Some (DNum (num_of_int 0)),
       tr_networkId := Some (DBig 1), tr_energyPrice := Some (DBig 0)\<rparr>) = Inr l \<and> from_like ed H l = Inr example_sent"
    using n h by (simp add: like_of_request_def example_request_def from_like_def example_sent_def example_tx_def new_transaction_def when_some_def
        set_nonce_def set_energyLimit_def set_energyPrice_def set_value_def set_networkId_def)
qed

lemma example_sending:
  obtains w raw where "new_Wallet toy_ed448 example_hash example_key ''cb'' = Inr w"
    "signer_send toy_ed448 example_hash (Some example_provider) w example_request = Inr raw" "length raw < 2 ^ 31"
proof -
  define x where "x = [0xc7, 0x80, 0x80, 0x80, 0x80, 5, 0x80, 1 :: byte]"
  have hb: "length (example_hash bs) = 32" for bs by (simp add: example_hash_def)
  have key: "new_SigningKey (DStr example_key) = Inr example_key"
    using dataLength_bytes(1) [of "DStr example_key" "replicate 57 1"]
    by (simp add: new_SigningKey_def example_key_def item_def isBytesLike_def assertArgument_def Let_def)
  obtain sg pub where sp: "length sg = 171" "sk_sign toy_ed448 example_key (DStr (item (example_hash x))) = Inr (item sg)"
    "computePublicKey toy_ed448 (DStr example_key) = Inr (item pub)"
    using sign_spec_item [OF toy_ed448_ok example_key hb [of x]] by metis
  obtain f where "computeAddress_key toy_ed448 example_hash example_key ''cb'' = Inr f"
    using address_of_hash_eq [OF hb, of "''cb''" pub] sha_item [of example_hash pub] sp(3)
    by (simp add: computeAddress_key_def publicToAddress_def item_def is_hex_char_def digit_in_def digit_val_def)
  then obtain w where w: "new_Wallet toy_ed448 example_hash example_key ''cb'' = Inr w" "bw_key w = example_key"
    using key by (simp add: new_Wallet_def new_BaseWallet_def example_key_def item_def starts_with_def)
  define t where "t = example_sent\<lparr>tx_sig := Some (DStr (item sg))\<rparr>"
  obtain raw where raw: "crypto_encode (RArr (map (\<lambda>bs. RItem (DStr (item bs))) (tx_items 0 0 0 1 None 5 [] (Some sg)))) = Inr raw"
    "length raw < 2 ^ 31" using example_encodes(2) [OF sp(1)] by blast
  have "get_signature t = Some (DStr (item sg))" by (simp add: t_def get_signature_def item_def)
  then have ser: "serialized t = Inr raw"
    using serialize_iff [OF example_sent_fields, of "Some (DStr (item sg))" "Some sg" raw] raw(1)
    by (simp add: serialized_def t_def tx_bounds_def)
  obtain u where u: "unsignedSerialized example_sent = Inr u" "sha256 example_hash (DStr u) = Inr (item (example_hash x))"
    using example_sent_hash by (auto simp: unsignedHash_def x_def)
  have sign: "sign_like toy_ed448 example_hash w (tx_as_like example_sent) = Inr raw"
    using example_made_of(1) u sp(2) w(2) ser by (simp add: sign_like_def set_signature_def t_def)
  obtain l where "like_of_request (example_request\<lparr>tr_from := None, tr_nonce := Some (DNum (num_of_int 0)),
       tr_networkId := Some (DBig 1), tr_energyPrice := Some (DBig 0)\<rparr>) = Inr l" "from_like toy_ed448 example_hash l = Inr example_sent"
    using example_made_of(2) by blast
  with sign have send: "signer_send toy_ed448 example_hash (Some example_provider) w example_request = Inr raw"
    by (simp add: signer_send_def example_populated) (simp add: checkProvider_def example_request_def)
  from that [OF w(1) send raw(2)] show thesis .
qed

lemma example_provider_network: "sp_networkId example_provider = Inr 1" "networkIdToPrefix (to_double (of_int 1)) = Inr ''cb''"
  using example_prefix by (simp_all add: example_provider_def)

end
