(* ===== verification/Machine.thy ===== *)
theory Machine
  imports Main
begin

text \<open>
  The interface of the state machines of the development (the fallback provider's
  runners, the subscribers' polls, the request queue): what may be reached
  from the initial states, an invariant every step keeps, and, where a machine
  cannot run forever, a rank every step lowers. Each machine's theory
  interprets the locales on its own step relation.
\<close>

inductive reach :: "('s \<Rightarrow> bool) \<Rightarrow> ('s \<Rightarrow> 's \<Rightarrow> bool) \<Rightarrow> 's \<Rightarrow> bool" for initial step where
  reach_initial: "initial s \<Longrightarrow> reach initial step s"
| reach_step: "reach initial step s \<Longrightarrow> step s t \<Longrightarrow> reach initial step t"

inductive run :: "('s \<Rightarrow> 's \<Rightarrow> bool) \<Rightarrow> nat \<Rightarrow> 's \<Rightarrow> 's \<Rightarrow> bool" for step where
  run_0: "run step 0 s s"
| run_Suc: "run step n s t \<Longrightarrow> step t u \<Longrightarrow> run step (Suc n) s u"

inductive_simps run_0_iff [simp]: "run step 0 s t"

lemma reach_run: "run step n s t \<Longrightarrow> reach initial step s \<Longrightarrow> reach initial step t"
  by (induction rule: run.induct) (auto intro: reach_step)

lemma reach_mono:
  assumes "reach initial step s" and "\<And>s t. step s t \<Longrightarrow> step' s t"
  shows "reach initial step' s"
  using assms(1) by induction (auto intro: reach.intros assms(2))

locale machine =
  fixes initial :: "'s \<Rightarrow> bool" and step :: "'s \<Rightarrow> 's \<Rightarrow> bool" and inv :: "'s \<Rightarrow> bool"
  assumes initial_inv: "initial s \<Longrightarrow> inv s"
    and step_inv: "step s t \<Longrightarrow> inv s \<Longrightarrow> inv t"
begin

lemma reach_inv: "reach initial step s \<Longrightarrow> inv s"
  by (induction rule: reach.induct) (auto intro: initial_inv step_inv)

lemma run_inv: "run step n s t \<Longrightarrow> inv s \<Longrightarrow> inv t"
  by (induction rule: run.induct) (auto intro: step_inv)

end

locale ranked_machine = machine +
  fixes rank :: "'s \<Rightarrow> nat"
  assumes step_rank: "step s t \<Longrightarrow> inv s \<Longrightarrow> rank t < rank s"
begin

lemma run_bound: "run step n s t \<Longrightarrow> inv s \<Longrightarrow> n + rank t \<le> rank s"
proof (induction rule: run.induct)
  case (run_Suc n s t u)
  then show ?case using step_rank [OF run_Suc.hyps(2)] run_inv [OF run_Suc.hyps(1)] by simp
qed simp

lemma settles: "inv s \<Longrightarrow> \<exists>n t. run step n s t \<and> (\<forall>u. \<not> step t u)"
proof -
  assume inv: "inv s"
  define N where "N = {n. \<exists>t. run step n s t}"
  have "N \<subseteq> {.. rank s}" using run_bound [OF _ inv] by (force simp: N_def)
  then have fin: "finite N" by (rule finite_subset) simp
  have "0 \<in> N" using run_0 by (force simp: N_def)
  then have "Max N \<in> N" using fin by (metis Max_in empty_iff)
  then obtain t where t: "run step (Max N) s t" by (auto simp: N_def)
  have "\<not> step t u" for u
  proof
    assume "step t u"
    then have "Suc (Max N) \<in> N" using t by (auto simp: N_def intro: run_Suc)
    then have "Suc (Max N) \<le> Max N" using fin by (rule Max_ge [rotated])
    then show False by simp
  qed
  with t show ?thesis by blast
qed

end

end
