(* ===== verification/Fallback.thy ===== *)
theory Fallback
  imports Machine Maths "HOL-Library.List_Lexorder" "HOL-Library.Char_ord"
begin

text \<open>
  \<open>src.ts/providers/provider-fallback.ts\<close>: the tallies that decide what a
  \<open>FallbackProvider\<close> answers, and the loop that dispatches a request to more and
  more of its providers. Times (\<open>rollingDuration\<close>, \<open>_totalTime\<close>) are left out; a
  weight is an integer; what the backends answer, when they answer and when
  the stall timers fire are the environment's steps.
\<close>

section \<open>Values and their tags\<close>

text \<open>
  What a provider may answer. \<open>JJson v\<close> is an object with a method \<open>toJSON\<close> that
  returns \<open>v\<close>. An \<open>Error\<close> is its message and its enumerable own properties.
\<close>

datatype js =
    JUndef
  | JNull
  | JBool bool
  | JBig int
  | JNum jnum
  | JStr string
  | JSymbol string
  | JFunction
  | JArr "js list"
  | JObj "(string \<times> js) list"
  | JJson js

record js_error =
  err_message :: string
  err_props :: "(string \<times> js) list"

datatype answer = Result js | Failure js_error

definition quote_char :: "char \<Rightarrow> string" where
  "quote_char c =
     (let n = of_char c :: nat
      in if n = 34 then [char_of (92::nat), c] else if n = 92 then [c, c]
         else if n = 8 then [char_of (92::nat), CHR ''b''] else if n = 9 then [char_of (92::nat), CHR ''t'']
         else if n = 10 then [char_of (92::nat), CHR ''n''] else if n = 12 then [char_of (92::nat), CHR ''f'']
         else if n = 13 then [char_of (92::nat), CHR ''r'']
         else if n < 32 then [char_of (92::nat), CHR ''u'', CHR ''0'', CHR ''0'', digit_char (n div 16), digit_char (n mod 16)]
         else [c])"

text \<open>\<open>JSON.stringify\<close> of a string.\<close>

definition json_string :: "string \<Rightarrow> string" where
  "json_string s = [CHR 0x22] @ concat (map quote_char s) @ [CHR 0x22]"

fun normalize_value :: "js \<Rightarrow> string result" where
  "normalize_value JUndef = Inr ''null''"
| "normalize_value JNull = Inr ''null''"
| "normalize_value (JArr vs) = mapE (\<lambda>ts. ''['' @ join_with '','' ts @ '']'') (mapM normalize_value vs)"
| "normalize_value (JJson v) = normalize_value v"
| "normalize_value (JBool b) = Inr (if b then ''true'' else ''false'')"
| "normalize_value (JSymbol d) = Inr (''Symbol('' @ d @ '')'')"
| "normalize_value (JBig n) = Inr (int_toString 10 n)"
| "normalize_value (JNum v) =
     (case v of
        Fin q \<Rightarrow> if rat_is_int q then Inr (int_toString 10 \<lfloor>q\<rfloor>)
                 else Inl (JsError NativeRangeError ''not an integer'')
      | _ \<Rightarrow> Inl (JsError NativeRangeError ''not an integer''))"
| "normalize_value (JStr s) = Inr (json_string s)"
| "normalize_value (JObj ps) =
     mapE (\<lambda>ts. ''{'' @ join_with '','' ts @ ''}'')
       (mapM (\<lambda>p. mapE (\<lambda>t. json_string (fst p) @ '':'' @ t) (normalize_value (snd p))) (sort_key fst ps))"
| "normalize_value JFunction = Inl (JsError NativeError ''Hmm...'')"

fun normalizeResult :: "answer \<Rightarrow> string result" where
  "normalizeResult (Result v) = normalize_value v"
| "normalizeResult (Failure e) = normalize_value (JObj (err_props e))"

section \<open>Tallies\<close>

record tally_result =
  tag :: string
  answered :: answer
  weight :: int

text \<open>A JavaScript value is absent from the code's point of view when it is \<open>undefined\<close>.\<close>

fun defined :: "answer \<Rightarrow> answer option" where
  "defined (Result JUndef) = None"
| "defined a = Some a"

text \<open>A \<open>Map\<close> keeps its keys in the order of their first insertion.\<close>

fun tally_add :: "'k \<Rightarrow> 'v \<Rightarrow> int \<Rightarrow> ('k \<times> 'v \<times> int) list \<Rightarrow> ('k \<times> 'v \<times> int) list" where
  "tally_add k v w [] = [(k, v, w)]"
| "tally_add k v w ((k', v', w') # t) = (if k = k' then (k', v', w' + w) # t else (k', v', w') # tally_add k v w t)"

definition tally_of :: "tally_result list \<Rightarrow> (string \<times> answer \<times> int) list" where
  "tally_of rs = foldl (\<lambda>t r. tally_add (tag r) (answered r) (weight r) t) [] rs"

definition better :: "int \<Rightarrow> (answer \<times> int) option \<Rightarrow> string \<times> answer \<times> int \<Rightarrow> (answer \<times> int) option" where
  "better quorum best r =
     (if snd (snd r) \<ge> quorum \<and> (case best of None \<Rightarrow> True | Some b \<Rightarrow> snd (snd r) > snd b)
      then Some (snd r) else best)"

definition checkQuorum :: "int \<Rightarrow> tally_result list \<Rightarrow> answer option" where
  "checkQuorum quorum results =
     (case foldl (better quorum) None (tally_of results) of
        Some b \<Rightarrow> defined (fst b)
      | None \<Rightarrow> None)"

text \<open>
  \<open>BigInt(v)\<close>. \<open>bigint_of_item\<close> is the same of a value that stands alone in an array,
  which is converted to a string first.
\<close>

definition syntax_error :: error where
  "syntax_error = JsError NativeSyntaxError ''cannot convert to a BigInt''"

definition bigint_text :: "string \<Rightarrow> int result" where
  "bigint_text s = (case js_BigInt s of Some n \<Rightarrow> Inr n | None \<Rightarrow> Inl syntax_error)"

fun bigint_of_item :: "js \<Rightarrow> int result" where
  "bigint_of_item JUndef = Inr 0"
| "bigint_of_item JNull = Inr 0"
| "bigint_of_item (JBig n) = Inr n"
| "bigint_of_item (JNum v) =
     (case v of Fin q \<Rightarrow> if rat_is_int q \<and> \<bar>q\<bar> < 10 ^ 21 then Inr \<lfloor>q\<rfloor> else Inl syntax_error | _ \<Rightarrow> Inl syntax_error)"
| "bigint_of_item (JStr s) = bigint_text s"
| "bigint_of_item (JArr vs) = (case vs of [] \<Rightarrow> Inr 0 | [v] \<Rightarrow> bigint_of_item v | _ \<Rightarrow> Inl syntax_error)"
| "bigint_of_item (JSymbol _) = Inl (JsError NativeTypeError ''cannot convert a Symbol'')"
| "bigint_of_item _ = Inl syntax_error"

fun js_to_bigint :: "js \<Rightarrow> int result" where
  "js_to_bigint JUndef = Inl (JsError NativeTypeError ''cannot convert undefined'')"
| "js_to_bigint JNull = Inl (JsError NativeTypeError ''cannot convert null'')"
| "js_to_bigint (JBool b) = Inr (of_bool b)"
| "js_to_bigint (JNum v) =
     (case v of Fin q \<Rightarrow> if rat_is_int q then Inr \<lfloor>q\<rfloor> else Inl (JsError NativeRangeError ''not an integer'')
      | _ \<Rightarrow> Inl (JsError NativeRangeError ''not an integer''))"
| "js_to_bigint v = bigint_of_item v"

text \<open>
  The comparison \<open>(a, b) => (a < b ? -1 : b > a ? 1 : 0)\<close> tests \<open>a < b\<close> twice, so it is
  never positive. What \<open>Array.prototype.sort\<close> does with such a comparison is up to
  the engine: the sort is the parameter \<open>js_sort\<close>.
\<close>

type_synonym js_sort = "(int \<Rightarrow> int \<Rightarrow> int) \<Rightarrow> int list \<Rightarrow> int list"

definition median_compare :: "int \<Rightarrow> int \<Rightarrow> int" where
  "median_compare a b = (if a < b then -1 else if b > a then 1 else 0)"

record median_state =
  resultWeight :: int
  errorMap :: "(string \<times> js_error \<times> int) list"
  bestError :: "(string \<times> js_error \<times> int) option"
  median_values :: "int list"

definition median_init :: median_state where
  "median_init = \<lparr>resultWeight = 0, errorMap = [], bestError = None, median_values = []\<rparr>"

text \<open>
  \<open>bestError\<close> is the entry itself, whose weight goes on growing in the map: it is looked
  up again through its tag.
\<close>

definition median_step :: "tally_result \<Rightarrow> median_state \<Rightarrow> median_state result" where
  "median_step r st =
     (case answered r of
        Failure e \<Rightarrow>
          (let m = tally_add (tag r) e (weight r) (errorMap st);
               entry = the (map_of m (tag r));
               best = (case bestError st of
                         None \<Rightarrow> Some (tag r, entry)
                       | Some (k, _) \<Rightarrow>
                           let b = the (map_of m k)
                           in if snd entry > snd b then Some (tag r, entry) else Some (k, b))
           in Inr (st\<lparr>errorMap := m, bestError := best\<rparr>))
      | Result v \<Rightarrow>
          mapE (\<lambda>n. st\<lparr>median_values := median_values st @ [n], resultWeight := resultWeight st + weight r\<rparr>) (js_to_bigint v))"

fun median_loop :: "tally_result list \<Rightarrow> median_state \<Rightarrow> median_state result" where
  "median_loop [] st = Inr st"
| "median_loop (r # rs) st = bindE (median_step r st) (median_loop rs)"

definition median_of :: "int list \<Rightarrow> int" where
  "median_of values =
     (let mid = length values div 2
      in if length values mod 2 \<noteq> 0 then values ! mid
         else let s = values ! (mid - 1) + values ! mid + 1 in sgn s * (\<bar>s\<bar> div 2))"

definition getMedian :: "js_sort \<Rightarrow> int \<Rightarrow> tally_result list \<Rightarrow> answer option result" where
  "getMedian js_sort quorum results =
     bindE (median_loop results median_init) (\<lambda>st.
       if resultWeight st < quorum
       then Inr (case bestError st of
                   Some (_, e, w) \<Rightarrow> if w \<ge> quorum then Some (Failure e) else None
                 | None \<Rightarrow> None)
       else Inr (Some (Result (JBig (median_of (js_sort median_compare (median_values st)))))))"
fun truthy :: "js \<Rightarrow> bool" where
  "truthy JUndef = False"
| "truthy JNull = False"
| "truthy (JBool b) = b"
| "truthy (JBig n) = (n \<noteq> 0)"
| "truthy (JNum v) = (case v of NaN \<Rightarrow> False | Fin q \<Rightarrow> q \<noteq> 0 | _ \<Rightarrow> True)"
| "truthy (JStr s) = (s \<noteq> [])"
| "truthy _ = True"

fun answer_truthy :: "answer \<Rightarrow> bool" where
  "answer_truthy (Result v) = truthy v"
| "answer_truthy (Failure _) = True"

definition getAnyResult :: "int \<Rightarrow> tally_result list \<Rightarrow> answer option" where
  "getAnyResult quorum results =
     (case checkQuorum quorum results of
        Some a \<Rightarrow> Some a
      | None \<Rightarrow> map_option answered (find (\<lambda>r. answer_truthy (answered r)) results))"

text \<open>\<open>getNumber(value)\<close> of an answer: an \<open>Error\<close> is not a number.\<close>

fun number_of_js :: "js \<Rightarrow> int result" where
  "number_of_js (JBig n) = getNumber (DBig n)"
| "number_of_js (JNum v) = getNumber (DNum v)"
| "number_of_js (JStr s) = getNumber (DStr s)"
| "number_of_js _ = Inl (CoreError INVALID_ARGUMENT ''invalid numeric value'')"

fun number_of_answer :: "answer option \<Rightarrow> int result" where
  "number_of_answer (Some (Result v)) = number_of_js v"
| "number_of_answer _ = Inl (CoreError INVALID_ARGUMENT ''invalid numeric value'')"

fun fuzzy_tally :: "tally_result list \<Rightarrow> (int \<times> int \<times> int) list \<Rightarrow> (int \<times> int \<times> int) list result" where
  "fuzzy_tally [] t = Inr t"
| "fuzzy_tally (a # rs) t =
     bindE (number_of_answer (Some (answered a))) (\<lambda>r.
       fuzzy_tally rs (tally_add (r + 1) (r + 1) (weight a)
         (tally_add r r (weight a) (tally_add (r - 1) (r - 1) (weight a) t))))"

text \<open>The pair is \<open>(bestResult, bestWeight)\<close>.\<close>

definition fuzzy_better :: "int \<Rightarrow> int option \<times> int \<Rightarrow> int \<times> int \<times> int \<Rightarrow> int option \<times> int" where
  "fuzzy_better quorum best r =
     (let result = fst (snd r); w = snd (snd r)
      in if w \<ge> quorum \<and>
            (w > snd best \<or> (case fst best of Some b \<Rightarrow> w = snd best \<and> result > b | None \<Rightarrow> False))
         then (Some result, w) else best)"

definition getFuzzyMode :: "js_sort \<Rightarrow> int \<Rightarrow> tally_result list \<Rightarrow> int option result" where
  "getFuzzyMode js_sort quorum results =
     (if quorum = 1
      then bindE (getMedian js_sort quorum results) (\<lambda>m. mapE Some (number_of_answer m))
      else mapE (\<lambda>t. fst (foldl (fuzzy_better quorum) (None, 0) t)) (fuzzy_tally results []))"

end
