(* ===== verification/Provider_Format.thy ===== *)
theory Provider_Format
  imports Fallback Address
begin

text \<open>
  What a provider makes of the objects a node answers: \<open>src.ts/providers/format.ts\<close> and
  \<open>src.ts/transaction/accesslist.ts\<close>. The formatter made by \<open>object(...)\<close> is the reading
  of its fields one after another into a record; a field that is omitted or \<open>null\<close> is
  \<open>None\<close>. A value of the node is a \<open>js\<close>.
\<close>

section \<open>Properties of values\<close>

text \<open>\<open>key in value\<close> and \<open>value[key]\<close>.\<close>

definition in_value :: "js \<Rightarrow> string \<Rightarrow> bool result" where
  "in_value v key =
     (case v of
        JObj ps \<Rightarrow> Inr (key \<in> fst ` set ps)
      | JArr _ \<Rightarrow> Inr False
      | JJson _ \<Rightarrow> Inr False
      | JFunction \<Rightarrow> Inr False
      | _ \<Rightarrow> Inl (JsError NativeTypeError ''cannot use in operator''))"

definition get_prop :: "js \<Rightarrow> string \<Rightarrow> js result" where
  "get_prop v key =
     (case v of
        JUndef \<Rightarrow> Inl (JsError NativeTypeError ''cannot read properties of undefined'')
      | JNull \<Rightarrow> Inl (JsError NativeTypeError ''cannot read properties of null'')
      | JObj ps \<Rightarrow> Inr (case map_of ps key of None \<Rightarrow> JUndef | Some x \<Rightarrow> x)
      | _ \<Rightarrow> Inr JUndef)"

definition js_truthy :: "js \<Rightarrow> bool" where
  "js_truthy v =
     (case v of
        JUndef \<Rightarrow> False | JNull \<Rightarrow> False | JBool b \<Rightarrow> b | JBig n \<Rightarrow> n \<noteq> 0
      | JNum x \<Rightarrow> x \<noteq> Fin 0 \<and> x \<noteq> NaN | JStr s \<Rightarrow> s \<noteq> [] | _ \<Rightarrow> True)"

definition nullish :: "js \<Rightarrow> bool" where
  "nullish v \<longleftrightarrow> v = JUndef \<or> v = JNull"

section \<open>Combinators\<close>

definition allowNull :: "(js \<Rightarrow> 'a result) \<Rightarrow> 'b \<Rightarrow> ('a \<Rightarrow> 'b) \<Rightarrow> js \<Rightarrow> 'b result" where
  "allowNull format nullValue keep v = (if nullish v then Inr nullValue else mapE keep (format v))"

definition optionally :: "(js \<Rightarrow> 'a result) \<Rightarrow> js \<Rightarrow> 'a option result" where
  "optionally format = allowNull format None Some"

definition arrayOf :: "(js \<Rightarrow> 'a result) \<Rightarrow> js \<Rightarrow> 'a list result" where
  "arrayOf format v =
     (case v of JArr vs \<Rightarrow> mapM format vs | _ \<Rightarrow> Inl (JsError NativeError ''not an array''))"

text \<open>The name under which a field is looked up: its own, or the first alternative there is.\<close>

fun first_in :: "js \<Rightarrow> string \<Rightarrow> string list \<Rightarrow> string result" where
  "first_in v key [] = Inr key"
| "first_in v key (a # as) = bindE (in_value v a) (\<lambda>b. if b then Inr a else first_in v key as)"

definition source_key :: "js \<Rightarrow> string \<Rightarrow> string list \<Rightarrow> string result" where
  "source_key v key alts =
     (if alts = [] then Inr key
      else bindE (in_value v key) (\<lambda>b. if b then Inr key else first_in v key alts))"

definition read_field :: "js \<Rightarrow> string \<Rightarrow> string list \<Rightarrow> (js \<Rightarrow> 'a result) \<Rightarrow> 'a result" where
  "read_field v key alts format =
     bindE (source_key v key alts) (\<lambda>srcKey.
       case bindE (get_prop v srcKey) format of
         Inr nv \<Rightarrow> Inr nv
       | Inl e \<Rightarrow> Inl (CoreError BAD_DATA (''invalid value for value.'' @ key @ '' ('' @ error_message e @ '')'')))"

section \<open>Formats of single values\<close>

definition formatBoolean :: "js \<Rightarrow> bool result" where
  "formatBoolean v =
     (if v = JBool True \<or> v = JStr ''true'' then Inr True
      else if v = JBool False \<or> v = JStr ''false'' then Inr False
      else Inl (CoreError INVALID_ARGUMENT ''invalid boolean''))"

definition is_hex :: "js \<Rightarrow> hex_length \<Rightarrow> bool" where
  "is_hex v len \<longleftrightarrow> (case v of JStr s \<Rightarrow> isHexString (DStr s) len | _ \<Rightarrow> False)"

definition js_text :: "js \<Rightarrow> string" where
  "js_text v = (case v of JStr s \<Rightarrow> s | _ \<Rightarrow> [])"

definition formatData :: "js \<Rightarrow> string result" where
  "formatData v = bindE (assertArgument (is_hex v EvenLength) ''invalid data'') (\<lambda>_. Inr (js_text v))"

definition formatHash :: "js \<Rightarrow> string result" where
  "formatHash v = bindE (assertArgument (is_hex v (ExactLength 32)) ''invalid hash'') (\<lambda>_. Inr (js_text v))"

definition formatUint256 :: "js \<Rightarrow> string result" where
  "formatUint256 v =
     (if \<not> is_hex v AnyLength then Inl (JsError NativeError ''invalid uint256'') else zeroPadValue (DStr (js_text v)) 32)"

text \<open>Numbers, addresses and bytes are the functions of the utilities, which take any value.\<close>

definition big_of_js :: "js \<Rightarrow> int result" where
  "big_of_js v =
     (case v of
        JStr s \<Rightarrow> getBigInt (DStr s)
      | JNum x \<Rightarrow> getBigInt (DNum x)
      | JBig n \<Rightarrow> getBigInt (DBig n)
      | _ \<Rightarrow> Inl (CoreError INVALID_ARGUMENT ''invalid BigNumberish value''))"

definition number_of_js :: "js \<Rightarrow> int result" where
  "number_of_js v =
     (case v of
        JStr s \<Rightarrow> getNumber (DStr s)
      | JNum x \<Rightarrow> getNumber (DNum x)
      | JBig n \<Rightarrow> getNumber (DBig n)
      | _ \<Rightarrow> Inl (CoreError INVALID_ARGUMENT ''invalid numeric value''))"

definition address_of_js :: "js \<Rightarrow> string result" where
  "address_of_js v =
     (case v of
        JStr s \<Rightarrow> getAddress s
      | JUndef \<Rightarrow> Inl (JsError NativeTypeError ''cannot read properties of undefined'')
      | JNull \<Rightarrow> Inl (JsError NativeTypeError ''cannot read properties of null'')
      | _ \<Rightarrow> Inl (JsError NativeTypeError ''address.match is not a function''))"

definition hex_of_js :: "js \<Rightarrow> string result" where
  "hex_of_js v =
     (case v of
        JStr s \<Rightarrow> hexlify (DStr s) no_options
      | JNum x \<Rightarrow> hexlify (DNum x) no_options
      | JBig n \<Rightarrow> hexlify (DBig n) no_options
      | _ \<Rightarrow> logger_throwArgumentError logger_init ''invalid hexlify value'')"

section \<open>Access lists\<close>

text \<open>
  \<open>by_address\<close> sorts by \<open>localeCompare\<close> of addresses. The keys of an object are in the
  order of its properties, and \<open>sort()\<close> compares code units.
\<close>

type_synonym access_set = "string \<times> string list"

definition accessSetify :: "js \<Rightarrow> js \<Rightarrow> access_set result" where
  "accessSetify addr storageKeys =
     bindE (address_of_js addr) (\<lambda>a.
     bindE (case storageKeys of
              JArr vs \<Rightarrow> mapM (\<lambda>v. bindE (assertArgument (is_hex v (ExactLength 32)) ''invalid slot'') (\<lambda>_. Inr (map to_lower (js_text v)))) vs
            | _ \<Rightarrow> Inl (JsError NativeTypeError ''storageKeys.map is not a function'')) (\<lambda>ks.
       Inr (a, ks)))"

definition access_entry :: "js \<Rightarrow> access_set result" where
  "access_entry v =
     (case v of
        JArr vs \<Rightarrow> bindE (assertArgument (length vs = 2) ''invalid slot set'') (\<lambda>_. accessSetify (vs ! 0) (vs ! 1))
      | JObj ps \<Rightarrow> bindE (get_prop v ''address'') (\<lambda>a. bindE (get_prop v ''storageKeys'') (\<lambda>ks. accessSetify a ks))
      | _ \<Rightarrow> Inl (CoreError INVALID_ARGUMENT ''invalid address-slot set''))"

definition access_of_keys :: "string \<times> js \<Rightarrow> access_set result" where
  "access_of_keys p =
     (case snd p of
        JArr vs \<Rightarrow> accessSetify (JStr (fst p)) (JArr (map JStr (sort (remdups (map js_text vs)))))
      | _ \<Rightarrow> Inl (JsError NativeTypeError ''value[addr].reduce is not a function''))"

definition accessListify :: "(access_set list \<Rightarrow> access_set list) \<Rightarrow> js \<Rightarrow> access_set list result" where
  "accessListify by_address v =
     (case v of
        JArr vs \<Rightarrow> mapM access_entry vs
      | JObj ps \<Rightarrow> mapE by_address (mapM access_of_keys ps)
      | _ \<Rightarrow> Inl (CoreError INVALID_ARGUMENT ''invalid access list''))"

section \<open>Logs\<close>

record log_params =
  lg_address :: string
  lg_blockHash :: string
  lg_blockNumber :: int
  lg_data :: string
  lg_index :: int
  lg_removed :: "bool option"
  lg_topics :: "string list"
  lg_transactionHash :: string
  lg_transactionIndex :: int

definition formatLog :: "js \<Rightarrow> log_params result" where
  "formatLog v =
     bindE (read_field v ''address'' [] address_of_js) (\<lambda>address.
     bindE (read_field v ''blockHash'' [] formatHash) (\<lambda>blockHash.
     bindE (read_field v ''blockNumber'' [] number_of_js) (\<lambda>blockNumber.
     bindE (read_field v ''data'' [] formatData) (\<lambda>data.
     bindE (read_field v ''index'' [''logIndex''] number_of_js) (\<lambda>index.
     bindE (read_field v ''removed'' [] (allowNull formatBoolean False id)) (\<lambda>removed.
     bindE (read_field v ''topics'' [] (arrayOf formatHash)) (\<lambda>topics.
     bindE (read_field v ''transactionHash'' [] formatHash) (\<lambda>transactionHash.
     bindE (read_field v ''transactionIndex'' [] number_of_js) (\<lambda>transactionIndex.
       Inr \<lparr>lg_address = address, lg_blockHash = blockHash, lg_blockNumber = blockNumber, lg_data = data, lg_index = index,
            lg_removed = Some removed, lg_topics = topics, lg_transactionHash = transactionHash,
            lg_transactionIndex = transactionIndex\<rparr>)))))))))"

definition formatReceiptLog :: "js \<Rightarrow> log_params result" where
  "formatReceiptLog v =
     bindE (read_field v ''transactionIndex'' [] number_of_js) (\<lambda>transactionIndex.
     bindE (read_field v ''blockNumber'' [] number_of_js) (\<lambda>blockNumber.
     bindE (read_field v ''transactionHash'' [] formatHash) (\<lambda>transactionHash.
     bindE (read_field v ''address'' [] address_of_js) (\<lambda>address.
     bindE (read_field v ''topics'' [] (arrayOf formatHash)) (\<lambda>topics.
     bindE (read_field v ''data'' [] formatData) (\<lambda>data.
     bindE (read_field v ''index'' [''logIndex''] number_of_js) (\<lambda>index.
     bindE (read_field v ''blockHash'' [] formatHash) (\<lambda>blockHash.
       Inr \<lparr>lg_address = address, lg_blockHash = blockHash, lg_blockNumber = blockNumber, lg_data = data, lg_index = index,
            lg_removed = None, lg_topics = topics, lg_transactionHash = transactionHash,
            lg_transactionIndex = transactionIndex\<rparr>))))))))"

section \<open>Receipts\<close>

record receipt_params =
  rp_to :: "string option"
  rp_from :: "string option"
  rp_contractAddress :: "string option"
  rp_index :: int
  rp_root :: "string option"
  rp_energyUsed :: int
  rp_logsBloom :: "string option"
  rp_blockHash :: string
  rp_hash :: string
  rp_logs :: "log_params list"
  rp_blockNumber :: int
  rp_cumulativeEnergyUsed :: int
  rp_effectiveEnergyPrice :: "int option"
  rp_status :: "int option"
  rp_type :: int

definition formatTransactionReceipt :: "js \<Rightarrow> receipt_params result" where
  "formatTransactionReceipt v =
     bindE (read_field v ''to'' [] (optionally address_of_js)) (\<lambda>to.
     bindE (read_field v ''from'' [] (optionally address_of_js)) (\<lambda>from.
     bindE (read_field v ''contractAddress'' [] (optionally address_of_js)) (\<lambda>contractAddress.
     bindE (read_field v ''index'' [''transactionIndex''] number_of_js) (\<lambda>index.
     bindE (read_field v ''root'' [] (optionally hex_of_js)) (\<lambda>root'.
     bindE (read_field v ''energyUsed'' [] big_of_js) (\<lambda>energyUsed.
     bindE (read_field v ''logsBloom'' [] (optionally formatData)) (\<lambda>logsBloom.
     bindE (read_field v ''blockHash'' [] formatHash) (\<lambda>blockHash.
     bindE (read_field v ''hash'' [''transactionHash''] formatHash) (\<lambda>hash.
     bindE (read_field v ''logs'' [] (arrayOf formatReceiptLog)) (\<lambda>logs.
     bindE (read_field v ''blockNumber'' [] number_of_js) (\<lambda>blockNumber.
     bindE (read_field v ''cumulativeEnergyUsed'' [] big_of_js) (\<lambda>cumulativeEnergyUsed.
     bindE (read_field v ''effectiveEnergyPrice'' [''energyPrice''] (optionally big_of_js)) (\<lambda>effectiveEnergyPrice.
     bindE (read_field v ''status'' [] (optionally number_of_js)) (\<lambda>status.
     bindE (read_field v ''type'' [] (allowNull number_of_js 0 id)) (\<lambda>type.
       Inr \<lparr>rp_to = to, rp_from = from, rp_contractAddress = contractAddress, rp_index = index, rp_root = root',
            rp_energyUsed = energyUsed, rp_logsBloom = logsBloom, rp_blockHash = blockHash, rp_hash = hash, rp_logs = logs,
            rp_blockNumber = blockNumber, rp_cumulativeEnergyUsed = cumulativeEnergyUsed,
            rp_effectiveEnergyPrice = effectiveEnergyPrice, rp_status = status, rp_type = type\<rparr>)))))))))))))))"

section \<open>Transactions\<close>

text \<open>
  The signature is the one of the answer or, when there is none, the answer itself;
  \<open>rs_networkId\<close> may be any value it has as \<open>legacynetworkId\<close>.
\<close>

record response_params =
  rs_hash :: string
  rs_type :: int
  rs_accessList :: "access_set list option"
  rs_blockHash :: "string option"
  rs_blockNumber :: "int option"
  rs_transactionIndex :: "int option"
  rs_from :: string
  rs_maxFeePerEnergy :: "int option"
  rs_energyLimit :: int
  rs_to :: "string option"
  rs_value :: int
  rs_nonce :: int
  rs_data :: string
  rs_creates :: "string option"
  rs_networkId :: js
  rs_signature :: js

definition response_type :: "js \<Rightarrow> int result" where
  "response_type v = (if v = JStr ''0x'' \<or> nullish v then Inr 0 else number_of_js v)"

text \<open>The guard for the zero address: an address is never an empty string, so that it only throws.\<close>

definition zero_to :: "js \<Rightarrow> js result" where
  "zero_to v =
     bindE (get_prop v ''to'') (\<lambda>to.
       if \<not> js_truthy to then Inr v
       else bindE (address_of_js to) (\<lambda>a.
            if a \<noteq> [] then Inr v
            else bindE (big_of_js to) (\<lambda>n.
                 if n \<noteq> 0 then Inr v
                 else Inr (case v of
                        JObj ps \<Rightarrow> JObj (map (\<lambda>p. if fst p = ''to''
                                              then (''to'', JStr ''0x0000000000000000000000000000000000000000'') else p) ps)
                      | _ \<Rightarrow> v))))"

definition response_fields :: "(access_set list \<Rightarrow> access_set list) \<Rightarrow> js \<Rightarrow> response_params result" where
  "response_fields by_address v =
     bindE (read_field v ''hash'' [] formatHash) (\<lambda>hash.
     bindE (read_field v ''type'' [] response_type) (\<lambda>type.
     bindE (read_field v ''accessList'' [] (optionally (accessListify by_address))) (\<lambda>accessList.
     bindE (read_field v ''blockHash'' [] (optionally formatHash)) (\<lambda>blockHash.
     bindE (read_field v ''blockNumber'' [] (optionally number_of_js)) (\<lambda>blockNumber.
     bindE (read_field v ''transactionIndex'' [] (optionally number_of_js)) (\<lambda>transactionIndex.
     bindE (read_field v ''from'' [] address_of_js) (\<lambda>from.
     bindE (read_field v ''maxFeePerEnergy'' [] (optionally big_of_js)) (\<lambda>maxFeePerEnergy.
     bindE (read_field v ''energyLimit'' [''energy''] big_of_js) (\<lambda>energyLimit.
     bindE (read_field v ''to'' [] (optionally address_of_js)) (\<lambda>to.
     bindE (read_field v ''value'' [] big_of_js) (\<lambda>val.
     bindE (read_field v ''nonce'' [] number_of_js) (\<lambda>nonce.
     bindE (read_field v ''data'' [''input''] formatData) (\<lambda>data.
     bindE (read_field v ''creates'' [] (optionally address_of_js)) (\<lambda>creates.
     bindE (read_field v ''networkId'' [] (optionally big_of_js)) (\<lambda>networkId.
       Inr \<lparr>rs_hash = hash, rs_type = type, rs_accessList = accessList, rs_blockHash = blockHash, rs_blockNumber = blockNumber,
            rs_transactionIndex = transactionIndex, rs_from = from, rs_maxFeePerEnergy = maxFeePerEnergy,
            rs_energyLimit = energyLimit, rs_to = to, rs_value = val, rs_nonce = nonce, rs_data = data, rs_creates = creates,
            rs_networkId = (case networkId of Some n \<Rightarrow> JBig n | None \<Rightarrow> JNull), rs_signature = JUndef\<rparr>)))))))))))))))"

definition formatTransactionResponse :: "(access_set list \<Rightarrow> access_set list) \<Rightarrow> js \<Rightarrow> response_params result" where
  "formatTransactionResponse by_address value0 =
     bindE (zero_to value0) (\<lambda>v.
     bindE (response_fields by_address v) (\<lambda>result.
     bindE (if rs_to result = None \<and> rs_creates result = None
            then mapE Some (getCreateAddress (rs_from result) (DNum (num_of_int (rs_nonce result))))
            else Inr (rs_creates result)) (\<lambda>creates.
     bindE (get_prop v ''signature'') (\<lambda>given.
     let signature = (if js_truthy given then given else v)
     in bindE (if nullish (rs_networkId result) then get_prop signature ''legacynetworkId'' else Inr JUndef) (\<lambda>legacy.
        let result = result\<lparr>rs_creates := creates, rs_signature := signature,
                            rs_networkId := (if nullish legacy then rs_networkId result else legacy)\<rparr>
        in case rs_blockHash result of
             None \<Rightarrow> Inr result
           | Some h \<Rightarrow> bindE (getBigInt (DStr h)) (\<lambda>n.
               Inr (if n = 0 then result\<lparr>rs_blockHash := None\<rparr> else result)))))))"

section \<open>Blocks\<close>

record block_params =
  bk_hash :: "string option"
  bk_parentHash :: string
  bk_number :: int
  bk_timestamp :: int
  bk_nonce :: "string option"
  bk_difficulty :: int
  bk_energyLimit :: int
  bk_energyUsed :: int
  bk_miner :: "string option"
  bk_extraData :: string
  bk_baseFeePerEnergy :: "int option"
  bk_transactions :: "(string + response_params) list"

definition block_transaction :: "(access_set list \<Rightarrow> access_set list) \<Rightarrow> js \<Rightarrow> (string + response_params) result" where
  "block_transaction by_address tx =
     (case tx of JStr s \<Rightarrow> Inr (Inl s) | _ \<Rightarrow> mapE Inr (formatTransactionResponse by_address tx))"

definition formatBlock :: "(access_set list \<Rightarrow> access_set list) \<Rightarrow> js \<Rightarrow> block_params result" where
  "formatBlock by_address v =
     bindE (read_field v ''hash'' [] (optionally formatHash)) (\<lambda>hash.
     bindE (read_field v ''parentHash'' [] formatHash) (\<lambda>parentHash.
     bindE (read_field v ''number'' [] number_of_js) (\<lambda>number.
     bindE (read_field v ''timestamp'' [] number_of_js) (\<lambda>timestamp.
     bindE (read_field v ''nonce'' [] (optionally formatData)) (\<lambda>nonce.
     bindE (read_field v ''difficulty'' [] big_of_js) (\<lambda>difficulty.
     bindE (read_field v ''energyLimit'' [] big_of_js) (\<lambda>energyLimit.
     bindE (read_field v ''energyUsed'' [] big_of_js) (\<lambda>energyUsed.
     bindE (read_field v ''miner'' [] (optionally address_of_js)) (\<lambda>miner.
     bindE (read_field v ''extraData'' [] formatData) (\<lambda>extraData.
     bindE (read_field v ''baseFeePerEnergy'' [] (optionally big_of_js)) (\<lambda>baseFeePerEnergy.
     bindE (get_prop v ''transactions'') (\<lambda>given.
     bindE (case given of
              JArr txs \<Rightarrow> mapM (block_transaction by_address) txs
            | _ \<Rightarrow> Inl (JsError NativeTypeError ''value.transactions.map is not a function'')) (\<lambda>transactions.
       Inr \<lparr>bk_hash = hash, bk_parentHash = parentHash, bk_number = number, bk_timestamp = timestamp, bk_nonce = nonce,
            bk_difficulty = difficulty, bk_energyLimit = energyLimit, bk_energyUsed = energyUsed, bk_miner = miner,
            bk_extraData = extraData, bk_baseFeePerEnergy = baseFeePerEnergy, bk_transactions = transactions\<rparr>)))))))))))))"

end
