(* ===== verification/Provider_Data.thy ===== *)
theory Provider_Data
  imports Provider_Format Provider_Requests Transaction
begin

text \<open>
  Blocks, receipts and transactions as a provider hands them out: the classes of
  \<open>src.ts/providers/provider.ts\<close> and the queries of \<open>src.ts/providers/abstract-provider.ts\<close>.
  The provider an object carries is an argument of the methods that ask it.
\<close>

section \<open>TransactionResponse\<close>

text \<open>
  The constructor reads \<open>index\<close> and \<open>energyPrice\<close> of what it is given; the formatted answer
  has neither. The field \<open>type\<close> is declared and never set.
\<close>

record transaction_response =
  xr_blockNumber :: "int option"
  xr_blockHash :: "string option"
  xr_hash :: string
  xr_index :: js
  xr_type :: js
  xr_from :: string
  xr_to :: "string option"
  xr_energyLimit :: int
  xr_nonce :: int
  xr_data :: string
  xr_value :: int
  xr_energyPrice :: js
  xr_networkId :: js
  xr_signature :: js
  xr_startBlock :: int

definition new_TransactionResponse :: "response_params \<Rightarrow> transaction_response" where
  "new_TransactionResponse tx =
     \<lparr>xr_blockNumber = rs_blockNumber tx, xr_blockHash = rs_blockHash tx, xr_hash = rs_hash tx, xr_index = JUndef,
      xr_type = JUndef, xr_from = rs_from tx, xr_to = (case rs_to tx of Some a \<Rightarrow> if a = [] then None else Some a | None \<Rightarrow> None),
      xr_energyLimit = rs_energyLimit tx, xr_nonce = rs_nonce tx, xr_data = rs_data tx, xr_value = rs_value tx,
      xr_energyPrice = JUndef, xr_networkId = rs_networkId tx, xr_signature = rs_signature tx, xr_startBlock = -1\<rparr>"

definition response_isMined :: "transaction_response \<Rightarrow> bool" where
  "response_isMined tx \<longleftrightarrow> xr_blockHash tx \<noteq> None"

definition response_isLegacy :: "transaction_response \<Rightarrow> bool" where
  "response_isLegacy tx \<longleftrightarrow> xr_type tx = JNum (Fin 0)"

definition replaceableTransaction :: "transaction_response \<Rightarrow> int \<Rightarrow> transaction_response result" where
  "replaceableTransaction tx startBlock =
     bindE (assertArgument (0 \<le> startBlock) ''invalid startBlock'') (\<lambda>_. Inr (tx\<lparr>xr_startBlock := startBlock\<rparr>))"

section \<open>Receipts and logs\<close>

text \<open>The price is \<open>undefined\<close> (\<open>None\<close>) when the answer has none or when it is 0.\<close>

record transaction_receipt =
  tc_to :: "string option"
  tc_from :: "string option"
  tc_contractAddress :: "string option"
  tc_hash :: string
  tc_index :: int
  tc_blockHash :: string
  tc_blockNumber :: int
  tc_logsBloom :: "string option"
  tc_energyUsed :: int
  tc_cumulativeEnergyUsed :: int
  tc_energyPrice :: "int option"
  tc_status :: "int option"
  tc_root :: "string option"
  tc_logs :: "log_params list"

definition new_TransactionReceipt :: "receipt_params \<Rightarrow> transaction_receipt" where
  "new_TransactionReceipt tx =
     \<lparr>tc_to = rp_to tx, tc_from = rp_from tx, tc_contractAddress = rp_contractAddress tx, tc_hash = rp_hash tx,
      tc_index = rp_index tx, tc_blockHash = rp_blockHash tx, tc_blockNumber = rp_blockNumber tx, tc_logsBloom = rp_logsBloom tx,
      tc_energyUsed = rp_energyUsed tx, tc_cumulativeEnergyUsed = rp_cumulativeEnergyUsed tx,
      tc_energyPrice = (case rp_effectiveEnergyPrice tx of Some p \<Rightarrow> if p = 0 then None else Some p | None \<Rightarrow> None),
      tc_status = rp_status tx, tc_root = rp_root tx, tc_logs = rp_logs tx\<rparr>"

definition receipt_fee :: "transaction_receipt \<Rightarrow> int result" where
  "receipt_fee r =
     (case tc_energyPrice r of
        Some p \<Rightarrow> Inr (tc_energyUsed r * p)
      | None \<Rightarrow> Inl (JsError NativeTypeError ''cannot mix BigInt and other types''))"

definition receipt_confirmations :: "int \<Rightarrow> transaction_receipt \<Rightarrow> int" where
  "receipt_confirmations blockNumber r = blockNumber - tc_blockNumber r + 1"

section \<open>Orphan filters\<close>

record tx_place =
  tp_hash :: string
  tp_blockHash :: "string option"
  tp_blockNumber :: "int option"

datatype orphan_filter =
    DropBlock "string option" int
  | DropTransaction tx_place
  | ReorderTransaction tx_place "tx_place option"
  | DropLog log_params

definition place_of_receipt :: "transaction_receipt \<Rightarrow> tx_place" where
  "place_of_receipt r = \<lparr>tp_hash = tc_hash r, tp_blockHash = Some (tc_blockHash r), tp_blockNumber = Some (tc_blockNumber r)\<rparr>"

definition place_of_response :: "transaction_response \<Rightarrow> tx_place" where
  "place_of_response tx = \<lparr>tp_hash = xr_hash tx, tp_blockHash = xr_blockHash tx, tp_blockNumber = xr_blockNumber tx\<rparr>"

definition other_mined :: "transaction_response option \<Rightarrow> unit result" where
  "other_mined other =
     assert (case other of None \<Rightarrow> True | Some o' \<Rightarrow> response_isMined o') ''unmined other transaction cannot be orphaned'' UNSUPPORTED_OPERATION"

definition receipt_reorderedEvent :: "transaction_receipt \<Rightarrow> transaction_response option \<Rightarrow> orphan_filter result" where
  "receipt_reorderedEvent r other =
     bindE (other_mined other) (\<lambda>_. Inr (ReorderTransaction (place_of_receipt r) (map_option place_of_response other)))"

definition response_removedEvent :: "transaction_response \<Rightarrow> orphan_filter result" where
  "response_removedEvent tx =
     bindE (assert (response_isMined tx) ''unmined transaction canot be orphaned'' UNSUPPORTED_OPERATION) (\<lambda>_.
       Inr (DropTransaction (place_of_response tx)))"

definition response_reorderedEvent :: "transaction_response \<Rightarrow> transaction_response option \<Rightarrow> orphan_filter result" where
  "response_reorderedEvent tx other =
     bindE (assert (response_isMined tx) ''unmined transaction canot be orphaned'' UNSUPPORTED_OPERATION) (\<lambda>_.
     bindE (other_mined other) (\<lambda>_. Inr (ReorderTransaction (place_of_response tx) (map_option place_of_response other))))"

section \<open>Blocks\<close>

record block =
  bl_number :: int
  bl_hash :: "string option"
  bl_timestamp :: int
  bl_parentHash :: string
  bl_nonce :: "string option"
  bl_difficulty :: int
  bl_energyLimit :: int
  bl_energyUsed :: int
  bl_miner :: "string option"
  bl_extraData :: string
  bl_baseFeePerEnergy :: "int option"
  bl_transactions :: "(string + transaction_response) list"

definition new_Block :: "block_params \<Rightarrow> block" where
  "new_Block b =
     \<lparr>bl_number = bk_number b, bl_hash = bk_hash b, bl_timestamp = bk_timestamp b, bl_parentHash = bk_parentHash b,
      bl_nonce = bk_nonce b, bl_difficulty = bk_difficulty b, bl_energyLimit = bk_energyLimit b, bl_energyUsed = bk_energyUsed b,
      bl_miner = bk_miner b, bl_extraData = bk_extraData b, bl_baseFeePerEnergy = bk_baseFeePerEnergy b,
      bl_transactions = map (map_sum id new_TransactionResponse) (bk_transactions b)\<rparr>"

definition tx_name :: "string + transaction_response \<Rightarrow> string" where
  "tx_name tx = (case tx of Inl s \<Rightarrow> s | Inr t \<Rightarrow> xr_hash t)"

definition block_hashes :: "block \<Rightarrow> string list" where
  "block_hashes b = map tx_name (bl_transactions b)"

text \<open>Only the first transaction is looked at; later texts would be handed out as they are.\<close>

definition prefetchedTransactions :: "block \<Rightarrow> (string + transaction_response) list result" where
  "prefetchedTransactions b =
     (case bl_transactions b of
        [] \<Rightarrow> Inr []
      | tx # _ \<Rightarrow> bindE (assert (case tx of Inr _ \<Rightarrow> True | Inl _ \<Rightarrow> False)
                          ''transactions were not prefetched with block request'' UNSUPPORTED_OPERATION) (\<lambda>_. Inr (bl_transactions b)))"

text \<open>The search of \<open>getTransaction\<close>: a text is skipped when it differs from the hash, an object when it equals it.\<close>

fun search_block :: "string \<Rightarrow> (string + transaction_response) list \<Rightarrow> (string + transaction_response) option" where
  "search_block hash [] = None"
| "search_block hash (v # vs) =
     (case v of
        Inl s \<Rightarrow> if s \<noteq> hash then search_block hash vs else Some v
      | Inr t \<Rightarrow> if xr_hash t = hash then search_block hash vs else Some v)"

definition at_index :: "'a list \<Rightarrow> int \<Rightarrow> 'a option" where
  "at_index xs i = (if 0 \<le> i \<and> i < int (length xs) then Some (xs ! nat i) else None)"

text \<open>A transaction that is only named is asked for; the answer may be \<open>null\<close>.\<close>

definition block_getTransaction ::
  "(string \<Rightarrow> transaction_response option result) \<Rightarrow> block \<Rightarrow> int + string \<Rightarrow> transaction_response option result" where
  "block_getTransaction fetch b indexOrHash =
     (case (case indexOrHash of
              Inl i \<Rightarrow> at_index (bl_transactions b) i
            | Inr h \<Rightarrow> search_block (map to_lower h) (bl_transactions b)) of
        None \<Rightarrow> Inl (JsError NativeError ''no such tx'')
      | Some (Inl s) \<Rightarrow> fetch s
      | Some (Inr t) \<Rightarrow> Inr (Some t))"

text \<open>A text among the prefetched transactions has no \<open>hash\<close>.\<close>

definition getPrefetchedTransaction :: "block \<Rightarrow> int + string \<Rightarrow> (string + transaction_response) option result" where
  "getPrefetchedTransaction b indexOrHash =
     bindE (prefetchedTransactions b) (\<lambda>txs.
       case indexOrHash of
         Inl i \<Rightarrow> Inr (at_index txs i)
       | Inr h \<Rightarrow> (case find (\<lambda>tx. case tx of Inr t \<Rightarrow> xr_hash t = map to_lower h | Inl _ \<Rightarrow> False) txs of
                    Some tx \<Rightarrow> Inr (Some tx)
                  | None \<Rightarrow> Inl (CoreError INVALID_ARGUMENT ''no matching transaction'')))"

definition block_isMined :: "block \<Rightarrow> bool" where
  "block_isMined b \<longleftrightarrow> (case bl_hash b of Some h \<Rightarrow> h \<noteq> [] | None \<Rightarrow> False)"

definition block_isLondon :: "block \<Rightarrow> bool" where
  "block_isLondon b \<longleftrightarrow> (case bl_baseFeePerEnergy b of Some n \<Rightarrow> n \<noteq> 0 | None \<Rightarrow> False)"

definition block_orphanedEvent :: "block \<Rightarrow> orphan_filter result" where
  "block_orphanedEvent b =
     (if block_isMined b then Inr (DropBlock (bl_hash b) (bl_number b)) else Inl (JsError NativeError []))"

section \<open>What is asked of a node\<close>

text \<open>
  The network check and the answers at one moment. When both the network and the answer
  fail, the error is that of the network.
\<close>

record node =
  nd_network :: "int result"
  nd_perform :: "perform_request \<Rightarrow> js result"

definition with_network :: "node \<Rightarrow> 'a result \<Rightarrow> 'a result" where
  "with_network n r = bindE (nd_network n) (\<lambda>_. r)"

definition getBlockNumber :: "node \<Rightarrow> int result" where
  "getBlockNumber n = bindE (nd_perform n R_getBlockNumber) number_of_js"

text \<open>\<open>#lastBlockNumber\<close> is -1 from the constructor on.\<close>

definition tag_of :: "node \<Rightarrow> js_data option \<Rightarrow> string result" where
  "tag_of n blockTag = getBlockTag (- 1) (getBlockNumber n) blockTag"

definition getAccountValue :: "node \<Rightarrow> (string \<Rightarrow> string \<Rightarrow> perform_request) \<Rightarrow> address_like \<Rightarrow> js_data option \<Rightarrow> js result" where
  "getAccountValue n request address blockTag =
     bindE (resolveAddress address) (\<lambda>a. bindE (tag_of n blockTag) (\<lambda>tag. with_network n (nd_perform n (request a tag))))"

definition getBalance :: "node \<Rightarrow> address_like \<Rightarrow> js_data option \<Rightarrow> int result" where
  "getBalance n address blockTag = bindE (getAccountValue n R_getBalance address blockTag) big_of_js"

definition getTransactionCount :: "node \<Rightarrow> address_like \<Rightarrow> js_data option \<Rightarrow> int result" where
  "getTransactionCount n address blockTag = bindE (getAccountValue n R_getTransactionCount address blockTag) number_of_js"

definition getCode :: "node \<Rightarrow> address_like \<Rightarrow> js_data option \<Rightarrow> string result" where
  "getCode n address blockTag = bindE (getAccountValue n R_getCode address blockTag) hex_of_js"

definition getStorage :: "node \<Rightarrow> address_like \<Rightarrow> js_data \<Rightarrow> js_data option \<Rightarrow> string result" where
  "getStorage n address position blockTag =
     bindE (getBigInt position) (\<lambda>p. bindE (getAccountValue n (\<lambda>a. R_getStorage a p) address blockTag) hex_of_js)"

definition block_answer :: "node \<Rightarrow> js_data option \<Rightarrow> bool \<Rightarrow> js result" where
  "block_answer n block includeTransactions =
     (case block of
        Some (DStr s) \<Rightarrow>
          if isHexString (DStr s) (ExactLength 32) then nd_perform n (R_getBlock_hash s includeTransactions)
          else bindE (tag_of n block) (\<lambda>tag. nd_perform n (R_getBlock_tag tag includeTransactions))
      | _ \<Rightarrow> bindE (tag_of n block) (\<lambda>tag. nd_perform n (R_getBlock_tag tag includeTransactions)))"

definition getBlock :: "(access_set list \<Rightarrow> access_set list) \<Rightarrow> node \<Rightarrow> js_data option \<Rightarrow> bool \<Rightarrow> block option result" where
  "getBlock by_address n block prefetchTxs =
     bindE (with_network n (block_answer n block prefetchTxs)) (\<lambda>params.
       if nullish params then Inr None else mapE (\<lambda>b. Some (new_Block b)) (formatBlock by_address params))"

definition getTransaction :: "(access_set list \<Rightarrow> access_set list) \<Rightarrow> node \<Rightarrow> string \<Rightarrow> transaction_response option result" where
  "getTransaction by_address n hash =
     bindE (with_network n (nd_perform n (R_getTransaction hash))) (\<lambda>params.
       if nullish params then Inr None
       else mapE (\<lambda>t. Some (new_TransactionResponse t)) (formatTransactionResponse by_address params))"

definition set_prop :: "js \<Rightarrow> string \<Rightarrow> js \<Rightarrow> js" where
  "set_prop v key x =
     (case v of
        JObj ps \<Rightarrow> JObj (if key \<in> fst ` set ps then map (\<lambda>p. if fst p = key then (key, x) else p) ps else ps @ [(key, x)])
      | _ \<Rightarrow> v)"

definition getTransactionReceipt :: "node \<Rightarrow> string \<Rightarrow> transaction_receipt option result" where
  "getTransactionReceipt n hash =
     bindE (with_network n (nd_perform n (R_getTransactionReceipt hash))) (\<lambda>params.
       if nullish params then Inr None
       else bindE (get_prop params ''energyPrice'') (\<lambda>price.
            bindE (get_prop params ''effectiveEnergyPrice'') (\<lambda>effective.
            bindE (if nullish price \<and> nullish effective
                   then bindE (nd_perform n (R_getTransaction hash)) (\<lambda>tx.
                          if nullish tx then Inl (JsError NativeError ''report this; could not find tx or effectiveEnergyPrice'')
                          else mapE (set_prop params ''effectiveEnergyPrice'') (get_prop tx ''energyPrice''))
                   else Inr params) (\<lambda>params.
              mapE (\<lambda>r. Some (new_TransactionReceipt r)) (formatTransactionReceipt params)))))"

definition getTransactionResult :: "node \<Rightarrow> string \<Rightarrow> string option result" where
  "getTransactionResult n hash =
     bindE (with_network n (nd_perform n (R_getTransactionResult hash))) (\<lambda>r.
       if nullish r then Inr None else mapE Some (hex_of_js r))"

definition getLogs :: "node \<Rightarrow> filter_request \<Rightarrow> log_params list result" where
  "getLogs n f =
     bindE (getFilter (- 1) (getBlockNumber n) f) (\<lambda>filter'.
     bindE (with_network n (nd_perform n (R_getLogs filter'))) (\<lambda>params.
       case params of
         JArr ps \<Rightarrow> mapM formatLog ps
       | _ \<Rightarrow> Inl (JsError NativeTypeError ''params.map is not a function'')))"

definition getFeeData :: "(access_set list \<Rightarrow> access_set list) \<Rightarrow> node \<Rightarrow> int option result" where
  "getFeeData by_address n =
     bindE (getBlock by_address n (Some (DStr ''latest'')) False) (\<lambda>_.
       Inr (case bindE (nd_perform n R_getEnergyPrice) big_of_js of Inr p \<Rightarrow> Some p | Inl _ \<Rightarrow> None))"

text \<open>
  \<open>getNetwork\<close>: networks are compared by their id. The promise that is kept is the
  second part of what is returned.
\<close>

definition getNetwork :: "bool \<Rightarrow> int option \<Rightarrow> int result \<Rightarrow> int result \<times> int option" where
  "getNetwork anyNetwork networkPromise detected =
     (case networkPromise of
        None \<Rightarrow> (case detected of Inr network \<Rightarrow> (Inr network, Some network) | Inl e \<Rightarrow> (Inl e, None))
      | Some expected \<Rightarrow>
          (case detected of
             Inl e \<Rightarrow> (Inl e, networkPromise)
           | Inr actual \<Rightarrow>
               if expected \<noteq> actual
               then if anyNetwork then (Inr expected, Some actual)
                    else (Inl (CoreError NETWORK_ERROR (''network changed: '' @ int_toString 10 expected @ '' => '' @ int_toString 10 actual @ '' '')), networkPromise)
               else (Inr expected, networkPromise)))"

section \<open>Broadcasting\<close>

text \<open>A \<open>Transaction\<close> as the object it is for the formatter: its getters.\<close>

definition js_of_sig :: "js_data option \<Rightarrow> js" where
  "js_of_sig s = (case s of Some (DStr t) \<Rightarrow> JStr t | Some (DBig n) \<Rightarrow> JBig n | Some (DNum x) \<Rightarrow> JNum x | Some _ \<Rightarrow> JObj [] | None \<Rightarrow> JNull)"

definition js_of_text :: "string option \<Rightarrow> js" where
  "js_of_text t = (case t of Some s \<Rightarrow> JStr s | None \<Rightarrow> JNull)"

definition transaction_object :: "string option \<Rightarrow> string option \<Rightarrow> transaction \<Rightarrow> js" where
  "transaction_object hash from tx =
     JObj [(''hash'', js_of_text hash), (''from'', js_of_text from), (''to'', js_of_text (tx_to tx)),
           (''nonce'', JNum (num_of_int (tx_nonce tx))), (''energyLimit'', JBig (tx_energyLimit tx)),
           (''energyPrice'', JBig (get_energyPrice tx)), (''data'', JStr (tx_data tx)), (''value'', JBig (tx_value tx)),
           (''networkId'', JBig (tx_networkId tx)), (''signature'', js_of_sig (get_signature tx))]"

definition broadcastTransaction ::
  "'bn bn_lib \<Rightarrow> ed448_lib \<Rightarrow> (byte list \<Rightarrow> byte list) \<Rightarrow> (access_set list \<Rightarrow> access_set list) \<Rightarrow> node \<Rightarrow> string \<Rightarrow>
   transaction_response result" where
  "broadcastTransaction lib ed H by_address n signedTx =
     bindE (getBlockNumber n) (\<lambda>blockNumber.
     bindE (nd_perform n (R_broadcastTransaction signedTx)) (\<lambda>hash.
     bindE (nd_network n) (\<lambda>_.
     bindE (from_string lib ed H signedTx) (\<lambda>tx.
     bindE (tx_hash H tx) (\<lambda>h.
       if js_of_text h \<noteq> hash then Inl (JsError NativeError ''@TODO: the returned hash did not match'')
       else bindE (tx_from ed H tx) (\<lambda>from.
            bindE (formatTransactionResponse by_address (transaction_object h from tx)) (\<lambda>params.
              replaceableTransaction (new_TransactionResponse params) blockNumber)))))))"

end
