(* ===== verification/Sending.thy ===== *)
theory Sending
  imports Signers_Props Provider_Data
begin

text \<open>
  From a wallet to the response of a provider: \<open>sendTransaction\<close> of a signer is
  \<open>populateTransaction\<close>, \<open>signTransaction\<close> and \<open>broadcastTransaction\<close> of its provider; and
  what the answers of a node become.
\<close>

section \<open>The whole of sendTransaction\<close>

definition signer_sendTransaction ::
  "'bn bn_lib \<Rightarrow> ed448_lib \<Rightarrow> (byte list \<Rightarrow> byte list) \<Rightarrow> (access_set list \<Rightarrow> access_set list) \<Rightarrow> node \<Rightarrow> signer_provider option \<Rightarrow>
   base_wallet \<Rightarrow> transaction_request \<Rightarrow> transaction_response result" where
  "signer_sendTransaction lib ed H by_address nd p w tx =
     bindE (signer_send ed H p w tx) (broadcastTransaction lib ed H by_address nd)"

section \<open>A transaction as an answer\<close>

lemma is_hex_item: "is_hex (JStr (item bs)) EvenLength" "is_hex (JStr (item bs)) (ExactLength n) \<longleftrightarrow> length bs = n"
  by (simp_all add: is_hex_def item_def matches_hex_def)

lemma getAddress_same: "getAddress s = Inr a \<Longrightarrow> getAddress a = Inr a"
  by (erule getAddress_valid) (simp add: getAddress_iff [simplified])

lemma getAddress_prefixed: "getAddress (''0x'' @ r) = Inr a \<Longrightarrow> a = ''0x'' @ r"
  using getAddress_iff by blast

definition response_of :: "string \<Rightarrow> string \<Rightarrow> transaction \<Rightarrow> string \<Rightarrow> response_params" where
  "response_of h f t sig =
     \<lparr>rs_hash = h, rs_type = 0, rs_accessList = None, rs_blockHash = None, rs_blockNumber = None, rs_transactionIndex = None,
      rs_from = f, rs_maxFeePerEnergy = None, rs_energyLimit = tx_energyLimit t, rs_to = tx_to t, rs_value = tx_value t,
      rs_nonce = tx_nonce t, rs_data = tx_data t, rs_creates = (if tx_to t = None then Some f else None),
      rs_networkId = JBig (tx_networkId t), rs_signature = JStr sig\<rparr>"

lemma read_own:
  assumes "get_prop v key = Inr x" and "alts = [] \<or> in_value v key = Inr True" and "f x = Inr y"
  shows "read_field v key alts f = Inr y"
  using assms by (auto simp: read_field_def source_key_def)

lemma object_props:
  fixes h f :: string and t :: transaction
  defines "v \<equiv> transaction_object (Some h) (Some f) t"
  shows "get_prop v ''hash'' = Inr (JStr h)" "get_prop v ''from'' = Inr (JStr f)" "get_prop v ''to'' = Inr (js_of_text (tx_to t))"
    "get_prop v ''nonce'' = Inr (JNum (num_of_int (tx_nonce t)))" "get_prop v ''energyLimit'' = Inr (JBig (tx_energyLimit t))"
    "get_prop v ''data'' = Inr (JStr (tx_data t))" "get_prop v ''value'' = Inr (JBig (tx_value t))"
    "get_prop v ''networkId'' = Inr (JBig (tx_networkId t))" "get_prop v ''signature'' = Inr (js_of_sig (get_signature t))"
    "get_prop v ''type'' = Inr JUndef" "get_prop v ''accessList'' = Inr JUndef" "get_prop v ''blockHash'' = Inr JUndef"
    "get_prop v ''blockNumber'' = Inr JUndef" "get_prop v ''transactionIndex'' = Inr JUndef" "get_prop v ''maxFeePerEnergy'' = Inr JUndef"
    "get_prop v ''creates'' = Inr JUndef" "in_value v ''energyLimit'' = Inr True" "in_value v ''data'' = Inr True"
  by (simp_all add: v_def transaction_object_def get_prop_def in_value_def js_of_text_def)

lemma optionally_undef: "optionally f JUndef = Inr None"
  by (simp add: optionally_def allowNull_def nullish_def)

lemma format_fields:
  assumes "length hb = 32" and "getAddress f = Inr f" and "tx_typed t"
  shows "response_fields S (transaction_object (Some (item hb)) (Some f) t) =
    Inr ((response_of (item hb) f t sig)\<lparr>rs_creates := None, rs_signature := JUndef\<rparr>)"
proof -
  obtain d where d: "tx_data t = item d" "safe_range (tx_nonce t)" "valid_to (tx_to t)" using assms(3) by (auto simp: tx_typed_def)
  note pr = object_props [of "item hb" f t]
  have to: "optionally address_of_js (js_of_text (tx_to t)) = Inr (tx_to t)"
    using d(3) getAddress_iff
    by (auto simp: valid_to_def optionally_def allowNull_def nullish_def address_of_js_def js_of_text_def split: option.splits)
  have n: "number_of_js (JNum (num_of_int (tx_nonce t))) = Inr (tx_nonce t)"
    using d(2) by (simp add: number_of_js_def checked_number_int [simplified] getNumber_bigint_def assertArgument_def)
  have h: "formatHash (JStr (item hb)) = Inr (item hb)" "formatData (JStr (tx_data t)) = Inr (tx_data t)"
    using assms(1) is_hex_item by (simp_all add: formatHash_def formatData_def js_text_def assertArgument_def d(1))
  have big: "big_of_js (JBig k) = Inr k" "optionally big_of_js (JBig k) = Inr (Some k)" for k
    by (simp_all add: big_of_js_def optionally_def allowNull_def nullish_def)
  have a: "address_of_js (JStr f) = Inr f" "response_type JUndef = Inr 0" using assms(2) by (simp_all add: address_of_js_def response_type_def nullish_def)
  define v where "v = transaction_object (Some (item hb)) (Some f) t"
  note pv = pr [folded v_def]
  have r: "read_field v ''hash'' [] formatHash = Inr (item hb)" "read_field v ''type'' [] response_type = Inr 0"
    "read_field v ''accessList'' [] (optionally (accessListify S)) = Inr None" "read_field v ''blockHash'' [] (optionally formatHash) = Inr None"
    "read_field v ''blockNumber'' [] (optionally number_of_js) = Inr None" "read_field v ''transactionIndex'' [] (optionally number_of_js) = Inr None"
    "read_field v ''from'' [] address_of_js = Inr f" "read_field v ''maxFeePerEnergy'' [] (optionally big_of_js) = Inr None"
    "read_field v ''energyLimit'' [''energy''] big_of_js = Inr (tx_energyLimit t)" "read_field v ''to'' [] (optionally address_of_js) = Inr (tx_to t)"
    "read_field v ''value'' [] big_of_js = Inr (tx_value t)" "read_field v ''nonce'' [] number_of_js = Inr (tx_nonce t)"
    "read_field v ''data'' [''input''] formatData = Inr (tx_data t)" "read_field v ''creates'' [] (optionally address_of_js) = Inr None"
    "read_field v ''networkId'' [] (optionally big_of_js) = Inr (Some (tx_networkId t))"
    by (rule read_own, rule pv, simp add: pv, simp add: h a to n big optionally_undef)+
  show ?thesis unfolding response_fields_def v_def [symmetric] r bindE_simps by (simp add: response_of_def)
qed

lemma format_object:
  assumes "length hb = 32" and "getAddress f = Inr f" and "tx_typed t" and "tx_sig t = Some (DStr (c # r))"
  shows "formatTransactionResponse S (transaction_object (Some (item hb)) (Some f) t) = Inr (response_of (item hb) f t (c # r))"
proof -
  obtain d where d: "safe_range (tx_nonce t)" "valid_to (tx_to t)" using assms(3) by (auto simp: tx_typed_def)
  note pr = object_props [of "item hb" f t]
  have to: "tx_to t = None \<or> (\<exists>a. tx_to t = Some a \<and> getAddress a = Inr a \<and> a \<noteq> [])"
    using d(2) getAddress_iff by (auto simp: valid_to_def split: option.splits)
  have n: "getBigInt (DNum (num_of_int (tx_nonce t))) = Inr (tx_nonce t)"
    using d(1) by (simp add: checked_number_int [simplified] getNumber_bigint_def assertArgument_def)
  have sig: "js_of_sig (get_signature t) = JStr (c # r)" using assms(4) by (simp add: get_signature_def js_of_sig_def)
  have z: "zero_to (transaction_object (Some (item hb)) (Some f) t) = Inr (transaction_object (Some (item hb)) (Some f) t)"
  proof (cases "tx_to t")
    case None
    then show ?thesis by (simp add: zero_to_def pr(3) js_of_text_def js_truthy_def)
  next
    case (Some a)
    then have "getAddress a = Inr a" "a \<noteq> []" using to by auto
    then show ?thesis by (simp add: zero_to_def pr(3) js_of_text_def js_truthy_def address_of_js_def Some)
  qed
  show ?thesis using n assms(2)
    by (simp add: formatTransactionResponse_def z format_fields [OF assms(1-3), of S "c # r"] pr sig js_truthy_def nullish_def
        getCreateAddress_def response_of_def Let_def)
qed

section \<open>What is sent is what the response says\<close>

lemma address_of_wallet:
  assumes "\<And>x. length (H x) = 32" and "new_Wallet ed H key pre = Inr w" and "length pre = 2" and "list_all is_hex_char pre"
  shows "getAddress (bw_address w) = Inr (bw_address w)"
proof -
  obtain k pub where p: "computePublicKey ed (DStr k) = Inr pub" "publicToAddress H (DStr pub) pre = Inr (bw_address w)"
    using assms(2) by (auto simp: new_Wallet_def new_BaseWallet_def computeAddress_key_def)
  then obtain bs where "getBytes (DStr pub) = Inr bs" by (auto simp: publicToAddress_def sha256_def)
  from publicToAddress_valid [OF this, where H = H and pre = pre] assms(1,3,4) p(2) show ?thesis by auto
qed

lemma broadcast_response:
  assumes "from_string lib ed H raw = Inr t" and "tx_from ed H t = Inr (Some f)" and "getAddress f = Inr f" and "tx_typed t"
    and "tx_hash H t = Inr (Some (item hb))" and "length hb = 32" and "tx_sig t = Some (DStr (c # r))"
  shows "broadcastTransaction lib ed H S nd raw = Inr resp \<longleftrightarrow>
    nd_perform nd (R_broadcastTransaction raw) = Inr (JStr (item hb)) \<and> (\<exists>network. nd_network nd = Inr network) \<and>
    (\<exists>head. getBlockNumber nd = Inr head \<and> 0 \<le> head \<and>
      resp = (new_TransactionResponse (response_of (item hb) f t (c # r)))\<lparr>xr_startBlock := head\<rparr>)"
  using format_object [OF assms(6,3,4,7)]
  by (auto simp: broadcastTransaction_def assms(1,2,5) js_of_text_def replaceableTransaction_def assertArgument_def
      split: if_splits)

text \<open>
  C38. What \<open>sendTransaction\<close> of a wallet returns describes what was broadcast: the text
  that went out reads back as a transaction of the provider's network that is from the
  wallet, and the response has the sender, recipient, nonce, value, data and hash of that
  transaction and can be waited for from the head that the node answered. The response
  has no energy price. This needs the wallet to be made with the prefix of the network.
\<close>

theorem sent_response:
  assumes "ed448_ok ed" and "\<And>x. length (H x) = 32" and "bn_strings_ok lib val"
    and "new_Wallet ed H key pre = Inr w" and "length pre = 2" and "list_all is_hex_char pre"
    and "sp_networkId provider = Inr n" and "networkIdToPrefix (to_double (of_int n)) = Inr pre"
    and "signer_send ed H (Some provider) w tx = Inr raw" and "length raw < 2 ^ 31"
    and "signer_sendTransaction lib ed H S nd (Some provider) w tx = Inr resp"
  shows "\<exists>t. from_string lib ed H raw = Inr t \<and> tx_networkId t = n \<and> tx_from ed H t = Inr (Some (bw_address w)) \<and>
    tx_hash H t = Inr (Some (xr_hash resp)) \<and> nd_perform nd (R_broadcastTransaction raw) = Inr (JStr (xr_hash resp)) \<and>
    xr_from resp = bw_address w \<and> xr_to resp = tx_to t \<and> xr_nonce resp = tx_nonce t \<and> xr_value resp = tx_value t \<and>
    xr_data resp = tx_data t \<and> xr_energyPrice resp = JUndef \<and> getBlockNumber nd = Inr (xr_startBlock resp) \<and> 0 \<le> xr_startBlock resp"
proof -
  obtain t e sg where t: "from_string lib ed H raw = Inr t" "tx_networkId t = n" "tx_from ed H t = Inr (Some (bw_address w))"
    "tx_typed t" "tx_hash H t = Inr (Some (item (H e)))" "tx_sig t = Some (DStr (CHR ''0'' # (''x'' @ hex_of_bytes sg)))"
    using sent_from_wallet [OF assms(1-4,7-10)] by (metis append_Cons)
  have to: "tx_to t \<noteq> Some []" using t(4) by (auto simp: tx_typed_def valid_to_def)
  have "broadcastTransaction lib ed H S nd raw = Inr resp" using assms(9,11) by (simp add: signer_sendTransaction_def)
  then obtain head where "nd_perform nd (R_broadcastTransaction raw) = Inr (JStr (item (H e)))" "getBlockNumber nd = Inr head" "0 \<le> head"
    "resp = (new_TransactionResponse (response_of (item (H e)) (bw_address w) t (CHR ''0'' # (''x'' @ hex_of_bytes sg))))\<lparr>xr_startBlock := head\<rparr>"
    using broadcast_response [OF t(1,3) address_of_wallet [OF assms(2,4,5,6)] t(4,5) assms(2) t(6)] by blast
  then show ?thesis using t to by (auto simp: new_TransactionResponse_def response_of_def split: option.splits)
qed

definition example_node :: "string \<Rightarrow> node" where
  "example_node h = \<lparr>nd_network = Inr 1, nd_perform = (\<lambda>r. case r of R_broadcastTransaction _ \<Rightarrow> Inr (JStr h) | _ \<Rightarrow> Inr (JBig 7))\<rparr>"

theorem sent_response_witness:
  "\<exists>w h resp. new_Wallet toy_ed448 example_hash example_key ''cb'' = Inr w \<and>
     signer_sendTransaction int_bn toy_ed448 example_hash id (example_node h) (Some example_provider) w example_request = Inr resp \<and>
     xr_from resp = bw_address w \<and> xr_startBlock resp = 7"
proof -
  have hb: "length (example_hash bs) = 32" for bs by (simp add: example_hash_def)
  have pre: "length ''cb'' = 2" "list_all is_hex_char ''cb''" by (simp_all add: is_hex_char_cases)
  obtain w raw where w: "new_Wallet toy_ed448 example_hash example_key ''cb'' = Inr w"
    "signer_send toy_ed448 example_hash (Some example_provider) w example_request = Inr raw" "length raw < 2 ^ 31"
    by (rule example_sending)
  obtain t e sg where t: "from_string int_bn toy_ed448 example_hash raw = Inr t" "tx_from toy_ed448 example_hash t = Inr (Some (bw_address w))"
    "tx_typed t" "tx_hash example_hash t = Inr (Some (item (example_hash e)))" "tx_sig t = Some (DStr (CHR ''0'' # (''x'' @ hex_of_bytes sg)))"
    using sent_from_wallet [OF toy_ed448_ok hb int_bn_ok(1) w(1) example_provider_network w(2,3)] by (metis append_Cons)
  define nd where "nd = example_node (item (example_hash e))"
  have n: "getBlockNumber nd = Inr 7"
    by (simp add: nd_def example_node_def getBlockNumber_def number_of_js_def getNumber_bigint_def safe_range_def maxValue_def assertArgument_def)
  obtain resp where "broadcastTransaction int_bn toy_ed448 example_hash id nd raw = Inr resp"
    using broadcast_response [OF t(1,2) address_of_wallet [OF hb w(1) pre] t(3,4) hb t(5), of id nd] n
    by (simp add: nd_def example_node_def)
  then have send: "signer_sendTransaction int_bn toy_ed448 example_hash id nd (Some example_provider) w example_request = Inr resp"
    using w(2) by (simp add: signer_sendTransaction_def)
  from sent_response [OF toy_ed448_ok hb int_bn_ok(1) w(1) pre example_provider_network w(2,3) send] n w(1) send
  show ?thesis unfolding nd_def by auto
qed

section \<open>Answers of a node\<close>

text \<open>
  Whatever a node answers, the response made of it has no energy price, no index and no
  type: the price and the index are read under names that the formatter does not write.
\<close>

lemma response_without_price:
  assumes "getTransaction S nd h = Inr (Some tx)"
  shows "xr_energyPrice tx = JUndef" and "xr_index tx = JUndef" and "\<not> response_isLegacy tx"
  using assms by (auto simp: getTransaction_def new_TransactionResponse_def response_isLegacy_def split: if_splits)

text \<open>
  \<open>getTransaction\<close> of a block with prefetched transactions gives, for a hash, the first
  transaction with another hash.
\<close>

lemma getTransaction_other:
  assumes "bl_transactions b = map Inr ts"
  shows "block_getTransaction fetch b (Inr h) =
    (case find (\<lambda>t. xr_hash t \<noteq> map to_lower h) ts of Some t \<Rightarrow> Inr (Some t) | None \<Rightarrow> Inl (JsError NativeError ''no such tx''))"
proof -
  have "search_block k (map Inr ts) = map_option Inr (find (\<lambda>t. xr_hash t \<noteq> k) ts)" for k by (induction ts) auto
  then show ?thesis unfolding block_getTransaction_def assms by (auto split: option.splits)
qed

text \<open>A receipt whose energy was free has no fee.\<close>

lemma free_receipt_no_fee: "rp_effectiveEnergyPrice p = Some 0 \<Longrightarrow> receipt_fee (new_TransactionReceipt p) = Inl (JsError NativeTypeError ''cannot mix BigInt and other types'')"
  by (simp add: receipt_fee_def new_TransactionReceipt_def)

end
