(* ===== verification/Provider_Wait.thy ===== *)
theory Provider_Wait
  imports Provider_Data
begin

text \<open>
  Waiting for a transaction: \<open>wait\<close> of \<open>TransactionResponse\<close> in
  \<open>src.ts/providers/provider.ts\<close> with its search for a transaction that replaced it, and
  \<open>waitForTransaction\<close> of \<open>src.ts/providers/abstract-provider.ts\<close>. Each request is answered
  by the provider as it is at that time: the provider is a function of a clock that goes on
  by one with every request, and so is the flag that stops the search.
\<close>

section \<open>The provider of a transaction\<close>

record tx_provider =
  tp_getBlockNumber :: "int result"
  tp_getTransactionCount :: "string \<Rightarrow> int result"
  tp_getTransaction :: "string \<Rightarrow> transaction_response option result"
  tp_getBlock :: "int \<Rightarrow> block option result"
  tp_getTransactionReceipt :: "string \<Rightarrow> transaction_receipt option result"

text \<open>The provider that asks a node.\<close>

definition tx_provider_of :: "(access_set list \<Rightarrow> access_set list) \<Rightarrow> node \<Rightarrow> tx_provider" where
  "tx_provider_of by_address n =
     \<lparr>tp_getBlockNumber = getBlockNumber n,
      tp_getTransactionCount = (\<lambda>a. getTransactionCount n (AStr a) None),
      tp_getTransaction = getTransaction by_address n,
      tp_getBlock = (\<lambda>i. getBlock by_address n (Some (DNum (num_of_int i))) True),
      tp_getTransactionReceipt = getTransactionReceipt n\<rparr>"

type_synonym tx_net = "nat \<Rightarrow> tx_provider"

section \<open>The search for a replacement\<close>

record wait_scan =
  ws_startBlock :: int
  ws_nextScan :: int
  ws_clock :: nat

datatype replace_reason = ReplacedReason | RepricedReason | CancelledReason

record replacement =
  re_cancelled :: bool
  re_reason :: replace_reason
  re_replacement :: transaction_response
  re_hash :: string
  re_receipt :: transaction_receipt

text \<open>How a check ends: it returns, it throws that the transaction was replaced, or it throws otherwise.\<close>

datatype check_end = Returned | TxReplaced replacement | CheckFailed error

definition reason_of :: "transaction_response \<Rightarrow> transaction_response \<Rightarrow> replace_reason" where
  "reason_of this tx =
     (if xr_data tx = xr_data this \<and> xr_to tx = xr_to this \<and> xr_value tx = xr_value this then RepricedReason
      else if xr_data tx = ''0x'' \<and> Some (xr_from tx) = xr_to tx \<and> xr_value tx = 0 then CancelledReason
      else ReplacedReason)"

text \<open>A transaction of the same sender with the same nonce: its receipt decides.\<close>

definition replaced_by ::
  "(nat \<Rightarrow> bool) \<Rightarrow> tx_net \<Rightarrow> int \<Rightarrow> transaction_response \<Rightarrow> int \<Rightarrow> transaction_response \<Rightarrow> wait_scan \<Rightarrow> check_end \<times> wait_scan" where
  "replaced_by stop net confirms this blockNumber tx s =
     (let t = ws_clock s; s' = s\<lparr>ws_clock := t + 1\<rparr>
      in if stop t then (Returned, s)
         else case tp_getTransactionReceipt (net t) (xr_hash tx) of
                Inl e \<Rightarrow> (CheckFailed e, s')
              | Inr None \<Rightarrow> (Returned, s')
              | Inr (Some receipt) \<Rightarrow>
                  if blockNumber - tc_blockNumber receipt + 1 < confirms then (Returned, s')
                  else let reason = reason_of this tx
                       in case replaceableTransaction tx (ws_startBlock s) of
                            Inl e \<Rightarrow> (CheckFailed e, s')
                          | Inr r \<Rightarrow>
                              (TxReplaced \<lparr>re_cancelled = (reason \<noteq> RepricedReason), re_reason = reason, re_replacement = r,
                                 re_hash = xr_hash tx, re_receipt = receipt\<rparr>, s'))"

text \<open>The transactions of a block; \<open>None\<close> when none of them replaces this one.\<close>

fun search_replacement ::
  "(nat \<Rightarrow> bool) \<Rightarrow> tx_net \<Rightarrow> int \<Rightarrow> transaction_response \<Rightarrow> int \<Rightarrow> (string + transaction_response) list \<Rightarrow> wait_scan \<Rightarrow>
   check_end option \<times> wait_scan" where
  "search_replacement stop net confirms this blockNumber [] s = (None, s)"
| "search_replacement stop net confirms this blockNumber (v # vs) s =
     (case v of
        Inr tx \<Rightarrow>
          if xr_from tx = xr_from this \<and> xr_nonce tx = xr_nonce this
          then map_prod Some id (replaced_by stop net confirms this blockNumber tx s)
          else search_replacement stop net confirms this blockNumber vs s
      | Inl h \<Rightarrow>
          let s' = s\<lparr>ws_clock := ws_clock s + 1\<rparr>
          in case tp_getTransaction (net (ws_clock s)) h of
               Inl e \<Rightarrow> (Some (CheckFailed e), s')
             | Inr None \<Rightarrow> (Some (CheckFailed (JsError NativeTypeError ''cannot read properties of null'')), s')
             | Inr (Some tx) \<Rightarrow>
                 if xr_from tx = xr_from this \<and> xr_nonce tx = xr_nonce this
                 then map_prod Some id (replaced_by stop net confirms this blockNumber tx s')
                 else search_replacement stop net confirms this blockNumber vs s')"

text \<open>The loop over the blocks, up to the head.\<close>

function scan_blocks ::
  "(nat \<Rightarrow> bool) \<Rightarrow> tx_net \<Rightarrow> int \<Rightarrow> transaction_response \<Rightarrow> int \<Rightarrow> wait_scan \<Rightarrow> check_end \<times> wait_scan" where
  "scan_blocks stop net confirms this blockNumber s =
     (if blockNumber < ws_nextScan s then (Returned, s)
      else if stop (ws_clock s) then (Returned, s)
      else let s' = s\<lparr>ws_clock := ws_clock s + 1\<rparr>
           in case tp_getBlock (net (ws_clock s)) (ws_nextScan s) of
                Inl e \<Rightarrow> (CheckFailed e, s')
              | Inr None \<Rightarrow> (Returned, s')
              | Inr (Some b) \<Rightarrow>
                  if xr_hash this \<in> set (block_hashes b) then (Returned, s')
                  else case search_replacement stop net confirms this blockNumber (bl_transactions b) s' of
                         (Some r, s'') \<Rightarrow> (r, s'')
                       | (None, s'') \<Rightarrow>
                           scan_blocks stop net confirms this blockNumber (s''\<lparr>ws_nextScan := ws_nextScan s + 1\<rparr>))"
  by pat_completeness auto
termination by (relation "measure (\<lambda>(stop, net, confirms, this, blockNumber, s). nat (blockNumber + 1 - ws_nextScan s))") auto

declare scan_blocks.simps [simp del]

definition first_scan :: "transaction_response \<Rightarrow> wait_scan \<Rightarrow> int" where
  "first_scan this s =
     (if ws_nextScan s = -1
      then if ws_startBlock s - 3 < xr_startBlock this then xr_startBlock this else ws_startBlock s - 3
      else ws_nextScan s)"

definition checkReplacement ::
  "(nat \<Rightarrow> bool) \<Rightarrow> tx_net \<Rightarrow> int \<Rightarrow> transaction_response \<Rightarrow> wait_scan \<Rightarrow> check_end \<times> wait_scan" where
  "checkReplacement stop net confirms this s =
     (let t = ws_clock s; s1 = s\<lparr>ws_clock := t + 1\<rparr>
      in if stop t then (Returned, s)
         else case tp_getBlockNumber (net t) of
                Inl e \<Rightarrow> (CheckFailed e, s1)
              | Inr blockNumber \<Rightarrow>
         case tp_getTransactionCount (net t) (xr_from this) of
                Inl e \<Rightarrow> (CheckFailed e, s1)
              | Inr nonce \<Rightarrow>
         if nonce < xr_nonce this then (Returned, s1\<lparr>ws_startBlock := blockNumber\<rparr>)
         else if stop (t + 1) then (Returned, s1)
         else let s2 = s1\<lparr>ws_clock := t + 2\<rparr>
              in case tp_getTransaction (net (t + 1)) (xr_hash this) of
                   Inl e \<Rightarrow> (CheckFailed e, s2)
                 | Inr mined \<Rightarrow>
                     if (case mined of Some m \<Rightarrow> xr_blockNumber m \<noteq> None | None \<Rightarrow> False) then (Returned, s2)
                     else scan_blocks stop net confirms this blockNumber (s2\<lparr>ws_nextScan := first_scan this s2\<rparr>))"

section \<open>Waiting\<close>

text \<open>
  How \<open>wait\<close> ends. While it waits, the receipts that are emitted for the hash (with the
  block number that is answered when their confirmations are counted), new blocks and the
  timeout come in any order; a check that a block starts may find the search stopped.
\<close>

datatype wait_end = Resolved "transaction_receipt option" | RejectedReplaced replacement | RejectedError error

record wait_state =
  wt_scan :: wait_scan
  wt_watch :: bool
  wt_end :: "wait_end option"

datatype wait_event = ReceiptEvent transaction_receipt "int result" | BlockEvent "nat \<Rightarrow> bool" tx_net | TimeoutEvent

definition wait_scan_init :: "transaction_response \<Rightarrow> wait_scan" where
  "wait_scan_init this = \<lparr>ws_startBlock = xr_startBlock this, ws_nextScan = -1, ws_clock = 0\<rparr>"

text \<open>The search never runs for a transaction without a first block.\<close>

definition check_unless_stopped ::
  "(nat \<Rightarrow> bool) \<Rightarrow> tx_net \<Rightarrow> int \<Rightarrow> transaction_response \<Rightarrow> wait_scan \<Rightarrow> check_end \<times> wait_scan" where
  "check_unless_stopped stop net confirms this s = checkReplacement (\<lambda>t. xr_startBlock this = -1 \<or> stop t) net confirms this s"

text \<open>The part of \<open>wait\<close> before the promise: the receipt, its confirmations, a first check.\<close>

definition wait_watching :: "wait_scan \<Rightarrow> wait_state" where
  "wait_watching s = \<lparr>wt_scan = s, wt_watch = (0 \<le> ws_startBlock s), wt_end = None\<rparr>"

definition wait_over :: "wait_scan \<Rightarrow> wait_end \<Rightarrow> wait_state" where
  "wait_over s r = \<lparr>wt_scan = s, wt_watch = False, wt_end = Some r\<rparr>"

definition wait_begin :: "tx_provider \<Rightarrow> tx_provider \<Rightarrow> tx_net \<Rightarrow> int \<Rightarrow> transaction_response \<Rightarrow> wait_state" where
  "wait_begin first second net confirms this =
     (let s = wait_scan_init this
      in case tp_getTransactionReceipt first (xr_hash this) of
           Inl e \<Rightarrow> wait_over s (RejectedError e)
         | Inr (Some receipt) \<Rightarrow>
             (case tp_getBlockNumber second of
                Inl e \<Rightarrow> wait_over s (RejectedError e)
              | Inr n \<Rightarrow> if confirms \<le> receipt_confirmations n receipt then wait_over s (Resolved (Some receipt)) else wait_watching s)
         | Inr None \<Rightarrow>
             (case check_unless_stopped (\<lambda>t. False) net confirms this s of
                (TxReplaced r, s') \<Rightarrow> wait_over s' (RejectedReplaced r)
              | (CheckFailed e, s') \<Rightarrow> wait_over s' (RejectedError e)
              | (Returned, s') \<Rightarrow> if confirms = 0 then wait_over s' (Resolved None) else wait_watching s'))"

text \<open>
  The listeners of the promise. A count of confirmations that fails is an unhandled
  rejection of the listener; an error of a check other than a replacement is swallowed. The
  listener for blocks is only set when the search has a first block.
\<close>

definition wait_step :: "int \<Rightarrow> transaction_response \<Rightarrow> wait_event \<Rightarrow> wait_state \<Rightarrow> wait_state" where
  "wait_step confirms this e w =
     (if wt_end w \<noteq> None then w
      else case e of
             ReceiptEvent receipt number \<Rightarrow>
               (case number of
                  Inl _ \<Rightarrow> w
                | Inr n \<Rightarrow> if confirms \<le> receipt_confirmations n receipt then w\<lparr>wt_end := Some (Resolved (Some receipt))\<rparr> else w)
           | BlockEvent stop net \<Rightarrow>
               if \<not> wt_watch w then w
               else (case check_unless_stopped stop net confirms this (wt_scan w) of
                       (TxReplaced r, s') \<Rightarrow> w\<lparr>wt_scan := s', wt_end := Some (RejectedReplaced r)\<rparr>
                     | (_, s') \<Rightarrow> w\<lparr>wt_scan := s'\<rparr>)
           | TimeoutEvent \<Rightarrow> w\<lparr>wt_end := Some (RejectedError (CoreError TIMEOUT ''wait for transaction timeout''))\<rparr>)"

definition wait_run ::
  "tx_provider \<Rightarrow> tx_provider \<Rightarrow> tx_net \<Rightarrow> int \<Rightarrow> transaction_response \<Rightarrow> wait_event list \<Rightarrow> wait_state" where
  "wait_run first second net confirms this es =
     foldl (\<lambda>w e. wait_step confirms this e w) (wait_begin first second net confirms this) es"

section \<open>waitForTransaction\<close>

text \<open>
  The listener runs for a block number, asks for the receipt and, unless it has enough
  confirmations, sets itself again for one block. The timeout takes the listener away.
\<close>

record wait_for =
  wf_listening :: bool
  wf_running :: "int option"
  wf_timer :: bool
  wf_end :: "wait_end option"

datatype wait_for_event = WfBlock int | WfAnswer "transaction_receipt option result" | WfTimeout

definition wait_for_begin :: "bool \<Rightarrow> int \<Rightarrow> wait_for" where
  "wait_for_begin timeout blockNumber = \<lparr>wf_listening = False, wf_running = Some blockNumber, wf_timer = timeout, wf_end = None\<rparr>"

definition wf_settle :: "wait_end \<Rightarrow> wait_for \<Rightarrow> wait_for" where
  "wf_settle r w = (if wf_end w = None then w\<lparr>wf_end := Some r\<rparr> else w)"

definition wait_for_step :: "int \<Rightarrow> wait_for_event \<Rightarrow> wait_for \<Rightarrow> wait_for" where
  "wait_for_step confirms e w =
     (case e of
        WfBlock n \<Rightarrow> if wf_listening w \<and> wf_running w = None then w\<lparr>wf_listening := False, wf_running := Some n\<rparr> else w
      | WfAnswer answer \<Rightarrow>
          (case wf_running w of
             None \<Rightarrow> w
           | Some n \<Rightarrow>
               (case answer of
                  Inr (Some r) \<Rightarrow>
                    if confirms \<le> n - tc_blockNumber r + 1
                    then wf_settle (Resolved (Some r)) (w\<lparr>wf_running := None, wf_timer := False\<rparr>)
                    else w\<lparr>wf_running := None, wf_listening := True\<rparr>
                | _ \<Rightarrow> w\<lparr>wf_running := None, wf_listening := True\<rparr>))
      | WfTimeout \<Rightarrow>
          if wf_timer w
          then wf_settle (RejectedError (CoreError TIMEOUT ''timeout'')) (w\<lparr>wf_timer := False, wf_listening := False\<rparr>)
          else w)"

definition waitForTransaction :: "int \<Rightarrow> bool \<Rightarrow> int \<Rightarrow> wait_for_event list \<Rightarrow> wait_for" where
  "waitForTransaction confirms timeout blockNumber es =
     foldl (\<lambda>w e. wait_for_step confirms e w) (wait_for_begin timeout blockNumber) es"

end
