(* ===== verification/Provider_Wait_Props.thy ===== *)
theory Provider_Wait_Props
  imports Provider_Wait
begin

text \<open>
  What waiting promises: a receipt only with enough confirmations, a replacement only if
  one was answered, and on a steady chain the replacement is found.
\<close>

section \<open>What a replacement is\<close>

text \<open>
  What the library reports as a replacement: a transaction of the same sender and nonce, of
  a block that a provider answered and that does not hold the transaction waited for, with
  a receipt that has the confirmations asked for.
\<close>

definition same_slot :: "transaction_response \<Rightarrow> transaction_response \<Rightarrow> bool" where
  "same_slot this tx \<longleftrightarrow> xr_from tx = xr_from this \<and> xr_nonce tx = xr_nonce this"

definition answered_tx :: "tx_net \<Rightarrow> string + transaction_response \<Rightarrow> transaction_response \<Rightarrow> bool" where
  "answered_tx net v tx \<longleftrightarrow> v = Inr tx \<or> (\<exists>h t. v = Inl h \<and> tp_getTransaction (net t) h = Inr (Some tx))"

definition genuine :: "tx_net set \<Rightarrow> int \<Rightarrow> transaction_response \<Rightarrow> replacement \<Rightarrow> bool" where
  "genuine nets confirms this r \<longleftrightarrow>
     (\<exists>net \<in> nets. \<exists>tx b v k t u head.
        same_slot this tx \<and> re_hash r = xr_hash tx \<and> tp_getBlock (net t) k = Inr (Some b) \<and> k \<le> head \<and>
        xr_hash this \<notin> set (block_hashes b) \<and> v \<in> set (bl_transactions b) \<and> answered_tx net v tx \<and>
        tp_getBlockNumber (net u) = Inr head \<and> confirms \<le> receipt_confirmations head (re_receipt r) \<and>
        (\<exists>w. tp_getTransactionReceipt (net w) (xr_hash tx) = Inr (Some (re_receipt r))) \<and>
        re_cancelled r = (reason_of this tx \<noteq> RepricedReason))"

lemma replaced_by_genuine:
  assumes "replaced_by stop net confirms this head tx s = (TxReplaced r, s')"
  shows "re_hash r = xr_hash tx \<and> confirms \<le> receipt_confirmations head (re_receipt r) \<and>
    (\<exists>w. tp_getTransactionReceipt (net w) (xr_hash tx) = Inr (Some (re_receipt r))) \<and>
    re_cancelled r = (reason_of this tx \<noteq> RepricedReason)"
  using assms
  by (auto simp: replaced_by_def Let_def receipt_confirmations_def split: if_splits sum.splits option.splits)

lemma search_genuine:
  assumes "search_replacement stop net confirms this head vs s = (Some (TxReplaced r), s')"
  shows "\<exists>tx. \<exists>v \<in> set vs. answered_tx net v tx \<and> same_slot this tx \<and> re_hash r = xr_hash tx \<and>
    confirms \<le> receipt_confirmations head (re_receipt r) \<and>
    (\<exists>w. tp_getTransactionReceipt (net w) (xr_hash tx) = Inr (Some (re_receipt r))) \<and>
    re_cancelled r = (reason_of this tx \<noteq> RepricedReason)"
  using assms
proof (induction vs arbitrary: s)
  case (Cons v vs)
  show ?case
  proof (cases "\<exists>tx s1. answered_tx net v tx \<and> same_slot this tx \<and>
      replaced_by stop net confirms this head tx s1 = (TxReplaced r, s')")
    case True
    then show ?thesis using replaced_by_genuine by (meson list.set_intros(1))
  next
    case False
    then have "\<exists>s1. search_replacement stop net confirms this head vs s1 = (Some (TxReplaced r), s')"
      using Cons.prems
      by (auto simp: same_slot_def answered_tx_def Let_def map_prod_def split: sum.splits option.splits if_splits prod.splits)
    then show ?thesis using Cons.IH by (meson list.set_intros(2))
  qed
qed simp

lemma scan_genuine:
  assumes "scan_blocks stop net confirms this head s = (TxReplaced r, s')" and "tp_getBlockNumber (net u) = Inr head"
  shows "genuine {net} confirms this r"
  using assms
proof (induction stop net confirms this head s rule: scan_blocks.induct)
  case (1 stop net confirms this head s)
  let ?s1 = "s\<lparr>ws_clock := ws_clock s + 1\<rparr>"
  have c: "\<not> head < ws_nextScan s" "\<not> stop (ws_clock s)"
    using 1(2) by (auto simp: scan_blocks.simps [of stop net confirms this head s] split: if_splits)
  obtain b where b: "tp_getBlock (net (ws_clock s)) (ws_nextScan s) = Inr (Some b)"
    using 1(2) c by (auto simp: scan_blocks.simps [of stop net confirms this head s] Let_def split: sum.splits option.splits)
  have h: "xr_hash this \<notin> set (block_hashes b)"
    using 1(2) c b by (auto simp: scan_blocks.simps [of stop net confirms this head s] Let_def split: if_splits)
  obtain o' s2 where o': "search_replacement stop net confirms this head (bl_transactions b) ?s1 = (o', s2)" by force
  show ?case
  proof (cases o')
    case None
    then have "scan_blocks stop net confirms this head (s2\<lparr>ws_nextScan := ws_nextScan s + 1\<rparr>) = (TxReplaced r, s')"
      using 1(2) c b h o' by (simp add: scan_blocks.simps [of stop net confirms this head s] Let_def)
    from 1(1) [OF c refl b refl h o' [symmetric] None this 1(3)] show ?thesis .
  next
    case (Some e)
    then have "search_replacement stop net confirms this head (bl_transactions b) ?s1 = (Some (TxReplaced r), s2)"
      using 1(2) c b h o' by (simp add: scan_blocks.simps [of stop net confirms this head s] Let_def)
    from search_genuine [OF this] obtain tx v where f:
      "v \<in> set (bl_transactions b)" "answered_tx net v tx" "same_slot this tx" "re_hash r = xr_hash tx"
      "confirms \<le> receipt_confirmations head (re_receipt r)"
      "\<exists>w. tp_getTransactionReceipt (net w) (xr_hash tx) = Inr (Some (re_receipt r))"
      "re_cancelled r = (reason_of this tx \<noteq> RepricedReason)" by blast
    show ?thesis unfolding genuine_def
      by (rule bexI [of _ net], rule exI [of _ tx], rule exI [of _ b], rule exI [of _ v], rule exI [of _ "ws_nextScan s"],
          rule exI [of _ "ws_clock s"], rule exI [of _ u], rule exI [of _ head])
         (use f b h c(1) 1(3) in \<open>simp_all add: not_less\<close>)
  qed
qed

lemma check_genuine:
  assumes "checkReplacement stop net confirms this s = (TxReplaced r, s')"
  shows "genuine {net} confirms this r"
proof -
  obtain head s1 where "tp_getBlockNumber (net (ws_clock s)) = Inr head" "scan_blocks stop net confirms this head s1 = (TxReplaced r, s')"
    using assms by (auto simp: checkReplacement_def Let_def split: if_splits sum.splits)
  then show ?thesis using scan_genuine by blast
qed

section \<open>How waiting ends\<close>

lemma genuine_mono: "genuine A confirms this r \<Longrightarrow> A \<subseteq> B \<Longrightarrow> genuine B confirms this r"
  unfolding genuine_def by blast

definition waits_for :: "tx_provider \<Rightarrow> tx_provider \<Rightarrow> tx_net set \<Rightarrow> int \<Rightarrow> transaction_response \<Rightarrow> wait_event list \<Rightarrow> wait_end \<Rightarrow> bool" where
  "waits_for first second nets confirms this es r \<longleftrightarrow>
     (case r of
        Resolved (Some receipt) \<Rightarrow>
          (\<exists>n. confirms \<le> receipt_confirmations n receipt \<and>
            (tp_getTransactionReceipt first (xr_hash this) = Inr (Some receipt) \<and> tp_getBlockNumber second = Inr n \<or>
             ReceiptEvent receipt (Inr n) \<in> set es))
      | Resolved None \<Rightarrow> confirms = 0
      | RejectedReplaced x \<Rightarrow> genuine nets confirms this x
      | RejectedError e \<Rightarrow> True)"

lemma waits_for_mono: "waits_for f g A confirms this es r \<Longrightarrow> A \<subseteq> B \<Longrightarrow> set es \<subseteq> set es' \<Longrightarrow> waits_for f g B confirms this es' r"
  unfolding waits_for_def using genuine_mono by (fastforce split: wait_end.splits option.splits)

definition nets_of :: "tx_net \<Rightarrow> wait_event list \<Rightarrow> tx_net set" where
  "nets_of net es = insert net {n. \<exists>stop. BlockEvent stop n \<in> set es}"

lemma wait_begin_end:
  assumes "wt_end (wait_begin first second net confirms this) = Some r"
  shows "waits_for first second {net} confirms this [] r"
  using assms check_genuine [of _ net confirms this]
  unfolding wait_begin_def Let_def check_unless_stopped_def waits_for_def
  by (auto simp: wait_over_def wait_watching_def split: sum.splits option.splits if_splits check_end.splits prod.splits)

lemma wait_step_end:
  assumes "wt_end w = None" and "wt_end (wait_step confirms this e w) = Some r"
  shows "waits_for first second (nets_of net [e]) confirms this [e] r"
  using assms check_genuine [of _ _ confirms this, THEN genuine_mono, of _ _ _ _ _ "nets_of net [e]"]
  unfolding wait_step_def Let_def check_unless_stopped_def waits_for_def nets_of_def
  by (auto split: wait_event.splits sum.splits option.splits if_splits check_end.splits prod.splits)

text \<open>
  C39. However receipts, blocks and the timeout come while a transaction is waited for, and
  whatever the provider answers: a receipt is returned only with the confirmations asked
  for, \<open>null\<close> only when none are, and a replacement is reported only for a transaction of
  the same sender and nonce that a provider answered in a block without the transaction
  waited for, with a receipt that has the confirmations.
\<close>

theorem wait_sound:
  assumes "wt_end (wait_run first second net confirms this es) = Some r"
  shows "waits_for first second (nets_of net es) confirms this es r"
  using assms
proof (induction es arbitrary: r rule: rev_induct)
  case Nil
  then show ?case using wait_begin_end waits_for_mono [of first second "{net}"] by (fastforce simp: wait_run_def nets_of_def)
next
  case (snoc e es)
  define w where "w = wait_run first second net confirms this es"
  have r: "wt_end (wait_step confirms this e w) = Some r" using snoc.prems by (simp add: w_def wait_run_def)
  show ?case
  proof (cases "wt_end w")
    case None
    from wait_step_end [OF this r] show ?thesis by (rule waits_for_mono) (auto simp: nets_of_def)
  next
    case (Some r')
    then have "r' = r" using r by (simp add: wait_step_def)
    then have "waits_for first second (nets_of net es) confirms this es r" using snoc.IH Some by (simp add: w_def)
    then show ?thesis by (rule waits_for_mono) (auto simp: nets_of_def)
  qed
qed

section \<open>Blocks are scanned in turn\<close>

definition holds_replacement :: "transaction_response \<Rightarrow> block \<Rightarrow> bool" where
  "holds_replacement this b \<longleftrightarrow> (\<exists>tx. Inr tx \<in> set (bl_transactions b) \<and> same_slot this tx)"

lemma replaced_by_frame:
  "replaced_by stop net confirms this head tx s = (r, s') \<Longrightarrow> ws_startBlock s' = ws_startBlock s \<and> ws_nextScan s' = ws_nextScan s"
  by (auto simp: replaced_by_def Let_def split: if_splits sum.splits option.splits)

lemma search_frame:
  "search_replacement stop net confirms this head vs s = (r, s') \<Longrightarrow>
   ws_startBlock s' = ws_startBlock s \<and> ws_nextScan s' = ws_nextScan s"
proof (induction vs arbitrary: s)
  case (Cons v vs)
  show ?case using Cons.prems
    by (auto simp: Let_def map_prod_def split: sum.splits option.splits if_splits prod.splits dest!: replaced_by_frame Cons.IH)
qed simp

lemma search_not_none:
  "Inr tx \<in> set vs \<Longrightarrow> same_slot this tx \<Longrightarrow> fst (search_replacement stop net confirms this head vs s) \<noteq> None"
  by (induction vs arbitrary: s)
     (auto simp: same_slot_def Let_def map_prod_def split: sum.splits option.splits prod.splits)

lemma scan_keeps:
  assumes "\<forall>t b. tp_getBlock (net t) n = Inr (Some b) \<longrightarrow> holds_replacement this b" and "ws_nextScan s \<le> n"
    and "scan_blocks stop net confirms this head s = (r, s')"
  shows "ws_startBlock s' = ws_startBlock s \<and> ws_nextScan s \<le> ws_nextScan s' \<and> ws_nextScan s' \<le> n"
  using assms
proof (induction stop net confirms this head s rule: scan_blocks.induct)
  case (1 stop net confirms this head s)
  let ?s1 = "s\<lparr>ws_clock := ws_clock s + 1\<rparr>"
  note unf = scan_blocks.simps [of stop net confirms this head s]
  consider (out) "s' = s \<or> s' = ?s1"
    | (block) b where "\<not> head < ws_nextScan s" "\<not> stop (ws_clock s)" "tp_getBlock (net (ws_clock s)) (ws_nextScan s) = Inr (Some b)"
      "xr_hash this \<notin> set (block_hashes b)"
    using 1(4) by (auto simp: unf Let_def split: if_splits sum.splits option.splits)
  then show ?case
  proof cases
    case out
    then show ?thesis using 1(3) by auto
  next
    case block
    obtain x s2 where sr: "search_replacement stop net confirms this head (bl_transactions b) ?s1 = (x, s2)" by force
    have fr: "ws_startBlock s2 = ws_startBlock s" "ws_nextScan s2 = ws_nextScan s" using search_frame [OF sr] by simp_all
    show ?thesis
    proof (cases x)
      case None
      have "ws_nextScan s \<noteq> n"
      proof
        assume "ws_nextScan s = n"
        then obtain tx where "Inr tx \<in> set (bl_transactions b)" "same_slot this tx"
          using 1(2) block(3) by (auto simp: holds_replacement_def)
        from search_not_none [OF this, of stop net confirms head ?s1] sr None show False by simp
      qed
      then have lt: "ws_nextScan (s2\<lparr>ws_nextScan := ws_nextScan s + 1\<rparr>) \<le> n" using 1(3) by simp
      have "scan_blocks stop net confirms this head (s2\<lparr>ws_nextScan := ws_nextScan s + 1\<rparr>) = (r, s')"
        using 1(4) block sr None by (simp add: unf Let_def)
      from 1(1) [OF block(1,2) refl block(3) refl block(4) sr [symmetric] None 1(2) lt this] fr show ?thesis by simp
    next
      case (Some e)
      then have "s' = s2" using 1(4) block sr by (simp add: unf Let_def)
      then show ?thesis using fr 1(3) by simp
    qed
  qed
qed

section \<open>The search is in time\<close>

text \<open>
  What the providers have to agree on for a replacement in block \<open>n\<close>: whenever that block
  is answered it holds the replacement, and a count that has not passed the nonce is not
  answered together with a head more than three blocks above.
\<close>

definition agrees :: "transaction_response \<Rightarrow> int \<Rightarrow> tx_net \<Rightarrow> bool" where
  "agrees this n net \<longleftrightarrow>
     (\<forall>t b. tp_getBlock (net t) n = Inr (Some b) \<longrightarrow> holds_replacement this b) \<and>
     (\<forall>t h c. tp_getBlockNumber (net t) = Inr h \<longrightarrow> tp_getTransactionCount (net t) (xr_from this) = Inr c \<longrightarrow> c < xr_nonce this \<longrightarrow>
        0 \<le> h \<and> h \<le> n + 3)"

definition in_time :: "transaction_response \<Rightarrow> int \<Rightarrow> wait_scan \<Rightarrow> bool" where
  "in_time this n s \<longleftrightarrow> 0 \<le> ws_startBlock s \<and> ws_startBlock s \<le> n + 3 \<and>
     (ws_nextScan s = -1 \<or> xr_startBlock this \<le> ws_nextScan s \<and> ws_nextScan s \<le> n)"

lemma first_scan_in_time:
  assumes "in_time this n s" and "0 \<le> xr_startBlock this" and "xr_startBlock this \<le> n"
  shows "xr_startBlock this \<le> first_scan this s \<and> first_scan this s \<le> n"
  using assms by (auto simp: in_time_def first_scan_def)

lemma check_keeps:
  assumes "agrees this n net" and "0 \<le> xr_startBlock this" and "xr_startBlock this \<le> n" and "in_time this n s"
    and "checkReplacement stop net confirms this s = (r, s')"
  shows "in_time this n s'"
proof -
  define t where "t = ws_clock s"
  define s2 where "s2 = s\<lparr>ws_clock := t + 2\<rparr>"
  have it: "in_time this n (s\<lparr>ws_clock := x\<rparr>)" for x using assms(4) by (simp add: in_time_def)
  consider (kept) x where "s' = s\<lparr>ws_clock := x\<rparr>"
    | (early) h c where "s' = s\<lparr>ws_clock := t + 1, ws_startBlock := h\<rparr>" "tp_getBlockNumber (net t) = Inr h"
        "tp_getTransactionCount (net t) (xr_from this) = Inr c" "c < xr_nonce this"
    | (scan) head where "scan_blocks stop net confirms this head (s2\<lparr>ws_nextScan := first_scan this s2\<rparr>) = (r, s')"
    using assms(5) unfolding checkReplacement_def Let_def t_def [symmetric]
    by (auto simp: s2_def numeral_2_eq_2 split: if_splits sum.splits) (metis wait_scan.surjective wait_scan.update_convs(3))+
  then show ?thesis
  proof cases
    case kept
    then show ?thesis using it by simp
  next
    case early
    then show ?thesis using assms(1,4) by (auto simp: agrees_def in_time_def)
  next
    case scan
    have f: "xr_startBlock this \<le> first_scan this s2" "first_scan this s2 \<le> n"
      using first_scan_in_time [of this n s2] it assms(2,3) by (simp_all add: s2_def)
    have "ws_startBlock s' = ws_startBlock (s2\<lparr>ws_nextScan := first_scan this s2\<rparr>) \<and>
        ws_nextScan (s2\<lparr>ws_nextScan := first_scan this s2\<rparr>) \<le> ws_nextScan s' \<and> ws_nextScan s' \<le> n"
      by (rule scan_keeps [OF _ _ scan]) (use assms(1) f in \<open>auto simp: agrees_def\<close>)
    then show ?thesis using f assms(4) by (simp add: in_time_def s2_def)
  qed
qed

lemma check_unless_keeps:
  assumes "agrees this n net" and "0 \<le> xr_startBlock this" and "xr_startBlock this \<le> n" and "in_time this n s"
    and "check_unless_stopped stop net confirms this s = (r, s')"
  shows "in_time this n s'"
  using check_keeps [OF assms(1-4)] assms(5) by (simp add: check_unless_stopped_def)

lemma begin_keeps:
  assumes "agrees this n net" and "0 \<le> xr_startBlock this" and "xr_startBlock this \<le> n"
    and "wt_end (wait_begin first second net confirms this) = None"
  shows "in_time this n (wt_scan (wait_begin first second net confirms this)) \<and> wt_watch (wait_begin first second net confirms this)"
proof -
  have i: "in_time this n (wait_scan_init this)" using assms(2,3) by (simp add: in_time_def wait_scan_init_def)
  obtain r s' where c: "check_unless_stopped (\<lambda>t. False) net confirms this (wait_scan_init this) = (r, s')" by force
  have i': "in_time this n s'" using check_unless_keeps [OF assms(1-3) i c] .
  have "wait_begin first second net confirms this = wait_watching (wait_scan_init this) \<or>
      wait_begin first second net confirms this = wait_watching s'"
    using assms(4) unfolding wait_begin_def Let_def c
    by (auto simp: wait_over_def split: sum.splits option.splits if_splits check_end.splits)
  then show ?thesis using i i' by (auto simp: wait_watching_def in_time_def)
qed

lemma step_keeps:
  assumes "\<And>stop net. e = BlockEvent stop net \<Longrightarrow> agrees this n net" and "0 \<le> xr_startBlock this" and "xr_startBlock this \<le> n"
    and "in_time this n (wt_scan w) \<and> wt_watch w"
  shows "in_time this n (wt_scan (wait_step confirms this e w)) \<and> wt_watch (wait_step confirms this e w)"
proof (cases e)
  case (BlockEvent stop net)
  obtain r s' where c: "check_unless_stopped stop net confirms this (wt_scan w) = (r, s')" by force
  have "in_time this n s'" using check_unless_keeps [OF assms(1) [OF BlockEvent] assms(2,3) _ c] assms(4) by simp
  then show ?thesis using assms(4) by (auto simp: wait_step_def BlockEvent c split: check_end.splits)
qed (use assms(4) in \<open>auto simp: wait_step_def split: sum.splits\<close>)

lemma wait_step_over: "wt_end w \<noteq> None \<Longrightarrow> wait_step confirms this e w = w"
  by (simp add: wait_step_def)

lemma run_keeps:
  assumes "\<forall>net' \<in> nets_of net es. agrees this n net'" and "0 \<le> xr_startBlock this" and "xr_startBlock this \<le> n"
    and "wt_end (wait_run first second net confirms this es) = None"
  shows "in_time this n (wt_scan (wait_run first second net confirms this es)) \<and> wt_watch (wait_run first second net confirms this es)"
  using assms
proof (induction es rule: rev_induct)
  case Nil
  then show ?case using begin_keeps [of this n net first second confirms] by (simp add: wait_run_def nets_of_def)
next
  case (snoc e es)
  define w where "w = wait_run first second net confirms this es"
  have w: "wait_run first second net confirms this (es @ [e]) = wait_step confirms this e w" by (simp add: w_def wait_run_def)
  have "wt_end w = None" using snoc.prems(4) w wait_step_over [of w] by (cases "wt_end w") auto
  then have "in_time this n (wt_scan w) \<and> wt_watch w" using snoc.IH snoc.prems(1-3) by (auto simp: w_def nets_of_def)
  moreover have "agrees this n net'" if "e = BlockEvent stop net'" for stop net' using snoc.prems(1) that by (auto simp: nets_of_def)
  ultimately show ?case using step_keeps [of e this n w confirms] snoc.prems(2,3) w by simp
qed

section \<open>The replacement is found\<close>

text \<open>A block that is answered with its transactions and has neither this one nor a replacement.\<close>

definition plain_block :: "tx_provider \<Rightarrow> transaction_response \<Rightarrow> int \<Rightarrow> bool" where
  "plain_block P this k \<longleftrightarrow>
     (\<exists>b. tp_getBlock P k = Inr (Some b) \<and> xr_hash this \<notin> set (block_hashes b) \<and>
       (\<forall>v \<in> set (bl_transactions b). \<exists>u. v = Inr u \<and> \<not> same_slot this u))"

text \<open>The block of the replacement, whose receipt has the confirmations.\<close>

definition replaced_in ::
  "tx_provider \<Rightarrow> int \<Rightarrow> transaction_response \<Rightarrow> int \<Rightarrow> int \<Rightarrow> transaction_response \<Rightarrow> transaction_receipt \<Rightarrow> bool" where
  "replaced_in P confirms this head n tx rc \<longleftrightarrow>
     (\<exists>b before after. tp_getBlock P n = Inr (Some b) \<and> xr_hash this \<notin> set (block_hashes b) \<and>
       bl_transactions b = before @ Inr tx # after \<and> (\<forall>v \<in> set before. \<exists>u. v = Inr u \<and> \<not> same_slot this u)) \<and>
     same_slot this tx \<and> tp_getTransactionReceipt P (xr_hash tx) = Inr (Some rc) \<and> confirms \<le> receipt_confirmations head rc"

lemma search_plain:
  assumes "\<forall>v \<in> set vs. \<exists>u. v = Inr u \<and> \<not> same_slot this u"
  shows "search_replacement stop net confirms this head (vs @ ws) s = search_replacement stop net confirms this head ws s"
  using assms by (induction vs) (auto simp: same_slot_def)

lemma replaced_by_finds:
  assumes "tp_getTransactionReceipt P (xr_hash tx) = Inr (Some rc)" and "confirms \<le> receipt_confirmations head rc" and "0 \<le> ws_startBlock s"
  shows "\<exists>r s'. replaced_by (\<lambda>t. False) (\<lambda>t. P) confirms this head tx s = (TxReplaced r, s') \<and> re_hash r = xr_hash tx \<and> re_receipt r = rc"
  using assms by (simp add: replaced_by_def Let_def receipt_confirmations_def replaceableTransaction_def assertArgument_def)

lemma scan_finds:
  assumes "\<forall>k. ws_nextScan s \<le> k \<and> k < n \<longrightarrow> plain_block P this k" and "replaced_in P confirms this head n tx rc"
    and "ws_nextScan s \<le> n" and "n \<le> head" and "0 \<le> ws_startBlock s"
  shows "\<exists>r s'. scan_blocks (\<lambda>t. False) (\<lambda>t. P) confirms this head s = (TxReplaced r, s') \<and> re_hash r = xr_hash tx \<and> re_receipt r = rc"
  using assms
proof (induction "nat (n - ws_nextScan s)" arbitrary: s)
  case 0
  let ?s1 = "s\<lparr>ws_clock := ws_clock s + 1\<rparr>"
  have n: "ws_nextScan s = n" using 0 by simp
  obtain b before' after' where b: "tp_getBlock P n = Inr (Some b)" "xr_hash this \<notin> set (block_hashes b)"
    "bl_transactions b = before' @ Inr tx # after'" "\<forall>v \<in> set before'. \<exists>u. v = Inr u \<and> \<not> same_slot this u"
    "same_slot this tx" "tp_getTransactionReceipt P (xr_hash tx) = Inr (Some rc)" "confirms \<le> receipt_confirmations head rc"
    using 0(3) unfolding replaced_in_def by blast
  obtain r s' where r: "replaced_by (\<lambda>t. False) (\<lambda>t. P) confirms this head tx ?s1 = (TxReplaced r, s')" "re_hash r = xr_hash tx" "re_receipt r = rc"
    using replaced_by_finds [OF b(6,7), where s = ?s1 and this = this] 0(6) by auto
  have "search_replacement (\<lambda>t. False) (\<lambda>t. P) confirms this head (bl_transactions b) ?s1 = (Some (TxReplaced r), s')"
    unfolding b(3) search_plain [OF b(4)] using b(5) r(1) by (simp add: same_slot_def)
  then show ?case using b(1,2) n 0(5) r(2,3) by (simp add: scan_blocks.simps [of _ _ _ _ _ s] Let_def)
next
  case (Suc m)
  let ?s1 = "s\<lparr>ws_clock := ws_clock s + 1\<rparr>"
  have lt: "ws_nextScan s < n" using Suc(2) by simp
  then obtain b where b: "tp_getBlock P (ws_nextScan s) = Inr (Some b)" "xr_hash this \<notin> set (block_hashes b)"
    "\<forall>v \<in> set (bl_transactions b). \<exists>u. v = Inr u \<and> \<not> same_slot this u"
    using Suc(3) unfolding plain_block_def by blast
  have "search_replacement (\<lambda>t. False) (\<lambda>t. P) confirms this head (bl_transactions b) ?s1 = (None, ?s1)"
    using search_plain [OF b(3), of _ _ _ _ "[]"] by simp
  then have step: "scan_blocks (\<lambda>t. False) (\<lambda>t. P) confirms this head s =
      scan_blocks (\<lambda>t. False) (\<lambda>t. P) confirms this head (?s1\<lparr>ws_nextScan := ws_nextScan s + 1\<rparr>)"
    using b(1,2) lt Suc(6) by (simp add: scan_blocks.simps [of _ _ _ _ _ s] Let_def)
  have "\<exists>r s'. scan_blocks (\<lambda>t. False) (\<lambda>t. P) confirms this head (?s1\<lparr>ws_nextScan := ws_nextScan s + 1\<rparr>) = (TxReplaced r, s') \<and>
      re_hash r = xr_hash tx \<and> re_receipt r = rc"
    by (rule Suc(1)) (use Suc lt in auto)
  then show ?case using step by simp
qed

text \<open>
  C40. A replacement is found in time: while a transaction is waited for that was sent at a
  block not above \<open>n\<close>, whatever checks were made, interrupted or failed before, if the
  providers agree that block \<open>n\<close> holds a replacement, then the first undisturbed check on a
  chain whose blocks can be read rejects with the replacement and its receipt.
\<close>

theorem replacement_found:
  assumes "\<forall>net' \<in> nets_of net es. agrees this n net'" and "0 \<le> xr_startBlock this" and "xr_startBlock this \<le> n"
    and "wt_end (wait_run first second net confirms this es) = None"
    and "tp_getBlockNumber P = Inr head" and "n \<le> head" and "tp_getTransactionCount P (xr_from this) = Inr c" and "xr_nonce this \<le> c"
    and "tp_getTransaction P (xr_hash this) = Inr None"
    and "\<forall>k. xr_startBlock this \<le> k \<and> k < n \<longrightarrow> plain_block P this k" and "replaced_in P confirms this head n tx rc"
  shows "\<exists>r. wt_end (wait_run first second net confirms this (es @ [BlockEvent (\<lambda>t. False) (\<lambda>t. P)])) = Some (RejectedReplaced r) \<and>
    re_hash r = xr_hash tx \<and> re_receipt r = rc"
proof -
  define w where "w = wait_run first second net confirms this es"
  have w: "in_time this n (wt_scan w)" "wt_watch w" "wt_end w = None"
    using run_keeps [OF assms(1-4)] assms(4) by (simp_all add: w_def)
  define s where "s = (wt_scan w)\<lparr>ws_clock := ws_clock (wt_scan w) + 2\<rparr>"
  have i: "in_time this n s" using w(1) by (simp add: in_time_def s_def)
  have f: "xr_startBlock this \<le> first_scan this s" "first_scan this s \<le> n" using first_scan_in_time [OF i assms(2,3)] by simp_all
  have "\<exists>r s'. scan_blocks (\<lambda>t. False) (\<lambda>t. P) confirms this head (s\<lparr>ws_nextScan := first_scan this s\<rparr>) = (TxReplaced r, s') \<and>
      re_hash r = xr_hash tx \<and> re_receipt r = rc"
    by (rule scan_finds [OF _ assms(11)]) (use assms(6,10) f i in \<open>auto simp: in_time_def\<close>)
  then obtain r s' where r: "scan_blocks (\<lambda>t. False) (\<lambda>t. P) confirms this head (s\<lparr>ws_nextScan := first_scan this s\<rparr>) = (TxReplaced r, s')"
    "re_hash r = xr_hash tx" "re_receipt r = rc" by blast
  have "xr_startBlock this \<noteq> -1" using assms(2) by simp
  then have "check_unless_stopped (\<lambda>t. False) (\<lambda>t. P) confirms this (wt_scan w) = (TxReplaced r, s')"
    using r(1) assms(5,7-9) by (simp add: check_unless_stopped_def checkReplacement_def s_def Let_def)
  then have "wt_end (wait_step confirms this (BlockEvent (\<lambda>t. False) (\<lambda>t. P)) w) = Some (RejectedReplaced r)"
    using w(2,3) by (simp add: wait_step_def)
  then show ?thesis using r(2,3) by (simp add: wait_run_def w_def)
qed

section \<open>waitForTransaction\<close>

text \<open>
  A timeout while the listener asks for the receipt rejects the promise, but does not end
  the listening: the listener sets itself again when the answer has no receipt, and goes
  on for every block.
\<close>

lemma timeout_leaves_listener:
  assumes "wf_running w = Some k" and "wf_timer w"
  shows "wf_listening (foldl (\<lambda>w e. wait_for_step confirms e w) w
      ([WfTimeout, WfAnswer (Inr None)] @ concat (map (\<lambda>n. [WfBlock n, WfAnswer (Inr None)]) ns)))"
proof -
  have *: "wf_listening (foldl (\<lambda>w e. wait_for_step confirms e w) w (concat (map (\<lambda>n. [WfBlock n, WfAnswer (Inr None)]) ns)))"
    if "wf_listening w" "wf_running w = None" for w
    using that by (induction ns arbitrary: w) (simp_all add: wait_for_step_def)
  show ?thesis using assms * by (simp add: wait_for_step_def wf_settle_def)
qed

section \<open>An example\<close>

definition example_sent_tx :: transaction_response where
  "example_sent_tx = \<lparr>xr_blockNumber = None, xr_blockHash = None, xr_hash = ''h'', xr_index = JUndef, xr_type = JUndef, xr_from = ''f'',
     xr_to = None, xr_energyLimit = 0, xr_nonce = 1, xr_data = ''0x'', xr_value = 0, xr_energyPrice = JUndef, xr_networkId = JBig 1,
     xr_signature = JUndef, xr_startBlock = 5\<rparr>"

definition example_block :: "(string + transaction_response) list \<Rightarrow> block" where
  "example_block txs = \<lparr>bl_number = 5, bl_hash = None, bl_timestamp = 0, bl_parentHash = [], bl_nonce = None, bl_difficulty = 0,
     bl_energyLimit = 0, bl_energyUsed = 0, bl_miner = None, bl_extraData = [], bl_baseFeePerEnergy = None, bl_transactions = txs\<rparr>"

definition example_receipt :: transaction_receipt where
  "example_receipt = \<lparr>tc_to = None, tc_from = None, tc_contractAddress = None, tc_hash = ''g'', tc_index = 0, tc_blockHash = [],
     tc_blockNumber = 5, tc_logsBloom = None, tc_energyUsed = 0, tc_cumulativeEnergyUsed = 0, tc_energyPrice = None,
     tc_status = None, tc_root = None, tc_logs = []\<rparr>"

text \<open>A provider before the replacement was mined and one after it was.\<close>

definition example_before :: tx_provider where
  "example_before = \<lparr>tp_getBlockNumber = Inr 5, tp_getTransactionCount = (\<lambda>a. Inr 0), tp_getTransaction = (\<lambda>h. Inr None),
     tp_getBlock = (\<lambda>k. Inr None), tp_getTransactionReceipt = (\<lambda>h. Inr None)\<rparr>"

definition example_after :: tx_provider where
  "example_after = \<lparr>tp_getBlockNumber = Inr 6, tp_getTransactionCount = (\<lambda>a. Inr 2), tp_getTransaction = (\<lambda>h. Inr None),
     tp_getBlock = (\<lambda>k. Inr (Some (example_block [Inr (example_sent_tx\<lparr>xr_hash := ''g''\<rparr>)]))),
     tp_getTransactionReceipt = (\<lambda>h. Inr (Some example_receipt))\<rparr>"

theorem wait_sound_witness:
  "wt_end (wait_run example_after example_after (\<lambda>t. example_after) 2 example_sent_tx []) = Some (Resolved (Some example_receipt)) \<and>
   waits_for example_after example_after (nets_of (\<lambda>t. example_after) []) 2 example_sent_tx [] (Resolved (Some example_receipt))"
proof -
  have "wt_end (wait_run example_after example_after (\<lambda>t. example_after) 2 example_sent_tx []) = Some (Resolved (Some example_receipt))"
    by (simp add: wait_run_def wait_begin_def example_after_def example_receipt_def receipt_confirmations_def wait_over_def Let_def)
  with wait_sound [OF this] show ?thesis by simp
qed

theorem replacement_found_witness:
  "\<exists>r. wt_end (wait_run example_before example_before (\<lambda>t. example_before) 2 example_sent_tx
      ([] @ [BlockEvent (\<lambda>t. False) (\<lambda>t. example_after)])) = Some (RejectedReplaced r) \<and> re_hash r = ''g''"
proof -
  have "\<exists>r. wt_end (wait_run example_before example_before (\<lambda>t. example_before) 2 example_sent_tx
      ([] @ [BlockEvent (\<lambda>t. False) (\<lambda>t. example_after)])) = Some (RejectedReplaced r) \<and>
      re_hash r = xr_hash (example_sent_tx\<lparr>xr_hash := ''g''\<rparr>) \<and> re_receipt r = example_receipt"
  proof (rule replacement_found [where n = 5 and head = 6 and c = 2])
    show "\<forall>net' \<in> nets_of (\<lambda>t. example_before) []. agrees example_sent_tx 5 net'"
      by (simp add: nets_of_def agrees_def example_before_def)
    show "wt_end (wait_run example_before example_before (\<lambda>t. example_before) 2 example_sent_tx []) = None"
      by (simp add: wait_run_def wait_begin_def check_unless_stopped_def checkReplacement_def example_before_def example_sent_tx_def
          wait_scan_init_def wait_watching_def Let_def)
    show "\<forall>k. xr_startBlock example_sent_tx \<le> k \<and> k < 5 \<longrightarrow> plain_block example_after example_sent_tx k"
      by (auto simp: example_sent_tx_def)
    have b: "tp_getBlock example_after 5 = Inr (Some (example_block [Inr (example_sent_tx\<lparr>xr_hash := ''g''\<rparr>)]))"
      by (simp add: example_after_def)
    show "replaced_in example_after 2 example_sent_tx 6 5 (example_sent_tx\<lparr>xr_hash := ''g''\<rparr>) example_receipt"
      unfolding replaced_in_def b
      by (auto simp: example_block_def block_hashes_def tx_name_def example_sent_tx_def same_slot_def example_after_def
          receipt_confirmations_def example_receipt_def intro!: exI [of _ "[]"])
  qed (simp_all add: example_after_def example_sent_tx_def)
  then show ?thesis by auto
qed

end
