(* ===== verification/Wordlists.thy ===== *)
theory Wordlists
  imports Maths
begin

text \<open>
  \<open>src.ts/wordlists/\<close>: what a word list offers the mnemonics, the default splitting and
  joining of \<open>wordlist.ts\<close>, and the compressed lists of \<open>wordlist-owl.ts\<close>,
  \<open>decode-owl.ts\<close> and \<open>bit-reader.ts\<close>. The lists themselves are data. Words are strings
  of code units below 256.
\<close>

section \<open>Word lists\<close>

record wordlist =
  wl_split :: "string \<Rightarrow> string list"
  wl_join :: "string list \<Rightarrow> string"
  wl_getWord :: "nat \<Rightarrow> string result"
  wl_getWordIndex :: "string \<Rightarrow> int result"

text \<open>\<open>phrase.toLowerCase().split(/\s+/g)\<close>.\<close>

fun split_spaces :: "string \<Rightarrow> string list" where
  "split_spaces [] = [[]]"
| "split_spaces (c # s) =
     (if is_js_space c
      then (case s of d # _ \<Rightarrow> if is_js_space d then split_spaces s else [] # split_spaces s | [] \<Rightarrow> [[], []])
      else case split_spaces s of [] \<Rightarrow> [[c]] | w # ws \<Rightarrow> (c # w) # ws)"

definition wordlist_split :: "string \<Rightarrow> string list" where
  "wordlist_split phrase = split_spaces (map to_lower phrase)"

fun wordlist_join :: "string list \<Rightarrow> string" where
  "wordlist_join [] = []"
| "wordlist_join [w] = w"
| "wordlist_join (w # ws) = w @ '' '' @ wordlist_join ws"

text \<open>\<open>check\<close>: the fingerprint of a list, or \<open>0x\<close> when a word is not found at its index.\<close>

definition wordlist_check :: "(string \<Rightarrow> string) \<Rightarrow> wordlist \<Rightarrow> string result" where
  "wordlist_check id_hash wl =
     bindE (mapM (\<lambda>i. bindE (wl_getWord wl i) (\<lambda>w. bindE (wl_getWordIndex wl w) (\<lambda>k. Inr (w, k = int i)))) [0..<2048]) (\<lambda>ws.
       if list_all snd ws then Inr (id_hash (concat (map (\<lambda>w. fst w @ [CHR 0x0A]) ws))) else Inr ''0x'')"

section \<open>OWL\<close>

definition subsChrs :: string where
  "subsChrs = '' !#$%&'' @ [CHR 0x27] @ ''()*+,-./<=>?@[]^_'' @ [CHR 0x60] @ ''{|}~''"

definition is_lower :: "char \<Rightarrow> bool" where
  "is_lower c \<longleftrightarrow> 97 \<le> (of_char c :: nat) \<and> (of_char c :: nat) \<le> 122"

definition is_upper :: "char \<Rightarrow> bool" where
  "is_upper c \<longleftrightarrow> 65 \<le> (of_char c :: nat) \<and> (of_char c :: nat) \<le> 90"

definition unfold_step :: "string \<Rightarrow> nat \<times> string list \<Rightarrow> string \<Rightarrow> nat \<times> string list" where
  "unfold_step sep st word =
     (let (initial, accum) = st
      in if word = sep then (initial + 1, accum)
         else if list_all (\<lambda>c. is_lower c \<or> is_upper c) word then (initial, accum @ [char_of initial # word])
         else (97, accum @ [word]))"

definition unfold_words :: "string list \<Rightarrow> string \<Rightarrow> string list" where
  "unfold_words words sep = snd (foldl (unfold_step sep) (97, []) words)"

definition substitute :: "char \<Rightarrow> string \<Rightarrow> string \<Rightarrow> string" where
  "substitute c r s = concat (map (\<lambda>d. if d = c then r else [d]) s)"

definition expand_subs :: "string \<Rightarrow> string \<Rightarrow> string" where
  "expand_subs data subs =
     foldl (\<lambda>data i. substitute (subsChrs ! i) (js_substring subs (int (2 * i)) (int (2 * i + 2))) data) data
       (rev [0..<length subsChrs])"

text \<open>The clumps, and what the expression leaves over.\<close>

function owl_clumps :: "string \<Rightarrow> string list \<times> string" where
  "owl_clumps [] = ([], [])"
| "owl_clumps (c # s) =
     (if c = CHR '':'' then let (ws, l) = owl_clumps s in ('':'' # ws, l)
      else if is_digit10 c then let (ws, l) = owl_clumps s in (replicate (dec_value [c] + 1) '';'' @ ws, l)
      else if is_upper c then let (ws, l) = owl_clumps (dropWhile is_lower s) in (map to_lower (c # takeWhile is_lower s) # ws, l)
      else let (ws, l) = owl_clumps s in (ws, c # l))"
  by pat_completeness auto
termination by (relation "measure length") (auto simp: le_imp_less_Suc length_dropWhile_le)

definition owl_decode :: "string \<Rightarrow> string \<Rightarrow> string list result" where
  "owl_decode data subs =
     (let (clumps, leftover) = owl_clumps (expand_subs data subs)
      in if leftover \<noteq> [] then Inl (JsError NativeError ''leftovers'')
         else Inr (unfold_words (unfold_words clumps '';'') '':''))"

definition decodeOwl :: "string \<Rightarrow> string list result" where
  "decodeOwl data =
     bindE (assertArgument (take 1 data = ''0'') ''unsupported auwl data'') (\<lambda>_.
       owl_decode (drop (1 + 2 * length subsChrs) data) (js_substring data 1 (int (1 + 2 * length subsChrs))))"

text \<open>\<open>WordlistOwl\<close>; \<open>#words\<close> only keeps what \<open>#loadWords\<close> computes. \<open>id\<close> is the hash.\<close>

record owl =
  owl_locale :: string
  owl_data :: string
  owl_checksum :: string

definition loadWords :: "(string \<Rightarrow> string) \<Rightarrow> owl \<Rightarrow> string list result" where
  "loadWords id_hash w =
     bindE (decodeOwl (owl_data w)) (\<lambda>words.
       if id_hash (concat (map (\<lambda>x. x @ [CHR 0x0A]) words)) \<noteq> owl_checksum w
       then Inl (JsError NativeError ''BIP39 Wordlist FAILED'') else Inr words)"

definition owl_getWord :: "(string \<Rightarrow> string) \<Rightarrow> owl \<Rightarrow> nat \<Rightarrow> string result" where
  "owl_getWord id_hash w index =
     bindE (loadWords id_hash w) (\<lambda>words.
     bindE (assertArgument (index < length words) ''invalid word index'') (\<lambda>_. Inr (words ! index)))"

definition owl_getWordIndex :: "(string \<Rightarrow> string) \<Rightarrow> owl \<Rightarrow> string \<Rightarrow> int result" where
  "owl_getWordIndex id_hash w word = mapE (indexOf word) (loadWords id_hash w)"

definition owl_wordlist :: "(string \<Rightarrow> string) \<Rightarrow> owl \<Rightarrow> wordlist" where
  "owl_wordlist id_hash w =
     \<lparr>wl_split = wordlist_split, wl_join = wordlist_join, wl_getWord = owl_getWord id_hash w,
      wl_getWordIndex = owl_getWordIndex id_hash w\<rparr>"

section \<open>Bits\<close>

definition Base64_chars :: string where
  "Base64_chars = '')!@#$%^&*(ABCDEFGHIJKLMNOPQRSTUVWXYZabcdefghijklmnopqrstuvwxyz-_''"

record bit_reader =
  br_accum :: nat
  br_bits :: nat
  br_flood :: nat
  br_result :: "nat list"

text \<open>One word of \<open>width\<close> bits is read: the low bits stay in the accumulator.\<close>

definition read_word :: "nat \<Rightarrow> bit_reader \<Rightarrow> bit_reader" where
  "read_word width s =
     (let n = br_bits s - width; v = br_accum s div 2 ^ n; s' = s\<lparr>br_accum := br_accum s mod 2 ^ n, br_bits := n\<rparr>
      in if v = 0 then s'\<lparr>br_flood := br_flood s + (2 ^ width - 1)\<rparr>
         else s'\<lparr>br_result := br_result s @ [v + br_flood s], br_flood := 0\<rparr>)"

function read_words :: "nat \<Rightarrow> bit_reader \<Rightarrow> bit_reader" where
  "read_words width s = (if 0 < width \<and> width \<le> br_bits s then read_words width (read_word width s) else s)"
  by pat_completeness auto
termination by (relation "measure (\<lambda>(_, s). br_bits s)") (auto simp: read_word_def Let_def)

declare read_words.simps [simp del]

text \<open>The characters of \<open>data\<close> are those of the alphabet; a width of zero never ends.\<close>

definition decodeBits :: "nat \<Rightarrow> string \<Rightarrow> nat list result" where
  "decodeBits width data =
     (if width = 0 \<and> data \<noteq> [] then Inl NoReturn
      else Inr (br_result (foldl (\<lambda>s c. read_words width
                 (s\<lparr>br_accum := br_accum s * 2 ^ 6 + nat (indexOf c Base64_chars), br_bits := br_bits s + 6\<rparr>))
                 \<lparr>br_accum = 0, br_bits = 0, br_flood = 0, br_result = []\<rparr> data)))"

end
