(* ===== verification/Mnemonic.thy ===== *)
theory Mnemonic
  imports Wordlists
begin

text \<open>
  \<open>src.ts/wallet/mnemonic.ts\<close>: phrases and entropy. SHA-256 and the Unicode
  normalisation are parameters; the array of bits is the byte array the code fills.
\<close>

section \<open>Masks\<close>

definition getUpperMask :: "nat \<Rightarrow> nat" where
  "getUpperMask bits = push_bit (8 - bits) (push_bit bits 1 - 1) AND 0xff"

definition getLowerMask :: "nat \<Rightarrow> nat" where
  "getLowerMask bits = (push_bit bits 1 - 1) AND 0xff"

section \<open>From a phrase to its entropy\<close>

definition set_entropy_bit :: "nat \<Rightarrow> byte list \<Rightarrow> byte list" where
  "set_entropy_bit offset entropy =
     entropy[offset div 8 := entropy ! (offset div 8) OR push_bit (7 - offset mod 8) 1]"

definition entropy_bit :: "nat \<Rightarrow> byte list \<times> nat \<Rightarrow> nat \<Rightarrow> byte list \<times> nat" where
  "entropy_bit index st b =
     (let (entropy, offset) = st
      in (if index AND push_bit (10 - b) 1 \<noteq> 0 then set_entropy_bit offset entropy else entropy, offset + 1))"

definition entropy_word :: "nat \<Rightarrow> byte list \<times> nat \<Rightarrow> byte list \<times> nat" where
  "entropy_word index st = foldl (entropy_bit index) st [0..<11]"

fun entropy_words :: "(string \<Rightarrow> string) \<Rightarrow> wordlist \<Rightarrow> string list \<Rightarrow> byte list \<times> nat \<Rightarrow> (byte list \<times> nat) result" where
  "entropy_words nfkd wl [] st = Inr st"
| "entropy_words nfkd wl (w # ws) st =
     bindE (wl_getWordIndex wl (nfkd w)) (\<lambda>index.
     bindE (assertArgument (index \<ge> 0) ''invalid mnemonic word'') (\<lambda>_.
       entropy_words nfkd wl ws (entropy_word (nat index) st)))"

definition mnemonicToEntropy ::
    "(string \<Rightarrow> string) \<Rightarrow> (byte list \<Rightarrow> byte list) \<Rightarrow> wordlist \<Rightarrow> string \<Rightarrow> string result" where
  "mnemonicToEntropy nfkd sha wl mnemonic =
     (let words = wl_split wl mnemonic; n = length words
      in bindE (assertArgument (n mod 3 = 0 \<and> n \<ge> 12 \<and> n \<le> 24) ''invalid mnemonic length'') (\<lambda>_.
         bindE (entropy_words nfkd wl words (replicate ((11 * n + 7) div 8) 0, 0)) (\<lambda>(entropy, _).
           let entropyBits = 32 * n div 3;
               checksumMask = getUpperMask (n div 3);
               checksum = unat (sha (take (entropyBits div 8) entropy) ! 0) AND checksumMask
           in bindE (assertArgument (checksum = unat (entropy ! (length entropy - 1)) AND checksumMask)
                       ''invalid mnemonic checksum'') (\<lambda>_.
                hexlify (DU8 (take (entropyBits div 8) entropy)) no_options))))"

section \<open>From entropy to its phrase\<close>

definition entropy_byte :: "nat list \<times> nat \<Rightarrow> byte \<Rightarrow> nat list \<times> nat" where
  "entropy_byte st e =
     (let (indices, remainingBits) = st; l = last indices
      in if remainingBits > 8
         then (butlast indices @ [push_bit 8 l OR unat e], remainingBits - 8)
         else (butlast indices @ [push_bit remainingBits l OR drop_bit (8 - remainingBits) (unat e),
                                  unat e AND getLowerMask (8 - remainingBits)], remainingBits + 3))"

definition entropy_indices :: "(byte list \<Rightarrow> byte list) \<Rightarrow> byte list \<Rightarrow> nat list" where
  "entropy_indices sha entropy =
     (let (indices, _) = foldl entropy_byte ([0], 11) entropy;
          checksumBits = length entropy div 4;
          checksum = unat (sha entropy ! 0) AND getUpperMask checksumBits
      in butlast indices @ [push_bit checksumBits (last indices) OR drop_bit (8 - checksumBits) checksum])"

definition entropyToMnemonic :: "(byte list \<Rightarrow> byte list) \<Rightarrow> wordlist \<Rightarrow> byte list \<Rightarrow> string result" where
  "entropyToMnemonic sha wl entropy =
     bindE (assertArgument (length entropy mod 4 = 0 \<and> length entropy \<ge> 16 \<and> length entropy \<le> 32) ''invalid entropy size'') (\<lambda>_.
       mapE (wl_join wl) (mapM (wl_getWord wl) (entropy_indices sha entropy)))"

section \<open>Mnemonic\<close>

record mnemonic =
  mn_phrase :: string
  mn_password :: string
  mn_wordlist :: wordlist
  mn_entropy :: string

definition new_Mnemonic :: "string \<Rightarrow> string \<Rightarrow> string option \<Rightarrow> wordlist \<Rightarrow> mnemonic" where
  "new_Mnemonic entropy phrase password wl =
     \<lparr>mn_phrase = phrase, mn_password = (case password of None \<Rightarrow> [] | Some p \<Rightarrow> p), mn_wordlist = wl, mn_entropy = entropy\<rparr>"

definition fromPhrase ::
    "(string \<Rightarrow> string) \<Rightarrow> (byte list \<Rightarrow> byte list) \<Rightarrow> wordlist \<Rightarrow> string \<Rightarrow> string option \<Rightarrow> mnemonic result" where
  "fromPhrase nfkd sha wl phrase password =
     bindE (mnemonicToEntropy nfkd sha wl phrase) (\<lambda>entropy.
     bindE (bindE (getBytes (DStr entropy)) (entropyToMnemonic sha wl)) (\<lambda>phrase'.
       Inr (new_Mnemonic entropy phrase' password wl)))"

definition fromEntropy :: "(byte list \<Rightarrow> byte list) \<Rightarrow> wordlist \<Rightarrow> js_data \<Rightarrow> string option \<Rightarrow> mnemonic result" where
  "fromEntropy sha wl e0 password =
     bindE (getBytes e0) (\<lambda>entropy.
     bindE (entropyToMnemonic sha wl entropy) (\<lambda>phrase.
     bindE (hexlify (DU8 entropy) no_options) (\<lambda>h. Inr (new_Mnemonic h phrase password wl))))"

definition entropyToPhrase :: "(byte list \<Rightarrow> byte list) \<Rightarrow> wordlist \<Rightarrow> js_data \<Rightarrow> string result" where
  "entropyToPhrase sha wl e0 = bindE (getBytes e0) (entropyToMnemonic sha wl)"

definition phraseToEntropy ::
    "(string \<Rightarrow> string) \<Rightarrow> (byte list \<Rightarrow> byte list) \<Rightarrow> wordlist \<Rightarrow> string \<Rightarrow> string result" where
  "phraseToEntropy = mnemonicToEntropy"

definition isValidMnemonic ::
    "(string \<Rightarrow> string) \<Rightarrow> (byte list \<Rightarrow> byte list) \<Rightarrow> wordlist \<Rightarrow> string \<Rightarrow> bool" where
  "isValidMnemonic nfkd sha wl phrase = (case mnemonicToEntropy nfkd sha wl phrase of Inr _ \<Rightarrow> True | Inl _ \<Rightarrow> False)"

end
