(* ===== verification/Hd_Wallet.thy ===== *)
theory Hd_Wallet
  imports Signers Hd_Keys Mnemonic
begin

text \<open>
  Hierarchical wallets: \<open>src.ts/wallet/hdwallet.ts\<close> and \<open>src.ts/wallet/mnemonicToSeed.ts\<close>.
  The curve, the hash functions and the key derivation function are what the code
  imports; they are collected in a record. An index is the number the caller gives.
\<close>

section \<open>What the wallets import\<close>

record hd_env =
  he_curve :: ed448_lib
  he_kdf :: kdf
  he_sha256 :: "byte list \<Rightarrow> byte list"
  he_ripemd160 :: "byte list \<Rightarrow> byte list"

definition HardenedBit :: nat where
  "HardenedBit = 0x80000000"

definition defaultPath :: string where
  "defaultPath = ''m''"

definition ripemd160 :: "(byte list \<Rightarrow> byte list) \<Rightarrow> js_data \<Rightarrow> string result" where
  "ripemd160 R data = bindE (getBytes data) (\<lambda>bytes. hexlify (DU8 (R bytes)) no_options)"

section \<open>Nodes\<close>

record hd_node =
  hd_wallet :: base_wallet
  hd_seed :: string
  hd_publicKey :: string
  hd_fingerprint :: string
  hd_parentFingerprint :: string
  hd_path :: "string option"
  hd_index :: nat
  hd_depth :: nat
  hd_mnemonic :: "mnemonic option"

definition new_HDNodeWallet ::
  "hd_env \<Rightarrow> string \<Rightarrow> string \<Rightarrow> string \<Rightarrow> string option \<Rightarrow> nat \<Rightarrow> nat \<Rightarrow> mnemonic option \<Rightarrow> string \<Rightarrow> hd_node result" where
  "new_HDNodeWallet env seed signingKey parentFingerprint path index depth mnemonic pre =
     bindE (new_BaseWallet (he_curve env) (he_sha256 env) signingKey pre) (\<lambda>w.
     bindE (computePublicKey (he_curve env) (DStr signingKey)) (\<lambda>publicKey.
     bindE (bindE (sha256 (he_sha256 env) (DStr publicKey)) (\<lambda>h. ripemd160 (he_ripemd160 env) (DStr h))) (\<lambda>r.
     bindE (dataSlice (DStr r) (Some 0) (Some 4)) (\<lambda>fingerprint.
       Inr \<lparr>hd_wallet = w, hd_seed = seed, hd_publicKey = publicKey, hd_fingerprint = fingerprint,
            hd_parentFingerprint = parentFingerprint, hd_path = path, hd_index = index, hd_depth = depth, hd_mnemonic = mnemonic\<rparr>))))"

definition hd_connect :: "hd_env \<Rightarrow> hd_node \<Rightarrow> hd_node result" where
  "hd_connect env node =
     new_HDNodeWallet env (hd_seed node) (bw_key (hd_wallet node)) (hd_parentFingerprint node) (hd_path node)
       (hd_index node) (hd_depth node) (hd_mnemonic node) (bw_prefix (hd_wallet node))"

definition hasPath :: "hd_node \<Rightarrow> bool" where
  "hasPath node \<longleftrightarrow> hd_path node \<noteq> None"

text \<open>The label of a child: bitwise operations read an index modulo \<open>2 ^ 32\<close>.\<close>

definition child_label :: "nat \<Rightarrow> string" where
  "child_label index =
     (let i = (of_nat index :: 32 word)
      in ''/'' @ nat_toString 10 (unat (i AND NOT 0x80000000)) @ (if i AND 0x80000000 \<noteq> 0 then [CHR 0x27] else []))"

definition child_path :: "string option \<Rightarrow> nat \<Rightarrow> string option" where
  "child_path path index =
     (case path of Some p \<Rightarrow> if p \<noteq> [] then Some (p @ child_label index) else Some p | None \<Rightarrow> None)"

definition hd_deriveChild :: "hd_env \<Rightarrow> hd_node \<Rightarrow> nat \<Rightarrow> hd_node result" where
  "hd_deriveChild env node index =
     bindE (HDWalletGenerateKeyFromSeed (he_curve env) (he_kdf env) (hd_seed node) index) (\<lambda>newPrivateKey.
     bindE (new_SigningKey (DStr newPrivateKey)) (\<lambda>newSigningKey.
       new_HDNodeWallet env (hd_seed node) newSigningKey (hd_fingerprint node) (child_path (hd_path node) index)
         index (hd_depth node + 1) (hd_mnemonic node) (bw_prefix (hd_wallet node))))"

section \<open>Paths\<close>

text \<open>
  One component of a path. \<open>parseInt\<close> of more than fifteen digits rounds, but never
  across the bound it is compared with.
\<close>

definition component_index :: "string \<Rightarrow> nat result" where
  "component_index c =
     (if c \<noteq> [] \<and> last c = CHR 0x27 \<and> butlast c \<noteq> [] \<and> list_all is_digit10 (butlast c)
      then let index = dec_value (butlast c)
           in bindE (assertArgument (index < HardenedBit) ''invalid path index'') (\<lambda>_. Inr (HardenedBit + index))
      else if c \<noteq> [] \<and> list_all is_digit10 c
      then let index = dec_value c
           in bindE (assertArgument (index < HardenedBit) ''invalid path index'') (\<lambda>_. Inr index)
      else Inl (CoreError INVALID_ARGUMENT ''invalid path component''))"

fun derive_components :: "hd_env \<Rightarrow> hd_node \<Rightarrow> string list \<Rightarrow> hd_node result" where
  "derive_components env result [] = Inr result"
| "derive_components env result (c # cs) =
     bindE (component_index c) (\<lambda>i. bindE (hd_deriveChild env result i) (\<lambda>child. derive_components env child cs))"

definition hd_derivePath :: "hd_env \<Rightarrow> hd_node \<Rightarrow> string \<Rightarrow> hd_node result" where
  "hd_derivePath env node path =
     (let components = split_on CHR ''/'' path
      in bindE (assertArgument (components \<noteq> [] \<and> (hd components = ''m'' \<or> 0 < hd_depth node)) ''invalid path'') (\<lambda>_.
           derive_components env node (if hd components = ''m'' then tl components else components)))"

section \<open>Making wallets\<close>

text \<open>The private \<open>#fromSeed\<close>; a path that is missing or empty is the default one.\<close>

definition root_fromSeed :: "hd_env \<Rightarrow> string \<Rightarrow> mnemonic option \<Rightarrow> string \<Rightarrow> string option \<Rightarrow> hd_node result" where
  "root_fromSeed env seed mnemonic pre path =
     bindE (HDWalletGenerateKeyFromSeed (he_curve env) (he_kdf env) seed 0) (\<lambda>extendetPrivateKey.
     bindE (new_SigningKey (DStr extendetPrivateKey)) (\<lambda>signingKey.
       new_HDNodeWallet env seed signingKey ''0x00000000''
         (Some (case path of Some p \<Rightarrow> if p \<noteq> [] then p else defaultPath | None \<Rightarrow> defaultPath)) 0 0 mnemonic pre))"

definition hd_fromSeed :: "hd_env \<Rightarrow> string \<Rightarrow> string \<Rightarrow> string option \<Rightarrow> hd_node result" where
  "hd_fromSeed env seed pre path =
     root_fromSeed env seed None pre (Some (case path of Some p \<Rightarrow> if p \<noteq> [] then p else defaultPath | None \<Rightarrow> defaultPath))"

text \<open>
  \<open>mnemonicToSeed\<close>: \<open>buf\<close> is \<open>Buffer.from\<close> on text, \<open>enc\<close> is \<open>encode\<close> of the
  package \<open>utf8\<close>, whose result is text again, and \<open>pbkdf2\<close> is called with 2048 rounds.
\<close>

definition mnemonicToSeed ::
  "(string \<Rightarrow> byte list) \<Rightarrow> (string \<Rightarrow> string) \<Rightarrow> kdf \<Rightarrow> string \<Rightarrow> string \<Rightarrow> string" where
  "mnemonicToSeed buf enc pbkdf2 mnemonic password = hex_of_bytes (pbkdf2 (buf mnemonic) (buf (enc (''mnemonic'' @ password))))"

definition computeSeed :: "(string \<Rightarrow> string \<Rightarrow> string) \<Rightarrow> mnemonic \<Rightarrow> string" where
  "computeSeed to_seed m = to_seed (mn_phrase m) (mn_password m)"

definition hd_fromMnemonic :: "hd_env \<Rightarrow> (string \<Rightarrow> string \<Rightarrow> string) \<Rightarrow> mnemonic \<Rightarrow> string \<Rightarrow> string \<Rightarrow> hd_node result" where
  "hd_fromMnemonic env to_seed m pre path =
     bindE (root_fromSeed env (computeSeed to_seed m) (Some m) pre None) (\<lambda>root.
       hd_derivePath env root (if path = [] then defaultPath else path))"

definition hd_fromPhrase ::
  "hd_env \<Rightarrow> (string \<Rightarrow> string \<Rightarrow> string) \<Rightarrow> (string \<Rightarrow> string) \<Rightarrow> wordlist \<Rightarrow> string \<Rightarrow> string \<Rightarrow> string \<Rightarrow> string \<Rightarrow> hd_node result" where
  "hd_fromPhrase env to_seed nfkd wl phrase pre password path =
     bindE (fromPhrase nfkd (he_sha256 env) wl phrase (Some password)) (\<lambda>m.
     bindE (root_fromSeed env (computeSeed to_seed m) (Some m) pre None) (\<lambda>root.
       hd_derivePath env root (if path = [] then defaultPath else path)))"

definition hd_createRandom ::
  "hd_env \<Rightarrow> (string \<Rightarrow> string \<Rightarrow> string) \<Rightarrow> byte list \<Rightarrow> wordlist \<Rightarrow> string \<Rightarrow> string option \<Rightarrow> string option \<Rightarrow> hd_node result" where
  "hd_createRandom env to_seed random wl pre password path =
     bindE (fromEntropy (he_sha256 env) wl (DU8 random) (Some (case password of Some p \<Rightarrow> p | None \<Rightarrow> []))) (\<lambda>m.
     bindE (root_fromSeed env (computeSeed to_seed m) (Some m) pre None) (\<lambda>root.
       hd_derivePath env root (case path of Some p \<Rightarrow> p | None \<Rightarrow> defaultPath)))"

text \<open>
  What a keystore is given: the mnemonic only if it is English and has no password; the
  locale of the word list of the mnemonic is an argument.
\<close>

definition hd_account :: "hd_node \<Rightarrow> string \<Rightarrow> (string \<times> string \<times> (string \<times> string \<times> string) option)" where
  "hd_account node locale =
     (bw_address (hd_wallet node), bw_key (hd_wallet node),
      (case (hd_path node, hd_mnemonic node) of
         (Some p, Some m) \<Rightarrow> if p \<noteq> [] \<and> locale = ''en'' \<and> mn_password m = [] then Some (p, ''en'', mn_entropy m) else None
       | _ \<Rightarrow> None))"

section \<open>Account paths\<close>

definition account_index :: "js_data \<Rightarrow> int result" where
  "account_index d =
     bindE (getNumber d) (\<lambda>index.
     bindE (assertArgument (0 \<le> index \<and> index < int HardenedBit) ''invalid account index'') (\<lambda>_. Inr index))"

definition getAccountPath :: "js_data \<Rightarrow> string result" where
  "getAccountPath d =
     bindE (account_index d) (\<lambda>index. Inr (''m/44'' @ [CHR 0x27] @ ''/60'' @ [CHR 0x27] @ ''/'' @ int_toString 10 index @ [CHR 0x27] @ ''/0/0''))"

definition getIndexedAccountPath :: "js_data \<Rightarrow> string result" where
  "getIndexedAccountPath d =
     bindE (account_index d) (\<lambda>index. Inr (''m/44'' @ [CHR 0x27] @ ''/60'' @ [CHR 0x27] @ ''/0'' @ [CHR 0x27] @ ''/0/'' @ int_toString 10 index))"

end
