(* ===== verification/Hd_Wallet_Props.thy ===== *)
theory Hd_Wallet_Props
  imports Hd_Wallet
begin

text \<open>
  What derivation along paths gives: the path a node carries leads from the root to that
  node, and its key depends on the last component of the path only.
\<close>

section \<open>The keys of children\<close>

text \<open>The wallet of the child at an index of any node of a seed.\<close>

definition child_wallet :: "hd_env \<Rightarrow> string \<Rightarrow> string \<Rightarrow> nat \<Rightarrow> base_wallet result" where
  "child_wallet env seed pre index =
     bindE (HDWalletGenerateKeyFromSeed (he_curve env) (he_kdf env) seed index) (\<lambda>k.
     bindE (new_SigningKey (DStr k)) (\<lambda>key. new_BaseWallet (he_curve env) (he_sha256 env) key pre))"

lemma new_node_fields:
  assumes "new_HDNodeWallet env seed key parent path index depth mn pre = Inr n"
  shows "new_BaseWallet (he_curve env) (he_sha256 env) key pre = Inr (hd_wallet n)" and "hd_seed n = seed"
    and "bw_prefix (hd_wallet n) = pre" and "hd_path n = path" and "hd_depth n = depth"
  using assms by (auto simp: new_HDNodeWallet_def new_BaseWallet_def)

lemma deriveChild_fields:
  assumes "hd_deriveChild env n i = Inr r"
  shows "child_wallet env (hd_seed n) (bw_prefix (hd_wallet n)) i = Inr (hd_wallet r)" and "hd_seed r = hd_seed n"
    and "bw_prefix (hd_wallet r) = bw_prefix (hd_wallet n)" and "hd_path r = child_path (hd_path n) i"
    and "hd_depth r = hd_depth n + 1"
proof -
  obtain k key where k: "HDWalletGenerateKeyFromSeed (he_curve env) (he_kdf env) (hd_seed n) i = Inr k" "new_SigningKey (DStr k) = Inr key"
    "new_HDNodeWallet env (hd_seed n) key (hd_fingerprint n) (child_path (hd_path n) i) i (hd_depth n + 1) (hd_mnemonic n)
      (bw_prefix (hd_wallet n)) = Inr r"
    using assms by (auto simp: hd_deriveChild_def)
  from new_node_fields [OF k(3)] k(1,2)
  show "child_wallet env (hd_seed n) (bw_prefix (hd_wallet n)) i = Inr (hd_wallet r)" "hd_seed r = hd_seed n"
    "bw_prefix (hd_wallet r) = bw_prefix (hd_wallet n)" "hd_path r = child_path (hd_path n) i" "hd_depth r = hd_depth n + 1"
    by (simp_all add: child_wallet_def)
qed

lemma root_fields:
  assumes "hd_fromSeed env seed pre None = Inr rt"
  shows "child_wallet env seed pre 0 = Inr (hd_wallet rt)" and "hd_seed rt = seed"
    and "bw_prefix (hd_wallet rt) = pre" and "hd_path rt = Some ''m''"
proof -
  obtain k key where k: "HDWalletGenerateKeyFromSeed (he_curve env) (he_kdf env) seed 0 = Inr k" "new_SigningKey (DStr k) = Inr key"
    "new_HDNodeWallet env seed key ''0x00000000'' (Some ''m'') 0 0 None pre = Inr rt"
    using assms by (auto simp: hd_fromSeed_def root_fromSeed_def defaultPath_def)
  from new_node_fields [OF k(3)] k(1,2)
  show "child_wallet env seed pre 0 = Inr (hd_wallet rt)" "hd_seed rt = seed" "bw_prefix (hd_wallet rt) = pre" "hd_path rt = Some ''m''"
    by (simp_all add: child_wallet_def)
qed

lemma derive_components_append:
  "derive_components env n (xs @ ys) = bindE (derive_components env n xs) (\<lambda>m. derive_components env m ys)"
  by (induction xs arbitrary: n) (simp_all add: bindE_def split: sum.splits)


lemma derive_components_fields:
  assumes "derive_components env n cs = Inr r"
  shows "hd_seed r = hd_seed n \<and> bw_prefix (hd_wallet r) = bw_prefix (hd_wallet n) \<and> hd_depth r = hd_depth n + length cs"
  using assms by (induction cs arbitrary: n) (auto dest: deriveChild_fields(2,3,5))

text \<open>The key at the end of a path: only the last index of it matters.\<close>

lemma derive_components_last:
  assumes "derive_components env n (cs @ [c]) = Inr r"
  obtains i where "component_index c = Inr i" "child_wallet env (hd_seed n) (bw_prefix (hd_wallet n)) i = Inr (hd_wallet r)"
proof -
  obtain m i where m: "derive_components env n cs = Inr m" "component_index c = Inr i" "hd_deriveChild env m i = Inr r"
    using assms by (auto simp: derive_components_append)
  show thesis using that [OF m(2)] deriveChild_fields(1) [OF m(3)] derive_components_fields [OF m(1)] by simp
qed

section \<open>Labels and indices\<close>

lemma child_label_eq:
  assumes "i < 2 ^ 32"
  shows "child_label i = ''/'' @ nat_toString 10 (i mod 2 ^ 31) @ (if 2 ^ 31 \<le> i then [CHR 0x27] else [])"
proof -
  have m: "NOT 0x80000000 = (mask 31 :: 32 word)" by (simp add: mask_eq_exp_minus_1)
  have "unat ((of_nat i :: 32 word) AND NOT 0x80000000) = take_bit 31 (unat (of_nat i :: 32 word))"
    unfolding m take_bit_eq_mask [symmetric] by (simp add: unsigned_take_bit_eq)
  also have "\<dots> = i mod 2 ^ 31" using assms by (simp add: take_bit_eq_mod unat_of_nat)
  finally have low: "unat ((of_nat i :: 32 word) AND NOT 0x80000000) = i mod 2 ^ 31" .
  have "(of_nat i :: 32 word) AND 0x80000000 \<noteq> 0 \<longleftrightarrow> bit (of_nat i :: 32 word) 31"
    using and_exp_eq_0_iff_not_bit [of "of_nat i :: 32 word" 31] by simp
  also have "\<dots> \<longleftrightarrow> odd (i div 2 ^ 31)" using bit_iff_odd [of i 31] by (simp add: bit_of_nat_iff)
  also have "\<dots> \<longleftrightarrow> 2 ^ 31 \<le> i"
  proof -
    have "i div 2 ^ 31 < 2" using assms by (simp add: less_mult_imp_div_less)
    then have "i div 2 ^ 31 = 0 \<or> i div 2 ^ 31 = 1" by auto
    then show ?thesis by (auto simp: div_eq_0_iff)
  qed
  finally show ?thesis using low by (simp add: child_label_def Let_def)
qed


lemma digits_no_quote: "list_all is_digit10 s \<Longrightarrow> CHR 0x27 \<notin> set s" "list_all is_digit10 s \<Longrightarrow> CHR ''/'' \<notin> set s"
proof -
  have "\<not> is_digit10 (CHR 0x27)" "\<not> is_digit10 (CHR ''/'')" by code_simp+
  then show "list_all is_digit10 s \<Longrightarrow> CHR 0x27 \<notin> set s" "list_all is_digit10 s \<Longrightarrow> CHR ''/'' \<notin> set s"
    by (auto simp: list_all_iff)
qed

lemma component_index_digits:
  assumes "k < 2 ^ 31"
  shows "component_index (nat_toString 10 k) = Inr k"
    and "component_index (nat_toString 10 k @ [CHR 0x27]) = Inr (2 ^ 31 + k)"
proof -
  have d: "list_all is_digit10 (nat_toString 10 k)" "nat_toString 10 k \<noteq> []" "dec_value (nat_toString 10 k) = k"
    using is_digit10_toString parse_nat_toString_10 [of k] by (simp_all add: dec_value_def parse_radix_def)
  have "last (nat_toString 10 k) \<noteq> CHR 0x27" using digits_no_quote(1) [OF d(1)] last_in_set [OF d(2)] by metis
  then show "component_index (nat_toString 10 k) = Inr k"
    using d assms by (simp add: component_index_def HardenedBit_def assertArgument_def Let_def)
  show "component_index (nat_toString 10 k @ [CHR 0x27]) = Inr (2 ^ 31 + k)"
    using d assms by (simp add: component_index_def HardenedBit_def assertArgument_def Let_def)
qed

lemma component_index_label:
  assumes "i < 2 ^ 32"
  shows "component_index (tl (child_label i)) = Inr i" and "CHR ''/'' \<notin> set (tl (child_label i))"
    and "child_label i = CHR ''/'' # tl (child_label i)"
proof -
  have l: "tl (child_label i) = nat_toString 10 (i mod 2 ^ 31) @ (if 2 ^ 31 \<le> i then [CHR 0x27] else [])"
    by (simp add: child_label_eq [OF assms])
  show "component_index (tl (child_label i)) = Inr i"
  proof (cases "2 ^ 31 \<le> i")
    case True
    then have "2 ^ 31 + i mod 2 ^ 31 = i" using assms by (simp add: le_mod_geq)
    then show ?thesis using component_index_digits(2) [of "i mod 2 ^ 31"] True unfolding l by (simp only: if_True) simp
  next
    case False
    then show ?thesis using component_index_digits(1) [of i] unfolding l by simp
  qed
  show "CHR ''/'' \<notin> set (tl (child_label i))"
    using digits_no_quote(2) [OF is_digit10_toString] unfolding l by auto
  show "child_label i = CHR ''/'' # tl (child_label i)" by (simp add: child_label_def Let_def)
qed

section \<open>The path a node carries\<close>


lemma split_labels:
  assumes "\<forall>i \<in> set js. i < 2 ^ 32" and "CHR ''/'' \<notin> set q"
  shows "split_on CHR ''/'' (q @ concat (map child_label js)) = q # map (\<lambda>i. tl (child_label i)) js"
  using assms
proof (induction js arbitrary: q)
  case Nil
  then show ?case by (simp add: split_on_none)
next
  case (Cons i js)
  then have l: "CHR ''/'' \<notin> set (tl (child_label i))" "child_label i = CHR ''/'' # tl (child_label i)"
    using component_index_label by simp_all
  have "split_on CHR ''/'' (q @ child_label i @ concat (map child_label js)) =
      q # split_on CHR ''/'' (tl (child_label i) @ concat (map child_label js))"
    using split_on_once [OF Cons.prems(2)] l(2) by (metis append_Cons)
  then show ?case using Cons.IH [OF _ l(1)] Cons.prems(1) by simp
qed


section \<open>Wallets exist\<close>

text \<open>What the imported functions promise.\<close>

definition hd_env_ok :: "hd_env \<Rightarrow> bool" where
  "hd_env_ok env \<longleftrightarrow> ed448_ok (he_curve env) \<and> (\<forall>p s. length (he_kdf env p s) = 57) \<and>
     (\<forall>bs. length (he_sha256 env bs) = 32) \<and> (\<forall>bs. length (he_ripemd160 env bs) = 20)"

lemma new_SigningKey_hex:
  assumes "length k = 57"
  shows "new_SigningKey (DStr (hex_of_bytes k)) = Inr (''0x'' @ hex_of_bytes k)"
proof -
  have "take 2 (hex_of_bytes k) \<noteq> ''0x''"
  proof
    assume "take 2 (hex_of_bytes k) = ''0x''"
    then have "CHR ''x'' \<in> set (hex_of_bytes k)" by (metis in_set_takeD list.set_intros)
    moreover have "list_all is_hex_char (hex_of_bytes k)" by simp
    ultimately show False by (auto simp: list_all_iff is_hex_char_cases)
  qed
  moreover have "dataLength (DStr (''0x'' @ hex_of_bytes k)) = Inr 57"
    using dataLength_bytes(1) [of "DStr (''0x'' @ hex_of_bytes k)" k] assms by (simp add: isBytesLike_def)
  ultimately show ?thesis by (simp add: new_SigningKey_def assertArgument_def Let_def)
qed

lemma new_node_total:
  assumes "hd_env_ok env" and "length k = 57" and "length pre = 2" and "list_all is_hex_char pre"
  shows "\<exists>n. new_HDNodeWallet env seed (''0x'' @ hex_of_bytes k) parent path index depth mn pre = Inr n"
proof -
  have H: "length (he_sha256 env bs) = 32" "length (he_ripemd160 env bs) = 20" for bs using assms(1) by (simp_all add: hd_env_ok_def)
  obtain pub where pub: "computePublicKey (he_curve env) (DStr (''0x'' @ hex_of_bytes k)) = Inr (''0x'' @ hex_of_bytes pub)"
    using sk_sign_spec [of "he_curve env" k "replicate 32 0" "DU8 (replicate 32 0)"] assms(1,2)
    by (auto simp: hd_env_ok_def isBytesLike_def getBytes_def)
  obtain a where "publicToAddress (he_sha256 env) (DStr (''0x'' @ hex_of_bytes pub)) pre = Inr a"
    using publicToAddress_valid [of "DStr (''0x'' @ hex_of_bytes pub)" pub "he_sha256 env" pre] assms(3,4) H by auto
  with pub show ?thesis
    using H(2) by (simp add: new_HDNodeWallet_def new_BaseWallet_def computeAddress_key_def sha256_def ripemd160_def dataSlice_def
        assert_def Let_def)
qed

lemma deriveChild_total:
  assumes "hd_env_ok env" and "length (bw_prefix (hd_wallet n)) = 2" and "list_all is_hex_char (bw_prefix (hd_wallet n))"
  shows "\<exists>r. hd_deriveChild env n i = Inr r"
proof -
  have "\<exists>k. HDWalletGenerateKeyFromSeed (he_curve env) (he_kdf env) (hd_seed n) i = Inr (hex_of_bytes k) \<and> length k = 57"
  proof -
    have "\<exists>c k. derive_path (he_curve env) (he_kdf env) (seedToExtendedPrivate (he_kdf env) (hd_seed n))
        [0x80000000 + 44, 0x80000000 + 654, 0x80000000, 0x80000000, i] = Inr (hex_of_bytes (c @ k)) \<and> length c = 57 \<and> length k = 57"
      using derive_extended [of "he_curve env" "he_kdf env" "[0x80000000 + 44, 0x80000000 + 654, 0x80000000, 0x80000000, i]" "hd_seed n"]
        assms(1) by (auto simp: hd_env_ok_def extended_key_def)
    then obtain c k where "derive_path (he_curve env) (he_kdf env) (seedToExtendedPrivate (he_kdf env) (hd_seed n))
        [0x80000000 + 44, 0x80000000 + 654, 0x80000000, 0x80000000, i] = Inr (hex_of_bytes (c @ k))" "length c = 57" "length k = 57"
      by blast
    then show ?thesis
      by (intro exI [of _ k]) (auto simp: derive_path_def HDWalletGenerateKeyFromSeed_def Let_def bindE_def split: sum.splits)
  qed
  then obtain k where k: "HDWalletGenerateKeyFromSeed (he_curve env) (he_kdf env) (hd_seed n) i = Inr (hex_of_bytes k)" "length k = 57"
    by blast
  from new_node_total [OF assms(1) k(2) assms(2,3)] k(1) new_SigningKey_hex [OF k(2)] show ?thesis
    by (simp add: hd_deriveChild_def)
qed

lemma root_total:
  assumes "hd_env_ok env" and "length pre = 2" and "list_all is_hex_char pre"
  shows "\<exists>rt. hd_fromSeed env seed pre None = Inr rt"
proof -
  define n where "n = \<lparr>hd_wallet = \<lparr>bw_key = [], bw_prefix = pre, bw_address = []\<rparr>, hd_seed = seed, hd_publicKey = [],
    hd_fingerprint = [], hd_parentFingerprint = [], hd_path = None, hd_index = 0, hd_depth = 0, hd_mnemonic = None\<rparr>"
  obtain r where r: "hd_deriveChild env n 0 = Inr r" using deriveChild_total [OF assms(1), of n 0] assms(2,3) by (auto simp: n_def)
  then obtain k key where k: "HDWalletGenerateKeyFromSeed (he_curve env) (he_kdf env) seed 0 = Inr k" "new_SigningKey (DStr k) = Inr key"
    by (auto simp: hd_deriveChild_def n_def)
  obtain kb where "length kb = 57" "key = ''0x'' @ hex_of_bytes kb" using new_SigningKey_bytes [OF k(2)] by blast
  with new_node_total [OF assms(1) _ assms(2,3)] k show ?thesis by (simp add: hd_fromSeed_def root_fromSeed_def)
qed

lemma derive_components_total:
  assumes "hd_env_ok env" and "length (bw_prefix (hd_wallet n)) = 2" and "list_all is_hex_char (bw_prefix (hd_wallet n))"
    and "map component_index cs = map Inr js"
  shows "\<exists>r. derive_components env n cs = Inr r"
  using assms(2-4)
proof (induction cs arbitrary: n js)
  case (Cons c cs)
  then obtain i js' where i: "component_index c = Inr i" "map component_index cs = map Inr js'" by (cases js) auto
  obtain m where m: "hd_deriveChild env n i = Inr m" using deriveChild_total [OF assms(1) Cons.prems(1,2)] by blast
  then have "bw_prefix (hd_wallet m) = bw_prefix (hd_wallet n)" by (rule deriveChild_fields(3))
  with Cons.IH [OF _ _ i(2), of m] Cons.prems(1,2) i(1) m show ?case by simp
qed simp

section \<open>Accounts\<close>

text \<open>
  C37. All accounts of \<open>getAccountPath\<close> are one: derived from the root of a seed, each of
  them exists and has the key and the address of the root, since a child is made from the
  seed and the last component of its path, which is always 0.
\<close>

theorem account_paths_collide:
  assumes "hd_env_ok env" and "length pre = 2" and "list_all is_hex_char pre"
    and "hd_fromSeed env seed pre None = Inr rt" and "getAccountPath d = Inr p"
  shows "\<exists>r. hd_derivePath env rt p = Inr r \<and> hd_wallet r = hd_wallet rt"
proof -
  obtain n where n: "0 \<le> n" "n < 2 ^ 31" "p = ''m/44'' @ [CHR 0x27] @ ''/60'' @ [CHR 0x27] @ ''/'' @ int_toString 10 n @ [CHR 0x27] @ ''/0/0''"
    using assms(5) by (auto simp: getAccountPath_def account_index_def HardenedBit_def assertArgument_def split: if_splits)
  define k where "k = nat n"
  define js :: "nat list" where "js = [2 ^ 31 + 44, 2 ^ 31 + 60, 2 ^ 31 + k, 0, 0]"
  have k: "k < 2 ^ 31" "int_toString 10 n = nat_toString 10 k" using n(1,2) int_toString_nat [of 10 k] by (simp_all add: k_def)
  have lab: "child_label (2 ^ 31 + k') = ''/'' @ nat_toString 10 k' @ [CHR 0x27]" if "k' < 2 ^ 31" for k'
    using child_label_eq [of "2 ^ 31 + k'"] that by simp
  have "nat_toString 10 44 = ''44''" "nat_toString 10 60 = ''60''" "child_label 0 = ''/0''" by code_simp+
  then have p: "p = ''m'' @ concat (map child_label js)"
    using lab [of 44] lab [of 60] lab [OF k(1)] by (simp add: n(3) k(2) js_def)
  have b: "\<forall>i \<in> set js. i < 2 ^ 32" using k(1) by (auto simp: js_def)
  have "split_on CHR ''/'' p = ''m'' # map (\<lambda>i. tl (child_label i)) js"
    unfolding p by (rule split_labels [OF b]) simp
  then have dp: "hd_derivePath env rt p = derive_components env rt (map (\<lambda>i. tl (child_label i)) js)"
    by (simp add: hd_derivePath_def Let_def)
  have ci: "map component_index (map (\<lambda>i. tl (child_label i)) js) = map Inr js"
    using b component_index_label(1) by simp
  note rf = root_fields [OF assms(4)]
  obtain r where r: "derive_components env rt (map (\<lambda>i. tl (child_label i)) js) = Inr r"
    using derive_components_total [OF assms(1) _ _ ci, of rt] rf(3) assms(2,3) by auto
  have "map (\<lambda>i. tl (child_label i)) js = map (\<lambda>i. tl (child_label i)) (butlast js) @ [tl (child_label 0)]" by (simp add: js_def)
  then obtain i where i: "component_index (tl (child_label 0)) = Inr i"
    "child_wallet env (hd_seed rt) (bw_prefix (hd_wallet rt)) i = Inr (hd_wallet r)"
    using derive_components_last r by metis
  then have "i = 0" using component_index_label(1) [of 0] by simp
  then have "hd_wallet r = hd_wallet rt" using i(2) rf by simp
  with dp r show ?thesis by auto
qed

section \<open>An example\<close>

definition toy_hd :: hd_env where
  "toy_hd = \<lparr>he_curve = toy_ed448, he_kdf = (\<lambda>p s. replicate 57 1), he_sha256 = (\<lambda>bs. take 32 (bs @ replicate 32 0)),
     he_ripemd160 = (\<lambda>bs. take 20 (bs @ replicate 20 0))\<rparr>"

lemma toy_hd_ok: "hd_env_ok toy_hd"
  using toy_ed448_ok by (simp add: hd_env_ok_def toy_hd_def min_def)

lemma toy_prefix: "length ''cb'' = 2" "list_all is_hex_char ''cb''"
  by (simp_all add: is_hex_char_cases)


theorem account_paths_collide_witness:
  "\<exists>rt p r. getAccountPath (DBig 5) = Inr p \<and> hd_derivePath toy_hd rt p = Inr r \<and> hd_wallet r = hd_wallet rt"
proof -
  obtain rt where rt: "hd_fromSeed toy_hd ''00'' ''cb'' None = Inr rt" using root_total [OF toy_hd_ok toy_prefix] by blast
  obtain p where p: "getAccountPath (DBig 5) = Inr p"
    by (simp add: getAccountPath_def account_index_def getNumber_bigint_def safe_range_def maxValue_def HardenedBit_def assertArgument_def)
  from account_paths_collide [OF toy_hd_ok toy_prefix rt p] p show ?thesis by blast
qed

end
