(* ===== verification/Signature_Lexer.thy ===== *)
theory Signature_Lexer
  imports Maths
begin

text \<open>
  The lexer of \<open>src.ts/abi/fragments.ts\<close>: human-readable signatures as tokens that
  carry the positions of their matching parenthesis and of the neighbouring commas,
  and \<open>TokenString\<close>, the cursor the parsers move over them.
\<close>

section \<open>Tokens\<close>

datatype token_type =
  OPEN_PAREN | CLOSE_PAREN | BRACKET | CLOSE_BRACKET | COMMA | AT | KEYWORD | TYPE_NAME | ID | NUMBER

record token =
  tk_type :: token_type
  tk_text :: string
  tk_offset :: nat
  tk_depth :: int
  tk_match :: int
  tk_linkBack :: int
  tk_linkNext :: int
  tk_value :: int

definition KwVisib :: "string list" where
  "KwVisib = [''constant'', ''external'', ''internal'', ''payable'', ''private'', ''public'', ''pure'', ''view'']"

definition KwTypes :: "string list" where
  "KwTypes = [''constructor'', ''error'', ''event'', ''fallback'', ''function'', ''receive'', ''struct'']"

definition KwModifiers :: "string list" where
  "KwModifiers = [''calldata'', ''memory'', ''storage'', ''payable'', ''indexed'']"

definition Keywords :: "string list" where
  "Keywords = KwTypes @ KwModifiers @ [''tuple'', ''returns''] @ KwVisib"

text \<open>\<open>OPEN_BRACKET\<close> of the table becomes \<open>BRACKET\<close> as soon as it is read.\<close>

definition SimpleTokens :: "char \<Rightarrow> token_type option" where
  "SimpleTokens c =
     (if c = CHR ''('' then Some OPEN_PAREN else if c = CHR '')'' then Some CLOSE_PAREN
      else if c = CHR ''['' then Some BRACKET else if c = CHR '']'' then Some CLOSE_BRACKET
      else if c = CHR '','' then Some COMMA else if c = CHR ''@'' then Some AT else None)"

definition is_id_start :: "char \<Rightarrow> bool" where
  "is_id_start c \<longleftrightarrow>
     (let n = of_char c :: nat in 97 \<le> n \<and> n \<le> 122 \<or> 65 \<le> n \<and> n \<le> 90 \<or> n = 36 \<or> n = 95)"

definition is_id_char :: "char \<Rightarrow> bool" where
  "is_id_char c \<longleftrightarrow> is_id_start c \<or> is_digit10 c"

text \<open>The longest prefixes the regular expressions of the lexer match.\<close>

definition idPrefix :: "string \<Rightarrow> string" where
  "idPrefix s = (case s of c # r \<Rightarrow> if is_id_start c then c # takeWhile is_id_char r else [] | [] \<Rightarrow> [])"

definition numberPrefix :: "string \<Rightarrow> string" where
  "numberPrefix s = takeWhile is_digit10 s"

definition regexId :: "string \<Rightarrow> bool" where
  "regexId s \<longleftrightarrow> s \<noteq> [] \<and> idPrefix s = s"

text \<open>The two digit groups of \<open>regexType\<close>; an absent group is \<open>None\<close>.\<close>

definition regexType :: "string \<Rightarrow> (string option \<times> string option) option" where
  "regexType s =
     (if s = ''address'' \<or> s = ''bool'' \<or> s = ''string'' then Some (None, None)
      else if take 5 s = ''bytes'' \<and> list_all is_digit10 (drop 5 s) then Some (Some (drop 5 s), None)
      else if take 3 s = ''int'' \<and> list_all is_digit10 (drop 3 s) then Some (None, Some (drop 3 s))
      else if take 4 s = ''uint'' \<and> list_all is_digit10 (drop 4 s) then Some (None, Some (drop 4 s))
      else None)"

section \<open>The lexer\<close>

text \<open>Its arrays; the two stacks have their top first.\<close>

record lexer =
  lx_tokens :: "token list"
  lx_brackets :: "nat list"
  lx_commas :: "nat list"

definition syntax_token :: "string \<Rightarrow> 'a result" where
  "syntax_token m = Inl (JsError NativeError m)"

definition not_an_object :: "'a result" where
  "not_an_object = Inl (JsError NativeTypeError ''not an object'')"

definition new_token :: "lexer \<Rightarrow> nat \<Rightarrow> token_type \<Rightarrow> string \<Rightarrow> token" where
  "new_token lx offset type text =
     \<lparr>tk_type = type, tk_text = text, tk_offset = offset, tk_depth = int (length (lx_brackets lx)),
      tk_match = -1, tk_linkBack = -1, tk_linkNext = -1, tk_value = -1\<rparr>"

definition push_token :: "token \<Rightarrow> lexer \<Rightarrow> lexer" where
  "push_token t lx = lx\<lparr>lx_tokens := lx_tokens lx @ [t]\<rparr>"

definition last_index :: "lexer \<Rightarrow> nat" where
  "last_index lx = length (lx_tokens lx) - 1"

definition upd_token :: "nat \<Rightarrow> (token \<Rightarrow> token) \<Rightarrow> lexer \<Rightarrow> lexer" where
  "upd_token i f lx = lx\<lparr>lx_tokens := (lx_tokens lx)[i := f (lx_tokens lx ! i)]\<rparr>"

text \<open>
  What follows the push of a one-character token, which is the last of the list: the
  parentheses and commas are linked to each other, and a closing bracket is merged,
  with the number before it, into the text of the opening one.
\<close>

definition open_paren :: "lexer \<Rightarrow> lexer" where
  "open_paren lx =
     lx\<lparr>lx_brackets := last_index lx # lx_brackets lx, lx_commas := last_index lx # lx_commas lx\<rparr>"

definition link_comma :: "lexer \<Rightarrow> lexer result" where
  "link_comma lx =
     (case lx_commas lx of
        [] \<Rightarrow> not_an_object
      | c # cs \<Rightarrow>
          Inr (upd_token c (\<lambda>t. t\<lparr>tk_linkNext := int (last_index lx)\<rparr>)
                (upd_token (last_index lx) (\<lambda>t. t\<lparr>tk_linkBack := int c\<rparr>) (lx\<lparr>lx_commas := cs\<rparr>))))"

definition close_paren :: "lexer \<Rightarrow> lexer result" where
  "close_paren lx =
     (case lx_brackets lx of
        [] \<Rightarrow> syntax_token ''no matching open bracket''
      | b # bs \<Rightarrow>
          link_comma
            (upd_token b (\<lambda>t. t\<lparr>tk_match := int (last_index lx)\<rparr>)
              (upd_token (last_index lx) (\<lambda>t. t\<lparr>tk_match := int b, tk_depth := tk_depth t - 1\<rparr>)
                (lx\<lparr>lx_brackets := bs\<rparr>))))"

definition comma :: "lexer \<Rightarrow> lexer result" where
  "comma lx = mapE (\<lambda>lx'. lx'\<lparr>lx_commas := last_index lx # lx_commas lx'\<rparr>) (link_comma lx)"

definition close_bracket :: "lexer \<Rightarrow> lexer result" where
  "close_bracket lx =
     (let suffix = tk_text (last (lx_tokens lx)); ts = butlast (lx_tokens lx)
      in bindE
           (if ts \<noteq> [] \<and> tk_type (last ts) = NUMBER
            then let digits = tk_text (last ts); ts' = butlast ts
                 in if ts' = [] then not_an_object
                    else bindE (getNumber (DStr digits)) (\<lambda>n.
                           Inr (ts'[length ts' - 1 := (last ts')\<lparr>tk_value := n\<rparr>], digits @ suffix))
            else Inr (ts, suffix))
           (\<lambda>(ts, suffix).
              if ts = [] \<or> tk_type (last ts) \<noteq> BRACKET then syntax_token ''missing opening bracket''
              else Inr (lx\<lparr>lx_tokens := ts[length ts - 1 := (last ts)\<lparr>tk_text := tk_text (last ts) @ suffix\<rparr>]\<rparr>)))"

definition simple_token :: "token_type \<Rightarrow> lexer \<Rightarrow> lexer result" where
  "simple_token type lx =
     (case type of
        OPEN_PAREN \<Rightarrow> Inr (open_paren lx)
      | CLOSE_PAREN \<Rightarrow> close_paren lx
      | COMMA \<Rightarrow> comma lx
      | CLOSE_BRACKET \<Rightarrow> close_bracket lx
      | _ \<Rightarrow> Inr lx)"

definition word_type :: "string \<Rightarrow> token_type" where
  "word_type s = (if s \<in> set Keywords then KEYWORD else if regexType s \<noteq> None then TYPE_NAME else ID)"

text \<open>
  One turn of the loop on the rest of the text, already stripped of its leading white
  space: the text of the token, and the lexer after it. At the end of the text, where
  white space has left nothing, no token matches.
\<close>

definition lex_token :: "string \<Rightarrow> nat \<Rightarrow> lexer \<Rightarrow> (string \<times> lexer) result" where
  "lex_token cur offset lx =
     (case cur of
        [] \<Rightarrow> syntax_token ''unexpected token''
      | c # _ \<Rightarrow>
          (case SimpleTokens c of
             Some type \<Rightarrow>
               mapE (Pair [c]) (simple_token type (push_token (new_token lx offset type [c]) lx))
           | None \<Rightarrow>
               if idPrefix cur \<noteq> [] then
                 Inr (idPrefix cur, push_token (new_token lx offset (word_type (idPrefix cur)) (idPrefix cur)) lx)
               else if numberPrefix cur \<noteq> [] then
                 Inr (numberPrefix cur, push_token (new_token lx offset NUMBER (numberPrefix cur)) lx)
               else syntax_token ''unexpected token''))"

lemma lex_token_consumes: "lex_token cur offset lx = Inr (w, lx') \<Longrightarrow> w \<noteq> [] \<and> cur \<noteq> []"
  by (auto simp: lex_token_def syntax_token_def split: list.splits option.splits if_splits)

function lex_loop :: "string \<Rightarrow> nat \<Rightarrow> lexer \<Rightarrow> lexer result" where
  "lex_loop text offset lx =
     (if text = [] then Inr lx
      else let cur = dropWhile is_js_space text; start = offset + (length text - length cur)
           in bindE (lex_token cur start lx) (\<lambda>(w, lx').
                lex_loop (drop (length w) cur) (start + length w) lx'))"
  by pat_completeness auto
termination
proof (relation "measure (\<lambda>(text, _, _). length text)", goal_cases)
  case (2 s offset lx cur start x w lx')
  then have "w \<noteq> []" "cur \<noteq> []" using lex_token_consumes by blast+
  moreover have "length cur \<le> length s" using 2(2) by (simp add: length_dropWhile_le)
  ultimately show ?case by (cases w; cases cur) auto
qed simp

declare lex_loop.simps [simp del]

section \<open>TokenString\<close>

record token_string =
  ts_offset :: int
  ts_tokens :: "token list"

definition TokenString :: "token list \<Rightarrow> token_string" where
  "TokenString tokens = \<lparr>ts_offset = 0, ts_tokens = tokens\<rparr>"

definition lex :: "string \<Rightarrow> token_string result" where
  "lex text =
     mapE (\<lambda>lx. TokenString (lx_tokens lx))
       (lex_loop text 0 \<lparr>lx_tokens = [], lx_brackets = [], lx_commas = []\<rparr>)"

definition ts_length :: "token_string \<Rightarrow> int" where
  "ts_length ts = int (length (ts_tokens ts)) - ts_offset ts"

definition ts_reset :: "token_string \<Rightarrow> token_string" where
  "ts_reset ts = ts\<lparr>ts_offset := 0\<rparr>"

definition ts_clone :: "token_string \<Rightarrow> token_string" where
  "ts_clone ts = TokenString (ts_tokens ts)"

definition shift_token :: "int \<Rightarrow> token \<Rightarrow> token" where
  "shift_token n t = t\<lparr>tk_match := tk_match t - n, tk_linkBack := tk_linkBack t - n, tk_linkNext := tk_linkNext t - n\<rparr>"

definition subTokenString :: "token_string \<Rightarrow> int \<Rightarrow> int \<Rightarrow> token_string" where
  "subTokenString ts a b = TokenString (map (shift_token a) (js_slice (ts_tokens ts) a b))"

text \<open>A negative index reads \<open>undefined\<close>, whose fields cannot be read.\<close>

definition peek :: "token_string \<Rightarrow> token result" where
  "peek ts =
     (if ts_offset ts \<ge> int (length (ts_tokens ts)) then syntax_token ''out-of-bounds''
      else if ts_offset ts < 0 then not_an_object
      else Inr (ts_tokens ts ! nat (ts_offset ts)))"

definition pop :: "token_string \<Rightarrow> (token \<times> token_string) result" where
  "pop ts = bindE (peek ts) (\<lambda>t. Inr (t, ts\<lparr>ts_offset := ts_offset ts + 1\<rparr>))"

definition popKeyword :: "string list \<Rightarrow> token_string \<Rightarrow> (string \<times> token_string) result" where
  "popKeyword allowed ts =
     bindE (peek ts) (\<lambda>t.
       if tk_type t \<noteq> KEYWORD \<or> tk_text t \<notin> set allowed then syntax_token ''expected keyword''
       else mapE (\<lambda>(t, ts'). (tk_text t, ts')) (pop ts))"

definition popType :: "token_type \<Rightarrow> token_string \<Rightarrow> (string \<times> token_string) result" where
  "popType type ts =
     bindE (peek ts) (\<lambda>t.
       if tk_type t \<noteq> type then syntax_token ''expected token''
       else mapE (\<lambda>(t, ts'). (tk_text t, ts')) (pop ts))"

definition popParen :: "token_string \<Rightarrow> (token_string \<times> token_string) result" where
  "popParen ts =
     bindE (peek ts) (\<lambda>top.
       if tk_type top \<noteq> OPEN_PAREN then syntax_token ''bad start''
       else Inr (subTokenString ts (ts_offset ts + 1) (tk_match top + 1), ts\<lparr>ts_offset := tk_match top + 1\<rparr>))"

text \<open>
  The loop of \<open>popParams\<close>. A link that did not move forward would repeat it, so it takes
  fuel; on the tokens of a text the links only go forward.
\<close>

fun params_loop :: "nat \<Rightarrow> int \<Rightarrow> token_string \<Rightarrow> token_string list result" where
  "params_loop fuel stop ts =
     (if ts_offset ts < stop - 1 then
        (case fuel of
           0 \<Rightarrow> Inl NoReturn
         | Suc k \<Rightarrow>
             bindE (peek ts) (\<lambda>t.
               let link = tk_linkNext t
               in bindE (params_loop k stop (ts\<lparr>ts_offset := link\<rparr>)) (\<lambda>rest.
                    Inr (subTokenString ts (ts_offset ts + 1) link # rest))))
      else Inr [])"

declare params_loop.simps [simp del]

definition popParams :: "token_string \<Rightarrow> (token_string list \<times> token_string) result" where
  "popParams ts =
     bindE (peek ts) (\<lambda>top.
       if tk_type top \<noteq> OPEN_PAREN then syntax_token ''bad start''
       else bindE (params_loop (length (ts_tokens ts)) (tk_match top) ts) (\<lambda>items.
              Inr (items, ts\<lparr>ts_offset := tk_match top + 1\<rparr>)))"

definition peekType :: "token_type \<Rightarrow> token_string \<Rightarrow> string option result" where
  "peekType type ts =
     (if ts_length ts = 0 then Inr None
      else bindE (peek ts) (\<lambda>t. Inr (if tk_type t = type then Some (tk_text t) else None)))"

definition peekKeyword :: "string list \<Rightarrow> token_string \<Rightarrow> string option result" where
  "peekKeyword allowed ts =
     bindE (peekType KEYWORD ts) (\<lambda>top.
       Inr (case top of None \<Rightarrow> None | Some k \<Rightarrow> if k \<in> set allowed then Some k else None))"

section \<open>Consuming a signature from left to right\<close>

text \<open>
  \<open>for (const key in allowed.keys())\<close> walks the enumerable property names of an iterator
  object, of which there are none, so that no key is ever compared.
\<close>

definition for_in_iterator :: "string list \<Rightarrow> string list" where
  "for_in_iterator keys = []"

definition allowSingle :: "string list \<Rightarrow> string list \<Rightarrow> unit result" where
  "allowSingle present allowed =
     (if length (filter (\<lambda>k. k \<in> set present) (for_in_iterator allowed)) > 1
      then syntax_token ''conflicting types'' else Inr ())"

definition consumeName :: "string \<Rightarrow> token_string \<Rightarrow> (string \<times> token_string) result" where
  "consumeName type ts =
     bindE (peekKeyword KwTypes ts) (\<lambda>top.
     bindE (if top = None then Inr ts
            else bindE (pop ts) (\<lambda>(t, ts').
                   if tk_text t \<noteq> type then syntax_token ''expected another keyword'' else Inr ts'))
       (popType ID))"

text \<open>The keywords in the order they are added to the \<open>Set\<close>.\<close>

function consumeKeywords_loop :: "string list \<Rightarrow> string list \<Rightarrow> token_string \<Rightarrow> (string list \<times> token_string) result" where
  "consumeKeywords_loop keywords allowed ts =
     bindE (peekType KEYWORD ts) (\<lambda>top.
       case top of
         None \<Rightarrow> Inr (keywords, ts)
       | Some k \<Rightarrow>
           if k \<notin> set allowed then Inr (keywords, ts)
           else bindE (pop ts) (\<lambda>(_, ts').
                  if k \<in> set keywords then syntax_token ''duplicate keywords''
                  else consumeKeywords_loop (keywords @ [k]) allowed ts'))"
  by pat_completeness auto
termination
proof (relation "measure (\<lambda>(_, _, ts). nat (ts_length ts))", goal_cases)
  case (2 kws allowed ts top k x t ts')
  then show ?case by (auto simp: pop_def peek_def ts_length_def syntax_token_def not_an_object_def split: if_splits)
qed simp

declare consumeKeywords_loop.simps [simp del]

definition consumeKeywords :: "string list \<Rightarrow> token_string \<Rightarrow> (string list \<times> token_string) result" where
  "consumeKeywords allowed ts = consumeKeywords_loop [] allowed ts"

definition mutability_of :: "string list \<Rightarrow> string" where
  "mutability_of modifiers =
     (if ''view'' \<in> set modifiers then ''view''
      else if ''pure'' \<in> set modifiers then ''pure''
      else if ''payable'' \<in> set modifiers then ''payable''
      else if ''nonpayable'' \<in> set modifiers then ''nonpayable''
      else if ''constant'' \<in> set modifiers then ''view''
      else ''nonpayable'')"

definition consumeMutability :: "token_string \<Rightarrow> (string \<times> token_string) result" where
  "consumeMutability ts =
     bindE (consumeKeywords KwVisib ts) (\<lambda>(modifiers, ts').
     bindE (allowSingle modifiers [''constant'', ''payable'', ''nonpayable'']) (\<lambda>_.
     bindE (allowSingle modifiers [''pure'', ''view'', ''payable'', ''nonpayable'']) (\<lambda>_.
       Inr (mutability_of modifiers, ts'))))"

definition consumeEnergy :: "token_string \<Rightarrow> (int option \<times> token_string) result" where
  "consumeEnergy ts =
     bindE (peekType AT ts) (\<lambda>top.
       if top = None then Inr (None, ts)
       else bindE (pop ts) (\<lambda>(_, ts').
            bindE (peekType NUMBER ts') (\<lambda>num.
              if num = None then syntax_token ''invalid energy''
              else bindE (pop ts') (\<lambda>(t, ts'').
                   bindE (getBigInt (DStr (tk_text t))) (\<lambda>n. Inr (Some n, ts''))))))"

definition consumeEoi :: "token_string \<Rightarrow> unit result" where
  "consumeEoi ts = (if ts_length ts \<noteq> 0 then syntax_token ''unexpected tokens'' else Inr ())"

end
