(* ===== verification/Fragments.thy ===== *)
theory Fragments
  imports Signature_Lexer Abi Typed_Data
begin

text \<open>
  \<open>src.ts/abi/fragments.ts\<close>: \<open>ParamType\<close> and the fragments of an ABI (functions,
  events, errors, constructors, fallbacks, structs), read from a signature or from a
  JSON description and formatted back. A JSON description is the object of the
  \<open>JsonFragmentType\<close> and \<open>JsonFragment\<close> interfaces; \<open>format("json")\<close> is the object that
  it stringifies.
\<close>

section \<open>ParamType\<close>

datatype format_type = Sighash | Minimal | Full

datatype json_type =
  JsonType (jt_name: "string option") (jt_type: "string option") (jt_indexed: "bool option")
    (jt_components: "json_type list option")

definition plain_error :: "'a result" where
  "plain_error = Inl (JsError NativeError [])"

definition verifyBasicType :: "string \<Rightarrow> string result" where
  "verifyBasicType type =
     (case regexType type of
        None \<Rightarrow> Inl (CoreError INVALID_ARGUMENT ''invalid type'')
      | Some (bytes, width) \<Rightarrow>
          if type = ''uint'' then Inr ''uint256''
          else if type = ''int'' then Inr ''int256''
          else (case bytes of
                  Some ds \<Rightarrow>
                    bindE (assertArgument (ds = [] \<or> dec_value ds \<noteq> 0 \<and> dec_value ds \<le> 32) ''invalid bytes length'')
                      (\<lambda>_. Inr type)
                | None \<Rightarrow>
                    (case width of
                       Some ds \<Rightarrow>
                         bindE (assertArgument (ds = [] \<or> dec_value ds \<noteq> 0 \<and> dec_value ds \<le> 256 \<and> dec_value ds mod 8 = 0)
                                  ''invalid numeric width'') (\<lambda>_. Inr type)
                     | None \<Rightarrow> Inr type)))"

text \<open>The constructor.\<close>

definition new_ParamType ::
  "string \<Rightarrow> string \<Rightarrow> string \<Rightarrow> bool option \<Rightarrow> param_type list option \<Rightarrow> int option \<Rightarrow> param_type option \<Rightarrow> param_type result"
where
  "new_ParamType name type baseType indexed components arrayLength arrayChildren =
     (if baseType = ''array'' \<and> (arrayLength = None \<or> arrayChildren = None) then plain_error
      else if baseType \<noteq> ''array'' \<and> (arrayLength \<noteq> None \<or> arrayChildren \<noteq> None) then plain_error
      else if baseType = ''tuple'' \<and> components = None then plain_error
      else if baseType \<noteq> ''tuple'' \<and> components \<noteq> None then plain_error
      else Inr (ParamType name type baseType indexed components arrayLength arrayChildren))"

definition isArray :: "param_type \<Rightarrow> bool" where
  "isArray p \<longleftrightarrow> pt_baseType p = ''array''"

definition isTuple :: "param_type \<Rightarrow> bool" where
  "isTuple p \<longleftrightarrow> pt_baseType p = ''tuple''"

definition isIndexable :: "param_type \<Rightarrow> bool" where
  "isIndexable p \<longleftrightarrow> pt_indexed p \<noteq> None"

definition separator :: "format_type \<Rightarrow> string" where
  "separator fmt = (if fmt = Full then '', '' else '','')"

text \<open>The array suffix and what is printed after the type.\<close>

definition array_suffix :: "int option \<Rightarrow> string" where
  "array_suffix len = ''['' @ (case len of Some n \<Rightarrow> (if n < 0 then [] else int_toString 10 n) | None \<Rightarrow> ''null'') @ '']''"

definition format_tail :: "format_type \<Rightarrow> string \<Rightarrow> bool option \<Rightarrow> string" where
  "format_tail fmt name indexed =
     (if fmt = Sighash then []
      else (if indexed = Some True then '' indexed'' else []) @ (if fmt = Full \<and> name \<noteq> [] then '' '' @ name else []))"

fun ParamType_format :: "format_type \<Rightarrow> param_type \<Rightarrow> string" where
  "ParamType_format fmt (ParamType name type baseType indexed components arrayLength arrayChildren) =
     (if baseType = ''array''
      then (case arrayChildren of Some c \<Rightarrow> ParamType_format fmt c | None \<Rightarrow> []) @ array_suffix arrayLength
      else if baseType = ''tuple''
      then (if fmt \<noteq> Sighash then type else []) @ ''(''
           @ join_with (separator fmt) (map (ParamType_format fmt) (case components of Some cs \<Rightarrow> cs | None \<Rightarrow> [])) @ '')''
      else type)
     @ format_tail fmt name indexed"

fun ParamType_json :: "param_type \<Rightarrow> json_type" where
  "ParamType_json (ParamType name type baseType indexed components arrayLength arrayChildren) =
     JsonType (if name = [] then None else Some name) (Some (if baseType = ''tuple'' then ''tuple'' else type)) indexed
       (if baseType = ''tuple'' then map_option (map ParamType_json) components else None)"

subsection \<open>From a signature\<close>

definition tuple_type :: "param_type list \<Rightarrow> string" where
  "tuple_type comps = ''tuple('' @ join_with '','' (map (ParamType_format Sighash) comps) @ '')''"

text \<open>The array suffixes: every bracket wraps the type read so far.\<close>

record shape =
  sh_type :: string
  sh_baseType :: string
  sh_comps :: "param_type list option"
  sh_arrayLength :: "int option"
  sh_arrayChildren :: "param_type option"

definition shape_param :: "string \<Rightarrow> bool option \<Rightarrow> shape \<Rightarrow> param_type result" where
  "shape_param name indexed sh =
     new_ParamType name (sh_type sh) (sh_baseType sh) indexed (sh_comps sh) (sh_arrayLength sh) (sh_arrayChildren sh)"

function array_loop :: "shape \<Rightarrow> token_string \<Rightarrow> (shape \<times> token_string) result" where
  "array_loop sh obj =
     bindE (peekType BRACKET obj) (\<lambda>b.
       if b = None then Inr (sh, obj)
       else bindE (pop obj) (\<lambda>(bracket, obj').
            bindE (shape_param [] None sh) (\<lambda>child.
              array_loop \<lparr>sh_type = sh_type sh @ tk_text bracket, sh_baseType = ''array'', sh_comps = None,
                          sh_arrayLength = Some (tk_value bracket), sh_arrayChildren = Some child\<rparr> obj')))"
  by pat_completeness auto
termination
proof (relation "measure (\<lambda>(_, obj). nat (ts_length obj))", goal_cases)
  case (2 sh obj b bo bracket obj' child)
  then show ?case by (auto simp: pop_def peek_def ts_length_def syntax_token_def not_an_object_def split: if_splits)
qed simp

declare array_loop.simps [simp del]

text \<open>What follows the type: the array suffixes, the modifiers and the name.\<close>

definition param_rest :: "bool \<Rightarrow> shape \<Rightarrow> token_string \<Rightarrow> param_type result" where
  "param_rest allowIndexed sh obj =
     bindE (array_loop sh obj) (\<lambda>(sh, obj).
     bindE (consumeKeywords KwModifiers obj) (\<lambda>(modifiers, obj).
     bindE (if ''indexed'' \<in> set modifiers
            then (if \<not> allowIndexed then plain_error else Inr (Some True)) else Inr None) (\<lambda>indexed.
     bindE (peekType ID obj) (\<lambda>i.
     bindE (if i = None then Inr ([], obj) else mapE (\<lambda>(t, obj). (tk_text t, obj)) (pop obj)) (\<lambda>(name, obj).
       if ts_length obj \<noteq> 0 then syntax_token ''leftover tokens''
       else shape_param name indexed sh)))))"

text \<open>A slice that \<open>popParams\<close> returns starts behind its parenthesis, so it is shorter.\<close>

lemma length_js_slice_less: "1 \<le> a \<Longrightarrow> xs \<noteq> [] \<Longrightarrow> length (js_slice xs a b) < length xs"
  by (cases xs) (auto simp: js_slice_def clamp_def Let_def min_def max_def)

lemma params_loop_less:
  "params_loop fuel stop ts = Inr items \<Longrightarrow> t \<in> set items \<Longrightarrow> length (ts_tokens t) < length (ts_tokens ts)"
proof (induction fuel stop ts arbitrary: items rule: params_loop.induct)
  case (1 fuel stop ts)
  show ?case
  proof (cases "ts_offset ts < stop - 1")
    case True
    with "1.prems" obtain k tk rest where k: "fuel = Suc k" and tk: "peek ts = Inr tk"
      and rest: "params_loop k stop (ts\<lparr>ts_offset := tk_linkNext tk\<rparr>) = Inr rest"
      and items: "items = subTokenString ts (ts_offset ts + 1) (tk_linkNext tk) # rest"
      by (auto simp: params_loop.simps [of fuel] Let_def split: nat.splits)
    have "0 \<le> ts_offset ts" "ts_tokens ts \<noteq> []"
      using tk by (auto simp: peek_def syntax_token_def not_an_object_def split: if_splits)
    then have "length (ts_tokens (subTokenString ts (ts_offset ts + 1) (tk_linkNext tk))) < length (ts_tokens ts)"
      by (simp add: subTokenString_def TokenString_def length_js_slice_less)
    then show ?thesis using "1.IH" [OF True k _ refl rest] tk items "1.prems"(2) by auto
  next
    case False
    then show ?thesis using "1.prems" by (simp add: params_loop.simps [of fuel])
  qed
qed

lemma popParams_less:
  "popParams ts = Inr (items, ts') \<Longrightarrow> t \<in> set items \<Longrightarrow> length (ts_tokens t) < length (ts_tokens ts)"
  by (auto simp: popParams_def syntax_token_def split: if_splits dest: params_loop_less)

lemma consume_tokens [simp]:
  "pop ts = Inr (t, ts') \<Longrightarrow> ts_tokens ts' = ts_tokens ts"
  by (auto simp: pop_def)

lemma consumeKeywords_loop_tokens:
  "consumeKeywords_loop kws allowed ts = Inr (ks, ts') \<Longrightarrow> ts_tokens ts' = ts_tokens ts"
proof (induction kws allowed ts arbitrary: ks rule: consumeKeywords_loop.induct)
  case (1 kws allowed ts)
  then show ?case
    by (subst (asm) (2) consumeKeywords_loop.simps)
      (auto simp: syntax_token_def split: option.splits if_splits prod.splits)
qed

lemma consumeKeywords_tokens: "consumeKeywords allowed ts = Inr (ks, ts') \<Longrightarrow> ts_tokens ts' = ts_tokens ts"
  by (simp add: consumeKeywords_def consumeKeywords_loop_tokens)

function ParamType_tokens :: "token_string \<Rightarrow> bool \<Rightarrow> param_type result" where
  "ParamType_tokens obj allowIndexed =
     bindE (consumeKeywords [''tuple''] obj) (\<lambda>(kws, obj').
     bindE (if ''tuple'' \<in> set kws then Inr True else mapE (\<lambda>p. p \<noteq> None) (peekType OPEN_PAREN obj')) (\<lambda>is_tuple.
       if is_tuple
       then bindE (popParams obj') (\<lambda>(items, obj'').
            bindE (mapM (\<lambda>t. ParamType_tokens t False) items) (\<lambda>comps.
              param_rest allowIndexed
                \<lparr>sh_type = tuple_type comps, sh_baseType = ''tuple'', sh_comps = Some comps,
                 sh_arrayLength = None, sh_arrayChildren = None\<rparr> obj''))
       else bindE (popType TYPE_NAME obj') (\<lambda>(t, obj'').
            bindE (verifyBasicType t) (\<lambda>type.
              param_rest allowIndexed
                \<lparr>sh_type = type, sh_baseType = type, sh_comps = None,
                 sh_arrayLength = None, sh_arrayChildren = None\<rparr> obj''))))"
  by pat_completeness auto
termination
proof (relation "measure (\<lambda>(obj, _). length (ts_tokens obj))", goal_cases)
  case (2 obj ai kk kws obj' b ii items obj'' t)
  then show ?case using popParams_less [of obj' items obj'' t] consumeKeywords_tokens [of _ obj kws obj'] by auto
qed simp

declare ParamType_tokens.simps [simp del]

definition ParamType_string :: "string \<Rightarrow> bool \<Rightarrow> param_type result" where
  "ParamType_string text allowIndexed = bindE (lex text) (\<lambda>obj. ParamType_tokens obj allowIndexed)"

subsection \<open>From a JSON description\<close>

text \<open>\<open>/^(.*)\[([0-9]*)\]$/\<close>: the element type and the digits.\<close>

definition regexArrayType :: "string \<Rightarrow> (string \<times> string) option" where
  "regexArrayType s =
     (case rev s of
        c # r \<Rightarrow>
          (let ds = takeWhile is_digit10 r
           in case dropWhile is_digit10 r of
                d # base \<Rightarrow>
                  if c = CHR '']'' \<and> d = CHR ''['' \<and> \<not> list_ex is_line_terminator base
                  then Some (rev base, rev ds) else None
              | [] \<Rightarrow> None)
      | [] \<Rightarrow> None)"

lemma regexArrayType_shorter: "regexArrayType s = Some (t, ds) \<Longrightarrow> length t < length s"
proof -
  assume a: "regexArrayType s = Some (t, ds)"
  obtain c r where r: "rev s = c # r" using a by (cases "rev s") (simp_all add: regexArrayType_def)
  obtain d u where u: "dropWhile is_digit10 r = d # u"
    using a r by (cases "dropWhile is_digit10 r") (simp_all add: regexArrayType_def)
  have "t = rev u" using a r u by (simp add: regexArrayType_def Let_def split: if_splits)
  moreover have "length (d # u) \<le> length r" using u length_dropWhile_le [of is_digit10 r] by simp
  moreover have "length s = Suc (length r)" using r by (metis length_Cons length_rev)
  ultimately show ?thesis by simp
qed

text \<open>
  \<open>parseInt(digits || "-1")\<close>. A length of more than 308 digits, which JavaScript reads
  as \<open>Infinity\<close>, is outside the model.
\<close>

definition parse_length :: "string \<Rightarrow> int" where
  "parse_length ds =
     (if ds = [] then -1 else case to_double (of_nat (dec_value ds)) of Fin q \<Rightarrow> rat_trunc q | _ \<Rightarrow> 0)"

definition comps_size :: "json_type \<Rightarrow> nat" where
  "comps_size p = (case jt_components p of None \<Rightarrow> 0 | Some cs \<Rightarrow> Suc (size_list size cs))"

lemma comps_size_same [simp]: "comps_size (JsonType n t i (jt_components p)) = comps_size p"
  by (simp add: comps_size_def)

lemma comps_size_le: "comps_size p \<le> size p"
  by (cases p) (auto simp: comps_size_def split: option.splits)

lemma comps_size_child: "jt_components p = Some cs \<Longrightarrow> c \<in> set cs \<Longrightarrow> comps_size c < comps_size p"
proof -
  assume "jt_components p = Some cs" "c \<in> set cs"
  then have "size c < comps_size p" using size_list_estimation' [of c cs "size c" size] by (simp add: comps_size_def)
  then show ?thesis using comps_size_le [of c] by simp
qed

text \<open>The name, the permission to be indexed, then arrays, tuples and basic types.\<close>

function ParamType_object :: "json_type \<Rightarrow> bool \<Rightarrow> param_type result" where
  "ParamType_object obj allowIndexed =
     (let name = (case jt_name obj of None \<Rightarrow> [] | Some n \<Rightarrow> n)
      in bindE (assertArgument (name = [] \<or> regexId name) ''invalid name'') (\<lambda>_.
         bindE (assertArgument (jt_indexed obj = None \<or> allowIndexed) ''parameter cannot be indexed'') (\<lambda>_.
           case jt_type obj of
             None \<Rightarrow> not_an_object
           | Some type \<Rightarrow>
               (case regexArrayType type of
                  Some (base, digits) \<Rightarrow>
                    bindE (ParamType_object (JsonType None (Some base) None (jt_components obj)) False) (\<lambda>child.
                      new_ParamType name type ''array'' (jt_indexed obj) None (Some (parse_length digits)) (Some child))
                | None \<Rightarrow>
                    if type = ''tuple'' \<or> starts_with type ''tuple('' \<or> starts_with type ''(''
                    then bindE (case jt_components obj of
                                  None \<Rightarrow> Inr None
                                | Some cs \<Rightarrow> mapE Some (mapM (\<lambda>c. ParamType_object c False) cs)) (\<lambda>comps.
                           new_ParamType name type ''tuple'' (jt_indexed obj) comps None None)
                    else bindE (verifyBasicType type) (\<lambda>type.
                           new_ParamType name type type (jt_indexed obj) None None None)))))"
  by pat_completeness auto
termination
  by (relation "inv_image ({(a, b). a < b} <*lex*> {(a, b). a < b})
        (\<lambda>(p, _). (comps_size p, length (case jt_type p of None \<Rightarrow> [] | Some t \<Rightarrow> t)))")
    (auto intro: wf_less dest: regexArrayType_shorter comps_size_child)

declare ParamType_object.simps [simp del]

datatype param_source = FromType param_type | FromString string | FromTokens token_string | FromObject json_type

fun ParamType_from :: "param_source \<Rightarrow> bool \<Rightarrow> param_type result" where
  "ParamType_from (FromType p) allowIndexed = Inr p"
| "ParamType_from (FromString s) allowIndexed = ParamType_string s allowIndexed"
| "ParamType_from (FromTokens ts) allowIndexed = ParamType_tokens ts allowIndexed"
| "ParamType_from (FromObject obj) allowIndexed = ParamType_object obj allowIndexed"

subsection \<open>Walking a value\<close>

text \<open>A value is an array or something else; the walk keeps the shape.\<close>

datatype 'v walked = Leaf 'v | Items "'v walked list"

function ParamType_walk :: "(string \<Rightarrow> 'v walked \<Rightarrow> 'w result) \<Rightarrow> param_type \<Rightarrow> 'v walked \<Rightarrow> 'w walked result" where
  "ParamType_walk process (ParamType name type baseType indexed components arrayLength arrayChildren) v =
     (if baseType = ''array''
      then (case (v, arrayChildren) of
              (Items vs, Some child) \<Rightarrow>
                if arrayLength \<noteq> Some (-1) \<and> Some (int (length vs)) \<noteq> arrayLength then syntax_token ''array is wrong length''
                else mapE Items (mapM (ParamType_walk process child) vs)
            | _ \<Rightarrow> syntax_token ''invalid array value'')
      else if baseType = ''tuple''
      then (case (v, components) of
              (Items vs, Some cs) \<Rightarrow>
                if length vs \<noteq> length cs then syntax_token ''array is wrong length''
                else mapE Items (mapM (\<lambda>(c, x). ParamType_walk process c x) (zip cs vs))
            | _ \<Rightarrow> syntax_token ''invalid tuple value'')
      else mapE Leaf (process type v))"
  by pat_completeness auto
termination
proof (relation "measure (\<lambda>(_, p, _). size p)", goal_cases)
  case (3 process name type baseType indexed components arrayLength arrayChildren v x y vs cs z c w)
  then have "c \<in> set cs" by (auto dest: set_zip_leftD)
  then have "size c \<le> size_list size cs" using size_list_estimation' [of c cs "size c" size] by simp
  with 3 show ?case by (cases z) auto
qed auto

section \<open>Fragments\<close>

text \<open>The limit of energy is a \<open>bigint\<close> of a signature, or the text of a JSON description.\<close>

datatype energy_limit = EnergyBig int | EnergyText string

datatype fragment =
    ErrorFragment string "param_type list"
  | EventFragment string "param_type list" bool
  | ConstructorFragment "param_type list" bool "energy_limit option"
  | FallbackFragment "param_type list" bool
  | FunctionFragment string string "param_type list" "param_type list" "energy_limit option"
  | StructFragment string "param_type list"

record json_fragment =
  jf_name :: "string option"
  jf_type :: "string option"
  jf_anonymous :: "bool option"
  jf_payable :: "bool option"
  jf_constant :: "bool option"
  jf_stateMutability :: "string option"
  jf_inputs :: "json_type list option"
  jf_outputs :: "json_type list option"
  jf_energy :: "string option"

definition fragment_constant :: "string \<Rightarrow> bool" where
  "fragment_constant stateMutability \<longleftrightarrow> stateMutability = ''view'' \<or> stateMutability = ''pure''"

definition fragment_payable :: "string \<Rightarrow> bool" where
  "fragment_payable stateMutability \<longleftrightarrow> stateMutability = ''payable''"

subsection \<open>Formats\<close>

definition joinParams :: "format_type \<Rightarrow> param_type list \<Rightarrow> string" where
  "joinParams fmt params = ''('' @ join_with (separator fmt) (map (ParamType_format fmt) params) @ '')''"

fun energy_text :: "energy_limit \<Rightarrow> string" where
  "energy_text (EnergyBig n) = int_toString 10 n"
| "energy_text (EnergyText s) = s"

definition energy_words :: "energy_limit option \<Rightarrow> string list" where
  "energy_words energy = (case energy of None \<Rightarrow> [] | Some e \<Rightarrow> [CHR ''@'' # energy_text e])"

definition named_words :: "format_type \<Rightarrow> string \<Rightarrow> string \<Rightarrow> param_type list \<Rightarrow> string list" where
  "named_words fmt keyword name inputs = (if fmt \<noteq> Sighash then [keyword] else []) @ [name @ joinParams fmt inputs]"

definition ErrorFragment_format :: "format_type \<Rightarrow> string \<Rightarrow> param_type list \<Rightarrow> string result" where
  "ErrorFragment_format fmt name inputs = Inr (join_with '' '' (named_words fmt ''error'' name inputs))"

definition EventFragment_format :: "format_type \<Rightarrow> string \<Rightarrow> param_type list \<Rightarrow> bool \<Rightarrow> string result" where
  "EventFragment_format fmt name inputs anonymous =
     Inr (join_with '' ''
       (named_words fmt ''event'' name inputs @ (if fmt \<noteq> Sighash \<and> anonymous then [''anonymous''] else [])))"

definition ConstructorFragment_format :: "format_type \<Rightarrow> param_type list \<Rightarrow> bool \<Rightarrow> energy_limit option \<Rightarrow> string result" where
  "ConstructorFragment_format fmt inputs payable energy =
     bindE (assert (fmt \<noteq> Sighash) ''cannot format a constructor for sighash'' UNSUPPORTED_OPERATION) (\<lambda>_.
       Inr (join_with '' ''
         ([''constructor'' @ joinParams fmt inputs] @ [if payable then ''payable'' else ''nonpayable''] @ energy_words energy)))"

definition FallbackFragment_format :: "param_type list \<Rightarrow> bool \<Rightarrow> string result" where
  "FallbackFragment_format inputs payable =
     Inr ((if inputs = [] then ''receive'' else ''fallback'') @ ''()'' @ (if payable then '' payable'' else []))"

definition FunctionFragment_format ::
  "format_type \<Rightarrow> string \<Rightarrow> string \<Rightarrow> param_type list \<Rightarrow> param_type list \<Rightarrow> energy_limit option \<Rightarrow> string result"
where
  "FunctionFragment_format fmt name stateMutability inputs outputs energy =
     Inr (join_with '' ''
       (named_words fmt ''function'' name inputs
        @ (if fmt = Sighash then []
           else (if stateMutability \<noteq> ''nonpayable'' then [stateMutability] else [])
                @ (if outputs \<noteq> [] then [''returns'', joinParams fmt outputs] else [])
                @ energy_words energy)))"

fun Fragment_format :: "format_type \<Rightarrow> fragment \<Rightarrow> string result" where
  "Fragment_format fmt (ErrorFragment name inputs) = ErrorFragment_format fmt name inputs"
| "Fragment_format fmt (EventFragment name inputs anonymous) = EventFragment_format fmt name inputs anonymous"
| "Fragment_format fmt (ConstructorFragment inputs payable energy) = ConstructorFragment_format fmt inputs payable energy"
| "Fragment_format fmt (FallbackFragment inputs payable) = FallbackFragment_format inputs payable"
| "Fragment_format fmt (FunctionFragment name m inputs outputs energy) = FunctionFragment_format fmt name m inputs outputs energy"
| "Fragment_format fmt (StructFragment name inputs) = syntax_token ''@TODO''"

text \<open>\<open>JSON.stringify\<close> throws on a \<open>bigint\<close>.\<close>

definition energy_json :: "energy_limit option \<Rightarrow> string option result" where
  "energy_json energy =
     (case energy of
        None \<Rightarrow> Inr None
      | Some (EnergyText s) \<Rightarrow> Inr (Some s)
      | Some (EnergyBig _) \<Rightarrow> Inl (JsError NativeTypeError ''Do not know how to serialize a BigInt''))"

definition json_of_type :: "string \<Rightarrow> json_fragment" where
  "json_of_type type =
     \<lparr>jf_name = None, jf_type = Some type, jf_anonymous = None, jf_payable = None, jf_constant = None,
      jf_stateMutability = None, jf_inputs = None, jf_outputs = None, jf_energy = None\<rparr>"

definition ErrorFragment_json :: "string \<Rightarrow> param_type list \<Rightarrow> json_fragment result" where
  "ErrorFragment_json name inputs =
     Inr ((json_of_type ''error'')\<lparr>jf_name := Some name, jf_inputs := Some (map ParamType_json inputs)\<rparr>)"

definition EventFragment_json :: "string \<Rightarrow> param_type list \<Rightarrow> bool \<Rightarrow> json_fragment result" where
  "EventFragment_json name inputs anonymous =
     Inr ((json_of_type ''event'')\<lparr>jf_anonymous := Some anonymous, jf_name := Some name,
            jf_inputs := Some (map ParamType_json inputs)\<rparr>)"

definition ConstructorFragment_json :: "param_type list \<Rightarrow> bool \<Rightarrow> energy_limit option \<Rightarrow> json_fragment result" where
  "ConstructorFragment_json inputs payable energy =
     bindE (energy_json energy) (\<lambda>e.
       Inr ((json_of_type ''constructor'')
              \<lparr>jf_stateMutability := Some (if payable then ''payable'' else ''undefined''), jf_payable := Some payable,
               jf_energy := e, jf_inputs := Some (map ParamType_json inputs)\<rparr>))"

definition FallbackFragment_json :: "param_type list \<Rightarrow> bool \<Rightarrow> json_fragment result" where
  "FallbackFragment_json inputs payable =
     Inr ((json_of_type (if inputs = [] then ''receive'' else ''fallback''))
            \<lparr>jf_stateMutability := Some (if payable then ''payable'' else ''nonpayable'')\<rparr>)"

definition FunctionFragment_json ::
  "string \<Rightarrow> string \<Rightarrow> param_type list \<Rightarrow> param_type list \<Rightarrow> energy_limit option \<Rightarrow> json_fragment result"
where
  "FunctionFragment_json name stateMutability inputs outputs energy =
     bindE (energy_json energy) (\<lambda>e.
       Inr ((json_of_type ''function'')
              \<lparr>jf_name := Some name, jf_constant := Some (fragment_constant stateMutability),
               jf_stateMutability := (if stateMutability \<noteq> ''nonpayable'' then Some stateMutability else None),
               jf_payable := Some (fragment_payable stateMutability), jf_energy := e,
               jf_inputs := Some (map ParamType_json inputs), jf_outputs := Some (map ParamType_json outputs)\<rparr>))"

fun Fragment_json :: "fragment \<Rightarrow> json_fragment result" where
  "Fragment_json (ErrorFragment name inputs) = ErrorFragment_json name inputs"
| "Fragment_json (EventFragment name inputs anonymous) = EventFragment_json name inputs anonymous"
| "Fragment_json (ConstructorFragment inputs payable energy) = ConstructorFragment_json inputs payable energy"
| "Fragment_json (FallbackFragment inputs payable) = FallbackFragment_json inputs payable"
| "Fragment_json (FunctionFragment name m inputs outputs energy) = FunctionFragment_json name m inputs outputs energy"
| "Fragment_json (StructFragment name inputs) = syntax_token ''@TODO''"

text \<open>\<open>selector\<close> and \<open>topicHash\<close> of a fragment, for a hash.\<close>

definition topicHash :: "(byte list \<Rightarrow> byte list) \<Rightarrow> fragment \<Rightarrow> string result" where
  "topicHash H f = bindE (Fragment_format Sighash f) (\<lambda>s. id_hash H (map of_char s))"

definition selector :: "(byte list \<Rightarrow> byte list) \<Rightarrow> fragment \<Rightarrow> string result" where
  "selector H f = mapE (\<lambda>h. js_substring h 0 10) (topicHash H f)"

subsection \<open>Constructors\<close>

definition named_fragment :: "string option \<Rightarrow> (string \<Rightarrow> fragment) \<Rightarrow> fragment result" where
  "named_fragment name f =
     bindE (assertArgument (case name of Some n \<Rightarrow> regexId n | None \<Rightarrow> False) ''invalid identifier'')
       (\<lambda>_. Inr (f (the name)))"

subsection \<open>From a signature\<close>

definition consumeParams :: "bool \<Rightarrow> token_string \<Rightarrow> (param_type list \<times> token_string) result" where
  "consumeParams allowIndexed ts =
     bindE (popParams ts) (\<lambda>(items, ts').
     bindE (mapM (\<lambda>t. ParamType_tokens t allowIndexed) items) (\<lambda>ps. Inr (ps, ts')))"

definition ErrorFragment_tokens :: "token_string \<Rightarrow> fragment result" where
  "ErrorFragment_tokens obj =
     bindE (consumeName ''error'' obj) (\<lambda>(name, obj).
     bindE (consumeParams False obj) (\<lambda>(inputs, obj).
     bindE (consumeEoi obj) (\<lambda>_. named_fragment (Some name) (\<lambda>n. ErrorFragment n inputs))))"

definition EventFragment_tokens :: "token_string \<Rightarrow> fragment result" where
  "EventFragment_tokens obj =
     bindE (consumeName ''event'' obj) (\<lambda>(name, obj).
     bindE (consumeParams True obj) (\<lambda>(inputs, obj).
     bindE (consumeKeywords [''anonymous''] obj) (\<lambda>(kws, obj).
     bindE (consumeEoi obj) (\<lambda>_.
       named_fragment (Some name) (\<lambda>n. EventFragment n inputs (''anonymous'' \<in> set kws))))))"

definition ConstructorFragment_tokens :: "token_string \<Rightarrow> fragment result" where
  "ConstructorFragment_tokens obj =
     bindE (consumeKeywords [''constructor''] obj) (\<lambda>(_, obj).
     bindE (consumeParams False obj) (\<lambda>(inputs, obj).
     bindE (consumeKeywords [''payable''] obj) (\<lambda>(kws, obj).
     bindE (consumeEnergy obj) (\<lambda>(energy, obj).
     bindE (consumeEoi obj) (\<lambda>_.
       Inr (ConstructorFragment inputs (''payable'' \<in> set kws) (map_option EnergyBig energy)))))))"

definition is_bytes :: "param_type list \<Rightarrow> bool" where
  "is_bytes ps \<longleftrightarrow> (case ps of [p] \<Rightarrow> pt_type p = ''bytes'' | _ \<Rightarrow> False)"

definition FallbackFragment_tokens :: "token_string \<Rightarrow> fragment result" where
  "FallbackFragment_tokens obj =
     bindE (peekKeyword [''fallback'', ''receive''] obj) (\<lambda>top.
     bindE (assertArgument (top \<noteq> None) ''type must be fallback or receive'') (\<lambda>_.
     bindE (popKeyword [''fallback'', ''receive''] obj) (\<lambda>(type, obj).
       if type = ''receive'' then
         bindE (consumeParams False obj) (\<lambda>(inputs, obj).
         bindE (assertArgument (inputs = []) ''receive cannot have arguments'') (\<lambda>_.
         bindE (consumeKeywords [''payable''] obj) (\<lambda>(_, obj).
         bindE (consumeEoi obj) (\<lambda>_. Inr (FallbackFragment [] True)))))
       else
         bindE (consumeParams False obj) (\<lambda>(inputs, obj).
         bindE (if inputs \<noteq> [] then bindE (assertArgument (is_bytes inputs) ''invalid fallback inputs'') (\<lambda>_. Inr inputs)
                else mapE (\<lambda>p. [p]) (ParamType_string ''bytes'' False)) (\<lambda>inputs.
         bindE (consumeMutability obj) (\<lambda>(mutability, obj).
         bindE (assertArgument (mutability = ''nonpayable'' \<or> mutability = ''payable'') ''fallback cannot be constants'') (\<lambda>_.
         bindE (consumeKeywords [''returns''] obj) (\<lambda>(kws, obj).
         bindE (if ''returns'' \<in> set kws
                then bindE (consumeParams False obj) (\<lambda>(outputs, obj).
                     bindE (assertArgument (is_bytes outputs) ''invalid fallback outputs'') (\<lambda>_. Inr obj))
                else Inr obj) (\<lambda>obj.
         bindE (consumeEoi obj) (\<lambda>_. Inr (FallbackFragment inputs (mutability = ''payable''))))))))))))"

definition FunctionFragment_tokens :: "token_string \<Rightarrow> fragment result" where
  "FunctionFragment_tokens obj =
     bindE (consumeName ''function'' obj) (\<lambda>(name, obj).
     bindE (consumeParams False obj) (\<lambda>(inputs, obj).
     bindE (consumeMutability obj) (\<lambda>(mutability, obj).
     bindE (consumeKeywords [''returns''] obj) (\<lambda>(kws, obj).
     bindE (if ''returns'' \<in> set kws then consumeParams False obj else Inr ([], obj)) (\<lambda>(outputs, obj).
     bindE (consumeEnergy obj) (\<lambda>(energy, obj).
     bindE (consumeEoi obj) (\<lambda>_.
       named_fragment (Some name) (\<lambda>n. FunctionFragment n mutability inputs outputs (map_option EnergyBig energy)))))))))"

definition StructFragment_tokens :: "token_string \<Rightarrow> fragment result" where
  "StructFragment_tokens obj =
     bindE (consumeName ''struct'' obj) (\<lambda>(name, obj).
     bindE (consumeParams False obj) (\<lambda>(inputs, obj).
     bindE (consumeEoi obj) (\<lambda>_. named_fragment (Some name) (\<lambda>n. StructFragment n inputs))))"

definition Fragment_tokens :: "token_string \<Rightarrow> fragment result" where
  "Fragment_tokens obj =
     bindE (peekKeyword KwTypes obj) (\<lambda>type.
       if type = Some ''constructor'' then ConstructorFragment_tokens obj
       else if type = Some ''error'' then ErrorFragment_tokens obj
       else if type = Some ''event'' then EventFragment_tokens obj
       else if type = Some ''fallback'' \<or> type = Some ''receive'' then FallbackFragment_tokens obj
       else if type = Some ''function'' then FunctionFragment_tokens obj
       else if type = Some ''struct'' then StructFragment_tokens obj
       else Inl (CoreError INVALID_ARGUMENT ''unsupported frgament object''))"

text \<open>
  The JSON reading of a string is tried first, but its result is dropped and its errors
  are caught, so that what counts is the signature.
\<close>

definition Fragment_string :: "string \<Rightarrow> fragment result" where
  "Fragment_string text = bindE (lex text) Fragment_tokens"

subsection \<open>From a JSON description\<close>

text \<open>\<open>params.map(ParamType.from)\<close> hands the index over as \<open>allowIndexed\<close>.\<close>

definition map_from :: "json_type list option \<Rightarrow> param_type list result" where
  "map_from params =
     (case params of
        None \<Rightarrow> Inr []
      | Some ps \<Rightarrow> mapM (\<lambda>(i, p). ParamType_object p (i > 0)) (enumerate 0 ps))"

definition energy_of :: "json_fragment \<Rightarrow> energy_limit option" where
  "energy_of obj = map_option EnergyText (jf_energy obj)"

definition ErrorFragment_object :: "json_fragment \<Rightarrow> fragment result" where
  "ErrorFragment_object obj = bindE (map_from (jf_inputs obj)) (\<lambda>inputs. named_fragment (jf_name obj) (\<lambda>n. ErrorFragment n inputs))"

definition EventFragment_object :: "json_fragment \<Rightarrow> fragment result" where
  "EventFragment_object obj =
     bindE (case jf_inputs obj of None \<Rightarrow> Inr [] | Some ps \<Rightarrow> mapM (\<lambda>p. ParamType_object p True) ps) (\<lambda>inputs.
       named_fragment (jf_name obj) (\<lambda>n. EventFragment n inputs (jf_anonymous obj = Some True)))"

definition ConstructorFragment_object :: "json_fragment \<Rightarrow> fragment result" where
  "ConstructorFragment_object obj =
     bindE (map_from (jf_inputs obj)) (\<lambda>inputs. Inr (ConstructorFragment inputs (jf_payable obj = Some True) (energy_of obj)))"

definition FallbackFragment_object :: "json_fragment \<Rightarrow> fragment result" where
  "FallbackFragment_object obj =
     (if jf_type obj = Some ''receive'' then Inr (FallbackFragment [] True)
      else if jf_type obj = Some ''fallback''
      then bindE (ParamType_string ''bytes'' False) (\<lambda>p.
             Inr (FallbackFragment [p] (jf_stateMutability obj = Some ''payable'')))
      else Inl (CoreError INVALID_ARGUMENT ''invalid fallback description''))"

text \<open>The legacy reading of a description without \<open>stateMutability\<close>.\<close>

definition legacy_mutability :: "json_fragment \<Rightarrow> string" where
  "legacy_mutability obj =
     (case jf_constant obj of
        Some c \<Rightarrow>
          if c then ''view'' else if jf_payable obj = Some False then ''nonpayable'' else ''payable''
      | None \<Rightarrow> if jf_payable obj = Some False then ''nonpayable'' else ''payable'')"

definition FunctionFragment_object :: "json_fragment \<Rightarrow> fragment result" where
  "FunctionFragment_object obj =
     (let mutability = (case jf_stateMutability obj of Some m \<Rightarrow> m | None \<Rightarrow> legacy_mutability obj)
      in bindE (map_from (jf_inputs obj)) (\<lambda>inputs.
         bindE (map_from (jf_outputs obj)) (\<lambda>outputs.
           named_fragment (jf_name obj) (\<lambda>n. FunctionFragment n mutability inputs outputs (energy_of obj)))))"

definition StructFragment_object :: "json_fragment \<Rightarrow> fragment result" where
  "StructFragment_object obj = bindE (map_from (jf_inputs obj)) (\<lambda>inputs. named_fragment (jf_name obj) (\<lambda>n. StructFragment n inputs))"

definition Fragment_object :: "json_fragment \<Rightarrow> fragment result" where
  "Fragment_object obj =
     (let type = jf_type obj
      in if type = Some ''constructor'' then ConstructorFragment_object obj
         else if type = Some ''error'' then ErrorFragment_object obj
         else if type = Some ''event'' then EventFragment_object obj
         else if type = Some ''fallback'' \<or> type = Some ''receive'' then FallbackFragment_object obj
         else if type = Some ''function'' then FunctionFragment_object obj
         else if type = Some ''struct'' then StructFragment_object obj
         else Inl (CoreError UNSUPPORTED_OPERATION ''unsupported type''))"

definition FunctionFragment_getSelector :: "(byte list \<Rightarrow> byte list) \<Rightarrow> string \<Rightarrow> param_source list \<Rightarrow> string result" where
  "FunctionFragment_getSelector H name params =
     bindE (mapM (\<lambda>p. ParamType_from p False) params) (\<lambda>ps.
     bindE (named_fragment (Some name) (\<lambda>n. FunctionFragment n ''view'' ps [] None)) (selector H))"

definition EventFragment_getTopicHash :: "(byte list \<Rightarrow> byte list) \<Rightarrow> string \<Rightarrow> param_source list \<Rightarrow> string result" where
  "EventFragment_getTopicHash H name params =
     bindE (mapM (\<lambda>p. ParamType_from p False) params) (\<lambda>ps.
     bindE (named_fragment (Some name) (\<lambda>n. EventFragment n ps False)) (topicHash H))"

end
