(* ===== verification/Interface.thy ===== *)
theory Interface
  imports Fragments
begin

text \<open>
  \<open>src.ts/abi/interface.ts\<close>: an \<open>Interface\<close> collects the fragments of an ABI, finds a
  function, event or error by selector, name or signature, and encodes and decodes
  calls, results, errors and logs with the ABI coder. The hash is a parameter. The
  buckets are maps in insertion order, so association lists. The
  iteration in the order of \<open>localeCompare\<close> (\<open>forEachFunction\<close> and its like) is left out.
\<close>

section \<open>The ABI\<close>

datatype abi_item = ItemFragment fragment | ItemText string | ItemJson json_fragment

type_synonym bucket = "(string \<times> fragment) list"

record abi_interface =
  if_fragments :: "fragment list"
  if_deploy :: "fragment option"
  if_fallback :: "fragment option"
  if_receive :: bool
  if_functions :: bucket
  if_events :: bucket
  if_errors :: bucket

fun Fragment_item :: "abi_item \<Rightarrow> fragment result" where
  "Fragment_item (ItemFragment f) = Inr f"
| "Fragment_item (ItemText s) = Fragment_string s"
| "Fragment_item (ItemJson obj) = Fragment_object obj"

text \<open>An item that is no fragment is reported and left out.\<close>

definition parsed_fragments :: "abi_item list \<Rightarrow> fragment list" where
  "parsed_fragments items = concat (map (\<lambda>a. case Fragment_item a of Inr f \<Rightarrow> [f] | Inl _ \<Rightarrow> []) items)"

definition has_key :: "string \<Rightarrow> bucket \<Rightarrow> bool" where
  "has_key k b \<longleftrightarrow> k \<in> set (map fst b)"

text \<open>A signature that is there already is ignored.\<close>

definition bucket_add :: "fragment \<Rightarrow> bucket \<Rightarrow> bucket result" where
  "bucket_add f b = mapE (\<lambda>signature. if has_key signature b then b else b @ [(signature, f)]) (Fragment_format Sighash f)"

definition payable_fallback :: "fragment \<Rightarrow> bool" where
  "payable_fallback f = (case f of FallbackFragment _ payable \<Rightarrow> payable | _ \<Rightarrow> False)"

fun add_fragment :: "fragment \<Rightarrow> abi_interface \<Rightarrow> abi_interface result" where
  "add_fragment (ConstructorFragment inputs payable energy) ifc =
     Inr (if if_deploy ifc \<noteq> None then ifc
          else ifc\<lparr>if_deploy := Some (ConstructorFragment inputs payable energy)\<rparr>)"
| "add_fragment (FallbackFragment inputs payable) ifc =
     (if inputs = [] then Inr (ifc\<lparr>if_receive := True\<rparr>)
      else bindE (assertArgument
                    (case if_fallback ifc of None \<Rightarrow> True | Some fb \<Rightarrow> payable \<noteq> payable_fallback fb)
                    ''conflicting fallback fragments'') (\<lambda>_.
             Inr (ifc\<lparr>if_fallback := Some (FallbackFragment inputs payable), if_receive := payable\<rparr>)))"
| "add_fragment (FunctionFragment n m ins outs e) ifc =
     mapE (\<lambda>b. ifc\<lparr>if_functions := b\<rparr>) (bucket_add (FunctionFragment n m ins outs e) (if_functions ifc))"
| "add_fragment (EventFragment n ins a) ifc =
     mapE (\<lambda>b. ifc\<lparr>if_events := b\<rparr>) (bucket_add (EventFragment n ins a) (if_events ifc))"
| "add_fragment (ErrorFragment n ins) ifc =
     mapE (\<lambda>b. ifc\<lparr>if_errors := b\<rparr>) (bucket_add (ErrorFragment n ins) (if_errors ifc))"
| "add_fragment (StructFragment n ins) ifc = Inr ifc"

fun add_fragments :: "fragment list \<Rightarrow> abi_interface \<Rightarrow> abi_interface result" where
  "add_fragments [] ifc = Inr ifc"
| "add_fragments (f # fs) ifc = bindE (add_fragment f ifc) (add_fragments fs)"

definition default_deploy :: "abi_interface \<Rightarrow> abi_interface result" where
  "default_deploy ifc =
     (if if_deploy ifc \<noteq> None then Inr ifc
      else mapE (\<lambda>f. ifc\<lparr>if_deploy := Some f\<rparr>) (bindE (lex ''constructor()'') ConstructorFragment_tokens))"

definition new_Interface :: "abi_item list \<Rightarrow> abi_interface result" where
  "new_Interface items =
     (let frags = parsed_fragments items
      in bindE (add_fragments frags
                  \<lparr>if_fragments = frags, if_deploy = None, if_fallback = None, if_receive = False,
                   if_functions = [], if_events = [], if_errors = []\<rparr>) default_deploy)"

definition Interface_format :: "abi_interface \<Rightarrow> bool \<Rightarrow> string list result" where
  "Interface_format ifc isMinimal = mapM (Fragment_format (if isMinimal then Minimal else Full)) (if_fragments ifc)"

definition Interface_formatJson :: "abi_interface \<Rightarrow> json_fragment list result" where
  "Interface_formatJson ifc = mapM Fragment_json (if_fragments ifc)"

section \<open>Lookup\<close>

fun fragment_name :: "fragment \<Rightarrow> string" where
  "fragment_name (ErrorFragment n _) = n"
| "fragment_name (EventFragment n _ _) = n"
| "fragment_name (FunctionFragment n _ _ _ _) = n"
| "fragment_name (StructFragment n _) = n"
| "fragment_name _ = []"

fun fragment_inputs :: "fragment \<Rightarrow> param_type list" where
  "fragment_inputs (ErrorFragment _ ins) = ins"
| "fragment_inputs (EventFragment _ ins _) = ins"
| "fragment_inputs (ConstructorFragment ins _ _) = ins"
| "fragment_inputs (FallbackFragment ins _) = ins"
| "fragment_inputs (FunctionFragment _ _ ins _ _) = ins"
| "fragment_inputs (StructFragment _ ins) = ins"

fun fragment_outputs :: "fragment \<Rightarrow> param_type list" where
  "fragment_outputs (FunctionFragment _ _ _ outs _) = outs"
| "fragment_outputs _ = []"

definition fragment_anonymous :: "fragment \<Rightarrow> bool" where
  "fragment_anonymous f = (case f of EventFragment _ _ a \<Rightarrow> a | _ \<Rightarrow> False)"

text \<open>The loop over a bucket that compares a selector or a topic hash.\<close>

fun find_by :: "(fragment \<Rightarrow> string result) \<Rightarrow> string \<Rightarrow> bucket \<Rightarrow> fragment option result" where
  "find_by key wanted [] = Inr None"
| "find_by key wanted ((_, f) # b) =
     bindE (key f) (\<lambda>k. if wanted = k then Inr (Some f) else find_by key wanted b)"

definition base_name :: "string \<Rightarrow> string" where
  "base_name signature = takeWhile (\<lambda>c. c \<noteq> CHR ''('') signature"

definition matching_name :: "string \<Rightarrow> bucket \<Rightarrow> fragment list" where
  "matching_name key b = map snd (filter (\<lambda>(signature, _). base_name signature = key) b)"

definition typed_type :: "abi_value \<Rightarrow> string option" where
  "typed_type v = (case v of VTyped t _ \<Rightarrow> Some t | _ \<Rightarrow> None)"

text \<open>
  The number of parameters fits the number of values, the last of which may be an
  overrides object; the typed values have the types of the parameters.
\<close>

definition compatible_length :: "abi_value list \<Rightarrow> nat \<Rightarrow> bool" where
  "compatible_length values inputs =
     (let overrides = values \<noteq> [] \<and> typed_type (last values) = Some ''overrides'';
          valueLength = int (length values) - (if overrides then 1 else 0)
      in int inputs = valueLength \<or> \<not> overrides \<and> int inputs = valueLength - 1)"

definition compatible_types :: "abi_value list \<Rightarrow> param_type list \<Rightarrow> bool" where
  "compatible_types values inputs =
     list_all (\<lambda>(j, v).
       case typed_type v of
         None \<Rightarrow> True
       | Some t \<Rightarrow> if j \<ge> length inputs then t = ''overrides'' else t = pt_baseType (inputs ! j))
       (enumerate 0 values)"

text \<open>\<open>lastArg == null || Array.isArray(lastArg) || typeof lastArg !== "object"\<close>.\<close>

definition last_is_plain :: "abi_value list \<Rightarrow> bool" where
  "last_is_plain values =
     (if values = [] then True
      else case last values of
             VObj _ \<Rightarrow> False | VTyped _ _ \<Rightarrow> False | VErr _ \<Rightarrow> False | VData (DU8 _) \<Rightarrow> False | VData (DHexable _) \<Rightarrow> False | _ \<Rightarrow> True)"

definition matching_functions :: "string \<Rightarrow> abi_value list option \<Rightarrow> bucket \<Rightarrow> fragment list" where
  "matching_functions key values b =
     (let named = matching_name key b
      in case values of
           None \<Rightarrow> named
         | Some vs \<Rightarrow>
             let fit = filter (\<lambda>f. compatible_types vs (fragment_inputs f))
                         (filter (\<lambda>f. compatible_length vs (length (fragment_inputs f))) named)
             in if length fit = 1 \<and> length vs \<noteq> length (fragment_inputs (hd fit)) \<and> last_is_plain vs then [] else fit)"

definition first_match :: "string \<Rightarrow> bool \<Rightarrow> fragment list \<Rightarrow> fragment option result" where
  "first_match message forceUnique fs =
     (case fs of
        [] \<Rightarrow> Inr None
      | f # rest \<Rightarrow> if rest \<noteq> [] \<and> forceUnique then Inl (CoreError INVALID_ARGUMENT message) else Inr (Some f))"

definition by_signature :: "(token_string \<Rightarrow> fragment result) \<Rightarrow> string \<Rightarrow> bucket \<Rightarrow> fragment option result" where
  "by_signature parse key b =
     bindE (bindE (lex key) parse) (\<lambda>f. bindE (Fragment_format Sighash f) (\<lambda>signature. Inr (map_of b signature)))"

definition find_function ::
  "(byte list \<Rightarrow> byte list) \<Rightarrow> abi_interface \<Rightarrow> string \<Rightarrow> abi_value list option \<Rightarrow> bool \<Rightarrow> fragment option result"
where
  "find_function H ifc key values forceUnique =
     (if isHexString (DStr key) AnyLength then find_by (selector H) (map to_lower key) (if_functions ifc)
      else if CHR ''('' \<notin> set key
      then first_match ''ambiguous function description'' forceUnique (matching_functions key values (if_functions ifc))
      else by_signature FunctionFragment_tokens key (if_functions ifc))"

definition getFunction ::
  "(byte list \<Rightarrow> byte list) \<Rightarrow> abi_interface \<Rightarrow> string \<Rightarrow> abi_value list option \<Rightarrow> fragment option result" where
  "getFunction H ifc key values = find_function H ifc key values True"

definition named_match :: "fragment option result \<Rightarrow> string \<Rightarrow> string result" where
  "named_match found message =
     bindE found (\<lambda>f. bindE (assertArgument (f \<noteq> None) message) (\<lambda>_. Inr (fragment_name (the f))))"

definition getFunctionName :: "(byte list \<Rightarrow> byte list) \<Rightarrow> abi_interface \<Rightarrow> string \<Rightarrow> string result" where
  "getFunctionName H ifc key = named_match (find_function H ifc key None False) ''no matching function''"

definition hasFunction :: "(byte list \<Rightarrow> byte list) \<Rightarrow> abi_interface \<Rightarrow> string \<Rightarrow> bool result" where
  "hasFunction H ifc key = mapE (\<lambda>f. f \<noteq> None) (find_function H ifc key None False)"

text \<open>
  For an event the values are search criteria, so there may be fewer; a typed value
  past the parameters cannot occur then.
\<close>

definition matching_events :: "string \<Rightarrow> abi_value list option \<Rightarrow> bucket \<Rightarrow> fragment list" where
  "matching_events key values b =
     (let named = matching_name key b
      in case values of
           None \<Rightarrow> named
         | Some vs \<Rightarrow>
             filter (\<lambda>f. compatible_types vs (fragment_inputs f))
               (filter (\<lambda>f. \<not> length (fragment_inputs f) < length vs) named))"

definition find_event ::
  "(byte list \<Rightarrow> byte list) \<Rightarrow> abi_interface \<Rightarrow> string \<Rightarrow> abi_value list option \<Rightarrow> bool \<Rightarrow> fragment option result"
where
  "find_event H ifc key values forceUnique =
     (if isHexString (DStr key) AnyLength then find_by (topicHash H) (map to_lower key) (if_events ifc)
      else if CHR ''('' \<notin> set key
      then first_match ''ambiguous event description'' forceUnique (matching_events key values (if_events ifc))
      else by_signature EventFragment_tokens key (if_events ifc))"

definition getEvent ::
  "(byte list \<Rightarrow> byte list) \<Rightarrow> abi_interface \<Rightarrow> string \<Rightarrow> abi_value list option \<Rightarrow> fragment option result" where
  "getEvent H ifc key values = find_event H ifc key values True"

definition getEventName :: "(byte list \<Rightarrow> byte list) \<Rightarrow> abi_interface \<Rightarrow> string \<Rightarrow> string result" where
  "getEventName H ifc key = named_match (find_event H ifc key None False) ''no matching event''"

definition hasEvent :: "(byte list \<Rightarrow> byte list) \<Rightarrow> abi_interface \<Rightarrow> string \<Rightarrow> bool result" where
  "hasEvent H ifc key = mapE (\<lambda>f. f \<noteq> None) (find_event H ifc key None False)"

definition BuiltinErrors :: "(string \<times> string) list" where
  "BuiltinErrors = [(''0x08c379a0'', ''Error(string)''), (''0x4e487b71'', ''Panic(uint256)'')]"

definition ErrorFragment_string :: "string \<Rightarrow> fragment result" where
  "ErrorFragment_string s = bindE (lex s) ErrorFragment_tokens"

definition builtin_name :: "string \<Rightarrow> fragment option result" where
  "builtin_name key =
     (if key = ''Error'' then mapE Some (ErrorFragment_string ''error Error(string)'')
      else if key = ''Panic'' then mapE Some (ErrorFragment_string ''error Panic(uint256)'')
      else Inr None)"

definition getError :: "(byte list \<Rightarrow> byte list) \<Rightarrow> abi_interface \<Rightarrow> string \<Rightarrow> fragment option result" where
  "getError H ifc key =
     (if isHexString (DStr key) AnyLength then
        (case map_of BuiltinErrors (map to_lower key) of
           Some signature \<Rightarrow> mapE Some (ErrorFragment_string signature)
         | None \<Rightarrow> find_by (selector H) (map to_lower key) (if_errors ifc))
      else if CHR ''('' \<notin> set key then
        (case matching_name key (if_errors ifc) of
           [] \<Rightarrow> builtin_name key
         | fs \<Rightarrow> first_match ''ambiguous error description'' True fs)
      else
        bindE (bindE (ErrorFragment_string key) (Fragment_format Sighash)) (\<lambda>signature.
          if signature = ''Error(string)'' then builtin_name ''Error''
          else if signature = ''Panic(uint256)'' then builtin_name ''Panic''
          else Inr (map_of (if_errors ifc) signature)))"

section \<open>Calls, results and errors\<close>

text \<open>A method takes the fragment itself or a text to look it up by.\<close>

datatype fragment_ref = RefFragment fragment | RefKey string

definition resolve :: "(string \<Rightarrow> fragment option result) \<Rightarrow> string \<Rightarrow> fragment_ref \<Rightarrow> fragment result" where
  "resolve get message r =
     (case r of
        RefFragment f \<Rightarrow> Inr f
      | RefKey key \<Rightarrow> bindE (get key) (\<lambda>f. bindE (assertArgument (f \<noteq> None) message) (\<lambda>_. Inr (the f))))"

definition resolve_function :: "(byte list \<Rightarrow> byte list) \<Rightarrow> abi_interface \<Rightarrow> fragment_ref \<Rightarrow> fragment result" where
  "resolve_function H ifc = resolve (\<lambda>key. getFunction H ifc key None) ''unknown function''"

definition resolve_error :: "(byte list \<Rightarrow> byte list) \<Rightarrow> abi_interface \<Rightarrow> fragment_ref \<Rightarrow> fragment result" where
  "resolve_error H ifc = resolve (getError H ifc) ''unknown error''"

definition resolve_event :: "(byte list \<Rightarrow> byte list) \<Rightarrow> abi_interface \<Rightarrow> fragment_ref \<Rightarrow> fragment result" where
  "resolve_event H ifc = resolve (\<lambda>key. getEvent H ifc key None) ''unknown event''"

definition decodeParams :: "param_type list \<Rightarrow> js_data \<Rightarrow> abi_value result" where
  "decodeParams params data = AbiCoder_decode params data False"

definition encodeParams :: "param_type list \<Rightarrow> abi_value list \<Rightarrow> string result" where
  "encodeParams params values = AbiCoder_encode params (VArr values)"

definition encodeDeploy :: "abi_interface \<Rightarrow> abi_value list \<Rightarrow> string result" where
  "encodeDeploy ifc values =
     (case if_deploy ifc of Some f \<Rightarrow> encodeParams (fragment_inputs f) values | None \<Rightarrow> not_an_object)"

text \<open>The four bytes of the selector, then the parameters.\<close>

definition encode_selected :: "(byte list \<Rightarrow> byte list) \<Rightarrow> fragment \<Rightarrow> abi_value list \<Rightarrow> string result" where
  "encode_selected H f values =
     bindE (selector H f) (\<lambda>s. bindE (encodeParams (fragment_inputs f) values) (\<lambda>p. concat_data [DStr s, DStr p]))"

definition decode_selected :: "(byte list \<Rightarrow> byte list) \<Rightarrow> string \<Rightarrow> fragment \<Rightarrow> js_data \<Rightarrow> abi_value result" where
  "decode_selected H message f data =
     bindE (dataSlice data (Some 0) (Some 4)) (\<lambda>d.
     bindE (selector H f) (\<lambda>s.
     bindE (assertArgument (d = s) message) (\<lambda>_.
     bindE (dataSlice data (Some 4) None) (\<lambda>p. decodeParams (fragment_inputs f) (DStr p)))))"

definition decodeErrorResult ::
  "(byte list \<Rightarrow> byte list) \<Rightarrow> abi_interface \<Rightarrow> fragment_ref \<Rightarrow> js_data \<Rightarrow> abi_value result" where
  "decodeErrorResult H ifc r data =
     bindE (resolve_error H ifc r) (\<lambda>f. decode_selected H ''data signature does not match error'' f data)"

definition encodeErrorResult ::
  "(byte list \<Rightarrow> byte list) \<Rightarrow> abi_interface \<Rightarrow> fragment_ref \<Rightarrow> abi_value list \<Rightarrow> string result" where
  "encodeErrorResult H ifc r values = bindE (resolve_error H ifc r) (\<lambda>f. encode_selected H f values)"

definition decodeFunctionData ::
  "(byte list \<Rightarrow> byte list) \<Rightarrow> abi_interface \<Rightarrow> fragment_ref \<Rightarrow> js_data \<Rightarrow> abi_value result" where
  "decodeFunctionData H ifc r data =
     bindE (resolve_function H ifc r) (\<lambda>f. decode_selected H ''data signature does not match function'' f data)"

definition encodeFunctionData ::
  "(byte list \<Rightarrow> byte list) \<Rightarrow> abi_interface \<Rightarrow> fragment_ref \<Rightarrow> abi_value list \<Rightarrow> string result" where
  "encodeFunctionData H ifc r values = bindE (resolve_function H ifc r) (\<lambda>f. encode_selected H f values)"

definition decodeFunctionResult ::
  "(byte list \<Rightarrow> byte list) \<Rightarrow> abi_interface \<Rightarrow> fragment_ref \<Rightarrow> js_data \<Rightarrow> abi_value result" where
  "decodeFunctionResult H ifc r data =
     bindE (resolve_function H ifc r) (\<lambda>f.
     bindE (getBytes data) (\<lambda>bytes.
       if length bytes mod 32 = 0
       then (case AbiCoder_decode (fragment_outputs f) (DU8 bytes) False of
               Inr v \<Rightarrow> Inr v
             | Inl _ \<Rightarrow> Inl (CoreError BAD_DATA ''could not decode result data''))
       else Inl (CoreError BAD_DATA ''invalid length for result data'')))"

definition encodeFunctionResult ::
  "(byte list \<Rightarrow> byte list) \<Rightarrow> abi_interface \<Rightarrow> fragment_ref \<Rightarrow> abi_value list \<Rightarrow> string result" where
  "encodeFunctionResult H ifc r values =
     bindE (resolve_function H ifc r) (\<lambda>f.
     bindE (encodeParams (fragment_outputs f) values) (\<lambda>p. hexlify (DStr p) no_options))"

text \<open>What \<open>parseTransaction\<close>, \<open>parseLog\<close> and \<open>parseError\<close> return.\<close>

record description =
  ds_fragment :: fragment
  ds_name :: string
  ds_signature :: string
  ds_key :: string
  ds_args :: abi_value
  ds_value :: int

definition describe :: "fragment \<Rightarrow> string \<Rightarrow> abi_value \<Rightarrow> int \<Rightarrow> description result" where
  "describe f key args v =
     bindE (Fragment_format Sighash f) (\<lambda>signature.
       Inr \<lparr>ds_fragment = f, ds_name = fragment_name f, ds_signature = signature, ds_key = key, ds_args = args, ds_value = v\<rparr>)"

definition parseTransaction ::
  "(byte list \<Rightarrow> byte list) \<Rightarrow> abi_interface \<Rightarrow> js_data \<Rightarrow> js_data option \<Rightarrow> description option result" where
  "parseTransaction H ifc data v =
     bindE (getBytes data) (\<lambda>bytes.
     bindE (getBigInt (case v of Some x \<Rightarrow> x | None \<Rightarrow> num_of_size 0)) (\<lambda>n.
     bindE (hexlify (DU8 (js_slice bytes 0 4)) no_options) (\<lambda>key.
     bindE (getFunction H ifc key None) (\<lambda>found.
       case found of
         None \<Rightarrow> Inr None
       | Some f \<Rightarrow>
           bindE (AbiCoder_decode (fragment_inputs f) (DU8 (drop 4 bytes)) False) (\<lambda>args.
           bindE (selector H f) (\<lambda>s. mapE Some (describe f s args n)))))))"

definition parseError :: "(byte list \<Rightarrow> byte list) \<Rightarrow> abi_interface \<Rightarrow> js_data \<Rightarrow> description option result" where
  "parseError H ifc data =
     bindE (hexlify data no_options) (\<lambda>hexData.
     bindE (dataSlice (DStr hexData) (Some 0) (Some 4)) (\<lambda>key.
     bindE (getError H ifc key) (\<lambda>found.
       case found of
         None \<Rightarrow> Inr None
       | Some f \<Rightarrow>
           bindE (dataSlice (DStr hexData) (Some 4) None) (\<lambda>p.
           bindE (AbiCoder_decode (fragment_inputs f) (DStr p) False) (\<lambda>args.
           bindE (selector H f) (\<lambda>s. mapE Some (describe f s args 0)))))))"

section \<open>Event logs\<close>

text \<open>
  \<open>id\<close> of a value that need not be a text: what has no \<open>length\<close>, and an empty array, is
  hashed as the empty text; an array with elements has no \<open>charCodeAt\<close>.
\<close>

definition id_value :: "(byte list \<Rightarrow> byte list) \<Rightarrow> abi_value \<Rightarrow> string result" where
  "id_value H v =
     (case as_units v of
        Some u \<Rightarrow> id_hash H u
      | None \<Rightarrow>
          (case v of
             VUndef \<Rightarrow> not_an_object
           | VNull \<Rightarrow> not_an_object
           | VArr (_ # _) \<Rightarrow> Inl (JsError NativeTypeError ''str.charCodeAt is not a function'')
           | VResult (_ # _) _ \<Rightarrow> Inl (JsError NativeTypeError ''str.charCodeAt is not a function'')
           | VData (DU8 (_ # _)) \<Rightarrow> Inl (JsError NativeTypeError ''str.charCodeAt is not a function'')
           | VData (DArr (_ # _)) \<Rightarrow> Inl (JsError NativeTypeError ''str.charCodeAt is not a function'')
           | _ \<Rightarrow> id_hash H []))"

definition nullish_value :: "abi_value \<Rightarrow> bool" where
  "nullish_value v \<longleftrightarrow> v = VUndef \<or> v = VNull"

definition address_param :: param_type where
  "address_param = ParamType [] ''address'' ''address'' None None None None"

definition encodeTopic :: "(byte list \<Rightarrow> byte list) \<Rightarrow> param_type \<Rightarrow> abi_value \<Rightarrow> string result" where
  "encodeTopic H param v =
     (let type = pt_type param
      in if type = ''string'' then id_value H v
         else if type = ''bytes''
         then bindE (data_of v) (\<lambda>d. bindE (hexlify d no_options) (\<lambda>h. sha256 H (DStr h)))
         else
           bindE (case v of
                    VBool b \<Rightarrow> if type = ''bool'' then Inr (VData (DStr (if b then ''0x01'' else ''0x00''))) else Inr v
                  | _ \<Rightarrow> Inr v) (\<lambda>v.
           bindE (if starts_with type ''uint'' \<or> starts_with type ''int''
                  then bindE (data_of v) (\<lambda>d. mapE (\<lambda>h. VData (DStr h)) (toBeHex d None))
                  else Inr v) (\<lambda>v.
           bindE (if type = ''address'' then AbiCoder_encode [address_param] (VArr [v]) else Inr []) (\<lambda>_.
           bindE (data_of v) (\<lambda>d. bindE (hexlify d no_options) (\<lambda>h. zeroPadValue (DStr h) 32))))))"

datatype filter_topic = TopicNull | TopicIs string | TopicOneOf "string list"

text \<open>The topic of a parameter; none for a parameter that is not indexed.\<close>

definition filter_param :: "(byte list \<Rightarrow> byte list) \<Rightarrow> param_type \<Rightarrow> abi_value \<Rightarrow> filter_topic list result" where
  "filter_param H param v =
     (if pt_indexed param \<noteq> Some True
      then bindE (assertArgument (nullish_value v) ''cannot filter non-indexed parameters; must be null'') (\<lambda>_. Inr [])
      else if nullish_value v then Inr [TopicNull]
      else if isArray param \<or> isTuple param
      then Inl (CoreError INVALID_ARGUMENT ''filtering with tuples or arrays not supported'')
      else case v of
             VArr vs \<Rightarrow> mapE (\<lambda>ts. [TopicOneOf ts]) (mapM (encodeTopic H param) vs)
           | _ \<Rightarrow> mapE (\<lambda>t. [TopicIs t]) (encodeTopic H param v))"

definition trim_nulls :: "filter_topic list \<Rightarrow> filter_topic list" where
  "trim_nulls topics = rev (dropWhile (\<lambda>t. t = TopicNull) (rev topics))"

definition encodeFilterTopics ::
  "(byte list \<Rightarrow> byte list) \<Rightarrow> abi_interface \<Rightarrow> fragment_ref \<Rightarrow> abi_value list \<Rightarrow> filter_topic list result" where
  "encodeFilterTopics H ifc r values =
     bindE (resolve_event H ifc r) (\<lambda>f.
     bindE (Fragment_format Sighash f) (\<lambda>signature.
     bindE (assert (length values \<le> length (fragment_inputs f)) (''too many arguments for '' @ signature) UNEXPECTED_ARGUMENT) (\<lambda>_.
     bindE (if fragment_anonymous f then Inr [] else mapE (\<lambda>t. [TopicIs t]) (topicHash H f)) (\<lambda>first.
     bindE (mapM (\<lambda>(p, v). filter_param H p v) (zip (fragment_inputs f) values)) (\<lambda>rest.
       Inr (trim_nulls (first @ concat rest)))))))"

text \<open>The topic of an indexed parameter.\<close>

definition log_topic :: "(byte list \<Rightarrow> byte list) \<Rightarrow> param_type \<Rightarrow> abi_value \<Rightarrow> string result" where
  "log_topic H param v =
     (if pt_type param = ''string'' then id_value H v
      else if pt_type param = ''bytes'' then bindE (data_of v) (sha256 H)
      else if isTuple param \<or> isArray param then Inl (JsError NativeError ''not implemented'')
      else bindE (ParamType_string (pt_type param) False) (\<lambda>p. AbiCoder_encode [p] (VArr [v])))"

definition is_indexed :: "param_type \<Rightarrow> bool" where
  "is_indexed p \<longleftrightarrow> pt_indexed p = Some True"

definition encodeEventLog ::
  "(byte list \<Rightarrow> byte list) \<Rightarrow> abi_interface \<Rightarrow> fragment_ref \<Rightarrow> abi_value list \<Rightarrow> (string \<times> string list) result" where
  "encodeEventLog H ifc r values =
     bindE (resolve_event H ifc r) (\<lambda>f.
     bindE (if fragment_anonymous f then Inr [] else mapE (\<lambda>t. [t]) (topicHash H f)) (\<lambda>first.
     bindE (assertArgument (length values = length (fragment_inputs f)) ''event arguments/values mismatch'') (\<lambda>_.
       let items = zip (fragment_inputs f) values;
           rest = filter (\<lambda>(p, v). \<not> is_indexed p) items
       in bindE (mapM (\<lambda>(p, v). log_topic H p v) (filter (\<lambda>(p, v). is_indexed p) items)) (\<lambda>topics.
          bindE (AbiCoder_encode (map fst rest) (VArr (map snd rest))) (\<lambda>data. Inr (data, first @ topics))))))"

text \<open>The hash of a value stands in its topic.\<close>

definition is_hashed :: "param_type \<Rightarrow> bool" where
  "is_hashed p \<longleftrightarrow> pt_type p = ''string'' \<or> pt_type p = ''bytes'' \<or> isTuple p \<or> isArray p"

definition topic_param :: "param_type \<Rightarrow> param_type result" where
  "topic_param p =
     (if is_hashed p then ParamType_object (JsonType (Some (pt_name p)) (Some ''bytes32'') None None) False else Inr p)"

definition Indexed :: "abi_value \<Rightarrow> abi_value" where
  "Indexed hash = VObj [(''hash'', hash), (''_isIndexed'', VBool True)]"

definition result_items :: "abi_value \<Rightarrow> abi_value list" where
  "result_items v = (case v of VResult items _ \<Rightarrow> items | _ \<Rightarrow> [])"

definition index_caught :: "abi_value list \<Rightarrow> nat \<Rightarrow> abi_value" where
  "index_caught items i = (case result_index items i of Inr v \<Rightarrow> v | Inl e \<Rightarrow> VErr e)"

text \<open>The loop that puts the values in the order of the parameters, with its two counters.\<close>

fun log_values :: "param_type list \<Rightarrow> abi_value list option \<Rightarrow> abi_value list \<Rightarrow> nat \<Rightarrow> nat \<Rightarrow> abi_value list result" where
  "log_values [] indexed plain i j = Inr []"
| "log_values (p # ps) indexed plain i j =
     (if is_indexed p
      then (case indexed of
              None \<Rightarrow> mapE (Cons (Indexed VNull)) (log_values ps indexed plain i j)
            | Some items \<Rightarrow>
                if is_hashed p
                then bindE (result_index items i) (\<lambda>v. mapE (Cons (Indexed v)) (log_values ps indexed plain (Suc i) j))
                else mapE (Cons (index_caught items i)) (log_values ps indexed plain (Suc i) j))
      else mapE (Cons (index_caught plain j)) (log_values ps indexed plain i (Suc j)))"

definition check_topic :: "(byte list \<Rightarrow> byte list) \<Rightarrow> fragment \<Rightarrow> string list \<Rightarrow> string list result" where
  "check_topic H f topics =
     bindE (topicHash H f) (\<lambda>t.
     bindE (assertArgument (topics \<noteq> [] \<and> isHexString (DStr (hd topics)) (ExactLength 32) \<and> map to_lower (hd topics) = t)
              ''fragment/topic mismatch'') (\<lambda>_. Inr (drop 1 topics)))"

definition decodeEventLog ::
  "(byte list \<Rightarrow> byte list) \<Rightarrow> abi_interface \<Rightarrow> fragment_ref \<Rightarrow> js_data \<Rightarrow> string list option \<Rightarrow> abi_value result" where
  "decodeEventLog H ifc r data topics =
     bindE (resolve_event H ifc r) (\<lambda>f.
     bindE (case topics of
              None \<Rightarrow> Inr None
            | Some ts \<Rightarrow> if fragment_anonymous f then Inr (Some ts) else mapE Some (check_topic H f ts)) (\<lambda>topics.
     let inputs = fragment_inputs f
     in bindE (mapM topic_param (filter is_indexed inputs)) (\<lambda>indexed.
        bindE (case topics of
                 None \<Rightarrow> Inr None
               | Some ts \<Rightarrow>
                   bindE (concat_data (map DStr ts)) (\<lambda>d.
                     mapE (\<lambda>v. Some (result_items v)) (AbiCoder_decode indexed (DStr d) False))) (\<lambda>resultIndexed.
        bindE (AbiCoder_decode (filter (\<lambda>p. \<not> is_indexed p) inputs) data True) (\<lambda>plain.
        bindE (log_values inputs resultIndexed (result_items plain) 0 0) (\<lambda>values.
          Inr (fromItems values (map (\<lambda>p. if pt_name p = [] then None else Some (pt_name p)) inputs))))))))"

text \<open>\<open>log.topics[0]\<close> of a log without topics is \<open>undefined\<close>.\<close>

definition parseLog ::
  "(byte list \<Rightarrow> byte list) \<Rightarrow> abi_interface \<Rightarrow> string list \<Rightarrow> js_data \<Rightarrow> description option result" where
  "parseLog H ifc topics data =
     (case topics of
        [] \<Rightarrow> not_an_object
      | key # _ \<Rightarrow>
          bindE (getEvent H ifc key None) (\<lambda>found.
            case found of
              None \<Rightarrow> Inr None
            | Some f \<Rightarrow>
                if fragment_anonymous f then Inr None
                else bindE (topicHash H f) (\<lambda>t.
                     bindE (decodeEventLog H ifc (RefFragment f) data (Some topics)) (\<lambda>args.
                       mapE Some (describe f t args 0)))))"

section \<open>Call exceptions\<close>

text \<open>
  \<open>getBuiltinCallException\<close> of \<open>abi-coder.ts\<close> and \<open>makeError\<close>. A message ends with the JSON
  text of a reason or with the reason itself; both are kept as what they show. The
  code of a panic is a \<open>Number\<close>.
\<close>

datatype revert_reason =
  RequireFalse | ReasonIs abi_value | PanicWith string jnum | CustomError string

record revert_info =
  rv_signature :: string
  rv_name :: string
  rv_args :: "abi_value list"

record call_exception =
  ce_message :: string
  ce_shown :: "revert_reason option"
  ce_data :: "string option"
  ce_reason :: "revert_reason option"
  ce_to :: "string option"
  ce_from :: "string option"
  ce_txdata :: string
  ce_revert :: "revert_info option"
  ce_invocation :: "description option"

record call_transaction =
  ct_to :: "string option"
  ct_from :: "string option"
  ct_data :: "string option"

definition PanicReasons :: "(rat \<times> string) list" where
  "PanicReasons =
     [(0x00, ''GENERIC_PANIC''), (0x01, ''ASSERT_FALSE''), (0x11, ''OVERFLOW''), (0x12, ''DIVIDE_BY_ZERO''),
      (0x21, ''ENUM_RANGE_ERROR''), (0x22, ''BAD_STORAGE_DATA''), (0x31, ''STACK_UNDERFLOW''),
      (0x32, ''ARRAY_RANGE_ERROR''), (0x41, ''OUT_OF_MEMORY''), (0x51, ''UNINITIALIZED_FUNCTION_CALL'')]"

definition panic_name :: "jnum \<Rightarrow> string" where
  "panic_name code =
     (case code of Fin q \<Rightarrow> (case map_of PanicReasons q of Some r \<Rightarrow> r | None \<Rightarrow> ''UNKNOWN'') | _ \<Rightarrow> ''UNKNOWN'')"

definition basic_param :: "string \<Rightarrow> param_type" where
  "basic_param type = ParamType [] type type None None None None"

text \<open>\<open>abiCoder.decode([type], bytes.slice(4))[0]\<close>.\<close>

definition decode_first :: "string \<Rightarrow> byte list \<Rightarrow> abi_value result" where
  "decode_first type bytes =
     bindE (AbiCoder_decode [basic_param type] (DU8 (drop 4 bytes)) False) (\<lambda>v. result_index (result_items v) 0)"

text \<open>The ending of the message, what it shows, the reason and the description of the error.\<close>

type_synonym revert_parts = "string \<times> revert_reason option \<times> revert_reason option \<times> revert_info option"

definition string_revert :: "byte list \<Rightarrow> revert_parts" where
  "string_revert bytes =
     (case decode_first ''string'' bytes of
        Inr v \<Rightarrow> ('': '', Some (ReasonIs v), Some (ReasonIs v),
                  Some \<lparr>rv_signature = ''Error(string)'', rv_name = ''Error'', rv_args = [v]\<rparr>)
      | Inl _ \<Rightarrow> ('' (could not decode reason; invalid string data)'', None, None, None))"

definition panic_revert :: "byte list \<Rightarrow> revert_parts" where
  "panic_revert bytes =
     (case decode_first ''uint256'' bytes of
        Inr (VData (DBig n)) \<Rightarrow>
          (let code = to_double (of_int n); reason = PanicWith (panic_name code) code
           in ('': '', Some reason, Some reason,
               Some \<lparr>rv_signature = ''Panic(uint256)'', rv_name = ''Panic'', rv_args = [VData (DNum code)]\<rparr>))
      | _ \<Rightarrow> ('' (could not decode panic code)'', None, None, None))"

definition revert_text :: "byte list \<Rightarrow> revert_parts result" where
  "revert_text bytes =
     (if bytes = [] then Inr ('' (no data present; likely require(false) occurred'', None, Some RequireFalse, None)
      else if length bytes mod 32 \<noteq> 4
      then Inr ('' (could not decode reason; invalid data length)'', None, None, None)
      else bindE (hexlify (DU8 (js_slice bytes 0 4)) no_options) (\<lambda>s.
             Inr (if s = ''0x08c379a0'' then string_revert bytes
                  else if s = ''0x4e487b71'' then panic_revert bytes
                  else ('' (unknown custom error)'', None, None, None))))"

text \<open>\<open>if (data)\<close>: no data, and the empty text, say nothing.\<close>

definition has_data :: "js_data option \<Rightarrow> bool" where
  "has_data d = (case d of None \<Rightarrow> False | Some x \<Rightarrow> truthy (VData x))"

definition optional_address :: "string option \<Rightarrow> string option result" where
  "optional_address a =
     (case a of None \<Rightarrow> Inr None | Some s \<Rightarrow> if s = [] then Inr None else mapE Some (getAddress s))"

definition getBuiltinCallException :: "call_transaction \<Rightarrow> js_data option \<Rightarrow> call_exception result" where
  "getBuiltinCallException tx data =
     bindE (if has_data data
            then bindE (getBytes (the data)) (\<lambda>bytes.
                 bindE (hexlify (the data) no_options) (\<lambda>hex.
                 bindE (revert_text bytes) (\<lambda>(ending, shown, reason, revert).
                   Inr (''execution reverted'' @ ending, shown, Some hex, reason, revert))))
            else Inr (''missing revert data'', None,
                      (case data of Some (DStr s) \<Rightarrow> Some s | _ \<Rightarrow> None), None, None))
       (\<lambda>(message, shown, hex, reason, revert).
     bindE (optional_address (ct_to tx)) (\<lambda>to.
     bindE (optional_address (ct_from tx)) (\<lambda>from.
       Inr \<lparr>ce_message = message, ce_shown = shown, ce_data = hex, ce_reason = reason, ce_to = to, ce_from = from,
            ce_txdata = (case ct_data tx of Some (c # cs) \<Rightarrow> c # cs | _ \<Rightarrow> ''0x''),
            ce_revert = revert, ce_invocation = None\<rparr>)))"

text \<open>The custom errors of the interface; a value that does not decode is reported.\<close>

definition custom_error ::
  "(byte list \<Rightarrow> byte list) \<Rightarrow> abi_interface \<Rightarrow> byte list \<Rightarrow> call_exception \<Rightarrow> call_exception result" where
  "custom_error H ifc data err =
     bindE (hexlify (DU8 (js_slice data 0 4)) no_options) (\<lambda>key.
     bindE (getError H ifc key) (\<lambda>found.
       case found of
         None \<Rightarrow> Inr err
       | Some ef \<Rightarrow>
           (case AbiCoder_decode (fragment_inputs ef) (DU8 (drop 4 data)) False of
              Inl _ \<Rightarrow> Inr (err\<lparr>ce_message := ''execution reverted (coult not decode custom error)''\<rparr>)
            | Inr args \<Rightarrow>
                (case Fragment_format Sighash ef of
                   Inl _ \<Rightarrow> Inr (err\<lparr>ce_message := ''execution reverted (coult not decode custom error)''\<rparr>)
                 | Inr signature \<Rightarrow>
                     Inr (err\<lparr>ce_message := ''execution reverted: '', ce_shown := Some (CustomError signature),
                              ce_reason := Some (CustomError signature),
                              ce_revert := Some \<lparr>rv_signature = signature, rv_name = fragment_name ef, rv_args = [args]\<rparr>\<rparr>)))))"

definition Interface_makeError ::
  "(byte list \<Rightarrow> byte list) \<Rightarrow> abi_interface \<Rightarrow> js_data \<Rightarrow> call_transaction \<Rightarrow> call_exception result" where
  "Interface_makeError H ifc d tx =
     bindE (getBytes d) (\<lambda>data.
     bindE (getBuiltinCallException tx (Some (DU8 data))) (\<lambda>err.
     bindE (if starts_with (ce_message err) ''execution reverted (unknown custom error)''
            then custom_error H ifc data err else Inr err) (\<lambda>err.
     bindE (case ct_data tx of None \<Rightarrow> Inl (CoreError INVALID_ARGUMENT ''invalid BytesLike value'') | Some s \<Rightarrow> parseTransaction H ifc (DStr s) None) (\<lambda>parsed.
       Inr (err\<lparr>ce_invocation := parsed\<rparr>)))))"

end
