(* ===== verification/Signature_Props.thy ===== *)
theory Signature_Props
  imports Signature_Lexer
begin

text \<open>
  How the lexer and the cursor meet: a piece of text that lexes to the same tokens
  wherever it stands, and parenthesised lists of such pieces, whose items
  \<open>popParams\<close> returns again.
\<close>

section \<open>Lexing one token\<close>

definition delim :: "string \<Rightarrow> bool" where
  "delim r \<longleftrightarrow> r = [] \<or> \<not> is_id_char (hd r)"

lemma delim_simps [simp]: "delim []" "delim (c # r) \<longleftrightarrow> \<not> is_id_char c"
  by (simp_all add: delim_def)

lemma is_digit10_code: "is_digit10 c \<longleftrightarrow> 48 \<le> (of_char c :: nat) \<and> (of_char c :: nat) \<le> 57"
  by (auto simp: is_digit10_def digit_in_def digit_val_def Let_def)

lemma simple_facts:
  assumes "SimpleTokens c = Some ty" shows "\<not> is_id_start c" "\<not> is_digit10 c"
  using assms by (auto simp: SimpleTokens_def is_id_start_def is_digit10_code split: if_splits)

lemma space_facts:
  assumes "is_js_space c" shows "\<not> is_id_start c" "\<not> is_digit10 c"
  using assms unfolding is_js_space_def is_id_start_def is_digit10_code Let_def by (elim insertE; simp)+

lemma id_start_facts:
  assumes "is_id_start c" shows "\<not> is_js_space c" "SimpleTokens c = None"
  using assms simple_facts(1) [of c] space_facts(1) [of c] by (cases "SimpleTokens c"; auto)+

lemma digit_facts:
  assumes "is_digit10 c" shows "\<not> is_js_space c" "SimpleTokens c = None" "\<not> is_id_start c"
  using assms simple_facts(2) [of c] space_facts(2) [of c]
  by (cases "SimpleTokens c"; auto simp: is_digit10_code is_id_start_def Let_def)+

lemma simple_not_space: "SimpleTokens c = Some ty \<Longrightarrow> \<not> is_js_space c"
  by (auto simp: SimpleTokens_def is_js_space_def split: if_splits)

lemma takeWhile_delim:
  "list_all P w \<Longrightarrow> r = [] \<or> \<not> P (hd r) \<Longrightarrow> takeWhile P (w @ r) = w"
  by (cases r) (auto simp: list_all_iff takeWhile_append)

lemma idPrefix_word: "regexId w \<Longrightarrow> delim r \<Longrightarrow> idPrefix (w @ r) = w"
proof -
  assume w: "regexId w" and r: "delim r"
  then obtain c v where cv: "w = c # v" "is_id_start c" "takeWhile is_id_char v = v"
    by (cases w) (auto simp: regexId_def idPrefix_def split: if_splits)
  then have "list_all is_id_char v" by (metis Ball_set set_takeWhileD)
  then have "takeWhile is_id_char (v @ r) = v" using r by (simp add: takeWhile_delim delim_def)
  then show ?thesis using cv by (simp add: idPrefix_def)
qed

lemma dropWhile_space: "\<not> is_js_space c \<Longrightarrow> dropWhile is_js_space (c # r) = c # r"
  by simp

lemma lex_loop_step:
  assumes "lex_token (c # r) off lx = Inr (w, lx')" and "\<not> is_js_space c"
  shows "lex_loop (c # r) off lx = lex_loop (drop (length w) (c # r)) (off + length w) lx'"
  using assms by (subst lex_loop.simps) simp

lemma lex_loop_word:
  assumes "regexId w" and "delim r"
  shows "lex_loop (w @ r) off lx =
         lex_loop r (off + length w) (push_token (new_token lx off (word_type w) w) lx)"
proof -
  obtain c v where cv: "w = c # v" "is_id_start c"
    using assms(1) by (cases w) (auto simp: regexId_def idPrefix_def split: if_splits)
  have "idPrefix (c # v @ r) = w" using idPrefix_word [OF assms] cv by simp
  then have "lex_token (c # v @ r) off lx = Inr (w, push_token (new_token lx off (word_type w) w) lx)"
    using cv id_start_facts(2) [OF cv(2)] by (simp add: lex_token_def)
  from lex_loop_step [OF this id_start_facts(1) [OF cv(2)]] show ?thesis using cv by simp
qed

lemma lex_loop_number:
  assumes "list_all is_digit10 w" "w \<noteq> []" and "r = [] \<or> \<not> is_digit10 (hd r)"
  shows "lex_loop (w @ r) off lx =
         lex_loop r (off + length w) (push_token (new_token lx off NUMBER w) lx)"
proof -
  obtain c v where cv: "w = c # v" "is_digit10 c" using assms(1,2) by (cases w) auto
  have n: "numberPrefix (c # v @ r) = w" using takeWhile_delim [OF assms(1,3)] cv by (simp add: numberPrefix_def)
  have i: "idPrefix (c # v @ r) = []" using digit_facts(3) [OF cv(2)] by (simp add: idPrefix_def)
  have "lex_token (c # v @ r) off lx = Inr (w, push_token (new_token lx off NUMBER w) lx)"
    using cv digit_facts(2) [OF cv(2)] n i by (simp add: lex_token_def)
  from lex_loop_step [OF this digit_facts(1) [OF cv(2)]] show ?thesis using cv by simp
qed

lemma lex_loop_simple:
  assumes "SimpleTokens c = Some ty"
  shows "lex_loop (c # r) off lx =
         bindE (simple_token ty (push_token (new_token lx off ty [c]) lx)) (lex_loop r (off + 1))"
  using assms simple_not_space [OF assms] by (subst lex_loop.simps) (auto simp: lex_token_def mapE_def bindE_assoc)

lemma lex_loop_space: "is_js_space c \<Longrightarrow> r \<noteq> [] \<Longrightarrow> lex_loop (c # r) off lx = lex_loop r (off + 1) lx"
  by (subst (1 2) lex_loop.simps) (simp add: Suc_diff_le length_dropWhile_le)

lemma punctuation [simp]:
  "\<not> is_id_char CHR '',''" "\<not> is_id_char CHR ''(''" "\<not> is_id_char CHR '')''" "\<not> is_id_char CHR ''[''"
  "\<not> is_id_char CHR '']''" "\<not> is_id_char CHR '' ''" "\<not> is_id_char CHR ''@''"
  by (simp_all add: is_id_char_def is_id_start_def is_digit10_code)

section \<open>Text that lexes anywhere\<close>

text \<open>
  \<open>lexes s T\<close>: with the tokens so far, the depth and the offset, \<open>T\<close> gives the tokens that
  the text \<open>s\<close> adds, and it leaves the stacks as they were.
\<close>

type_synonym tokens_at = "nat \<Rightarrow> nat \<Rightarrow> nat \<Rightarrow> token list"

definition add_tokens :: "token list \<Rightarrow> lexer \<Rightarrow> lexer" where
  "add_tokens ts lx = lx\<lparr>lx_tokens := lx_tokens lx @ ts\<rparr>"

definition lexes :: "string \<Rightarrow> tokens_at \<Rightarrow> bool" where
  "lexes s T \<longleftrightarrow>
     (\<forall>r off lx. delim r \<longrightarrow>
        lex_loop (s @ r) off lx =
        lex_loop r (off + length s) (add_tokens (T (length (lx_tokens lx)) (length (lx_brackets lx)) off) lx))"

definition leaf :: "nat \<Rightarrow> nat \<Rightarrow> token_type \<Rightarrow> string \<Rightarrow> token" where
  "leaf d off type s =
     \<lparr>tk_type = type, tk_text = s, tk_offset = off, tk_depth = int d, tk_match = -1, tk_linkBack = -1, tk_linkNext = -1,
      tk_value = -1\<rparr>"

lemma new_token_leaf: "new_token lx off type s = leaf (length (lx_brackets lx)) off type s"
  by (simp add: new_token_def leaf_def)

lemma push_add_tokens: "push_token t lx = add_tokens [t] lx"
  by (simp add: push_token_def add_tokens_def)

lemma add_tokens_simps [simp]:
  "lx_tokens (add_tokens ts lx) = lx_tokens lx @ ts" "lx_brackets (add_tokens ts lx) = lx_brackets lx"
  "lx_commas (add_tokens ts lx) = lx_commas lx" "add_tokens us (add_tokens ts lx) = add_tokens (ts @ us) lx"
  "add_tokens [] lx = lx"
  by (simp_all add: add_tokens_def)

lemma lexesD:
  "lexes s T \<Longrightarrow> delim r \<Longrightarrow>
   lex_loop (s @ r) off lx =
   lex_loop r (off + length s) (add_tokens (T (length (lx_tokens lx)) (length (lx_brackets lx)) off) lx)"
  by (simp add: lexes_def)

lemma lexes_word: "regexId w \<Longrightarrow> lexes w (\<lambda>k d off. [leaf d off (word_type w) w])"
  by (simp add: lexes_def lex_loop_word new_token_leaf push_add_tokens)

lemma lexes_number: "list_all is_digit10 w \<Longrightarrow> w \<noteq> [] \<Longrightarrow> lexes w (\<lambda>k d off. [leaf d off NUMBER w])"
  using lex_loop_number [of w] lex_loop_number [of w "[]"]
  by (simp add: lexes_def new_token_leaf push_add_tokens delim_def is_id_char_def)

lemma lexes_at: "lexes ''@'' (\<lambda>k d off. [leaf d off AT ''@''])"
  by (simp add: lexes_def lex_loop_simple SimpleTokens_def simple_token_def new_token_leaf push_add_tokens)

lemma lexes_append:
  assumes "lexes s T" "lexes u U" and "delim u"
  shows "lexes (s @ u) (\<lambda>k d off. T k d off @ U (k + length (T k d off)) d (off + length s))"
  unfolding lexes_def
proof (intro allI impI)
  fix r off and lx :: lexer assume r: "delim r"
  have "delim (u @ r)" using assms(3) r by (cases u) simp_all
  with assms(1,2) r show "lex_loop ((s @ u) @ r) off lx = lex_loop r (off + length (s @ u))
      (add_tokens (T (length (lx_tokens lx)) (length (lx_brackets lx)) off @
        U (length (lx_tokens lx) + length (T (length (lx_tokens lx)) (length (lx_brackets lx)) off))
          (length (lx_brackets lx)) (off + length s)) lx)"
    by (simp add: lexesD add.assoc)
qed

lemma lexes_spaced:
  assumes "lexes u U" and "u \<noteq> []"
  shows "lexes ('' '' @ u) (\<lambda>k d off. U k d (off + 1))"
  using assms by (simp add: lexes_def lex_loop_space is_js_space_def)

text \<open>Pieces one after the other.\<close>

type_synonym item = "string \<times> tokens_at"

fun seq_toks :: "item list \<Rightarrow> tokens_at" where
  "seq_toks [] k d off = []"
| "seq_toks ((s, T) # ps) k d off =
     (let ts = T k d off in ts @ seq_toks ps (k + length ts) d (off + length s))"

lemma lexes_empty: "lexes [] (\<lambda>k d off. [])"
  by (simp add: lexes_def)

lemma delim_append: "delim a \<Longrightarrow> delim b \<Longrightarrow> delim (a @ b)"
  by (cases a) simp_all

lemma lexes_pieces:
  assumes "\<forall>(s, T) \<in> set ps. lexes s T" and "\<forall>(s, T) \<in> set (tl ps). delim s"
  shows "lexes (concat (map fst ps)) (seq_toks ps)"
  using assms
proof (induction ps)
  case (Cons x ps)
  obtain s T where x: "x = (s, T)" by (cases x)
  have IH: "lexes (concat (map fst ps)) (seq_toks ps)"
    by (rule Cons.IH; use Cons.prems in \<open>cases ps; simp\<close>)
  have d: "delim (concat (map fst us))" if "\<forall>(s, T) \<in> set us. delim s" for us :: "item list"
    using that by (induction us) (auto simp: delim_append)
  show ?case
    using lexes_append [of s T, OF _ IH] Cons.prems x d [of ps] by (simp add: lexes_def Let_def)
qed (simp add: lexes_def)

lemma lex_pieces:
  assumes "\<forall>(s, T) \<in> set ps. lexes s T" and "\<forall>(s, T) \<in> set (tl ps). delim s"
  shows "lex (concat (map fst ps)) = Inr (TokenString (seq_toks ps 0 0 0))"
  using lexesD [OF lexes_pieces [OF assms], of "[]" 0 "\<lparr>lx_tokens = [], lx_brackets = [], lx_commas = []\<rparr>"]
  by (simp add: lex_def lex_loop.simps [of "[]"])

section \<open>Array suffixes\<close>

definition bracket :: "nat \<Rightarrow> nat \<Rightarrow> int \<Rightarrow> string \<Rightarrow> token" where
  "bracket d off n s = (leaf d off BRACKET s)\<lparr>tk_value := n\<rparr>"

lemma butlast_two [simp]: "butlast (xs @ [a, b]) = xs @ [a]" "last (xs @ [a, b]) = b"
  by (simp_all add: butlast_append)

lemma butlast_three [simp]: "butlast (xs @ [a, b, c]) = xs @ [a, b]"
  by (simp add: butlast_append)

lemma update_snoc [simp]: "(xs @ [a])[length xs := b] = xs @ [b]"
  by (simp add: list_update_append)

lemma close_bracket_empty:
  "close_bracket (add_tokens [leaf d off BRACKET ''['', leaf d o2 CLOSE_BRACKET '']''] lx) =
   Inr (add_tokens [bracket d off (-1) ''[]''] lx)"
  by (simp add: close_bracket_def leaf_def bracket_def add_tokens_def)

lemma close_bracket_number:
  assumes "getNumber (DStr ds) = Inr n"
  shows "close_bracket (add_tokens [leaf d off BRACKET ''['', leaf d o2 NUMBER ds, leaf d o3 CLOSE_BRACKET '']''] lx) =
   Inr (add_tokens [bracket d off n (''['' @ ds @ '']'')] lx)"
  using assms by (simp add: close_bracket_def leaf_def bracket_def add_tokens_def Let_def)

lemma simple_token_bracket [simp]:
  "SimpleTokens CHR ''['' = Some BRACKET" "SimpleTokens CHR '']'' = Some CLOSE_BRACKET"
  "simple_token BRACKET lx = Inr lx" "simple_token CLOSE_BRACKET lx = close_bracket lx"
  by (simp_all add: SimpleTokens_def simple_token_def)

lemma lexes_bracket_empty: "lexes ''[]'' (\<lambda>k d off. [bracket d off (-1) ''[]''])"
  by (simp add: lexes_def lex_loop_simple new_token_leaf push_add_tokens close_bracket_empty)

lemma lexes_bracket_number:
  assumes "list_all is_digit10 ds" "ds \<noteq> []" and "getNumber (DStr ds) = Inr n"
  shows "lexes (''['' @ ds @ '']'') (\<lambda>k d off. [bracket d off n (''['' @ ds @ '']'')])"
  unfolding lexes_def
proof (intro allI impI)
  fix r off and lx :: lexer
  have [simp]: "lex_loop (ds @ CHR '']'' # r) o1 lx1 =
    lex_loop (CHR '']'' # r) (o1 + length ds) (push_token (new_token lx1 o1 NUMBER ds) lx1)" for o1 lx1
    using lex_loop_number [OF assms(1,2), of "CHR '']'' # r"] by (simp add: is_digit10_code)
  show "lex_loop ((''['' @ ds @ '']'') @ r) off lx =
    lex_loop r (off + length (''['' @ ds @ '']''))
      (add_tokens [bracket (length (lx_brackets lx)) off n (''['' @ ds @ '']'')] lx)"
    by (simp add: lex_loop_simple new_token_leaf push_add_tokens close_bracket_number [OF assms(3)])
qed

section \<open>Parenthesised lists\<close>

text \<open>
  The tokens of a list after its opening parenthesis at \<open>b\<close>, of which the last
  parenthesis or comma stands at \<open>j\<close>.
\<close>

definition first_link :: "item list \<Rightarrow> nat \<Rightarrow> nat \<Rightarrow> nat \<Rightarrow> nat" where
  "first_link items k d off = (case items of [] \<Rightarrow> k | (s, T) # _ \<Rightarrow> k + length (T k (Suc d) off))"

definition close_token :: "nat \<Rightarrow> nat \<Rightarrow> nat \<Rightarrow> nat \<Rightarrow> token" where
  "close_token b j d off = (leaf d off CLOSE_PAREN '')'')\<lparr>tk_match := int b, tk_linkBack := int j\<rparr>"

definition comma_token :: "nat \<Rightarrow> nat \<Rightarrow> nat \<Rightarrow> nat \<Rightarrow> token" where
  "comma_token j nxt d off = (leaf (Suc d) off COMMA '','')\<lparr>tk_linkBack := int j, tk_linkNext := int nxt\<rparr>"

fun list_toks :: "nat \<Rightarrow> nat \<Rightarrow> item list \<Rightarrow> tokens_at" where
  "list_toks b j [] k d off = [close_token b j d off]"
| "list_toks b j [(s, T)] k d off = T k (Suc d) off @ [close_token b j d (off + length s)]"
| "list_toks b j ((s, T) # i # is) k d off =
     (let c = k + length (T k (Suc d) off); o2 = off + length s
      in T k (Suc d) off @ comma_token j (first_link (i # is) (Suc c) d (Suc o2)) d o2
         # list_toks b c (i # is) (Suc c) d (Suc o2))"

definition paren_text :: "string list \<Rightarrow> string" where
  "paren_text ss = ''('' @ join_with '','' ss @ '')''"

definition paren_toks :: "item list \<Rightarrow> tokens_at" where
  "paren_toks items k d off =
     (let rest = list_toks k k items (Suc k) d (Suc off)
      in (leaf d off OPEN_PAREN ''('')
           \<lparr>tk_linkNext := int (first_link items (Suc k) d (Suc off)), tk_match := int (k + length rest)\<rparr> # rest)"

lemma list_toks_nonempty [simp]: "list_toks b j items k d off \<noteq> []"
  by (cases "(b, j, items, k, d, off)" rule: list_toks.cases) (auto simp: Let_def)

lemma upd_token_add [simp]:
  "i < length (lx_tokens lx) \<Longrightarrow> upd_token i f (add_tokens ts lx) = add_tokens ts (upd_token i f lx)"
  "upd_token (length (lx_tokens lx) + n) f (add_tokens ts lx) = add_tokens (ts[n := f (ts ! n)]) lx"
  by (simp_all add: upd_token_def add_tokens_def list_update_append nth_append)

lemma upd_token_head [simp]:
  "i = length (lx_tokens lx) \<Longrightarrow> upd_token i f (add_tokens (t # ts) lx) = add_tokens (f t # ts) lx"
  by (simp add: upd_token_def add_tokens_def)

lemma upd_token_mid [simp]:
  "i = length (lx_tokens lx) + length ts \<Longrightarrow>
   upd_token i f (add_tokens (ts @ t # us) lx) = add_tokens (ts @ f t # us) lx"
  by (simp add: upd_token_def add_tokens_def list_update_append nth_append)

lemma same_stacks [simp]:
  "(add_tokens ts lx)\<lparr>lx_brackets := lx_brackets lx, lx_commas := lx_commas lx\<rparr> = add_tokens ts lx"
  by (simp add: add_tokens_def)

lemma upd_token_simps [simp]:
  "length (lx_tokens (upd_token i f lx)) = length (lx_tokens lx)" "lx_brackets (upd_token i f lx) = lx_brackets lx"
  "lx_commas (upd_token i f lx) = lx_commas lx"
  by (simp_all add: upd_token_def)

lemma stacks_commute [simp]:
  "upd_token i f (lx\<lparr>lx_commas := cs\<rparr>) = (upd_token i f lx)\<lparr>lx_commas := cs\<rparr>"
  "upd_token i f (lx\<lparr>lx_brackets := bs\<rparr>) = (upd_token i f lx)\<lparr>lx_brackets := bs\<rparr>"
  "add_tokens ts (lx\<lparr>lx_commas := cs\<rparr>) = (add_tokens ts lx)\<lparr>lx_commas := cs\<rparr>"
  "add_tokens ts (lx\<lparr>lx_brackets := bs\<rparr>) = (add_tokens ts lx)\<lparr>lx_brackets := bs\<rparr>"
  "last_index (lx\<lparr>lx_commas := cs\<rparr>) = last_index lx" "last_index (lx\<lparr>lx_brackets := bs\<rparr>) = last_index lx"
  "last_index (upd_token i f lx) = last_index lx"
  "ts \<noteq> [] \<Longrightarrow> last_index (add_tokens ts lx) = length (lx_tokens lx) + (length ts - 1)"
  by (auto simp: upd_token_def add_tokens_def last_index_def Suc_le_eq)

lemma comma_linked:
  assumes "lx_commas lx = j # cs" and "j < length (lx_tokens lx)"
  shows "comma (add_tokens [leaf (Suc d) off COMMA '','' ] lx) =
    Inr ((add_tokens [(leaf (Suc d) off COMMA '','')\<lparr>tk_linkBack := int j\<rparr>]
            (upd_token j (\<lambda>t. t\<lparr>tk_linkNext := int (length (lx_tokens lx))\<rparr>) lx))
          \<lparr>lx_commas := length (lx_tokens lx) # cs\<rparr>)"
  using assms by (simp add: comma_def link_comma_def)

lemma close_linked:
  assumes "lx_commas lx = j # cs" and "j < length (lx_tokens lx)"
    and "lx_brackets lx = b # bs" and "b < length (lx_tokens lx)"
  shows "close_paren (add_tokens [leaf (Suc d) off CLOSE_PAREN '')''] lx) =
    Inr ((add_tokens [close_token b j d off]
            (upd_token b (\<lambda>t. t\<lparr>tk_match := int (length (lx_tokens lx))\<rparr>)
              (upd_token j (\<lambda>t. t\<lparr>tk_linkNext := int (length (lx_tokens lx))\<rparr>) lx)))
          \<lparr>lx_brackets := bs, lx_commas := cs\<rparr>)"
proof -
  have comm: "upd_token j (\<lambda>t. t\<lparr>tk_linkNext := x\<rparr>) (upd_token b (\<lambda>t. t\<lparr>tk_match := y\<rparr>) l) =
              upd_token b (\<lambda>t. t\<lparr>tk_match := y\<rparr>) (upd_token j (\<lambda>t. t\<lparr>tk_linkNext := x\<rparr>) l)" for x y l
    by (cases "b = j"; cases "j < length (lx_tokens l)"; cases "lx_tokens l ! j")
      (simp_all add: upd_token_def list_update_swap nth_list_update list_update_beyond not_less)
  show ?thesis
    using assms
    by (simp add: close_paren_def link_comma_def close_token_def leaf_def comm)
qed

lemma lex_loop_comma:
  assumes "lx_commas lx = j # cs" and "j < length (lx_tokens lx)" and "length (lx_brackets lx) = Suc d"
  shows "lex_loop (CHR '','' # r) off lx =
    lex_loop r (Suc off)
      ((add_tokens [(leaf (Suc d) off COMMA '','')\<lparr>tk_linkBack := int j\<rparr>]
          (upd_token j (\<lambda>t. t\<lparr>tk_linkNext := int (length (lx_tokens lx))\<rparr>) lx))
        \<lparr>lx_commas := length (lx_tokens lx) # cs\<rparr>)"
proof -
  have "SimpleTokens CHR '','' = Some COMMA" by (simp add: SimpleTokens_def)
  from lex_loop_simple [OF this] show ?thesis
    using comma_linked [OF assms(1,2), of d off] assms(3) by (simp add: simple_token_def new_token_leaf push_add_tokens)
qed

lemma lex_loop_close:
  assumes "lx_commas lx = j # cs" and "j < length (lx_tokens lx)"
    and "lx_brackets lx = b # bs" and "b < length (lx_tokens lx)"
  shows "lex_loop (CHR '')'' # r) off lx =
    lex_loop r (Suc off)
      ((add_tokens [close_token b j (length bs) off]
            (upd_token b (\<lambda>t. t\<lparr>tk_match := int (length (lx_tokens lx))\<rparr>)
              (upd_token j (\<lambda>t. t\<lparr>tk_linkNext := int (length (lx_tokens lx))\<rparr>) lx)))
          \<lparr>lx_brackets := bs, lx_commas := cs\<rparr>)"
proof -
  have "SimpleTokens CHR '')'' = Some CLOSE_PAREN" by (simp add: SimpleTokens_def)
  from lex_loop_simple [OF this] show ?thesis
    using close_linked [OF assms, of "length bs" off] assms(3) by (simp add: simple_token_def new_token_leaf push_add_tokens)
qed

lemma lex_list:
  assumes "\<forall>(s, T) \<in> set items. lexes s T"
    and "lx_commas lx = j # cs" and "j < length (lx_tokens lx)"
    and "lx_brackets lx = b # bs" and "b < length (lx_tokens lx)"
  shows "lex_loop (join_with '','' (map fst items) @ '')'' @ r) off lx =
    lex_loop r (off + length (join_with '','' (map fst items)) + 1)
      ((add_tokens (list_toks b j items (length (lx_tokens lx)) (length bs) off)
          (upd_token b (\<lambda>t. t\<lparr>tk_match := int (length (lx_tokens lx)
               + length (list_toks b j items (length (lx_tokens lx)) (length bs) off) - 1)\<rparr>)
            (upd_token j (\<lambda>t. t\<lparr>tk_linkNext := int (first_link items (length (lx_tokens lx)) (length bs) off)\<rparr>) lx)))
        \<lparr>lx_brackets := bs, lx_commas := cs\<rparr>)"
  using assms
proof (induction items arbitrary: j lx off rule: induct_list012)
  case 1
  then show ?case by (simp add: lex_loop_close first_link_def)
next
  case (2 x)
  obtain s T where x: "x = (s, T)" by (cases x)
  define lx1 where "lx1 = add_tokens (T (length (lx_tokens lx)) (Suc (length bs)) off) lx"
  have "lexes s T" using 2 x by simp
  from lexesD [OF this, of "CHR '')'' # r" off lx]
  have "lex_loop (s @ CHR '')'' # r) off lx = lex_loop (CHR '')'' # r) (off + length s) lx1"
    using 2 by (simp add: lx1_def)
  then show ?case
    using 2 x lex_loop_close [of lx1 j cs b bs r "off + length s"]
    by (simp add: lx1_def first_link_def add.assoc)
next
  case (3 x y zs)
  obtain s T where x: "x = (s, T)" by (cases x)
  define lx1 where "lx1 = add_tokens (T (length (lx_tokens lx)) (Suc (length bs)) off) lx"
  define c where "c = length (lx_tokens lx) + length (T (length (lx_tokens lx)) (Suc (length bs)) off)"
  define o2 where "o2 = off + length s"
  define lx2 where "lx2 = (add_tokens [(leaf (Suc (length bs)) o2 COMMA '','')\<lparr>tk_linkBack := int j\<rparr>]
          (upd_token j (\<lambda>t. t\<lparr>tk_linkNext := int c\<rparr>) lx1))\<lparr>lx_commas := c # cs\<rparr>"
  let ?rest = "join_with '','' (map fst (y # zs))"
  have "lexes s T" using 3 x by simp
  from lexesD [OF this, of "CHR '','' # ?rest @ '')'' @ r" off lx]
  have "lex_loop (s @ CHR '','' # ?rest @ '')'' @ r) off lx = lex_loop (CHR '','' # ?rest @ '')'' @ r) o2 lx1"
    using "3.prems" by (simp add: lx1_def o2_def)
  also have "\<dots> = lex_loop (?rest @ '')'' @ r) (Suc o2) lx2"
    using "3.prems" x by (simp add: lex_loop_comma lx1_def lx2_def c_def)
  also have "\<dots> = lex_loop r (Suc o2 + length ?rest + 1)
      ((add_tokens (list_toks b c (y # zs) (Suc c) (length bs) (Suc o2))
          (upd_token b (\<lambda>t. t\<lparr>tk_match := int (Suc c + length (list_toks b c (y # zs) (Suc c) (length bs) (Suc o2)) - 1)\<rparr>)
            (upd_token c (\<lambda>t. t\<lparr>tk_linkNext := int (first_link (y # zs) (Suc c) (length bs) (Suc o2))\<rparr>) lx2)))
        \<lparr>lx_brackets := bs, lx_commas := cs\<rparr>)"
    using "3.IH"(2) [of lx2 c "Suc o2"] "3.prems" x by (simp add: lx2_def lx1_def c_def)
  finally show ?case
    using "3.prems" x
    by (simp add: lx2_def lx1_def c_def o2_def Let_def first_link_def comma_token_def add.assoc)
qed

text \<open>The offsets aside, a list in parentheses lexes the same everywhere.\<close>

lemma lexes_paren:
  assumes "\<forall>(s, T) \<in> set items. lexes s T"
  shows "lexes (paren_text (map fst items)) (paren_toks items)"
  unfolding lexes_def
proof (intro allI impI)
  fix r off and lx :: lexer
  let ?k = "length (lx_tokens lx)" let ?d = "length (lx_brackets lx)"
  define lx1 where "lx1 = (add_tokens [leaf ?d off OPEN_PAREN ''(''] lx)
      \<lparr>lx_brackets := ?k # lx_brackets lx, lx_commas := ?k # lx_commas lx\<rparr>"
  have "SimpleTokens CHR ''('' = Some OPEN_PAREN" by (simp add: SimpleTokens_def)
  from lex_loop_simple [OF this]
  have "lex_loop (paren_text (map fst items) @ r) off lx =
    lex_loop (join_with '','' (map fst items) @ '')'' @ r) (Suc off) lx1"
    by (simp add: paren_text_def simple_token_def new_token_leaf push_add_tokens open_paren_def lx1_def)
  also have "\<dots> = lex_loop r (off + length (paren_text (map fst items))) (add_tokens (paren_toks items ?k ?d off) lx)"
    using lex_list [OF assms, of lx1 ?k "lx_commas lx" ?k "lx_brackets lx" r "Suc off"]
    by (simp add: lx1_def paren_toks_def paren_text_def Let_def)
  finally show "lex_loop (paren_text (map fst items) @ r) off lx =
    lex_loop r (off + length (paren_text (map fst items))) (add_tokens (paren_toks items ?k ?d off) lx)" .
qed

section \<open>Popping the items of a list\<close>

fun item_slices :: "item list \<Rightarrow> nat \<Rightarrow> nat \<Rightarrow> nat \<Rightarrow> token_string list" where
  "item_slices [] k d off = []"
| "item_slices ((s, T) # is) k d off =
     (let ts = T k (Suc d) off
      in TokenString (map (shift_token (int k)) ts) # item_slices is (Suc (k + length ts)) d (Suc (off + length s)))"

lemma shift_shift [simp]: "map (shift_token m) (map (shift_token n) ts) = map (shift_token (n + m)) ts"
  by (simp add: shift_token_def algebra_simps)

lemma sub_slice:
  assumes "tokens = A @ map (shift_token n) ts @ R"
  shows "subTokenString \<lparr>ts_offset = i, ts_tokens = tokens\<rparr> (int (length A)) (int (length A + length ts)) =
    TokenString (map (shift_token (n + int (length A))) ts)"
proof -
  have "js_slice tokens (int (length A)) (int (length A + length ts)) = map (shift_token n) ts"
    by (simp only: js_slice_nat assms) simp
  then show ?thesis by (simp add: subTokenString_def del: of_nat_add map_map)
qed

lemma peek_nth: "i < length tokens \<Longrightarrow> peek \<lparr>ts_offset = int i, ts_tokens = tokens\<rparr> = Inr (tokens ! i)"
  by (simp add: peek_def)

text \<open>From the separator at \<open>j\<close>, which stands at \<open>length A\<close> of the slice.\<close>

lemma params_list:
  assumes "\<forall>(s, T) \<in> set items. \<forall>k d off. T k d off \<noteq> []"
    and "tokens = A @ sep # map (shift_token (int j - int (length A))) (list_toks b j items (Suc j) d off) @ R"
    and "tk_linkNext sep = int (first_link items (Suc j) d off) - (int j - int (length A))"
    and "length items \<le> fuel"
  shows "params_loop fuel (int (length A + length (list_toks b j items (Suc j) d off)))
           \<lparr>ts_offset = int (length A), ts_tokens = tokens\<rparr> = Inr (item_slices items (Suc j) d off)"
  using assms
proof (induction items arbitrary: j A sep off fuel rule: induct_list012)
  case 1
  then show ?case by (simp add: params_loop.simps)
next
  case (2 x)
  obtain s T where x: "x = (s, T)" by (cases x)
  obtain k where k: "fuel = Suc k" using 2 by (cases fuel) auto
  let ?ts = "T (Suc j) (Suc d) off"
  define n where "n = int j - int (length A)"
  have ne: "?ts \<noteq> []" using "2.prems"(1) x by simp
  have tk: "tokens = A @ sep # map (shift_token n) ?ts @ shift_token n (close_token b j d (off + length s)) # R"
    using "2.prems"(2) x by (simp add: n_def)
  have link: "tk_linkNext sep = int (length (A @ [sep]) + length ?ts)"
    using "2.prems"(3) x by (simp add: first_link_def)
  have tk1: "tokens = (A @ [sep]) @ map (shift_token n) ?ts @ shift_token n (close_token b j d (off + length s)) # R"
    unfolding tk by simp
  have n1: "n + int (length (A @ [sep])) = int (Suc j)" by (simp add: n_def)
  have "subTokenString \<lparr>ts_offset = int (length A), ts_tokens = tokens\<rparr> (int (length (A @ [sep])))
      (int (length (A @ [sep]) + length ?ts)) = TokenString (map (shift_token (int (Suc j))) ?ts)"
    unfolding n1 [symmetric] by (rule sub_slice [OF tk1])
  moreover have "peek \<lparr>ts_offset = int (length A), ts_tokens = tokens\<rparr> = Inr sep"
    unfolding tk by (subst peek_nth) simp_all
  moreover have "0 < length ?ts" using ne by simp
  ultimately show ?case
    using x k link by (subst params_loop.simps) (simp add: params_loop.simps Let_def add.commute [of _ 1])
next
  case (3 x y zs)
  obtain s T where x: "x = (s, T)" by (cases x)
  obtain k where k: "fuel = Suc k" using 3 by (cases fuel) auto
  let ?ts = "T (Suc j) (Suc d) off"
  define c where "c = Suc j + length ?ts"
  define o2 where "o2 = off + length s"
  define n where "n = int j - int (length A)"
  define A2 where "A2 = A @ sep # map (shift_token n) ?ts"
  define cm where "cm = comma_token j (first_link (y # zs) (Suc c) d (Suc o2)) d o2"
  have tk: "tokens = A2 @ shift_token n cm # map (shift_token n) (list_toks b c (y # zs) (Suc c) d (Suc o2)) @ R"
    using "3.prems"(2) x by (simp add: A2_def cm_def c_def o2_def n_def Let_def)
  have n2: "int c - int (length A2) = n" by (simp add: c_def A2_def n_def)
  have link: "tk_linkNext (shift_token n cm) = int (first_link (y # zs) (Suc c) d (Suc o2)) - n"
    by (simp add: cm_def comma_token_def shift_token_def)
  have rest: "params_loop k (int (length A2 + length (list_toks b c (y # zs) (Suc c) d (Suc o2))))
      \<lparr>ts_offset = int (length A2), ts_tokens = tokens\<rparr> = Inr (item_slices (y # zs) (Suc c) d (Suc o2))"
  proof (rule "3.IH"(2))
    show "\<forall>(s, T) \<in> set (y # zs). \<forall>k d off. T k d off \<noteq> []" using "3.prems"(1) by simp
    show "tokens = A2 @ shift_token n cm
        # map (shift_token (int c - int (length A2))) (list_toks b c (y # zs) (Suc c) d (Suc o2)) @ R"
      using tk n2 by simp
    show "tk_linkNext (shift_token n cm) = int (first_link (y # zs) (Suc c) d (Suc o2)) - (int c - int (length A2))"
      using link n2 by simp
    show "length (y # zs) \<le> k" using "3.prems"(4) k by simp
  qed
  have "subTokenString \<lparr>ts_offset = int (length A), ts_tokens = tokens\<rparr> (int (length A) + 1)
      (int (length A2)) = TokenString (map (shift_token (int (Suc j))) ?ts)"
    using tk sub_slice [of tokens "A @ [sep]" n ?ts] by (simp add: n_def A2_def add.commute)
  moreover have "peek \<lparr>ts_offset = int (length A), ts_tokens = tokens\<rparr> = Inr sep"
    using tk peek_nth [of "length A" tokens] by (simp add: A2_def)
  moreover have "tk_linkNext sep = int (length A2)"
    using "3.prems"(3) x by (simp add: first_link_def A2_def)
  moreover have "int (length A) < int (length A2 + length (list_toks b c (y # zs) (Suc c) d (Suc o2))) - 1"
  proof -
    have "0 < int (length ?ts)" using "3.prems"(1) x by simp
    then have "0 < int (length ?ts) + int (length (list_toks b c (y # zs) (Suc c) d (Suc o2)))" by linarith
    then show ?thesis by (simp add: A2_def)
  qed
  ultimately have step: "params_loop (Suc k) (int (length A2 + length (list_toks b c (y # zs) (Suc c) d (Suc o2))))
      \<lparr>ts_offset = int (length A), ts_tokens = tokens\<rparr>
      = Inr (TokenString (map (shift_token (int (Suc j))) ?ts) # item_slices (y # zs) (Suc c) d (Suc o2))"
    using rest by (subst params_loop.simps) (simp del: list_toks.simps item_slices.simps)
  have "length A + length (list_toks b j (x # y # zs) (Suc j) d off)
      = length A2 + length (list_toks b c (y # zs) (Suc c) d (Suc o2))"
    using x by (simp add: A2_def c_def o2_def Let_def)
  moreover have "item_slices (x # y # zs) (Suc j) d off
      = TokenString (map (shift_token (int (Suc j))) ?ts) # item_slices (y # zs) (Suc c) d (Suc o2)"
    using x by (simp add: c_def o2_def Let_def)
  ultimately show ?case using step k by (simp only:)
qed

lemma length_list_toks: "length items \<le> length (list_toks b j items k d off)"
proof (induction items arbitrary: j k off rule: induct_list012)
  case (3 x y zs)
  then show ?case by (cases x) (simp add: Let_def trans_le_add2)
qed auto

lemma length_paren_toks: "length (paren_toks items k d off) = Suc (length (list_toks k k items (Suc k) d (Suc off)))"
  by (simp add: paren_toks_def Let_def)

lemma popParams_paren:
  assumes "\<forall>(s, T) \<in> set items. \<forall>k d off. T k d off \<noteq> []"
    and "tokens = A @ map (shift_token (int k - int (length A))) (paren_toks items k d off) @ R"
  shows "popParams \<lparr>ts_offset = int (length A), ts_tokens = tokens\<rparr> =
    Inr (item_slices items (Suc k) d (Suc off),
         \<lparr>ts_offset = int (length A + length (paren_toks items k d off)), ts_tokens = tokens\<rparr>)"
proof -
  define n where "n = int k - int (length A)"
  let ?rest = "list_toks k k items (Suc k) d (Suc off)"
  define op where "op = shift_token n (hd (paren_toks items k d off))"
  have tk: "tokens = A @ op # map (shift_token n) ?rest @ R"
    using assms(2) by (simp add: op_def n_def paren_toks_def Let_def)
  have op: "tk_type op = OPEN_PAREN" "tk_match op = int (length A + length ?rest)"
    "tk_linkNext op = int (first_link items (Suc k) d (Suc off)) - n"
    by (simp_all add: op_def n_def paren_toks_def Let_def shift_token_def leaf_def)
  have "length items \<le> length tokens" using length_list_toks [of items k k "Suc k" d "Suc off"] tk by simp
  then have "params_loop (length tokens) (int (length A + length ?rest)) \<lparr>ts_offset = int (length A), ts_tokens = tokens\<rparr>
    = Inr (item_slices items (Suc k) d (Suc off))"
    using params_list [OF assms(1)] tk op(3) n_def by simp
  then show ?thesis
    using op tk peek_nth [of "length A" tokens] by (simp add: popParams_def length_paren_toks)
qed

end
