(* ===== verification/Fragments_Props.thy ===== *)
theory Fragments_Props
  imports Fragments Signature_Props
begin

text \<open>
  What a signature keeps when it is printed and read again. The bare form of a
  \<open>ParamType\<close> has its names and modifiers dropped and its types spelled out; it is what
  the selector of a function and the topic of an event are computed from.
\<close>

section \<open>Well-formed types\<close>

definition basic_type :: "string \<Rightarrow> bool" where
  "basic_type t \<longleftrightarrow> regexId t \<and> word_type t = TYPE_NAME \<and> verifyBasicType t = Inr t"

fun wf_param :: "param_type \<Rightarrow> bool" where
  "wf_param (ParamType name type baseType indexed components arrayLength arrayChildren) \<longleftrightarrow>
     (if baseType = ''array''
      then components = None \<and> (case arrayLength of None \<Rightarrow> False | Some n \<Rightarrow> -1 \<le> n \<and> n \<le> maxValue)
           \<and> (case arrayChildren of None \<Rightarrow> False | Some c \<Rightarrow> wf_param c \<and> pt_name c = [] \<and> pt_indexed c = None)
      else if baseType = ''tuple''
      then arrayLength = None \<and> arrayChildren = None
           \<and> (case components of None \<Rightarrow> False | Some cs \<Rightarrow> list_all wf_param cs)
      else components = None \<and> arrayLength = None \<and> arrayChildren = None \<and> type = baseType \<and> basic_type type)"

fun bare :: "param_type \<Rightarrow> param_type" where
  "bare (ParamType name type baseType indexed components arrayLength arrayChildren) =
     (if baseType = ''array''
      then (let b = map_option bare arrayChildren
            in ParamType [] ((case b of None \<Rightarrow> [] | Some c \<Rightarrow> pt_type c) @ array_suffix arrayLength) baseType None None arrayLength b)
      else if baseType = ''tuple''
      then (let bs = map_option (map bare) components
            in ParamType [] (case bs of None \<Rightarrow> type | Some cs \<Rightarrow> tuple_type cs) baseType None bs None None)
      else ParamType [] type baseType None None None None)"

fun ptoks :: "param_type \<Rightarrow> tokens_at" where
  "ptoks (ParamType name type baseType indexed components arrayLength arrayChildren) =
     (if baseType = ''array''
      then (\<lambda>k d off. case arrayChildren of
              None \<Rightarrow> []
            | Some c \<Rightarrow> ptoks c k d off
                @ [bracket d (off + length (ParamType_format Sighash c)) (case arrayLength of None \<Rightarrow> 0 | Some n \<Rightarrow> n)
                     (array_suffix arrayLength)])
      else if baseType = ''tuple''
      then paren_toks (map (\<lambda>c. (ParamType_format Sighash c, ptoks c)) (case components of None \<Rightarrow> [] | Some cs \<Rightarrow> cs))
      else (\<lambda>k d off. [leaf d off TYPE_NAME type]))"

lemma wf_array:
  assumes "wf_param p" and "isArray p"
  obtains name type indexed n c where
    "p = ParamType name type ''array'' indexed None (Some n) (Some c)" "wf_param c" "pt_name c = []" "pt_indexed c = None"
    "-1 \<le> n" "n \<le> maxValue"
  using assms by (cases p) (auto simp: isArray_def split: option.splits)

lemma wf_tuple:
  assumes "wf_param p" and "isTuple p"
  obtains name type indexed cs where
    "p = ParamType name type ''tuple'' indexed (Some cs) None None" "list_all wf_param cs"
  using assms by (cases p) (auto simp: isTuple_def split: option.splits if_splits)

lemma wf_basic:
  assumes "wf_param p" and "\<not> isArray p" and "\<not> isTuple p"
  obtains name type indexed where "p = ParamType name type type indexed None None None" "basic_type type"
  using assms by (cases p) (auto simp: isTuple_def isArray_def split: if_splits)

text \<open>The three shapes as an induction rule.\<close>

lemma wf_param_induct [consumes 1, case_names Basic Array Tuple]:
  assumes "wf_param p"
    and "\<And>name type indexed. basic_type type \<Longrightarrow> type \<noteq> ''array'' \<Longrightarrow> type \<noteq> ''tuple'' \<Longrightarrow>
           P (ParamType name type type indexed None None None)"
    and "\<And>name type indexed n c. wf_param c \<Longrightarrow> P c \<Longrightarrow> pt_name c = [] \<Longrightarrow> pt_indexed c = None \<Longrightarrow> -1 \<le> n \<Longrightarrow>
           n \<le> maxValue \<Longrightarrow> P (ParamType name type ''array'' indexed None (Some n) (Some c))"
    and "\<And>name type indexed cs. list_all wf_param cs \<Longrightarrow> (\<And>c. c \<in> set cs \<Longrightarrow> P c) \<Longrightarrow>
           P (ParamType name type ''tuple'' indexed (Some cs) None None)"
  shows "P p"
  using assms(1)
proof (induction p rule: wf_param.induct)
  case (1 name type baseType indexed components arrayLength arrayChildren)
  let ?p = "ParamType name type baseType indexed components arrayLength arrayChildren"
  consider "isArray ?p" | "isTuple ?p" | "\<not> isArray ?p" "\<not> isTuple ?p" by blast
  then show ?case
  proof cases
    case 1
    from wf_array [OF "1.prems" this] obtain n c where *: "?p = ParamType name type ''array'' indexed None (Some n) (Some c)"
      "wf_param c" "pt_name c = []" "pt_indexed c = None" "-1 \<le> n" "n \<le> maxValue" by (metis param_type.inject)
    have "P c" using "1.IH"(1) * by auto
    then show ?thesis using assms(3) * by simp
  next
    case 2
    from wf_tuple [OF "1.prems" this] obtain cs where *: "?p = ParamType name type ''tuple'' indexed (Some cs) None None"
      "list_all wf_param cs" by (metis param_type.inject)
    have "P c" if "c \<in> set cs" for c using "1.IH"(2) * that by (auto simp: list_all_iff)
    then show ?thesis using assms(4) * by simp
  next
    case 3
    from wf_basic [OF "1.prems" this] obtain t where *: "?p = ParamType name t t indexed None None None" "basic_type t"
      by (metis param_type.inject)
    then show ?thesis using assms(2) [of t name indexed] 3 by (simp add: isArray_def isTuple_def)
  qed
qed

section \<open>Lexing a printed type\<close>

lemma getNumber_toString: "0 \<le> n \<Longrightarrow> n \<le> maxValue \<Longrightarrow> getNumber (DStr (int_toString 10 n)) = Inr n"
proof -
  assume n: "0 \<le> n" "n \<le> maxValue"
  then have "int_toString 10 n \<noteq> []" by (simp add: int_toString_def)
  moreover have "safe_range n" using n by (simp add: safe_range_def maxValue_def)
  ultimately show ?thesis by (simp add: js_BigInt_int getNumber_bigint_def)
qed

lemma lexes_suffix:
  assumes "-1 \<le> n" "n \<le> maxValue"
  shows "lexes (array_suffix (Some n)) (\<lambda>k d off. [bracket d off n (array_suffix (Some n))])"
proof (cases "n < 0")
  case True
  with assms have "n = -1" by simp
  then show ?thesis using lexes_bracket_empty by (simp add: array_suffix_def)
next
  case False
  then have d: "list_all is_digit10 (int_toString 10 n)" "int_toString 10 n \<noteq> []"
    using is_digit10_toString [of "nat n"] by (simp_all add: int_toString_def)
  from lexes_bracket_number [OF d getNumber_toString] False assms show ?thesis by (simp add: array_suffix_def)
qed

lemma format_sighash [simp]:
  "ParamType_format Sighash (ParamType name type ''array'' indexed cs len (Some c)) =
     ParamType_format Sighash c @ array_suffix len"
  "ParamType_format Sighash (ParamType name type ''tuple'' indexed (Some ps) len ch) =
     paren_text (map (ParamType_format Sighash) ps)"
  "t \<noteq> ''array'' \<Longrightarrow> t \<noteq> ''tuple'' \<Longrightarrow> ParamType_format Sighash (ParamType name t t indexed cs len ch) = t"
  by (simp_all add: format_tail_def paren_text_def separator_def)

declare ParamType_format.simps [simp del]

lemma array_suffix_delim [simp]: "delim (array_suffix l)" "array_suffix l \<noteq> []"
  by (simp_all add: array_suffix_def)

lemma lexes_param: "wf_param p \<Longrightarrow> lexes (ParamType_format Sighash p) (ptoks p)"
proof (induction p rule: wf_param_induct)
  case (Basic name t indexed)
  then have "regexId t" "word_type t = TYPE_NAME" by (simp_all add: basic_type_def)
  then show ?case using lexes_word [of t] Basic by simp
next
  case (Array name t indexed n c)
  then show ?case using lexes_append [OF Array.IH lexes_suffix [of n]] by simp
next
  case (Tuple name t indexed cs)
  then show ?case using lexes_paren [of "map (\<lambda>c. (ParamType_format Sighash c, ptoks c)) cs"] by (simp add: o_def)
qed

lemma ptoks_nonempty: "wf_param p \<Longrightarrow> ptoks p k d off \<noteq> []"
  by (induction p rule: wf_param_induct) (auto simp: paren_toks_def Let_def)

section \<open>Parsing the tokens of a printed type\<close>

text \<open>The cursor at the front, in the middle and at the end of its tokens.\<close>

lemma ts_length_simps [simp]:
  "ts_length \<lparr>ts_offset = i, ts_tokens = tokens\<rparr> = int (length tokens) - i"
  by (simp add: ts_length_def)

lemma peekType_nth:
  "i < length tokens \<Longrightarrow> peekType type \<lparr>ts_offset = int i, ts_tokens = tokens\<rparr> =
     Inr (if tk_type (tokens ! i) = type then Some (tk_text (tokens ! i)) else None)"
  by (simp add: peekType_def peek_nth)

lemma peekType_end [simp]:
  "peekType type \<lparr>ts_offset = int (length tokens), ts_tokens = tokens\<rparr> = Inr None"
  by (simp add: peekType_def)

lemma pop_nth:
  "i < length tokens \<Longrightarrow> pop \<lparr>ts_offset = int i, ts_tokens = tokens\<rparr> =
     Inr (tokens ! i, \<lparr>ts_offset = int (Suc i), ts_tokens = tokens\<rparr>)"
  by (simp add: pop_def peek_nth)

lemma consumeKeywords_none:
  "peekType KEYWORD obj = Inr None \<Longrightarrow> consumeKeywords allowed obj = Inr ([], obj)"
  by (simp add: consumeKeywords_def consumeKeywords_loop.simps)

definition shape_of :: "param_type \<Rightarrow> shape" where
  "shape_of p =
     \<lparr>sh_type = pt_type p, sh_baseType = pt_baseType p, sh_comps = pt_components p,
      sh_arrayLength = pt_arrayLength p, sh_arrayChildren = pt_arrayChildren p\<rparr>"

lemma shape_bare: "wf_param p \<Longrightarrow> shape_param [] None (shape_of (bare p)) = Inr (bare p)"
  by (induction p rule: wf_param_induct) (auto simp: shape_param_def shape_of_def new_ParamType_def Let_def)

lemma param_rest_end:
  "param_rest ai sh \<lparr>ts_offset = int (length tokens), ts_tokens = tokens\<rparr> = shape_param [] None sh"
  by (simp add: param_rest_def array_loop.simps consumeKeywords_none)

lemma param_rest_bracket:
  assumes "i < length tokens" and "tk_type (tokens ! i) = BRACKET" and "shape_param [] None sh = Inr child"
  shows "param_rest ai sh \<lparr>ts_offset = int i, ts_tokens = tokens\<rparr> =
    param_rest ai \<lparr>sh_type = sh_type sh @ tk_text (tokens ! i), sh_baseType = ''array'', sh_comps = None,
                    sh_arrayLength = Some (tk_value (tokens ! i)), sh_arrayChildren = Some child\<rparr>
      \<lparr>ts_offset = int (Suc i), ts_tokens = tokens\<rparr>"
  using assms by (simp add: param_rest_def array_loop.simps [of sh] peekType_nth pop_nth)

lemma mapM_item_slices:
  assumes "\<And>c k d off. c \<in> set cs \<Longrightarrow> f (TokenString (map (shift_token (int k)) (T c k d off))) = Inr (g c)"
  shows "mapM f (item_slices (map (\<lambda>c. (S c, T c)) cs) k d off) = Inr (map g cs)"
  using assms by (induction cs arbitrary: k off) (simp_all add: Let_def)

lemma shift_leaf [simp]:
  "tk_type (shift_token n t) = tk_type t" "tk_text (shift_token n t) = tk_text t" "tk_value (shift_token n t) = tk_value t"
  by (simp_all add: shift_token_def)

lemma leaf_simps [simp]: "tk_type (leaf d off ty s) = ty" "tk_text (leaf d off ty s) = s"
  by (simp_all add: leaf_def)

lemma bracket_simps [simp]:
  "tk_type (bracket d off n s) = BRACKET" "tk_text (bracket d off n s) = s" "tk_value (bracket d off n s) = n"
  by (simp_all add: bracket_def leaf_def)

lemma paren_toks_head: "\<exists>t ts. paren_toks items k d off = t # ts \<and> tk_type t = OPEN_PAREN \<and> tk_text t = ''(''"
  by (simp add: paren_toks_def Let_def leaf_def)

lemma tuple_tokens:
  assumes "\<forall>(s, T) \<in> set items. \<forall>k d off. T k d off \<noteq> []"
    and "mapM (\<lambda>t. ParamType_tokens t False) (item_slices items (Suc k) d (Suc off)) = Inr comps"
    and "tokens = map (shift_token (int k)) (paren_toks items k d off) @ R"
  shows "ParamType_tokens \<lparr>ts_offset = 0, ts_tokens = tokens\<rparr> ai =
    param_rest ai \<lparr>sh_type = tuple_type comps, sh_baseType = ''tuple'', sh_comps = Some comps,
                   sh_arrayLength = None, sh_arrayChildren = None\<rparr>
      \<lparr>ts_offset = int (length (paren_toks items k d off)), ts_tokens = tokens\<rparr>"
proof -
  obtain t ts where t: "tokens = t # ts" "tk_type t = OPEN_PAREN"
    using paren_toks_head [of items k d off] assms(3) by auto
  then have "peekType ty \<lparr>ts_offset = 0, ts_tokens = tokens\<rparr> = Inr (if ty = OPEN_PAREN then Some (tk_text t) else None)" for ty
    using peekType_nth [of 0 tokens] by auto
  moreover have "popParams \<lparr>ts_offset = 0, ts_tokens = tokens\<rparr> = Inr (item_slices items (Suc k) d (Suc off),
      \<lparr>ts_offset = int (length (paren_toks items k d off)), ts_tokens = tokens\<rparr>)"
    using popParams_paren [OF assms(1), of tokens "[]"] assms(3) by simp
  ultimately show ?thesis
    using assms(2) by (simp add: ParamType_tokens.simps [of "\<lparr>ts_offset = 0, ts_tokens = tokens\<rparr>"] consumeKeywords_none)
qed

lemma basic_tokens:
  assumes "basic_type t" and "tokens = leaf' # R" and "tk_type leaf' = TYPE_NAME" and "tk_text leaf' = t"
  shows "ParamType_tokens \<lparr>ts_offset = 0, ts_tokens = tokens\<rparr> ai =
    param_rest ai \<lparr>sh_type = t, sh_baseType = t, sh_comps = None, sh_arrayLength = None, sh_arrayChildren = None\<rparr>
      \<lparr>ts_offset = 1, ts_tokens = tokens\<rparr>"
proof -
  have "peekType ty \<lparr>ts_offset = 0, ts_tokens = tokens\<rparr> = Inr (if ty = TYPE_NAME then Some t else None)" for ty
    using peekType_nth [of 0 tokens] assms by auto
  moreover have "popType TYPE_NAME \<lparr>ts_offset = 0, ts_tokens = tokens\<rparr> = Inr (t, \<lparr>ts_offset = 1, ts_tokens = tokens\<rparr>)"
    using peek_nth [of 0 tokens] pop_nth [of 0 tokens] assms by (simp add: popType_def)
  moreover have "verifyBasicType t = Inr t" using assms(1) by (simp add: basic_type_def)
  ultimately show ?thesis
    by (simp add: ParamType_tokens.simps [of "\<lparr>ts_offset = 0, ts_tokens = tokens\<rparr>"] consumeKeywords_none)
qed

lemma param_tokens:
  "wf_param p \<Longrightarrow>
   ParamType_tokens \<lparr>ts_offset = 0, ts_tokens = map (shift_token (int k)) (ptoks p k d off) @ R\<rparr> ai =
   param_rest ai (shape_of (bare p))
     \<lparr>ts_offset = int (length (ptoks p k d off)), ts_tokens = map (shift_token (int k)) (ptoks p k d off) @ R\<rparr>"
proof (induction p arbitrary: k d off R ai rule: wf_param_induct)
  case (Basic name t indexed)
  then show ?case by (simp add: basic_tokens [of t] shape_of_def)
next
  case (Array name t indexed n c)
  let ?c = "map (shift_token (int k)) (ptoks c k d off)"
  let ?b = "shift_token (int k) (bracket d (off + length (ParamType_format Sighash c)) n (array_suffix (Some n)))"
  have "ParamType_tokens \<lparr>ts_offset = 0, ts_tokens = ?c @ ?b # R\<rparr> ai =
      param_rest ai (shape_of (bare c)) \<lparr>ts_offset = int (length (ptoks c k d off)), ts_tokens = ?c @ ?b # R\<rparr>"
    by (rule Array.IH)
  also have "\<dots> = param_rest ai (shape_of (bare (ParamType name t ''array'' indexed None (Some n) (Some c))))
      \<lparr>ts_offset = int (Suc (length (ptoks c k d off))), ts_tokens = ?c @ ?b # R\<rparr>"
    using param_rest_bracket [of "length (ptoks c k d off)" "?c @ ?b # R" _ "bare c" ai, OF _ _ shape_bare [OF Array.hyps(1)]]
    by (simp add: shape_of_def nth_append Let_def)
  finally show ?case by simp
next
  case (Tuple name t indexed cs)
  let ?items = "map (\<lambda>c. (ParamType_format Sighash c, ptoks c)) cs"
  have "ParamType_tokens (TokenString (map (shift_token (int k)) (ptoks c k d off))) False = Inr (bare c)"
    if "c \<in> set cs" for c k d off
    using Tuple.IH [OF that, of k d off "[]" False] shape_bare [of c] that Tuple.hyps
      param_rest_end [of False "shape_of (bare c)" "map (shift_token (int k)) (ptoks c k d off)"]
    by (simp add: TokenString_def list_all_iff)
  then have "mapM (\<lambda>t. ParamType_tokens t False) (item_slices ?items (Suc k) d (Suc off)) = Inr (map bare cs)"
    by (rule mapM_item_slices)
  then show ?case
    using tuple_tokens [of ?items k d off "map bare cs"] Tuple.hyps by (simp add: shape_of_def Let_def ptoks_nonempty list_all_iff)
qed

section \<open>What the parser returns is well-formed\<close>

text \<open>Every token of a text: a type name names a type, a name is an identifier and no word of the language, and a value is a length or -1.\<close>

definition good_token :: "token \<Rightarrow> bool" where
  "good_token t \<longleftrightarrow>
     (tk_type t = TYPE_NAME \<longrightarrow> regexId (tk_text t) \<and> word_type (tk_text t) = TYPE_NAME)
     \<and> (tk_type t = ID \<longrightarrow> regexId (tk_text t) \<and> word_type (tk_text t) = ID)
     \<and> (tk_type t = NUMBER \<longrightarrow> list_all is_digit10 (tk_text t) \<and> tk_text t \<noteq> [])
     \<and> -1 \<le> tk_value t \<and> tk_value t \<le> maxValue"

definition good_tokens :: "token list \<Rightarrow> bool" where
  "good_tokens ts \<longleftrightarrow> (\<forall>t \<in> set ts. good_token t)"

lemma good_tokens_simps [simp]:
  "good_tokens []" "good_tokens (t # ts) \<longleftrightarrow> good_token t \<and> good_tokens ts"
  "good_tokens (ts @ us) \<longleftrightarrow> good_tokens ts \<and> good_tokens us"
  by (auto simp: good_tokens_def)

lemma good_update: "good_tokens ts \<Longrightarrow> (i < length ts \<Longrightarrow> good_token t) \<Longrightarrow> good_tokens (ts[i := t])"
  by (cases "i < length ts") (auto simp: good_tokens_def list_update_beyond dest!: set_update_subset_insert [THEN subsetD])

lemma good_nth: "good_tokens ts \<Longrightarrow> i < length ts \<Longrightarrow> good_token (ts ! i)"
  by (simp add: good_tokens_def)

lemma good_butlast: "good_tokens ts \<Longrightarrow> good_tokens (butlast ts)"
  by (auto simp: good_tokens_def dest: in_set_butlastD)

lemma good_last: "good_tokens ts \<Longrightarrow> ts \<noteq> [] \<Longrightarrow> good_token (last ts)"
  by (simp add: good_tokens_def)

lemma good_links [simp]:
  "good_token (t\<lparr>tk_match := n\<rparr>) = good_token t" "good_token (t\<lparr>tk_linkBack := n\<rparr>) = good_token t"
  "good_token (t\<lparr>tk_linkNext := n\<rparr>) = good_token t" "good_token (t\<lparr>tk_depth := n\<rparr>) = good_token t"
  "good_token (shift_token n t) = good_token t"
  by (simp_all add: good_token_def shift_token_def)

lemma good_upd:
  "good_tokens (lx_tokens lx) \<Longrightarrow> (\<And>t. good_token (f t) = good_token t) \<Longrightarrow> good_tokens (lx_tokens (upd_token i f lx))"
  by (auto simp: upd_token_def intro: good_update good_nth)

lemma good_link_comma: "link_comma lx = Inr lx' \<Longrightarrow> good_tokens (lx_tokens lx) \<Longrightarrow> good_tokens (lx_tokens lx')"
  by (auto simp: link_comma_def not_an_object_def split: list.splits intro!: good_upd)

lemma getNumber_nonneg: "list_all is_digit10 ds \<Longrightarrow> ds \<noteq> [] \<Longrightarrow> getNumber (DStr ds) = Inr n \<Longrightarrow> 0 \<le> n \<and> n \<le> maxValue"
  by (auto simp: js_BigInt_dec getNumber_bigint_def safe_range_def split: sum.splits)

lemma getNumber_text_bound: "getNumber (DStr s) = Inr n \<Longrightarrow> n \<le> maxValue"
  by (auto simp: getNumber_bigint_def safe_range_def split: sum.splits option.splits if_splits)

lemma good_close_bracket:
  assumes "close_bracket lx = Inr lx'" and "good_tokens (lx_tokens lx)"
  shows "good_tokens (lx_tokens lx')"
proof -
  define ts where "ts = butlast (lx_tokens lx)"
  define sf where "sf = tk_text (last (lx_tokens lx))"
  have g: "good_tokens ts" using assms(2) by (simp add: ts_def good_butlast)
  have merge: "good_tokens (us[length us - 1 := (last us)\<lparr>tk_text := x\<rparr>])"
    if "good_tokens us" "us \<noteq> []" "tk_type (last us) = BRACKET" for us x
    using good_last [OF that(1,2)] that(3) by (intro good_update that(1)) (simp add: good_token_def)
  show ?thesis
  proof (cases "ts \<noteq> [] \<and> tk_type (last ts) = NUMBER")
    case True
    define us where "us = butlast ts"
    have us: "good_tokens us" using g by (simp add: us_def good_butlast)
    obtain n where n: "getNumber (DStr (tk_text (last ts))) = Inr n" and ne: "us \<noteq> []"
      using assms(1) True by (auto simp: close_bracket_def Let_def us_def ts_def not_an_object_def split: if_splits)
    have r: "0 \<le> n" "n \<le> maxValue"
      using good_last [OF g] True n getNumber_nonneg [OF _ _ n] by (auto simp: good_token_def)
    define vs where "vs = us[length us - 1 := (last us)\<lparr>tk_value := n\<rparr>]"
    have vs: "good_tokens vs" "vs \<noteq> []"
      using good_last [OF us ne] r us ne by (auto simp: vs_def good_token_def intro!: good_update)
    have "lx_tokens lx' = vs[length vs - 1 := (last vs)\<lparr>tk_text := tk_text (last vs) @ tk_text (last ts) @ sf\<rparr>]"
      and "tk_type (last vs) = BRACKET"
      using assms(1) True n ne
      by (auto simp: close_bracket_def Let_def us_def ts_def sf_def vs_def not_an_object_def syntax_token_def split: if_splits)
    then show ?thesis using merge vs by simp
  next
    case False
    then have "lx_tokens lx' = ts[length ts - 1 := (last ts)\<lparr>tk_text := tk_text (last ts) @ sf\<rparr>]"
      and "ts \<noteq> []" "tk_type (last ts) = BRACKET"
      using assms(1) by (auto simp: close_bracket_def Let_def ts_def sf_def syntax_token_def split: if_splits)
    then show ?thesis using merge g by simp
  qed
qed

lemma good_simple_token:
  assumes "simple_token type lx = Inr lx'" and "good_tokens (lx_tokens lx)"
  shows "good_tokens (lx_tokens lx')"
  using assms
proof (cases type)
  case CLOSE_PAREN
  with assms show ?thesis
    by (auto simp: simple_token_def close_paren_def syntax_token_def split: list.splits
        dest!: good_link_comma intro!: good_upd)
next
  case COMMA
  with assms show ?thesis by (auto simp: simple_token_def comma_def dest!: good_link_comma)
next
  case CLOSE_BRACKET
  with assms show ?thesis using good_close_bracket by (simp add: simple_token_def)
qed (auto simp: simple_token_def open_paren_def)

lemma idPrefix_regexId: "idPrefix s \<noteq> [] \<Longrightarrow> regexId (idPrefix s)"
  by (cases s) (auto simp: regexId_def idPrefix_def split: if_splits)

lemma numberPrefix_digits: "list_all is_digit10 (numberPrefix s)"
  by (auto simp: numberPrefix_def list_all_iff dest: set_takeWhileD)

lemma good_new:
  "good_token (new_token lx off type text) \<longleftrightarrow>
     (type = TYPE_NAME \<longrightarrow> regexId text \<and> word_type text = TYPE_NAME)
     \<and> (type = ID \<longrightarrow> regexId text \<and> word_type text = ID)
     \<and> (type = NUMBER \<longrightarrow> list_all is_digit10 text \<and> text \<noteq> [])"
  by (simp add: good_token_def new_token_def maxValue_def)

lemma word_not_number: "word_type w \<noteq> NUMBER"
  by (simp add: word_type_def)

lemma simple_kind: "SimpleTokens c = Some type \<Longrightarrow> type \<noteq> TYPE_NAME \<and> type \<noteq> NUMBER \<and> type \<noteq> ID"
  by (auto simp: SimpleTokens_def split: if_splits)

lemma good_lex_token:
  "lex_token cur off lx = Inr (w, lx') \<Longrightarrow> good_tokens (lx_tokens lx) \<Longrightarrow> good_tokens (lx_tokens lx')"
  by (auto simp: lex_token_def syntax_token_def push_token_def good_new word_not_number idPrefix_regexId
      numberPrefix_digits split: list.splits option.splits if_splits dest!: good_simple_token dest: simple_kind)

lemma good_lex_loop: "lex_loop s off lx = Inr lx' \<Longrightarrow> good_tokens (lx_tokens lx) \<Longrightarrow> good_tokens (lx_tokens lx')"
proof (induction s off lx rule: lex_loop.induct)
  case (1 s off lx)
  show ?case
  proof (cases "s = []")
    case False
    define cur where "cur = dropWhile is_js_space s"
    obtain w lx1 where t: "lex_token cur (off + (length s - length cur)) lx = Inr (w, lx1)"
      and r: "lex_loop (drop (length w) cur) (off + (length s - length cur) + length w) lx1 = Inr lx'"
      using "1.prems"(1) False by (subst (asm) lex_loop.simps) (auto simp: Let_def cur_def)
    from "1.IH" [OF False cur_def refl t refl r] good_lex_token [OF t "1.prems"(2)] show ?thesis by blast
  qed (use 1 in \<open>simp add: lex_loop.simps\<close>)
qed

lemma good_lex: "lex s = Inr ts \<Longrightarrow> good_tokens (ts_tokens ts)"
  by (auto simp: lex_def TokenString_def dest!: good_lex_loop)

text \<open>The parsers only move the cursor, and slices of good tokens are good.\<close>

lemma good_js_slice: "good_tokens ts \<Longrightarrow> good_tokens (js_slice ts i j)"
  by (auto simp: good_tokens_def js_slice_def Let_def dest!: in_set_takeD in_set_dropD)

lemma good_sub: "good_tokens (ts_tokens ts) \<Longrightarrow> good_tokens (ts_tokens (subTokenString ts a b))"
  using good_js_slice [of "ts_tokens ts" a b] by (auto simp: subTokenString_def TokenString_def good_tokens_def)

lemma good_params_loop:
  "params_loop fuel stop ts = Inr items \<Longrightarrow> good_tokens (ts_tokens ts) \<Longrightarrow> t \<in> set items \<Longrightarrow> good_tokens (ts_tokens t)"
proof (induction fuel stop ts arbitrary: items rule: params_loop.induct)
  case (1 fuel stop ts)
  show ?case
  proof (cases "ts_offset ts < stop - 1")
    case True
    with "1.prems"(1) obtain k tk rest where k: "fuel = Suc k" and tk: "peek ts = Inr tk"
      and rest: "params_loop k stop (ts\<lparr>ts_offset := tk_linkNext tk\<rparr>) = Inr rest"
      and items: "items = subTokenString ts (ts_offset ts + 1) (tk_linkNext tk) # rest"
      by (auto simp: params_loop.simps [of fuel] Let_def split: nat.splits)
    then show ?thesis using "1.IH" [OF True k tk refl rest] "1.prems"(2,3) good_sub by auto
  next
    case False
    then show ?thesis using "1.prems" by (simp add: params_loop.simps [of fuel])
  qed
qed

lemma good_popParams:
  "popParams ts = Inr (items, ts') \<Longrightarrow> good_tokens (ts_tokens ts) \<Longrightarrow> t \<in> set items \<Longrightarrow> good_tokens (ts_tokens t)"
  by (auto simp: popParams_def syntax_token_def split: if_splits dest: good_params_loop)

lemma popParams_tokens: "popParams ts = Inr (items, ts') \<Longrightarrow> ts_tokens ts' = ts_tokens ts"
  by (auto simp: popParams_def syntax_token_def split: if_splits)

lemma good_peek: "peek ts = Inr t \<Longrightarrow> good_tokens (ts_tokens ts) \<Longrightarrow> good_token t"
  by (auto simp: peek_def syntax_token_def not_an_object_def good_tokens_def split: if_splits)

lemma good_pop: "pop ts = Inr (t, ts') \<Longrightarrow> good_tokens (ts_tokens ts) \<Longrightarrow> good_token t"
  by (auto simp: pop_def dest: good_peek)

lemma popType_good:
  "popType ty ts = Inr (s, ts') \<Longrightarrow> good_tokens (ts_tokens ts) \<Longrightarrow>
   ts_tokens ts' = ts_tokens ts \<and> (\<exists>t. good_token t \<and> tk_type t = ty \<and> s = tk_text t)"
proof -
  assume p: "popType ty ts = Inr (s, ts')" and g: "good_tokens (ts_tokens ts)"
  obtain t where t: "peek ts = Inr t" using p by (cases "peek ts") (simp_all add: popType_def)
  then have "tk_type t = ty \<and> s = tk_text t \<and> ts_tokens ts' = ts_tokens ts"
    using p by (cases "tk_type t = ty") (auto simp: popType_def pop_def syntax_token_def)
  with good_peek [OF t g] show ?thesis by blast
qed

definition wf_shape :: "shape \<Rightarrow> bool" where
  "wf_shape sh \<longleftrightarrow>
     wf_param (ParamType [] (sh_type sh) (sh_baseType sh) None (sh_comps sh) (sh_arrayLength sh) (sh_arrayChildren sh))"

lemma wf_shape_param: "wf_shape sh \<Longrightarrow> shape_param name indexed sh = Inr p \<Longrightarrow> wf_param p \<and> pt_name p = name \<and> pt_indexed p = indexed"
  by (auto simp: wf_shape_def shape_param_def new_ParamType_def plain_error_def split: if_splits)

lemma wf_array_loop:
  "array_loop sh obj = Inr (sh', obj') \<Longrightarrow> wf_shape sh \<Longrightarrow> good_tokens (ts_tokens obj) \<Longrightarrow> wf_shape sh'"
proof (induction sh obj rule: array_loop.induct)
  case (1 sh obj)
  obtain b where b: "peekType BRACKET obj = Inr b"
    using "1.prems"(1) by (subst (asm) array_loop.simps) auto
  show ?case
  proof (cases b)
    case None
    then show ?thesis using "1.prems" b by (simp add: array_loop.simps [of sh])
  next
    case (Some x)
    then obtain bk obj1 child where p: "pop obj = Inr (bk, obj1)" and c: "shape_param [] None sh = Inr child"
      and l: "array_loop \<lparr>sh_type = sh_type sh @ tk_text bk, sh_baseType = ''array'', sh_comps = None,
                sh_arrayLength = Some (tk_value bk), sh_arrayChildren = Some child\<rparr> obj1 = Inr (sh', obj')"
      using "1.prems"(1) b by (subst (asm) array_loop.simps) auto
    have "wf_shape \<lparr>sh_type = sh_type sh @ tk_text bk, sh_baseType = ''array'', sh_comps = None,
                sh_arrayLength = Some (tk_value bk), sh_arrayChildren = Some child\<rparr>"
      using wf_shape_param [OF "1.prems"(2) c] good_pop [OF p "1.prems"(3)] by (simp add: wf_shape_def good_token_def)
    then show ?thesis using "1.IH" [OF b _ p refl c l] Some p "1.prems"(3) by auto
  qed
qed

lemma wf_param_rest:
  "param_rest ai sh obj = Inr p \<Longrightarrow> wf_shape sh \<Longrightarrow> good_tokens (ts_tokens obj) \<Longrightarrow> wf_param p"
proof -
  assume r: "param_rest ai sh obj = Inr p" and w: "wf_shape sh" and g: "good_tokens (ts_tokens obj)"
  from r obtain sh' obj' name indexed where a: "array_loop sh obj = Inr (sh', obj')"
    and p: "shape_param name indexed sh' = Inr p"
    by (auto simp: param_rest_def syntax_token_def split: if_splits prod.splits)
  from wf_shape_param [OF wf_array_loop [OF a w g] p] show ?thesis by blast
qed

lemma basic_type_verified:
  assumes "regexId t" "word_type t = TYPE_NAME" "verifyBasicType t = Inr u"
  shows "basic_type u"
proof -
  have "basic_type ''uint256''" "basic_type ''int256''" by code_simp+
  moreover have "u = t \<or> u = ''uint256'' \<or> u = ''int256''"
    using assms(3) by (auto simp: verifyBasicType_def split: option.splits if_splits)
  ultimately show ?thesis using assms by (auto simp: basic_type_def)
qed

lemma basic_not_composite: "basic_type t \<Longrightarrow> t \<noteq> ''array'' \<and> t \<noteq> ''tuple''"
proof -
  have "\<not> basic_type ''array''" "\<not> basic_type ''tuple''" by code_simp+
  then show "basic_type t \<Longrightarrow> t \<noteq> ''array'' \<and> t \<noteq> ''tuple''" by auto
qed

lemma wf_ParamType_tokens:
  "ParamType_tokens obj ai = Inr p \<Longrightarrow> good_tokens (ts_tokens obj) \<Longrightarrow> wf_param p"
proof (induction obj ai arbitrary: p rule: ParamType_tokens.induct)
  case (1 obj ai)
  obtain kws obj1 where k: "consumeKeywords [''tuple''] obj = Inr (kws, obj1)"
    using "1.prems"(1) by (subst (asm) ParamType_tokens.simps) auto
  obtain tup where tup: "(if ''tuple'' \<in> set kws then Inr True else mapE (\<lambda>p. p \<noteq> None) (peekType OPEN_PAREN obj1)) = Inr tup"
    using "1.prems"(1) k by (subst (asm) ParamType_tokens.simps) auto
  have g1: "good_tokens (ts_tokens obj1)" using consumeKeywords_tokens [OF k] "1.prems"(2) by simp
  show ?case
  proof (cases tup)
    case True
    then obtain items obj2 comps where pp: "popParams obj1 = Inr (items, obj2)"
      and m: "mapM (\<lambda>t. ParamType_tokens t False) items = Inr comps"
      and r: "param_rest ai \<lparr>sh_type = tuple_type comps, sh_baseType = ''tuple'', sh_comps = Some comps,
                 sh_arrayLength = None, sh_arrayChildren = None\<rparr> obj2 = Inr p"
      using "1.prems"(1) k tup by (subst (asm) ParamType_tokens.simps) auto
    have "wf_param c" if "(t, c) \<in> set (zip items comps)" for t c
    proof -
      from m that have "ParamType_tokens t False = Inr c" by (auto simp: mapM_eq_Inr list_all2_iff)
      then show ?thesis
        using "1.IH" [OF k refl tup True pp refl] that good_popParams [OF pp g1] by (auto dest: set_zip_leftD)
    qed
    then have "list_all wf_param comps"
      using length_mapM [OF m] by (metis (no_types, lifting) Ball_set in_set_impl_in_set_zip2)
    then show ?thesis
      using wf_param_rest [OF r] popParams_tokens [OF pp] g1 by (simp add: wf_shape_def)
  next
    case False
    then obtain t obj2 u where pt: "popType TYPE_NAME obj1 = Inr (t, obj2)" and u: "verifyBasicType t = Inr u"
      and r: "param_rest ai \<lparr>sh_type = u, sh_baseType = u, sh_comps = None,
                 sh_arrayLength = None, sh_arrayChildren = None\<rparr> obj2 = Inr p"
      using "1.prems"(1) k tup by (subst (asm) ParamType_tokens.simps) auto
    from popType_good [OF pt g1] have t: "regexId t" "word_type t = TYPE_NAME" and g2: "good_tokens (ts_tokens obj2)"
      using g1 by (auto simp: good_token_def)
    from basic_type_verified [OF t u] have "basic_type u" .
    then show ?thesis using wf_param_rest [OF r _ g2] basic_not_composite by (simp add: wf_shape_def)
  qed
qed

lemma wf_ParamType_string: "ParamType_string s ai = Inr p \<Longrightarrow> wf_param p"
  by (auto simp: ParamType_string_def dest: wf_ParamType_tokens good_lex)

section \<open>Properties\<close>

lemma ParamType_of_lexes:
  assumes "wf_param p"
  shows "ParamType_string (ParamType_format Sighash p) ai = Inr (bare p)"
proof -
  let ?ts = "ptoks p 0 0 0"
  have "lex (ParamType_format Sighash p) = Inr (TokenString ?ts)"
    using lexesD [OF lexes_param [OF assms], of "[]" 0 "\<lparr>lx_tokens = [], lx_brackets = [], lx_commas = []\<rparr>"]
    by (simp add: lex_def lex_loop.simps [of "[]"])
  moreover have "map (shift_token 0) ?ts = ?ts" by (simp add: shift_token_def map_idI)
  ultimately show ?thesis
    using param_tokens [OF assms, of 0 0 0 "[]" ai] param_rest_end [of ai "shape_of (bare p)" ?ts] shape_bare [OF assms]
    by (simp add: ParamType_string_def TokenString_def)
qed

lemma format_bare: "wf_param p \<Longrightarrow> ParamType_format Sighash (bare p) = ParamType_format Sighash p"
  by (induction p rule: wf_param_induct) (auto simp: Let_def paren_text_def cong: map_cong)

text \<open>
  C24. The selector text of a type is canonical: whatever text a \<open>ParamType\<close> was read
  from, with nested tuples, array suffixes, names and white space, the text that it
  prints for a selector reads back as its bare form, which prints the same text again.
\<close>

theorem sighash_canonical:
  assumes "ParamType_string text ai = Inr p"
  shows "ParamType_string (ParamType_format Sighash p) False = Inr (bare p)
    \<and> ParamType_format Sighash (bare p) = ParamType_format Sighash p"
  using ParamType_of_lexes [OF wf_ParamType_string [OF assms]] format_bare [OF wf_ParamType_string [OF assms]] by blast

lemma example_signature:
  "ParamType_string ''tuple(uint a,  (address[3][] b, bytes8)[2] c) indexed foo'' True =
   Inr (ParamType ''foo'' ''tuple(uint256,(address[3][],bytes8)[2])'' ''tuple'' (Some True)
     (Some [ParamType ''a'' ''uint256'' ''uint256'' None None None None,
            ParamType ''c'' ''tuple(address[3][],bytes8)[2]'' ''array'' None None (Some 2)
              (Some (ParamType [] ''tuple(address[3][],bytes8)'' ''tuple'' None
                (Some [ParamType ''b'' ''address[3][]'' ''array'' None None (Some (-1))
                         (Some (ParamType [] ''address[3]'' ''array'' None None (Some 3)
                           (Some (ParamType [] ''address'' ''address'' None None None None)))),
                       ParamType [] ''bytes8'' ''bytes8'' None None None None]) None None))]) None None)"
  by code_simp

lemma sighash_canonical_witness:
  "ParamType_string ''(uint256,(address[3][],bytes8)[2])'' False =
   Inr (bare (projr (ParamType_string ''tuple(uint a,  (address[3][] b, bytes8)[2] c) indexed foo'' True)))"
proof -
  have "ParamType_format Sighash (projr (ParamType_string ''tuple(uint a,  (address[3][] b, bytes8)[2] c) indexed foo'' True)) =
    ''(uint256,(address[3][],bytes8)[2])''"
    unfolding example_signature by code_simp
  with sighash_canonical [OF example_signature] show ?thesis unfolding example_signature by simp
qed

text \<open>The coder of a basic type exists.\<close>

lemma dec_value_256: "dec_value ''256'' = 256"
  by code_simp

lemma getCoder_basic:
  assumes "basic_type t"
  shows "\<exists>c. getCoder_simple name t t = Inr c"
proof -
  obtain g h where r: "regexType t = Some (g, h)" and v: "verifyBasicType t = Inr t"
    using assms by (auto simp: basic_type_def verifyBasicType_def split: option.splits)
  consider "t = ''address'' \<or> t = ''bool'' \<or> t = ''string''"
    | "take 5 t = ''bytes''" "list_all is_digit10 (drop 5 t)" "g = Some (drop 5 t)" "h = None"
    | "take 3 t = ''int''" "list_all is_digit10 (drop 3 t)" "g = None" "h = Some (drop 3 t)"
    | "take 4 t = ''uint''" "list_all is_digit10 (drop 4 t)" "g = None" "h = Some (drop 4 t)"
    using r by (auto simp: regexType_def split: if_splits)
  then show ?thesis
  proof cases
    case 1
    then show ?thesis by (auto simp: getCoder_simple_def)
  next
    case 2
    define ds where "ds = drop 5 t"
    have "t = take 5 t @ drop 5 t" by simp
    then have t: "t = ''bytes'' @ ds" by (simp only: ds_def 2(1))
    have r': "list_all is_digit10 ds" "regexType t = Some (Some ds, None)" using r 2 by (simp_all add: ds_def)
    have "t \<noteq> ''uint''" "t \<noteq> ''int''" by (simp_all add: t)
    with r'(2) have "ds = [] \<or> dec_value ds \<noteq> 0 \<and> dec_value ds \<le> 32"
      using v by (simp add: verifyBasicType_def split: if_splits)
    then show ?thesis using r'(1) by (auto simp: t getCoder_simple_def paramTypeNumber_def paramTypeBytes_def)
  next
    case 3
    define ds where "ds = drop 3 t"
    have "t = take 3 t @ drop 3 t" by simp
    then have t: "t = ''int'' @ ds" by (simp only: ds_def 3(1))
    have r': "list_all is_digit10 ds" "regexType t = Some (None, Some ds)" using r 3 by (simp_all add: ds_def)
    from r'(2) have "ds = [] \<or> dec_value ds \<noteq> 0 \<and> dec_value ds \<le> 256 \<and> dec_value ds mod 8 = 0"
      using v by (cases "t = ''uint'' \<or> t = ''int''") (auto simp: verifyBasicType_def t)
    then show ?thesis using r'(1) by (auto simp: t getCoder_simple_def paramTypeNumber_def Let_def dec_value_256)
  next
    case 4
    define ds where "ds = drop 4 t"
    have "t = take 4 t @ drop 4 t" by simp
    then have t: "t = ''uint'' @ ds" by (simp only: ds_def 4(1))
    have r': "list_all is_digit10 ds" "regexType t = Some (None, Some ds)" using r 4 by (simp_all add: ds_def)
    from r'(2) have "ds = [] \<or> dec_value ds \<noteq> 0 \<and> dec_value ds \<le> 256 \<and> dec_value ds mod 8 = 0"
      using v by (cases "t = ''uint'' \<or> t = ''int''") (auto simp: verifyBasicType_def t)
    then show ?thesis using r'(1) by (auto simp: t getCoder_simple_def paramTypeNumber_def Let_def dec_value_256)
  qed
qed

lemma getCoder_wf: "wf_param p \<Longrightarrow> \<exists>c. getCoder p = Inr c"
proof (induction p rule: wf_param_induct)
  case (Tuple name t indexed cs)
  define f where "f = (\<lambda>c. projr (getCoder c))"
  have "mapM getCoder cs = Inr (map f cs)"
    by (rule mapM_Inr) (use Tuple.IH in \<open>force simp: f_def\<close>)
  then show ?case by simp
qed (auto simp: getCoder_basic)

text \<open>
  Every type that the parser accepts can be encoded: \<open>AbiCoder\<close> finds a coder for
  it. Its checks of widths and lengths agree with those of the parser.
\<close>

theorem parsed_type_has_coder:
  assumes "ParamType_string text ai = Inr p"
  shows "\<exists>c. getCoder p = Inr c"
  by (rule getCoder_wf [OF wf_ParamType_string [OF assms]])

lemma parsed_type_has_coder_witness:
  "\<exists>c. getCoder (projr (ParamType_string ''tuple(uint a,  (address[3][] b, bytes8)[2] c) indexed foo'' True)) = Inr c"
  using parsed_type_has_coder [OF example_signature] unfolding example_signature by simp

end
