(* ===== verification/Fragments_Full.thy ===== *)
theory Fragments_Full
  imports Fragments_Props
begin

text \<open>
  The human-readable form, \<open>format("full")\<close>, of a function that was read from a signature
  reads back as the same fragment, as long as no parameter is a tuple: the full form of
  a tuple spells its components twice and cannot be read. A function read from a JSON
  description may have names that the lexer takes for words of the language.
\<close>

section \<open>Parameters with their names\<close>

fun tuple_free :: "param_type \<Rightarrow> bool" where
  "tuple_free (ParamType name type baseType indexed components arrayLength arrayChildren) \<longleftrightarrow>
     baseType \<noteq> ''tuple'' \<and> (case arrayChildren of None \<Rightarrow> True | Some c \<Rightarrow> tuple_free c)"

fun with_name :: "string \<Rightarrow> param_type \<Rightarrow> param_type" where
  "with_name n (ParamType name type baseType indexed components arrayLength arrayChildren) =
     ParamType n type baseType indexed components arrayLength arrayChildren"

definition name_ok :: "string \<Rightarrow> bool" where
  "name_ok n \<longleftrightarrow> n = [] \<or> regexId n \<and> word_type n = ID"

text \<open>No tuple, no modifier, and the arrays spelled as they are printed.\<close>

definition plain :: "param_type \<Rightarrow> bool" where
  "plain p \<longleftrightarrow> wf_param p \<and> tuple_free p \<and> p = with_name (pt_name p) (bare p) \<and> name_ok (pt_name p)"

lemma format_full:
  "wf_param p \<Longrightarrow> tuple_free p \<Longrightarrow>
   ParamType_format Full p = ParamType_format Sighash p @ format_tail Full (pt_name p) (pt_indexed p)"
proof (induction p rule: wf_param_induct)
  case (Basic name t indexed)
  then show ?case by (simp add: ParamType_format.simps format_tail_def)
next
  case (Array name t indexed n c)
  then show ?case by (simp add: ParamType_format.simps [of _ name] format_tail_def)
qed simp

lemma format_plain:
  "plain p \<Longrightarrow> ParamType_format Full p = ParamType_format Sighash p @ (if pt_name p = [] then [] else '' '' @ pt_name p)"
proof -
  assume p: "plain p"
  then have "pt_indexed p = None" by (cases p) (auto simp: plain_def Let_def split: if_splits)
  then show ?thesis using p by (simp add: format_full plain_def format_tail_def)
qed

definition name_toks :: "param_type \<Rightarrow> tokens_at" where
  "name_toks p k d off = (if pt_name p = [] then [] else [leaf d (off + 1) ID (pt_name p)])"

definition full_toks :: "param_type \<Rightarrow> tokens_at" where
  "full_toks p k d off =
     (let ts = ptoks p k d off in ts @ name_toks p (k + length ts) d (off + length (ParamType_format Sighash p)))"

lemma lexes_name:
  "name_ok (pt_name p) \<Longrightarrow> lexes (if pt_name p = [] then [] else '' '' @ pt_name p) (name_toks p)"
  using lexes_spaced [OF lexes_word [of "pt_name p"]]
  by (cases "pt_name p = []") (auto simp: name_ok_def name_toks_def lexes_empty lexes_def)

lemma lexes_full: "plain p \<Longrightarrow> lexes (ParamType_format Full p) (full_toks p)"
  using lexes_append [OF lexes_param lexes_name, of p p]
  by (auto simp: plain_def format_plain full_toks_def [abs_def] Let_def)

lemma full_toks_nonempty: "plain p \<Longrightarrow> full_toks p k d off \<noteq> []"
  by (simp add: full_toks_def Let_def ptoks_nonempty plain_def)

lemma param_rest_name:
  assumes "tokens = A @ [t]" "tk_type t = ID"
  shows "param_rest ai sh \<lparr>ts_offset = int (length A), ts_tokens = tokens\<rparr> = shape_param (tk_text t) None sh"
proof -
  have n: "length A < length tokens" "tokens ! length A = t" using assms by simp_all
  have "peekType ty \<lparr>ts_offset = int (length A), ts_tokens = tokens\<rparr> = Inr (if ty = ID then Some (tk_text t) else None)" for ty
    using peekType_nth [OF n(1)] n(2) assms(2) by auto
  then show ?thesis
    using pop_nth [OF n(1)] n(2) assms(1) by (simp add: param_rest_def array_loop.simps [of sh] consumeKeywords_none)
qed

lemma shape_named: "wf_param p \<Longrightarrow> shape_param n None (shape_of (bare p)) = Inr (with_name n (bare p))"
  by (induction p rule: wf_param_induct) (auto simp: shape_param_def shape_of_def new_ParamType_def Let_def)

lemma parse_full:
  assumes "plain p"
  shows "ParamType_tokens (TokenString (map (shift_token (int k)) (full_toks p k d off))) ai = Inr p"
proof -
  have w: "wf_param p" and b: "p = with_name (pt_name p) (bare p)" using assms by (simp_all add: plain_def)
  let ?ts = "map (shift_token (int k)) (ptoks p k d off)"
  let ?ns = "map (shift_token (int k)) (name_toks p (k + length (ptoks p k d off)) d (off + length (ParamType_format Sighash p)))"
  have "ParamType_tokens \<lparr>ts_offset = 0, ts_tokens = ?ts @ ?ns\<rparr> ai =
      param_rest ai (shape_of (bare p)) \<lparr>ts_offset = int (length ?ts), ts_tokens = ?ts @ ?ns\<rparr>"
    using param_tokens [OF w, of k d off ?ns ai] by simp
  also have "\<dots> = shape_param (pt_name p) None (shape_of (bare p))"
  proof (cases "pt_name p = []")
    case True
    then show ?thesis using param_rest_end [of ai _ ?ts] by (simp add: name_toks_def)
  next
    case False
    then show ?thesis using param_rest_name [of "?ts @ ?ns" ?ts] by (simp add: name_toks_def)
  qed
  also have "\<dots> = Inr p" using shape_named [OF w] b by metis
  finally show ?thesis by (simp add: TokenString_def full_toks_def Let_def)
qed

section \<open>Parameter lists\<close>

definition spaced :: "item \<Rightarrow> item" where
  "spaced i = ('' '' @ fst i, \<lambda>k d off. snd i k d (off + 1))"

definition full_item :: "param_type \<Rightarrow> item" where
  "full_item p = (ParamType_format Full p, full_toks p)"

definition full_items :: "param_type list \<Rightarrow> item list" where
  "full_items ps = (case ps of [] \<Rightarrow> [] | q # qs \<Rightarrow> full_item q # map (\<lambda>p. spaced (full_item p)) qs)"

lemma join_spaced: "join_with '', '' (x # xs) = join_with '','' (x # map (\<lambda>s. '' '' @ s) xs)"
  by (induction xs arbitrary: x) (simp_all add: join_with_def)

lemma joinParams_full: "joinParams Full ps = paren_text (map fst (full_items ps))"
  by (cases ps) (simp_all add: joinParams_def paren_text_def full_items_def full_item_def spaced_def separator_def
      join_spaced o_def)

lemma format_full_nonempty: "plain p \<Longrightarrow> ParamType_format Full p \<noteq> []"
proof -
  assume "plain p"
  then have "lexes (ParamType_format Full p) (full_toks p)" "full_toks p 0 0 0 \<noteq> []"
    by (rule lexes_full, rule full_toks_nonempty)
  then show ?thesis
    using lexesD [of "ParamType_format Full p" "full_toks p" "[]" 0 "\<lparr>lx_tokens = [], lx_brackets = [], lx_commas = []\<rparr>"]
    by (auto simp: lex_loop.simps add_tokens_def)
qed

lemma lexes_items: "list_all plain ps \<Longrightarrow> \<forall>(s, T) \<in> set (full_items ps). lexes s T"
  by (cases ps) (auto simp: full_items_def full_item_def spaced_def lexes_full list_all_iff
      intro!: lexes_spaced [simplified] format_full_nonempty)

lemma items_nonempty: "list_all plain ps \<Longrightarrow> \<forall>(s, T) \<in> set (full_items ps). \<forall>k d off. T k d off \<noteq> []"
  by (cases ps) (auto simp: full_items_def full_item_def spaced_def full_toks_nonempty list_all_iff)

lemma mapM_full:
  assumes "list_all plain ps"
  shows "mapM (\<lambda>t. ParamType_tokens t ai) (item_slices (full_items ps) k d off) = Inr ps"
proof -
  have spaced: "mapM (\<lambda>t. ParamType_tokens t ai) (item_slices (map (\<lambda>p. spaced (full_item p)) qs) k d off) = Inr qs"
    if "list_all plain qs" for qs k off
    using that by (induction qs arbitrary: k off) (simp_all add: Let_def spaced_def full_item_def parse_full)
  show ?thesis
    using assms by (cases ps) (simp_all add: full_items_def full_item_def Let_def parse_full spaced [unfolded full_item_def])
qed

lemma shift_0 [simp]: "shift_token 0 t = t" "map (shift_token 0) ts = ts"
  by (simp_all add: shift_token_def map_idI)

lemma consumeParams_full:
  assumes "list_all plain ps" and "tokens = A @ paren_toks (full_items ps) (length A) d off @ R"
  shows "consumeParams ai \<lparr>ts_offset = int (length A), ts_tokens = tokens\<rparr> =
    Inr (ps, \<lparr>ts_offset = int (length (A @ paren_toks (full_items ps) (length A) d off)), ts_tokens = tokens\<rparr>)"
  using popParams_paren [OF items_nonempty [OF assms(1)], of tokens A "length A" d off R] assms(2) mapM_full [OF assms(1)]
  by (simp add: consumeParams_def)

section \<open>The words around the lists\<close>

definition not_kw :: "string list \<Rightarrow> token list \<Rightarrow> bool" where
  "not_kw allowed R \<longleftrightarrow> R = [] \<or> tk_type (hd R) \<noteq> KEYWORD \<or> tk_text (hd R) \<notin> set allowed"

lemma peekType_at:
  "peekType type \<lparr>ts_offset = int (length A), ts_tokens = A @ R\<rparr> =
     Inr (if R \<noteq> [] \<and> tk_type (hd R) = type then Some (tk_text (hd R)) else None)"
  using peekType_nth [of "length A" "A @ R"] peekType_end [of type A] by (cases R) auto

lemma pop_at:
  "pop \<lparr>ts_offset = int (length A), ts_tokens = A @ t # R\<rparr> = Inr (t, \<lparr>ts_offset = int (length (A @ [t])), ts_tokens = A @ t # R\<rparr>)"
  using pop_nth [of "length A" "A @ t # R"] by simp

lemma consumeKeywords_stop:
  "not_kw allowed R \<Longrightarrow>
   consumeKeywords_loop kws allowed \<lparr>ts_offset = int (length A), ts_tokens = A @ R\<rparr> =
   Inr (kws, \<lparr>ts_offset = int (length A), ts_tokens = A @ R\<rparr>)"
  by (auto simp: consumeKeywords_loop.simps [of kws] peekType_at not_kw_def)

lemma consumeKeywords_zero:
  "not_kw allowed R \<Longrightarrow>
   consumeKeywords allowed \<lparr>ts_offset = int (length A), ts_tokens = A @ R\<rparr> =
   Inr ([], \<lparr>ts_offset = int (length A), ts_tokens = A @ R\<rparr>)"
  by (simp add: consumeKeywords_def consumeKeywords_stop)

lemma consumeKeywords_one:
  assumes "tk_type t = KEYWORD" "tk_text t \<in> set allowed" "not_kw allowed R"
  shows "consumeKeywords allowed \<lparr>ts_offset = int (length A), ts_tokens = A @ t # R\<rparr> =
    Inr ([tk_text t], \<lparr>ts_offset = int (length (A @ [t])), ts_tokens = A @ t # R\<rparr>)"
proof -
  have "consumeKeywords_loop [tk_text t] allowed \<lparr>ts_offset = int (length (A @ [t])), ts_tokens = (A @ [t]) @ R\<rparr> =
    Inr ([tk_text t], \<lparr>ts_offset = int (length (A @ [t])), ts_tokens = (A @ [t]) @ R\<rparr>)"
    by (rule consumeKeywords_stop [OF assms(3)])
  then show ?thesis
    using assms pop_at [of A t R] peekType_at [of KEYWORD A "t # R"]
    by (simp add: consumeKeywords_def consumeKeywords_loop.simps [of "[]"])
qed

text \<open>The mutability, the results and the energy, with the tokens they are printed as.\<close>

definition mut_toks :: "string \<Rightarrow> tokens_at" where
  "mut_toks m k d off = (if m = ''nonpayable'' then [] else [leaf d (off + 1) KEYWORD m])"

definition mut_text :: "string \<Rightarrow> string" where
  "mut_text m = (if m = ''nonpayable'' then [] else '' '' @ m)"

definition mutability_ok :: "string \<Rightarrow> bool" where
  "mutability_ok m \<longleftrightarrow> m = ''view'' \<or> m = ''pure'' \<or> m = ''payable'' \<or> m = ''nonpayable''"

lemma keyword_facts:
  "regexId ''view''" "regexId ''pure''" "regexId ''payable''" "regexId ''returns''" "regexId ''function''"
  "word_type ''view'' = KEYWORD" "word_type ''pure'' = KEYWORD" "word_type ''payable'' = KEYWORD"
  "word_type ''returns'' = KEYWORD" "word_type ''function'' = KEYWORD"
  by code_simp+

lemma lexes_mut: "mutability_ok m \<Longrightarrow> lexes (mut_text m) (mut_toks m)"
  using lexes_spaced [OF lexes_word [of m]]
  by (auto simp: mutability_ok_def mut_text_def mut_toks_def [abs_def] keyword_facts lexes_empty)

lemma mutability_text: "mutability_ok m \<Longrightarrow> m \<noteq> ''nonpayable'' \<Longrightarrow> mutability_of [m] = m \<and> m \<in> set KwVisib"
  by (auto simp: mutability_ok_def mutability_of_def KwVisib_def)

lemma consumeMutability_full:
  assumes "mutability_ok m" and "not_kw KwVisib R" and "ts = mut_toks m k d off"
  shows "consumeMutability \<lparr>ts_offset = int (length A), ts_tokens = A @ ts @ R\<rparr> =
    Inr (m, \<lparr>ts_offset = int (length (A @ ts)), ts_tokens = A @ ts @ R\<rparr>)"
proof (cases "m = ''nonpayable''")
  case True
  then show ?thesis
    using assms consumeKeywords_zero [OF assms(2), of A]
    by (simp add: consumeMutability_def mut_toks_def allowSingle_def for_in_iterator_def mutability_of_def)
next
  case False
  then show ?thesis
    using assms mutability_text [OF assms(1) False] consumeKeywords_one [of "leaf d (off + 1) KEYWORD m" KwVisib R A]
    by (simp add: consumeMutability_def mut_toks_def allowSingle_def for_in_iterator_def)
qed

definition returns_toks :: "param_type list \<Rightarrow> tokens_at" where
  "returns_toks outs k d off =
     (if outs = [] then [] else leaf d (off + 1) KEYWORD ''returns'' # paren_toks (full_items outs) (k + 1) d (off + 9))"

definition returns_text :: "param_type list \<Rightarrow> string" where
  "returns_text outs = (if outs = [] then [] else '' returns '' @ joinParams Full outs)"

lemma lexes_returns: "list_all plain outs \<Longrightarrow> lexes (returns_text outs) (returns_toks outs)"
proof (cases "outs = []")
  case False
  assume p: "list_all plain outs"
  have "lexes ('' '' @ ''returns'') (\<lambda>k d off. [leaf d (off + 1) KEYWORD ''returns''])"
    using lexes_spaced [OF lexes_word [of "''returns''"]] keyword_facts by simp
  note returns = this
  have "lexes ('' '' @ joinParams Full outs) (\<lambda>k d off. paren_toks (full_items outs) k d (off + 1))"
    unfolding joinParams_full by (rule lexes_spaced [OF lexes_paren [OF lexes_items [OF p]]]) (simp add: paren_text_def)
  from lexes_append [OF returns this] show ?thesis
    using False by (simp add: returns_text_def returns_toks_def [abs_def] eval_nat_numeral)
qed (simp add: returns_text_def returns_toks_def [abs_def] lexes_empty)

definition energy_toks :: "int option \<Rightarrow> tokens_at" where
  "energy_toks e k d off =
     (case e of None \<Rightarrow> [] | Some n \<Rightarrow> [leaf d (off + 1) AT ''@'', leaf d (off + 2) NUMBER (int_toString 10 n)])"

definition energy_part :: "int option \<Rightarrow> string" where
  "energy_part e = (case e of None \<Rightarrow> [] | Some n \<Rightarrow> '' @'' @ int_toString 10 n)"

lemma lexes_energy: "(case e of None \<Rightarrow> True | Some n \<Rightarrow> 0 \<le> n) \<Longrightarrow> lexes (energy_part e) (energy_toks e)"
proof (cases e)
  case (Some n)
  assume "case e of None \<Rightarrow> True | Some n \<Rightarrow> 0 \<le> n"
  with Some have d: "list_all is_digit10 (int_toString 10 n)" "int_toString 10 n \<noteq> []"
    using is_digit10_toString [of "nat n"] by (simp_all add: int_toString_def)
  have a: "SimpleTokens CHR ''@'' = Some AT" by (simp add: SimpleTokens_def)
  have "lexes (''@'' @ int_toString 10 n) (\<lambda>k d off. [leaf d off AT ''@'', leaf d (off + 1) NUMBER (int_toString 10 n)])"
    unfolding lexes_def
    using lexesD [OF lexes_number [OF d]]
    by (simp add: lex_loop_simple [OF a] simple_token_def new_token_leaf push_add_tokens)
  from lexes_spaced [OF this] show ?thesis using Some by (simp add: energy_part_def energy_toks_def [abs_def])
qed (simp add: energy_part_def energy_toks_def [abs_def] lexes_empty)

lemma getBigInt_digits:
  assumes "list_all is_digit10 ds" "ds \<noteq> []"
  shows "getBigInt (DStr ds) = Inr (int (dec_value ds))"
proof -
  have "hd ds \<noteq> CHR ''-''" using assms by (cases ds) (auto simp: is_digit10_code)
  then show ?thesis using js_BigInt_dec(1) [OF assms] assms(2) by (simp add: bigint_of_string_def)
qed

lemma consumeEnergy_full:
  assumes "case e of None \<Rightarrow> True | Some n \<Rightarrow> 0 \<le> n" and "ts = energy_toks e k d off"
  shows "consumeEnergy \<lparr>ts_offset = int (length A), ts_tokens = A @ ts\<rparr> =
    Inr (e, \<lparr>ts_offset = int (length (A @ ts)), ts_tokens = A @ ts\<rparr>)"
proof (cases e)
  case None
  then show ?thesis using assms(2) by (simp add: consumeEnergy_def energy_toks_def)
next
  case (Some n)
  let ?a = "leaf d (off + 1) AT ''@''" let ?n = "leaf d (off + 2) NUMBER (int_toString 10 n)"
  have n: "0 \<le> n" using Some assms(1) by simp
  then have "int_toString 10 n = nat_toString 10 (nat n)" by (simp add: int_toString_def)
  then have "getBigInt (DStr (int_toString 10 n)) = Inr n"
    using n getBigInt_digits [OF is_digit10_toString, of "nat n"] by (simp add: dec_value_toString)
  then show ?thesis
    using Some assms(2) peekType_at [of AT A "[?a, ?n]"] pop_at [of A ?a "[?n]"]
      peekType_at [of NUMBER "A @ [?a]" "[?n]"] pop_at [of "A @ [?a]" ?n "[]"]
    by (simp add: consumeEnergy_def energy_toks_def)
qed

section \<open>Functions\<close>

text \<open>What a parsed function fragment satisfies.\<close>

definition function_pieces :: "string \<Rightarrow> string \<Rightarrow> param_type list \<Rightarrow> param_type list \<Rightarrow> int option \<Rightarrow> item list" where
  "function_pieces name m ins outs e =
     [(''function'', \<lambda>k d off. [leaf d off KEYWORD ''function'']),
      ('' '' @ name, \<lambda>k d off. [leaf d (off + 1) ID name]),
      (joinParams Full ins, paren_toks (full_items ins)),
      (mut_text m, mut_toks m), (returns_text outs, returns_toks outs), (energy_part e, energy_toks e)]"

lemma format_function:
  "mutability_ok m \<Longrightarrow>
   Fragment_format Full (FunctionFragment name m ins outs (map_option EnergyBig e)) =
   Inr (concat (map fst (function_pieces name m ins outs e)))"
  by (auto simp: FunctionFragment_format_def function_pieces_def named_words_def mut_text_def returns_text_def energy_part_def energy_words_def
      mutability_ok_def split: option.splits)

definition function_ok :: "string \<Rightarrow> string \<Rightarrow> param_type list \<Rightarrow> param_type list \<Rightarrow> int option \<Rightarrow> bool" where
  "function_ok name m ins outs e \<longleftrightarrow>
     regexId name \<and> word_type name = ID \<and> mutability_ok m \<and> list_all plain ins \<and> list_all plain outs
     \<and> (case e of None \<Rightarrow> True | Some n \<Rightarrow> 0 \<le> n)"

lemma lexes_function_pieces:
  assumes "function_ok name m ins outs e"
  shows "\<forall>(s, T) \<in> set (function_pieces name m ins outs e). lexes s T"
    and "\<forall>(s, T) \<in> set (tl (function_pieces name m ins outs e)). delim s"
proof -
  have o: "regexId name" "word_type name = ID" "mutability_ok m" "list_all plain ins" "list_all plain outs"
    "case e of None \<Rightarrow> True | Some n \<Rightarrow> 0 \<le> n" using assms by (simp_all add: function_ok_def)
  have n: "name \<noteq> []" using o(1) by (simp add: regexId_def)
  have "lexes ''function'' (\<lambda>k d off. [leaf d off KEYWORD ''function''])"
    using lexes_word [of "''function''"] keyword_facts by simp
  moreover have "lexes ('' '' @ name) (\<lambda>k d off. [leaf d (off + 1) ID name])"
    using lexes_spaced [OF lexes_word [OF o(1)] n] o(2) by simp
  moreover have "lexes (joinParams Full ins) (paren_toks (full_items ins))"
    unfolding joinParams_full by (rule lexes_paren [OF lexes_items [OF o(4)]])
  ultimately show "\<forall>(s, T) \<in> set (function_pieces name m ins outs e). lexes s T"
    using lexes_mut [OF o(3)] lexes_returns [OF o(5)] lexes_energy [OF o(6)] by (simp add: function_pieces_def)
  show "\<forall>(s, T) \<in> set (tl (function_pieces name m ins outs e)). delim s"
    by (auto simp: function_pieces_def joinParams_full paren_text_def mut_text_def returns_text_def energy_part_def
        split: option.splits)
qed

lemma consumeName_at:
  assumes "tokens = kw # t # R" "tk_type kw = KEYWORD" "tk_text kw = type" "type \<in> set KwTypes" "tk_type t = ID"
  shows "consumeName type \<lparr>ts_offset = 0, ts_tokens = tokens\<rparr> = Inr (tk_text t, \<lparr>ts_offset = 2, ts_tokens = tokens\<rparr>)"
proof -
  have "peekType KEYWORD \<lparr>ts_offset = 0, ts_tokens = tokens\<rparr> = Inr (Some type)"
    using peekType_nth [of 0 tokens KEYWORD] assms by simp
  moreover have "pop \<lparr>ts_offset = 0, ts_tokens = tokens\<rparr> = Inr (kw, \<lparr>ts_offset = 1, ts_tokens = tokens\<rparr>)"
    using pop_nth [of 0 tokens] assms by simp
  moreover have "peek \<lparr>ts_offset = 1, ts_tokens = tokens\<rparr> = Inr t"
    using peek_nth [of 1 tokens] assms by simp
  moreover have "pop \<lparr>ts_offset = 1, ts_tokens = tokens\<rparr> = Inr (t, \<lparr>ts_offset = 2, ts_tokens = tokens\<rparr>)"
    using pop_nth [of 1 tokens] assms by simp
  ultimately show ?thesis using assms by (simp add: consumeName_def peekKeyword_def popType_def)
qed

lemma consumeReturns_full:
  assumes "list_all plain outs" and "not_kw [''returns''] R" and "ts = returns_toks outs (length A) d off"
  shows "bindE (consumeKeywords [''returns''] \<lparr>ts_offset = int (length A), ts_tokens = A @ ts @ R\<rparr>) (\<lambda>(kws, obj).
           if ''returns'' \<in> set kws then consumeParams False obj else Inr ([], obj)) =
    Inr (outs, \<lparr>ts_offset = int (length (A @ ts)), ts_tokens = A @ ts @ R\<rparr>)"
proof (cases "outs = []")
  case True
  then show ?thesis using assms consumeKeywords_zero [OF assms(2), of A] by (simp add: returns_toks_def)
next
  case False
  let ?kw = "leaf d (off + 1) KEYWORD ''returns''"
  let ?ps = "paren_toks (full_items outs) (length (A @ [?kw])) d (off + 9)"
  have ts: "ts = ?kw # ?ps" using assms(3) False by (simp add: returns_toks_def)
  have "not_kw [''returns''] (?ps @ R)"
    using paren_toks_head [of "full_items outs" "length (A @ [?kw])" d "off + 9"] by (auto simp: not_kw_def)
  then have "consumeKeywords [''returns''] \<lparr>ts_offset = int (length A), ts_tokens = A @ ?kw # ?ps @ R\<rparr> =
      Inr ([''returns''], \<lparr>ts_offset = int (length (A @ [?kw])), ts_tokens = A @ ?kw # ?ps @ R\<rparr>)"
    using consumeKeywords_one [of ?kw "[''returns'']" "?ps @ R" A] by simp
  moreover have "consumeParams False \<lparr>ts_offset = int (length (A @ [?kw])), ts_tokens = A @ ?kw # ?ps @ R\<rparr> =
      Inr (outs, \<lparr>ts_offset = int (length ((A @ [?kw]) @ ?ps)), ts_tokens = A @ ?kw # ?ps @ R\<rparr>)"
    by (rule consumeParams_full [OF assms(1)]) simp
  ultimately show ?thesis by (simp add: ts)
qed

lemma energy_not_kw: "not_kw allowed (energy_toks e k d off)"
  by (cases e) (simp_all add: not_kw_def energy_toks_def)

lemma returns_not_kw: "''returns'' \<notin> set allowed \<Longrightarrow> not_kw allowed R \<Longrightarrow> not_kw allowed (returns_toks outs k d off @ R)"
  by (simp add: not_kw_def returns_toks_def)

lemma parse_function:
  assumes "function_ok name m ins outs e"
  shows "Fragment_tokens (TokenString (seq_toks (function_pieces name m ins outs e) 0 0 0)) =
    Inr (FunctionFragment name m ins outs (map_option EnergyBig e))"
proof -
  have o: "regexId name" "word_type name = ID" "mutability_ok m" "list_all plain ins" "list_all plain outs"
    "case e of None \<Rightarrow> True | Some n \<Rightarrow> 0 \<le> n" using assms by (simp_all add: function_ok_def)
  define kw where "kw = leaf 0 0 KEYWORD ''function''"
  define nm where "nm = leaf 0 9 ID name"
  define P where "P = paren_toks (full_items ins) 2 0 (9 + length name)"
  obtain o1 o2 o3 where seq: "seq_toks (function_pieces name m ins outs e) 0 0 0 =
      kw # nm # P @ mut_toks m (length (kw # nm # P)) 0 o1
        @ returns_toks outs (length (kw # nm # P @ mut_toks m (length (kw # nm # P)) 0 o1)) 0 o2
        @ energy_toks e (length (kw # nm # P @ mut_toks m (length (kw # nm # P)) 0 o1
             @ returns_toks outs (length (kw # nm # P @ mut_toks m (length (kw # nm # P)) 0 o1)) 0 o2)) 0 o3"
    by (simp add: function_pieces_def kw_def nm_def P_def Let_def add.assoc eval_nat_numeral)
  define M where "M = mut_toks m (length (kw # nm # P)) 0 o1"
  define R where "R = returns_toks outs (length (kw # nm # P @ M)) 0 o2"
  define E where "E = energy_toks e (length (kw # nm # P @ M @ R)) 0 o3"
  define toks where "toks = kw # nm # P @ M @ R @ E"
  have seq': "seq_toks (function_pieces name m ins outs e) 0 0 0 = toks"
    unfolding seq by (simp add: toks_def M_def R_def E_def)
  have "peekType KEYWORD (TokenString toks) = Inr (Some ''function'')"
    using peekType_nth [of 0 toks KEYWORD] by (simp add: TokenString_def toks_def kw_def)
  then have peek: "peekKeyword KwTypes (TokenString toks) = Inr (Some ''function'')"
    by (simp add: peekKeyword_def KwTypes_def)
  have name: "consumeName ''function'' (TokenString toks) = Inr (name, \<lparr>ts_offset = 2, ts_tokens = toks\<rparr>)"
    using consumeName_at [of toks kw nm] by (simp add: TokenString_def toks_def kw_def nm_def KwTypes_def)
  have ins: "consumeParams False \<lparr>ts_offset = 2, ts_tokens = toks\<rparr> =
      Inr (ins, \<lparr>ts_offset = int (length (kw # nm # P)), ts_tokens = toks\<rparr>)"
    using consumeParams_full [OF o(4), of toks "[kw, nm]"] by (simp add: toks_def P_def eval_nat_numeral)
  have "not_kw KwVisib (R @ E)" unfolding R_def E_def by (rule returns_not_kw [OF _ energy_not_kw]) (simp add: KwVisib_def)
  then have mut: "consumeMutability \<lparr>ts_offset = int (length (kw # nm # P)), ts_tokens = toks\<rparr> =
      Inr (m, \<lparr>ts_offset = int (length (kw # nm # P @ M)), ts_tokens = toks\<rparr>)"
    using consumeMutability_full [OF o(3) _ M_def, of "R @ E" "kw # nm # P"] by (simp add: toks_def)
  have nk: "not_kw [''returns''] E" unfolding E_def by (rule energy_not_kw)
  have "bindE (consumeKeywords [''returns''] \<lparr>ts_offset = int (length (kw # nm # P @ M)), ts_tokens = toks\<rparr>) (\<lambda>(kws, obj).
      if ''returns'' \<in> set kws then consumeParams False obj else Inr ([], obj)) =
      Inr (outs, \<lparr>ts_offset = int (length (kw # nm # P @ M @ R)), ts_tokens = toks\<rparr>)"
    unfolding toks_def using consumeReturns_full [OF o(5) nk R_def] by (simp only: append_Cons append_assoc)
  then obtain kws obj where kws: "consumeKeywords [''returns''] \<lparr>ts_offset = int (length (kw # nm # P @ M)), ts_tokens = toks\<rparr>
      = Inr (kws, obj)"
    and outs: "(if ''returns'' \<in> set kws then consumeParams False obj else Inr ([], obj)) =
      Inr (outs, \<lparr>ts_offset = int (length (kw # nm # P @ M @ R)), ts_tokens = toks\<rparr>)" by auto
  have energy: "consumeEnergy \<lparr>ts_offset = int (length (kw # nm # P @ M @ R)), ts_tokens = toks\<rparr> =
      Inr (e, \<lparr>ts_offset = int (length toks), ts_tokens = toks\<rparr>)"
    using consumeEnergy_full [OF o(6) E_def, of "kw # nm # P @ M @ R"] by (simp add: toks_def)
  show ?thesis
    unfolding seq' using peek name ins mut kws outs energy o(1)
    by (simp add: Fragment_tokens_def FunctionFragment_tokens_def consumeEoi_def named_fragment_def)
qed

lemma function_reads_back:
  assumes "function_ok name m ins outs e"
  shows "bindE (Fragment_format Full (FunctionFragment name m ins outs (map_option EnergyBig e))) Fragment_string =
    Inr (FunctionFragment name m ins outs (map_option EnergyBig e))"
proof -
  have "mutability_ok m" using assms by (simp add: function_ok_def)
  then show ?thesis
    using format_function lex_pieces [OF lexes_function_pieces [OF assms]] parse_function [OF assms]
    by (simp add: Fragment_string_def)
qed

section \<open>What a signature gives\<close>

text \<open>A parameter as it is read back: the texts of its array types are spelled anew.\<close>

definition respelled :: "param_type \<Rightarrow> param_type" where
  "respelled p = with_name (pt_name p) (bare p)"

lemma with_name_simps [simp]:
  "pt_name (with_name n p) = n" "pt_indexed (with_name n p) = pt_indexed p" "wf_param (with_name n p) = wf_param p"
  "tuple_free (with_name n p) = tuple_free p" "bare (with_name n p) = bare p"
  "ParamType_format Sighash (with_name n p) = ParamType_format Sighash p"
  by (cases p; simp add: ParamType_format.simps format_tail_def)+

lemma bare_fields [simp]: "pt_name (bare p) = []" "pt_indexed (bare p) = None"
  by (cases p; simp add: Let_def)+

lemma wf_bare: "wf_param p \<Longrightarrow> wf_param (bare p)"
  by (induction p rule: wf_param_induct) (auto simp: Let_def list_all_iff)

lemma bare_bare: "wf_param p \<Longrightarrow> bare (bare p) = bare p"
  by (induction p rule: wf_param_induct) (auto simp: Let_def cong: map_cong)

lemma tuple_free_bare: "wf_param p \<Longrightarrow> tuple_free p \<Longrightarrow> tuple_free (bare p)"
  by (induction p rule: wf_param_induct) (auto simp: Let_def)

lemma plain_respelled: "wf_param p \<Longrightarrow> tuple_free p \<Longrightarrow> name_ok (pt_name p) \<Longrightarrow> plain (respelled p)"
  by (simp add: plain_def respelled_def wf_bare bare_bare tuple_free_bare)

lemma format_respelled:
  "wf_param p \<Longrightarrow> tuple_free p \<Longrightarrow> pt_indexed p = None \<Longrightarrow> ParamType_format Full (respelled p) = ParamType_format Full p"
  by (simp add: format_full respelled_def wf_bare tuple_free_bare format_bare)

lemma shape_param_fields: "shape_param n i sh = Inr p \<Longrightarrow> pt_name p = n \<and> pt_indexed p = i"
  by (auto simp: shape_param_def new_ParamType_def plain_error_def split: if_splits)

lemma array_loop_tokens: "array_loop sh obj = Inr (sh', obj') \<Longrightarrow> ts_tokens obj' = ts_tokens obj"
proof (induction sh obj rule: array_loop.induct)
  case (1 sh obj)
  obtain b where b: "peekType BRACKET obj = Inr b"
    using "1.prems" by (subst (asm) array_loop.simps) auto
  show ?case
  proof (cases b)
    case None
    then show ?thesis using "1.prems" b by (simp add: array_loop.simps [of sh])
  next
    case (Some x)
    then obtain bk obj1 child where p: "pop obj = Inr (bk, obj1)" and c: "shape_param [] None sh = Inr child"
      and l: "array_loop \<lparr>sh_type = sh_type sh @ tk_text bk, sh_baseType = ''array'', sh_comps = None,
                sh_arrayLength = Some (tk_value bk), sh_arrayChildren = Some child\<rparr> obj1 = Inr (sh', obj')"
      using "1.prems" b by (subst (asm) array_loop.simps) auto
    then show ?thesis using "1.IH" [OF b _ p refl c l] Some p by auto
  qed
qed

lemma peekType_pop: "peekType ty ts = Inr (Some s) \<Longrightarrow> pop ts = Inr (t, ts') \<Longrightarrow> tk_type t = ty \<and> tk_text t = s"
  by (auto simp: peekType_def pop_def split: if_splits)

lemma param_rest_named:
  assumes "param_rest False sh obj = Inr p" and "good_tokens (ts_tokens obj)"
  shows "name_ok (pt_name p) \<and> pt_indexed p = None"
proof -
  obtain sh' obj1 ms obj2 where a: "array_loop sh obj = Inr (sh', obj1)"
    and k: "consumeKeywords KwModifiers obj1 = Inr (ms, obj2)"
    using assms(1) by (force simp: param_rest_def)
  have x: "''indexed'' \<notin> set ms"
    using assms(1) a k by (cases "''indexed'' \<in> set ms") (simp_all add: param_rest_def plain_error_def)
  obtain i where i: "peekType ID obj2 = Inr i"
    using assms(1) a k x by (auto simp: param_rest_def)
  obtain name obj3 where n: "(if i = None then Inr ([], obj2) else mapE (\<lambda>(t, obj). (tk_text t, obj)) (pop obj2)) = Inr (name, obj3)"
    and p: "shape_param name None sh' = Inr p"
    using assms(1) a k x i by (cases i) (fastforce simp: param_rest_def syntax_token_def split: if_splits)+
  have g: "good_tokens (ts_tokens obj2)"
    using assms(2) array_loop_tokens [OF a] consumeKeywords_tokens [OF k] by simp
  have "name_ok name"
  proof (cases i)
    case (Some s)
    then obtain t where t: "pop obj2 = Inr (t, obj3)" "name = tk_text t" using n by auto
    then have "good_token t" "tk_type t = ID" using good_pop [OF t(1) g] peekType_pop [of ID obj2 s t obj3] i Some by auto
    then show ?thesis using t(2) by (simp add: name_ok_def good_token_def)
  qed (use n in \<open>simp add: name_ok_def\<close>)
  then show ?thesis using shape_param_fields [OF p] by simp
qed

lemma ParamType_tokens_named:
  assumes "ParamType_tokens obj False = Inr p" and "good_tokens (ts_tokens obj)"
  shows "name_ok (pt_name p) \<and> pt_indexed p = None"
proof -
  obtain kws obj1 where k: "consumeKeywords [''tuple''] obj = Inr (kws, obj1)"
    using assms(1) by (subst (asm) ParamType_tokens.simps) auto
  obtain tup where tup: "(if ''tuple'' \<in> set kws then Inr True else mapE (\<lambda>p. p \<noteq> None) (peekType OPEN_PAREN obj1)) = Inr tup"
    using assms(1) k by (subst (asm) ParamType_tokens.simps) auto
  have g: "good_tokens (ts_tokens obj1)" using consumeKeywords_tokens [OF k] assms(2) by simp
  have "\<exists>sh obj2. param_rest False sh obj2 = Inr p \<and> good_tokens (ts_tokens obj2)"
  proof (cases tup)
    case True
    then show ?thesis using assms(1) k tup g popParams_tokens [of obj1] by (subst (asm) ParamType_tokens.simps) fastforce
  next
    case False
    then show ?thesis using assms(1) k tup g popType_good [of TYPE_NAME obj1] by (subst (asm) ParamType_tokens.simps) fastforce
  qed
  then show ?thesis using param_rest_named by blast
qed

text \<open>What every parameter list of a signature satisfies.\<close>

definition read_param :: "param_type \<Rightarrow> bool" where
  "read_param p \<longleftrightarrow> wf_param p \<and> name_ok (pt_name p) \<and> pt_indexed p = None"

lemma consumeParams_read:
  assumes "consumeParams False ts = Inr (ps, ts')" and "good_tokens (ts_tokens ts)"
  shows "list_all read_param ps \<and> good_tokens (ts_tokens ts')"
proof -
  obtain items where pp: "popParams ts = Inr (items, ts')" and m: "mapM (\<lambda>t. ParamType_tokens t False) items = Inr ps"
    using assms(1) by (auto simp: consumeParams_def)
  have "read_param (ps ! i)" if "i < length ps" for i
  proof -
    have l: "length items = length ps" and "ParamType_tokens (items ! i) False = Inr (ps ! i)"
      using m that by (auto simp: mapM_eq_Inr list_all2_conv_all_nth)
    moreover from l that have "good_tokens (ts_tokens (items ! i))" by (intro good_popParams [OF pp assms(2)]) simp
    ultimately show ?thesis
      using wf_ParamType_tokens ParamType_tokens_named by (simp add: read_param_def)
  qed
  then show ?thesis using popParams_tokens [OF pp] assms(2) by (simp add: list_all_length)
qed

lemma consumeName_read:
  "consumeName type ts = Inr (name, ts') \<Longrightarrow> good_tokens (ts_tokens ts) \<Longrightarrow>
     regexId name \<and> word_type name = ID \<and> good_tokens (ts_tokens ts')"
proof -
  assume c: "consumeName type ts = Inr (name, ts')" and g: "good_tokens (ts_tokens ts)"
  then obtain ts1 where "popType ID ts1 = Inr (name, ts')" and "ts_tokens ts1 = ts_tokens ts"
    by (auto simp: consumeName_def syntax_token_def split: if_splits)
  with popType_good [of ID ts1 name ts'] g show ?thesis by (auto simp: good_token_def)
qed

lemma mutability_of_ok: "mutability_ok (mutability_of kws)"
  by (simp add: mutability_of_def mutability_ok_def)

lemma consumeMutability_read:
  "consumeMutability ts = Inr (m, ts') \<Longrightarrow> mutability_ok m \<and> ts_tokens ts' = ts_tokens ts"
  using consumeKeywords_tokens [of KwVisib ts _ ts'] mutability_of_ok
  by (auto simp: consumeMutability_def allowSingle_def for_in_iterator_def)

lemma consumeEnergy_read:
  "consumeEnergy ts = Inr (e, ts') \<Longrightarrow> good_tokens (ts_tokens ts) \<Longrightarrow> case e of None \<Rightarrow> True | Some n \<Rightarrow> 0 \<le> n"
proof (cases e)
  case (Some n)
  assume c: "consumeEnergy ts = Inr (e, ts')" and g: "good_tokens (ts_tokens ts)"
  then obtain t0 ts1 s t ts2 where "pop ts = Inr (t0, ts1)" "peekType NUMBER ts1 = Inr (Some s)" "pop ts1 = Inr (t, ts2)"
    and b: "getBigInt (DStr (tk_text t)) = Inr n"
    using Some by (auto simp: consumeEnergy_def syntax_token_def split: if_splits)
  then have "list_all is_digit10 (tk_text t)" "tk_text t \<noteq> []"
    using peekType_pop [of NUMBER ts1 s t ts2] good_pop [of ts1 t ts2] g by (auto simp: good_token_def)
  then show ?thesis using getBigInt_digits b Some by simp
qed simp

lemma FunctionFragment_read:
  assumes "FunctionFragment_tokens obj = Inr f" and "good_tokens (ts_tokens obj)"
  shows "\<exists>name m ins outs e. f = FunctionFragment name m ins outs (map_option EnergyBig e) \<and>
     regexId name \<and> word_type name = ID \<and> mutability_ok m \<and> list_all read_param ins \<and> list_all read_param outs \<and>
     (case e of None \<Rightarrow> True | Some n \<Rightarrow> 0 \<le> n)"
proof -
  obtain name o1 ins o2 m o3 kws o4 outs o5 e o6 where n: "consumeName ''function'' obj = Inr (name, o1)"
    and i: "consumeParams False o1 = Inr (ins, o2)" and m: "consumeMutability o2 = Inr (m, o3)"
    and k: "consumeKeywords [''returns''] o3 = Inr (kws, o4)"
    and r: "(if ''returns'' \<in> set kws then consumeParams False o4 else Inr ([], o4)) = Inr (outs, o5)"
    and e: "consumeEnergy o5 = Inr (e, o6)"
    and f: "named_fragment (Some name) (\<lambda>n. FunctionFragment n m ins outs (map_option EnergyBig e)) = Inr f"
    using assms(1) by (auto simp: FunctionFragment_tokens_def)
  note n' = consumeName_read [OF n assms(2)]
  then have i': "list_all read_param ins \<and> good_tokens (ts_tokens o2)" using consumeParams_read [OF i] by simp
  note m' = consumeMutability_read [OF m]
  have g4: "good_tokens (ts_tokens o4)" using i' m' consumeKeywords_tokens [OF k] by simp
  then have o': "list_all read_param outs \<and> good_tokens (ts_tokens o5)"
    using r consumeParams_read [of o4 outs o5] by (cases "''returns'' \<in> set kws") auto
  have "f = FunctionFragment name m ins outs (map_option EnergyBig e)" using f by (simp add: named_fragment_def)
  then show ?thesis using n' i' m' o' consumeEnergy_read [OF e] by blast
qed

lemma Fragment_of_function:
  "Fragment_tokens obj = Inr (FunctionFragment name m ins outs e) \<Longrightarrow>
     FunctionFragment_tokens obj = Inr (FunctionFragment name m ins outs e)"
  by (auto simp: Fragment_tokens_def ConstructorFragment_tokens_def ErrorFragment_tokens_def EventFragment_tokens_def
      FallbackFragment_tokens_def StructFragment_tokens_def named_fragment_def split: if_splits)

lemma joinParams_respelled:
  "list_all read_param ps \<Longrightarrow> list_all tuple_free ps \<Longrightarrow> joinParams Full (map respelled ps) = joinParams Full ps"
proof -
  assume "list_all read_param ps" "list_all tuple_free ps"
  then have "map (ParamType_format Full) (map respelled ps) = map (ParamType_format Full) ps"
    by (auto simp: list_all_iff read_param_def format_respelled)
  then show ?thesis by (simp only: joinParams_def)
qed

section \<open>Properties\<close>

text \<open>
  C25. The human-readable form of a function. If a function read from a signature has no
  tuple among its parameters, its full form can be printed, and what is printed reads back as
  the same function: the same name, mutability, energy limit, parameters and results with
  their names, where only the texts of array types may be spelled anew (\<open>[03]\<close> as \<open>[3]\<close>);
  and the function read back prints the same text.
\<close>

theorem function_roundtrip:
  assumes "Fragment_string source = Inr (FunctionFragment name m ins outs energy)"
    and "list_all tuple_free ins" and "list_all tuple_free outs"
  shows "\<exists>s. Fragment_format Full (FunctionFragment name m ins outs energy) = Inr s \<and>
    Fragment_string s = Inr (FunctionFragment name m (map respelled ins) (map respelled outs) energy) \<and>
    Fragment_format Full (FunctionFragment name m (map respelled ins) (map respelled outs) energy) = Inr s"
proof -
  obtain obj where "lex source = Inr obj" and "Fragment_tokens obj = Inr (FunctionFragment name m ins outs energy)"
    using assms(1) by (auto simp: Fragment_string_def)
  then obtain e where e: "energy = map_option EnergyBig e" "case e of None \<Rightarrow> True | Some n \<Rightarrow> 0 \<le> n"
    and n: "regexId name" "word_type name = ID" "mutability_ok m"
    and ps: "list_all read_param ins" "list_all read_param outs"
    using FunctionFragment_read [OF Fragment_of_function good_lex] by blast
  have "function_ok name m (map respelled ins) (map respelled outs) e"
    using n e(2) ps assms(2,3) by (auto simp: function_ok_def list_all_iff read_param_def plain_respelled)
  note reads = function_reads_back [OF this]
  have same: "Fragment_format Full (FunctionFragment name m ins outs energy) =
      Fragment_format Full (FunctionFragment name m (map respelled ins) (map respelled outs) energy)"
    using joinParams_respelled [OF ps(1) assms(2)] joinParams_respelled [OF ps(2) assms(3)]
    by (simp add: FunctionFragment_format_def named_words_def)
  then show ?thesis using reads by (auto simp: e(1) FunctionFragment_format_def)
qed

definition example_ins :: "param_type list" where
  "example_ins =
     [ParamType ''amount'' ''uint256'' ''uint256'' None None None None,
      ParamType [] ''bytes8[3][]'' ''array'' None None (Some (-1))
        (Some (ParamType [] ''bytes8[3]'' ''array'' None None (Some 3)
          (Some (ParamType [] ''bytes8'' ''bytes8'' None None None None))))]"

definition example_outs :: "param_type list" where
  "example_outs = [ParamType ''ok'' ''bool'' ''bool'' None None None None]"

definition example_source :: string where
  "example_source = ''function  transfer(uint amount,bytes8[03][]) external view returns(bool ok)@ 090''"

lemma example_read:
  "Fragment_string example_source =
     Inr (FunctionFragment ''transfer'' ''view''
       (butlast example_ins @
         [ParamType [] ''bytes8[03][]'' ''array'' None None (Some (-1))
           (Some (ParamType [] ''bytes8[03]'' ''array'' None None (Some 3)
             (Some (ParamType [] ''bytes8'' ''bytes8'' None None None None))))])
       example_outs (Some (EnergyBig 90)))"
  by code_simp

lemma function_roundtrip_witness:
  "Fragment_string ''function transfer(uint256 amount, bytes8[3][]) view returns (bool ok) @90'' =
     Inr (FunctionFragment ''transfer'' ''view'' example_ins example_outs (Some (EnergyBig 90)))"
proof -
  let ?ins = "butlast example_ins @
         [ParamType [] ''bytes8[03][]'' ''array'' None None (Some (-1))
           (Some (ParamType [] ''bytes8[03]'' ''array'' None None (Some 3)
             (Some (ParamType [] ''bytes8'' ''bytes8'' None None None None))))]"
  have "Fragment_format Full (FunctionFragment ''transfer'' ''view'' ?ins example_outs (Some (EnergyBig 90)))
      = Inr ''function transfer(uint256 amount, bytes8[3][]) view returns (bool ok) @90''"
    by code_simp
  moreover have "list_all tuple_free ?ins" "list_all tuple_free example_outs" "map respelled ?ins = example_ins"
    "map respelled example_outs = example_outs" by code_simp+
  ultimately show ?thesis using function_roundtrip [OF example_read] by simp
qed

text \<open>
  A function of a JSON description: the name of its parameter is accepted, but it is a word of
  the language, and the printed form cannot be read.
\<close>

lemma json_keyword_name:
  "ParamType_object (JsonType (Some ''error'') (Some ''string'') None None) False =
     Inr (ParamType ''error'' ''string'' ''string'' None None None None)"
  "Fragment_format Full (FunctionFragment ''f'' ''nonpayable'' [ParamType ''error'' ''string'' ''string'' None None None None] [] None) =
     Inr ''function f(string error)''"
  "Fragment_string ''function f(string error)'' = syntax_token ''leftover tokens''"
  by code_simp+

text \<open>
  The tuple that the property excludes: the full form of a parsed tuple is not a type, and
  a nonpayable constructor and an anonymous event print words that the parsers reject.
\<close>

lemma full_forms_rejected:
  "bindE (mapE (ParamType_format Full) (ParamType_string ''tuple(uint256 a)'' False)) (\<lambda>s. ParamType_string s False) =
     syntax_token ''leftover tokens''"
  "mapE (ParamType_format Full) (ParamType_string ''tuple(uint256 a)'' False) = Inr ''tuple(uint256)(uint256 a)''"
  "bindE (Fragment_format Full (ConstructorFragment [] False None)) Fragment_string = syntax_token ''unexpected tokens''"
  "bindE (Fragment_format Full (EventFragment ''E'' [] True)) Fragment_string = syntax_token ''unexpected tokens''"
  by code_simp+

text \<open>Texts that the lexer and the cursor accept although they are no signatures.\<close>

lemma lax_signatures:
  "mapE (ParamType_format Sighash) (ParamType_string ''uint256['' False) = Inr ''uint256[]''"
  "mapE (ParamType_format Sighash) (ParamType_string ''uint256[3]4]'' False) = Inr ''uint256[4]''"
  "mapE (ParamType_format Sighash) (ParamType_string ''bytes08'' False) = Inr ''bytes08''"
  "bindE (Fragment_string ''function f(bool,)'') (Fragment_format Sighash) = Inr ''f(bool)''"
  "bindE (Fragment_string ''function f() pure view payable'') (Fragment_format Minimal) = Inr ''function f() view''"
  by code_simp+

text \<open>The JSON form of an array of tuples has no components, and a limit of energy has no JSON form.\<close>

lemma json_forms_rejected:
  "bindE (ParamType_string ''tuple(uint256)[]'' False) (\<lambda>p. ParamType_object (ParamType_json p) False) = plain_error"
  "bindE (Fragment_string ''function f() @100'') Fragment_json =
     Inl (JsError NativeTypeError ''Do not know how to serialize a BigInt'')"
  by code_simp+

text \<open>A JSON description handed over as a string is read as a signature, and rejected at its brace.\<close>

lemma json_text_rejected: "Fragment_string (CHR 0x7B # r) = syntax_token ''unexpected token''"
  by (simp add: Fragment_string_def lex_def lex_loop.simps lex_token_def SimpleTokens_def idPrefix_def numberPrefix_def
      is_id_start_def is_digit10_code is_js_space_def syntax_token_def)

end
