(* ===== verification/Interface_Props.thy ===== *)
theory Interface_Props
  imports Interface Fragments_Full
begin

text \<open>
  What an \<open>Interface\<close> promises: its buckets hold fragments under their signatures, so
  that the signature finds the fragment, and the data of a call read back as the call.
\<close>

section \<open>Reading a signature\<close>

definition sig_items :: "param_type list \<Rightarrow> item list" where
  "sig_items ps = map (\<lambda>p. (ParamType_format Sighash p, ptoks p)) ps"

lemma joinParams_sig: "joinParams Sighash ps = paren_text (map fst (sig_items ps))"
  by (simp add: joinParams_def paren_text_def sig_items_def separator_def o_def)

definition sig_tokens :: "string \<Rightarrow> param_type list \<Rightarrow> token list" where
  "sig_tokens name ps = leaf 0 0 ID name # paren_toks (sig_items ps) 1 0 (length name)"

definition signed_ok :: "string \<Rightarrow> param_type list \<Rightarrow> bool" where
  "signed_ok name ps \<longleftrightarrow> regexId name \<and> word_type name = ID \<and> list_all wf_param ps"

lemma lex_signature:
  assumes "signed_ok name ps"
  shows "lex (name @ joinParams Sighash ps) = Inr (TokenString (sig_tokens name ps))"
proof -
  let ?ps = "[(name, \<lambda>k d off. [leaf d off ID name]), (joinParams Sighash ps, paren_toks (sig_items ps))]"
  have "lexes name (\<lambda>k d off. [leaf d off ID name])"
    using assms lexes_word [of name] by (simp add: signed_ok_def)
  moreover have "lexes (joinParams Sighash ps) (paren_toks (sig_items ps))"
    unfolding joinParams_sig
    by (rule lexes_paren) (use assms in \<open>auto simp: signed_ok_def sig_items_def list_all_iff lexes_param\<close>)
  ultimately show ?thesis
    using lex_pieces [of ?ps] by (simp add: joinParams_sig paren_text_def sig_tokens_def)
qed

lemma parse_bare:
  assumes "wf_param p"
  shows "ParamType_tokens (TokenString (map (shift_token (int k)) (ptoks p k d off))) ai = Inr (bare p)"
  using param_tokens [OF assms, of k d off "[]" ai] shape_bare [OF assms]
    param_rest_end [of ai "shape_of (bare p)" "map (shift_token (int k)) (ptoks p k d off)"]
  by (simp add: TokenString_def)

lemma sig_params:
  assumes "signed_ok name ps"
  shows "consumeParams ai \<lparr>ts_offset = 1, ts_tokens = sig_tokens name ps\<rparr> =
    Inr (map bare ps, \<lparr>ts_offset = int (length (sig_tokens name ps)), ts_tokens = sig_tokens name ps\<rparr>)"
proof -
  have w: "list_all wf_param ps" using assms by (simp add: signed_ok_def)
  have n: "\<forall>(s, T) \<in> set (sig_items ps). \<forall>k d off. T k d off \<noteq> []"
    using w by (auto simp: sig_items_def list_all_iff ptoks_nonempty)
  have "mapM (\<lambda>t. ParamType_tokens t ai) (item_slices (sig_items ps) 2 0 (Suc (length name))) = Inr (map bare ps)"
    unfolding sig_items_def by (rule mapM_item_slices) (use w in \<open>simp add: list_all_iff parse_bare\<close>)
  then show ?thesis
    using popParams_paren [OF n, of "sig_tokens name ps" "[leaf 0 0 ID name]" 1 0 "length name" "[]"]
    by (simp add: consumeParams_def sig_tokens_def eval_nat_numeral)
qed

lemma peek_sig: "peekType KEYWORD (TokenString (sig_tokens name ps)) = Inr None"
  using peekType_nth [of 0 "sig_tokens name ps" KEYWORD] by (simp add: TokenString_def sig_tokens_def)

lemma name_sig: "consumeName type (TokenString (sig_tokens name ps)) = Inr (name, \<lparr>ts_offset = 1, ts_tokens = sig_tokens name ps\<rparr>)"
  using peek_nth [of 0 "sig_tokens name ps"] pop_nth [of 0 "sig_tokens name ps"] peek_sig [of name ps]
  by (simp add: consumeName_def peekKeyword_def popType_def TokenString_def sig_tokens_def)

text \<open>A signature without its keyword is a fragment of each class, with bare parameters.\<close>

lemma parse_signature:
  assumes "signed_ok name ps"
  shows "bindE (lex (name @ joinParams Sighash ps)) FunctionFragment_tokens =
      Inr (FunctionFragment name ''nonpayable'' (map bare ps) [] None)"
    and "bindE (lex (name @ joinParams Sighash ps)) EventFragment_tokens = Inr (EventFragment name (map bare ps) False)"
    and "bindE (lex (name @ joinParams Sighash ps)) ErrorFragment_tokens = Inr (ErrorFragment name (map bare ps))"
  using lex_signature [OF assms] name_sig sig_params [OF assms] assms
  by (simp_all add: FunctionFragment_tokens_def EventFragment_tokens_def ErrorFragment_tokens_def consumeKeywords_none
      consumeMutability_def mutability_of_def allowSingle_def consumeEnergy_def consumeEoi_def named_fragment_def signed_ok_def)

lemma join_bare: "list_all wf_param ps \<Longrightarrow> joinParams Sighash (map bare ps) = joinParams Sighash ps"
  by (simp add: joinParams_def format_bare list_all_iff cong: map_cong)

lemma sighash_forms:
  "Fragment_format Sighash (FunctionFragment name m ins outs e) = Inr (name @ joinParams Sighash ins)"
  "Fragment_format Sighash (EventFragment name ins a) = Inr (name @ joinParams Sighash ins)"
  "Fragment_format Sighash (ErrorFragment name ins) = Inr (name @ joinParams Sighash ins)"
  by (simp_all add: FunctionFragment_format_def EventFragment_format_def ErrorFragment_format_def named_words_def)

section \<open>Fragments of a text\<close>

lemma mapM_elem: "mapM f xs = Inr ys \<Longrightarrow> y \<in> set ys \<Longrightarrow> \<exists>x \<in> set xs. f x = Inr y"
  by (induction xs arbitrary: ys) auto

lemma consumeParams_good:
  "consumeParams ai ts = Inr (ps, ts') \<Longrightarrow> good_tokens (ts_tokens ts) \<Longrightarrow> list_all wf_param ps"
proof -
  assume c: "consumeParams ai ts = Inr (ps, ts')" and g: "good_tokens (ts_tokens ts)"
  from c obtain items where i: "popParams ts = Inr (items, ts')" "mapM (\<lambda>t. ParamType_tokens t ai) items = Inr ps"
    by (auto simp: consumeParams_def)
  show ?thesis
    unfolding list_all_iff
  proof
    fix p assume "p \<in> set ps"
    then obtain t where "t \<in> set items" "ParamType_tokens t ai = Inr p" using mapM_elem [OF i(2)] by blast
    then show "wf_param p" using wf_ParamType_tokens good_popParams [OF i(1) g] by blast
  qed
qed

lemma named_fragment_Inr: "named_fragment (Some n) F = Inr f \<longleftrightarrow> regexId n \<and> f = F n"
  by (auto simp: named_fragment_def assertArgument_def assert_def)

definition signed_fragment :: "fragment \<Rightarrow> bool" where
  "signed_fragment f =
     (case f of
        FunctionFragment n _ ins _ _ \<Rightarrow> signed_ok n ins
      | EventFragment n ins _ \<Rightarrow> signed_ok n ins
      | ErrorFragment n ins \<Rightarrow> signed_ok n ins
      | _ \<Rightarrow> True)"

lemma signed_tokens:
  assumes "good_tokens (ts_tokens obj)"
  shows "FunctionFragment_tokens obj = Inr f \<Longrightarrow> signed_fragment f"
    and "EventFragment_tokens obj = Inr f \<Longrightarrow> signed_fragment f"
    and "ErrorFragment_tokens obj = Inr f \<Longrightarrow> signed_fragment f"
  using assms
  by (auto simp: FunctionFragment_tokens_def EventFragment_tokens_def ErrorFragment_tokens_def named_fragment_Inr
      signed_fragment_def signed_ok_def dest!: consumeName_read dest: consumeParams_good)

lemma unsigned_tokens:
  "ConstructorFragment_tokens obj = Inr f \<Longrightarrow> signed_fragment f"
  "FallbackFragment_tokens obj = Inr f \<Longrightarrow> signed_fragment f"
  "StructFragment_tokens obj = Inr f \<Longrightarrow> signed_fragment f"
  by (auto simp: ConstructorFragment_tokens_def FallbackFragment_tokens_def StructFragment_tokens_def named_fragment_Inr
      signed_fragment_def split: if_splits)

lemma signed_string: "Fragment_string s = Inr f \<Longrightarrow> signed_fragment f"
proof -
  assume "Fragment_string s = Inr f"
  then obtain obj where obj: "lex s = Inr obj" "Fragment_tokens obj = Inr f" by (auto simp: Fragment_string_def)
  then obtain type where "peekKeyword KwTypes obj = Inr type" by (auto simp: Fragment_tokens_def)
  with obj(2) show ?thesis
    using signed_tokens [OF good_lex [OF obj(1)], of f] unsigned_tokens [of obj f]
    by (simp add: Fragment_tokens_def split: if_splits)
qed

section \<open>The buckets\<close>

definition bucket_ok :: "(fragment \<Rightarrow> bool) \<Rightarrow> bucket \<Rightarrow> bool" where
  "bucket_ok kind b \<longleftrightarrow>
     distinct (map fst b) \<and> (\<forall>(k, f) \<in> set b. Fragment_format Sighash f = Inr k \<and> kind f)"

definition is_function :: "fragment \<Rightarrow> bool" where
  "is_function f = (case f of FunctionFragment _ _ _ _ _ \<Rightarrow> True | _ \<Rightarrow> False)"

definition is_event :: "fragment \<Rightarrow> bool" where
  "is_event f = (case f of EventFragment _ _ _ \<Rightarrow> True | _ \<Rightarrow> False)"

definition is_error_fragment :: "fragment \<Rightarrow> bool" where
  "is_error_fragment f = (case f of ErrorFragment _ _ \<Rightarrow> True | _ \<Rightarrow> False)"

lemmas fragment_kinds = is_function_def is_event_def is_error_fragment_def

definition interface_ok :: "(fragment \<Rightarrow> bool) \<Rightarrow> abi_interface \<Rightarrow> bool" where
  "interface_ok P ifc \<longleftrightarrow>
     bucket_ok (\<lambda>f. is_function f \<and> P f) (if_functions ifc) \<and>
     bucket_ok (\<lambda>f. is_event f \<and> P f) (if_events ifc) \<and>
     bucket_ok (\<lambda>f. is_error_fragment f \<and> P f) (if_errors ifc)"

lemma bucket_add_ok:
  "bucket_add f b = Inr b' \<Longrightarrow> bucket_ok kind b \<Longrightarrow> kind f \<Longrightarrow> bucket_ok kind b'"
  by (auto simp: bucket_add_def bucket_ok_def has_key_def split: if_splits)

lemma add_fragment_ok:
  "add_fragment f ifc = Inr ifc' \<Longrightarrow> interface_ok P ifc \<Longrightarrow> P f \<Longrightarrow> interface_ok P ifc'"
  by (cases f) (auto simp: interface_ok_def fragment_kinds split: if_splits dest: bucket_add_ok)

lemma add_fragments_ok:
  "add_fragments fs ifc = Inr ifc' \<Longrightarrow> interface_ok P ifc \<Longrightarrow> list_all P fs \<Longrightarrow> interface_ok P ifc'"
  by (induction fs arbitrary: ifc) (auto dest: add_fragment_ok)

lemma new_Interface_ok:
  assumes "new_Interface items = Inr ifc" and "list_all P (parsed_fragments items)"
  shows "interface_ok P ifc"
proof -
  define start where "start = \<lparr>if_fragments = parsed_fragments items, if_deploy = None, if_fallback = None, if_receive = False,
                   if_functions = [], if_events = [], if_errors = []\<rparr>"
  obtain mid where m: "add_fragments (parsed_fragments items) start = Inr mid" "default_deploy mid = Inr ifc"
    using assms(1) by (auto simp: new_Interface_def start_def Let_def)
  have "interface_ok P start" by (simp add: interface_ok_def bucket_ok_def start_def)
  with m(1) assms(2) have "interface_ok P mid" using add_fragments_ok by blast
  with m(2) show ?thesis by (auto simp: default_deploy_def interface_ok_def split: if_splits)
qed

lemma parsed_signed: "list_all signed_fragment (parsed_fragments (map ItemText texts))"
  by (auto simp: parsed_fragments_def list_all_iff signed_string split: sum.splits)

text \<open>
  The contract of a class of fragments: the signature of one parses, as that class, to
  a fragment with the same signature.
\<close>

locale signature_class =
  fixes parse :: "token_string \<Rightarrow> fragment result" and kind :: "fragment \<Rightarrow> bool"
  assumes kind_signature: "kind f \<Longrightarrow>
      \<exists>name ps. signed_ok name ps \<and> Fragment_format Sighash f = Inr (name @ joinParams Sighash ps)"
    and parse_kind: "signed_ok name ps \<Longrightarrow>
      \<exists>g. bindE (lex (name @ joinParams Sighash ps)) parse = Inr g \<and> Fragment_format Sighash g = Inr (name @ joinParams Sighash ps)"
begin

lemma found_parse:
  assumes "bucket_ok kind b" and "(k, f) \<in> set b"
  shows "\<exists>g. bindE (lex k) parse = Inr g \<and> Fragment_format Sighash g = Inr k \<and> map_of b k = Some f"
proof -
  have f: "Fragment_format Sighash f = Inr k" "kind f" "distinct (map fst b)"
    using assms by (auto simp: bucket_ok_def)
  obtain name ps where n: "signed_ok name ps" "k = name @ joinParams Sighash ps"
    using kind_signature [OF f(2)] f(1) by auto
  then have "\<exists>g. bindE (lex k) parse = Inr g \<and> Fragment_format Sighash g = Inr k" using parse_kind by blast
  then show ?thesis using assms(2) f(3) by auto
qed

lemma found:
  assumes "bucket_ok kind b" and "(k, f) \<in> set b"
  shows "by_signature parse k b = Inr (Some f)"
proof -
  obtain g where g: "bindE (lex k) parse = Inr g" "Fragment_format Sighash g = Inr k" "map_of b k = Some f"
    using found_parse [OF assms] by blast
  show ?thesis unfolding by_signature_def g(1) using g by simp
qed

lemma key_shape:
  assumes "bucket_ok kind b" and "(k, f) \<in> set b"
  shows "\<not> matches_hex k" and "CHR ''('' \<in> set k"
proof -
  have f: "Fragment_format Sighash f = Inr k" "kind f" using assms by (auto simp: bucket_ok_def)
  obtain name ps where n: "signed_ok name ps" "k = name @ joinParams Sighash ps"
    using kind_signature [OF f(2)] f(1) by auto
  then obtain c r where c: "k = c # r" "is_id_start c"
    by (cases name) (auto simp: signed_ok_def regexId_def idPrefix_def split: if_splits)
  have "\<not> is_id_start CHR ''0''" by code_simp
  with c have "take 2 k \<noteq> ''0x''" by (cases r) auto
  then show "\<not> matches_hex k" by (simp add: matches_hex_def)
  show "CHR ''('' \<in> set k" using n(2) by (simp add: joinParams_def)
qed

end

lemma signed_kind:
  assumes "signed_fragment f"
  shows "is_function f \<or> is_event f \<or> is_error_fragment f \<Longrightarrow>
    \<exists>name ps. signed_ok name ps \<and> Fragment_format Sighash f = Inr (name @ joinParams Sighash ps)"
  using assms sighash_forms by (cases f) (auto simp: signed_fragment_def fragment_kinds)

lemma class_signature:
  assumes "signed_ok name ps"
  shows "\<exists>g. bindE (lex (name @ joinParams Sighash ps)) FunctionFragment_tokens = Inr g \<and>
      Fragment_format Sighash g = Inr (name @ joinParams Sighash ps)"
    and "\<exists>g. bindE (lex (name @ joinParams Sighash ps)) EventFragment_tokens = Inr g \<and>
      Fragment_format Sighash g = Inr (name @ joinParams Sighash ps)"
    and "\<exists>g. bindE (lex (name @ joinParams Sighash ps)) ErrorFragment_tokens = Inr g \<and>
      Fragment_format Sighash g = Inr (name @ joinParams Sighash ps)"
proof -
  have "joinParams Sighash (map bare ps) = joinParams Sighash ps" using assms by (simp add: join_bare signed_ok_def)
  then show "\<exists>g. bindE (lex (name @ joinParams Sighash ps)) FunctionFragment_tokens = Inr g \<and>
      Fragment_format Sighash g = Inr (name @ joinParams Sighash ps)"
    and "\<exists>g. bindE (lex (name @ joinParams Sighash ps)) EventFragment_tokens = Inr g \<and>
      Fragment_format Sighash g = Inr (name @ joinParams Sighash ps)"
    and "\<exists>g. bindE (lex (name @ joinParams Sighash ps)) ErrorFragment_tokens = Inr g \<and>
      Fragment_format Sighash g = Inr (name @ joinParams Sighash ps)"
    unfolding parse_signature [OF assms] using sighash_forms by (metis (no_types))+
qed

interpretation function_class: signature_class FunctionFragment_tokens "\<lambda>f. is_function f \<and> signed_fragment f"
  by unfold_locales (blast intro: signed_kind, rule class_signature)

interpretation event_class: signature_class EventFragment_tokens "\<lambda>f. is_event f \<and> signed_fragment f"
  by unfold_locales (blast intro: signed_kind, rule class_signature)

interpretation error_class: signature_class ErrorFragment_tokens "\<lambda>f. is_error_fragment f \<and> signed_fragment f"
  by unfold_locales (blast intro: signed_kind, rule class_signature)

text \<open>
  C26. Every function, event and error of an \<open>Interface\<close> made from signatures is found
  under its selector text, whatever values are passed along: the text parses again, as
  the class, to a fragment with that same text. Two errors are built in.
\<close>

theorem found_by_signature:
  assumes "new_Interface (map ItemText texts) = Inr ifc"
  shows "((k, f) \<in> set (if_functions ifc) \<longrightarrow> getFunction H ifc k values = Inr (Some f))
    \<and> ((k, f) \<in> set (if_events ifc) \<longrightarrow> getEvent H ifc k values = Inr (Some f))
    \<and> ((k, f) \<in> set (if_errors ifc) \<and> k \<noteq> ''Error(string)'' \<and> k \<noteq> ''Panic(uint256)'' \<longrightarrow> getError H ifc k = Inr (Some f))"
proof -
  have ok: "bucket_ok (\<lambda>f. is_function f \<and> signed_fragment f) (if_functions ifc)"
    "bucket_ok (\<lambda>f. is_event f \<and> signed_fragment f) (if_events ifc)"
    "bucket_ok (\<lambda>f. is_error_fragment f \<and> signed_fragment f) (if_errors ifc)"
    using new_Interface_ok [OF assms parsed_signed] by (simp_all add: interface_ok_def)
  show ?thesis
  proof (intro conjI impI)
    assume k: "(k, f) \<in> set (if_functions ifc)"
    from function_class.key_shape [OF ok(1) k] function_class.found [OF ok(1) k]
    show "getFunction H ifc k values = Inr (Some f)" by (simp add: getFunction_def find_function_def)
  next
    assume k: "(k, f) \<in> set (if_events ifc)"
    from event_class.key_shape [OF ok(2) k] event_class.found [OF ok(2) k]
    show "getEvent H ifc k values = Inr (Some f)" by (simp add: getEvent_def find_event_def)
  next
    assume "(k, f) \<in> set (if_errors ifc) \<and> k \<noteq> ''Error(string)'' \<and> k \<noteq> ''Panic(uint256)''"
    then have k: "(k, f) \<in> set (if_errors ifc)" "k \<noteq> ''Error(string)''" "k \<noteq> ''Panic(uint256)''" by auto
    obtain g where g: "bindE (lex k) ErrorFragment_tokens = Inr g" "Fragment_format Sighash g = Inr k"
      "map_of (if_errors ifc) k = Some f"
      using error_class.found_parse [OF ok(3) k(1)] by blast
    from error_class.key_shape [OF ok(3) k(1)]
    show "getError H ifc k = Inr (Some f)"
      unfolding getError_def ErrorFragment_string_def g(1) using k g by simp
  qed
qed

definition example_abi :: "abi_item list" where
  "example_abi =
     map ItemText
       [''function mint((address to, bytes8)[2] x, uint amount) payable'', ''event Minted(address indexed to, uint)'',
        ''not a signature'', ''error Denied(string why)'']"

lemma example_interface:
  "case new_Interface example_abi of
     Inl _ \<Rightarrow> False
   | Inr ifc \<Rightarrow>
       map fst (if_functions ifc) = [''mint((address,bytes8)[2],uint256)''] \<and>
       map fst (if_events ifc) = [''Minted(address,uint256)''] \<and> map fst (if_errors ifc) = [''Denied(string)'']"
  by code_simp

lemma found_by_signature_witness:
  "\<exists>ifc f g e. new_Interface example_abi = Inr ifc
     \<and> getFunction (\<lambda>_. []) ifc ''mint((address,bytes8)[2],uint256)'' None = Inr (Some f)
     \<and> getEvent (\<lambda>_. []) ifc ''Minted(address,uint256)'' None = Inr (Some g)
     \<and> getError (\<lambda>_. []) ifc ''Denied(string)'' = Inr (Some e)"
proof -
  obtain ifc where i: "new_Interface example_abi = Inr ifc" using example_interface by (auto split: sum.splits)
  have mem: "\<exists>f. (k, f) \<in> set b" if "map fst b = [k]" for k and b :: bucket
    using that by (cases b) auto
  obtain f g e where "(''mint((address,bytes8)[2],uint256)'', f) \<in> set (if_functions ifc)"
    "(''Minted(address,uint256)'', g) \<in> set (if_events ifc)" "(''Denied(string)'', e) \<in> set (if_errors ifc)"
    using example_interface mem unfolding i sum.case by meson
  moreover have "''Denied(string)'' \<noteq> ''Error(string)''" "''Denied(string)'' \<noteq> ''Panic(uint256)''" by simp_all
  ultimately show ?thesis
    using found_by_signature [OF i [unfolded example_abi_def]] i by blast
qed

end
