(* ===== verification/Interface_Calls.thy ===== *)
theory Interface_Calls
  imports Interface_Props
begin

text \<open>
  The data of a call and the log of an event, written and read by an \<open>Interface\<close>.
\<close>

section \<open>Selectors\<close>

text \<open>A signature has no surrogates, so hashing it never fails.\<close>

lemma char_units: "list_all (\<lambda>c. c < 0x10000) (map (of_char :: char \<Rightarrow> nat) s) \<and> highs_paired (map (of_char :: char \<Rightarrow> nat) s)"
proof (induction s)
  case (Cons c s)
  have "(of_char c :: nat) < 256" by simp
  then have "(of_char c :: nat) < 0x10000" "\<not> high_surrogate (of_char c)" unfolding high_surrogate_def by linarith+
  with Cons show ?case by simp
qed simp

lemma topicHash_hex:
  assumes "\<forall>x. length (H x) = 32" and "Fragment_format Sighash f = Inr k"
  obtains h where "length h = 32" and "topicHash H f = Inr (''0x'' @ hex_of_bytes h)"
proof -
  obtain bs where "toUtf8Bytes [] (\<lambda>_. id) (map of_char k) None = Inr bs"
    using utf8_bytes_loop_accepts [of "map of_char k" "[]"] char_units [of k] by (auto simp: toUtf8Bytes_def)
  then have "topicHash H f = Inr (''0x'' @ hex_of_bytes (H bs))"
    using assms(2) by (simp add: topicHash_def id_hash_def sha256_def)
  with assms(1) that show thesis by blast
qed

lemma substring_hex: "4 \<le> length h \<Longrightarrow> js_substring (''0x'' @ hex_of_bytes h) 0 10 = ''0x'' @ hex_of_bytes (take 4 h)"
proof -
  assume h: "4 \<le> length h"
  have "hex_of_bytes h = hex_of_bytes (take 4 h) @ hex_of_bytes (drop 4 h)"
    using hex_of_bytes_simps(3) [of "take 4 h" "drop 4 h"] by simp
  then have "take 8 (hex_of_bytes h) = hex_of_bytes (take 4 h)" using h by simp
  then show ?thesis using h by (simp add: js_substring_def clamp_def)
qed

lemma selector_hex:
  assumes "\<forall>x. length (H x) = 32" and "Fragment_format Sighash f = Inr k"
  obtains s where "length s = 4" and "selector H f = Inr (''0x'' @ hex_of_bytes s)"
proof -
  obtain h where h: "length h = 32" "topicHash H f = Inr (''0x'' @ hex_of_bytes h)" by (rule topicHash_hex [OF assms])
  have "selector H f = Inr (''0x'' @ hex_of_bytes (take 4 h))"
    using h substring_hex [of h] by (simp add: selector_def)
  then show thesis using that [of "take 4 h"] h(1) by simp
qed

lemma find_by_key:
  assumes "(k, f) \<in> set b" and "key f = Inr s"
    and "\<forall>(k', g) \<in> set b. (\<exists>t. key g = Inr t) \<and> (key g = Inr s \<longrightarrow> g = f)"
  shows "find_by key s b = Inr (Some f)"
  using assms(1,3)
proof (induction b)
  case (Cons x b)
  obtain k' g where x: "x = (k', g)" by (cases x)
  from Cons.prems(2) obtain t where t: "key g = Inr t" "t = s \<Longrightarrow> g = f" by (auto simp: x)
  show ?case
  proof (cases "t = s")
    case False
    then have "(k, f) \<in> set b" using Cons.prems(1) t(1) assms(2) by (auto simp: x)
    with Cons False t(1) show ?thesis by (simp add: x)
  qed (use t in \<open>simp add: x\<close>)
qed simp

text \<open>No other function of the interface has the selector of this one.\<close>

definition selector_unique :: "(byte list \<Rightarrow> byte list) \<Rightarrow> bucket \<Rightarrow> fragment \<Rightarrow> bool" where
  "selector_unique H b f \<longleftrightarrow> (\<forall>(k, g) \<in> set b. selector H g = selector H f \<longrightarrow> g = f)"

lemma function_by_selector:
  assumes "new_Interface items = Inr ifc" and "\<forall>x. length (H x) = 32" and "(k, f) \<in> set (if_functions ifc)"
    and "selector_unique H (if_functions ifc) f" and "selector H f = Inr (''0x'' @ hex_of_bytes s)"
  shows "getFunction H ifc (''0x'' @ hex_of_bytes s) values = Inr (Some f)"
proof -
  have ok: "bucket_ok (\<lambda>f. is_function f \<and> True) (if_functions ifc)"
    using new_Interface_ok [OF assms(1), of "\<lambda>_. True"] by (simp add: interface_ok_def list_all_iff)
  have "\<exists>t. selector H g = Inr t" if "(k', g) \<in> set (if_functions ifc)" for k' g
  proof -
    have "Fragment_format Sighash g = Inr k'" using ok that by (auto simp: bucket_ok_def)
    from selector_hex [OF assms(2) this] show ?thesis by blast
  qed
  then have "find_by (selector H) (''0x'' @ hex_of_bytes s) (if_functions ifc) = Inr (Some f)"
    using assms(4,5) by (intro find_by_key [where key = "selector H", OF assms(3,5)]) (auto simp: selector_unique_def)
  moreover have "map to_lower ''0x'' = ''0x''" by code_simp
  ultimately show ?thesis by (simp add: getFunction_def find_function_def)
qed

section \<open>Calls\<close>

lemma encode_selected_bytes:
  assumes "\<forall>x. length (H x) = 32" and "Fragment_format Sighash f = Inr k" and "encode_selected H f values = Inr d"
    and "abi_coder (fragment_inputs f) = Inr coder" and "wf_coder coder" and "canon coder (VArr values) = Inr r"
    and "length d < 2 ^ 53"
  obtains s bs where "length s = 4" and "selector H f = Inr (''0x'' @ hex_of_bytes s)"
    and "d = ''0x'' @ hex_of_bytes (s @ bs)"
    and "\<And>x loose. getBytes x = Inr bs \<Longrightarrow> AbiCoder_decode (fragment_inputs f) x loose = Inr r"
proof -
  obtain s where s: "length s = 4" "selector H f = Inr (''0x'' @ hex_of_bytes s)" by (rule selector_hex [OF assms(1,2)])
  obtain p where p: "AbiCoder_encode (fragment_inputs f) (VArr values) = Inr p"
      "concat_data [DStr (''0x'' @ hex_of_bytes s), DStr p] = Inr d"
    using assms(3) s(2) by (auto simp: encode_selected_def encodeParams_def)
  have "length p < 2 ^ 53" if "p = ''0x'' @ hex_of_bytes bs" for bs
    using p(2) assms(7) that by (auto simp: concat_data_def)
  moreover obtain x where "writer_data x = Inr p"
    using p(1) by (auto simp: AbiCoder_encode_def split: option.splits)
  then obtain bs' where "p = ''0x'' @ hex_of_bytes bs'"
    using concat_data_bytes [of "wdata x"] by (auto simp: writer_data_def)
  ultimately have "length p < 2 ^ 53" by blast
  from encoded_decodes [OF assms(4,5) p(1) assms(6) this] obtain bs where bs: "p = ''0x'' @ hex_of_bytes bs"
    "\<forall>x loose. getBytes x = Inr bs \<longrightarrow> AbiCoder_decode (fragment_inputs f) x loose = Inr r" by blast
  have "d = ''0x'' @ hex_of_bytes (s @ bs)" using p(2) by (auto simp: concat_data_def bs(1))
  with s bs that show thesis by blast
qed

text \<open>
  C27. The data of a call is read back as the call. If the data of a function of an
  \<open>Interface\<close> encode and no other function shares its selector, then
  \<open>parseTransaction\<close> finds the function and gives its name, signature, selector and the
  canonical arguments, and \<open>decodeFunctionData\<close> gives the same arguments.
\<close>

theorem calldata_roundtrip:
  assumes "new_Interface items = Inr ifc" and "\<forall>x. length (H x) = 32" and "(k, f) \<in> set (if_functions ifc)"
    and "selector_unique H (if_functions ifc) f" and "encodeFunctionData H ifc (RefFragment f) values = Inr d"
    and "abi_coder (fragment_inputs f) = Inr coder" and "wf_coder coder" and "canon coder (VArr values) = Inr r"
    and "length d < 2 ^ 53"
  shows "\<exists>s. selector H f = Inr s
    \<and> parseTransaction H ifc (DStr d) None =
        Inr (Some \<lparr>ds_fragment = f, ds_name = fragment_name f, ds_signature = k, ds_key = s, ds_args = r, ds_value = 0\<rparr>)
    \<and> decodeFunctionData H ifc (RefFragment f) (DStr d) = Inr r"
proof -
  have k: "Fragment_format Sighash f = Inr k"
    using new_Interface_ok [OF assms(1), of "\<lambda>_. True"] assms(3) by (auto simp: interface_ok_def bucket_ok_def list_all_iff)
  have e: "encode_selected H f values = Inr d" using assms(5) by (simp add: encodeFunctionData_def resolve_function_def resolve_def)
  obtain s bs where s: "length s = 4" "selector H f = Inr (''0x'' @ hex_of_bytes s)" "d = ''0x'' @ hex_of_bytes (s @ bs)"
    "\<And>x loose. getBytes x = Inr bs \<Longrightarrow> AbiCoder_decode (fragment_inputs f) x loose = Inr r"
    by (rule encode_selected_bytes [OF assms(2) k e assms(6-9)]) blast
  have b: "getBytes (DStr d) = Inr (s @ bs)" using getBytes_hex [of "s @ bs"] s(3) by simp
  have sl: "js_slice (s @ bs) 0 4 = s" "js_slice (s @ bs) 4 (int (length (s @ bs))) = bs"
    using js_slice_nat [of 0 4 "s @ bs"] js_slice_nat [of 4 "length (s @ bs)" "s @ bs"] s(1) by simp_all
  have "getFunction H ifc (''0x'' @ hex_of_bytes s) None = Inr (Some f)"
    by (rule function_by_selector [OF assms(1-4) s(2)])
  moreover have "getBigInt (num_of_size 0) = Inr 0" by code_simp
  moreover have "AbiCoder_decode (fragment_inputs f) (DU8 bs) False = Inr r" by (rule s(4)) (simp add: getBytes_def)
  moreover have "drop 4 (s @ bs) = bs" using s(1) by simp
  ultimately have "parseTransaction H ifc (DStr d) None =
      Inr (Some \<lparr>ds_fragment = f, ds_name = fragment_name f, ds_signature = k, ds_key = ''0x'' @ hex_of_bytes s, ds_args = r, ds_value = 0\<rparr>)"
    using b sl s(2) k by (simp add: parseTransaction_def describe_def)
  moreover have "decodeFunctionData H ifc (RefFragment f) (DStr d) = Inr r"
    using b sl s(1,2) s(4) [of "DStr (''0x'' @ hex_of_bytes bs)"]
    by (simp add: decodeFunctionData_def resolve_function_def resolve_def decode_selected_def dataSlice_def decodeParams_def)
  ultimately show ?thesis using s(2) by blast
qed

definition example_call :: fragment where
  "example_call = FunctionFragment ''f'' ''view'' example_types [] None"

definition example_hash :: "byte list \<Rightarrow> byte list" where
  "example_hash bytes = replicate 32 (of_nat (length bytes))"

lemma example_call_interface:
  "case new_Interface [ItemFragment example_call] of
     Inl _ \<Rightarrow> False | Inr ifc \<Rightarrow> if_functions ifc = [(''f(uint8,bytes)'', example_call)]"
  by code_simp

lemma calldata_roundtrip_witness:
  "\<exists>ifc d s. new_Interface [ItemFragment example_call] = Inr ifc
     \<and> encodeFunctionData example_hash ifc (RefFragment example_call) [VData (DBig 5), VData (DStr ''0xC0ffee'')] = Inr d
     \<and> parseTransaction example_hash ifc (DStr d) None =
         Inr (Some \<lparr>ds_fragment = example_call, ds_name = ''f'', ds_signature = ''f(uint8,bytes)'', ds_key = s,
                    ds_args = VResult [VData (DBig 5), VData (DStr ''0xc0ffee'')] [Some ''a'', Some ''b''], ds_value = 0\<rparr>)"
proof -
  obtain ifc where i: "new_Interface [ItemFragment example_call] = Inr ifc"
    using example_call_interface by (auto split: sum.splits)
  then have b: "if_functions ifc = [(''f(uint8,bytes)'', example_call)]" using example_call_interface by simp
  have h: "\<forall>x. length (example_hash x) = 32" by (simp add: example_hash_def)
  have k: "Fragment_format Sighash example_call = Inr ''f(uint8,bytes)''" by code_simp
  obtain s where s: "length s = 4" "selector example_hash example_call = Inr (''0x'' @ hex_of_bytes s)"
    by (rule selector_hex [OF h k])
  have ins: "fragment_inputs example_call = example_types" "fragment_name example_call = ''f''" by (simp_all add: example_call_def)
  have e: "encodeFunctionData example_hash ifc (RefFragment example_call) [VData (DBig 5), VData (DStr ''0xC0ffee'')] =
      Inr (''0x'' @ hex_of_bytes (s @ example_data))"
    using example_encoded s(2)
    by (simp add: encodeFunctionData_def resolve_function_def resolve_def encode_selected_def encodeParams_def ins
        example_values_def concat_data_def)
  have c: "(''f(uint8,bytes)'', example_call) \<in> set (if_functions ifc)" "selector_unique example_hash (if_functions ifc) example_call"
    by (simp_all add: b selector_unique_def)
  have "\<exists>s. selector example_hash example_call = Inr s
    \<and> parseTransaction example_hash ifc (DStr (''0x'' @ hex_of_bytes (s' @ example_data))) None =
        Inr (Some \<lparr>ds_fragment = example_call, ds_name = fragment_name example_call, ds_signature = ''f(uint8,bytes)'', ds_key = s,
                   ds_args = VResult [VData (DBig 5), VData (DStr ''0xc0ffee'')] [Some ''a'', Some ''b''], ds_value = 0\<rparr>)
    \<and> decodeFunctionData example_hash ifc (RefFragment example_call) (DStr (''0x'' @ hex_of_bytes (s' @ example_data))) =
        Inr (VResult [VData (DBig 5), VData (DStr ''0xc0ffee'')] [Some ''a'', Some ''b''])"
    if "s' = s" for s'
    unfolding that
    by (rule calldata_roundtrip [OF i h c(1) c(2) e example_coder [folded ins(1)]])
      (use s(1) example_canon in \<open>simp_all add: example_values_def length_example_data\<close>)
  with i e show ?thesis unfolding ins by blast
qed

end
