(* ===== verification/Fetch.thy ===== *)
theory Fetch
  imports Address Utf8
begin

text \<open>
  \<open>src.ts/utils/fetch.ts\<close> and the checks of \<open>geturl.ts\<close>: requests and responses, gateways,
  and the loop of \<open>send\<close> with its redirects, throttling and hooks. A hook is a number;
  what it does at an attempt, the wire, the clock and chance are the fields of a
  \<open>fetch_world\<close>. Sending returns, beside the outcome, the requests that reached the wire
  with the time waited before each. Headers are objects in insertion order.
\<close>

section \<open>Headers\<close>

type_synonym headers = "(string \<times> string) list"

fun obj_set :: "string \<Rightarrow> 'a \<Rightarrow> (string \<times> 'a) list \<Rightarrow> (string \<times> 'a) list" where
  "obj_set k v [] = [(k, v)]"
| "obj_set k v ((k', v') # r) = (if k = k' then (k, v) # r else (k', v') # obj_set k v r)"

definition lower_text :: "string \<Rightarrow> string" where
  "lower_text s = map to_lower s"

section \<open>Requests\<close>

record fetch_request =
  rq_allowInsecure :: bool
  rq_gzip :: bool
  rq_headers :: headers
  rq_method :: string
  rq_timeout :: rat
  rq_url :: string
  rq_body :: "byte list option"
  rq_bodyType :: "string option"
  rq_creds :: "string option"
  rq_preflight :: "nat option"
  rq_process :: "nat option"
  rq_retry :: "nat option"
  rq_sent :: bool
  rq_slotInterval :: rat
  rq_maxAttempts :: rat

definition SLOT_INTERVAL :: rat where
  "SLOT_INTERVAL = 250"

definition MAX_ATTEMPTS :: rat where
  "MAX_ATTEMPTS = 12"

definition new_FetchRequest :: "string \<Rightarrow> fetch_request" where
  "new_FetchRequest url =
     \<lparr>rq_allowInsecure = False, rq_gzip = True, rq_headers = [], rq_method = [], rq_timeout = 300000, rq_url = url,
      rq_body = None, rq_bodyType = None, rq_creds = None, rq_preflight = None, rq_process = None, rq_retry = None,
      rq_sent = False, rq_slotInterval = SLOT_INTERVAL, rq_maxAttempts = MAX_ATTEMPTS\<rparr>"

text \<open>A body to set; an object comes with its JSON text.\<close>

datatype fetch_body = BodyNull | BodyText js_units | BodyBytes "byte list" | BodyObject js_units | BodyOther

definition set_body :: "fetch_body \<Rightarrow> fetch_request \<Rightarrow> fetch_request result" where
  "set_body body rq =
     (case body of
        BodyNull \<Rightarrow> Inr (rq\<lparr>rq_body := None, rq_bodyType := None\<rparr>)
      | BodyText u \<Rightarrow> mapE (\<lambda>bs. rq\<lparr>rq_body := Some bs, rq_bodyType := Some ''text/plain''\<rparr>) (toUtf8Bytes [] (\<lambda>_. id) u None)
      | BodyBytes bs \<Rightarrow> Inr (rq\<lparr>rq_body := Some bs, rq_bodyType := Some ''application/octet-stream''\<rparr>)
      | BodyObject u \<Rightarrow> mapE (\<lambda>bs. rq\<lparr>rq_body := Some bs, rq_bodyType := Some ''application/json''\<rparr>) (toUtf8Bytes [] (\<lambda>_. id) u None)
      | BodyOther \<Rightarrow> Inl (JsError NativeError ''invalid body''))"

definition hasBody :: "fetch_request \<Rightarrow> bool" where
  "hasBody rq \<longleftrightarrow> rq_body rq \<noteq> None"

definition get_method :: "fetch_request \<Rightarrow> string" where
  "get_method rq = (if rq_method rq \<noteq> [] then rq_method rq else if hasBody rq then ''POST'' else ''GET'')"

definition set_method :: "string option \<Rightarrow> fetch_request \<Rightarrow> fetch_request" where
  "set_method m rq = rq\<lparr>rq_method := map to_upper (case m of None \<Rightarrow> [] | Some s \<Rightarrow> s)\<rparr>"

text \<open>The headers that are sent; base 64 is the engine's.\<close>

definition get_headers :: "(byte list \<Rightarrow> string) \<Rightarrow> fetch_request \<Rightarrow> headers result" where
  "get_headers base64 rq =
     bindE (case rq_creds rq of
              None \<Rightarrow> Inr (rq_headers rq)
            | Some c \<Rightarrow> if c = [] then Inr (rq_headers rq)
                       else mapE (\<lambda>bs. obj_set ''authorization'' (''Basic '' @ base64 bs) (rq_headers rq))
                              (toUtf8Bytes [] (\<lambda>_. id) (map of_char c) None)) (\<lambda>h.
       let h = (if rq_gzip rq then obj_set ''accept-encoding'' ''gzip'' h else h);
           h = (case rq_bodyType rq of
                  Some t \<Rightarrow> if map_of h ''content-type'' = None then obj_set ''content-type'' t h else h
                | None \<Rightarrow> h);
           h = (case rq_body rq of Some bs \<Rightarrow> obj_set ''content-length'' (nat_toString 10 (length bs)) h | None \<Rightarrow> h)
       in Inr h)"

definition getHeader :: "(byte list \<Rightarrow> string) \<Rightarrow> string \<Rightarrow> fetch_request \<Rightarrow> string option result" where
  "getHeader base64 key rq = mapE (\<lambda>h. map_of h (lower_text key)) (get_headers base64 rq)"

definition setHeader :: "string \<Rightarrow> string \<Rightarrow> fetch_request \<Rightarrow> fetch_request" where
  "setHeader key v rq = rq\<lparr>rq_headers := obj_set (lower_text key) v (rq_headers rq)\<rparr>"

definition clearHeaders :: "fetch_request \<Rightarrow> fetch_request" where
  "clearHeaders rq = rq\<lparr>rq_headers := []\<rparr>"

definition setCredentials :: "string \<Rightarrow> string \<Rightarrow> fetch_request \<Rightarrow> fetch_request result" where
  "setCredentials username password rq =
     bindE (assertArgument (CHR '':'' \<notin> set username) ''invalid basic authentication username'') (\<lambda>_.
       Inr (rq\<lparr>rq_creds := Some (username @ '':'' @ password)\<rparr>))"

definition set_timeout :: "rat \<Rightarrow> fetch_request \<Rightarrow> fetch_request result" where
  "set_timeout t rq = bindE (assertArgument (t \<ge> 0) ''timeout must be non-zero'') (\<lambda>_. Inr (rq\<lparr>rq_timeout := t\<rparr>))"

definition setThrottleParams :: "rat option \<Rightarrow> rat option \<Rightarrow> fetch_request \<Rightarrow> fetch_request" where
  "setThrottleParams slotInterval maxAttempts rq =
     rq\<lparr>rq_slotInterval := (case slotInterval of None \<Rightarrow> rq_slotInterval rq | Some x \<Rightarrow> x),
        rq_maxAttempts := (case maxAttempts of None \<Rightarrow> rq_maxAttempts rq | Some x \<Rightarrow> x)\<rparr>"

text \<open>\<open>url.split(":")[0].toLowerCase()\<close>.\<close>

definition scheme_of :: "string \<Rightarrow> string" where
  "scheme_of url = lower_text (takeWhile (\<lambda>c. c \<noteq> CHR '':'') url)"

definition http_location :: "string \<Rightarrow> bool" where
  "http_location l \<longleftrightarrow> starts_with l ''http:'' \<or> starts_with l ''https:''"

text \<open>Neither the credentials, the hooks nor the throttling parameters go with a redirect.\<close>

definition redirect :: "fetch_request \<Rightarrow> string \<Rightarrow> fetch_request result" where
  "redirect rq location =
     bindE (assert (get_method rq = ''GET'' \<and> (scheme_of (rq_url rq) \<noteq> ''https'' \<or> scheme_of location \<noteq> ''http'') \<and>
                    http_location location) ''unsupported redirect'' UNSUPPORTED_OPERATION) (\<lambda>_.
     bindE (set_timeout (rq_timeout rq) (new_FetchRequest location)) (\<lambda>req.
       Inr (req\<lparr>rq_method := ''GET'', rq_gzip := rq_gzip rq, rq_headers := rq_headers rq,
                rq_body := rq_body rq, rq_bodyType := rq_bodyType rq\<rparr>)))"

text \<open>The copy keeps the default throttling parameters, and gzip if either allows it.\<close>

definition fetch_clone :: "fetch_request \<Rightarrow> fetch_request" where
  "fetch_clone rq =
     (new_FetchRequest (rq_url rq))
       \<lparr>rq_method := rq_method rq, rq_body := rq_body rq, rq_bodyType := rq_bodyType rq, rq_headers := rq_headers rq,
        rq_creds := rq_creds rq, rq_gzip := (if rq_gzip rq then True else rq_gzip (new_FetchRequest (rq_url rq))),
        rq_timeout := rq_timeout rq,
        rq_allowInsecure := (if rq_allowInsecure rq then True else rq_allowInsecure (new_FetchRequest (rq_url rq))),
        rq_preflight := rq_preflight rq, rq_process := rq_process rq, rq_retry := rq_retry rq\<rparr>"

section \<open>Responses\<close>

record fetch_response =
  rs_statusCode :: nat
  rs_statusMessage :: string
  rs_headers :: headers
  rs_body :: "byte list option"
  rs_request :: "fetch_request option"
  rs_error :: string

definition new_FetchResponse ::
  "nat \<Rightarrow> string \<Rightarrow> headers \<Rightarrow> byte list option \<Rightarrow> fetch_request option \<Rightarrow> fetch_response" where
  "new_FetchResponse statusCode statusMessage hs body request =
     \<lparr>rs_statusCode = statusCode, rs_statusMessage = statusMessage,
      rs_headers = fold (\<lambda>(k, v) accum. obj_set (lower_text k) v accum) hs [],
      rs_body = body, rs_request = request, rs_error = []\<rparr>"

definition makeServerError :: "fetch_response \<Rightarrow> string \<Rightarrow> fetch_response" where
  "makeServerError rs message0 =
     (let plain = nat_toString 10 (rs_statusCode rs) @ '' '' @ rs_statusMessage rs;
          message = (if message0 = [] then plain else message0);
          statusMessage = ''CLIENT ESCALATED SERVER ERROR ('' @ (if message0 = [] then plain else plain @ ''; '' @ message0) @ '')''
      in (new_FetchResponse 599 statusMessage (rs_headers rs) (rs_body rs) (rs_request rs))\<lparr>rs_error := message\<rparr>)"

definition response_ok :: "fetch_response \<Rightarrow> bool" where
  "response_ok rs \<longleftrightarrow> rs_error rs = [] \<and> rs_statusCode rs \<ge> 200 \<and> rs_statusCode rs < 300"

definition assertOk :: "fetch_response \<Rightarrow> unit result" where
  "assertOk rs =
     (if response_ok rs then Inr ()
      else assert False
             (if rs_error rs = [] then ''server response '' @ nat_toString 10 (rs_statusCode rs) @ '' '' @ rs_statusMessage rs
              else rs_error rs) SERVER_ERROR)"

definition bodyText :: "fetch_response \<Rightarrow> js_units result" where
  "bodyText rs =
     (case rs_body rs of
        None \<Rightarrow> Inr []
      | Some bs \<Rightarrow> (case toUtf8String (DU8 bs) None of
                     Inr u \<Rightarrow> Inr u
                   | Inl _ \<Rightarrow> Inl (CoreError UNSUPPORTED_OPERATION ''response body is not valid UTF-8 data'')))"

definition response_getHeader :: "string \<Rightarrow> fetch_response \<Rightarrow> string option" where
  "response_getHeader key rs = map_of (rs_headers rs) (lower_text key)"

text \<open>What a hook throws: an error that asks to stall, or another one.\<close>

datatype hook_error = Throttled string rat | Thrown error

definition throwThrottleError :: "string \<Rightarrow> jnum option \<Rightarrow> hook_error" where
  "throwThrottleError message stall =
     (let text = (if message = [] then ''throttling requests'' else message)
      in case stall of
           None \<Rightarrow> Throttled text (-1)
         | Some (Fin q) \<Rightarrow>
             if rat_is_int q \<and> q \<ge> 0 then Throttled text q else Thrown (CoreError INVALID_ARGUMENT ''invalid stall timeout'')
         | Some _ \<Rightarrow> Thrown (CoreError INVALID_ARGUMENT ''invalid stall timeout''))"

section \<open>Cancelling\<close>

text \<open>The listeners of a signal, and those whose call is scheduled.\<close>

record cancel_signal =
  cs_listeners :: "nat list"
  cs_cancelled :: bool
  cs_scheduled :: "nat list"

definition new_FetchCancelSignal :: cancel_signal where
  "new_FetchCancelSignal = \<lparr>cs_listeners = [], cs_cancelled = False, cs_scheduled = []\<rparr>"

definition addListener :: "nat \<Rightarrow> cancel_signal \<Rightarrow> cancel_signal result" where
  "addListener l s =
     bindE (assert (\<not> cs_cancelled s) ''singal already cancelled'' UNSUPPORTED_OPERATION) (\<lambda>_.
       Inr (s\<lparr>cs_listeners := cs_listeners s @ [l]\<rparr>))"

definition cancel_signal_fire :: "cancel_signal \<Rightarrow> cancel_signal" where
  "cancel_signal_fire s =
     (if cs_cancelled s then s
      else s\<lparr>cs_cancelled := True, cs_scheduled := cs_scheduled s @ cs_listeners s, cs_listeners := []\<rparr>)"

definition fetch_cancel :: "fetch_request \<Rightarrow> cancel_signal \<Rightarrow> cancel_signal result" where
  "fetch_cancel rq s =
     bindE (assert (rq_sent rq) ''request has not been sent'' UNSUPPORTED_OPERATION) (\<lambda>_. Inr (cancel_signal_fire s))"

section \<open>Gateways\<close>

datatype gateway = DataGateway | IpfsGateway string | HookGateway nat

record fetch_config =
  fc_gateways :: "(string \<times> gateway) list"
  fc_locked :: bool
  fc_getUrl :: "nat option"

definition Gateways :: "(string \<times> gateway) list" where
  "Gateways = [(''data'', DataGateway), (''ipfs'', IpfsGateway ''https://gateway.ipfs.io/ipfs/'')]"

definition fetch_initial :: fetch_config where
  "fetch_initial = \<lparr>fc_gateways = Gateways, fc_locked = False, fc_getUrl = None\<rparr>"

definition lockConfig :: "fetch_config \<Rightarrow> fetch_config" where
  "lockConfig c = c\<lparr>fc_locked := True\<rparr>"

definition getGateway :: "string \<Rightarrow> fetch_config \<Rightarrow> gateway option" where
  "getGateway scheme c = map_of (fc_gateways c) (lower_text scheme)"

definition registerGateway :: "string \<Rightarrow> gateway \<Rightarrow> fetch_config \<Rightarrow> fetch_config result" where
  "registerGateway scheme func c =
     (let s = lower_text scheme
      in if s = ''http'' \<or> s = ''https'' then Inl (JsError NativeError (''cannot intercept '' @ s @ ''; use registerGetUrl''))
         else if fc_locked c then Inl (JsError NativeError ''gateways locked'')
         else Inr (c\<lparr>fc_gateways := obj_set s func (fc_gateways c)\<rparr>))"

definition registerGetUrl :: "nat \<Rightarrow> fetch_config \<Rightarrow> fetch_config result" where
  "registerGetUrl h c =
     (if fc_locked c then Inl (JsError NativeError ''gateways locked'') else Inr (c\<lparr>fc_getUrl := Some h\<rparr>))"

text \<open>
  \<open>/^data:([^;:]*)?(;base64)?,(.*)$/i\<close>: the longest first group that leaves a comma, so
  without \<open>;base64\<close> the comma is the last one before a colon or semicolon.
\<close>

definition data_match :: "string \<Rightarrow> (string \<times> bool \<times> string) option" where
  "data_match url =
     (if lower_text (take 5 url) \<noteq> ''data:'' then None
      else let run = takeWhile (\<lambda>c. c \<noteq> CHR '';'' \<and> c \<noteq> CHR '':'') (drop 5 url);
               after = drop (length run) (drop 5 url);
               rest = takeWhile (\<lambda>c. c \<noteq> CHR '','') (rev run);
               content = rev rest @ after
           in if lower_text (take 8 after) = '';base64,''
              then (if list_ex is_line_terminator (drop 8 after) then None else Some (run, True, drop 8 after))
              else if length rest = length run \<or> list_ex is_line_terminator content then None
              else Some (take (length run - length rest - 1) run, False, content))"

definition ipfs_match :: "string \<Rightarrow> string option" where
  "ipfs_match url =
     (if lower_text (take 7 url) \<noteq> ''ipfs://'' then None
      else let r = drop 7 url; rest = (if lower_text (take 5 r) = ''ipfs/'' then drop 5 r else r)
           in if list_ex is_line_terminator rest then None else Some rest)"

text \<open>The bytes of the text where each \<open>%xx\<close> is replaced by its character.\<close>

fun unpercent_text :: "string \<Rightarrow> string" where
  "unpercent_text [] = []"
| "unpercent_text (c # r) =
     (case r of
        a # b # r' \<Rightarrow>
          if c = CHR ''%'' \<and> is_hex_char a \<and> is_hex_char b
          then char_of (unat (toUint8 (parseInt16 [a, b]))) # unpercent_text r'
          else c # unpercent_text r
      | _ \<Rightarrow> c # unpercent_text r)"

definition unpercent :: "string \<Rightarrow> byte list result" where
  "unpercent s = toUtf8Bytes [] (\<lambda>_. id) (map of_char (unpercent_text s)) None"

text \<open>A base URL and what follows the scheme.\<close>

definition gatewayIpfs :: "string \<Rightarrow> string \<Rightarrow> fetch_request + fetch_response" where
  "gatewayIpfs baseUrl url =
     (case ipfs_match url of
        Some rest \<Rightarrow> Inl (new_FetchRequest (baseUrl @ rest))
      | None \<Rightarrow> Inr (new_FetchResponse 599 ''BAD REQUEST (invalid IPFS URI)'' [] None (Some (new_FetchRequest url))))"

definition dataGatewayFunc :: "(string \<Rightarrow> byte list result) \<Rightarrow> string \<Rightarrow> fetch_response" where
  "dataGatewayFunc decodeBase64 url =
     (case data_match url of
        Some (type, is64, content) \<Rightarrow>
          (case (if is64 then decodeBase64 content else unpercent content) of
             Inr bs \<Rightarrow> new_FetchResponse 200 ''OK'' [(''content-type'', if type = [] then ''text/plain'' else type)] (Some bs) None
           | Inl _ \<Rightarrow> new_FetchResponse 599 ''BAD REQUEST (invalid data: URI)'' [] None (Some (new_FetchRequest url)))
      | None \<Rightarrow> new_FetchResponse 599 ''BAD REQUEST (invalid data: URI)'' [] None (Some (new_FetchRequest url)))"

section \<open>Sending\<close>

text \<open>\<open>GetUrlResponse\<close>.\<close>

record url_response =
  ur_statusCode :: nat
  ur_statusMessage :: string
  ur_headers :: headers
  ur_body :: "byte list option"

text \<open>
  The surroundings of a request, at each attempt: the clock and chance, whether it is
  cancelled by a check, the wire, and the hooks.
\<close>

record fetch_world =
  fw_time :: "nat \<Rightarrow> rat"
  fw_random :: "nat \<Rightarrow> rat"
  fw_cancelled :: "nat \<Rightarrow> nat \<Rightarrow> bool"
  fw_wire :: "nat \<Rightarrow> fetch_request \<Rightarrow> url_response result"
  fw_getUrl :: "nat \<Rightarrow> nat \<Rightarrow> fetch_request \<Rightarrow> url_response result"
  fw_gateway :: "nat \<Rightarrow> nat \<Rightarrow> string \<Rightarrow> (fetch_request + fetch_response) result"
  fw_preflight :: "nat \<Rightarrow> nat \<Rightarrow> fetch_request \<Rightarrow> fetch_request result"
  fw_process :: "nat \<Rightarrow> nat \<Rightarrow> fetch_request \<Rightarrow> fetch_response \<Rightarrow> hook_error + fetch_response"
  fw_retry :: "nat \<Rightarrow> nat \<Rightarrow> fetch_request \<Rightarrow> fetch_response \<Rightarrow> bool result"
  fw_decodeBase64 :: "string \<Rightarrow> byte list result"
  fw_gunzip :: "byte list \<Rightarrow> byte list result"

definition checkSignal :: "fetch_world \<Rightarrow> nat \<Rightarrow> nat \<Rightarrow> unit result" where
  "checkSignal W attempt i = assert (\<not> fw_cancelled W attempt i) ''cancelled'' CANCELLED"

text \<open>What \<open>getUrl\<close> checks before it connects, and the body it collects.\<close>

definition getUrl_checks :: "fetch_request \<Rightarrow> unit result" where
  "getUrl_checks req =
     (let protocol = scheme_of (rq_url req)
      in bindE (assert (protocol = ''http'' \<or> protocol = ''https'') (''unsupported protocol '' @ protocol) UNSUPPORTED_OPERATION)
           (\<lambda>_. assert (protocol = ''https'' \<or> (case rq_creds req of None \<Rightarrow> True | Some c \<Rightarrow> c = []) \<or> rq_allowInsecure req)
                  ''insecure authorized connections unsupported'' UNSUPPORTED_OPERATION))"

definition getUrl_body :: "fetch_world \<Rightarrow> url_response \<Rightarrow> url_response result" where
  "getUrl_body W ur =
     (case ur_body ur of
        Some bs \<Rightarrow>
          if map_of (ur_headers ur) ''content-encoding'' = Some ''gzip''
          then mapE (\<lambda>b. ur\<lparr>ur_body := Some b\<rparr>) (fw_gunzip W bs) else Inr ur
      | None \<Rightarrow> Inr ur)"

definition run_getUrl :: "fetch_world \<Rightarrow> fetch_config \<Rightarrow> nat \<Rightarrow> fetch_request \<Rightarrow> url_response result" where
  "run_getUrl W C attempt req =
     (case fc_getUrl C of
        None \<Rightarrow> bindE (fw_wire W attempt req) (getUrl_body W)
      | Some h \<Rightarrow> fw_getUrl W h attempt req)"

text \<open>An error in a processing hook that is not a throttle is thrown as a server error.\<close>

definition processing_failed :: "fetch_response \<Rightarrow> 'a result" where
  "processing_failed response =
     (case assertOk (makeServerError response ''error in post-processing function'') of
        Inl e \<Rightarrow> Inl e | Inr _ \<Rightarrow> Inl (JsError NativeError []))"

text \<open>The answer of a gateway, processed, or the request to send.\<close>

datatype fetch_ready = Answer fetch_response | Ready fetch_request

definition gateway_answer ::
  "fetch_world \<Rightarrow> nat \<Rightarrow> fetch_request \<Rightarrow> fetch_request \<Rightarrow> fetch_response \<Rightarrow> fetch_response result" where
  "gateway_answer W attempt this req response =
     (case rq_process this of
        None \<Rightarrow> Inr response
      | Some h \<Rightarrow>
          bindE (checkSignal W attempt 1) (\<lambda>_.
            case fw_process W h attempt req response of
              Inr r \<Rightarrow> Inr r
            | Inl (Throttled _ _) \<Rightarrow> Inr response
            | Inl (Thrown _) \<Rightarrow> processing_failed response))"

definition run_gateway ::
  "fetch_world \<Rightarrow> nat \<Rightarrow> gateway \<Rightarrow> string \<Rightarrow> (fetch_request + fetch_response) result" where
  "run_gateway W attempt g url =
     (case g of
        DataGateway \<Rightarrow> Inr (Inr (dataGatewayFunc (fw_decodeBase64 W) url))
      | IpfsGateway baseUrl \<Rightarrow> Inr (gatewayIpfs baseUrl url)
      | HookGateway h \<Rightarrow> fw_gateway W h attempt url)"

definition fetch_prepare :: "fetch_world \<Rightarrow> fetch_config \<Rightarrow> nat \<Rightarrow> fetch_request \<Rightarrow> fetch_ready result" where
  "fetch_prepare W C attempt this =
     (let req = fetch_clone this
      in bindE (case map_of (fc_gateways C) (scheme_of (rq_url req)) of
                  None \<Rightarrow> Inr (Ready req)
                | Some g \<Rightarrow>
                    bindE (checkSignal W attempt 0) (\<lambda>_.
                    bindE (run_gateway W attempt g (rq_url req)) (\<lambda>r.
                      case r of
                        Inl req' \<Rightarrow> Inr (Ready req')
                      | Inr response \<Rightarrow> mapE Answer (gateway_answer W attempt this req response))))
           (\<lambda>r. case r of
                  Answer a \<Rightarrow> Inr (Answer a)
                | Ready req \<Rightarrow>
                    (case rq_preflight this of
                       None \<Rightarrow> Inr (Ready req)
                     | Some h \<Rightarrow> mapE Ready (fw_preflight W h attempt req))))"

definition backoff :: "fetch_world \<Rightarrow> nat \<Rightarrow> fetch_request \<Rightarrow> rat" where
  "backoff W attempt this = rq_slotInterval this * of_int (rat_trunc (fw_random W attempt * 2 ^ attempt))"

text \<open>\<open>/^[1-9][0-9]*$/\<close>, and its number taken for milliseconds.\<close>

definition retry_delay :: "fetch_world \<Rightarrow> nat \<Rightarrow> fetch_request \<Rightarrow> fetch_response \<Rightarrow> rat" where
  "retry_delay W attempt this response =
     (case map_of (rs_headers response) ''retry-after'' of
        Some (c # ds) \<Rightarrow>
          if is_digit10 c \<and> c \<noteq> CHR ''0'' \<and> list_all is_digit10 ds then of_nat (dec_value (c # ds))
          else backoff W attempt this
      | _ \<Rightarrow> backoff W attempt this)"

text \<open>What follows a response: the end, or another attempt of a request after a delay.\<close>

datatype fetch_next = Done "fetch_response result" | Again rat fetch_request

definition process_response ::
  "fetch_world \<Rightarrow> nat \<Rightarrow> fetch_request \<Rightarrow> fetch_request \<Rightarrow> fetch_response \<Rightarrow> fetch_next" where
  "process_response W attempt this req response =
     (case rq_process this of
        None \<Rightarrow> Done (Inr response)
      | Some h \<Rightarrow>
          (case checkSignal W attempt 3 of
             Inl e \<Rightarrow> Done (Inl e)
           | Inr _ \<Rightarrow>
               (case fw_process W h attempt req response of
                  Inr r \<Rightarrow> Done (Inr r)
                | Inl (Thrown _) \<Rightarrow> Done (processing_failed response)
                | Inl (Throttled _ stall) \<Rightarrow>
                    Again (if stall \<ge> 0 then stall else backoff W attempt this) (fetch_clone req))))"

definition fetch_after ::
  "fetch_world \<Rightarrow> nat \<Rightarrow> fetch_request \<Rightarrow> fetch_request \<Rightarrow> fetch_response \<Rightarrow> fetch_next" where
  "fetch_after W attempt this req response =
     (if rs_statusCode response = 301 \<or> rs_statusCode response = 302
      then (case redirect req (case map_of (rs_headers response) ''location'' of None \<Rightarrow> [] | Some l \<Rightarrow> l) of
              Inr next \<Rightarrow> Again 0 next
            | Inl _ \<Rightarrow> Done (Inr response))
      else if rs_statusCode response = 429
      then (case (case rq_retry this of None \<Rightarrow> Inr True | Some h \<Rightarrow> fw_retry W h attempt req response) of
              Inl e \<Rightarrow> Done (Inl e)
            | Inr True \<Rightarrow> Again (retry_delay W attempt this response) (fetch_clone req)
            | Inr False \<Rightarrow> process_response W attempt this req response)
      else process_response W attempt this req response)"

text \<open>The checks right before the wire.\<close>

definition fetch_checks :: "fetch_world \<Rightarrow> fetch_config \<Rightarrow> nat \<Rightarrow> fetch_request \<Rightarrow> unit result" where
  "fetch_checks W C attempt req =
     bindE (checkSignal W attempt 2) (\<lambda>_. if fc_getUrl C = None then getUrl_checks req else Inr ())"

lemma redirect_attempts: "redirect rq l = Inr rq' \<Longrightarrow> rq_maxAttempts rq' = MAX_ATTEMPTS"
  by (auto simp: redirect_def set_timeout_def new_FetchRequest_def)

lemma clone_attempts: "rq_maxAttempts (fetch_clone rq) = MAX_ATTEMPTS"
  by (simp add: fetch_clone_def new_FetchRequest_def)

lemma after_attempts: "fetch_after W attempt this req response = Again d next \<Longrightarrow> rq_maxAttempts next = MAX_ATTEMPTS"
  by (auto simp: fetch_after_def process_response_def clone_attempts redirect_attempts
      split: if_splits sum.splits option.splits hook_error.splits bool.splits)

definition attempts_left :: "fetch_request \<Rightarrow> nat \<Rightarrow> nat" where
  "attempts_left this attempt = (if rq_maxAttempts this = MAX_ATTEMPTS then 12 - attempt else 13)"

type_synonym fetch_outcome = "(rat \<times> fetch_request) list \<times> fetch_response result"

function fetch_send ::
  "fetch_world \<Rightarrow> fetch_config \<Rightarrow> nat \<Rightarrow> rat \<Rightarrow> rat \<Rightarrow> fetch_request \<Rightarrow> fetch_request \<Rightarrow> fetch_response \<Rightarrow> fetch_outcome"
where
  "fetch_send W C attempt expires delay this origin response0 =
     (if of_nat attempt \<ge> rq_maxAttempts this then ([], Inr (makeServerError response0 ''exceeded maximum retry limit''))
      else case assert (fw_time W attempt \<le> expires) ''timeout'' TIMEOUT of
             Inl e \<Rightarrow> ([], Inl e)
           | Inr _ \<Rightarrow>
      (case fetch_prepare W C attempt this of
         Inl e \<Rightarrow> ([], Inl e)
       | Inr (Answer r) \<Rightarrow> ([], Inr r)
       | Inr (Ready req) \<Rightarrow>
      (case fetch_checks W C attempt req of
         Inl e \<Rightarrow> ([], Inl e)
       | Inr _ \<Rightarrow>
      (case run_getUrl W C attempt req of
         Inl e \<Rightarrow> ([(delay, req)], Inl e)
       | Inr ur \<Rightarrow>
           (let response = new_FetchResponse (ur_statusCode ur) (ur_statusMessage ur) (ur_headers ur) (ur_body ur) (Some origin)
            in case fetch_after W attempt this req response of
                 Done r \<Rightarrow> ([(delay, req)], r)
               | Again d next \<Rightarrow>
                   (case fetch_send W C (attempt + 1) expires d next origin response of
                      (sent, r) \<Rightarrow> ((delay, req) # sent, r)))))))"
  by pat_completeness auto
termination
  by (relation "measure (\<lambda>(_, _, attempt, _, _, this, _, _). attempts_left this attempt)")
     (auto simp: attempts_left_def MAX_ATTEMPTS_def dest: after_attempts)

declare fetch_send.simps [simp del]

text \<open>The request after it was sent, and the outcome; \<open>now\<close> is the time of the call.\<close>

definition fetch_start ::
  "fetch_world \<Rightarrow> fetch_config \<Rightarrow> rat \<Rightarrow> fetch_request \<Rightarrow> (fetch_request \<times> fetch_outcome) result" where
  "fetch_start W C now rq =
     bindE (assert (\<not> rq_sent rq) ''request already sent'' UNSUPPORTED_OPERATION) (\<lambda>_.
       let this = rq\<lparr>rq_sent := True\<rparr>
       in Inr (this, fetch_send W C 0 (now + rq_timeout this) 0 this this (new_FetchResponse 0 [] [] None (Some this))))"

end
