(* ===== verification/Ccip.thy ===== *)
theory Ccip
  imports Provider_Requests Fetch Abi
begin

text \<open>
  Calls with off-chain lookups (CCIP read) of \<open>src.ts/providers/abstract-provider.ts\<close>: a
  call that reverts with \<open>OffchainLookup\<close> names URLs to ask; what one of them answers is
  handed back to the contract in another call.
\<close>

section \<open>Reading the lookup\<close>

definition parseBytes :: "string \<Rightarrow> int \<Rightarrow> string option" where
  "parseBytes data start =
     (if data = ''0x'' then None
      else case bindE (bindE (dataSlice (DStr data) (Some start) (Some (start + 32))) (\<lambda>w. getNumber (DStr w))) (\<lambda>offset.
                bindE (bindE (dataSlice (DStr data) (Some offset) (Some (offset + 32))) (\<lambda>w. getNumber (DStr w))) (\<lambda>len.
                  dataSlice (DStr data) (Some (offset + 32)) (Some (offset + 32 + len)))) of
             Inl _ \<Rightarrow> None
           | Inr bytes \<Rightarrow> Some bytes)"

definition parseString :: "string \<Rightarrow> int \<Rightarrow> js_units option" where
  "parseString data start =
     (case parseBytes data start of
        None \<Rightarrow> None
      | Some bytes \<Rightarrow> (case toUtf8String (DStr bytes) None of Inl _ \<Rightarrow> None | Inr u \<Rightarrow> Some u))"

record ccip_args =
  ca_sender :: string
  ca_urls :: "js_units list"
  ca_selector :: string
  ca_calldata :: string
  ca_extraData :: string

text \<open>The loop over the URLs; it reads one more only after the last was read.\<close>

fun parse_urls :: "string \<Rightarrow> int list \<Rightarrow> js_units list option" where
  "parse_urls urlsData [] = Some []"
| "parse_urls urlsData (u # us) =
     (case parseString urlsData (u * 32) of
        None \<Rightarrow> None
      | Some url \<Rightarrow> map_option ((#) url) (parse_urls urlsData us))"

definition url_list :: "string \<Rightarrow> js_units list option" where
  "url_list data =
     (case bindE (bindE (dataSlice (DStr data) (Some 32) (Some 64)) (\<lambda>w. getNumber (DStr w))) (\<lambda>urlsOffset.
           bindE (bindE (dataSlice (DStr data) (Some urlsOffset) (Some (urlsOffset + 32))) (\<lambda>w. getNumber (DStr w))) (\<lambda>urlsLength.
           bindE (dataSlice (DStr data) (Some (urlsOffset + 32)) None) (\<lambda>urlsData. Inr (urlsLength, urlsData)))) of
        Inl _ \<Rightarrow> None
      | Inr (urlsLength, urlsData) \<Rightarrow> parse_urls urlsData (map int [0 ..< nat urlsLength]))"

definition found :: "'a option \<Rightarrow> string \<Rightarrow> 'a result" where
  "found x message = (case x of None \<Rightarrow> Inl (CoreError OFFCHAIN_FAULT message) | Some y \<Rightarrow> Inr y)"

text \<open>The word of zeros is compared as text.\<close>

definition zero_text :: "nat \<Rightarrow> string" where
  "zero_text n = ''0x'' @ replicate (2 * n) CHR ''0''"

definition parseOffchainLookup :: "string \<Rightarrow> ccip_args result" where
  "parseOffchainLookup data =
     bindE (dataLength (DStr data)) (\<lambda>n.
     bindE (assert (n \<ge> 5 * 32) ''insufficient OffchainLookup data'' OFFCHAIN_FAULT) (\<lambda>_.
     bindE (dataSlice (DStr data) (Some 0) (Some 32)) (\<lambda>sender.
     bindE (dataSlice (DStr sender) (Some 0) (Some 12)) (\<lambda>front.
     bindE (assert (front = zero_text 12) ''corrupt OffchainLookup sender'' OFFCHAIN_FAULT) (\<lambda>_.
     bindE (dataSlice (DStr sender) (Some 12) None) (\<lambda>sender.
     bindE (found (url_list data) ''corrupt OffchainLookup urls'') (\<lambda>urls.
     bindE (found (parseBytes data 64) ''corrupt OffchainLookup calldata'') (\<lambda>calldata.
     bindE (dataSlice (DStr data) (Some 100) (Some 128)) (\<lambda>rest.
     bindE (assert (rest = zero_text 28) ''corrupt OffchainLookup callbaackSelector'' OFFCHAIN_FAULT) (\<lambda>_.
     bindE (dataSlice (DStr data) (Some 96) (Some 100)) (\<lambda>selector.
     bindE (found (parseBytes data 128) ''corrupt OffchainLookup extraData'') (\<lambda>extraData.
       Inr \<lparr>ca_sender = sender, ca_urls = urls, ca_selector = selector, ca_calldata = calldata,
            ca_extraData = extraData\<rparr>))))))))))))"

section \<open>Encoding the answer\<close>

definition numPad :: "nat \<Rightarrow> byte list result" where
  "numPad val =
     bindE (toBeArray (DNum (num_of_int (int val)))) (\<lambda>result.
       if length result > 32 then Inl (JsError NativeError ''internal; should not happen'')
       else Inr (replicate (32 - length result) 0 @ result))"

definition bytesPad :: "byte list \<Rightarrow> byte list" where
  "bytesPad val =
     (if length val mod 32 = 0 then val
      else val @ replicate ((length val + 31) div 32 * 32 - length val) 0)"

text \<open>The second loop: the offsets that replace the place-holders, and what follows them.\<close>

fun encodeBytes_loop :: "js_data list \<Rightarrow> nat \<Rightarrow> (byte list list \<times> byte list list) result" where
  "encodeBytes_loop [] byteCount = Inr ([], [])"
| "encodeBytes_loop (d # datas) byteCount =
     bindE (getBytes d) (\<lambda>data.
     bindE (numPad byteCount) (\<lambda>pointer.
     bindE (numPad (length data)) (\<lambda>len.
     bindE (encodeBytes_loop datas (byteCount + 32 + (length data + 31) div 32 * 32)) (\<lambda>(pointers, items).
       Inr (pointer # pointers, [len, bytesPad data] @ items)))))"

definition encodeBytes :: "js_data list \<Rightarrow> string result" where
  "encodeBytes datas =
     bindE (encodeBytes_loop datas (32 * length datas)) (\<lambda>(pointers, items).
       concat_data (map DU8 (pointers @ items)))"

section \<open>Asking the URLs\<close>

text \<open>\<open>String.prototype.replace\<close> of the first occurrence, and \<open>indexOf\<close>.\<close>

fun replace_first :: "js_units \<Rightarrow> js_units \<Rightarrow> js_units \<Rightarrow> js_units" where
  "replace_first pat by [] = (if pat = [] then by else [])"
| "replace_first pat by (c # cs) =
     (if starts_with (c # cs) pat then by @ drop (length pat) (c # cs) else c # replace_first pat by cs)"

fun has_text :: "js_units \<Rightarrow> js_units \<Rightarrow> bool" where
  "has_text pat [] \<longleftrightarrow> pat = []"
| "has_text pat (c # cs) \<longleftrightarrow> starts_with (c # cs) pat \<or> has_text pat cs"

definition text_units :: "string \<Rightarrow> js_units" where
  "text_units s = map of_char s"

text \<open>
  What \<open>bodyJson\<close> has: a field that is missing or falsy, a text, or something else, with
  how it is printed and its JSON text; reading a field of \<open>null\<close> throws.
\<close>

datatype json_field = NoField | TextField string | OtherField string string

datatype ccip_json = JsonNull | JsonWith json_field json_field

text \<open>How a call ends: it returns, it reverts with data, or it fails otherwise.\<close>

datatype call_error = Reverted "string option" | CallFailed error

text \<open>
  The surroundings of the \<open>attempt\<close>-th call: what the node answers, how requests go out
  for its \<open>i\<close>-th URL, \<open>JSON.parse\<close>, and how requests spell a URL.
\<close>

record ccip_world =
  cw_perform :: "nat \<Rightarrow> transaction_request \<Rightarrow> string \<Rightarrow> call_error + js_data"
  cw_fetch :: "nat \<Rightarrow> nat \<Rightarrow> fetch_world \<times> fetch_config \<times> rat"
  cw_parse :: "js_units \<Rightarrow> ccip_json result"
  cw_url :: "js_units \<Rightarrow> string"
  cw_disabled :: bool

definition send_request :: "fetch_world \<times> fetch_config \<times> rat \<Rightarrow> fetch_request \<Rightarrow> fetch_response result" where
  "send_request w rq = (case w of (W, C, now) \<Rightarrow> bindE (fetch_start W C now rq) (\<lambda>(_, _, r). r))"

definition bodyJson :: "(js_units \<Rightarrow> ccip_json result) \<Rightarrow> fetch_response \<Rightarrow> ccip_json result" where
  "bodyJson parse response =
     (case bindE (bodyText response) parse of
        Inr j \<Rightarrow> Inr j
      | Inl _ \<Rightarrow> Inl (CoreError UNSUPPORTED_OPERATION ''response body is not valid JSON''))"

definition ccip_request :: "(js_units \<Rightarrow> string) \<Rightarrow> string \<Rightarrow> string \<Rightarrow> js_units \<Rightarrow> fetch_request result" where
  "ccip_request spell sender data url =
     (let href = replace_first (text_units ''{data}'') (text_units data) (replace_first (text_units ''{sender}'') (text_units sender) url);
          request = new_FetchRequest (spell href)
      in if has_text (text_units ''{data}'') url then Inr request
         else set_body (BodyObject (text_units (''{'' @ json_quote ''data'' @ '':'' @ json_quote data @ '','' @
                          json_quote ''sender'' @ '':'' @ json_quote sender @ ''}''))) request)"

text \<open>What an answer that is no result tells.\<close>

definition answer_message :: "ccip_json result \<Rightarrow> json_field" where
  "answer_message j =
     (case j of Inr (JsonWith _ m) \<Rightarrow> (if m = NoField then TextField ''unknown error'' else m) | _ \<Rightarrow> TextField ''unknown error'')"

definition message_text :: "json_field \<Rightarrow> string" where
  "message_text m = (case m of TextField s \<Rightarrow> s | OtherField s _ \<Rightarrow> s | NoField \<Rightarrow> [])"

definition message_json :: "json_field \<Rightarrow> string" where
  "message_json m = (case m of TextField s \<Rightarrow> json_quote s | OtherField _ j \<Rightarrow> j | NoField \<Rightarrow> [])"

text \<open>The loop over the URLs; a result is a text or a value that is no \<open>BytesLike\<close>.\<close>

fun ccip_urls :: "ccip_world \<Rightarrow> nat \<Rightarrow> string \<Rightarrow> string \<Rightarrow> js_units list \<Rightarrow> nat \<Rightarrow> json_field list \<Rightarrow> json_field result" where
  "ccip_urls W attempt sender data [] i messages =
     Inl (CoreError OFFCHAIN_FAULT (''error encountered during CCIP fetch: '' @
            join_with '', '' (map message_json messages)))"
| "ccip_urls W attempt sender data (url # urls) i messages =
     bindE (ccip_request (cw_url W) sender data url) (\<lambda>request.
     bindE (send_request (cw_fetch W attempt i) request) (\<lambda>resp.
       let j = bodyJson (cw_parse W) resp
       in case (case j of Inr (JsonWith d _) \<Rightarrow> d | _ \<Rightarrow> NoField) of
            NoField \<Rightarrow>
              bindE (assert (rs_statusCode resp < 400 \<or> rs_statusCode resp \<ge> 500)
                       (''response not found during CCIP fetch: '' @ message_text (answer_message j)) OFFCHAIN_FAULT) (\<lambda>_.
                ccip_urls W attempt sender data urls (Suc i) (messages @ [answer_message j]))
          | d \<Rightarrow> Inr d))"

definition ccipReadFetch :: "ccip_world \<Rightarrow> nat \<Rightarrow> string option \<Rightarrow> string \<Rightarrow> js_units list \<Rightarrow> json_field option result" where
  "ccipReadFetch W attempt to calldata urls =
     (case to of
        None \<Rightarrow> Inr None
      | Some t \<Rightarrow> if cw_disabled W \<or> urls = [] then Inr None
                  else mapE Some (ccip_urls W attempt (map to_lower t) (map to_lower calldata) urls 0 []))"

section \<open>Calls\<close>

definition MAX_CCIP_REDIRECTS :: int where
  "MAX_CCIP_REDIRECTS = 10"

text \<open>An object with nothing but a recipient and data.\<close>

definition follow_up :: "string \<Rightarrow> string \<Rightarrow> transaction_request" where
  "follow_up to data =
     \<lparr>tr_to = Some (AStr to), tr_from = None, tr_data = Some (DStr data), tr_networkId = None, tr_energyLimit = None,
      tr_energyPrice = None, tr_value = None, tr_type = None, tr_nonce = None, tr_blockTag = None,
      tr_enableCcipRead = False, tr_customData = None\<rparr>"

definition is_lookup :: "ccip_world \<Rightarrow> transaction_request \<Rightarrow> string \<Rightarrow> int \<Rightarrow> string \<Rightarrow> bool result" where
  "is_lookup W transaction blockTag attempt data =
     (if \<not> cw_disabled W \<and> data \<noteq> [] \<and> attempt \<ge> 0 \<and> blockTag = ''latest'' \<and> tr_to transaction \<noteq> None
      then mapE (\<lambda>s. s = ''0x556f1830'') (dataSlice (DStr data) (Some 0) (Some 4))
      else Inr False)"

text \<open>The recipient of a performed transaction is text.\<close>

definition to_text :: "transaction_request \<Rightarrow> string option" where
  "to_text tx = (case tr_to tx of Some (AStr s) \<Rightarrow> Some s | _ \<Rightarrow> None)"

definition lookup_args :: "string \<Rightarrow> ccip_args result" where
  "lookup_args data =
     bindE (dataSlice (DStr data) (Some 4) None) (\<lambda>rest.
       parseOffchainLookup rest)"

definition bad_lookup :: "'a result \<Rightarrow> 'a result" where
  "bad_lookup r = (case r of Inl e \<Rightarrow> Inl (CoreError OFFCHAIN_FAULT (error_message e)) | Inr x \<Rightarrow> Inr x)"

text \<open>The next call after a lookup: its recipient and its data.\<close>

definition lookup_next :: "ccip_world \<Rightarrow> nat \<Rightarrow> transaction_request \<Rightarrow> string \<Rightarrow> transaction_request result" where
  "lookup_next W attempt transaction data =
     bindE (case tr_to transaction of
              None \<Rightarrow> Inl (CoreError INVALID_ARGUMENT ''unsupported addressable value'')
            | Some to \<Rightarrow> resolveAddress to) (\<lambda>txSender.
     bindE (bad_lookup (lookup_args data)) (\<lambda>ccipArgs.
     bindE (assert (map to_lower (ca_sender ccipArgs) = map to_lower txSender) ''CCIP Read sender mismatch'' CALL_EXCEPTION) (\<lambda>_.
     bindE (ccipReadFetch W attempt (to_text transaction) (ca_calldata ccipArgs) (ca_urls ccipArgs)) (\<lambda>ccipResult.
     bindE (assert (ccipResult \<noteq> None) ''CCIP Read failed to fetch data'' OFFCHAIN_FAULT) (\<lambda>_.
     bindE (case ccipResult of
              Some (TextField s) \<Rightarrow> encodeBytes [DStr s, DStr (ca_extraData ccipArgs)]
            | _ \<Rightarrow> Inl (CoreError INVALID_ARGUMENT ''invalid BytesLike value'')) (\<lambda>answer.
     bindE (concat_data [DStr (ca_selector ccipArgs), DStr answer]) (\<lambda>next.
       Inr (follow_up txSender next))))))))"

text \<open>The calls performed, with their recipients' requests, and the outcome.\<close>

function ccip_call ::
  "ccip_world \<Rightarrow> transaction_request \<Rightarrow> string \<Rightarrow> int \<Rightarrow> transaction_request list \<times> (call_error + string)" where
  "ccip_call W tx blockTag attempt =
     (case bindE (assert (attempt < MAX_CCIP_REDIRECTS) ''CCIP read exceeded maximum redirections'' OFFCHAIN_FAULT)
             (\<lambda>_. copyRequest tx) of
        Inl e \<Rightarrow> ([], Inl (CallFailed e))
      | Inr transaction \<Rightarrow>
     (case cw_perform W (nat attempt) transaction blockTag of
        Inr d \<Rightarrow> ([transaction], case hexlify d no_options of Inl e \<Rightarrow> Inl (CallFailed e) | Inr h \<Rightarrow> Inr h)
      | Inl (CallFailed e) \<Rightarrow> ([transaction], Inl (CallFailed e))
      | Inl (Reverted None) \<Rightarrow> ([transaction], Inl (Reverted None))
      | Inl (Reverted (Some data)) \<Rightarrow>
     (case is_lookup W transaction blockTag attempt data of
        Inl e \<Rightarrow> ([transaction], Inl (CallFailed e))
      | Inr False \<Rightarrow> ([transaction], Inl (Reverted (Some data)))
      | Inr True \<Rightarrow>
     (case lookup_next W (nat attempt) transaction data of
        Inl e \<Rightarrow> ([transaction], Inl (CallFailed e))
      | Inr next \<Rightarrow>
          (case ccip_call W next blockTag (attempt + 1) of (done, r) \<Rightarrow> (transaction # done, r))))))"
  by pat_completeness auto
termination
  by (relation "measure (\<lambda>(_, _, _, attempt). nat (MAX_CCIP_REDIRECTS - attempt))") auto

declare ccip_call.simps [simp del]

text \<open>
  \<open>call\<close>: the flag of the caller's request decides whether lookups are followed. (The
  transaction handed on is a copy, which lost the flag.)
\<close>

definition provider_call ::
  "ccip_world \<Rightarrow> int \<Rightarrow> int result \<Rightarrow> transaction_request \<Rightarrow> transaction_request list \<times> (call_error + string)" where
  "provider_call W lastBlockNumber fetched tx =
     (case bindE (getTransactionRequest lastBlockNumber fetched tx) (\<lambda>t.
           bindE (getBlockTag lastBlockNumber fetched (tr_blockTag tx)) (\<lambda>tag. Inr (t, tag))) of
        Inl e \<Rightarrow> ([], Inl (CallFailed e))
      | Inr (t, tag) \<Rightarrow> ccip_call W t tag (if tr_enableCcipRead tx then 0 else -1))"

end
