(* ===== verification/Ccip_Props.thy ===== *)
theory Ccip_Props
  imports Ccip
begin

text \<open>
  What the calls of \<open>Ccip\<close> come to: the answer is encoded as the ABI coder encodes a
  tuple of \<open>bytes\<close>; and no lookup is ever followed, because the sender a lookup names
  has 20 bytes while every accepted address has 22.
\<close>

section \<open>Two encoders of bytes\<close>

lemma numPad_word: "n < 2 ^ 53 \<Longrightarrow> numPad n = Inr (abi_word n)"
proof -
  assume n: "n < 2 ^ 53"
  then have "getUint (num_of_size n) = Inr (int n)"
    using getNumber_getBigInt [OF getNumber_size [OF n]] by (simp add: getUint_def num_of_size_def)
  moreover have "n < 256 ^ 32" using n by (rule order_less_trans) simp
  ultimately show ?thesis
    using length_bytes_of_nat [of n 32]
    by (simp add: numPad_def toBeArray_getUint num_of_size_def abi_word_def)
qed

lemma bytesPad_padded: "bytesPad bs = padded bs"
  by (auto simp: bytesPad_def padded_def aligned_def simp flip: dvd_eq_mod_eq_0)

lemma written_bytes:
  assumes "encode (BytesCoder nm) empty_writer (VData d) = Inr x"
  obtains bs where "getBytes d = Inr bs" "length bs < 2 ^ 53" "wbytes x = abi_word (length bs) @ padded bs"
proof -
  obtain bs where bs: "getBytes d = Inr bs" "encode_dynamic_bytes empty_writer bs = Inr x"
    using assms by (auto simp: data_of_def as_data_def)
  then obtain b where b: "getValue_word (num_of_size (length bs)) = Inr b" "x = writeData (writeData empty_writer b) (padded bs)"
    by (auto simp: encode_dynamic_bytes_def writeValue_eq writeBytes_eq)
  have "b = abi_word (length bs) \<and> length bs < 2 ^ 53" using b(1) unfolding num_of_size_def by (rule getValue_index)
  then show thesis using that [OF bs(1)] b(2) by (simp add: writeData_def empty_writer_def wbytes_def)
qed

lemma encodeBytes_loop_layout:
  assumes "mapM (\<lambda>(c, x). encode c empty_writer x) (zip (map BytesCoder nms) (map VData ds)) = Inr xs"
    and "length nms = length ds" and "offsets_below (2 ^ 53) off (zip (replicate (length ds) True) (map wbytes xs))"
  shows "\<exists>ps is. encodeBytes_loop ds off = Inr (ps, is) \<and>
    concat ps = heads off (zip (replicate (length ds) True) (map wbytes xs)) \<and>
    concat is = tails (zip (replicate (length ds) True) (map wbytes xs))"
  using assms
proof (induction ds arbitrary: nms xs off)
  case Nil
  then show ?case by simp
next
  case (Cons d ds)
  obtain nm nms' where nms: "nms = nm # nms'" using Cons.prems(2) by (cases nms) auto
  obtain x xs' where x: "encode (BytesCoder nm) empty_writer (VData d) = Inr x" "xs = x # xs'"
    "mapM (\<lambda>(c, x). encode c empty_writer x) (zip (map BytesCoder nms') (map VData ds)) = Inr xs'"
    using Cons.prems(1) by (auto simp: nms simp del: encode.simps)
  obtain bs where bs: "getBytes d = Inr bs" "length bs < 2 ^ 53" "wbytes x = abi_word (length bs) @ padded bs"
    using written_bytes [OF x(1)] by blast
  have l: "length (abi_word (length bs)) = 32" using bs(2) by (intro length_abi_word) simp
  define L where "L = length (wbytes x)"
  have nxt: "off + 32 + (length bs + 31) div 32 * 32 = off + L"
    using l by (simp add: L_def bs(3) length_padded aligned_def)
  have off: "off < 2 ^ 53" "offsets_below (2 ^ 53) (off + L) (zip (replicate (length ds) True) (map wbytes xs'))"
    using Cons.prems(3) by (simp_all add: x(2) L_def)
  obtain ps "is" where ps: "encodeBytes_loop ds (off + L) = Inr (ps, is)"
    "concat ps = heads (off + L) (zip (replicate (length ds) True) (map wbytes xs'))"
    "concat is = tails (zip (replicate (length ds) True) (map wbytes xs'))"
    using Cons.IH [OF x(3) _ off(2)] Cons.prems(2) nms by auto
  have "encodeBytes_loop (d # ds) off = Inr (abi_word off # ps, [abi_word (length bs), padded bs] @ is)"
    using off(1) bs(2) by (simp add: bs(1) nxt ps(1) numPad_word bytesPad_padded)
  moreover have "heads off (zip (replicate (length (d # ds)) True) (map wbytes xs)) =
      abi_word off @ heads (off + L) (zip (replicate (length ds) True) (map wbytes xs'))" by (simp add: x(2) L_def)
  moreover have "tails (zip (replicate (length (d # ds)) True) (map wbytes xs)) =
      wbytes x @ tails (zip (replicate (length ds) True) (map wbytes xs'))" by (simp add: x(2))
  ultimately show ?case using ps(2,3) unfolding bs(3)
    by (intro exI [of _ "abi_word off # ps"] exI [of _ "[abi_word (length bs), padded bs] @ is"])
       (simp only: concat.simps append.simps concat_append append_Nil2 append_assoc simp_thms)
qed

lemma head_len_dynamic: "length xs = n \<Longrightarrow> head_len (zip (replicate n True) xs) = 32 * n"
  by (induction xs arbitrary: n) auto

text \<open>
  C30. \<open>encodeBytes\<close>, the encoder the provider carries for the answer of a lookup, writes
  what the ABI coder writes for a tuple of \<open>bytes\<close>, for any number of byte strings that
  the coder accepts.
\<close>

theorem encodeBytes_agrees:
  assumes "abi_coder types = Inr (TupleCoder (map BytesCoder nms) nm)" and "length nms = length ds"
    and "AbiCoder_encode types (VArr (map VData ds)) = Inr h"
  shows "encodeBytes ds = Inr h"
proof -
  obtain w where w: "encode (TupleCoder (map BytesCoder nms) nm) empty_writer (VArr (map VData ds)) = Inr w" "writer_data w = Inr h"
    using assms(1,3) by (auto simp: AbiCoder_encode_def array_length_def simp del: encode.simps)
  obtain vs xs where vs: "arrayValues (map coder_localName (map BytesCoder nms)) (VArr (map VData ds)) = Inr (map Inr vs)"
    "mapM (\<lambda>(c, x). encode c empty_writer x) (zip (map BytesCoder nms) vs) = Inr xs"
    "wbytes w = tuple_bytes (zip (map coder_dynamic (map BytesCoder nms)) (map wbytes xs))"
    "offsets_below (2 ^ 53) (head_len (zip (map coder_dynamic (map BytesCoder nms)) (map wbytes xs)))
       (zip (map coder_dynamic (map BytesCoder nms)) (map wbytes xs))"
    using tuple_written [OF w(1)] by (auto simp: dereference_def)
  have "map (Inr :: abi_value \<Rightarrow> abi_value result) (map VData ds) = map Inr vs" using vs(1) by (simp add: arrayValues_def)
  then have v: "vs = map VData ds" by (simp only: inj_map_eq_map [OF inj_Inr])
  have dyn: "map coder_dynamic (map BytesCoder nms) = replicate (length ds) True"
    using assms(2) by (simp add: comp_def map_replicate_const)
  have "length xs = length ds" using length_mapM [OF vs(2)] assms(2) v by simp
  then have hl: "head_len (zip (replicate (length ds) True) (map wbytes xs)) = 32 * length ds" by (simp add: head_len_dynamic)
  obtain ps "is" where "encodeBytes_loop ds (32 * length ds) = Inr (ps, is)"
    "concat (ps @ is) = wbytes w"
    using encodeBytes_loop_layout [of nms ds xs "32 * length ds"] vs(2) vs(3,4) [unfolded dyn hl tuple_bytes_def] assms(2) v
    by auto
  then show ?thesis
    using w(2) by (simp add: encodeBytes_def concat_data_bytes writer_data_def wbytes_def del: concat_append map_append)
qed

lemma word_of_size: "m < 2 ^ 53 \<Longrightarrow> getValue_word (num_of_size m) = Inr (abi_word m)"
  using getNumber_getBigInt [OF getNumber_size [of m]] by (simp add: getValue_word_eq getUint_def num_of_size_def)

definition bytes_param :: param_type where
  "bytes_param = ParamType ''b'' ''bytes'' ''bytes'' None None None None"

lemma bytes_coder: "abi_coder [bytes_param] = Inr (TupleCoder (map BytesCoder [''b'']) ''_'')"
  by code_simp

theorem encodeBytes_agrees_witness:
  "encodeBytes [DStr ''0xC0ffee''] = Inr (''0x'' @ hex_of_bytes (abi_word 32 @ abi_word 3 @ padded [0xc0, 0xff, 0xee]))"
proof -
  have b: "encode (BytesCoder ''b'') w (VData (DStr ''0xC0ffee'')) =
      Inr (writeData (writeData w (abi_word 3)) (padded [0xc0, 0xff, 0xee]))" for w
    using word_of_size [of 3] by (simp add: data_of_def as_data_def example_bytes encode_dynamic_bytes_def writeValue_eq writeBytes_eq numeral_3_eq_3)
  have "encode (TupleCoder (map BytesCoder [''b'']) ''_'') empty_writer (VArr (map VData [DStr ''0xC0ffee''])) =
      Inr \<lparr>wdata = [abi_word 32, abi_word 3 @ padded [0xc0, 0xff, 0xee]], wlength = 96\<rparr>"
    unfolding encode.simps(9) list.map
    using word_of_size [of 32]
    by (simp add: dereference_def pack_def arrayValues_def assertArgument_def b
        writeData_def empty_writer_def writeUpdatableValue_def updateValue_def WordSize_def length_abi_word length_padded
        aligned_def appendWriter_eq wbytes_def num_of_size_def del: encode.simps One_nat_def)
  then have "AbiCoder_encode [bytes_param] (VArr (map VData [DStr ''0xC0ffee''])) =
      Inr (''0x'' @ hex_of_bytes (abi_word 32 @ abi_word 3 @ padded [0xc0, 0xff, 0xee]))"
    using concat_data_bytes [of "[abi_word 32, abi_word 3 @ padded [0xc0, 0xff, 0xee]]"]
    by (simp add: AbiCoder_encode_def array_length_def assertArgumentCount_def Let_def bytes_coder writer_data_def
        del: encode.simps One_nat_def)
  then show ?thesis by (intro encodeBytes_agrees [OF bytes_coder]) simp_all
qed

section \<open>No lookup is followed\<close>

lemma resolved_length: "resolveAddress a = Inr s \<Longrightarrow> length s = 46"
proof -
  have g: "length s = 46" if h: "getAddress t = Inr s" for t
  proof -
    obtain raw where "valid_raw raw" "s = ''0x'' @ raw" by (rule getAddress_valid [OF h])
    then show ?thesis by (simp add: valid_raw_def Let_def)
  qed
  have c: "length s = 46" if "checkAddress t p = Inr s" for t p
    using that g by (auto simp: checkAddress_def split: option.splits if_splits address_like.splits)
  show "resolveAddress a = Inr s \<Longrightarrow> length s = 46"
    using g c by (cases a) (auto simp: resolveAddress_def)
qed

lemma dataSlice_length:
  assumes "dataSlice v i j = Inr s"
  shows "\<exists>bs. s = ''0x'' @ hex_of_bytes bs \<and> (\<exists>all. getBytes v = Inr all \<and>
    bs = js_slice all (case i of None \<Rightarrow> 0 | Some k \<Rightarrow> k) (case j of None \<Rightarrow> int (length all) | Some e \<Rightarrow> e) \<and>
    (case j of None \<Rightarrow> True | Some e \<Rightarrow> e \<le> int (length all)))"
  using assms by (auto simp: dataSlice_def Let_def split: option.splits)

text \<open>The sender of a lookup is what follows twelve bytes of a word.\<close>

lemma lookup_sender_length:
  assumes "parseOffchainLookup data = Inr a"
  shows "length (ca_sender a) = 42"
proof -
  obtain w where w: "dataSlice (DStr data) (Some 0) (Some 32) = Inr w" "dataSlice (DStr w) (Some 12) None = Inr (ca_sender a)"
    using assms by (auto simp: parseOffchainLookup_def)
  obtain bs full where bs: "w = ''0x'' @ hex_of_bytes bs" "bs = js_slice full (int 0) (int 32)" "32 \<le> length full"
    using dataSlice_length [OF w(1)] by auto
  then have "length bs = 32" using js_slice_nat [of 0 32 full] by simp
  moreover obtain cs where "ca_sender a = ''0x'' @ hex_of_bytes cs" "cs = js_slice bs (int 12) (int (length bs))"
    using dataSlice_length [OF w(2)] bs(1) by auto
  ultimately show ?thesis using js_slice_nat [of 12 32 bs] by simp
qed

lemma sender_mismatch:
  assumes "resolveAddress to = Inr s" and "bad_lookup (lookup_args data) = Inr a"
  shows "map to_lower (ca_sender a) \<noteq> map to_lower s"
proof -
  have "length (ca_sender a) = 42"
    using assms(2) lookup_sender_length by (auto simp: bad_lookup_def lookup_args_def split: sum.splits)
  with resolved_length [OF assms(1)] show ?thesis using map_eq_imp_length_eq by fastforce
qed

lemma lookup_next_rejected:
  "lookup_next W n t data =
     bindE (case tr_to t of
              None \<Rightarrow> Inl (CoreError INVALID_ARGUMENT ''unsupported addressable value'')
            | Some to \<Rightarrow> resolveAddress to) (\<lambda>_.
     bindE (bad_lookup (lookup_args data)) (\<lambda>_. Inl (CoreError CALL_EXCEPTION ''CCIP Read sender mismatch'')))"
  using sender_mismatch unfolding lookup_next_def by (intro bindE_cong refl) (auto split: option.splits)

definition rejection :: "transaction_request \<Rightarrow> string \<Rightarrow> error" where
  "rejection t data =
     projl (bindE (case tr_to t of
              None \<Rightarrow> Inl (CoreError INVALID_ARGUMENT ''unsupported addressable value'')
            | Some to \<Rightarrow> resolveAddress to) (\<lambda>_.
     bindE (bad_lookup (lookup_args data)) (\<lambda>_. Inl (CoreError CALL_EXCEPTION ''CCIP Read sender mismatch''))) :: string result)"

lemma lookup_rejected: "lookup_next W n t data = Inl (rejection t data)"
proof -
  have e: "bindE a (\<lambda>_. bindE b (\<lambda>_. Inl c)) = Inl (projl (bindE a (\<lambda>_. bindE b (\<lambda>_. Inl c)) :: string result))"
    for a :: "string result" and b :: "ccip_args result" and c
    by (cases a; cases b) simp_all
  show ?thesis unfolding lookup_next_rejected rejection_def by (rule e)
qed

text \<open>
  C31. A call never follows an off-chain lookup: the node is asked at most once, no URL
  is ever asked, and a call only returns what the node returned. The sender of a lookup
  is compared with the recipient, and the former has 20 bytes while an address has 22.
\<close>

theorem lookups_not_followed:
  assumes "ccip_call W tx blockTag attempt = (performed, r)"
  shows "length performed \<le> 1 \<and>
    ccip_call (W\<lparr>cw_fetch := f, cw_parse := p, cw_url := u\<rparr>) tx blockTag attempt = (performed, r) \<and>
    (case r of Inl _ \<Rightarrow> True
     | Inr h \<Rightarrow> \<exists>t d. copyRequest tx = Inr t \<and> performed = [t] \<and>
         cw_perform W (nat attempt) t blockTag = Inr d \<and> hexlify d no_options = Inr h)"
proof -
  have same: "cw_perform (W\<lparr>cw_fetch := f, cw_parse := p, cw_url := u\<rparr>) = cw_perform W"
    "cw_disabled (W\<lparr>cw_fetch := f, cw_parse := p, cw_url := u\<rparr>) = cw_disabled W" by simp_all
  note once = ccip_call.simps [of _ tx, unfolded lookup_rejected sum.case is_lookup_def]
  have "ccip_call (W\<lparr>cw_fetch := f, cw_parse := p, cw_url := u\<rparr>) tx blockTag attempt = ccip_call W tx blockTag attempt"
    unfolding once same by (rule refl)
  moreover have "length performed \<le> 1 \<and>
    (case r of Inl _ \<Rightarrow> True
     | Inr h \<Rightarrow> \<exists>t d. copyRequest tx = Inr t \<and> performed = [t] \<and>
         cw_perform W (nat attempt) t blockTag = Inr d \<and> hexlify d no_options = Inr h)"
  proof (cases "bindE (assert (attempt < MAX_CCIP_REDIRECTS) ''CCIP read exceeded maximum redirections'' OFFCHAIN_FAULT)
      (\<lambda>_. copyRequest tx)")
    case (Inl e)
    then show ?thesis using assms unfolding once by (simp only: sum.case) auto
  next
    case (Inr t)
    then have t: "copyRequest tx = Inr t" by simp
    note here = assms [unfolded once Inr sum.case]
    show ?thesis
    proof (cases "cw_perform W (nat attempt) t blockTag")
      case (Inr d)
      then show ?thesis using here t by (cases "hexlify d no_options") auto
    next
      case (Inl e)
      note error = here [unfolded Inl sum.case]
      show ?thesis
      proof (cases e)
        case (Reverted data)
        then show ?thesis using error unfolding Reverted call_error.case
          by (cases data) (auto split: sum.splits bool.splits)
      qed (use error in auto)
    qed
  qed
  ultimately show ?thesis using assms by (simp only: simp_thms)
qed

text \<open>A call of a contract that returns one byte.\<close>

definition example_world :: ccip_world where
  "example_world = \<lparr>cw_perform = (\<lambda>_ _ _. Inr (DU8 [7])), cw_fetch = undefined, cw_parse = undefined, cw_url = undefined,
     cw_disabled = False\<rparr>"

definition example_call :: transaction_request where
  "example_call = (follow_up [] [])\<lparr>tr_data := None\<rparr>"

theorem lookups_not_followed_witness:
  "snd (ccip_call example_world example_call ''latest'' 0) = Inr ''0x07'' \<and> length (fst (ccip_call example_world example_call ''latest'' 0)) \<le> 1"
proof -
  have "snd (ccip_call example_world example_call ''latest'' 0) = Inr ''0x07''" by code_simp
  then show ?thesis using lookups_not_followed [OF prod.collapse [symmetric], THEN conjunct1] by (intro conjI)
qed

end
