(* ===== verification/Provider_Events.thy ===== *)
theory Provider_Events
  imports Provider_Requests
begin

text \<open>
  The events and timers of an \<open>AbstractProvider\<close> (\<open>src.ts/providers/abstract-provider.ts\<close>).
  The subscriptions are a map from tags to \<open>Sub\<close> objects; an operation first awaits its
  subscription and then works on the object it found, so that other operations may run
  in between. The objects are kept in a heap, since an operation may hold one that is no
  longer in the map. Listeners, subscribers and the functions of timers are numbers; a
  listener does not use the provider while it is called.
\<close>

section \<open>State\<close>

record event_sub =
  es_tag :: string
  es_kind :: subscription
  es_subscriber :: nat
  es_started :: bool
  es_listeners :: "(nat \<times> bool) list"

datatype subscriber_action = Started nat | Stopped nat | Paused nat bool | Resumed nat

text \<open>A timer of the provider; the engine's own have a handle, a due time and the id of the provider's.\<close>

record timer =
  tm_handle :: "nat option"
  tm_func :: nat
  tm_time :: int

record provider_state =
  pv_heap :: "event_sub list"
  pv_subs :: "(string \<times> nat) list"
  pv_subscribers :: nat
  pv_paused :: "bool option"
  pv_log :: "subscriber_action list"
  pv_called :: "(nat \<times> nat) list"
  pv_lastBlockNumber :: int
  pv_timers :: "(nat \<times> timer) list"
  pv_nextTimer :: nat
  pv_engine :: "(nat \<times> int \<times> nat \<times> nat) list"
  pv_nextHandle :: nat
  pv_ran :: "(int \<times> nat) list"

definition new_provider :: provider_state where
  "new_provider = \<lparr>pv_heap = [], pv_subs = [], pv_subscribers = 0, pv_paused = None, pv_log = [], pv_called = [],
     pv_lastBlockNumber = -1, pv_timers = [], pv_nextTimer = 1, pv_engine = [], pv_nextHandle = 0, pv_ran = []\<rparr>"

abbreviation sub_at :: "nat \<Rightarrow> provider_state \<Rightarrow> event_sub" where
  "sub_at i s \<equiv> pv_heap s ! i"

definition set_sub :: "nat \<Rightarrow> event_sub \<Rightarrow> provider_state \<Rightarrow> provider_state" where
  "set_sub i sub s = s\<lparr>pv_heap := (pv_heap s)[i := sub]\<rparr>"

definition delete_sub :: "string \<Rightarrow> provider_state \<Rightarrow> provider_state" where
  "delete_sub tag s = s\<lparr>pv_subs := filter (\<lambda>p. fst p \<noteq> tag) (pv_subs s)\<rparr>"

definition log_action :: "subscriber_action \<Rightarrow> provider_state \<Rightarrow> provider_state" where
  "log_action a s = s\<lparr>pv_log := pv_log s @ [a]\<rparr>"

section \<open>Looking up\<close>

text \<open>\<open>_getSubscriber\<close>: the kind of subscriber is that of the subscription.\<close>

definition getSubscriber :: "subscription \<Rightarrow> subscription result" where
  "getSubscriber sub =
     (if sub = PlainSub ''pending'' then Inl (JsError NativeError ''unsupported event: pending'') else Inr sub)"

definition dropped_log :: "tag_value \<Rightarrow> provider_event" where
  "dropped_log entry = OrphanEvent (TagObj [(''orphan'', TagText ''drop-log''), (''log'', entry)])"

text \<open>\<open>#hasSub\<close>; the log that \<open>emit\<close> tells as removed, if it does, makes the event an orphan.\<close>

definition hasSub :: "provider_event \<Rightarrow> tag_value option \<Rightarrow> provider_state \<Rightarrow> nat option result" where
  "hasSub event removed s =
     bindE (getSubscription event) (\<lambda>(sub, tag).
     bindE (case (sub, removed) of
              (EventSub _ _, Some entry) \<Rightarrow> mapE snd (getSubscription (dropped_log entry))
            | _ \<Rightarrow> Inr tag) (\<lambda>tag.
       Inr (map_of (pv_subs s) tag)))"

definition getSub :: "provider_event \<Rightarrow> provider_state \<Rightarrow> (nat \<times> provider_state) result" where
  "getSub event s =
     bindE (getSubscription event) (\<lambda>(subscription, tag).
       case map_of (pv_subs s) tag of
         Some i \<Rightarrow> Inr (i, s)
       | None \<Rightarrow>
           bindE (getSubscriber subscription) (\<lambda>kind.
             Inr (length (pv_heap s),
                  s\<lparr>pv_heap := pv_heap s @ [\<lparr>es_tag = tag, es_kind = kind, es_subscriber = pv_subscribers s,
                                            es_started = False, es_listeners = []\<rparr>],
                    pv_subs := pv_subs s @ [(tag, length (pv_heap s))], pv_subscribers := pv_subscribers s + 1\<rparr>)))"

section \<open>Acting\<close>

definition start_sub :: "nat \<Rightarrow> provider_state \<Rightarrow> provider_state" where
  "start_sub i s =
     (if es_started (sub_at i s) then s
      else let n = es_subscriber (sub_at i s);
               s' = log_action (Started n) (set_sub i ((sub_at i s)\<lparr>es_started := True\<rparr>) s)
           in case pv_paused s of None \<Rightarrow> s' | Some dropping \<Rightarrow> log_action (Paused n dropping) s')"

text \<open>What \<open>on\<close> and \<open>once\<close> do with the object they got.\<close>

definition on_act :: "nat \<Rightarrow> bool \<Rightarrow> nat \<Rightarrow> provider_state \<Rightarrow> provider_state" where
  "on_act listener once i s =
     start_sub i (set_sub i ((sub_at i s)\<lparr>es_listeners := es_listeners (sub_at i s) @ [(listener, once)]\<rparr>) s)"

definition stop_sub :: "nat \<Rightarrow> provider_state \<Rightarrow> provider_state" where
  "stop_sub i s =
     delete_sub (es_tag (sub_at i s))
       (if es_started (sub_at i s) then log_action (Stopped (es_subscriber (sub_at i s))) s else s)"

fun remove_listener :: "nat \<Rightarrow> (nat \<times> bool) list \<Rightarrow> (nat \<times> bool) list" where
  "remove_listener l [] = []"
| "remove_listener l ((k, once) # ls) = (if k = l then ls else (k, once) # remove_listener l ls)"

definition off_act :: "nat option \<Rightarrow> nat \<Rightarrow> provider_state \<Rightarrow> provider_state" where
  "off_act listener i s =
     (let s' = (case listener of
                  None \<Rightarrow> s
                | Some l \<Rightarrow> set_sub i ((sub_at i s)\<lparr>es_listeners := remove_listener l (es_listeners (sub_at i s))\<rparr>) s)
      in if listener = None \<or> es_listeners (sub_at i s') = [] then stop_sub i s' else s')"

text \<open>A listener is called with the value emitted; what it throws is dropped.\<close>

definition emit_act :: "nat \<Rightarrow> nat \<Rightarrow> provider_state \<Rightarrow> provider_state" where
  "emit_act val i s =
     (if es_listeners (sub_at i s) = [] then s
      else let ls = es_listeners (sub_at i s);
               s' = set_sub i ((sub_at i s)\<lparr>es_listeners := filter (\<lambda>(_, once). \<not> once) ls\<rparr>)
                      (s\<lparr>pv_called := pv_called s @ map (\<lambda>(l, _). (l, val)) ls\<rparr>)
           in if es_listeners (sub_at i s') = [] then stop_sub i s' else s')"

section \<open>Operations\<close>

datatype event_call =
    OnCall provider_event nat bool | OffCall provider_event "nat option"
  | EmitCall provider_event nat "tag_value option" | RemoveCall provider_event

text \<open>The first part of an operation, up to the object it found.\<close>

definition call_lookup :: "event_call \<Rightarrow> provider_state \<Rightarrow> (nat option \<times> provider_state) result" where
  "call_lookup c s =
     (case c of
        OnCall e l once \<Rightarrow> mapE (\<lambda>(i, s). (Some i, s)) (getSub e s)
      | OffCall e l \<Rightarrow> mapE (\<lambda>i. (i, s)) (hasSub e None s)
      | EmitCall e v removed \<Rightarrow> mapE (\<lambda>i. (i, s)) (hasSub e removed s)
      | RemoveCall e \<Rightarrow> mapE (\<lambda>(i, s). (Some i, s)) (getSub e s))"

definition call_act :: "event_call \<Rightarrow> nat option \<Rightarrow> provider_state \<Rightarrow> provider_state" where
  "call_act c target s =
     (case target of
        None \<Rightarrow> s
      | Some i \<Rightarrow>
          (case c of
             OnCall e l once \<Rightarrow> on_act l once i s
           | OffCall e l \<Rightarrow> off_act l i s
           | EmitCall e v removed \<Rightarrow> emit_act v i s
           | RemoveCall e \<Rightarrow> stop_sub i s))"

text \<open>An operation that is awaited before the next is called.\<close>

definition await_call :: "event_call \<Rightarrow> provider_state \<Rightarrow> provider_state result" where
  "await_call c s = bindE (call_lookup c s) (\<lambda>(target, s). Inr (call_act c target s))"

text \<open>What \<open>emit\<close> resolves to.\<close>

definition emit_answer :: "nat option \<Rightarrow> provider_state \<Rightarrow> bool" where
  "emit_answer target s = (case target of None \<Rightarrow> False | Some i \<Rightarrow> es_listeners (sub_at i s) \<noteq> [])"

definition listeners_of :: "provider_event option \<Rightarrow> provider_state \<Rightarrow> nat list result" where
  "listeners_of event s =
     (case event of
        Some e \<Rightarrow> mapE (\<lambda>t. case t of None \<Rightarrow> [] | Some i \<Rightarrow> map fst (es_listeners (sub_at i s))) (hasSub e None s)
      | None \<Rightarrow> Inr (concat (map (\<lambda>(_, i). map fst (es_listeners (sub_at i s))) (pv_subs s))))"

definition listenerCount :: "provider_event option \<Rightarrow> provider_state \<Rightarrow> nat result" where
  "listenerCount event s =
     (case event of
        Some e \<Rightarrow> mapE (\<lambda>t. case t of None \<Rightarrow> 0 | Some i \<Rightarrow> length (es_listeners (sub_at i s))) (hasSub e None s)
      | None \<Rightarrow> Inr (sum_list (map (\<lambda>(_, i). length (es_listeners (sub_at i s))) (pv_subs s))))"

text \<open>\<open>removeAllListeners()\<close> of every event.\<close>

definition remove_every :: "provider_state \<Rightarrow> provider_state" where
  "remove_every s = fold (\<lambda>(_, i). stop_sub i) (pv_subs s) s"

text \<open>\<open>_recoverSubscriber\<close> puts a new subscriber in the place of the one with the number given.\<close>

definition recoverSubscriber :: "nat \<Rightarrow> provider_state \<Rightarrow> provider_state" where
  "recoverSubscriber old s =
     (case filter (\<lambda>(_, i). es_subscriber (sub_at i s) = old) (pv_subs s) of
        [] \<Rightarrow> s
      | (_, i) # _ \<Rightarrow>
          let new = pv_subscribers s;
              started = es_started (sub_at i s);
              s1 = (if started then log_action (Stopped old) s else s);
              s2 = set_sub i ((sub_at i s1)\<lparr>es_subscriber := new\<rparr>) (s1\<lparr>pv_subscribers := new + 1\<rparr>);
              s3 = (if started then log_action (Started new) s2 else s2)
          in case pv_paused s of None \<Rightarrow> s3 | Some dropping \<Rightarrow> log_action (Paused new dropping) s3)"

section \<open>Timers\<close>

definition obj_delete :: "nat \<Rightarrow> (nat \<times> 'a) list \<Rightarrow> (nat \<times> 'a) list" where
  "obj_delete k = filter (\<lambda>(j, _). j \<noteq> k)"

text \<open>The engine's \<open>setTimeout\<close> and \<open>clearTimeout\<close>.\<close>

definition engine_set :: "int \<Rightarrow> nat \<Rightarrow> nat \<Rightarrow> provider_state \<Rightarrow> provider_state" where
  "engine_set due timerId func s =
     s\<lparr>pv_engine := pv_engine s @ [(pv_nextHandle s, due, timerId, func)], pv_nextHandle := pv_nextHandle s + 1\<rparr>"

definition engine_clear :: "nat option \<Rightarrow> provider_state \<Rightarrow> provider_state" where
  "engine_clear handle s =
     (case handle of None \<Rightarrow> s | Some h \<Rightarrow> s\<lparr>pv_engine := obj_delete h (pv_engine s)\<rparr>)"

definition clearTimeout :: "nat \<Rightarrow> provider_state \<Rightarrow> provider_state" where
  "clearTimeout timerId s =
     (case map_of (pv_timers s) timerId of
        None \<Rightarrow> s
      | Some t \<Rightarrow> (engine_clear (tm_handle t) s)\<lparr>pv_timers := obj_delete timerId (pv_timers s)\<rparr>)"

definition setTimeout :: "int \<Rightarrow> nat \<Rightarrow> int \<Rightarrow> provider_state \<Rightarrow> nat \<times> provider_state" where
  "setTimeout now func timeout s =
     (let timerId = pv_nextTimer s; s' = s\<lparr>pv_nextTimer := timerId + 1\<rparr>
      in (timerId,
          if pv_paused s \<noteq> None
          then s'\<lparr>pv_timers := pv_timers s' @ [(timerId, \<lparr>tm_handle = None, tm_func = func, tm_time = timeout\<rparr>)]\<rparr>
          else (engine_set (now + timeout) timerId func s')
                 \<lparr>pv_timers := pv_timers s' @ [(timerId, \<lparr>tm_handle = Some (pv_nextHandle s), tm_func = func, tm_time = now\<rparr>)]\<rparr>))"

text \<open>The engine runs what is due: the wrapper forgets the timer and runs its function.\<close>

definition engine_run :: "int \<Rightarrow> provider_state \<Rightarrow> provider_state" where
  "engine_run now s =
     fold (\<lambda>(h, due, timerId, func) s.
             s\<lparr>pv_timers := obj_delete timerId (pv_timers s), pv_ran := pv_ran s @ [(now, func)]\<rparr>)
       (sort_key (\<lambda>(h, due, timerId, func). due) (filter (\<lambda>(h, due, timerId, func). due \<le> now) (pv_engine s)))
       (s\<lparr>pv_engine := filter (\<lambda>(h, due, timerId, func). now < due) (pv_engine s)\<rparr>)"

definition each_subscriber :: "(nat \<Rightarrow> subscriber_action) \<Rightarrow> provider_state \<Rightarrow> provider_state" where
  "each_subscriber f s = fold (\<lambda>(_, i). log_action (f (es_subscriber (sub_at i s)))) (pv_subs s) s"

definition pause_timer :: "int \<Rightarrow> timer \<Rightarrow> timer" where
  "pause_timer now t = t\<lparr>tm_time := now - tm_time t\<rparr>"

text \<open>A provider that is already paused keeps its timers, but forgets its block number.\<close>

definition pause_provider :: "int \<Rightarrow> bool \<Rightarrow> provider_state \<Rightarrow> provider_state \<times> unit result" where
  "pause_provider now dropping s0 =
     (let s = s0\<lparr>pv_lastBlockNumber := -1\<rparr>
      in case pv_paused s of
           Some d \<Rightarrow> (s, assert (d = dropping) ''cannot change pause type; resume first'' UNSUPPORTED_OPERATION)
         | None \<Rightarrow>
             let s1 = (each_subscriber (\<lambda>n. Paused n dropping) s)\<lparr>pv_paused := Some dropping\<rparr>;
                 s2 = fold (\<lambda>(_, t). engine_clear (tm_handle t)) (pv_timers s1) s1
             in (s2\<lparr>pv_timers := map (\<lambda>(k, t). (k, pause_timer now t)) (pv_timers s2)\<rparr>, Inr ()))"

definition resume_provider :: "int \<Rightarrow> provider_state \<Rightarrow> provider_state" where
  "resume_provider now s =
     (if pv_paused s = None then s
      else let s1 = (each_subscriber Resumed s)\<lparr>pv_paused := None\<rparr>;
               s2 = s1\<lparr>pv_timers := map (\<lambda>(k, t). (k, t\<lparr>tm_time := now\<rparr>)) (pv_timers s1)\<rparr>
           in fold (\<lambda>(k, t). engine_set (now + max 0 (tm_time t)) k (tm_func t)) (pv_timers s1) s2)"

definition set_paused :: "int \<Rightarrow> bool \<Rightarrow> provider_state \<Rightarrow> provider_state \<times> unit result" where
  "set_paused now pause s =
     (if pause = (pv_paused s \<noteq> None) then (s, Inr ())
      else if pv_paused s \<noteq> None then (resume_provider now s, Inr ())
      else pause_provider now False s)"

definition destroy :: "provider_state \<Rightarrow> provider_state" where
  "destroy s = fold (\<lambda>(k, _). clearTimeout k) (pv_timers s) (remove_every s)"

section \<open>Operations in any order\<close>

text \<open>
  The operations under way, each with what it found once it has; and all that were ever
  asked for. A step continues one of them, in any order, or does what runs at once.
\<close>

record event_machine =
  em_state :: provider_state
  em_waiting :: "(event_call \<times> nat option option) list"
  em_asked :: "event_call list"

definition new_machine :: event_machine where
  "new_machine = \<lparr>em_state = new_provider, em_waiting = [], em_asked = []\<rparr>"

inductive event_step :: "event_machine \<Rightarrow> event_machine \<Rightarrow> bool" where
  ask: "event_step m (m\<lparr>em_waiting := em_waiting m @ [(c, None)], em_asked := em_asked m @ [c]\<rparr>)"
| find: "em_waiting m = xs @ (c, None) # ys \<Longrightarrow> call_lookup c (em_state m) = Inr (t, s) \<Longrightarrow>
    event_step m (m\<lparr>em_state := s, em_waiting := xs @ (c, Some t) # ys\<rparr>)"
| reject: "em_waiting m = xs @ (c, None) # ys \<Longrightarrow> call_lookup c (em_state m) = Inl e \<Longrightarrow>
    event_step m (m\<lparr>em_waiting := xs @ ys\<rparr>)"
| act: "em_waiting m = xs @ (c, Some t) # ys \<Longrightarrow>
    event_step m (m\<lparr>em_state := call_act c t (em_state m), em_waiting := xs @ ys\<rparr>)"
| clear: "event_step m (m\<lparr>em_state := remove_every (em_state m)\<rparr>)"
| recover: "event_step m (m\<lparr>em_state := recoverSubscriber old (em_state m)\<rparr>)"
| pause: "event_step m (m\<lparr>em_state := fst (pause_provider now dropping (em_state m))\<rparr>)"
| resume: "event_step m (m\<lparr>em_state := resume_provider now (em_state m)\<rparr>)"

end
