(* ===== verification/Provider_Events_Props.thy ===== *)
theory Provider_Events_Props
  imports Provider_Events
begin

text \<open>
  What the events of a provider promise. Operations that are awaited one after another
  implement a map from tags to listeners (\<open>registry\<close>), and exactly the subscribers of
  events with listeners run. For operations in any order, a listener of \<open>once\<close> is called
  at most once for each time it was added; but a listener added while the last one of its
  event is being removed is lost.
\<close>

section \<open>The registry\<close>

type_synonym registry = "string \<Rightarrow> (nat \<times> bool) list"

definition registry_of :: "provider_state \<Rightarrow> registry" where
  "registry_of s tag = (case map_of (pv_subs s) tag of None \<Rightarrow> [] | Some i \<Rightarrow> es_listeners (sub_at i s))"

text \<open>The tag an operation is about, or why it is rejected.\<close>

definition found_tag :: "provider_event \<Rightarrow> tag_value option \<Rightarrow> string result" where
  "found_tag event removed =
     bindE (getSubscription event) (\<lambda>(sub, tag).
       case (sub, removed) of
         (EventSub _ _, Some entry) \<Rightarrow> mapE snd (getSubscription (dropped_log entry))
       | _ \<Rightarrow> Inr tag)"

definition made_tag :: "provider_event \<Rightarrow> string result" where
  "made_tag event = bindE (getSubscription event) (\<lambda>(sub, tag). mapE (\<lambda>_. tag) (getSubscriber sub))"

fun call_tag :: "event_call \<Rightarrow> string result" where
  "call_tag (OnCall e l once) = made_tag e"
| "call_tag (OffCall e l) = found_tag e None"
| "call_tag (EmitCall e v removed) = found_tag e removed"
| "call_tag (RemoveCall e) = made_tag e"

text \<open>What an operation means: the new listeners of its tag, and the calls it makes.\<close>

fun registry_call :: "event_call \<Rightarrow> (nat \<times> bool) list \<Rightarrow> (nat \<times> bool) list \<times> (nat \<times> nat) list" where
  "registry_call (OnCall e l once) ls = (ls @ [(l, once)], [])"
| "registry_call (OffCall e None) ls = ([], [])"
| "registry_call (OffCall e (Some l)) ls = (remove_listener l ls, [])"
| "registry_call (EmitCall e v removed) ls = (filter (\<lambda>(_, once). \<not> once) ls, map (\<lambda>(l, _). (l, v)) ls)"
| "registry_call (RemoveCall e) ls = ([], [])"

definition registry_step :: "event_call \<Rightarrow> registry \<times> (nat \<times> nat) list \<Rightarrow> registry \<times> (nat \<times> nat) list" where
  "registry_step c r =
     (case r of (reg, called) \<Rightarrow>
        case call_tag c of
          Inl _ \<Rightarrow> (reg, called)
        | Inr tag \<Rightarrow> (case registry_call c (reg tag) of (ls, calls) \<Rightarrow> (reg(tag := ls), called @ calls)))"

text \<open>The subscribers that were started and not stopped since.\<close>

fun action_effect :: "subscriber_action \<Rightarrow> nat set \<Rightarrow> nat set" where
  "action_effect (Started n) r = insert n r"
| "action_effect (Stopped n) r = r - {n}"
| "action_effect _ r = r"

definition running :: "provider_state \<Rightarrow> nat set" where
  "running s = fold action_effect (pv_log s) {}"

section \<open>What holds between operations\<close>

definition subs_ok :: "provider_state \<Rightarrow> bool" where
  "subs_ok s \<longleftrightarrow>
     distinct (map fst (pv_subs s)) \<and> ''pending'' \<notin> fst ` set (pv_subs s) \<and>
     (\<forall>(t, i) \<in> set (pv_subs s). i < length (pv_heap s) \<and> es_tag (sub_at i s) = t \<and> es_started (sub_at i s)) \<and>
     (\<forall>i < length (pv_heap s). es_subscriber (sub_at i s) = i) \<and> pv_subscribers s = length (pv_heap s) \<and>
     running s = snd ` set (pv_subs s)"

definition events_ok :: "provider_state \<Rightarrow> bool" where
  "events_ok s \<longleftrightarrow> subs_ok s \<and> (\<forall>t. t \<in> fst ` set (pv_subs s) \<longrightarrow> registry_of s t \<noteq> [])"

lemma set_sub_simps [simp]:
  "pv_subs (set_sub i x s) = pv_subs s" "pv_heap (set_sub i x s) = (pv_heap s)[i := x]" "pv_log (set_sub i x s) = pv_log s"
  "pv_called (set_sub i x s) = pv_called s" "pv_subscribers (set_sub i x s) = pv_subscribers s" "pv_paused (set_sub i x s) = pv_paused s"
  by (simp_all add: set_sub_def)

lemma log_action_simps [simp]:
  "pv_subs (log_action a s) = pv_subs s" "pv_heap (log_action a s) = pv_heap s" "pv_log (log_action a s) = pv_log s @ [a]"
  "pv_called (log_action a s) = pv_called s" "pv_subscribers (log_action a s) = pv_subscribers s" "pv_paused (log_action a s) = pv_paused s"
  by (simp_all add: log_action_def)

lemma delete_sub_simps [simp]:
  "pv_subs (delete_sub t s) = filter (\<lambda>p. fst p \<noteq> t) (pv_subs s)" "pv_heap (delete_sub t s) = pv_heap s"
  "pv_log (delete_sub t s) = pv_log s" "pv_called (delete_sub t s) = pv_called s"
  "pv_subscribers (delete_sub t s) = pv_subscribers s" "pv_paused (delete_sub t s) = pv_paused s"
  by (simp_all add: delete_sub_def)

lemma running_simps [simp]:
  "running (set_sub i x s) = running s" "running (delete_sub t s) = running s"
  "running (log_action a s) = action_effect a (running s)" "running (s\<lparr>pv_called := c\<rparr>) = running s"
  by (simp_all add: running_def)

lemma sub_found:
  assumes "subs_ok s" and "map_of (pv_subs s) t = Some i"
  shows "i < length (pv_heap s)" "es_tag (sub_at i s) = t" "es_started (sub_at i s)" "es_subscriber (sub_at i s) = i" "(t, i) \<in> set (pv_subs s)"
proof -
  show "(t, i) \<in> set (pv_subs s)" using assms(2) by (rule map_of_SomeD)
  then show "i < length (pv_heap s)" "es_tag (sub_at i s) = t" "es_started (sub_at i s)" "es_subscriber (sub_at i s) = i"
    using assms(1) by (auto simp: subs_ok_def)
qed

lemma other_sub:
  assumes "subs_ok s" and "map_of (pv_subs s) t = Some i" and "(u, j) \<in> set (pv_subs s)" and "u \<noteq> t"
  shows "j \<noteq> i"
  using sub_found(2) [OF assms(1,2)] assms(1,3,4) by (auto simp: subs_ok_def)

lemma registry_other:
  assumes "subs_ok s" and "map_of (pv_subs s) t = Some i" and "u \<noteq> t"
  shows "map_of (pv_subs s) u \<noteq> Some i"
  using other_sub [OF assms(1,2) map_of_SomeD] assms(3) by blast

text \<open>New listeners for an event.\<close>

lemma subs_ok_listeners:
  assumes "subs_ok s" and "map_of (pv_subs s) t = Some i"
  shows "subs_ok (set_sub i ((sub_at i s)\<lparr>es_listeners := ls\<rparr>) s)"
    and "registry_of (set_sub i ((sub_at i s)\<lparr>es_listeners := ls\<rparr>) s) = (registry_of s)(t := ls)"
proof -
  note i = sub_found [OF assms]
  show "subs_ok (set_sub i ((sub_at i s)\<lparr>es_listeners := ls\<rparr>) s)"
    using assms(1) i(1) by (auto simp: subs_ok_def nth_list_update split: if_splits)
  show "registry_of (set_sub i ((sub_at i s)\<lparr>es_listeners := ls\<rparr>) s) = (registry_of s)(t := ls)"
  proof
    fix u
    show "registry_of (set_sub i ((sub_at i s)\<lparr>es_listeners := ls\<rparr>) s) u = ((registry_of s)(t := ls)) u"
      using registry_other [OF assms] assms(2) i(1)
      by (cases "u = t") (auto simp: registry_of_def nth_list_update split: option.splits)
  qed
qed

lemma map_of_delete: "map_of (filter (\<lambda>p. fst p \<noteq> t) xs) v = (if v = t then None else map_of xs v)"
  by (induction xs) auto

text \<open>An event without listeners any more.\<close>

lemma subs_ok_stop:
  assumes "subs_ok s" and "map_of (pv_subs s) t = Some i"
  shows "subs_ok (stop_sub i s)" and "registry_of (stop_sub i s) = (registry_of s)(t := [])"
    and "pv_called (stop_sub i s) = pv_called s" and "set (pv_subs (stop_sub i s)) = {p \<in> set (pv_subs s). fst p \<noteq> t}"
    and "pv_heap (stop_sub i s) = pv_heap s" and "running (stop_sub i s) = running s - {i}"
proof -
  note i = sub_found [OF assms]
  have s: "stop_sub i s = delete_sub t (log_action (Stopped i) s)" by (simp add: stop_sub_def i)
  show "pv_called (stop_sub i s) = pv_called s" "pv_heap (stop_sub i s) = pv_heap s" "running (stop_sub i s) = running s - {i}"
    by (simp_all add: s)
  show set: "set (pv_subs (stop_sub i s)) = {p \<in> set (pv_subs s). fst p \<noteq> t}" by (auto simp: s)
  have "snd ` {p \<in> set (pv_subs s). fst p \<noteq> t} = snd ` set (pv_subs s) - {i}"
  proof -
    have "map_of (pv_subs s) t = Some j" if "(t, j) \<in> set (pv_subs s)" for j
      using assms(1) that by (intro map_of_is_SomeI) (simp_all add: subs_ok_def)
    then have only: "j = i" if "(t, j) \<in> set (pv_subs s)" for j using assms(2) that by simp
    show ?thesis
    proof (intro set_eqI iffI)
      fix j assume "j \<in> snd ` {p \<in> set (pv_subs s). fst p \<noteq> t}"
      then obtain u where u: "(u, j) \<in> set (pv_subs s)" "u \<noteq> t" by (metis (mono_tags, lifting) imageE mem_Collect_eq prod.collapse)
      then show "j \<in> snd ` set (pv_subs s) - {i}" using other_sub [OF assms u] by (simp add: image_iff) force
    next
      fix j assume "j \<in> snd ` set (pv_subs s) - {i}"
      then obtain u where u: "(u, j) \<in> set (pv_subs s)" "j \<noteq> i" by (metis DiffD1 DiffD2 imageE prod.collapse singletonI)
      then have "u \<noteq> t" using only by blast
      with u(1) show "j \<in> snd ` {p \<in> set (pv_subs s). fst p \<noteq> t}" by (intro image_eqI [of _ _ "(u, j)"]) simp_all
    qed
  qed
  moreover have "distinct (map fst (filter (\<lambda>p. fst p \<noteq> t) (pv_subs s)))"
    using assms(1) by (auto simp: subs_ok_def intro: distinct_map_filter)
  moreover have "fst ` set (pv_subs (stop_sub i s)) \<subseteq> fst ` set (pv_subs s)" by (auto simp: set)
  ultimately show "subs_ok (stop_sub i s)"
    using assms(1) unfolding subs_ok_def set [unfolded s] unfolding s
    by (auto simp del: list.inject)
  show "registry_of (stop_sub i s) = (registry_of s)(t := [])"
    by (intro ext) (simp add: registry_of_def s map_of_delete split: option.split)
qed

text \<open>The first listener of an event.\<close>

definition made_sub :: "string \<Rightarrow> subscription \<Rightarrow> provider_state \<Rightarrow> provider_state" where
  "made_sub t kind s =
     s\<lparr>pv_heap := pv_heap s @ [\<lparr>es_tag = t, es_kind = kind, es_subscriber = pv_subscribers s,
                                es_started = False, es_listeners = []\<rparr>],
       pv_subs := pv_subs s @ [(t, length (pv_heap s))], pv_subscribers := pv_subscribers s + 1\<rparr>"

lemma made_sub_simps [simp]:
  "pv_subs (made_sub t kind s) = pv_subs s @ [(t, length (pv_heap s))]"
  "pv_heap (made_sub t kind s) = pv_heap s @ [\<lparr>es_tag = t, es_kind = kind, es_subscriber = pv_subscribers s,
                                es_started = False, es_listeners = []\<rparr>]"
  "pv_log (made_sub t kind s) = pv_log s" "pv_called (made_sub t kind s) = pv_called s"
  "pv_subscribers (made_sub t kind s) = pv_subscribers s + 1" "pv_paused (made_sub t kind s) = pv_paused s"
  "running (made_sub t kind s) = running s"
  by (simp_all add: made_sub_def running_def)

lemma subs_ok_made:
  fixes l :: nat and once :: bool and kind :: subscription
  assumes "subs_ok s" and "map_of (pv_subs s) t = None" and "t \<noteq> ''pending''"
  defines "s' \<equiv> on_act l once (length (pv_heap s)) (made_sub t kind s)"
  shows "subs_ok s'" and "registry_of s' = (registry_of s)(t := [(l, once)])" and "pv_called s' = pv_called s"
    and "fst ` set (pv_subs s') = insert t (fst ` set (pv_subs s))"
proof -
  define sub where "sub = \<lparr>es_tag = t, es_kind = kind, es_subscriber = length (pv_heap s), es_started = True, es_listeners = [(l, once)]\<rparr>"
  have n: "pv_subscribers s = length (pv_heap s)" using assms(1) by (simp add: subs_ok_def)
  have s': "pv_subs s' = pv_subs s @ [(t, length (pv_heap s))]" "pv_heap s' = pv_heap s @ [sub]" "pv_called s' = pv_called s"
    "pv_subscribers s' = pv_subscribers s + 1" "running s' = insert (length (pv_heap s)) (running s)"
    by (simp_all add: s'_def on_act_def start_sub_def sub_def n Let_def split: option.splits)
  have new: "t \<notin> fst ` set (pv_subs s)" using assms(2) by (simp add: map_of_eq_None_iff)
  show "pv_called s' = pv_called s" "fst ` set (pv_subs s') = insert t (fst ` set (pv_subs s))" by (simp_all add: s')
  have old: "\<forall>(u, i) \<in> set (pv_subs s). i < length (pv_heap s)" using assms(1) by (auto simp: subs_ok_def)
  have "\<forall>(u, i) \<in> set (pv_subs s'). i < length (pv_heap s') \<and> es_tag (sub_at i s') = u \<and> es_started (sub_at i s')"
    using assms(1) by (auto simp: s' subs_ok_def nth_append sub_def)
  moreover have "\<forall>i < length (pv_heap s'). es_subscriber (sub_at i s') = i"
    using assms(1) by (auto simp: s' subs_ok_def nth_append sub_def less_Suc_eq)
  moreover have "running s' = snd ` set (pv_subs s')" using assms(1) by (simp add: s' subs_ok_def)
  ultimately show "subs_ok s'" using assms(1,3) new by (simp add: subs_ok_def s')
  show "registry_of s' = (registry_of s)(t := [(l, once)])"
  proof
    fix u
    show "registry_of s' u = ((registry_of s)(t := [(l, once)])) u"
    proof (cases "u = t")
      case True
      then show ?thesis using assms(2) by (simp add: registry_of_def s' map_add_def sub_def)
    next
      case False
      have "i < length (pv_heap s)" if "map_of (pv_subs s) u = Some i" for i using old map_of_SomeD [OF that] by auto
      then show ?thesis using False by (auto simp: registry_of_def s' map_add_def nth_append split: option.splits)
    qed
  qed
qed

lemma subscription_tag: "getSubscription e = Inr (k, t) \<Longrightarrow> t = ''pending'' \<longleftrightarrow> k = PlainSub ''pending''"
  by (cases e) (auto simp: getSubscription_def getTag_def Let_def split: if_splits)

lemma hasSub_tag: "hasSub e removed s = mapE (map_of (pv_subs s)) (found_tag e removed)"
  by (cases "getSubscription e") (auto simp: hasSub_def found_tag_def mapE_def split: sum.splits subscription.splits option.splits)

lemma getSub_tag:
  assumes "subs_ok s"
  shows "getSub e s =
    (case made_tag e of
       Inl err \<Rightarrow> Inl err
     | Inr t \<Rightarrow> (case map_of (pv_subs s) t of
                  Some i \<Rightarrow> Inr (i, s)
                | None \<Rightarrow> Inr (length (pv_heap s), made_sub t (fst (projr (getSubscription e))) s)))"
proof (cases "getSubscription e")
  case (Inr kt)
  obtain k t where kt: "kt = (k, t)" by (cases kt)
  have p: "t = ''pending'' \<longleftrightarrow> k = PlainSub ''pending''" using subscription_tag Inr kt by simp
  show ?thesis
  proof (cases "k = PlainSub ''pending''")
    case True
    then have "map_of (pv_subs s) t = None" using p assms by (simp add: subs_ok_def map_of_eq_None_iff)
    then show ?thesis using True by (simp add: getSub_def made_tag_def Inr kt getSubscriber_def)
  next
    case False
    then show ?thesis by (simp add: getSub_def made_tag_def Inr kt getSubscriber_def made_sub_def split: option.splits)
  qed
qed (simp add: getSub_def made_tag_def)

lemma made_not_pending: "made_tag e = Inr t \<Longrightarrow> t \<noteq> ''pending''"
  using subscription_tag by (auto simp: made_tag_def getSubscriber_def split: if_splits)

section \<open>One operation after another\<close>

definition implements :: "event_call \<Rightarrow> string \<Rightarrow> provider_state \<Rightarrow> provider_state \<Rightarrow> bool" where
  "implements c t s s' \<longleftrightarrow>
     events_ok s' \<and> registry_of s' = (registry_of s)(t := fst (registry_call c (registry_of s t))) \<and>
     pv_called s' = pv_called s @ snd (registry_call c (registry_of s t))"

lemma no_sub: "map_of (pv_subs s) t = None \<Longrightarrow> registry_of s t = []"
  by (simp add: registry_of_def)

lemma found_sub: "map_of (pv_subs s) t = Some i \<Longrightarrow> registry_of s t = es_listeners (sub_at i s)"
  by (simp add: registry_of_def)

lemma events_ok_listeners:
  assumes "events_ok s" and "map_of (pv_subs s) t = Some i" and "ls \<noteq> []"
  shows "events_ok (set_sub i ((sub_at i s)\<lparr>es_listeners := ls\<rparr>) s)"
  using assms subs_ok_listeners [of s t i ls] by (simp add: events_ok_def)

lemma events_ok_stop:
  assumes "subs_ok s" and "map_of (pv_subs s) t = Some i" and "\<forall>u. u \<in> fst ` set (pv_subs s) \<longrightarrow> u \<noteq> t \<longrightarrow> registry_of s u \<noteq> []"
  shows "events_ok (stop_sub i s)"
  using assms subs_ok_stop [OF assms(1,2)] by (auto simp: events_ok_def)

lemma on_implements:
  assumes "events_ok s" and "made_tag e = Inr t"
  shows "\<exists>s'. await_call (OnCall e l once) s = Inr s' \<and> implements (OnCall e l once) t s s'"
proof -
  have ok: "subs_ok s" using assms(1) by (simp add: events_ok_def)
  show ?thesis
  proof (cases "map_of (pv_subs s) t")
    case (Some i)
    define ls where "ls = es_listeners (sub_at i s) @ [(l, once)]"
    have i: "i < length (pv_heap s)" "es_started (sub_at i s)" using sub_found [OF ok Some] by simp_all
    have "await_call (OnCall e l once) s = Inr (set_sub i ((sub_at i s)\<lparr>es_listeners := ls\<rparr>) s)"
      using i by (simp add: await_call_def call_lookup_def getSub_tag [OF ok] assms(2) Some call_act_def on_act_def start_sub_def ls_def)
    then show ?thesis
      using events_ok_listeners [OF assms(1) Some, of ls] subs_ok_listeners [OF ok Some, of ls]
      by (simp add: implements_def ls_def found_sub [OF Some])
  next
    case None
    define kind where "kind = fst (projr (getSubscription e))"
    have "await_call (OnCall e l once) s = Inr (on_act l once (length (pv_heap s)) (made_sub t kind s))"
      by (simp add: await_call_def call_lookup_def getSub_tag [OF ok] assms(2) None call_act_def kind_def)
    then show ?thesis
      using subs_ok_made [OF ok None made_not_pending [OF assms(2)], of l once kind] assms(1) no_sub [OF None]
      by (simp add: implements_def events_ok_def)
  qed
qed

lemma off_implements:
  assumes "events_ok s" and "found_tag e None = Inr t"
  shows "\<exists>s'. await_call (OffCall e l) s = Inr s' \<and> implements (OffCall e l) t s s'"
proof -
  have ok: "subs_ok s" using assms(1) by (simp add: events_ok_def)
  have look: "await_call (OffCall e l) s = Inr (call_act (OffCall e l) (map_of (pv_subs s) t) s)"
    by (simp add: await_call_def call_lookup_def hasSub_tag assms(2))
  show ?thesis
  proof (cases "map_of (pv_subs s) t")
    case None
    then have "await_call (OffCall e l) s = Inr s" by (simp add: look call_act_def)
    then show ?thesis using assms(1) no_sub [OF None] by (cases l) (simp_all add: implements_def fun_upd_idem)
  next
    case (Some i)
    note stop = events_ok_stop [OF ok Some] subs_ok_stop [OF ok Some]
    show ?thesis
    proof (cases l)
      case None
      have "await_call (OffCall e l) s = Inr (stop_sub i s)" unfolding look by (simp add: Some None call_act_def off_act_def)
      moreover have "events_ok (stop_sub i s)" using stop(1) assms(1) by (simp add: events_ok_def)
      ultimately show ?thesis using stop(3,4) by (simp add: None implements_def)
    next
      case l: (Some k)
      define ls where "ls = remove_listener k (es_listeners (sub_at i s))"
      define s1 where "s1 = set_sub i ((sub_at i s)\<lparr>es_listeners := ls\<rparr>) s"
      note s1 = subs_ok_listeners [OF ok Some, of ls, folded s1_def]
      have m: "map_of (pv_subs s1) t = Some i" by (simp add: s1_def Some)
      have e: "es_listeners (sub_at i s1) = ls" using sub_found(1) [OF ok Some] by (simp add: s1_def)
      have a: "call_act (OffCall e l) (map_of (pv_subs s) t) s = (if ls = [] then stop_sub i s1 else s1)"
        using e by (simp add: Some l call_act_def off_act_def Let_def ls_def s1_def)
      have c: "pv_called s1 = pv_called s" by (simp add: s1_def)
      show ?thesis
      proof (cases "ls = []")
        case True
        have "\<forall>u. u \<in> fst ` set (pv_subs s1) \<longrightarrow> u \<noteq> t \<longrightarrow> registry_of s1 u \<noteq> []"
          using assms(1) unfolding s1(2) by (simp add: s1_def events_ok_def)
        from events_ok_stop [OF s1(1) m this] have "events_ok (stop_sub i s1)" .
        moreover have "await_call (OffCall e l) s = Inr (stop_sub i s1)" unfolding look a using True by simp
        ultimately show ?thesis
          using subs_ok_stop(2,3) [OF s1(1) m] by (simp add: l implements_def s1(2) c found_sub [OF Some] ls_def [symmetric] True)
      next
        case False
        then have "await_call (OffCall e l) s = Inr s1" unfolding look a by (simp only: if_False)
        then show ?thesis
          using events_ok_listeners [OF assms(1) Some False, folded s1_def]
          by (simp add: l implements_def s1(2) c found_sub [OF Some] ls_def [symmetric])
      qed
    qed
  qed
qed

lemma emit_implements:
  assumes "events_ok s" and "found_tag e removed = Inr t"
  shows "\<exists>s'. await_call (EmitCall e v removed) s = Inr s' \<and> implements (EmitCall e v removed) t s s'"
proof -
  have ok: "subs_ok s" using assms(1) by (simp add: events_ok_def)
  have look: "await_call (EmitCall e v removed) s = Inr (call_act (EmitCall e v removed) (map_of (pv_subs s) t) s)"
    by (simp add: await_call_def call_lookup_def hasSub_tag assms(2))
  show ?thesis
  proof (cases "map_of (pv_subs s) t")
    case None
    then show ?thesis using assms(1) no_sub [OF None] by (simp add: look call_act_def implements_def fun_upd_idem)
  next
    case (Some i)
    define old ls where "old = es_listeners (sub_at i s)" and "ls = filter (\<lambda>(_, once). \<not> once) old"
    have "old \<noteq> []"
      using assms(1) sub_found(5) [OF ok Some] found_sub [OF Some] by (force simp: events_ok_def old_def)
    define s0 where "s0 = s\<lparr>pv_called := pv_called s @ map (\<lambda>(l, _). (l, v)) old\<rparr>"
    have s0: "subs_ok s0" "registry_of s0 = registry_of s" "map_of (pv_subs s0) t = Some i" "sub_at i s0 = sub_at i s" "events_ok s0"
    proof -
      show r: "registry_of s0 = registry_of s" by (intro ext) (simp add: s0_def registry_of_def split: option.split)
      show "subs_ok s0" using ok by (simp add: s0_def subs_ok_def running_def)
      with r show "events_ok s0" using assms(1) by (simp add: events_ok_def) (simp add: s0_def)
      show "map_of (pv_subs s0) t = Some i" "sub_at i s0 = sub_at i s" by (simp_all add: s0_def Some)
    qed
    define s1 where "s1 = set_sub i ((sub_at i s0)\<lparr>es_listeners := ls\<rparr>) s0"
    note s1 = subs_ok_listeners [OF s0(1,3), of ls, folded s1_def]
    have m: "map_of (pv_subs s1) t = Some i" by (simp add: s1_def s0)
    have e: "es_listeners (sub_at i s1) = ls" using sub_found(1) [OF s0(1,3)] by (simp add: s1_def)
    have a: "call_act (EmitCall e v removed) (map_of (pv_subs s) t) s = (if ls = [] then stop_sub i s1 else s1)"
      using e \<open>old \<noteq> []\<close> by (simp add: Some call_act_def emit_act_def Let_def ls_def s1_def s0(4) s0_def old_def [symmetric])
    have c: "pv_called s1 = pv_called s @ map (\<lambda>(l, _). (l, v)) old" by (simp add: s1_def s0_def)
    show ?thesis
    proof (cases "ls = []")
      case True
      have "\<forall>u. u \<in> fst ` set (pv_subs s1) \<longrightarrow> u \<noteq> t \<longrightarrow> registry_of s1 u \<noteq> []"
        using s0(5) unfolding s1(2) by (simp add: s1_def events_ok_def)
      from events_ok_stop [OF s1(1) m this] have "events_ok (stop_sub i s1)" .
      moreover have "await_call (EmitCall e v removed) s = Inr (stop_sub i s1)" unfolding look a using True by simp
      ultimately show ?thesis
        using subs_ok_stop(2,3) [OF s1(1) m]
        by (simp add: implements_def s1(2) s0(2) c found_sub [OF Some] old_def [symmetric] ls_def [symmetric] True)
    next
      case False
      then have "await_call (EmitCall e v removed) s = Inr s1" unfolding look a by (simp only: if_False)
      then show ?thesis
        using events_ok_listeners [OF s0(5,3) False, folded s1_def]
        by (simp add: implements_def s1(2) s0(2) c found_sub [OF Some] old_def [symmetric] ls_def [symmetric])
    qed
  qed
qed

lemma remove_implements:
  assumes "events_ok s" and "made_tag e = Inr t"
  shows "\<exists>s'. await_call (RemoveCall e) s = Inr s' \<and> implements (RemoveCall e) t s s'"
proof -
  have ok: "subs_ok s" using assms(1) by (simp add: events_ok_def)
  show ?thesis
  proof (cases "map_of (pv_subs s) t")
    case (Some i)
    have "await_call (RemoveCall e) s = Inr (stop_sub i s)"
      by (simp add: await_call_def call_lookup_def getSub_tag [OF ok] assms(2) Some call_act_def)
    moreover have "events_ok (stop_sub i s)" using events_ok_stop [OF ok Some] assms(1) by (simp add: events_ok_def)
    ultimately show ?thesis using subs_ok_stop(2,3) [OF ok Some] by (simp add: implements_def)
  next
    case None
    define kind where "kind = fst (projr (getSubscription e))"
    define s1 where "s1 = stop_sub (length (pv_heap s)) (made_sub t kind s)"
    have "await_call (RemoveCall e) s = Inr s1"
      by (simp add: await_call_def call_lookup_def getSub_tag [OF ok] assms(2) None call_act_def kind_def s1_def)
    moreover have old: "t \<notin> fst ` set (pv_subs s)" using None by (simp add: map_of_eq_None_iff)
    have subs: "pv_subs s1 = pv_subs s"
    proof -
      have "filter (\<lambda>p. fst p \<noteq> t) (pv_subs s) = pv_subs s" using old by (intro filter_True) force
      then show ?thesis by (simp add: s1_def stop_sub_def)
    qed
    have s1: "pv_heap s1 = pv_heap (made_sub t kind s)" "running s1 = running s" "pv_subscribers s1 = pv_subscribers s + 1"
      "pv_called s1 = pv_called s" by (simp_all add: s1_def stop_sub_def)
    have "subs_ok s1" using ok by (auto simp: subs_ok_def s1 subs nth_append less_Suc_eq)
    moreover have r: "registry_of s1 = registry_of s"
    proof
      fix u
      have "i < length (pv_heap s)" if "map_of (pv_subs s) u = Some i" for i using sub_found(1) [OF ok that] .
      then show "registry_of s1 u = registry_of s u" by (auto simp: registry_of_def subs s1 nth_append split: option.split)
    qed
    ultimately show ?thesis
      using assms(1) no_sub [OF None] by (simp add: implements_def events_ok_def subs s1 r fun_upd_idem)
  qed
qed

lemma await_implements:
  assumes "events_ok s"
  shows "case call_tag c of Inl err \<Rightarrow> await_call c s = Inl err
    | Inr t \<Rightarrow> \<exists>s'. await_call c s = Inr s' \<and> implements c t s s'"
proof -
  have ok: "subs_ok s" using assms by (simp add: events_ok_def)
  have rejected: "await_call c s = Inl err" if "call_tag c = Inl err" for err
    using that by (cases c) (simp_all add: await_call_def call_lookup_def getSub_tag [OF ok] hasSub_tag)
  have "\<exists>s'. await_call c s = Inr s' \<and> implements c t s s'" if "call_tag c = Inr t" for t
    using that on_implements [OF assms] off_implements [OF assms] emit_implements [OF assms] remove_implements [OF assms]
    by (cases c) simp_all
  with rejected show ?thesis by (auto split: sum.splits)
qed

text \<open>A sequence of operations, each awaited; a rejected one changes nothing.\<close>

definition await_next :: "event_call \<Rightarrow> provider_state \<Rightarrow> provider_state" where
  "await_next c s = (case await_call c s of Inl _ \<Rightarrow> s | Inr s' \<Rightarrow> s')"

lemma await_fold:
  assumes "events_ok s"
  shows "events_ok (fold await_next cs s) \<and>
    (registry_of (fold await_next cs s), pv_called (fold await_next cs s)) = fold registry_step cs (registry_of s, pv_called s)"
  using assms
proof (induction cs arbitrary: s)
  case (Cons c cs)
  have "events_ok (await_next c s) \<and>
      (registry_of (await_next c s), pv_called (await_next c s)) = registry_step c (registry_of s, pv_called s)"
    using await_implements [OF Cons.prems, of c] Cons.prems
    by (auto simp: await_next_def registry_step_def implements_def split: sum.splits prod.splits)
  then show ?case using Cons.IH [of "await_next c s"] by simp
qed simp

lemma events_ok_new: "events_ok new_provider"
  by (simp add: events_ok_def subs_ok_def new_provider_def running_def)

lemma new_registry: "registry_of new_provider = (\<lambda>_. [])" "pv_called new_provider = []"
  by (simp_all add: registry_of_def new_provider_def fun_eq_iff)

text \<open>
  C32. As long as every operation is awaited before the next, the events of a provider
  are a map from tags to lists of listeners: listeners are called in the order they were
  added, those of \<open>once\<close> are gone after the first event, and an operation that is rejected
  changes nothing. The subscribers that run are those of the events with listeners.
\<close>

theorem events_refine_registry:
  "(case fold registry_step cs (\<lambda>_. [], []) of (reg, called) \<Rightarrow>
     registry_of (fold await_next cs new_provider) = reg \<and> pv_called (fold await_next cs new_provider) = called \<and>
     fst ` set (pv_subs (fold await_next cs new_provider)) = {t. reg t \<noteq> []} \<and>
     running (fold await_next cs new_provider) = snd ` set (pv_subs (fold await_next cs new_provider)))"
proof -
  define s where "s = fold await_next cs new_provider"
  have ok: "events_ok s" and r: "fold registry_step cs (\<lambda>_. [], []) = (registry_of s, pv_called s)"
    using await_fold [OF events_ok_new, of cs] unfolding s_def new_registry by simp_all
  have "registry_of s t \<noteq> [] \<Longrightarrow> t \<in> fst ` set (pv_subs s)" for t
    by (cases "map_of (pv_subs s) t") (auto simp: registry_of_def dest: map_of_SomeD intro: image_eqI [rotated])
  then have "fst ` set (pv_subs s) = {t. registry_of s t \<noteq> []}" using ok unfolding events_ok_def by blast
  then show ?thesis using ok unfolding s_def [symmetric] r by (simp add: events_ok_def subs_ok_def)
qed

section \<open>Operations in any order\<close>

definition count_of :: "nat \<Rightarrow> (nat \<times> 'a) list \<Rightarrow> nat" where
  "count_of l xs = length (filter (\<lambda>p. fst p = l) xs)"

lemma count_of_simps [simp]:
  "count_of l [] = 0" "count_of l (p # ps) = (if fst p = l then 1 else 0) + count_of l ps" "count_of l (xs @ ys) = count_of l xs + count_of l ys"
  by (simp_all add: count_of_def)

lemma count_of_called [simp]: "count_of l (map (\<lambda>(k, _). (k, v)) xs) = count_of l xs"
  by (induction xs) auto

lemma count_remove: "count_of l (remove_listener k xs) \<le> count_of l xs"
  by (induction xs) auto

lemma set_remove: "set (remove_listener k xs) \<subseteq> set xs"
  by (induction xs) (auto split: if_splits)

lemma count_kept: "(l, False) \<notin> set xs \<Longrightarrow> count_of l (filter (\<lambda>(_, once). \<not> once) xs) = 0"
  by (induction xs) auto

definition held :: "nat \<Rightarrow> provider_state \<Rightarrow> nat" where
  "held l s = sum_list (map (\<lambda>x. count_of l (es_listeners x)) (pv_heap s))"

lemma held_cong: "pv_heap s = pv_heap s' \<Longrightarrow> held l s = held l s'"
  by (simp add: held_def)

lemma held_set_sub:
  assumes "i < length (pv_heap s)"
  shows "held l (set_sub i x s) + count_of l (es_listeners (sub_at i s)) = held l s + count_of l (es_listeners x)"
proof -
  define f :: "event_sub \<Rightarrow> nat" where "f = (\<lambda>x. count_of l (es_listeners x))"
  have "f (sub_at i s) \<le> sum_list (map f (pv_heap s))"
    using assms elem_le_sum_list [of i "map f (pv_heap s)"] by simp
  then show ?thesis
    using assms sum_list_update [of i "map f (pv_heap s)" "f x"] by (simp add: held_def map_update f_def)
qed

text \<open>A listener that is only ever added with \<open>once\<close>.\<close>

definition adds :: "nat \<Rightarrow> event_call \<Rightarrow> bool" where
  "adds l c = (case c of OnCall e k once \<Rightarrow> k = l \<and> once | _ \<Rightarrow> False)"

definition keeps :: "nat \<Rightarrow> event_call \<Rightarrow> bool" where
  "keeps l c = (case c of OnCall e k once \<Rightarrow> k = l \<and> \<not> once | _ \<Rightarrow> False)"

definition only_once :: "nat \<Rightarrow> provider_state \<Rightarrow> bool" where
  "only_once l s \<longleftrightarrow> (\<forall>x \<in> set (pv_heap s). (l, False) \<notin> set (es_listeners x))"

definition in_heap :: "provider_state \<Rightarrow> bool" where
  "in_heap s \<longleftrightarrow> (\<forall>p \<in> set (pv_subs s). snd p < length (pv_heap s))"

lemma only_once_set: "only_once l s \<Longrightarrow> (l, False) \<notin> set (es_listeners x) \<Longrightarrow> only_once l (set_sub i x s)"
  by (auto simp: only_once_def dest: set_update_subset_insert [THEN subsetD])

lemma stop_sub_simps [simp]:
  "pv_heap (stop_sub i s) = pv_heap s" "pv_called (stop_sub i s) = pv_called s"
  "pv_subs (stop_sub i s) = filter (\<lambda>p. fst p \<noteq> es_tag (sub_at i s)) (pv_subs s)"
  by (simp_all add: stop_sub_def)

text \<open>What acting changes: the sizes stay, and calls come out of what is held.\<close>

lemma act_count:
  assumes "i < length (pv_heap s)" and "only_once l s" and "\<not> keeps l c" and "in_heap s"
  defines "s' \<equiv> call_act c (Some i) s"
  shows "length (pv_heap s') = length (pv_heap s) \<and> in_heap s' \<and> only_once l s' \<and>
    count_of l (pv_called s') + held l s' \<le> count_of l (pv_called s) + held l s + (if adds l c then 1 else 0)"
proof -
  have l: "(l, False) \<notin> set (es_listeners (sub_at i s))" using assms(1,2) by (simp add: only_once_def)
  define put where "put = (\<lambda>ls s. set_sub i ((sub_at i s)\<lparr>es_listeners := ls\<rparr>) s)"
  have put: "length (pv_heap (put ls s)) = length (pv_heap s)" "in_heap (put ls s)" "pv_called (put ls s) = pv_called s"
    "(l, False) \<notin> set ls \<Longrightarrow> only_once l (put ls s)"
    "held l (put ls s) + count_of l (es_listeners (sub_at i s)) = held l s + count_of l ls" for ls
    using assms(4) only_once_set [OF assms(2)] held_set_sub [OF assms(1), of l] by (simp_all add: put_def in_heap_def)
  have stop: "length (pv_heap (stop_sub i t)) = length (pv_heap t)" "in_heap t \<Longrightarrow> in_heap (stop_sub i t)"
    "only_once l (stop_sub i t) = only_once l t" "held l (stop_sub i t) = held l t" "pv_called (stop_sub i t) = pv_called t" for t
    by (auto simp: in_heap_def only_once_def held_def)
  show ?thesis
  proof (cases c)
    case (OnCall e k once)
    define t where "t = put (es_listeners (sub_at i s) @ [(k, once)]) s"
    have t: "length (pv_heap t) = length (pv_heap s)" "in_heap t" "pv_called t = pv_called s" "only_once l t"
      "held l t = held l s + (if k = l then 1 else 0)"
      using put [of "es_listeners (sub_at i s) @ [(k, once)]"] l assms(3) by (auto simp: t_def OnCall keeps_def)
    have start: "length (pv_heap (start_sub i t)) = length (pv_heap t)" "in_heap (start_sub i t) = in_heap t"
      "pv_called (start_sub i t) = pv_called t" "only_once l t \<Longrightarrow> only_once l (start_sub i t)" "held l (start_sub i t) = held l t"
    proof -
      define u where "u = set_sub i ((sub_at i t)\<lparr>es_started := True\<rparr>) t"
      have "only_once l u" if "only_once l t"
        using only_once_set [OF that, of "(sub_at i t)\<lparr>es_started := True\<rparr>" i] that assms(1) t(1)
        by (simp add: u_def) (simp add: only_once_def)
      then have u: "held l u = held l t" "only_once l t \<Longrightarrow> only_once l u" "length (pv_heap u) = length (pv_heap t)" "pv_subs u = pv_subs t" "pv_called u = pv_called t"
        using held_set_sub [of i t l "(sub_at i t)\<lparr>es_started := True\<rparr>"] assms(1) t(1)
        by (simp_all add: u_def)
      have s: "start_sub i t = t \<or> (pv_heap (start_sub i t) = pv_heap u \<and> pv_subs (start_sub i t) = pv_subs u \<and> pv_called (start_sub i t) = pv_called u)"
        by (auto simp: start_sub_def Let_def u_def split: option.splits)
      then show "length (pv_heap (start_sub i t)) = length (pv_heap t)" "in_heap (start_sub i t) = in_heap t"
        "pv_called (start_sub i t) = pv_called t" "only_once l t \<Longrightarrow> only_once l (start_sub i t)" "held l (start_sub i t) = held l t"
        using u by (elim disjE; simp add: in_heap_def only_once_def held_def)+
    qed
    have "s' = start_sub i t" by (simp add: s'_def OnCall call_act_def on_act_def t_def put_def)
    then show ?thesis using start t assms(3) by (auto simp: OnCall adds_def keeps_def)
  next
    case (OffCall e k)
    show ?thesis
    proof (cases k)
      case None
      then show ?thesis using stop [of s] assms(2,4) by (simp add: s'_def OffCall call_act_def off_act_def)
    next
      case (Some a)
      define t where "t = put (remove_listener a (es_listeners (sub_at i s))) s"
      have "(l, False) \<notin> set (remove_listener a (es_listeners (sub_at i s)))" using l set_remove by blast
      then have t: "length (pv_heap t) = length (pv_heap s)" "in_heap t" "pv_called t = pv_called s" "only_once l t" "held l t \<le> held l s"
        using put [of "remove_listener a (es_listeners (sub_at i s))"] count_remove [of l a "es_listeners (sub_at i s)"]
        by (simp_all add: t_def)
      have "s' = t \<or> s' = stop_sub i t" by (simp add: s'_def OffCall Some call_act_def off_act_def Let_def t_def put_def)
      then show ?thesis using t stop [of t] by (auto simp: OffCall adds_def)
    qed
  next
    case (RemoveCall e)
    then show ?thesis using stop [of s] assms(2,4) by (simp add: s'_def call_act_def)
  next
    case (EmitCall e v removed)
    define ls where "ls = es_listeners (sub_at i s)"
    define kept where "kept = filter (\<lambda>(_, once). \<not> once) ls"
    have kept: "count_of l kept = 0" "(l, False) \<notin> set kept" using count_kept l by (auto simp: kept_def ls_def)
    define u where "u = set_sub i ((sub_at i s)\<lparr>es_listeners := kept\<rparr>) (s\<lparr>pv_called := pv_called s @ map (\<lambda>(k, _). (k, v)) ls\<rparr>)"
    have u_put: "u = (put kept s)\<lparr>pv_called := pv_called s @ map (\<lambda>(k, _). (k, v)) ls\<rparr>"
      by (simp add: u_def put_def set_sub_def)
    have u: "length (pv_heap u) = length (pv_heap s)" "in_heap u" "only_once l u"
      "count_of l (pv_called u) + held l u = count_of l (pv_called s) + held l s"
      using put [of kept] kept by (simp_all add: u_put in_heap_def only_once_def held_def ls_def)
    have "s' = s \<or> s' = u \<or> s' = stop_sub i u"
      by (auto simp: s'_def EmitCall call_act_def emit_act_def Let_def u_def kept_def ls_def)
    then show ?thesis using u stop [of u] assms(2,4) by (auto simp: EmitCall adds_def)
  qed
qed

text \<open>Looking up: an object may be made, and what is found is in the heap.\<close>

lemma lookup_count:
  assumes "call_lookup c s = Inr (t, s')" and "in_heap s" and "only_once l s"
  shows "length (pv_heap s) \<le> length (pv_heap s') \<and> in_heap s' \<and> only_once l s' \<and> pv_called s' = pv_called s \<and>
    held l s' = held l s \<and> (\<forall>i. t = Some i \<longrightarrow> i < length (pv_heap s'))"
proof -
  have get: "length (pv_heap s) \<le> length (pv_heap u) \<and> in_heap u \<and> only_once l u \<and> pv_called u = pv_called s \<and>
      held l u = held l s \<and> i < length (pv_heap u)" if got: "getSub e s = Inr (i, u)" for e i u
  proof -
    obtain k tag where kt: "getSubscription e = Inr (k, tag)"
      using got by (cases "getSubscription e") (auto simp: getSub_def)
    show ?thesis
    proof (cases "map_of (pv_subs s) tag")
      case (Some j)
      then have "u = s" "i = j" "(tag, j) \<in> set (pv_subs s)" using got kt by (auto simp: getSub_def dest: map_of_SomeD)
      then show ?thesis using assms(2,3) by (auto simp: in_heap_def)
    next
      case None
      then have "u = made_sub tag k s" "i = length (pv_heap s)"
        using got kt by (auto simp: getSub_def made_sub_def getSubscriber_def split: if_splits)
      then show ?thesis using assms(2,3) by (auto simp: in_heap_def only_once_def held_def)
    qed
  qed
  have has: "i < length (pv_heap s)" if got: "hasSub e r s = Inr (Some i)" for e r i
  proof -
    obtain tag where "map_of (pv_subs s) tag = Some i" using got by (auto simp: hasSub_tag)
    then have "(tag, i) \<in> set (pv_subs s)" by (rule map_of_SomeD)
    then show ?thesis using assms(2) by (auto simp: in_heap_def)
  qed
  show ?thesis
  proof (cases c)
    case (OnCall e k once)
    then show ?thesis using assms(1) get [of e] by (auto simp: call_lookup_def)
  next
    case (RemoveCall e)
    then show ?thesis using assms(1) get [of e] by (auto simp: call_lookup_def)
  next
    case (OffCall e k)
    then have "s' = s" "hasSub e None s = Inr t" using assms(1) by (auto simp: call_lookup_def)
    then show ?thesis using assms(2,3) has [of e None] by auto
  next
    case (EmitCall e v r)
    then have "s' = s" "hasSub e r s = Inr t" using assms(1) by (auto simp: call_lookup_def)
    then show ?thesis using assms(2,3) has [of e r] by auto
  qed
qed

definition waiting_adds :: "nat \<Rightarrow> (event_call \<times> 'a) list \<Rightarrow> nat" where
  "waiting_adds l ws = length (filter (\<lambda>p. adds l (fst p)) ws)"

definition once_ok :: "nat \<Rightarrow> event_machine \<Rightarrow> bool" where
  "once_ok l m \<longleftrightarrow>
     in_heap (em_state m) \<and> only_once l (em_state m) \<and>
     (\<forall>c t. (c, t) \<in> set (em_waiting m) \<longrightarrow> \<not> keeps l c \<and> (\<forall>i. t = Some (Some i) \<longrightarrow> i < length (pv_heap (em_state m)))) \<and>
     count_of l (pv_called (em_state m)) + held l (em_state m) + waiting_adds l (em_waiting m)
       \<le> length (filter (adds l) (em_asked m))"

lemma waiting_adds_simps [simp]:
  "waiting_adds l [] = 0" "waiting_adds l (p # ps) = (if adds l (fst p) then 1 else 0) + waiting_adds l ps"
  "waiting_adds l (xs @ ys) = waiting_adds l xs + waiting_adds l ys"
  by (simp_all add: waiting_adds_def)

text \<open>Changes of the state that touch neither listeners nor calls.\<close>

lemma once_ok_quiet:
  assumes "once_ok l m" and "map es_listeners (pv_heap s) = map es_listeners (pv_heap (em_state m))"
    and "set (pv_subs s) \<subseteq> set (pv_subs (em_state m))" and "pv_called s = pv_called (em_state m)"
  shows "once_ok l (m\<lparr>em_state := s\<rparr>)"
proof -
  have len: "length (pv_heap s) = length (pv_heap (em_state m))" using assms(2) by (rule map_eq_imp_length_eq)
  have "held l s = held l (em_state m)"
    using arg_cong [OF assms(2), of "\<lambda>ls. sum_list (map (count_of l) ls)"] by (simp add: held_def comp_def)
  moreover have "only_once l s \<longleftrightarrow> only_once l (em_state m)"
  proof -
    have o: "only_once l s' \<longleftrightarrow> (\<forall>ls \<in> set (map es_listeners (pv_heap s')). (l, False) \<notin> set ls)" for s'
      by (simp add: only_once_def)
    show ?thesis unfolding o assms(2) ..
  qed
  moreover have "in_heap s" using assms(1,3) len by (auto simp: once_ok_def in_heap_def)
  ultimately show ?thesis using assms(1,4) len by (simp add: once_ok_def)
qed

lemma remove_every_quiet:
  "pv_heap (fold (\<lambda>(_, i). stop_sub i) xs s) = pv_heap s" "pv_called (fold (\<lambda>(_, i). stop_sub i) xs s) = pv_called s"
  "set (pv_subs (fold (\<lambda>(_, i). stop_sub i) xs s)) \<subseteq> set (pv_subs s)"
proof -
  show "pv_heap (fold (\<lambda>(_, i). stop_sub i) xs s) = pv_heap s" by (induction xs arbitrary: s) auto
  show "pv_called (fold (\<lambda>(_, i). stop_sub i) xs s) = pv_called s" by (induction xs arbitrary: s) auto
  show "set (pv_subs (fold (\<lambda>(_, i). stop_sub i) xs s)) \<subseteq> set (pv_subs s)"
  proof (induction xs arbitrary: s)
    case (Cons x xs)
    then show ?case by (cases x) (fastforce dest: subsetD)
  qed simp
qed

lemma each_subscriber_quiet [simp]:
  "pv_heap (fold (\<lambda>(_, i). log_action (f i)) xs s) = pv_heap s" "pv_called (fold (\<lambda>(_, i). log_action (f i)) xs s) = pv_called s"
  "pv_subs (fold (\<lambda>(_, i). log_action (f i)) xs s) = pv_subs s"
  by (induction xs arbitrary: s) auto

lemma engine_quiet [simp]:
  "pv_heap (engine_clear h s) = pv_heap s" "pv_called (engine_clear h s) = pv_called s" "pv_subs (engine_clear h s) = pv_subs s"
  "pv_heap (engine_set due k f s) = pv_heap s" "pv_called (engine_set due k f s) = pv_called s" "pv_subs (engine_set due k f s) = pv_subs s"
  by (auto simp: engine_clear_def engine_set_def split: option.splits)

lemma engine_fold_quiet [simp]:
  "pv_heap (fold (\<lambda>(_, t). engine_clear (tm_handle t)) xs s) = pv_heap s"
  "pv_called (fold (\<lambda>(_, t). engine_clear (tm_handle t)) xs s) = pv_called s"
  "pv_subs (fold (\<lambda>(_, t). engine_clear (tm_handle t)) xs s) = pv_subs s"
  "pv_heap (fold (\<lambda>(k, t). engine_set (g t) k (tm_func t)) xs s) = pv_heap s"
  "pv_called (fold (\<lambda>(k, t). engine_set (g t) k (tm_func t)) xs s) = pv_called s"
  "pv_subs (fold (\<lambda>(k, t). engine_set (g t) k (tm_func t)) xs s) = pv_subs s"
  by (induction xs arbitrary: s) auto

lemma pause_quiet:
  "pv_heap (fst (pause_provider now d s)) = pv_heap s" "pv_called (fst (pause_provider now d s)) = pv_called s"
  "pv_subs (fst (pause_provider now d s)) = pv_subs s"
  by (simp_all add: pause_provider_def Let_def each_subscriber_def split: option.split)

lemma resume_quiet:
  "pv_heap (resume_provider now s) = pv_heap s" "pv_called (resume_provider now s) = pv_called s"
  "pv_subs (resume_provider now s) = pv_subs s"
  by (simp_all add: resume_provider_def Let_def each_subscriber_def)

lemma recover_quiet:
  "map es_listeners (pv_heap (recoverSubscriber old s)) = map es_listeners (pv_heap s)"
  "pv_called (recoverSubscriber old s) = pv_called s" "pv_subs (recoverSubscriber old s) = pv_subs s"
proof -
  have h: "map es_listeners ((pv_heap s)[i := (sub_at i s)\<lparr>es_subscriber := n\<rparr>]) = map es_listeners (pv_heap s)" for i n
    by (cases "i < length (pv_heap s)") (simp_all add: map_update list_update_same_conv list_update_beyond)
  show "map es_listeners (pv_heap (recoverSubscriber old s)) = map es_listeners (pv_heap s)"
    by (simp add: recoverSubscriber_def Let_def h split: list.split prod.split option.split)
  show "pv_called (recoverSubscriber old s) = pv_called s" "pv_subs (recoverSubscriber old s) = pv_subs s"
    by (simp_all add: recoverSubscriber_def Let_def split: list.split prod.split option.split)
qed

lemma once_step:
  assumes "event_step m m'" and "once_ok l m" and "\<forall>c \<in> set (em_asked m'). \<not> keeps l c"
  shows "once_ok l m'"
  using assms(1)
proof cases
  case (ask c)
  then show ?thesis using assms(2,3) by (auto simp: once_ok_def)
next
  case (find xs c ys t s)
  have "only_once l (em_state m)" "in_heap (em_state m)" using assms(2) by (simp_all add: once_ok_def)
  note look = lookup_count [OF find(3) this(2,1)]
  show ?thesis
    using assms(2) look find(2) unfolding find(1) once_ok_def
    by (auto intro: order_less_le_trans)
next
  case (reject xs c ys e)
  then show ?thesis using assms(2) by (auto simp: once_ok_def)
next
  case (act xs c t ys)
  have c: "\<not> keeps l c" "\<forall>i. t = Some i \<longrightarrow> i < length (pv_heap (em_state m))"
    using assms(2) act(2) by (auto simp: once_ok_def)
  show ?thesis
  proof (cases t)
    case None
    then show ?thesis using assms(2) act(2) unfolding act(1) by (auto simp: once_ok_def call_act_def)
  next
    case (Some i)
    have "only_once l (em_state m)" "in_heap (em_state m)" using assms(2) by (simp_all add: once_ok_def)
    note count = act_count [OF c(2) [rule_format, OF Some] this(1) c(1) this(2)]
    show ?thesis
      using assms(2) count act(2) unfolding act(1) once_ok_def Some
      by (auto split: if_splits)
  qed
next
  case clear
  show ?thesis unfolding clear
    by (rule once_ok_quiet [OF assms(2)]) (simp_all add: remove_every_def remove_every_quiet)
next
  case (recover old)
  show ?thesis unfolding recover
    by (rule once_ok_quiet [OF assms(2)]) (simp_all add: recover_quiet)
next
  case (pause now dropping)
  show ?thesis unfolding pause
    by (rule once_ok_quiet [OF assms(2)]) (simp_all add: pause_quiet)
next
  case (resume now)
  show ?thesis unfolding resume
    by (rule once_ok_quiet [OF assms(2)]) (simp_all add: resume_quiet)
qed

lemma asked_grows: "event_step m m' \<Longrightarrow> set (em_asked m) \<subseteq> set (em_asked m')"
  by (cases rule: event_step.cases) auto

text \<open>
  C33. Whatever operations are under way, and in whatever order they continue: a listener
  that is only added with \<open>once\<close> is called at most as often as it was added.
\<close>

theorem once_at_most_once:
  assumes "event_step\<^sup>*\<^sup>* new_machine m" and "\<forall>e. OnCall e l False \<notin> set (em_asked m)"
  shows "length (filter (\<lambda>p. fst p = l) (pv_called (em_state m))) \<le>
    length (filter (\<lambda>c. \<exists>e. c = OnCall e l True) (em_asked m))"
proof -
  have k: "(\<forall>c \<in> set (em_asked m). \<not> keeps l c)"
  proof
    have "keeps l c \<longleftrightarrow> (\<exists>e. c = OnCall e l False)" for c by (cases c) (auto simp: keeps_def)
    then show "\<not> keeps l c" if "c \<in> set (em_asked m)" for c using assms(2) that by blast
  qed
  have "(\<forall>c \<in> set (em_asked m). \<not> keeps l c) \<longrightarrow> once_ok l m"
    using assms(1)
  proof (induction rule: rtranclp_induct)
    case base
    show ?case by (simp add: once_ok_def new_machine_def new_provider_def in_heap_def only_once_def held_def)
  next
    case (step m m')
    then show ?case using once_step [of m m' l] asked_grows [of m m'] by blast
  qed
  with k have "count_of l (pv_called (em_state m)) \<le> length (filter (adds l) (em_asked m))" by (simp add: once_ok_def)
  moreover have "adds l = (\<lambda>c. \<exists>e. c = OnCall e l True)" by (auto simp: adds_def fun_eq_iff split: event_call.splits)
  ultimately show ?thesis by (simp add: count_of_def)
qed

text \<open>An operation that is awaited is three steps.\<close>

lemma await_steps:
  assumes "em_waiting m = []" and "await_call c (em_state m) = Inr s"
  shows "event_step\<^sup>*\<^sup>* m (m\<lparr>em_state := s, em_asked := em_asked m @ [c]\<rparr>)"
proof -
  obtain t u where look: "call_lookup c (em_state m) = Inr (t, u)" and s: "s = call_act c t u"
    using assms(2) by (auto simp: await_call_def)
  define m1 where "m1 = m\<lparr>em_waiting := [(c, None)], em_asked := em_asked m @ [c]\<rparr>"
  define m2 where "m2 = m1\<lparr>em_state := u, em_waiting := [(c, Some t)]\<rparr>"
  define m3 where "m3 = m2\<lparr>em_state := s, em_waiting := []\<rparr>"
  have "event_step m m1" using event_step.ask [of m c] assms(1) by (simp add: m1_def)
  moreover have "event_step m1 m2"
    using event_step.find [of m1 "[]" c "[]" t u] look by (simp add: m1_def m2_def)
  moreover have "event_step m2 m3"
    using event_step.act [of m2 "[]" c t "[]"] by (simp add: m2_def m3_def s)
  ultimately have "event_step\<^sup>*\<^sup>* m m3" by (meson converse_rtranclp_into_rtranclp rtranclp.rtrancl_refl)
  moreover have "m3 = m\<lparr>em_state := s, em_asked := em_asked m @ [c]\<rparr>" using assms(1) by (simp add: m1_def m2_def m3_def)
  ultimately show ?thesis by simp
qed

theorem once_at_most_once_witness:
  "\<exists>m :: event_machine. pv_called (em_state m) = [(5, 7)] \<and> length (filter (\<lambda>p. fst p = 5) (pv_called (em_state m))) \<le> length (filter (\<lambda>c. \<exists>e. c = OnCall e 5 True) (em_asked m))"
proof -
  define on emit where "on = OnCall (NamedEvent ''block'') 5 True" and "emit = EmitCall (NamedEvent ''block'') 7 None"
  define s1 where "s1 = await_next on new_provider"
  define s2 where "s2 = await_next emit s1"
  have t: "getSubscription (NamedEvent ''block'') = Inr (PlainSub ''block'', ''block'')" by (simp add: getSubscription_def)
  have a: "await_call on new_provider = Inr s1"
    using on_implements [OF events_ok_new, of "NamedEvent ''block''" "''block''" 5 True]
    by (auto simp: s1_def await_next_def on_def made_tag_def t getSubscriber_def)
  have i1: "implements on ''block'' new_provider s1"
    using on_implements [OF events_ok_new, of "NamedEvent ''block''" "''block''" 5 True] a
    by (auto simp: on_def made_tag_def t getSubscriber_def)
  have "\<exists>s'. await_call emit s1 = Inr s' \<and> implements emit ''block'' s1 s'"
    using emit_implements [of s1 "NamedEvent ''block''" None "''block''" 7] i1
    by (simp add: emit_def found_tag_def t implements_def)
  then have b: "await_call emit s1 = Inr s2" "implements emit ''block'' s1 s2" by (auto simp: s2_def await_next_def)
  define m1 where "m1 = new_machine\<lparr>em_state := s1, em_asked := [on]\<rparr>"
  define m2 where "m2 = m1\<lparr>em_state := s2, em_asked := [on, emit]\<rparr>"
  have "event_step\<^sup>*\<^sup>* new_machine m1" using await_steps [of new_machine on s1] a by (simp add: m1_def new_machine_def)
  also have "event_step\<^sup>*\<^sup>* m1 m2" using await_steps [of m1 emit s2] b(1) by (simp add: m1_def m2_def new_machine_def)
  finally have r: "event_step\<^sup>*\<^sup>* new_machine m2" .
  have "pv_called s2 = [(5, 7)]" using i1 b(2) by (simp add: implements_def on_def emit_def new_registry)
  moreover have "\<forall>e. OnCall e 5 False \<notin> set (em_asked m2)" by (simp add: m2_def on_def emit_def)
  ultimately show ?thesis
    using once_at_most_once [OF r, of 5] by (intro exI [of _ m2] conjI) (simp_all add: m2_def)
qed

section \<open>A listener that is lost\<close>

text \<open>
  Two operations that are not awaited: promises are continued in turn, so that both have
  found their objects before the first acts.
\<close>

definition two_calls :: "event_call \<Rightarrow> event_call \<Rightarrow> provider_state \<Rightarrow> provider_state result" where
  "two_calls c1 c2 s =
     bindE (call_lookup c1 s) (\<lambda>(t1, s1). bindE (call_lookup c2 s1) (\<lambda>(t2, s2).
       Inr (call_act c2 t2 (call_act c1 t1 s2))))"

text \<open>
  C34. When the only listener of an event is removed and another is added without waiting
  for the removal, the new listener is lost: the event has no listeners afterwards and
  its subscriber does not run. (The object is taken out of the map in between, and counts
  as started.) Awaited, the two operations leave the new listener.
\<close>

theorem added_while_removing:
  assumes "events_ok s" and "made_tag e = Inr t" and "found_tag e None = Inr t" and "registry_of s t = [(l, once)]"
  shows "(\<exists>s'. two_calls (OffCall e (Some l)) (OnCall e l' once') s = Inr s' \<and>
      registry_of s' t = [] \<and> running s' = running s - {the (map_of (pv_subs s) t)}) \<and>
    registry_of (await_next (OnCall e l' once') (await_next (OffCall e (Some l)) s)) t = [(l', once')]"
proof
  have ok: "subs_ok s" using assms(1) by (simp add: events_ok_def)
  obtain i where i: "map_of (pv_subs s) t = Some i" "es_listeners (sub_at i s) = [(l, once)]"
    using assms(4) by (cases "map_of (pv_subs s) t") (simp_all add: registry_of_def)
  note sub = sub_found [OF ok i(1)]
  define s1 where "s1 = set_sub i ((sub_at i s)\<lparr>es_listeners := []\<rparr>) s"
  have s1: "subs_ok s1" "map_of (pv_subs s1) t = Some i" "running s1 = running s"
    using subs_ok_listeners(1) [OF ok i(1), of "[]"] i(1) by (simp_all add: s1_def)
  define s2 where "s2 = stop_sub i s1"
  have s2: "map_of (pv_subs s2) t = None" "running s2 = running s - {i}" "es_started (sub_at i s2)"
    using subs_ok_stop(6) [OF s1(1,2)] sub(1-3) s1(3) by (simp_all add: s2_def s1_def map_of_delete)
  define s' where "s' = set_sub i ((sub_at i s2)\<lparr>es_listeners := es_listeners (sub_at i s2) @ [(l', once')]\<rparr>) s2"
  have off: "call_act (OffCall e (Some l)) (Some i) s = s2"
    using sub(1) by (simp add: call_act_def off_act_def i(2) s1_def s2_def)
  have len: "i < length (pv_heap s2)" using sub(1) by (simp add: s2_def s1_def)
  have "call_act (OnCall e l' once') (Some i) s2 = s'"
    using s2(3) len by (simp add: call_act_def on_act_def start_sub_def s'_def)
  then have "two_calls (OffCall e (Some l)) (OnCall e l' once') s = Inr s'"
    by (simp add: two_calls_def call_lookup_def hasSub_tag getSub_tag [OF ok] assms(2,3) i(1) off)
  moreover have "registry_of s' t = []" "running s' = running s - {i}"
    using s2 by (simp_all add: s'_def registry_of_def)
  ultimately show "\<exists>s'. two_calls (OffCall e (Some l)) (OnCall e l' once') s = Inr s' \<and>
      registry_of s' t = [] \<and> running s' = running s - {the (map_of (pv_subs s) t)}" using i(1) by auto
next
  obtain u where u: "await_call (OffCall e (Some l)) s = Inr u" "implements (OffCall e (Some l)) t s u"
    using off_implements [OF assms(1,3)] by blast
  then obtain v where v: "await_call (OnCall e l' once') u = Inr v" "implements (OnCall e l' once') t u v"
    using on_implements [OF _ assms(2), of u l' once'] unfolding implements_def [of "OffCall e (Some l)"] by blast
  then show "registry_of (await_next (OnCall e l' once') (await_next (OffCall e (Some l)) s)) t = [(l', once')]"
    using u assms(4) by (simp add: await_next_def implements_def)
qed

theorem added_while_removing_witness:
  "\<exists>s. registry_of s ''block'' = [(1, False)] \<and>
     (\<exists>s'. two_calls (OffCall (NamedEvent ''block'') (Some 1)) (OnCall (NamedEvent ''block'') 2 False) s = Inr s' \<and>
       registry_of s' ''block'' = [])"
proof -
  have t: "getSubscription (NamedEvent ''block'') = Inr (PlainSub ''block'', ''block'')" by (simp add: getSubscription_def)
  have tags: "made_tag (NamedEvent ''block'') = Inr ''block''" "found_tag (NamedEvent ''block'') None = Inr ''block''"
    by (simp_all add: made_tag_def found_tag_def t getSubscriber_def)
  obtain s where "implements (OnCall (NamedEvent ''block'') 1 False) ''block'' new_provider s"
    using on_implements [OF events_ok_new tags(1)] by blast
  then have "events_ok s" "registry_of s ''block'' = [(1, False)]" by (simp_all add: implements_def new_registry)
  with added_while_removing [OF this(1) tags this(2)] show ?thesis by blast
qed

section \<open>Timers\<close>

lemma log_timers [simp]:
  "pv_timers (fold (\<lambda>(_, i). log_action (f i)) xs s) = pv_timers s" "pv_engine (fold (\<lambda>(_, i). log_action (f i)) xs s) = pv_engine s"
  "pv_nextHandle (fold (\<lambda>(_, i). log_action (f i)) xs s) = pv_nextHandle s"
  by (induction xs arbitrary: s) (auto simp: log_action_def)

lemma clear_timers [simp]:
  "pv_timers (engine_clear h s) = pv_timers s" "pv_nextHandle (engine_clear h s) = pv_nextHandle s" "pv_paused (engine_clear h s) = pv_paused s"
  by (auto simp: engine_clear_def split: option.splits)

lemma clear_fold_timers [simp]:
  "pv_timers (fold (\<lambda>(_, t). engine_clear (tm_handle t)) xs s) = pv_timers s"
  "pv_nextHandle (fold (\<lambda>(_, t). engine_clear (tm_handle t)) xs s) = pv_nextHandle s"
  "pv_paused (fold (\<lambda>(_, t). engine_clear (tm_handle t)) xs s) = pv_paused s"
  by (induction xs arbitrary: s) auto

lemma set_fold:
  "pv_timers (fold (\<lambda>(k, t). engine_set (g t) k (tm_func t)) xs s) = pv_timers s"
  "p \<in> set (pv_engine s) \<Longrightarrow> p \<in> set (pv_engine (fold (\<lambda>(k, t). engine_set (g t) k (tm_func t)) xs s))"
  by (induction xs arbitrary: s) (auto simp: engine_set_def)

lemma set_fold_engine:
  "(k, t) \<in> set xs \<Longrightarrow> \<exists>h \<ge> pv_nextHandle s.
     (h, g t, k, tm_func t) \<in> set (pv_engine (fold (\<lambda>(k, t). engine_set (g t) k (tm_func t)) xs s))"
proof (induction xs arbitrary: s)
  case (Cons x xs)
  obtain k' t' where x: "x = (k', t')" by (cases x)
  define s1 where "s1 = engine_set (g t') k' (tm_func t') s"
  have s1: "(pv_nextHandle s, g t', k', tm_func t') \<in> set (pv_engine s1)" "pv_nextHandle s \<le> pv_nextHandle s1"
    by (simp_all add: s1_def engine_set_def)
  show ?case
  proof (cases "(k, t) = x")
    case True
    then show ?thesis using set_fold(2) [OF s1(1)] by (auto simp: x s1_def [symmetric])
  next
    case False
    then have "(k, t) \<in> set xs" using Cons.prems by simp
    then obtain h where "h \<ge> pv_nextHandle s1"
      "(h, g t, k, tm_func t) \<in> set (pv_engine (fold (\<lambda>(k, t). engine_set (g t) k (tm_func t)) xs s1))"
      using Cons.IH by blast
    then show ?thesis using s1(2) by (auto simp: x s1_def intro: order_trans)
  qed
qed simp

text \<open>
  C35. A timer that lived through a pause: after \<open>resume\<close> it waits for the time that had
  gone by when the provider was paused, not for the time that was left; and clearing it
  has no effect on the engine any more, so that its function is run all the same.
\<close>

theorem resumed_timer:
  assumes "pv_paused s = None" and "\<forall>k \<in> fst ` set (pv_timers s). k < pv_nextTimer s"
    and "setTimeout t0 func timeout s = (k, s1)" and "pause_provider t1 dropping s1 = (s2, r)" and "resume_provider t2 s2 = s3"
  shows "\<exists>h. (h, t2 + max 0 (t1 - t0), k, func) \<in> set (pv_engine (clearTimeout k s3)) \<and> k \<notin> fst ` set (pv_timers (clearTimeout k s3))"
proof -
  define h0 where "h0 = pv_nextHandle s"
  define t where "t = \<lparr>tm_handle = Some h0, tm_func = func, tm_time = t0\<rparr>"
  have k: "k = pv_nextTimer s" and s1: "pv_timers s1 = pv_timers s @ [(k, t)]" "pv_nextHandle s1 = Suc h0" "pv_paused s1 = None"
    using assms(1,3) by (auto simp: setTimeout_def Let_def engine_set_def t_def h0_def)
  have s2: "pv_timers s2 = map (\<lambda>(k, t). (k, pause_timer t1 t)) (pv_timers s1)" "pv_nextHandle s2 = Suc h0" "pv_paused s2 = Some dropping"
    using assms(4) s1(2,3) by (auto simp: pause_provider_def Let_def each_subscriber_def)
  define g :: "timer \<Rightarrow> int" where "g = (\<lambda>t. t2 + max 0 (tm_time t))"
  define u where "u = ((each_subscriber Resumed s2)\<lparr>pv_paused := None\<rparr>)\<lparr>pv_timers := map (\<lambda>(k, t). (k, t\<lparr>tm_time := t2\<rparr>)) (pv_timers s2)\<rparr>"
  have s3: "s3 = fold (\<lambda>(k, t). engine_set (g t) k (tm_func t)) (pv_timers s2) u"
    using assms(5) s2(3) by (simp add: resume_provider_def Let_def each_subscriber_def u_def g_def)
  have "(k, pause_timer t1 t) \<in> set (pv_timers s2)" by (simp add: s2 s1)
  then obtain h where h: "h \<ge> pv_nextHandle u" "(h, g (pause_timer t1 t), k, func) \<in> set (pv_engine s3)"
    using set_fold_engine [of k "pause_timer t1 t" "pv_timers s2" u g] by (auto simp: s3 pause_timer_def t_def)
  have "pv_nextHandle u = Suc h0" using s2(2) by (simp add: u_def each_subscriber_def)
  then have "h \<noteq> h0" using h(1) by simp
  have fresh: "k \<notin> fst ` set (pv_timers s)"
  proof
    assume "k \<in> fst ` set (pv_timers s)"
    with assms(2) have "k < pv_nextTimer s" by (rule bspec)
    then show False by (simp add: k)
  qed
  have tm: "pv_timers s3 = map (\<lambda>(k, t). (k, t\<lparr>tm_time := t2\<rparr>)) (pv_timers s2)" by (simp add: s3 set_fold(1) u_def)
  have map_snd: "map_of (map (\<lambda>(k, t). (k, f t)) xs) j = map_option f (map_of xs j)" for f :: "timer \<Rightarrow> timer" and xs :: "(nat \<times> timer) list" and j
    by (induction xs) auto
  have "map_of (pv_timers s) k = None" using fresh by (simp add: map_of_eq_None_iff)
  then have "map_of (pv_timers s1) k = Some t" by (simp add: s1 map_add_def)
  then have "map_of (pv_timers s3) k = Some ((pause_timer t1 t)\<lparr>tm_time := t2\<rparr>)"
    unfolding tm s2(1) map_snd by simp
  then have "clearTimeout k s3 = (engine_clear (Some h0) s3)\<lparr>pv_timers := obj_delete k (pv_timers s3)\<rparr>"
    by (simp add: clearTimeout_def pause_timer_def t_def)
  then have "(h, g (pause_timer t1 t), k, func) \<in> set (pv_engine (clearTimeout k s3))" "k \<notin> fst ` set (pv_timers (clearTimeout k s3))"
    using h(2) \<open>h \<noteq> h0\<close> by (auto simp: engine_clear_def obj_delete_def)
  then show ?thesis by (auto simp: g_def pause_timer_def t_def)
qed

text \<open>A timer of ten seconds, paused after one: it runs one second after it is resumed.\<close>

theorem resumed_timer_witness:
  "\<exists>h. (h, 6000, 1, 9) \<in> set (pv_engine (clearTimeout 1 (resume_provider 5000 (fst (pause_provider 1000 False (snd (setTimeout 0 9 10000 new_provider)))))))"
proof -
  have "setTimeout 0 9 10000 new_provider = (1, snd (setTimeout 0 9 10000 new_provider))"
    by (simp add: setTimeout_def new_provider_def Let_def)
  from resumed_timer [where ?t1.0 = 1000 and dropping = False and ?t2.0 = 5000, OF _ _ this prod.collapse [symmetric] refl] show ?thesis
    by (auto simp: new_provider_def)
qed

end
