(* ===== verification/Fetch_Props.thy ===== *)
theory Fetch_Props
  imports Fetch
begin

text \<open>
  What sending a request promises: a bound on the attempts, and where credentials and
  redirects may go.
\<close>

section \<open>Attempts\<close>

text \<open>Only the first attempt looks at the limit a request was given.\<close>

lemma backoff_limit: "backoff W k (rq\<lparr>rq_maxAttempts := m\<rparr>) = backoff W k rq"
  by (simp add: backoff_def)

lemma limit_ignored:
  "fetch_clone (rq\<lparr>rq_maxAttempts := m\<rparr>) = fetch_clone rq"
  "fetch_prepare W C k (rq\<lparr>rq_maxAttempts := m\<rparr>) = fetch_prepare W C k rq"
  "fetch_after W k (rq\<lparr>rq_maxAttempts := m\<rparr>) req response = fetch_after W k rq req response"
proof -
  have fields: "rq_process (rq\<lparr>rq_maxAttempts := m\<rparr>) = rq_process rq" "rq_retry (rq\<lparr>rq_maxAttempts := m\<rparr>) = rq_retry rq"
    by simp_all
  show clone: "fetch_clone (rq\<lparr>rq_maxAttempts := m\<rparr>) = fetch_clone rq"
    by (simp add: fetch_clone_def new_FetchRequest_def)
  have answer: "gateway_answer W k (rq\<lparr>rq_maxAttempts := m\<rparr>) = gateway_answer W k rq"
    by (intro ext) (simp add: gateway_answer_def)
  show "fetch_prepare W C k (rq\<lparr>rq_maxAttempts := m\<rparr>) = fetch_prepare W C k rq"
    unfolding fetch_prepare_def clone answer by simp
  show "fetch_after W k (rq\<lparr>rq_maxAttempts := m\<rparr>) req response = fetch_after W k rq req response"
    unfolding fetch_after_def process_response_def retry_delay_def backoff_limit fields by (rule refl)
qed

lemma attempts_bound:
  "rq_maxAttempts this = MAX_ATTEMPTS \<Longrightarrow> length (fst (fetch_send W C k e d this origin r0)) \<le> 12 - k"
proof (induction W C k e d this origin r0 rule: fetch_send.induct)
  case (1 W C k e d this origin r0)
  show ?case
  proof (cases "of_nat k \<ge> rq_maxAttempts this")
    case False
    then have k: "k < 12" using "1.prems" by (simp add: MAX_ATTEMPTS_def)
    have again: "length (fst (fetch_send W C (k + 1) e d' next origin response)) \<le> 11 - k"
      if "assert (fw_time W k \<le> e) ''timeout'' TIMEOUT = Inr x" "fetch_prepare W C k this = Inr (Ready req)"
        "fetch_checks W C k req = Inr y" "run_getUrl W C k req = Inr ur"
        "response = new_FetchResponse (ur_statusCode ur) (ur_statusMessage ur) (ur_headers ur) (ur_body ur) (Some origin)"
        "fetch_after W k this req response = Again d' next" for x req y ur response d' "next"
      using "1.IH" [OF False that(1,2) refl that(3,4,5,6)] after_attempts [OF that(6)] by simp
    show ?thesis
      using k again by (subst fetch_send.simps)
        (auto simp: Let_def split: sum.splits fetch_ready.splits fetch_next.splits prod.splits; force)
  qed (simp add: fetch_send.simps)
qed

lemma first_attempt:
  assumes "1 \<le> m"
  shows "fetch_send W C 0 e d (rq\<lparr>rq_maxAttempts := m\<rparr>) origin r0 = fetch_send W C 0 e d (rq\<lparr>rq_maxAttempts := MAX_ATTEMPTS\<rparr>) origin r0"
proof -
  have "\<not> m \<le> rat_of_nat 0" "\<not> MAX_ATTEMPTS \<le> rat_of_nat 0" using assms by (simp_all add: MAX_ATTEMPTS_def)
  then show ?thesis
    by (subst (1 2) fetch_send.simps) (unfold limit_ignored, simp)
qed

text \<open>
  C28. At most twelve requests are sent for one, whatever redirects and throttling answer;
  and a limit set with \<open>setThrottleParams\<close>, if it is at least one, changes nothing: the
  copies that are sent again have the default limit.
\<close>

theorem fetch_attempts:
  assumes "1 \<le> m"
  shows "fetch_send W C 0 e d (setThrottleParams slot (Some m) rq) origin r0 =
      fetch_send W C 0 e d (setThrottleParams slot (Some MAX_ATTEMPTS) rq) origin r0
    \<and> length (fst (fetch_send W C 0 e d (setThrottleParams slot (Some m) rq) origin r0)) \<le> 12"
proof -
  define rq' where "rq' = rq\<lparr>rq_slotInterval := (case slot of None \<Rightarrow> rq_slotInterval rq | Some x \<Rightarrow> x)\<rparr>"
  have "setThrottleParams slot (Some n) rq = rq'\<lparr>rq_maxAttempts := n\<rparr>" for n
    by (simp add: setThrottleParams_def rq'_def)
  then show ?thesis
    using first_attempt [OF assms, of W C e d rq' origin r0] attempts_bound [of "rq'\<lparr>rq_maxAttempts := MAX_ATTEMPTS\<rparr>" W C 0]
    by simp
qed

text \<open>Worlds whose wire gives an answer per attempt.\<close>

definition answering :: "(nat \<Rightarrow> url_response) \<Rightarrow> fetch_world" where
  "answering f =
     \<lparr>fw_time = (\<lambda>_. 0), fw_random = (\<lambda>_. 0), fw_cancelled = (\<lambda>_ _. False), fw_wire = (\<lambda>k _. Inr (f k)),
      fw_getUrl = (\<lambda>_ k _. Inr (f k)), fw_gateway = (\<lambda>_ _ _. Inl NoReturn), fw_preflight = (\<lambda>_ _ rq. Inr rq),
      fw_process = (\<lambda>_ _ _ rs. Inr rs), fw_retry = (\<lambda>_ _ _ _. Inr True), fw_decodeBase64 = (\<lambda>_. Inr []), fw_gunzip = Inr\<rparr>"

definition busy :: url_response where
  "busy = \<lparr>ur_statusCode = 429, ur_statusMessage = ''Too Many Requests'', ur_headers = [(''Retry-After'', ''7'')], ur_body = None\<rparr>"

definition https_request :: fetch_request where
  "https_request = (new_FetchRequest ''https://a.org/x'')\<lparr>rq_creds := Some ''user:secret''\<rparr>"

text \<open>A request limited to two attempts is sent twelve times, and the seven seconds are milliseconds.\<close>

lemma fetch_attempts_witness:
  "length (fst (fetch_send (answering (\<lambda>_. busy)) fetch_initial 0 1000 0 (setThrottleParams None (Some 2) https_request)
     https_request (new_FetchResponse 0 [] [] None None))) \<le> 12
   \<and> map fst (fst (fetch_send (answering (\<lambda>_. busy)) fetch_initial 0 1000 0 (setThrottleParams None (Some 2) https_request)
     https_request (new_FetchResponse 0 [] [] None None))) = 0 # replicate 11 7"
proof
  show "length (fst (fetch_send (answering (\<lambda>_. busy)) fetch_initial 0 1000 0 (setThrottleParams None (Some 2) https_request)
     https_request (new_FetchResponse 0 [] [] None None))) \<le> 12"
    by (rule conjunct2 [OF fetch_attempts]) simp
  show "map fst (fst (fetch_send (answering (\<lambda>_. busy)) fetch_initial 0 1000 0 (setThrottleParams None (Some 2) https_request)
     https_request (new_FetchResponse 0 [] [] None None))) = 0 # replicate 11 7"
    by code_simp
qed

section \<open>Credentials and redirects\<close>

text \<open>The gateways of a configuration have no hooks and do not intercept HTTP.\<close>

definition plain_config :: "fetch_config \<Rightarrow> bool" where
  "plain_config C \<longleftrightarrow>
     fc_getUrl C = None \<and>
     (\<forall>(s, g) \<in> set (fc_gateways C). s \<noteq> ''http'' \<and> s \<noteq> ''https'' \<and> (case g of HookGateway _ \<Rightarrow> False | _ \<Rightarrow> True))"

text \<open>A request made on behalf of another one.\<close>

definition on_behalf :: "fetch_request \<Rightarrow> fetch_request \<Rightarrow> bool" where
  "on_behalf rq req \<longleftrightarrow>
     (rq_creds req = None \<or>
        rq_creds req = rq_creds rq \<and> rq_url req = rq_url rq \<and> (rq_allowInsecure req \<longrightarrow> rq_allowInsecure rq)) \<and>
     (scheme_of (rq_url rq) = ''https'' \<longrightarrow> scheme_of (rq_url req) = ''https'') \<and> rq_preflight req = None"

lemma on_behalf_clone: "on_behalf rq req \<Longrightarrow> on_behalf rq (fetch_clone req)"
  by (auto simp: on_behalf_def fetch_clone_def new_FetchRequest_def)

lemma http_location_scheme:
  "http_location l \<Longrightarrow> scheme_of l = ''http'' \<or> scheme_of l = ''https''"
proof -
  have l: "map to_lower ''http'' = ''http''" "map to_lower ''https'' = ''https''" by code_simp+
  assume "http_location l"
  then consider r where "l = ''http:'' @ r" | r where "l = ''https:'' @ r"
    by (auto simp: http_location_def starts_with_iff)
  then show ?thesis using l by cases (simp_all add: scheme_of_def lower_text_def)
qed

lemma on_behalf_redirect: "redirect req l = Inr next \<Longrightarrow> on_behalf rq req \<Longrightarrow> on_behalf rq next"
  using http_location_scheme [of l]
  by (auto simp: redirect_def set_timeout_def new_FetchRequest_def on_behalf_def assert_def split: if_splits)

lemma on_behalf_prepare:
  assumes "fetch_prepare W C k this = Inr (Ready req)" and "plain_config C" and "on_behalf rq this"
  shows "on_behalf rq req"
proof -
  have c: "on_behalf rq (fetch_clone this)" using assms(3) by (rule on_behalf_clone)
  have p: "rq_preflight this = None" using assms(3) by (simp add: on_behalf_def)
  show ?thesis
  proof (cases "map_of (fc_gateways C) (scheme_of (rq_url (fetch_clone this)))")
    case None
    then have "req = fetch_clone this" using assms(1) p by (simp add: fetch_prepare_def)
    with c show ?thesis by simp
  next
    case (Some g)
    then have mem: "(scheme_of (rq_url (fetch_clone this)), g) \<in> set (fc_gateways C)" by (rule map_of_SomeD)
    then have g: "scheme_of (rq_url (fetch_clone this)) \<noteq> ''https''" "case g of HookGateway _ \<Rightarrow> False | _ \<Rightarrow> True"
      using assms(2) unfolding plain_config_def by blast+
    obtain a where a: "run_gateway W k g (rq_url (fetch_clone this)) = Inr a"
      using assms(1) p Some by (cases "run_gateway W k g (rq_url (fetch_clone this))") (auto simp: fetch_prepare_def Let_def)
    then obtain r where r: "run_gateway W k g (rq_url (fetch_clone this)) = Inr (Inl r)" "req = r"
      using assms(1) p Some by (cases a) (auto simp: fetch_prepare_def Let_def)
    then obtain url where "req = new_FetchRequest url"
      using g(2) by (auto simp: run_gateway_def gatewayIpfs_def split: gateway.splits option.splits)
    moreover have "scheme_of (rq_url rq) \<noteq> ''https''" using c g(1) by (auto simp: on_behalf_def)
    ultimately show ?thesis by (simp add: on_behalf_def new_FetchRequest_def)
  qed
qed

lemma on_behalf_after: "fetch_after W k this req response = Again d next \<Longrightarrow> on_behalf rq req \<Longrightarrow> on_behalf rq next"
  by (auto simp: fetch_after_def process_response_def on_behalf_clone on_behalf_redirect
      split: if_splits sum.splits option.splits hook_error.splits bool.splits)

definition safe_on_wire :: "fetch_request \<Rightarrow> bool" where
  "safe_on_wire req \<longleftrightarrow>
     (scheme_of (rq_url req) = ''http'' \<or> scheme_of (rq_url req) = ''https'') \<and>
     (scheme_of (rq_url req) = ''https'' \<or> rq_creds req = None \<or> rq_creds req = Some [] \<or> rq_allowInsecure req)"

lemma checks_safe: "fetch_checks W C k req = Inr () \<Longrightarrow> fc_getUrl C = None \<Longrightarrow> safe_on_wire req"
  by (auto simp: fetch_checks_def getUrl_checks_def Let_def assert_def safe_on_wire_def split: if_splits option.splits)

text \<open>Induction over the attempts: a property of the requests tried, and one of those sent.\<close>

lemma sent_invariant:
  assumes prepare: "\<And>k this req. P this \<Longrightarrow> fetch_prepare W C k this = Inr (Ready req) \<Longrightarrow> P req"
    and after: "\<And>k this req response d next. P req \<Longrightarrow> fetch_after W k this req response = Again d next \<Longrightarrow> P next"
    and checks: "\<And>k req. P req \<Longrightarrow> fetch_checks W C k req = Inr () \<Longrightarrow> Q req"
  shows "P this \<Longrightarrow> (t, sent) \<in> set (fst (fetch_send W C k e d this origin r0)) \<Longrightarrow> Q sent"
proof (induction "attempts_left this k" arbitrary: this k d r0 rule: less_induct)
  case less
  have k: "\<not> of_nat k \<ge> rq_maxAttempts this"
    using less.prems(2) by (subst (asm) fetch_send.simps) (auto split: if_splits)
  obtain u req v where s: "assert (fw_time W k \<le> e) ''timeout'' TIMEOUT = Inr u" "fetch_prepare W C k this = Inr (Ready req)"
    "fetch_checks W C k req = Inr v"
    using less.prems(2) by (subst (asm) fetch_send.simps) (auto split: if_splits sum.splits fetch_ready.splits)
  have req: "P req" "Q req" using prepare [OF less.prems(1) s(2)] checks s(3) by auto
  show ?case
  proof (cases "sent = req")
    case False
    then obtain ur d' "next" where n: "run_getUrl W C k req = Inr ur"
      "fetch_after W k this req (new_FetchResponse (ur_statusCode ur) (ur_statusMessage ur) (ur_headers ur) (ur_body ur) (Some origin)) =
         Again d' next"
      "(t, sent) \<in> set (fst (fetch_send W C (k + 1) e d' next origin
         (new_FetchResponse (ur_statusCode ur) (ur_statusMessage ur) (ur_headers ur) (ur_body ur) (Some origin))))"
      using less.prems(2) k s
      by (subst (asm) fetch_send.simps) (auto simp: Let_def split: sum.splits fetch_next.splits prod.splits)
    have "attempts_left next (k + 1) < attempts_left this k"
      using after_attempts [OF n(2)] k by (auto simp: attempts_left_def MAX_ATTEMPTS_def)
    then show ?thesis by (rule less.hyps [OF _ after [OF req(1) n(2)] n(3)])
  qed (use req in simp)
qed

text \<open>
  C29. Credentials stay where they were meant to go. With the gateways of the library and
  no preflight hook, every request that \<open>send\<close> puts on the wire is HTTP or HTTPS; it has
  the credentials only if its URL is the one of the original request, and then only
  over HTTPS, unless insecure authentication was allowed; and what was asked for by
  HTTPS is never asked for by HTTP, whatever redirects are answered.
\<close>

theorem credentials_safe:
  assumes "fetch_start W C now rq = Inr (rq', sent, r)" and "plain_config C" and "rq_preflight rq = None"
    and "(t, req) \<in> set sent"
  shows "(scheme_of (rq_url req) = ''http'' \<or> scheme_of (rq_url req) = ''https'')
    \<and> (rq_creds req \<noteq> None \<longrightarrow> rq_creds req = rq_creds rq \<and> rq_url req = rq_url rq)
    \<and> (rq_creds req \<noteq> None \<and> rq_creds req \<noteq> Some [] \<longrightarrow> scheme_of (rq_url req) = ''https'' \<or> rq_allowInsecure rq)
    \<and> (scheme_of (rq_url rq) = ''https'' \<longrightarrow> scheme_of (rq_url req) = ''https'')"
proof -
  define this where "this = rq\<lparr>rq_sent := True\<rparr>"
  have mem: "(t, req) \<in> set (fst (fetch_send W C 0 (now + rq_timeout this) 0 this this (new_FetchResponse 0 [] [] None (Some this))))"
    using assms(1,4) by (auto simp: fetch_start_def this_def Let_def)
  have gu: "fc_getUrl C = None" using assms(2) by (simp add: plain_config_def)
  have "on_behalf rq this" using assms(3) by (simp add: on_behalf_def this_def)
  then have "on_behalf rq req \<and> safe_on_wire req"
  proof (rule sent_invariant [where P = "on_behalf rq" and Q = "\<lambda>x. on_behalf rq x \<and> safe_on_wire x", rotated 3, OF _ mem])
    show "on_behalf rq x" if "on_behalf rq y" "fetch_prepare W C k y = Inr (Ready x)" for k y x
      by (rule on_behalf_prepare [OF that(2) assms(2) that(1)])
    show "on_behalf rq z" if "on_behalf rq x" "fetch_after W k y x response = Again d z" for k y x response d z
      by (rule on_behalf_after [OF that(2,1)])
    show "on_behalf rq x \<and> safe_on_wire x" if "on_behalf rq x" "fetch_checks W C k x = Inr ()" for k x
      using checks_safe [OF that(2) gu] that(1) by blast
  qed
  then show ?thesis by (auto simp: on_behalf_def safe_on_wire_def)
qed

definition moved :: url_response where
  "moved = \<lparr>ur_statusCode = 302, ur_statusMessage = ''Found'', ur_headers = [(''Location'', ''https://b.org/'')], ur_body = None\<rparr>"

definition found :: url_response where
  "found = \<lparr>ur_statusCode = 200, ur_statusMessage = ''OK'', ur_headers = [], ur_body = Some [1]\<rparr>"

lemma moved_run:
  "case fetch_start (answering (\<lambda>k. if k = 0 then moved else found)) fetch_initial 0 https_request of
     Inl _ \<Rightarrow> False
   | Inr (rq', sent, r) \<Rightarrow> map (\<lambda>(t, req). (rq_url req, rq_creds req)) sent =
        [(''https://a.org/x'', Some ''user:secret''), (''https://b.org/'', None)]"
  by code_simp

lemma credentials_safe_witness:
  "\<exists>rq' sent r t req. fetch_start (answering (\<lambda>k. if k = 0 then moved else found)) fetch_initial 0 https_request = Inr (rq', sent, r)
     \<and> (t, req) \<in> set sent \<and> rq_url req = ''https://b.org/'' \<and> scheme_of (rq_url req) = ''https''"
proof -
  obtain rq' sent r where s: "fetch_start (answering (\<lambda>k. if k = 0 then moved else found)) fetch_initial 0 https_request = Inr (rq', sent, r)"
    using moved_run by (cases "fetch_start (answering (\<lambda>k. if k = 0 then moved else found)) fetch_initial 0 https_request"; simp; blast?)
  then have "map (\<lambda>(t, req). (rq_url req, rq_creds req)) sent =
      [(''https://a.org/x'', Some ''user:secret''), (''https://b.org/'', None)]" using moved_run by simp
  then have "(''https://b.org/'', None) \<in> set (map (\<lambda>(t, req). (rq_url req, rq_creds req)) sent)"
    by (simp only: list.set insert_iff simp_thms)
  then obtain t req where req: "(t, req) \<in> set sent" "rq_url req = ''https://b.org/''" by (auto simp del: list.set)
  have c: "plain_config fetch_initial" by (simp add: plain_config_def fetch_initial_def Gateways_def)
  have "rq_preflight https_request = None" "scheme_of (rq_url https_request) = ''https''" by code_simp+
  with credentials_safe [OF s c _ req(1)] have "scheme_of (rq_url req) = ''https''" by blast
  with s req show ?thesis by blast
qed

section \<open>Corner cases\<close>

text \<open>
  Refusing gzip has no effect on what is sent; the content of a \<open>data:\<close> URI starts after
  its last comma; and \<open>%c3%a9\<close>, which is one letter in UTF-8, is read as two.
\<close>

lemma gzip_forced: "rq_gzip (fetch_clone rq)"
  by (simp add: fetch_clone_def new_FetchRequest_def)

lemma data_commas: "data_match ''data:text/plain,a,b'' = Some (''text/plain,a'', False, ''b'')"
  by code_simp

lemma unpercent_twice: "unpercent ''%c3%a9'' = Inr [0xc3, 0x83, 0xc2, 0xa9]"
proof -
  have hex: "is_hex_char CHR ''c''" "is_hex_char CHR ''3''" "is_hex_char CHR ''a''" "is_hex_char CHR ''9''"
    "hexval CHR ''c'' = 12" "hexval CHR ''3'' = 3" "hexval CHR ''a'' = 10" "hexval CHR ''9'' = 9" by code_simp+
  have "map of_char (unpercent_text ''%c3%a9'') = [0xc3, 0xa9 :: nat]"
    by (simp add: hex toUint8_pair)
  moreover have "toUtf8Bytes [] (\<lambda>_. id) [0xc3, 0xa9] None = Inr [0xc3, 0x83, 0xc2, 0xa9]"
    by (simp add: toUtf8Bytes_def utf8_loop_unit high_surrogate_def utf8_encode_def del: utf8_bytes_loop.simps(2))
  ultimately show ?thesis by (simp add: unpercent_def del: unpercent_text.simps)
qed

text \<open>A redirect drops the hooks, so its response is not processed.\<close>

lemma redirect_drops_hooks:
  "redirect rq l = Inr rq' \<Longrightarrow> rq_process rq' = None \<and> rq_retry rq' = None \<and> rq_preflight rq' = None"
  by (auto simp: redirect_def set_timeout_def new_FetchRequest_def)

end
