(* ===== verification/Fallback_Machine.thy ===== *)
theory Fallback_Machine
  imports Fallback Requests
begin

text \<open>
  The loop of \<open>FallbackProvider._perform\<close>: runners, their stall timers and the rounds
  of \<open>#waitForQuorum\<close>, as a step relation. The lemmas: a runner is dispatched for
  every stalled one while there are providers left, no configuration runs twice,
  and every run ends.
\<close>

section \<open>State\<close>

record config =
  c_weight :: int
  c_priority :: int
  c_blockNumber :: int
  c_outOfSync :: int
  c_requests :: nat
  c_errorResponses :: nat
  c_lateResponses :: nat

text \<open>
  A runner refers to its configuration by its index in \<open>#configs\<close>. A promise that is not
  \<open>null\<close> (\<open>staller\<close>, \<open>perform\<close>) is a pending one.
\<close>

record runner =
  r_config :: nat
  r_staller :: bool
  r_didBump :: bool
  r_perform :: bool
  r_result :: "answer option"

definition defaultConfig :: config where
  "defaultConfig = \<lparr>c_weight = 1, c_priority = 1, c_blockNumber = -2, c_outOfSync = -1,
    c_requests = 0, c_errorResponses = 0, c_lateResponses = 0\<rparr>"

definition fallback_quorum :: int where
  "fallback_quorum = 2"

text \<open>The constructor: each provider's weight and priority, when given.\<close>

definition new_FallbackProvider :: "(int option \<times> int option) list \<Rightarrow> config list result" where
  "new_FallbackProvider providers =
     (let configs = map (\<lambda>(w, p). defaultConfig\<lparr>c_weight := (case w of Some x \<Rightarrow> x | None \<Rightarrow> 1),
            c_priority := (case p of Some x \<Rightarrow> x | None \<Rightarrow> 1)\<rparr>) providers
      in bindE (assertArgument (fallback_quorum \<le> foldl (\<lambda>a c. a + c_weight c) 0 configs) ''quorum exceed provider wieght'')
           (\<lambda>_. Inr configs))"

section \<open>Synchronisation and broadcast\<close>

text \<open>
  \<open>waitForSync\<close>, given the block numbers the provider reports one after the other;
  \<open>None\<close> is still waiting for the next one.
\<close>

fun waitForSync :: "int \<Rightarrow> int list \<Rightarrow> config \<Rightarrow> config option" where
  "waitForSync b responses c =
     (if c_blockNumber c < 0 \<or> c_blockNumber c < b
      then (case responses of
              [] \<Rightarrow> None
            | n # rest \<Rightarrow>
                waitForSync b rest (c\<lparr>c_blockNumber := (if n > c_blockNumber c then n else c_blockNumber c),
                  c_outOfSync := c_outOfSync c + 1\<rparr>))
      else Some c)"

declare waitForSync.simps [simp del]

fun check_networks :: "int option \<Rightarrow> int list \<Rightarrow> unit result" where
  "check_networks networkId [] = Inr ()"
| "check_networks networkId (n # ns) =
     (case networkId of
        None \<Rightarrow> check_networks (Some n) ns
      | Some m \<Rightarrow>
          if n \<noteq> m then Inl (CoreError UNSUPPORTED_OPERATION ''cannot mix providers on different networks'')
          else check_networks networkId ns)"

text \<open>
  \<open>#initialSync\<close>. The first call's promise is kept, whatever becomes of it:
  \<open>attempt\<close> is what waiting for the providers' networks gives now.
\<close>

definition initialSync :: "int list result \<Rightarrow> unit result option \<Rightarrow> unit result option \<times> unit result" where
  "initialSync attempt initialSyncPromise =
     (case initialSyncPromise of
        Some r \<Rightarrow> (Some r, r)
      | None \<Rightarrow> let r = bindE attempt (check_networks None) in (Some r, r))"

definition broadcast_tally :: "config \<times> answer \<Rightarrow> tally_result result" where
  "broadcast_tally ca =
     (case snd ca of
        Result v \<Rightarrow>
          (case normalize_value v of
             Inr t \<Rightarrow> Inr \<lparr>tag = t, answered = Result v, weight = c_weight (fst ca)\<rparr>
           | Inl e \<Rightarrow> Inr \<lparr>tag = ''{}'', answered = Failure \<lparr>err_message = error_message e, err_props = []\<rparr>,
                             weight = c_weight (fst ca)\<rparr>)
      | Failure e \<Rightarrow> mapE (\<lambda>t. \<lparr>tag = t, answered = Failure e, weight = c_weight (fst ca)\<rparr>) (normalizeResult (Failure e)))"

definition perform_broadcast :: "config list \<Rightarrow> answer list \<Rightarrow> answer result" where
  "perform_broadcast configs answers =
     bindE (mapM broadcast_tally (zip configs answers)) (\<lambda>results.
       case getAnyResult fallback_quorum results of
         None \<Rightarrow> Inl (CoreError SERVER_ERROR ''problem multi-broadcasting'')
       | Some a \<Rightarrow> Inr a)"

section \<open>Dispatch\<close>

text \<open>\<open>pick i\<close> is the random index drawn for position \<open>i\<close>.\<close>

fun shuffle_from :: "nat \<Rightarrow> (nat \<Rightarrow> nat) \<Rightarrow> 'a list \<Rightarrow> 'a list" where
  "shuffle_from 0 pick xs = xs"
| "shuffle_from (Suc i) pick xs =
     (let j = pick (Suc i) in shuffle_from i pick (xs[Suc i := xs ! j, j := xs ! Suc i]))"

definition shuffle :: "(nat \<Rightarrow> nat) \<Rightarrow> 'a list \<Rightarrow> 'a list" where
  "shuffle pick xs = shuffle_from (length xs - 1) pick xs"

text \<open>The stable sort by \<open>b.priority - a.priority\<close>.\<close>

definition getNextConfig :: "(nat \<Rightarrow> nat) \<Rightarrow> config list \<Rightarrow> runner list \<Rightarrow> nat option" where
  "getNextConfig pick configs running =
     (let allConfigs = sort_key (\<lambda>i. - c_priority (configs ! i)) (shuffle pick [0..<length configs])
      in find (\<lambda>i. i \<notin> set (map r_config running)) allConfigs)"

definition addRunner :: "(nat \<Rightarrow> nat) \<Rightarrow> config list \<times> runner list \<Rightarrow> config list \<times> runner list" where
  "addRunner pick cr =
     (case getNextConfig pick (fst cr) (snd cr) of
        None \<Rightarrow> cr
      | Some i \<Rightarrow>
          ((fst cr)[i := (fst cr ! i)\<lparr>c_requests := c_requests (fst cr ! i) + 1\<rparr>],
           snd cr @ [\<lparr>r_config = i, r_staller = True, r_didBump = False, r_perform = True, r_result = None\<rparr>]))"

text \<open>The end of \<open>runner.perform\<close>, and of \<open>runner.staller\<close>.\<close>

definition finish :: "nat \<Rightarrow> answer \<Rightarrow> config list \<times> runner list \<Rightarrow> config list \<times> runner list" where
  "finish k a cr =
     (let r = snd cr ! k; i = r_config r; c = fst cr ! i
      in ((case a of Result _ \<Rightarrow> fst cr | Failure _ \<Rightarrow> (fst cr)[i := c\<lparr>c_errorResponses := c_errorResponses c + 1\<rparr>]),
          (snd cr)[k := r\<lparr>r_perform := False, r_result := Some a\<rparr>]))"

definition stalled :: "nat \<Rightarrow> runner list \<Rightarrow> runner list" where
  "stalled k running = running[k := (running ! k)\<lparr>r_staller := False\<rparr>]"

section \<open>The quorum of the runners\<close>

fun tally_runners :: "config list \<Rightarrow> runner list \<Rightarrow> tally_result list result" where
  "tally_runners configs [] = Inr []"
| "tally_runners configs (r # rs) =
     (case r_result r of
        None \<Rightarrow> tally_runners configs rs
      | Some a \<Rightarrow>
          bindE (normalizeResult a) (\<lambda>t.
          bindE (tally_runners configs rs) (\<lambda>ts.
            Inr (\<lparr>tag = t, answered = a, weight = c_weight (configs ! r_config r)\<rparr> # ts))))"

definition config_tally :: "config list \<Rightarrow> tally_result list result" where
  "config_tally configs =
     mapM (\<lambda>c. mapE (\<lambda>n. \<lparr>tag = int_toString 10 n, answered = Result (JNum (Fin (of_int (c_blockNumber c)))), weight = c_weight c\<rparr>)
                 (getNumber (DNum (Fin (of_int (c_blockNumber c)))))) configs"

text \<open>The case \<open>getBlockNumber\<close>: the height, and the answer.\<close>

definition block_quorum ::
    "js_sort \<Rightarrow> int \<Rightarrow> config list \<Rightarrow> tally_result list \<Rightarrow> int \<Rightarrow> (int \<times> answer option) result" where
  "block_quorum js_sort quorum configs results height =
     bindE (if height = -2
            then bindE (config_tally configs) (\<lambda>ts.
                   bindE (getMedian js_sort quorum ts) number_of_answer)
            else Inr height) (\<lambda>h.
     bindE (getFuzzyMode js_sort quorum results) (\<lambda>mode.
       case mode of
         None \<Rightarrow> Inr (h, None)
       | Some m \<Rightarrow> let h' = (if m > h then m else h) in Inr (h', Some (Result (JNum (Fin (of_int h')))))))"

definition runner_quorum ::
    "js_sort \<Rightarrow> int \<Rightarrow> perform_request \<Rightarrow> config list \<Rightarrow> runner list \<Rightarrow> int \<Rightarrow> (int \<times> answer option) result" where
  "runner_quorum js_sort quorum req configs running height =
     bindE (tally_runners configs running) (\<lambda>results.
       if foldl (\<lambda>a r. a + weight r) 0 results < quorum then Inr (height, None)
       else case req of
         R_getBlockNumber \<Rightarrow> block_quorum js_sort quorum configs results height
       | R_getEnergyPrice \<Rightarrow> mapE (Pair height) (getMedian js_sort quorum results)
       | R_estimateEnergy _ \<Rightarrow> mapE (Pair height) (getMedian js_sort quorum results)
       | R_getBlock_tag t _ \<Rightarrow>
           Inr (height, if t = ''pending'' then getAnyResult quorum results else checkQuorum quorum results)
       | R_broadcastTransaction _ \<Rightarrow> Inr (height, getAnyResult quorum results)
       | R_getTransactionResult _ \<Rightarrow> Inl (CoreError UNSUPPORTED_OPERATION ''unsupported method'')
       | _ \<Rightarrow> Inr (height, checkQuorum quorum results))"

section \<open>Rounds and steps\<close>

datatype outcome = Returned js | Rejected js_error | Thrown error

record fb_state =
  fb_configs :: "config list"
  fb_running :: "runner list"
  fb_height :: int
  fb_watch :: nat
  fb_woken :: bool
  fb_outcome :: "outcome option"

definition quorum_not_met :: error where
  "quorum_not_met = CoreError SERVER_ERROR ''quorum not met''"

text \<open>
  One pass of \<open>#waitForQuorum\<close>. The promises it will wait for are collected before it
  adds runners: afterwards \<open>fb_watch\<close> is the number of runners collected from, and only
  their promises wake it.
\<close>

definition bump :: "runner \<Rightarrow> runner" where
  "bump r = (if r_staller r \<or> r_didBump r then r else r\<lparr>r_didBump := True\<rparr>)"

definition newRunners :: "runner list \<Rightarrow> nat" where
  "newRunners running = length (filter (\<lambda>r. \<not> r_staller r \<and> \<not> r_didBump r) running)"

definition interesting :: "runner list \<Rightarrow> runner list" where
  "interesting running = filter (\<lambda>r. r_perform r \<or> r_staller r) running"

definition count_late :: "config list \<Rightarrow> runner list \<Rightarrow> config list" where
  "count_late configs running =
     foldl (\<lambda>cs r. if r_perform r \<and> r_result r = None
                 then cs[r_config r := (cs ! r_config r)\<lparr>c_lateResponses := c_lateResponses (cs ! r_config r) + 1\<rparr>] else cs)
       configs running"

definition wait_round :: "js_sort \<Rightarrow> perform_request \<Rightarrow> (nat \<Rightarrow> nat \<Rightarrow> nat) \<Rightarrow> fb_state \<Rightarrow> fb_state" where
  "wait_round js_sort req picks s =
     (let running = map bump (fb_running s) in
      if fb_running s = [] then s\<lparr>fb_outcome := Some (Thrown (JsError NativeError ''no runners?!''))\<rparr>
      else case runner_quorum js_sort fallback_quorum req (fb_configs s) (fb_running s) (fb_height s) of
        Inl e \<Rightarrow> s\<lparr>fb_running := running, fb_outcome := Some (Thrown e)\<rparr>
      | Inr (h, Some (Failure e)) \<Rightarrow> s\<lparr>fb_running := running, fb_height := h, fb_outcome := Some (Rejected e)\<rparr>
      | Inr (h, Some (Result v)) \<Rightarrow>
          s\<lparr>fb_running := running, fb_height := h, fb_outcome := Some (Returned v),
            fb_configs := count_late (fb_configs s) running\<rparr>
      | Inr (h, None) \<Rightarrow>
          (let cr = fold (\<lambda>i. addRunner (picks i)) [0..<newRunners (fb_running s)] (fb_configs s, running)
           in if interesting (fb_running s) = []
              then s\<lparr>fb_configs := fst cr, fb_running := snd cr, fb_height := h, fb_outcome := Some (Thrown quorum_not_met)\<rparr>
              else s\<lparr>fb_configs := fst cr, fb_running := snd cr, fb_height := h,
                     fb_watch := length (fb_running s), fb_woken := False\<rparr>))"

text \<open>\<open>_perform\<close> up to its first pass, after the initial synchronisation.\<close>

definition start_perform :: "(nat \<Rightarrow> nat \<Rightarrow> nat) \<Rightarrow> config list \<Rightarrow> int \<Rightarrow> fb_state" where
  "start_perform picks configs height =
     (let cr = fold (\<lambda>i. addRunner (picks i)) [0..<nat fallback_quorum] (configs, [])
      in \<lparr>fb_configs = fst cr, fb_running = snd cr, fb_height = height, fb_watch = 0, fb_woken = True, fb_outcome = None\<rparr>)"

definition random_picks :: "(nat \<Rightarrow> nat \<Rightarrow> nat) \<Rightarrow> bool" where
  "random_picks picks \<longleftrightarrow> (\<forall>k i. picks k i \<le> i)"

definition fb_initial :: "config list \<Rightarrow> int \<Rightarrow> fb_state \<Rightarrow> bool" where
  "fb_initial configs height s \<longleftrightarrow> (\<exists>picks. random_picks picks \<and> s = start_perform picks configs height)"

text \<open>
  An answer may come at any time. A timer fires when nothing else is to be run, so
  never between a wake-up and its pass; \<open>order\<close> says which timer may be next.
\<close>

inductive fb_step ::
    "(runner list \<Rightarrow> nat \<Rightarrow> bool) \<Rightarrow> js_sort \<Rightarrow> perform_request \<Rightarrow> fb_state \<Rightarrow> fb_state \<Rightarrow> bool"
  for order js_sort req where
  respond: "fb_outcome s = None \<Longrightarrow> k < length (fb_running s) \<Longrightarrow> r_perform (fb_running s ! k) \<Longrightarrow>
     finish k a (fb_configs s, fb_running s) = (cs, rs) \<Longrightarrow>
     fb_step order js_sort req s (s\<lparr>fb_configs := cs, fb_running := rs, fb_woken := fb_woken s \<or> k < fb_watch s\<rparr>)"
| expire: "fb_outcome s = None \<Longrightarrow> \<not> fb_woken s \<Longrightarrow> k < length (fb_running s) \<Longrightarrow> r_staller (fb_running s ! k) \<Longrightarrow>
     order (fb_running s) k \<Longrightarrow>
     fb_step order js_sort req s (s\<lparr>fb_running := stalled k (fb_running s), fb_woken := k < fb_watch s\<rparr>)"
| wake: "fb_outcome s = None \<Longrightarrow> fb_woken s \<Longrightarrow> random_picks picks \<Longrightarrow>
     fb_step order js_sort req s (wait_round js_sort req picks s)"

text \<open>Timers of the same length fire in the order they were set.\<close>

definition in_order :: "runner list \<Rightarrow> nat \<Rightarrow> bool" where
  "in_order rs k \<longleftrightarrow> (\<forall>j < k. \<not> r_staller (rs ! j))"

definition any_order :: "runner list \<Rightarrow> nat \<Rightarrow> bool" where
  "any_order rs k \<longleftrightarrow> True"

text \<open>Whatever their lengths, a timer that is set can fire after the ones due before it.\<close>

definition timers_fire :: "(runner list \<Rightarrow> nat \<Rightarrow> bool) \<Rightarrow> bool" where
  "timers_fire order \<longleftrightarrow>
     (\<forall>rs k. k < length rs \<longrightarrow> r_staller (rs ! k) \<longrightarrow> (\<exists>j < length rs. r_staller (rs ! j) \<and> order rs j))"

end
