(* ===== verification/Fallback_Props.thy ===== *)
theory Fallback_Props
  imports Fallback_Machine "HOL-Library.Multiset"
begin

text \<open>
  What the tallies of a \<open>FallbackProvider\<close> decide, and what its loop guarantees: an
  answer has the weight of the quorum, the request is not given up while a provider
  has not answered, and every request is settled.
\<close>

section \<open>Tallies\<close>

lemma map_of_tally_add:
  "map_of (tally_add k v w t) =
     (map_of t)(k \<mapsto> (case map_of t k of None \<Rightarrow> (v, w) | Some (v', w') \<Rightarrow> (v', w' + w)))"
  by (induction t) (auto simp: fun_eq_iff)

lemma keys_tally_add: "fst ` set (tally_add k v w t) = insert k (fst ` set t)"
  by (auto simp flip: dom_map_of_conv_image_fst simp: map_of_tally_add split: if_splits)

lemma distinct_tally_add: "distinct (map fst t) \<Longrightarrow> distinct (map fst (tally_add k v w t))"
proof (induction t)
  case (Cons e t)
  then show ?case by (cases e) (simp add: keys_tally_add)
qed simp

definition tag_weight :: "string \<Rightarrow> tally_result list \<Rightarrow> int" where
  "tag_weight t rs = sum_list (map weight (filter (\<lambda>r. tag r = t) rs))"

lemma tag_weight_simps [simp]:
  "tag_weight t [] = 0" "tag_weight t (r # rs) = (if tag r = t then weight r else 0) + tag_weight t rs"
  "tag_weight t (rs @ rs') = tag_weight t rs + tag_weight t rs'"
  by (simp_all add: tag_weight_def)

text \<open>Each tag is held with the value first seen and the sum of its weights.\<close>

lemma tally_of_snoc: "tally_of (rs @ [r]) = tally_add (tag r) (answered r) (weight r) (tally_of rs)"
  by (simp add: tally_of_def)

lemma tally_of_spec:
  "distinct (map fst (tally_of rs))"
  "map_of (tally_of rs) t = map_option (\<lambda>r. (answered r, tag_weight t rs)) (find (\<lambda>r. tag r = t) rs)"
proof (induction rs arbitrary: t rule: rev_induct)
  case (snoc r rs)
  {
    case 1
    show ?case using snoc.IH(1) by (simp add: tally_of_snoc distinct_tally_add)
  next
    case 2
    have f: "find P (xs @ [x]) = (case find P xs of None \<Rightarrow> if P x then Some x else None | Some y \<Rightarrow> Some y)"
      for P and xs and x :: tally_result by (induction xs) auto
    have z: "find (\<lambda>r. tag r = t) rs = None \<Longrightarrow> tag_weight t rs = 0" for t
      by (auto simp: find_None_iff tag_weight_def filter_empty_conv)
    show ?case
      using snoc.IH(2) z [of t] by (auto simp: tally_of_snoc map_of_tally_add f split: option.splits)
  }
qed (simp_all add: tally_of_def)

lemma better_fold:
  "foldl (better q) b t = Some r \<Longrightarrow>
     (b = Some r \<or> (\<exists>k. (k, r) \<in> set t) \<and> snd r \<ge> q) \<and>
     (\<forall>b'. b = Some b' \<longrightarrow> snd b' \<le> snd r) \<and> (\<forall>k e. (k, e) \<in> set t \<longrightarrow> snd e \<ge> q \<longrightarrow> snd e \<le> snd r)"
proof (induction t arbitrary: b)
  case (Cons e t)
  obtain k v w where e: "e = (k, v, w)" by (cases e)
  have prems: "foldl (better q) (better q b e) t = Some r" using Cons.prems by simp
  show ?case
  proof (cases "w \<ge> q \<and> (case b of None \<Rightarrow> True | Some b \<Rightarrow> w > snd b)")
    case True
    then have bet: "better q b e = Some (v, w)" by (cases b) (auto simp: better_def e)
    note IH = Cons.IH [OF prems [unfolded bet]]
    have "w \<le> snd r" "Some (v, w) = Some r \<or> (\<exists>k. (k, r) \<in> set t) \<and> q \<le> snd r"
      "\<And>k e. (k, e) \<in> set t \<Longrightarrow> snd e \<ge> q \<Longrightarrow> snd e \<le> snd r"
      using IH by auto
    with True show ?thesis by (cases b) (auto simp: e)
  next
    case False
    then have bet: "better q b e = b" by (cases b) (auto simp: better_def e)
    note IH = Cons.IH [OF prems [unfolded bet]]
    show ?thesis
    proof (cases "w \<ge> q")
      case True
      with False obtain b' where "b = Some b'" "w \<le> snd b'" by (auto split: option.splits)
      moreover have "snd b' \<le> snd r" using IH \<open>b = Some b'\<close> by (cases b') simp
      ultimately have "w \<le> snd r" by simp
      then show ?thesis using IH by (auto simp: e)
    qed (use IH in \<open>auto simp: e\<close>)
  qed
qed simp

lemma better_fold_None: "foldl (better q) None t = None \<longleftrightarrow> (\<forall>e \<in> set t. snd (snd e) < q)"
proof -
  have some: "foldl (better q) (Some b) t \<noteq> None" for b t
    by (induction t arbitrary: b) (auto simp: better_def)
  show ?thesis using some by (induction t) (auto simp: better_def)
qed


lemma checkQuorum_None:
  "checkQuorum q rs = None \<Longrightarrow> (\<And>r. r \<in> set rs \<Longrightarrow> answered r \<noteq> Result JUndef) \<Longrightarrow> r \<in> set rs \<Longrightarrow> tag_weight (tag r) rs < q"
proof -
  assume n: "checkQuorum q rs = None" and d: "\<And>r. r \<in> set rs \<Longrightarrow> answered r \<noteq> Result JUndef" and r: "r \<in> set rs"
  have "foldl (better q) None (tally_of rs) = None"
  proof (rule ccontr)
    assume "foldl (better q) None (tally_of rs) \<noteq> None"
    then obtain b where b: "foldl (better q) None (tally_of rs) = Some b" by blast
    from better_fold [OF this] obtain k where "(k, b) \<in> set (tally_of rs)" by auto
    then have "map_of (tally_of rs) k = Some b" using tally_of_spec(1) by (simp add: map_of_eq_Some_iff)
    then obtain r' where "find (\<lambda>r. tag r = k) rs = Some r'" "fst b = answered r'"
      by (auto simp: tally_of_spec(2))
    then have "r' \<in> set rs" "fst b = answered r'" by (auto simp: find_Some_iff)
    then have "fst b \<noteq> Result JUndef" using d by metis
    then have "defined (fst b) \<noteq> None" by (cases "fst b" rule: defined.cases) auto
    then show False using n b by (simp add: checkQuorum_def)
  qed
  moreover obtain r' where "find (\<lambda>x. tag x = tag r) rs = Some r'"
    using r by (metis (mono_tags, lifting) find_None_iff not_None_eq)
  then have "(tag r, answered r', tag_weight (tag r) rs) \<in> set (tally_of rs)"
    using tally_of_spec(2) [of rs "tag r"] by (auto intro: map_of_SomeD)
  ultimately show ?thesis by (fastforce simp: better_fold_None)
qed

section \<open>Dispatch\<close>

lemma mset_shuffle_from: "(\<And>i. pick i \<le> i) \<Longrightarrow> m < length xs \<or> m = 0 \<Longrightarrow> mset (shuffle_from m pick xs) = mset xs"
proof (induction m arbitrary: xs)
  case (Suc m)
  have "pick (Suc m) < length xs" using Suc.prems by (metis le_less_trans nat.distinct(1))
  with Suc show ?case by (simp add: Let_def mset_swap)
qed simp

lemma set_shuffle: "(\<And>i. pick i \<le> i) \<Longrightarrow> set (shuffle pick xs) = set xs"
  using mset_eq_setD [OF mset_shuffle_from [of pick "length xs - 1" xs]] by (cases xs) (simp_all add: shuffle_def)

definition fresh_runner :: "nat \<Rightarrow> runner" where
  "fresh_runner i = \<lparr>r_config = i, r_staller = True, r_didBump = False, r_perform = True, r_result = None\<rparr>"

lemma fresh_runner_simps [simp]:
  "r_config (fresh_runner i) = i" "r_staller (fresh_runner i)" "\<not> r_didBump (fresh_runner i)"
  "r_perform (fresh_runner i)" "r_result (fresh_runner i) = None"
  by (simp_all add: fresh_runner_def)

definition wf_runners :: "nat \<Rightarrow> runner list \<Rightarrow> bool" where
  "wf_runners n rs \<longleftrightarrow> distinct (map r_config rs) \<and> set (map r_config rs) \<subseteq> {..<n}"

lemma wf_runners_length: "wf_runners n rs \<Longrightarrow> length rs \<le> n"
  using card_mono [of "{..<n}" "set (map r_config rs)"] distinct_card [of "map r_config rs"]
  by (simp add: wf_runners_def)

lemma wf_runners_full:
  assumes "wf_runners n rs" and "n \<le> length rs"
  shows "set (map r_config rs) = {..<n}"
  using assms distinct_card [of "map r_config rs"] wf_runners_length [OF assms(1)]
  by (intro card_subset_eq) (simp_all add: wf_runners_def)

lemma wf_runners_map: "map r_config rs' = map r_config rs \<Longrightarrow> wf_runners n rs' = wf_runners n rs"
  by (simp add: wf_runners_def)

lemma find_SomeD: "find P xs = Some x \<Longrightarrow> P x \<and> x \<in> set xs"
  by (induction xs) (auto split: if_splits)

lemma getNextConfig_cases:
  assumes "\<And>i. pick i \<le> i"
  shows "case getNextConfig pick cs rs of
           None \<Rightarrow> {..<length cs} \<subseteq> set (map r_config rs)
         | Some i \<Rightarrow> i < length cs \<and> i \<notin> set (map r_config rs)"
proof -
  have "set (sort_key (\<lambda>i. - c_priority (cs ! i)) (shuffle pick [0..<length cs])) = {..<length cs}"
    using set_shuffle [where pick = pick, OF assms, where xs = "[0..<length cs]"] by (simp add: atLeast0LessThan)
  note all = this
  show ?thesis
  proof (cases "getNextConfig pick cs rs")
    case None
    then have "{..<length cs} \<subseteq> set (map r_config rs)"
      unfolding getNextConfig_def Let_def find_None_iff all by blast
    then show ?thesis using None by simp
  next
    case (Some i)
    then have "i \<notin> set (map r_config rs)" "i \<in> {..<length cs}"
      unfolding getNextConfig_def Let_def all [symmetric] by (auto dest: find_SomeD)
    then show ?thesis using Some by simp
  qed
qed

text \<open>The weights and block heights, which dispatching and answering leave alone.\<close>

definition statics :: "config list \<Rightarrow> (int \<times> int) list" where
  "statics cs = map (\<lambda>c. (c_weight c, c_blockNumber c)) cs"

lemma statics_update:
  "c_weight c = c_weight (cs ! i) \<Longrightarrow> c_blockNumber c = c_blockNumber (cs ! i) \<Longrightarrow> statics (cs[i := c]) = statics cs"
  by (cases "i < length cs") (simp_all add: statics_def map_update list_update_same_conv list_update_beyond)

lemma statics_length: "statics cs = statics cs' \<Longrightarrow> length cs = length cs'"
  by (metis length_map statics_def)

lemma addRunner_cases:
  assumes "\<And>i. pick i \<le> i" and "wf_runners (length cs) rs" and "addRunner pick (cs, rs) = (cs', rs')"
  shows "statics cs' = statics cs \<and> wf_runners (length cs) rs' \<and>
    (if length rs < length cs then \<exists>i. rs' = rs @ [fresh_runner i] else rs' = rs)"
proof (cases "getNextConfig pick cs rs")
  case None
  then have "{..<length cs} \<subseteq> set (map r_config rs)" using getNextConfig_cases [OF assms(1), of cs rs] by simp
  then have "card {..<length cs} \<le> length rs" using card_mono card_length [of "map r_config rs"] by (metis List.finite_set length_map order_trans)
  then show ?thesis using None assms(2,3) by (simp add: addRunner_def)
next
  case (Some i)
  then have i: "i < length cs" "i \<notin> set (map r_config rs)" using getNextConfig_cases [OF assms(1), of cs rs] by auto
  then have wf: "wf_runners (length cs) (rs @ [fresh_runner i])" using assms(2) by (auto simp: wf_runners_def)
  then have "length rs < length cs" using wf_runners_length by fastforce
  then show ?thesis using Some assms(3) wf by (auto simp: addRunner_def fresh_runner_def statics_update)
qed

lemma fold_addRunner:
  assumes "random_picks picks" and "wf_runners (length cs) rs"
    and "fold (\<lambda>i. addRunner (picks i)) is (cs, rs) = (cs', rs')"
  shows "statics cs' = statics cs \<and> wf_runners (length cs) rs' \<and>
    (\<exists>new. rs' = rs @ map fresh_runner new \<and> length new = min (length is) (length cs - length rs))"
  using assms(2,3)
proof (induction "is" arbitrary: cs rs)
  case (Cons i "is")
  obtain cs1 rs1 where one: "addRunner (picks i) (cs, rs) = (cs1, rs1)" by force
  have p: "\<And>j. picks i j \<le> j" using assms(1) by (simp add: random_picks_def)
  note a = addRunner_cases [OF p Cons.prems(1) one]
  then have len: "length cs1 = length cs" using statics_length by blast
  have "wf_runners (length cs1) rs1" using a len by simp
  moreover have "fold (\<lambda>i. addRunner (picks i)) is (cs1, rs1) = (cs', rs')" using Cons.prems(2) one by simp
  ultimately have IH: "statics cs' = statics cs1 \<and> wf_runners (length cs1) rs' \<and>
    (\<exists>new. rs' = rs1 @ map fresh_runner new \<and> length new = min (length is) (length cs1 - length rs1))"
    by (rule Cons.IH)
  then obtain new where new: "rs' = rs1 @ map fresh_runner new" "length new = min (length is) (length cs1 - length rs1)"
    by blast
  show ?case
  proof (cases "length rs < length cs")
    case True
    with a obtain j where "rs1 = rs @ [fresh_runner j]" by auto
    with a IH len True new have "rs' = rs @ map fresh_runner (j # new)" "length (j # new) = min (length (i # is)) (length cs - length rs)"
      by auto
    then show ?thesis using a IH len by metis
  next
    case False
    with a have "rs1 = rs" by simp
    with a IH len False new show ?thesis by auto
  qed
qed auto

lemma finish_spec:
  assumes "finish k a (cs, rs) = (cs', rs')" and "k < length rs"
  shows "statics cs' = statics cs" "map r_config rs' = map r_config rs"
    "rs' = rs[k := (rs ! k)\<lparr>r_perform := False, r_result := Some a\<rparr>]"
  using assms by (auto simp: finish_def Let_def statics_update map_update list_update_same_conv split: answer.splits)

lemma stalled_config [simp]: "map r_config (stalled k rs) = map r_config rs"
  by (cases "k < length rs") (simp_all add: stalled_def map_update list_update_same_conv list_update_beyond)

lemma bump_simps [simp]:
  "r_config (bump r) = r_config r" "r_staller (bump r) = r_staller r"
  "r_perform (bump r) = r_perform r" "r_result (bump r) = r_result r"
  "r_didBump (bump r) \<longleftrightarrow> r_didBump r \<or> \<not> r_staller r"
  by (auto simp: bump_def)

lemma statics_count_late: "statics (count_late cs rs) = statics cs"
  by (induction rs arbitrary: cs) (auto simp: count_late_def statics_update)

section \<open>The quorum of the runners\<close>

text \<open>It depends on the configurations' weights and heights, and on who answered what.\<close>

lemma tally_runners_cong:
  "map (\<lambda>r. (r_config r, r_result r)) rs = map (\<lambda>r. (r_config r, r_result r)) rs' \<Longrightarrow> tally_runners cs rs = tally_runners cs rs'"
proof (induction rs arbitrary: rs')
  case (Cons r rs)
  then obtain r' rs'' where "rs' = r' # rs''" by (cases rs') auto
  with Cons show ?case by (auto split: option.splits)
qed simp

lemma tally_runners_statics:
  "statics cs = statics cs' \<Longrightarrow> set (map r_config rs) \<subseteq> {..<length cs} \<Longrightarrow> tally_runners cs rs = tally_runners cs' rs"
proof (induction rs)
  case (Cons r rs)
  then have "statics cs ! r_config r = statics cs' ! r_config r" "r_config r < length cs" "length cs' = length cs"
    using statics_length [of cs cs'] by auto
  then have "c_weight (cs ! r_config r) = c_weight (cs' ! r_config r)" by (simp add: statics_def)
  with Cons show ?case by (simp split: option.splits)
qed simp

lemma tally_runners_append_fresh: "tally_runners cs (rs @ map fresh_runner new) = tally_runners cs rs"
proof -
  have "tally_runners cs (map fresh_runner new) = Inr []" by (induction new) auto
  then show ?thesis by (induction rs) (auto split: option.splits)
qed

lemma config_tally_statics: "statics cs = statics cs' \<Longrightarrow> config_tally cs = config_tally cs'"
proof (induction cs arbitrary: cs')
  case (Cons c cs)
  then obtain c' cs'' where "cs' = c' # cs''" by (cases cs') (auto simp: statics_def)
  with Cons show ?case by (simp add: statics_def config_tally_def)
qed (simp add: statics_def)

lemma runner_quorum_cong:
  assumes "statics cs = statics cs'" and "tally_runners cs rs = tally_runners cs' rs'"
  shows "runner_quorum S q req cs rs h = runner_quorum S q req cs' rs' h"
proof -
  have "block_quorum S q cs ts h = block_quorum S q cs' ts h" for ts
    by (simp add: block_quorum_def config_tally_statics [OF assms(1)])
  then show ?thesis by (cases req) (simp_all add: runner_quorum_def assms(2) cong: if_cong)
qed

section \<open>What every step keeps\<close>

definition answered_by :: "js_sort \<Rightarrow> perform_request \<Rightarrow> fb_state \<Rightarrow> answer \<Rightarrow> bool" where
  "answered_by S req s a \<longleftrightarrow>
     (\<exists>h. runner_quorum S fallback_quorum req (fb_configs s) (fb_running s) h = Inr (fb_height s, Some a))"

definition fb_base :: "config list \<Rightarrow> js_sort \<Rightarrow> perform_request \<Rightarrow> fb_state \<Rightarrow> bool" where
  "fb_base configs S req s \<longleftrightarrow>
     statics (fb_configs s) = statics configs \<and> wf_runners (length configs) (fb_running s) \<and>
     (\<forall>r \<in> set (fb_running s). r_perform r = (r_result r = None)) \<and> fb_watch s \<le> length (fb_running s) \<and>
     (\<forall>v. fb_outcome s = Some (Returned v) \<longrightarrow> answered_by S req s (Result v)) \<and>
     (\<forall>e. fb_outcome s = Some (Rejected e) \<longrightarrow> answered_by S req s (Failure e))"

text \<open>Work left: pending answers and timers, and twice the runners not yet dispatched.\<close>

definition pending :: "runner list \<Rightarrow> nat" where
  "pending rs = length (filter r_perform rs) + length (filter r_staller rs)"

definition fb_rank :: "fb_state \<Rightarrow> nat" where
  "fb_rank s =
     (if fb_outcome s \<noteq> None then 0
      else 1 + 2 * (pending (fb_running s) + 2 * (length (fb_configs s) - length (fb_running s))) + of_bool (fb_woken s))"

lemma pending_simps [simp]:
  "pending [] = 0" "pending (r # rs) = of_bool (r_perform r) + of_bool (r_staller r) + pending rs"
  "pending (rs @ rs') = pending rs + pending rs'"
  by (auto simp: pending_def)

lemma pending_bump [simp]: "pending (map bump rs) = pending rs"
  by (induction rs) auto

lemma pending_fresh [simp]: "pending (map fresh_runner new) = 2 * length new"
  by (induction new) auto

lemma pending_update:
  "k < length rs \<Longrightarrow> pending (rs[k := r]) + of_bool (r_perform (rs ! k)) + of_bool (r_staller (rs ! k)) =
     pending rs + of_bool (r_perform r) + of_bool (r_staller r)"
proof (induction rs arbitrary: k)
  case (Cons x rs)
  show ?case
  proof (cases k)
    case (Suc j)
    with Cons.IH [of j] Cons.prems show ?thesis by simp
  qed simp
qed simp

lemma ball_update: "\<forall>r \<in> set rs. P r \<Longrightarrow> P x \<Longrightarrow> \<forall>r \<in> set (rs[k := x]). P r"
  by (auto dest!: subsetD [OF set_update_subset_insert])

text \<open>
  The pass that goes on waiting, or gives up: every runner whose timer has gone is
  bumped, and as many runners as were not bumped before are added, while there are
  configurations.
\<close>

lemma wait_round_None:
  assumes "fb_running s \<noteq> []" and "wf_runners (length (fb_configs s)) (fb_running s)" and "random_picks picks"
    and "runner_quorum S fallback_quorum req (fb_configs s) (fb_running s) (fb_height s) = Inr (h, None)"
  obtains cs new where "statics cs = statics (fb_configs s)"
    "wf_runners (length (fb_configs s)) (map bump (fb_running s) @ map fresh_runner new)"
    "length new = min (newRunners (fb_running s)) (length (fb_configs s) - length (fb_running s))"
    "wait_round S req picks s =
       (if interesting (fb_running s) = []
        then s\<lparr>fb_configs := cs, fb_running := map bump (fb_running s) @ map fresh_runner new, fb_height := h,
               fb_outcome := Some (Thrown quorum_not_met)\<rparr>
        else s\<lparr>fb_configs := cs, fb_running := map bump (fb_running s) @ map fresh_runner new, fb_height := h,
               fb_watch := length (fb_running s), fb_woken := False\<rparr>)"
proof -
  obtain cs rs where f: "fold (\<lambda>i. addRunner (picks i)) [0..<newRunners (fb_running s)] (fb_configs s, map bump (fb_running s)) = (cs, rs)"
    by force
  have wf: "wf_runners (length (fb_configs s)) (map bump (fb_running s))"
    using assms(2) by (subst wf_runners_map [where rs = "fb_running s"]) simp_all
  from fold_addRunner [OF assms(3) wf f] obtain new where
    "statics cs = statics (fb_configs s)" "wf_runners (length (fb_configs s)) rs" "rs = map bump (fb_running s) @ map fresh_runner new"
    "length new = min (newRunners (fb_running s)) (length (fb_configs s) - length (fb_running s))" by auto
  then show thesis using assms(1,4) f by (intro that [of cs new]) (simp_all add: wait_round_def)
qed

lemma wait_round_Some:
  assumes "fb_running s \<noteq> []" and "runner_quorum S fallback_quorum req (fb_configs s) (fb_running s) (fb_height s) = Inr (h, Some a)"
  shows "wait_round S req picks s =
    (case a of Result v \<Rightarrow> s\<lparr>fb_running := map bump (fb_running s), fb_height := h, fb_outcome := Some (Returned v),
                            fb_configs := count_late (fb_configs s) (map bump (fb_running s))\<rparr>
     | Failure e \<Rightarrow> s\<lparr>fb_running := map bump (fb_running s), fb_height := h, fb_outcome := Some (Rejected e)\<rparr>)"
  using assms by (cases a) (simp_all add: wait_round_def Let_def)

lemma wait_round_Inl:
  assumes "fb_running s \<noteq> []" and "runner_quorum S fallback_quorum req (fb_configs s) (fb_running s) (fb_height s) = Inl e"
  shows "wait_round S req picks s = s\<lparr>fb_running := map bump (fb_running s), fb_outcome := Some (Thrown e)\<rparr>"
  using assms by (simp add: wait_round_def)

lemma runner_quorum_bump:
  assumes "statics cs' = statics cs" and "wf_runners (length cs) rs"
  shows "runner_quorum S q req cs' (map bump rs) h = runner_quorum S q req cs rs h"
proof -
  have "tally_runners cs (map bump rs) = tally_runners cs rs" by (rule tally_runners_cong) simp
  moreover have "tally_runners cs' (map bump rs) = tally_runners cs (map bump rs)"
    using assms statics_length [OF assms(1)] by (intro tally_runners_statics) (auto simp: wf_runners_def)
  ultimately show ?thesis by (intro runner_quorum_cong [OF assms(1)]) simp
qed

lemma start_base: "fb_initial configs height s \<Longrightarrow> fb_base configs S req s"
proof -
  assume "fb_initial configs height s"
  then obtain picks where p: "random_picks picks" "s = start_perform picks configs height" by (auto simp: fb_initial_def)
  obtain cs rs where f: "fold (\<lambda>i. addRunner (picks i)) [0..<nat fallback_quorum] (configs, []) = (cs, rs)" by force
  have "wf_runners (length configs) []" by (simp add: wf_runners_def)
  from fold_addRunner [OF p(1) this f] p(2) f show ?thesis
    by (auto simp: fb_base_def start_perform_def Let_def)
qed

lemma respond_fields:
  assumes "finish k a (fb_configs s, fb_running s) = (cs, rs)" and "k < length (fb_running s)"
    and "fb_base configs S req s" and "fb_outcome s = None"
  shows "fb_base configs S req (s\<lparr>fb_configs := cs, fb_running := rs, fb_woken := w\<rparr>)"
proof -
  have "\<forall>r \<in> set rs. r_perform r = (r_result r = None)"
    unfolding finish_spec(3) [OF assms(1,2)] using assms(3) by (intro ball_update) (simp_all add: fb_base_def)
  moreover have "length rs = length (fb_running s)" by (simp add: finish_spec(3) [OF assms(1,2)])
  moreover have "wf_runners (length configs) rs"
    using assms(3) wf_runners_map [OF finish_spec(2) [OF assms(1,2)]] by (simp add: fb_base_def)
  ultimately show ?thesis using finish_spec(1) [OF assms(1,2)] assms(3,4) by (simp add: fb_base_def)
qed

lemma wake_base:
  assumes "fb_base configs S req s" and "fb_outcome s = None" and "random_picks picks"
  shows "fb_base configs S req (wait_round S req picks s)"
proof (cases "fb_running s = []")
  case True
  then show ?thesis using assms by (simp add: wait_round_def fb_base_def)
next
  case False
  have st: "statics (fb_configs s) = statics configs" and wf: "wf_runners (length (fb_configs s)) (fb_running s)"
    and n: "length (fb_configs s) = length configs"
    using assms(1) statics_length [of "fb_configs s" configs] by (auto simp: fb_base_def)
  have wfb: "wf_runners (length configs) (map bump (fb_running s))"
    using wf n by (subst wf_runners_map [where rs = "fb_running s"]) simp_all
  show ?thesis
  proof (cases "runner_quorum S fallback_quorum req (fb_configs s) (fb_running s) (fb_height s)")
    case (Inl e)
    then show ?thesis using assms(1) wfb by (simp add: wait_round_Inl [OF False] fb_base_def)
  next
    case (Inr hm)
    obtain h m where hm: "hm = (h, m)" by force
    show ?thesis
    proof (cases m)
      case None
      from wait_round_None [OF False wf assms(3) Inr [unfolded hm None]] obtain cs new where
        "statics cs = statics (fb_configs s)" "wf_runners (length (fb_configs s)) (map bump (fb_running s) @ map fresh_runner new)"
        "wait_round S req picks s =
       (if interesting (fb_running s) = []
        then s\<lparr>fb_configs := cs, fb_running := map bump (fb_running s) @ map fresh_runner new, fb_height := h,
               fb_outcome := Some (Thrown quorum_not_met)\<rparr>
        else s\<lparr>fb_configs := cs, fb_running := map bump (fb_running s) @ map fresh_runner new, fb_height := h,
               fb_watch := length (fb_running s), fb_woken := False\<rparr>)" by metis
      then show ?thesis using assms(1,2) n by (auto simp: fb_base_def)
    next
      case (Some a)
      note r = Inr [unfolded hm Some]
      have q: "runner_quorum S fallback_quorum req cs' (map bump (fb_running s)) (fb_height s) = Inr (h, Some a)"
        if "statics cs' = statics (fb_configs s)" for cs'
        using r runner_quorum_bump [OF that wf] by simp
      show ?thesis
        unfolding wait_round_Some [OF False r] using assms(1) wfb q [OF refl] q [OF statics_count_late]
        by (cases a) (auto simp: fb_base_def answered_by_def statics_count_late)
    qed
  qed
qed

lemma step_base: "fb_step order S req s t \<Longrightarrow> fb_base configs S req s \<Longrightarrow> fb_base configs S req t"
proof (induction rule: fb_step.induct)
  case (respond s k a cs rs)
  then show ?case using respond_fields by blast
next
  case (expire s k)
  have "\<forall>r \<in> set (stalled k (fb_running s)). r_perform r = (r_result r = None)"
    unfolding stalled_def using expire.prems nth_mem [OF expire.hyps(3)] by (intro ball_update) (simp_all add: fb_base_def)
  moreover have "length (stalled k (fb_running s)) = length (fb_running s)" by (simp add: stalled_def)
  ultimately show ?case using expire by (simp add: fb_base_def wf_runners_map [OF stalled_config])
next
  case (wake s picks)
  then show ?case by (blast intro: wake_base)
qed

lemma wake_rank:
  assumes "fb_base configs S req s" and "fb_outcome s = None" and "fb_woken s" and "random_picks picks"
  shows "fb_rank (wait_round S req picks s) < fb_rank s"
proof (cases "fb_outcome (wait_round S req picks s)")
  case None
  have run: "fb_running s \<noteq> []" using None by (auto simp: wait_round_def)
  have wf: "wf_runners (length (fb_configs s)) (fb_running s)"
    using assms(1) statics_length [of "fb_configs s" configs] by (auto simp: fb_base_def)
  obtain h where h: "runner_quorum S fallback_quorum req (fb_configs s) (fb_running s) (fb_height s) = Inr (h, None)"
  proof (cases "runner_quorum S fallback_quorum req (fb_configs s) (fb_running s) (fb_height s)")
    case (Inl e)
    then show ?thesis using None by (simp add: wait_round_Inl [OF run])
  next
    case (Inr hm)
    obtain h m where "hm = (h, m)" by force
    then show ?thesis using None Inr that wait_round_Some [OF run, of S req h] by (cases m) (auto split: answer.splits)
  qed
  from wait_round_None [OF run wf assms(4) h] obtain cs new where w: "statics cs = statics (fb_configs s)"
    "wf_runners (length (fb_configs s)) (map bump (fb_running s) @ map fresh_runner new)"
    "wait_round S req picks s =
       (if interesting (fb_running s) = []
        then s\<lparr>fb_configs := cs, fb_running := map bump (fb_running s) @ map fresh_runner new, fb_height := h,
               fb_outcome := Some (Thrown quorum_not_met)\<rparr>
        else s\<lparr>fb_configs := cs, fb_running := map bump (fb_running s) @ map fresh_runner new, fb_height := h,
               fb_watch := length (fb_running s), fb_woken := False\<rparr>)" by metis
  have "length (fb_running s) + length new \<le> length (fb_configs s)" using wf_runners_length [OF w(2)] by simp
  then show ?thesis using assms(2,3) None statics_length [OF w(1)] by (auto simp: w(3) fb_rank_def split: if_splits)
qed (use assms in \<open>simp add: fb_rank_def\<close>)

lemma step_lowers: "fb_step order S req s t \<Longrightarrow> fb_base configs S req s \<Longrightarrow> fb_rank t < fb_rank s"
proof (induction rule: fb_step.induct)
  case (respond s k a cs rs)
  have "length cs = length (fb_configs s)" using finish_spec(1) [OF respond.hyps(4,2)] by (rule statics_length)
  moreover have "pending rs + 1 = pending (fb_running s)"
    using pending_update [OF respond.hyps(2), of "(fb_running s ! k)\<lparr>r_perform := False, r_result := Some a\<rparr>"] respond.hyps(3) by (simp add: finish_spec(3) [OF respond.hyps(4,2)])
  moreover have "length rs = length (fb_running s)" by (simp add: finish_spec(3) [OF respond.hyps(4,2)])
  ultimately show ?case using respond.hyps(1) by (simp add: fb_rank_def)
next
  case (expire s k)
  have "pending (stalled k (fb_running s)) + 1 = pending (fb_running s)"
    using pending_update [OF expire.hyps(3), of "(fb_running s ! k)\<lparr>r_staller := False\<rparr>"] expire.hyps(4) by (simp add: stalled_def)
  moreover have "length (stalled k (fb_running s)) = length (fb_running s)" by (simp add: stalled_def)
  ultimately show ?case using expire.hyps(1) by (simp add: fb_rank_def)
next
  case (wake s picks)
  then show ?case by (blast intro: wake_rank)
qed

interpretation fb: ranked_machine "fb_initial configs height" "fb_step order S req" "fb_base configs S req" fb_rank
  for configs height order S req
  by unfold_locales (fact start_base step_base step_lowers)+

section \<open>Timers in order\<close>

text \<open>
  \<open>b\<close> runners have been bumped, \<open>e\<close> timers have gone, both from the first on. There
  is a runner for each bumped one beyond the first two, while configurations last, so the
  last timer can only go when every configuration is running.
\<close>

definition in_front :: "nat \<Rightarrow> nat \<Rightarrow> runner list \<Rightarrow> bool" where
  "in_front b e rs \<longleftrightarrow> (\<forall>k < length rs. r_didBump (rs ! k) = (k < b) \<and> r_staller (rs ! k) = (e \<le> k))"

definition waiting :: "js_sort \<Rightarrow> perform_request \<Rightarrow> fb_state \<Rightarrow> bool" where
  "waiting S req s \<longleftrightarrow>
     (\<exists>h. runner_quorum S fallback_quorum req (fb_configs s) (take (fb_watch s) (fb_running s)) h = Inr (fb_height s, None))"

definition fb_fifo :: "config list \<Rightarrow> js_sort \<Rightarrow> perform_request \<Rightarrow> fb_state \<Rightarrow> bool" where
  "fb_fifo configs S req s \<longleftrightarrow>
     fb_base configs S req s \<and>
     (fb_outcome s = None \<longrightarrow>
       (\<exists>b e. b \<le> e \<and> e \<le> length (fb_running s) \<and> length (fb_running s) = min (length configs) (2 + b) \<and>
          in_front b e (fb_running s) \<and>
          (if fb_woken s then e \<le> b + 1
           else b = e \<and> (e < fb_watch s \<or> e = length configs \<and> fb_watch s = length configs) \<and>
                (\<exists>k < fb_watch s. r_perform (fb_running s ! k) \<or> r_staller (fb_running s ! k)) \<and> waiting S req s))) \<and>
     (fb_outcome s = Some (Thrown quorum_not_met) \<longrightarrow>
       set (map r_config (fb_running s)) = {..<length configs} \<and> (\<forall>r \<in> set (fb_running s). r_result r \<noteq> None) \<and>
       (\<exists>h. runner_quorum S fallback_quorum req (fb_configs s) (fb_running s) h = Inr (fb_height s, None)))"

lemma fifo_woken:
  "fb_base configs S req s \<Longrightarrow> fb_outcome s = None \<Longrightarrow> fb_woken s \<Longrightarrow> b \<le> e \<Longrightarrow> e \<le> length (fb_running s) \<Longrightarrow>
   length (fb_running s) = min (length configs) (2 + b) \<Longrightarrow> in_front b e (fb_running s) \<Longrightarrow> e \<le> b + 1 \<Longrightarrow> fb_fifo configs S req s"
  unfolding fb_fifo_def by (intro conjI impI exI [of _ b] exI [of _ e]) simp_all

lemma fifo_asleep:
  "fb_base configs S req s \<Longrightarrow> fb_outcome s = None \<Longrightarrow> \<not> fb_woken s \<Longrightarrow> e \<le> length (fb_running s) \<Longrightarrow>
   length (fb_running s) = min (length configs) (2 + e) \<Longrightarrow> in_front e e (fb_running s) \<Longrightarrow>
   e < fb_watch s \<or> e = length configs \<and> fb_watch s = length configs \<Longrightarrow> k < fb_watch s \<Longrightarrow>
   r_perform (fb_running s ! k) \<or> r_staller (fb_running s ! k) \<Longrightarrow> waiting S req s \<Longrightarrow> fb_fifo configs S req s"
  unfolding fb_fifo_def by (intro conjI impI exI [of _ e]) auto

lemma fifo_over:
  "fb_base configs S req s \<Longrightarrow> fb_outcome s \<noteq> None \<Longrightarrow> fb_outcome s \<noteq> Some (Thrown quorum_not_met) \<Longrightarrow> fb_fifo configs S req s"
  unfolding fb_fifo_def by (intro conjI impI) simp_all

lemma fifo_cases:
  assumes "fb_fifo configs S req s" and "fb_outcome s = None"
  obtains (woken) b e where "fb_woken s" "b \<le> e" "e \<le> length (fb_running s)"
      "length (fb_running s) = min (length configs) (2 + b)" "in_front b e (fb_running s)" "e \<le> b + 1"
  | (asleep) e k where "\<not> fb_woken s" "e \<le> length (fb_running s)" "length (fb_running s) = min (length configs) (2 + e)"
      "in_front e e (fb_running s)" "e < fb_watch s \<or> e = length configs \<and> fb_watch s = length configs" "k < fb_watch s"
      "r_perform (fb_running s ! k) \<or> r_staller (fb_running s ! k)" "waiting S req s"
  using assms by (cases "fb_woken s") (auto simp: fb_fifo_def)

lemma start_fifo: "fb_initial configs height s \<Longrightarrow> fb_fifo configs S req s"
proof -
  assume i: "fb_initial configs height s"
  then obtain picks where p: "random_picks picks" "s = start_perform picks configs height" by (auto simp: fb_initial_def)
  obtain cs rs where f: "fold (\<lambda>i. addRunner (picks i)) [0..<nat fallback_quorum] (configs, []) = (cs, rs)" by force
  have "wf_runners (length configs) []" by (simp add: wf_runners_def)
  from fold_addRunner [OF p(1) this f] obtain new where "rs = map fresh_runner new" "length new = min 2 (length configs)"
    by (auto simp: fallback_quorum_def)
  moreover have "in_front 0 0 (map fresh_runner new)" by (simp add: in_front_def)
  ultimately show ?thesis using start_base [OF i] p(2) f
    by (intro fifo_woken [where b = 0 and e = 0]) (simp_all add: start_perform_def)
qed

lemma count_front: "length (filter (\<lambda>k. b \<le> k \<and> k < e) [0..<n]) = min e n - b"
proof (induction n)
  case (Suc n)
  then show ?case by (cases "b \<le> n"; cases "n < e") (auto simp: min_def)
qed simp

lemma newRunners_front:
  assumes "in_front b e rs" and "e \<le> length rs"
  shows "newRunners rs = e - b"
proof -
  have "newRunners rs = length (filter (\<lambda>k. \<not> r_staller (rs ! k) \<and> \<not> r_didBump (rs ! k)) [0..<length rs])"
    by (subst map_nth [of rs, symmetric]) (simp only: newRunners_def filter_map length_map o_def)
  also have "\<dots> = length (filter (\<lambda>k. b \<le> k \<and> k < e) [0..<length rs])"
    using assms(1) by (auto simp: in_front_def intro!: arg_cong [where f = length] filter_cong)
  finally show ?thesis using assms(2) by (simp add: count_front min_def)
qed

lemma in_front_round:
  assumes "in_front b e rs" and "e \<le> length rs" and "b \<le> e"
  shows "in_front e e (map bump rs @ map fresh_runner new)"
  using assms by (auto simp: in_front_def nth_append)

lemma interesting_Nil: "interesting rs = [] \<longleftrightarrow> (\<forall>k < length rs. \<not> r_perform (rs ! k) \<and> \<not> r_staller (rs ! k))"
  by (auto simp: interesting_def filter_empty_conv all_set_conv_all_nth)

lemma in_front_update:
  assumes "in_front b e rs" and "r_didBump r = r_didBump (rs ! k)" and "r_staller r = r_staller (rs ! k)"
  shows "in_front b e (rs[k := r])"
  using assms by (cases "k < length rs") (simp_all add: in_front_def nth_list_update list_update_beyond)

lemma fifo_base: "fb_fifo configs S req s \<Longrightarrow> fb_base configs S req s"
  by (simp add: fb_fifo_def)

lemma respond_fifo:
  assumes "fb_fifo configs S req s" and "fb_outcome s = None" and "k < length (fb_running s)" and "r_perform (fb_running s ! k)"
    and "finish k a (fb_configs s, fb_running s) = (cs, rs)"
  shows "fb_fifo configs S req (s\<lparr>fb_configs := cs, fb_running := rs, fb_woken := fb_woken s \<or> k < fb_watch s\<rparr>)"
proof -
  note rs = finish_spec [OF assms(5,3)]
  have base: "fb_base configs S req (s\<lparr>fb_configs := cs, fb_running := rs, fb_woken := w\<rparr>)" for w
    using respond_fields [OF assms(5,3) fifo_base [OF assms(1)] assms(2)] .
  have len: "length rs = length (fb_running s)" by (simp add: rs(3))
  have fr: "in_front b e (fb_running s) \<Longrightarrow> in_front b e rs" for b e unfolding rs(3) by (rule in_front_update) simp_all
  show ?thesis
    using assms(1,2)
  proof (cases rule: fifo_cases)
    case (woken b e)
    then show ?thesis using base assms(2) fr by (intro fifo_woken [where b = b and e = e]) (simp_all add: len)
  next
    case (asleep e j)
    show ?thesis
    proof (cases "k < fb_watch s")
      case True
      then show ?thesis using asleep base assms(2) fr by (intro fifo_woken [where b = e and e = e]) (simp_all add: len)
    next
      case False
      have take: "take (fb_watch s) rs = take (fb_watch s) (fb_running s)" using False by (simp add: rs(3))
      have "tally_runners cs (take (fb_watch s) (fb_running s)) = tally_runners (fb_configs s) (take (fb_watch s) (fb_running s))"
        using fifo_base [OF assms(1)] set_take_subset [of "fb_watch s" "fb_running s"] rs(1) statics_length [of cs configs]
        by (intro tally_runners_statics) (auto simp: fb_base_def wf_runners_def)
      then have "waiting S req (s\<lparr>fb_configs := cs, fb_running := rs, fb_woken := False\<rparr>)"
        using asleep(8) take runner_quorum_cong [OF rs(1)] by (simp add: waiting_def)
      moreover have "rs ! j = fb_running s ! j" using asleep(6) False by (simp add: rs(3))
      ultimately show ?thesis using asleep base assms(2) fr False
        by (intro fifo_asleep [where e = e and k = j]) (simp_all add: len)
    qed
  qed
qed

lemma expire_fifo:
  assumes "fb_fifo configs S req s" and "fb_outcome s = None" and "\<not> fb_woken s" and "k < length (fb_running s)"
    and "r_staller (fb_running s ! k)" and "in_order (fb_running s) k"
    and "fb_base configs S req (s\<lparr>fb_running := stalled k (fb_running s), fb_woken := k < fb_watch s\<rparr>)"
  shows "fb_fifo configs S req (s\<lparr>fb_running := stalled k (fb_running s), fb_woken := k < fb_watch s\<rparr>)"
  using assms(1,2)
proof (cases rule: fifo_cases)
  case (asleep e j)
  have "e \<le> k" using asleep(4) assms(4,5) by (simp add: in_front_def)
  moreover have "\<not> e < k" using asleep(4) assms(4,6) by (auto simp: in_front_def in_order_def)
  ultimately have k: "k = e" by simp
  have w: "e < fb_watch s" using asleep(3,5) assms(4) k by auto
  have "in_front e (Suc e) (stalled k (fb_running s))"
    using asleep(4) assms(4) by (auto simp: in_front_def stalled_def nth_list_update k)
  then show ?thesis using asleep assms(2,4,7) w
    by (intro fifo_woken [where b = e and e = "Suc e"]) (simp_all add: stalled_def k)
qed (use assms in simp)

lemma wake_fifo:
  assumes "fb_fifo configs S req s" and "fb_outcome s = None" and "fb_woken s" and "random_picks picks"
    and base': "fb_base configs S req (wait_round S req picks s)"
    and other: "\<And>e. runner_quorum S fallback_quorum req (fb_configs s) (fb_running s) (fb_height s) = Inl e \<Longrightarrow> e \<noteq> quorum_not_met"
  shows "fb_fifo configs S req (wait_round S req picks s)"
proof (cases "fb_running s = []")
  case True
  then show ?thesis using base' by (intro fifo_over) (simp_all add: wait_round_def quorum_not_met_def)
next
  case False
  note base = fifo_base [OF assms(1)]
  have wf: "wf_runners (length (fb_configs s)) (fb_running s)" and n: "length (fb_configs s) = length configs"
    using base statics_length [of "fb_configs s" configs] by (auto simp: fb_base_def)
  obtain b e where f: "b \<le> e" "e \<le> length (fb_running s)" "length (fb_running s) = min (length configs) (2 + b)"
    "in_front b e (fb_running s)" "e \<le> b + 1"
    using assms(1,2) by (cases rule: fifo_cases) (use assms(3) in auto)
  show ?thesis
  proof (cases "runner_quorum S fallback_quorum req (fb_configs s) (fb_running s) (fb_height s)")
    case (Inl err)
    then show ?thesis using base' other by (intro fifo_over) (simp_all add: wait_round_Inl [OF False])
  next
    case (Inr hm)
    obtain h m where hm: "hm = (h, m)" by force
    show ?thesis
    proof (cases m)
      case (Some a)
      then show ?thesis using base' Inr hm
        by (intro fifo_over) (simp_all add: wait_round_Some [OF False] split: answer.splits)
    next
      case None
      note q = Inr [unfolded hm None]
      from wait_round_None [OF False wf assms(4) q] obtain cs new where w: "statics cs = statics (fb_configs s)"
        "length new = min (newRunners (fb_running s)) (length (fb_configs s) - length (fb_running s))"
        "wait_round S req picks s =
       (if interesting (fb_running s) = []
        then s\<lparr>fb_configs := cs, fb_running := map bump (fb_running s) @ map fresh_runner new, fb_height := h,
               fb_outcome := Some (Thrown quorum_not_met)\<rparr>
        else s\<lparr>fb_configs := cs, fb_running := map bump (fb_running s) @ map fresh_runner new, fb_height := h,
               fb_watch := length (fb_running s), fb_woken := False\<rparr>)" by metis
      have new: "length new = min (e - b) (length configs - length (fb_running s))"
        using w(2) n newRunners_front [OF f(4,2)] by simp
      have qb: "runner_quorum S fallback_quorum req cs (map bump (fb_running s)) (fb_height s) = Inr (h, None)"
        using runner_quorum_bump [OF w(1) wf] q by simp
      show ?thesis
      proof (cases "interesting (fb_running s) = []")
        case True
        then have none: "\<not> r_perform (fb_running s ! k)" "\<not> r_staller (fb_running s ! k)" if "k < length (fb_running s)" for k
          using that by (auto simp: interesting_Nil)
        have "length (fb_running s) \<le> e"
        proof (rule ccontr)
          assume "\<not> ?thesis"
          then have "e < length (fb_running s)" "r_staller (fb_running s ! e)" using f(4) by (auto simp: in_front_def)
          then show False using none by blast
        qed
        then have full: "length (fb_running s) = length configs" using f by auto
        then have "set (map r_config (fb_running s)) = {..<length configs}" using wf_runners_full [OF wf] n by simp
        moreover have "\<forall>r \<in> set (fb_running s). r_result r \<noteq> None"
          using none(1) base by (metis fb_base_def in_set_conv_nth)
        moreover have "new = []" using new full by simp
        ultimately show ?thesis using base' w(3) True qb unfolding fb_fifo_def by (auto simp: image_image)
      next
        case False
        then obtain k where k: "k < length (fb_running s)" "r_perform (fb_running s ! k) \<or> r_staller (fb_running s ! k)"
          by (auto simp: interesting_Nil)
        have nth: "(map bump (fb_running s) @ map fresh_runner new) ! k = bump (fb_running s ! k)"
          using k(1) by (simp add: nth_append)
        have "waiting S req (wait_round S req picks s)" using w(3) False qb by (auto simp: waiting_def)
        then show ?thesis using w(3) False base' assms(2) f k nth new in_front_round [OF f(4,2,1)]
          by (intro fifo_asleep [where e = e and k = k]) (auto simp: min_def)
      qed
    qed
  qed
qed

section \<open>Errors of the quorum\<close>

text \<open>The tallies themselves never raise \<open>SERVER_ERROR\<close>.\<close>

definition tally_error :: "error \<Rightarrow> bool" where
  "tally_error e \<longleftrightarrow> e \<noteq> quorum_not_met"

named_theorems tally_errors

lemma tally_error_simps [simp]:
  "tally_error (JsError k m)" "tally_error (CoreError INVALID_ARGUMENT m)" "tally_error (CoreError UNSUPPORTED_OPERATION m)"
  by (simp_all add: tally_error_def quorum_not_met_def)

lemma mapM_error: "mapM f xs = Inl e \<Longrightarrow> (\<And>x. x \<in> set xs \<Longrightarrow> f x = Inl e \<Longrightarrow> tally_error e) \<Longrightarrow> tally_error e"
  by (induction xs) (auto simp: bindE_eq_Inl)

lemma mapE_eq_Inl [simp]: "mapE f m = Inl e \<longleftrightarrow> m = Inl e"
  by (cases m) auto

lemma normalize_value_error [tally_errors]: "normalize_value v = Inl e \<Longrightarrow> tally_error e"
proof (induction v rule: normalize_value.induct)
  case (3 vs)
  then have "mapM normalize_value vs = Inl e" by simp
  then show ?case using 3(1) by (rule mapM_error)
next
  case (8 v)
  then show ?case by (auto split: jnum.splits if_splits)
next
  case (10 ps)
  then have "mapM (\<lambda>p. mapE (\<lambda>t. json_string (fst p) @ '':'' @ t) (normalize_value (snd p))) (sort_key fst ps) = Inl e" by simp
  then show ?case
  proof (rule mapM_error)
    fix p assume p: "p \<in> set (sort_key fst ps)" "mapE (\<lambda>t. json_string (fst p) @ '':'' @ t) (normalize_value (snd p)) = Inl e"
    then show "tally_error e" using 10(1) [OF p(1)] by simp
  qed
qed auto

lemma normalizeResult_error [tally_errors]: "normalizeResult a = Inl e \<Longrightarrow> tally_error e"
  using normalize_value_error by (cases a) (auto simp del: normalize_value.simps)

lemma tally_runners_error [tally_errors]: "tally_runners cs rs = Inl e \<Longrightarrow> tally_error e"
  by (induction rs) (auto simp: bindE_eq_Inl split: option.splits intro: normalizeResult_error)

lemma bigint_error [tally_errors]: "bigint_of_item v = Inl e \<Longrightarrow> tally_error e"
  by (induction v rule: bigint_of_item.induct)
     (auto simp: bigint_text_def syntax_error_def split: option.splits jnum.splits if_splits list.splits)

lemma syntax_error_simp [simp]: "tally_error syntax_error"
  by (simp add: syntax_error_def)

lemma js_to_bigint_error [tally_errors]: "js_to_bigint v = Inl e \<Longrightarrow> tally_error e"
  by (cases v rule: js_to_bigint.cases) (auto split: jnum.splits if_splits simp del: bigint_of_item.simps dest: bigint_error)

lemma median_loop_error [tally_errors]: "median_loop rs st = Inl e \<Longrightarrow> tally_error e"
  by (induction rs arbitrary: st)
     (auto simp: bindE_eq_Inl median_step_def Let_def split: answer.splits intro: js_to_bigint_error)

lemma getMedian_error [tally_errors]: "getMedian S q rs = Inl e \<Longrightarrow> tally_error e"
  by (auto simp: getMedian_def bindE_eq_Inl split: if_splits intro: median_loop_error)

lemma getNumber_error [tally_errors]: "getNumber d = Inl e \<Longrightarrow> tally_error e"
  by (cases d) (auto simp: getNumber_bigint_def checked_number_def bindE_eq_Inl assertArgument_def assert_def
      split: jnum.splits option.splits sum.splits if_splits)

lemma number_of_js_error [tally_errors]: "number_of_js v = Inl e \<Longrightarrow> tally_error e"
  by (cases v rule: number_of_js.cases) (auto simp del: getNumber.simps intro: getNumber_error)

lemma number_of_answer_error [tally_errors]: "number_of_answer a = Inl e \<Longrightarrow> tally_error e"
  by (cases a rule: number_of_answer.cases) (auto intro: number_of_js_error)

lemma fuzzy_tally_error [tally_errors]: "fuzzy_tally rs t = Inl e \<Longrightarrow> tally_error e"
  by (induction rs arbitrary: t) (auto simp: bindE_eq_Inl intro: number_of_answer_error [of "Some a" for a])

lemma getFuzzyMode_error [tally_errors]: "getFuzzyMode S q rs = Inl e \<Longrightarrow> tally_error e"
  by (auto simp: getFuzzyMode_def bindE_eq_Inl split: if_splits intro: tally_errors)

lemma block_quorum_error [tally_errors]: "block_quorum S q cs rs h = Inl e \<Longrightarrow> tally_error e"
  by (auto simp: block_quorum_def config_tally_def bindE_eq_Inl Let_def split: if_splits option.splits
      simp del: getNumber.simps intro: tally_errors dest!: mapM_error)

lemma runner_quorum_error: "runner_quorum S q req cs rs h = Inl e \<Longrightarrow> e \<noteq> quorum_not_met"
proof -
  assume "runner_quorum S q req cs rs h = Inl e"
  then have "tally_error e"
    by (cases req) (auto simp: runner_quorum_def bindE_eq_Inl split: if_splits intro: tally_errors)
  then show ?thesis by (simp add: tally_error_def)
qed

lemma step_fifo: "fb_step in_order S req s t \<Longrightarrow> fb_fifo configs S req s \<Longrightarrow> fb_fifo configs S req t"
proof (induction rule: fb_step.induct)
  case (respond s k a cs rs)
  then show ?case by (blast intro: respond_fifo)
next
  case (expire s k)
  have "fb_base configs S req (s\<lparr>fb_running := stalled k (fb_running s), fb_woken := k < fb_watch s\<rparr>)"
    using step_base [OF fb_step.expire [of s k in_order]] expire fifo_base by blast
  then show ?case using expire by (blast intro: expire_fifo)
next
  case (wake s picks)
  then show ?case using runner_quorum_error by (blast intro: wake_fifo wake_base fifo_base)
qed

interpretation fifo: machine "fb_initial configs height" "fb_step in_order S req" "fb_fifo configs S req"
  for configs height S req
  by unfold_locales (fact start_fifo step_fifo)+

section \<open>Who stands behind an answer\<close>



text \<open>The configurations whose answer has a given tag.\<close>

definition agreeing :: "runner list \<Rightarrow> string \<Rightarrow> nat set" where
  "agreeing rs t = {r_config r | r. r \<in> set rs \<and> (\<exists>a. r_result r = Some a \<and> normalizeResult a = Inr t)}"


lemma finite_agreeing [simp]: "finite (agreeing rs t)"
  by (rule finite_subset [of _ "set (map r_config rs)"]) (auto simp: agreeing_def)




section \<open>Properties\<close>


text \<open>
  The loop does not give up early. When the stall timers fire in the order they
  were set, "quorum not met" is only thrown once every provider of the
  configuration has been asked and has answered, and those answers meet no quorum.
\<close>

theorem fallback_gives_up_last:
  assumes "reach (fb_initial configs height) (fb_step in_order S req) s" and "fb_outcome s = Some (Thrown quorum_not_met)"
  shows "set (map r_config (fb_running s)) = {..<length configs} \<and> (\<forall>r \<in> set (fb_running s). r_result r \<noteq> None) \<and>
    (\<exists>h. runner_quorum S fallback_quorum req (fb_configs s) (fb_running s) h = Inr (fb_height s, None))"
  using fifo.reach_inv [OF assms(1)] assms(2) by (simp add: fb_fifo_def)

text \<open>A loop that sleeps waits for a promise that is pending, whatever the order of the timers.\<close>

definition pends :: "runner \<Rightarrow> bool" where
  "pends r \<longleftrightarrow> r_perform r \<or> r_staller r"

definition watching :: "fb_state \<Rightarrow> bool" where
  "watching s \<longleftrightarrow>
     (fb_outcome s = None \<longrightarrow> \<not> fb_woken s \<longrightarrow> (\<exists>k < fb_watch s. k < length (fb_running s) \<and> pends (fb_running s ! k)))"

lemma watching_update:
  assumes "watching s" and "fb_outcome s = None" and "\<not> fb_woken s" and "\<not> k < fb_watch s" and "rs = (fb_running s)[k := r]"
  shows "watching (s\<lparr>fb_configs := cs, fb_running := rs, fb_woken := w\<rparr>)"
  using assms by (auto simp: watching_def)

lemma wake_watching:
  assumes "fb_base configs S req s" and "random_picks picks"
  shows "watching (wait_round S req picks s)"
proof (cases "fb_running s = []")
  case True
  then show ?thesis by (simp add: wait_round_def watching_def)
next
  case False
  have wf: "wf_runners (length (fb_configs s)) (fb_running s)"
    using assms(1) statics_length [of "fb_configs s" configs] by (auto simp: fb_base_def)
  show ?thesis
  proof (cases "runner_quorum S fallback_quorum req (fb_configs s) (fb_running s) (fb_height s)")
    case (Inl e)
    then show ?thesis by (simp add: wait_round_Inl [OF False] watching_def)
  next
    case (Inr hm)
    obtain h m where hm: "hm = (h, m)" by force
    show ?thesis
    proof (cases m)
      case None
      from wait_round_None [OF False wf assms(2) Inr [unfolded hm None]] obtain cs new where
        w: "wait_round S req picks s =
       (if interesting (fb_running s) = []
        then s\<lparr>fb_configs := cs, fb_running := map bump (fb_running s) @ map fresh_runner new, fb_height := h,
               fb_outcome := Some (Thrown quorum_not_met)\<rparr>
        else s\<lparr>fb_configs := cs, fb_running := map bump (fb_running s) @ map fresh_runner new, fb_height := h,
               fb_watch := length (fb_running s), fb_woken := False\<rparr>)" by metis
      show ?thesis
      proof (cases "interesting (fb_running s) = []")
        case False
        then obtain k where k: "k < length (fb_running s)" "pends (fb_running s ! k)"
          unfolding interesting_Nil pends_def by blast
        then have "pends ((map bump (fb_running s) @ map fresh_runner new) ! k)" by (simp add: nth_append pends_def)
        then show ?thesis using w False k(1) by (auto simp: watching_def)
      qed (simp add: w watching_def)
    next
      case (Some a)
      then show ?thesis using Inr hm by (cases a) (simp_all add: wait_round_Some [OF False] watching_def)
    qed
  qed
qed

lemma step_watching: "fb_step order S req s t \<Longrightarrow> fb_base configs S req s \<Longrightarrow> watching s \<Longrightarrow> watching t"
proof (induction rule: fb_step.induct)
  case (respond s k a cs rs)
  show ?case
  proof (cases "fb_woken s \<or> k < fb_watch s")
    case False
    from finish_spec(3) [OF respond.hyps(4,2)] show ?thesis
      using watching_update [OF respond.prems(2) respond.hyps(1)] False by blast
  qed (simp add: watching_def)
next
  case (expire s k)
  show ?case
  proof (cases "k < fb_watch s")
    case False
    have "watching (s\<lparr>fb_configs := fb_configs s, fb_running := stalled k (fb_running s), fb_woken := k < fb_watch s\<rparr>)"
      by (rule watching_update [OF expire.prems(2) expire.hyps(1,2) False]) (simp add: stalled_def)
    then show ?thesis by simp
  qed (simp add: watching_def)
next
  case (wake s picks)
  then show ?case by (intro wake_watching)
qed

interpretation watch: machine "fb_initial configs height" "fb_step order S req" "\<lambda>s. fb_base configs S req s \<and> watching s"
  for configs height order S req
proof unfold_locales
  show "fb_base configs S req s \<and> watching s" if "fb_initial configs height s" for s
    using start_base [OF that] that by (auto simp: fb_initial_def start_perform_def Let_def watching_def)
  show "fb_base configs S req t \<and> watching t" if "fb_step order S req s t" "fb_base configs S req s \<and> watching s" for s t
    using step_base [OF that(1)] step_watching [OF that(1)] that(2) by blast
qed

lemma watching_progress:
  assumes "watching s" and "fb_outcome s = None" and "timers_fire order"
  shows "\<exists>u. fb_step order S req s u"
proof (cases "fb_woken s")
  case True
  have "random_picks (\<lambda>_ i. i)" by (simp add: random_picks_def)
  then show ?thesis using assms(2) True by (blast intro: wake)
next
  case False
  with assms(1,2) obtain k where k: "k < length (fb_running s)" "pends (fb_running s ! k)" by (auto simp: watching_def)
  show ?thesis
  proof (cases "r_perform (fb_running s ! k)")
    case True
    obtain cs rs where "finish k (Result JNull) (fb_configs s, fb_running s) = (cs, rs)" by force
    then show ?thesis using respond [OF assms(2) k(1) True] by blast
  next
    case np: False
    then obtain j where "j < length (fb_running s)" "r_staller (fb_running s ! j)" "order (fb_running s) j"
      using k assms(3) unfolding timers_fire_def pends_def by blast
    then show ?thesis using expire [OF assms(2) False] by blast
  qed
qed

lemma start_rank: "fb_initial configs height s \<Longrightarrow> fb_rank s \<le> 4 * length configs + 2"
proof -
  assume "fb_initial configs height s"
  then obtain picks where p: "random_picks picks" "s = start_perform picks configs height" by (auto simp: fb_initial_def)
  obtain cs rs where f: "fold (\<lambda>i. addRunner (picks i)) [0..<nat fallback_quorum] (configs, []) = (cs, rs)" by force
  have "wf_runners (length configs) []" by (simp add: wf_runners_def)
  from fold_addRunner [OF p(1) this f] obtain new where n: "statics cs = statics configs" "wf_runners (length configs) rs" "rs = map fresh_runner new"
    by auto
  have l: "length cs = length configs" "length new \<le> length configs"
    using statics_length [OF n(1)] wf_runners_length [OF n(2)] by (simp_all add: n(3))
  have "fb_rank s = 1 + 2 * (2 * length new + 2 * (length configs - length new)) + 1"
    unfolding p(2) start_perform_def Let_def f by (simp add: fb_rank_def n(3) l(1))
  then show ?thesis using l(2) by simp
qed

lemma in_order_all_asked:
  assumes "reach (fb_initial configs height) (fb_step in_order S req) t" and "fb_outcome t = None"
    and "\<not> fb_woken t" and "\<forall>r \<in> set (fb_running t). \<not> r_staller r"
  shows "set (map r_config (fb_running t)) = {..<length configs} \<and>
    (\<exists>h. runner_quorum S fallback_quorum req (fb_configs t) (fb_running t) h = Inr (fb_height t, None))"
proof -
  have fifo: "fb_fifo configs S req t" using assms(1) by (rule fifo.reach_inv)
  obtain e where e: "e \<le> length (fb_running t)" "length (fb_running t) = min (length configs) (2 + e)"
    "in_front e e (fb_running t)" "e < fb_watch t \<or> e = length configs \<and> fb_watch t = length configs" "waiting S req t"
    using fifo assms(2,3) by (cases rule: fifo_cases) blast+
  have base_t: "fb_base configs S req t" using fifo by (rule fifo_base)
  have le: "length (fb_running t) \<le> e"
  proof (rule ccontr)
    assume "\<not> length (fb_running t) \<le> e"
    then have "r_staller (fb_running t ! e)" "fb_running t ! e \<in> set (fb_running t)" using e(3) by (auto simp: in_front_def)
    then show False using assms(4) by blast
  qed
  moreover have "fb_watch t \<le> length (fb_running t)" using base_t by (simp add: fb_base_def)
  ultimately have full: "length (fb_running t) = length configs" "fb_watch t = length (fb_running t)"
    using e(2,4) by auto
  have "set (map r_config (fb_running t)) = {..<length configs}"
    using wf_runners_full full(1) base_t by (simp add: fb_base_def)
  then show ?thesis using e(5) full(2) by (auto simp: waiting_def)
qed

text \<open>
  C15. The quorum loop of a request ends. It starts after the initial synchronisation and serves
  every method but a broadcast, which has no loop. The stall timers may have any lengths,
  and so fire in any order. No run of the loop has more than \<open>4 n + 2\<close> steps for \<open>n\<close>
  providers; as long as it has no outcome a step is possible; and while it sleeps, one of
  the promises it waits for (an answer or a timer) is pending, so that it never sleeps for
  ever unless a provider is silent for ever. If all timers have the same length, so that they fire in the order
  they were set, it only waits for silent providers once every provider has been asked and
  the answers so far meet no quorum.
\<close>

theorem fallback_settles:
  assumes "fb_initial configs height s" and "run (fb_step order S req) n s t" and "timers_fire order"
  shows "n \<le> 4 * length configs + 2 \<and>
    (fb_outcome t = None \<longrightarrow> (\<exists>u. fb_step order S req t u)) \<and>
    (fb_outcome t = None \<longrightarrow> \<not> fb_woken t \<longrightarrow>
       (\<exists>k < fb_watch t. k < length (fb_running t) \<and> (r_perform (fb_running t ! k) \<or> r_staller (fb_running t ! k)))) \<and>
    (order = in_order \<longrightarrow> fb_outcome t = None \<longrightarrow> \<not> fb_woken t \<longrightarrow> (\<forall>r \<in> set (fb_running t). \<not> r_staller r) \<longrightarrow>
       set (map r_config (fb_running t)) = {..<length configs} \<and>
       (\<exists>h. runner_quorum S fallback_quorum req (fb_configs t) (fb_running t) h = Inr (fb_height t, None)))"
proof (intro conjI impI)
  have base: "fb_base configs S req s" using assms(1) by (rule start_base)
  show "n \<le> 4 * length configs + 2" using fb.run_bound [OF assms(2) base] start_rank [OF assms(1)] by simp
  have reach: "reach (fb_initial configs height) (fb_step order S req) t"
    using assms(1,2) by (blast intro: reach_run reach_initial)
  then have watching: "watching t" using watch.reach_inv by blast
  assume none: "fb_outcome t = None"
  from watching none assms(3) show "\<exists>u. fb_step order S req t u" by (rule watching_progress)
  assume "\<not> fb_woken t"
  with watching none
  show "\<exists>k < fb_watch t. k < length (fb_running t) \<and> (r_perform (fb_running t ! k) \<or> r_staller (fb_running t ! k))"
    by (simp add: watching_def pends_def)
next
  assume "order = in_order" and o: "fb_outcome t = None" "\<not> fb_woken t" "\<forall>r \<in> set (fb_running t). \<not> r_staller r"
  then have "reach (fb_initial configs height) (fb_step in_order S req) t"
    using assms(1,2) by (blast intro: reach_run reach_initial)
  from in_order_all_asked [OF this o]
  show "set (map r_config (fb_running t)) = {..<length configs}"
    "\<exists>h. runner_quorum S fallback_quorum req (fb_configs t) (fb_running t) h = Inr (fb_height t, None)" by blast+
qed

section \<open>Runs\<close>

text \<open>A run given by its events, with no reordering of the configurations, to be evaluated.\<close>

datatype fb_event = Respond nat answer | Expire nat | Wake

fun fb_exec :: "(runner list \<Rightarrow> nat \<Rightarrow> bool) \<Rightarrow> js_sort \<Rightarrow> perform_request \<Rightarrow> fb_event list \<Rightarrow> fb_state \<Rightarrow> fb_state option" where
  "fb_exec order S req [] s = Some s"
| "fb_exec order S req (Respond k a # es) s =
     (if fb_outcome s = None \<and> k < length (fb_running s) \<and> r_perform (fb_running s ! k)
      then let cr = finish k a (fb_configs s, fb_running s)
           in fb_exec order S req es (s\<lparr>fb_configs := fst cr, fb_running := snd cr, fb_woken := fb_woken s \<or> k < fb_watch s\<rparr>)
      else None)"
| "fb_exec order S req (Expire k # es) s =
     (if fb_outcome s = None \<and> \<not> fb_woken s \<and> k < length (fb_running s) \<and> r_staller (fb_running s ! k) \<and> order (fb_running s) k
      then fb_exec order S req es (s\<lparr>fb_running := stalled k (fb_running s), fb_woken := k < fb_watch s\<rparr>)
      else None)"
| "fb_exec order S req (Wake # es) s =
     (if fb_outcome s = None \<and> fb_woken s then fb_exec order S req es (wait_round S req (\<lambda>_ i. i) s) else None)"

lemma run_first: "run step n t u \<Longrightarrow> step s t \<Longrightarrow> run step (Suc n) s u"
  by (induction rule: run.induct) (auto intro: run_0 run_Suc)

lemma fb_exec_steps: "fb_exec order S req es s = Some t \<Longrightarrow> run (fb_step order S req) (length es) s t"
proof (induction es arbitrary: s)
  case (Cons e es)
  have "\<exists>u. fb_step order S req s u \<and> fb_exec order S req es u = Some t"
  proof (cases e)
    case (Respond k a)
    obtain cs rs where "finish k a (fb_configs s, fb_running s) = (cs, rs)" by force
    with Respond Cons.prems respond [of s k a cs rs order S req] show ?thesis by (auto split: if_splits)
  next
    case (Expire k)
    with Cons.prems expire [of s k order S req] show ?thesis by (auto split: if_splits)
  next
    case Wake
    have "random_picks (\<lambda>_ i. i)" by (simp add: random_picks_def)
    with Wake Cons.prems wake [of s _ order S req] show ?thesis by (auto split: if_splits)
  qed
  then obtain u where "fb_step order S req s u" "run (fb_step order S req) (length es) u t" using Cons.IH by blast
  then show ?case by (simp add: run_first)
qed (simp add: run_0)

lemma fb_exec_run: "fb_exec order S req es s = Some t \<Longrightarrow> reach init (fb_step order S req) s \<Longrightarrow> reach init (fb_step order S req) t"
  using fb_exec_steps by (rule reach_run)

definition example_start :: "nat \<Rightarrow> fb_state" where
  "example_start n = start_perform (\<lambda>_ i. i) (replicate n defaultConfig) (-2)"

lemma example_initial: "fb_initial (replicate n defaultConfig) (-2) (example_start n)"
  by (auto simp: fb_initial_def example_start_def random_picks_def)

lemma example_reach:
  "fb_exec order S req es (example_start n) = Some t \<Longrightarrow>
     reach (fb_initial (replicate n defaultConfig) (-2)) (fb_step order S req) t"
  using example_initial by (blast intro: fb_exec_run reach_initial)

definition big :: "int \<Rightarrow> answer" where
  "big n = Result (JBig n)"


lemma exhausted_run:
  "map_option fb_outcome (fb_exec in_order (\<lambda>_ xs. xs) R_networkId
     [Respond 0 (big 1), Respond 1 (big 2), Wake, Expire 0, Wake, Expire 1, Wake] (example_start 2)) =
     Some (Some (Thrown quorum_not_met))"
  by code_simp

lemma abandoned_run:
  "map_option (\<lambda>s. (fb_outcome s, map r_result (fb_running s))) (fb_exec any_order (\<lambda>_ xs. xs) R_networkId
     [Wake, Respond 0 (big 1), Respond 1 (big 2), Wake, Expire 0, Wake, Respond 2 (big 3), Expire 2, Expire 1, Wake] (example_start 5)) =
     Some (Some (Thrown quorum_not_met), [Some (big 1), Some (big 2), Some (big 3), None, None])"
  by code_simp


theorem fallback_gives_up_last_witness:
  "\<exists>s :: fb_state. fb_outcome s = Some (Thrown quorum_not_met) \<and> set (map r_config (fb_running s)) = {..<2} \<and>
     (\<forall>r \<in> set (fb_running s). r_result r \<noteq> None)"
proof -
  obtain s where s: "fb_exec in_order (\<lambda>_ xs. xs) R_networkId
     [Respond 0 (big 1), Respond 1 (big 2), Wake, Expire 0, Wake, Expire 1, Wake] (example_start 2) = Some s"
    "fb_outcome s = Some (Thrown quorum_not_met)"
    using exhausted_run by auto
  from fallback_gives_up_last [OF example_reach [OF s(1)] s(2)] s(2) show ?thesis by (intro exI [of _ s]) simp
qed

text \<open>Timers out of order, three runners asked, and one answer: the loop sleeps and goes on.\<close>

lemma sleeping_run:
  "map_option (\<lambda>s. (fb_outcome s, fb_woken s, map r_perform (fb_running s))) (fb_exec any_order (\<lambda>_ xs. xs) R_networkId
     [Wake, Expire 1, Wake, Respond 0 (big 1), Wake] (example_start 3)) =
     Some (None, False, [False, True, True])"
  by code_simp

theorem fallback_settles_witness:
  "\<exists>t. run (fb_step any_order (\<lambda>_ xs. xs) R_networkId) 5 (example_start 3) t \<and> fb_outcome t = None \<and> \<not> fb_woken t \<and>
     (\<exists>k < fb_watch t. r_perform (fb_running t ! k) \<or> r_staller (fb_running t ! k)) \<and>
     (\<exists>u. fb_step any_order (\<lambda>_ xs. xs) R_networkId t u)"
proof -
  let ?es = "[Wake, Expire 1, Wake, Respond 0 (big 1), Wake]"
  obtain t where t: "fb_exec any_order (\<lambda>_ xs. xs) R_networkId ?es (example_start 3) = Some t" "fb_outcome t = None" "\<not> fb_woken t"
    using sleeping_run by auto
  have r: "run (fb_step any_order (\<lambda>_ xs. xs) R_networkId) 5 (example_start 3) t"
    using fb_exec_steps [OF t(1)] by (simp add: eval_nat_numeral)
  have "timers_fire any_order" by (auto simp: timers_fire_def any_order_def)
  from fallback_settles [OF example_initial r this] r t(2,3) show ?thesis by blast
qed

text \<open>
  When stall timers of different lengths fire out of order the loop can give up
  early: with five providers of equal weight, a third runner whose timer is the
  shortest makes "quorum not met" be thrown in the very pass that dispatches the
  fourth and the fifth, which nobody waits for.
\<close>

theorem fallback_gives_up_early:
  "\<exists>s. reach (fb_initial (replicate 5 defaultConfig) (-2)) (fb_step any_order (\<lambda>_ xs. xs) R_networkId) s \<and>
     fb_outcome s = Some (Thrown quorum_not_met) \<and> (\<exists>r \<in> set (fb_running s). r_perform r \<and> r_result r = None)"
proof -
  obtain s where s: "fb_exec any_order (\<lambda>_ xs. xs) R_networkId
     [Wake, Respond 0 (big 1), Respond 1 (big 2), Wake, Expire 0, Wake, Respond 2 (big 3), Expire 2, Expire 1, Wake] (example_start 5) = Some s"
    "fb_outcome s = Some (Thrown quorum_not_met)" "map r_result (fb_running s) = [Some (big 1), Some (big 2), Some (big 3), None, None]"
    using abandoned_run by auto
  have "None \<in> set (map r_result (fb_running s))" by (simp add: s(3))
  then obtain r where r: "r \<in> set (fb_running s)" "r_result r = None" by auto
  have reach: "reach (fb_initial (replicate 5 defaultConfig) (-2)) (fb_step any_order (\<lambda>_ xs. xs) R_networkId) s"
    using s(1) by (rule example_reach)
  moreover have "r_perform r" using fb.reach_inv [OF reach] r by (simp add: fb_base_def)
  ultimately show ?thesis using s(2) r by blast
qed

section \<open>The block number\<close>

lemma number_of_answer_Failure [simp]: "number_of_answer (Some (Failure e)) = Inl (CoreError INVALID_ARGUMENT ''invalid numeric value'')"
  by simp

text \<open>One error among the answers makes the block number throw, whatever the others agree on.\<close>

lemma fuzzy_tally_Failure: "r \<in> set rs \<Longrightarrow> answered r = Failure e \<Longrightarrow> \<exists>err. fuzzy_tally rs t = Inl err"
proof (induction rs arbitrary: t)
  case (Cons a rs)
  then show ?case by (cases "number_of_answer (Some (answered a))") auto
qed simp

lemma getFuzzyMode_Failure:
  "q \<noteq> 1 \<Longrightarrow> r \<in> set rs \<Longrightarrow> answered r = Failure e \<Longrightarrow> \<exists>err. getFuzzyMode S q rs = Inl err"
  using fuzzy_tally_Failure [of r rs e "[]"] by (auto simp: getFuzzyMode_def)

text \<open>The weight of the heights within one block of a height.\<close>

definition near_weight :: "(int \<times> int) list \<Rightarrow> int \<Rightarrow> int" where
  "near_weight hs m = sum_list (map snd (filter (\<lambda>h. \<bar>fst h - m\<bar> \<le> 1) hs))"

lemma near_weight_simps [simp]:
  "near_weight [] m = 0" "near_weight (h # hs) m = (if \<bar>fst h - m\<bar> \<le> 1 then snd h else 0) + near_weight hs m"
  by (simp_all add: near_weight_def)

definition near_some :: "(int \<times> int) list \<Rightarrow> int \<Rightarrow> bool" where
  "near_some hs m \<longleftrightarrow> (\<exists>h \<in> set hs. \<bar>fst h - m\<bar> \<le> 1)"

lemma fuzzy_tally_spec:
  "list_all2 (\<lambda>r h. number_of_answer (Some (answered r)) = Inr (fst h) \<and> weight r = snd h) rs hs \<Longrightarrow>
     distinct (map fst t) \<Longrightarrow>
     \<exists>t'. fuzzy_tally rs t = Inr t' \<and> distinct (map fst t') \<and>
       (\<forall>m. map_of t' m =
          (case map_of t m of
             Some (k, w) \<Rightarrow> Some (k, w + near_weight hs m)
           | None \<Rightarrow> if near_some hs m then Some (m, near_weight hs m) else None))"
proof (induction rs arbitrary: hs t)
  case (Cons r rs)
  then obtain n w hs' where h: "hs = (n, w) # hs'" "number_of_answer (Some (answered r)) = Inr n" "weight r = w"
    "list_all2 (\<lambda>r h. number_of_answer (Some (answered r)) = Inr (fst h) \<and> weight r = snd h) rs hs'"
    by (cases hs) auto
  define t1 where "t1 = tally_add (n + 1) (n + 1) w (tally_add n n w (tally_add (n - 1) (n - 1) w t))"
  have "distinct (map fst t1)" using Cons.prems(2) by (simp add: t1_def distinct_tally_add)
  from Cons.IH [OF h(4) this] obtain t' where t': "fuzzy_tally rs t1 = Inr t'" "distinct (map fst t')"
    "\<And>m. map_of t' m = (case map_of t1 m of Some (k, w) \<Rightarrow> Some (k, w + near_weight hs' m)
       | None \<Rightarrow> if near_some hs' m then Some (m, near_weight hs' m) else None)" by blast
  have none: "near_weight hs' m = 0" if "\<not> near_some hs' m" for m
  proof -
    have "filter (\<lambda>h. \<bar>fst h - m\<bar> \<le> 1) hs' = []" using that by (auto simp: near_some_def filter_empty_conv)
    then show ?thesis by (simp add: near_weight_def)
  qed
  have m1: "map_of t1 m = (if \<bar>n - m\<bar> \<le> 1 then (case map_of t m of Some (k, v) \<Rightarrow> Some (k, v + w) | None \<Rightarrow> Some (m, w)) else map_of t m)" for m
  proof -
    consider "m = n - 1" | "m = n" | "m = n + 1" | "\<bar>n - m\<bar> > 1" by linarith
    then show ?thesis by cases (auto simp: t1_def map_of_tally_add split: option.splits)
  qed
  have "map_of t' m =
      (case map_of t m of Some (k, w) \<Rightarrow> Some (k, w + near_weight hs m)
       | None \<Rightarrow> if near_some hs m then Some (m, near_weight hs m) else None)" for m
    using none [of m] by (auto simp: t'(3) m1 h(1) near_some_def split: option.splits)
  then show ?case using t'(1,2) h(2,3) by (auto simp: t1_def)
qed (auto simp: near_some_def split: option.splits)

definition outdone :: "int \<times> int \<Rightarrow> int \<times> int \<Rightarrow> bool" where
  "outdone b m \<longleftrightarrow> snd b < snd m \<or> snd b = snd m \<and> fst b \<le> fst m"

lemma fuzzy_better_fold:
  "foldl (fuzzy_better q) (Some b, w) t = r \<Longrightarrow> q \<le> w \<Longrightarrow>
     \<exists>m v. r = (Some m, v) \<and> ((b, w) = (m, v) \<or> (\<exists>k. (k, m, v) \<in> set t)) \<and> q \<le> v \<and> outdone (b, w) (m, v) \<and>
       (\<forall>k m' w'. (k, m', w') \<in> set t \<longrightarrow> q \<le> w' \<longrightarrow> outdone (m', w') (m, v))"
proof (induction t arbitrary: b w)
  case Nil
  then show ?case by (auto simp: outdone_def)
next
  case (Cons e t)
  obtain k m0 w0 where e: "e = (k, m0, w0)" by (cases e)
  show ?case
  proof (cases "q \<le> w0 \<and> (w < w0 \<or> w0 = w \<and> b < m0)")
    case True
    then have "fuzzy_better q (Some b, w) e = (Some m0, w0)" by (auto simp: fuzzy_better_def e)
    then have "foldl (fuzzy_better q) (Some m0, w0) t = r" using Cons.prems(1) by simp
    from Cons.IH [OF this] True obtain m v where "r = (Some m, v)" "(m0, w0) = (m, v) \<or> (\<exists>k. (k, m, v) \<in> set t)" "q \<le> v"
      "outdone (m0, w0) (m, v)" "\<And>k m' w'. (k, m', w') \<in> set t \<Longrightarrow> q \<le> w' \<Longrightarrow> outdone (m', w') (m, v)" by blast
    then show ?thesis using True by (auto simp: e outdone_def)
  next
    case False
    then have "fuzzy_better q (Some b, w) e = (Some b, w)" by (auto simp: fuzzy_better_def e)
    then have "foldl (fuzzy_better q) (Some b, w) t = r" using Cons.prems(1) by simp
    from Cons.IH [OF this Cons.prems(2)] obtain m v where "r = (Some m, v)" "(b, w) = (m, v) \<or> (\<exists>k. (k, m, v) \<in> set t)" "q \<le> v"
      "outdone (b, w) (m, v)" "\<And>k m' w'. (k, m', w') \<in> set t \<Longrightarrow> q \<le> w' \<Longrightarrow> outdone (m', w') (m, v)" by blast
    then show ?thesis using False Cons.prems(2) by (auto simp: e outdone_def)
  qed
qed

lemma fuzzy_fold:
  assumes "0 < q"
  shows "case fst (foldl (fuzzy_better q) (None, 0) t) of
     None \<Rightarrow> \<forall>k m w. (k, m, w) \<in> set t \<longrightarrow> w < q
   | Some m \<Rightarrow> \<exists>k w. (k, m, w) \<in> set t \<and> q \<le> w \<and> (\<forall>k' m' w'. (k', m', w') \<in> set t \<longrightarrow> q \<le> w' \<longrightarrow> outdone (m', w') (m, w))"
proof (induction t)
  case (Cons e t)
  obtain k m0 w0 where e: "e = (k, m0, w0)" by (cases e)
  show ?case
  proof (cases "q \<le> w0")
    case True
    then have f: "fuzzy_better q (None, 0) e = (Some m0, w0)" using assms by (auto simp: fuzzy_better_def e)
    obtain m v where "foldl (fuzzy_better q) (Some m0, w0) t = (Some m, v)"
      "(m0, w0) = (m, v) \<or> (\<exists>k. (k, m, v) \<in> set t)" "q \<le> v" "outdone (m0, w0) (m, v)"
      "\<And>k m' w'. (k, m', w') \<in> set t \<Longrightarrow> q \<le> w' \<Longrightarrow> outdone (m', w') (m, v)"
      using fuzzy_better_fold [OF refl True, of m0 t] by blast
    then have "foldl (fuzzy_better q) (None, 0) (e # t) = (Some m, v)" "\<exists>k. (k, m, v) \<in> set (e # t)" "q \<le> v"
      "\<forall>k' m' w'. (k', m', w') \<in> set (e # t) \<longrightarrow> q \<le> w' \<longrightarrow> outdone (m', w') (m, v)"
      using f by (auto simp: e)
    then show ?thesis by (simp only: fst_conv option.case) blast
  next
    case False
    then have "fuzzy_better q (None, 0) e = (None, 0)" by (auto simp: fuzzy_better_def e)
    then show ?thesis using Cons False by (auto simp: e split: option.splits)
  qed
qed simp

text \<open>
  The block number's mode. For a quorum above one, \<open>getFuzzyMode\<close> of numeric answers
  is the height with the greatest weight of answers at most one block away, the
  highest of those that tie, and it is undefined exactly when no such weight meets
  the quorum.
\<close>

theorem getFuzzyMode_mode:
  assumes "list_all2 (\<lambda>r h. number_of_answer (Some (answered r)) = Inr (fst h) \<and> weight r = snd h) rs hs" and "1 < q"
  shows "\<exists>mode. getFuzzyMode S q rs = Inr mode \<and>
    (case mode of
       None \<Rightarrow> \<forall>m. near_weight hs m < q
     | Some m \<Rightarrow> q \<le> near_weight hs m \<and>
         (\<forall>m'. near_weight hs m' < near_weight hs m \<or> near_weight hs m' = near_weight hs m \<and> m' \<le> m))"
proof -
  obtain t where t: "fuzzy_tally rs [] = Inr t" "distinct (map fst t)"
    "\<And>m. map_of t m = (if near_some hs m then Some (m, near_weight hs m) else None)"
    using fuzzy_tally_spec [OF assms(1), of "[]"] by auto
  have far: "near_weight hs m = 0" if "\<not> near_some hs m" for m
  proof -
    have "filter (\<lambda>h. \<bar>fst h - m\<bar> \<le> 1) hs = []" using that by (auto simp: near_some_def filter_empty_conv)
    then show ?thesis by (simp add: near_weight_def)
  qed
  have set_t: "(k, m, w) \<in> set t \<longleftrightarrow> k = m \<and> near_some hs m \<and> w = near_weight hs m" for k m w
    using t(3) [of k] map_of_eq_Some_iff [OF t(2), of k "(m, w)"] by (auto split: if_splits)
  have "getFuzzyMode S q rs = Inr (fst (foldl (fuzzy_better q) (None, 0) t))"
    using assms(2) t(1) by (simp add: getFuzzyMode_def)
  moreover have "case fst (foldl (fuzzy_better q) (None, 0) t) of
       None \<Rightarrow> \<forall>m. near_weight hs m < q
     | Some m \<Rightarrow> q \<le> near_weight hs m \<and>
         (\<forall>m'. near_weight hs m' < near_weight hs m \<or> near_weight hs m' = near_weight hs m \<and> m' \<le> m)"
  proof (cases "fst (foldl (fuzzy_better q) (None, 0) t)")
    case None
    have "near_weight hs m < q" for m
      using fuzzy_fold [of q t] None assms(2) far [of m] by (cases "near_some hs m") (auto simp: set_t)
    with None show ?thesis by simp
  next
    case (Some m)
    then have m: "q \<le> near_weight hs m" "\<And>m'. near_some hs m' \<Longrightarrow> q \<le> near_weight hs m' \<Longrightarrow> outdone (m', near_weight hs m') (m, near_weight hs m)"
      using fuzzy_fold [of q t] assms(2) by (auto simp: set_t)
    have "near_weight hs m' < near_weight hs m \<or> near_weight hs m' = near_weight hs m \<and> m' \<le> m" for m'
      using m(2) [of m'] m(1) far [of m'] assms(2) by (cases "near_some hs m'") (force simp: outdone_def)+
    with Some m(1) show ?thesis by simp
  qed
  ultimately show ?thesis by blast
qed

theorem getFuzzyMode_mode_witness:
  "\<exists>m. getFuzzyMode (\<lambda>_ xs. xs) 2
     [\<lparr>tag = ''100'', answered = big 100, weight = 1\<rparr>, \<lparr>tag = ''102'', answered = big 102, weight = 1\<rparr>] = Inr (Some m) \<and> m = 101"
proof -
  have "list_all2 (\<lambda>r h. number_of_answer (Some (answered r)) = Inr (fst h) \<and> weight r = snd h)
     [\<lparr>tag = ''100'', answered = big 100, weight = 1\<rparr>, \<lparr>tag = ''102'', answered = big 102, weight = 1\<rparr>] [(100, 1), (102, 1)]"
    by (simp add: big_def safe_range_def maxValue_def)
  from getFuzzyMode_mode [OF this, of 2 "\<lambda>_ xs. xs"] obtain mode where mode: "getFuzzyMode (\<lambda>_ xs. xs) 2
     [\<lparr>tag = ''100'', answered = big 100, weight = 1\<rparr>, \<lparr>tag = ''102'', answered = big 102, weight = 1\<rparr>] = Inr mode"
    "case mode of None \<Rightarrow> \<forall>m. near_weight [(100, 1), (102, 1)] m < 2
     | Some m \<Rightarrow> 2 \<le> near_weight [(100, 1), (102, 1)] m \<and>
         (\<forall>m'. near_weight [(100, 1), (102, 1)] m' < near_weight [(100, 1), (102, 1)] m \<or>
               near_weight [(100, 1), (102, 1)] m' = near_weight [(100, 1), (102, 1)] m \<and> m' \<le> m)" by auto
  have "\<not> near_weight [(100, 1), (102, 1)] 101 < 2" by simp
  with mode(2) obtain m where "mode = Some m" "2 \<le> near_weight [(100, 1), (102, 1)] m" by (cases mode) (auto simp del: near_weight_simps)
  then show ?thesis using mode(1) by (auto split: if_splits)
qed

section \<open>The median\<close>

text \<open>
  What the language says of \<open>sort\<close>: the result is a permutation, in order when the
  comparison is consistent. The comparison of \<open>getMedian\<close> is not.
\<close>

definition consistent_compare :: "(int \<Rightarrow> int \<Rightarrow> int) \<Rightarrow> bool" where
  "consistent_compare cmp \<longleftrightarrow>
     (\<forall>a b. cmp a b \<le> 0 \<longleftrightarrow> \<not> cmp b a < 0) \<and> (\<forall>a b c. cmp a b \<le> 0 \<longrightarrow> cmp b c \<le> 0 \<longrightarrow> cmp a c \<le> 0)"

definition es_sort :: "js_sort \<Rightarrow> bool" where
  "es_sort S \<longleftrightarrow>
     (\<forall>cmp xs. mset (S cmp xs) = mset xs \<and> (consistent_compare cmp \<longrightarrow> sorted_wrt (\<lambda>x y. cmp x y \<le> 0) (S cmp xs)))"

fun insert_by :: "(int \<Rightarrow> int \<Rightarrow> bool) \<Rightarrow> int \<Rightarrow> int list \<Rightarrow> int list" where
  "insert_by P x [] = [x]"
| "insert_by P x (y # ys) = (if P x y then x # y # ys else y # insert_by P x ys)"

definition sort_by :: "(int \<Rightarrow> int \<Rightarrow> bool) \<Rightarrow> int list \<Rightarrow> int list" where
  "sort_by P xs = foldr (insert_by P) xs []"

lemma set_insert_by: "set (insert_by P x xs) = insert x (set xs)"
  by (induction xs) auto

lemma mset_insert_by: "mset (insert_by P x xs) = add_mset x (mset xs)"
  by (induction xs) auto

lemma mset_sort_by: "mset (sort_by P xs) = mset xs"
  by (induction xs) (simp_all add: sort_by_def mset_insert_by)

lemma sorted_insert_by:
  assumes "\<And>a b. P a b \<or> P b a" and "\<And>a b c. P a b \<Longrightarrow> P b c \<Longrightarrow> P a c"
  shows "sorted_wrt P xs \<Longrightarrow> sorted_wrt P (insert_by P x xs)"
  using assms by (induction xs) (auto simp: set_insert_by)

lemma sorted_sort_by:
  assumes "consistent_compare cmp"
  shows "sorted_wrt (\<lambda>x y. cmp x y \<le> 0) (sort_by (\<lambda>x y. cmp x y \<le> 0) xs)"
proof (induction xs)
  case (Cons x xs)
  have c: "\<And>a b. cmp a b \<le> 0 \<longleftrightarrow> \<not> cmp b a < 0" "\<And>a b c. cmp a b \<le> 0 \<Longrightarrow> cmp b c \<le> 0 \<Longrightarrow> cmp a c \<le> 0"
    using assms unfolding consistent_compare_def by blast+
  have "cmp a b \<le> 0 \<or> cmp b a \<le> 0" for a b using c(1) [of a b] by linarith
  then have "sorted_wrt (\<lambda>x y. cmp x y \<le> 0) (insert_by (\<lambda>x y. cmp x y \<le> 0) x (sort_by (\<lambda>x y. cmp x y \<le> 0) xs))"
    by (rule sorted_insert_by [OF _ _ Cons.IH]) (rule c(2))
  then show ?case by (simp add: sort_by_def)
qed (simp add: sort_by_def)

text \<open>Two ways to sort by a comparison: by "not after", and by "not before" of the other.\<close>

definition sort_le :: js_sort where
  "sort_le cmp = sort_by (\<lambda>x y. cmp x y \<le> 0)"

definition sort_lt :: js_sort where
  "sort_lt cmp = sort_by (\<lambda>x y. \<not> cmp y x < 0)"

lemma es_sort_le: "es_sort sort_le"
  by (simp add: es_sort_def sort_le_def mset_sort_by sorted_sort_by)

lemma es_sort_lt: "es_sort sort_lt"
proof -
  have "sort_lt cmp = sort_le cmp" if "consistent_compare cmp" for cmp
    using that by (intro ext) (simp add: sort_lt_def sort_le_def consistent_compare_def)
  then show ?thesis using es_sort_le by (simp add: es_sort_def sort_lt_def mset_sort_by)
qed

definition three_prices :: "tally_result list" where
  "three_prices = map (\<lambda>n. \<lparr>tag = int_toString 10 n, answered = big n, weight = 1\<rparr>) [3, 1, 2]"

lemma median_depends_on_sort:
  "getMedian sort_lt 2 three_prices = Inr (Some (big 2))" "getMedian sort_le 2 three_prices = Inr (Some (big 1))"
  by (simp_all add: getMedian_def three_prices_def median_init_def median_step_def big_def sort_lt_def sort_le_def
      sort_by_def median_compare_def median_of_def Let_def)

text \<open>Two errors without enumerable properties have the same tag, whatever they say.\<close>

lemma errors_agree: "normalizeResult (Failure \<lparr>err_message = m, err_props = []\<rparr>) = normalizeResult (Failure \<lparr>err_message = m', err_props = []\<rparr>)"
  by simp

text \<open>A failed first synchronisation is kept for good.\<close>

lemma initialSync_stuck: "fst (initialSync (Inl e) None) = Some (Inl e)" "snd (initialSync attempt (Some (Inl e))) = Inl e"
  by (simp_all add: initialSync_def Let_def)

lemma unsupported_result:
  "tally_runners cs rs = Inr results \<Longrightarrow> q \<le> foldl (\<lambda>a r. a + weight r) 0 results \<Longrightarrow>
     runner_quorum S q (R_getTransactionResult h) cs rs ht = Inl (CoreError UNSUPPORTED_OPERATION ''unsupported method'')"
  by (simp add: runner_quorum_def)

end
