(* ===== verification/Jsonrpc.thy ===== *)
theory Jsonrpc
  imports Machine Requests Address Fallback
begin

text \<open>
  \<open>src.ts/providers/provider-jsonrpc.ts\<close>: the translation of requests and transactions
  to JSON-RPC, the classification of the errors that come back, and the queue that
  \<open>JsonRpcApiProvider.send\<close> fills and a timer drains in batches.
\<close>

section \<open>Requests\<close>

definition getLowerCase :: "string \<Rightarrow> string" where
  "getLowerCase value = map to_lower value"

definition rpc_quantity :: "(string \<times> js_data) list \<Rightarrow> string \<Rightarrow> (string \<times> string) list result" where
  "rpc_quantity tx key =
     (case map_of tx key of
        None \<Rightarrow> Inr []
      | Some v \<Rightarrow>
          bindE (getBigInt v) (\<lambda>n. bindE (toQuantity (DBig n)) (\<lambda>q.
            Inr [(if key = ''energyLimit'' then ''energy'' else key, q)])))"

definition rpc_data :: "(string \<times> js_data) list \<Rightarrow> string \<Rightarrow> (string \<times> string) list result" where
  "rpc_data tx key =
     (case map_of tx key of
        None \<Rightarrow> Inr []
      | Some v \<Rightarrow> mapE (\<lambda>h. [(key, h)]) (hexlify v no_options))"

definition getRpcTransaction :: "(string \<times> js_data) list \<Rightarrow> (string \<times> string) list result" where
  "getRpcTransaction tx =
     bindE (mapM (rpc_quantity tx) [''networkId'', ''energyLimit'', ''energyPrice'', ''type'', ''nonce'', ''value'']) (\<lambda>qs.
     bindE (mapM (rpc_data tx) [''from'', ''to'', ''data'']) (\<lambda>ds.
       Inr (concat qs @ concat ds)))"

datatype rpc_arg = A_str string | A_bool bool | A_tx "(string \<times> string) list" | A_filter perform_filter

definition lower_filter :: "perform_filter \<Rightarrow> perform_filter" where
  "lower_filter f =
     (case pf_address f of
        None \<Rightarrow> f
      | Some (One a) \<Rightarrow> f\<lparr>pf_address := Some (One (getLowerCase a))\<rparr>
      | Some (Many as) \<Rightarrow> f\<lparr>pf_address := Some (Many (map getLowerCase as))\<rparr>)"

fun getRpcRequest :: "perform_request \<Rightarrow> (string \<times> rpc_arg list) option result" where
  "getRpcRequest R_networkId = Inr (Some (''xcb_networkId'', []))"
| "getRpcRequest R_getBlockNumber = Inr (Some (''xcb_blockNumber'', []))"
| "getRpcRequest R_getEnergyPrice = Inr (Some (''xcb_energyPrice'', []))"
| "getRpcRequest (R_getBalance a t) = Inr (Some (''xcb_getBalance'', [A_str (getLowerCase a), A_str t]))"
| "getRpcRequest (R_getTransactionCount a t) = Inr (Some (''xcb_getTransactionCount'', [A_str (getLowerCase a), A_str t]))"
| "getRpcRequest (R_getCode a t) = Inr (Some (''xcb_getCode'', [A_str (getLowerCase a), A_str t]))"
| "getRpcRequest (R_getStorage a p t) =
     Inr (Some (''xcb_getStorageAt'', [A_str (getLowerCase a), A_str (''0x'' @ int_toString 16 p), A_str t]))"
| "getRpcRequest (R_broadcastTransaction s) = Inr (Some (''xcb_sendRawTransaction'', [A_str s]))"
| "getRpcRequest (R_getBlock_tag t b) = Inr (Some (''xcb_getBlockByNumber'', [A_str t, A_bool b]))"
| "getRpcRequest (R_getBlock_hash h b) = Inr (Some (''xcb_getBlockByHash'', [A_str h, A_bool b]))"
| "getRpcRequest (R_getTransaction h) = Inr (Some (''xcb_getTransactionByHash'', [A_str h]))"
| "getRpcRequest (R_getTransactionReceipt h) = Inr (Some (''xcb_getTransactionReceipt'', [A_str h]))"
| "getRpcRequest (R_call tx t) = mapE (\<lambda>r. Some (''xcb_call'', [A_tx r, A_str t])) (getRpcTransaction tx)"
| "getRpcRequest (R_estimateEnergy tx) = mapE (\<lambda>r. Some (''xcb_estimateEnergy'', [A_tx r])) (getRpcTransaction tx)"
| "getRpcRequest (R_getLogs f) = Inr (Some (''xcb_getLogs'', [A_filter (lower_filter f)]))"
| "getRpcRequest (R_getTransactionResult _) = Inr None"

text \<open>\<open>_perform\<close>: what is sent, or the refusal of the super class.\<close>

definition rpc_perform :: "perform_request \<Rightarrow> (string \<times> rpc_arg list) result" where
  "rpc_perform req =
     bindE (getRpcRequest req) (\<lambda>r.
       case r of
         Some request \<Rightarrow> Inr request
       | None \<Rightarrow> Inl (CoreError UNSUPPORTED_OPERATION ''unsupported method''))"

section \<open>Errors\<close>

text \<open>A search for a fixed text, and for one text somewhere after another on the same line, case aside.\<close>

definition mentions :: "string \<Rightarrow> string \<Rightarrow> bool" where
  "mentions s p \<longleftrightarrow> (\<exists>i \<le> length s. starts_with (drop i (map to_lower s)) p)"

definition mentions_then :: "string \<Rightarrow> string \<Rightarrow> string \<Rightarrow> bool" where
  "mentions_then s p q \<longleftrightarrow>
     (\<exists>i \<le> length s. \<exists>j \<le> length s. i + length p \<le> j \<and> starts_with (drop i (map to_lower s)) p \<and>
        starts_with (drop j (map to_lower s)) q \<and>
        (\<forall>k < j. i + length p \<le> k \<longrightarrow> (of_char (s ! k) :: nat) \<notin> {10, 13}))"

datatype rpc_failure =
    RpcError error
  | RpcRejected string
  | RpcCallException string

definition rpc_action :: "string \<Rightarrow> string" where
  "rpc_action method =
     (case map_of [(''xcb_sign'', ''signMessage''), (''personal_sign'', ''signMessage''), (''xcb_signTypedData_v4'', ''signTypedData''),
        (''xcb_signTransaction'', ''signTransaction''), (''xcb_sendTransaction'', ''sendTransaction''),
        (''xcb_requestAccounts'', ''requestAccess''), (''wallet_requestAccounts'', ''requestAccess'')] method of
        Some a \<Rightarrow> a
      | None \<Rightarrow> ''unknown'')"

text \<open>
  \<open>getRpcError\<close>, of the method, the error's own message when it has one, and the
  messages found inside it as one text. The exception of a failed call is made by the
  ABI coder.
\<close>

definition getRpcError :: "string \<Rightarrow> string option \<Rightarrow> string \<Rightarrow> rpc_failure" where
  "getRpcError method own message =
     (if method = ''xcb_estimateEnergy'' \<and>
         (case own of Some m \<Rightarrow> m \<noteq> [] \<and> \<not> mentions m ''revert'' \<and> mentions m ''insufficient funds'' | None \<Rightarrow> False)
      then RpcError (CoreError INSUFFICIENT_FUNDS ''insufficient funds'')
      else if method = ''xcb_call'' \<or> method = ''xcb_estimateEnergy''
      then RpcCallException (if method = ''xcb_call'' then ''call'' else ''estimateEnergy'')
      else if (case own of Some m \<Rightarrow> mentions m ''user denied'' \<or> mentions m ''corebc-user-denied'' | None \<Rightarrow> False)
      then RpcRejected (rpc_action method)
      else if (method = ''xcb_sendRawTransaction'' \<or> method = ''xcb_sendTransaction'') \<and>
              (mentions message ''insufficient funds'' \<or> mentions message ''base fee exceeds energy limit'')
      then RpcError (CoreError INSUFFICIENT_FUNDS ''insufficient funds for intrinsic transaction cost'')
      else if (method = ''xcb_sendRawTransaction'' \<or> method = ''xcb_sendTransaction'') \<and>
              mentions message ''nonce'' \<and> mentions message ''too low''
      then RpcError (CoreError NONCE_EXPIRED ''nonce has already been used'')
      else if (method = ''xcb_sendRawTransaction'' \<or> method = ''xcb_sendTransaction'') \<and>
              mentions message ''replacement transaction'' \<and> mentions message ''underpriced''
      then RpcError (CoreError REPLACEMENT_UNDERPRICED ''replacement fee too low'')
      else if (method = ''xcb_sendRawTransaction'' \<or> method = ''xcb_sendTransaction'') \<and>
              mentions message ''only replay-protected''
      then RpcError (CoreError UNSUPPORTED_OPERATION ''legacy pre-eip-155 transactions not supported'')
      else if mentions_then message ''the method '' '' does not exist''
      then RpcError (CoreError UNSUPPORTED_OPERATION ''unsupported operation'')
      else RpcError (CoreError UNKNOWN_ERROR ''could not coalesce error''))"

section \<open>Batches\<close>

record rpc_options =
  batchMaxSize :: nat
  batchMaxCount :: nat

definition defaultOptions :: rpc_options where
  "defaultOptions = \<lparr>batchMaxSize = 2 ^ 20, batchMaxCount = 100\<rparr>"

record rpc_payload =
  p_id :: nat
  p_method :: string
  p_params :: "rpc_arg list"

text \<open>
  \<open>size_of\<close> is the length of the JSON text of a list of payloads, or \<open>None\<close> where
  \<open>JSON.stringify\<close> throws (of a \<open>bigint\<close> among the parameters, say). \<open>fill_batch\<close> is
  \<open>None\<close> then.
\<close>

fun fill_batch :: "rpc_options \<Rightarrow> (rpc_payload list \<Rightarrow> nat option) \<Rightarrow> rpc_payload list \<Rightarrow> rpc_payload list \<Rightarrow>
    (rpc_payload list \<times> rpc_payload list) option" where
  "fill_batch opts size_of batch [] = Some (batch, [])"
| "fill_batch opts size_of batch (p # payloads) =
     (if length batch = batchMaxCount opts then Some (batch, p # payloads)
      else case size_of (batch @ [p]) of
             None \<Rightarrow> None
           | Some n \<Rightarrow>
               if n > batchMaxSize opts then Some (batch, p # payloads)
               else fill_batch opts size_of (batch @ [p]) payloads)"

lemma fill_batch_append:
  "fill_batch opts size_of batch ps = Some (b, rest) \<Longrightarrow> b @ rest = batch @ ps \<and> (\<exists>more. b = batch @ more)"
  by (induction opts size_of batch ps rule: fill_batch.induct) (fastforce split: if_splits option.splits)+

lemma fill_batch_shorter: "fill_batch opts size_of batch ps = Some (b, rest) \<Longrightarrow> length rest \<le> length ps"
  by (induction opts size_of batch ps rule: fill_batch.induct) (fastforce split: if_splits option.splits)+

text \<open>
  The batches handed to \<open>_send\<close>, and the payloads a throw loses: those of the batch
  being filled and all that follow it, for the queue was emptied before the loop.
\<close>

function drain_batches :: "rpc_options \<Rightarrow> (rpc_payload list \<Rightarrow> nat option) \<Rightarrow> rpc_payload list \<Rightarrow>
    rpc_payload list list \<times> rpc_payload list" where
  "drain_batches opts size_of [] = ([], [])"
| "drain_batches opts size_of (p # payloads) =
     (case fill_batch opts size_of [p] payloads of
        None \<Rightarrow> ([], p # payloads)
      | Some br \<Rightarrow> (let more = drain_batches opts size_of (snd br) in (fst br # fst more, snd more)))"
  by pat_completeness auto
termination
  by (relation "measure (\<lambda>(_, _, ps). length ps)") (auto simp: le_imp_less_Suc fill_batch_shorter)

section \<open>Replies\<close>

datatype rpc_response = RpcSuccess nat js | RpcFailed nat js

fun resp_id :: "rpc_response \<Rightarrow> nat" where
  "resp_id (RpcSuccess i _) = i"
| "resp_id (RpcFailed i _) = i"

datatype settlement = Resolved js | RejectedMissing | RejectedError js | RejectedThrown

text \<open>
  The loop over a batch: \<open>return reject(...)\<close> leaves the loop, so nothing after the
  first failure is settled.
\<close>

fun settle_loop :: "rpc_response list \<Rightarrow> rpc_payload list \<Rightarrow> (nat \<times> settlement) list" where
  "settle_loop result [] = []"
| "settle_loop result (p # batch) =
     (case find (\<lambda>r. resp_id r = p_id p) result of
        None \<Rightarrow> [(p_id p, RejectedMissing)]
      | Some (RpcFailed _ e) \<Rightarrow> [(p_id p, RejectedError e)]
      | Some (RpcSuccess _ v) \<Rightarrow> (p_id p, Resolved v) # settle_loop result batch)"

text \<open>
  What \<open>_send\<close> gives: a throw, or a list in which a \<open>null\<close> makes reading its \<open>id\<close>
  throw. A throw rejects every payload of the batch.
\<close>

fun settle_batch :: "rpc_response option list option \<Rightarrow> rpc_payload list \<Rightarrow> (nat \<times> settlement) list" where
  "settle_batch None batch = map (\<lambda>p. (p_id p, RejectedThrown)) batch"
| "settle_batch (Some result) batch =
     (if None \<in> set result then map (\<lambda>p. (p_id p, RejectedThrown)) batch
      else settle_loop (map the result) batch)"

section \<open>The queue\<close>

text \<open>
  \<open>q_notReady\<close> is whether \<open>#notReady\<close> is still set. Two fields only record: the identifiers
  used to detect the network before the provider was ready, and the requests that will
  never be settled, each with its batch, the loop over which was left, or with all the
  payloads that were lost with it to a throw.
\<close>

datatype abandoned = LoopLeft "rpc_payload list" | TextThrew "rpc_payload list"

record rpc_state =
  q_nextId :: nat
  q_notReady :: bool
  q_payloads :: "rpc_payload list"
  q_drainTimer :: bool
  q_sent :: "rpc_payload list list"
  q_settled :: "(nat \<times> settlement) list"
  q_detect :: "nat list"
  q_abandoned :: "(nat \<times> abandoned) list"

definition new_rpc_state :: rpc_state where
  "new_rpc_state = \<lparr>q_nextId = 1, q_notReady = True, q_payloads = [], q_drainTimer = False, q_sent = [], q_settled = [],
     q_detect = [], q_abandoned = []\<rparr>"

definition scheduleDrain :: "rpc_state \<Rightarrow> rpc_state" where
  "scheduleDrain s = (if q_drainTimer s then s else s\<lparr>q_drainTimer := True\<rparr>)"

definition rpc_send :: "string \<Rightarrow> rpc_arg list \<Rightarrow> rpc_state \<Rightarrow> rpc_state" where
  "rpc_send method params s =
     scheduleDrain (s\<lparr>q_nextId := q_nextId s + 1,
       q_payloads := q_payloads s @ [\<lparr>p_id = q_nextId s, p_method = method, p_params = params\<rparr>]\<rparr>)"

definition drain :: "rpc_options \<Rightarrow> (rpc_payload list \<Rightarrow> nat option) \<Rightarrow> rpc_state \<Rightarrow> rpc_state" where
  "drain opts size_of s =
     (let (batches, lost) = drain_batches opts size_of (q_payloads s)
      in s\<lparr>q_drainTimer := False, q_payloads := [], q_sent := q_sent s @ batches,
           q_abandoned := q_abandoned s @ map (\<lambda>p. (p_id p, TextThrew lost)) lost\<rparr>)"

definition reply :: "nat \<Rightarrow> rpc_response option list option \<Rightarrow> rpc_state \<Rightarrow> rpc_state" where
  "reply i result s =
     (let batch = q_sent s ! i; settled = settle_batch result batch
      in s\<lparr>q_sent := take i (q_sent s) @ drop (Suc i) (q_sent s),
           q_settled := q_settled s @ settled,
           q_abandoned := q_abandoned s @ map (\<lambda>p. (p_id p, LoopLeft batch)) (drop (length settled) batch)\<rparr>)"

text \<open>\<open>_detectNetwork\<close> of a provider that is not ready sends its own payload, outside the queue.\<close>

definition detect_network :: "rpc_state \<Rightarrow> rpc_state" where
  "detect_network s = s\<lparr>q_nextId := q_nextId s + 1, q_detect := q_detect s @ [q_nextId s]\<rparr>"

text \<open>
  \<open>_start\<close> makes the provider ready; once the network is known it schedules a drain.
  The detection of a ready provider uses \<open>send\<close>. \<open>accept\<close> restricts what a server
  answers to a batch.
\<close>

inductive rpc_step ::
    "rpc_options \<Rightarrow> (rpc_payload list \<Rightarrow> nat option) \<Rightarrow> (rpc_response option list option \<Rightarrow> rpc_payload list \<Rightarrow> bool) \<Rightarrow>
     rpc_state \<Rightarrow> rpc_state \<Rightarrow> bool" for opts size_of accept where
  rpc_sends: "rpc_step opts size_of accept s (rpc_send m ps s)"
| rpc_detects: "q_notReady s \<Longrightarrow> rpc_step opts size_of accept s (detect_network s)"
| rpc_starts: "q_notReady s \<Longrightarrow> rpc_step opts size_of accept s (s\<lparr>q_notReady := False\<rparr>)"
| rpc_boots: "\<not> q_notReady s \<Longrightarrow> rpc_step opts size_of accept s (scheduleDrain s)"
| rpc_drains: "q_drainTimer s \<Longrightarrow> rpc_step opts size_of accept s (drain opts size_of s)"
| rpc_replies: "i < length (q_sent s) \<Longrightarrow> accept result (q_sent s ! i) \<Longrightarrow>
     rpc_step opts size_of accept s (reply i result s)"

section \<open>Batches\<close>

lemma concat_drain:
  "concat (fst (drain_batches opts size_of ps)) @ snd (drain_batches opts size_of ps) = ps"
proof (induction opts size_of ps rule: drain_batches.induct)
  case (2 opts size_of p ps)
  show ?case
  proof (cases "fill_batch opts size_of [p] ps")
    case (Some br)
    then have "fst br @ snd br = p # ps" using fill_batch_append [of opts size_of "[p]" ps "fst br" "snd br"] by simp
    then show ?thesis using "2.IH" [OF Some] Some by (simp add: Let_def)
  qed simp
qed simp

text \<open>Nothing is lost unless some JSON text cannot be made.\<close>

lemma fill_batch_total: "\<forall>ps. size_of ps \<noteq> None \<Longrightarrow> fill_batch opts size_of batch ps \<noteq> None"
proof (induction opts size_of batch ps rule: fill_batch.induct)
  case (2 opts size_of batch p payloads)
  then obtain n where "size_of (batch @ [p]) = Some n" by blast
  with 2 show ?case by simp
qed simp

lemma drain_batches_lost: "\<forall>ps. size_of ps \<noteq> None \<Longrightarrow> snd (drain_batches opts size_of ps) = []"
  by (induction opts size_of ps rule: drain_batches.induct)
    (auto split: option.splits simp: Let_def fill_batch_total)

lemma fill_batch_throws: "fill_batch opts size_of batch ps = None \<Longrightarrow> \<exists>k. size_of (batch @ take k ps) = None"
proof (induction opts size_of batch ps rule: fill_batch.induct)
  case (2 opts size_of batch p payloads)
  show ?case
  proof (cases "size_of (batch @ [p])")
    case None
    then show ?thesis by (intro exI [of _ 1]) simp
  next
    case (Some n)
    with 2 obtain k where "size_of ((batch @ [p]) @ take k payloads) = None" by (auto split: if_splits)
    then show ?thesis by (intro exI [of _ "Suc k"]) simp
  qed
qed simp

lemma drain_batches_throws:
  "snd (drain_batches opts size_of ps) \<noteq> [] \<Longrightarrow> \<exists>k. size_of (take k (snd (drain_batches opts size_of ps))) = None"
proof (induction opts size_of ps rule: drain_batches.induct)
  case (2 opts size_of p ps)
  show ?case
  proof (cases "fill_batch opts size_of [p] ps")
    case None
    from fill_batch_throws [OF this] obtain k where "size_of ([p] @ take k ps) = None" by blast
    then show ?thesis using None by (intro exI [of _ "Suc k"]) simp
  qed (use 2 in \<open>simp add: Let_def\<close>)
qed simp

lemma fill_batch_spec:
  "fill_batch opts size_of batch ps = Some (b, rest) \<Longrightarrow> batch \<noteq> [] \<Longrightarrow>
     (length batch \<le> batchMaxCount opts \<longrightarrow> length b \<le> batchMaxCount opts) \<and>
     (b = batch \<or> (\<exists>n \<le> batchMaxSize opts. size_of b = Some n)) \<and>
     (rest = [] \<or> length b = batchMaxCount opts \<or> (\<exists>n > batchMaxSize opts. size_of (b @ [hd rest]) = Some n))"
  by (induction opts size_of batch ps rule: fill_batch.induct) (auto split: if_splits option.splits)

text \<open>A batch is as the constraints ask, and could not have taken the payload after it.\<close>

definition batch_ok :: "rpc_options \<Rightarrow> (rpc_payload list \<Rightarrow> nat option) \<Rightarrow> rpc_payload list \<Rightarrow> bool" where
  "batch_ok opts size_of b \<longleftrightarrow>
     b \<noteq> [] \<and> length b \<le> batchMaxCount opts \<and>
     (length b = 1 \<or> (case size_of b of Some n \<Rightarrow> n \<le> batchMaxSize opts | None \<Rightarrow> False))"

fun batches_full :: "rpc_options \<Rightarrow> (rpc_payload list \<Rightarrow> nat option) \<Rightarrow> rpc_payload list list \<Rightarrow> bool" where
  "batches_full opts size_of (b # c # bs) =
     ((length b = batchMaxCount opts \<or> (case size_of (b @ [hd c]) of Some n \<Rightarrow> batchMaxSize opts < n | None \<Rightarrow> False)) \<and>
      batches_full opts size_of (c # bs))"
| "batches_full opts size_of bs = True"

lemma drain_batches_ok:
  "1 \<le> batchMaxCount opts \<Longrightarrow>
     list_all (batch_ok opts size_of) (fst (drain_batches opts size_of ps)) \<and>
     batches_full opts size_of (fst (drain_batches opts size_of ps))"
proof (induction opts size_of ps rule: drain_batches.induct)
  case (2 opts size_of p ps)
  show ?case
  proof (cases "fill_batch opts size_of [p] ps")
    case (Some br)
    obtain b rest where br: "br = (b, rest)" by (rule prod.exhaust)
    note f = Some [unfolded br]
    note s = fill_batch_spec [OF f] fill_batch_append [OF f]
    then have ok: "batch_ok opts size_of b" using "2.prems" by (auto simp: batch_ok_def)
    have IH: "list_all (batch_ok opts size_of) (fst (drain_batches opts size_of rest))"
        "batches_full opts size_of (fst (drain_batches opts size_of rest))"
      using 2 f by simp_all
    have "batches_full opts size_of (b # fst (drain_batches opts size_of rest))"
    proof (cases rest)
      case (Cons q qs)
      show ?thesis
      proof (cases "fill_batch opts size_of [q] qs")
        case (Some cr)
        then have "hd (fst cr) = q" using fill_batch_append [of opts size_of "[q]" qs "fst cr" "snd cr"] by auto
        then show ?thesis using IH(2) s Cons Some by (auto simp: Let_def)
      qed (use Cons in simp)
    qed simp
    then show ?thesis using ok IH(1) f by (simp add: Let_def)
  qed simp
qed simp

end
