(* ===== verification/Jsonrpc_Props.thy ===== *)
theory Jsonrpc_Props
  imports Jsonrpc "HOL-Library.Multiset"
begin

text \<open>
  The request queue of \<open>JsonRpcApiProvider\<close>: batches keep the order of the requests and
  the constraints of the options, every identifier is in one place, and what
  becomes of the requests of a batch one of whose answers is an error.
\<close>

text \<open>
  Batching. Draining the queue cuts it into consecutive batches, in order, each of
  at most \<open>batchMaxCount\<close> payloads and, unless it is a single payload, of at most
  \<open>batchMaxSize\<close> characters; each but the last could not have taken the payload that
  follows it. What the batches leave is lost, and nothing is where every JSON text
  can be made.
\<close>

theorem drain_batches_cut:
  assumes "1 \<le> batchMaxCount opts" and "drain_batches opts size_of ps = (bs, lost)"
  shows "concat bs @ lost = ps \<and> list_all (batch_ok opts size_of) bs \<and> batches_full opts size_of bs \<and>
    ((\<forall>ps. size_of ps \<noteq> None) \<longrightarrow> lost = [])"
  using concat_drain [of opts size_of ps] drain_batches_ok [OF assms(1), of size_of ps] drain_batches_lost [of size_of opts ps]
  unfolding assms(2) by simp

text \<open>Three of five payloads are sent; the text of the fourth with the fifth cannot be made.\<close>

definition five_payloads :: "rpc_payload list" where
  "five_payloads = map (\<lambda>i. \<lparr>p_id = i, p_method = [], p_params = []\<rparr>) [1, 2, 3, 4, 5]"

definition size_but_five :: "rpc_payload list \<Rightarrow> nat option" where
  "size_but_five ps = (if 5 \<in> set (map p_id ps) then None else Some (length ps))"

lemma five_drained:
  "drain_batches \<lparr>batchMaxSize = 9, batchMaxCount = 3\<rparr> size_but_five five_payloads = ([take 3 five_payloads], drop 3 five_payloads)"
  by code_simp

theorem drain_batches_cut_witness:
  "concat [take 3 five_payloads] @ drop 3 five_payloads = five_payloads \<and>
   batches_full \<lparr>batchMaxSize = 9, batchMaxCount = 3\<rparr> size_but_five [take 3 five_payloads]"
  using drain_batches_cut [OF _ five_drained] by simp

section \<open>The queue\<close>

text \<open>Where an identifier may be.\<close>

definition rpc_ids :: "rpc_state \<Rightarrow> nat list" where
  "rpc_ids s = map p_id (q_payloads s) @ map p_id (concat (q_sent s)) @ map fst (q_settled s) @
     map fst (q_abandoned s) @ q_detect s"

text \<open>The settlements that end the loop over a batch.\<close>

fun ends_loop :: "settlement \<Rightarrow> bool" where
  "ends_loop RejectedMissing = True"
| "ends_loop (RejectedError _) = True"
| "ends_loop _ = False"

text \<open>
  Why a request is abandoned: an earlier request of its batch was rejected, which left the
  loop, or the text of the first payloads lost with it cannot be made.
\<close>

definition blamed :: "(rpc_payload list \<Rightarrow> nat option) \<Rightarrow> rpc_state \<Rightarrow> nat \<times> abandoned \<Rightarrow> bool" where
  "blamed size_of s a \<longleftrightarrow>
     (case snd a of
        LoopLeft batch \<Rightarrow>
          (\<exists>ps p qs r. batch = ps @ p # qs \<and> fst a \<in> set (map p_id qs) \<and> (p_id p, r) \<in> set (q_settled s) \<and> ends_loop r)
      | TextThrew lost \<Rightarrow> fst a \<in> set (map p_id lost) \<and> (\<exists>k. size_of (take k lost) = None))"

text \<open>
  Every identifier given out is in exactly one place, requests in the queue have a
  timer to send them, and what is abandoned has a cause.
\<close>

definition rpc_inv :: "(rpc_payload list \<Rightarrow> nat option) \<Rightarrow> rpc_state \<Rightarrow> bool" where
  "rpc_inv size_of s \<longleftrightarrow> mset (rpc_ids s) = mset [1..<q_nextId s] \<and> 1 \<le> q_nextId s \<and>
     (q_payloads s \<noteq> [] \<longrightarrow> q_drainTimer s) \<and> list_all (blamed size_of s) (q_abandoned s)"

lemma rpc_inv_ids: "rpc_inv size_of s \<Longrightarrow> distinct (rpc_ids s) \<and> set (rpc_ids s) = {1..<q_nextId s}"
  using mset_eq_imp_distinct_iff [of "rpc_ids s" "[1..<q_nextId s]"] mset_eq_setD [of "rpc_ids s" "[1..<q_nextId s]"]
  by (simp add: rpc_inv_def)

lemma scheduleDrain_fields [simp]:
  "q_nextId (scheduleDrain s) = q_nextId s" "q_payloads (scheduleDrain s) = q_payloads s"
  "q_sent (scheduleDrain s) = q_sent s" "q_settled (scheduleDrain s) = q_settled s"
  "q_abandoned (scheduleDrain s) = q_abandoned s" "q_detect (scheduleDrain s) = q_detect s" "q_drainTimer (scheduleDrain s)"
  by (simp_all add: scheduleDrain_def)

lemma settle_loop_spec:
  "\<exists>k \<le> length batch. map fst (settle_loop result batch) = take k (map p_id batch) \<and>
     (k < length batch \<longrightarrow> settle_loop result batch \<noteq> [] \<and> ends_loop (snd (last (settle_loop result batch))))"
proof (induction batch)
  case (Cons p batch)
  then obtain k where k: "k \<le> length batch" "map fst (settle_loop result batch) = take k (map p_id batch)"
      "k < length batch \<longrightarrow> settle_loop result batch \<noteq> [] \<and> ends_loop (snd (last (settle_loop result batch)))" by blast
  show ?case
  proof (cases "find (\<lambda>r. resp_id r = p_id p) result")
    case None
    then show ?thesis by (auto intro!: exI [of _ 1])
  next
    case (Some r)
    then show ?thesis using k by (cases r) (auto intro: exI [of _ 1] exI [of _ "Suc k"])
  qed
qed simp

lemma settle_batch_spec:
  obtains k where "k = length (settle_batch result batch)" and "map fst (settle_batch result batch) = take k (map p_id batch)"
    and "k < length batch \<Longrightarrow> settle_batch result batch \<noteq> [] \<and> ends_loop (snd (last (settle_batch result batch)))"
proof (cases "\<exists>rs. result = Some rs \<and> None \<notin> set rs")
  case True
  then obtain rs where rs: "settle_batch result batch = settle_loop (map the rs) batch" by auto
  obtain k where k: "k \<le> length batch" "map fst (settle_batch result batch) = take k (map p_id batch)"
      "k < length batch \<longrightarrow> settle_batch result batch \<noteq> [] \<and> ends_loop (snd (last (settle_batch result batch)))"
    using settle_loop_spec [of batch "map the rs"] rs by auto
  have "length (map fst (settle_batch result batch)) = k" unfolding k(2) using k(1) by simp
  then have "k = length (settle_batch result batch)" unfolding length_map by (rule sym)
  then show ?thesis using k by (intro that [of k]) simp_all
next
  case False
  then have "settle_batch result batch = map (\<lambda>p. (p_id p, RejectedThrown)) batch" by (cases result) auto
  then show ?thesis using that [of "length batch"] by (simp add: comp_def)
qed

lemma concat_nth: "i < length xss \<Longrightarrow> concat xss = concat (take i xss) @ xss ! i @ concat (drop (Suc i) xss)"
  by (metis concat.simps(2) concat_append id_take_nth_drop)

lemma reply_ids:
  assumes "i < length (q_sent s)"
  shows "mset (rpc_ids (reply i result s)) = mset (rpc_ids s)"
proof -
  obtain k where k: "k = length (settle_batch result (q_sent s ! i))"
      "map fst (settle_batch result (q_sent s ! i)) = take k (map p_id (q_sent s ! i))" by (rule settle_batch_spec)
  have "mset (take k (map p_id (q_sent s ! i))) + mset (drop k (map p_id (q_sent s ! i))) = mset (map p_id (q_sent s ! i))"
    by (metis append_take_drop_id mset_append)
  then show ?thesis
    using concat_nth [OF assms] k by (simp add: rpc_ids_def reply_def Let_def comp_def drop_map ac_simps)
qed

lemma send_ids: "mset (rpc_ids (rpc_send m ps s)) = add_mset (q_nextId s) (mset (rpc_ids s))"
  by (simp add: rpc_ids_def rpc_send_def)

lemma detect_ids: "mset (rpc_ids (detect_network s)) = add_mset (q_nextId s) (mset (rpc_ids s))"
  by (simp add: rpc_ids_def detect_network_def)

lemma drain_ids: "mset (rpc_ids (drain opts size_of s)) = mset (rpc_ids s)"
proof -
  have "map p_id (q_payloads s) = map p_id (concat (fst (drain_batches opts size_of (q_payloads s)))) @
      map p_id (snd (drain_batches opts size_of (q_payloads s)))"
    by (metis concat_drain map_append)
  then show ?thesis by (simp add: rpc_ids_def drain_def case_prod_beta comp_def ac_simps)
qed

lemma settled_reply: "q_settled (reply i result s) = q_settled s @ settle_batch result (q_sent s ! i)"
  by (simp add: reply_def Let_def)

text \<open>What is abandoned stays so, and so do the settlements.\<close>

lemma step_grows:
  "rpc_step opts size_of accept s t \<Longrightarrow>
     set (q_settled s) \<subseteq> set (q_settled t) \<and> set (q_abandoned s) \<subseteq> set (q_abandoned t)"
  by (induction rule: rpc_step.induct) (auto simp: rpc_send_def detect_network_def drain_def reply_def Let_def case_prod_beta)

lemma blamed_mono: "blamed size_of s a \<Longrightarrow> set (q_settled s) \<subseteq> set (q_settled t) \<Longrightarrow> blamed size_of t a"
  by (fastforce simp: blamed_def split: abandoned.splits)

lemma drain_blamed:
  "list_all (blamed size_of t) (map (\<lambda>p. (p_id p, TextThrew (snd (drain_batches opts size_of ps)))) (snd (drain_batches opts size_of ps)))"
proof (cases "snd (drain_batches opts size_of ps) = []")
  case False
  from drain_batches_throws [OF this] show ?thesis by (auto simp: list_all_iff blamed_def)
qed simp

lemma reply_blamed:
  "list_all (blamed size_of (reply i result s)) (q_abandoned s) \<Longrightarrow>
     list_all (blamed size_of (reply i result s)) (q_abandoned (reply i result s))"
proof -
  define b where "b = q_sent s ! i"
  define res where "res = settle_batch result b"
  assume old: "list_all (blamed size_of (reply i result s)) (q_abandoned s)"
  have spec: "map fst res = take (length res) (map p_id b)"
      "length res < length b \<Longrightarrow> res \<noteq> [] \<and> ends_loop (snd (last res))"
    using settle_batch_spec [of result b] unfolding res_def by blast+
  have "blamed size_of (reply i result s) (p_id p, LoopLeft b)" if p: "p \<in> set (drop (length res) b)" for p
  proof -
    have l: "length res < length b" using p by (metis drop_all empty_iff empty_set leI)
    then obtain k where k: "length res = Suc k" using spec(2) by (cases "length res") auto
    have "b = take k b @ b ! k # drop (length res) b" using l k by (simp add: id_take_nth_drop)
    moreover have "fst (last res) = p_id (b ! k)"
      using arg_cong [OF spec(1), of last] spec(2) [OF l] l k by (simp add: last_map take_Suc_conv_app_nth)
    then have "(p_id (b ! k), snd (last res)) \<in> set (q_settled (reply i result s))"
      using last_in_set [of res] spec(2) [OF l] by (metis b_def res_def prod.collapse UnCI set_append settled_reply)
    moreover have "p_id p \<in> set (map p_id (drop (length res) b))" using p by simp
    ultimately show ?thesis using spec(2) [OF l] unfolding blamed_def by (auto simp del: set_map)
  qed
  then show ?thesis using old by (auto simp: reply_def Let_def list_all_iff b_def res_def)
qed

lemma step_rpc_inv:
  assumes step: "rpc_step opts size_of accept s t" and inv: "rpc_inv size_of s"
  shows "rpc_inv size_of t"
proof -
  have old: "list_all (blamed size_of t) (q_abandoned s)"
    using inv step_grows [OF step] by (auto simp: rpc_inv_def list_all_iff intro: blamed_mono)
  from step show ?thesis
  proof cases
    case (rpc_sends m ps)
    then show ?thesis using inv old send_ids [of m ps s]
      by (simp add: rpc_inv_def rpc_send_def del: mset_upt)
  next
    case rpc_detects
    then show ?thesis using inv old detect_ids [of s] by (simp add: rpc_inv_def detect_network_def del: mset_upt)
  next
    case rpc_starts
    then show ?thesis using inv old by (simp add: rpc_inv_def rpc_ids_def)
  next
    case rpc_boots
    then show ?thesis using inv old by (simp add: rpc_inv_def rpc_ids_def)
  next
    case rpc_drains
    then show ?thesis using inv old drain_ids [of opts size_of s] drain_blamed [of size_of t opts "q_payloads s"]
      by (simp add: rpc_inv_def drain_def case_prod_beta)
  next
    case (rpc_replies i result)
    then show ?thesis using inv old reply_ids [of i s result] reply_blamed [of size_of i result s]
      by (simp add: rpc_inv_def reply_def Let_def)
  qed
qed

lemma new_inv: "rpc_inv size_of new_rpc_state"
  by (simp add: rpc_inv_def new_rpc_state_def rpc_ids_def)

interpretation rpc: machine "\<lambda>s. s = new_rpc_state" "rpc_step opts size_of accept" "rpc_inv size_of" for opts size_of accept
  by unfold_locales (use new_inv step_rpc_inv in blast)+

text \<open>A server that answers each payload of a batch but the last with a result, or whose answer is a throw.\<close>

definition answers_all :: "rpc_response option list option \<Rightarrow> rpc_payload list \<Rightarrow> bool" where
  "answers_all result batch \<longleftrightarrow>
     (case result of
        None \<Rightarrow> True
      | Some rs \<Rightarrow> None \<in> set rs \<or>
          (\<forall>p \<in> set (butlast batch). \<exists>i v. find (\<lambda>r. resp_id r = p_id p) (map the rs) = Some (RpcSuccess i v)))"

lemma settle_loop_all:
  "(\<forall>p \<in> set (butlast batch). \<exists>i v. find (\<lambda>r. resp_id r = p_id p) result = Some (RpcSuccess i v)) \<Longrightarrow>
     map fst (settle_loop result batch) = map p_id batch"
proof (induction batch)
  case (Cons p batch)
  show ?case
  proof (cases batch)
    case Nil
    then show ?thesis by (auto split: option.splits rpc_response.splits)
  next
    case (Cons q qs)
    then obtain i v where "find (\<lambda>r. resp_id r = p_id p) result = Some (RpcSuccess i v)" using Cons.prems by auto
    with Cons Cons.prems Cons.IH show ?thesis by simp
  qed
qed simp

lemma settle_batch_all: "answers_all result batch \<Longrightarrow> map fst (settle_batch result batch) = map p_id batch"
  by (cases result) (auto simp: answers_all_def settle_loop_all comp_def)

interpretation rpc_answered: machine "\<lambda>s. s = new_rpc_state"
    "rpc_step opts (\<lambda>ps. Some (len ps)) answers_all" "\<lambda>s. q_abandoned s = []" for opts len
proof unfold_locales
  show "q_abandoned t = []" if "rpc_step opts (\<lambda>ps. Some (len ps)) answers_all s t" and "q_abandoned s = []" for s t
    using that
  proof cases
    case (rpc_replies i result)
    then have "length (settle_batch result (q_sent s ! i)) = length (q_sent s ! i)"
      by (metis length_map settle_batch_all)
    then show ?thesis using rpc_replies(1) that(2) by (simp add: reply_def Let_def)
  next
    case rpc_drains
    then show ?thesis using that(2) by (simp add: drain_def case_prod_beta drain_batches_lost)
  qed (simp_all add: rpc_send_def detect_network_def)
qed (simp add: new_rpc_state_def)

lemma answered_step:
  "rpc_step opts size_of accept s t \<Longrightarrow> \<forall>result batch. accept result batch \<longrightarrow> answers_all result batch \<Longrightarrow>
     rpc_step opts size_of answers_all s t"
  by (induction rule: rpc_step.induct) (auto intro: rpc_step.intros)

text \<open>
  C16. The request queue. Whatever is sent, drained and answered in whatever order,
  each identifier given out is in exactly one place: the queue, a batch under way, the
  settled requests, those spent on detecting the network, or the abandoned ones; queued
  requests have a timer. A request is abandoned, never to be settled, only where an
  earlier request of its batch was rejected for an error answer or for no answer, or
  where the JSON text of the batch being filled could not be made when it was lost; so
  none is if every text can be made and the server answers all but the last payload of
  each batch with a result, or throws.
\<close>

theorem rpc_queue_sound:
  assumes "reach (\<lambda>s. s = new_rpc_state) (rpc_step opts size_of accept) s"
  shows "distinct (rpc_ids s) \<and> set (rpc_ids s) = {1..<q_nextId s} \<and> (q_payloads s \<noteq> [] \<longrightarrow> q_drainTimer s) \<and>
    list_all (blamed size_of s) (q_abandoned s) \<and>
    ((\<forall>result batch. accept result batch \<longrightarrow> answers_all result batch) \<and> (\<forall>ps. size_of ps \<noteq> None) \<longrightarrow>
       q_abandoned s = [])"
proof -
  have inv: "rpc_inv size_of s" using assms by (rule rpc.reach_inv)
  have "q_abandoned s = []" if "\<forall>result batch. accept result batch \<longrightarrow> answers_all result batch" "\<forall>ps. size_of ps \<noteq> None"
  proof -
    have len: "size_of = (\<lambda>ps. Some (the (size_of ps)))" using that(2) by auto
    have "reach (\<lambda>s. s = new_rpc_state) (rpc_step opts size_of answers_all) s"
      using assms by (rule reach_mono) (rule answered_step [OF _ that(1)])
    then show ?thesis by (subst (asm) len) (rule rpc_answered.reach_inv)
  qed
  then show ?thesis using inv rpc_inv_ids [OF inv] by (auto simp: rpc_inv_def)
qed

section \<open>Abandoned requests\<close>

definition json_length :: "rpc_payload list \<Rightarrow> nat option" where
  "json_length ps = Some (length ps)"

definition two_sent :: rpc_state where
  "two_sent = drain defaultOptions json_length (rpc_send ''b'' [] (rpc_send ''a'' [] new_rpc_state))"

lemma reach_two_sent: "reach (\<lambda>s. s = new_rpc_state) (rpc_step defaultOptions json_length accept) two_sent"
proof -
  let ?R = "reach (\<lambda>s. s = new_rpc_state) (rpc_step defaultOptions json_length accept)"
  have "?R new_rpc_state" by (rule reach_initial) (rule refl)
  then have "?R (rpc_send ''a'' [] new_rpc_state)" by (rule reach_step) (rule rpc_sends)
  then have "?R (rpc_send ''b'' [] (rpc_send ''a'' [] new_rpc_state))" by (rule reach_step) (rule rpc_sends)
  then show ?thesis unfolding two_sent_def by (rule reach_step) (rule rpc_drains, simp add: rpc_send_def)
qed

lemma two_sent_eq:
  "q_sent two_sent = [[\<lparr>p_id = 1, p_method = ''a'', p_params = []\<rparr>, \<lparr>p_id = 2, p_method = ''b'', p_params = []\<rparr>]]"
  "q_nextId two_sent = 3" "q_payloads two_sent = []" "q_settled two_sent = []" "q_abandoned two_sent = []" "q_detect two_sent = []"
  by (simp_all add: two_sent_def drain_def rpc_send_def scheduleDrain_def new_rpc_state_def defaultOptions_def json_length_def Let_def)

text \<open>The first is answered with an error, the second with a result.\<close>

definition one_failed :: rpc_state where
  "one_failed = reply 0 (Some [Some (RpcFailed 1 JNull), Some (RpcSuccess 2 JNull)]) two_sent"

lemma one_failed_eq:
  "rpc_ids one_failed = [1, 2]" "q_settled one_failed = [(1, RejectedError JNull)]" "q_abandoned one_failed = [(2, LoopLeft (hd (q_sent two_sent)))]"
  "q_nextId one_failed = 3"
  by (simp_all add: one_failed_def reply_def two_sent_eq rpc_ids_def)

lemma reach_one_failed: "reach (\<lambda>s. s = new_rpc_state) (rpc_step defaultOptions json_length (\<lambda>_ _. True)) one_failed"
  using reach_two_sent unfolding one_failed_def by (rule reach_step) (rule rpc_replies, simp_all add: two_sent_eq)

theorem rpc_queue_sound_witness:
  "distinct (rpc_ids one_failed) \<and> set (rpc_ids one_failed) = {1..<3} \<and> list_all (blamed json_length one_failed) [(2, LoopLeft (hd (q_sent two_sent)))] \<and>
   q_abandoned two_sent = []"
  using rpc_queue_sound [OF reach_one_failed] rpc_queue_sound [OF reach_two_sent [of answers_all]]
  by (simp add: one_failed_eq two_sent_eq json_length_def)

lemma run_grows: "run (rpc_step opts size_of accept) n s t \<Longrightarrow> set (q_abandoned s) \<subseteq> set (q_abandoned t)"
  by (induction rule: run.induct) (use step_grows in blast)+

text \<open>
  An error in a batch abandons the rest. When the server answers the first request
  of a batch of two with an error and the second with a result, the second request
  is never settled, whatever happens later.
\<close>

theorem rpc_batch_abandons:
  "run (rpc_step defaultOptions json_length (\<lambda>_ _. True)) n one_failed t \<Longrightarrow> (2, r) \<notin> set (q_settled t)"
proof -
  assume run: "run (rpc_step defaultOptions json_length (\<lambda>_ _. True)) n one_failed t"
  have "distinct (rpc_ids t)"
    using rpc_inv_ids [OF rpc.run_inv [OF run rpc.reach_inv [OF reach_one_failed]]] by simp
  moreover have "(2, LoopLeft (hd (q_sent two_sent))) \<in> set (q_abandoned t)" using run_grows [OF run] by (simp add: one_failed_eq)
  then have "2 \<in> set (map fst (q_abandoned t))" by (metis fst_conv image_eqI set_map)
  ultimately have "2 \<notin> set (map fst (q_settled t))" unfolding rpc_ids_def by auto
  then show ?thesis by force
qed

end
