(* ===== verification/Subscribers.thy ===== *)
theory Subscribers
  imports Machine Main
begin

text \<open>
  The subscribers of \<open>src.ts/providers/subscriber-polling.ts\<close> and
  \<open>subscriber-filterid.ts\<close>, and \<open>signer-noncemanager.ts\<close>: asynchronous methods that
  give up control at each \<open>await\<close>. A state keeps the calls under way at the point
  where each waits, and a step runs one of them to its next wait.
\<close>

section \<open>Blocks\<close>

text \<open>
  A poll waits for the block number, or for \<open>emit\<close> inside its loop. The timers
  are those of the provider that will call \<open>#poll\<close>; \<open>pb_emitted\<close> is the sequence of
  \<open>block\<close> events.
\<close>

datatype block_poll = AwaitNumber | AwaitEmit int int

record polling_block =
  pb_poller :: "nat option"
  pb_blockNumber :: int
  pb_timers :: "nat list"
  pb_nextTimer :: nat
  pb_polls :: "block_poll list"
  pb_emitted :: "int list"

definition new_PollingBlockSubscriber :: polling_block where
  "new_PollingBlockSubscriber =
     \<lparr>pb_poller = None, pb_blockNumber = -2, pb_timers = [], pb_nextTimer = 1, pb_polls = [], pb_emitted = []\<rparr>"

definition without_poll :: "nat \<Rightarrow> 'a list \<Rightarrow> 'a list" where
  "without_poll i ps = take i ps @ drop (Suc i) ps"

definition set_poller :: "polling_block \<Rightarrow> polling_block" where
  "set_poller s = s\<lparr>pb_poller := Some (pb_nextTimer s), pb_timers := pb_timers s @ [pb_nextTimer s], pb_nextTimer := pb_nextTimer s + 1\<rparr>"

definition block_start :: "polling_block \<Rightarrow> polling_block" where
  "block_start s =
     (case pb_poller s of
        Some _ \<Rightarrow> s
      | None \<Rightarrow> let s' = set_poller s in s'\<lparr>pb_polls := pb_polls s' @ [AwaitNumber]\<rparr>)"

definition block_stop :: "polling_block \<Rightarrow> polling_block" where
  "block_stop s =
     (case pb_poller s of
        None \<Rightarrow> s
      | Some t \<Rightarrow> s\<lparr>pb_timers := removeAll t (pb_timers s), pb_poller := None\<rparr>)"

definition block_pause :: "bool \<Rightarrow> polling_block \<Rightarrow> polling_block" where
  "block_pause dropWhilePaused s =
     (let s' = block_stop s in if dropWhilePaused then s'\<lparr>pb_blockNumber := -2\<rparr> else s')"

definition block_timer :: "nat \<Rightarrow> polling_block \<Rightarrow> polling_block" where
  "block_timer i s = s\<lparr>pb_timers := without_poll i (pb_timers s), pb_polls := pb_polls s @ [AwaitNumber]\<rparr>"

text \<open>The end of \<open>#poll\<close>: the next timer, unless stopped.\<close>

definition poll_end :: "nat \<Rightarrow> polling_block \<Rightarrow> polling_block" where
  "poll_end i s =
     (let s' = s\<lparr>pb_polls := without_poll i (pb_polls s)\<rparr>
      in if pb_poller s = None then s' else set_poller s')"

text \<open>The turn of the loop at block \<open>b\<close>, up to its next \<open>await\<close>, or past its end.\<close>

definition poll_turn :: "nat \<Rightarrow> int \<Rightarrow> int \<Rightarrow> polling_block \<Rightarrow> polling_block" where
  "poll_turn i b n s =
     (if b \<le> n
      then (if pb_poller s = None then s\<lparr>pb_polls := without_poll i (pb_polls s)\<rparr>
            else s\<lparr>pb_polls := (pb_polls s)[i := AwaitEmit b n], pb_emitted := pb_emitted s @ [b]\<rparr>)
      else poll_end i (s\<lparr>pb_blockNumber := n\<rparr>))"

definition poll_number :: "nat \<Rightarrow> int \<Rightarrow> polling_block \<Rightarrow> polling_block" where
  "poll_number i n s =
     (if pb_blockNumber s = -2 then s\<lparr>pb_blockNumber := n, pb_polls := without_poll i (pb_polls s)\<rparr>
      else if n \<noteq> pb_blockNumber s then poll_turn i (pb_blockNumber s + 1) n s
      else poll_end i s)"

text \<open>
  \<open>stops\<close>: the subscriber may be stopped and paused; \<open>grows\<close>: the block numbers never
  fall below the one the subscriber holds.
\<close>

inductive block_step :: "bool \<Rightarrow> bool \<Rightarrow> polling_block \<Rightarrow> polling_block \<Rightarrow> bool" for stops grows where
  b_start: "block_step stops grows s (block_start s)"
| b_stop: "stops \<Longrightarrow> block_step stops grows s (block_stop s)"
| b_pause: "stops \<Longrightarrow> block_step stops grows s (block_pause d s)"
| b_timer: "i < length (pb_timers s) \<Longrightarrow> block_step stops grows s (block_timer i s)"
| b_number: "i < length (pb_polls s) \<Longrightarrow> pb_polls s ! i = AwaitNumber \<Longrightarrow> 0 \<le> n \<Longrightarrow>
     (grows \<Longrightarrow> pb_blockNumber s \<le> n) \<Longrightarrow> block_step stops grows s (poll_number i n s)"
| b_failed: "i < length (pb_polls s) \<Longrightarrow> pb_polls s ! i = AwaitNumber \<Longrightarrow> block_step stops grows s (poll_end i s)"
| b_emitted: "i < length (pb_polls s) \<Longrightarrow> pb_polls s ! i = AwaitEmit b n \<Longrightarrow> block_step stops grows s (poll_turn i (b + 1) n s)"

section \<open>Logs\<close>

text \<open>
  \<open>PollingEventSubscriber\<close>: a poll waits for the logs of blocks \<open>from\<close> to \<open>to\<close>.
  Four fields only record, and the code keeps none of them: \<open>pe_scanned\<close> the ranges
  whose logs came back, \<open>pe_fetched\<close> the numbers that calls of \<open>start\<close> have fetched, in
  order, \<open>pe_top\<close> the highest block the subscriber has held, and \<open>pe_gaps\<close> the blocks
  above it that a number fetched by a later \<open>start\<close> skips.
\<close>

record polling_event =
  pe_running :: bool
  pe_blockNumber :: int
  pe_numbers :: nat
  pe_polls :: "(int \<times> int) list"
  pe_scanned :: "(int \<times> int) list"
  pe_fetched :: "int list"
  pe_top :: int
  pe_gaps :: "(int \<times> int) list"

definition new_PollingEventSubscriber :: polling_event where
  "new_PollingEventSubscriber =
     \<lparr>pe_running = False, pe_blockNumber = -2, pe_numbers = 0, pe_polls = [], pe_scanned = [],
       pe_fetched = [], pe_top = -2, pe_gaps = []\<rparr>"

definition event_start :: "polling_event \<Rightarrow> polling_event" where
  "event_start s =
     (if pe_running s then s
      else s\<lparr>pe_running := True, pe_numbers := pe_numbers s + (if pe_blockNumber s = -2 then 1 else 0)\<rparr>)"

definition event_stop :: "polling_event \<Rightarrow> polling_event" where
  "event_stop s = (if \<not> pe_running s then s else s\<lparr>pe_running := False\<rparr>)"

definition event_pause :: "bool \<Rightarrow> polling_event \<Rightarrow> polling_event" where
  "event_pause dropWhilePaused s =
     (let s' = event_stop s in if dropWhilePaused then s'\<lparr>pe_blockNumber := -2\<rparr> else s')"

definition hold_block :: "int \<Rightarrow> polling_event \<Rightarrow> polling_event" where
  "hold_block n s = s\<lparr>pe_blockNumber := n, pe_top := max (pe_top s) n\<rparr>"

text \<open>The number \<open>start\<close> asked for arrives.\<close>

definition event_number :: "int \<Rightarrow> polling_event \<Rightarrow> polling_event" where
  "event_number n s =
     hold_block n (s\<lparr>pe_numbers := pe_numbers s - 1, pe_fetched := pe_fetched s @ [n],
       pe_gaps := pe_gaps s @ (if pe_fetched s \<noteq> [] \<and> pe_top s < n then [(pe_top s + 1, n)] else [])\<rparr>)"

text \<open>A block event calls \<open>#poll\<close>, which asks for the logs since the last block scanned.\<close>

definition event_block :: "int \<Rightarrow> polling_event \<Rightarrow> polling_event" where
  "event_block n s =
     (if pe_blockNumber s = -2 then s else s\<lparr>pe_polls := pe_polls s @ [(pe_blockNumber s + 1, n)]\<rparr>)"

definition event_logs :: "nat \<Rightarrow> bool \<Rightarrow> polling_event \<Rightarrow> polling_event" where
  "event_logs i found s =
     (let (from, n) = pe_polls s ! i;
          s' = s\<lparr>pe_polls := without_poll i (pe_polls s), pe_scanned := pe_scanned s @ [(from, n)]\<rparr>
      in if \<not> found then (if pe_blockNumber s < n - 60 then hold_block (n - 60) s' else s')
         else hold_block n s')"

text \<open>A failure of \<open>getLogs\<close> only ends the poll.\<close>

definition event_failed :: "nat \<Rightarrow> polling_event \<Rightarrow> polling_event" where
  "event_failed i s = s\<lparr>pe_polls := without_poll i (pe_polls s)\<rparr>"

inductive event_step :: "polling_event \<Rightarrow> polling_event \<Rightarrow> bool" where
  e_start: "event_step s (event_start s)"
| e_stop: "event_step s (event_stop s)"
| e_pause: "event_step s (event_pause d s)"
| e_number: "0 < pe_numbers s \<Longrightarrow> 0 \<le> n \<Longrightarrow> event_step s (event_number n s)"
| e_block: "pe_running s \<Longrightarrow> 0 \<le> n \<Longrightarrow> event_step s (event_block n s)"
| e_logs: "i < length (pe_polls s) \<Longrightarrow> event_step s (event_logs i found s)"
| e_failed: "i < length (pe_polls s) \<Longrightarrow> event_step s (event_failed i s)"

section \<open>Filters\<close>

text \<open>
  \<open>FilterIdSubscriber\<close>: a poll waits for the filter's identifier, for the network, or
  for the changes. \<open>fi_listening\<close> counts the registrations of the poller for the next
  block; \<open>fi_asked\<close> the requests for changes.
\<close>

datatype filter_poll = AwaitFilter | AwaitNetwork | AwaitChanges

record filter_sub =
  fi_running :: bool
  fi_hault :: bool
  fi_filterId :: bool
  fi_network :: "int option"
  fi_listening :: nat
  fi_polls :: "filter_poll list"
  fi_asked :: nat

definition new_FilterIdSubscriber :: filter_sub where
  "new_FilterIdSubscriber =
     \<lparr>fi_running = False, fi_hault = False, fi_filterId = False, fi_network = None, fi_listening = 0, fi_polls = [], fi_asked = 0\<rparr>"

definition filter_poll_begin :: "filter_sub \<Rightarrow> filter_sub" where
  "filter_poll_begin s = s\<lparr>fi_filterId := True, fi_polls := fi_polls s @ [AwaitFilter]\<rparr>"

definition teardown :: "filter_sub \<Rightarrow> filter_sub" where
  "teardown s = (if fi_filterId s then s\<lparr>fi_filterId := False\<rparr> else s)"

definition filter_off :: "filter_sub \<Rightarrow> filter_sub" where
  "filter_off s = s\<lparr>fi_listening := fi_listening s - 1\<rparr>"

definition filter_start :: "filter_sub \<Rightarrow> filter_sub" where
  "filter_start s = (if fi_running s then s else filter_poll_begin (s\<lparr>fi_running := True\<rparr>))"

definition filter_stop :: "filter_sub \<Rightarrow> filter_sub" where
  "filter_stop s =
     (if \<not> fi_running s then s else filter_off (teardown (s\<lparr>fi_running := False, fi_hault := True\<rparr>)))"

definition filter_pause :: "bool \<Rightarrow> filter_sub \<Rightarrow> filter_sub" where
  "filter_pause dropWhilePaused s = filter_off (if dropWhilePaused then teardown s else s)"

definition filter_resume :: "filter_sub \<Rightarrow> filter_sub" where
  "filter_resume s = filter_start s"

definition filter_once :: "nat \<Rightarrow> filter_sub \<Rightarrow> filter_sub" where
  "filter_once i s = s\<lparr>fi_polls := without_poll i (fi_polls s), fi_listening := fi_listening s + 1\<rparr>"

datatype filter_id = GotFilter | Unsupported | FilterError

text \<open>The filter's identifier arrives; \<open>Unsupported\<close> makes the provider replace the subscriber, stopping it.\<close>

definition filter_got :: "nat \<Rightarrow> filter_id \<Rightarrow> filter_sub \<Rightarrow> filter_sub" where
  "filter_got i r s =
     (case r of
        FilterError \<Rightarrow> filter_once i s
      | Unsupported \<Rightarrow> filter_stop (s\<lparr>fi_filterId := False, fi_polls := without_poll i (fi_polls s)\<rparr>)
      | GotFilter \<Rightarrow> s\<lparr>fi_polls := (fi_polls s)[i := AwaitNetwork]\<rparr>)"

definition filter_network :: "nat \<Rightarrow> int \<Rightarrow> filter_sub \<Rightarrow> filter_sub" where
  "filter_network i networkId s =
     (let s' = (if fi_network s = None then s\<lparr>fi_network := Some networkId\<rparr> else s)
      in if fi_network s' \<noteq> Some networkId then filter_once i s'
         else if fi_hault s' then s'\<lparr>fi_polls := without_poll i (fi_polls s')\<rparr>
         else s'\<lparr>fi_polls := (fi_polls s')[i := AwaitChanges], fi_asked := fi_asked s' + 1\<rparr>)"

inductive filter_step :: "filter_sub \<Rightarrow> filter_sub \<Rightarrow> bool" where
  f_start: "filter_step s (filter_start s)"
| f_stop: "filter_step s (filter_stop s)"
| f_pause: "filter_step s (filter_pause d s)"
| f_resume: "filter_step s (filter_resume s)"
| f_block: "0 < fi_listening s \<Longrightarrow> filter_step s (filter_poll_begin (s\<lparr>fi_listening := fi_listening s - 1\<rparr>))"
| f_got: "i < length (fi_polls s) \<Longrightarrow> fi_polls s ! i = AwaitFilter \<Longrightarrow> filter_step s (filter_got i r s)"
| f_network: "i < length (fi_polls s) \<Longrightarrow> fi_polls s ! i = AwaitNetwork \<Longrightarrow> filter_step s (filter_network i n s)"
| f_no_network: "i < length (fi_polls s) \<Longrightarrow> fi_polls s ! i = AwaitNetwork \<Longrightarrow> filter_step s (filter_once i s)"
| f_changes: "i < length (fi_polls s) \<Longrightarrow> fi_polls s ! i = AwaitChanges \<Longrightarrow> filter_step s (filter_once i s)"

section \<open>Nonces\<close>

text \<open>
  \<open>NonceManager\<close>: the promise of the pending nonce is its request's number, whatever
  it resolves to; a transaction holds the promise and the \<open>delta\<close> of its time.
\<close>

record nonce_manager =
  nm_promise :: "nat option"
  nm_requests :: nat
  nm_delta :: nat
  nm_sent :: "(nat \<times> nat) list"

definition new_NonceManager :: nonce_manager where
  "new_NonceManager = \<lparr>nm_promise = None, nm_requests = 0, nm_delta = 0, nm_sent = []\<rparr>"

definition getNonce_pending :: "nonce_manager \<Rightarrow> (nat \<times> nat) \<times> nonce_manager" where
  "getNonce_pending s =
     (case nm_promise s of
        Some p \<Rightarrow> ((p, nm_delta s), s)
      | None \<Rightarrow> ((nm_requests s, nm_delta s), s\<lparr>nm_promise := Some (nm_requests s), nm_requests := nm_requests s + 1\<rparr>))"

definition increment :: "nonce_manager \<Rightarrow> nonce_manager" where
  "increment s = s\<lparr>nm_delta := nm_delta s + 1\<rparr>"

definition reset :: "nonce_manager \<Rightarrow> nonce_manager" where
  "reset s = s\<lparr>nm_delta := 0, nm_promise := None\<rparr>"

definition sendTransaction :: "nonce_manager \<Rightarrow> nonce_manager" where
  "sendTransaction s =
     (let (nonce, s') = getNonce_pending s in let s'' = increment s' in s''\<lparr>nm_sent := nm_sent s'' @ [nonce]\<rparr>)"

inductive nonce_step :: "nonce_manager \<Rightarrow> nonce_manager \<Rightarrow> bool" where
  n_read: "nonce_step s (snd (getNonce_pending s))"
| n_increment: "nonce_step s (increment s)"
| n_reset: "nonce_step s (reset s)"
| n_send: "nonce_step s (sendTransaction s)"

text \<open>The nonce a transaction gets, given what the requests resolve to.\<close>

definition nonce_value :: "(nat \<Rightarrow> int) \<Rightarrow> nat \<times> nat \<Rightarrow> int" where
  "nonce_value base nonce = base (fst nonce) + int (snd nonce)"

end
