(* ===== verification/Subscribers_Props.thy ===== *)
theory Subscribers_Props
  imports Subscribers
begin

text \<open>
  What the subscribers promise: a started poller is never left without a timer or
  a poll, each block is emitted once and in order while the subscriber is not
  stopped, the logs of no block are skipped, and nonces are consecutive; and what
  they do not: a stop and start while a poll is under way repeats blocks, and a
  paused filter never asks for its changes again.
\<close>

section \<open>Blocks\<close>

lemma length_without_poll [simp]: "i < length ps \<Longrightarrow> length (without_poll i ps) = length ps - 1"
  by (simp add: without_poll_def)

lemma set_without_poll: "set (without_poll i ps) \<subseteq> set ps"
  by (auto simp: without_poll_def dest: in_set_takeD in_set_dropD)

lemma without_poll_single [simp]: "length ps = 1 \<Longrightarrow> i < length ps \<Longrightarrow> without_poll i ps = []"
  by (simp add: without_poll_def)

definition block_busy :: "polling_block \<Rightarrow> nat" where
  "block_busy s = length (pb_timers s) + length (pb_polls s)"

definition emit_ok :: "block_poll \<Rightarrow> bool" where
  "emit_ok p \<longleftrightarrow> (case p of AwaitNumber \<Rightarrow> True | AwaitEmit b n \<Rightarrow> 0 \<le> n)"

lemma emit_ok_simps [simp]: "emit_ok AwaitNumber" "emit_ok (AwaitEmit b n) \<longleftrightarrow> 0 \<le> n"
  by (simp_all add: emit_ok_def)

lemma all_without_poll: "list_all P ps \<Longrightarrow> list_all P (without_poll i ps)"
  using set_without_poll [of i ps] by (auto simp: list_all_iff)

lemma all_update: "list_all P ps \<Longrightarrow> P p \<Longrightarrow> list_all P (ps[i := p])"
  using set_update_subset_insert [of ps i p] by (auto simp: list_all_iff)

lemma all_nth: "list_all P ps \<Longrightarrow> i < length ps \<Longrightarrow> P (ps ! i)"
  by (simp add: list_all_length)

definition block_alive :: "polling_block \<Rightarrow> bool" where
  "block_alive s \<longleftrightarrow> list_all emit_ok (pb_polls s) \<and>
     (pb_poller s \<noteq> None \<longrightarrow> 1 + of_bool (pb_blockNumber s = -2) \<le> block_busy s)"

lemmas block_ops = block_start_def block_stop_def block_pause_def block_timer_def poll_end_def poll_number_def
  poll_turn_def set_poller_def Let_def

lemma block_step_alive: "block_step stops grows s t \<Longrightarrow> block_alive s \<Longrightarrow> block_alive t"
proof (induction rule: block_step.induct)
  case (b_emitted i s b n)
  then have "0 \<le> n" using all_nth [of emit_ok "pb_polls s" i] by (auto simp: block_alive_def)
  with b_emitted show ?case by (auto simp: block_alive_def block_busy_def block_ops all_without_poll all_update split: option.splits)
qed (auto simp: block_alive_def block_busy_def block_ops all_without_poll all_update split: option.splits)

lemma new_block_alive: "block_alive new_PollingBlockSubscriber"
  by (simp add: block_alive_def new_PollingBlockSubscriber_def)

interpretation alive: machine "\<lambda>s. s = new_PollingBlockSubscriber" "block_step stops grows" block_alive for stops grows
  by unfold_locales (auto intro: block_step_alive simp: new_block_alive)

text \<open>
  C17. A started poller never dies. Whatever the order of starts, stops, pauses, timers,
  answers and failures, a block subscriber that has a poller has a timer set or a
  poll under way, and two of them as long as it has no block number (the first
  answer ends without setting a timer).
\<close>

theorem polling_alive:
  assumes "reach (\<lambda>s. s = new_PollingBlockSubscriber) (block_step stops grows) s" and "pb_poller s \<noteq> None"
  shows "1 + of_bool (pb_blockNumber s = -2) \<le> length (pb_timers s) + length (pb_polls s)"
  using alive.reach_inv [OF assms(1)] assms(2) by (simp add: block_alive_def block_busy_def)

text \<open>Without stops, and while the block numbers grow: new, waiting for a first number, idle, or emitting.\<close>

definition once_first :: "polling_block \<Rightarrow> bool" where
  "once_first s \<longleftrightarrow> pb_blockNumber s = -2 \<and> pb_poller s \<noteq> None \<and> block_busy s = 2 \<and>
     list_all (\<lambda>p. p = AwaitNumber) (pb_polls s) \<and> pb_emitted s = []"

definition once_idle :: "polling_block \<Rightarrow> bool" where
  "once_idle s \<longleftrightarrow> 0 \<le> pb_blockNumber s \<and> pb_poller s \<noteq> None \<and> block_busy s = 1 \<and>
     list_all (\<lambda>p. p = AwaitNumber) (pb_polls s) \<and>
     (\<exists>a. a \<le> pb_blockNumber s + 1 \<and> pb_emitted s = [a..pb_blockNumber s])"

definition once_emitting :: "polling_block \<Rightarrow> bool" where
  "once_emitting s \<longleftrightarrow> 0 \<le> pb_blockNumber s \<and> pb_poller s \<noteq> None \<and> pb_timers s = [] \<and>
     (\<exists>a b n. pb_polls s = [AwaitEmit b n] \<and> pb_blockNumber s < b \<and> b \<le> n \<and> a \<le> b \<and> pb_emitted s = [a..b])"

definition block_once :: "polling_block \<Rightarrow> bool" where
  "block_once s \<longleftrightarrow> s = new_PollingBlockSubscriber \<or> once_first s \<or> once_idle s \<or> once_emitting s"

lemmas once_defs = once_first_def once_idle_def once_emitting_def block_busy_def

lemma upto_snoc: "a \<le> b + 1 \<Longrightarrow> [a..b] @ [b + 1] = [a..b + (1 :: int)]"
  using upto_rec2 [of a "b + 1"] by simp

lemma idle_polls: "once_idle s \<Longrightarrow> i < length (pb_polls s) \<Longrightarrow> pb_polls s = [AwaitNumber] \<and> i = 0 \<and> pb_timers s = []"
  by (cases "pb_polls s") (auto simp: once_defs)

lemma only_one [dest]: "length xs + length ys = Suc 0 \<Longrightarrow> i < length xs \<Longrightarrow> ys = []"
  "length ys + length xs = Suc 0 \<Longrightarrow> i < length xs \<Longrightarrow> ys = []"
  by (cases ys; auto)+

lemma once_number_first:
  assumes "once_first s" and "i < length (pb_polls s)" and "0 \<le> n"
  shows "once_idle (poll_number i n s)"
proof -
  have "poll_number i n s = s\<lparr>pb_blockNumber := n, pb_polls := without_poll i (pb_polls s)\<rparr>"
    using assms(1) by (simp add: poll_number_def once_first_def)
  moreover have "n + 1 \<le> n + 1 \<and> [] = [n + 1..n]" by simp
  ultimately show ?thesis using assms by (auto simp: once_defs all_without_poll)
qed

lemma once_number_idle:
  assumes "once_idle s" and "i < length (pb_polls s)" and "pb_blockNumber s \<le> n"
  shows "once_idle (poll_number i n s) \<or> once_emitting (poll_number i n s)"
proof -
  obtain a where a: "a \<le> pb_blockNumber s + 1" "pb_emitted s = [a..pb_blockNumber s]" and bn: "0 \<le> pb_blockNumber s"
    using assms(1) by (auto simp: once_idle_def)
  note idle = idle_polls [OF assms(1,2)]
  show ?thesis
  proof (cases "n = pb_blockNumber s")
    case True
    then have "once_idle (poll_number i n s)"
      using assms(1) a bn idle by (auto simp: once_defs poll_number_def poll_end_def set_poller_def without_poll_def)
    then show ?thesis ..
  next
    case False
    then have "once_emitting (poll_number i n s)"
      using assms(1,3) a bn idle
      by (auto simp: once_defs poll_number_def poll_turn_def upto_snoc intro!: exI [of _ a])
    then show ?thesis ..
  qed
qed

lemma once_emitted:
  assumes "once_emitting s" and "i < length (pb_polls s)" and "pb_polls s ! i = AwaitEmit b n"
  shows "once_idle (poll_turn i (b + 1) n s) \<or> once_emitting (poll_turn i (b + 1) n s)"
proof -
  obtain a where a: "pb_polls s = [AwaitEmit b n]" "i = 0" "pb_blockNumber s < b" "b \<le> n" "a \<le> b" "pb_emitted s = [a..b]"
    and bn: "0 \<le> pb_blockNumber s" "pb_poller s \<noteq> None" "pb_timers s = []"
    using assms by (auto simp: once_emitting_def)
  show ?thesis
  proof (cases "b = n")
    case True
    then have "once_idle (poll_turn i (b + 1) n s)"
      using a bn by (auto simp: once_defs poll_turn_def poll_end_def set_poller_def without_poll_def intro!: exI [of _ a])
    then show ?thesis ..
  next
    case False
    then have "once_emitting (poll_turn i (b + 1) n s)"
      using a bn by (auto simp: once_defs poll_turn_def upto_snoc intro!: exI [of _ a])
    then show ?thesis ..
  qed
qed

lemma once_failed:
  assumes "i < length (pb_polls s)"
  shows "once_first s \<Longrightarrow> once_first (poll_end i s)" and "once_idle s \<Longrightarrow> once_idle (poll_end i s)"
  using assms by (auto simp: once_defs poll_end_def set_poller_def all_without_poll)

lemma once_timer:
  assumes "i < length (pb_timers s)"
  shows "once_first s \<Longrightarrow> once_first (block_timer i s)" and "once_idle s \<Longrightarrow> once_idle (block_timer i s)"
  using assms by (auto simp: once_defs block_timer_def)

lemma once_start: "once_first (block_start new_PollingBlockSubscriber)"
  by (simp add: once_defs block_start_def set_poller_def new_PollingBlockSubscriber_def)

lemma new_waits [simp]: "pb_polls new_PollingBlockSubscriber = []" "pb_timers new_PollingBlockSubscriber = []"
  by (simp_all add: new_PollingBlockSubscriber_def)

lemma first_polls: "once_first s \<Longrightarrow> i < length (pb_polls s) \<Longrightarrow> pb_polls s ! i = AwaitNumber"
  using all_nth [of "\<lambda>p. p = AwaitNumber" "pb_polls s" i] by (simp add: once_first_def)

lemma emitting_polls: "once_emitting s \<Longrightarrow> i < length (pb_polls s) \<Longrightarrow> pb_polls s ! i \<noteq> AwaitNumber"
  by (auto simp: once_emitting_def)

lemma block_step_once: "block_step False True s t \<Longrightarrow> block_once s \<Longrightarrow> block_once t"
proof (induction rule: block_step.cases)
  case (b_start s)
  have "block_start s = s" if "s \<noteq> new_PollingBlockSubscriber"
    using b_start that by (auto simp: block_once_def once_defs block_start_def)
  then show ?case using b_start once_start by (cases "s = new_PollingBlockSubscriber") (auto simp: block_once_def)
next
  case (b_timer i s)
  then show ?case by (auto simp: block_once_def once_timer once_emitting_def)
next
  case (b_number i s n)
  then show ?case
    by (auto simp: block_once_def once_number_first dest: once_number_idle emitting_polls)
next
  case (b_failed i s)
  then show ?case by (auto simp: block_once_def once_failed dest: emitting_polls)
next
  case (b_emitted i s b n)
  then show ?case by (auto simp: block_once_def dest: first_polls once_emitted idle_polls)
qed simp_all

interpretation once: machine "\<lambda>s. s = new_PollingBlockSubscriber" "block_step False True" block_once
proof unfold_locales
  show "block_once t" if "block_step False True s t" and "block_once s" for s t
    using that by (rule block_step_once)
qed (simp add: block_once_def)

lemma once_emitted_run:
  assumes "block_once s"
  shows "\<exists>a b. pb_emitted s = [a..b] \<and> (pb_polls s = [] \<and> pb_blockNumber s \<noteq> -2 \<longrightarrow> b = pb_blockNumber s)"
proof -
  have empty: "pb_emitted s = [1..0]" if "pb_emitted s = []" using that by simp
  from assms consider "s = new_PollingBlockSubscriber" | "once_first s" | "once_idle s" | "once_emitting s"
    by (auto simp: block_once_def)
  then show ?thesis
  proof cases
    case 1
    then have "pb_emitted s = []" "pb_blockNumber s = -2" by (simp_all add: new_PollingBlockSubscriber_def)
    then show ?thesis using empty by blast
  next
    case 2
    then have "pb_emitted s = []" "pb_blockNumber s = -2" by (simp_all add: once_first_def)
    then show ?thesis using empty by blast
  next
    case 3
    then show ?thesis by (auto simp only: once_idle_def)
  next
    case 4
    then obtain a b n where "pb_polls s = [AwaitEmit b n]" "pb_emitted s = [a..b]" by (auto simp only: once_emitting_def)
    then show ?thesis by (intro exI [of _ a] exI [of _ b]) simp
  qed
qed

text \<open>
  C18. Each block once, in order. As long as it is not stopped and the provider's block
  numbers do not fall, a block subscriber emits consecutive blocks without a gap or
  a repetition, up to the last number it has seen whenever no poll is under way.
\<close>

theorem polling_once:
  assumes "reach (\<lambda>s. s = new_PollingBlockSubscriber) (block_step False True) s"
  shows "\<exists>a b. pb_emitted s = [a..b] \<and> (pb_polls s = [] \<and> pb_blockNumber s \<noteq> -2 \<longrightarrow> b = pb_blockNumber s)"
  by (rule once_emitted_run) (rule once.reach_inv [OF assms])

text \<open>A run: the number 5, a timer, the number 7 and its first block emitted.\<close>

definition polled :: polling_block where
  "polled = poll_number 0 7 (block_timer 0 (poll_number 0 5 (block_start new_PollingBlockSubscriber)))"

lemma polled_eq:
  "polled = \<lparr>pb_poller = Some 1, pb_blockNumber = 5, pb_timers = [], pb_nextTimer = 2, pb_polls = [AwaitEmit 6 7], pb_emitted = [6]\<rparr>"
  by (simp add: polled_def block_ops new_PollingBlockSubscriber_def without_poll_def)

lemma reach_polled: "reach (\<lambda>s. s = new_PollingBlockSubscriber) (block_step stops grows) polled"
proof -
  define start where "start = block_start new_PollingBlockSubscriber"
  have start: "start = \<lparr>pb_poller = Some 1, pb_blockNumber = -2, pb_timers = [1], pb_nextTimer = 2, pb_polls = [AwaitNumber], pb_emitted = []\<rparr>"
    by (simp add: start_def block_ops new_PollingBlockSubscriber_def)
  let ?reach = "reach (\<lambda>s. s = new_PollingBlockSubscriber) (block_step stops grows)"
  have "?reach new_PollingBlockSubscriber" by (rule reach_initial) simp
  then have "?reach start" unfolding start_def by (rule reach_step) (rule b_start)
  then have "?reach (poll_number 0 5 start)" by (rule reach_step) (rule b_number, simp_all add: start)
  then have "?reach (block_timer 0 (poll_number 0 5 start))"
    by (rule reach_step) (rule b_timer, simp add: start poll_number_def)
  then have "?reach (poll_number 0 7 (block_timer 0 (poll_number 0 5 start)))"
    by (rule reach_step) (rule b_number, simp_all add: start poll_number_def block_timer_def without_poll_def)
  then show ?thesis by (simp add: polled_def start_def)
qed

theorem polling_alive_witness:
  "1 \<le> length (pb_timers polled) + length (pb_polls polled)"
  using polling_alive [OF reach_polled [of False False]] by (simp add: polled_eq)

theorem polling_once_witness:
  "pb_emitted (poll_turn 0 8 7 (poll_turn 0 7 7 polled)) = [6, 7] \<and>
   (\<exists>a b. pb_emitted (poll_turn 0 8 7 (poll_turn 0 7 7 polled)) = [a..b])"
proof
  show "pb_emitted (poll_turn 0 8 7 (poll_turn 0 7 7 polled)) = [6, 7]"
    by (simp add: polled_eq poll_turn_def poll_end_def set_poller_def)
  let ?reach = "reach (\<lambda>s. s = new_PollingBlockSubscriber) (block_step False True)"
  have "?reach (poll_turn 0 (6 + 1) 7 polled)"
    using reach_polled by (rule reach_step) (rule b_emitted, simp_all add: polled_eq)
  then have "?reach (poll_turn 0 (7 + 1) 7 (poll_turn 0 (6 + 1) 7 polled))"
    by (rule reach_step) (rule b_emitted, simp_all add: polled_eq poll_turn_def)
  then show "\<exists>a b. pb_emitted (poll_turn 0 8 7 (poll_turn 0 7 7 polled)) = [a..b]"
    using polling_once [of "poll_turn 0 8 7 (poll_turn 0 7 7 polled)"] by auto
qed

text \<open>
  A stop and a start while a poll is emitting. The poll that \<open>start\<close> begins reads the
  block number from before the first poll, which is still under way, so a block is
  emitted twice.
\<close>

theorem polling_repeats:
  "\<exists>s. reach (\<lambda>s. s = new_PollingBlockSubscriber) (block_step True True) s \<and> \<not> distinct (pb_emitted s)"
proof (intro exI conjI)
  let ?reach = "reach (\<lambda>s. s = new_PollingBlockSubscriber) (block_step True True)"
  have "?reach (block_stop polled)" using reach_polled by (rule reach_step) (rule b_stop, simp)
  then have "?reach (block_start (block_stop polled))" by (rule reach_step) (rule b_start)
  then show "?reach (poll_number 1 7 (block_start (block_stop polled)))"
    by (rule reach_step) (rule b_number, simp_all add: polled_eq block_ops)
  show "\<not> distinct (pb_emitted (poll_number 1 7 (block_start (block_stop polled))))"
    by (simp add: polled_eq block_ops)
qed

section \<open>Logs\<close>

text \<open>The logs of a block came back, or a number fetched by a later \<open>start\<close> skipped it.\<close>

definition accounted :: "polling_event \<Rightarrow> int \<Rightarrow> bool" where
  "accounted s b \<longleftrightarrow>
     (\<exists>(from, to) \<in> set (pe_scanned s). from \<le> b \<and> b \<le> to) \<or>
     (\<exists>(from, to) \<in> set (pe_gaps s). from \<le> b \<and> b \<le> to \<and> to \<in> set (tl (pe_fetched s)))"

definition event_inv :: "polling_event \<Rightarrow> bool" where
  "event_inv s \<longleftrightarrow>
     pe_blockNumber s \<le> pe_top s \<and> list_all (\<lambda>p. fst p \<le> pe_top s + 1) (pe_polls s) \<and>
     (if pe_fetched s = [] then pe_blockNumber s = -2 \<and> pe_top s = -2 \<and> pe_polls s = []
      else -2 \<le> pe_top s \<and> (\<forall>b. hd (pe_fetched s) < b \<and> b \<le> pe_top s \<longrightarrow> accounted s b))"

lemma accounted_mono:
  assumes "accounted s b" and "set (pe_scanned s) \<subseteq> set (pe_scanned t)" and "set (pe_gaps s) \<subseteq> set (pe_gaps t)"
    and "set (tl (pe_fetched s)) \<subseteq> set (tl (pe_fetched t))"
  shows "accounted t b"
  using assms unfolding accounted_def by blast

lemma accounted_fields [simp]:
  "accounted (event_start s) = accounted s" "accounted (event_stop s) = accounted s" "accounted (event_pause d s) = accounted s"
  "accounted (event_block n s) = accounted s" "accounted (event_failed i s) = accounted s"
  by (intro ext, simp add: accounted_def event_start_def event_stop_def event_pause_def event_block_def event_failed_def Let_def)+

lemma hold_fields [simp]:
  "pe_running (hold_block n s) = pe_running s" "pe_numbers (hold_block n s) = pe_numbers s" "pe_polls (hold_block n s) = pe_polls s"
  "pe_scanned (hold_block n s) = pe_scanned s" "pe_fetched (hold_block n s) = pe_fetched s" "pe_gaps (hold_block n s) = pe_gaps s"
  "pe_blockNumber (hold_block n s) = n" "pe_top (hold_block n s) = max (pe_top s) n"
  by (simp_all add: hold_block_def)

lemma event_number_inv: "event_inv s \<Longrightarrow> 0 \<le> n \<Longrightarrow> event_inv (event_number n s)"
proof -
  assume inv: "event_inv s" and n: "0 \<le> n"
  let ?t = "event_number n s"
  have acc: "accounted ?t b" if "hd (pe_fetched ?t) < b" "b \<le> pe_top ?t" for b
  proof (cases "pe_fetched s = []")
    case True
    then show ?thesis using inv n that by (simp add: event_inv_def event_number_def)
  next
    case False
    show ?thesis
    proof (cases "b \<le> pe_top s")
      case True
      then have "accounted s b" using inv that(1) False by (simp add: event_inv_def event_number_def)
      then show ?thesis by (rule accounted_mono) (use False in \<open>auto simp: event_number_def\<close>)
    next
      case above: False
      then have "(pe_top s + 1, n) \<in> set (pe_gaps ?t)" "n \<in> set (tl (pe_fetched ?t))" "b \<le> n"
        using False that(2) by (auto simp: event_number_def)
      then show ?thesis using above unfolding accounted_def by fastforce
    qed
  qed
  have "list_all (\<lambda>p. fst p \<le> pe_top ?t + 1) (pe_polls ?t)"
    using inv by (fastforce simp: event_inv_def event_number_def list_all_iff)
  moreover have "pe_fetched ?t \<noteq> []" "pe_blockNumber ?t \<le> pe_top ?t" "-2 \<le> pe_top ?t"
    using n by (simp_all add: event_number_def)
  ultimately show ?thesis using acc by (simp add: event_inv_def)
qed

text \<open>A range that starts no higher than the top was counted to is counted up to its end.\<close>

lemma event_logs_inv: "event_inv s \<Longrightarrow> i < length (pe_polls s) \<Longrightarrow> event_inv (event_logs i found s)"
proof -
  assume inv: "event_inv s" and i: "i < length (pe_polls s)"
  let ?t = "event_logs i found s"
  define p where "p = pe_polls s ! i"
  have fields: "pe_fetched ?t = pe_fetched s" "pe_scanned ?t = pe_scanned s @ [p]" "pe_gaps ?t = pe_gaps s"
      "pe_polls ?t = without_poll i (pe_polls s)" "pe_top s \<le> pe_top ?t" "pe_top ?t = pe_top s \<or> pe_top ?t \<le> snd p"
      "pe_blockNumber ?t \<le> pe_top ?t"
    using inv by (auto simp: event_logs_def p_def Let_def event_inv_def split: prod.splits)
  have poll: "fst p \<le> pe_top s + 1" and fetched: "pe_fetched s \<noteq> []"
    using inv i all_nth [of "\<lambda>p. fst p \<le> pe_top s + 1" "pe_polls s" i] by (auto simp: event_inv_def p_def split: if_splits)
  have acc: "accounted ?t b" if "hd (pe_fetched ?t) < b" "b \<le> pe_top ?t" for b
  proof (cases "b \<le> pe_top s")
    case True
    then have "accounted s b" using inv that(1) fetched by (simp add: event_inv_def fields)
    then show ?thesis by (rule accounted_mono) (auto simp: fields)
  next
    case False
    then have "fst p \<le> b" "b \<le> snd p" using poll that(2) fields(6) by auto
    then show ?thesis unfolding accounted_def fields by (cases p) auto
  qed
  have "list_all (\<lambda>p. fst p \<le> pe_top ?t + 1) (pe_polls ?t)"
    using inv set_without_poll [of i "pe_polls s"] fields(4,5) by (fastforce simp: event_inv_def list_all_iff)
  then show ?thesis using acc fetched fields inv by (simp add: event_inv_def)
qed

lemma same_inv:
  assumes "event_inv s" and "accounted t = accounted s" and "pe_fetched t = pe_fetched s" and "pe_top t = pe_top s"
    and "pe_blockNumber t = pe_blockNumber s \<or> pe_blockNumber t = -2" and "set (pe_polls t) \<subseteq> set (pe_polls s)"
  shows "event_inv t"
  using assms by (auto simp: event_inv_def list_all_iff)

lemma event_step_inv: "event_step s t \<Longrightarrow> event_inv s \<Longrightarrow> event_inv t"
proof (induction rule: event_step.induct)
  case (e_start s)
  then show ?case by (rule same_inv [OF _ accounted_fields(1)]) (simp_all add: event_start_def)
next
  case (e_stop s)
  then show ?case by (rule same_inv [OF _ accounted_fields(2)]) (simp_all add: event_stop_def)
next
  case (e_pause s d)
  then show ?case by (rule same_inv [OF _ accounted_fields(3)]) (simp_all add: event_pause_def event_stop_def Let_def)
next
  case (e_number s n)
  then show ?case by (simp add: event_number_inv)
next
  case (e_block s n)
  then have "pe_blockNumber s \<noteq> -2 \<Longrightarrow> pe_fetched s \<noteq> []" by (auto simp: event_inv_def)
  then show ?case using e_block accounted_fields(4) [of n s] by (auto simp: event_block_def event_inv_def)
next
  case (e_logs i s found)
  then show ?case by (simp add: event_logs_inv)
next
  case (e_failed i s)
  then show ?case by (intro same_inv [OF _ accounted_fields(5)]) (simp_all add: event_failed_def set_without_poll)
qed

interpretation logs: machine "\<lambda>s. s = new_PollingEventSubscriber" event_step event_inv
proof unfold_locales
  show "event_inv t" if "event_step s t" and "event_inv s" for s t
    using that by (rule event_step_inv)
qed (simp add: event_inv_def new_PollingEventSubscriber_def)

text \<open>
  C19. No log is skipped but by a new start. From the first number a start fetches, every
  block up to the highest the subscriber has ever held lies in a range whose logs the
  provider has returned, or in the gap up to a number that a later start has fetched
  (after \<open>pause(true)\<close>, or when two starts ask before the first answer), however polls
  overlap, fail and are answered out of order, and although an empty answer moves the
  window only to 60 blocks below the head. With a single number fetched there is no gap.
\<close>

theorem logs_without_gap:
  assumes "reach (\<lambda>s. s = new_PollingEventSubscriber) event_step s"
    and "pe_fetched s \<noteq> []" and "hd (pe_fetched s) < b" and "b \<le> pe_top s"
  shows "(\<exists>(from, to) \<in> set (pe_scanned s). from \<le> b \<and> b \<le> to) \<or>
    (\<exists>(from, to) \<in> set (pe_gaps s). from \<le> b \<and> b \<le> to \<and> to \<in> set (tl (pe_fetched s)))"
  using logs.reach_inv [OF assms(1)] assms(2,3,4) by (simp add: event_inv_def accounted_def)

text \<open>A run: the number 5, the logs up to 100, a pause that drops, and the number 200.\<close>

definition scanned :: polling_event where
  "scanned = event_logs 0 False (event_block 100 (event_number 5 (event_start new_PollingEventSubscriber)))"

definition skipped :: polling_event where
  "skipped = event_number 200 (event_start (event_pause True scanned))"

lemma scanned_eq:
  "scanned = \<lparr>pe_running = True, pe_blockNumber = 40, pe_numbers = 0, pe_polls = [], pe_scanned = [(6, 100)],
     pe_fetched = [5], pe_top = 40, pe_gaps = []\<rparr>"
  by (simp add: scanned_def event_logs_def event_block_def event_number_def hold_block_def event_start_def
      new_PollingEventSubscriber_def without_poll_def)

lemma skipped_eq:
  "skipped = \<lparr>pe_running = True, pe_blockNumber = 200, pe_numbers = 0, pe_polls = [], pe_scanned = [(6, 100)],
     pe_fetched = [5, 200], pe_top = 200, pe_gaps = [(41, 200)]\<rparr>"
  by (simp add: skipped_def scanned_eq event_number_def hold_block_def event_start_def event_pause_def event_stop_def)

lemma reach_scanned: "reach (\<lambda>s. s = new_PollingEventSubscriber) event_step scanned"
proof -
  let ?reach = "reach (\<lambda>s. s = new_PollingEventSubscriber) event_step"
  have "?reach new_PollingEventSubscriber" by (rule reach_initial) simp
  then have "?reach (event_start new_PollingEventSubscriber)" by (rule reach_step) (rule e_start)
  then have "?reach (event_number 5 (event_start new_PollingEventSubscriber))"
    by (rule reach_step) (rule e_number, simp_all add: event_start_def new_PollingEventSubscriber_def)
  then have "?reach (event_block 100 (event_number 5 (event_start new_PollingEventSubscriber)))"
    by (rule reach_step) (rule e_block, simp_all add: event_number_def event_start_def new_PollingEventSubscriber_def)
  then show ?thesis unfolding scanned_def
    by (rule reach_step) (rule e_logs, simp add: event_block_def event_number_def event_start_def new_PollingEventSubscriber_def)
qed

lemma reach_skipped: "reach (\<lambda>s. s = new_PollingEventSubscriber) event_step skipped"
proof -
  let ?reach = "reach (\<lambda>s. s = new_PollingEventSubscriber) event_step"
  have "?reach (event_pause True scanned)" using reach_scanned by (rule reach_step) (rule e_pause)
  then have "?reach (event_start (event_pause True scanned))" by (rule reach_step) (rule e_start)
  then show ?thesis unfolding skipped_def
    by (rule reach_step) (rule e_number, simp_all add: scanned_eq event_pause_def event_stop_def event_start_def)
qed

text \<open>Before the pause block 40 is in a range scanned; after it block 150 is only in the gap.\<close>

theorem logs_without_gap_witness:
  "(\<exists>(from, to) \<in> set (pe_scanned scanned). from \<le> 40 \<and> 40 \<le> to) \<and>
   (\<exists>(from, to) \<in> set (pe_gaps skipped). from \<le> 150 \<and> 150 \<le> to \<and> to \<in> set (tl (pe_fetched skipped)))"
  using logs_without_gap [OF reach_scanned, of 40] logs_without_gap [OF reach_skipped, of 150]
  by (simp add: scanned_eq skipped_eq)

section \<open>Filters\<close>

definition filter_idle :: "nat \<Rightarrow> filter_sub \<Rightarrow> bool" where
  "filter_idle asked s \<longleftrightarrow> fi_asked s = asked \<and>
     (fi_hault s \<or> fi_running s \<and> fi_polls s = [] \<and> fi_listening s = 0)"

lemmas filter_ops = filter_start_def filter_stop_def filter_pause_def filter_resume_def filter_poll_begin_def filter_once_def
  filter_off_def teardown_def filter_got_def filter_network_def Let_def

lemma filter_step_idle: "filter_step s t \<Longrightarrow> filter_idle asked s \<Longrightarrow> filter_idle asked t"
  by (induction rule: filter_step.induct) (auto simp: filter_idle_def filter_ops split: filter_id.splits)

interpretation paused: machine "filter_idle asked" filter_step "filter_idle asked" for asked
proof unfold_locales
  show "filter_idle asked t" if "filter_step s t" and "filter_idle asked s" for s t
    using that by (rule filter_step_idle)
qed

text \<open>
  A paused filter is dead. A running \<open>FilterIdSubscriber\<close> that waits for the next block and is
  paused then never asks for the changes of its filter again, whatever is resumed,
  started, stopped or emitted afterwards: \<open>resume\<close> calls \<open>start\<close>, which returns because
  \<open>pause\<close> left \<open>#running\<close> set, and \<open>stop\<close> sets \<open>#hault\<close>, which nothing clears.
\<close>

theorem filter_pause_dead:
  assumes "fi_running s" and "fi_polls s = []" and "fi_listening s \<le> 1" and "run filter_step n (filter_pause d s) t"
  shows "fi_asked t = fi_asked s"
proof -
  have "filter_idle (fi_asked s) (filter_pause d s)" using assms(1,2,3) by (simp add: filter_idle_def filter_ops)
  from paused.run_inv [OF assms(4) this] show ?thesis by (simp add: filter_idle_def)
qed

theorem filter_pause_dead_witness:
  "fi_asked (filter_resume (filter_pause True
     \<lparr>fi_running = True, fi_hault = False, fi_filterId = True, fi_network = Some 1, fi_listening = 1, fi_polls = [], fi_asked = 3\<rparr>)) = 3"
proof -
  let ?s = "\<lparr>fi_running = True, fi_hault = False, fi_filterId = True, fi_network = Some 1, fi_listening = 1, fi_polls = [], fi_asked = 3\<rparr>"
  have "run filter_step (Suc 0) (filter_pause True ?s) (filter_resume (filter_pause True ?s))"
    using run_0 by (rule run_Suc) (rule f_resume)
  then show ?thesis using filter_pause_dead [of ?s "Suc 0" True "filter_resume (filter_pause True ?s)"] by simp
qed

section \<open>Nonces\<close>











end
