(* ===== verification/Fixed_Number.thy ===== *)
theory Fixed_Number
  imports Maths "HOL-Library.Signed_Division"
begin

text \<open>
  \<open>src.ts/utils/fixednumber.ts\<close>, fixed-point numbers, and the decimal strings of
  \<open>src.ts/utils/units.ts\<close> built on them. The quotient and remainder of \<open>bigint\<close> truncate
  toward zero (\<open>sdiv\<close>, \<open>smod\<close>). A \<open>number\<close> given for a width or for decimals is an
  integer here.
\<close>

section \<open>Powers of ten\<close>

definition Zeros :: string where
  "Zeros = replicate 128 CHR ''0''"

function double_until :: "int \<Rightarrow> string \<Rightarrow> string" where
  "double_until n s = (if s \<noteq> [] \<and> int (length s) < n then double_until n (s @ s) else s)"
  by pat_completeness auto
termination by (relation "measure (\<lambda>(n, s). nat (n - int (length s)))") auto

declare double_until.simps [simp del]

definition getTens_string :: "int \<Rightarrow> string" where
  "getTens_string decimals = ''1'' @ js_substring (double_until decimals Zeros) 0 decimals"

definition getTens :: "int \<Rightarrow> int" where
  "getTens decimals = (case js_BigInt (getTens_string decimals) of Some n \<Rightarrow> n | None \<Rightarrow> 0)"

section \<open>Formats\<close>

text \<open>What a property of a format object may hold, and a format as callers give it.\<close>

datatype format_prop = FBool bool | FNum int | FOther

datatype fixed_format =
    FormatDefault
  | FormatDecimals int
  | FormatString string
  | FormatObject "format_prop option" "format_prop option" "format_prop option"

record field =
  fx_signed :: bool
  fx_width :: int
  fx_decimals :: int

definition format_match :: "string \<Rightarrow> (bool \<times> int \<times> int) option" where
  "format_match s =
     (let u = starts_with s ''u''; r = (if u then drop 1 s else s);
          w = takeWhile is_digit10 (drop 5 r); t = dropWhile is_digit10 (drop 5 r)
      in if starts_with r ''fixed'' \<and> w \<noteq> [] \<and> starts_with t ''x'' \<and> drop 1 t \<noteq> [] \<and> list_all is_digit10 (drop 1 t)
         then Some (\<not> u, int (dec_value w), int (dec_value (drop 1 t))) else None)"

definition check_bool :: "format_prop option \<Rightarrow> bool \<Rightarrow> bool result" where
  "check_bool v defaultValue =
     (case v of None \<Rightarrow> Inr defaultValue | Some (FBool b) \<Rightarrow> Inr b
      | Some _ \<Rightarrow> Inl (CoreError INVALID_ARGUMENT ''invalid fixed format (signed not boolean)''))"

definition check_number :: "string \<Rightarrow> format_prop option \<Rightarrow> int \<Rightarrow> int result" where
  "check_number key v defaultValue =
     (case v of None \<Rightarrow> Inr defaultValue | Some (FNum n) \<Rightarrow> Inr n
      | Some _ \<Rightarrow> Inl (CoreError INVALID_ARGUMENT (''invalid fixed format ('' @ key @ '' not number)'')))"

definition format_parts :: "fixed_format \<Rightarrow> (bool \<times> int \<times> int) result" where
  "format_parts value =
     (case (case value of FormatDecimals n \<Rightarrow> FormatString (''fixed128x'' @ int_toString 10 n) | _ \<Rightarrow> value) of
        FormatString s \<Rightarrow>
          if s = ''fixed'' then Inr (True, 128, 18)
          else if s = ''ufixed'' then Inr (False, 128, 18)
          else (case format_match s of
                  None \<Rightarrow> Inl (CoreError INVALID_ARGUMENT ''invalid fixed format'')
                | Some parts \<Rightarrow> Inr parts)
      | FormatObject s w d \<Rightarrow>
          bindE (check_bool s True) (\<lambda>signed.
          bindE (check_number ''width'' w 128) (\<lambda>width.
          bindE (check_number ''decimals'' d 18) (\<lambda>decimals. Inr (signed, width, decimals))))
      | _ \<Rightarrow> Inr (True, 128, 18))"

definition getFormat :: "fixed_format \<Rightarrow> field result" where
  "getFormat value =
     bindE (format_parts value) (\<lambda>(signed, width, decimals).
     bindE (assertArgument (width mod 8 = 0) ''invalid FixedNumber width (not byte aligned)'') (\<lambda>_.
     bindE (assertArgument (decimals \<le> 80) ''invalid FixedNumber decimals (too large)'') (\<lambda>_.
       Inr \<lparr>fx_signed = signed, fx_width = width, fx_decimals = decimals\<rparr>)))"

definition format_name :: "field \<Rightarrow> string" where
  "format_name f =
     (if fx_signed f then [] else ''u'') @ ''fixed'' @ int_toString 10 (fx_width f) @ ''x'' @ int_toString 10 (fx_decimals f)"

section \<open>Values\<close>

definition bigint_rem :: "int \<Rightarrow> int \<Rightarrow> int result" where
  "bigint_rem a b = (if b = 0 then Inl (JsError NativeRangeError ''Division by zero'') else Inr (a smod b))"

definition checkValue :: "int \<Rightarrow> field \<Rightarrow> string option \<Rightarrow> int result" where
  "checkValue val f safeOp =
     (let width = fx_width f
      in if fx_signed f
         then let limit = shl 1 (width - 1)
              in bindE (assert (safeOp = None \<or> (val \<ge> - limit \<and> val < limit)) ''overflow'' NUMERIC_FAULT) (\<lambda>_.
                   if val > 0
                   then bindE (mask_bits (DBig val) (DBig width)) (\<lambda>m. fromTwos (DBig m) (DBig width))
                   else mapE uminus (bindE (mask_bits (DBig (- val)) (DBig width)) (\<lambda>m. fromTwos (DBig m) (DBig width))))
         else let limit = shl 1 width
              in bindE (assert (safeOp = None \<or> (val \<ge> 0 \<and> val < limit)) ''overflow'' NUMERIC_FAULT) (\<lambda>_.
                 bindE (bigint_rem val limit) (\<lambda>r.
                 bindE (bigint_rem (r + limit) limit) (\<lambda>r'. Inr (r' AND (limit - 1))))))"

section \<open>Decimal strings\<close>

function pad_zeros :: "int \<Rightarrow> string \<Rightarrow> string" where
  "pad_zeros decimals str = (if int (length str) \<le> decimals then pad_zeros decimals (Zeros @ str) else str)"
  by pat_completeness auto
termination by (relation "measure (\<lambda>(n, s). nat (n + 1 - int (length s)))") (auto simp: Zeros_def)

declare pad_zeros.simps [simp del]

fun trim_whole :: "string \<Rightarrow> string" where
  "trim_whole (c # str) = (if c = CHR ''0'' \<and> take 1 str \<noteq> ''.'' then trim_whole str else c # str)"
| "trim_whole [] = []"

definition trim_decimals :: "string \<Rightarrow> string" where
  "trim_decimals str = rev (trim_whole (rev str))"

definition fixed_toString :: "int \<Rightarrow> int \<Rightarrow> string" where
  "fixed_toString val decimals =
     (let negative = (if val < 0 then ''-'' else []);
          str = int_toString 10 \<bar>val\<bar>
      in if decimals = 0 then negative @ str
         else let str = pad_zeros decimals str;
                  index = int (length str) - decimals
              in negative @ trim_decimals (trim_whole (js_substring str 0 index @ ''.'' @ js_substring str index (int (length str)))))"

section \<open>FixedNumber\<close>

record fixed_number =
  fn_val :: int
  fn_format :: field
  fn_tens :: int
  fn_value :: string

definition new_FixedNumber :: "int \<Rightarrow> field \<Rightarrow> fixed_number" where
  "new_FixedNumber value f =
     \<lparr>fn_val = value, fn_format = f, fn_tens = getTens (fx_decimals f), fn_value = fixed_toString value (fx_decimals f)\<rparr>"

definition checkFormat :: "fixed_number \<Rightarrow> fixed_number \<Rightarrow> unit result" where
  "checkFormat x other =
     assertArgument (format_name (fn_format x) = format_name (fn_format other)) ''incompatible format; use fixedNumber.toFormat''"

definition fn_checkValue :: "fixed_number \<Rightarrow> int \<Rightarrow> string option \<Rightarrow> fixed_number result" where
  "fn_checkValue x val safeOp = mapE (\<lambda>v. new_FixedNumber v (fn_format x)) (checkValue val (fn_format x) safeOp)"

definition fixed_add :: "fixed_number \<Rightarrow> fixed_number \<Rightarrow> string option \<Rightarrow> fixed_number result" where
  "fixed_add x o' safeOp = bindE (checkFormat x o') (\<lambda>_. fn_checkValue x (fn_val x + fn_val o') safeOp)"

definition fixed_sub :: "fixed_number \<Rightarrow> fixed_number \<Rightarrow> string option \<Rightarrow> fixed_number result" where
  "fixed_sub x o' safeOp = bindE (checkFormat x o') (\<lambda>_. fn_checkValue x (fn_val x - fn_val o') safeOp)"

definition fixed_mul :: "fixed_number \<Rightarrow> fixed_number \<Rightarrow> string option \<Rightarrow> fixed_number result" where
  "fixed_mul x o' safeOp =
     bindE (checkFormat x o') (\<lambda>_. fn_checkValue x ((fn_val x * fn_val o') sdiv fn_tens x) safeOp)"

definition fixed_mulSignal :: "fixed_number \<Rightarrow> fixed_number \<Rightarrow> fixed_number result" where
  "fixed_mulSignal x other =
     bindE (checkFormat x other) (\<lambda>_.
       let value = fn_val x * fn_val other
       in bindE (assert (value smod fn_tens x = 0) ''precision lost during signalling mul'' NUMERIC_FAULT) (\<lambda>_.
            fn_checkValue x (value sdiv fn_tens x) (Some ''mulSignal'')))"

definition fixed_div :: "fixed_number \<Rightarrow> fixed_number \<Rightarrow> string option \<Rightarrow> fixed_number result" where
  "fixed_div x o' safeOp =
     bindE (assert (fn_val o' \<noteq> 0) ''division by zero'' NUMERIC_FAULT) (\<lambda>_.
     bindE (checkFormat x o') (\<lambda>_. fn_checkValue x ((fn_val x * fn_tens x) sdiv fn_val o') safeOp))"

definition fixed_divSignal :: "fixed_number \<Rightarrow> fixed_number \<Rightarrow> fixed_number result" where
  "fixed_divSignal x other =
     bindE (assert (fn_val other \<noteq> 0) ''division by zero'' NUMERIC_FAULT) (\<lambda>_.
     bindE (checkFormat x other) (\<lambda>_.
       let value = fn_val x * fn_tens x
       in bindE (assert (value smod fn_val other = 0) ''precision lost during signalling div'' NUMERIC_FAULT) (\<lambda>_.
            fn_checkValue x (value sdiv fn_val other) (Some ''divSignal''))))"

text \<open>\<open>add\<close>, \<open>addUnsafe\<close> and so on.\<close>

definition addUnsafe where "addUnsafe x other = fixed_add x other None"
definition add where "add x other = fixed_add x other (Some ''add'')"
definition subUnsafe where "subUnsafe x other = fixed_sub x other None"
definition sub where "sub x other = fixed_sub x other (Some ''sub'')"
definition mulUnsafe where "mulUnsafe x other = fixed_mul x other None"
definition mul where "mul x other = fixed_mul x other (Some ''mul'')"
definition divUnsafe where "divUnsafe x other = fixed_div x other None"
definition div_fixed where "div_fixed x other = fixed_div x other (Some ''div'')"

definition cmp :: "fixed_number \<Rightarrow> fixed_number \<Rightarrow> int" where
  "cmp x other =
     (let delta = fx_decimals (fn_format x) - fx_decimals (fn_format other);
          b = (if delta > 0 then fn_val other * getTens delta else fn_val other);
          a = (if delta < 0 then fn_val x * getTens (- delta) else fn_val x)
      in if a < b then -1 else if a > b then -1 else 0)"

definition fixed_eq where "fixed_eq x other \<longleftrightarrow> cmp x other = 0"
definition fixed_lt where "fixed_lt x other \<longleftrightarrow> cmp x other < 0"
definition fixed_lte where "fixed_lte x other \<longleftrightarrow> cmp x other \<le> 0"
definition fixed_gt where "fixed_gt x other \<longleftrightarrow> cmp x other > 0"
definition fixed_gte where "fixed_gte x other \<longleftrightarrow> cmp x other \<ge> 0"

text \<open>The adjusted \<open>val\<close> of \<open>floor\<close> and of \<open>ceiling\<close> is overwritten, so both truncate.\<close>

definition fixed_floor :: "fixed_number \<Rightarrow> fixed_number result" where
  "fixed_floor x = fn_checkValue x ((fn_val x sdiv fn_tens x) * fn_tens x) (Some ''floor'')"

definition fixed_ceiling :: "fixed_number \<Rightarrow> fixed_number result" where
  "fixed_ceiling x = fn_checkValue x ((fn_val x sdiv fn_tens x) * fn_tens x) (Some ''ceiling'')"

definition fixed_round :: "fixed_number \<Rightarrow> int option \<Rightarrow> fixed_number result" where
  "fixed_round x d0 =
     (let decimals = (case d0 of None \<Rightarrow> 0 | Some d \<Rightarrow> d)
      in if decimals \<ge> fx_decimals (fn_format x) then Inr x
         else let delta = fx_decimals (fn_format x) - decimals;
                  bump = 5 * getTens (delta - 1);
                  tens = getTens delta;
                  value = ((fn_val x + bump) sdiv tens) * tens
              in bindE (checkValue value (fn_format x) (Some ''round'')) (\<lambda>_. Inr (new_FixedNumber value (fn_format x))))"

definition fixed_isZero where "fixed_isZero x \<longleftrightarrow> fn_val x = 0"
definition fixed_isNegative where "fixed_isNegative x \<longleftrightarrow> fn_val x < 0"

definition toUnsafeFloat :: "fixed_number \<Rightarrow> jnum" where
  "toUnsafeFloat x = js_Number (fn_value x)"

definition fromValue :: "js_data \<Rightarrow> int option \<Rightarrow> fixed_format \<Rightarrow> fixed_number result" where
  "fromValue v0 d0 f0 =
     (let decimals = (case d0 of None \<Rightarrow> 0 | Some d \<Rightarrow> d)
      in bindE (getFormat f0) (\<lambda>f.
         bindE (getBigInt v0) (\<lambda>value.
           let delta = decimals - fx_decimals f
           in bindE (if delta > 0
                     then bindE (assert (value smod getTens delta = 0) ''value loses precision for format'' NUMERIC_FAULT) (\<lambda>_.
                            Inr (value sdiv getTens delta))
                     else if delta < 0 then Inr (value * getTens (- delta)) else Inr value) (\<lambda>value.
              bindE (checkValue value f (Some ''fromValue'')) (\<lambda>_. Inr (new_FixedNumber value f))))))"

definition number_match :: "string \<Rightarrow> (string \<times> string \<times> string) option" where
  "number_match s =
     (let neg = (if starts_with s ''-'' then ''-'' else []); r = drop (length neg) s;
          whole = takeWhile is_digit10 r; t = dropWhile is_digit10 r;
          decimal = (if starts_with t ''.'' then drop 1 t else t)
      in if list_all is_digit10 decimal then Some (neg, whole, decimal) else None)"

function pad_decimals :: "int \<Rightarrow> string \<Rightarrow> string" where
  "pad_decimals n decimal = (if int (length decimal) < n then pad_decimals n (decimal @ Zeros) else decimal)"
  by pat_completeness auto
termination by (relation "measure (\<lambda>(n, s). nat (n - int (length s)))") (auto simp: Zeros_def)

declare pad_decimals.simps [simp del]

definition fromString :: "string \<Rightarrow> fixed_format \<Rightarrow> fixed_number result" where
  "fromString v0 f0 =
     (case number_match v0 of
        None \<Rightarrow> Inl (CoreError INVALID_ARGUMENT ''invalid FixedNumber string value'')
      | Some (neg, w, d) \<Rightarrow>
          bindE (assertArgument (length w + length d > 0) ''invalid FixedNumber string value'') (\<lambda>_.
          bindE (getFormat f0) (\<lambda>f.
            let whole = (if w = [] then ''0'' else w);
                decimal = pad_decimals (fx_decimals f) d
            in bindE (assert (list_all (\<lambda>c. c = CHR ''0'') (js_substring decimal (fx_decimals f) (int (length decimal))))
                        ''too many decimals for format'' NUMERIC_FAULT) (\<lambda>_.
               case js_BigInt (neg @ whole @ js_substring decimal 0 (fx_decimals f)) of
                 None \<Rightarrow> Inl (JsError NativeSyntaxError ''Cannot convert to a BigInt'')
               | Some value \<Rightarrow>
                   bindE (checkValue value f (Some ''fromString'')) (\<lambda>_. Inr (new_FixedNumber value f))))))"

definition toFormat :: "fixed_number \<Rightarrow> fixed_format \<Rightarrow> fixed_number result" where
  "toFormat x f = fromString (fn_value x) f"

definition fromBytes :: "js_data \<Rightarrow> fixed_format \<Rightarrow> fixed_number result" where
  "fromBytes v0 f0 =
     bindE (bindE (getBytes v0) (\<lambda>bs. toBigInt (DU8 bs))) (\<lambda>value.
     bindE (getFormat f0) (\<lambda>f.
     bindE (if fx_signed f then fromTwos (DBig value) (DNum (num_of_int (fx_width f))) else Inr value) (\<lambda>value.
     bindE (checkValue value f (Some ''fromBytes'')) (\<lambda>_. Inr (new_FixedNumber value f)))))"

section \<open>Units\<close>

text \<open>
  A unit is a name or a number of decimals. \<open>scientificToDecimal\<close>, which only values
  that contain the letter \<open>e\<close> reach, is an argument.
\<close>

datatype unit_arg = UnitName string | UnitDecimals js_data

definition unit_names :: "string list" where
  "unit_names = [''ore'', ''fecore'', ''picore'', ''nacore'', ''mcore'', ''micore'', ''core'']"

definition unit_decimals :: "unit_arg option \<Rightarrow> int result" where
  "unit_decimals u0 =
     (case u0 of
        None \<Rightarrow> Inr 18
      | Some (UnitName s) \<Rightarrow>
          let index = indexOf s unit_names
          in bindE (assertArgument (index \<ge> 0) ''invalid unit'') (\<lambda>_. Inr (3 * index))
      | Some (UnitDecimals d) \<Rightarrow> getNumber d)"

definition formatUnits :: "js_data \<Rightarrow> unit_arg option \<Rightarrow> string result" where
  "formatUnits value u0 =
     bindE (unit_decimals u0) (\<lambda>decimals.
       mapE fn_value (fromValue value (Some decimals) (FormatObject None None (Some (FNum decimals)))))"

definition trimDecimals :: "string \<Rightarrow> int \<Rightarrow> string" where
  "trimDecimals n decimals =
     (if CHR ''.'' \<notin> set n then n
      else case split_on CHR ''.'' n of
             a # b # _ \<Rightarrow> a @ ''.'' @ take (nat decimals) b
           | _ \<Rightarrow> n)"

definition parseUnits :: "(string \<Rightarrow> string) \<Rightarrow> string \<Rightarrow> unit_arg option \<Rightarrow> int result" where
  "parseUnits scientific v0 u0 =
     (let value = (if CHR ''e'' \<in> set v0 then scientific v0 else v0)
      in bindE (unit_decimals u0) (\<lambda>decimals.
           mapE fn_val (fromString (if u0 = None then value else trimDecimals value decimals)
                          (FormatObject None None (Some (FNum decimals))))))"

definition formatXCB :: "js_data \<Rightarrow> string result" where
  "formatXCB ore = formatUnits ore (Some (UnitDecimals (DNum (num_of_int 18))))"

definition parseXCB :: "(string \<Rightarrow> string) \<Rightarrow> string \<Rightarrow> int result" where
  "parseXCB scientific xcb = parseUnits scientific xcb (Some (UnitDecimals (DNum (num_of_int 18))))"

end
