(* ===== verification/Fixed_Props.thy ===== *)
theory Fixed_Props
  imports Fixed_Number Big_Number Address
begin

text \<open>
  Fixed-point numbers: the checked operations are exact inside the range of the
  field, but for its least value, which becomes its own negation; a decimal string
  reads back to the number it was made from; comparisons are never positive.
\<close>

section \<open>Powers of ten\<close>

lemma replicate_add_take: "take n (replicate m x) = replicate (min n m) x"
  by simp

lemma double_until_zeros: "\<exists>m. double_until n (replicate (Suc k) c) = replicate m c \<and> nat n \<le> m"
proof (induction "nat (n - int (Suc k))" arbitrary: k rule: less_induct)
  case less
  show ?case
  proof (cases "int (Suc k) < n")
    case True
    have "replicate (Suc k) c @ replicate (Suc k) c = replicate (Suc (Suc k + k)) c"
      by (simp add: replicate_add replicate_app_Cons_same)
    then show ?thesis
      using less [of "Suc k + k"] True by (subst double_until.simps) simp
  next
    case False
    then show ?thesis by (subst double_until.simps) (auto intro: exI [of _ "Suc k"])
  qed
qed

lemma getTens_string_eq: "0 \<le> d \<Longrightarrow> getTens_string d = CHR ''1'' # replicate (nat d) CHR ''0''"
proof -
  assume d: "0 \<le> d"
  obtain m where m: "double_until d Zeros = replicate m CHR ''0''" "nat d \<le> m"
    using double_until_zeros [of d 127 "CHR ''0''"] by (auto simp: Zeros_def)
  have "js_substring (replicate m CHR ''0'') (int 0) (int (nat d)) = take (nat d - 0) (drop 0 (replicate m CHR ''0''))"
    by (rule js_substring_nat) simp
  then show ?thesis using m d by (simp add: getTens_string_def)
qed

lemma is_digit10_0 [simp]: "is_digit10 CHR ''0''" "is_digit10 CHR ''1''" "\<not> is_digit10 CHR ''.''" "\<not> is_digit10 CHR ''e''"
  by (simp_all add: digit10_code)

lemma dec_value_0 [simp]: "dec_value (replicate k CHR ''0'') = 0"
  using dec_value_map [of "replicate k 0"] of_digits_replicate_0 [of 10 k "[]"] by simp

lemma getTens_eq: "0 \<le> d \<Longrightarrow> js_BigInt (getTens_string d) = Some (10 ^ nat d) \<and> getTens d = 10 ^ nat d"
proof -
  assume d: "0 \<le> d"
  have digits: "list_all is_digit10 (CHR ''1'' # replicate (nat d) CHR ''0'')" by (simp add: list_all_iff)
  have "dec_value ([CHR ''1''] @ replicate (nat d) CHR ''0'') = dec_value [CHR ''1''] * 10 ^ nat d"
    by (subst dec_value_append) (simp_all add: list_all_iff)
  moreover have "dec_value [CHR ''1''] = 1" by code_simp
  ultimately have "dec_value (CHR ''1'' # replicate (nat d) CHR ''0'') = 10 ^ nat d" by simp
  then show ?thesis using js_BigInt_dec(1) [OF digits] by (simp add: getTens_def getTens_string_eq [OF d])
qed

section \<open>Ranges\<close>

definition field_ok :: "field \<Rightarrow> bool" where
  "field_ok f \<longleftrightarrow> 0 < fx_width f \<and> safe_range (fx_width f) \<and> 0 \<le> fx_decimals f \<and> fx_decimals f \<le> 80"

definition least :: "field \<Rightarrow> int" where
  "least f = (if fx_signed f then - (2 ^ (nat (fx_width f) - 1)) else 0)"

definition limit :: "field \<Rightarrow> int" where
  "limit f = (if fx_signed f then 2 ^ (nat (fx_width f) - 1) else 2 ^ nat (fx_width f))"

definition in_field :: "field \<Rightarrow> int \<Rightarrow> bool" where
  "in_field f v \<longleftrightarrow> least f \<le> v \<and> v < limit f"

text \<open>What a checked operation stores: the least signed value turns into its negation.\<close>

definition stored :: "field \<Rightarrow> int \<Rightarrow> int" where
  "stored f v = (if fx_signed f \<and> v = least f then limit f else v)"

lemma mask_bits_Big:
  assumes "safe_range (int w)" and "0 \<le> v"
  shows "mask_bits (DBig v) (DBig (int w)) = Inr (v mod 2 ^ w)"
proof -
  have "v AND (2 ^ w - 1) = v mod 2 ^ w"
    by (simp add: take_bit_eq_mod flip: mask_eq_exp_minus_1 take_bit_eq_mask)
  then show ?thesis using assms by (simp add: mask_bits_def)
qed

lemma masked:
  assumes "0 < w" and "safe_range (int w)" and "0 \<le> v" and "v \<le> 2 ^ (w - 1)"
  shows "bindE (mask_bits (DBig v) (DBig (int w))) (\<lambda>m. fromTwos (DBig m) (DBig (int w))) =
    Inr (if v = 2 ^ (w - 1) then - v else v)"
proof -
  have half: "(2 :: int) ^ w = 2 * 2 ^ (w - 1)" using assms(1) by (cases w) simp_all
  have "0 < (2 :: int) ^ (w - 1)" by simp
  with assms half have "v mod 2 ^ w = v" by (intro mod_pos_pos_trivial) linarith+
  then show ?thesis using assms half by (simp add: mask_bits_Big fromTwos_Big)
qed

lemma checkValue_checked:
  assumes "field_ok f"
  shows "checkValue v f (Some op) =
    (if in_field f v then Inr (stored f v) else Inl (CoreError NUMERIC_FAULT ''overflow''))"
proof -
  define w where "w = nat (fx_width f)"
  have w: "fx_width f = int w" "0 < w" "safe_range (int w)" using assms by (auto simp: field_ok_def w_def)
  have w1: "int w - 1 = int (w - 1)" using w(2) by simp
  show ?thesis
  proof (cases "fx_signed f")
    case True
    have range: "in_field f v \<longleftrightarrow> - (2 ^ (w - 1)) \<le> v \<and> v < 2 ^ (w - 1)"
      by (simp add: in_field_def least_def limit_def True w(1))
    have pos: "v < 2 ^ (w - 1) \<Longrightarrow> 0 < v \<Longrightarrow>
        bindE (mask_bits (DBig v) (DBig (int w))) (\<lambda>m. fromTwos (DBig m) (DBig (int w))) = Inr v"
      using masked [OF w(2,3), of v] by simp
    have neg: "- (2 ^ (w - 1)) \<le> v \<Longrightarrow> v \<le> 0 \<Longrightarrow>
        bindE (mask_bits (DBig (- v)) (DBig (int w))) (\<lambda>m. fromTwos (DBig m) (DBig (int w))) =
          Inr (if v = - (2 ^ (w - 1)) then v else - v)"
      using masked [OF w(2,3), of "- v"] by (auto simp: minus_equation_iff)
    have st: "stored f v = (if v = - (2 ^ (w - 1)) then - v else v)"
      by (auto simp: stored_def least_def limit_def True w(1))
    show ?thesis
    proof (cases "in_field f v")
      case False
      then show ?thesis by (auto simp: checkValue_def Let_def True w(1) w1 range assert_def)
    next
      case in_range: True
      show ?thesis
      proof (cases "0 < v")
        case p: True
        then show ?thesis using in_range pos st by (auto simp: checkValue_def Let_def True w(1) w1 range)
      next
        case False
        then show ?thesis using in_range neg st by (auto simp: checkValue_def Let_def True w(1) w1 range)
      qed
    qed
  next
    case False
    have "(v smod 2 ^ w + 2 ^ w) smod 2 ^ w AND (2 ^ w - 1) = v" if "0 \<le> v" "v < 2 ^ w"
    proof -
      have "v smod 2 ^ w = v" "(v + 2 ^ w) smod 2 ^ w = v"
        using that by (auto simp: signed_modulo_int_def sgn_if)
      moreover have "v AND (2 ^ w - 1) = v"
        using that by (simp add: take_bit_int_eq_self flip: mask_eq_exp_minus_1 take_bit_eq_mask)
      ultimately show ?thesis by simp
    qed
    then show ?thesis
      by (auto simp: checkValue_def Let_def False w(1) bigint_rem_def in_field_def least_def limit_def stored_def assert_def)
  qed
qed

definition checked :: "field \<Rightarrow> int \<Rightarrow> fixed_number result" where
  "checked f v = (if in_field f v then Inr (new_FixedNumber (stored f v) f) else Inl (CoreError NUMERIC_FAULT ''overflow''))"

lemma new_simps [simp]:
  "fn_val (new_FixedNumber v f) = v" "fn_format (new_FixedNumber v f) = f" "fn_tens (new_FixedNumber v f) = getTens (fx_decimals f)"
  "fn_value (new_FixedNumber v f) = fixed_toString v (fx_decimals f)"
  by (simp_all add: new_FixedNumber_def)

lemma fn_checkValue_new: "field_ok f \<Longrightarrow> fn_checkValue (new_FixedNumber a f) v (Some op) = checked f v"
  by (simp add: fn_checkValue_def checkValue_checked checked_def)

text \<open>
  C21. Checked fixed-point arithmetic. On numbers of one field, \<open>add\<close>, \<open>sub\<close>, \<open>mul\<close> and
  \<open>div\<close> compute the sum, the difference, the product and the quotient scaled by
  \<open>10 ^ decimals\<close> and truncated, throw \<open>overflow\<close> exactly when it is outside the range of
  the field, and store it unchanged, but for the least value of a signed field, whose
  stored value is its negation, which is not in the field.
\<close>

theorem fixed_arithmetic:
  assumes "field_ok f"
  shows "add (new_FixedNumber a f) (new_FixedNumber b f) = checked f (a + b) \<and>
    sub (new_FixedNumber a f) (new_FixedNumber b f) = checked f (a - b) \<and>
    mul (new_FixedNumber a f) (new_FixedNumber b f) = checked f ((a * b) sdiv 10 ^ nat (fx_decimals f)) \<and>
    div_fixed (new_FixedNumber a f) (new_FixedNumber b f) =
      (if b = 0 then Inl (CoreError NUMERIC_FAULT ''division by zero'')
       else checked f ((a * 10 ^ nat (fx_decimals f)) sdiv b))"
  using assms getTens_eq [of "fx_decimals f"]
  by (simp add: add_def sub_def mul_def div_fixed_def fixed_add_def fixed_sub_def fixed_mul_def fixed_div_def
      checkFormat_def fn_checkValue_new field_ok_def)

definition fixed8 :: field where
  "fixed8 = \<lparr>fx_signed = True, fx_width = 8, fx_decimals = 0\<rparr>"

theorem fixed_arithmetic_witness:
  "sub (new_FixedNumber (-127) fixed8) (new_FixedNumber 1 fixed8) = Inr (new_FixedNumber 128 fixed8) \<and>
   sub (new_FixedNumber (-127) fixed8) (new_FixedNumber 2 fixed8) = Inl (CoreError NUMERIC_FAULT ''overflow'')"
proof -
  have "field_ok fixed8" by (simp add: field_ok_def fixed8_def safe_range_def maxValue_def)
  from fixed_arithmetic [OF this] show ?thesis
    by (simp add: checked_def in_field_def least_def limit_def stored_def fixed8_def)
qed

section \<open>Comparison\<close>

text \<open>Both branches of \<open>cmp\<close> return -1, so nothing is greater than anything.\<close>

lemma cmp_never_positive: "\<not> fixed_gt x y" "fixed_lt x y \<longleftrightarrow> \<not> fixed_eq x y" "fixed_lte x y" "fixed_gte x y \<longleftrightarrow> fixed_eq x y"
  by (auto simp: fixed_gt_def fixed_lt_def fixed_eq_def fixed_lte_def fixed_gte_def cmp_def Let_def)

lemma fixed_eq_iff:
  assumes "fx_decimals (fn_format x) = fx_decimals (fn_format y)"
  shows "fixed_eq x y \<longleftrightarrow> fn_val x = fn_val y"
  using assms by (auto simp: fixed_eq_def cmp_def Let_def)

text \<open>\<open>floor\<close> and \<open>ceiling\<close> compute the same number.\<close>

lemma floor_is_ceiling:
  "field_ok f \<Longrightarrow> fixed_floor (new_FixedNumber a f) = fixed_ceiling (new_FixedNumber a f)"
  by (simp add: fixed_floor_def fixed_ceiling_def fn_checkValue_new)

definition tenths :: field where
  "tenths = \<lparr>fx_signed = True, fx_width = 16, fx_decimals = 1\<rparr>"

text \<open>The floor of -1.5 is -1 and -1.6 rounds to -1.\<close>

lemma negatives_truncate:
  "fixed_floor (new_FixedNumber (- 15) tenths) = Inr (new_FixedNumber (- 10) tenths)"
  "fixed_round (new_FixedNumber (- 16) tenths) None = Inr (new_FixedNumber (- 10) tenths)"
  by code_simp+

section \<open>Decimal strings\<close>

lemma pad_zeros_spec:
  assumes "list_all is_digit10 str"
  shows "\<exists>k. pad_zeros d str = replicate k CHR ''0'' @ str \<and> d < int (length (pad_zeros d str))"
proof -
  have "\<exists>k. pad_zeros d str = replicate k CHR ''0'' @ str \<and> d < int (length (pad_zeros d str))"
    if "list_all is_digit10 str" for d str
    using that
  proof (induction d str rule: pad_zeros.induct)
    case (1 d str)
    show ?case
    proof (cases "int (length str) \<le> d")
      case True
      with 1 obtain k where "pad_zeros d (Zeros @ str) = replicate k CHR ''0'' @ Zeros @ str"
        "d < int (length (pad_zeros d (Zeros @ str)))" by (auto simp: Zeros_def list_all_iff)
      with True show ?thesis
        by (subst (1 2) pad_zeros.simps) (auto simp: Zeros_def replicate_add intro: exI [of _ "k + 128"])
    next
      case False
      then show ?thesis by (subst (1 2) pad_zeros.simps) (auto intro: exI [of _ 0])
    qed
  qed
  with assms show ?thesis by blast
qed

lemma trim_whole_spec:
  assumes "w \<noteq> []" and "list_all is_digit10 w"
  shows "\<exists>k w'. trim_whole (w @ CHR ''.'' # r) = w' @ CHR ''.'' # r \<and> w = replicate k CHR ''0'' @ w' \<and> w' \<noteq> []"
  using assms
proof (induction w)
  case (Cons c w)
  show ?case
  proof (cases "c = CHR ''0'' \<and> w \<noteq> []")
    case True
    then have "\<exists>k w'. trim_whole (w @ CHR ''.'' # r) = w' @ CHR ''.'' # r \<and> w = replicate k CHR ''0'' @ w' \<and> w' \<noteq> []"
      using Cons by simp
    then obtain k w' where "trim_whole (w @ CHR ''.'' # r) = w' @ CHR ''.'' # r" "w = replicate k CHR ''0'' @ w'" "w' \<noteq> []"
      by blast
    moreover have "take 1 (w @ CHR ''.'' # r) \<noteq> ''.''" using True Cons.prems by (cases w) auto
    ultimately show ?thesis using True by (intro exI [of _ "Suc k"] exI [of _ w']) simp
  next
    case False
    then show ?thesis by (intro exI [of _ 0] exI [of _ "c # w"]) auto
  qed
qed simp

lemma trim_decimals_spec:
  assumes "f \<noteq> []" and "list_all is_digit10 f"
  shows "\<exists>k f'. trim_decimals (w @ CHR ''.'' # f) = w @ CHR ''.'' # f' \<and> f = f' @ replicate k CHR ''0'' \<and> f' \<noteq> []"
proof -
  have "list_all is_digit10 (rev f)" using assms(2) by (simp add: list_all_iff)
  then obtain k r where r: "trim_whole (rev f @ CHR ''.'' # rev w) = r @ CHR ''.'' # rev w"
    "rev f = replicate k CHR ''0'' @ r" "r \<noteq> []"
    using trim_whole_spec [of "rev f" "rev w"] assms(1) by (metis rev_is_Nil_conv)
  then have "f = rev (replicate k CHR ''0'' @ r)" by (metis rev_rev_ident)
  with r show ?thesis
    by (intro exI [of _ k] exI [of _ "rev r"]) (auto simp: trim_decimals_def)
qed

definition digits_of :: "int \<Rightarrow> string" where
  "digits_of v = int_toString 10 \<bar>v\<bar>"

lemma digits_of_digits: "list_all is_digit10 (digits_of v)" "digits_of v \<noteq> []" "int (dec_value (digits_of v)) = \<bar>v\<bar>"
proof -
  obtain ds where ds: "nat_toString 10 (nat \<bar>v\<bar>) = map digit_char ds" "\<forall>d \<in> set ds. d < 10" "ds \<noteq> []"
    using nat_toString_digits by blast
  then show "list_all is_digit10 (digits_of v)"
    by (auto simp: digits_of_def int_toString_def list_all_iff digit10_char)
  show "digits_of v \<noteq> []" using ds by (simp add: digits_of_def int_toString_def)
  show "int (dec_value (digits_of v)) = \<bar>v\<bar>" by (simp add: digits_of_def int_toString_def dec_value_toString)
qed

lemma digits_split:
  assumes "list_all is_digit10 w"
  shows "takeWhile is_digit10 w = w" "dropWhile is_digit10 w = []"
    "takeWhile is_digit10 (w @ CHR ''.'' # f) = w" "dropWhile is_digit10 (w @ CHR ''.'' # f) = CHR ''.'' # f"
  using assms by (induction w) auto

lemma zeros_digits [simp]: "list_all is_digit10 (replicate k CHR ''0'')"
  by (simp add: list_all_iff)

text \<open>The shape of a printed number: a sign, a whole part and a trimmed decimal part.\<close>

lemma fixed_toString_shape:
  assumes "0 < d"
  shows "\<exists>w f k. fixed_toString v d = (if v < 0 then ''-'' else []) @ w @ CHR ''.'' # f \<and>
    list_all is_digit10 w \<and> list_all is_digit10 f \<and> w \<noteq> [] \<and> f \<noteq> [] \<and> length f + k = nat d \<and>
    int (dec_value (w @ f @ replicate k CHR ''0'')) = \<bar>v\<bar>"
proof -
  define p where "p = pad_zeros d (digits_of v)"
  obtain j where j: "p = replicate j CHR ''0'' @ digits_of v" "d < int (length p)"
    using pad_zeros_spec [OF digits_of_digits(1), of d v] unfolding p_def by blast
  have p: "list_all is_digit10 p" "int (dec_value p) = \<bar>v\<bar>"
    using digits_of_digits(1,3) [of v] by (simp_all add: j(1) dec_value_append)
  define n where "n = length p - nat d"
  have n: "n \<le> length p" "0 < n" "length p - n = nat d" "int (length p) - d = int n" using j(2) assms by (auto simp: n_def)
  have sub: "js_substring p 0 (int n) = take n p" "js_substring p (int n) (int (length p)) = drop n p"
    using js_substring_nat [of 0 n p] js_substring_nat [of n "length p" p] n(1) by simp_all
  obtain i w where w: "trim_whole (take n p @ CHR ''.'' # drop n p) = w @ CHR ''.'' # drop n p"
    "take n p = replicate i CHR ''0'' @ w" "w \<noteq> []"
    using trim_whole_spec [of "take n p"] p(1) n by (metis list_all_append append_take_drop_id take_eq_Nil length_greater_0_conv less_le_trans not_less_zero)
  obtain k f where f: "trim_decimals (w @ CHR ''.'' # drop n p) = w @ CHR ''.'' # f"
    "drop n p = f @ replicate k CHR ''0''" "f \<noteq> []"
    using trim_decimals_spec [of "drop n p" w] p(1) n assms by (metis list_all_append append_take_drop_id length_drop length_0_conv zero_less_nat_eq less_irrefl)
  have "p = replicate i CHR ''0'' @ w @ f @ replicate k CHR ''0''" using w(2) f(2) by (metis append_assoc append_take_drop_id)
  then have eq: "list_all is_digit10 w" "list_all is_digit10 f" "int (dec_value (w @ f @ replicate k CHR ''0'')) = \<bar>v\<bar>"
    using p by (simp_all add: dec_value_append list_all_iff)
  have "length f + k = nat d" using f(2) n(3) by (metis length_append length_drop length_replicate)
  moreover have "fixed_toString v d = (if v < 0 then ''-'' else []) @ w @ CHR ''.'' # f"
    using assms w(1) f(1) sub by (simp add: fixed_toString_def Let_def p_def [unfolded digits_of_def, symmetric] n(4))
  ultimately show ?thesis using eq w(3) f(3) by blast
qed

lemma number_match_eq:
  assumes "list_all is_digit10 w" and "list_all is_digit10 f" and "w \<noteq> []"
  shows "number_match ((if b then ''-'' else []) @ w @ CHR ''.'' # f) = Some (if b then ''-'' else [], w, f)"
    "number_match ((if b then ''-'' else []) @ w) = Some (if b then ''-'' else [], w, [])"
proof -
  have "\<not> starts_with (w @ r) ''-''" for r using assms(1,3) not_digit10 by (cases w) (auto simp: starts_with_def)
  moreover have starts: "starts_with (c # r) [c]" "\<not> starts_with [] [c :: char]" for c :: char and r
    by (simp_all add: starts_with_def)
  ultimately show "number_match ((if b then ''-'' else []) @ w @ CHR ''.'' # f) = Some (if b then ''-'' else [], w, f)"
    "number_match ((if b then ''-'' else []) @ w) = Some (if b then ''-'' else [], w, [])"
    using assms(2) digits_split [OF assms(1)] starts \<open>\<And>r. \<not> starts_with (w @ r) ''-''\<close> [of "[]"]
    by (auto simp: number_match_def Let_def simp del: dropWhile_eq_Nil_conv)
qed

lemma pad_decimals_spec:
  assumes "int (length f) \<le> d" and "d \<le> 80"
  shows "\<exists>m. pad_decimals d f = f @ replicate m CHR ''0'' \<and> nat d \<le> length f + m"
proof (cases "int (length f) < d")
  case True
  have "pad_decimals d (f @ Zeros) = f @ Zeros" using assms by (subst pad_decimals.simps) (simp add: Zeros_def)
  with True assms show ?thesis by (subst pad_decimals.simps) (auto simp: Zeros_def)
next
  case False
  with assms show ?thesis by (subst pad_decimals.simps) (auto intro: exI [of _ 0])
qed

lemma js_BigInt_signed:
  assumes "list_all is_digit10 r" and "r \<noteq> []"
  shows "js_BigInt ((if b then ''-'' else []) @ r) = Some (if b then - int (dec_value r) else int (dec_value r))"
  using js_BigInt_dec [OF assms] by simp

lemma fromString_parts:
  assumes "getFormat f0 = Inr f" and "field_ok f" and "in_field f v"
    and "number_match s = Some (if v < 0 then ''-'' else [], w, d)"
    and "list_all is_digit10 w" "list_all is_digit10 d" "w \<noteq> []" "length d + k = nat (fx_decimals f)"
    and "int (dec_value (w @ d @ replicate k CHR ''0'')) = \<bar>v\<bar>"
  shows "fromString s f0 = Inr (new_FixedNumber v f)"
proof -
  define n where "n = nat (fx_decimals f)"
  have d: "int (length d) \<le> fx_decimals f" "fx_decimals f \<le> 80" "fx_decimals f = int n"
    using assms(2,8) by (auto simp: field_ok_def n_def)
  obtain m where m: "pad_decimals (fx_decimals f) d = d @ replicate m CHR ''0''" "n \<le> length d + m"
    using pad_decimals_spec [OF d(1,2)] by (auto simp: n_def)
  have nd: "n - length d = k" "length d \<le> n" using assms(8) by (auto simp: n_def)
  have "js_substring (d @ replicate m CHR ''0'') (int 0) (int n) = take (n - 0) (drop 0 (d @ replicate m CHR ''0''))"
    by (rule js_substring_nat) simp
  then have pre: "js_substring (d @ replicate m CHR ''0'') 0 (int n) = d @ replicate k CHR ''0''"
    using nd m(2) by (simp add: min_def)
  have post: "js_substring (d @ replicate m CHR ''0'') (int n) (int (length (d @ replicate m CHR ''0''))) =
      drop n (d @ replicate m CHR ''0'')"
    using js_substring_nat [of n "length (d @ replicate m CHR ''0'')" "d @ replicate m CHR ''0''"] m(2) by simp
  have zeros: "list_all (\<lambda>c. c = CHR ''0'') (drop n (d @ replicate m CHR ''0''))"
    using nd by (simp add: list_all_iff)
  have "js_BigInt ((if v < 0 then ''-'' else []) @ w @ d @ replicate k CHR ''0'') = Some v"
    using js_BigInt_signed [of "w @ d @ replicate k CHR ''0''" "v < 0"] assms(5,6,7,9) by auto
  then show ?thesis
    using assms(1,2,3,4,7) m pre post zeros d(3)
    by (simp add: fromString_def Let_def checkValue_checked)
qed

lemma fromString_toString:
  assumes "getFormat f0 = Inr f" and "field_ok f" and "in_field f v"
  shows "fromString (fixed_toString v (fx_decimals f)) f0 = Inr (new_FixedNumber v f)"
proof (cases "fx_decimals f = 0")
  case True
  have "fixed_toString v (fx_decimals f) = (if v < 0 then ''-'' else []) @ digits_of v"
    by (simp add: fixed_toString_def True digits_of_def)
  then show ?thesis
    using number_match_eq(2) [OF digits_of_digits(1) _ digits_of_digits(2), of "[]" "v < 0" v] digits_of_digits [of v] True
    by (intro fromString_parts [OF assms, where w = "digits_of v" and d = "[]" and k = 0]) simp_all
next
  case False
  then have "0 < fx_decimals f" using assms(2) by (simp add: field_ok_def)
  from fixed_toString_shape [OF this, of v] obtain w d k where s:
    "fixed_toString v (fx_decimals f) = (if v < 0 then ''-'' else []) @ w @ CHR ''.'' # d"
    "list_all is_digit10 w" "list_all is_digit10 d" "w \<noteq> []" "length d + k = nat (fx_decimals f)"
    "int (dec_value (w @ d @ replicate k CHR ''0'')) = \<bar>v\<bar>" by blast
  show ?thesis
    using number_match_eq(1) [OF s(2,3,4), of "v < 0"] s
    by (intro fromString_parts [OF assms, where w = w and d = d and k = k]) simp_all
qed

section \<open>Units\<close>

lemma trimDecimals_id:
  assumes "CHR ''.'' \<notin> set a" and "CHR ''.'' \<notin> set f" and "length f \<le> nat d"
  shows "trimDecimals (a @ CHR ''.'' # f) d = a @ CHR ''.'' # f"
  using assms by (simp add: trimDecimals_def split_on_once split_on_none)

lemma digits_chars: "list_all is_digit10 w \<Longrightarrow> CHR ''.'' \<notin> set w \<and> CHR ''e'' \<notin> set w"
  by (auto simp: list_all_iff)

lemma printed_plain:
  assumes "0 \<le> d"
  shows "CHR ''e'' \<notin> set (fixed_toString v d) \<and> trimDecimals (fixed_toString v d) d = fixed_toString v d"
proof (cases "d = 0")
  case True
  have "fixed_toString v d = (if v < 0 then ''-'' else []) @ digits_of v"
    by (simp add: fixed_toString_def True digits_of_def)
  then show ?thesis using digits_chars [OF digits_of_digits(1), of v] by (simp add: trimDecimals_def)
next
  case False
  then have "0 < d" using assms by simp
  from fixed_toString_shape [OF this, of v] obtain w f k where s:
    "fixed_toString v d = (if v < 0 then ''-'' else []) @ w @ CHR ''.'' # f"
    "list_all is_digit10 w" "list_all is_digit10 f" "length f + k = nat d" by blast
  then have "trimDecimals (((if v < 0 then ''-'' else []) @ w) @ CHR ''.'' # f) d = ((if v < 0 then ''-'' else []) @ w) @ CHR ''.'' # f"
    using digits_chars by (intro trimDecimals_id) auto
  then show ?thesis using s(1) digits_chars [OF s(2)] digits_chars [OF s(3)] by auto
qed

text \<open>
  Decimal strings are lossless. For every unit with at most 80 decimals and every
  value of 128 bits, \<open>formatUnits\<close> gives a string that \<open>parseUnits\<close> of the same unit reads
  back as the value.
\<close>

theorem units_roundtrip:
  assumes "unit_decimals u = Inr d" and "0 \<le> d" and "d \<le> 80" and "- (2 ^ 127) \<le> v" and "v < 2 ^ 127"
  shows "bindE (formatUnits (DBig v) u) (\<lambda>s. parseUnits scientific s u) = Inr v"
proof -
  define f where "f = \<lparr>fx_signed = True, fx_width = 128, fx_decimals = d\<rparr>"
  have f: "getFormat (FormatObject None None (Some (FNum d))) = Inr f" "field_ok f" "in_field f v" "fx_decimals f = d"
    using assms by (simp_all add: getFormat_def format_parts_def check_bool_def check_number_def f_def field_ok_def
        in_field_def least_def limit_def safe_range_def maxValue_def)
  have "fromValue (DBig v) (Some d) (FormatObject None None (Some (FNum d))) = Inr (new_FixedNumber v f)"
    using f by (simp add: fromValue_def Let_def checkValue_checked)
  moreover have "fromString (fixed_toString v d) (FormatObject None None (Some (FNum d))) = Inr (new_FixedNumber v f)"
    using fromString_toString [OF f(1,2,3)] f(4) by simp
  ultimately show ?thesis
    using assms(1) printed_plain [OF assms(2), of v] f(4) by (simp add: formatUnits_def parseUnits_def Let_def)
qed

theorem units_roundtrip_witness:
  "formatUnits (DBig (- 1500)) (Some (UnitName ''fecore'')) = Inr ''-1.5'' \<and>
   bindE (formatUnits (DBig (- 1500)) (Some (UnitName ''fecore''))) (\<lambda>s. parseUnits (\<lambda>s. s) s (Some (UnitName ''fecore''))) = Inr (- 1500)"
proof
  show "formatUnits (DBig (- 1500)) (Some (UnitName ''fecore'')) = Inr ''-1.5''" by code_simp
  show "bindE (formatUnits (DBig (- 1500)) (Some (UnitName ''fecore''))) (\<lambda>s. parseUnits (\<lambda>s. s) s (Some (UnitName ''fecore''))) = Inr (- 1500)"
    by (rule units_roundtrip [where d = 3]) (simp_all add: unit_decimals_def unit_names_def Let_def)
qed

end
