(* ===== verification/Mnemonic_Props.thy ===== *)
theory Mnemonic_Props
  imports Mnemonic
begin

text \<open>
  Phrases and entropy. The words of a phrase are the digits, in base 2048, of the
  entropy followed by its checksum bits; the two conversions are inverse.
\<close>

section \<open>Masks are divisions\<close>

lemma getLowerMask_eq: "k \<le> 8 \<Longrightarrow> getLowerMask k = mask k"
proof -
  assume k: "k \<le> 8"
  have "mask k AND mask 8 = (mask (min k 8) :: nat)" by (simp add: min_def flip: take_bit_eq_mask)
  then show ?thesis using k by (simp add: getLowerMask_def mask_eq_exp_minus_1 push_bit_eq_mult min_def)
qed

lemma and_lower: "k \<le> 8 \<Longrightarrow> n AND getLowerMask k = n mod 2 ^ k"
  by (simp add: getLowerMask_eq take_bit_eq_mod flip: take_bit_eq_mask)

lemma byte_bit: "n < 256 \<Longrightarrow> bit (n :: nat) i \<Longrightarrow> i < 8"
proof -
  assume "n < 256" "bit n i"
  then have "bit (take_bit 8 n) i" by (simp add: take_bit_nat_eq_self)
  then show "i < 8" by (simp add: bit_take_bit_iff)
qed

lemma and_upper:
  assumes "k \<le> 8" and "n < 256"
  shows "n AND getUpperMask k = n div 2 ^ (8 - k) * 2 ^ (8 - k)"
proof -
  have eq: "getUpperMask k = take_bit 8 (push_bit (8 - k) (mask k))"
    by (simp add: getUpperMask_def mask_eq_exp_minus_1 push_bit_eq_mult take_bit_eq_mask)
  have "bit (n AND getUpperMask k) i \<longleftrightarrow> bit (push_bit (8 - k) (drop_bit (8 - k) n)) i" for i
    using assms(1) byte_bit [OF assms(2), of i]
    by (auto simp: eq bit_and_iff bit_take_bit_iff bit_push_bit_iff bit_mask_iff bit_drop_bit_eq)
  then have "n AND getUpperMask k = push_bit (8 - k) (drop_bit (8 - k) n)" by (rule bit_eqI)
  then show ?thesis by (simp add: push_bit_eq_mult drop_bit_eq_div)
qed

section \<open>The bits of a phrase are a number\<close>

lemma or_disjoint: "b < 2 ^ k \<Longrightarrow> push_bit k a OR b = (a * 2 ^ k + b :: nat)"
proof -
  assume b: "b < 2 ^ k"
  have low: "bit b i \<Longrightarrow> i < k" for i
    using b by (metis bit_take_bit_iff take_bit_nat_eq_self)
  then have "\<not> bit (push_bit k a) i \<or> \<not> bit b i" for i by (auto simp: bit_push_bit_iff dest: low)
  then have "push_bit k a + b = push_bit k a OR b" by (intro disjunctive_add_eq_or bit_eqI) (simp add: bit_and_iff)
  then show ?thesis by (simp add: push_bit_eq_mult)
qed

subsection \<open>Encoding\<close>

definition enc_inv :: "byte list \<Rightarrow> nat list \<times> nat \<Rightarrow> bool" where
  "enc_inv bs st \<longleftrightarrow>
     (let (ix, rem) = st
      in ix \<noteq> [] \<and> 1 \<le> rem \<and> rem \<le> 11 \<and> (\<forall>d \<in> set (butlast ix). d < 2048) \<and> last ix < 2 ^ (11 - rem) \<and>
         11 * length ix = 8 * length bs + rem \<and>
         of_digits 2048 (butlast ix) * 2 ^ (11 - rem) + last ix = bytes_value bs)"

lemma bytes_value_snoc: "bytes_value (bs @ [e]) = bytes_value bs * 256 + unat e"
  by (simp add: bytes_value_def)

lemma unat_byte: "unat (e :: byte) < 256"
  using unsigned_less [where ?'a = nat, of e] by simp

lemma push_add: "a < 2 ^ m \<Longrightarrow> b < 2 ^ k \<Longrightarrow> a * 2 ^ k + b < 2 ^ (m + k)" for a b :: nat
proof -
  assume "a < 2 ^ m" "b < 2 ^ k"
  then have "a * 2 ^ k + b < (a + 1) * 2 ^ k" "(a + 1) * 2 ^ k \<le> 2 ^ m * 2 ^ k"
    by (simp, intro mult_right_mono) auto
  then show ?thesis by (simp add: power_add)
qed

lemma enc_step:
  assumes "enc_inv bs (ix, rem)"
  shows "enc_inv (bs @ [e]) (entropy_byte (ix, rem) e)"
proof -
  define v l where "v = of_digits 2048 (butlast ix)" and "l = last ix"
  have inv: "ix \<noteq> []" "1 \<le> rem" "rem \<le> 11" "\<forall>d \<in> set (butlast ix). d < 2048" "l < 2 ^ (11 - rem)"
    "11 * length ix = 8 * length bs + rem" "v * 2 ^ (11 - rem) + l = bytes_value bs"
    using assms by (auto simp: enc_inv_def v_def l_def)
  show ?thesis
  proof (cases "rem > 8")
    case True
    have "l * 2 ^ 8 + unat e < 2 ^ (11 - rem + 8)" using inv(5) unat_byte [of e] by (intro push_add) simp_all
    moreover have "11 - rem + 8 = 11 - (rem - 8)" using True inv(3) by simp
    moreover have "v * 2 ^ (11 - (rem - 8)) + (l * 2 ^ 8 + unat e) = bytes_value bs * 256 + unat e"
    proof -
      have "v * 2 ^ (11 - rem + 8) + l * 2 ^ 8 = (v * 2 ^ (11 - rem) + l) * 2 ^ 8" by (simp add: power_add algebra_simps)
      then show ?thesis using True inv(3,7) by simp
    qed
    ultimately show ?thesis
      using True inv or_disjoint [of "unat e" 8 l] unat_byte [of e]
      by (auto simp: enc_inv_def entropy_byte_def Let_def bytes_value_snoc v_def l_def)
  next
    case False
    then have r: "rem \<le> 8" by simp
    define h t where "h = unat e div 2 ^ (8 - rem)" and "t = unat e mod 2 ^ (8 - rem)"
    have e: "unat e = h * 2 ^ (8 - rem) + t" "t < 2 ^ (8 - rem)" by (simp_all add: h_def t_def div_mult_mod_eq)
    have h: "h < 2 ^ rem"
      unfolding h_def using unat_byte [of e] r by (subst div_less_iff_less_mult) (simp_all flip: power_add)
    have full: "l * 2 ^ rem + h < 2048" using push_add [OF inv(5) h] inv(3) by simp
    have "(v * 2048 + (l * 2 ^ rem + h)) * 2 ^ (8 - rem) + t = bytes_value bs * 256 + unat e"
    proof -
      have z: "(2 :: nat) ^ (11 - rem) = 8 * 2 ^ (8 - rem)"
        using power_add [of "2 :: nat" 3 "8 - rem"] r by simp
      have xy: "l * 2 ^ rem * 2 ^ (8 - rem) = l * 256" using r by (simp flip: power_add)
      have "(v * 2048 + (l * 2 ^ rem + h)) * 2 ^ (8 - rem) + t =
          v * 2048 * 2 ^ (8 - rem) + l * 2 ^ rem * 2 ^ (8 - rem) + unat e" by (simp add: algebra_simps e(1))
      then show ?thesis unfolding xy by (simp add: inv(7) [symmetric] z algebra_simps)
    qed
    moreover have "11 - (rem + 3) = 8 - rem" by simp
    moreover have "push_bit rem l OR drop_bit (8 - rem) (unat e) = l * 2 ^ rem + h"
      using or_disjoint [OF h, of l] by (simp add: drop_bit_eq_div h_def)
    ultimately show ?thesis
      using False inv full e(2) r and_lower [of "8 - rem" "unat e"]
      by (auto simp add: enc_inv_def entropy_byte_def Let_def bytes_value_snoc v_def l_def t_def butlast_append)
  qed
qed

lemma enc_fold: "enc_inv bs (foldl entropy_byte ([0], 11) bs)"
proof (induction bs rule: rev_induct)
  case (snoc e bs)
  then show ?case using enc_step [of bs "fst (foldl entropy_byte ([0], 11) bs)" "snd (foldl entropy_byte ([0], 11) bs)" e] by simp
qed (simp add: enc_inv_def bytes_value_def)

text \<open>The first byte of the hash gives \<open>q\<close> checksum bits.\<close>

definition checksum_bits :: "(byte list \<Rightarrow> byte list) \<Rightarrow> byte list \<Rightarrow> nat" where
  "checksum_bits sha bs = unat (sha bs ! 0) div 2 ^ (8 - length bs div 4)"

lemma checksum_bits_less: "length bs \<le> 32 \<Longrightarrow> checksum_bits sha bs < 2 ^ (length bs div 4)"
proof -
  assume "length bs \<le> 32"
  then have "length bs div 4 \<le> 8" by simp
  then show ?thesis
    using unat_byte [of "sha bs ! 0"] unfolding checksum_bits_def
    by (subst div_less_iff_less_mult) (simp_all flip: power_add)
qed

lemma entropy_indices_spec:
  assumes "length bs = 4 * q" and "4 \<le> q" and "q \<le> 8"
  shows "length (entropy_indices sha bs) = 3 * q \<and> (\<forall>d \<in> set (entropy_indices sha bs). d < 2048) \<and>
    of_digits 2048 (entropy_indices sha bs) = bytes_value bs * 2 ^ q + checksum_bits sha bs"
proof -
  obtain ix rem where st: "foldl entropy_byte ([0], 11) bs = (ix, rem)" by (cases "foldl entropy_byte ([0], 11) bs")
  have inv: "ix \<noteq> []" "1 \<le> rem" "rem \<le> 11" "\<forall>d \<in> set (butlast ix). d < 2048" "last ix < 2 ^ (11 - rem)"
    "11 * length ix = 32 * q + rem" "of_digits 2048 (butlast ix) * 2 ^ (11 - rem) + last ix = bytes_value bs"
    using enc_fold [of bs] assms(1) by (auto simp: st enc_inv_def)
  from assms(2,3) consider "q = 4" | "q = 5" | "q = 6" | "q = 7" | "q = 8" by linarith
  then have "rem = q" using inv(2,3,6) by cases presburger+
  then have len: "length ix = 3 * q" using inv(6) by simp
  define c where "c = checksum_bits sha bs"
  have q: "length bs div 4 = q" using assms(1) by simp
  have c: "c < 2 ^ q" using checksum_bits_less [of bs sha] assms q by (simp add: c_def)
  have "drop_bit (8 - q) (unat (sha bs ! 0) AND getUpperMask q) = c"
    using and_upper [OF assms(3) unat_byte] by (simp add: drop_bit_eq_div c_def checksum_bits_def q)
  then have eq: "entropy_indices sha bs = butlast ix @ [last ix * 2 ^ q + c]"
    using or_disjoint [OF c, of "last ix"] by (simp add: entropy_indices_def st Let_def q)
  have "last ix * 2 ^ q + c < 2048" using push_add [OF inv(5) c] \<open>rem = q\<close> assms(3) by simp
  moreover have "of_digits 2048 (butlast ix) * 2048 + (last ix * 2 ^ q + c) = bytes_value bs * 2 ^ q + c"
  proof -
    have "bytes_value bs * 2 ^ q = of_digits 2048 (butlast ix) * (2 ^ (11 - q) * 2 ^ q) + last ix * 2 ^ q"
      unfolding inv(7) [symmetric] \<open>rem = q\<close> by (simp add: algebra_simps)
    also have "2 ^ (11 - q) * 2 ^ q = (2048 :: nat)" using assms(3) by (simp flip: power_add)
    finally show ?thesis by simp
  qed
  ultimately show ?thesis using inv(1,4) len assms(2) by (auto simp: eq c_def)
qed

subsection \<open>Decoding\<close>

lemma set_bit_value:
  assumes "bytes_value arr = v * 2 ^ (8 * length arr - o')" and "o' < 8 * length arr"
  shows "bytes_value (set_entropy_bit o' arr) = (2 * v + 1) * 2 ^ (8 * length arr - (o' + 1))"
proof -
  define j k where "j = o' div 8" and "k = 7 - o' mod 8"
  define P B Q n where "P = bytes_value (take j arr)" and "B = unat (arr ! j)" and "Q = bytes_value (drop (Suc j) arr)"
    and "n = length arr - Suc j"
  have j: "j < length arr" using assms(2) by (simp add: j_def)
  have o': "o' = 8 * j + (7 - k)" "k \<le> 7" by (simp_all add: j_def k_def)
  have e: "8 * length arr - o' = 8 * n + (k + 1)" "8 * length arr - (o' + 1) = 8 * n + k"
    using o' j by (simp_all add: n_def)
  have n: "length (drop (Suc j) arr) = n" by (simp add: n_def)
  have p8: "(2 :: nat) ^ (8 * n) = 256 ^ n" by (simp add: power_mult)
  have split: "arr = take j arr @ [arr ! j] @ drop (Suc j) arr" using j by (simp add: id_take_nth_drop [symmetric])
  have "bytes_value arr = (P * 256 + B) * 256 ^ n + Q"
    by (subst split) (simp add: bytes_value_append P_def B_def Q_def bytes_value_def of_digits_append of_digits_Cons n_def algebra_simps)
  moreover have "bytes_value arr = (v * 2 ^ (k + 1)) * 256 ^ n" using assms(1) e(1) p8 by (simp add: power_add)
  moreover have "Q < 256 ^ n" using bytes_value_bound [of "drop (Suc j) arr"] n by (simp add: Q_def)
  ultimately have "Q = 0" and pb: "P * 256 + B = v * 2 ^ (k + 1)"
    by (metis mod_mult_self3 mod_mult_self2_is_0 mod_less add.commute mult.commute,
        metis div_mult_self3 nonzero_mult_div_cancel_right div_less add.right_neutral power_not_zero zero_neq_numeral)
  have k8: "(256 :: nat) = 2 ^ (k + 1) * 2 ^ (7 - k)" using o'(2) by (simp flip: power_add)
  have "2 ^ (k + 1) dvd P * 256" unfolding k8 by simp
  then have "2 ^ (k + 1) dvd B" using pb by (metis dvd_add_right_iff dvd_triv_right)
  then obtain b where b: "B = b * 2 ^ (k + 1)" by (auto simp: dvd_def mult.commute)
  have B: "unat (arr ! j OR push_bit k 1) = B + 2 ^ k"
  proof -
    have "unat (push_bit k (1 :: byte)) = 2 ^ k"
      unfolding unsigned_push_bit_eq using o'(2) by (simp add: take_bit_nat_eq_self push_bit_eq_mult)
    then show ?thesis using or_disjoint [of "2 ^ k" "k + 1" b] by (simp add: unsigned_or_eq B_def [symmetric] b push_bit_eq_mult)
  qed
  have new: "set_entropy_bit o' arr = take j arr @ [arr ! j OR push_bit k 1] @ drop (Suc j) arr"
    using j by (simp add: set_entropy_bit_def j_def k_def upd_conv_take_nth_drop)
  have "bytes_value (set_entropy_bit o' arr) = (P * 256 + (B + 2 ^ k)) * 256 ^ n + Q"
    by (simp add: new bytes_value_append P_def B [symmetric] Q_def bytes_value_def of_digits_append of_digits_Cons n_def algebra_simps)
  also have "\<dots> = (v * 2 ^ (k + 1) + 2 ^ k) * 256 ^ n" using pb \<open>Q = 0\<close> by (simp flip: add.assoc)
  also have "\<dots> = (2 * v + 1) * 2 ^ (8 * n + k)" using p8 by (simp add: power_add algebra_simps)
  finally show ?thesis unfolding e(2) .
qed

lemma length_set_entropy_bit [simp]: "length (set_entropy_bit o' arr) = length arr"
  by (simp add: set_entropy_bit_def)

text \<open>\<open>dec_inv v st\<close>: the bits written so far, from the left, are the number \<open>v\<close>.\<close>

definition dec_inv :: "nat \<Rightarrow> nat \<Rightarrow> byte list \<times> nat \<Rightarrow> bool" where
  "dec_inv L v st \<longleftrightarrow> length (fst st) = L \<and> snd st \<le> 8 * L \<and> bytes_value (fst st) = v * 2 ^ (8 * L - snd st)"

lemma dec_bit:
  assumes "dec_inv L v st" and "snd st < 8 * L"
  shows "dec_inv L (2 * v + of_bool (index AND push_bit (10 - b) 1 \<noteq> 0)) (entropy_bit index st b)"
proof -
  have "8 * L - snd st = Suc (8 * L - (snd st + 1))" using assms(2) by simp
  then have "v * 2 ^ (8 * L - snd st) = 2 * v * 2 ^ (8 * L - (snd st + 1))" by simp
  then show ?thesis
    using assms set_bit_value [of "fst st" v "snd st"]
    by (auto simp: dec_inv_def entropy_bit_def split_def)
qed

lemma and_push_1: "(index AND push_bit k 1 \<noteq> 0) = odd (index div 2 ^ k)" for index :: nat
  by (simp only: bit_iff_and_push_bit_not_eq_0 [symmetric] bit_iff_odd)

lemma dec_bits:
  assumes "dec_inv L v st" and "snd st + n \<le> 8 * L" and "n \<le> 11" and "index < 2048"
  shows "dec_inv L (v * 2 ^ n + index div 2 ^ (11 - n)) (foldl (entropy_bit index) st [0..<n]) \<and>
    snd (foldl (entropy_bit index) st [0..<n]) = snd st + n"
  using assms(2,3)
proof (induction n)
  case 0
  then show ?case using assms(1,4) by simp
next
  case (Suc n)
  let ?st = "foldl (entropy_bit index) st [0..<n]"
  have IH: "dec_inv L (v * 2 ^ n + index div 2 ^ (11 - n)) ?st" "snd ?st = snd st + n" using Suc by simp_all
  have "11 - n = Suc (10 - n)" using Suc.prems(2) by simp
  then have half: "index div 2 ^ (11 - n) = index div 2 ^ (10 - n) div 2" 
    by (simp only: power_Suc2 div_mult2_eq)
  have arg: "2 * (v * 2 ^ n + index div 2 ^ (11 - n)) + of_bool (odd (index div 2 ^ (10 - n))) =
      v * 2 ^ Suc n + index div 2 ^ (11 - Suc n)"
    unfolding half by (simp add: algebra_simps)
  have "snd (entropy_bit index ?st n) = snd ?st + 1" by (simp add: entropy_bit_def split_def Let_def)
  then show ?case using dec_bit [OF IH(1), of index n, unfolded and_push_1 arg] IH(2) Suc.prems by simp
qed

lemma dec_words:
  assumes "dec_inv L v st" and "snd st + 11 * length ix \<le> 8 * L" and "\<forall>d \<in> set ix. d < 2048"
  shows "dec_inv L (v * 2048 ^ length ix + of_digits 2048 ix) (foldl (\<lambda>st i. entropy_word i st) st ix) \<and>
    snd (foldl (\<lambda>st i. entropy_word i st) st ix) = snd st + 11 * length ix"
  using assms
proof (induction ix arbitrary: v st)
  case (Cons i ix)
  have "dec_inv L (v * 2048 + i) (entropy_word i st) \<and> snd (entropy_word i st) = snd st + 11"
    using dec_bits [of L v st 11 i] Cons.prems by (simp add: entropy_word_def)
  then show ?case using Cons.IH [of "v * 2048 + i" "entropy_word i st"] Cons.prems
    by (auto simp: of_digits_Cons algebra_simps)
qed simp

lemma entropy_words_fold:
  assumes "list_all2 (\<lambda>w i. wl_getWordIndex wl (nfkd w) = Inr (int i)) ws ix"
  shows "entropy_words nfkd wl ws st = Inr (foldl (\<lambda>st i. entropy_word i st) st ix)"
  using assms by (induction ws ix arbitrary: st rule: list_all2_induct) simp_all

lemma entropy_words_found:
  assumes "entropy_words nfkd wl ws st = Inr st'"
  shows "\<exists>ix. list_all2 (\<lambda>w i. wl_getWordIndex wl (nfkd w) = Inr (int i)) ws ix"
  using assms
proof (induction ws arbitrary: st)
  case (Cons w ws)
  then obtain i where i: "wl_getWordIndex wl (nfkd w) = Inr i" "0 \<le> i" by auto
  with Cons obtain ix where "list_all2 (\<lambda>w i. wl_getWordIndex wl (nfkd w) = Inr (int i)) ws ix" by fastforce
  with i show ?case by (intro exI [of _ "nat i # ix"]) simp
qed (auto intro: exI [of _ "[]"])

section \<open>The conversions are inverse\<close>

lemma bytes_value_inj: "length xs = length ys \<Longrightarrow> bytes_value xs = bytes_value ys \<Longrightarrow> xs = ys"
proof -
  assume "length xs = length ys" "bytes_value xs = bytes_value ys"
  then have "map unat xs = map unat ys"
    unfolding bytes_value_def by (intro of_digits_eq_iff [of _ _ 256]) (auto simp: unat_byte)
  then show "xs = ys" by (metis injI inj_map_eq_map unsigned_word_eqI)
qed

lemma parts_eq:
  assumes "a * 2 ^ q + c = b * 2 ^ q + d" and "c < 2 ^ q" and "d < (2 :: nat) ^ q"
  shows "a = b \<and> c = d"
proof -
  have "(a * 2 ^ q + c) div 2 ^ q = a" "(b * 2 ^ q + d) div 2 ^ q = b" using assms(2,3) by simp_all
  then have "a = b" using assms(1) by simp
  with assms(1) show ?thesis by simp
qed

lemma mnemonicToEntropy_iff:
  assumes "list_all2 (\<lambda>w i. wl_getWordIndex wl (nfkd w) = Inr (int i)) (wl_split wl p) ix"
    and "\<forall>d \<in> set ix. d < 2048"
  shows "mnemonicToEntropy nfkd sha wl p = Inr h \<longleftrightarrow>
    (\<exists>bs. h = ''0x'' @ hex_of_bytes bs \<and> length bs \<in> {16, 20, 24, 28, 32} \<and> ix = entropy_indices sha bs)"
proof (cases "length ix mod 3 = 0 \<and> 12 \<le> length ix \<and> length ix \<le> 24")
  case False
  have "length ix \<noteq> length (entropy_indices sha bs)" if "length bs \<in> {16, 20, 24, 28, 32}" for bs
    using False that entropy_indices_spec [of bs "length bs div 4" sha] by auto
  with False show ?thesis using list_all2_lengthD [OF assms(1)]
    by (auto simp: mnemonicToEntropy_def Let_def)
next
  case True
  define q where "q = length ix div 3"
  have n: "length ix = 3 * q" "4 \<le> q" "q \<le> 8" using True by (auto simp: q_def)
  define L where "L = 4 * q + 1"
  have L: "(11 * length ix + 7) div 8 = L" "11 * length ix \<le> 8 * L" "8 * L - 11 * length ix = 8 - q" "32 * length ix div 3 div 8 = 4 * q"
    using n by (simp_all add: L_def)
  obtain arr o' where st: "foldl (\<lambda>st i. entropy_word i st) (replicate L 0, 0) ix = (arr, o')"
    by (cases "foldl (\<lambda>st i. entropy_word i st) (replicate L 0, 0) ix")
  have "dec_inv L 0 (replicate L 0, 0)" using bytes_value_zeros [of L "[]"] by (simp add: dec_inv_def bytes_value_def)
  from dec_words [OF this _ assms(2)] have arr: "length arr = L" "bytes_value arr = of_digits 2048 ix * 2 ^ (8 - q)"
    using L(2,3) by (simp_all add: st dec_inv_def)
  define E l where "E = take (4 * q) arr" and "l = arr ! (4 * q)"
  have split: "arr = E @ [l]" using arr(1) by (simp add: E_def l_def L_def take_Suc_conv_app_nth [symmetric])
  have lenE: "length E = 4 * q" using arr(1) by (simp add: E_def L_def)
  define c where "c = unat l div 2 ^ (8 - q)"
  have p8: "(256 :: nat) = 2 ^ q * 2 ^ (8 - q)" using n(3) by (simp flip: power_add)
  have all: "of_digits 2048 ix * 2 ^ (8 - q) = bytes_value E * 256 + unat l"
    using arr(2) by (simp add: split bytes_value_snoc)
  have "2 ^ (8 - q) dvd bytes_value E * 256" unfolding p8 by simp
  then have "2 ^ (8 - q) dvd unat l" using all by (metis dvd_add_right_iff dvd_triv_right)
  then have l: "unat l = c * 2 ^ (8 - q)" by (simp add: c_def)
  have "of_digits 2048 ix * 2 ^ (8 - q) = (bytes_value E * 2 ^ q + c) * 2 ^ (8 - q)"
    using all unfolding p8 l by (simp add: algebra_simps)
  then have digits: "of_digits 2048 ix = bytes_value E * 2 ^ q + c" by simp
  have c: "c < 2 ^ q"
    using unat_byte [of l] unfolding c_def p8 by (subst div_less_iff_less_mult) simp_all
  have masked: "unat x AND getUpperMask q = unat y AND getUpperMask q \<longleftrightarrow> unat x div 2 ^ (8 - q) = unat y div 2 ^ (8 - q)" for x y :: byte
    using n(3) by (simp add: and_upper unat_byte)
  have len: "length (wl_split wl p) = 3 * q" using list_all2_lengthD [OF assms(1)] n(1) by simp
  have sum: "checksum_bits sha E = unat (sha E ! 0) div 2 ^ (8 - q)" by (simp add: checksum_bits_def lenE)
  have words: "entropy_words nfkd wl (wl_split wl p) (replicate L 0, 0) = Inr (arr, o')"
    using entropy_words_fold [OF assms(1)] st by simp
  have parts: "(11 * (3 * q) + 7) div 8 = L" "32 * (3 * q) div 3 div 8 = 4 * q" "3 * q div 3 = q" "length arr - 1 = 4 * q"
    using L(1) n(1) arr(1) by (simp_all add: L_def)
  have "mnemonicToEntropy nfkd sha wl p = Inr h \<longleftrightarrow> h = ''0x'' @ hex_of_bytes E \<and> checksum_bits sha E = c"
    using n(2,3) unfolding mnemonicToEntropy_def Let_def len parts words sum c_def
    by (auto simp: parts [simplified] masked E_def [symmetric] l_def [symmetric])
  also have "\<dots> \<longleftrightarrow> (\<exists>bs. h = ''0x'' @ hex_of_bytes bs \<and> length bs \<in> {16, 20, 24, 28, 32} \<and> ix = entropy_indices sha bs)"
  proof
    assume h: "h = ''0x'' @ hex_of_bytes E \<and> checksum_bits sha E = c"
    have "of_digits 2048 (entropy_indices sha E) = of_digits 2048 ix"
      using entropy_indices_spec [OF lenE n(2,3), of sha] h digits by simp
    then have "ix = entropy_indices sha E"
      using entropy_indices_spec [OF lenE n(2,3), of sha] assms(2) n(1) by (intro of_digits_eq_iff [of _ _ 2048]) auto
    moreover have "length E \<in> {16, 20, 24, 28, 32}" using lenE n(2,3) by auto
    ultimately show "\<exists>bs. h = ''0x'' @ hex_of_bytes bs \<and> length bs \<in> {16, 20, 24, 28, 32} \<and> ix = entropy_indices sha bs"
      using h by blast
  next
    assume "\<exists>bs. h = ''0x'' @ hex_of_bytes bs \<and> length bs \<in> {16, 20, 24, 28, 32} \<and> ix = entropy_indices sha bs"
    then obtain bs where bs: "h = ''0x'' @ hex_of_bytes bs" "length bs \<in> {16, 20, 24, 28, 32}" "ix = entropy_indices sha bs" by blast
    define k where "k = length bs div 4"
    have k: "length bs = 4 * k" "4 \<le> k" "k \<le> 8" using bs(2) by (auto simp: k_def)
    note spec = entropy_indices_spec [OF k, of sha]
    have "k = q" using spec n(1) bs(3) by simp
    then have "checksum_bits sha bs < 2 ^ q" using checksum_bits_less [of bs sha] k by simp
    then have "bytes_value bs = bytes_value E \<and> checksum_bits sha bs = c"
      using spec bs(3) digits c \<open>k = q\<close> by (intro parts_eq) auto
    moreover then have "bs = E" using k(1) lenE \<open>k = q\<close> by (intro bytes_value_inj) auto
    ultimately show "h = ''0x'' @ hex_of_bytes E \<and> checksum_bits sha E = c" using bs(1) by simp
  qed
  finally show ?thesis .
qed

section \<open>Word lists\<close>

text \<open>What the conversions rely on: words are found at their index, and joined words split again.\<close>

definition wordlist_ok :: "(string \<Rightarrow> string) \<Rightarrow> wordlist \<Rightarrow> bool" where
  "wordlist_ok nfkd wl \<longleftrightarrow>
     (\<forall>i < 2048. \<exists>w. wl_getWord wl i = Inr w \<and> wl_getWordIndex wl (nfkd w) = Inr (int i)) \<and>
     (\<forall>w i. wl_getWordIndex wl w = Inr (int i) \<longrightarrow> i < 2048) \<and>
     (\<forall>ws. ws \<noteq> [] \<and> (\<forall>w \<in> set ws. \<exists>i. wl_getWord wl i = Inr w) \<longrightarrow> wl_split wl (wl_join wl ws) = ws)"

lemma wordlist_words:
  assumes "wordlist_ok nfkd wl" and "\<forall>d \<in> set ix. d < 2048"
  shows "\<exists>ws. mapM (wl_getWord wl) ix = Inr ws \<and>
    list_all2 (\<lambda>w i. wl_getWordIndex wl (nfkd w) = Inr (int i)) ws ix \<and> (\<forall>w \<in> set ws. \<exists>i. wl_getWord wl i = Inr w)"
  using assms(2)
proof (induction ix)
  case (Cons i ix)
  then obtain ws where "mapM (wl_getWord wl) ix = Inr ws" "list_all2 (\<lambda>w i. wl_getWordIndex wl (nfkd w) = Inr (int i)) ws ix"
    "\<forall>w \<in> set ws. \<exists>i. wl_getWord wl i = Inr w" by auto
  moreover obtain w where "wl_getWord wl i = Inr w" "wl_getWordIndex wl (nfkd w) = Inr (int i)"
    using assms(1) Cons.prems by (auto simp: wordlist_ok_def)
  ultimately show ?case by (intro exI [of _ "w # ws"]) auto
qed simp

declare split_spaces.simps [simp del]

lemma split_spaces_Cons:
  "\<not> is_js_space c \<Longrightarrow> split_spaces (c # s) = (case split_spaces s of [] \<Rightarrow> [[c]] | w # ws \<Rightarrow> (c # w) # ws)"
  "is_js_space c \<Longrightarrow> s = d # r \<Longrightarrow> \<not> is_js_space d \<Longrightarrow> split_spaces (c # s) = [] # split_spaces s"
  by (simp_all add: split_spaces.simps(2) [of c])

lemma split_spaces_nonempty [simp]: "split_spaces s \<noteq> []"
proof (induction s)
  case (Cons c s)
  then show ?case by (cases s; cases "split_spaces s") (simp_all add: split_spaces.simps(2) [of c])
qed (simp add: split_spaces.simps(1))

lemma split_spaces_word:
  assumes "list_all is_lower w"
  shows "split_spaces (w @ s) = (w @ hd (split_spaces s)) # tl (split_spaces s)"
  using assms
proof (induction w)
  case (Cons c w)
  then have "\<not> is_js_space c" by (auto simp: is_lower_def is_js_space_def)
  with Cons show ?case by (simp add: split_spaces_Cons(1))
qed simp

lemma to_lower_word: "list_all is_lower w \<Longrightarrow> map to_lower w = w"
  by (induction w) (auto simp: is_lower_def to_lower_def Let_def)

lemma split_join:
  assumes "ws \<noteq> []" and "\<forall>w \<in> set ws. w \<noteq> [] \<and> list_all is_lower w"
  shows "wordlist_split (wordlist_join ws) = ws"
proof -
  have "map to_lower (wordlist_join ws) = wordlist_join ws \<and> split_spaces (wordlist_join ws) = ws"
    using assms
  proof (induction ws rule: wordlist_join.induct)
    case (2 w)
    then show ?case using split_spaces_word [of w "[]"] to_lower_word by (simp add: split_spaces.simps(1))
  next
    case (3 w v ws)
    define s where "s = wordlist_join (v # ws)"
    have IH: "map to_lower s = s" "split_spaces s = v # ws" and w: "list_all is_lower w" "w \<noteq> []"
      using 3 by (auto simp: s_def)
    obtain c t where join: "s = c # t" "is_lower c"
      using "3.prems" by (cases ws; cases v) (auto simp: s_def)
    then have "split_spaces (CHR '' '' # s) = [] # v # ws"
      using IH(2) by (subst split_spaces_Cons(2)) (auto simp: is_lower_def is_js_space_def)
    moreover have "map to_lower (w @ '' '' @ s) = w @ '' '' @ s"
      using IH(1) to_lower_word [OF w(1)] by (simp add: to_lower_def Let_def)
    ultimately show ?case using split_spaces_word [OF w(1), of "CHR '' '' # s"] by (simp flip: s_def)
  qed simp
  then show ?thesis by (simp add: wordlist_split_def)
qed

text \<open>A list of 2048 distinct lower-case words that \<open>WordlistOwl\<close> decodes is such a word list.\<close>

lemma owl_wordlist_ok:
  assumes "loadWords id_hash w = Inr words" and "length words = 2048" and "distinct words"
    and "\<forall>x \<in> set words. x \<noteq> [] \<and> list_all is_lower x" and "\<forall>x \<in> set words. nfkd x = x"
  shows "wordlist_ok nfkd (owl_wordlist id_hash w)"
  unfolding wordlist_ok_def
proof (intro conjI allI impI)
  fix i :: nat
  assume i: "i < 2048"
  then have "nfkd (words ! i) = words ! i" using assms(2,5) by simp
  then show "\<exists>x. wl_getWord (owl_wordlist id_hash w) i = Inr x \<and> wl_getWordIndex (owl_wordlist id_hash w) (nfkd x) = Inr (int i)"
    using i assms(1,2,3) by (auto simp: owl_wordlist_def owl_getWord_def owl_getWordIndex_def indexOf_nth)
next
  fix x i
  assume "wl_getWordIndex (owl_wordlist id_hash w) x = Inr (int i)"
  then show "i < 2048" using assms(1,2) nth_indexOf [of x words i] by (auto simp: owl_wordlist_def owl_getWordIndex_def)
next
  fix ws
  assume ws: "ws \<noteq> [] \<and> (\<forall>x \<in> set ws. \<exists>i. wl_getWord (owl_wordlist id_hash w) i = Inr x)"
  then have "\<forall>x \<in> set ws. x \<in> set words" using assms(1) by (auto simp: owl_wordlist_def owl_getWord_def)
  then show "wl_split (owl_wordlist id_hash w) (wl_join (owl_wordlist id_hash w) ws) = ws"
    using ws assms(4) by (auto simp: owl_wordlist_def intro: split_join)
qed

section \<open>Properties\<close>

text \<open>
  C22. Mnemonics are lossless. For every word list whose words are found at their index
  and split as they are joined, and any hash, the phrase of an entropy of 16, 20, 24,
  28 or 32 bytes exists, is valid, and gives the entropy back.
\<close>

theorem mnemonic_roundtrip:
  assumes "wordlist_ok nfkd wl" and "length bs \<in> {16, 20, 24, 28, 32}"
  shows "\<exists>p. entropyToMnemonic sha wl bs = Inr p \<and> mnemonicToEntropy nfkd sha wl p = Inr (''0x'' @ hex_of_bytes bs)"
proof -
  define q where "q = length bs div 4"
  have q: "length bs = 4 * q" "4 \<le> q" "q \<le> 8" using assms(2) by (auto simp: q_def)
  note spec = entropy_indices_spec [OF q, of sha]
  then obtain ws where ws: "mapM (wl_getWord wl) (entropy_indices sha bs) = Inr ws"
    "list_all2 (\<lambda>w i. wl_getWordIndex wl (nfkd w) = Inr (int i)) ws (entropy_indices sha bs)" "\<forall>w \<in> set ws. \<exists>i. wl_getWord wl i = Inr w"
    using wordlist_words [OF assms(1), of "entropy_indices sha bs"] by blast
  have "ws \<noteq> []" using list_all2_lengthD [OF ws(2)] spec q(2) by auto
  then have "wl_split wl (wl_join wl ws) = ws" using assms(1) ws(3) by (auto simp: wordlist_ok_def)
  then have "mnemonicToEntropy nfkd sha wl (wl_join wl ws) = Inr (''0x'' @ hex_of_bytes bs)"
    using mnemonicToEntropy_iff [of wl nfkd "wl_join wl ws" "entropy_indices sha bs"] ws(2) spec assms(2) by auto
  moreover have "entropyToMnemonic sha wl bs = Inr (wl_join wl ws)" using q ws(1) by (simp add: entropyToMnemonic_def)
  ultimately show ?thesis by blast
qed

text \<open>
  Exactly the phrases with a right checksum are valid. A phrase is valid exactly when
  its words are all in the list and their indices are those of an entropy followed by
  the first bits of its hash; \<open>fromPhrase\<close> then makes the phrase of the same indices.
\<close>

theorem mnemonic_valid_iff:
  assumes "wordlist_ok nfkd wl"
  shows "isValidMnemonic nfkd sha wl p =
    (\<exists>bs. length bs \<in> {16, 20, 24, 28, 32} \<and>
      list_all2 (\<lambda>w i. wl_getWordIndex wl (nfkd w) = Inr (int i)) (wl_split wl p) (entropy_indices sha bs))"
proof (cases "\<exists>ix. list_all2 (\<lambda>w i. wl_getWordIndex wl (nfkd w) = Inr (int i)) (wl_split wl p) ix")
  case False
  have "mnemonicToEntropy nfkd sha wl p \<noteq> Inr h" for h
    using False entropy_words_found [of nfkd wl "wl_split wl p"] by (auto simp: mnemonicToEntropy_def Let_def)
  with False show ?thesis unfolding isValidMnemonic_def by (auto split: sum.split)
next
  case True
  then obtain ix where ix: "list_all2 (\<lambda>w i. wl_getWordIndex wl (nfkd w) = Inr (int i)) (wl_split wl p) ix" ..
  have "\<forall>d \<in> set ix. d < 2048"
    using ix assms by (fastforce simp: wordlist_ok_def list_all2_conv_all_nth in_set_conv_nth)
  from mnemonicToEntropy_iff [OF ix this, of sha]
  have "(\<exists>h. mnemonicToEntropy nfkd sha wl p = Inr h) \<longleftrightarrow>
      (\<exists>bs. length bs \<in> {16, 20, 24, 28, 32} \<and> ix = entropy_indices sha bs)" by blast
  then have "isValidMnemonic nfkd sha wl p \<longleftrightarrow> (\<exists>bs. length bs \<in> {16, 20, 24, 28, 32} \<and> ix = entropy_indices sha bs)"
    unfolding isValidMnemonic_def by (cases "mnemonicToEntropy nfkd sha wl p") simp_all
  moreover have "ix = ix'" if "list_all2 (\<lambda>w i. wl_getWordIndex wl (nfkd w) = Inr (int i)) (wl_split wl p) ix'" for ix'
    using ix that by (auto simp: list_all2_conv_all_nth intro: nth_equalityI)
  ultimately show ?thesis using ix by metis
qed

section \<open>Witnesses\<close>

text \<open>A word list to try them on: the number of each index, in letters.\<close>

definition letters_of :: "nat \<Rightarrow> string" where
  "letters_of i = map (\<lambda>d. char_of (97 + d)) [i div 256, i div 16 mod 16, i mod 16]"

definition index_of_letters :: "string \<Rightarrow> int" where
  "index_of_letters w =
     (case map (\<lambda>c. (of_char c :: nat)) w of
        [a, b, c] \<Rightarrow> if 97 \<le> a \<and> a < 105 \<and> 97 \<le> b \<and> b < 113 \<and> 97 \<le> c \<and> c < 113
                     then int ((a - 97) * 256 + (b - 97) * 16 + (c - 97)) else -1
      | _ \<Rightarrow> -1)"

definition letters :: wordlist where
  "letters = \<lparr>wl_split = wordlist_split, wl_join = wordlist_join,
     wl_getWord = (\<lambda>i. bindE (assertArgument (i < 2048) ''invalid word index'') (\<lambda>_. Inr (letters_of i))),
     wl_getWordIndex = (\<lambda>w. Inr (index_of_letters w))\<rparr>"

lemma letters_ok: "wordlist_ok (\<lambda>w. w) letters"
  unfolding wordlist_ok_def
proof (intro conjI allI impI)
  fix i :: nat
  assume i: "i < 2048"
  define a b c where "a = i div 16 div 16" and "b = i div 16 mod 16" and "c = i mod 16"
  have "i div 16 = a * 16 + b" "i = i div 16 * 16 + c" by (simp_all add: a_def b_def c_def)
  then have sum: "a * 256 + b * 16 + c = i" by simp
  have bounds: "a < 8" "b < 16" "c < 16" using i by (simp_all add: a_def b_def c_def)
  have "of_char (char_of (97 + d) :: char) = 97 + d" if "d < 16" for d :: nat using that by simp
  then have "map (\<lambda>c. (of_char c :: nat)) (letters_of i) = [97 + a, 97 + b, 97 + c]"
    using bounds by (simp add: letters_of_def a_def b_def c_def div_mult2_eq [of i 16 16, simplified])
  then have "index_of_letters (letters_of i) = int i"
    using bounds sum by (simp add: index_of_letters_def)
  then show "\<exists>w. wl_getWord letters i = Inr w \<and> wl_getWordIndex letters w = Inr (int i)"
    using i by (simp add: letters_def)
next
  fix w i
  assume "wl_getWordIndex letters w = Inr (int i)"
  then show "i < 2048" by (auto simp: letters_def index_of_letters_def split: list.splits if_splits)
next
  fix ws
  assume "ws \<noteq> [] \<and> (\<forall>w \<in> set ws. \<exists>i. wl_getWord letters i = Inr w)"
  moreover have "letters_of i \<noteq> [] \<and> list_all is_lower (letters_of i)" if "i < 2048" for i
    using that by (auto simp: letters_of_def is_lower_def)
  ultimately show "wl_split letters (wl_join letters ws) = ws"
    by (auto simp: letters_def intro!: split_join)
qed

theorem mnemonic_roundtrip_witness:
  "\<exists>p. entropyToMnemonic (\<lambda>_. [0xab]) letters (replicate 16 7) = Inr p \<and>
    mnemonicToEntropy (\<lambda>w. w) (\<lambda>_. [0xab]) letters p = Inr (''0x'' @ hex_of_bytes (replicate 16 7))"
  by (rule mnemonic_roundtrip [OF letters_ok]) simp

theorem mnemonic_valid_iff_witness:
  "\<not> isValidMnemonic (\<lambda>w. w) (\<lambda>_. [0xab]) letters ''aab aab''"
proof
  assume "isValidMnemonic (\<lambda>w. w) (\<lambda>_. [0xab]) letters ''aab aab''"
  then obtain bs where bs: "length bs \<in> {16, 20, 24, 28, 32}"
    "list_all2 (\<lambda>w i. wl_getWordIndex letters w = Inr (int i)) (wl_split letters ''aab aab'') (entropy_indices (\<lambda>_. [0xab]) bs)"
    using mnemonic_valid_iff [OF letters_ok, of "\<lambda>_. [0xab]" "''aab aab''"] by blast
  have "length (wl_split letters ''aab aab'') = 2" by code_simp
  then have "length (entropy_indices (\<lambda>_. [0xab]) bs) = 2" using list_all2_lengthD [OF bs(2)] by simp
  then show False using bs(1) entropy_indices_spec [of bs "length bs div 4" "\<lambda>_. [0xab]"] by auto
qed

end
