(* ===== verification/Encodings.thy ===== *)
theory Encodings
  imports Maths
begin

text \<open>
  \<open>src.ts/utils/base58.ts\<close> and \<open>uuid.ts\<close>. The alphabet of Base58 is an instance of the
  alphabets of \<open>Js\<close>, whose laws give the round trips.
\<close>

section \<open>Base58\<close>

definition Alphabet58 :: string where
  "Alphabet58 = ''123456789ABCDEFGHJKLMNPQRSTUVWXYZabcdefghijkmnopqrstuvwxyz''"

definition getAlpha :: "char \<Rightarrow> int result" where
  "getAlpha letter =
     (let i = indexOf letter Alphabet58
      in bindE (assertArgument (i \<ge> 0) ''invalid base58 value'') (\<lambda>_. Inr i))"

fun base58_loop :: "nat \<Rightarrow> string \<Rightarrow> string" where
  "base58_loop v result = (if v = 0 then result else base58_loop (v div 58) (Alphabet58 ! (v mod 58) # result))"

declare base58_loop.simps [simp del]

definition encodeBase58 :: "js_data \<Rightarrow> string result" where
  "encodeBase58 v0 =
     bindE (bindE (getBytes v0) (\<lambda>bs. toBigInt (DU8 bs))) (\<lambda>v. Inr (base58_loop (nat v) []))"

fun decode58_loop :: "string \<Rightarrow> int \<Rightarrow> int result" where
  "decode58_loop [] result = Inr result"
| "decode58_loop (c # s) result = bindE (getAlpha c) (\<lambda>a. decode58_loop s (result * 58 + a))"

definition decodeBase58 :: "string \<Rightarrow> int result" where
  "decodeBase58 s = decode58_loop s 0"

definition chr58 :: "nat \<Rightarrow> char" where
  "chr58 d = Alphabet58 ! d"

definition val58 :: "char \<Rightarrow> nat option" where
  "val58 c = (if c \<in> set Alphabet58 then Some (nat (indexOf c Alphabet58)) else None)"

lemma Alphabet58_distinct: "distinct Alphabet58" "length Alphabet58 = 58"
  unfolding Alphabet58_def by code_simp+

lemma val58_Some: "val58 c = Some d \<longleftrightarrow> indexOf c Alphabet58 = int d"
proof -
  have "c \<in> set Alphabet58 \<Longrightarrow> 0 \<le> indexOf c Alphabet58"
    using indexOf_range [of c Alphabet58] indexOf_notin [of c Alphabet58] by linarith
  moreover have "indexOf c Alphabet58 = int d \<Longrightarrow> c \<in> set Alphabet58"
    using indexOf_notin [of c Alphabet58] by linarith
  ultimately show ?thesis by (auto simp: val58_def)
qed

interpretation b58: strict_alphabet 58 chr58 val58
proof unfold_locales
  show "val58 (chr58 d) = Some d" if "d < 58" for d
    using that Alphabet58_distinct by (simp add: val58_Some chr58_def indexOf_nth)
  show "d < 58" if "val58 c = Some d" for c d
    using that nth_indexOf [of c Alphabet58 d] Alphabet58_distinct by (simp add: val58_Some)
  show "chr58 d = c" if "val58 c = Some d" for c d
    using that nth_indexOf [of c Alphabet58 d] by (simp add: val58_Some chr58_def)
qed simp

lemma base58_loop_eq: "base58_loop v result = encode_with chr58 58 v @ result"
proof (induction v result rule: base58_loop.induct)
  case (1 v result)
  show ?case
  proof (cases "v = 0")
    case False
    then have "encode_with chr58 58 v = encode_with chr58 58 (v div 58) @ [chr58 (v mod 58)]"
      by (simp add: encode_with_def to_digits_pos)
    then show ?thesis using 1 False by (subst base58_loop.simps) (simp flip: chr58_def)
  qed (simp add: base58_loop.simps encode_with_def)
qed

lemma getAlpha_eq: "getAlpha c = (case val58 c of None \<Rightarrow> Inl (CoreError INVALID_ARGUMENT ''invalid base58 value'') | Some d \<Rightarrow> Inr (int d))"
proof (cases "val58 c")
  case (Some d)
  then have "indexOf c Alphabet58 = int d" by (simp add: val58_Some)
  with Some show ?thesis by (simp add: getAlpha_def)
next
  case None
  then have "indexOf c Alphabet58 = -1" by (simp add: val58_def split: if_splits)
  then have "\<not> 0 \<le> indexOf c Alphabet58" by linarith
  then show ?thesis using None by (simp add: getAlpha_def)
qed

lemma decode58_loop_eq:
  "decode58_loop s r = (case those (map val58 s) of
     None \<Rightarrow> Inl (CoreError INVALID_ARGUMENT ''invalid base58 value'')
   | Some ds \<Rightarrow> Inr (r * 58 ^ length s + int (of_digits 58 ds)))"
proof (induction s arbitrary: r)
  case (Cons c s)
  have "length ds = length s" if "those (map val58 s) = Some ds" for ds
    using that by (metis length_map those_eq_Some)
  with Cons show ?case by (auto simp: getAlpha_eq of_digits_Cons algebra_simps split: option.split)
qed simp

lemma decodeBase58_eq:
  "decodeBase58 s = (case decode_with val58 58 s of
     None \<Rightarrow> Inl (CoreError INVALID_ARGUMENT ''invalid base58 value'') | Some n \<Rightarrow> Inr (int n))"
  by (simp add: decodeBase58_def decode58_loop_eq decode_with_def split: option.split)

text \<open>
  Base58 keeps the number. Decoding what \<open>encodeBase58\<close> makes of bytes gives their
  big-endian value, and encoding the bytes of a decoded number gives the string without
  its leading ones.
\<close>

theorem base58_roundtrip:
  "bindE (encodeBase58 (DU8 bs)) decodeBase58 = Inr (int (bytes_value bs)) \<and>
   (decodeBase58 s = Inr n \<longrightarrow>
     bindE (toBeArray (DBig n)) (\<lambda>bs. encodeBase58 (DU8 bs)) = Inr (dropWhile (\<lambda>c. c = CHR ''1'') s))"
proof (intro conjI impI)
  show "bindE (encodeBase58 (DU8 bs)) decodeBase58 = Inr (int (bytes_value bs))"
    using b58.decode_encode [of "bytes_value bs"] by (simp add: encodeBase58_def toBigInt_bytes base58_loop_eq decodeBase58_eq)
  assume "decodeBase58 s = Inr n"
  then obtain k where k: "decode_with val58 58 s = Some k" "n = int k" by (auto simp: decodeBase58_eq split: option.splits)
  have "chr58 0 = CHR ''1''" by (simp add: chr58_def Alphabet58_def)
  then show "bindE (toBeArray (DBig n)) (\<lambda>bs. encodeBase58 (DU8 bs)) = Inr (dropWhile (\<lambda>c. c = CHR ''1'') s)"
    using b58.encode_decode [OF k(1)] by (simp add: k(2) toBeArray_nat encodeBase58_def toBigInt_bytes base58_loop_eq)
qed

theorem base58_roundtrip_witness:
  "encodeBase58 (DU8 [0, 1, 0]) = Inr ''5R'' \<and> bindE (encodeBase58 (DU8 [0, 1, 0])) decodeBase58 = Inr 256"
proof
  show "encodeBase58 (DU8 [0, 1, 0]) = Inr ''5R''" by code_simp
  show "bindE (encodeBase58 (DU8 [0, 1, 0])) decodeBase58 = Inr 256"
    using base58_roundtrip [of "[0, 1, 0]" "[]" 0] by (simp add: bytes_value_def of_digits_Cons)
qed

section \<open>UUID\<close>

text \<open>
  An element outside the array reads as zero in \<open>&\<close> and is not written. The second
  result is the array, which is the caller's own if it passed one.
\<close>

definition set_byte :: "nat \<Rightarrow> (byte \<Rightarrow> byte) \<Rightarrow> byte list \<Rightarrow> byte list" where
  "set_byte i f bs = (if i < length bs then bs[i := f (bs ! i)] else bs)"

definition uuidV4 :: "js_data \<Rightarrow> (string \<times> byte list) result" where
  "uuidV4 randomBytes =
     bindE (getBytes randomBytes) (\<lambda>bytes.
       let bytes = set_byte 8 (\<lambda>b. (b AND 0x3f) OR 0x80) (set_byte 6 (\<lambda>b. (b AND 0x0f) OR 0x40) bytes)
       in bindE (hexlify (DU8 bytes) no_options) (\<lambda>v.
            Inr (js_substring v 2 10 @ ''-'' @ js_substring v 10 14 @ ''-'' @ js_substring v 14 18 @ ''-'' @
                 js_substring v 18 22 @ ''-'' @ js_substring v 22 34, bytes)))"

text \<open>The array a caller passes is changed.\<close>

lemma uuidV4_changes_argument:
  "uuidV4 (DU8 (replicate 16 0xff)) =
     Inr (''ffffffff-ffff-4fff-bfff-ffffffffffff'', replicate 6 0xff @ [0x4f, 0xff, 0xbf] @ replicate 7 0xff)"
  by code_simp

end
