(* ===== verification/Typed_Props.thy ===== *)
theory Typed_Props
  imports Typed_Data
begin

text \<open>
  What \<open>TypedDataEncoder\<close> accepts and what it hashes: the references below the primary
  type are acyclic, and the full description of a type is its own followed by those of
  all types it depends on, sorted by name.
\<close>

section \<open>References\<close>

text \<open>The structs a list of fields refers to, and the edges of a table of types.\<close>

definition struct_ref :: "string list \<Rightarrow> fields \<Rightarrow> string \<Rightarrow> bool" where
  "struct_ref names fs b \<longleftrightarrow> b \<in> set names \<and> (\<exists>f \<in> set fs. base_type (snd f) = Some b \<and> getBaseEncoder b = Inr None)"

definition refers :: "type_table \<Rightarrow> (string \<times> string) set" where
  "refers types = {(a, b). \<exists>fs. map_of types a = Some fs \<and> struct_ref (map fst types) fs b}"

definition edges :: "string list \<Rightarrow> (string \<Rightarrow> string list) \<Rightarrow> (string \<times> string) set" where
  "edges names links = {(a, b). b \<in> set (links a) \<and> b \<in> set names}"

lemma set_set_add [simp]: "set (set_add x xs) = insert x (set xs)"
  by (auto simp: set_add_def)

lemma distinct_set_add [simp]: "distinct (set_add x xs) = distinct xs"
  by (auto simp: set_add_def)

lemma link_field_spec:
  assumes "link_field names name f (u, lk) = Inr (u', lk')"
  shows "set (lk_links lk' a) = set (lk_links lk a) \<union> (if a = name then {b. struct_ref names [f] b} else {})"
proof -
  obtain fname ftype where f: "f = (fname, ftype)" by (cases f)
  with assms obtain b encoder where b: "base_type ftype = Some b" and enc: "getBaseEncoder b = Inr encoder"
    by (auto simp: link_field_def split: option.splits)
  show ?thesis
  proof (cases encoder)
    case None
    then show ?thesis using assms f b enc by (auto simp: link_field_def struct_ref_def)
  next
    case (Some be)
    then show ?thesis using assms f b enc by (auto simp: link_field_def struct_ref_def)
  qed
qed

lemma foldE_fields_spec:
  assumes "foldE (link_field names name) fs (u, lk) = Inr (u', lk')"
  shows "set (lk_links lk' a) = set (lk_links lk a) \<union> (if a = name then {b. struct_ref names fs b} else {})"
  using assms
proof (induction fs arbitrary: u lk)
  case (Cons f fs)
  then obtain u1 lk1 where 1: "link_field names name f (u, lk) = Inr (u1, lk1)" "foldE (link_field names name) fs (u1, lk1) = Inr (u', lk')"
    by auto
  have "{b. struct_ref names (f # fs) b} = {b. struct_ref names [f] b} \<union> {b. struct_ref names fs b}"
    by (auto simp: struct_ref_def)
  then show ?case using link_field_spec [OF 1(1), of a] Cons.IH [OF 1(2)] by auto
qed (auto simp: struct_ref_def)

lemma link_types_spec:
  assumes "foldE (link_type names) types lk = Inr lk'" and "distinct (map fst types)"
  shows "set (lk_links lk' a) = set (lk_links lk a) \<union> (case map_of types a of None \<Rightarrow> {} | Some fs \<Rightarrow> {b. struct_ref names fs b})"
  using assms
proof (induction types arbitrary: lk)
  case (Cons t types)
  obtain name fs where t: "t = (name, fs)" by (cases t)
  from Cons.prems(1) obtain u lk1 where 1: "foldE (link_field names name) fs ([], lk) = Inr (u, lk1)"
    "foldE (link_type names) types lk1 = Inr lk'"
    by (auto simp: link_type_def [of names "(name, fs)"] t)
  have "name \<notin> fst ` set types" using Cons.prems(2) by (auto simp: t)
  then have "map_of types name = None" by (simp add: map_of_eq_None_iff)
  then show ?case
    using foldE_fields_spec [OF 1(1), of a] Cons.IH [OF 1(2)] Cons.prems(2) by (auto simp: t)
qed simp

lemma edges_refers:
  assumes "link_types types = Inr lk" and "distinct (map fst types)"
  shows "edges (map fst types) (lk_links lk) = refers types"
  using link_types_spec [OF assms(1) [unfolded link_types_def] assms(2)]
  by (fastforce simp: edges_def refers_def struct_ref_def split: option.splits)

section \<open>Circular references\<close>

definition below :: "(string \<times> string) set \<Rightarrow> string \<Rightarrow> string set" where
  "below E a = {x. (a, x) \<in> E\<^sup>+}"

definition from_type :: "(string \<times> string) set \<Rightarrow> string \<Rightarrow> string set" where
  "from_type E a = {x. (a, x) \<in> E\<^sup>*}"

lemma from_type_below: "from_type E a = insert a (below E a)"
  by (auto simp: from_type_def below_def rtrancl_eq_or_trancl)

lemma below_children: "below (edges names links) a = (\<Union>c \<in> set (links a) \<inter> set names. from_type (edges names links) c)"
proof -
  have "(a, x) \<in> (edges names links)\<^sup>+ \<longleftrightarrow> (\<exists>c. (a, c) \<in> edges names links \<and> (c, x) \<in> (edges names links)\<^sup>*)" for x
    by (meson r_into_rtrancl tranclD rtrancl_into_trancl2)
  then show ?thesis by (auto simp: below_def from_type_def edges_def)
qed

definition acyclic_from :: "(string \<times> string) set \<Rightarrow> string \<Rightarrow> bool" where
  "acyclic_from E a \<longleftrightarrow> (\<forall>x \<in> from_type E a. x \<notin> below E x)"

definition marks :: "(string \<times> string) set \<Rightarrow> string set \<Rightarrow> string list \<Rightarrow> string set \<Rightarrow> string \<Rightarrow> string set" where
  "marks E down found region t = (if t \<in> set found then down else if t \<in> region then below E t else {})"

lemma set_mark_subtype: "set (mark_subtype c found subs t) = set (subs t) \<union> (if t \<in> set found then {c} else {})"
  by (simp add: mark_subtype_def)

lemma checkCircular_spec:
  "checkCircular names links type found subs = Inr subs' \<Longrightarrow>
      from_type (edges names links) type \<inter> set found = {} \<and> acyclic_from (edges names links) type \<and>
      (\<forall>t. set (subs' t) = set (subs t) \<union>
        marks (edges names links) (below (edges names links) type) found (from_type (edges names links) type) t)"
  "checkChildren names links cs found subs = Inr subs' \<Longrightarrow>
      (\<forall>c \<in> set cs \<inter> set names. from_type (edges names links) c \<inter> set found = {} \<and> acyclic_from (edges names links) c) \<and>
      (\<forall>t. set (subs' t) = set (subs t) \<union>
        marks (edges names links) (\<Union>c \<in> set cs \<inter> set names. from_type (edges names links) c) found
          (\<Union>c \<in> set cs \<inter> set names. from_type (edges names links) c) t)"
proof (induction names links type found subs and names links cs found subs
    arbitrary: subs' and subs' rule: checkCircular_checkChildren.induct)
  case (1 names links type found subs)
  let ?E = "edges names links"
  have new: "type \<notin> set found" "type \<in> set names"
    and call: "checkChildren names links (links type) (found @ [type]) subs = Inr subs'"
    using "1.prems" by (auto split: if_splits)
  note IH = "1.IH" [OF new(1) _ call, simplified new, simplified]
  have down: "below ?E type = (\<Union>c \<in> set (links type) \<inter> set names. from_type ?E c)" by (rule below_children)
  have clear: "below ?E type \<inter> set (found @ [type]) = {}" using IH unfolding down by fastforce
  have "acyclic_from ?E type"
    unfolding acyclic_from_def from_type_below [of ?E type]
  proof
    fix x
    assume "x \<in> insert type (below ?E type)"
    then consider "x = type" | c where "c \<in> set (links type) \<inter> set names" "x \<in> from_type ?E c" unfolding down by auto
    then show "x \<notin> below ?E x"
    proof cases
      case 1
      then show ?thesis using clear by auto
    next
      case 2
      then show ?thesis using IH by (auto simp: acyclic_from_def)
    qed
  qed
  moreover have "from_type ?E type \<inter> set found = {}" using clear new(1) by (auto simp: from_type_below)
  moreover have "set (subs' t) = set (subs t) \<union> marks ?E (below ?E type) found (from_type ?E type) t" for t
    using IH clear unfolding down [symmetric] by (auto simp: marks_def from_type_below [of ?E type] split: if_splits)
  ultimately show ?case by blast
next
  case (2 names links found subs)
  then show ?case by (simp add: marks_def)
next
  case (3 names links child cs found subs)
  let ?E = "edges names links"
  show ?case
  proof (cases "child \<in> set names")
    case False
    then show ?thesis using 3 by simp
  next
    case True
    then obtain s1 where s1: "checkCircular names links child found subs = Inr s1"
      "checkChildren names links cs found (mark_subtype child found s1) = Inr subs'"
      using "3.prems" by auto
    note IH1 = "3.IH"(2) [OF _ s1(1)] and IH2 = "3.IH"(3) [OF _ s1]
    have "set (subs' t) = set (subs t) \<union>
        marks ?E (\<Union>c \<in> set (child # cs) \<inter> set names. from_type ?E c) found (\<Union>c \<in> set (child # cs) \<inter> set names. from_type ?E c) t" for t
      using IH1 IH2 True by (auto simp: set_mark_subtype marks_def from_type_below [of ?E child])
    then show ?thesis using IH1 IH2 True by auto
  qed
qed

lemma distinct_subs:
  "checkCircular names links type found subs = Inr subs' \<Longrightarrow> (\<forall>t. distinct (subs t)) \<Longrightarrow> (\<forall>t. distinct (subs' t))"
  "checkChildren names links cs found subs = Inr subs' \<Longrightarrow> (\<forall>t. distinct (subs t)) \<Longrightarrow> (\<forall>t. distinct (subs' t))"
proof (induction names links type found subs and names links cs found subs
    arbitrary: subs' and subs' rule: checkCircular_checkChildren.induct)
  case (1 names links type found subs)
  then show ?case by (auto split: if_splits)
next
  case (3 names links child cs found subs)
  show ?case
  proof (cases "child \<in> set names")
    case True
    then obtain s1 where s1: "checkCircular names links child found subs = Inr s1"
      "checkChildren names links cs found (mark_subtype child found s1) = Inr subs'" using "3.prems" by auto
    have "\<forall>t. distinct (s1 t)" using "3.IH"(2) [OF _ s1(1)] "3.prems"(2) True by blast
    then have "\<forall>t. distinct (mark_subtype child found s1 t)" by (simp add: mark_subtype_def)
    then show ?thesis using "3.IH"(3) [OF _ s1] True by blast
  qed (use 3 in simp)
qed simp

section \<open>Properties\<close>

text \<open>
  C23. Full types. When a table of types is accepted, no type the primary type depends on
  refers to itself, directly or not, and the string hashed for each of them is its own
  description followed by those of exactly the types it depends on, each once, sorted by
  name.
\<close>

theorem typed_data_types:
  assumes "new_TypedDataEncoder types = Inr te" and "distinct (map fst types)"
    and "t \<in> from_type (refers types) (te_primaryType te)"
  shows "t \<notin> below (refers types) t \<and>
    (\<exists>ds. set ds = below (refers types) t \<and> sorted ds \<and> distinct ds \<and>
      map_of (te_fullTypes te) t = Some (concat (map (\<lambda>d. encodeType_one d (the (map_of types d))) (t # ds))))"
proof -
  obtain lk where lk: "link_types types = Inr lk" using assms(1) by (auto simp: new_TypedDataEncoder_def)
  define names ps where "names = map fst types" and "ps = filter (\<lambda>n. lk_parents lk n = []) names"
  obtain subs where subs: "checkCircular names (lk_links lk) (hd ps) [] (\<lambda>_. []) = Inr subs"
    and te: "te_primaryType te = hd ps" "te_fullTypes te = map (\<lambda>n. (n, full_type types subs n)) names"
    and "length ps = 1"
    using assms(1) lk by (auto simp: new_TypedDataEncoder_def Let_def names_def ps_def)
  have E: "edges names (lk_links lk) = refers types" unfolding names_def by (rule edges_refers [OF lk assms(2)])
  from checkCircular_spec(1) [OF subs, unfolded E]
  have acyclic: "acyclic_from (refers types) (hd ps)"
    and set: "set (subs t) = below (refers types) t" using assms(3) by (simp_all add: marks_def te(1))
  have "hd ps \<in> set ps" using \<open>length ps = 1\<close> by (cases ps) auto
  then have "hd ps \<in> set names" by (simp add: ps_def)
  moreover have "(hd ps, t) \<in> (refers types)\<^sup>*" using assms(3) by (simp add: from_type_def te(1))
  ultimately have "t \<in> set names"
    by (auto elim!: rtranclE simp: refers_def struct_ref_def names_def)
  then have "map_of (te_fullTypes te) t = Some (full_type types subs t)"
    unfolding te(2) by (simp add: map_of_map_restrict)
  moreover have "distinct (sort (subs t))" using distinct_subs(1) [OF subs] by simp
  moreover have "t \<notin> below (refers types) t" using acyclic assms(3) by (simp add: acyclic_from_def te(1))
  ultimately show ?thesis
    using set by (intro conjI exI [of _ "sort (subs t)"]) (simp_all add: full_type_def)
qed

definition mail_types :: type_table where
  "mail_types = [(''Mail'', [(''from'', ''Person''), (''text'', ''string'')]), (''Person'', [(''name'', ''string''), (''wallet'', ''address'')])]"

lemma mail_encoder:
  "new_TypedDataEncoder mail_types =
     Inr \<lparr>te_types = mail_types, te_primaryType = ''Mail'',
          te_fullTypes = [(''Mail'', ''Mail(Person from,string text)Person(string name,address wallet)''),
                          (''Person'', ''Person(string name,address wallet)'')]\<rparr>"
  by code_simp

theorem typed_data_types_witness:
  "''Mail'' \<notin> below (refers mail_types) ''Mail'' \<and> distinct (map fst mail_types)"
proof
  show d: "distinct (map fst mail_types)" by code_simp
  show "''Mail'' \<notin> below (refers mail_types) ''Mail''"
    using typed_data_types [OF mail_encoder d, of "''Mail''"] by (simp add: from_type_def)
qed

text \<open>
  Types that are not used are not checked: the two that only refer to each
  other each have a parent, so neither is taken for a second primary type.
\<close>

definition cyclic_types :: type_table where
  "cyclic_types = [(''A'', [(''x'', ''bool'')]), (''B'', [(''c'', ''C'')]), (''C'', [(''b'', ''B[]'')])]"

lemma unused_cycle_accepted:
  "(case new_TypedDataEncoder cyclic_types of Inr te \<Rightarrow> te_primaryType te = ''A'' | Inl _ \<Rightarrow> False)"
  "''B'' \<in> below (refers cyclic_types) ''B''"
proof -
  show "(case new_TypedDataEncoder cyclic_types of Inr te \<Rightarrow> te_primaryType te = ''A'' | Inl _ \<Rightarrow> False)" by code_simp
  have "base_type ''C'' = Some ''C''" "base_type ''B[]'' = Some ''B''" "getBaseEncoder ''B'' = Inr None" "getBaseEncoder ''C'' = Inr None"
    by code_simp+
  then have "(''B'', ''C'') \<in> refers cyclic_types" "(''C'', ''B'') \<in> refers cyclic_types"
    by (auto simp: refers_def cyclic_types_def struct_ref_def)
  then show "''B'' \<in> below (refers cyclic_types) ''B''" unfolding below_def by (auto intro: trancl_trans)
qed

end
