(* ===== verification/Spec2Isabelle.thy ===== *)
theory Spec2Isabelle
  imports Rlp Big_Number Abi Sending Provider_Wait_Props Hd_Wallet_Props Interface_Calls Ccip_Props Provider_Events_Props Fetch_Props Fallback_Props Jsonrpc_Props Subscribers_Props Fixed_Props Mnemonic_Props Encodings Typed_Props Packed
begin

text \<open>
  corebc.js: a verification development of the TypeScript library under \<open>src/src.ts\<close>.

  The library is a client of the Core blockchain. Its parts, from the bottom up, and the
  theories that model them; \<open>X_Props\<close> has the properties of \<open>X\<close>:

  \<^item> Shared. \<open>Prelude\<close> (the error monad with its lemmas, generic facts on lists and
    options) and \<open>Machine\<close> (the interface of the state machines with the rules for
    invariants and ranks, which each asynchronous component interprets).
  \<^item> Values and errors. \<open>Js\<close> has what the code uses of JavaScript itself (numbers with
    their non-integers, \<open>BigInt\<close>, strings, \<open>substring\<close>, \<open>parseInt\<close>, the union of the
    values the helpers accept, digits over an alphabet); \<open>Errors\<close> has \<open>utils/errors.ts\<close> and
    \<open>logger/logger.ts\<close>. A function that may throw returns \<open>error + 'a\<close>; the error says which
    kind of exception leaves the function and with which code. A loop that may not end is a
    value of its own (\<open>NoReturn\<close>, or \<open>None\<close> of a partial function), so that totality is a theorem.
  \<^item> Data. \<open>Hex_Data\<close> (\<open>utils/data.ts\<close>: bytes, hex strings, padding, slices), \<open>Maths\<close>
    (\<open>utils/maths.ts\<close>: two's complement, \<open>getBigInt\<close>, \<open>toBeArray\<close>, \<open>toQuantity\<close>), \<open>Utf8\<close>
    (\<open>utils/utf8.ts\<close> over the UTF-16 code units of JavaScript strings), \<open>Rlp\<close>
    (\<open>utils/rlp-encode.ts\<close>, \<open>rlp-decode.ts\<close>, and the second implementation in
    \<open>utils/rlp.ts\<close>), \<open>Big_Number\<close> (\<open>utils/bignumber.ts\<close>; the \<open>bn.js\<close> package is a
    parameter with its documented laws), \<open>Fixed_Number\<close> (\<open>utils/fixednumber.ts\<close>,
    \<open>units.ts\<close>), \<open>Encodings\<close> (\<open>utils/base58.ts\<close>, \<open>uuid.ts\<close>), \<open>Packed\<close> (\<open>hash/solidity.ts\<close>,
    \<open>hash/message.ts\<close>, \<open>abi/bytes32.ts\<close>), \<open>Typed_Data\<close> (\<open>hash/typed-data.ts\<close>).
  \<^item> Addresses, keys and wallets. \<open>Address\<close> (\<open>address/\<close>: checksum, ICAP, derived addresses),
    \<open>Ed448\<close> and \<open>Hd_Keys\<close> (\<open>crypto/ed448-types.ts\<close>, \<open>crypto/ed448.ts\<close>,
    \<open>crypto/signing-key.ts\<close>), \<open>Wordlists\<close> and \<open>Mnemonic\<close> (\<open>wordlists/\<close>,
    \<open>wallet/mnemonic.ts\<close>), \<open>Hd_Wallet\<close> (\<open>wallet/hdwallet.ts\<close>), \<open>Signers\<close>
    (\<open>providers/abstract-signer.ts\<close>, \<open>wallet/base-wallet.ts\<close>). The curve, the hashes, PBKDF2
    and the Unicode normalisation are parameters.
  \<^item> Transactions. \<open>Transaction\<close> and \<open>Transaction_Props\<close> (\<open>transaction/\<close>).
  \<^item> ABI. \<open>Abi_Coder\<close> has the writer, the reader and every coder of \<open>abi/coders/\<close>
    with \<open>encode\<close> and \<open>decode\<close>; \<open>Abi_Roundtrip\<close> and \<open>Abi_Sound\<close> have the lemmas on
    them, and \<open>Abi\<close> has \<open>AbiCoder\<close> and the properties. \<open>Signature_Lexer\<close> and \<open>Fragments\<close>
    (\<open>abi/fragments.ts\<close>) read and print signatures; \<open>Signature_Props\<close>, \<open>Fragments_Props\<close>
    and \<open>Fragments_Full\<close> show how printed text is read. \<open>Interface\<close>, with
    \<open>Interface_Props\<close> and \<open>Interface_Calls\<close> (\<open>abi/interface.ts\<close>), builds calls, results,
    errors and logs from both.
  \<^item> Requests. \<open>Fetch\<close> (\<open>utils/fetch.ts\<close>, \<open>geturl.ts\<close>: redirects, retries, hooks),
    \<open>Requests\<close> and \<open>Provider_Requests\<close> (\<open>providers/abstract-provider.ts\<close>: what a provider
    makes of its arguments), \<open>Jsonrpc\<close> (\<open>providers/provider-jsonrpc.ts\<close>: request
    translation, errors, the queue and its batches), \<open>Fallback\<close> and \<open>Fallback_Machine\<close>
    (\<open>providers/provider-fallback.ts\<close>: tallies, dispatch, the quorum loop), \<open>Ccip\<close>
    (off-chain lookups of \<open>abstract-provider.ts\<close>).
  \<^item> Answers and events. \<open>Provider_Format\<close> (\<open>providers/format.ts\<close>), \<open>Provider_Data\<close>
    (\<open>providers/provider.ts\<close>), \<open>Provider_Wait\<close> (waiting for a transaction and its
    replacements), \<open>Sending\<close> (from a wallet to the response), \<open>Provider_Events\<close>
    (subscriptions and timers of \<open>abstract-provider.ts\<close>), \<open>Subscribers\<close>
    (\<open>providers/subscriber-polling.ts\<close>, \<open>subscriber-filterid.ts\<close>,
    \<open>signer-noncemanager.ts\<close>).

  What the lemmas show. Of the data parts: round trips (RLP, UTF-8, two's complement,
  ABI values, transactions, keys, mnemonics, signatures), exact ranges and which inputs are
  refused with which error. Of the asynchronous parts: invariants of every reachable state,
  bounds on the number of steps, and, where an operation implements a simpler contract,
  the refinement of it (\<open>events_refine_registry\<close>). Where the code does not do what it means
  to, the theorem states what it does.

  State and concurrency. An \<open>async\<close> method gives up control at each \<open>await\<close>. Such a
  component is a record of its private fields with the calls under way, each at the point
  where it waits, and an inductive step relation: a step runs one call, timer or answer
  up to the next wait. A theorem on reachable states then covers every order of timers,
  answers and failures. Some records have fields that only record what happened (which
  requests were abandoned, which blocks were fetched or scanned); no operation reads them
  but to record.

  Integers. \<open>BigInt\<close> is \<open>int\<close>; a JavaScript number that is an integer is an \<open>int\<close>, with
  the 32-bit conversions of the bitwise operators written out where the code uses them;
  bytes are \<open>8 word\<close>, UTF-16 code units \<open>16 word\<close>.

  Fuel. The RLP decoders take twice the number of bytes as fuel or more, and
  \<open>rlp_decode_terminates\<close> shows it is enough. The cursor over the parameters of a signature
  takes the number of its tokens, which is enough for links that go forward, as they do in
  every text that is printed (\<open>popParams_paren\<close>). All other loops end by a measure.

  Not modelled: the wire (sockets and HTTP of the platform), the vendor providers, which only
  build URLs, the contracts of \<open>contract/\<close> (dynamic proxies over an \<open>Interface\<close> and a
  provider), the registry of networks, JSON wallets, secp256k1 signature objects, generated
  contract types, the data of the word lists, the tests, and the packages for cryptography
  and big numbers, which are parameters.
\<close>

end
